(* ===== verification/C_Base.thy ===== *)
theory C_Base
  imports Main "HOL-Library.Multiset"
begin

text \<open>
  The part of the C language and its standard library that the modelled programs use, and
  the lemmas the components share.

  A C string is the list of its characters before the terminating NUL. An operation whose
  behaviour the C standard leaves undefined (an access outside an array, a dereference of
  NULL, a read of an uninitialised object, a signed overflow, a copy past the end of its
  destination, a function that ends without the value it is to return, a division by zero, a
  delete of what may not be deleted) does not get a made-up value: it is the error value \<open>Inl e\<close> of a result type
  \<open>'a res\<close>, so that the absence of undefined behaviour is a property that can be stated
  and proved, and its presence can be exhibited on a concrete input.
\<close>

named_theorems c_limits \<open>the numeric limits of the programs (their #define constants)\<close>
named_theorems res_simps \<open>how the result type propagates errors\<close>

section \<open>Undefined behaviour as a value\<close>

datatype ub =
    OutOfBounds
  | NullDeref
  | UninitRead
  | SignedOverflow
  | BufferOverflow
  | UseAfterFree
  | ValueNotRepresentable
  | MissingReturn
  | DivisionByZero
  | BadDelete

type_synonym 'a res = "ub + 'a"

definition rbind :: "'a res \<Rightarrow> ('a \<Rightarrow> 'b res) \<Rightarrow> 'b res" where
  "rbind m f = (case m of Inl e \<Rightarrow> Inl e | Inr a \<Rightarrow> f a)"

lemma rbind_Inl [simp, res_simps]: "rbind (Inl e) f = Inl e"
  by (simp add: rbind_def)

lemma rbind_Inr [simp, res_simps]: "rbind (Inr a) f = f a"
  by (simp add: rbind_def)

lemma rbind_eq_Inr: "rbind m f = Inr b \<longleftrightarrow> (\<exists>a. m = Inr a \<and> f a = Inr b)"
  by (cases m) auto

lemma rbind_eq_Inl: "rbind m f = Inl e \<longleftrightarrow> m = Inl e \<or> (\<exists>a. m = Inr a \<and> f a = Inl e)"
  by (cases m) auto

definition defined :: "'a res \<Rightarrow> bool" where
  "defined m = (case m of Inl e \<Rightarrow> False | Inr a \<Rightarrow> True)"

lemma defined_simps [simp]: "\<not> defined (Inl e)" "defined (Inr a)"
  by (simp_all add: defined_def)

lemma defined_ex: "defined m \<longleftrightarrow> (\<exists>a. m = Inr a)"
  by (cases m) auto

text \<open>Reading and writing an array: outside its bounds both are undefined.\<close>

definition rd :: "'a list \<Rightarrow> nat \<Rightarrow> 'a res" where
  "rd xs i = (if i < length xs then Inr (xs ! i) else Inl OutOfBounds)"

definition wr :: "'a list \<Rightarrow> nat \<Rightarrow> 'a \<Rightarrow> 'a list res" where
  "wr xs i x = (if i < length xs then Inr (xs[i := x]) else Inl OutOfBounds)"

lemma rd_in [simp, res_simps]: "i < length xs \<Longrightarrow> rd xs i = Inr (xs ! i)"
  by (simp add: rd_def)

lemma rd_out [res_simps]: "length xs \<le> i \<Longrightarrow> rd xs i = Inl OutOfBounds"
  by (simp add: rd_def)

lemma wr_in [simp, res_simps]: "i < length xs \<Longrightarrow> wr xs i x = Inr (xs[i := x])"
  by (simp add: wr_def)

lemma wr_out [res_simps]: "length xs \<le> i \<Longrightarrow> wr xs i x = Inl OutOfBounds"
  by (simp add: wr_def)

section \<open>Machine integers\<close>

text \<open>
  Values of C's \<open>int\<close> and \<open>long\<close> are kept as mathematical integers with their range written
  out; an addition that leaves the range is the undefined \<open>SignedOverflow\<close>.
\<close>

definition in_signed :: "nat \<Rightarrow> int \<Rightarrow> bool" where
  "in_signed w x \<longleftrightarrow> - (2 ^ (w - 1)) \<le> x \<and> x < 2 ^ (w - 1)"

definition add_int :: "int \<Rightarrow> int \<Rightarrow> int res" where
  "add_int a b = (if in_signed 32 (a + b) then Inr (a + b) else Inl SignedOverflow)"

definition sub_int :: "int \<Rightarrow> int \<Rightarrow> int res" where
  "sub_int a b = (if in_signed 32 (a - b) then Inr (a - b) else Inl SignedOverflow)"

lemma in_signed_32: "in_signed 32 x \<longleftrightarrow> - 2147483648 \<le> x \<and> x \<le> 2147483647"
  by (auto simp: in_signed_def)

lemma in_signed_64:
  "in_signed 64 x \<longleftrightarrow> - 9223372036854775808 \<le> x \<and> x \<le> 9223372036854775807"
  by (auto simp: in_signed_def)

lemma add_int_Inr: "add_int a b = Inr c \<longleftrightarrow> c = a + b \<and> in_signed 32 (a + b)"
  by (auto simp: add_int_def)

lemma sub_int_Inr: "sub_int a b = Inr c \<longleftrightarrow> c = a - b \<and> in_signed 32 (a - b)"
  by (auto simp: sub_int_def)

definition fits :: "nat \<Rightarrow> int \<Rightarrow> int res" where
  "fits w x = (if in_signed w x then Inr x else Inl SignedOverflow)"

lemma fits_in [simp]: "in_signed w x \<Longrightarrow> fits w x = Inr x"
  by (simp add: fits_def)

lemma fits_Inr: "fits w x = Inr y \<longleftrightarrow> y = x \<and> in_signed w x"
  by (auto simp: fits_def)

text \<open>The conversions from \<open>long\<close> to \<open>size_t\<close> and to \<open>int\<close>.\<close>

definition size_of :: "int \<Rightarrow> nat" where
  "size_of x = nat (x mod 18446744073709551616)"

definition int_of_long :: "int \<Rightarrow> int" where
  "int_of_long x = (x + 2147483648) mod 4294967296 - 2147483648"

lemma size_of_nonneg: "0 \<le> x \<Longrightarrow> x < 18446744073709551616 \<Longrightarrow> size_of x = nat x"
  by (simp add: size_of_def)

lemma size_of_int [simp]: "n < 18446744073709551616 \<Longrightarrow> size_of (int n) = n"
  using size_of_nonneg [of "int n"] by simp

lemma int_of_long_in: "in_signed 32 x \<Longrightarrow> int_of_long x = x"
  by (simp add: int_of_long_def in_signed_32)

section \<open>Character classes\<close>

definition NUL :: char where "NUL = CHR 0x00"
definition LF :: char where "LF = CHR 0x0A"
definition CR :: char where "CR = CHR 0x0D"

text \<open>The apostrophe, which a HOL string literal cannot end in.\<close>

definition sq :: string where "sq = [CHR 0x27]"

definition nl :: string where "nl = [LF]"

definition isdigit :: "char \<Rightarrow> bool" where
  "isdigit c \<longleftrightarrow> 48 \<le> (of_char c :: nat) \<and> (of_char c :: nat) \<le> 57"

definition isalnum :: "char \<Rightarrow> bool" where
  "isalnum c \<longleftrightarrow> (let n = (of_char c :: nat) in
     48 \<le> n \<and> n \<le> 57 \<or> 65 \<le> n \<and> n \<le> 90 \<or> 97 \<le> n \<and> n \<le> 122)"

text \<open>Space, tab, newline, vertical tab, form feed and carriage return.\<close>

definition isspace :: "char \<Rightarrow> bool" where
  "isspace c \<longleftrightarrow> (let n = (of_char c :: nat) in n = 32 \<or> 9 \<le> n \<and> n \<le> 13)"

definition tolower :: "char \<Rightarrow> char" where
  "tolower c = (let n = (of_char c :: nat) in if 65 \<le> n \<and> n \<le> 90 then char_of (n + 32) else c)"

section \<open>Strings\<close>

text \<open>The C string held by a character array: what precedes the first NUL.\<close>

definition cstr :: "char list \<Rightarrow> string" where
  "cstr bs = takeWhile (\<lambda>c. c \<noteq> NUL) bs"

text \<open>\<open>snprintf (buf, n, ...)\<close> and \<open>strncpy (buf, s, n - 1)\<close> with a terminator keep n - 1 characters.\<close>

definition snprintf :: "nat \<Rightarrow> string \<Rightarrow> string" where
  "snprintf n s = take (n - 1) s"

definition starts_with :: "string \<Rightarrow> string \<Rightarrow> bool" where
  "starts_with p s \<longleftrightarrow> take (length p) s = p"

lemma starts_with_append [simp]: "starts_with p (p @ s)"
  by (simp add: starts_with_def)

lemma starts_with_iff: "starts_with p s \<longleftrightarrow> (\<exists>t. s = p @ t)"
  by (metis append_eq_conv_conj append_take_drop_id starts_with_def)

text \<open>\<open>strchr\<close> and \<open>strrchr\<close>, as the suffix that starts at the character found.\<close>

fun strchr :: "string \<Rightarrow> char \<Rightarrow> string option" where
  "strchr [] c = None"
| "strchr (x # xs) c = (if x = c then Some (x # xs) else strchr xs c)"

fun strrchr :: "string \<Rightarrow> char \<Rightarrow> string option" where
  "strrchr [] c = None"
| "strrchr (x # xs) c =
     (case strrchr xs c of Some t \<Rightarrow> Some t | None \<Rightarrow> if x = c then Some (x # xs) else None)"

definition strcasecmp_eq :: "string \<Rightarrow> string \<Rightarrow> bool" where
  "strcasecmp_eq s t \<longleftrightarrow> map tolower s = map tolower t"

lemma strchr_None: "strchr s c = None \<longleftrightarrow> c \<notin> set s"
  by (induction s) auto

lemma strchr_Some: "strchr s c = Some t \<Longrightarrow> \<exists>p. s = p @ t \<and> c \<notin> set p \<and> (\<exists>u. t = c # u)"
proof (induction s)
  case Nil
  then show ?case by simp
next
  case (Cons x xs)
  show ?case
  proof (cases "x = c")
    case True
    with Cons.prems show ?thesis by (intro exI [of _ "[]"]) auto
  next
    case False
    with Cons obtain p where "xs = p @ t" "c \<notin> set p" "\<exists>u. t = c # u" by auto
    with False show ?thesis by (intro exI [of _ "x # p"]) auto
  qed
qed

lemma strrchr_None: "strrchr s c = None \<longleftrightarrow> c \<notin> set s"
  by (induction s) (auto split: option.splits)

lemma strrchr_Some:
  "strrchr s c = Some t \<Longrightarrow> \<exists>p u. s = p @ t \<and> t = c # u \<and> c \<notin> set u"
proof (induction s)
  case Nil
  then show ?case by simp
next
  case (Cons x xs)
  show ?case
  proof (cases "strrchr xs c")
    case None
    with Cons.prems show ?thesis by (auto simp: strrchr_None split: if_splits)
  next
    case (Some t')
    with Cons show ?thesis by (metis append_Cons option.simps(5) strrchr.simps(2))
  qed
qed

section \<open>First match in an array\<close>

fun first_index :: "('a \<Rightarrow> bool) \<Rightarrow> 'a list \<Rightarrow> nat option" where
  "first_index p [] = None"
| "first_index p (x # xs) = (if p x then Some 0 else map_option Suc (first_index p xs))"

lemma first_index_None: "first_index p xs = None \<longleftrightarrow> (\<forall>x \<in> set xs. \<not> p x)"
  by (induction xs) auto

lemma first_index_Some:
  "first_index p xs = Some i \<longleftrightarrow> i < length xs \<and> p (xs ! i) \<and> (\<forall>j < i. \<not> p (xs ! j))"
proof (induction xs arbitrary: i)
  case Nil
  then show ?case by simp
next
  case (Cons x xs)
  show ?case
    by (cases i) (auto simp: Cons.IH less_Suc_eq_0_disj)
qed

lemma first_index_SomeD:
  assumes "first_index p xs = Some i"
  shows "i < length xs" "p (xs ! i)"
  using assms by (auto simp: first_index_Some)

section \<open>Lists updated by index\<close>

lemma nth_list_update_if: "i < length xs \<Longrightarrow> xs[i := x] ! j = (if j = i then x else xs ! j)"
  by (simp add: nth_list_update)

lemma nth_in_take: "i < n \<Longrightarrow> n \<le> length xs \<Longrightarrow> xs ! i \<in> set (take n xs)"
  by (metis length_take min.absorb2 nth_mem nth_take)

text \<open>The length of a filtered list when one element changes.\<close>

lemma length_filter_update:
  assumes "i < length xs"
  shows "length (filter p (xs[i := x])) + (if p (xs ! i) then 1 else 0)
    = length (filter p xs) + (if p x then 1 else 0)"
proof -
  have eq: "xs = take i xs @ xs ! i # drop (Suc i) xs"
    using assms by (rule id_take_nth_drop)
  have "length (filter p xs) = length (filter p (take i xs))
    + (if p (xs ! i) then 1 else 0) + length (filter p (drop (Suc i) xs))"
    by (subst eq) simp
  moreover have "length (filter p (xs[i := x])) = length (filter p (take i xs))
    + (if p x then 1 else 0) + length (filter p (drop (Suc i) xs))"
    by (subst upd_conv_take_nth_drop [OF assms]) simp
  ultimately show ?thesis by simp
qed

text \<open>Removing the element at an index.\<close>

definition remove_nth :: "nat \<Rightarrow> 'a list \<Rightarrow> 'a list" where
  "remove_nth i xs = take i xs @ drop (Suc i) xs"

lemma length_remove_nth [simp]: "i < length xs \<Longrightarrow> length (remove_nth i xs) = length xs - 1"
  by (simp add: remove_nth_def)

lemma set_remove_nth_subset: "set (remove_nth i xs) \<subseteq> set xs"
  by (auto simp: remove_nth_def dest: in_set_takeD in_set_dropD)

lemma mset_remove_nth: "i < length xs \<Longrightarrow> mset (remove_nth i xs) = mset xs - {#xs ! i#}"
  by (subst (2) id_take_nth_drop) (auto simp: remove_nth_def)

lemma distinct_remove_nth:
  assumes "distinct xs" "i < length xs"
  shows "distinct (remove_nth i xs)" "xs ! i \<notin> set (remove_nth i xs)"
proof -
  have "distinct (take i xs @ xs ! i # drop (Suc i) xs)"
    using assms by (simp add: id_take_nth_drop [symmetric])
  then show "distinct (remove_nth i xs)" "xs ! i \<notin> set (remove_nth i xs)"
    by (auto simp: remove_nth_def)
qed

section \<open>Closing a gap in an array\<close>

text \<open>\<open>for (; j < n - 1; j++) a [j] = a [j + 1];\<close>\<close>

function shift_left :: "'a list \<Rightarrow> nat \<Rightarrow> nat \<Rightarrow> 'a list res" where
  "shift_left us j n =
     (if j + 1 < n then rbind (rd us (j + 1)) (\<lambda>u. rbind (wr us j u) (\<lambda>us'. shift_left us' (j + 1) n))
      else Inr us)"
  by pat_completeness auto
termination
  by (relation "measure (\<lambda>(us, j, n). n - j)") auto

declare shift_left.simps [simp del]

lemma shift_left_spec:
  assumes "n \<le> length us" "j < n"
  shows "shift_left us j n = Inr (take j us @ drop (Suc j) (take n us) @ drop (n - 1) us)"
  using assms
proof (induction us j n rule: shift_left.induct)
  case (1 us j n)
  show ?case
  proof (cases "j + 1 < n")
    case True
    let ?us = "us[j := us ! (j + 1)]"
    have "shift_left us j n = shift_left ?us (j + 1) n"
      using True "1.prems" by (simp add: shift_left.simps [of us j])
    also have "\<dots> = Inr (take (j + 1) ?us @ drop (Suc (j + 1)) (take n ?us) @ drop (n - 1) ?us)"
      using "1.IH" True "1.prems" by simp
    also have "take (j + 1) ?us = take j us @ [us ! (j + 1)]"
      using True "1.prems" by (simp add: take_Suc_conv_app_nth)
    also have "drop (Suc (j + 1)) (take n ?us) = drop (Suc (j + 1)) (take n us)"
      by (simp add: take_update_swap)
    also have "drop (n - 1) ?us = drop (n - 1) us"
      using True by simp
    finally show ?thesis
      using True "1.prems"
      by (simp add: Cons_nth_drop_Suc [of "Suc j" "take n us", symmetric])
  next
    case False
    with "1.prems" have "n = Suc j" by simp
    with False "1.prems" show ?thesis by (simp add: shift_left.simps [of us j])
  qed
qed

lemma take_shifted:
  assumes "n \<le> length us" "j < n"
  shows "take (n - 1) (take j us @ drop (Suc j) (take n us) @ drop (n - 1) us)
    = take j us @ drop (Suc j) (take n us)"
  using assms by simp

end
