(* ===== verification/C_Format.thy ===== *)
theory C_Format
  imports C_Base
begin

text \<open>
  Formatted output and input of the C library as far as the programs use it: the decimal
  conversions \<open>%d\<close> and \<open>%02d\<close>, \<open>%s\<close> with a precision, \<open>atoi\<close>, and \<open>sscanf\<close> as an interpreter
  of a list of directives, with the round trip of the decimal conversions, which the persistence
  of the bank server rests on; and strings and integers as bytes in memory.
\<close>

section \<open>Output\<close>

definition digit :: "nat \<Rightarrow> char" where
  "digit d = char_of (48 + d)"

fun dec :: "nat \<Rightarrow> string" where
  "dec n = (if n < 10 then [digit n] else dec (n div 10) @ [digit (n mod 10)])"

declare dec.simps [simp del]

definition fmt_d :: "int \<Rightarrow> string" where
  "fmt_d n = (if n < 0 then CHR ''-'' # dec (nat (- n)) else dec (nat n))"

text \<open>\<open>%02d\<close>: padded with zeros to two characters.\<close>

definition fmt_02d :: "int \<Rightarrow> string" where
  "fmt_02d n = (if 0 \<le> n \<and> n < 10 then CHR ''0'' # fmt_d n else fmt_d n)"

text \<open>\<open>%.ks\<close>: at most k characters.\<close>

definition fmt_prec :: "nat \<Rightarrow> string \<Rightarrow> string" where
  "fmt_prec k s = take k s"

section \<open>Input\<close>

definition digit_val :: "char \<Rightarrow> nat" where
  "digit_val c = of_char c - 48"

fun dec_val :: "nat \<Rightarrow> string \<Rightarrow> nat" where
  "dec_val acc [] = acc"
| "dec_val acc (c # cs) = dec_val (acc * 10 + digit_val c) cs"

text \<open>
  A decimal integer at the start of a string: an optional sign, then digits, at most \<open>width\<close>
  characters if a width is given. The result is the value and the rest; None when there is
  no digit.
\<close>

definition limit :: "nat option \<Rightarrow> string \<Rightarrow> string" where
  "limit w s = (case w of None \<Rightarrow> s | Some k \<Rightarrow> take k s)"

definition scan_int :: "nat option \<Rightarrow> string \<Rightarrow> (int \<times> string) option" where
  "scan_int w s =
     (let t = limit w s;
          neg = (t \<noteq> [] \<and> hd t = CHR ''-'');
          signed = (t \<noteq> [] \<and> (hd t = CHR ''-'' \<or> hd t = CHR ''+''));
          body = (if signed then tl t else t);
          ds = takeWhile isdigit body;
          n = int (dec_val 0 ds);
          used = length ds + (if signed then 1 else 0)
      in if ds = [] then None else Some (if neg then - n else n, drop used s))"

definition skip_ws :: "string \<Rightarrow> string" where
  "skip_ws s = dropWhile isspace s"

text \<open>\<open>atoi\<close>: 0 when there is no number; undefined when the number is not an \<open>int\<close>.\<close>

definition atoi :: "string \<Rightarrow> int res" where
  "atoi s = (case scan_int None (skip_ws s) of
      None \<Rightarrow> Inr 0
    | Some (n, r) \<Rightarrow> if in_signed 32 n then Inr n else Inl ValueNotRepresentable)"

text \<open>\<open>std::stoi\<close>: None is an exception; characters after the number are ignored.\<close>

definition stoi :: "string \<Rightarrow> int option" where
  "stoi s = (case scan_int None (skip_ws s) of
      None \<Rightarrow> None
    | Some (n, r) \<Rightarrow> if in_signed 32 n then Some n else None)"

text \<open>
  The directives of a \<open>sscanf\<close> format: a literal character, white space, \<open>%d\<close> or \<open>%ld\<close> with an
  optional width into an object of so many bits, and \<open>%s\<close> and \<open>%[^\n]\<close> into an array of so
  many characters.
\<close>

datatype directive =
    Lit char
  | WS
  | ScanD "nat option" nat
  | ScanS nat
  | ScanL nat

datatype sval = VI int | VS string

fun sscanf :: "directive list \<Rightarrow> string \<Rightarrow> sval list res" where
  "sscanf [] s = Inr []"
| "sscanf (WS # ds) s = sscanf ds (skip_ws s)"
| "sscanf (Lit c # ds) [] = Inr []"
| "sscanf (Lit c # ds) (x # xs) = (if x = c then sscanf ds xs else Inr [])"
| "sscanf (ScanD w b # ds) s =
     (case scan_int w (skip_ws s) of
        None \<Rightarrow> Inr []
      | Some (n, r) \<Rightarrow>
          if in_signed b n then rbind (sscanf ds r) (\<lambda>vs. Inr (VI n # vs))
          else Inl ValueNotRepresentable)"
| "sscanf (ScanS cap # ds) s =
     (let t = skip_ws s; tok = takeWhile (\<lambda>c. \<not> isspace c) t in
      if tok = [] then Inr []
      else if cap \<le> length tok then Inl BufferOverflow
      else rbind (sscanf ds (drop (length tok) t)) (\<lambda>vs. Inr (VS tok # vs)))"
| "sscanf (ScanL cap # ds) s =
     (let tok = takeWhile (\<lambda>c. c \<noteq> LF) s in
      if tok = [] then Inr []
      else if cap \<le> length tok then Inl BufferOverflow
      else rbind (sscanf ds (drop (length tok) s)) (\<lambda>vs. Inr (VS tok # vs)))"

section \<open>Lemmas\<close>

lemma digit_in_range [simp]:
  assumes "d < 10"
  shows "isdigit (digit d)" "digit_val (digit d) = d" "\<not> isspace (digit d)"
    "digit d \<noteq> CHR ''-''" "digit d \<noteq> CHR ''+''" "digit d \<noteq> LF" "digit d \<noteq> NUL"
proof -
  have "of_char (digit d) = 48 + d"
    using assms by (simp add: digit_def)
  then show "isdigit (digit d)" "digit_val (digit d) = d" "\<not> isspace (digit d)"
    using assms by (auto simp: isdigit_def digit_val_def isspace_def)
  have "(of_char (CHR ''-'') :: nat) = 45" "(of_char (CHR ''+'') :: nat) = 43"
    "(of_char LF :: nat) = 10" "(of_char NUL :: nat) = 0"
    by (simp_all add: LF_def NUL_def)
  with \<open>of_char (digit d) = 48 + d\<close> show "digit d \<noteq> CHR ''-''" "digit d \<noteq> CHR ''+''"
    "digit d \<noteq> LF" "digit d \<noteq> NUL"
    by force+
qed

lemma dec_not_Nil [simp]: "dec n \<noteq> []"
  by (subst dec.simps) simp

lemma dec_digits: "c \<in> set (dec n) \<Longrightarrow> \<exists>d < 10. c = digit d"
proof (induction n rule: dec.induct)
  case (1 n)
  show ?case
  proof (cases "n < 10")
    case True
    with "1.prems" show ?thesis by (auto simp: dec.simps [of n])
  next
    case False
    with "1.prems" have "c \<in> set (dec (n div 10)) \<or> c = digit (n mod 10)"
      by (auto simp: dec.simps [of n])
    with "1.IH" False show ?thesis by (metis mod_less_divisor zero_less_numeral)
  qed
qed

lemma dec_isdigit: "c \<in> set (dec n) \<Longrightarrow> isdigit c"
  using dec_digits by fastforce

lemma dec_val_append: "dec_val a (xs @ ys) = dec_val (dec_val a xs) ys"
  by (induction xs arbitrary: a) auto

lemma dec_val_dec: "dec_val 0 (dec n) = n"
proof (induction n rule: dec.induct)
  case (1 n)
  then show ?case
    by (cases "n < 10") (simp_all add: dec.simps [of n] dec_val_append)
qed

lemma length_dec_less_10: "n < 10 \<Longrightarrow> length (dec n) = 1"
  by (simp add: dec.simps [of n])

lemma length_dec_less_100: "n < 100 \<Longrightarrow> length (dec n) \<le> 2"
  by (subst dec.simps) (auto simp: length_dec_less_10)

lemma hd_dec_isdigit [simp]: "isdigit (hd (dec n))"
  by (rule dec_isdigit) (rule hd_in_set, simp)

lemma isdigit_not_space: "isdigit c \<Longrightarrow> \<not> isspace c"
  by (auto simp: isdigit_def isspace_def)

lemma isdigit_not_sign: "isdigit c \<Longrightarrow> c \<noteq> CHR ''-'' \<and> c \<noteq> CHR ''+''"
  by (auto simp: isdigit_def)

lemma takeWhile_dec:
  "rest = [] \<or> \<not> isdigit (hd rest) \<Longrightarrow> takeWhile isdigit (dec n @ rest) = dec n"
  by (cases rest) (auto simp: takeWhile_append dec_isdigit)

text \<open>Scanning what \<open>%d\<close> printed gives the number back.\<close>

lemma scan_int_fmt_d:
  assumes "rest = [] \<or> \<not> isdigit (hd rest)"
  shows "scan_int None (fmt_d n @ rest) = Some (n, rest)"
proof (cases "n < 0")
  case True
  then show ?thesis
    by (simp add: scan_int_def fmt_d_def limit_def takeWhile_dec [OF assms] dec_val_dec Let_def)
next
  case False
  obtain c cs where c: "dec (nat n) = c # cs" by (metis dec_not_Nil list.exhaust)
  then have "c \<noteq> CHR ''-''" "c \<noteq> CHR ''+''"
    using hd_dec_isdigit [of "nat n"] isdigit_not_sign [of c] by auto
  then show ?thesis
    using False takeWhile_dec [OF assms, of "nat n"] dec_val_dec [of "nat n"] c
    by (simp add: scan_int_def fmt_d_def limit_def Let_def)
qed

lemma skip_ws_id: "s \<noteq> [] \<Longrightarrow> \<not> isspace (hd s) \<Longrightarrow> skip_ws s = s"
  by (cases s) (auto simp: skip_ws_def)

lemma not_space_minus [simp]: "\<not> isspace (CHR ''-'')"
  by (simp add: isspace_def)

lemma skip_ws_fmt_d [simp]: "skip_ws (fmt_d n @ rest) = fmt_d n @ rest"
  by (rule skip_ws_id) (auto simp: fmt_d_def isdigit_not_space)

lemma skip_ws_space [simp]: "skip_ws (CHR '' '' # s) = skip_ws s"
  by (simp add: skip_ws_def isspace_def)

lemma sscanf_lits: "sscanf (map Lit p @ ds) (p @ s) = sscanf ds s"
  by (induction p) auto

lemma sscanf_d_fmt_d:
  assumes "in_signed b n" "rest = [] \<or> \<not> isdigit (hd rest)"
  shows "sscanf (ScanD None b # ds) (fmt_d n @ rest)
    = rbind (sscanf ds rest) (\<lambda>vs. Inr (VI n # vs))"
  using assms by (simp add: scan_int_fmt_d)

text \<open>With a field of width two, a number of one or two digits is read back ...\<close>

lemma fmt_02d_2:
  assumes "0 \<le> n" "n < 100"
  shows "\<exists>a b. a < 10 \<and> b < 10 \<and> fmt_02d n = [digit a, digit b] \<and> n = int (a * 10 + b)"
proof (cases "n < 10")
  case True
  then have "dec (nat n) = [digit (nat n)]"
    using assms by (simp add: dec.simps [of "nat n"])
  moreover have "CHR ''0'' = digit 0" by (simp add: digit_def char_of_def bit_0)
  ultimately show ?thesis
    using True assms by (intro exI [of _ 0] exI [of _ "nat n"]) (auto simp: fmt_02d_def fmt_d_def)
next
  case False
  then have "nat n div 10 < 10" "\<not> nat n < 10" using assms by auto
  then have "dec (nat n) = [digit (nat n div 10), digit (nat n mod 10)]"
    by (simp add: dec.simps [of "nat n"] dec.simps [of "nat n div 10"])
  then show ?thesis
    using False assms \<open>nat n div 10 < 10\<close>
    by (intro exI [of _ "nat n div 10"] exI [of _ "nat n mod 10"])
      (auto simp: fmt_02d_def fmt_d_def)
qed

lemma scan_int_2:
  assumes "a < 10" "b < 10"
  shows "scan_int (Some 2) (digit a # digit b # rest) = Some (int (a * 10 + b), rest)"
  using assms by (simp add: scan_int_def limit_def)

lemma scan_int_fmt_02d:
  assumes "0 \<le> n" "n < 100"
  shows "scan_int (Some 2) (fmt_02d n @ rest) = Some (n, rest)"
proof -
  from fmt_02d_2 [OF assms] obtain a b where
    ab: "a < 10" "b < 10" "fmt_02d n = [digit a, digit b]" "n = int (a * 10 + b)"
    by blast
  show ?thesis
    using scan_int_2 [OF ab(1,2), of rest] ab by simp
qed

lemma skip_ws_fmt_02d:
  assumes "0 \<le> n" "n < 100"
  shows "skip_ws (fmt_02d n @ rest) = fmt_02d n @ rest"
proof -
  from fmt_02d_2 [OF assms] obtain a b where "a < 10" "b < 10" "fmt_02d n = [digit a, digit b]"
    by blast
  then show ?thesis by (simp add: skip_ws_def)
qed

text \<open>... while of a longer number only the first two digits are.\<close>

lemma dec_cases_100:
  assumes "100 \<le> n"
  shows "\<exists>a b c cs. a < 10 \<and> b < 10 \<and> c < 10 \<and> dec n = digit a # digit b # digit c # cs"
  using assms
proof (induction n rule: dec.induct)
  case (1 n)
  then have n: "\<not> n < 10" "dec n = dec (n div 10) @ [digit (n mod 10)]"
    by (auto simp: dec.simps [of n])
  show ?case
  proof (cases "100 \<le> n div 10")
    case True
    with 1 n show ?thesis by fastforce
  next
    case False
    then have m: "\<not> n div 10 < 10" "n div 10 div 10 < 10" using "1.prems" by auto
    then have "dec (n div 10) = [digit (n div 10 div 10), digit (n div 10 mod 10)]"
      by (simp add: dec.simps [of "n div 10"] dec.simps [of "n div 10 div 10"])
    with n m show ?thesis
      by (intro exI [of _ "n div 10 div 10"] exI [of _ "n div 10 mod 10"] exI [of _ "n mod 10"]) auto
  qed
qed

section \<open>Bytes in memory\<close>

text \<open>
  Bytes in memory as far as programs send them to each other: a string written over an array, and
  an int of 32 bits as four bytes, the lowest first.
\<close>

text \<open>A string and its NUL written over the start of an array.\<close>

definition put_string :: "string \<Rightarrow> char list \<Rightarrow> char list" where
  "put_string s bs = s @ NUL # drop (length s + 1) bs"

definition int_bytes :: "int \<Rightarrow> char list" where
  "int_bytes n = map (\<lambda>k. char_of (nat (n div 256 ^ k mod 256))) [0..<4]"

definition bytes_int :: "char list \<Rightarrow> int" where
  "bytes_int bs =
     (let n = (\<Sum>k \<leftarrow> [0..<4]. int (of_char (bs ! k)) * 256 ^ k)
      in if n < 2 ^ 31 then n else n - 2 ^ 32)"

lemma length_put_string [simp]: "length s < length bs \<Longrightarrow> length (put_string s bs) = length bs"
  by (simp add: put_string_def)

lemma of_char_of: "0 \<le> n \<Longrightarrow> n < 256 \<Longrightarrow> int (of_char (char_of (nat n) :: char)) = n"
  by (simp add: of_char_of nat_less_iff)

lemma length_int_bytes [simp]: "length (int_bytes n) = 4"
  by (simp add: int_bytes_def)

lemma digits_256:
  fixes m :: int
  shows "m = 256 * a + r \<Longrightarrow> a = 256 * b + s \<Longrightarrow> b = 256 * c + u \<Longrightarrow> m = r + s * 256 + u * 65536 + c * 16777216"
  by simp

lemma sum_256:
  fixes f :: "nat \<Rightarrow> int"
  shows "(\<Sum>k \<leftarrow> [0..<4]. f k * 256 ^ k) = f 0 + f 1 * 256 + f 2 * 65536 + f 3 * 16777216"
proof -
  have "[0..<4] = [0, 1, 2, 3 :: nat]" by code_simp
  then show ?thesis by simp
qed

lemma bytes_int_bytes: "in_signed 32 n \<Longrightarrow> bytes_int (int_bytes n) = n"
proof -
  assume n: "in_signed 32 n"
  let ?m = "n mod 256 + n div 256 mod 256 * 256 + n div 65536 mod 256 * 65536 + n div 16777216 mod 256 * 16777216"
  have "n mod 4294967296 = ?m"
  proof (rule digits_256)
    show "n mod 4294967296 = 256 * (n div 256 mod 16777216) + n mod 256"
      using zmod_zmult2_eq [of 16777216 n 256] by simp
    show "n div 256 mod 16777216 = 256 * (n div 65536 mod 65536) + n div 256 mod 256"
      using zmod_zmult2_eq [of 65536 "n div 256" 256] zdiv_zmult2_eq [of 256 n 256] by simp
    show "n div 65536 mod 65536 = 256 * (n div 16777216 mod 256) + n div 65536 mod 256"
      using zmod_zmult2_eq [of 256 "n div 65536" 256] zdiv_zmult2_eq [of 256 n 65536] by simp
  qed
  moreover have "n mod 4294967296 = (if 0 \<le> n then n else n + 4294967296)"
  proof (cases "0 \<le> n")
    case False
    have "n mod 4294967296 = (n + 4294967296) mod 4294967296" by simp
    also have "\<dots> = n + 4294967296" using n False by (intro mod_pos_pos_trivial) (auto simp: in_signed_32)
    finally show ?thesis using False by simp
  qed (use n in \<open>auto simp: in_signed_32 intro: mod_pos_pos_trivial\<close>)
  ultimately have m: "?m = (if 0 \<le> n then n else n + 4294967296)" by (simp only:)
  have byte: "int (of_char (int_bytes n ! k)) = n div 256 ^ k mod 256" if "k < 4" for k
    using that of_char_of [of "n div 256 ^ k mod 256"] by (simp add: int_bytes_def)
  have "int (of_char (int_bytes n ! 0)) = n mod 256" "int (of_char (int_bytes n ! 1)) = n div 256 mod 256"
    "int (of_char (int_bytes n ! 2)) = n div 65536 mod 256" "int (of_char (int_bytes n ! 3)) = n div 16777216 mod 256"
    using byte [of 0] byte [of 1] byte [of 2] byte [of 3] by simp_all
  then have "(\<Sum>k \<leftarrow> [0..<4]. int (of_char (int_bytes n ! k)) * 256 ^ k) = ?m"
    by (simp only: sum_256)
  then show ?thesis
    unfolding bytes_int_def m Let_def using n by (auto simp: in_signed_32)
qed

end
