(* ===== verification/Chat_State.thy ===== *)
theory Chat_State
  imports C_Format
begin

text \<open>
  The state of the chat server (System Programming/Final/Final Project/server): its limits,
  the client, room and file request structures of server.h, the global variables, and the
  lookups in the fixed tables. A pointer to an element of \<open>clients\<close> or \<open>rooms\<close> is its index.
  A string array with a counter that only grows (\<open>previously_joined_rooms\<close>,
  \<open>received_files\<close>) is the list of its entries below the counter; the array \<open>users\<close> of a
  room, which shrinks and is shifted in place, is kept as the array with its counter.
  What the server writes (to sockets, to its terminal, to its log file) and the sockets it
  closes are recorded in order in \<open>out\<close>; the time stamp of a log line is left out.
\<close>

section \<open>Limits\<close>

definition MAX_CLIENTS :: nat where "MAX_CLIENTS = 100"
definition MAX_ROOMS :: nat where "MAX_ROOMS = 50"
definition MAX_USERS_PER_ROOM :: nat where "MAX_USERS_PER_ROOM = 15"
definition MAX_USERNAME_LEN :: nat where "MAX_USERNAME_LEN = 16"
definition MAX_ROOM_NAME_LEN :: nat where "MAX_ROOM_NAME_LEN = 32"
definition MAX_MESSAGE_LEN :: nat where "MAX_MESSAGE_LEN = 1024"
definition BUFFER_SIZE :: nat where "BUFFER_SIZE = 4096"
definition MAX_FILE_QUEUE :: nat where "MAX_FILE_QUEUE = 5"
definition MAX_RECEIVED_FILES :: nat where "MAX_RECEIVED_FILES = 50"

declare MAX_CLIENTS_def [c_limits] MAX_ROOMS_def [c_limits] MAX_USERS_PER_ROOM_def [c_limits]
  MAX_USERNAME_LEN_def [c_limits] MAX_ROOM_NAME_LEN_def [c_limits] MAX_MESSAGE_LEN_def [c_limits]
  BUFFER_SIZE_def [c_limits] MAX_FILE_QUEUE_def [c_limits] MAX_RECEIVED_FILES_def [c_limits]

section \<open>Structures\<close>

record client =
  c_socket :: int
  username :: string
  current_room :: string
  previously_joined_rooms :: "string list"
  c_active :: bool
  c_address :: string
  received_files :: "string list"

record room =
  r_name :: string
  users :: "nat list"
  user_count :: nat
  r_active :: bool

record file_request =
  f_sender :: nat
  f_receiver :: nat
  f_filename :: string
  f_size :: int
  f_queue_time :: int
  f_active :: bool

datatype effect =
    Send int string
  | Print string
  | Log string string
  | CloseSocket int

text \<open>
  Where the thread that serves a client is: it has not been created or has ended, it waits
  for a username, it waits for a command, or it is blocked in \<open>sem_timedwait\<close> of
  \<open>add_to_file_queue\<close> with the arguments of that call.
\<close>

datatype thread_pc =
    NoThread
  | Login
  | Commands
  | WaitSlot nat string int

text \<open>The file processor thread: waiting for a request, or asleep in a transfer.\<close>

datatype processor_pc = Idle | Transferring file_request | Stopped

record server =
  clients :: "client list"
  rooms :: "room list"
  file_queue :: "file_request list"
  queue_size :: nat
  queue_head :: nat
  queue_tail :: nat
  empty_slots :: nat
  filled_slots :: nat
  server_socket :: int
  client_count :: int
  room_count :: int
  server_running :: bool
  lost_connection :: bool
  threads :: "thread_pc list"
  processor :: processor_pc
  out :: "effect list"

definition zero_client :: client where
  "zero_client = \<lparr>c_socket = 0, username = [], current_room = [], previously_joined_rooms = [],
     c_active = False, c_address = [], received_files = []\<rparr>"

definition zero_room :: room where
  "zero_room = \<lparr>r_name = [], users = replicate MAX_USERS_PER_ROOM 0, user_count = 0, r_active = False\<rparr>"

definition zero_request :: file_request where
  "zero_request = \<lparr>f_sender = 0, f_receiver = 0, f_filename = [], f_size = 0, f_queue_time = 0,
     f_active = False\<rparr>"

text \<open>The globals after the initialisation in \<open>main\<close>, before the first connection.\<close>

definition init_server :: "int \<Rightarrow> server" where
  "init_server sock = \<lparr>clients = replicate MAX_CLIENTS zero_client,
     rooms = replicate MAX_ROOMS zero_room,
     file_queue = replicate MAX_FILE_QUEUE zero_request,
     queue_size = 0, queue_head = 0, queue_tail = 0,
     empty_slots = MAX_FILE_QUEUE, filled_slots = 0, server_socket = sock,
     client_count = 0, room_count = 0, server_running = True, lost_connection = False,
     threads = replicate MAX_CLIENTS NoThread, processor = Idle, out = []\<rparr>"

section \<open>Output\<close>

definition emit :: "effect list \<Rightarrow> server \<Rightarrow> server" where
  "emit xs s = s\<lparr>out := out s @ xs\<rparr>"

text \<open>\<open>send_to_client\<close>: \<open>send\<close> of the whole string; a broken pipe is ignored.\<close>

definition send_to_client :: "int \<Rightarrow> string \<Rightarrow> server \<Rightarrow> server" where
  "send_to_client sock msg s = emit [Send sock msg] s"

definition log_event :: "string \<Rightarrow> string \<Rightarrow> server \<Rightarrow> server" where
  "log_event type msg s = emit [Log type msg] s"

definition print :: "string \<Rightarrow> server \<Rightarrow> server" where
  "print msg s = emit [Print msg] s"

lemma emit_simps [simp]:
  "clients (emit xs s) = clients s" "rooms (emit xs s) = rooms s"
  "file_queue (emit xs s) = file_queue s" "queue_size (emit xs s) = queue_size s"
  "queue_head (emit xs s) = queue_head s" "queue_tail (emit xs s) = queue_tail s"
  "empty_slots (emit xs s) = empty_slots s" "filled_slots (emit xs s) = filled_slots s"
  "server_socket (emit xs s) = server_socket s"
  "client_count (emit xs s) = client_count s" "room_count (emit xs s) = room_count s"
  "server_running (emit xs s) = server_running s" "lost_connection (emit xs s) = lost_connection s"
  "threads (emit xs s) = threads s" "processor (emit xs s) = processor s"
  "out (emit xs s) = out s @ xs"
  by (simp_all add: emit_def)

lemma emit_emit [simp]: "emit ys (emit xs s) = emit (xs @ ys) s"
  by (simp add: emit_def)

lemma emit_Nil [simp]: "emit [] s = s"
  by (simp add: emit_def)

lemmas output_defs = send_to_client_def log_event_def print_def

text \<open>What was sent to a socket.\<close>

definition sent_to :: "int \<Rightarrow> effect list \<Rightarrow> string list" where
  "sent_to sock xs = concat (map (\<lambda>x. case x of Send k m \<Rightarrow> if k = sock then [m] else [] | _ \<Rightarrow> []) xs)"

lemma sent_to_simps [simp]:
  "sent_to k [] = []"
  "sent_to k (Send j m # xs) = (if j = k then m # sent_to k xs else sent_to k xs)"
  "sent_to k (Print p # xs) = sent_to k xs"
  "sent_to k (Log t m # xs) = sent_to k xs"
  "sent_to k (CloseSocket j # xs) = sent_to k xs"
  "sent_to k (xs @ ys) = sent_to k xs @ sent_to k ys"
  by (simp_all add: sent_to_def)

section \<open>Lookups\<close>

definition find_client_by_username :: "string \<Rightarrow> server \<Rightarrow> nat option" where
  "find_client_by_username u s = first_index (\<lambda>c. c_active c \<and> username c = u) (clients s)"

definition find_client_by_socket :: "int \<Rightarrow> server \<Rightarrow> nat option" where
  "find_client_by_socket sock s = first_index (\<lambda>c. c_active c \<and> c_socket c = sock) (clients s)"

definition find_room :: "string \<Rightarrow> server \<Rightarrow> nat option" where
  "find_room name s = first_index (\<lambda>r. r_active r \<and> r_name r = name) (rooms s)"

definition create_room :: "string \<Rightarrow> server \<Rightarrow> server \<times> nat option" where
  "create_room name s =
     (case first_index (\<lambda>r. \<not> r_active r) (rooms s) of
        None \<Rightarrow> (s, None)
      | Some i \<Rightarrow>
          (s\<lparr>rooms := (rooms s)[i := (rooms s ! i)\<lparr>r_name := name, user_count := 0, r_active := True\<rparr>],
             room_count := room_count s + 1\<rparr>, Some i))"

section \<open>Validation of names\<close>

text \<open>The loop over the characters.\<close>

fun alnum_loop :: "string \<Rightarrow> bool" where
  "alnum_loop [] = True"
| "alnum_loop (c # cs) = (if \<not> isalnum c then False else alnum_loop cs)"

definition is_valid_username :: "string \<Rightarrow> bool" where
  "is_valid_username u =
     (if MAX_USERNAME_LEN < length u \<or> length u = 0 then False else alnum_loop u)"

definition is_valid_room_name :: "string \<Rightarrow> bool" where
  "is_valid_room_name r =
     (if length r = 0 \<or> MAX_ROOM_NAME_LEN < length r then False else alnum_loop r)"

lemma alnum_loop_iff: "alnum_loop s \<longleftrightarrow> (\<forall>c \<in> set s. isalnum c)"
  by (induction s) auto

lemma valid_username_iff:
  "is_valid_username u \<longleftrightarrow> 1 \<le> length u \<and> length u \<le> MAX_USERNAME_LEN \<and> (\<forall>c \<in> set u. isalnum c)"
  by (auto simp: is_valid_username_def alnum_loop_iff Suc_le_eq)

lemma valid_room_name_iff:
  "is_valid_room_name r \<longleftrightarrow> 1 \<le> length r \<and> length r \<le> MAX_ROOM_NAME_LEN \<and> (\<forall>c \<in> set r. isalnum c)"
  by (auto simp: is_valid_room_name_def alnum_loop_iff Suc_le_eq)

section \<open>Clients and their fields\<close>

definition upd_client :: "nat \<Rightarrow> (client \<Rightarrow> client) \<Rightarrow> server \<Rightarrow> server" where
  "upd_client c f s = s\<lparr>clients := (clients s)[c := f (clients s ! c)]\<rparr>"

definition set_thread :: "nat \<Rightarrow> thread_pc \<Rightarrow> server \<Rightarrow> server" where
  "set_thread c t s = s\<lparr>threads := (threads s)[c := t]\<rparr>"

lemma upd_client_simps [simp]:
  "rooms (upd_client c f s) = rooms s"
  "file_queue (upd_client c f s) = file_queue s" "queue_size (upd_client c f s) = queue_size s"
  "queue_head (upd_client c f s) = queue_head s" "queue_tail (upd_client c f s) = queue_tail s"
  "empty_slots (upd_client c f s) = empty_slots s" "filled_slots (upd_client c f s) = filled_slots s"
  "server_socket (upd_client c f s) = server_socket s"
  "client_count (upd_client c f s) = client_count s" "room_count (upd_client c f s) = room_count s"
  "server_running (upd_client c f s) = server_running s"
  "lost_connection (upd_client c f s) = lost_connection s"
  "threads (upd_client c f s) = threads s" "processor (upd_client c f s) = processor s"
  "out (upd_client c f s) = out s"
  "clients (upd_client c f s) = (clients s)[c := f (clients s ! c)]"
  by (simp_all add: upd_client_def)

lemma set_thread_simps [simp]:
  "rooms (set_thread c t s) = rooms s" "clients (set_thread c t s) = clients s"
  "file_queue (set_thread c t s) = file_queue s" "queue_size (set_thread c t s) = queue_size s"
  "queue_head (set_thread c t s) = queue_head s" "queue_tail (set_thread c t s) = queue_tail s"
  "empty_slots (set_thread c t s) = empty_slots s" "filled_slots (set_thread c t s) = filled_slots s"
  "server_socket (set_thread c t s) = server_socket s"
  "client_count (set_thread c t s) = client_count s" "room_count (set_thread c t s) = room_count s"
  "server_running (set_thread c t s) = server_running s"
  "lost_connection (set_thread c t s) = lost_connection s"
  "threads (set_thread c t s) = (threads s)[c := t]" "processor (set_thread c t s) = processor s"
  "out (set_thread c t s) = out s"
  by (simp_all add: set_thread_def)

end
