(* ===== verification/Chat_Rooms.thy ===== *)
theory Chat_Rooms
  imports Chat_State
begin

text \<open>
  Rooms of the chat server: \<open>leave_room\<close>, \<open>join_room\<close>, \<open>broadcast_to_room\<close> and
  \<open>cleanup_client\<close> of server.c, with every loop over the array \<open>users\<close> as it is written, each
  array access bounds-checked. The lemmas give each loop its reference meaning on the list
  of members of the room: the in-place removal loop with its \<open>i--\<close> filters the list, the two
  socket loops are maps.

  One access is let through: \<open>leave_room\<close> stores a terminator at index MAX_ROOM_NAME_LEN of
  its local array \<open>room_name [MAX_ROOM_NAME_LEN]\<close>, one past its end, on every call.
\<close>

definition members :: "room \<Rightarrow> nat list" where
  "members rm = take (user_count rm) (users rm)"

lemma members_update [simp]:
  "members (rm\<lparr>r_active := b\<rparr>) = members rm" "members (rm\<lparr>r_name := x\<rparr>) = members rm"
  "members (rm\<lparr>user_count := 0\<rparr>) = []"
  by (simp_all add: members_def)

definition quoted :: "string \<Rightarrow> string" where
  "quoted s = sq @ s @ sq"

section \<open>Leaving a room\<close>

text \<open>
  The loop over the users: the one who leaves is shifted out and the index stays, the
  sockets of the others are collected.
\<close>

function leave_loop :: "client list \<Rightarrow> nat \<Rightarrow> nat \<Rightarrow> nat list \<Rightarrow> nat \<Rightarrow> int list
    \<Rightarrow> (nat list \<times> nat \<times> int list) res" where
  "leave_loop cs c i us n socks =
     (if i < n then
        rbind (rd us i) (\<lambda>u.
          if u = c then rbind (shift_left us i n) (\<lambda>us'. leave_loop cs c i us' (n - 1) socks)
          else rbind (rd cs u) (\<lambda>cl.
            if length socks < MAX_USERS_PER_ROOM
            then leave_loop cs c (i + 1) us n (socks @ [c_socket cl])
            else Inl OutOfBounds))
      else Inr (us, n, socks))"
  by pat_completeness auto
termination
  by (relation "measure (\<lambda>(cs, c, i, us, n, socks). n - i)") auto

declare leave_loop.simps [simp del]

definition leave_msg :: "string \<Rightarrow> string \<Rightarrow> string" where
  "leave_msg u r = ''USER_LEFT '' @ fmt_prec 16 u @ '' '' @ fmt_prec 32 r"

definition leave_effects :: "string \<Rightarrow> string \<Rightarrow> int list \<Rightarrow> effect list" where
  "leave_effects u r socks =
     [Print (''[COMMAND] '' @ u @ '' left room '' @ quoted r @ nl),
      Log ''LEAVE'' (''user '' @ quoted (fmt_prec 16 u) @ '' left room '' @ quoted (fmt_prec 32 r))]
     @ map (\<lambda>k. Send k (leave_msg u r)) socks
     @ (if 0 < length socks
        then [Log ''NOTIFICATION'' (''user '' @ quoted (fmt_prec 32 u) @ '' left room '' @ quoted (fmt_prec 32 r))]
        else [])"

text \<open>The function returns 1 on every path, so the model returns the state only.\<close>

definition leave_room :: "nat \<Rightarrow> server \<Rightarrow> server res" where
  "leave_room c s =
     (let cl = clients s ! c;
          room_name = fmt_prec MAX_ROOM_NAME_LEN (current_room cl)
      in rbind
        (case find_room room_name s of
           None \<Rightarrow> Inr (s, [])
         | Some r \<Rightarrow>
             let rm = rooms s ! r in
             rbind (leave_loop (clients s) c 0 (users rm) (user_count rm) []) (\<lambda>(us, n, socks).
               let rm1 = rm\<lparr>users := us, user_count := n\<rparr> in
               if n = 0
               then Inr (s\<lparr>rooms := (rooms s)[r := rm1\<lparr>r_active := False\<rparr>],
                           room_count := room_count s - 1\<rparr>, socks)
               else Inr (s\<lparr>rooms := (rooms s)[r := rm1]\<rparr>, socks)))
        (\<lambda>(s1, socks).
           Inr (emit (leave_effects (username cl) room_name socks)
                 (upd_client c (\<lambda>x. x\<lparr>current_room := []\<rparr>) s1))))"

section \<open>Joining a room\<close>

text \<open>Collecting the sockets of the others, each at its own index of an uninitialised array.\<close>

function collect_sockets :: "client list \<Rightarrow> nat list \<Rightarrow> nat \<Rightarrow> nat \<Rightarrow> int \<Rightarrow> int option list
    \<Rightarrow> int option list res" where
  "collect_sockets cs us i n own arr =
     (if i < n then
        rbind (rd us i) (\<lambda>u. rbind (rd cs u) (\<lambda>cl.
          if c_socket cl \<noteq> own
          then rbind (wr arr i (Some (c_socket cl))) (\<lambda>arr'. collect_sockets cs us (i + 1) n own arr')
          else collect_sockets cs us (i + 1) n own arr))
      else Inr arr)"
  by pat_completeness auto
termination
  by (relation "measure (\<lambda>(cs, us, i, n, own, arr). n - i)") auto

declare collect_sockets.simps [simp del]

function notify_loop :: "int option list \<Rightarrow> nat \<Rightarrow> nat \<Rightarrow> string \<Rightarrow> effect list res" where
  "notify_loop arr i k msg =
     (if i < k then
        rbind (rd arr i) (\<lambda>x. case x of
            None \<Rightarrow> Inl UninitRead
          | Some sock \<Rightarrow> rbind (notify_loop arr (i + 1) k msg) (\<lambda>es. Inr (Send sock msg # es)))
      else Inr [])"
  by pat_completeness auto
termination
  by (relation "measure (\<lambda>(arr, i, k, msg). k - i)") auto

declare notify_loop.simps [simp del]

definition join_msg :: "bool \<Rightarrow> string \<Rightarrow> string \<Rightarrow> string" where
  "join_msg rejoining u r =
     (if rejoining then snprintf BUFFER_SIZE (''USER_REJOINED '' @ u @ '' '' @ r)
      else snprintf BUFFER_SIZE (''USER_JOINED '' @ u @ '' '' @ r))"

definition join_report :: "bool \<Rightarrow> bool \<Rightarrow> string \<Rightarrow> string \<Rightarrow> string \<Rightarrow> effect list" where
  "join_report was rejoining u old r =
     (let u16 = ''user '' @ quoted (fmt_prec 16 u); r32 = quoted (fmt_prec 32 r);
          o32 = quoted (fmt_prec 32 old)
      in if \<not> was then
           (if rejoining
            then [Print (''[ROOM] User '' @ quoted u @ '' rejoined room '' @ quoted r @ nl),
                  Log ''ROOM'' (u16 @ '' rejoined room '' @ r32)]
            else [Print (''[COMMAND] '' @ u @ '' joined room '' @ quoted r @ nl),
                  Log ''JOIN'' (u16 @ '' joined room '' @ r32)])
         else
           (if rejoining
            then [Print (''[ROOM] User '' @ quoted u @ '' moved from room '' @ quoted old
                    @ '' and rejoined '' @ quoted r @ nl),
                  Log ''ROOM'' (u16 @ '' left room '' @ o32 @ '', rejoined '' @ r32)]
            else [Print (''[ROOM] User '' @ quoted u @ '' moved from room '' @ quoted old
                    @ '' to '' @ quoted r @ nl),
                  Log ''ROOM'' (u16 @ '' left room '' @ o32 @ '', joined '' @ r32)]))"

definition join_note :: "bool \<Rightarrow> string \<Rightarrow> string \<Rightarrow> effect" where
  "join_note rejoining u r =
     Log ''NOTIFICATION'' (''user '' @ quoted (fmt_prec 16 u)
       @ (if rejoining then '' rejoined room '' else '' joined room '') @ quoted (fmt_prec 32 r))"

text \<open>The client after it has been added: its room, and the room's place in its history.\<close>

definition joined_client :: "bool \<Rightarrow> string \<Rightarrow> client \<Rightarrow> client" where
  "joined_client rejoining r cl =
     (let cl1 = cl\<lparr>current_room := fmt_prec MAX_ROOM_NAME_LEN r\<rparr> in
      if \<not> rejoining \<and> length (previously_joined_rooms cl) < MAX_ROOMS
      then cl1\<lparr>previously_joined_rooms := previously_joined_rooms cl @ [fmt_prec MAX_ROOM_NAME_LEN r]\<rparr>
      else cl1)"

text \<open>The part of \<open>join_room\<close> that adds the client to the room found or created.\<close>

definition add_to_room :: "nat \<Rightarrow> string \<Rightarrow> bool \<Rightarrow> bool \<Rightarrow> string \<Rightarrow> nat \<Rightarrow> server \<Rightarrow> (server \<times> bool) res" where
  "add_to_room c r rejoining was old i s =
     (let rm = rooms s ! i; u = username (clients s ! c); own = c_socket (clients s ! c) in
      rbind (wr (users rm) (user_count rm) c) (\<lambda>us.
        let n = user_count rm + 1;
            s1 = upd_client c (joined_client rejoining r)
              (s\<lparr>rooms := (rooms s)[i := rm\<lparr>users := us, user_count := n\<rparr>]\<rparr>)
        in rbind (collect_sockets (clients s1) us 0 n own (replicate MAX_USERS_PER_ROOM None)) (\<lambda>arr.
           rbind (notify_loop arr 0 (n - 1) (join_msg rejoining u r)) (\<lambda>es.
             Inr (emit (join_report was rejoining u old r @ es
                     @ (if 0 < n - 1 then [join_note rejoining u r] else [])) s1,
                  True)))))"

text \<open>The part of \<open>join_room\<close> from the second \<open>pthread_mutex_lock (&rooms_mutex)\<close> on.\<close>

definition enter_room :: "nat \<Rightarrow> string \<Rightarrow> bool \<Rightarrow> bool \<Rightarrow> string \<Rightarrow> server \<Rightarrow> (server \<times> bool) res" where
  "enter_room c r rejoining was old s =
     (case find_room r s of
        Some i \<Rightarrow> add_to_room c r rejoining was old i s
      | None \<Rightarrow>
          (case create_room r s of
             (s1, None) \<Rightarrow> Inr (s1, False)
           | (s1, Some i) \<Rightarrow> add_to_room c r rejoining was old i s1))"

definition join_room :: "nat \<Rightarrow> string \<Rightarrow> server \<Rightarrow> (server \<times> bool) res" where
  "join_room c r s =
     (let cl = clients s ! c;
          rejoining = list_ex (\<lambda>p. p = r) (previously_joined_rooms cl);
          was = (0 < length (current_room cl));
          old = (if was then fmt_prec MAX_ROOM_NAME_LEN (current_room cl) else [])
      in rbind (if was then leave_room c s else Inr s) (enter_room c r rejoining was old))"

section \<open>Broadcasting\<close>

text \<open>\<open>broadcast_to_room\<close> looks the name of the sender up and does not use it.\<close>

function broadcast_loop :: "client list \<Rightarrow> nat list \<Rightarrow> nat \<Rightarrow> nat \<Rightarrow> int \<Rightarrow> string \<Rightarrow> effect list res" where
  "broadcast_loop cs us i n sender msg =
     (if i < n then
        rbind (rd us i) (\<lambda>u. rbind (rd cs u) (\<lambda>cl.
          rbind (broadcast_loop cs us (i + 1) n sender msg) (\<lambda>es.
            Inr (if c_socket cl \<noteq> sender
                 then Send (c_socket cl) (snprintf 1050 (''CHAT_MESSAGE '' @ msg)) # es else es))))
      else Inr [])"
  by pat_completeness auto
termination
  by (relation "measure (\<lambda>(cs, us, i, n, sender, msg). n - i)") auto

declare broadcast_loop.simps [simp del]

definition broadcast_to_room :: "string \<Rightarrow> string \<Rightarrow> int \<Rightarrow> server \<Rightarrow> server res" where
  "broadcast_to_room r msg sender s =
     (case find_room r s of
        None \<Rightarrow> Inr s
      | Some i \<Rightarrow>
          let sender_name = (case find_client_by_socket sender s of Some d \<Rightarrow> username (clients s ! d) | None \<Rightarrow> [])
          in rbind (broadcast_loop (clients s) (users (rooms s ! i)) 0 (user_count (rooms s ! i)) sender msg)
            (\<lambda>es. Inr (emit es s)))"

section \<open>Removing a client\<close>

definition cleanup_client :: "nat \<Rightarrow> server \<Rightarrow> server res" where
  "cleanup_client c s =
     (if \<not> c_active (clients s ! c) then Inr s
      else rbind (if 0 < length (current_room (clients s ! c)) then leave_room c s else Inr s) (\<lambda>s1.
        let cl = clients s1 ! c;
            closing = (if c_socket cl \<noteq> -1 then [CloseSocket (c_socket cl)] else []);
            report = (if lost_connection s1
              then [Print (''[DISCONNECT] Client '' @ quoted (username cl) @ '' lost connection'' @ nl),
                    Log ''DISCONNECT'' (snprintf 512 (''user '' @ quoted (username cl)
                      @ '' lost connection. Cleaned up resources.''))]
              else []);
            s2 = upd_client c (\<lambda>x. x\<lparr>c_active := False, username := [], current_room := []\<rparr>)
              (emit (closing @ report) s1)
        in Inr (s2\<lparr>client_count := client_count s2 - 1\<rparr>)))"

section \<open>What the loops compute\<close>

lemma loops_done [simp]:
  "n \<le> i \<Longrightarrow> leave_loop cs c i us n socks = Inr (us, n, socks)"
  "n \<le> i \<Longrightarrow> collect_sockets cs us i n own arr = Inr arr"
  "n \<le> i \<Longrightarrow> notify_loop nots i n msg = Inr []"
  "n \<le> i \<Longrightarrow> broadcast_loop cs us i n sender msg = Inr []"
  by (simp_all add: leave_loop.simps [of cs c i] collect_sockets.simps [of cs us i]
    notify_loop.simps [of nots i] broadcast_loop.simps [of cs us i])

text \<open>The removal loop is a filter on the members.\<close>

lemma leave_loop_spec:
  assumes "n \<le> length us" "i \<le> n" "\<forall>u \<in> set (take n us). u < length cs"
    "length socks + (n - i) \<le> MAX_USERS_PER_ROOM"
  shows "\<exists>us'. leave_loop cs c i us n socks =
      Inr (us', i + length (filter (\<lambda>u. u \<noteq> c) (drop i (take n us))),
           socks @ map (\<lambda>u. c_socket (cs ! u)) (filter (\<lambda>u. u \<noteq> c) (drop i (take n us))))
    \<and> length us' = length us
    \<and> take (i + length (filter (\<lambda>u. u \<noteq> c) (drop i (take n us)))) us'
      = take i us @ filter (\<lambda>u. u \<noteq> c) (drop i (take n us))"
  using assms
proof (induction cs c i us n socks rule: leave_loop.induct)
  case (1 cs c i us n socks)
  show ?case
  proof (cases "i < n")
    case False
    with "1.prems" show ?thesis by simp
  next
    case True
    then have i: "i < length us" using "1.prems" by simp
    have split: "drop i (take n us) = us ! i # drop (Suc i) (take n us)"
      using True "1.prems" by (simp add: Cons_nth_drop_Suc [of i "take n us", symmetric])
    show ?thesis
    proof (cases "us ! i = c")
      case out: True
      let ?us = "take i us @ drop (Suc i) (take n us) @ drop (n - 1) us"
      have len: "length ?us = length us" using True "1.prems" by simp
      have tk: "take (n - 1) ?us = take i us @ drop (Suc i) (take n us)"
        using take_shifted True "1.prems" by simp
      have step: "leave_loop cs c i us n socks = leave_loop cs c i ?us (n - 1) socks"
        using True out i "1.prems" by (simp add: leave_loop.simps [of cs c i us] shift_left_spec)
      have sub: "set (take (n - 1) ?us) \<subseteq> set (take n us)"
        unfolding tk using True "1.prems"
        by (auto dest!: in_set_dropD) (metis in_mono nat_less_le set_take_subset_set_take)
      have drp: "drop i (take (n - 1) ?us) = drop (Suc i) (take n us)" "take i ?us = take i us"
        using True "1.prems" unfolding tk by simp_all
      have pre: "n - 1 \<le> length ?us" "i \<le> n - 1" "\<forall>u \<in> set (take (n - 1) ?us). u < length cs"
        "length socks + (n - 1 - i) \<le> MAX_USERS_PER_ROOM"
        using True "1.prems" sub len by auto
      show ?thesis
        using "1.IH"(1) [OF True out pre] out by (simp only: step drp split len) simp
    next
      case stay: False
      have u: "us ! i < length cs"
        using True "1.prems" by (auto dest: nth_in_take)
      have sk: "length socks < MAX_USERS_PER_ROOM" using True "1.prems" by simp
      have step: "leave_loop cs c i us n socks
          = leave_loop cs c (i + 1) us n (socks @ [c_socket (cs ! (us ! i))])"
        using True stay i u sk by (simp add: leave_loop.simps [of cs c i us])
      show ?thesis
        using "1.IH"(2) [OF True stay sk, of "cs ! (us ! i)"] True i stay u sk "1.prems" step split
        by (auto simp: take_Suc_conv_app_nth)
    qed
  qed
qed

text \<open>The two socket loops are maps.\<close>

lemma collect_sockets_spec:
  assumes "n \<le> length us" "n \<le> length arr" "\<forall>u \<in> set (take n us). u < length cs" "i \<le> n"
  shows "\<exists>arr'. collect_sockets cs us i n own arr = Inr arr' \<and> length arr' = length arr
    \<and> (\<forall>k < length arr. arr' ! k =
        (if i \<le> k \<and> k < n \<and> c_socket (cs ! (us ! k)) \<noteq> own
         then Some (c_socket (cs ! (us ! k))) else arr ! k))"
  using assms
proof (induction cs us i n own arr rule: collect_sockets.induct)
  case (1 cs us i n own arr)
  show ?case
  proof (cases "i < n")
    case False
    with "1.prems" show ?thesis by auto
  next
    case True
    have i: "i < length us" "i < length arr" using True "1.prems" by simp_all
    have u: "us ! i < length cs" using True "1.prems" by (auto dest: nth_in_take)
    show ?thesis
    proof (cases "c_socket (cs ! (us ! i)) = own")
      case own: True
      then have "collect_sockets cs us i n own arr = collect_sockets cs us (i + 1) n own arr"
        using True i u by (simp add: collect_sockets.simps [of cs us i])
      moreover from "1.IH"(2) [OF True, of "cs ! (us ! i)"] own i u "1.prems" True
      obtain arr' where "collect_sockets cs us (i + 1) n own arr = Inr arr'" "length arr' = length arr"
        "\<forall>k < length arr. arr' ! k = (if i + 1 \<le> k \<and> k < n \<and> c_socket (cs ! (us ! k)) \<noteq> own
          then Some (c_socket (cs ! (us ! k))) else arr ! k)"
        by auto
      ultimately show ?thesis
        using own by (auto simp: Suc_le_eq le_less)
    next
      case other: False
      let ?arr = "arr[i := Some (c_socket (cs ! (us ! i)))]"
      have "collect_sockets cs us i n own arr = collect_sockets cs us (i + 1) n own ?arr"
        using True i u other by (simp add: collect_sockets.simps [of cs us i])
      moreover from "1.IH"(1) [OF True other, of ?arr] other i u "1.prems" True
      obtain arr' where "collect_sockets cs us (i + 1) n own ?arr = Inr arr'" "length arr' = length arr"
        "\<forall>k < length arr. arr' ! k = (if i + 1 \<le> k \<and> k < n \<and> c_socket (cs ! (us ! k)) \<noteq> own
          then Some (c_socket (cs ! (us ! k))) else ?arr ! k)"
        by auto
      ultimately show ?thesis
        using other i True by (auto simp: nth_list_update Suc_le_eq)
    qed
  qed
qed

lemma notify_loop_spec:
  assumes "k \<le> length arr" "i \<le> k" "\<forall>j. i \<le> j \<and> j < k \<longrightarrow> arr ! j = Some (f j)"
  shows "notify_loop arr i k msg = Inr (map (\<lambda>j. Send (f j) msg) [i..<k])"
  using assms
proof (induction arr i k msg rule: notify_loop.induct)
  case (1 arr i k msg)
  show ?case
    using 1 by (cases "i < k") (auto simp: notify_loop.simps [of arr i] upt_conv_Cons)
qed

lemma broadcast_loop_spec:
  assumes "n \<le> length us" "i \<le> n" "\<forall>u \<in> set (take n us). u < length cs"
  shows "broadcast_loop cs us i n sender msg =
    Inr (map (\<lambda>k. Send k (snprintf 1050 (''CHAT_MESSAGE '' @ msg)))
      (filter (\<lambda>k. k \<noteq> sender) (map (\<lambda>u. c_socket (cs ! u)) (drop i (take n us)))))"
  using assms
proof (induction cs us i n sender msg rule: broadcast_loop.induct)
  case (1 cs us i n sender msg)
  show ?case
  proof (cases "i < n")
    case False
    with "1.prems" show ?thesis by simp
  next
    case True
    have u: "us ! i < length cs" "i < length us" using True "1.prems" by (auto dest: nth_in_take)
    have split: "drop i (take n us) = us ! i # drop (Suc i) (take n us)"
      using True "1.prems" by (simp add: Cons_nth_drop_Suc [of i "take n us", symmetric])
    show ?thesis
      using "1.IH" [OF True] True u "1.prems" split
      by (simp add: broadcast_loop.simps [of cs us i])
  qed
qed

end
