(* ===== verification/Chat_Membership.thy ===== *)
theory Chat_Membership
  imports Chat_Rooms
begin

text \<open>
  The invariant that ties the two views of membership of the chat server together: the array
  of users in each room, and the field \<open>current_room\<close> of each client; and the proofs that
  \<open>leave_room\<close>, \<open>join_room\<close> and \<open>cleanup_client\<close> keep it, never leave the bounds of an array
  under it, and report to exactly the members concerned.
\<close>

section \<open>The invariant\<close>

definition room_ok :: "client list \<Rightarrow> room \<Rightarrow> bool" where
  "room_ok cs rm \<longleftrightarrow>
     length (users rm) = MAX_USERS_PER_ROOM \<and> user_count rm \<le> MAX_USERS_PER_ROOM \<and>
     (r_active rm \<longrightarrow>
        is_valid_room_name (r_name rm) \<and> members rm \<noteq> [] \<and> distinct (members rm) \<and>
        (\<forall>c \<in> set (members rm). c < length cs \<and> c_active (cs ! c) \<and> current_room (cs ! c) = r_name rm))"

definition rooms_ok :: "client list \<Rightarrow> room list \<Rightarrow> bool" where
  "rooms_ok cs rs \<longleftrightarrow>
     length rs = MAX_ROOMS \<and> (\<forall>i < length rs. room_ok cs (rs ! i)) \<and>
     (\<forall>i < length rs. \<forall>j < length rs.
        r_active (rs ! i) \<and> r_active (rs ! j) \<and> r_name (rs ! i) = r_name (rs ! j) \<longrightarrow> i = j)"

definition in_room :: "room list \<Rightarrow> nat \<Rightarrow> string \<Rightarrow> bool" where
  "in_room rs c r \<longleftrightarrow> (\<exists>i < length rs. r_active (rs ! i) \<and> r_name (rs ! i) = r \<and> c \<in> set (members (rs ! i)))"

definition places_ok :: "client list \<Rightarrow> room list \<Rightarrow> bool" where
  "places_ok cs rs \<longleftrightarrow>
     (\<forall>c < length cs. current_room (cs ! c) \<noteq> [] \<longrightarrow>
        is_valid_room_name (current_room (cs ! c)) \<and> c_active (cs ! c) \<and> in_room rs c (current_room (cs ! c)))"

definition active_rooms :: "room list \<Rightarrow> int" where
  "active_rooms rs = int (length (filter r_active rs))"

definition membership_ok :: "server \<Rightarrow> bool" where
  "membership_ok s \<longleftrightarrow>
     length (clients s) = MAX_CLIENTS \<and> rooms_ok (clients s) (rooms s) \<and>
     places_ok (clients s) (rooms s) \<and> room_count s = active_rooms (rooms s)"

lemma length_members: "room_ok cs rm \<Longrightarrow> length (members rm) = user_count rm"
  by (simp add: room_ok_def members_def)

lemma membership_okD:
  assumes "membership_ok s"
  shows "length (clients s) = MAX_CLIENTS" "rooms_ok (clients s) (rooms s)"
    "places_ok (clients s) (rooms s)" "room_count s = active_rooms (rooms s)"
    "length (rooms s) = MAX_ROOMS"
    "i < length (rooms s) \<Longrightarrow> room_ok (clients s) (rooms s ! i)"
  using assms by (auto simp: membership_ok_def rooms_ok_def)

lemma active_unique:
  assumes "rooms_ok cs rs" "i < length rs" "j < length rs" "r_active (rs ! i)" "r_active (rs ! j)"
    "r_name (rs ! i) = r_name (rs ! j)"
  shows "i = j"
  using assms unfolding rooms_ok_def by blast

lemma membersD:
  assumes "room_ok cs rm" "r_active rm" "c \<in> set (members rm)"
  shows "c < length cs" "c_active (cs ! c)" "current_room (cs ! c) = r_name rm"
  using assms by (auto simp: room_ok_def)

lemma room_ok_update_other:
  assumes "c \<notin> set (members rm)" "room_ok cs rm"
  shows "room_ok (cs[c := x]) rm"
proof -
  have "\<forall>d \<in> set (members rm). cs[c := x] ! d = cs ! d"
    using assms(1) by (metis nth_list_update_neq)
  then show ?thesis using assms(2) by (simp add: room_ok_def)
qed

text \<open>The two views agree.\<close>

lemma members_iff:
  assumes "rooms_ok cs rs" "places_ok cs rs" "i < length rs" "r_active (rs ! i)" "c < length cs"
  shows "c \<in> set (members (rs ! i)) \<longleftrightarrow> current_room (cs ! c) = r_name (rs ! i)"
proof
  assume "c \<in> set (members (rs ! i))"
  then show "current_room (cs ! c) = r_name (rs ! i)"
    using assms membersD by (auto simp: rooms_ok_def)
next
  assume eq: "current_room (cs ! c) = r_name (rs ! i)"
  moreover have "is_valid_room_name (r_name (rs ! i))"
    using assms by (auto simp: rooms_ok_def room_ok_def)
  ultimately have "current_room (cs ! c) \<noteq> []" by (auto simp: valid_room_name_iff)
  then obtain j where "j < length rs" "r_active (rs ! j)" "r_name (rs ! j) = current_room (cs ! c)"
    "c \<in> set (members (rs ! j))"
    using assms by (auto simp: places_ok_def in_room_def)
  moreover from this have "j = i"
    using active_unique [OF assms(1)] assms(3,4) eq by simp
  ultimately show "c \<in> set (members (rs ! i))" by simp
qed

lemma find_room_Some:
  "find_room r s = Some i \<Longrightarrow> i < length (rooms s) \<and> r_active (rooms s ! i) \<and> r_name (rooms s ! i) = r"
  by (auto simp: find_room_def dest: first_index_SomeD)

lemma find_room_eq:
  assumes "rooms_ok cs (rooms s)" "i < length (rooms s)" "r_active (rooms s ! i)" "r_name (rooms s ! i) = r"
  shows "find_room r s = Some i"
proof (cases "find_room r s")
  case None
  then show ?thesis using assms by (auto simp: find_room_def first_index_None)
next
  case (Some j)
  then show ?thesis
    using find_room_Some [OF Some] active_unique [OF assms(1)] assms by blast
qed

lemma fmt_prec_valid [simp]: "is_valid_room_name r \<Longrightarrow> fmt_prec MAX_ROOM_NAME_LEN r = r"
  by (simp add: fmt_prec_def valid_room_name_iff)

lemma valid_not_Nil [simp]: "is_valid_room_name [] = False" "is_valid_username [] = False"
  by (simp_all add: is_valid_room_name_def is_valid_username_def)

section \<open>leave_room\<close>

definition left_room :: "nat \<Rightarrow> room \<Rightarrow> room \<Rightarrow> bool" where
  "left_room c rm rm' \<longleftrightarrow>
     members rm' = filter (\<lambda>u. u \<noteq> c) (members rm) \<and> r_name rm' = r_name rm \<and>
     r_active rm' = (members rm' \<noteq> []) \<and> length (users rm') = length (users rm) \<and>
     user_count rm' = length (members rm')"

lemma leave_room_spec:
  assumes ok: "membership_ok s" and c: "c < MAX_CLIENTS" "current_room (clients s ! c) \<noteq> []"
  shows "\<exists>i rm'. find_room (current_room (clients s ! c)) s = Some i \<and> left_room c (rooms s ! i) rm' \<and>
    leave_room c s = Inr
      (emit (leave_effects (username (clients s ! c)) (current_room (clients s ! c))
          (map (\<lambda>u. c_socket (clients s ! u)) (filter (\<lambda>u. u \<noteq> c) (members (rooms s ! i)))))
        (upd_client c (\<lambda>x. x\<lparr>current_room := []\<rparr>)
          (s\<lparr>rooms := (rooms s)[i := rm'],
             room_count := (if r_active rm' then room_count s else room_count s - 1)\<rparr>)))"
proof -
  let ?cl = "clients s ! c"
  note D = membership_okD [OF ok]
  from c D have v: "is_valid_room_name (current_room ?cl)" "in_room (rooms s) c (current_room ?cl)"
    by (auto simp: places_ok_def)
  then obtain i where i: "i < length (rooms s)" "r_active (rooms s ! i)"
    "r_name (rooms s ! i) = current_room ?cl" "c \<in> set (members (rooms s ! i))"
    by (auto simp: in_room_def)
  then have f: "find_room (current_room ?cl) s = Some i"
    using D by (intro find_room_eq) auto
  let ?rm = "rooms s ! i" and ?ms = "filter (\<lambda>u. u \<noteq> c) (members (rooms s ! i))"
  have rok: "room_ok (clients s) ?rm" using i D by simp
  have pre: "user_count ?rm \<le> length (users ?rm)" "0 \<le> user_count ?rm"
    "\<forall>u \<in> set (take (user_count ?rm) (users ?rm)). u < length (clients s)"
    "length ([] :: int list) + (user_count ?rm - 0) \<le> MAX_USERS_PER_ROOM"
    using rok i(2) by (simp_all add: room_ok_def members_def)
  from leave_loop_spec [OF pre, of c]
  obtain us where us: "leave_loop (clients s) c 0 (users ?rm) (user_count ?rm) []
      = Inr (us, length ?ms, map (\<lambda>u. c_socket (clients s ! u)) ?ms)"
    "length us = length (users ?rm)" "take (length ?ms) us = ?ms"
    by (simp add: members_def) blast
  let ?rm1 = "?rm\<lparr>users := us, user_count := length ?ms\<rparr>"
  let ?rm' = "if ?ms = [] then ?rm1\<lparr>r_active := False\<rparr> else ?rm1"
  have "members ?rm1 = ?ms" using us(3) by (simp add: members_def)
  then have "left_room c ?rm ?rm'"
    using us(2) i(2) by (auto simp: left_room_def)
  moreover have "leave_room c s = Inr
      (emit (leave_effects (username ?cl) (current_room ?cl) (map (\<lambda>u. c_socket (clients s ! u)) ?ms))
        (upd_client c (\<lambda>x. x\<lparr>current_room := []\<rparr>)
          (s\<lparr>rooms := (rooms s)[i := ?rm'],
             room_count := (if r_active ?rm' then room_count s else room_count s - 1)\<rparr>)))"
    using i(2) by (simp add: leave_room_def Let_def us f v)
  ultimately show ?thesis using f by blast
qed

lemma active_rooms_update:
  "i < length rs \<Longrightarrow> active_rooms (rs[i := rm])
    = active_rooms rs + (if r_active rm then 1 else 0) - (if r_active (rs ! i) then 1 else 0)"
  using length_filter_update [of i rs r_active rm] by (auto simp: active_rooms_def)

lemma leave_membership:
  assumes ok: "membership_ok s" and c: "c < MAX_CLIENTS"
    and i: "find_room (current_room (clients s ! c)) s = Some i" and rm': "left_room c (rooms s ! i) rm'"
  defines "cs' \<equiv> (clients s)[c := (clients s ! c)\<lparr>current_room := []\<rparr>]"
    and "rs' \<equiv> (rooms s)[i := rm']"
  shows "rooms_ok cs' rs'" "places_ok cs' rs'"
    "(if r_active rm' then room_count s else room_count s - 1) = active_rooms rs'"
proof -
  note D = membership_okD [OF ok]
  note I = find_room_Some [OF i]
  have len: "length cs' = length (clients s)" "length rs' = length (rooms s)"
    by (simp_all add: cs'_def rs'_def)
  have cc: "c < length (clients s)" using c D by simp
  have other: "c \<notin> set (members (rooms s ! j))" if "j < length (rooms s)" "r_active (rooms s ! j)" "j \<noteq> i" for j
    using that members_iff [OF D(2,3) that(1,2) cc] I active_unique [OF D(2) that(1)] by auto
  have rok: "room_ok cs' (rs' ! j)" if "j < length rs'" for j
  proof (cases "j = i")
    case True
    have "room_ok (clients s) (rooms s ! i)" using I D by simp
    then show ?thesis
      using True I rm' length_filter_le [of "\<lambda>u. u \<noteq> c" "members (rooms s ! i)"]
        length_members [of "clients s" "rooms s ! i"]
      by (auto simp: room_ok_def left_room_def rs'_def cs'_def nth_list_update)
  next
    case False
    then have "room_ok (clients s) (rooms s ! j)" using that len D by simp
    moreover have "r_active (rooms s ! j) \<Longrightarrow> c \<notin> set (members (rooms s ! j))"
      using False other that len by simp
    ultimately show ?thesis
      using False room_ok_update_other [of c "rooms s ! j" "clients s"]
      by (cases "r_active (rooms s ! j)") (auto simp: rs'_def cs'_def, simp add: room_ok_def)
  qed
  have nm: "r_active (rs' ! j) \<Longrightarrow> r_active (rooms s ! j) \<and> r_name (rs' ! j) = r_name (rooms s ! j)"
    if "j < length (rooms s)" for j
    using that I rm' by (cases "j = i") (auto simp: rs'_def left_room_def)
  show "rooms_ok cs' rs'"
    unfolding rooms_ok_def using D(5) len rok nm active_unique [OF D(2)] by (metis len(2))
  show "places_ok cs' rs'"
    unfolding places_ok_def
  proof (intro allI impI)
    fix d assume d: "d < length cs'" "current_room (cs' ! d) \<noteq> []"
    then have "d \<noteq> c" using cc by (auto simp: cs'_def)
    then have same: "cs' ! d = clients s ! d" by (simp add: cs'_def)
    then obtain j where j: "is_valid_room_name (current_room (clients s ! d))" "c_active (clients s ! d)"
      "j < length (rooms s)" "r_active (rooms s ! j)" "r_name (rooms s ! j) = current_room (clients s ! d)"
      "d \<in> set (members (rooms s ! j))"
      using D(3) d len by (auto simp: places_ok_def in_room_def)
    have "r_active (rs' ! j) \<and> r_name (rs' ! j) = current_room (clients s ! d) \<and> d \<in> set (members (rs' ! j))"
    proof (cases "j = i")
      case True
      have "d \<in> set (members rm')"
        using j True \<open>d \<noteq> c\<close> rm' by (simp add: left_room_def)
      moreover from this have "members rm' \<noteq> []" by auto
      ultimately show ?thesis using j True rm' I by (simp add: rs'_def left_room_def)
    next
      case False
      then show ?thesis using j by (simp add: rs'_def)
    qed
    then show "is_valid_room_name (current_room (cs' ! d)) \<and> c_active (cs' ! d)
      \<and> in_room rs' d (current_room (cs' ! d))"
      using j same len by (auto simp: in_room_def)
  qed
  show "(if r_active rm' then room_count s else room_count s - 1) = active_rooms rs'"
    using I D(4) by (simp add: rs'_def active_rooms_update)
qed

section \<open>join_room\<close>

definition sockets_ok :: "client list \<Rightarrow> bool" where
  "sockets_ok cs \<longleftrightarrow>
     (\<forall>i < length cs. \<forall>j < length cs. c_active (cs ! i) \<and> c_active (cs ! j) \<and>
        c_socket (cs ! i) = c_socket (cs ! j) \<longrightarrow> i = j)"

lemma joined_client_simps [simp]:
  "c_socket (joined_client b r cl) = c_socket cl" "username (joined_client b r cl) = username cl"
  "c_active (joined_client b r cl) = c_active cl" "received_files (joined_client b r cl) = received_files cl"
  "current_room (joined_client b r cl) = fmt_prec MAX_ROOM_NAME_LEN r"
  by (simp_all add: joined_client_def Let_def)

lemma create_room_spec:
  assumes "create_room r s = (s2, Some i)"
  shows "i < length (rooms s)" "\<not> r_active (rooms s ! i)"
    "s2 = s\<lparr>rooms := (rooms s)[i := (rooms s ! i)\<lparr>r_name := r, user_count := 0, r_active := True\<rparr>],
            room_count := room_count s + 1\<rparr>"
  using assms by (auto simp: create_room_def split: option.splits dest: first_index_SomeD)

text \<open>The room a client enters: the one that has the name, or a fresh one.\<close>

definition entered :: "nat \<Rightarrow> string \<Rightarrow> server \<Rightarrow> nat \<Rightarrow> nat list \<Rightarrow> room \<Rightarrow> bool" where
  "entered c r s i ms rm' \<longleftrightarrow>
     i < length (rooms s) \<and>
     (if r_active (rooms s ! i) then r_name (rooms s ! i) = r \<and> ms = members (rooms s ! i)
      else find_room r s = None \<and> ms = []) \<and>
     members rm' = ms @ [c] \<and> r_name rm' = r \<and> r_active rm' \<and>
     length (users rm') = MAX_USERS_PER_ROOM \<and> user_count rm' = length ms + 1 \<and> length ms < MAX_USERS_PER_ROOM"

definition join_effects :: "bool \<Rightarrow> bool \<Rightarrow> string \<Rightarrow> string \<Rightarrow> string \<Rightarrow> int list \<Rightarrow> effect list" where
  "join_effects was rejoining u old r socks =
     join_report was rejoining u old r @ map (\<lambda>k. Send k (join_msg rejoining u r)) socks
     @ (if socks \<noteq> [] then [join_note rejoining u r] else [])"

text \<open>Adding to a room with space left.\<close>

lemma add_user_spec:
  assumes "length (users rm) = MAX_USERS_PER_ROOM" "user_count rm < MAX_USERS_PER_ROOM"
  shows "wr (users rm) (user_count rm) c = Inr ((users rm)[user_count rm := c])"
    and "members (rm\<lparr>users := (users rm)[user_count rm := c], user_count := user_count rm + 1\<rparr>)
      = members rm @ [c]"
  using assms by (auto simp: members_def take_Suc_conv_app_nth)

lemma notify_members:
  assumes us: "length us = MAX_USERS_PER_ROOM" "n < MAX_USERS_PER_ROOM" "us ! n = c"
    and cs: "\<forall>u \<in> set (take n us). u < length cs \<and> c_socket (cs ! u) \<noteq> own"
    and c: "c < length cs" "c_socket (cs ! c) = own"
  shows "\<exists>arr. collect_sockets cs us 0 (n + 1) own (replicate MAX_USERS_PER_ROOM None) = Inr arr
    \<and> notify_loop arr 0 n msg = Inr (map (\<lambda>u. Send (c_socket (cs ! u)) msg) (take n us))"
proof -
  have tk: "take (n + 1) us = take n us @ [c]"
    using us by (simp add: take_Suc_conv_app_nth)
  have "\<forall>u \<in> set (take (n + 1) us). u < length cs" using cs c tk by auto
  with collect_sockets_spec [of "n + 1" us "replicate MAX_USERS_PER_ROOM None" cs 0 own] us
  obtain arr where arr: "collect_sockets cs us 0 (n + 1) own (replicate MAX_USERS_PER_ROOM None) = Inr arr"
    "length arr = MAX_USERS_PER_ROOM"
    "\<forall>k < MAX_USERS_PER_ROOM. arr ! k =
        (if k < n + 1 \<and> c_socket (cs ! (us ! k)) \<noteq> own then Some (c_socket (cs ! (us ! k)))
         else replicate MAX_USERS_PER_ROOM None ! k)"
    by auto
  have "\<forall>j. 0 \<le> j \<and> j < n \<longrightarrow> arr ! j = Some (c_socket (cs ! (us ! j)))"
    using arr(3) us cs by (auto dest: nth_in_take [of _ n us])
  with notify_loop_spec [of n arr 0 "\<lambda>j. c_socket (cs ! (us ! j))" msg] arr us
  have "notify_loop arr 0 n msg = Inr (map (\<lambda>j. Send (c_socket (cs ! (us ! j))) msg) [0..<n])"
    by simp
  moreover have "map (\<lambda>j. Send (c_socket (cs ! (us ! j))) msg) [0..<n]
      = map (\<lambda>u. Send (c_socket (cs ! u)) msg) (take n us)"
    using us by (intro nth_equalityI) auto
  ultimately show ?thesis using arr by simp
qed

definition add_member :: "nat \<Rightarrow> room \<Rightarrow> room" where
  "add_member c rm = rm\<lparr>users := (users rm)[user_count rm := c], user_count := user_count rm + 1\<rparr>"

lemma enter_at:
  assumes rm: "length (users rm) = MAX_USERS_PER_ROOM" "user_count rm < MAX_USERS_PER_ROOM"
    and c: "c < length (clients s)"
    and others: "\<forall>u \<in> set (members rm). u < length (clients s) \<and> c_socket (clients s ! u) \<noteq> c_socket (clients s ! c)"
    and s3: "s3 = upd_client c (joined_client rejoining r) (s\<lparr>rooms := (rooms s)[i := add_member c rm]\<rparr>)"
  shows "\<exists>arr. collect_sockets (clients s3) ((users rm)[user_count rm := c]) 0 (user_count rm + 1)
        (c_socket (clients s ! c)) (replicate MAX_USERS_PER_ROOM None) = Inr arr
    \<and> notify_loop arr 0 (user_count rm) msg
      = Inr (map (\<lambda>k. Send k msg) (map (\<lambda>u. c_socket (clients s ! u)) (members rm)))"
proof -
  have sock: "c_socket (clients s3 ! u) = c_socket (clients s ! u)" if "u < length (clients s)" for u
    using that c by (simp add: s3 nth_list_update)
  let ?us = "(users rm)[user_count rm := c]"
  have tk: "take (user_count rm) ?us = members rm" by (simp add: members_def)
  have pre: "length ?us = MAX_USERS_PER_ROOM" "?us ! user_count rm = c"
    "\<forall>u \<in> set (take (user_count rm) ?us). u < length (clients s3) \<and> c_socket (clients s3 ! u) \<noteq> c_socket (clients s ! c)"
    "c < length (clients s3)" "c_socket (clients s3 ! c) = c_socket (clients s ! c)"
    using rm c others sock tk by (simp_all add: s3)
  have "map (\<lambda>u. Send (c_socket (clients s3 ! u)) msg) (members rm)
      = map (\<lambda>k. Send k msg) (map (\<lambda>u. c_socket (clients s ! u)) (members rm))"
    using others sock by simp
  with notify_members [OF pre(1) rm(2) pre(2,3,4,5), of msg] show ?thesis
    unfolding tk by simp
qed

lemma add_to_room_spec:
  assumes rm: "length (users (rooms s ! i)) = MAX_USERS_PER_ROOM" "user_count (rooms s ! i) < MAX_USERS_PER_ROOM"
    and c: "c < length (clients s)"
    and others: "\<forall>u \<in> set (members (rooms s ! i)).
      u < length (clients s) \<and> c_socket (clients s ! u) \<noteq> c_socket (clients s ! c)"
  shows "add_to_room c r rejoining was old i s =
      Inr (emit (join_effects was rejoining (username (clients s ! c)) old r
            (map (\<lambda>u. c_socket (clients s ! u)) (members (rooms s ! i))))
          (upd_client c (joined_client rejoining r)
            (s\<lparr>rooms := (rooms s)[i := add_member c (rooms s ! i)]\<rparr>)), True)"
proof -
  let ?rm = "rooms s ! i"
  have "(0 < user_count ?rm) = (members ?rm \<noteq> [])"
    using rm by (auto simp: members_def)
  with enter_at [OF rm c others refl, of rejoining r i "join_msg rejoining (username (clients s ! c)) r"]
  show ?thesis
    by (auto simp: add_to_room_def Let_def add_member_def join_effects_def add_user_spec(1) [OF rm])
qed

lemma enter_room_spec:
  assumes ok: "membership_ok s" and sok: "sockets_ok (clients s)"
    and c: "c < MAX_CLIENTS" "c_active (clients s ! c)" "current_room (clients s ! c) = []"
    and space: "\<And>i. find_room r s = Some i \<Longrightarrow> user_count (rooms s ! i) < MAX_USERS_PER_ROOM"
  shows "enter_room c r rejoining was old s = Inr (s, False)
      \<and> find_room r s = None \<and> (\<forall>rm \<in> set (rooms s). r_active rm)
    \<or> (\<exists>i ms rm'. entered c r s i ms rm' \<and> enter_room c r rejoining was old s =
        Inr (emit (join_effects was rejoining (username (clients s ! c)) old r
              (map (\<lambda>u. c_socket (clients s ! u)) ms))
            (upd_client c (joined_client rejoining r)
              (s\<lparr>rooms := (rooms s)[i := rm'],
                 room_count := (if r_active (rooms s ! i) then room_count s else room_count s + 1)\<rparr>)),
          True))"
proof -
  note D = membership_okD [OF ok]
  have cc: "c < length (clients s)" using c D by simp
  show ?thesis
  proof (cases "find_room r s")
    case (Some i)
    note I = find_room_Some [OF Some]
    let ?rm = "rooms s ! i"
    have rok: "room_ok (clients s) ?rm" using I D by simp
    have n: "user_count ?rm < MAX_USERS_PER_ROOM" "length (users ?rm) = MAX_USERS_PER_ROOM"
      using space [OF Some] rok by (auto simp: room_ok_def)
    have ent: "entered c r s i (members ?rm) (add_member c ?rm)"
      using I n add_user_spec(2) [OF n(2,1), of c] length_members [OF rok]
      by (simp add: entered_def add_member_def)
    have others: "\<forall>u \<in> set (members ?rm). u < length (clients s) \<and> c_socket (clients s ! u) \<noteq> c_socket (clients s ! c)"
    proof
      fix u assume "u \<in> set (members ?rm)"
      then have u: "u < length (clients s)" "c_active (clients s ! u)" "current_room (clients s ! u) = r"
        "is_valid_room_name r"
        using membersD [OF rok] I rok by (auto simp: room_ok_def)
      with c have "u \<noteq> c" by auto
      with u c cc sok show "u < length (clients s) \<and> c_socket (clients s ! u) \<noteq> c_socket (clients s ! c)"
        by (auto simp: sockets_ok_def)
    qed
    have "enter_room c r rejoining was old s = add_to_room c r rejoining was old i s"
      by (simp add: enter_room_def Some)
    with ent I add_to_room_spec [OF n(2,1) cc others] show ?thesis
      by (intro disjI2 exI [of _ i] exI [of _ "members ?rm"] exI [of _ "add_member c ?rm"]) simp
  next
    case None
    show ?thesis
    proof (cases "snd (create_room r s)")
      case none: None
      then have full: "first_index (\<lambda>r. \<not> r_active r) (rooms s) = None"
        by (simp add: create_room_def split: option.splits)
      then have "create_room r s = (s, None)" by (simp add: create_room_def)
      moreover have "\<forall>rm \<in> set (rooms s). r_active rm" using full by (simp add: first_index_None)
      ultimately show ?thesis using None by (simp add: enter_room_def)
    next
      case (Some i)
      then obtain s2 where s2: "create_room r s = (s2, Some i)" by (cases "create_room r s") auto
      note C = create_room_spec [OF s2]
      let ?rm = "(rooms s ! i)\<lparr>r_name := r, user_count := 0, r_active := True\<rparr>"
      have rm: "rooms s2 ! i = ?rm" "clients s2 = clients s" using C by simp_all
      have n: "length (users (rooms s2 ! i)) = MAX_USERS_PER_ROOM" "user_count (rooms s2 ! i) < MAX_USERS_PER_ROOM"
        using D(6) [OF C(1)] by (simp_all add: rm room_ok_def MAX_USERS_PER_ROOM_def)
      have m: "members ?rm = []" by (simp add: members_def)
      have ent: "entered c r s i [] (add_member c ?rm)"
        using C n None add_user_spec(2) [OF n, of c] rm m by (simp add: entered_def add_member_def)
      have "enter_room c r rejoining was old s = add_to_room c r rejoining was old i s2"
        by (simp add: enter_room_def None s2)
      also have "\<dots> = Inr (emit (join_effects was rejoining (username (clients s ! c)) old r [])
            (upd_client c (joined_client rejoining r)
              (s2\<lparr>rooms := (rooms s2)[i := add_member c ?rm]\<rparr>)), True)"
        using add_to_room_spec [OF n, of c r rejoining was old] cc by (simp add: rm m)
      finally show ?thesis
        using ent C by (intro disjI2 exI [of _ i] exI [of _ "[]"] exI [of _ "add_member c ?rm"]) simp
    qed
  qed
qed

lemma enter_membership:
  fixes b :: bool
  assumes ok: "membership_ok s" and c: "c < MAX_CLIENTS" "c_active (clients s ! c)" "current_room (clients s ! c) = []"
    and r: "is_valid_room_name r" and e: "entered c r s i ms rm'"
  defines "cs' \<equiv> (clients s)[c := joined_client b r (clients s ! c)]"
    and "rs' \<equiv> (rooms s)[i := rm']"
  shows "rooms_ok cs' rs'" "places_ok cs' rs'"
    "(if r_active (rooms s ! i) then room_count s else room_count s + 1) = active_rooms rs'"
proof -
  note D = membership_okD [OF ok]
  have cc: "c < length (clients s)" using c D by simp
  have len: "length cs' = length (clients s)" "length rs' = length (rooms s)"
    by (simp_all add: cs'_def rs'_def)
  have i: "i < length (rooms s)" using e by (simp add: entered_def)
  have self: "cs' ! c = joined_client b r (clients s ! c)" using cc by (simp add: cs'_def)
  have keep: "cs' ! d = clients s ! d" if "d \<noteq> c" for d using that by (simp add: cs'_def)
  have not_c: "c \<notin> set (members (rooms s ! j))" if "j < length (rooms s)" "r_active (rooms s ! j)" for j
    using that D(6) [OF that(1)] c(3) by (auto simp: room_ok_def)
  have ms: "c \<notin> set ms" "distinct ms" "\<forall>d \<in> set ms. d < length (clients s) \<and> c_active (clients s ! d) \<and> current_room (clients s ! d) = r"
    using e i not_c [of i] D(6) [OF i] by (auto simp: entered_def room_ok_def split: if_splits)
  have rok: "room_ok cs' (rs' ! j)" if "j < length rs'" for j
  proof (cases "j = i")
    case True
    have "\<forall>d \<in> set ms. cs' ! d = clients s ! d" using ms(1) keep by metis
    then show ?thesis
      using True i e ms r len cc self c(2) by (auto simp: room_ok_def rs'_def entered_def)
  next
    case False
    then have j: "room_ok (clients s) (rooms s ! j)" using that len D by simp
    show ?thesis
    proof (cases "r_active (rooms s ! j)")
      case True
      then show ?thesis
        using False j not_c that len room_ok_update_other [of c "rooms s ! j" "clients s"]
        by (simp add: rs'_def cs'_def)
    next
      case False
      then show ?thesis using \<open>j \<noteq> i\<close> j by (simp add: rs'_def room_ok_def)
    qed
  qed
  have name: "r_name (rs' ! j) = r \<Longrightarrow> r_active (rs' ! j) \<Longrightarrow> j = i" if "j < length (rooms s)" for j
  proof (rule ccontr)
    assume j: "r_name (rs' ! j) = r" "r_active (rs' ! j)" "j \<noteq> i"
    then have j': "r_name (rooms s ! j) = r" "r_active (rooms s ! j)" by (simp_all add: rs'_def)
    then have "find_room r s = Some j" using that D by (intro find_room_eq) auto
    with e j that i j' active_unique [OF D(2), of i j] show False
      by (auto simp: entered_def split: if_splits)
  qed
  have "j = k" if "j < length rs'" "k < length rs'" "r_active (rs' ! j)" "r_active (rs' ! k)"
    "r_name (rs' ! j) = r_name (rs' ! k)" for j k
  proof (cases "j = i \<or> k = i")
    case True
    then have "r_name (rs' ! j) = r" "r_name (rs' ! k) = r"
      using that(5) e i by (auto simp: rs'_def entered_def)
    then show ?thesis using name that len by metis
  next
    case False
    then show ?thesis using that len active_unique [OF D(2), of j k] by (simp add: rs'_def)
  qed
  then show "rooms_ok cs' rs'"
    unfolding rooms_ok_def using D(5) len rok by auto
  show "places_ok cs' rs'"
    unfolding places_ok_def
  proof (intro allI impI)
    fix d assume d: "d < length cs'" "current_room (cs' ! d) \<noteq> []"
    show "is_valid_room_name (current_room (cs' ! d)) \<and> c_active (cs' ! d) \<and> in_room rs' d (current_room (cs' ! d))"
    proof (cases "d = c")
      case True
      then show ?thesis
        using self r c(2) e i len by (auto simp: in_room_def entered_def rs'_def)
    next
      case False
      then obtain j where j: "is_valid_room_name (current_room (clients s ! d))" "c_active (clients s ! d)"
        "j < length (rooms s)" "r_active (rooms s ! j)" "r_name (rooms s ! j) = current_room (clients s ! d)"
        "d \<in> set (members (rooms s ! j))"
        using D(3) d len keep by (auto simp: places_ok_def in_room_def)
      have "r_active (rs' ! j) \<and> r_name (rs' ! j) = current_room (clients s ! d) \<and> d \<in> set (members (rs' ! j))"
        using j e by (cases "j = i") (auto simp: rs'_def entered_def)
      with j keep [OF False] len show ?thesis by (auto simp: in_room_def)
    qed
  qed
  show "(if r_active (rooms s ! i) then room_count s else room_count s + 1) = active_rooms rs'"
    using i D(4) e by (simp add: rs'_def active_rooms_update entered_def)
qed

end
