(* ===== verification/Container_Contracts.thy ===== *)
theory Container_Contracts
  imports C_Base
begin

text \<open>
  Two interfaces: the contract of a table of received file names, at the end, and the
  contract of a bounded first-in first-out queue, as the two producer/consumer programs
  of the repository rely on it, and the arithmetic of the ring that both implement it with:
  the line buffer of the log searcher and the file transfer queue of the chat server.
\<close>

section \<open>Rings\<close>

text \<open>The elements of a ring of capacity \<open>cap\<close>, oldest first.\<close>

definition ring_contents :: "'a list \<Rightarrow> nat \<Rightarrow> nat \<Rightarrow> nat \<Rightarrow> 'a list" where
  "ring_contents ls head sz cap = map (\<lambda>i. ls ! ((head + i) mod cap)) [0..<sz]"

definition ring_ok :: "'a list \<Rightarrow> nat \<Rightarrow> nat \<Rightarrow> nat \<Rightarrow> nat \<Rightarrow> bool" where
  "ring_ok ls head tail sz cap \<longleftrightarrow>
     0 < cap \<and> length ls = cap \<and> head < cap \<and> sz \<le> cap \<and> tail = (head + sz) mod cap"

lemma length_ring_contents [simp]: "length (ring_contents ls head sz cap) = sz"
  by (simp add: ring_contents_def)

lemma ring_contents_0 [simp]: "ring_contents ls head 0 cap = []"
  by (simp add: ring_contents_def)

lemma ring_slot_inj:
  fixes i j h cap :: nat
  assumes "i < cap" "j < cap" "(h + i) mod cap = (h + j) mod cap"
  shows "i = j"
proof (rule ccontr)
  assume "i \<noteq> j"
  have "\<And>a b. a < b \<Longrightarrow> b < cap \<Longrightarrow> (h + a) mod cap \<noteq> (h + b) mod cap"
  proof
    fix a b assume ab: "a < b" "b < cap" "(h + a) mod cap = (h + b) mod cap"
    then have "cap dvd (h + b) - (h + a)" by (metis mod_eq_dvd_iff_nat add_le_cancel_left less_imp_le)
    with ab show False by (auto dest: dvd_imp_le)
  qed
  with assms \<open>i \<noteq> j\<close> show False by (metis linorder_neqE_nat)
qed

lemma ring_put:
  assumes "ring_ok ls head tail sz cap" "sz < cap"
  shows "ring_contents (ls[tail := x]) head (sz + 1) cap = ring_contents ls head sz cap @ [x]"
    and "ring_ok (ls[tail := x]) head ((tail + 1) mod cap) (sz + 1) cap"
proof -
  have tail: "tail = (head + sz) mod cap" "tail < length ls"
    using assms by (auto simp: ring_ok_def)
  have "ls[tail := x] ! ((head + i) mod cap) = ls ! ((head + i) mod cap)" if "i < sz" for i
    using that assms tail ring_slot_inj [of i cap sz head] by (auto simp: nth_list_update)
  then show "ring_contents (ls[tail := x]) head (sz + 1) cap = ring_contents ls head sz cap @ [x]"
    using tail by (simp add: ring_contents_def)
  show "ring_ok (ls[tail := x]) head ((tail + 1) mod cap) (sz + 1) cap"
    using assms tail by (simp add: ring_ok_def mod_Suc_eq)
qed

lemma ring_get:
  assumes "ring_ok ls head tail sz cap" "0 < sz"
  shows "ring_contents ls head sz cap = ls ! head # ring_contents ls ((head + 1) mod cap) (sz - 1) cap"
    and "ring_ok ls ((head + 1) mod cap) tail (sz - 1) cap"
proof -
  have "[0..<sz] = 0 # map Suc [0..<sz - 1]"
    using assms by (metis Suc_pred' map_Suc_upt upt_conv_Cons)
  then show "ring_contents ls head sz cap = ls ! head # ring_contents ls ((head + 1) mod cap) (sz - 1) cap"
    using assms by (simp add: ring_contents_def ring_ok_def mod_add_left_eq)
  show "ring_ok ls ((head + 1) mod cap) tail (sz - 1) cap"
  proof -
    have "((head + 1) mod cap + (sz - 1)) mod cap = (head + 1 + (sz - 1)) mod cap"
      by (rule mod_add_left_eq)
    also have "head + 1 + (sz - 1) = head + sz" using assms by simp
    finally show ?thesis using assms unfolding ring_ok_def by auto
  qed
qed

section \<open>The contract\<close>

datatype 'a fifo_op = PutOp 'a | GetOp

text \<open>
  Running a sequence of operations: a put into a full queue and a get from an empty one do
  not happen (the caller waits). The results are the elements got, the elements accepted,
  and the queue left.
\<close>

fun fifo_run :: "('a \<Rightarrow> 'q \<Rightarrow> 'q) \<Rightarrow> ('q \<Rightarrow> 'a \<times> 'q) \<Rightarrow> ('q \<Rightarrow> bool) \<Rightarrow> ('q \<Rightarrow> bool)
    \<Rightarrow> 'a fifo_op list \<Rightarrow> 'q \<Rightarrow> 'a list \<times> 'a list \<times> 'q" where
  "fifo_run enq deq isfull isempty [] q = ([], [], q)"
| "fifo_run enq deq isfull isempty (PutOp x # ops) q =
     (if isfull q then fifo_run enq deq isfull isempty ops q
      else (let (got, put, q') = fifo_run enq deq isfull isempty ops (enq x q) in (got, x # put, q')))"
| "fifo_run enq deq isfull isempty (GetOp # ops) q =
     (if isempty q then fifo_run enq deq isfull isempty ops q
      else (let (y, q1) = deq q; (got, put, q') = fifo_run enq deq isfull isempty ops q1
            in (y # got, put, q')))"

locale bounded_fifo =
  fixes enq :: "'a \<Rightarrow> 'q \<Rightarrow> 'q"
    and deq :: "'q \<Rightarrow> 'a \<times> 'q"
    and isfull :: "'q \<Rightarrow> bool"
    and isempty :: "'q \<Rightarrow> bool"
    and contents :: "'q \<Rightarrow> 'a list"
    and capacity :: "'q \<Rightarrow> nat"
    and inv :: "'q \<Rightarrow> bool"
  assumes enq_contents: "inv q \<Longrightarrow> \<not> isfull q \<Longrightarrow> contents (enq x q) = contents q @ [x]"
    and enq_inv: "inv q \<Longrightarrow> \<not> isfull q \<Longrightarrow> inv (enq x q)"
    and deq_contents: "inv q \<Longrightarrow> \<not> isempty q \<Longrightarrow> contents q = fst (deq q) # contents (snd (deq q))"
    and deq_inv: "inv q \<Longrightarrow> \<not> isempty q \<Longrightarrow> inv (snd (deq q))"
    and full_iff: "inv q \<Longrightarrow> isfull q \<longleftrightarrow> length (contents q) = capacity q"
    and empty_iff: "inv q \<Longrightarrow> isempty q \<longleftrightarrow> contents q = []"
    and bounded: "inv q \<Longrightarrow> length (contents q) \<le> capacity q"
begin

lemma run_fifo:
  assumes "inv q" "fifo_run enq deq isfull isempty ops q = (got, put, q')"
  shows "inv q' \<and> got @ contents q' = contents q @ put"
  using assms
proof (induction ops arbitrary: q got put q')
  case Nil
  then show ?case by simp
next
  case (Cons op ops)
  show ?case
  proof (cases op)
    case (PutOp x)
    show ?thesis
    proof (cases "isfull q")
      case True
      with PutOp Cons show ?thesis by simp
    next
      case False
      obtain put' where "fifo_run enq deq isfull isempty ops (enq x q) = (got, put', q')" "put = x # put'"
        using Cons.prems(2) PutOp False by (auto split: prod.splits)
      with Cons.IH [of "enq x q" got put' q'] Cons.prems(1) False show ?thesis
        by (simp add: enq_inv enq_contents)
    qed
  next
    case GetOp
    show ?thesis
    proof (cases "isempty q")
      case True
      with GetOp Cons show ?thesis by simp
    next
      case False
      obtain got' where "fifo_run enq deq isfull isempty ops (snd (deq q)) = (got', put, q')"
        "got = fst (deq q) # got'"
        using Cons.prems(2) GetOp False by (auto split: prod.splits)
      with Cons.IH [of "snd (deq q)" got' put q'] Cons.prems(1) False deq_contents [of q]
      show ?thesis by (simp add: deq_inv)
    qed
  qed
qed

lemma run_bounded:
  assumes "inv q" "fifo_run enq deq isfull isempty ops q = (got, put, q')"
  shows "length (contents q') \<le> capacity q'"
  using run_fifo [OF assms] bounded by blast

lemma put_then_get:
  assumes "inv q" "contents q = []" "\<not> isfull q"
  shows "fst (deq (enq x q)) = x"
proof -
  have "contents (enq x q) = [x]" using assms by (simp add: enq_contents)
  moreover from this assms have "\<not> isempty (enq x q)" by (simp add: empty_iff enq_inv)
  ultimately show ?thesis using deq_contents [of "enq x q"] assms by (simp add: enq_inv)
qed

end

section \<open>The table of received files\<close>

text \<open>
  The contract of a table of received file names, which the chat server keeps per client
  (\<open>file_exists_for_receiver\<close>, \<open>add_file_to_receiver\<close>) and the chat client keeps for itself
  (\<open>file_already_received\<close>, \<open>add_received_file\<close>): a bounded table that silently ignores an
  addition when it is full, and stores a name cut to the width of its entries.
\<close>

locale file_table =
  fixes add :: "string \<Rightarrow> 't \<Rightarrow> 't"
    and has :: "string \<Rightarrow> 't \<Rightarrow> bool"
    and names :: "'t \<Rightarrow> string list"
    and cap :: nat
    and width :: nat
  assumes has_iff: "has f t \<longleftrightarrow> f \<in> set (names t)"
    and add_space: "length (names t) < cap \<Longrightarrow> names (add f t) = names t @ [take width f]"
    and add_full: "cap \<le> length (names t) \<Longrightarrow> names (add f t) = names t"
begin

lemma has_after_add:
  assumes "length (names t) < cap" "length f \<le> width"
  shows "has f (add f t)"
  using assms by (simp add: has_iff add_space)

lemma add_keeps: "has g t \<Longrightarrow> has g (add f t)"
  by (cases "length (names t) < cap") (auto simp: has_iff add_space add_full)

lemma add_bounded: "length (names t) \<le> cap \<Longrightarrow> length (names (add f t)) \<le> cap"
  by (cases "length (names t) < cap") (auto simp: add_space add_full)

text \<open>Adding only absent names, as both programs do, keeps the entries distinct.\<close>

lemma add_absent_distinct:
  assumes "distinct (names t)" "\<not> has f t" "length f \<le> width"
  shows "distinct (names (add f t))"
  using assms by (cases "length (names t) < cap") (auto simp: has_iff add_space add_full)

end

end
