(* ===== verification/Chat_Files.thy ===== *)
theory Chat_Files
  imports Chat_Rooms Container_Contracts
begin

text \<open>
  File transfers of the chat server: the checks of \<open>handle_file_transfer\<close>, the bounded queue
  of requests behind the two semaphores (\<open>add_to_file_queue\<close>), the processor thread
  (\<open>file_queue_processor\<close>, \<open>process_file_transfer\<close>) and the files a client has received.
  A call that finds no empty slot blocks in \<open>sem_timedwait\<close>: it ends in a state of its
  thread, from which the grant of a slot and the timeout are separate steps. The processor
  sleeps three seconds in the middle of a transfer: its two halves are separate steps too.
\<close>

section \<open>The queue\<close>

definition queue_push :: "file_request \<Rightarrow> server \<Rightarrow> server" where
  "queue_push req s = s\<lparr>file_queue := (file_queue s)[queue_tail s := req],
     queue_tail := (queue_tail s + 1) mod MAX_FILE_QUEUE, queue_size := queue_size s + 1\<rparr>"

text \<open>The slot is read, marked inactive, and passed.\<close>

definition queue_pop :: "server \<Rightarrow> file_request \<times> server" where
  "queue_pop s =
     (let req = file_queue s ! queue_head s in
      (req, s\<lparr>file_queue := (file_queue s)[queue_head s := req\<lparr>f_active := False\<rparr>],
              queue_head := (queue_head s + 1) mod MAX_FILE_QUEUE, queue_size := queue_size s - 1\<rparr>))"

text \<open>The part of \<open>add_to_file_queue\<close> after a slot has been obtained.\<close>

definition enqueue_request :: "nat \<Rightarrow> nat \<Rightarrow> string \<Rightarrow> int \<Rightarrow> int \<Rightarrow> server \<Rightarrow> server" where
  "enqueue_request c r fn sz now s =
     (let req = \<lparr>f_sender = c, f_receiver = r, f_filename = take (BUFFER_SIZE - 1) fn, f_size = sz,
            f_queue_time = now, f_active = True\<rparr>;
          s1 = queue_push req s;
          u = username (clients s ! c);
          s2 = emit [Send (c_socket (clients s ! c))
                  (snprintf BUFFER_SIZE (''FILE_QUEUED '' @ fmt_d (int (queue_size s1)))),
                Print (''[FILE QUEUE] Upload '' @ quoted fn @ '' from user '' @ quoted u @ '' added to queue.'' @ nl),
                Log ''FILE-QUEUE'' (snprintf 512 (''Upload '' @ quoted fn @ '' from '' @ fmt_prec 16 u
                  @ '' added to queue.''))] s1
      in s2\<lparr>filled_slots := filled_slots s2 + 1\<rparr>)"

definition add_to_file_queue :: "nat \<Rightarrow> nat \<Rightarrow> string \<Rightarrow> int \<Rightarrow> int \<Rightarrow> server \<Rightarrow> server" where
  "add_to_file_queue c r fn sz now s =
     (if empty_slots s = 0
      then set_thread c (WaitSlot r fn sz)
        (emit [Send (c_socket (clients s ! c)) ''FILE_QUEUE_FULL'',
               Print (''[FILE QUEUE] Queue is full. User '' @ quoted (username (clients s ! c))
                 @ '' waiting to send '' @ quoted fn @ '' to '' @ quoted (username (clients s ! r)) @ nl),
               Log ''INFO'' ''File queue is full, user waiting to send file.''] s)
      else enqueue_request c r fn sz now (s\<lparr>empty_slots := empty_slots s - 1\<rparr>))"

text \<open>\<open>sem_timedwait\<close> returns 0, or times out after MAX_FILE_WAIT_TIME seconds.\<close>

definition slot_granted :: "nat \<Rightarrow> int \<Rightarrow> server \<Rightarrow> server" where
  "slot_granted c now s =
     (case threads s ! c of
        WaitSlot r fn sz \<Rightarrow>
          set_thread c Commands (enqueue_request c r fn sz now (s\<lparr>empty_slots := empty_slots s - 1\<rparr>))
      | _ \<Rightarrow> s)"

definition slot_timeout :: "nat \<Rightarrow> server \<Rightarrow> server" where
  "slot_timeout c s =
     (case threads s ! c of
        WaitSlot r fn sz \<Rightarrow>
          (let u = username (clients s ! c); v = username (clients s ! r) in
           set_thread c Commands
            (emit [Send (c_socket (clients s ! c)) ''FILE_QUEUE_STILL_FULL'',
               Print (''[FILE QUEUE] User '' @ quoted (fmt_prec 16 u) @ '' timed out waiting to send ''
                 @ quoted fn @ '' to '' @ quoted (fmt_prec 16 v) @ nl),
               Log ''ERROR'' (snprintf 512 (''File transfer from '' @ quoted (fmt_prec 16 u) @ '' to ''
                 @ quoted (fmt_prec 16 v) @ '' cannot be performed, queue is full''))] s))
      | _ \<Rightarrow> s)"

section \<open>Requests\<close>

definition MAX_FILE_SIZE :: int where "MAX_FILE_SIZE = 3 * 1024 * 1024"

definition has_valid_extension :: "string \<Rightarrow> bool" where
  "has_valid_extension fn =
     (case strrchr fn (CHR ''.'') of
        None \<Rightarrow> False
      | Some dot \<Rightarrow>
          let extension = tl dot in
          strcasecmp_eq extension ''txt'' \<or> strcasecmp_eq extension ''pdf'' \<or>
          strcasecmp_eq extension ''jpg'' \<or> strcasecmp_eq extension ''png'')"

definition handle_file_transfer :: "nat \<Rightarrow> string \<Rightarrow> string \<Rightarrow> int \<Rightarrow> int \<Rightarrow> server \<Rightarrow> server" where
  "handle_file_transfer c fn target sz now s =
     (let cl = clients s ! c; u = username cl; sock = c_socket cl in
      if u = target then
        emit [Print (''[ERROR] Client '' @ quoted u @ '' tried to send a file to themselves'' @ nl),
              Send sock ''SEND_TO_SELF'',
              Log ''REJECTED'' (''user '' @ quoted (fmt_prec 16 u) @ '' tried to send a file to themselves'')] s
      else if MAX_FILE_SIZE < sz then
        emit [Print (''[ERROR] File '' @ quoted fn @ '' from user '' @ quoted u @ '' exceeds size limit.'' @ nl),
              Send sock (snprintf BUFFER_SIZE (''FILE_IS_LARGE '' @ fmt_d sz)),
              Log ''ERROR'' (snprintf 512 (''File '' @ quoted fn @ '' from user '' @ quoted u
                @ '' exceeds size limit.''))] s
      else if \<not> has_valid_extension fn then
        emit [Print (''[ERROR] Client '' @ quoted u @ '' tried to send a file with invalid extension: '' @ fn @ nl),
              Send sock ''WRONG_EXTENSION'',
              Log ''REJECTED'' (''user '' @ quoted (fmt_prec 16 u)
                @ '' tried to send a file with invalid extension: '' @ fmt_prec 64 fn)] s
      else (case find_client_by_username target s of
          None \<Rightarrow>
            emit [Print (''[ERROR] Client '' @ quoted u @ '' tried to send file to non-existent user ''
                    @ quoted target @ nl),
                  Send sock ''USER_NOT_FOUND'',
                  Log ''REJECTED'' (''user '' @ quoted (fmt_prec 16 u)
                    @ '' tried to send file to non-existent user '' @ quoted (fmt_prec 16 target))] s
        | Some r \<Rightarrow>
            add_to_file_queue c r fn sz now
              (emit [Log ''FILE_TRANSFER_REQUEST'' (snprintf 512 (''user '' @ quoted (fmt_prec 16 u)
                  @ '' requested to send file '' @ quoted (fmt_prec 64 fn) @ '' ('' @ fmt_d sz
                  @ '' bytes) to user '' @ quoted (fmt_prec 16 target)))] s)))"

section \<open>Received files\<close>

definition file_exists_for_receiver :: "string \<Rightarrow> client \<Rightarrow> bool" where
  "file_exists_for_receiver fn cl = list_ex (\<lambda>f. f = fn) (received_files cl)"

definition add_file_to_receiver :: "string \<Rightarrow> client \<Rightarrow> client" where
  "add_file_to_receiver fn cl =
     (if length (received_files cl) < MAX_RECEIVED_FILES
      then cl\<lparr>received_files := received_files cl @ [take (BUFFER_SIZE - 1) fn]\<rparr> else cl)"

interpretation receiver: file_table add_file_to_receiver file_exists_for_receiver received_files
    MAX_RECEIVED_FILES "BUFFER_SIZE - 1"
  by unfold_locales (auto simp: file_exists_for_receiver_def add_file_to_receiver_def list_ex_iff)

section \<open>The processor\<close>

text \<open>The first half of a turn: from \<open>sem_wait (&filled_slots)\<close> to the \<open>sleep (3)\<close>.\<close>

definition processor_take :: "int \<Rightarrow> server \<Rightarrow> server" where
  "processor_take now s =
     (let s1 = s\<lparr>filled_slots := filled_slots s - 1\<rparr> in
      if \<not> server_running s1 then s1\<lparr>processor := Stopped\<rparr>
      else
        let (req, s2) = queue_pop s1;
            s3 = s2\<lparr>empty_slots := empty_slots s2 + 1\<rparr>;
            secs = fmt_d (now - f_queue_time req);
            u = username (clients s3 ! f_sender req);
            fn = f_filename req
        in emit [Send (c_socket (clients s3 ! f_sender req))
                   (snprintf BUFFER_SIZE (''FILE_TRANSFER_STARTED '' @ fmt_prec 256 fn @ '' '' @ secs)),
                 Print (''[FILE] '' @ quoted fn @ '' from user '' @ quoted u @ '' started upload after ''
                   @ secs @ '' seconds in queue.'' @ nl),
                 Log ''FILE'' (snprintf 512 (quoted (fmt_prec 256 fn) @ '' from user '' @ quoted (fmt_prec 16 u)
                   @ '' started upload after '' @ secs @ '' seconds in queue.''))]
             (s3\<lparr>processor := Transferring req\<rparr>))"

text \<open>The second half: the rest of \<open>process_file_transfer\<close> and the loop condition.\<close>

definition finish_transfer :: "file_request \<Rightarrow> server \<Rightarrow> server" where
  "finish_transfer req s =
     (let r = f_receiver req; fn = f_filename req;
          snd = clients s ! f_sender req; rcv = clients s ! r;
          u = username snd; v = username rcv;
          msgs = [Send (c_socket rcv) (snprintf BUFFER_SIZE (''FILE_RECEIVED '' @ fmt_prec 16 u @ '' '' @ fmt_prec 256 fn)),
                  Send (c_socket snd) (snprintf BUFFER_SIZE (''FILE_TRANSFER_COMPLETE '' @ fmt_prec 256 fn @ '' ''
                    @ fmt_prec 16 v))]
      in if file_exists_for_receiver fn rcv then
           emit ([Print (''[FILE] '' @ fn @ sq @ '' already exists for user '' @ quoted v
                    @ '', but still allowing transfer'' @ nl)]
                 @ msgs
                 @ [Log ''FILE'' (snprintf 512 (''Conflict: '' @ quoted (fmt_prec 256 fn) @ '' received twice'')),
                    Print (''[FILE] '' @ quoted fn @ '' sent from '' @ quoted u @ '' to '' @ quoted v
                      @ '' (despite name conflict).'' @ nl),
                    Log ''SEND_FILE'' (snprintf 512 (quoted (fmt_prec 256 fn) @ '' sent from '' @ quoted u
                      @ '' to '' @ quoted v @ ''.''))]) s
         else
           emit (msgs
                 @ [Print (''[FILE] '' @ quoted fn @ '' sent from '' @ quoted u @ '' to '' @ quoted v @ ''.'' @ nl),
                    Log ''SEND_FILE'' (snprintf 512 (sq @ ''test_files/'' @ fmt_prec 256 fn @ sq @ '' sent from ''
                      @ quoted u @ '' to '' @ quoted v @ ''.''))])
             (upd_client r (add_file_to_receiver fn) s))"

definition processor_finish :: "server \<Rightarrow> server" where
  "processor_finish s =
     (case processor s of
        Transferring req \<Rightarrow>
          let s1 = finish_transfer req s in
          s1\<lparr>processor := (if server_running s1 then Idle else Stopped)\<rparr>
      | _ \<Rightarrow> s)"

section \<open>The queue is a bounded FIFO\<close>

definition pending :: "server \<Rightarrow> file_request list" where
  "pending s = ring_contents (file_queue s) (queue_head s) (queue_size s) MAX_FILE_QUEUE"

definition ring_inv :: "server \<Rightarrow> bool" where
  "ring_inv s \<longleftrightarrow> ring_ok (file_queue s) (queue_head s) (queue_tail s) (queue_size s) MAX_FILE_QUEUE"

lemma queue_push_ring:
  assumes "ring_inv s" "queue_size s \<noteq> MAX_FILE_QUEUE"
  shows "pending (queue_push req s) = pending s @ [req]" "ring_inv (queue_push req s)"
proof -
  have "queue_size s < MAX_FILE_QUEUE" using assms by (auto simp: ring_inv_def ring_ok_def)
  with assms(1) show "pending (queue_push req s) = pending s @ [req]" "ring_inv (queue_push req s)"
    using ring_put [of "file_queue s" "queue_head s" "queue_tail s" "queue_size s" MAX_FILE_QUEUE req]
    by (simp_all add: ring_inv_def pending_def queue_push_def)
qed

text \<open>Marking the slot that has just been vacated does not change what is pending.\<close>

lemma ring_contents_vacated:
  assumes "ring_ok ls head tail sz cap" "0 < sz"
  shows "ring_contents (ls[head := x]) ((head + 1) mod cap) (sz - 1) cap
    = ring_contents ls ((head + 1) mod cap) (sz - 1) cap"
proof -
  have "((head + 1) mod cap + k) mod cap \<noteq> head" if "k < sz - 1" for k
  proof
    assume eq: "((head + 1) mod cap + k) mod cap = head"
    have "(head + (k + 1)) mod cap = (head + 0) mod cap"
      using eq assms by (simp add: ring_ok_def mod_add_left_eq)
    moreover have "k + 1 < cap" using that assms unfolding ring_ok_def by auto
    ultimately have "k + 1 = 0"
      using ring_slot_inj [of "k + 1" cap 0 head] assms(1) by (simp add: ring_ok_def)
    then show False by simp
  qed
  then have "ls[head := x] ! (((head + 1) mod cap + k) mod cap) = ls ! (((head + 1) mod cap + k) mod cap)"
    if "k < sz - 1" for k
    using that by (metis nth_list_update_neq)
  then show ?thesis by (auto simp: ring_contents_def)
qed

lemma queue_pop_ring:
  assumes "ring_inv s" "queue_size s \<noteq> 0"
  shows "pending s = fst (queue_pop s) # pending (snd (queue_pop s))" "ring_inv (snd (queue_pop s))"
proof -
  let ?ls = "file_queue s" and ?h = "queue_head s" and ?n = "queue_size s"
  have ok: "ring_ok ?ls ?h (queue_tail s) ?n MAX_FILE_QUEUE" "0 < ?n"
    using assms by (auto simp: ring_inv_def)
  show "pending s = fst (queue_pop s) # pending (snd (queue_pop s))"
    using ring_get(1) [OF ok] ring_contents_vacated [OF ok]
    by (simp add: pending_def queue_pop_def Let_def)
  show "ring_inv (snd (queue_pop s))"
    using ring_get(2) [OF ok] by (simp add: ring_inv_def queue_pop_def Let_def ring_ok_def)
qed

interpretation transfers: bounded_fifo queue_push queue_pop
    "\<lambda>s. queue_size s = MAX_FILE_QUEUE" "\<lambda>s. queue_size s = 0" pending "\<lambda>s. MAX_FILE_QUEUE" ring_inv
proof unfold_locales
  fix s :: server
  assume "ring_inv s"
  then show "(queue_size s = MAX_FILE_QUEUE) = (length (pending s) = MAX_FILE_QUEUE)"
    "(queue_size s = 0) = (pending s = [])" "length (pending s) \<le> MAX_FILE_QUEUE"
    by (auto simp: pending_def ring_inv_def ring_ok_def length_0_conv [symmetric] simp del: length_0_conv)
qed (simp_all add: queue_push_ring queue_pop_ring)

lemma ring_inv_init: "ring_inv (init_server k)"
  by (simp add: ring_inv_def ring_ok_def init_server_def c_limits)

section \<open>The slots of the semaphores\<close>

text \<open>
  With whole calls as steps, the two semaphores and the queue agree: every slot is either
  counted as empty, or holds a request and is counted as filled. The last turn of the
  processor, which it takes when the server shuts down, leaves its request in the queue.
\<close>

definition slots_ok :: "server \<Rightarrow> bool" where
  "slots_ok s \<longleftrightarrow> ring_inv s \<and> empty_slots s + queue_size s = MAX_FILE_QUEUE \<and>
     (processor s \<noteq> Stopped \<longrightarrow> filled_slots s = queue_size s)"

lemma enqueue_slots:
  assumes "slots_ok s" "empty_slots s \<noteq> 0"
  shows "slots_ok (enqueue_request c r fn sz now (s\<lparr>empty_slots := empty_slots s - 1\<rparr>))"
proof -
  let ?s = "s\<lparr>empty_slots := empty_slots s - 1\<rparr>"
  have r: "ring_inv ?s" "queue_size ?s \<noteq> MAX_FILE_QUEUE"
    using assms by (auto simp: slots_ok_def ring_inv_def)
  show ?thesis
    using queue_push_ring [OF r] assms
    by (auto simp: slots_ok_def enqueue_request_def Let_def ring_inv_def queue_push_def)
qed

lemma emit_slots [simp]: "slots_ok (emit xs s) = slots_ok s"
  by (simp add: slots_ok_def ring_inv_def)

lemma set_thread_slots [simp]: "slots_ok (set_thread c t s) = slots_ok s"
  by (simp add: slots_ok_def ring_inv_def)

lemma upd_client_slots [simp]: "slots_ok (upd_client c f s) = slots_ok s"
  by (simp add: slots_ok_def ring_inv_def)

lemma add_to_file_queue_slots: "slots_ok s \<Longrightarrow> slots_ok (add_to_file_queue c r fn sz now s)"
  by (simp add: add_to_file_queue_def enqueue_slots [simplified])

lemma slot_granted_slots:
  "slots_ok s \<Longrightarrow> empty_slots s \<noteq> 0 \<Longrightarrow> slots_ok (slot_granted c now s)"
  by (simp add: slot_granted_def enqueue_slots [simplified] split: thread_pc.splits)

lemma slot_timeout_slots: "slots_ok s \<Longrightarrow> slots_ok (slot_timeout c s)"
  by (simp add: slot_timeout_def Let_def split: thread_pc.splits)

lemma handle_file_transfer_slots: "slots_ok s \<Longrightarrow> slots_ok (handle_file_transfer c fn t sz now s)"
  by (simp add: handle_file_transfer_def Let_def add_to_file_queue_slots split: option.splits)

lemma processor_take_slots:
  assumes "slots_ok s" "filled_slots s \<noteq> 0" "processor s = Idle"
  shows "slots_ok (processor_take now s)"
proof -
  let ?s = "s\<lparr>filled_slots := filled_slots s - 1\<rparr>"
  have "ring_inv ?s" "queue_size ?s \<noteq> 0"
    using assms by (auto simp: slots_ok_def ring_inv_def)
  from queue_pop_ring(2) [OF this] assms show ?thesis
    by (auto simp: slots_ok_def processor_take_def Let_def ring_inv_def queue_pop_def ring_ok_def)
qed

lemma processor_finish_slots: "slots_ok s \<Longrightarrow> slots_ok (processor_finish s)"
  by (auto simp: processor_finish_def finish_transfer_def Let_def slots_ok_def ring_inv_def
      split: processor_pc.splits)

section \<open>What file transfers leave alone\<close>

lemma enqueue_frame [simp]:
  "clients (enqueue_request c r fn sz now s) = clients s" "rooms (enqueue_request c r fn sz now s) = rooms s"
  "room_count (enqueue_request c r fn sz now s) = room_count s"
  "client_count (enqueue_request c r fn sz now s) = client_count s"
  "threads (enqueue_request c r fn sz now s) = threads s"
  "processor (enqueue_request c r fn sz now s) = processor s"
  "server_running (enqueue_request c r fn sz now s) = server_running s"
  "lost_connection (enqueue_request c r fn sz now s) = lost_connection s"
  by (simp_all add: enqueue_request_def Let_def queue_push_def)

lemma add_to_file_queue_frame [simp]:
  "clients (add_to_file_queue c r fn sz now s) = clients s" "rooms (add_to_file_queue c r fn sz now s) = rooms s"
  "room_count (add_to_file_queue c r fn sz now s) = room_count s"
  "client_count (add_to_file_queue c r fn sz now s) = client_count s"
  "processor (add_to_file_queue c r fn sz now s) = processor s"
  "server_running (add_to_file_queue c r fn sz now s) = server_running s"
  "threads (add_to_file_queue c r fn sz now s) =
     (if empty_slots s = 0 then (threads s)[c := WaitSlot r fn sz] else threads s)"
  by (simp_all add: add_to_file_queue_def)

lemma handle_file_transfer_frame [simp]:
  "clients (handle_file_transfer c fn t sz now s) = clients s"
  "rooms (handle_file_transfer c fn t sz now s) = rooms s"
  "room_count (handle_file_transfer c fn t sz now s) = room_count s"
  "client_count (handle_file_transfer c fn t sz now s) = client_count s"
  "processor (handle_file_transfer c fn t sz now s) = processor s"
  "server_running (handle_file_transfer c fn t sz now s) = server_running s"
  by (simp_all add: handle_file_transfer_def Let_def split: option.splits)

lemma handle_file_transfer_threads:
  "threads (handle_file_transfer c fn t sz now s) = threads s \<or>
   (\<exists>r. find_client_by_username t s = Some r \<and>
      threads (handle_file_transfer c fn t sz now s) = (threads s)[c := WaitSlot r fn sz])"
  by (auto simp: handle_file_transfer_def Let_def find_client_by_username_def split: option.splits)

end
