(* ===== verification/Chat_Commands.thy ===== *)
theory Chat_Commands
  imports Chat_Membership Chat_Files
begin

text \<open>
  The threads of the chat server: the accept loop of \<open>main\<close>, the login and the command loop
  of \<open>client_handler\<close>, one iteration per step, and the signal handler and shutdown. A step of
  a client thread consumes the bytes of one \<open>recv\<close>, which the event carries, as it carries the
  current time. The loop conditions are evaluated at the end of the step.
\<close>

section \<open>Received lines\<close>

text \<open>\<open>buffer [bytes_received] = 0; buffer [strcspn (buffer, "CR LF")] = 0;\<close>\<close>

definition recv_line :: "char list \<Rightarrow> string" where
  "recv_line bytes = takeWhile (\<lambda>c. c \<noteq> NUL \<and> c \<noteq> CR \<and> c \<noteq> LF) bytes"

section \<open>The accept loop\<close>

definition accept_client :: "int \<Rightarrow> string \<Rightarrow> bool \<Rightarrow> server \<Rightarrow> server res" where
  "accept_client sock addr created s =
     (case first_index (\<lambda>cl. \<not> c_active cl) (clients s) of
        None \<Rightarrow>
          Inr (emit [Print (''[ERROR] Server is full, rejecting connection from '' @ addr @ nl),
                     Send sock ''SERVER_FULL'',
                     Log ''LOGIN_ERROR'' ''Server is full, client connection refused.'',
                     CloseSocket sock] s)
      | Some i \<Rightarrow>
          let s1 = upd_client i (\<lambda>cl. cl\<lparr>c_socket := sock, c_active := True, c_address := addr,
                username := [], current_room := []\<rparr>) s;
              s2 = s1\<lparr>client_count := client_count s1 + 1\<rparr>
          in if created then Inr (set_thread i Login s2) else cleanup_client i s2)"

section \<open>The end of a client thread\<close>

definition end_thread :: "nat \<Rightarrow> server \<Rightarrow> server res" where
  "end_thread c s = rbind (cleanup_client c s) (\<lambda>s1. Inr (set_thread c NoThread s1))"

text \<open>The condition of the command loop.\<close>

definition resume :: "nat \<Rightarrow> server \<Rightarrow> server res" where
  "resume c s = (if server_running s \<and> c_active (clients s ! c) then Inr s else end_thread c s)"

section \<open>Login\<close>

definition username_taken :: "string \<Rightarrow> server \<Rightarrow> bool" where
  "username_taken u s = list_ex (\<lambda>cl. c_active cl \<and> username cl = u) (clients s)"

definition login_step :: "nat \<Rightarrow> char list \<Rightarrow> server \<Rightarrow> server res" where
  "login_step c bytes s =
     (let buf = recv_line bytes; cl = clients s ! c; sock = c_socket cl in
      if \<not> is_valid_username buf then
        let s1 = emit [Print (''[ERROR] Invalid username format received: '' @ quoted buf @ nl),
                       Send sock ''INVALID_USERNAME'',
                       Log ''LOGIN_ERROR'' ''Invalid username format received.''] s
        in if server_running s1 then Inr s1 else end_thread c s1
      else if username_taken buf s then
        let s1 = emit [Print (''[ERROR] Duplicate username attempted: '' @ quoted buf @ nl),
                       Send sock ''USERNAME_TAKEN'',
                       Log ''REJECTED'' (''Duplicate username attempted: '' @ fmt_prec MAX_USERNAME_LEN buf)] s
        in if server_running s1 then Inr s1 else end_thread c s1
      else
        let s1 = set_thread c Commands (upd_client c (\<lambda>x. x\<lparr>username := buf\<rparr>) s);
            s2 = emit [Print (''[CONNECT] New client connected: '' @ quoted buf @ '' from '' @ c_address cl @ nl),
                       Send sock ''WELCOME'',
                       Log ''LOGIN'' (snprintf 512 (''user '' @ quoted buf @ '' connected from '' @ c_address cl))] s1
        in resume c s2)"

section \<open>Commands\<close>

definition cmd_join :: "nat \<Rightarrow> string \<Rightarrow> server \<Rightarrow> server res" where
  "cmd_join c room_name s =
     (let cl = clients s ! c; u = username cl; sock = c_socket cl in
      if \<not> is_valid_room_name room_name then
        Inr (emit [Print (''[ERROR] Invalid room name: '' @ quoted room_name @ nl),
                   Send sock ''INVALID_ROOM_NAME'',
                   Log ''REJECTED'' (''Invalid room name attempted: '' @ fmt_prec 100 room_name)] s)
      else if current_room cl = room_name then
        Inr (emit [Print (''[ERROR] Client '' @ quoted u @ '' tried to join the same room '' @ quoted room_name @ nl),
                   Send sock ''ALREADY_IN_ROOM'',
                   Log ''REJECTED'' (''user '' @ quoted (fmt_prec 16 u) @ '' tried to join the same room ''
                     @ quoted (fmt_prec 32 room_name))] s)
      else if (case find_room room_name s of
                 Some i \<Rightarrow> MAX_USERS_PER_ROOM \<le> user_count (rooms s ! i) | None \<Rightarrow> False) then
        Inr (emit [Print (''[ERROR] Room '' @ quoted room_name @ '' is full, client '' @ quoted u @ '' rejected'' @ nl),
                   Send sock ''ROOM_IS_FULL'',
                   Log ''REJECTED'' (''user '' @ quoted (fmt_prec 16 u) @ '' tried to join full room ''
                     @ quoted (fmt_prec 32 room_name))] s)
      else
        rbind (join_room c room_name s) (\<lambda>(s1, joined).
          Inr (if joined then send_to_client sock (''JOIN_ROOM '' @ fmt_prec 32 room_name) s1
               else send_to_client sock ''INVALID_ROOM'' s1)))"

definition cmd_leave :: "nat \<Rightarrow> server \<Rightarrow> server res" where
  "cmd_leave c s =
     (let cl = clients s ! c; u = username cl; sock = c_socket cl in
      if length (current_room cl) = 0 then
        Inr (emit [Print (''[ERROR] Client '' @ quoted u @ '' tried to leave a room but is not in one'' @ nl),
                   Send sock ''NOT_IN_ROOM'',
                   Log ''REJECTED'' (''user '' @ quoted (fmt_prec 16 u) @ '' tried to leave a room but is not in one'')] s)
      else rbind (leave_room c s) (\<lambda>s1. Inr (send_to_client sock ''LEAVE_ROOM'' s1)))"

definition cmd_broadcast :: "nat \<Rightarrow> string \<Rightarrow> server \<Rightarrow> server res" where
  "cmd_broadcast c msg s =
     (let cl = clients s ! c; u = username cl; sock = c_socket cl; r = current_room cl in
      if length r = 0 then
        Inr (emit [Print (''[ERROR] Client '' @ quoted u @ '' tried to broadcast but is not in a room'' @ nl),
                   Send sock ''NOT_IN_ROOM'',
                   Log ''REJECTED'' (''user '' @ quoted (fmt_prec 16 u) @ '' tried to broadcast but is not in a room'')] s)
      else
        rbind (broadcast_to_room r
            (snprintf (MAX_MESSAGE_LEN + 5) (''['' @ fmt_prec 32 r @ ''] '' @ fmt_prec 16 u @ '': '' @ msg)) sock s)
          (\<lambda>s1. Inr (emit [Print (''[COMMAND] '' @ quoted u @ '' broadcasted to '' @ quoted r @ nl),
                         Send sock ''MESSAGE_BROADCASTED'',
                         Log ''BROADCAST'' (''user '' @ quoted (fmt_prec 32 u) @ '': '' @ fmt_prec 256 msg)] s1)))"

definition whisper_to :: "nat \<Rightarrow> string \<Rightarrow> string \<Rightarrow> server \<Rightarrow> server" where
  "whisper_to c target_user msg s =
     (let cl = clients s ! c; u = username cl; sock = c_socket cl in
      if target_user = u then
        emit [Print (''[ERROR] Client '' @ quoted u @ '' tried to whisper to themselves'' @ nl),
              Send sock ''CANNOT_WHISPER_SELF'',
              Log ''REJECTED'' (''user '' @ quoted (fmt_prec 16 u) @ '' tried to whisper to themselves'')] s
      else (case find_client_by_username target_user s of
          None \<Rightarrow>
            emit [Print (''[ERROR] Client '' @ quoted u @ '' tried to whisper to non-existent user ''
                    @ quoted target_user @ nl),
                  Send sock ''USER_NOT_FOUND'',
                  Log ''REJECTED'' (''user '' @ quoted (fmt_prec 16 u)
                    @ '' tried to whisper to non-existent user '' @ quoted (fmt_prec 16 target_user))] s
        | Some t \<Rightarrow>
            emit [Send (c_socket (clients s ! t)) (snprintf BUFFER_SIZE (''WHISPER_MESSAGE '' @ u @ '' '' @ msg)),
                  Print (''[COMMAND] '' @ u @ '' sent whisper to '' @ quoted target_user @ nl),
                  Send sock (snprintf BUFFER_SIZE (''WHISPER_SENT '' @ target_user)),
                  Log ''WHISPER'' (''user '' @ quoted (fmt_prec 16 u) @ '' to ''
                    @ quoted (fmt_prec 16 target_user) @ '': '' @ fmt_prec 256 msg)] s))"

text \<open>
  \<open>/whisper\<close> without a space after the name: \<open>strchr\<close> returns NULL and the code computes
  \<open>message_start - (buffer + 9)\<close> and \<open>message_start + 1\<close> from it.
\<close>

definition cmd_whisper :: "nat \<Rightarrow> string \<Rightarrow> server \<Rightarrow> server res" where
  "cmd_whisper c args s =
     (case strchr args (CHR '' '') of
        None \<Rightarrow> Inl NullDeref
      | Some message_start \<Rightarrow>
          let username_len = length args - length message_start
          in Inr (whisper_to c (take (min username_len MAX_USERNAME_LEN) args) (tl message_start) s))"

lemma cmd_whisper_parse:
  assumes "CHR '' '' \<notin> set tgt"
  shows "cmd_whisper c (tgt @ '' '' @ msg) s = Inr (whisper_to c (take MAX_USERNAME_LEN tgt) msg s)"
proof -
  have "strchr (tgt @ CHR '' '' # msg) (CHR '' '') = Some (CHR '' '' # msg)"
    using assms by (induction tgt) auto
  moreover have "take (min (length tgt) MAX_USERNAME_LEN) tgt = take MAX_USERNAME_LEN tgt"
    by (simp add: min_def)
  ultimately show ?thesis by (simp add: cmd_whisper_def)
qed

text \<open>\<open>sscanf (params, "%s %s %ld", filename, target_username, &file_size)\<close>, into arrays of
  BUFFER_SIZE and MAX_USERNAME_LEN + 1 characters that hold the empty string before.\<close>

definition sendfile_args :: "string \<Rightarrow> (string \<times> string \<times> int) res" where
  "sendfile_args params =
     rbind (sscanf [ScanS BUFFER_SIZE, WS, ScanS (MAX_USERNAME_LEN + 1), WS, ScanD None 64] params)
       (\<lambda>vs. Inr (case vs of
            [VS f, VS t, VI n] \<Rightarrow> (f, t, n)
          | [VS f, VS t] \<Rightarrow> (f, t, 0)
          | [VS f] \<Rightarrow> (f, [], 0)
          | _ \<Rightarrow> ([], [], 0)))"

definition cmd_sendfile :: "nat \<Rightarrow> string \<Rightarrow> int \<Rightarrow> server \<Rightarrow> server res" where
  "cmd_sendfile c params now s =
     rbind (sendfile_args params) (\<lambda>(fn, target, sz). Inr (handle_file_transfer c fn target sz now s))"

text \<open>\<open>/exit\<close> closes the socket and leaves the loop; \<open>cleanup_client\<close> follows.\<close>

definition cmd_exit :: "nat \<Rightarrow> server \<Rightarrow> server" where
  "cmd_exit c s =
     (let cl = clients s ! c; u = username cl in
      emit [Print (''[COMMAND] Client '' @ quoted u @ '' disconnected'' @ nl),
            Send (c_socket cl) ''LOGOUT'',
            Log ''LOGOUT'' (snprintf 512 (''user '' @ quoted u @ '' logged out with ''  @ quoted ''/exit'')),
            CloseSocket (c_socket cl)] (s\<lparr>lost_connection := False\<rparr>))"

text \<open>One iteration of the command loop; a blocked thread does not reach the loop condition.\<close>

definition command_step :: "nat \<Rightarrow> char list \<Rightarrow> int \<Rightarrow> server \<Rightarrow> server res" where
  "command_step c bytes now s =
     (let buf = recv_line bytes in
      if starts_with ''/join '' buf then rbind (cmd_join c (drop 6 buf) s) (resume c)
      else if buf = ''/leave'' then rbind (cmd_leave c s) (resume c)
      else if starts_with ''/broadcast '' buf then rbind (cmd_broadcast c (drop 11 buf) s) (resume c)
      else if starts_with ''/whisper '' buf then rbind (cmd_whisper c (drop 9 buf) s) (resume c)
      else if starts_with ''/sendfile '' buf then
        rbind (cmd_sendfile c (drop 10 buf) now s) (\<lambda>s1. if threads s1 ! c = Commands then resume c s1 else Inr s1)
      else if buf = ''/exit'' then end_thread c (cmd_exit c s)
      else resume c s)"

text \<open>\<open>recv\<close> returned 0 or failed.\<close>

definition hangup :: "nat \<Rightarrow> server \<Rightarrow> server res" where
  "hangup c s =
     (if threads s ! c = Login then end_thread c s else end_thread c (s\<lparr>lost_connection := True\<rparr>))"

section \<open>Signal and shutdown\<close>

definition handle_sigint :: "server \<Rightarrow> server" where
  "handle_sigint s =
     emit ([Print (nl @ ''[INFO] Shutdown signal received.'' @ nl)]
       @ (if server_socket s \<noteq> -1 then [CloseSocket (server_socket s)] else []))
       (s\<lparr>server_running := False\<rparr>)"

text \<open>
  \<open>shutdown_server\<close>, entered once the accept loop has ended; the join of the processor thread
  is the precondition that it has stopped.
\<close>

fun notify_clients :: "client list \<Rightarrow> effect list \<times> client list" where
  "notify_clients [] = ([], [])"
| "notify_clients (cl # cs) =
     (let (es, cs') = notify_clients cs in
      if c_active cl
      then (Send (c_socket cl) ''SERVER_SHUTDOWN'' # CloseSocket (c_socket cl) # es, cl\<lparr>c_active := False\<rparr> # cs')
      else (es, cl # cs'))"

definition shutdown_server :: "server \<Rightarrow> server" where
  "shutdown_server s =
     (let s1 = (emit [Log ''SHUTDOWN'' ''SIGINT received. Disconnecting clients, saving logs.''] s)
            \<lparr>server_running := False, filled_slots := filled_slots s + 1\<rparr>;
          (es, cs) = notify_clients (clients s1)
      in emit (es @ [Print (''[INFO] All clients notified.'' @ nl)]) (s1\<lparr>clients := cs\<rparr>))"

section \<open>Events\<close>

datatype event =
    Accept int string bool
  | Recv nat "char list" int
  | Hangup nat
  | SlotGranted nat int
  | SlotTimeout nat
  | ProcessorTake int
  | ProcessorFinish
  | Sigint

text \<open>
  When an event can happen. The operating system returns from \<open>accept\<close> a descriptor that no
  open connection has, and from \<open>recv\<close> between one and BUFFER_SIZE - 1 bytes.
\<close>

fun enabled :: "event \<Rightarrow> server \<Rightarrow> bool" where
  "enabled (Accept sock addr created) s =
     (server_running s \<and> 0 \<le> sock \<and> list_all (\<lambda>cl. c_active cl \<longrightarrow> c_socket cl \<noteq> sock) (clients s))"
| "enabled (Recv c bytes now) s =
     (c < MAX_CLIENTS \<and> (threads s ! c = Login \<or> threads s ! c = Commands) \<and>
      bytes \<noteq> [] \<and> length bytes < BUFFER_SIZE)"
| "enabled (Hangup c) s = (c < MAX_CLIENTS \<and> (threads s ! c = Login \<or> threads s ! c = Commands))"
| "enabled (SlotGranted c now) s =
     (c < MAX_CLIENTS \<and> (case threads s ! c of WaitSlot r fn sz \<Rightarrow> empty_slots s \<noteq> 0 | _ \<Rightarrow> False))"
| "enabled (SlotTimeout c) s =
     (c < MAX_CLIENTS \<and> (case threads s ! c of WaitSlot r fn sz \<Rightarrow> True | _ \<Rightarrow> False))"
| "enabled (ProcessorTake now) s = (processor s = Idle \<and> filled_slots s \<noteq> 0)"
| "enabled ProcessorFinish s = (case processor s of Transferring req \<Rightarrow> True | _ \<Rightarrow> False)"
| "enabled Sigint s = True"

fun server_step :: "event \<Rightarrow> server \<Rightarrow> server res" where
  "server_step (Accept sock addr created) s = accept_client sock addr created s"
| "server_step (Recv c bytes now) s =
     (if threads s ! c = Login then login_step c bytes s else command_step c bytes now s)"
| "server_step (Hangup c) s = hangup c s"
| "server_step (SlotGranted c now) s = resume c (slot_granted c now s)"
| "server_step (SlotTimeout c) s = resume c (slot_timeout c s)"
| "server_step (ProcessorTake now) s = Inr (processor_take now s)"
| "server_step ProcessorFinish s = Inr (processor_finish s)"
| "server_step Sigint s = Inr (handle_sigint s)"

inductive reachable :: "server \<Rightarrow> bool" where
  start: "reachable (init_server sock)"
| step: "reachable s \<Longrightarrow> enabled e s \<Longrightarrow> server_step e s = Inr t \<Longrightarrow> reachable t"

text \<open>A schedule: the events that happened, in order.\<close>

fun run_events :: "event list \<Rightarrow> server \<Rightarrow> server option" where
  "run_events [] s = Some s"
| "run_events (e # es) s =
     (if enabled e s then (case server_step e s of Inl u \<Rightarrow> None | Inr t \<Rightarrow> run_events es t) else None)"

lemma run_reachable: "reachable s \<Longrightarrow> run_events es s = Some t \<Longrightarrow> reachable t"
proof (induction es arbitrary: s)
  case Nil
  then show ?case by simp
next
  case (Cons e es)
  then obtain u where "enabled e s" "server_step e s = Inr u" "run_events es u = Some t"
    by (auto split: if_splits sum.splits)
  with Cons show ?case by (blast intro: reachable.step)
qed

text \<open>The state a schedule leads to from the start, to exhibit reachable states.\<close>

definition after :: "event list \<Rightarrow> server" where
  "after es = (case run_events es (init_server 3) of Some s \<Rightarrow> s | None \<Rightarrow> init_server 3)"

lemma reachable_after: "reachable (after es)"
  by (auto simp: after_def intro: reachable.start run_reachable split: option.splits)

end
