(* ===== verification/Chat_Server.thy ===== *)
theory Chat_Server
  imports Chat_Commands
begin

text \<open>
  The invariant of the whole chat server and the proofs that every step keeps it and that no
  step other than a malformed \<open>/whisper\<close> or \<open>/sendfile\<close> line has undefined behaviour; then the
  properties of every reachable state.
\<close>

section \<open>The invariant\<close>

text \<open>A file name that the server keeps is a word that \<open>sscanf\<close> has read.\<close>

definition file_name_ok :: "string \<Rightarrow> bool" where
  "file_name_ok fn \<longleftrightarrow> fn \<noteq> [] \<and> length fn < BUFFER_SIZE \<and> (\<forall>c \<in> set fn. c \<noteq> NUL \<and> \<not> isspace c)"

fun session_ok :: "thread_pc \<Rightarrow> client \<Rightarrow> bool" where
  "session_ok t cl =
     ((c_active cl \<longleftrightarrow> t \<noteq> NoThread) \<and>
      (\<not> c_active cl \<longrightarrow> current_room cl = []) \<and>
      (username cl = [] \<longleftrightarrow> t = NoThread \<or> t = Login) \<and>
      (username cl \<noteq> [] \<longrightarrow> is_valid_username (username cl)) \<and>
      (t = Login \<longrightarrow> current_room cl = []) \<and>
      (case t of WaitSlot r fn sz \<Rightarrow> r < MAX_CLIENTS \<and> file_name_ok fn | _ \<Rightarrow> True) \<and>
      length (previously_joined_rooms cl) \<le> MAX_ROOMS \<and>
      length (received_files cl) \<le> MAX_RECEIVED_FILES)"

declare session_ok.simps [simp del]

definition usernames_ok :: "client list \<Rightarrow> bool" where
  "usernames_ok cs \<longleftrightarrow>
     (\<forall>i < length cs. \<forall>j < length cs. username (cs ! i) \<noteq> [] \<and> username (cs ! i) = username (cs ! j) \<longrightarrow> i = j)"

definition sessions_ok :: "client list \<Rightarrow> thread_pc list \<Rightarrow> int \<Rightarrow> bool" where
  "sessions_ok cs ts n \<longleftrightarrow>
     length cs = MAX_CLIENTS \<and> length ts = MAX_CLIENTS \<and>
     (\<forall>c < MAX_CLIENTS. session_ok (ts ! c) (cs ! c)) \<and>
     usernames_ok cs \<and> sockets_ok cs \<and> n = int (length (filter c_active cs))"

definition request_ok :: "file_request \<Rightarrow> bool" where
  "request_ok req \<longleftrightarrow> f_sender req < MAX_CLIENTS \<and> f_receiver req < MAX_CLIENTS \<and> file_name_ok (f_filename req)"

definition requests_ok :: "server \<Rightarrow> bool" where
  "requests_ok s \<longleftrightarrow> (\<forall>req \<in> set (pending s). request_ok req) \<and>
     (case processor s of Transferring req \<Rightarrow> request_ok req | _ \<Rightarrow> True)"

definition server_ok :: "server \<Rightarrow> bool" where
  "server_ok s \<longleftrightarrow> membership_ok s \<and> sessions_ok (clients s) (threads s) (client_count s) \<and>
     slots_ok s \<and> requests_ok s"

lemma server_okD:
  assumes "server_ok s"
  shows "membership_ok s" "sessions_ok (clients s) (threads s) (client_count s)" "slots_ok s" "requests_ok s"
  using assms by (simp_all add: server_ok_def)

lemma sessions_okD:
  assumes "sessions_ok cs ts n"
  shows "length cs = MAX_CLIENTS" "length ts = MAX_CLIENTS" "c < MAX_CLIENTS \<Longrightarrow> session_ok (ts ! c) (cs ! c)"
    "usernames_ok cs" "sockets_ok cs" "n = int (length (filter c_active cs))"
  using assms by (auto simp: sessions_ok_def)

text \<open>The parts of the state the file transfers use.\<close>

definition transfer_part :: "server \<Rightarrow> file_request list \<times> nat \<times> nat \<times> nat \<times> nat \<times> nat \<times> processor_pc" where
  "transfer_part s = (file_queue s, queue_size s, queue_head s, queue_tail s, empty_slots s, filled_slots s,
     processor s)"

lemma transfer_part_ok:
  assumes "transfer_part t = transfer_part s"
  shows "slots_ok t = slots_ok s" "requests_ok t = requests_ok s"
  using assms by (auto simp: transfer_part_def slots_ok_def requests_ok_def ring_inv_def pending_def)

lemma transfer_part_simps [simp]:
  "transfer_part (emit xs s) = transfer_part s"
  "transfer_part (upd_client c f s) = transfer_part s"
  "transfer_part (set_thread c t s) = transfer_part s"
  "transfer_part (s\<lparr>rooms := rs\<rparr>) = transfer_part s"
  "transfer_part (s\<lparr>room_count := n\<rparr>) = transfer_part s"
  "transfer_part (s\<lparr>client_count := n\<rparr>) = transfer_part s"
  "transfer_part (s\<lparr>lost_connection := b\<rparr>) = transfer_part s"
  "transfer_part (s\<lparr>server_running := b\<rparr>) = transfer_part s"
  by (simp_all add: transfer_part_def)

lemma membership_ok_cong:
  "clients t = clients s \<Longrightarrow> rooms t = rooms s \<Longrightarrow> room_count t = room_count s \<Longrightarrow>
    membership_ok t = membership_ok s"
  by (simp add: membership_ok_def)

lemma server_ok_cong:
  "clients t = clients s \<Longrightarrow> rooms t = rooms s \<Longrightarrow> room_count t = room_count s \<Longrightarrow>
    client_count t = client_count s \<Longrightarrow> threads t = threads s \<Longrightarrow> transfer_part t = transfer_part s \<Longrightarrow>
    server_ok t = server_ok s"
  by (simp add: server_ok_def membership_ok_cong [of t s] transfer_part_ok [of t s])

lemma server_ok_emit [simp]: "server_ok (emit xs s) = server_ok s"
  by (rule server_ok_cong) simp_all

lemma server_ok_flags [simp]:
  "server_ok (s\<lparr>lost_connection := b\<rparr>) = server_ok s"
  "server_ok (s\<lparr>server_running := b\<rparr>) = server_ok s"
  by (rule server_ok_cong, simp_all)+

section \<open>Updating one client\<close>

lemma length_filter_active_update:
  "c < length cs \<Longrightarrow> int (length (filter c_active (cs[c := x])))
    = int (length (filter c_active cs)) + (if c_active x then 1 else 0) - (if c_active (cs ! c) then 1 else 0)"
  using length_filter_update [of c cs c_active x] by auto

lemma sessions_update:
  assumes ok: "sessions_ok cs ts n" and c: "c < MAX_CLIENTS"
    and s: "session_ok t x"
    and u: "\<And>i. i < MAX_CLIENTS \<Longrightarrow> i \<noteq> c \<Longrightarrow> username x \<noteq> [] \<Longrightarrow> username (cs ! i) \<noteq> username x"
    and k: "\<And>i. i < MAX_CLIENTS \<Longrightarrow> i \<noteq> c \<Longrightarrow> c_active x \<Longrightarrow> c_active (cs ! i) \<Longrightarrow> c_socket (cs ! i) \<noteq> c_socket x"
  shows "sessions_ok (cs[c := x]) (ts[c := t])
    (n + (if c_active x then 1 else 0) - (if c_active (cs ! c) then 1 else 0))"
proof -
  note D = sessions_okD [OF ok]
  have "usernames_ok (cs[c := x])"
    unfolding usernames_ok_def
  proof (intro allI impI)
    fix i j
    assume "i < length (cs[c := x])" "j < length (cs[c := x])"
      "username (cs[c := x] ! i) \<noteq> [] \<and> username (cs[c := x] ! i) = username (cs[c := x] ! j)"
    then show "i = j"
      using u [of i] u [of j] D(1,4) c unfolding usernames_ok_def
      by (cases "i = c"; cases "j = c") auto
  qed
  moreover have "sockets_ok (cs[c := x])"
    unfolding sockets_ok_def
  proof (intro allI impI)
    fix i j
    assume "i < length (cs[c := x])" "j < length (cs[c := x])"
      "c_active (cs[c := x] ! i) \<and> c_active (cs[c := x] ! j) \<and> c_socket (cs[c := x] ! i) = c_socket (cs[c := x] ! j)"
    then show "i = j"
      using k [of i] k [of j] D(1,5) c unfolding sockets_ok_def
      by (cases "i = c"; cases "j = c") auto
  qed
  moreover have "session_ok (ts[c := t] ! i) (cs[c := x] ! i)" if "i < MAX_CLIENTS" for i
    using that s D c by (cases "i = c") auto
  ultimately show ?thesis
    using D c by (auto simp: sessions_ok_def length_filter_active_update)
qed

text \<open>An update that leaves username, socket and activity of the client alone.\<close>

lemma sessions_update_same:
  assumes ok: "sessions_ok cs ts n" and c: "c < MAX_CLIENTS"
    and x: "username x = username (cs ! c)" "c_socket x = c_socket (cs ! c)" "c_active x = c_active (cs ! c)"
    and s: "session_ok t x"
  shows "sessions_ok (cs[c := x]) (ts[c := t]) n"
proof -
  note D = sessions_okD [OF ok]
  have "sessions_ok (cs[c := x]) (ts[c := t])
      (n + (if c_active x then 1 else 0) - (if c_active (cs ! c) then 1 else 0))"
  proof (rule sessions_update [OF ok c s])
    fix i assume "i < MAX_CLIENTS" "i \<noteq> c" "username x \<noteq> []"
    then show "username (cs ! i) \<noteq> username x" using D(1,4) c x by (auto simp: usernames_ok_def)
  next
    fix i assume "i < MAX_CLIENTS" "i \<noteq> c" "c_active x" "c_active (cs ! i)"
    then show "c_socket (cs ! i) \<noteq> c_socket x" using D(1,5) c x by (auto simp: sockets_ok_def)
  qed
  then show ?thesis using x by simp
qed

lemma places_in_room:
  "places_ok cs rs \<Longrightarrow> c < length cs \<Longrightarrow> current_room (cs ! c) \<noteq> [] \<Longrightarrow>
    is_valid_room_name (current_room (cs ! c)) \<and> c_active (cs ! c) \<and> in_room rs c (current_room (cs ! c))"
  by (simp add: places_ok_def)

text \<open>Updating a client that keeps its room and its activity, or that is in no room.\<close>

lemma membership_update:
  assumes ok: "membership_ok s" and c: "c < MAX_CLIENTS"
    and x: "current_room x = current_room (clients s ! c)"
      "c_active x = c_active (clients s ! c) \<or> current_room x = []"
  shows "membership_ok (s\<lparr>clients := (clients s)[c := x]\<rparr>)"
proof -
  note D = membership_okD [OF ok]
  have cc: "c < length (clients s)" using c D by simp
  have "room_ok ((clients s)[c := x]) (rooms s ! i)" if "i < length (rooms s)" for i
  proof (cases "r_active (rooms s ! i) \<and> c \<in> set (members (rooms s ! i))")
    case True
    have rok: "room_ok (clients s) (rooms s ! i)" using D that by simp
    with True have "current_room (clients s ! c) \<noteq> []" by (auto simp: room_ok_def)
    with x have "c_active x = c_active (clients s ! c)" by auto
    with rok x cc show ?thesis by (auto simp: room_ok_def nth_list_update)
  next
    case False
    have rok: "room_ok (clients s) (rooms s ! i)" using D that by simp
    show ?thesis
      using False room_ok_update_other [of c "rooms s ! i" "clients s"] rok
      by (cases "r_active (rooms s ! i)") (simp, simp add: room_ok_def)
  qed
  then have "rooms_ok ((clients s)[c := x]) (rooms s)"
    using D(2) unfolding rooms_ok_def by simp
  moreover have "places_ok ((clients s)[c := x]) (rooms s)"
    unfolding places_ok_def
  proof (intro allI impI)
    fix d assume d: "d < length ((clients s)[c := x])" "current_room ((clients s)[c := x] ! d) \<noteq> []"
    show "is_valid_room_name (current_room ((clients s)[c := x] ! d)) \<and> c_active ((clients s)[c := x] ! d)
      \<and> in_room (rooms s) d (current_room ((clients s)[c := x] ! d))"
      using places_in_room [OF D(3), of d] d x cc by (cases "d = c") auto
  qed
  ultimately show ?thesis using D by (simp add: membership_ok_def)
qed

section \<open>Leaving, joining, cleaning up\<close>

lemma leave_room_ok:
  assumes ok: "membership_ok s" and c: "c < MAX_CLIENTS" "current_room (clients s ! c) \<noteq> []"
  shows "\<exists>t. leave_room c s = Inr t \<and> membership_ok t
    \<and> clients t = (clients s)[c := (clients s ! c)\<lparr>current_room := []\<rparr>] \<and> threads t = threads s
    \<and> client_count t = client_count s \<and> transfer_part t = transfer_part s
    \<and> server_running t = server_running s \<and> lost_connection t = lost_connection s"
proof -
  obtain i rm' es where f: "find_room (current_room (clients s ! c)) s = Some i" "left_room c (rooms s ! i) rm'"
    and eq: "leave_room c s = Inr (emit es (upd_client c (\<lambda>x. x\<lparr>current_room := []\<rparr>)
        (s\<lparr>rooms := (rooms s)[i := rm'],
           room_count := (if r_active rm' then room_count s else room_count s - 1)\<rparr>)))"
    using leave_room_spec [OF ok c] by blast
  note L = leave_membership [OF ok c(1) f]
  show ?thesis
    unfolding eq using L membership_okD(1) [OF ok] by (auto simp: membership_ok_def)
qed

lemma session_ok_no_room: "session_ok t cl \<Longrightarrow> session_ok t (cl\<lparr>current_room := []\<rparr>)"
  by (simp add: session_ok.simps)

lemma leave_server_ok:
  assumes ok: "server_ok s" and c: "c < MAX_CLIENTS" "current_room (clients s ! c) \<noteq> []"
  shows "\<exists>t. leave_room c s = Inr t \<and> server_ok t
    \<and> clients t = (clients s)[c := (clients s ! c)\<lparr>current_room := []\<rparr>] \<and> threads t = threads s
    \<and> server_running t = server_running s"
proof -
  note D = server_okD [OF ok]
  obtain t where t: "leave_room c s = Inr t" "membership_ok t"
    "clients t = (clients s)[c := (clients s ! c)\<lparr>current_room := []\<rparr>]" "threads t = threads s"
    "client_count t = client_count s" "transfer_part t = transfer_part s" "server_running t = server_running s"
    using leave_room_ok [OF D(1) c] by auto
  have "sessions_ok (clients t) (threads s) (client_count s)"
    unfolding t(3)
    using sessions_update_same [OF D(2) c(1), of "(clients s ! c)\<lparr>current_room := []\<rparr>" "threads s ! c"]
      session_ok_no_room sessions_okD(3) [OF D(2) c(1)] by simp
  then have "server_ok t"
    using t D(3,4) transfer_part_ok [OF t(6)] by (simp add: server_ok_def)
  with t show ?thesis by blast
qed

lemma cleanup_fields:
  assumes ok: "membership_ok s" and c: "c < MAX_CLIENTS" "c_active (clients s ! c)"
  shows "\<exists>t. cleanup_client c s = Inr t \<and> membership_ok t
    \<and> clients t = (clients s)[c := (clients s ! c)\<lparr>c_active := False, username := [], current_room := []\<rparr>]
    \<and> threads t = threads s \<and> client_count t = client_count s - 1 \<and> transfer_part t = transfer_part s
    \<and> server_running t = server_running s"
proof -
  obtain s1 where s1: "(if 0 < length (current_room (clients s ! c)) then leave_room c s else Inr s) = Inr s1"
    "membership_ok s1" "clients s1 = (clients s)[c := (clients s ! c)\<lparr>current_room := []\<rparr>]"
    "threads s1 = threads s" "client_count s1 = client_count s" "transfer_part s1 = transfer_part s"
    "server_running s1 = server_running s"
  proof (cases "current_room (clients s ! c) = []")
    case True
    then have "(clients s ! c)\<lparr>current_room := []\<rparr> = clients s ! c" by simp
    then have "(clients s)[c := (clients s ! c)\<lparr>current_room := []\<rparr>] = clients s"
      by (simp only: list_update_id)
    with True ok show ?thesis by (intro that [of s]) simp_all
  next
    case False
    with leave_room_ok [OF ok c(1) False] show ?thesis by (auto intro: that)
  qed
  have cc: "c < length (clients s)" using c membership_okD(1) [OF ok] by simp
  let ?x = "(clients s1 ! c)\<lparr>c_active := False, username := [], current_room := []\<rparr>"
  have cur: "current_room (clients s1 ! c) = []" using s1(3) cc by simp
  have "membership_ok (s1\<lparr>clients := (clients s1)[c := ?x]\<rparr>)"
    by (rule membership_update [OF s1(2) c(1)]) (simp_all add: cur)
  then have "membership_ok (upd_client c (\<lambda>x. x\<lparr>c_active := False, username := [], current_room := []\<rparr>) (emit es s1)
      \<lparr>client_count := n\<rparr>)" for es n
    by (subst membership_ok_cong [of _ "s1\<lparr>clients := (clients s1)[c := ?x]\<rparr>"]) simp_all
  then show ?thesis
    using s1 c(2) cc by (auto simp: cleanup_client_def Let_def)
qed

lemma end_thread_ok:
  assumes ok: "server_ok s" and c: "c < MAX_CLIENTS" "threads s ! c \<noteq> NoThread"
  shows "\<exists>t. end_thread c s = Inr t \<and> server_ok t"
proof -
  note D = server_okD [OF ok]
  have sess: "session_ok (threads s ! c) (clients s ! c)" using sessions_okD(3) [OF D(2) c(1)] .
  then have act: "c_active (clients s ! c)" using c by (simp add: session_ok.simps)
  let ?x = "(clients s ! c)\<lparr>c_active := False, username := [], current_room := []\<rparr>"
  obtain t where t: "cleanup_client c s = Inr t" "membership_ok t" "clients t = (clients s)[c := ?x]"
    "threads t = threads s" "client_count t = client_count s - 1" "transfer_part t = transfer_part s"
    using cleanup_fields [OF D(1) c(1) act] by auto
  have "session_ok NoThread ?x" using sess by (simp add: session_ok.simps)
  from sessions_update [OF D(2) c(1) this] act
  have "sessions_ok (clients t) ((threads s)[c := NoThread]) (client_count t)"
    by (simp add: t)
  then have "server_ok (set_thread c NoThread t)"
    using t D(3,4) transfer_part_ok [of "set_thread c NoThread t" s]
      membership_ok_cong [of "set_thread c NoThread t" t] by (simp add: server_ok_def)
  then show ?thesis by (simp add: end_thread_def t)
qed

lemma resume_ok:
  assumes "server_ok s" "c < MAX_CLIENTS" "threads s ! c \<noteq> NoThread"
  shows "\<exists>t. resume c s = Inr t \<and> server_ok t"
  using assms end_thread_ok by (simp add: resume_def)

end
