(* ===== verification/Chat_Steps.thy ===== *)
theory Chat_Steps
  imports Chat_Server
begin

text \<open>
  Every step of the chat server keeps the invariant of \<open>Chat_Server\<close>; the steps are defined
  (no access outside an array, no NULL, no uninitialised socket) except for a command line
  that \<open>malformed\<close> describes.
\<close>

section \<open>Joining\<close>

lemma leave_other_room:
  assumes ok: "membership_ok s" and c: "c < MAX_CLIENTS" "current_room (clients s ! c) \<noteq> []"
    and r: "r \<noteq> current_room (clients s ! c)" and t: "leave_room c s = Inr t"
  shows "find_room r t = Some i \<Longrightarrow> find_room r s = Some i \<and> rooms t ! i = rooms s ! i"
proof -
  assume i: "find_room r t = Some i"
  obtain k rm' es where f: "find_room (current_room (clients s ! c)) s = Some k" "left_room c (rooms s ! k) rm'"
    and eq: "leave_room c s = Inr (emit es (upd_client c (\<lambda>x. x\<lparr>current_room := []\<rparr>)
        (s\<lparr>rooms := (rooms s)[k := rm'],
           room_count := (if r_active rm' then room_count s else room_count s - 1)\<rparr>)))"
    using leave_room_spec [OF ok c] by blast
  have rs: "rooms t = (rooms s)[k := rm']" using t by (auto simp: eq)
  note I = find_room_Some [OF i] and K = find_room_Some [OF f(1)]
  have "i \<noteq> k"
    using I K rs r f(2) by (auto simp: left_room_def)
  then have same: "rooms t ! i = rooms s ! i" by (simp add: rs)
  have "find_room r s = Some i"
    using I same rs membership_okD(2) [OF ok] by (intro find_room_eq) auto
  with same show "find_room r s = Some i \<and> rooms t ! i = rooms s ! i" by simp
qed

lemma enter_room_ok:
  assumes ok: "server_ok s" and c: "c < MAX_CLIENTS" "threads s ! c = Commands" "current_room (clients s ! c) = []"
    and r: "is_valid_room_name r"
    and space: "\<And>i. find_room r s = Some i \<Longrightarrow> user_count (rooms s ! i) < MAX_USERS_PER_ROOM"
  shows "\<exists>t j. enter_room c r rejoining was old s = Inr (t, j) \<and> server_ok t \<and> threads t = threads s"
proof -
  note D = server_okD [OF ok]
  have sess: "session_ok (threads s ! c) (clients s ! c)" using sessions_okD(3) [OF D(2) c(1)] .
  then have act: "c_active (clients s ! c)" using c by (simp add: session_ok.simps)
  have jc: "session_ok (threads s ! c) (joined_client rejoining r (clients s ! c))"
    using sess c by (auto simp: session_ok.simps joined_client_def Let_def)
  from enter_room_spec [OF D(1) sessions_okD(5) [OF D(2)] c(1) act c(3) space, of r rejoining was old]
  consider "enter_room c r rejoining was old s = Inr (s, False)"
    | i ms rm' es where "entered c r s i ms rm'"
        "enter_room c r rejoining was old s =
        Inr (emit es (upd_client c (joined_client rejoining r)
              (s\<lparr>rooms := (rooms s)[i := rm'],
                 room_count := (if r_active (rooms s ! i) then room_count s else room_count s + 1)\<rparr>)),
          True)"
    by blast
  then show ?thesis
  proof cases
    case 1
    with ok show ?thesis by auto
  next
    case 2
    note M = enter_membership(1,2) [OF D(1) c(1) act c(3) r 2(1), of rejoining]
      enter_membership(3) [OF D(1) c(1) act c(3) r 2(1)]
    let ?t = "emit es (upd_client c (joined_client rejoining r)
              (s\<lparr>rooms := (rooms s)[i := rm'],
                 room_count := (if r_active (rooms s ! i) then room_count s else room_count s + 1)\<rparr>))"
    have "membership_ok ?t"
      using M membership_okD(1) [OF D(1)] by (simp add: membership_ok_def)
    moreover have "sessions_ok (clients ?t) (threads ?t) (client_count ?t)"
      using sessions_update_same [OF D(2) c(1) _ _ _ jc] by simp
    moreover have "transfer_part ?t = transfer_part s" by (simp add: transfer_part_def)
    ultimately have "server_ok ?t"
      using D(3,4) transfer_part_ok [of ?t s] by (simp add: server_ok_def)
    then show ?thesis unfolding 2(2) by auto
  qed
qed

lemma join_room_ok:
  assumes ok: "server_ok s" and c: "c < MAX_CLIENTS" "threads s ! c = Commands"
    and r: "is_valid_room_name r" "r \<noteq> current_room (clients s ! c)"
    and space: "\<And>i. find_room r s = Some i \<Longrightarrow> user_count (rooms s ! i) < MAX_USERS_PER_ROOM"
  shows "\<exists>t j. join_room c r s = Inr (t, j) \<and> server_ok t \<and> threads t = threads s"
proof (cases "current_room (clients s ! c) = []")
  case True
  then show ?thesis
    using enter_room_ok [OF ok c True r(1) space] by (simp add: join_room_def Let_def)
next
  case False
  from leave_server_ok [OF ok c(1) False] membership_okD(1) [OF server_okD(1) [OF ok]] c(1)
  obtain t where t: "leave_room c s = Inr t" "server_ok t" "threads t = threads s" "current_room (clients t ! c) = []"
    by auto
  have sp: "user_count (rooms t ! i) < MAX_USERS_PER_ROOM" if "find_room r t = Some i" for i
    using leave_other_room [OF server_okD(1) [OF ok] c(1) False r(2) t(1) that] space by metis
  have "threads t ! c = Commands" using c t by simp
  from enter_room_ok [OF t(2) c(1) this t(4) r(1) sp] False t
  show ?thesis by (auto simp: join_room_def Let_def)
qed

section \<open>Connections and login\<close>

lemma active_thread:
  assumes "server_ok s" "c < MAX_CLIENTS"
  shows "c_active (clients s ! c) \<longleftrightarrow> threads s ! c \<noteq> NoThread"
  using sessions_okD(3) [OF server_okD(2) [OF assms(1)] assms(2)] by (simp add: session_ok.simps)

lemma server_ok_update:
  assumes ok: "server_ok s" and m: "membership_ok t"
    and s: "sessions_ok (clients t) (threads t) (client_count t)" and p: "transfer_part t = transfer_part s"
  shows "server_ok t"
  using m s server_okD(3,4) [OF ok] transfer_part_ok [OF p] by (simp add: server_ok_def)

lemma accept_client_ok:
  assumes ok: "server_ok s" and k: "list_all (\<lambda>cl. c_active cl \<longrightarrow> c_socket cl \<noteq> sock) (clients s)"
  shows "\<exists>t. accept_client sock addr created s = Inr t \<and> server_ok t"
proof (cases "first_index (\<lambda>cl. \<not> c_active cl) (clients s)")
  case None
  then show ?thesis using ok by (simp add: accept_client_def)
next
  case (Some i)
  note D = server_okD [OF ok] and S = sessions_okD [OF server_okD(2) [OF ok]]
  note I = first_index_SomeD [OF Some]
  have i: "i < MAX_CLIENTS" using I S by simp
  have sess: "session_ok NoThread (clients s ! i)" using S(3) [OF i] active_thread [OF ok i] I by simp
  let ?x = "(clients s ! i)\<lparr>c_socket := sock, c_active := True, c_address := addr, username := [], current_room := []\<rparr>"
  let ?s2 = "upd_client i (\<lambda>cl. cl\<lparr>c_socket := sock, c_active := True, c_address := addr,
                username := [], current_room := []\<rparr>) s\<lparr>client_count := client_count s + 1\<rparr>"
  have cur: "current_room (clients s ! i) = []" using sess I by (simp add: session_ok.simps)
  have other: "c_socket (clients s ! j) \<noteq> sock" if "j < MAX_CLIENTS" "c_active (clients s ! j)" for j
    using k that S(1) by (auto simp: list_all_length)
  have "membership_ok (s\<lparr>clients := (clients s)[i := ?x]\<rparr>)"
    by (rule membership_update [OF D(1) i]) (simp_all add: cur)
  then have m: "membership_ok ?s2"
    by (subst membership_ok_cong [of _ "s\<lparr>clients := (clients s)[i := ?x]\<rparr>"]) simp_all
  show ?thesis
  proof (cases created)
    case True
    have "session_ok Login ?x" using sess by (simp add: session_ok.simps)
    from sessions_update [OF D(2) i this] other I
    have "sessions_ok ((clients s)[i := ?x]) ((threads s)[i := Login]) (client_count s + 1)" by simp
    moreover have "membership_ok (set_thread i Login ?s2)"
      using m membership_ok_cong [of "set_thread i Login ?s2" ?s2] by simp
    ultimately have "server_ok (set_thread i Login ?s2)"
      by (intro server_ok_update [OF ok]) simp_all
    then show ?thesis using True by (simp add: accept_client_def Some Let_def)
  next
    case False
    have act: "c_active (clients ?s2 ! i)" using I by simp
    obtain t where t: "cleanup_client i ?s2 = Inr t" "membership_ok t"
      "clients t = (clients ?s2)[i := (clients ?s2 ! i)\<lparr>c_active := False, username := [], current_room := []\<rparr>]"
      "threads t = threads s" "client_count t = client_count s" "transfer_part t = transfer_part s"
      using cleanup_fields [OF m i act] by auto
    let ?y = "?x\<lparr>c_active := False, username := [], current_room := []\<rparr>"
    have "session_ok NoThread ?y" using sess by (simp add: session_ok.simps)
    from sessions_update [OF D(2) i this] I
    have "sessions_ok ((clients s)[i := ?y]) ((threads s)[i := NoThread]) (client_count s)" by simp
    moreover have "(threads s)[i := NoThread] = threads s"
      using active_thread [OF ok i] I by (metis list_update_id)
    ultimately have "server_ok t"
      using t I by (intro server_ok_update [OF ok]) simp_all
    then show ?thesis using False t(1) by (simp add: accept_client_def Some Let_def)
  qed
qed

lemma login_step_ok:
  assumes ok: "server_ok s" and c: "c < MAX_CLIENTS" "threads s ! c = Login"
  shows "\<exists>t. login_step c bytes s = Inr t \<and> server_ok t"
proof -
  let ?b = "recv_line bytes"
  note D = server_okD [OF ok] and S = sessions_okD [OF server_okD(2) [OF ok]]
  have stay: "\<exists>t. (if server_running s1 then Inr s1 else end_thread c s1) = Inr t \<and> server_ok t"
    if "server_ok s1" "threads s1 = threads s" for s1
    using that end_thread_ok [OF that(1) c(1)] c(2) by simp
  have sess: "session_ok Login (clients s ! c)" using S(3) [OF c(1)] c(2) by simp
  show ?thesis
  proof (cases "is_valid_username ?b \<and> \<not> username_taken ?b s")
    case False
    define out where "out = (if \<not> is_valid_username ?b
      then [Print (''[ERROR] Invalid username format received: '' @ quoted ?b @ nl),
            Send (c_socket (clients s ! c)) ''INVALID_USERNAME'',
            Log ''LOGIN_ERROR'' ''Invalid username format received.'']
      else [Print (''[ERROR] Duplicate username attempted: '' @ quoted ?b @ nl),
            Send (c_socket (clients s ! c)) ''USERNAME_TAKEN'',
            Log ''REJECTED'' (''Duplicate username attempted: '' @ fmt_prec MAX_USERNAME_LEN ?b)])"
    have "login_step c bytes s = (if server_running (emit out s) then Inr (emit out s) else end_thread c (emit out s))"
      using False by (auto simp: login_step_def Let_def out_def)
    then show ?thesis using stay [of "emit out s"] ok by simp
  next
    case True
    let ?x = "(clients s ! c)\<lparr>username := ?b\<rparr>"
    let ?s1 = "set_thread c Commands (upd_client c (\<lambda>x. x\<lparr>username := ?b\<rparr>) s)"
    have act: "c_active (clients s ! c)" using active_thread [OF ok c(1)] c(2) by simp
    have nn: "?b \<noteq> []" using True by auto
    have "session_ok Commands ?x" using sess True nn by (simp add: session_ok.simps)
    moreover have "username (clients s ! i) \<noteq> ?b" if "i < MAX_CLIENTS" for i
    proof
      assume eq: "username (clients s ! i) = ?b"
      with nn have "c_active (clients s ! i)"
        using S(3) [OF that] by (auto simp: session_ok.simps)
      with eq True that S(1) show False by (auto simp: username_taken_def list_ex_length)
    qed
    moreover have "c_socket (clients s ! i) \<noteq> c_socket (clients s ! c)"
      if "i < MAX_CLIENTS" "i \<noteq> c" "c_active (clients s ! i)" for i
      using S(1,5) that c(1) act by (auto simp: sockets_ok_def)
    ultimately have "sessions_ok ((clients s)[c := ?x]) ((threads s)[c := Commands]) (client_count s)"
      using sessions_update [OF D(2) c(1), of Commands ?x] act by simp
    moreover have "membership_ok ?s1"
      using membership_update [OF D(1) c(1), of ?x]
        membership_ok_cong [of ?s1 "s\<lparr>clients := (clients s)[c := ?x]\<rparr>"] by simp
    ultimately have "server_ok ?s1" by (intro server_ok_update [OF ok]) simp_all
    then show ?thesis
      using True c S(2) resume_ok [OF _ c(1)] by (simp add: login_step_def Let_def)
  qed
qed

section \<open>Commands\<close>

lemma cmd_join_ok:
  assumes ok: "server_ok s" and c: "c < MAX_CLIENTS" "threads s ! c = Commands"
  shows "\<exists>t. cmd_join c r s = Inr t \<and> server_ok t \<and> threads t = threads s"
proof -
  let ?full = "case find_room r s of Some i \<Rightarrow> MAX_USERS_PER_ROOM \<le> user_count (rooms s ! i) | None \<Rightarrow> False"
  show ?thesis
  proof (cases "is_valid_room_name r \<and> current_room (clients s ! c) \<noteq> r \<and> \<not> ?full")
    case False
    then show ?thesis using ok by (auto simp: cmd_join_def Let_def)
  next
    case True
    then have space: "user_count (rooms s ! i) < MAX_USERS_PER_ROOM" if "find_room r s = Some i" for i
      using that by simp
    from join_room_ok [OF ok c _ _ space] True
    obtain t j where "join_room c r s = Inr (t, j)" "server_ok t" "threads t = threads s" by metis
    then show ?thesis using True by (auto simp: cmd_join_def Let_def output_defs)
  qed
qed

lemma cmd_leave_ok:
  assumes ok: "server_ok s" and c: "c < MAX_CLIENTS"
  shows "\<exists>t. cmd_leave c s = Inr t \<and> server_ok t \<and> threads t = threads s"
proof (cases "current_room (clients s ! c) = []")
  case True
  then show ?thesis using ok by (simp add: cmd_leave_def Let_def)
next
  case False
  from leave_server_ok [OF ok c False] False show ?thesis
    by (auto simp: cmd_leave_def Let_def output_defs)
qed

lemma broadcast_to_room_spec:
  assumes ok: "membership_ok s"
  shows "broadcast_to_room r msg sender s =
    Inr (emit (case find_room r s of None \<Rightarrow> []
       | Some i \<Rightarrow> map (\<lambda>k. Send k (snprintf 1050 (''CHAT_MESSAGE '' @ msg)))
           (filter (\<lambda>k. k \<noteq> sender) (map (\<lambda>u. c_socket (clients s ! u)) (members (rooms s ! i))))) s)"
proof (cases "find_room r s")
  case None
  then show ?thesis by (simp add: broadcast_to_room_def)
next
  case (Some i)
  note D = membership_okD [OF ok]
  note I = find_room_Some [OF Some]
  have rok: "room_ok (clients s) (rooms s ! i)" using D I by simp
  then have "user_count (rooms s ! i) \<le> length (users (rooms s ! i))"
    "\<forall>u \<in> set (take (user_count (rooms s ! i)) (users (rooms s ! i))). u < length (clients s)"
    using I by (simp_all add: room_ok_def members_def)
  from broadcast_loop_spec [OF this(1) _ this(2), of 0] Some show ?thesis
    by (simp add: broadcast_to_room_def members_def)
qed

lemma cmd_broadcast_ok:
  assumes "server_ok s"
  shows "\<exists>t. cmd_broadcast c msg s = Inr t \<and> server_ok t \<and> threads t = threads s"
  using assms broadcast_to_room_spec [OF server_okD(1) [OF assms]]
  by (simp add: cmd_broadcast_def Let_def)

lemma cmd_whisper_ok:
  assumes "server_ok s" "strchr args (CHR '' '') \<noteq> None"
  shows "\<exists>t. cmd_whisper c args s = Inr t \<and> server_ok t \<and> threads t = threads s"
  using assms by (auto simp: cmd_whisper_def whisper_to_def Let_def split: option.splits)

section \<open>File transfers\<close>

lemma requests_ok_push:
  assumes "ring_inv s" "queue_size s \<noteq> MAX_FILE_QUEUE" "requests_ok s" "request_ok req"
  shows "requests_ok (queue_push req s)"
  using assms queue_push_ring(1) [OF assms(1,2), of req]
  by (simp add: requests_ok_def queue_push_def)

lemma requests_ok_cong:
  "pending t = pending s \<Longrightarrow> processor t = processor s \<Longrightarrow> requests_ok t = requests_ok s"
  by (simp add: requests_ok_def)

lemma pending_cong:
  "file_queue t = file_queue s \<Longrightarrow> queue_head t = queue_head s \<Longrightarrow> queue_size t = queue_size s \<Longrightarrow>
    pending t = pending s"
  by (simp add: pending_def)

lemma file_name_take: "file_name_ok fn \<Longrightarrow> take (BUFFER_SIZE - Suc 0) fn = fn"
  by (simp add: file_name_ok_def c_limits)

lemma enqueue_ok:
  assumes ok: "server_ok s" and r: "c < MAX_CLIENTS" "r < MAX_CLIENTS" "empty_slots s \<noteq> 0" "file_name_ok fn"
  shows "server_ok (enqueue_request c r fn sz now (s\<lparr>empty_slots := empty_slots s - 1\<rparr>))" (is "server_ok ?t")
proof -
  note D = server_okD [OF ok]
  let ?s = "s\<lparr>empty_slots := empty_slots s - 1\<rparr>"
  let ?req = "\<lparr>f_sender = c, f_receiver = r, f_filename = take (BUFFER_SIZE - 1) fn, f_size = sz,
    f_queue_time = now, f_active = True\<rparr>"
  have q: "ring_inv ?s" "queue_size ?s \<noteq> MAX_FILE_QUEUE"
    using D(3) r by (auto simp: slots_ok_def ring_inv_def)
  have "requests_ok ?s" using D(4) requests_ok_cong [of ?s s] pending_cong [of ?s s] by simp
  then have "requests_ok (queue_push ?req ?s)"
    using q r by (intro requests_ok_push) (simp_all add: request_ok_def file_name_take)
  moreover have "pending ?t = pending (queue_push ?req ?s)"
    by (rule pending_cong) (simp_all add: enqueue_request_def Let_def)
  ultimately have "requests_ok ?t"
    using requests_ok_cong [of ?t "queue_push ?req ?s"] by (simp add: queue_push_def)
  moreover have "membership_ok ?t" using D(1) membership_ok_cong [of ?t s] by simp
  ultimately show ?thesis
    using D enqueue_slots [OF D(3) r(3)] by (simp add: server_ok_def)
qed

text \<open>Moving a thread between waiting for a command and waiting for a slot.\<close>

lemma set_thread_ok:
  assumes ok: "server_ok s" and c: "c < MAX_CLIENTS" "session_ok t (clients s ! c)"
  shows "server_ok (set_thread c t s)"
proof -
  have "sessions_ok ((clients s)[c := clients s ! c]) ((threads s)[c := t]) (client_count s)"
    by (rule sessions_update_same [OF server_okD(2) [OF ok] c(1) _ _ _ c(2)]) simp_all
  moreover have "membership_ok (set_thread c t s)"
    using server_okD(1) [OF ok] membership_ok_cong [of "set_thread c t s" s] by simp
  ultimately show ?thesis by (intro server_ok_update [OF ok]) simp_all
qed

lemma session_ok_waiting:
  "session_ok Commands cl \<Longrightarrow> r < MAX_CLIENTS \<Longrightarrow> file_name_ok fn \<Longrightarrow> session_ok (WaitSlot r fn sz) cl"
  "session_ok (WaitSlot r fn sz) cl \<Longrightarrow> session_ok Commands cl \<and> r < MAX_CLIENTS \<and> file_name_ok fn"
  by (simp_all add: session_ok.simps)

lemma add_to_file_queue_ok:
  assumes ok: "server_ok s" and c: "c < MAX_CLIENTS" "threads s ! c = Commands" "r < MAX_CLIENTS" "file_name_ok fn"
  shows "server_ok (add_to_file_queue c r fn sz now s)"
  using enqueue_ok [OF ok c(1,3) _ c(4)] set_thread_ok [OF _ c(1)] ok
    session_ok_waiting(1) [OF _ c(3,4)] sessions_okD(3) [OF server_okD(2) [OF ok] c(1)] c(2)
  by (simp add: add_to_file_queue_def)

lemma find_client_by_username_Some:
  "find_client_by_username u s = Some i \<Longrightarrow>
    i < length (clients s) \<and> c_active (clients s ! i) \<and> username (clients s ! i) = u"
  by (auto simp: find_client_by_username_def dest: first_index_SomeD)

lemma handle_file_transfer_ok:
  assumes ok: "server_ok s" and c: "c < MAX_CLIENTS" "threads s ! c = Commands"
    and fn: "has_valid_extension fn \<Longrightarrow> file_name_ok fn"
  shows "server_ok (handle_file_transfer c fn t sz now s)"
proof (cases "find_client_by_username t s")
  case None
  then show ?thesis using ok by (simp add: handle_file_transfer_def Let_def)
next
  case (Some r)
  then have r: "r < MAX_CLIENTS"
    using find_client_by_username_Some [OF Some] sessions_okD(1) [OF server_okD(2) [OF ok]] by simp
  have "server_ok (add_to_file_queue c r fn sz now (emit es s))" if "has_valid_extension fn" for es
    using add_to_file_queue_ok [of "emit es s"] ok c r fn that by simp
  then show ?thesis using ok Some by (simp add: handle_file_transfer_def Let_def)
qed

lemma slot_granted_ok:
  assumes ok: "server_ok s" and c: "c < MAX_CLIENTS" "threads s ! c = WaitSlot r fn sz" "empty_slots s \<noteq> 0"
  shows "server_ok (slot_granted c now s)" "threads (slot_granted c now s) ! c = Commands"
proof -
  note S = sessions_okD [OF server_okD(2) [OF ok]]
  have sess: "session_ok Commands (clients s ! c)" "r < MAX_CLIENTS" "file_name_ok fn"
    using session_ok_waiting(2) S(3) [OF c(1)] c(2) by metis+
  have "server_ok (enqueue_request c r fn sz now (s\<lparr>empty_slots := empty_slots s - 1\<rparr>))"
    by (rule enqueue_ok [OF ok c(1) sess(2) c(3) sess(3)])
  from set_thread_ok [OF this c(1)] sess(1) show "server_ok (slot_granted c now s)"
    by (simp add: slot_granted_def c(2))
  show "threads (slot_granted c now s) ! c = Commands"
    using c S(2) by (simp add: slot_granted_def)
qed

lemma slot_timeout_ok:
  assumes ok: "server_ok s" and c: "c < MAX_CLIENTS" "threads s ! c = WaitSlot r fn sz"
  shows "server_ok (slot_timeout c s)" "threads (slot_timeout c s) ! c = Commands"
proof -
  note S = sessions_okD [OF server_okD(2) [OF ok]]
  have sess: "session_ok Commands (clients s ! c)"
    using session_ok_waiting(2) S(3) [OF c(1)] c(2) by metis
  have "server_ok (set_thread c Commands (emit es s))" for es
    using set_thread_ok [of "emit es s", OF _ c(1)] ok sess by simp
  then show "server_ok (slot_timeout c s)" by (simp add: slot_timeout_def c(2) Let_def)
  show "threads (slot_timeout c s) ! c = Commands"
    using c S(2) by (simp add: slot_timeout_def Let_def)
qed

text \<open>The processor.\<close>

lemma queue_pop_frame [simp]:
  "clients (snd (queue_pop s)) = clients s" "rooms (snd (queue_pop s)) = rooms s"
  "room_count (snd (queue_pop s)) = room_count s" "client_count (snd (queue_pop s)) = client_count s"
  "threads (snd (queue_pop s)) = threads s" "processor (snd (queue_pop s)) = processor s"
  "server_running (snd (queue_pop s)) = server_running s"
  by (simp_all add: queue_pop_def Let_def)

lemma processor_take_frame [simp]:
  "clients (processor_take now s) = clients s" "rooms (processor_take now s) = rooms s"
  "room_count (processor_take now s) = room_count s" "client_count (processor_take now s) = client_count s"
  "threads (processor_take now s) = threads s"
  by (simp_all add: processor_take_def Let_def split_def)

lemma processor_take_ok:
  assumes ok: "server_ok s" and p: "processor s = Idle" "filled_slots s \<noteq> 0"
  shows "server_ok (processor_take now s)"
proof -
  note D = server_okD [OF ok]
  let ?s = "s\<lparr>filled_slots := filled_slots s - 1\<rparr>" and ?t = "processor_take now s"
  have q: "ring_inv ?s" "queue_size ?s \<noteq> 0"
    using D(3) p by (auto simp: slots_ok_def ring_inv_def)
  have eq: "pending s = fst (queue_pop ?s) # pending (snd (queue_pop ?s))"
    using queue_pop_ring(1) [OF q] pending_cong [of ?s s] by simp
  have "requests_ok ?t"
  proof (cases "server_running s")
    case True
    have "pending ?t = pending (snd (queue_pop ?s))"
      using True by (intro pending_cong) (simp_all add: processor_take_def Let_def split_def)
    moreover have "processor ?t = Transferring (fst (queue_pop ?s))"
      using True by (simp add: processor_take_def Let_def split_def)
    ultimately show ?thesis using D(4) eq by (simp add: requests_ok_def)
  next
    case False
    then have "pending ?t = pending s"
      by (intro pending_cong) (simp_all add: processor_take_def Let_def)
    with False D(4) show ?thesis by (simp add: requests_ok_def processor_take_def Let_def)
  qed
  moreover have "membership_ok ?t" using D(1) membership_ok_cong [of ?t s] by simp
  ultimately show ?thesis
    using D processor_take_slots [OF D(3) p(2,1)] by (simp add: server_ok_def)
qed

lemma add_file_to_receiver_simps [simp]:
  "username (add_file_to_receiver fn cl) = username cl" "c_socket (add_file_to_receiver fn cl) = c_socket cl"
  "c_active (add_file_to_receiver fn cl) = c_active cl" "current_room (add_file_to_receiver fn cl) = current_room cl"
  "previously_joined_rooms (add_file_to_receiver fn cl) = previously_joined_rooms cl"
  by (simp_all add: add_file_to_receiver_def)

lemma receive_ok:
  assumes ok: "server_ok s" and r: "r < MAX_CLIENTS"
  shows "server_ok (upd_client r (add_file_to_receiver fn) s)" (is "server_ok ?t")
proof -
  note D = server_okD [OF ok]
  have "session_ok (threads s ! r) (clients s ! r)" using sessions_okD(3) [OF D(2) r] .
  then have "session_ok (threads s ! r) (add_file_to_receiver fn (clients s ! r))"
    by (auto simp: session_ok.simps add_file_to_receiver_def)
  then have "sessions_ok ((clients s)[r := add_file_to_receiver fn (clients s ! r)])
      ((threads s)[r := threads s ! r]) (client_count s)"
    by (intro sessions_update_same [OF D(2) r]) simp_all
  moreover have "membership_ok ?t"
    using membership_update [OF D(1) r, of "add_file_to_receiver fn (clients s ! r)"]
      membership_ok_cong [of ?t "s\<lparr>clients := (clients s)[r := add_file_to_receiver fn (clients s ! r)]\<rparr>"]
    by simp
  ultimately show ?thesis by (intro server_ok_update [OF ok]) simp_all
qed

lemma finish_transfer_ok:
  assumes "server_ok s" "request_ok req"
  shows "server_ok (finish_transfer req s)"
  using assms receive_ok by (simp add: finish_transfer_def Let_def request_ok_def)

lemma finish_transfer_part [simp]:
  "transfer_part (finish_transfer req s) = transfer_part s"
  "server_running (finish_transfer req s) = server_running s"
  by (simp_all add: finish_transfer_def Let_def)

lemma processor_finish_ok:
  assumes ok: "server_ok s"
  shows "server_ok (processor_finish s)"
proof (cases "processor s")
  case (Transferring req)
  then have r: "request_ok req" using server_okD(4) [OF ok] by (simp add: requests_ok_def)
  let ?s1 = "finish_transfer req s" and ?t = "processor_finish s"
  note F = finish_transfer_ok [OF ok r] and D1 = server_okD [OF finish_transfer_ok [OF ok r]]
  have t: "?t = ?s1\<lparr>processor := (if server_running s then Idle else Stopped)\<rparr>"
    by (simp add: processor_finish_def Transferring Let_def)
  have "requests_ok ?t"
    using D1(4) pending_cong [of ?t ?s1] by (simp add: t requests_ok_def)
  moreover have "membership_ok ?t" using D1(1) membership_ok_cong [of ?t ?s1] by (simp add: t)
  ultimately show ?thesis
    using D1(2) processor_finish_slots [OF server_okD(3) [OF ok]] by (simp add: t server_ok_def)
qed (use ok in \<open>simp_all add: processor_finish_def\<close>)

section \<open>Every step\<close>

text \<open>The file name that a line of a client names.\<close>

lemma recv_line_no_NUL: "NUL \<notin> set (recv_line bytes)"
  by (auto simp: recv_line_def dest: set_takeWhileD)

lemma sscanf_word:
  assumes "sscanf (ScanS cap # ds) s = Inr vs"
  shows "vs = [] \<or> (\<exists>w ws. vs = VS w # ws \<and> w \<noteq> [] \<and> length w < cap \<and> set w \<subseteq> set s \<and> (\<forall>c \<in> set w. \<not> isspace c))"
proof -
  let ?w = "takeWhile (\<lambda>c. \<not> isspace c) (skip_ws s)"
  have "set ?w \<subseteq> set s" "\<forall>c \<in> set ?w. \<not> isspace c"
    by (auto simp: skip_ws_def dest!: set_takeWhileD set_dropWhileD)
  with assms show ?thesis by (auto simp: Let_def rbind_eq_Inr split: if_splits)
qed

lemma sendfile_name_ok:
  assumes "sendfile_args params = Inr (fn, t, sz)" "NUL \<notin> set params" "fn \<noteq> []"
  shows "file_name_ok fn"
proof -
  from assms(1) obtain vs where
    "sscanf [ScanS BUFFER_SIZE, WS, ScanS (MAX_USERNAME_LEN + 1), WS, ScanD None 64] params = Inr vs"
    "(fn, t, sz) = (case vs of [VS f, VS t, VI n] \<Rightarrow> (f, t, n) | [VS f, VS t] \<Rightarrow> (f, t, 0)
       | [VS f] \<Rightarrow> (f, [], 0) | _ \<Rightarrow> ([], [], 0))"
    by (auto simp: sendfile_args_def rbind_eq_Inr simp del: sscanf.simps)
  with sscanf_word [OF this(1)] assms(2,3) show ?thesis
    by (auto simp: file_name_ok_def split: list.splits sval.splits)
qed

lemma valid_extension_not_Nil: "has_valid_extension fn \<Longrightarrow> fn \<noteq> []"
  by (auto simp: has_valid_extension_def)

text \<open>The command lines whose handling is undefined.\<close>

definition malformed :: "string \<Rightarrow> bool" where
  "malformed buf \<longleftrightarrow>
     starts_with ''/whisper '' buf \<and> CHR '' '' \<notin> set (drop 9 buf) \<or>
     starts_with ''/sendfile '' buf \<and> \<not> defined (sendfile_args (drop 10 buf))"

lemma command_step_ok:
  assumes ok: "server_ok s" and c: "c < MAX_CLIENTS" "threads s ! c = Commands"
    and m: "\<not> malformed (recv_line bytes)"
  shows "\<exists>t. command_step c bytes now s = Inr t \<and> server_ok t"
proof -
  let ?b = "recv_line bytes"
  have R: "\<exists>u. rbind m (resume c) = Inr u \<and> server_ok u"
    if "\<exists>t. m = Inr t \<and> server_ok t \<and> threads t = threads s" for m
    using that resume_ok [OF _ c(1)] c(2) by auto
  consider "starts_with ''/join '' ?b" | "?b = ''/leave''" | "starts_with ''/broadcast '' ?b"
    | "starts_with ''/whisper '' ?b" | "starts_with ''/sendfile '' ?b" | "?b = ''/exit''"
    | "\<not> starts_with ''/join '' ?b" "?b \<noteq> ''/leave''" "\<not> starts_with ''/broadcast '' ?b"
      "\<not> starts_with ''/whisper '' ?b" "\<not> starts_with ''/sendfile '' ?b" "?b \<noteq> ''/exit''"
    by blast
  then show ?thesis
  proof cases
    case 1
    then show ?thesis using R [OF cmd_join_ok [OF ok c]] by (simp add: command_step_def Let_def)
  next
    case 2
    then show ?thesis
      using R [OF cmd_leave_ok [OF ok c(1)]] by (simp add: command_step_def Let_def starts_with_def)
  next
    case 3
    then show ?thesis
      using R [OF cmd_broadcast_ok [OF ok]] by (auto simp: command_step_def Let_def starts_with_iff)
  next
    case 4
    then have "strchr (drop 9 ?b) (CHR '' '') \<noteq> None" using m by (auto simp: malformed_def strchr_None)
    from R [OF cmd_whisper_ok [OF ok this]] 4 show ?thesis
      by (auto simp: command_step_def Let_def starts_with_iff)
  next
    case 5
    then obtain fn t sz where a: "sendfile_args (drop 10 ?b) = Inr (fn, t, sz)"
      using m by (auto simp: malformed_def defined_ex)
    let ?t = "handle_file_transfer c fn t sz now s"
    have "NUL \<notin> set (drop 10 ?b)" using recv_line_no_NUL in_set_dropD by metis
    then have "has_valid_extension fn \<Longrightarrow> file_name_ok fn"
      using sendfile_name_ok [OF a] valid_extension_not_Nil by blast
    then have t: "server_ok ?t" by (rule handle_file_transfer_ok [OF ok c])
    have "\<exists>u. (if threads ?t ! c = Commands then resume c ?t else Inr ?t) = Inr u \<and> server_ok u"
      using t resume_ok [OF t c(1)] by auto
    then show ?thesis
      using 5 a by (auto simp: command_step_def Let_def starts_with_iff cmd_sendfile_def)
  next
    case 6
    have "server_ok (cmd_exit c s)" using ok by (simp add: cmd_exit_def Let_def)
    from end_thread_ok [OF this c(1)] c(2) 6 show ?thesis
      by (simp add: command_step_def Let_def starts_with_def cmd_exit_def)
  next
    case 7
    then show ?thesis using resume_ok [OF ok c(1)] c(2) by (simp add: command_step_def Let_def)
  qed
qed

text \<open>A line of a client that has logged in and that is malformed.\<close>

fun bad_line :: "event \<Rightarrow> server \<Rightarrow> bool" where
  "bad_line (Recv c bytes now) s = (threads s ! c = Commands \<and> malformed (recv_line bytes))"
| "bad_line e s = False"

lemma server_step_ok:
  assumes ok: "server_ok s" and e: "enabled e s" "\<not> bad_line e s"
  shows "\<exists>t. server_step e s = Inr t \<and> server_ok t"
proof (cases e)
  case (Accept sock addr created)
  then show ?thesis using e accept_client_ok [OF ok] by simp
next
  case (Recv c bytes now)
  then show ?thesis
    using e login_step_ok [OF ok] command_step_ok [OF ok] by auto
next
  case (Hangup c)
  then show ?thesis
    using e ok end_thread_ok [OF ok, of c] end_thread_ok [of "s\<lparr>lost_connection := True\<rparr>" c]
    by (auto simp: hangup_def)
next
  case (SlotGranted c now)
  then obtain r fn sz where w: "c < MAX_CLIENTS" "threads s ! c = WaitSlot r fn sz" "empty_slots s \<noteq> 0"
    using e by (auto split: thread_pc.splits)
  show ?thesis
    using SlotGranted resume_ok [OF slot_granted_ok(1) [OF ok w] w(1)] slot_granted_ok(2) [OF ok w] by simp
next
  case (SlotTimeout c)
  then obtain r fn sz where w: "c < MAX_CLIENTS" "threads s ! c = WaitSlot r fn sz"
    using e by (auto split: thread_pc.splits)
  show ?thesis
    using SlotTimeout resume_ok [OF slot_timeout_ok(1) [OF ok w] w(1)] slot_timeout_ok(2) [OF ok w] by simp
next
  case (ProcessorTake now)
  then show ?thesis using e processor_take_ok [OF ok] by simp
next
  case ProcessorFinish
  then show ?thesis using processor_finish_ok [OF ok] by simp
next
  case Sigint
  then show ?thesis using ok by (simp add: handle_sigint_def)
qed

end
