(* ===== verification/Chat_Properties.thy ===== *)
theory Chat_Properties
  imports Chat_Steps
begin

text \<open>
  What holds in every reachable state of the chat server, and what each command does there:
  who receives which message, and what changes. The witnesses run concrete schedules from
  the initial state.
\<close>

section \<open>The invariant holds in every reachable state\<close>

lemma session_ok_zero: "session_ok NoThread zero_client"
  by (simp add: session_ok.simps zero_client_def)

lemma server_ok_init: "server_ok (init_server k)"
proof -
  have "membership_ok (init_server k)"
    by (auto simp: membership_ok_def init_server_def rooms_ok_def room_ok_def places_ok_def zero_room_def
        zero_client_def active_rooms_def)
  moreover have "sessions_ok (replicate MAX_CLIENTS zero_client) (replicate MAX_CLIENTS NoThread) 0"
    by (simp add: sessions_ok_def session_ok_zero usernames_ok_def sockets_ok_def) (simp add: zero_client_def)
  moreover have "slots_ok (init_server k)"
    using ring_inv_init by (simp add: slots_ok_def init_server_def)
  moreover have "requests_ok (init_server k)"
    by (simp add: requests_ok_def init_server_def pending_def ring_contents_def)
  ultimately show ?thesis by (simp add: server_ok_def init_server_def)
qed

lemma step_not_bad:
  assumes "server_ok s" "enabled e s" "server_step e s = Inr t"
  shows "server_ok t"
proof (cases "bad_line e s")
  case False
  with server_step_ok [OF assms(1,2)] assms(3) show ?thesis by auto
next
  case True
  then obtain c bytes now where e: "e = Recv c bytes now" "threads s ! c = Commands" "malformed (recv_line bytes)"
    by (cases e) auto
  let ?b = "recv_line bytes"
  have "\<exists>x. command_step c bytes now s = Inl x"
  proof (cases "starts_with ''/whisper '' ?b")
    case True
    moreover from this have "\<not> starts_with ''/sendfile '' ?b" by (auto simp: starts_with_iff)
    ultimately have "cmd_whisper c (drop 9 ?b) s = Inl NullDeref"
      using e(3) by (simp add: malformed_def cmd_whisper_def strchr_None [THEN iffD2])
    with True show ?thesis by (auto simp: command_step_def Let_def starts_with_iff)
  next
    case False
    then have f: "starts_with ''/sendfile '' ?b" "\<not> defined (sendfile_args (drop 10 ?b))"
      using e(3) by (auto simp: malformed_def)
    then obtain x where "sendfile_args (drop 10 ?b) = Inl x"
      by (cases "sendfile_args (drop 10 ?b)") auto
    with f show ?thesis by (auto simp: command_step_def Let_def starts_with_iff cmd_sendfile_def)
  qed
  with e assms(3) show ?thesis by auto
qed

lemma reachable_ok: "reachable s \<Longrightarrow> server_ok s"
  by (induction rule: reachable.induct) (auto simp: server_ok_init dest: step_not_bad)

lemma reachableD:
  assumes "reachable s"
  shows "membership_ok s" "sessions_ok (clients s) (threads s) (client_count s)" "slots_ok s" "requests_ok s"
    "length (clients s) = MAX_CLIENTS" "length (rooms s) = MAX_ROOMS" "sockets_ok (clients s)"
  using server_okD [OF reachable_ok [OF assms]] by (auto simp: sessions_ok_def membership_ok_def rooms_ok_def)

section \<open>Who is sent what\<close>

lemma sent_to_map: "sent_to k (map (\<lambda>j. Send j m) ks) = map (\<lambda>_. m) (filter (\<lambda>j. j = k) ks)"
  by (induction ks) auto

lemma filter_eq_distinct: "distinct ks \<Longrightarrow> filter (\<lambda>j. j = k) ks = (if k \<in> set ks then [k] else [])"
  by (induction ks) auto

text \<open>Sending to the members of a room other than \<open>c\<close>.\<close>

lemma sent_to_members:
  assumes r: "reachable s" and i: "i < length (rooms s)" "r_active (rooms s ! i)"
    and d: "d < MAX_CLIENTS" "c_active (clients s ! d)"
  shows "sent_to (c_socket (clients s ! d)) (map (\<lambda>k. Send k m)
      (map (\<lambda>u. c_socket (clients s ! u)) (filter (\<lambda>u. u \<noteq> c) (members (rooms s ! i)))))
    = (if d \<noteq> c \<and> current_room (clients s ! d) = r_name (rooms s ! i) then [m] else [])"
proof -
  note R = reachableD [OF r] and D = membership_okD [OF reachableD(1) [OF r]]
  let ?us = "filter (\<lambda>u. u \<noteq> c) (members (rooms s ! i))"
  have rok: "room_ok (clients s) (rooms s ! i)" using D(6) i by simp
  have mem: "u < MAX_CLIENTS \<and> c_active (clients s ! u)" if "u \<in> set ?us" for u
    using membersD [OF rok i(2), of u] that R(5) by auto
  have inj: "inj_on (\<lambda>u. c_socket (clients s ! u)) {u. u < MAX_CLIENTS \<and> c_active (clients s ! u)}"
    using R(7) unfolding inj_on_def sockets_ok_def R(5) by blast
  have sub: "set ?us \<subseteq> {u. u < MAX_CLIENTS \<and> c_active (clients s ! u)}" using mem by blast
  have "distinct ?us" using rok i by (simp add: room_ok_def)
  then have dist: "distinct (map (\<lambda>u. c_socket (clients s ! u)) ?us)"
    using inj_on_subset [OF inj sub] by (simp add: distinct_map)
  have "c_socket (clients s ! d) \<in> (\<lambda>u. c_socket (clients s ! u)) ` set ?us \<longleftrightarrow> d \<in> set ?us"
    using inj_on_image_mem_iff [OF inj _ sub, of d] d by simp
  moreover have "d \<in> set ?us \<longleftrightarrow> d \<noteq> c \<and> current_room (clients s ! d) = r_name (rooms s ! i)"
    using members_iff [OF D(2,3) i, of d] d R(5) by auto
  ultimately show ?thesis
    by (simp add: sent_to_map filter_eq_distinct [OF dist] del: map_map)
qed

lemma sent_to_other_rooms:
  assumes "d < MAX_CLIENTS" "c < MAX_CLIENTS" "reachable s" "c_active (clients s ! d)" "c_active (clients s ! c)"
  shows "c_socket (clients s ! c) = c_socket (clients s ! d) \<longleftrightarrow> c = d"
  using assms reachableD(5,7) [OF assms(3)] by (auto simp: sockets_ok_def)

lemma thread_active:
  assumes "reachable s" "c < MAX_CLIENTS" "threads s ! c \<noteq> NoThread"
  shows "c_active (clients s ! c)"
  using active_thread [OF reachable_ok [OF assms(1)] assms(2)] assms(3) by simp

lemma current_room_found:
  assumes "reachable s" "c < MAX_CLIENTS" "current_room (clients s ! c) \<noteq> []"
  shows "\<exists>i < length (rooms s). find_room (current_room (clients s ! c)) s = Some i \<and> r_active (rooms s ! i)
    \<and> r_name (rooms s ! i) = current_room (clients s ! c)"
proof -
  note D = membership_okD [OF reachableD(1) [OF assms(1)]]
  obtain i where "i < length (rooms s)" "r_active (rooms s ! i)" "r_name (rooms s ! i) = current_room (clients s ! c)"
    using places_in_room [OF D(3)] assms reachableD(5) [OF assms(1)] by (auto simp: in_room_def)
  with find_room_eq [OF D(2)] show ?thesis by blast
qed

section \<open>Broadcasting, leaving, joining\<close>

lemma leave_sockets_eq:
  assumes r: "reachable s" and c: "c < MAX_CLIENTS" "c_active (clients s ! c)"
    and i: "i < length (rooms s)" "r_active (rooms s ! i)"
  shows "filter (\<lambda>k. k \<noteq> c_socket (clients s ! c)) (map (\<lambda>u. c_socket (clients s ! u)) (members (rooms s ! i)))
    = map (\<lambda>u. c_socket (clients s ! u)) (filter (\<lambda>u. u \<noteq> c) (members (rooms s ! i)))"
proof -
  note R = reachableD [OF r] and D = membership_okD [OF reachableD(1) [OF r]]
  have "c_socket (clients s ! u) \<noteq> c_socket (clients s ! c) \<longleftrightarrow> u \<noteq> c" if "u \<in> set (members (rooms s ! i))" for u
    using membersD [OF D(6) [OF i(1)] i(2) that] sent_to_other_rooms [of c u s] c r R(5) by auto
  then show ?thesis by (simp add: filter_map comp_def cong: filter_cong)
qed

definition broadcast_text :: "client \<Rightarrow> string \<Rightarrow> string" where
  "broadcast_text cl msg = snprintf 1050 (''CHAT_MESSAGE '' @ snprintf (MAX_MESSAGE_LEN + 5)
     (''['' @ fmt_prec 32 (current_room cl) @ ''] '' @ fmt_prec 16 (username cl) @ '': '' @ msg))"

text \<open>
  C4. In every reachable state, a client that is in a room and sends \<open>/broadcast msg\<close> has the
  message delivered exactly once to every other connected client whose current room is the
  same, is told so itself exactly once, and no other connected client is sent anything; no
  client or room changes.
\<close>

theorem broadcast_delivery:
  assumes r: "reachable s" and c: "c < MAX_CLIENTS" "threads s ! c = Commands" "current_room (clients s ! c) \<noteq> []"
  shows "\<exists>t es. cmd_broadcast c msg s = Inr t \<and> clients t = clients s \<and> rooms t = rooms s \<and> out t = out s @ es
    \<and> (\<forall>d < MAX_CLIENTS. c_active (clients s ! d) \<longrightarrow>
        sent_to (c_socket (clients s ! d)) es =
          (if d = c then [''MESSAGE_BROADCASTED'']
           else if current_room (clients s ! d) = current_room (clients s ! c)
             then [broadcast_text (clients s ! c) msg] else []))"
proof -
  have act: "c_active (clients s ! c)" using thread_active [OF r c(1)] c(2) by simp
  obtain i where i: "i < length (rooms s)" "find_room (current_room (clients s ! c)) s = Some i"
    "r_active (rooms s ! i)" "r_name (rooms s ! i) = current_room (clients s ! c)"
    using current_room_found [OF r c(1,3)] by blast
  note B = broadcast_to_room_spec [OF reachableD(1) [OF r], of "current_room (clients s ! c)"]
  show ?thesis
    using c(3) i(2) sent_to_members [OF r i(1,3), of _ "broadcast_text (clients s ! c) msg" c] i(4)
      sent_to_other_rooms [OF _ c(1) r _ act]
    by (auto simp: cmd_broadcast_def Let_def B broadcast_text_def leave_sockets_eq [OF r c(1) act i(1,3)]
        simp del: map_map)
qed

text \<open>
  In every reachable state, \<open>/leave\<close> of a client in a room takes it out of the room, tells
  every other client in that room so exactly once, answers the client exactly once, sends
  nothing to anybody else and changes no other client.
\<close>

theorem leave_delivery:
  assumes r: "reachable s" and c: "c < MAX_CLIENTS" "threads s ! c = Commands" "current_room (clients s ! c) \<noteq> []"
  shows "\<exists>t es. cmd_leave c s = Inr t \<and> out t = out s @ es
    \<and> clients t = (clients s)[c := (clients s ! c)\<lparr>current_room := []\<rparr>]
    \<and> (\<forall>d < MAX_CLIENTS. c_active (clients s ! d) \<longrightarrow>
        sent_to (c_socket (clients s ! d)) es =
          (if d = c then [''LEAVE_ROOM'']
           else if current_room (clients s ! d) = current_room (clients s ! c)
             then [leave_msg (username (clients s ! c)) (current_room (clients s ! c))] else []))"
proof -
  have act: "c_active (clients s ! c)" using thread_active [OF r c(1)] c(2) by simp
  obtain i where i: "i < length (rooms s)" "find_room (current_room (clients s ! c)) s = Some i"
    "r_active (rooms s ! i)" "r_name (rooms s ! i) = current_room (clients s ! c)"
    using current_room_found [OF r c(1,3)] by blast
  from leave_room_spec [OF reachableD(1) [OF r] c(1,3)] i(2)
  obtain rm' where L: "leave_room c s = Inr
      (emit (leave_effects (username (clients s ! c)) (current_room (clients s ! c))
          (map (\<lambda>u. c_socket (clients s ! u)) (filter (\<lambda>u. u \<noteq> c) (members (rooms s ! i)))))
        (upd_client c (\<lambda>x. x\<lparr>current_room := []\<rparr>)
          (s\<lparr>rooms := (rooms s)[i := rm'],
             room_count := (if r_active rm' then room_count s else room_count s - 1)\<rparr>)))"
    by auto
  show ?thesis
    using c(3) sent_to_members [OF r i(1,3), of _ _ c] i(4)
      sent_to_other_rooms [OF _ c(1) r _ act]
    by (auto simp: cmd_leave_def Let_def L leave_effects_def output_defs simp del: map_map)
qed

text \<open>
  What a successful join sends: to the members of the room left, to the members of the room
  entered, and the answer.
\<close>

lemma entered_members:
  assumes r: "reachable s" and e: "entered c r s i ms rm'"
    and c: "c < MAX_CLIENTS" "current_room (clients s ! c) \<noteq> r" and v: "is_valid_room_name r"
    and d: "d < MAX_CLIENTS" "c_active (clients s ! d)"
  shows "sent_to (c_socket (clients s ! d)) (map (\<lambda>k. Send k m) (map (\<lambda>u. c_socket (clients s ! u)) ms))
    = (if current_room (clients s ! d) = r then [m] else [])"
proof (cases "r_active (rooms s ! i)")
  case True
  note D = membership_okD [OF reachableD(1) [OF r]]
  have i: "i < length (rooms s)" "r_name (rooms s ! i) = r" "ms = members (rooms s ! i)"
    using e True by (auto simp: entered_def)
  have "c \<notin> set ms" using members_iff [OF D(2,3) i(1) True, of c] c i D(1) by simp
  then have "filter (\<lambda>u. u \<noteq> c) (members (rooms s ! i)) = ms"
    using i by (auto simp: filter_id_conv)
  with sent_to_members [OF r i(1) True d, of m c] i(2) c show ?thesis by auto
next
  case False
  have "current_room (clients s ! d) \<noteq> r"
  proof
    assume eq: "current_room (clients s ! d) = r"
    moreover have "r \<noteq> []" using v by auto
    ultimately show False
      using current_room_found [OF r d(1)] e False by (auto simp: entered_def)
  qed
  with False e show ?thesis by (auto simp: entered_def)
qed

lemma join_effects_sent:
  "sent_to k (join_effects was rejoining u old r socks) =
    sent_to k (map (\<lambda>j. Send j (join_msg rejoining u r)) socks)"
  by (simp add: join_effects_def join_report_def join_note_def Let_def)


section \<open>Invariants of the reachable states\<close>


text \<open>
  In every reachable state no room holds more than MAX_USERS_PER_ROOM users, an active
  room has at least one user and none twice, two active rooms have different names, and the
  counters of rooms and of clients are the numbers of active ones.
\<close>

theorem rooms_bounded:
  assumes r: "reachable s"
  shows "(\<forall>i < MAX_ROOMS. user_count (rooms s ! i) \<le> MAX_USERS_PER_ROOM
        \<and> (r_active (rooms s ! i) \<longrightarrow> 0 < user_count (rooms s ! i) \<and> distinct (members (rooms s ! i))))
    \<and> (\<forall>i < MAX_ROOMS. \<forall>j < MAX_ROOMS. r_active (rooms s ! i) \<and> r_active (rooms s ! j) \<and> i \<noteq> j \<longrightarrow>
        r_name (rooms s ! i) \<noteq> r_name (rooms s ! j))
    \<and> room_count s = int (length (filter r_active (rooms s)))
    \<and> client_count s = int (length (filter c_active (clients s)))"
proof (intro conjI allI impI)
  note R = reachableD [OF r] and D = membership_okD [OF reachableD(1) [OF r]]
  have rok: "room_ok (clients s) (rooms s ! i)" if "i < MAX_ROOMS" for i using D(6) that R(6) by simp
  show "user_count (rooms s ! i) \<le> MAX_USERS_PER_ROOM" if "i < MAX_ROOMS" for i
    using rok [OF that] by (simp add: room_ok_def)
  show "0 < user_count (rooms s ! i)" "distinct (members (rooms s ! i))"
    if "i < MAX_ROOMS" "r_active (rooms s ! i)" for i
    using rok [OF that(1)] that(2) length_greater_0_conv [of "members (rooms s ! i)"]
    by (simp_all add: room_ok_def length_members [OF rok [OF that(1)]])
  show "r_name (rooms s ! i) \<noteq> r_name (rooms s ! j)"
    if "i < MAX_ROOMS" "j < MAX_ROOMS" "r_active (rooms s ! i) \<and> r_active (rooms s ! j) \<and> i \<noteq> j" for i j
    using active_unique [OF D(2), of i j] that R(6) by auto
  show "room_count s = int (length (filter r_active (rooms s)))" using D(4) by (simp add: active_rooms_def)
  show "client_count s = int (length (filter c_active (clients s)))" using sessions_okD(6) [OF R(2)] .
qed

text \<open>
  In every reachable state two clients with a username have different ones, every username
  is valid, a username is set exactly for the connected clients that have logged in, and no
  two connected clients share a socket.
\<close>

theorem usernames_unique:
  assumes r: "reachable s"
  shows "(\<forall>i < MAX_CLIENTS. \<forall>j < MAX_CLIENTS. i \<noteq> j \<and> username (clients s ! i) \<noteq> [] \<longrightarrow>
        username (clients s ! i) \<noteq> username (clients s ! j))
    \<and> (\<forall>i < MAX_CLIENTS. (username (clients s ! i) \<noteq> [] \<longleftrightarrow>
           c_active (clients s ! i) \<and> threads s ! i \<noteq> Login)
        \<and> (username (clients s ! i) \<noteq> [] \<longrightarrow> is_valid_username (username (clients s ! i))))
    \<and> (\<forall>i < MAX_CLIENTS. \<forall>j < MAX_CLIENTS. i \<noteq> j \<and> c_active (clients s ! i) \<and> c_active (clients s ! j) \<longrightarrow>
        c_socket (clients s ! i) \<noteq> c_socket (clients s ! j))"
proof (intro conjI allI impI)
  note R = reachableD [OF r] and S = sessions_okD [OF reachableD(2) [OF r]]
  show "username (clients s ! i) \<noteq> username (clients s ! j)"
    if "i < MAX_CLIENTS" "j < MAX_CLIENTS" "i \<noteq> j \<and> username (clients s ! i) \<noteq> []" for i j
    using S(4) that R(5) unfolding usernames_ok_def by auto
  show "username (clients s ! i) \<noteq> [] \<longleftrightarrow> c_active (clients s ! i) \<and> threads s ! i \<noteq> Login"
    if "i < MAX_CLIENTS" for i
    using S(3) [OF that] by (auto simp: session_ok.simps)
  show "is_valid_username (username (clients s ! i))"
    if "i < MAX_CLIENTS" "username (clients s ! i) \<noteq> []" for i
    using S(3) [OF that(1)] that(2) by (simp add: session_ok.simps)
  show "c_socket (clients s ! i) \<noteq> c_socket (clients s ! j)"
    if "i < MAX_CLIENTS" "j < MAX_CLIENTS" "i \<noteq> j \<and> c_active (clients s ! i) \<and> c_active (clients s ! j)" for i j
    using sent_to_other_rooms [of j i s] that r by auto
qed


section \<open>Login, whispering\<close>

lemma find_client_by_username_None:
  "find_client_by_username u s = None \<longleftrightarrow>
    (\<forall>e < length (clients s). c_active (clients s ! e) \<longrightarrow> username (clients s ! e) \<noteq> u)"
  by (auto simp: find_client_by_username_def first_index_None all_set_conv_all_nth)

text \<open>
  In every reachable state of the running server, a line received from a client that has
  not logged in is accepted as its username exactly when it is valid and no connected client
  has it: the client is answered WELCOME and gets to the command loop under that name;
  otherwise it is told which of the two failed and stays in the login loop, and nothing
  changes.
\<close>

theorem login_decision:
  fixes bytes :: "char list"
  assumes r: "reachable s" and c: "c < MAX_CLIENTS" "threads s ! c = Login" and run: "server_running s"
  defines "name \<equiv> recv_line bytes"
  shows "\<exists>t es. login_step c bytes s = Inr t \<and> out t = out s @ es \<and>
    (if is_valid_username name \<and> (\<forall>d < MAX_CLIENTS. c_active (clients s ! d) \<longrightarrow> username (clients s ! d) \<noteq> name)
     then clients t = (clients s)[c := (clients s ! c)\<lparr>username := name\<rparr>] \<and> threads t = (threads s)[c := Commands]
       \<and> sent_to (c_socket (clients s ! c)) es = [''WELCOME'']
     else clients t = clients s \<and> threads t = threads s \<and>
       sent_to (c_socket (clients s ! c)) es =
         [if is_valid_username name then ''USERNAME_TAKEN'' else ''INVALID_USERNAME''])"
proof -
  note R = reachableD [OF r]
  have taken: "username_taken name s \<longleftrightarrow>
      (\<exists>d < MAX_CLIENTS. c_active (clients s ! d) \<and> username (clients s ! d) = name)"
    using R(5) by (auto simp: username_taken_def list_ex_length)
  have act: "c_active (clients s ! c)" using thread_active [OF r c(1)] c(2) by simp
  show ?thesis
  proof (cases "is_valid_username name \<and> \<not> username_taken name s")
    case True
    then show ?thesis
      using run act c R(5) taken by (auto simp: login_step_def Let_def name_def resume_def)
  next
    case False
    then show ?thesis
      using run taken by (auto simp: login_step_def Let_def name_def)
  qed
qed

text \<open>
  In every reachable state, \<open>/whisper target msg\<close> with a non-empty target is delivered to
  the one connected client of that name and to nobody else, and the sender is told so; a
  whisper to oneself or to a name that nobody has is answered with its error and reaches
  nobody. A target longer than MAX_USERNAME_LEN is cut to that length first.
\<close>

theorem whisper_delivery:
  assumes r: "reachable s" and c: "c < MAX_CLIENTS" "threads s ! c = Commands"
    and tgt: "tgt \<noteq> []" "CHR '' '' \<notin> set tgt"
  defines "to \<equiv> take MAX_USERNAME_LEN tgt" and "own \<equiv> username (clients s ! c)"
  shows "\<exists>es. cmd_whisper c (tgt @ '' '' @ msg) s = Inr (emit es s) \<and>
    (\<forall>d < MAX_CLIENTS. c_active (clients s ! d) \<longrightarrow>
      sent_to (c_socket (clients s ! d)) es =
       (if to = own then (if d = c then [''CANNOT_WHISPER_SELF''] else [])
        else if \<forall>e < MAX_CLIENTS. c_active (clients s ! e) \<longrightarrow> username (clients s ! e) \<noteq> to
          then (if d = c then [''USER_NOT_FOUND''] else [])
        else if d = c then [snprintf BUFFER_SIZE (''WHISPER_SENT '' @ to)]
        else if username (clients s ! d) = to
          then [snprintf BUFFER_SIZE (''WHISPER_MESSAGE '' @ own @ '' '' @ msg)] else []))"
proof -
  note R = reachableD [OF r]
  have act: "c_active (clients s ! c)" using thread_active [OF r c(1)] c(2) by simp
  note same = sent_to_other_rooms [OF _ c(1) r _ act]
  have to: "to \<noteq> []" using tgt(1) by (simp add: to_def MAX_USERNAME_LEN_def)
  have W: "cmd_whisper c (tgt @ '' '' @ msg) s = Inr (whisper_to c to msg s)"
    unfolding to_def by (rule cmd_whisper_parse [OF tgt(2)])
  have answer: "\<exists>es. (Inr (whisper_to c to msg s) :: server res) = Inr (emit es s) \<and>
      (\<forall>d < MAX_CLIENTS. c_active (clients s ! d) \<longrightarrow>
        sent_to (c_socket (clients s ! d)) es = (if d = c then [m] else []))"
    if "whisper_to c to msg s = emit [Print p, Send (c_socket (clients s ! c)) m, Log ty l] s" for p m ty l
    using that same by (intro exI [of _ "[Print p, Send (c_socket (clients s ! c)) m, Log ty l]"]) auto
  show ?thesis
  proof (cases "find_client_by_username to s")
    case None
    then have none: "\<forall>e < MAX_CLIENTS. c_active (clients s ! e) \<longrightarrow> username (clients s ! e) \<noteq> to"
      using R(5) find_client_by_username_None by simp
    with act c(1) have neq: "to \<noteq> own" by (auto simp: own_def)
    with None obtain p l where
      "whisper_to c to msg s = emit [Print p, Send (c_socket (clients s ! c)) ''USER_NOT_FOUND'', Log ''REJECTED'' l] s"
      by (simp add: whisper_to_def Let_def own_def)
    from answer [OF this] show ?thesis
      unfolding W if_not_P [OF neq] if_P [OF none] .
  next
    case (Some e)
    note E = find_client_by_username_Some [OF Some]
    have uniq: "username (clients s ! d) = to \<longleftrightarrow> d = e" if "d < MAX_CLIENTS" for d
      using E that sessions_okD(4) [OF R(2)] to R(5) unfolding usernames_ok_def by auto
    have ex: "\<not> (\<forall>e < MAX_CLIENTS. c_active (clients s ! e) \<longrightarrow> username (clients s ! e) \<noteq> to)"
      using E R(5) by auto
    have esock: "c_socket (clients s ! e) = c_socket (clients s ! d) \<longleftrightarrow> e = d"
      if "d < MAX_CLIENTS" "c_active (clients s ! d)" for d
      using sent_to_other_rooms [of d e s] E R(5) r that by auto
    show ?thesis
    proof (cases "to = own")
      case True
      then obtain p l where
        "whisper_to c to msg s = emit [Print p, Send (c_socket (clients s ! c)) ''CANNOT_WHISPER_SELF'', Log ''REJECTED'' l] s"
        by (simp add: whisper_to_def Let_def own_def)
      from answer [OF this] show ?thesis
        unfolding W if_P [OF True] .
    next
      case False
      then have ec: "e \<noteq> c" using E by (auto simp: own_def)
      let ?es = "[Send (c_socket (clients s ! e)) (snprintf BUFFER_SIZE (''WHISPER_MESSAGE '' @ own @ '' '' @ msg)),
          Print (''[COMMAND] '' @ own @ '' sent whisper to '' @ quoted to @ nl),
          Send (c_socket (clients s ! c)) (snprintf BUFFER_SIZE (''WHISPER_SENT '' @ to)),
          Log ''WHISPER'' (''user '' @ quoted (fmt_prec 16 own) @ '' to ''
            @ quoted (fmt_prec 16 to) @ '': '' @ fmt_prec 256 msg)]"
      have "whisper_to c to msg s = emit ?es s"
        using False Some by (simp add: whisper_to_def Let_def own_def)
      then have eq: "Inr (whisper_to c to msg s) = (Inr (emit ?es s) :: server res)" by (rule arg_cong)
      have sent: "sent_to (c_socket (clients s ! d)) ?es =
          (if d = c then [snprintf BUFFER_SIZE (''WHISPER_SENT '' @ to)]
           else if username (clients s ! d) = to
             then [snprintf BUFFER_SIZE (''WHISPER_MESSAGE '' @ own @ '' '' @ msg)] else [])"
        if "d < MAX_CLIENTS" "c_active (clients s ! d)" for d
        using ec esock [OF that] same [OF that] uniq [OF that(1)] by auto
      show ?thesis
        unfolding W if_not_P [OF False] if_not_P [OF ex]
        by (intro exI [of _ ?es] conjI allI impI) (rule eq, erule (1) sent)
    qed
  qed
qed

section \<open>File transfers\<close>

lemma valid_extension_iff:
  "has_valid_extension fn \<longleftrightarrow> (\<exists>stem ext. fn = stem @ ''.'' @ ext \<and> CHR ''.'' \<notin> set ext \<and>
     (\<exists>x \<in> {''txt'', ''pdf'', ''jpg'', ''png''}. map tolower ext = map tolower x))"
proof (cases "strrchr fn (CHR ''.'')")
  case None
  then have "CHR ''.'' \<notin> set fn" by (simp add: strrchr_None)
  with None show ?thesis by (auto simp: has_valid_extension_def)
next
  case (Some t)
  from strrchr_Some [OF this] obtain p u where pu: "fn = p @ t" "t = CHR ''.'' # u" "CHR ''.'' \<notin> set u" by blast
  have "stem @ ''.'' @ ext = fn \<and> CHR ''.'' \<notin> set ext \<longrightarrow> ext = u" for stem ext
    using pu split_list_last_prop by (auto simp: append_eq_append_conv2 append_eq_Cons_conv Cons_eq_append_conv)
  then have uniq: "ext = u" if "fn = stem @ ''.'' @ ext" "CHR ''.'' \<notin> set ext" for stem ext
    using that by blast
  have "has_valid_extension fn \<longleftrightarrow> (\<exists>x \<in> {''txt'', ''pdf'', ''jpg'', ''png''}. map tolower u = map tolower x)"
    by (simp add: has_valid_extension_def Some strcasecmp_eq_def pu(2))
  moreover have "fn = p @ ''.'' @ u" using pu by simp
  ultimately show ?thesis using uniq pu(3) by blast
qed

lemma enqueue_sent:
  "out (enqueue_request c r fn sz now s) = out s @
    [Send (c_socket (clients s ! c)) (snprintf BUFFER_SIZE (''FILE_QUEUED '' @ fmt_d (int (queue_size s + 1)))),
     Print (''[FILE QUEUE] Upload '' @ quoted fn @ '' from user '' @ quoted (username (clients s ! c)) @ '' added to queue.'' @ nl),
     Log ''FILE-QUEUE'' (snprintf 512 (''Upload '' @ quoted fn @ '' from '' @ fmt_prec 16 (username (clients s ! c))
       @ '' added to queue.''))]"
  by (simp add: enqueue_request_def Let_def queue_push_def)

definition new_request :: "nat \<Rightarrow> nat \<Rightarrow> string \<Rightarrow> int \<Rightarrow> int \<Rightarrow> file_request" where
  "new_request c r fn sz now = \<lparr>f_sender = c, f_receiver = r, f_filename = take (BUFFER_SIZE - 1) fn,
     f_size = sz, f_queue_time = now, f_active = True\<rparr>"

lemma enqueue_pending:
  assumes "slots_ok s" "empty_slots s \<noteq> 0"
  shows "pending (enqueue_request c r fn sz now (s\<lparr>empty_slots := empty_slots s - 1\<rparr>))
    = pending s @ [new_request c r fn sz now]"
proof -
  let ?s = "s\<lparr>empty_slots := empty_slots s - 1\<rparr>"
  have q: "ring_inv ?s" "queue_size ?s \<noteq> MAX_FILE_QUEUE"
    using assms by (auto simp: slots_ok_def ring_inv_def)
  have "pending (enqueue_request c r fn sz now ?s) = pending (queue_push (new_request c r fn sz now) ?s)"
    by (rule pending_cong) (simp_all add: enqueue_request_def Let_def new_request_def)
  also have "\<dots> = pending ?s @ [new_request c r fn sz now]" using queue_push_ring(1) [OF q] .
  finally show ?thesis using pending_cong [of ?s s] by simp
qed

text \<open>
  In every reachable state a file request is answered by the first check it fails, in the
  order self, size, extension, receiver, queue space; exactly when all pass it is appended to
  the pending requests, and when only the last fails the thread of the sender waits for a
  slot. An extension is one of txt, pdf, jpg, png after the last dot, in any case.
\<close>

theorem file_request_decision:
  fixes fn tgt :: string and sz now :: int
  assumes r: "reachable s" and c: "c < MAX_CLIENTS" "threads s ! c = Commands"
  defines "t \<equiv> handle_file_transfer c fn tgt sz now s"
    and "checked \<equiv> username (clients s ! c) \<noteq> tgt \<and> sz \<le> 3 * 1024 * 1024 \<and>
      (\<exists>stem ext. fn = stem @ ''.'' @ ext \<and> CHR ''.'' \<notin> set ext \<and>
        (\<exists>x \<in> {''txt'', ''pdf'', ''jpg'', ''png''}. map tolower ext = map tolower x))"
  shows "\<exists>es. out t = out s @ es \<and>
    (case find_client_by_username tgt s of
       Some d \<Rightarrow>
         if \<not> checked then pending t = pending s \<and> threads t = threads s
         else if empty_slots s = 0
           then pending t = pending s \<and> threads t = (threads s)[c := WaitSlot d fn sz]
         else pending t = pending s @ [new_request c d fn sz now] \<and> threads t = threads s
     | None \<Rightarrow> pending t = pending s \<and> threads t = threads s) \<and>
    sent_to (c_socket (clients s ! c)) es =
      [if username (clients s ! c) = tgt then ''SEND_TO_SELF''
       else if 3 * 1024 * 1024 < sz then snprintf BUFFER_SIZE (''FILE_IS_LARGE '' @ fmt_d sz)
       else if \<not> checked then ''WRONG_EXTENSION''
       else if find_client_by_username tgt s = None then ''USER_NOT_FOUND''
       else if empty_slots s = 0 then ''FILE_QUEUE_FULL''
       else snprintf BUFFER_SIZE (''FILE_QUEUED '' @ fmt_d (int (queue_size s + 1)))]"
proof -
  note S = reachableD(3) [OF r]
  have chk: "checked \<longleftrightarrow> username (clients s ! c) \<noteq> tgt \<and> sz \<le> 3 * 1024 * 1024 \<and> has_valid_extension fn"
    by (simp add: checked_def valid_extension_iff)
  have pe: "pending (emit es s) = pending s" "pending (set_thread c x s) = pending s" for es s x
    by (simp_all add: pending_def)
  show ?thesis
  proof (cases "find_client_by_username tgt s")
    case None
    then show ?thesis
      by (auto simp: t_def handle_file_transfer_def Let_def MAX_FILE_SIZE_def chk pe)
  next
    case (Some d)
    have "pending (enqueue_request c d fn sz now ((emit es s)\<lparr>empty_slots := empty_slots s - 1\<rparr>))
        = pending s @ [new_request c d fn sz now]" if "empty_slots s \<noteq> 0" for es
      using enqueue_pending [of "emit es s"] S that by (simp add: pe)
    with Some show ?thesis
      by (auto simp: t_def handle_file_transfer_def Let_def MAX_FILE_SIZE_def chk pe add_to_file_queue_def
          enqueue_sent)
  qed
qed

text \<open>
  C6. The ring of file requests, started empty, is a first-in first-out queue under every
  sequence of its two operations: what was taken followed by what is pending is what was put,
  in order, and never more than MAX_FILE_QUEUE requests are pending.
\<close>

theorem file_queue_fifo:
  assumes "fifo_run queue_push queue_pop (\<lambda>s. queue_size s = MAX_FILE_QUEUE) (\<lambda>s. queue_size s = 0) ops
      (init_server k) = (got, put, s)"
  shows "got @ pending s = put \<and> length (pending s) \<le> MAX_FILE_QUEUE"
  using transfers.run_fifo [OF ring_inv_init assms] transfers.run_bounded [OF ring_inv_init assms]
  by (simp add: pending_def init_server_def ring_contents_def)

text \<open>
  In every reachable state the two semaphores and the ring agree: the empty slots and the
  pending requests add up to MAX_FILE_QUEUE, the filled slots are the pending requests as long
  as the processor has not stopped, and every pending request and every client waiting for a
  slot name clients inside the table and a file by one word that fits the buffers.
\<close>

theorem slots_accounted:
  assumes r: "reachable s"
  shows "empty_slots s + length (pending s) = MAX_FILE_QUEUE
    \<and> (processor s \<noteq> Stopped \<longrightarrow> filled_slots s = length (pending s))
    \<and> (\<forall>req \<in> set (pending s). f_sender req < MAX_CLIENTS \<and> f_receiver req < MAX_CLIENTS
          \<and> file_name_ok (f_filename req))
    \<and> (\<forall>c < MAX_CLIENTS. \<forall>d fn sz. threads s ! c = WaitSlot d fn sz \<longrightarrow> d < MAX_CLIENTS \<and> file_name_ok fn)"
proof -
  note R = reachableD [OF r]
  have "length (pending s) = queue_size s" by (simp add: pending_def ring_contents_def)
  moreover have "d < MAX_CLIENTS \<and> file_name_ok fn" if "c < MAX_CLIENTS" "threads s ! c = WaitSlot d fn sz" for c d fn sz
    using sessions_okD(3) [OF R(2) that(1)] that(2) by (simp add: session_ok.simps)
  ultimately show ?thesis
    using R(3,4) by (auto simp: slots_ok_def requests_ok_def request_ok_def)
qed

text \<open>
  In every reachable state in which the processor is in a transfer, its second half tells
  the receiver, then the sender, and nobody else; it records the file for the receiver unless
  the receiver has a file of that name or its table is full; no other client changes, and the
  processor takes the next turn unless the server is shutting down.
\<close>

theorem transfer_completion:
  assumes r: "reachable s" and p: "processor s = Transferring req"
  defines "t \<equiv> processor_finish s" and "rcv \<equiv> clients s ! f_receiver req" and "sdr \<equiv> clients s ! f_sender req"
  shows "(\<exists>es. out t = out s @ es \<and>
      filter (\<lambda>e. case e of Send k m \<Rightarrow> True | _ \<Rightarrow> False) es =
        [Send (c_socket rcv) (snprintf BUFFER_SIZE (''FILE_RECEIVED '' @ fmt_prec 16 (username sdr) @ '' '' @ fmt_prec 256 (f_filename req))),
         Send (c_socket sdr) (snprintf BUFFER_SIZE (''FILE_TRANSFER_COMPLETE '' @ fmt_prec 256 (f_filename req) @ '' ''
           @ fmt_prec 16 (username rcv)))])
    \<and> received_files (clients t ! f_receiver req) =
      (if f_filename req \<in> set (received_files rcv) \<or> MAX_RECEIVED_FILES \<le> length (received_files rcv)
       then received_files rcv else received_files rcv @ [take (BUFFER_SIZE - 1) (f_filename req)])
    \<and> (\<forall>d. d \<noteq> f_receiver req \<longrightarrow> clients t ! d = clients s ! d)
    \<and> processor t = (if server_running s then Idle else Stopped)"
proof (intro conjI)
  have q: "f_receiver req < length (clients s)"
    using reachableD(4,5) [OF r] p by (simp add: requests_ok_def request_ok_def)
  show "\<exists>es. out t = out s @ es \<and>
      filter (\<lambda>e. case e of Send k m \<Rightarrow> True | _ \<Rightarrow> False) es =
        [Send (c_socket rcv) (snprintf BUFFER_SIZE (''FILE_RECEIVED '' @ fmt_prec 16 (username sdr) @ '' '' @ fmt_prec 256 (f_filename req))),
         Send (c_socket sdr) (snprintf BUFFER_SIZE (''FILE_TRANSFER_COMPLETE '' @ fmt_prec 256 (f_filename req) @ '' ''
           @ fmt_prec 16 (username rcv)))]"
    by (simp add: t_def rcv_def sdr_def processor_finish_def p finish_transfer_def Let_def)
  show "received_files (clients t ! f_receiver req) =
      (if f_filename req \<in> set (received_files rcv) \<or> MAX_RECEIVED_FILES \<le> length (received_files rcv)
       then received_files rcv else received_files rcv @ [take (BUFFER_SIZE - 1) (f_filename req)])"
    using q receiver.has_iff [of "f_filename req" rcv] receiver.add_space [of rcv "f_filename req"]
      receiver.add_full [of rcv "f_filename req"]
    by (auto simp: t_def rcv_def processor_finish_def p finish_transfer_def Let_def)
  show "\<forall>d. d \<noteq> f_receiver req \<longrightarrow> clients t ! d = clients s ! d"
    "processor t = (if server_running s then Idle else Stopped)"
    by (simp_all add: t_def processor_finish_def p finish_transfer_def Let_def)
qed

section \<open>Shutdown\<close>

lemma notify_clients_spec:
  "snd (notify_clients cs) = map (\<lambda>cl. cl\<lparr>c_active := False\<rparr>) cs \<and>
   fst (notify_clients cs) = concat (map (\<lambda>cl. [Send (c_socket cl) ''SERVER_SHUTDOWN'', CloseSocket (c_socket cl)])
     (filter c_active cs))"
proof (induction cs)
  case Nil
  then show ?case by simp
next
  case (Cons cl cs)
  have "cl\<lparr>c_active := False\<rparr> = cl" if "\<not> c_active cl" using that by (cases cl) simp
  with Cons show ?case by (cases "notify_clients cs") auto
qed

lemma sent_to_shutdown:
  assumes "distinct (map c_socket cs)"
  shows "sent_to k (concat (map (\<lambda>cl. [Send (c_socket cl) m, CloseSocket (c_socket cl)]) cs))
    = (if k \<in> c_socket ` set cs then [m] else [])"
  using assms by (induction cs) auto

lemma active_sockets_distinct:
  assumes "sockets_ok cs"
  shows "distinct (map c_socket (filter c_active cs))"
  using assms
proof (induction cs rule: rev_induct)
  case Nil
  then show ?case by simp
next
  case (snoc x xs)
  have "sockets_ok xs"
    unfolding sockets_ok_def
  proof (intro allI impI)
    fix i j assume "i < length xs" "j < length xs"
      "c_active (xs ! i) \<and> c_active (xs ! j) \<and> c_socket (xs ! i) = c_socket (xs ! j)"
    then show "i = j"
      using snoc.prems [unfolded sockets_ok_def, rule_format, of i j] by (simp add: nth_append)
  qed
  moreover have "c_socket x \<noteq> c_socket y" if act: "c_active x" "c_active y" and y: "y \<in> set xs" for y
  proof
    assume eq: "c_socket x = c_socket y"
    obtain i where "i < length xs" "y = xs ! i" using y by (auto simp: in_set_conv_nth)
    then show False
      using snoc.prems [unfolded sockets_ok_def, rule_format, of i "length xs"] act eq
      by (simp add: nth_append)
  qed
  ultimately show ?case using snoc.IH by auto
qed

text \<open>
  In every reachable state the shutdown tells each connected client SERVER_SHUTDOWN exactly
  once, closes its socket, and leaves no client connected; nobody else is sent anything.
\<close>

theorem shutdown_notifies_all:
  assumes r: "reachable s"
  shows "\<exists>es. out (shutdown_server s) = out s @ es \<and> \<not> server_running (shutdown_server s)
    \<and> (\<forall>d < MAX_CLIENTS. \<not> c_active (clients (shutdown_server s) ! d))
    \<and> (\<forall>k. sent_to k es =
        (if \<exists>d < MAX_CLIENTS. c_active (clients s ! d) \<and> c_socket (clients s ! d) = k
         then [''SERVER_SHUTDOWN''] else []))
    \<and> (\<forall>d < MAX_CLIENTS. c_active (clients s ! d) \<longrightarrow> CloseSocket (c_socket (clients s ! d)) \<in> set es)"
proof -
  note R = reachableD [OF r]
  let ?N = "concat (map (\<lambda>cl. [Send (c_socket cl) ''SERVER_SHUTDOWN'', CloseSocket (c_socket cl)])
     (filter c_active (clients s)))"
  let ?es = "Log ''SHUTDOWN'' ''SIGINT received. Disconnecting clients, saving logs.'' # ?N
    @ [Print (''[INFO] All clients notified.'' @ nl)]"
  have t: "out (shutdown_server s) = out s @ ?es" "\<not> server_running (shutdown_server s)"
    "clients (shutdown_server s) = map (\<lambda>cl. cl\<lparr>c_active := False\<rparr>) (clients s)"
    using notify_clients_spec [of "clients s"] by (simp_all add: shutdown_server_def Let_def split_def)
  have ex: "k \<in> c_socket ` set (filter c_active (clients s)) \<longleftrightarrow>
      (\<exists>d < MAX_CLIENTS. c_active (clients s ! d) \<and> c_socket (clients s ! d) = k)" for k
    using R(5) by (auto simp: in_set_conv_nth image_iff)
  have "sent_to k ?es = (if \<exists>d < MAX_CLIENTS. c_active (clients s ! d) \<and> c_socket (clients s ! d) = k
         then [''SERVER_SHUTDOWN''] else [])" for k
    using sent_to_shutdown [OF active_sockets_distinct [OF R(7)], of k "''SERVER_SHUTDOWN''"]
    unfolding ex by simp
  moreover have "CloseSocket (c_socket (clients s ! d)) \<in> set ?es"
    if "d < MAX_CLIENTS" "c_active (clients s ! d)" for d
    using that R(5) by simp (rule exI [of _ "clients s ! d"], simp)
  moreover have "\<forall>d < MAX_CLIENTS. \<not> c_active (clients (shutdown_server s) ! d)"
    using R(5) by (simp add: t(3))
  ultimately show ?thesis using t(1,2) by (intro exI [of _ ?es]) blast
qed

end
