(* ===== verification/Chat_Faults.thy ===== *)
theory Chat_Faults
  imports Chat_Properties
begin

text \<open>
  Inputs and schedules on which the chat server does not do what it means to: command lines
  whose handling is undefined, the history of a client that survives in its slot of the
  table after it has left, and the races of its threads.
\<close>

section \<open>Malformed lines\<close>

definition plain :: "string \<Rightarrow> bool" where
  "plain s \<longleftrightarrow> (\<forall>c \<in> set s. c \<noteq> NUL \<and> \<not> isspace c)"

lemma plain_recv [simp]: "plain s \<Longrightarrow> recv_line (s @ t) = s @ recv_line t"
  by (auto simp: recv_line_def plain_def isspace_def LF_def CR_def takeWhile_append)

lemma recv_line_Cons:
  "recv_line (c # s) = (if c \<noteq> NUL \<and> c \<noteq> CR \<and> c \<noteq> LF then c # recv_line s else [])"
  by (simp add: recv_line_def)

lemma char_neqs:
  "CHR '' '' \<noteq> NUL" "CHR '' '' \<noteq> CR" "CHR '' '' \<noteq> LF" "isspace (CHR '' '')"
  by (simp_all add: NUL_def CR_def LF_def isspace_def)

lemma token_plain:
  assumes "plain s" "r = [] \<or> isspace (hd r)"
  shows "takeWhile (\<lambda>c. \<not> isspace c) (s @ r) = s"
  using assms by (cases r) (auto simp: plain_def takeWhile_append)

lemma skip_ws_plain: "plain s \<Longrightarrow> s \<noteq> [] \<Longrightarrow> skip_ws (s @ r) = s @ r"
  by (cases s) (auto simp: plain_def skip_ws_def)

lemma sendfile_args_overflow:
  assumes fn: "plain fn" "fn \<noteq> []" "length fn < BUFFER_SIZE"
    and tgt: "plain tgt" "MAX_USERNAME_LEN < length tgt"
  shows "sendfile_args (fn @ CHR '' '' # tgt) = Inl BufferOverflow"
proof -
  have t: "tgt \<noteq> []" using tgt(2) by auto
  have 1: "takeWhile (\<lambda>c. \<not> isspace c) (fn @ CHR '' '' # tgt) = fn"
    by (rule token_plain) (simp_all add: fn char_neqs)
  have 2: "takeWhile (\<lambda>c. \<not> isspace c) tgt = tgt" using token_plain [OF tgt(1), of "[]"] by simp
  have 3: "skip_ws (CHR '' '' # tgt) = tgt" using skip_ws_plain [OF tgt(1) t, of "[]"] by simp
  have 4: "skip_ws tgt = tgt" using skip_ws_plain [OF tgt(1) t, of "[]"] by simp
  have 5: "skip_ws (fn @ CHR '' '' # tgt) = fn @ CHR '' '' # tgt" by (rule skip_ws_plain [OF fn(1,2)])
  show ?thesis
    using fn tgt t by (simp add: sendfile_args_def Let_def 1 2 3 4 5)
qed

text \<open>
  A logged-in client makes the server dereference NULL with \<open>/whisper\<close> and a name that no
  space follows, and makes it write past the end of the array of the target's name with
  \<open>/sendfile\<close>, any file name and a second word of more than MAX_USERNAME_LEN characters.
\<close>

theorem malformed_lines_undefined:
  assumes "threads s ! c = Commands"
    and "plain name" and "plain fn" "fn \<noteq> []" "length fn < BUFFER_SIZE"
    and "plain tgt" "MAX_USERNAME_LEN < length tgt"
  shows "server_step (Recv c (''/whisper '' @ name) now) s = Inl NullDeref
    \<and> server_step (Recv c (''/sendfile '' @ fn @ '' '' @ tgt) now) s = Inl BufferOverflow"
proof -
  have nul: "recv_line [] = []" by (simp add: recv_line_def)
  have nm: "recv_line name = name" "recv_line tgt = tgt"
    using plain_recv [of name "[]"] plain_recv [of tgt "[]"] assms nul by simp_all
  have "recv_line (''/whisper '' @ name) = ''/whisper '' @ name"
    using nm by (simp add: recv_line_Cons NUL_def CR_def LF_def)
  moreover have "recv_line (''/sendfile '' @ fn @ '' '' @ tgt) = ''/sendfile '' @ fn @ '' '' @ tgt"
    using nm assms by (simp add: recv_line_Cons NUL_def CR_def LF_def)
  moreover have "strchr name (CHR '' '') = None"
    using assms(2) char_neqs(4) by (auto simp: strchr_None plain_def)
  ultimately show ?thesis
    using assms(1) sendfile_args_overflow [OF assms(3-7)]
    by (simp add: command_step_def Let_def starts_with_def cmd_whisper_def cmd_sendfile_def)
qed

section \<open>The history of a slot\<close>

text \<open>
  bob joins room a and leaves the server; eve connects into his slot of the table; carol
  connects and joins room a; then eve joins room a for the first time.
\<close>

definition slot_reuse :: "event list" where
  "slot_reuse =
     [Accept 7 ''10.0.0.1'' True, Recv 0 ''bob'' 0, Recv 0 ''/join a'' 0, Recv 0 ''/exit'' 0,
      Accept 7 ''10.0.0.2'' True, Recv 0 ''eve'' 0,
      Accept 8 ''10.0.0.3'' True, Recv 1 ''carol'' 0, Recv 1 ''/join a'' 0,
      Recv 0 ''/join a'' 0]"

text \<open>
  A client that connects into the slot of a client that has left inherits its history of
  rooms: after the schedule above carol is told that eve has rejoined room a, although eve
  was never in it before.
\<close>

theorem slot_reuse_rejoins:
  "sent_to 8 (out (after slot_reuse)) = [''WELCOME'', ''JOIN_ROOM a'', ''USER_REJOINED eve a'']"
  by code_simp

section \<open>Races\<close>

text \<open>
  Places of the chat server where a decision and the action that relies on it are in different
  critical sections, or where an action is done twice: what other threads do in between.
\<close>

section \<open>The check for space and the entry into the room\<close>

text \<open>
  The first critical section of \<open>/join\<close>: whether it goes on to \<open>join_room\<close>, which is a critical
  section of its own.
\<close>

definition room_full_check :: "string \<Rightarrow> server \<Rightarrow> bool" where
  "room_full_check room_name s =
     (case find_room room_name s of
        Some i \<Rightarrow> MAX_USERS_PER_ROOM \<le> user_count (rooms s ! i)
      | None \<Rightarrow> False)"

lemma cmd_join_check:
  "is_valid_room_name r \<Longrightarrow> current_room (clients s ! c) \<noteq> r \<Longrightarrow> \<not> room_full_check r s \<Longrightarrow>
    cmd_join c r s = rbind (join_room c r s) (\<lambda>(s1, joined).
      Inr (if joined then send_to_client (c_socket (clients s ! c)) (''JOIN_ROOM '' @ fmt_prec 32 r) s1
           else send_to_client (c_socket (clients s ! c)) ''INVALID_ROOM'' s1))"
  by (simp add: cmd_join_def Let_def room_full_check_def)

lemma join_room_no_room:
  "current_room (clients s ! c) = [] \<Longrightarrow>
    join_room c r s = enter_room c r (list_ex (\<lambda>p. p = r) (previously_joined_rooms (clients s ! c))) False [] s"
  by (simp add: join_room_def Let_def)

text \<open>
  Two clients that join a room with one place left and are both past the check before either
  has entered overflow the array of users: the check of both passes, the first enters as the
  fifteenth user, and the second is stored one past the end of \<open>users\<close>.
\<close>

theorem join_check_race:
  assumes r: "reachable s" and c: "c < MAX_CLIENTS" "threads s ! c = Commands" "current_room (clients s ! c) = []"
    and d: "d < MAX_CLIENTS" "threads s ! d = Commands" "current_room (clients s ! d) = []" "c \<noteq> d"
    and n: "find_room n s = Some i" "user_count (rooms s ! i) = MAX_USERS_PER_ROOM - 1"
  shows "\<not> room_full_check n s \<and>
    (\<exists>t. join_room c n s = Inr (t, True) \<and> join_room d n t = Inl OutOfBounds)"
proof -
  note R = reachableD [OF r]
  have act: "c_active (clients s ! c)" using thread_active [OF r c(1)] c(2) by simp
  note I = find_room_Some [OF n(1)]
  have sp: "user_count (rooms s ! j) < MAX_USERS_PER_ROOM" if "find_room n s = Some j" for j
    using that n by (simp add: c_limits)
  have v: "is_valid_room_name n"
    using membership_okD(6) [OF R(1), of i] I by (auto simp: room_ok_def)
  from enter_room_spec [OF R(1,7) c(1) act c(3) sp] n(1)
  obtain t rej where t: "join_room c n s = Inr (t, True)" "clients t = (clients s)[c := joined_client rej n (clients s ! c)]"
    "\<exists>k ms rm'. entered c n s k ms rm' \<and> rooms t = (rooms s)[k := rm']"
    unfolding join_room_no_room [OF c(3)] by fastforce
  then obtain k ms rm' where e: "entered c n s k ms rm'" and rt: "rooms t = (rooms s)[k := rm']" by blast
  have k: "k = i"
    using e I n(1) active_unique [OF membership_okD(2) [OF R(1)], of k i]
    by (auto simp: entered_def split: if_splits)
  have rm: "user_count rm' = MAX_USERS_PER_ROOM" "length (users rm') = MAX_USERS_PER_ROOM"
    "r_name rm' = n" "r_active rm'"
    using e n(2) k I length_members [OF membership_okD(6) [OF R(1)], of i]
    by (auto simp: entered_def c_limits)
  have same: "(r_active (rooms t ! j) \<and> r_name (rooms t ! j) = n) = (r_active (rooms s ! j) \<and> r_name (rooms s ! j) = n)"
    if "j < length (rooms s)" for j
    using that rt k rm I by (cases "j = i") auto
  have "find_room n t = Some i"
    using n(1) same rt k I rm unfolding find_room_def first_index_Some by auto
  moreover have "rooms t ! i = rm'" using rt k I by simp
  moreover have "current_room (clients t ! d) = []" using t(2) d by simp
  ultimately have "join_room d n t = Inl OutOfBounds"
    using rm by (simp add: join_room_no_room enter_room_def add_to_room_def Let_def wr_out)
  with t(1) n sp show ?thesis by (auto simp: room_full_check_def c_limits)
qed

section \<open>Cleaning up twice\<close>

text \<open>
  When a connection is lost the thread calls \<open>cleanup_client\<close> in the loop and again after it.
  If a new connection is accepted into the freed slot in between, the second call disconnects
  the newcomer: it closes its socket and marks it inactive.
\<close>

theorem double_cleanup_race:
  assumes r: "reachable s" and c: "c < MAX_CLIENTS" "threads s ! c = Commands"
    and first: "\<forall>d < c. c_active (clients s ! d)" and sock: "sock \<noteq> -1"
  shows "\<exists>t u v es. cleanup_client c s = Inr t \<and> accept_client sock addr True t = Inr u
    \<and> c_active (clients u ! c) \<and> c_socket (clients u ! c) = sock
    \<and> cleanup_client c u = Inr v \<and> out v = out u @ es
    \<and> CloseSocket sock \<in> set es \<and> \<not> c_active (clients v ! c)"
proof -
  note R = reachableD [OF r]
  have act: "c_active (clients s ! c)" using thread_active [OF r c(1)] c(2) by simp
  have cc: "c < length (clients s)" using c R(5) by simp
  obtain t where t: "cleanup_client c s = Inr t"
    "clients t = (clients s)[c := (clients s ! c)\<lparr>c_active := False, username := [], current_room := []\<rparr>]"
    using cleanup_fields [OF R(1) c(1) act] by blast
  have fi: "first_index (\<lambda>cl. \<not> c_active cl) (clients t) = Some c"
    unfolding first_index_Some using t(2) cc first by auto
  let ?u = "set_thread c Login (upd_client c (\<lambda>cl. cl\<lparr>c_socket := sock, c_active := True, c_address := addr,
     username := [], current_room := []\<rparr>) t\<lparr>client_count := client_count t + 1\<rparr>)"
  have u: "accept_client sock addr True t = Inr ?u"
    by (simp add: accept_client_def fi Let_def)
  have uc: "c_active (clients ?u ! c)" "c_socket (clients ?u ! c) = sock" "current_room (clients ?u ! c) = []"
    using t(2) cc by simp_all
  obtain v es where v: "cleanup_client c ?u = Inr v" "out v = out ?u @ es" "CloseSocket sock \<in> set es"
    "\<not> c_active (clients v ! c)"
    using uc sock t(2) cc by (simp add: cleanup_client_def Let_def)
  with t(1) u uc show ?thesis by blast
qed

end
