(* ===== verification/Chat_Witnesses.thy ===== *)
theory Chat_Witnesses
  imports Chat_Faults
begin

text \<open>
  Concrete schedules of the chat server on which the properties of \<open>Chat_Properties\<close> and
  \<open>Chat_Faults\<close> are applied.
\<close>

text \<open>bob and eve have logged in and are in room a; carol has logged in and is in no room.\<close>

definition party_events :: "event list" where
  "party_events =
     [Accept 7 ''10.0.0.1'' True, Recv 0 ''bob'' 0, Accept 8 ''10.0.0.2'' True, Recv 1 ''eve'' 0,
      Accept 9 ''10.0.0.3'' True, Recv 2 ''carol'' 0, Recv 0 ''/join a'' 0, Recv 1 ''/join a'' 0]"

definition party :: server where
  "party = after party_events"

lemma party_reachable: "reachable party"
  by (simp add: party_def reachable_after)

definition client_view :: "server \<Rightarrow> nat \<Rightarrow> thread_pc \<times> bool \<times> int \<times> string \<times> string \<times> string list" where
  "client_view s c = (let cl = clients s ! c in
     (threads s ! c, c_active cl, c_socket cl, username cl, current_room cl, previously_joined_rooms cl))"

definition server_view :: "server \<Rightarrow> nat option \<times> nat \<times> nat option \<times> nat \<times> nat \<times> file_request list \<times> bool \<times> bool" where
  "server_view s = (find_room ''a'' s, user_count (rooms s ! 0), find_client_by_username ''eve'' s,
     empty_slots s, queue_size s, pending s, server_running s, list_ex (\<lambda>rm. \<not> r_active rm) (rooms s))"

definition views :: "server \<Rightarrow> (thread_pc \<times> bool \<times> int \<times> string \<times> string \<times> string list) list
    \<times> nat option \<times> nat \<times> nat option \<times> nat \<times> nat \<times> file_request list \<times> bool \<times> bool" where
  "views s = (map (client_view s) [0, 1, 2, 3], server_view s)"

lemma party_views:
  "views party = ([(Commands, True, 7, ''bob'', ''a'', [''a'']), (Commands, True, 8, ''eve'', ''a'', [''a'']),
     (Commands, True, 9, ''carol'', [], []), (NoThread, False, 0, [], [], [])],
     Some 0, 2, Some 1, 5, 0, [], True, True)"
  by code_simp

lemma party_facts:
  "threads party ! 0 = Commands" "threads party ! 2 = Commands"
  "c_active (clients party ! 0)" "c_active (clients party ! 1)" "c_active (clients party ! 2)"
  "c_socket (clients party ! 0) = 7" "c_socket (clients party ! 1) = 8" "c_socket (clients party ! 2) = 9"
  "username (clients party ! 0) = ''bob''" "username (clients party ! 1) = ''eve''" "username (clients party ! 2) = ''carol''"
  "current_room (clients party ! 0) = ''a''" "current_room (clients party ! 1) = ''a''"
  "current_room (clients party ! 2) = []" "previously_joined_rooms (clients party ! 2) = []"
  "find_room ''a'' party = Some 0" "user_count (rooms party ! 0) = 2" "find_client_by_username ''eve'' party = Some 1"
  "empty_slots party = 5" "queue_size party = 0" "pending party = []" "server_running party"
  using party_views by (simp_all add: views_def client_view_def server_view_def Let_def)

text \<open>bob sends a file to eve and the processor has taken the request; a fresh connection.\<close>

definition sending :: server where
  "sending = after [Accept 7 ''10.0.0.1'' True, Recv 0 ''bob'' 0, Accept 8 ''10.0.0.2'' True, Recv 1 ''eve'' 0,
     Recv 0 ''/sendfile f.txt eve 10'' 5, ProcessorTake 7]"

lemma sending_reachable: "reachable sending"
  by (simp add: sending_def reachable_after)

definition transfer_view :: "server \<Rightarrow> processor_pc \<times> string list" where
  "transfer_view s = (processor s, received_files (clients s ! 1))"

lemma sending_view:
  "transfer_view sending = (Transferring (new_request 0 1 ''f.txt'' 10 5), [])"
  by code_simp

lemma sending_facts:
  "processor sending = Transferring (new_request 0 1 ''f.txt'' 10 5)" "received_files (clients sending ! 1) = []"
  using sending_view by (simp_all add: transfer_view_def)

definition fresh :: server where
  "fresh = after [Accept 7 ''10.0.0.1'' True]"

lemma fresh_reachable: "reachable fresh"
  by (simp add: fresh_def reachable_after)

lemma fresh_views:
  "views fresh = ([(Login, True, 7, [], [], []), (NoThread, False, 0, [], [], []),
     (NoThread, False, 0, [], [], []), (NoThread, False, 0, [], [], [])],
     None, 0, None, 5, 0, [], True, True)"
  by code_simp

lemma fresh_facts:
  "threads fresh ! 0 = Login" "c_socket (clients fresh ! 0) = 7" "server_running fresh"
  using fresh_views by (simp_all add: views_def client_view_def server_view_def Let_def)

lemma limits: "0 < MAX_CLIENTS" "1 < MAX_CLIENTS" "2 < MAX_CLIENTS" "0 < MAX_ROOMS"
  by (simp_all add: c_limits)

lemma usernames_valid_fresh:
  "\<forall>d < MAX_CLIENTS. c_active (clients fresh ! d) \<longrightarrow> username (clients fresh ! d) \<noteq> ''bob''"
proof -
  have "\<not> username_taken ''bob'' fresh" by code_simp
  then show ?thesis
    using reachableD(5) [OF fresh_reachable] by (auto simp: username_taken_def list_ex_length)
qed

lemma spec_three:
  "\<forall>d < MAX_CLIENTS. P d \<Longrightarrow> P 0 \<and> P 1 \<and> P 2"
  using limits by blast

section \<open>Witnesses\<close>



theorem rooms_bounded_witness: "room_count party = int (length (filter r_active (rooms party)))"
  using rooms_bounded [OF party_reachable] by blast

theorem usernames_unique_witness: "username (clients party ! 0) \<noteq> username (clients party ! 1)"
  using usernames_unique [OF party_reachable] party_facts(9) limits(1,2) by (metis list.distinct(1) zero_neq_one)

theorem broadcast_delivery_witness:
  "\<exists>t es. cmd_broadcast 0 ''hi'' party = Inr t \<and> sent_to 7 es = [''MESSAGE_BROADCASTED''] \<and>
    sent_to 8 es = [''CHAT_MESSAGE [a] bob: hi''] \<and> sent_to 9 es = []"
proof -
  have "broadcast_text (clients party ! 0) ''hi'' = ''CHAT_MESSAGE [a] bob: hi''"
    by (simp add: broadcast_text_def party_facts snprintf_def fmt_prec_def c_limits)
  with broadcast_delivery [OF party_reachable limits(1) party_facts(1), of "''hi''"] show ?thesis
    by (auto simp: party_facts simp del: One_nat_def dest!: spec_three)
qed

theorem leave_delivery_witness:
  "\<exists>t es. cmd_leave 0 party = Inr t \<and> sent_to 7 es = [''LEAVE_ROOM''] \<and>
    sent_to 8 es = [''USER_LEFT bob a''] \<and> sent_to 9 es = []"
  using leave_delivery [OF party_reachable limits(1) party_facts(1)]
  by (auto simp: party_facts leave_msg_def fmt_prec_def simp del: One_nat_def dest!: spec_three)


theorem whisper_delivery_witness:
  "\<exists>es. cmd_whisper 0 (''eve'' @ '' '' @ ''psst'') party = Inr (emit es party) \<and>
    sent_to 7 es = [''WHISPER_SENT eve''] \<and> sent_to 8 es = [''WHISPER_MESSAGE bob psst''] \<and> sent_to 9 es = []"
proof -
  have t: "take MAX_USERNAME_LEN ''eve'' = ''eve''" by (simp add: c_limits)
  have m: "snprintf BUFFER_SIZE (''WHISPER_SENT '' @ ''eve'') = ''WHISPER_SENT eve''"
    "snprintf BUFFER_SIZE (''WHISPER_MESSAGE '' @ ''bob'' @ '' '' @ ''psst'') = ''WHISPER_MESSAGE bob psst''"
    by (simp_all add: snprintf_def c_limits)
  have e: "\<not> (\<forall>e < MAX_CLIENTS. c_active (clients party ! e) \<longrightarrow> username (clients party ! e) \<noteq> ''eve'')"
    using limits(2) party_facts(4,10) by blast
  from whisper_delivery [OF party_reachable limits(1) party_facts(1), of "''eve''" "''psst''"]
  obtain es where "cmd_whisper 0 (''eve'' @ '' '' @ ''psst'') party = Inr (emit es party)"
    "\<forall>d < MAX_CLIENTS. c_active (clients party ! d) \<longrightarrow>
      sent_to (c_socket (clients party ! d)) es = (if d = 0 then [''WHISPER_SENT eve'']
        else if username (clients party ! d) = ''eve'' then [''WHISPER_MESSAGE bob psst''] else [])"
    unfolding t party_facts(9) m if_not_P [OF e] by auto
  then show ?thesis
    by (auto simp: party_facts simp del: One_nat_def dest!: spec_three)
qed

theorem login_decision_witness:
  "\<exists>t es. login_step 0 ''bob'' fresh = Inr t \<and> threads t ! 0 = Commands \<and> sent_to 7 es = [''WELCOME'']"
proof -
  have b: "recv_line ''bob'' = ''bob''" by code_simp
  have v: "is_valid_username ''bob''" by code_simp
  have free: "\<forall>d < MAX_CLIENTS. c_active (clients fresh ! d) \<longrightarrow> username (clients fresh ! d) \<noteq> ''bob''"
    using usernames_valid_fresh .
  have len: "length (threads fresh) = MAX_CLIENTS"
    using sessions_okD(2) [OF reachableD(2) [OF fresh_reachable]] .
  show ?thesis
    using login_decision [OF fresh_reachable limits(1) fresh_facts(1,3), of "''bob''"] v free len
    by (auto simp: b fresh_facts limits)
qed

theorem file_request_decision_witness:
  "\<exists>es. out (handle_file_transfer 0 ''f.txt'' ''eve'' 10 5 party) = out party @ es \<and>
    sent_to 7 es = [''FILE_QUEUED 1'']"
proof -
  have e: "has_valid_extension ''f.txt''" by code_simp
  have q: "snprintf BUFFER_SIZE (''FILE_QUEUED '' @ fmt_d (int (0 + 1))) = ''FILE_QUEUED 1''" by code_simp
  from file_request_decision [OF party_reachable limits(1) party_facts(1), of "''f.txt''" "''eve''" 10 5]
  show ?thesis
    unfolding valid_extension_iff [symmetric] party_facts q using e by auto
qed

theorem file_queue_fifo_witness:
  "[new_request 0 1 ''f.txt'' 10 5] @ pending (snd (snd (fifo_run queue_push queue_pop
      (\<lambda>s. queue_size s = MAX_FILE_QUEUE) (\<lambda>s. queue_size s = 0)
      [PutOp (new_request 0 1 ''f.txt'' 10 5), PutOp (new_request 1 0 ''g.txt'' 10 6), GetOp] (init_server 3))))
    = [new_request 0 1 ''f.txt'' 10 5, new_request 1 0 ''g.txt'' 10 6]"
proof -
  let ?r = "fifo_run queue_push queue_pop
      (\<lambda>s. queue_size s = MAX_FILE_QUEUE) (\<lambda>s. queue_size s = 0)
      [PutOp (new_request 0 1 ''f.txt'' 10 5), PutOp (new_request 1 0 ''g.txt'' 10 6), GetOp] (init_server 3)"
  have "?r = ([new_request 0 1 ''f.txt'' 10 5],
      [new_request 0 1 ''f.txt'' 10 5, new_request 1 0 ''g.txt'' 10 6], snd (snd ?r))"
    by (simp add: queue_push_def queue_pop_def init_server_def c_limits Let_def)
  from file_queue_fifo [OF this] show ?thesis by blast
qed

theorem slots_accounted_witness: "empty_slots party + length (pending party) = MAX_FILE_QUEUE"
  using slots_accounted [OF party_reachable] by blast

theorem transfer_completion_witness:
  "received_files (clients (processor_finish sending) ! 1) = [''f.txt'']"
  using transfer_completion [OF sending_reachable sending_facts(1)] sending_facts(2)
  by (simp add: new_request_def c_limits)

theorem shutdown_notifies_all_witness:
  "\<exists>es. out (shutdown_server party) = out party @ es \<and> sent_to 8 es = [''SERVER_SHUTDOWN'']"
  using shutdown_notifies_all [OF party_reachable] limits(2) party_facts(4,7) by (metis (no_types, lifting))

theorem malformed_lines_undefined_witness:
  "server_step (Recv 0 (''/whisper '' @ ''eve'') 0) party = Inl NullDeref \<and>
   server_step (Recv 0 (''/sendfile '' @ ''f.txt'' @ '' '' @ ''aaaaaaaaaaaaaaaaa'') 0) party = Inl BufferOverflow"
  by (rule malformed_lines_undefined [OF party_facts(1)]) code_simp+

end
