(* ===== verification/Chat_Crowd.thy ===== *)
theory Chat_Crowd
  imports Chat_Witnesses
begin

text \<open>
  States in which the races of \<open>Chat_Faults\<close> happen: a reachable state with one place left in a
  room and two clients about to join it, built by induction over the clients that arrive, and
  a client whose connection is lost.
\<close>

section \<open>A room that fills up\<close>

definition guest_name :: "nat \<Rightarrow> string" where
  "guest_name d = replicate (Suc d) (CHR ''u'')"

text \<open>\<open>k\<close> clients have logged in; the first \<open>m\<close> of them are in room a.\<close>

definition crowd :: "nat \<Rightarrow> nat \<Rightarrow> server \<Rightarrow> bool" where
  "crowd m k s \<longleftrightarrow> reachable s \<and> server_running s \<and>
     (\<forall>d < MAX_CLIENTS. (c_active (clients s ! d) \<longleftrightarrow> d < k) \<and>
        (d < k \<longrightarrow> c_socket (clients s ! d) = int d \<and> username (clients s ! d) = guest_name d \<and> threads s ! d = Commands) \<and>
        current_room (clients s ! d) = (if d < m then ''a'' else []))"

lemma guest_valid: "d < MAX_USERNAME_LEN \<Longrightarrow> is_valid_username (guest_name d)"
  by (auto simp: valid_username_iff guest_name_def isalnum_def Let_def)

lemma guest_line: "recv_line (guest_name d) = guest_name d"
  by (auto simp: recv_line_def guest_name_def NUL_def CR_def LF_def takeWhile_eq_all_conv)

lemma valid_a: "is_valid_room_name ''a''"
  by code_simp

lemma crowd_arrives:
  assumes s: "crowd m k s" and k: "k < MAX_USERNAME_LEN" "m \<le> k"
  shows "\<exists>t. crowd m (Suc k) t"
proof -
  have r: "reachable s" and run: "server_running s" using s by (auto simp: crowd_def)
  note R = reachableD [OF r]
  have kc: "k < MAX_CLIENTS" "k < length (clients s)" "k < length (threads s)"
    using k R(5) sessions_okD(2) [OF R(2)] by (auto simp: c_limits)
  have fi: "first_index (\<lambda>cl. \<not> c_active cl) (clients s) = Some k"
    unfolding first_index_Some using s kc R(5) by (auto simp: crowd_def)
  let ?x = "\<lambda>cl. cl\<lparr>c_socket := int k, c_active := True, c_address := [], username := [], current_room := []\<rparr>"
  let ?s1 = "set_thread k Login (upd_client k ?x s\<lparr>client_count := client_count s + 1\<rparr>)"
  have acc: "server_step (Accept (int k) [] True) s = Inr ?s1"
    by (simp add: accept_client_def fi Let_def)
  have "enabled (Accept (int k) [] True) s"
    using s R(5) by (auto simp: crowd_def list_all_length)
  from reachable.step [OF r this acc] have r1: "reachable ?s1" .
  have free: "\<not> username_taken (guest_name k) ?s1"
    using s R(5) kc by (auto simp: username_taken_def list_ex_length crowd_def nth_list_update guest_name_def)
  obtain es where login: "server_step (Recv k (guest_name k) 0) ?s1 =
      Inr (emit es (set_thread k Commands (upd_client k (\<lambda>x. x\<lparr>username := guest_name k\<rparr>) ?s1)))"
    using guest_valid [OF k(1)] free run kc by (auto simp: login_step_def Let_def guest_line resume_def)
  have "enabled (Recv k (guest_name k) 0) ?s1"
    using kc k by (simp add: guest_name_def c_limits)
  from reachable.step [OF r1 this login] s kc k R(5) run
  have "crowd m (Suc k) (emit es (set_thread k Commands (upd_client k (\<lambda>x. x\<lparr>username := guest_name k\<rparr>) ?s1)))"
    by (auto simp: crowd_def nth_list_update)
  then show ?thesis by blast
qed

lemma crowd_room:
  assumes s: "crowd m k s" and m: "m \<le> MAX_CLIENTS" and i: "find_room ''a'' s = Some i"
  shows "user_count (rooms s ! i) = m"
proof -
  have r: "reachable s" using s by (simp add: crowd_def)
  note R = reachableD [OF r] and D = membership_okD [OF reachableD(1) [OF r]]
  note I = find_room_Some [OF i]
  have rok: "room_ok (clients s) (rooms s ! i)" using D(6) I by simp
  have "d \<in> set (members (rooms s ! i)) \<longleftrightarrow> d < m" for d
  proof (cases "d < MAX_CLIENTS")
    case True
    then have "current_room (clients s ! d) = (if d < m then ''a'' else [])" using s by (simp add: crowd_def)
    then show ?thesis using members_iff [OF D(2,3), of i d] I True R(5) by simp
  next
    case False
    then show ?thesis using membersD(1) [OF rok, of d] I R(5) m by auto
  qed
  then have "set (members (rooms s ! i)) = {..<m}" by auto
  moreover have "distinct (members (rooms s ! i))" using rok I by (simp add: room_ok_def)
  ultimately have "length (members (rooms s ! i)) = m" by (metis card_lessThan distinct_card)
  then show ?thesis using length_members [OF rok] by simp
qed

lemma crowd_joins:
  assumes s: "crowd m (Suc m) s" and m: "m < MAX_USERS_PER_ROOM"
  shows "\<exists>t. crowd (Suc m) (Suc m) t"
proof -
  have r: "reachable s" and run: "server_running s" using s by (auto simp: crowd_def)
  note R = reachableD [OF r]
  have mc: "m < MAX_CLIENTS" "m < length (clients s)" using m R(5) by (simp_all add: c_limits)
  have c: "threads s ! m = Commands" "c_active (clients s ! m)" "current_room (clients s ! m) = []"
    using s mc by (auto simp: crowd_def)
  have sp: "user_count (rooms s ! i) < MAX_USERS_PER_ROOM" if "find_room ''a'' s = Some i" for i
    using crowd_room [OF s _ that] m mc by simp
  have some: "\<not> (find_room ''a'' s = None \<and> (\<forall>rm \<in> set (rooms s). r_active rm))"
  proof
    assume a: "find_room ''a'' s = None \<and> (\<forall>rm \<in> set (rooms s). r_active rm)"
    let ?rm = "rooms s ! 0"
    have z: "0 < length (rooms s)" using R(6) by (simp add: c_limits)
    with a have act: "r_active ?rm" by simp
    have rok: "room_ok (clients s) ?rm" using membership_okD(6) [OF R(1) z] .
    with act have "members ?rm \<noteq> []" by (simp add: room_ok_def)
    then obtain d where d: "d \<in> set (members ?rm)" by (meson list.set_sel(1))
    have "r_name ?rm \<noteq> []" using rok act by (auto simp: room_ok_def)
    with membersD [OF rok act d] s R(5) have "r_name ?rm = ''a''" by (auto simp: crowd_def split: if_splits)
    with find_room_eq [OF membership_okD(2) [OF R(1)] z act] a show False by simp
  qed
  let ?rej = "list_ex (\<lambda>p. p = ''a'') (previously_joined_rooms (clients s ! m))"
  from enter_room_spec [OF R(1,7) mc(1) c(2,3) sp, where rejoining = ?rej and was = False and old = "[]"] some
  obtain rs n es where E: "enter_room m ''a'' ?rej False [] s =
      Inr (emit es (upd_client m (joined_client ?rej ''a'') (s\<lparr>rooms := rs, room_count := n\<rparr>)), True)"
    by blast
  have chk: "\<not> room_full_check ''a'' s" using sp by (auto simp: room_full_check_def split: option.splits)
  have line: "recv_line ''/join a'' = ''/join a''" by code_simp
  obtain fs where J: "server_step (Recv m ''/join a'' 0) s =
      Inr (emit fs (upd_client m (joined_client ?rej ''a'') (s\<lparr>rooms := rs, room_count := n\<rparr>)))"
    using E c run mc by (simp add: command_step_def line starts_with_def cmd_join_check [OF valid_a _ chk]
      join_room_no_room output_defs resume_def Let_def)
  have "enabled (Recv m ''/join a'' 0) s" using mc c by (simp add: c_limits)
  from reachable.step [OF r this J] s mc run R(5)
  have "crowd (Suc m) (Suc m) (emit fs (upd_client m (joined_client ?rej ''a'') (s\<lparr>rooms := rs, room_count := n\<rparr>)))"
    by (auto simp: crowd_def nth_list_update fmt_prec_def c_limits)
  then show ?thesis by blast
qed

lemma crowd_fills: "m \<le> MAX_USERS_PER_ROOM \<Longrightarrow> \<exists>s. crowd m m s"
proof (induction m)
  case 0
  have "crowd 0 0 (init_server 3)"
    by (auto simp: crowd_def intro: reachable.start) (simp_all add: init_server_def zero_client_def)
  then show ?case by blast
next
  case (Suc m)
  then obtain s where "crowd m m s" by auto
  with crowd_arrives [of m m s] Suc.prems obtain t where "crowd m (Suc m) t" by (auto simp: c_limits)
  with crowd_joins [of m t] Suc.prems show ?case by auto
qed

lemma crowd_found:
  assumes s: "crowd m k s" and m: "0 < m" "m \<le> MAX_CLIENTS"
  shows "\<exists>i. find_room ''a'' s = Some i \<and> user_count (rooms s ! i) = m"
proof -
  have "reachable s" "current_room (clients s ! 0) = ''a''" using s m by (auto simp: crowd_def c_limits)
  with current_room_found [of s 0] limits(1) crowd_room [OF s m(2)] show ?thesis by auto
qed

lemma crowd_fourteen: "\<exists>s. crowd 14 16 s"
proof -
  obtain s where s: "crowd 14 14 s" using crowd_fills [of 14] by (auto simp: c_limits)
  obtain t where "crowd 14 (Suc 14) t" using crowd_arrives [OF s] by (auto simp: c_limits)
  from crowd_arrives [OF this] show ?thesis by (simp add: c_limits numeral_eq_Suc)
qed

section \<open>Witnesses\<close>

theorem join_check_race_witness:
  "\<exists>s. reachable s \<and> \<not> room_full_check ''a'' s \<and>
    (\<exists>t. join_room 14 ''a'' s = Inr (t, True) \<and> join_room 15 ''a'' t = Inl OutOfBounds)"
proof -
  obtain s where s: "crowd 14 16 s" using crowd_fourteen by blast
  obtain i where i: "find_room ''a'' s = Some i" "user_count (rooms s ! i) = MAX_USERS_PER_ROOM - 1"
    using crowd_found [OF s] by (auto simp: c_limits)
  have r: "reachable s" using s by (simp add: crowd_def)
  have l: "(14::nat) < MAX_CLIENTS" "(15::nat) < MAX_CLIENTS" "(14::nat) \<noteq> 15" by (simp_all add: c_limits)
  have "threads s ! 14 = Commands" "current_room (clients s ! 14) = []"
    "threads s ! 15 = Commands" "current_room (clients s ! 15) = []"
    using s l by (simp_all add: crowd_def)
  with join_check_race [OF r l(1) _ _ l(2) _ _ l(3) i] r show ?thesis by blast
qed

theorem double_cleanup_race_witness:
  "\<exists>t u v es. cleanup_client 0 party = Inr t \<and> accept_client 11 ''10.0.0.9'' True t = Inr u
    \<and> cleanup_client 0 u = Inr v \<and> out v = out u @ es \<and> CloseSocket 11 \<in> set es"
  using double_cleanup_race [OF party_reachable limits(1) party_facts(1), of 11 "''10.0.0.9''"] by auto

end
