(* ===== verification/Chat_Locks.thy ===== *)
theory Chat_Locks
  imports C_Base
begin

text \<open>
  The order in which the functions of the chat server take its four mutexes. The mutex
  operations of each function are the list of its calls of \<open>pthread_mutex_lock\<close> and
  \<open>pthread_mutex_unlock\<close>, with the branches as arguments; threads interleave freely.
\<close>

section \<open>Threads and locks\<close>

datatype lock = Rooms_mutex | Clients_mutex | Queue_mutex | Log_mutex

datatype lock_op = Acq lock | Rel lock

type_synonym lock_thread = "lock list \<times> lock_op list"

text \<open>A thread is the locks it holds and the operations it has still to do.\<close>

definition lock_free :: "lock \<Rightarrow> lock_thread list \<Rightarrow> bool" where
  "lock_free l ts \<longleftrightarrow> list_all (\<lambda>t. l \<notin> set (fst t)) ts"

fun thread_step :: "lock_thread list \<Rightarrow> nat \<Rightarrow> lock_thread list option" where
  "thread_step ts i =
     (if i < length ts then
        (case ts ! i of
           (held, []) \<Rightarrow> None
         | (held, Acq l # ops) \<Rightarrow> if lock_free l ts then Some (ts[i := (l # held, ops)]) else None
         | (held, Rel l # ops) \<Rightarrow> Some (ts[i := (remove1 l held, ops)]))
      else None)"

declare thread_step.simps [simp del]

inductive lock_reach :: "lock_thread list \<Rightarrow> lock_thread list \<Rightarrow> bool" where
  refl: "lock_reach ts ts"
| step: "lock_reach ts us \<Longrightarrow> thread_step us i = Some vs \<Longrightarrow> lock_reach ts vs"

definition deadlocked :: "lock_thread list \<Rightarrow> bool" where
  "deadlocked ts \<longleftrightarrow> (\<exists>t \<in> set ts. snd t \<noteq> []) \<and> (\<forall>i < length ts. thread_step ts i = None)"

definition start_threads :: "lock_op list list \<Rightarrow> lock_thread list" where
  "start_threads ps = map (\<lambda>p. ([], p)) ps"

section \<open>The mutex operations of the functions\<close>

definition log_event_locks :: "lock_op list" where
  "log_event_locks = [Acq Log_mutex, Rel Log_mutex]"

definition find_client_locks :: "lock_op list" where
  "find_client_locks = [Acq Clients_mutex, Rel Clients_mutex]"

definition broadcast_to_room_locks :: "bool \<Rightarrow> lock_op list" where
  "broadcast_to_room_locks found =
     [Acq Rooms_mutex] @ (if found then find_client_locks else []) @ [Rel Rooms_mutex]"

definition leave_room_locks :: "bool \<Rightarrow> lock_op list" where
  "leave_room_locks notified =
     [Acq Rooms_mutex, Rel Rooms_mutex] @ log_event_locks @ (if notified then log_event_locks else [])"

definition join_room_locks :: "bool \<Rightarrow> bool \<Rightarrow> bool \<Rightarrow> bool \<Rightarrow> lock_op list" where
  "join_room_locks was left_notified created notified =
     [Acq Clients_mutex, Rel Clients_mutex] @ (if was then leave_room_locks left_notified else [])
     @ [Acq Rooms_mutex, Rel Rooms_mutex]
     @ (if created then log_event_locks @ (if notified then log_event_locks else []) else [])"

definition cleanup_client_locks :: "bool \<Rightarrow> bool \<Rightarrow> bool \<Rightarrow> lock_op list" where
  "cleanup_client_locks inside notified lost =
     [Acq Clients_mutex] @ (if inside then leave_room_locks notified else [])
     @ (if lost then log_event_locks else []) @ [Rel Clients_mutex]"

definition add_to_file_queue_locks :: "lock_op list" where
  "add_to_file_queue_locks = [Acq Queue_mutex] @ log_event_locks @ [Rel Queue_mutex]"

text \<open>The lines of the command loop, with the branches that differ in their mutex operations.\<close>

datatype command_branch =
    JoinRejected
  | JoinFull
  | JoinDone bool bool bool bool
  | LeaveRejected
  | LeaveDone bool
  | BroadcastRejected
  | BroadcastDone bool
  | WhisperSelf
  | WhisperLookup
  | SendfileRejected
  | SendfileNoUser
  | SendfileQueued bool
  | SendfileTimeout
  | OtherLine

fun command_locks :: "command_branch \<Rightarrow> lock_op list" where
  "command_locks JoinRejected = log_event_locks"
| "command_locks JoinFull = [Acq Rooms_mutex, Rel Rooms_mutex] @ log_event_locks"
| "command_locks (JoinDone was left_notified created notified) =
     [Acq Rooms_mutex, Rel Rooms_mutex] @ join_room_locks was left_notified created notified"
| "command_locks LeaveRejected = log_event_locks"
| "command_locks (LeaveDone notified) = leave_room_locks notified"
| "command_locks BroadcastRejected = log_event_locks"
| "command_locks (BroadcastDone found) = broadcast_to_room_locks found @ log_event_locks"
| "command_locks WhisperSelf = log_event_locks"
| "command_locks WhisperLookup = find_client_locks @ log_event_locks"
| "command_locks SendfileRejected = log_event_locks"
| "command_locks SendfileNoUser = find_client_locks @ log_event_locks"
| "command_locks (SendfileQueued waited) = find_client_locks @ log_event_locks
     @ (if waited then log_event_locks else []) @ add_to_file_queue_locks"
| "command_locks SendfileTimeout = find_client_locks @ log_event_locks @ log_event_locks @ log_event_locks"
| "command_locks OtherLine = []"

section \<open>An order on the locks\<close>

fun rank :: "lock \<Rightarrow> nat" where
  "rank Rooms_mutex = 0"
| "rank Clients_mutex = 1"
| "rank Queue_mutex = 2"
| "rank Log_mutex = 3"

fun ordered :: "lock list \<Rightarrow> lock_op list \<Rightarrow> bool" where
  "ordered held [] = (held = [])"
| "ordered held (Acq l # ops) = ((\<forall>k \<in> set held. rank k < rank l) \<and> ordered (l # held) ops)"
| "ordered held (Rel l # ops) = (l \<in> set held \<and> ordered (remove1 l held) ops)"

lemma ordered_append: "ordered held xs \<Longrightarrow> ordered [] ys \<Longrightarrow> ordered held (xs @ ys)"
  by (induction held xs rule: ordered.induct) auto

lemma ordered_command: "ordered [] (command_locks b)"
  by (cases b) (simp_all add: log_event_locks_def find_client_locks_def broadcast_to_room_locks_def
      leave_room_locks_def join_room_locks_def add_to_file_queue_locks_def)

lemma ordered_commands: "ordered [] (concat (map command_locks bs))"
  by (induction bs) (simp_all add: ordered_command ordered_append)

definition threads_ordered :: "lock_thread list \<Rightarrow> bool" where
  "threads_ordered ts \<longleftrightarrow> list_all (\<lambda>t. ordered (fst t) (snd t)) ts"

lemma thread_step_ordered:
  assumes "threads_ordered ts" "thread_step ts i = Some us"
  shows "threads_ordered us"
proof -
  have i: "i < length ts" using assms(2) by (auto simp: thread_step.simps split: if_splits)
  obtain held ops where t: "ts ! i = (held, ops)" by (cases "ts ! i")
  with i assms(1) have o: "ordered held ops" by (metis fst_conv list_all_length snd_conv threads_ordered_def)
  from assms(2) i t obtain t' where us: "us = ts[i := t']" "ordered (fst t') (snd t')"
    using o by (auto simp: thread_step.simps split: list.splits lock_op.splits if_splits)
  then show ?thesis
    using assms(1) i unfolding threads_ordered_def list_all_length by (auto simp: nth_list_update)
qed

lemma lock_reach_ordered: "lock_reach ts us \<Longrightarrow> threads_ordered ts \<Longrightarrow> threads_ordered us"
  by (induction rule: lock_reach.induct) (auto dest: thread_step_ordered)

text \<open>The lock a thread is waiting for.\<close>

definition wants :: "lock_thread list \<Rightarrow> nat \<Rightarrow> lock \<Rightarrow> bool" where
  "wants ts i l \<longleftrightarrow> i < length ts \<and> (\<exists>ops. snd (ts ! i) = Acq l # ops)"

lemma blocked_wants:
  assumes "i < length ts" "snd (ts ! i) \<noteq> []" "thread_step ts i = None"
  shows "\<exists>l. wants ts i l \<and> \<not> lock_free l ts"
  using assms by (cases "ts ! i") (auto simp: wants_def thread_step.simps split: list.splits lock_op.splits if_splits)

lemma blocked_chain:
  assumes o: "threads_ordered ts" and stuck: "\<forall>i < length ts. thread_step ts i = None"
    and w: "wants ts i l" "\<not> lock_free l ts"
  shows "\<exists>j k. wants ts j k \<and> \<not> lock_free k ts \<and> rank l < rank k"
proof -
  obtain j where j: "j < length ts" "l \<in> set (fst (ts ! j))"
    using w(2) by (auto simp: lock_free_def list_all_length)
  have oj: "ordered (fst (ts ! j)) (snd (ts ! j))"
    using o j(1) by (simp add: threads_ordered_def list_all_length)
  then have ne: "snd (ts ! j) \<noteq> []" using j(2) by (cases "snd (ts ! j)") auto
  have "thread_step ts j = None" using stuck j(1) by simp
  with blocked_wants [OF j(1) ne] obtain k where k: "wants ts j k" "\<not> lock_free k ts" by blast
  from k(1) obtain ops where "snd (ts ! j) = Acq k # ops" by (auto simp: wants_def)
  with oj j(2) have "rank l < rank k" by simp
  with k show ?thesis by blast
qed

lemma rank_bounded: "rank l \<le> 3"
  by (cases l) auto

lemma ordered_no_deadlock:
  assumes o: "threads_ordered ts"
  shows "\<not> deadlocked ts"
proof
  assume d: "deadlocked ts"
  then have stuck: "\<forall>i < length ts. thread_step ts i = None" by (simp add: deadlocked_def)
  have chain: "\<exists>j k. wants ts j k \<and> \<not> lock_free k ts \<and> n \<le> rank k" for n
  proof (induction n)
    case 0
    from d obtain i where "i < length ts" "snd (ts ! i) \<noteq> []" by (auto simp: deadlocked_def in_set_conv_nth)
    with blocked_wants stuck show ?case by blast
  next
    case (Suc n)
    then obtain j k where "wants ts j k" "\<not> lock_free k ts" "n \<le> rank k" by blast
    with blocked_chain [OF o stuck] show ?case by (meson Suc_leI le_less_trans)
  qed
  from chain [of 4] obtain k where "4 \<le> rank k" by blast
  with rank_bounded [of k] show False by simp
qed

text \<open>
  C9. Client threads that only execute commands (no thread is disconnecting) never deadlock on
  the four mutexes: whatever commands they run and however they interleave, as long as some
  thread has operations left, some thread can go on.
\<close>

theorem commands_no_deadlock:
  assumes "lock_reach (start_threads (map (\<lambda>bs. concat (map command_locks bs)) scripts)) ts"
  shows "\<not> deadlocked ts"
proof -
  have "threads_ordered (start_threads (map (\<lambda>bs. concat (map command_locks bs)) scripts))"
    by (simp add: threads_ordered_def start_threads_def list_all_iff ordered_commands)
  from lock_reach_ordered [OF assms this] show ?thesis by (rule ordered_no_deadlock)
qed

text \<open>
  A client that disconnects while it is in a room and a client that broadcasts to a room can
  deadlock the server: \<open>cleanup_client\<close> holds clients_mutex when \<open>leave_room\<close> takes rooms_mutex,
  \<open>broadcast_to_room\<close> holds rooms_mutex when \<open>find_client_by_socket\<close> takes clients_mutex.
\<close>

theorem cleanup_broadcast_deadlock:
  "\<exists>ts. lock_reach (start_threads [cleanup_client_locks True notified lost, command_locks (BroadcastDone True)]) ts
    \<and> deadlocked ts"
proof -
  let ?s0 = "start_threads [cleanup_client_locks True notified lost, command_locks (BroadcastDone True)]"
  let ?a = "[Acq Rooms_mutex, Rel Rooms_mutex] @ log_event_locks @ (if notified then log_event_locks else [])
      @ (if lost then log_event_locks else []) @ [Rel Clients_mutex]"
  let ?b = "find_client_locks @ [Rel Rooms_mutex] @ log_event_locks"
  let ?s1 = "[([Clients_mutex], ?a), ([], command_locks (BroadcastDone True))]"
  let ?s2 = "[([Clients_mutex], ?a), ([Rooms_mutex], ?b)]"
  have "thread_step ?s0 0 = Some ?s1"
    by (simp add: start_threads_def thread_step.simps cleanup_client_locks_def leave_room_locks_def lock_free_def)
  moreover have "thread_step ?s1 1 = Some ?s2"
    by (simp add: thread_step.simps broadcast_to_room_locks_def lock_free_def)
  ultimately have "lock_reach ?s0 ?s2" by (blast intro: lock_reach.intros)
  moreover have "deadlocked ?s2"
    by (simp add: deadlocked_def thread_step.simps lock_free_def find_client_locks_def less_Suc_eq numeral_2_eq_2)
  ultimately show ?thesis by blast
qed

text \<open>A thread that broadcasts and one that joins a room, after the first has taken a lock.\<close>

theorem commands_no_deadlock_witness:
  "\<not> deadlocked [([Rooms_mutex], tl (command_locks (BroadcastDone True))),
     ([], command_locks (JoinDone True True True True))]"
proof (rule commands_no_deadlock)
  show "lock_reach (start_threads (map (\<lambda>bs. concat (map command_locks bs))
        [[BroadcastDone True], [JoinDone True True True True]]))
      [([Rooms_mutex], tl (command_locks (BroadcastDone True))), ([], command_locks (JoinDone True True True True))]"
    by (rule lock_reach.step [OF lock_reach.refl, of _ 0])
      (simp add: start_threads_def thread_step.simps broadcast_to_room_locks_def lock_free_def)
qed

end
