(* ===== verification/Chat_Messages.thy ===== *)
theory Chat_Messages
  imports Chat_Properties
begin

text \<open>
  The messages of the chat server: which strings it sends to its clients in any reachable state.
  This is what the client can rely on; the names in them are valid, a file name is one word, and
  a text has no line break.
\<close>

section \<open>The shapes of messages\<close>

definition fixed_messages :: "string list" where
  "fixed_messages =
     [''SERVER_FULL'', ''INVALID_USERNAME'', ''USERNAME_TAKEN'', ''WELCOME'', ''INVALID_ROOM_NAME'',
      ''ALREADY_IN_ROOM'', ''ROOM_IS_FULL'', ''INVALID_ROOM'', ''NOT_IN_ROOM'', ''LEAVE_ROOM'',
      ''MESSAGE_BROADCASTED'', ''CANNOT_WHISPER_SELF'', ''USER_NOT_FOUND'', ''LOGOUT'', ''SERVER_SHUTDOWN'',
      ''FILE_QUEUE_FULL'', ''FILE_QUEUE_STILL_FULL'', ''SEND_TO_SELF'', ''WRONG_EXTENSION'']"

definition one_line :: "string \<Rightarrow> bool" where
  "one_line t \<longleftrightarrow> (\<forall>c \<in> set t. c \<noteq> NUL \<and> c \<noteq> CR \<and> c \<noteq> LF)"

definition name_or_none :: "string \<Rightarrow> bool" where
  "name_or_none u \<longleftrightarrow> u = [] \<or> is_valid_username u"

inductive server_message :: "string \<Rightarrow> bool" where
  fixed: "m \<in> set fixed_messages \<Longrightarrow> server_message m"
| in_room: "is_valid_room_name r \<Longrightarrow> server_message (''JOIN_ROOM '' @ r)"
| member: "what \<in> {''USER_JOINED '', ''USER_REJOINED '', ''USER_LEFT ''} \<Longrightarrow> is_valid_username u \<Longrightarrow>
    is_valid_room_name r \<Longrightarrow> server_message (what @ u @ '' '' @ r)"
| chat: "is_valid_room_name r \<Longrightarrow> is_valid_username u \<Longrightarrow> one_line t \<Longrightarrow>
    server_message (''CHAT_MESSAGE '' @ snprintf 1029 (''['' @ r @ ''] '' @ u @ '': '' @ t))"
| whisper: "is_valid_username u \<Longrightarrow> one_line t \<Longrightarrow>
    server_message (snprintf BUFFER_SIZE (''WHISPER_MESSAGE '' @ u @ '' '' @ t))"
| whisper_sent: "name_or_none u \<Longrightarrow> server_message (''WHISPER_SENT '' @ u)"
| large: "in_signed 64 n \<Longrightarrow> server_message (''FILE_IS_LARGE '' @ fmt_d n)"
| queued: "in_signed 32 n \<Longrightarrow> server_message (''FILE_QUEUED '' @ fmt_d n)"
| started: "file_name_ok f \<Longrightarrow>
    server_message (snprintf BUFFER_SIZE (''FILE_TRANSFER_STARTED '' @ take 256 f @ '' '' @ fmt_d n))"
| received: "name_or_none u \<Longrightarrow> file_name_ok f \<Longrightarrow>
    server_message (''FILE_RECEIVED '' @ u @ '' '' @ take 256 f)"
| complete: "name_or_none u \<Longrightarrow> file_name_ok f \<Longrightarrow>
    server_message (''FILE_TRANSFER_COMPLETE '' @ take 256 f @ '' '' @ u)"

definition sends_ok :: "effect list \<Rightarrow> bool" where
  "sends_ok es \<longleftrightarrow> (\<forall>k m. Send k m \<in> set es \<longrightarrow> server_message m)"

lemma sends_ok_simps [simp]:
  "sends_ok []" "sends_ok (Send k m # es) \<longleftrightarrow> server_message m \<and> sends_ok es"
  "sends_ok (Print p # es) = sends_ok es" "sends_ok (Log t m # es) = sends_ok es"
  "sends_ok (CloseSocket j # es) = sends_ok es"
  "sends_ok (es @ fs) \<longleftrightarrow> sends_ok es \<and> sends_ok fs"
  by (auto simp: sends_ok_def)

lemma sends_ok_map: "server_message m \<Longrightarrow> sends_ok (map (\<lambda>j. Send j m) ks)"
  by (auto simp: sends_ok_def)

text \<open>What a step adds to the output.\<close>

definition adds_ok :: "server \<Rightarrow> server \<Rightarrow> bool" where
  "adds_ok s t \<longleftrightarrow> (\<exists>es. out t = out s @ es \<and> sends_ok es)"

lemma adds_same: "out t = out s \<Longrightarrow> adds_ok s t"
  by (simp add: adds_ok_def)

lemma adds_emit: "out t = out s @ es \<Longrightarrow> sends_ok es \<Longrightarrow> adds_ok s t"
  by (auto simp: adds_ok_def)

lemma adds_emit_simp [simp]: "sends_ok es \<Longrightarrow> adds_ok s (emit es s)"
  by (auto simp: adds_ok_def)

lemma adds_trans: "adds_ok s t \<Longrightarrow> adds_ok t u \<Longrightarrow> adds_ok s u"
  by (force simp: adds_ok_def)

lemma adds_append: "adds_ok s t \<Longrightarrow> out u = out t @ es \<Longrightarrow> sends_ok es \<Longrightarrow> adds_ok s u"
  by (rule adds_trans [of s t]) (auto intro: adds_emit)

lemma fixedI: "m \<in> set fixed_messages \<Longrightarrow> server_message m"
  by (rule server_message.fixed)

lemma fixed_ok [simp]: "server_message ''SERVER_FULL''" "server_message ''INVALID_USERNAME''"
  "server_message ''USERNAME_TAKEN''" "server_message ''WELCOME''" "server_message ''INVALID_ROOM_NAME''"
  "server_message ''ALREADY_IN_ROOM''" "server_message ''ROOM_IS_FULL''" "server_message ''INVALID_ROOM''"
  "server_message ''NOT_IN_ROOM''" "server_message ''LEAVE_ROOM''" "server_message ''MESSAGE_BROADCASTED''"
  "server_message ''CANNOT_WHISPER_SELF''" "server_message ''USER_NOT_FOUND''" "server_message ''LOGOUT''"
  "server_message ''SERVER_SHUTDOWN''" "server_message ''FILE_QUEUE_FULL''"
  "server_message ''FILE_QUEUE_STILL_FULL''" "server_message ''SEND_TO_SELF''" "server_message ''WRONG_EXTENSION''"
  by (rule fixedI, simp add: fixed_messages_def)+

section \<open>Names\<close>

lemma valid_username_take: "is_valid_username u \<Longrightarrow> take 16 u = u"
  by (simp add: valid_username_iff c_limits)

lemma valid_room_take: "is_valid_room_name r \<Longrightarrow> take 32 r = r"
  by (simp add: valid_room_name_iff c_limits)

lemma snprintf_short: "length s < n \<Longrightarrow> snprintf n s = s"
  by (simp add: snprintf_def)

lemma name_of_client:
  assumes "server_ok s" "c < MAX_CLIENTS"
  shows "name_or_none (username (clients s ! c))"
  using sessions_okD(3) [OF server_okD(2) [OF assms(1)] assms(2)]
  by (auto simp: name_or_none_def session_ok.simps)

lemma name_of_user:
  assumes "server_ok s" "c < MAX_CLIENTS" "threads s ! c = Commands \<or> current_room (clients s ! c) \<noteq> []"
  shows "is_valid_username (username (clients s ! c))"
  using sessions_okD(3) [OF server_okD(2) [OF assms(1)] assms(2)] assms(3)
  by (auto simp: session_ok.simps)

lemma room_of_user:
  assumes "server_ok s" "c < MAX_CLIENTS" "current_room (clients s ! c) \<noteq> []"
  shows "is_valid_room_name (current_room (clients s ! c))"
  using places_in_room [OF membership_okD(3) [OF server_okD(1) [OF assms(1)]]] assms(2,3)
    membership_okD(1) [OF server_okD(1) [OF assms(1)]] by simp

lemma one_line_recv: "one_line (recv_line bytes)"
  by (auto simp: one_line_def recv_line_def dest: set_takeWhileD)

lemma one_line_sub: "one_line t \<Longrightarrow> set s \<subseteq> set t \<Longrightarrow> one_line s"
  by (auto simp: one_line_def)

section \<open>Rooms\<close>

lemma leave_room_adds:
  assumes ok: "server_ok s" and c: "c < MAX_CLIENTS" "current_room (clients s ! c) \<noteq> []"
    and t: "leave_room c s = Inr t"
  shows "adds_ok s t"
proof -
  let ?u = "username (clients s ! c)" and ?r = "current_room (clients s ! c)"
  obtain socks where "out t = out s @ leave_effects ?u ?r socks"
    using leave_room_spec [OF server_okD(1) [OF ok] c] t by auto
  moreover have "is_valid_username ?u" "is_valid_room_name ?r"
    using name_of_user room_of_user ok c by blast+
  then have "server_message (leave_msg ?u ?r)"
    using server_message.member [of "''USER_LEFT ''" ?u ?r]
    by (simp add: leave_msg_def fmt_prec_def valid_username_take valid_room_take)
  ultimately show ?thesis by (auto intro!: adds_emit sends_ok_map simp: leave_effects_def)
qed

lemma notify_loop_sends:
  assumes "notify_loop arr i k m = Inr es" "server_message m"
  shows "sends_ok es"
  using assms
proof (induction arr i k m arbitrary: es rule: notify_loop.induct)
  case (1 arr i k m)
  show ?case
  proof (cases "i < k")
    case True
    then obtain x where x: "rd arr i = Inr x" using "1.prems" by (auto simp: notify_loop.simps [of arr i] rbind_eq_Inr)
    with True "1.prems" obtain sock es' where "x = Some sock" "notify_loop arr (i + 1) k m = Inr es'"
      "es = Send sock m # es'"
      by (auto simp: notify_loop.simps [of arr i] rbind_eq_Inr split: option.splits)
    with "1.IH" [OF True] "1.prems"(2) show ?thesis by simp
  qed (use "1.prems" in simp)
qed

lemma add_to_room_adds:
  assumes t: "add_to_room c r rejoining was old i s = Inr (t, j)"
    and v: "is_valid_username (username (clients s ! c))" "is_valid_room_name r"
  shows "adds_ok s t"
proof -
  let ?u = "username (clients s ! c)"
  have "join_msg rejoining ?u r = (if rejoining then ''USER_REJOINED '' else ''USER_JOINED '') @ ?u @ '' '' @ r"
    using v by (simp add: join_msg_def snprintf_short valid_username_iff valid_room_name_iff c_limits)
  then have m: "server_message (join_msg rejoining ?u r)"
    using server_message.member [of "''USER_REJOINED ''", OF _ v] server_message.member [of "''USER_JOINED ''", OF _ v]
    by simp
  from t obtain arr n es where N: "notify_loop arr 0 n (join_msg rejoining ?u r) = Inr es"
    "out t = out s @ join_report was rejoining ?u old r @ es @ (if 0 < n then [join_note rejoining ?u r] else [])"
    by (auto simp: add_to_room_def Let_def rbind_eq_Inr)
  from notify_loop_sends [OF N(1) m] have "sends_ok es" .
  moreover have "sends_ok (join_report was rejoining ?u old r)" by (simp add: join_report_def Let_def)
  ultimately show ?thesis by (intro adds_emit [OF N(2)]) (simp add: join_note_def)
qed

lemma enter_room_adds:
  assumes t: "enter_room c r rejoining was old s = Inr (t, j)"
    and v: "is_valid_username (username (clients s ! c))" "is_valid_room_name r"
  shows "adds_ok s t"
proof (cases "find_room r s")
  case None
  obtain s1 x where cr: "create_room r s = (s1, x)" by fastforce
  then have s1: "out s1 = out s" "clients s1 = clients s" by (auto simp: create_room_def split: option.splits)
  have "adds_ok s1 t"
    using t None cr v s1 add_to_room_adds [of c r rejoining was old _ s1 t j]
    by (auto simp: enter_room_def intro: adds_same split: option.splits)
  with s1 show ?thesis by (simp add: adds_ok_def)
next
  case (Some i)
  with t v add_to_room_adds show ?thesis by (simp add: enter_room_def)
qed

lemma join_room_adds:
  assumes ok: "server_ok s" and c: "c < MAX_CLIENTS" "threads s ! c = Commands"
    and r: "is_valid_room_name r" and t: "join_room c r s = Inr (t, j)"
  shows "adds_ok s t"
proof -
  let ?was = "0 < length (current_room (clients s ! c))"
  obtain s1 rejoining old where s1: "(if ?was then leave_room c s else Inr s) = Inr s1"
    "enter_room c r rejoining ?was old s1 = Inr (t, j)"
    using t by (auto simp: join_room_def Let_def rbind_eq_Inr split: if_splits)
  have u: "is_valid_username (username (clients s ! c))" using name_of_user [OF ok c(1)] c(2) by blast
  have "adds_ok s s1 \<and> username (clients s1 ! c) = username (clients s ! c)"
  proof (cases ?was)
    case True
    then have R: "leave_room c s = Inr s1" "current_room (clients s ! c) \<noteq> []" using s1 by simp_all
    from leave_server_ok [OF ok c(1) R(2)] R(1) c(1) membership_okD(1) [OF server_okD(1) [OF ok]]
    show ?thesis using leave_room_adds [OF ok c(1) R(2,1)] by auto
  qed (use s1 in \<open>auto intro: adds_same\<close>)
  with enter_room_adds [OF s1(2) _ r] u show ?thesis by (auto intro: adds_trans)
qed

lemma cleanup_adds:
  assumes ok: "server_ok s" and c: "c < MAX_CLIENTS" and t: "cleanup_client c s = Inr t"
  shows "adds_ok s t"
proof (cases "c_active (clients s ! c)")
  case True
  obtain s1 where s1: "(if 0 < length (current_room (clients s ! c)) then leave_room c s else Inr s) = Inr s1"
    using t True by (auto simp: cleanup_client_def rbind_eq_Inr split: if_splits)
  have "adds_ok s s1"
    using s1 leave_room_adds [OF ok c] by (auto intro: adds_same split: if_splits)
  moreover obtain es where "out t = out s1 @ es" "sends_ok es"
    using t True s1 by (auto simp: cleanup_client_def Let_def)
  ultimately show ?thesis by (rule adds_append)
qed (use t in \<open>auto simp: cleanup_client_def intro: adds_same\<close>)

lemma end_thread_adds:
  assumes "server_ok s" "c < MAX_CLIENTS" "end_thread c s = Inr t"
  shows "adds_ok s t"
  using assms cleanup_adds [OF assms(1,2)] by (auto simp: end_thread_def rbind_eq_Inr adds_ok_def)

lemma resume_adds:
  assumes "server_ok s" "c < MAX_CLIENTS" "resume c s = Inr t"
  shows "adds_ok s t"
  using assms end_thread_adds by (auto simp: resume_def intro: adds_same split: if_splits)

section \<open>Commands\<close>

lemma accept_adds:
  assumes ok: "server_ok s" and e: "enabled (Accept sock addr created) s"
    and t: "accept_client sock addr created s = Inr t"
  shows "adds_ok s t"
proof (cases "first_index (\<lambda>cl. \<not> c_active cl) (clients s)")
  case None
  with t show ?thesis by (auto simp: accept_client_def intro: adds_emit)
next
  case (Some i)
  show ?thesis
  proof (cases created)
    case True
    with t Some show ?thesis by (auto simp: accept_client_def Let_def intro: adds_same)
  next
    case False
    have i: "i < length (clients s)" using Some by (auto dest: first_index_SomeD)
    let ?s1 = "(upd_client i (\<lambda>cl. cl\<lparr>c_socket := sock, c_active := True, c_address := addr,
      username := [], current_room := []\<rparr>) s)"
    from t Some False i obtain es where "out t = out s @ es" "sends_ok es"
      by (auto simp: accept_client_def Let_def cleanup_client_def rbind_def)
    then show ?thesis by (rule adds_emit)
  qed
qed

lemma login_adds:
  assumes ok: "server_ok s" and c: "c < MAX_CLIENTS" "threads s ! c = Login"
    and t: "login_step c bytes s = Inr t"
  shows "adds_ok s t"
proof (cases "is_valid_username (recv_line bytes) \<and> \<not> username_taken (recv_line bytes) s")
  case False
  then obtain es where "sends_ok es" "(if server_running s then Inr (emit es s) else end_thread c (emit es s)) = Inr t"
    using t that by (auto simp: login_step_def Let_def split: if_splits)
      (metis sends_ok_simps(1-5) fixed_ok(2,3))+
  moreover from this have "adds_ok (emit es s) t" if "\<not> server_running s"
    using end_thread_adds [of "emit es s" c t] ok c(1) that by simp
  ultimately show ?thesis
    using adds_trans [of s "emit es s" t] by (cases "server_running s") auto
next
  case True
  let ?b = "recv_line bytes"
  let ?s1 = "set_thread c Commands (upd_client c (\<lambda>x. x\<lparr>username := ?b\<rparr>) s)"
  from True t obtain es where es: "resume c (emit es ?s1) = Inr t" "sends_ok es"
    by (auto simp: login_step_def Let_def)
  from login_step_ok [OF ok c, of bytes] t have tok: "server_ok t" by simp
  have room: "current_room (clients s ! c) = []"
    using sessions_okD(3) [OF server_okD(2) [OF ok] c(1)] c(2) by (simp add: session_ok.simps)
  show ?thesis
  proof (cases "server_running s \<and> c_active (clients ?s1 ! c)")
    case True
    with es have "out t = out s @ es" by (auto simp: resume_def)
    with es(2) show ?thesis by (auto intro: adds_emit)
  next
    case False
    have "c < length (clients s)" using c membership_okD(1) [OF server_okD(1) [OF ok]] by simp
    with False es room have "adds_ok (emit es ?s1) t"
      by (auto simp: resume_def end_thread_def cleanup_client_def rbind_def Let_def adds_ok_def split: if_splits)
    moreover have "adds_ok s (emit es ?s1)" using es(2) by (intro adds_emit) simp_all
    ultimately show ?thesis by (rule adds_trans [rotated])
  qed
qed

lemma cmd_join_adds:
  assumes ok: "server_ok s" and c: "c < MAX_CLIENTS" "threads s ! c = Commands"
    and t: "cmd_join c r s = Inr t"
  shows "adds_ok s t"
proof -
  let ?full = "case find_room r s of Some i \<Rightarrow> MAX_USERS_PER_ROOM \<le> user_count (rooms s ! i) | None \<Rightarrow> False"
  show ?thesis
  proof (cases "is_valid_room_name r \<and> current_room (clients s ! c) \<noteq> r \<and> \<not> ?full")
    case False
    with t show ?thesis by (auto simp: cmd_join_def Let_def split: if_splits)
  next
    case True
    then have r: "is_valid_room_name r" by simp
    from True t obtain s1 joined where J: "join_room c r s = Inr (s1, joined)"
      "out t = out s1 @ [Send (c_socket (clients s ! c)) (if joined then ''JOIN_ROOM '' @ fmt_prec 32 r else ''INVALID_ROOM'')]"
      by (fastforce simp: cmd_join_def Let_def rbind_eq_Inr output_defs)
    have "server_message (if joined then ''JOIN_ROOM '' @ fmt_prec 32 r else ''INVALID_ROOM'')"
      using server_message.in_room [OF r] r by (simp add: fmt_prec_def valid_room_take)
    then show ?thesis by (intro adds_append [OF join_room_adds [OF ok c r J(1)] J(2)]) simp
  qed
qed

lemma cmd_leave_adds:
  assumes ok: "server_ok s" and c: "c < MAX_CLIENTS" and t: "cmd_leave c s = Inr t"
  shows "adds_ok s t"
proof (cases "current_room (clients s ! c) = []")
  case True
  with t show ?thesis by (auto simp: cmd_leave_def Let_def intro: adds_emit)
next
  case False
  with t obtain s1 where "leave_room c s = Inr s1" "out t = out s1 @ [Send (c_socket (clients s ! c)) ''LEAVE_ROOM'']"
    by (auto simp: cmd_leave_def Let_def rbind_eq_Inr output_defs)
  with leave_room_adds [OF ok c False] show ?thesis by (auto intro: adds_append)
qed

lemma cmd_broadcast_adds:
  assumes ok: "server_ok s" and c: "c < MAX_CLIENTS" "threads s ! c = Commands"
    and l: "one_line msg" and t: "cmd_broadcast c msg s = Inr t"
  shows "adds_ok s t"
proof (cases "current_room (clients s ! c) = []")
  case True
  with t show ?thesis by (auto simp: cmd_broadcast_def Let_def intro: adds_emit)
next
  case False
  let ?r = "current_room (clients s ! c)" and ?u = "username (clients s ! c)"
  have v: "is_valid_room_name ?r" "is_valid_username ?u"
    using room_of_user name_of_user ok c False by blast+
  let ?m = "snprintf (MAX_MESSAGE_LEN + 5) (''['' @ fmt_prec 32 ?r @ ''] '' @ fmt_prec 16 ?u @ '': '' @ msg)"
  have "snprintf 1050 (''CHAT_MESSAGE '' @ ?m) = ''CHAT_MESSAGE '' @ snprintf 1029 (''['' @ ?r @ ''] '' @ ?u @ '': '' @ msg)"
    using v by (simp add: fmt_prec_def valid_username_take valid_room_take snprintf_def c_limits)
  then have "server_message (snprintf 1050 (''CHAT_MESSAGE '' @ ?m))"
    using server_message.chat [OF v l] by simp
  then show ?thesis
    using t False broadcast_to_room_spec [OF server_okD(1) [OF ok], of ?r ?m "c_socket (clients s ! c)"]
    by (auto simp: cmd_broadcast_def Let_def intro!: adds_emit sends_ok_map simp del: map_map split: option.splits)
qed

lemma cmd_whisper_adds:
  assumes ok: "server_ok s" and c: "c < MAX_CLIENTS" "threads s ! c = Commands"
    and l: "one_line args" and t: "cmd_whisper c args s = Inr t"
  shows "adds_ok s t"
proof -
  let ?u = "username (clients s ! c)"
  from t obtain tgt msg where w: "t = whisper_to c tgt msg s" "set msg \<subseteq> set args"
    by (auto simp: cmd_whisper_def Let_def split: option.splits)
      (metis (no_types, lifting) Un_iff list.sel(3) list.set_intros(2) set_append strchr_Some subsetI)
  have u: "is_valid_username ?u" using name_of_user ok c by blast
  have m: "server_message (snprintf BUFFER_SIZE (''WHISPER_MESSAGE '' @ ?u @ '' '' @ msg))"
    using server_message.whisper [OF u one_line_sub [OF l w(2)]] .
  have s: "server_message (snprintf BUFFER_SIZE (''WHISPER_SENT '' @ tgt))"
    if "find_client_by_username tgt s = Some d" "tgt \<noteq> ?u" for d
  proof -
    have d: "d < MAX_CLIENTS" "c_active (clients s ! d)" "username (clients s ! d) = tgt"
      using find_client_by_username_Some [OF that(1)] membership_okD(1) [OF server_okD(1) [OF ok]] by auto
    then have n: "name_or_none tgt" using name_of_client [OF ok, of d] by simp
    then have "length tgt \<le> 16" by (auto simp: name_or_none_def valid_username_iff c_limits)
    then show ?thesis using server_message.whisper_sent [OF n] by (simp add: snprintf_short c_limits)
  qed
  show ?thesis
    unfolding w(1) whisper_to_def Let_def
    using m s by (auto intro!: adds_emit split: option.splits)
qed

section \<open>Files\<close>

lemma enqueue_adds:
  assumes q: "queue_size s < MAX_FILE_QUEUE"
  shows "adds_ok s (enqueue_request c r fn sz now s)"
proof -
  have n: "in_signed 32 (int (queue_size s) + 1)" using q by (simp add: in_signed_32 c_limits)
  have "length (fmt_d (int (queue_size s) + 1)) \<le> 2"
    using q length_dec_less_100 [of "nat (int (queue_size s) + 1)"] by (simp add: fmt_d_def c_limits)
  then have "snprintf BUFFER_SIZE (''FILE_QUEUED '' @ fmt_d (int (queue_size s) + 1)) = ''FILE_QUEUED '' @ fmt_d (int (queue_size s) + 1)"
    by (intro snprintf_short) (simp add: c_limits)
  then show ?thesis
    using server_message.queued [OF n]
    by (auto simp: enqueue_request_def Let_def queue_push_def adds_ok_def add.commute)
qed

lemma slots_queue_size: "slots_ok s \<Longrightarrow> empty_slots s \<noteq> 0 \<Longrightarrow> queue_size s < MAX_FILE_QUEUE"
  by (auto simp: slots_ok_def)

lemma add_to_file_queue_adds:
  assumes "slots_ok s"
  shows "adds_ok s (add_to_file_queue c r fn sz now s)"
proof (cases "empty_slots s = 0")
  case True
  then show ?thesis by (auto simp: add_to_file_queue_def intro: adds_emit)
next
  case False
  with slots_queue_size [OF assms] enqueue_adds [of "s\<lparr>empty_slots := empty_slots s - 1\<rparr>" c r fn sz now]
  show ?thesis by (simp add: add_to_file_queue_def adds_ok_def)
qed

lemma length_fmt_d_64: "in_signed 64 n \<Longrightarrow> length (fmt_d n) \<le> 20"
proof -
  have dec: "length (dec m) \<le> k" if "m < 10 ^ k" "0 < k" for m k
    using that
  proof (induction m arbitrary: k rule: dec.induct)
    case (1 m)
    show ?case
    proof (cases "m < 10")
      case True
      with 1 show ?thesis by (simp add: dec.simps [of m])
    next
      case False
      with "1.prems" obtain j where k: "k = Suc j" "0 < j" by (cases k; cases "k - 1") auto
      with "1.prems" have "m div 10 < 10 ^ j" by (simp add: div_less_iff_less_mult)
      with 1 False k show ?thesis by (simp add: dec.simps [of m])
    qed
  qed
  assume n: "in_signed 64 n"
  then have "nat \<bar>n\<bar> < 10 ^ 19" by (auto simp: in_signed_64)
  from dec [OF this] show ?thesis by (auto simp: fmt_d_def nat_minus_as_int abs_if split: if_splits)
qed

lemma file_transfer_adds:
  assumes ok: "server_ok s" and c: "c < MAX_CLIENTS" and n: "in_signed 64 sz"
  shows "adds_ok s (handle_file_transfer c fn tgt sz now s)"
proof -
  have "snprintf BUFFER_SIZE (''FILE_IS_LARGE '' @ fmt_d sz) = ''FILE_IS_LARGE '' @ fmt_d sz"
    using length_fmt_d_64 [OF n] by (intro snprintf_short) (simp add: c_limits)
  then have "server_message (snprintf BUFFER_SIZE (''FILE_IS_LARGE '' @ fmt_d sz))"
    using server_message.large [OF n] by simp
  moreover have "adds_ok s (add_to_file_queue c r fn sz now (emit [Log a b] s))" for r a b
  proof (rule adds_trans)
    show "adds_ok (emit [Log a b] s) (add_to_file_queue c r fn sz now (emit [Log a b] s))"
      using server_okD(3) [OF ok] transfer_part_ok(1) [of "emit [Log a b] s" s]
      by (intro add_to_file_queue_adds) simp
  qed simp
  ultimately show ?thesis by (auto simp: handle_file_transfer_def Let_def split: option.splits)
qed

lemma processor_take_adds:
  assumes ok: "server_ok s" and p: "processor s = Idle" "filled_slots s \<noteq> 0"
  shows "adds_ok s (processor_take now s)"
proof (cases "server_running s")
  case True
  let ?s = "s\<lparr>filled_slots := filled_slots s - 1\<rparr>"
  note D = server_okD [OF ok]
  have q: "ring_inv ?s" "queue_size ?s \<noteq> 0" using D(3) p by (auto simp: slots_ok_def ring_inv_def)
  have eq: "pending s = fst (queue_pop ?s) # pending (snd (queue_pop ?s))"
    using queue_pop_ring(1) [OF q] pending_cong [of ?s s] by simp
  then have "file_name_ok (f_filename (fst (queue_pop ?s)))"
    using D(4) by (simp add: requests_ok_def request_ok_def)
  from server_message.started [OF this] True show ?thesis
    by (intro adds_emit [of _ _ "drop (length (out s)) (out (processor_take now s))"])
      (auto simp: processor_take_def Let_def split_def queue_pop_def fmt_prec_def)
qed (auto simp: processor_take_def Let_def intro: adds_same)

lemma processor_finish_adds:
  assumes ok: "server_ok s"
  shows "adds_ok s (processor_finish s)"
proof (cases "processor s")
  case (Transferring req)
  then have r: "request_ok req" using server_okD(4) [OF ok] by (simp add: requests_ok_def)
  let ?u = "username (clients s ! f_sender req)" and ?v = "username (clients s ! f_receiver req)"
    and ?f = "f_filename req"
  have f: "file_name_ok ?f" and n: "name_or_none ?u" "name_or_none ?v"
    using r name_of_client [OF ok] by (simp_all add: request_ok_def)
  have short: "take 16 w = w \<and> length w \<le> 16" if "name_or_none w" for w
    using that by (auto simp: name_or_none_def valid_username_iff c_limits)
  have "snprintf BUFFER_SIZE (''FILE_RECEIVED '' @ fmt_prec 16 ?u @ '' '' @ fmt_prec 256 ?f)
      = ''FILE_RECEIVED '' @ ?u @ '' '' @ take 256 ?f"
    "snprintf BUFFER_SIZE (''FILE_TRANSFER_COMPLETE '' @ fmt_prec 256 ?f @ '' '' @ fmt_prec 16 ?v)
      = ''FILE_TRANSFER_COMPLETE '' @ take 256 ?f @ '' '' @ ?v"
    using short [OF n(1)] short [OF n(2)] by (simp_all add: snprintf_def fmt_prec_def c_limits)
  with server_message.received [OF n(1) f] server_message.complete [OF n(2) f] show ?thesis
    by (auto simp: processor_finish_def Transferring finish_transfer_def Let_def intro: adds_emit)
qed (auto simp: processor_finish_def intro: adds_same)

section \<open>Every message\<close>

lemma sscanf_number:
  assumes "sscanf ds s = Inr vs" "VI n \<in> set vs"
  shows "\<exists>w b. ScanD w b \<in> set ds \<and> in_signed b n"
  using assms
proof (induction ds s arbitrary: vs rule: sscanf.induct)
  case (5 w b ds s)
  then obtain m r where S: "scan_int w (skip_ws s) = Some (m, r)" by (auto split: option.splits)
  with 5(2) obtain vs' where vs': "in_signed b m" "sscanf ds r = Inr vs'" "vs = VI m # vs'"
    by (auto simp: rbind_eq_Inr split: if_splits)
  with 5 S show ?case by fastforce
qed (fastforce simp: Let_def rbind_eq_Inr split: if_splits)+

lemma sendfile_size_ok:
  assumes "sendfile_args params = Inr (fn, t, sz)"
  shows "in_signed 64 sz"
proof -
  let ?ds = "[ScanS BUFFER_SIZE, WS, ScanS (MAX_USERNAME_LEN + 1), WS, ScanD None 64]"
  from assms obtain vs where vs: "sscanf ?ds params = Inr vs"
    "(fn, t, sz) = (case vs of [VS f, VS t, VI n] \<Rightarrow> (f, t, n) | [VS f, VS t] \<Rightarrow> (f, t, 0)
       | [VS f] \<Rightarrow> (f, [], 0) | _ \<Rightarrow> ([], [], 0))"
    by (auto simp: sendfile_args_def rbind_eq_Inr simp del: sscanf.simps)
  then have "sz = 0 \<or> VI sz \<in> set vs" by (auto split: list.splits sval.splits)
  with sscanf_number [OF vs(1), of sz] show ?thesis by (auto simp: in_signed_64)
qed

lemma command_adds:
  assumes ok: "server_ok s" and c: "c < MAX_CLIENTS" "threads s ! c = Commands"
    and t: "command_step c bytes now s = Inr t"
  shows "adds_ok s t"
proof -
  let ?b = "recv_line bytes"
  have sub: "one_line (drop k ?b)" for k
    by (rule one_line_sub [OF one_line_recv]) (rule set_drop_subset)
  have R: "adds_ok s t"
    if "rbind m (resume c) = Inr t" "\<And>u. m = Inr u \<Longrightarrow> adds_ok s u \<and> server_ok u" for m
    using that resume_adds [OF _ c(1)] adds_trans by (force simp: rbind_eq_Inr)
  note D = command_step_def Let_def
  consider "starts_with ''/join '' ?b" | "?b = ''/leave''" | "starts_with ''/broadcast '' ?b"
    | "starts_with ''/whisper '' ?b" | "starts_with ''/sendfile '' ?b" | "?b = ''/exit''"
    | "\<not> starts_with ''/join '' ?b" "?b \<noteq> ''/leave''" "\<not> starts_with ''/broadcast '' ?b"
      "\<not> starts_with ''/whisper '' ?b" "\<not> starts_with ''/sendfile '' ?b" "?b \<noteq> ''/exit''"
    by blast
  then show ?thesis
  proof cases
    case 1
    with t have "rbind (cmd_join c (drop 6 ?b) s) (resume c) = Inr t" by (simp add: D)
    then show ?thesis
      by (rule R) (use cmd_join_adds [OF ok c] cmd_join_ok [OF ok c, of "drop 6 ?b"] in auto)
  next
    case 2
    with t have "rbind (cmd_leave c s) (resume c) = Inr t" by (simp add: D starts_with_def)
    then show ?thesis
      by (rule R) (use cmd_leave_adds [OF ok c(1)] cmd_leave_ok [OF ok c(1)] in auto)
  next
    case 3
    with t have "rbind (cmd_broadcast c (drop 11 ?b) s) (resume c) = Inr t" by (auto simp: D starts_with_iff)
    then show ?thesis
      by (rule R) (use cmd_broadcast_adds [OF ok c sub] cmd_broadcast_ok [OF ok, of c "drop 11 ?b"] in auto)
  next
    case 4
    with t have "rbind (cmd_whisper c (drop 9 ?b) s) (resume c) = Inr t" by (auto simp: D starts_with_iff)
    then show ?thesis
    proof (rule R)
      fix u assume u: "cmd_whisper c (drop 9 ?b) s = Inr u"
      then have "strchr (drop 9 ?b) (CHR '' '') \<noteq> None" by (auto simp: cmd_whisper_def split: option.splits)
      then show "adds_ok s u \<and> server_ok u"
        using u cmd_whisper_adds [OF ok c sub u] cmd_whisper_ok [OF ok, of "drop 9 ?b" c] by auto
    qed
  next
    case 5
    with t obtain fn tgt sz where a: "sendfile_args (drop 10 ?b) = Inr (fn, tgt, sz)"
      "(if threads (handle_file_transfer c fn tgt sz now s) ! c = Commands
        then resume c (handle_file_transfer c fn tgt sz now s) else Inr (handle_file_transfer c fn tgt sz now s)) = Inr t"
      by (auto simp: D starts_with_iff cmd_sendfile_def rbind_eq_Inr)
    let ?t = "handle_file_transfer c fn tgt sz now s"
    have nul: "NUL \<notin> set (drop 10 ?b)" using recv_line_no_NUL in_set_dropD by metis
    have "has_valid_extension fn \<Longrightarrow> file_name_ok fn"
      using sendfile_name_ok [OF a(1) nul] valid_extension_not_Nil by blast
    then have tok: "server_ok ?t" by (rule handle_file_transfer_ok [OF ok c])
    have "in_signed 64 sz" by (rule sendfile_size_ok [OF a(1)])
    then have "adds_ok s ?t" by (rule file_transfer_adds [OF ok c(1)])
    with a(2) resume_adds [OF tok c(1)] show ?thesis by (auto intro: adds_trans split: if_splits)
  next
    case 6
    with t have "end_thread c (cmd_exit c s) = Inr t" by (simp add: D starts_with_def)
    moreover have "server_ok (cmd_exit c s)" "adds_ok s (cmd_exit c s)"
      using ok by (auto simp: cmd_exit_def Let_def intro: adds_emit)
    ultimately show ?thesis using end_thread_adds [OF _ c(1)] by (blast intro: adds_trans)
  next
    case 7
    with t have "resume c s = Inr t" by (simp add: D)
    then show ?thesis by (rule resume_adds [OF ok c(1)])
  qed
qed

lemma step_adds:
  assumes ok: "server_ok s" and e: "enabled e s" and t: "server_step e s = Inr t"
  shows "adds_ok s t"
proof (cases e)
  case (Accept sock addr created)
  with e t accept_adds [OF ok] show ?thesis by auto
next
  case (Recv c bytes now)
  with e t login_adds [OF ok] command_adds [OF ok] show ?thesis by (auto split: if_splits)
next
  case (Hangup c)
  let ?s = "s\<lparr>lost_connection := True\<rparr>"
  from Hangup e t have "end_thread c s = Inr t \<or> end_thread c ?s = Inr t" "c < MAX_CLIENTS"
    by (auto simp: hangup_def split: if_splits)
  moreover have "adds_ok ?s t = adds_ok s t" by (simp add: adds_ok_def)
  ultimately show ?thesis
    using end_thread_adds [OF ok, of c t] end_thread_adds [of ?s c t] ok by auto
next
  case (SlotGranted c now)
  then obtain r fn sz where w: "c < MAX_CLIENTS" "threads s ! c = WaitSlot r fn sz" "empty_slots s \<noteq> 0"
    using e by (auto split: thread_pc.splits)
  have "adds_ok s (slot_granted c now s)"
    using slots_queue_size [OF server_okD(3) [OF ok] w(3)]
      enqueue_adds [of "s\<lparr>empty_slots := empty_slots s - 1\<rparr>" c r fn sz now]
    by (simp add: slot_granted_def w(2) adds_ok_def)
  then show ?thesis
    using resume_adds [OF slot_granted_ok(1) [OF ok w] w(1)] t SlotGranted by (auto intro: adds_trans)
next
  case (SlotTimeout c)
  then obtain r fn sz where w: "c < MAX_CLIENTS" "threads s ! c = WaitSlot r fn sz"
    using e by (auto split: thread_pc.splits)
  have "adds_ok s (slot_timeout c s)" by (auto simp: slot_timeout_def w(2) Let_def intro: adds_emit)
  then show ?thesis
    using resume_adds [OF slot_timeout_ok(1) [OF ok w] w(1)] t SlotTimeout by (auto intro: adds_trans)
next
  case (ProcessorTake now)
  then show ?thesis using e t processor_take_adds [OF ok] by auto
next
  case ProcessorFinish
  then show ?thesis using t processor_finish_adds [OF ok] by simp
next
  case Sigint
  then show ?thesis using t by (auto simp: handle_sigint_def intro: adds_emit)
qed

text \<open>Every message in the output of a reachable state has one of the shapes above.\<close>

lemma reachable_messages: "reachable s \<Longrightarrow> sends_ok (out s)"
proof (induction rule: reachable.induct)
  case (start sock)
  show ?case by (simp add: init_server_def)
next
  case (step s e t)
  from step_adds [OF reachable_ok [OF step(1)] step(2,3)] step.IH show ?case
    by (auto simp: adds_ok_def)
qed

end
