(* ===== verification/Chat_Client.thy ===== *)
theory Chat_Client
  imports C_Format Container_Contracts
begin

text \<open>
  The chat client (System Programming/Final/Final Project/client): the login dialogue, the
  command loop of \<open>main\<close>, the thread that shows the messages of the server, the table of
  received files, the signals and the end.

  The two character arrays that outlive a turn of their loop, \<open>input\<close> and \<open>buffer\<close>, are kept as
  arrays: the code looks past the end of the string that the last turn left there, and then
  finds what an earlier turn wrote. A character that nobody has written is None, and to look at
  it is the error \<open>UninitRead\<close>. What the client shows and sends is recorded in order.
\<close>

section \<open>Limits and arrays\<close>

definition MAX_BUFFER :: nat where "MAX_BUFFER = 4096"
definition MAX_USERNAME :: nat where "MAX_USERNAME = 17"
definition MAX_ROOM_NAME :: nat where "MAX_ROOM_NAME = 33"
definition MAX_MESSAGE_SIZE :: nat where "MAX_MESSAGE_SIZE = 1024"
definition CLIENT_RECEIVED_FILES :: nat where "CLIENT_RECEIVED_FILES = 50"
definition CLIENT_FILE_QUEUE :: nat where "CLIENT_FILE_QUEUE = 5"

declare MAX_BUFFER_def [c_limits] MAX_USERNAME_def [c_limits] MAX_ROOM_NAME_def [c_limits]
  MAX_MESSAGE_SIZE_def [c_limits] CLIENT_RECEIVED_FILES_def [c_limits] CLIENT_FILE_QUEUE_def [c_limits]

type_synonym char_array = "char option list"

text \<open>The string that starts at a position.\<close>

definition string_at :: "char_array \<Rightarrow> nat \<Rightarrow> string res" where
  "string_at a p =
     (let t = takeWhile (\<lambda>x. x \<noteq> Some NUL) (drop p a) in
      if None \<in> set t then Inl UninitRead
      else if length a \<le> p + length t then Inl OutOfBounds
      else Inr (map the t))"

text \<open>\<open>fgets\<close>, or \<open>recv\<close> and \<open>buffer [bytes_received] = 0\<close>: the rest of the array stays.\<close>

definition fill :: "char list \<Rightarrow> char_array \<Rightarrow> char_array" where
  "fill bytes a = map Some bytes @ Some NUL # drop (Suc (length bytes)) a"

text \<open>\<open>a [strcspn (a, "\n")] = 0\<close> after \<open>fgets\<close> has read some bytes.\<close>

definition chop_line :: "char list \<Rightarrow> char_array \<Rightarrow> char_array" where
  "chop_line bytes a = a[length (takeWhile (\<lambda>c. c \<noteq> LF \<and> c \<noteq> NUL) bytes) := Some NUL]"

text \<open>
  \<open>strtok\<close> from a position: the token, if there is one, the array with the delimiter after the
  token overwritten, and where the next call goes on.
\<close>

definition strtok :: "(char \<Rightarrow> bool) \<Rightarrow> char_array \<Rightarrow> nat \<Rightarrow> (string option \<times> char_array \<times> nat) res" where
  "strtok delim a p = rbind (string_at a p) (\<lambda>s.
     let t = dropWhile delim s;
         tok = takeWhile (\<lambda>c. \<not> delim c) t;
         e = p + (length s - length t) + length tok
     in Inr (if t = [] then (None, a, p + length s)
             else if length tok < length t then (Some tok, a[e := Some NUL], Suc e)
             else (Some tok, a, e)))"

section \<open>State\<close>

datatype client_effect =
    Show string
  | Perror string
  | ToServer string
  | Shutdown
  | CloseConnection

text \<open>
  Where \<open>main\<close> is: at the prompt for a name, in the \<open>recv\<close> of the login, at the condition of the
  command loop, in \<open>select\<close>, in the \<open>pthread_join\<close> after the loop or in that of
  \<open>cleanup_and_exit\<close>, or at its end; and where the thread is that receives.
\<close>

datatype main_pc = AskName | AwaitReply | LoopTop | InSelect | Joining | Leaving | Returned int

datatype receiver_pc = NotCreated | AtLoop | InRecv | Finished

record chat_client =
  k_name :: char_array
  k_input :: char_array
  k_buffer :: char_array
  k_message :: "string option"
  k_running :: bool
  k_exit :: bool
  k_files :: "string list"
  k_main :: main_pc
  k_receiver :: receiver_pc
  k_out :: "client_effect list"

definition show_all :: "client_effect list \<Rightarrow> chat_client \<Rightarrow> chat_client" where
  "show_all es k = k\<lparr>k_out := k_out k @ es\<rparr>"

text \<open>The escape sequences of the colours.\<close>

definition paint :: "string \<Rightarrow> string \<Rightarrow> string" where
  "paint colour s = CHR 0x1B # colour @ s @ CHR 0x1B # ''[0m''"

definition RED :: string where "RED = ''[31m''"
definition GREEN :: string where "GREEN = ''[32m''"
definition YELLOW :: string where "YELLOW = ''[33m''"
definition BLUE :: string where "BLUE = ''[34m''"
definition MAGENTA :: string where "MAGENTA = ''[35m''"
definition CYAN :: string where "CYAN = ''[36m''"
definition BOLD :: string where "BOLD = ''[1m''"

definition say :: "string \<Rightarrow> string \<Rightarrow> client_effect" where
  "say colour s = Show (paint colour (s @ nl))"

definition prompt :: client_effect where
  "prompt = Show (paint BOLD ''> '')"

definition in_quotes :: "string \<Rightarrow> string" where
  "in_quotes s = sq @ s @ sq"

section \<open>The table of received files\<close>

fun file_already_received :: "string \<Rightarrow> string list \<Rightarrow> bool" where
  "file_already_received f [] = False"
| "file_already_received f (g # gs) = (if g = f then True else file_already_received f gs)"

definition add_received_file :: "string \<Rightarrow> string list \<Rightarrow> string list" where
  "add_received_file f fs =
     (if length fs < CLIENT_RECEIVED_FILES then fs @ [take (MAX_BUFFER - 1) f] else fs)"

lemma file_already_received_iff: "file_already_received f fs \<longleftrightarrow> f \<in> set fs"
  by (induction fs) auto

interpretation own_files: file_table add_received_file file_already_received "\<lambda>fs. fs"
    CLIENT_RECEIVED_FILES "MAX_BUFFER - 1"
  by unfold_locales (auto simp: file_already_received_iff add_received_file_def)

section \<open>The menu\<close>

definition menu_line :: "string \<Rightarrow> string \<Rightarrow> client_effect" where
  "menu_line cmd rest = Show ('' '' @ paint GREEN cmd @ rest @ nl)"

definition display_command_menu :: "client_effect list" where
  "display_command_menu =
     [Show (nl @ paint CYAN ''Available Commands'' @ nl),
      menu_line ''/join'' '' <room_name>                      - Join a chat room'',
      menu_line ''/leave'' ''                                 - Leave current room'',
      menu_line ''/broadcast'' '' <message>                   - Send message to room'',
      menu_line ''/whisper'' '' <username> <message>          - Private message'',
      menu_line ''/sendfile'' '' <file> <user>                - Send file'',
      menu_line ''/menu'' ''                                  - Show this menu'',
      menu_line ''/exit'' ''                                  - Disconnect'']"

section \<open>Messages of the server\<close>

text \<open>
  \<open>(double) n / (1024 * 1024)\<close> printed with \<open>%.2f\<close>: the conversion rounds a number of more than
  53 bits, the division by a power of two is exact, and the printing rounds to two digits, all
  to the nearest and to even in the middle.
\<close>

fun spacing :: "nat \<Rightarrow> nat" where
  "spacing n = (if n < 9007199254740992 then 1 else 2 * spacing (n div 2))"

declare spacing.simps [simp del]

definition round_half_even :: "nat \<Rightarrow> nat \<Rightarrow> nat" where
  "round_half_even a b =
     (let q = a div b; r = a mod b in
      if 2 * r < b then q else if b < 2 * r then q + 1 else if even q then q else q + 1)"

definition double_of_long :: "int \<Rightarrow> int" where
  "double_of_long n = (let m = nat \<bar>n\<bar>; u = spacing m in sgn n * int (u * round_half_even m u))"

definition size_in_mb :: "int \<Rightarrow> string" where
  "size_in_mb n =
     (let d = double_of_long n; h = round_half_even (100 * nat \<bar>d\<bar>) 1048576
      in (if d < 0 then ''-'' else []) @ dec (h div 100) @ ''.'' @ [digit (h mod 100 div 10), digit (h mod 10)])"

definition scan_at :: "directive list \<Rightarrow> nat \<Rightarrow> chat_client \<Rightarrow> sval list res" where
  "scan_at fmt p k = rbind (string_at (k_buffer k) p) (sscanf fmt)"

text \<open>Two words read into arrays that hold empty strings.\<close>

definition two_words :: "sval list \<Rightarrow> string \<times> string" where
  "two_words vs = (case vs of VS a # VS b # _ \<Rightarrow> (a, b) | VS a # _ \<Rightarrow> (a, []) | _ \<Rightarrow> ([], []))"

definition one_word :: "sval list \<Rightarrow> string" where
  "one_word vs = (case vs of [VS a] \<Rightarrow> a | _ \<Rightarrow> [])"

definition one_number :: "sval list \<Rightarrow> int" where
  "one_number vs = (case vs of [VI n] \<Rightarrow> n | _ \<Rightarrow> 0)"

text \<open>
  The branch of a chat message. The array \<open>message\<close> is shared by all turns and keeps its string
  when \<open>sscanf\<close> finds nothing.
\<close>

definition on_chat :: "chat_client \<Rightarrow> chat_client res" where
  "on_chat k =
     rbind (scan_at [ScanL MAX_MESSAGE_SIZE] 13 k) (\<lambda>vs.
       let k1 = (case vs of [VS t] \<Rightarrow> k\<lparr>k_message := Some t\<rparr> | _ \<Rightarrow> k) in
       case k_message k1 of
         None \<Rightarrow> Inl UninitRead
       | Some t \<Rightarrow> Inr (show_all [say GREEN ''[Server]: You received a chat message.'', say MAGENTA t] k1))"

text \<open>
  The branch of a whisper: the name is scanned into \<open>sender\<close>, the text is scanned into \<open>message\<close>,
  and what is shown is what follows the first space after the keyword.
\<close>

definition on_whisper :: "chat_client \<Rightarrow> chat_client res" where
  "on_whisper k =
     rbind (scan_at (map Lit ''WHISPER_MESSAGE'' @ [WS, ScanS MAX_USERNAME, WS, ScanL MAX_MESSAGE_SIZE]) 0 k) (\<lambda>vs.
     rbind (string_at (k_buffer k) 16) (\<lambda>rest.
       let content = (case strchr rest (CHR '' '') of None \<Rightarrow> [] | Some t \<Rightarrow> tl t);
           k1 = (case vs of [VS u, VS t] \<Rightarrow> k\<lparr>k_message := Some t\<rparr> | _ \<Rightarrow> k)
       in case vs of
            VS sender # _ \<Rightarrow>
              Inr (show_all [say GREEN (''[Server]: You received a whisper from '' @ in_quotes sender),
                             say MAGENTA (''['' @ sender @ '']: '' @ content)] k1)
          | _ \<Rightarrow> Inl UninitRead))"

text \<open>The messages about rooms, \<open>what\<close> being what the user named in them did.\<close>

definition on_member :: "nat \<Rightarrow> string \<Rightarrow> chat_client \<Rightarrow> chat_client res" where
  "on_member p what k =
     rbind (scan_at [ScanS MAX_USERNAME, WS, ScanS MAX_ROOM_NAME] p k) (\<lambda>vs.
       let (user, room_name) = two_words vs in
       Inr (show_all [say CYAN (''['' @ room_name @ '']: '' @ in_quotes user @ what)] k))"

definition on_joined :: "chat_client \<Rightarrow> chat_client res" where
  "on_joined k = rbind (scan_at [WS, ScanS MAX_ROOM_NAME] 9 k) (\<lambda>vs.
     Inr (show_all [say GREEN (''[Server]: You joined the room '' @ in_quotes (one_word vs))] k))"

definition on_whisper_sent :: "chat_client \<Rightarrow> chat_client res" where
  "on_whisper_sent k = rbind (scan_at [WS, ScanS MAX_USERNAME] 12 k) (\<lambda>vs.
     Inr (show_all [say GREEN (''[Server]: Message sent to '' @ in_quotes (one_word vs))] k))"

text \<open>The messages about files.\<close>

definition on_large :: "chat_client \<Rightarrow> chat_client res" where
  "on_large k = rbind (scan_at [ScanD None 64] 14 k) (\<lambda>vs.
     Inr (show_all [say RED (''[Error]: File is too large ('' @ size_in_mb (one_number vs) @ '' MB).'')] k))"

definition on_queued :: "chat_client \<Rightarrow> chat_client res" where
  "on_queued k = rbind (scan_at [ScanD None 32] 12 k) (\<lambda>vs.
     Inr (show_all [say CYAN (''[File Transfer]: Your file has been added to the queue. Position: ''
       @ fmt_d (one_number vs) @ ''/'' @ fmt_d (int CLIENT_FILE_QUEUE))] k))"

definition on_started :: "chat_client \<Rightarrow> chat_client res" where
  "on_started k = rbind (scan_at [ScanS MAX_BUFFER, WS, ScanD None 32] 22 k) (\<lambda>vs.
     let (filename, seconds) = (case vs of [VS f, VI n] \<Rightarrow> (f, n) | [VS f] \<Rightarrow> (f, 0) | _ \<Rightarrow> ([], 0)) in
     Inr (show_all [say GREEN (''[File Transfer]: Your file '' @ in_quotes filename
       @ '' started upload after '' @ fmt_d seconds @ '' seconds in queue.'')] k))"

definition on_received :: "chat_client \<Rightarrow> chat_client res" where
  "on_received k = rbind (scan_at [ScanS MAX_USERNAME, WS, ScanS MAX_BUFFER] 14 k) (\<lambda>vs.
     let (sender, filename) = two_words vs;
         told = ''[File Transfer]: You received file '' @ in_quotes filename @ '' from '' @ in_quotes sender
     in Inr (if file_already_received filename (k_files k)
         then show_all [say YELLOW (told @ '' (Note: You already have a file with this name)'')] k
         else show_all [say GREEN told] (k\<lparr>k_files := add_received_file filename (k_files k)\<rparr>)))"

definition on_complete :: "chat_client \<Rightarrow> chat_client res" where
  "on_complete k = rbind (scan_at [ScanS MAX_BUFFER, WS, ScanS MAX_USERNAME] 23 k) (\<lambda>vs.
     let (filename, target) = two_words vs in
     Inr (show_all [say GREEN (''[File Transfer]: File '' @ in_quotes filename @ '' successfully sent to ''
       @ in_quotes target)] k))"

definition on_failed :: "chat_client \<Rightarrow> chat_client res" where
  "on_failed k = rbind (scan_at [ScanS MAX_BUFFER, WS, ScanS MAX_USERNAME, WS, ScanL MAX_BUFFER] 21 k) (\<lambda>vs.
     let (filename, target) = two_words vs;
         reason = (case vs of [VS f, VS t, VS r] \<Rightarrow> r | _ \<Rightarrow> [])
     in Inr (show_all ([say RED (''[File Transfer]: Failed to send file '' @ in_quotes filename @ '' to ''
           @ in_quotes target)]
         @ (if 0 < length reason then [say RED (''[Reason]: '' @ reason)] else [])) k))"

text \<open>
  The chain of conditions of \<open>receive_messages\<close>, in its order and with its repetitions. The two
  messages that end the session leave the loop.
\<close>

definition tell :: "string \<Rightarrow> string \<Rightarrow> chat_client \<Rightarrow> chat_client res" where
  "tell colour t k = Inr (show_all [say colour t] k)"

definition on_shutdown :: "chat_client \<Rightarrow> chat_client res" where
  "on_shutdown k = Inr (show_all [say BLUE ''[Info]: Server is shutting down.'', say YELLOW ''Disconnecting...'']
     (k\<lparr>k_running := False\<rparr>))"

definition on_file_message :: "string \<Rightarrow> chat_client \<Rightarrow> chat_client res" where
  "on_file_message m k =
     (if m = ''WRONG_EXTENSION'' then tell RED ''[Error]: File has an invalid extension.'' k
      else if starts_with ''FILE_IS_LARGE'' m then on_large k
      else if m = ''SEND_TO_SELF'' then tell RED ''[Error]: You cannot send files to yourself.'' k
      else if m = ''ALREADY_IN_ROOM'' then tell RED ''[Error]: You are already in this room.'' k
      else if m = ''SERVER_SHUTDOWN'' then on_shutdown k
      else if m = ''FILE_QUEUE_FULL'' then
        tell YELLOW ''[File Transfer]: Queue is currently full. Please wait...'' k
      else if m = ''FILE_QUEUE_STILL_FULL'' then
        tell RED ''[File Transfer]: Queue is still full, please try again later.'' k
      else if starts_with ''FILE_QUEUED'' m then on_queued k
      else if starts_with ''FILE_TRANSFER_STARTED'' m then on_started k
      else if starts_with ''FILE_RECEIVED'' m then on_received k
      else if starts_with ''FILE_TRANSFER_COMPLETE'' m then on_complete k
      else if starts_with ''FILE_TRANSFER_FAILED'' m then on_failed k
      else Inr k)"

definition handle_message :: "string \<Rightarrow> chat_client \<Rightarrow> chat_client res" where
  "handle_message m k =
     (if starts_with ''CHAT_MESSAGE '' m then on_chat k
      else if m = ''INVALID_ROOM_NAME'' then tell RED ''[Error]: Invalid room name!'' k
      else if starts_with ''JOIN_ROOM'' m then on_joined k
      else if m = ''ROOM_IS_FULL'' then tell RED ''[Error]: The room is full!'' k
      else if m = ''INVALID_ROOM'' then tell RED ''[Error]: Room is invalid'' k
      else if m = ''NOT_IN_ROOM'' then tell RED ''[Error]: You are not in any room'' k
      else if m = ''LEAVE_ROOM'' then tell GREEN ''[Server]: You left the room'' k
      else if starts_with ''MESSAGE_BROADCASTED'' m then tell GREEN ''[Server]: Message sent to room'' k
      else if m = ''CANNOT_WHISPER_SELF'' then tell RED ''[Error]: You cannot whisper to yourself!'' k
      else if starts_with ''WHISPER_MESSAGE'' m then on_whisper k
      else if starts_with ''WHISPER_SENT'' m then on_whisper_sent k
      else if m = ''USER_NOT_FOUND'' then tell RED ''[Error]: User not found!'' k
      else if m = ''LOGOUT'' then
        tell BLUE ''[Server]: Disconnected. Goodbye!'' (k\<lparr>k_running := False\<rparr>)
      else if m = ''ALREADY_IN_ROOM'' then tell RED ''[Error]: You are already in this room.'' k
      else if m = ''SERVER_SHUTDOWN'' then on_shutdown k
      else if starts_with ''USER_JOINED'' m then on_member 12 '' has joined the room'' k
      else if starts_with ''USER_REJOINED'' m then on_member 14 '' has rejoined the room'' k
      else if starts_with ''USER_LEFT'' m then on_member 10 '' has left the room'' k
      else on_file_message m k)"

text \<open>
  A turn of \<open>receive_messages\<close>: \<open>recv\<close> has returned some bytes, or it has returned 0 or failed.
  A message that ends the session also ends the thread, by \<open>break\<close>; the others go back to the
  condition of the loop.
\<close>

definition ends_session :: "string \<Rightarrow> bool" where
  "ends_session m \<longleftrightarrow> m = ''LOGOUT'' \<or> m = ''SERVER_SHUTDOWN''"

definition receive_messages :: "char list \<Rightarrow> chat_client \<Rightarrow> chat_client res" where
  "receive_messages bytes k =
     (let k1 = k\<lparr>k_buffer := fill bytes (k_buffer k)\<rparr> in
      rbind (string_at (k_buffer k1) 0) (\<lambda>m.
      rbind (handle_message m k1) (\<lambda>k2.
        Inr (if ends_session m then k2\<lparr>k_receiver := Finished\<rparr>
             else (if k_running k2 then show_all [prompt] k2 else k2)\<lparr>k_receiver := AtLoop\<rparr>))))"

definition receive_end :: "chat_client \<Rightarrow> chat_client" where
  "receive_end k =
     (if k_running k
      then show_all [say RED ''[Error]: Server disconnected''] (k\<lparr>k_running := False, k_receiver := Finished\<rparr>)
      else k\<lparr>k_receiver := Finished\<rparr>)"

section \<open>Sending\<close>

text \<open>\<open>ok\<close> says whether the \<open>send\<close> of this turn succeeds.\<close>

definition send_command :: "bool \<Rightarrow> string \<Rightarrow> chat_client \<Rightarrow> chat_client" where
  "send_command ok cmd k =
     (if ok then show_all [ToServer cmd] k
      else show_all [say RED ''[Error]: Failed to send command to server''] k)"

text \<open>
  \<open>sizes\<close> gives the size of every file that can be opened, which is all the client looks at:
  the contents of the file are never sent.
\<close>

definition handle_file_send :: "(string \<Rightarrow> int option) \<Rightarrow> bool \<Rightarrow> string \<Rightarrow> string \<Rightarrow> chat_client \<Rightarrow> chat_client" where
  "handle_file_send sizes ok filename target_user k =
     (case sizes filename of
        None \<Rightarrow> show_all [say RED (''[Error]: File '' @ in_quotes filename @ '' does not exist or cannot be read'')] k
      | Some file_size \<Rightarrow>
          show_all [say CYAN (''[File Transfer]: Requested to send '' @ in_quotes filename @ '' ('' @ fmt_d file_size
              @ '' Bytes) to '' @ in_quotes target_user)]
            (send_command ok (snprintf MAX_BUFFER (''/sendfile '' @ filename @ '' '' @ fmt_prec 16 target_user @ '' ''
              @ fmt_d file_size)) k))"

section \<open>The command loop\<close>

definition client_join :: "bool \<Rightarrow> chat_client \<Rightarrow> chat_client res" where
  "client_join ok k = rbind (string_at (k_input k) 6) (\<lambda>r.
     let rest = dropWhile isspace r in
     Inr (if rest = [] then show_all [say RED ''Usage: /join <room_name>''] k
          else send_command ok (snprintf MAX_BUFFER (''/join '' @ rest)) k))"

definition client_broadcast :: "bool \<Rightarrow> chat_client \<Rightarrow> chat_client res" where
  "client_broadcast ok k = rbind (string_at (k_input k) 11) (\<lambda>msg.
     Inr (if length msg = 0 then show_all [say RED ''Usage: /broadcast <message>''] k
          else send_command ok (snprintf MAX_BUFFER (''/broadcast '' @ msg)) k))"

definition is_blank :: "char \<Rightarrow> bool" where
  "is_blank c \<longleftrightarrow> c = CHR '' ''"

definition client_sendfile :: "(string \<Rightarrow> int option) \<Rightarrow> bool \<Rightarrow> nat \<Rightarrow> chat_client \<Rightarrow> chat_client res" where
  "client_sendfile sizes ok p k =
     rbind (strtok is_blank (k_input k) p) (\<lambda>(filename, a1, p1).
     rbind (strtok is_blank a1 p1) (\<lambda>(target_user, a2, p2).
       let k1 = k\<lparr>k_input := a2\<rparr> in
       Inr (case (filename, target_user) of
              (Some f, Some t) \<Rightarrow> handle_file_send sizes ok f t k1
            | _ \<Rightarrow> show_all [say RED ''Usage: /sendfile <filename> <username>''] k1)))"

definition client_whisper :: "bool \<Rightarrow> nat \<Rightarrow> chat_client \<Rightarrow> chat_client res" where
  "client_whisper ok p k =
     rbind (strtok is_blank (k_input k) p) (\<lambda>(target_user, a1, p1).
     rbind (strtok (\<lambda>c. False) a1 p1) (\<lambda>(message, a2, p2).
       let k1 = k\<lparr>k_input := a2\<rparr> in
       Inr (case (target_user, message) of
              (Some t, Some msg) \<Rightarrow> send_command ok (snprintf MAX_BUFFER (''/whisper '' @ t @ '' '' @ msg)) k1
            | _ \<Rightarrow> show_all [say RED ''Usage: /whisper <username> <message>''] k1)))"

definition client_exit :: "bool \<Rightarrow> chat_client \<Rightarrow> chat_client res" where
  "client_exit ok k = rbind (string_at (k_input k) 0) (\<lambda>cmd.
     Inr ((send_command ok cmd (show_all [say YELLOW ''Disconnecting...''] k))
       \<lparr>k_running := False, k_exit := True, k_main := Joining\<rparr>))"

definition client_leave :: "bool \<Rightarrow> chat_client \<Rightarrow> chat_client res" where
  "client_leave ok k = rbind (string_at (k_input k) 0) (\<lambda>cmd. Inr (send_command ok cmd k))"

text \<open>A line that begins with a slash: \<open>strtok (input, " ")\<close> and the chain of commands.\<close>

definition client_command :: "(string \<Rightarrow> int option) \<Rightarrow> bool \<Rightarrow> chat_client \<Rightarrow> chat_client res" where
  "client_command sizes ok k =
     rbind (strtok is_blank (k_input k) 0) (\<lambda>(token, a, p).
       let k1 = k\<lparr>k_input := a\<rparr> in
       case token of
         None \<Rightarrow> Inl NullDeref
       | Some command \<Rightarrow>
           if command = ''/exit'' then client_exit ok k1
           else if command = ''/join'' then client_join ok k1
           else if command = ''/sendfile'' then client_sendfile sizes ok p k1
           else if command = ''/leave'' then client_leave ok k1
           else if command = ''/broadcast'' then client_broadcast ok k1
           else if command = ''/whisper'' then client_whisper ok p k1
           else if command = ''/menu'' then Inr (show_all display_command_menu k1)
           else tell RED (''[Error]: Unknown command: '' @ command) k1)"

text \<open>
  A turn of the command loop in which \<open>fgets\<close> has read some bytes. An empty line shows the prompt
  whether or not the session is still running.
\<close>

definition typed_line :: "(string \<Rightarrow> int option) \<Rightarrow> bool \<Rightarrow> char list \<Rightarrow> chat_client \<Rightarrow> chat_client res" where
  "typed_line sizes ok bytes k =
     (let k1 = k\<lparr>k_input := chop_line bytes (fill bytes (k_input k)), k_main := LoopTop\<rparr> in
      rbind (string_at (k_input k1) 0) (\<lambda>input.
        if length input = 0 then Inr (show_all [prompt] k1)
        else rbind (if starts_with ''/'' input then client_command sizes ok k1
                    else tell RED (''[Error]: Commands must start with '' @ in_quotes ''/'' @ ''.'') k1)
          (\<lambda>k2. Inr (if k_running k2 then show_all [prompt] k2 else k2))))"

section \<open>The start and the login\<close>

text \<open>The globals, zero, and the arrays on the stacks, not yet written.\<close>

definition fresh_client :: chat_client where
  "fresh_client = \<lparr>k_name = replicate MAX_BUFFER (Some NUL), k_input = replicate MAX_BUFFER None,
     k_buffer = replicate MAX_BUFFER None, k_message = None, k_running = True, k_exit = False,
     k_files = [], k_main = AskName, k_receiver = NotCreated, k_out = []\<rparr>"

definition ask_name :: client_effect where
  "ask_name = Show ''Enter your username: ''"

definition give_up :: "client_effect list \<Rightarrow> chat_client \<Rightarrow> chat_client" where
  "give_up es k = show_all es (k\<lparr>k_main := Returned 1\<rparr>)"

text \<open>
  \<open>main\<close> up to the first prompt. Whether \<open>socket\<close> and \<open>connect\<close> succeed, and which addresses
  \<open>inet_pton\<close> accepts, are arguments.
\<close>

definition start_client :: "string list \<Rightarrow> bool \<Rightarrow> (string \<Rightarrow> bool) \<Rightarrow> bool \<Rightarrow> chat_client res" where
  "start_client argv socket_ok is_ip connected =
     (case argv of
        [prog, server_ip, port_arg] \<Rightarrow>
          rbind (atoi port_arg) (\<lambda>port. Inr
            (if port \<le> 0 \<or> 65535 < port then give_up [say RED ''Error: Invalid port number''] fresh_client
             else if \<not> socket_ok then give_up [Perror (paint RED ''Socket creation failed'')] fresh_client
             else if \<not> is_ip server_ip then
               give_up [say RED ''Error: Invalid IP address'', CloseConnection] fresh_client
             else let es = [say YELLOW (''Connecting to server '' @ server_ip @ '':'' @ fmt_d port @ ''...'')] in
               if \<not> connected then give_up (es @ [Perror (paint RED ''Connection failed''), CloseConnection]) fresh_client
               else show_all (es @ [say GREEN ''Connected to server successfully!'', ask_name]) fresh_client))
      | prog # args \<Rightarrow> Inr (give_up [say RED (''Usage: '' @ prog @ '' <server_ip> <port>'')] fresh_client)
      | [] \<Rightarrow> Inl NullDeref)"

text \<open>
  \<open>cleanup_and_exit\<close>: it waits for the thread that receives, if there is one. The exit status
  is 0.
\<close>

definition cleanup_and_exit :: "chat_client \<Rightarrow> chat_client" where
  "cleanup_and_exit k =
     show_all [Shutdown] (k\<lparr>k_running := False,
       k_main := (if k_receiver k = NotCreated then Returned 0 else Leaving)\<rparr>)"

text \<open>A name has been typed; no input is left when there is none.\<close>

definition name_typed :: "char list \<Rightarrow> chat_client \<Rightarrow> chat_client res" where
  "name_typed bytes k =
     (let k1 = k\<lparr>k_name := chop_line bytes (fill bytes (k_name k))\<rparr> in
      rbind (string_at (k_name k1) 0) (\<lambda>name. Inr (show_all [ToServer name] (k1\<lparr>k_main := AwaitReply\<rparr>))))"

text \<open>
  The answer of the server. \<open>created\<close> says whether the thread that receives can be created; if
  not, the value of \<open>receive_thread\<close>, which \<open>cleanup_and_exit\<close> reads, is not specified.
\<close>

definition login_reply :: "char list \<Rightarrow> bool \<Rightarrow> chat_client \<Rightarrow> chat_client res" where
  "login_reply bytes created k =
     (let response = cstr bytes in
      if response = ''USERNAME_TAKEN'' then
        Inr (show_all [say RED ''[Error] Username already taken. Choose another.'', ask_name] (k\<lparr>k_main := AskName\<rparr>))
      else if response = ''INVALID_USERNAME'' then
        Inr (show_all [say RED ''[Error]: Invalid username!'', ask_name] (k\<lparr>k_main := AskName\<rparr>))
      else if response = ''WELCOME'' then
        rbind (string_at (k_name k) 0) (\<lambda>name.
          let k1 = show_all (say GREEN (''Login successful! Welcome '' @ name) # display_command_menu) k in
          if created then Inr (show_all [prompt] (k1\<lparr>k_main := LoopTop, k_receiver := AtLoop\<rparr>))
          else Inl UninitRead)
      else if response = ''SERVER_FULL'' then
        Inr (give_up [say RED ''[Error]: Server is full!'', CloseConnection] k)
      else Inr (give_up [say RED (''[Error]: Unexpected server response: '' @ response), CloseConnection] k))"

definition login_lost :: "chat_client \<Rightarrow> chat_client" where
  "login_lost k = give_up [say RED ''[Error]: Server disconnected during authentication.'', CloseConnection] k"

section \<open>Signals and the end\<close>

text \<open>The numbers of SIGHUP, SIGINT and SIGTERM.\<close>

definition signal_handler :: "nat \<Rightarrow> chat_client \<Rightarrow> chat_client" where
  "signal_handler sig k =
     (let text = (\<lambda>name. Show (paint YELLOW (nl @ nl @ ''Received '' @ name @ '' signal. Disconnecting...'' @ nl))) in
      if sig = 2 then cleanup_and_exit (show_all [text ''interrupt''] (k\<lparr>k_running := False\<rparr>))
      else if sig = 1 then cleanup_and_exit (show_all [text ''hangup''] (k\<lparr>k_running := False\<rparr>))
      else if sig = 15 then cleanup_and_exit (show_all [text ''termination''] (k\<lparr>k_running := False\<rparr>))
      else k)"

text \<open>The condition of the command loop, and the join of the other thread.\<close>

definition loop_top :: "chat_client \<Rightarrow> chat_client" where
  "loop_top k = (if k_running k then k\<lparr>k_main := InSelect\<rparr> else k\<lparr>k_running := False, k_main := Joining\<rparr>)"

definition joined :: "chat_client \<Rightarrow> chat_client" where
  "joined k =
     (if k_main k = Joining then show_all [CloseConnection] (k\<lparr>k_main := Returned 0\<rparr>)
      else k\<lparr>k_main := Returned 0\<rparr>)"

section \<open>Events\<close>

text \<open>
  One step of one of the two threads. A signal is delivered to the main thread, not while it
  waits in \<open>pthread_join\<close>.
\<close>

datatype client_event =
    NameTyped "char list"
  | NoName
  | LoginReply "char list" bool
  | LoginLost
  | LoopCheck
  | Typed "char list" bool
  | NoInput
  | ReceiverCheck
  | Received "char list"
  | ServerGone
  | Joined
  | Signal nat

definition some_bytes :: "char list \<Rightarrow> bool" where
  "some_bytes bs \<longleftrightarrow> bs \<noteq> [] \<and> length bs < MAX_BUFFER"

fun client_enabled :: "client_event \<Rightarrow> chat_client \<Rightarrow> bool" where
  "client_enabled (NameTyped bs) k = (k_main k = AskName \<and> some_bytes bs)"
| "client_enabled NoName k = (k_main k = AskName)"
| "client_enabled (LoginReply bs created) k = (k_main k = AwaitReply \<and> some_bytes bs)"
| "client_enabled LoginLost k = (k_main k = AwaitReply)"
| "client_enabled LoopCheck k = (k_main k = LoopTop)"
| "client_enabled (Typed bs ok) k = (k_main k = InSelect \<and> some_bytes bs)"
| "client_enabled NoInput k = (k_main k = InSelect)"
| "client_enabled ReceiverCheck k = (k_receiver k = AtLoop)"
| "client_enabled (Received bs) k = (k_receiver k = InRecv \<and> some_bytes bs)"
| "client_enabled ServerGone k = (k_receiver k = InRecv)"
| "client_enabled Joined k = (k_main k \<in> {Joining, Leaving} \<and> k_receiver k = Finished)"
| "client_enabled (Signal n) k = (k_main k \<in> {AskName, AwaitReply, LoopTop, InSelect})"

fun client_step :: "(string \<Rightarrow> int option) \<Rightarrow> client_event \<Rightarrow> chat_client \<Rightarrow> chat_client res" where
  "client_step sizes (NameTyped bs) k = name_typed bs k"
| "client_step sizes NoName k = Inr (cleanup_and_exit k)"
| "client_step sizes (LoginReply bs created) k = login_reply bs created k"
| "client_step sizes LoginLost k = Inr (login_lost k)"
| "client_step sizes LoopCheck k = Inr (loop_top k)"
| "client_step sizes (Typed bs ok) k = typed_line sizes ok bs k"
| "client_step sizes NoInput k = Inr (k\<lparr>k_main := LoopTop\<rparr>)"
| "client_step sizes ReceiverCheck k =
     Inr (k\<lparr>k_receiver := (if k_running k then InRecv else Finished)\<rparr>)"
| "client_step sizes (Received bs) k = receive_messages bs k"
| "client_step sizes ServerGone k = Inr (receive_end k)"
| "client_step sizes Joined k = Inr (joined k)"
| "client_step sizes (Signal n) k = Inr (signal_handler n k)"

fun run_client :: "(string \<Rightarrow> int option) \<Rightarrow> client_event list \<Rightarrow> chat_client \<Rightarrow> chat_client res option" where
  "run_client sizes [] k = Some (Inr k)"
| "run_client sizes (e # es) k =
     (if client_enabled e k
      then (case client_step sizes e k of Inl u \<Rightarrow> Some (Inl u) | Inr k1 \<Rightarrow> run_client sizes es k1) else None)"

end
