(* ===== verification/C_Text.thy ===== *)
theory C_Text
  imports C_Base
begin

text \<open>
  Text read by lines and by words: the loops that the log searcher and the processor simulator
  have for it, and the library functions \<open>fgets\<close> and \<open>sscanf\<close> that do the same.
\<close>

section \<open>Lines\<close>

text \<open>\<open>read_line\<close>: at most \<open>max_len - 1\<close> characters, up to and including a newline.\<close>

fun read_line :: "nat \<Rightarrow> string \<Rightarrow> string \<times> string" where
  "read_line 0 s = ([], s)"
| "read_line (Suc k) [] = ([], [])"
| "read_line (Suc k) (c # cs) =
     (if c = LF then ([LF], cs) else (let (l, rest) = read_line k cs in (c # l, rest)))"

lemma read_line_append: "fst (read_line k s) @ snd (read_line k s) = s"
proof (induction k s rule: read_line.induct)
  case (3 k c cs)
  then show ?case by (cases "read_line k cs") auto
qed auto

lemma read_line_length: "0 < k \<Longrightarrow> s \<noteq> [] \<Longrightarrow> length (snd (read_line k s)) < length s"
proof -
  assume "0 < k" "s \<noteq> []"
  then have "fst (read_line k s) \<noteq> []"
    by (cases k; cases s) (auto simp: split_def Let_def)
  moreover have "length (fst (read_line k s)) + length (snd (read_line k s)) = length s"
    by (metis length_append read_line_append)
  ultimately show ?thesis by (cases "fst (read_line k s)") auto
qed

lemma read_line_exact:
  "LF \<notin> set l \<Longrightarrow> length l < k \<Longrightarrow> read_line k (l @ LF # s) = (l @ nl, s)"
proof (induction l arbitrary: k)
  case Nil
  then show ?case by (cases k) (auto simp: nl_def)
next
  case (Cons c l)
  then show ?case by (cases k) (auto simp: Let_def)
qed

lemma read_line_last: "LF \<notin> set l \<Longrightarrow> length l \<le> k \<Longrightarrow> read_line k l = (l, [])"
proof (induction l arbitrary: k)
  case Nil
  then show ?case by (cases k) auto
next
  case (Cons c l)
  then show ?case by (cases k) (auto simp: Let_def)
qed

text \<open>\<open>while (fgets (line, n, f) != NULL)\<close>: the strings that the array holds, one after the other.\<close>

function fgets_lines :: "nat \<Rightarrow> string \<Rightarrow> string list" where
  "fgets_lines n s = (if s = [] \<or> n < 2 then []
     else cstr (fst (read_line (n - 1) s)) # fgets_lines n (snd (read_line (n - 1) s)))"
  by pat_completeness auto
termination
  by (relation "measure (\<lambda>(n, s). length s)") (auto intro!: read_line_length)

declare fgets_lines.simps [simp del]

section \<open>Words\<close>

text \<open>\<open>while (iss >> token)\<close>: the maximal runs of characters that are not white space.\<close>

function tokenize :: "string \<Rightarrow> string list" where
  "tokenize s =
     (let t = dropWhile isspace s in
      if t = [] then [] else takeWhile (\<lambda>c. \<not> isspace c) t # tokenize (dropWhile (\<lambda>c. \<not> isspace c) t))"
  by pat_completeness auto
termination
proof (relation "measure length")
  fix s t :: string
  assume t: "t = dropWhile isspace s" "t \<noteq> []"
  then have "\<not> isspace (hd t)" using hd_dropWhile by metis
  then have "length (dropWhile (\<lambda>c. \<not> isspace c) t) < length t"
    using t(2) by (cases t) (auto simp: less_Suc_eq_le length_dropWhile_le)
  also have "length t \<le> length s" by (simp add: t(1) length_dropWhile_le)
  finally show "(dropWhile (\<lambda>c. \<not> isspace c) t, s) \<in> measure length" by simp
qed simp

declare tokenize.simps [simp del]

definition more_words :: "string list \<Rightarrow> string" where
  "more_words ws = concat (map (\<lambda>w. '' '' @ w) ws)"

definition print_words :: "string list \<Rightarrow> string" where
  "print_words ws = (case ws of [] \<Rightarrow> [] | w # vs \<Rightarrow> w @ more_words vs)"

definition plain_word :: "string \<Rightarrow> bool" where
  "plain_word w \<longleftrightarrow> w \<noteq> [] \<and> (\<forall>c \<in> set w. \<not> isspace c)"

lemma dropWhile_none: "\<forall>c \<in> set w. \<not> P c \<Longrightarrow> dropWhile P (w @ s) = (if w = [] then dropWhile P s else w @ s)"
  by (cases w) auto

lemma tokenize_Nil [simp]: "tokenize [] = []"
  by (simp add: tokenize.simps [of "[]"])

lemma tokenize_more: "\<forall>w \<in> set ws. plain_word w \<Longrightarrow> tokenize (more_words ws) = ws"
proof (induction ws)
  case (Cons w ws)
  then have w: "w \<noteq> []" "\<forall>c \<in> set w. \<not> isspace c" by (auto simp: plain_word_def)
  have sp: "isspace (CHR '' '')" by (simp add: isspace_def)
  have "more_words ws = [] \<or> (\<exists>r. more_words ws = CHR '' '' # r)" by (cases ws) (auto simp: more_words_def)
  then have "tokenize (CHR '' '' # w @ more_words ws) = w # tokenize (more_words ws)"
    using w sp by (subst tokenize.simps) (auto simp: dropWhile_none Let_def takeWhile_append dropWhile_append takeWhile_eq_all_conv)
  with Cons show ?case by (simp add: more_words_def)
qed (simp add: more_words_def)

lemma tokenize_skip: "isspace c \<Longrightarrow> tokenize (c # s) = tokenize s"
  by (subst (1 2) tokenize.simps) simp

lemma tokenize_words: "\<forall>w \<in> set ws. plain_word w \<Longrightarrow> tokenize (print_words ws) = ws"
proof (cases ws)
  case (Cons w vs)
  assume "\<forall>w \<in> set ws. plain_word w"
  then have "tokenize (more_words ws) = ws" by (rule tokenize_more)
  moreover have "more_words ws = CHR '' '' # print_words ws" by (simp add: Cons more_words_def print_words_def)
  ultimately show ?thesis by (simp add: tokenize_skip isspace_def)
qed (simp add: print_words_def)

end
