(* ===== verification/Chat_Client_Properties.thy ===== *)
theory Chat_Client_Properties
  imports Chat_Client C_Text
begin

text \<open>
  What the operations of the chat client compute: the strings in its arrays, the words it scans
  from a message, and the line it sends for a line that has been typed.
\<close>

section \<open>Strings in arrays\<close>

lemma takeWhile_known:
  "NUL \<notin> set s \<Longrightarrow> takeWhile (\<lambda>x. x \<noteq> Some NUL) (map Some s @ Some NUL # rest) = map Some s"
  by (induction s) auto

lemma string_at_known:
  assumes "NUL \<notin> set s" "p = length pre"
  shows "string_at (map Some pre @ map Some s @ Some NUL # rest) p = Inr s"
  using assms by (auto simp: string_at_def takeWhile_known comp_def)

lemma string_at_start: "NUL \<notin> set s \<Longrightarrow> string_at (map Some s @ Some NUL # rest) 0 = Inr s"
  using string_at_known [of s 0 "[]" rest] by simp

lemma string_at_fill:
  assumes "NUL \<notin> set bs" "p \<le> length bs"
  shows "string_at (fill bs a) p = Inr (drop p bs)"
proof -
  have "fill bs a = map Some (take p bs) @ map Some (drop p bs) @ Some NUL # drop (Suc (length bs)) a"
    unfolding fill_def append_assoc [symmetric] map_append [symmetric] by simp
  moreover have "NUL \<notin> set (drop p bs)" using assms(1) in_set_dropD by metis
  ultimately show ?thesis using string_at_known [of "drop p bs" p "take p bs"] assms(2) by simp
qed

text \<open>The line in an array after \<open>fgets\<close> has read a line with its newline, and without.\<close>

lemma chop_fill_newline:
  assumes "LF \<notin> set s" "NUL \<notin> set s"
  shows "chop_line (s @ nl) (fill (s @ nl) a) = map Some s @ Some NUL # Some NUL # drop (Suc (Suc (length s))) a"
proof -
  have "takeWhile (\<lambda>c. c \<noteq> LF \<and> c \<noteq> NUL) (s @ nl) = s"
    using assms by (auto simp: nl_def takeWhile_append)
  moreover have "fill (s @ nl) a = map Some s @ Some LF # Some NUL # drop (Suc (Suc (length s))) a"
    by (simp add: fill_def nl_def)
  ultimately show ?thesis
    using list_update_length [of "map Some s" "Some LF" "Some NUL # drop (Suc (Suc (length s))) a" "Some NUL"]
    by (simp add: chop_line_def)
qed

section \<open>Tokens\<close>

text \<open>\<open>strtok\<close> on strings: the next token, and what is left after the delimiter that ends it.\<close>

definition next_token :: "(char \<Rightarrow> bool) \<Rightarrow> string \<Rightarrow> string option \<times> string" where
  "next_token delim s =
     (let t = dropWhile delim s in
      if t = [] then (None, []) else (Some (takeWhile (\<lambda>c. \<not> delim c) t), tl (dropWhile (\<lambda>c. \<not> delim c) t)))"

lemma strtok_next:
  assumes n: "NUL \<notin> set s" and p: "p = length pre"
  shows "\<exists>pre'. strtok delim (map Some pre @ map Some s @ Some NUL # rest) p =
    Inr (fst (next_token delim s), map Some pre' @ map Some (snd (next_token delim s)) @ Some NUL # rest, length pre')"
proof -
  let ?a = "map Some pre @ map Some s @ Some NUL # rest"
  let ?t = "dropWhile delim s" and ?sep = "takeWhile delim s"
  let ?w = "takeWhile (\<lambda>c. \<not> delim c) ?t" and ?r = "dropWhile (\<lambda>c. \<not> delim c) ?t"
  have at: "string_at ?a p = Inr s" using string_at_known [OF n p] .
  have t: "s = ?sep @ ?t" "?t = ?w @ ?r" by simp_all
  have ls: "length s - length ?t = length ?sep"
    using arg_cong [OF t(1), of length] by (simp only: length_append)
  consider "?t = []" | "?t \<noteq> []" "?r = []" | d r where "?t \<noteq> []" "?r = d # r" by (cases ?r) auto
  then show ?thesis
  proof cases
    case 1
    then have "strtok delim ?a p = Inr (None, ?a, p + length s)" "next_token delim s = (None, [])"
      by (simp_all add: strtok_def at next_token_def Let_def)
    then show ?thesis using p by (intro exI [of _ "pre @ s"]) simp
  next
    case 2
    then have w: "?w = ?t" using t(2) by (metis append_Nil2)
    then have "strtok delim ?a p = Inr (Some ?t, ?a, p + length ?sep + length ?t)"
      unfolding strtok_def at using 2(1) ls by (simp only: rbind_Inr Let_def) simp
    moreover have "next_token delim s = (Some ?t, [])"
      using 2 w by (simp only: next_token_def Let_def if_False list.sel)
    moreover have "length ?sep + length ?t = length s"
      using arg_cong [OF t(1), of length] by (simp only: length_append)
    ultimately show ?thesis using p by (intro exI [of _ "pre @ s"]) simp
  next
    case (3 d r)
    have s: "s = ?sep @ ?w @ d # r" using t 3(2) by metis
    have "?a = map Some (pre @ ?sep @ ?w) @ Some d # map Some r @ Some NUL # rest"
      by (subst (1) s) simp
    then have u: "?a[p + length ?sep + length ?w := Some NUL] =
        map Some (pre @ ?sep @ ?w) @ Some NUL # map Some r @ Some NUL # rest"
      using list_update_length [of "map Some (pre @ ?sep @ ?w)" "Some d" "map Some r @ Some NUL # rest" "Some NUL"]
      by (simp add: p add.assoc)
    have "length ?w < length ?t" using arg_cong [OF t(2), of length] 3(2) by (simp only: length_append) simp
    then have "strtok delim ?a p = Inr (Some ?w, map Some (pre @ ?sep @ ?w) @ Some NUL # map Some r @ Some NUL # rest,
        Suc (p + length ?sep + length ?w))"
      unfolding strtok_def at using 3(1) ls u by (simp only: rbind_Inr Let_def) simp
    moreover have "next_token delim s = (Some ?w, r)" using 3 by (simp add: next_token_def Let_def)
    ultimately show ?thesis using p by (intro exI [of _ "pre @ ?sep @ ?w @ [NUL]"]) simp
  qed
qed

section \<open>Scanning words\<close>

lemma sscanf_plain_word:
  assumes "plain_word w" "r = [] \<or> isspace (hd r)"
  shows "sscanf (ScanS cap # ds) (w @ r) =
    (if cap \<le> length w then Inl BufferOverflow else rbind (sscanf ds r) (\<lambda>vs. Inr (VS w # vs)))"
proof -
  have "skip_ws (w @ r) = w @ r" using assms by (cases w) (auto simp: skip_ws_def plain_word_def)
  moreover have "takeWhile (\<lambda>c. \<not> isspace c) (w @ r) = w"
    using assms by (cases r) (auto simp: plain_word_def takeWhile_append takeWhile_eq_all_conv)
  moreover have "w \<noteq> []" using assms by (simp add: plain_word_def)
  ultimately show ?thesis by (simp add: Let_def)
qed

lemma space_is_space [simp]: "isspace (CHR '' '')"
  by (simp add: isspace_def)

lemma skip_ws_plain_word: "plain_word w \<Longrightarrow> skip_ws (w @ r) = w @ r"
  by (cases w) (auto simp: skip_ws_def plain_word_def)

text \<open>Two words into arrays of given sizes.\<close>

lemma sscanf_two_words:
  assumes "plain_word v" "plain_word w"
  shows "sscanf [ScanS m, WS, ScanS n] (v @ '' '' @ w) =
    (if m \<le> length v \<or> n \<le> length w then Inl BufferOverflow else Inr [VS v, VS w])"
proof -
  have "sscanf [ScanS n] (w @ []) = (if n \<le> length w then Inl BufferOverflow else Inr [VS w])"
    by (subst sscanf_plain_word) (use assms in auto)
  then have w: "sscanf [WS, ScanS n] ('' '' @ w) = (if n \<le> length w then Inl BufferOverflow else Inr [VS w])"
    using skip_ws_plain_word [OF assms(2), of "[]"] by simp
  have "sscanf [ScanS m, WS, ScanS n] (v @ '' '' @ w) =
    (if m \<le> length v then Inl BufferOverflow else rbind (sscanf [WS, ScanS n] ('' '' @ w)) (\<lambda>vs. Inr (VS v # vs)))"
    by (rule sscanf_plain_word) (use assms in auto)
  then show ?thesis unfolding w by simp
qed

lemma sscanf_one_word:
  assumes "plain_word w"
  shows "sscanf [WS, ScanS n] ('' '' @ w) = (if n \<le> length w then Inl BufferOverflow else Inr [VS w])"
proof -
  have "sscanf [ScanS n] (w @ []) = (if n \<le> length w then Inl BufferOverflow else Inr [VS w])"
    by (subst sscanf_plain_word) (use assms in auto)
  then show ?thesis using skip_ws_plain_word [OF assms, of "[]"] by simp
qed

section \<open>Handling a message\<close>

definition arrived :: "string \<Rightarrow> chat_client \<Rightarrow> chat_client" where
  "arrived m k = k\<lparr>k_buffer := fill m (k_buffer k)\<rparr>"

lemma receive_message:
  assumes "NUL \<notin> set m"
  shows "receive_messages m k = rbind (handle_message m (arrived m k)) (\<lambda>k2.
    Inr (if ends_session m then k2\<lparr>k_receiver := Finished\<rparr>
         else (if k_running k2 then show_all [prompt] k2 else k2)\<lparr>k_receiver := AtLoop\<rparr>))"
  using string_at_fill [OF assms, of 0] by (simp add: receive_messages_def Let_def arrived_def)

lemma scan_arrived:
  "NUL \<notin> set m \<Longrightarrow> p \<le> length m \<Longrightarrow> scan_at fmt p (arrived m k) = sscanf fmt (drop p m)"
  by (simp add: scan_at_def arrived_def string_at_fill)

lemma arrived_fields [simp]:
  "k_message (arrived m k) = k_message k" "k_files (arrived m k) = k_files k" "k_out (arrived m k) = k_out k"
  "k_running (arrived m k) = k_running k" "k_main (arrived m k) = k_main k"
  "(arrived m k)\<lparr>k_message := k_message k\<rparr> = arrived m k"
  by (simp_all add: arrived_def)

text \<open>Which messages are chat messages and whispers, and what becomes of them.\<close>

lemma starts_with_same [simp]: "starts_with (c # p) (d # s) \<longleftrightarrow> c = d \<and> starts_with p s" "starts_with [] s"
  "starts_with (c # p) [] = False"
  by (auto simp: starts_with_def)

lemma chat_handled:
  assumes "NUL \<notin> set t" "LF \<notin> set t" "t \<noteq> []"
  shows "handle_message (''CHAT_MESSAGE '' @ t) (arrived (''CHAT_MESSAGE '' @ t) k) =
    (if MAX_MESSAGE_SIZE \<le> length t then Inl BufferOverflow
     else Inr (show_all [say GREEN ''[Server]: You received a chat message.'', say MAGENTA t]
       ((arrived (''CHAT_MESSAGE '' @ t) k)\<lparr>k_message := Some t\<rparr>)))"
proof -
  have "NUL \<notin> set (''CHAT_MESSAGE '' @ t)" using assms by (simp add: NUL_def)
  then have "scan_at [ScanL MAX_MESSAGE_SIZE] 13 (arrived (''CHAT_MESSAGE '' @ t) k) = sscanf [ScanL MAX_MESSAGE_SIZE] t"
    by (subst scan_arrived) simp_all
  moreover have "takeWhile (\<lambda>c. c \<noteq> LF) t = t" using assms by (auto simp: takeWhile_eq_all_conv)
  ultimately show ?thesis using assms(3) by (simp add: handle_message_def on_chat_def Let_def)
qed

lemma whisper_handled:
  assumes u: "plain_word u" "length u < MAX_USERNAME" and n: "NUL \<notin> set u" "NUL \<notin> set t" "LF \<notin> set t"
  shows "handle_message (''WHISPER_MESSAGE '' @ u @ '' '' @ t) (arrived (''WHISPER_MESSAGE '' @ u @ '' '' @ t) k) =
    (if MAX_MESSAGE_SIZE \<le> length (skip_ws t) then Inl BufferOverflow
     else Inr (show_all [say GREEN (''[Server]: You received a whisper from '' @ in_quotes u),
                         say MAGENTA (''['' @ u @ '']: '' @ t)]
       ((arrived (''WHISPER_MESSAGE '' @ u @ '' '' @ t) k)
         \<lparr>k_message := (if skip_ws t = [] then k_message k else Some (skip_ws t))\<rparr>)))"
proof -
  let ?m = "''WHISPER_MESSAGE '' @ u @ '' '' @ t"
  let ?k = "arrived ?m k"
  have m: "NUL \<notin> set ?m" using n by (simp add: NUL_def)
  have at: "string_at (k_buffer ?k) 16 = Inr (u @ '' '' @ t)"
    using string_at_fill [OF m, of 16 "k_buffer k"] by (simp add: arrived_def)
  have "CHR '' '' \<notin> set u" using u by (auto simp: plain_word_def)
  then have c: "strchr (u @ '' '' @ t) (CHR '' '') = Some (CHR '' '' # t)" by (induction u) auto
  have L: "sscanf [WS, ScanL MAX_MESSAGE_SIZE] ('' '' @ t) =
      (if skip_ws t = [] then Inr [] else if MAX_MESSAGE_SIZE \<le> length (skip_ws t) then Inl BufferOverflow
       else Inr [VS (skip_ws t)])"
  proof -
    have "LF \<notin> set (skip_ws t)" using n by (auto simp: skip_ws_def dest: set_dropWhileD)
    then have tw: "takeWhile (\<lambda>c. c \<noteq> LF) (skip_ws t) = skip_ws t"
      by (subst takeWhile_eq_all_conv) auto
    show ?thesis by (simp add: Let_def tw)
  qed
  have "sscanf [ScanS MAX_USERNAME, WS, ScanL MAX_MESSAGE_SIZE] (u @ '' '' @ t) =
      rbind (sscanf [WS, ScanL MAX_MESSAGE_SIZE] ('' '' @ t)) (\<lambda>vs. Inr (VS u # vs))"
    using sscanf_plain_word [OF u(1), of "'' '' @ t"] u(2) by simp
  moreover have "sscanf (WS # ds) ('' '' @ u @ '' '' @ t) = sscanf ds (u @ '' '' @ t)" for ds
    using skip_ws_plain_word [OF u(1)] by simp
  ultimately have "scan_at (map Lit ''WHISPER_MESSAGE'' @ [WS, ScanS MAX_USERNAME, WS, ScanL MAX_MESSAGE_SIZE]) 0 ?k =
      rbind (sscanf [WS, ScanL MAX_MESSAGE_SIZE] ('' '' @ t)) (\<lambda>vs. Inr (VS u # vs))"
    using scan_arrived [OF m, of 0]
      sscanf_lits [of "''WHISPER_MESSAGE''" "[WS, ScanS MAX_USERNAME, WS, ScanL MAX_MESSAGE_SIZE]" "'' '' @ u @ '' '' @ t"]
    by simp
  then show ?thesis
    unfolding L using at c
    by (simp add: handle_message_def on_whisper_def Let_def c_limits)
qed

section \<open>What is sent for a line\<close>

text \<open>The line that is sent, as a function of the line typed.\<close>

definition request_of :: "(string \<Rightarrow> int option) \<Rightarrow> string \<Rightarrow> string option" where
  "request_of sizes s =
     (if \<not> starts_with ''/'' s then None
      else case next_token is_blank s of
        (None, r) \<Rightarrow> None
      | (Some cmd, r) \<Rightarrow>
          if cmd = ''/exit'' \<or> cmd = ''/leave'' then Some cmd
          else if cmd = ''/join'' then
            (let name = dropWhile isspace r in if name = [] then None else Some (snprintf MAX_BUFFER (''/join '' @ name)))
          else if cmd = ''/broadcast'' then (if r = [] then None else Some (snprintf MAX_BUFFER (''/broadcast '' @ r)))
          else if cmd = ''/whisper'' then
            (case next_token is_blank r of
               (Some tgt, msg) \<Rightarrow>
                 if msg = [] then None else Some (snprintf MAX_BUFFER (''/whisper '' @ tgt @ '' '' @ msg))
             | (None, msg) \<Rightarrow> None)
          else if cmd = ''/sendfile'' then
            (case next_token is_blank r of
               (Some f, r1) \<Rightarrow>
                 (case fst (next_token is_blank r1) of
                    Some tgt \<Rightarrow> map_option (\<lambda>n. snprintf MAX_BUFFER (''/sendfile '' @ f @ '' '' @ fmt_prec 16 tgt @ '' ''
                      @ fmt_d n)) (sizes f)
                  | None \<Rightarrow> None)
             | (None, r1) \<Rightarrow> None)
          else None)"

definition requests_in :: "client_effect list \<Rightarrow> string list" where
  "requests_in es = concat (map (\<lambda>e. case e of ToServer m \<Rightarrow> [m] | _ \<Rightarrow> []) es)"

lemma requests_in_simps [simp]:
  "requests_in [] = []" "requests_in (ToServer m # es) = m # requests_in es"
  "requests_in (say c t # es) = requests_in es" "requests_in (prompt # es) = requests_in es"
  "requests_in (es @ fs) = requests_in es @ requests_in fs" "requests_in display_command_menu = []"
  by (simp_all add: requests_in_def say_def prompt_def display_command_menu_def menu_line_def)

text \<open>
  The new requests that a turn makes: it is defined, and adds to the output effects with just
  these requests.
\<close>

definition makes :: "chat_client res \<Rightarrow> chat_client \<Rightarrow> string list \<Rightarrow> bool" where
  "makes m k rs \<longleftrightarrow> (\<exists>k' es. m = Inr k' \<and> k_out k' = k_out k @ es \<and> requests_in es = rs)"

lemma makes_show: "k_out k1 = k_out k \<Longrightarrow> makes (Inr (show_all es k1)) k (requests_in es)"
  by (auto simp: makes_def show_all_def)

lemma makes_send: "k_out k1 = k_out k \<Longrightarrow> makes (Inr (send_command True cmd k1)) k [cmd]"
  by (auto simp: makes_def show_all_def send_command_def)

lemma next_token_no_NUL:
  assumes "NUL \<notin> set s"
  shows "NUL \<notin> set (snd (next_token delim s))"
proof -
  have tl: "set (tl xs) \<subseteq> set xs" for xs :: string by (cases xs) auto
  have dr: "set (dropWhile P xs) \<subseteq> set xs" for P and xs :: string by (auto dest: set_dropWhileD)
  have "set (snd (next_token delim s)) \<subseteq> set s"
    using tl dr by (simp add: next_token_def Let_def) (meson order_trans)
  with assms show ?thesis by auto
qed

text \<open>The first token of a line that begins with a slash.\<close>

lemma strtok_first_more:
  assumes w: "w \<noteq> []" "\<forall>c \<in> set w. \<not> delim c" "delim d" and n: "NUL \<notin> set (w @ d # r)"
  shows "strtok delim (map Some (w @ d # r) @ Some NUL # rest) 0 =
    Inr (Some w, map Some w @ Some NUL # map Some r @ Some NUL # rest, Suc (length w))"
proof -
  have "string_at (map Some (w @ d # r) @ Some NUL # rest) 0 = Inr (w @ d # r)" by (rule string_at_start [OF n])
  moreover have "dropWhile delim (w @ d # r) = w @ d # r" using w by (cases w) auto
  moreover have "takeWhile (\<lambda>c. \<not> delim c) (w @ d # r) = w" using w by (auto simp: takeWhile_append)
  moreover have "(map Some (w @ d # r) @ Some NUL # rest)[length w := Some NUL] =
      map Some w @ Some NUL # map Some r @ Some NUL # rest"
    using list_update_length [of "map Some w" "Some d" "map Some r @ Some NUL # rest" "Some NUL"] by simp
  ultimately show ?thesis by (simp add: strtok_def Let_def del: dropWhile_eq_Nil_conv)
qed

lemma strtok_first_only:
  assumes w: "w \<noteq> []" "\<forall>c \<in> set w. \<not> delim c" and n: "NUL \<notin> set w"
  shows "strtok delim (map Some w @ Some NUL # rest) 0 = Inr (Some w, map Some w @ Some NUL # rest, length w)"
proof -
  have s: "string_at (map Some w @ Some NUL # rest) 0 = Inr w" by (rule string_at_start [OF n])
  have d: "dropWhile delim w = w" using w by (cases w) auto
  have t: "takeWhile (\<lambda>c. \<not> delim c) w = w" using w by (simp add: takeWhile_eq_all_conv)
  show ?thesis using w(1) by (simp add: strtok_def s d t Let_def del: dropWhile_eq_Nil_conv)
qed

text \<open>The commands that go on with the rest r of the line.\<close>

lemma string_at_rest:
  assumes "NUL \<notin> set r" "p = Suc (length w)"
  shows "string_at (map Some w @ Some NUL # map Some r @ Some NUL # rest) p = Inr r"
  using string_at_known [OF assms(1), of p "w @ [NUL]" rest] assms(2) by simp

lemma sendfile_makes:
  assumes a: "k_input k = map Some pre @ map Some r @ Some NUL # rest" "p = length pre" "NUL \<notin> set r"
  shows "makes (client_sendfile sizes True p k) k
    (case next_token is_blank r of
       (Some f, r1) \<Rightarrow>
         (case fst (next_token is_blank r1) of
            Some tgt \<Rightarrow> (case sizes f of None \<Rightarrow> [] | Some n \<Rightarrow>
              [snprintf MAX_BUFFER (''/sendfile '' @ f @ '' '' @ fmt_prec 16 tgt @ '' '' @ fmt_d n)])
          | None \<Rightarrow> [])
     | (None, r1) \<Rightarrow> [])"
proof -
  obtain f r1 where t1: "next_token is_blank r = (f, r1)" by fastforce
  obtain tgt r2 where t2: "next_token is_blank r1 = (tgt, r2)" by fastforce
  have n1: "NUL \<notin> set r1" using next_token_no_NUL [OF a(3), of is_blank] t1 by simp
  obtain pre1 where s1: "strtok is_blank (k_input k) p = Inr (f, map Some pre1 @ map Some r1 @ Some NUL # rest, length pre1)"
    using strtok_next [OF a(3,2), of is_blank rest] t1 by (auto simp: a(1))
  obtain pre2 where s2: "strtok is_blank (map Some pre1 @ map Some r1 @ Some NUL # rest) (length pre1) =
      Inr (tgt, map Some pre2 @ map Some r2 @ Some NUL # rest, length pre2)"
    using strtok_next [OF n1 refl, of is_blank pre1 rest] t2 by auto
  show ?thesis
    by (auto simp: client_sendfile_def s1 s2 t1 t2 handle_file_send_def makes_def show_all_def send_command_def Let_def
        split: option.splits)
qed

lemma whisper_makes:
  assumes a: "k_input k = map Some pre @ map Some r @ Some NUL # rest" "p = length pre" "NUL \<notin> set r"
  shows "makes (client_whisper True p k) k
    (case next_token is_blank r of
       (Some tgt, msg) \<Rightarrow> if msg = [] then [] else [snprintf MAX_BUFFER (''/whisper '' @ tgt @ '' '' @ msg)]
     | (None, msg) \<Rightarrow> [])"
proof -
  obtain tgt msg where t1: "next_token is_blank r = (tgt, msg)" by fastforce
  have n1: "NUL \<notin> set msg" using next_token_no_NUL [OF a(3), of is_blank] t1 by simp
  have "takeWhile (\<lambda>c. True) msg = msg" "dropWhile (\<lambda>c. True) msg = []" "dropWhile (\<lambda>c. False) msg = msg"
    by (simp_all add: takeWhile_eq_all_conv)
  then have t2: "next_token (\<lambda>c. False) msg = (if msg = [] then (None, []) else (Some msg, []))"
    by (simp add: next_token_def Let_def del: dropWhile_eq_Nil_conv)
  obtain pre1 where s1: "strtok is_blank (k_input k) p = Inr (tgt, map Some pre1 @ map Some msg @ Some NUL # rest, length pre1)"
    using strtok_next [OF a(3,2), of is_blank rest] t1 by (auto simp: a(1))
  obtain pre2 where s2: "strtok (\<lambda>c. False) (map Some pre1 @ map Some msg @ Some NUL # rest) (length pre1) =
      Inr (if msg = [] then None else Some msg, map Some pre2 @ Some NUL # rest, length pre2)"
    using strtok_next [OF n1 refl, of "\<lambda>c. False" pre1 rest] t2 by (auto split: if_splits)
  show ?thesis
    by (auto simp: client_whisper_def s1 s2 t1 makes_def show_all_def send_command_def Let_def split: option.splits)
qed

lemma command_makes:
  assumes s: "starts_with ''/'' s" "NUL \<notin> set s"
    and a: "k_input k = map Some s @ Some NUL # Some NUL # rest"
  shows "makes (client_command sizes True k) k (case request_of sizes s of None \<Rightarrow> [] | Some m \<Rightarrow> [m])"
proof -
  let ?w = "takeWhile (\<lambda>c. \<not> is_blank c) s" and ?t = "dropWhile (\<lambda>c. \<not> is_blank c) s"
  have hd: "s \<noteq> []" "\<not> is_blank (hd s)" using s(1) by (cases s; auto simp: is_blank_def)+
  then have w: "?w \<noteq> []" "\<forall>c \<in> set ?w. \<not> is_blank c" "NUL \<notin> set ?w"
    using s(2) by (cases s; auto dest: set_takeWhileD)+
  have dw: "dropWhile is_blank s = s" using hd by (cases s) auto
  then have nt: "next_token is_blank s = (Some ?w, tl ?t)" using hd(1) by (simp add: next_token_def Let_def)
  define r where "r = tl ?t"
  have nr: "NUL \<notin> set r" using next_token_no_NUL [OF s(2), of is_blank] nt by (simp add: r_def)
  obtain p A where A: "strtok is_blank (k_input k) 0 = Inr (Some ?w, A, p)" "string_at A 0 = Inr ?w"
    "string_at A (Suc (length ?w)) = Inr r" "\<exists>pre rest. A = map Some pre @ map Some r @ Some NUL # rest \<and> p = length pre"
  proof (cases ?t)
    case Nil
    have tw: "?w = s" using takeWhile_dropWhile_id [of "\<lambda>c. \<not> is_blank c" s] unfolding Nil by simp
    have k: "k_input k = map Some ?w @ Some NUL # Some NUL # rest" using a by (simp only: tw)
    have r: "r = []" unfolding r_def Nil by simp
    show ?thesis
    proof (rule that [of "map Some ?w @ Some NUL # Some NUL # rest" "length ?w"])
      show "strtok is_blank (k_input k) 0 = Inr (Some ?w, map Some ?w @ Some NUL # Some NUL # rest, length ?w)"
        unfolding k by (rule strtok_first_only [OF w])
      show "string_at (map Some ?w @ Some NUL # Some NUL # rest) 0 = Inr ?w" by (rule string_at_start [OF w(3)])
      show "string_at (map Some ?w @ Some NUL # Some NUL # rest) (Suc (length ?w)) = Inr r"
        using string_at_rest [of "[]" "Suc (length ?w)" ?w rest] r by simp
      show "\<exists>pre rest'. map Some ?w @ Some NUL # Some NUL # rest = map Some pre @ map Some r @ Some NUL # rest' \<and>
          length ?w = length pre"
        by (rule exI [of _ ?w], rule exI [of _ "Some NUL # rest"]) (simp add: r)
    qed
  next
    case (Cons d r')
    then have d: "is_blank d" using hd_dropWhile [of "\<lambda>c. \<not> is_blank c" s] by simp
    have s_eq: "s = ?w @ d # r" using Cons by (metis list.sel(3) r_def takeWhile_dropWhile_id)
    have k: "k_input k = map Some (?w @ d # r) @ Some NUL # Some NUL # rest" using a s_eq by metis
    have n: "NUL \<notin> set (?w @ d # r)" using s(2) s_eq by metis
    let ?A = "map Some ?w @ Some NUL # map Some r @ Some NUL # Some NUL # rest"
    show ?thesis
    proof (rule that [of ?A "Suc (length ?w)"])
      show "strtok is_blank (k_input k) 0 = Inr (Some ?w, ?A, Suc (length ?w))"
        unfolding k by (rule strtok_first_more [OF w(1,2) d n])
      show "string_at ?A 0 = Inr ?w" by (rule string_at_start [OF w(3)])
      show "string_at ?A (Suc (length ?w)) = Inr r" by (rule string_at_rest [OF nr refl])
      show "\<exists>pre rest'. ?A = map Some pre @ map Some r @ Some NUL # rest' \<and> Suc (length ?w) = length pre"
        by (rule exI [of _ "?w @ [NUL]"], rule exI [of _ "Some NUL # rest"]) simp
    qed
  qed
  let ?k = "k\<lparr>k_input := A\<rparr>"
  obtain pre rest' where P: "k_input ?k = map Some pre @ map Some r @ Some NUL # rest'" "p = length pre"
    using A(4) by auto
  have tr: "makes m ?k rs = makes m k rs" for m rs by (simp add: makes_def)
  note W = whisper_makes [OF P nr, unfolded tr] and S = sendfile_makes [OF P nr, of sizes, unfolded tr]
  have C: "client_command sizes True k =
      (if ?w = ''/exit'' then client_exit True ?k else if ?w = ''/join'' then client_join True ?k
       else if ?w = ''/sendfile'' then client_sendfile sizes True p ?k else if ?w = ''/leave'' then client_leave True ?k
       else if ?w = ''/broadcast'' then client_broadcast True ?k else if ?w = ''/whisper'' then client_whisper True p ?k
       else if ?w = ''/menu'' then Inr (show_all display_command_menu ?k)
       else tell RED (''[Error]: Unknown command: '' @ ?w) ?k)"
    by (simp add: client_command_def A(1) Let_def)
  have len: "?w = ''/join'' \<Longrightarrow> Suc (length ?w) = 6" "?w = ''/broadcast'' \<Longrightarrow> Suc (length ?w) = 11"
    by simp_all
  have six: "?w = ''/join'' \<Longrightarrow> string_at A 6 = Inr r" "?w = ''/broadcast'' \<Longrightarrow> string_at A 11 = Inr r"
    using A(3) len by metis+
  consider "?w = ''/exit''" | "?w = ''/join''" | "?w = ''/sendfile''" | "?w = ''/leave''" | "?w = ''/broadcast''"
    | "?w = ''/whisper''" | "?w \<notin> {''/exit'', ''/join'', ''/sendfile'', ''/leave'', ''/broadcast'', ''/whisper''}"
    by blast
  then show ?thesis
  proof cases
    case 6
    then show ?thesis using W s(1) nt by (simp add: C request_of_def r_def split: prod.splits option.splits if_splits)
  next
    case 3
    then show ?thesis using S s(1) nt
      by (simp add: C request_of_def r_def split: prod.splits option.splits)
  qed (use s(1) nt A(2) six in \<open>auto simp: C request_of_def r_def [symmetric] client_exit_def client_join_def
      client_leave_def client_broadcast_def tell_def makes_def show_all_def send_command_def Let_def\<close>)
qed

text \<open>A whole turn: a line of the keyboard without a NUL, ended by a newline.\<close>

lemma typed_makes:
  assumes s: "LF \<notin> set s" "NUL \<notin> set s"
  shows "makes (typed_line sizes True (s @ nl) k) k (case request_of sizes s of None \<Rightarrow> [] | Some m \<Rightarrow> [m])"
proof -
  let ?k = "k\<lparr>k_input := map Some s @ Some NUL # Some NUL # drop (Suc (Suc (length s))) (k_input k), k_main := LoopTop\<rparr>"
  have at: "string_at (map Some s @ Some NUL # Some NUL # drop (Suc (Suc (length s))) (k_input k)) 0 = Inr s"
    by (rule string_at_start [OF s(2)])
  have C: "starts_with ''/'' s \<Longrightarrow> makes (client_command sizes True ?k) k (case request_of sizes s of None \<Rightarrow> [] | Some m \<Rightarrow> [m])"
    using command_makes [of s ?k "drop (Suc (Suc (length s))) (k_input k)" sizes] s(2) by (simp add: makes_def)
  show ?thesis
  proof (cases "starts_with ''/'' s")
    case True
    then have "s \<noteq> []" by auto
    moreover from C [OF True] obtain k' es where K: "client_command sizes True ?k = Inr k'" "k_out k' = k_out k @ es"
      "requests_in es = (case request_of sizes s of None \<Rightarrow> [] | Some m \<Rightarrow> [m])"
      by (auto simp: makes_def)
    ultimately have "typed_line sizes True (s @ nl) k = Inr (if k_running k' then show_all [prompt] k' else k')"
      using True by (simp add: typed_line_def chop_fill_newline [OF s] at Let_def)
    with K(2,3) show ?thesis by (auto simp: makes_def show_all_def)
  next
    case False
    then show ?thesis
      by (auto simp: typed_line_def chop_fill_newline [OF s] at Let_def tell_def makes_def show_all_def request_of_def)
  qed
qed

end
