(* ===== verification/Chat_System.thy ===== *)
theory Chat_System
  imports Chat_Messages Chat_Client_Properties
begin

text \<open>
  The chat server and its client together: what the client makes of the messages of the server,
  what the server makes of the lines of the client, and a message from one user to another from
  the keyboard to the screen. A message is delivered as one piece: the programs have no framing
  of their own.
\<close>

section \<open>Messages of the server at the client\<close>

text \<open>The messages that do not fit the arrays of the client.\<close>

definition overlong :: "string \<Rightarrow> bool" where
  "overlong m \<longleftrightarrow>
     (\<exists>t. m = ''CHAT_MESSAGE '' @ t \<and> MAX_MESSAGE_SIZE \<le> length t) \<or>
     (\<exists>u t. m = ''WHISPER_MESSAGE '' @ u @ '' '' @ t \<and> is_valid_username u \<and> MAX_MESSAGE_SIZE \<le> length (skip_ws t)) \<or>
     (\<exists>f. m = ''FILE_RECEIVED  '' @ f \<and> MAX_USERNAME \<le> length f)"

lemma isalnum_plain: "isalnum c \<Longrightarrow> \<not> isspace c \<and> c \<noteq> NUL \<and> c \<noteq> LF \<and> c \<noteq> CR"
  by (auto simp: isalnum_def isspace_def Let_def NUL_def LF_def CR_def)

lemma valid_username_plain:
  assumes "is_valid_username u"
  shows "plain_word u" "length u < MAX_USERNAME" "NUL \<notin> set u" "LF \<notin> set u" "CR \<notin> set u" "length u \<le> 16"
  using assms isalnum_plain by (force simp: valid_username_iff plain_word_def c_limits)+

lemma valid_room_plain:
  assumes "is_valid_room_name r"
  shows "plain_word r" "length r < MAX_ROOM_NAME" "NUL \<notin> set r" "LF \<notin> set r" "CR \<notin> set r" "length r \<le> 32"
  using assms isalnum_plain by (force simp: valid_room_name_iff plain_word_def c_limits)+

lemma file_name_plain:
  assumes "file_name_ok f"
  shows "plain_word f" "plain_word (take 256 f)" "NUL \<notin> set f" "NUL \<notin> set (take 256 f)" "length (take 256 f) < MAX_BUFFER"
  using assms by (auto simp: file_name_ok_def plain_word_def c_limits dest: in_set_takeD)

lemma max_buffer_256 [simp]: "\<not> MAX_BUFFER \<le> 256"
  by (simp add: c_limits)

lemma fmt_d_plain: "plain_word (fmt_d n)" "NUL \<notin> set (fmt_d n)"
proof -
  have "\<not> isspace c \<and> c \<noteq> NUL" if "c \<in> set (dec m)" for c m
    using dec_digits [OF that] by auto
  then show "plain_word (fmt_d n)" "NUL \<notin> set (fmt_d n)"
    by (auto simp: fmt_d_def plain_word_def isspace_def NUL_def)
qed

lemma sscanf_fmt_d: "in_signed b n \<Longrightarrow> sscanf [ScanD None b] (fmt_d n) = Inr [VI n]"
  using sscanf_d_fmt_d [of b n "[]" "[]"] by simp

abbreviation delivered :: "string \<Rightarrow> chat_client \<Rightarrow> chat_client res" where
  "delivered m k \<equiv> handle_message m (arrived m k)"

lemma fixed_handled: "m \<in> set fixed_messages \<Longrightarrow> \<exists>k'. delivered m k = Inr k'"
proof -
  have "list_all (\<lambda>m. \<exists>k'. delivered m k = Inr k') fixed_messages"
    by (simp add: fixed_messages_def handle_message_def on_file_message_def tell_def on_shutdown_def)
  then show "m \<in> set fixed_messages \<Longrightarrow> \<exists>k'. delivered m k = Inr k'" by (simp add: list_all_iff)
qed

lemma joined_handled:
  assumes "is_valid_room_name r"
  shows "delivered (''JOIN_ROOM '' @ r) k =
    Inr (show_all [say GREEN (''[Server]: You joined the room '' @ in_quotes r)] (arrived (''JOIN_ROOM '' @ r) k))"
proof -
  note R = valid_room_plain [OF assms]
  have "NUL \<notin> set (''JOIN_ROOM '' @ r)" using R by (simp add: NUL_def)
  from scan_arrived [OF this, of 9] show ?thesis
    using sscanf_one_word [OF R(1), of MAX_ROOM_NAME] R(2)
    by (simp add: handle_message_def on_joined_def one_word_def)
qed

lemma member_handled:
  assumes u: "is_valid_username u" and r: "is_valid_room_name r"
  shows "\<exists>k'. delivered (''USER_JOINED '' @ u @ '' '' @ r) k = Inr k'"
    "\<exists>k'. delivered (''USER_REJOINED '' @ u @ '' '' @ r) k = Inr k'"
    "\<exists>k'. delivered (''USER_LEFT '' @ u @ '' '' @ r) k = Inr k'"
proof -
  note U = valid_username_plain [OF u] and R = valid_room_plain [OF r]
  have S: "sscanf [ScanS MAX_USERNAME, WS, ScanS MAX_ROOM_NAME] (u @ '' '' @ r) = Inr [VS u, VS r]"
    using sscanf_two_words [OF U(1) R(1)] U(2) R(2) by simp
  have n: "NUL \<notin> set (''USER_JOINED '' @ u @ '' '' @ r)" "NUL \<notin> set (''USER_REJOINED '' @ u @ '' '' @ r)"
    "NUL \<notin> set (''USER_LEFT '' @ u @ '' '' @ r)" using U R by (simp_all add: NUL_def)
  show "\<exists>k'. delivered (''USER_JOINED '' @ u @ '' '' @ r) k = Inr k'"
    "\<exists>k'. delivered (''USER_REJOINED '' @ u @ '' '' @ r) k = Inr k'"
    "\<exists>k'. delivered (''USER_LEFT '' @ u @ '' '' @ r) k = Inr k'"
    using scan_arrived [OF n(1), of 12] scan_arrived [OF n(2), of 14] scan_arrived [OF n(3), of 10] S
    by (simp_all add: handle_message_def on_member_def two_words_def)
qed

lemma chat_text:
  assumes "is_valid_room_name r" "is_valid_username u" "one_line t"
  defines "x \<equiv> snprintf 1029 (''['' @ r @ ''] '' @ u @ '': '' @ t)"
  shows "NUL \<notin> set x" "LF \<notin> set x" "x \<noteq> []"
proof -
  have "set x \<subseteq> set (''['' @ r @ ''] '' @ u @ '': '' @ t)" by (auto simp: x_def snprintf_def dest: in_set_takeD)
  moreover have "NUL \<notin> set (''['' @ r @ ''] '' @ u @ '': '' @ t)" "LF \<notin> set (''['' @ r @ ''] '' @ u @ '': '' @ t)"
    using valid_room_plain [OF assms(1)] valid_username_plain [OF assms(2)] assms(3)
    by (auto simp: one_line_def NUL_def LF_def)
  ultimately show "NUL \<notin> set x" "LF \<notin> set x" by auto
  show "x \<noteq> []" by (simp add: x_def snprintf_def)
qed

lemma whisper_sent_handled:
  assumes "name_or_none u"
  shows "\<exists>k'. delivered (''WHISPER_SENT '' @ u) k = Inr k'"
proof -
  have n: "NUL \<notin> set (''WHISPER_SENT '' @ u)"
    using assms valid_username_plain(3) by (auto simp: name_or_none_def NUL_def)
  have "\<exists>vs. sscanf [WS, ScanS MAX_USERNAME] ('' '' @ u) = Inr vs"
    using assms sscanf_one_word [OF valid_username_plain(1), of u MAX_USERNAME] valid_username_plain(2) [of u]
    by (cases "u = []") (auto simp: name_or_none_def skip_ws_def)
  then show ?thesis
    using scan_arrived [OF n, of 12] by (auto simp: handle_message_def on_whisper_sent_def)
qed

lemma numbers_handled:
  shows "in_signed 64 n \<Longrightarrow> \<exists>k'. delivered (''FILE_IS_LARGE '' @ fmt_d n) k = Inr k'"
    and "in_signed 32 n \<Longrightarrow> \<exists>k'. delivered (''FILE_QUEUED '' @ fmt_d n) k = Inr k'"
proof -
  have n: "NUL \<notin> set (''FILE_IS_LARGE '' @ fmt_d n)" "NUL \<notin> set (''FILE_QUEUED '' @ fmt_d n)"
    using fmt_d_plain by (simp_all add: NUL_def)
  show "in_signed 64 n \<Longrightarrow> \<exists>k'. delivered (''FILE_IS_LARGE '' @ fmt_d n) k = Inr k'"
    using scan_arrived [OF n(1), of 14] sscanf_fmt_d [of 64 n]
    by (simp add: handle_message_def on_file_message_def on_large_def del: sscanf.simps)
  show "in_signed 32 n \<Longrightarrow> \<exists>k'. delivered (''FILE_QUEUED '' @ fmt_d n) k = Inr k'"
    using scan_arrived [OF n(2), of 12] sscanf_fmt_d [of 32 n]
    by (simp add: handle_message_def on_file_message_def on_queued_def del: sscanf.simps)
qed

lemma started_handled:
  assumes f: "file_name_ok f" and n: "in_signed 32 n"
  shows "\<exists>k'. delivered (''FILE_TRANSFER_STARTED '' @ take 256 f @ '' '' @ fmt_d n) k = Inr k'"
proof -
  note F = file_name_plain [OF f]
  let ?m = "''FILE_TRANSFER_STARTED '' @ take 256 f @ '' '' @ fmt_d n"
  have nul: "NUL \<notin> set ?m" using F fmt_d_plain by (simp add: NUL_def)
  have "sscanf [WS, ScanD None 32] ('' '' @ fmt_d n) = Inr [VI n]"
    using sscanf_fmt_d [OF n] skip_ws_plain_word [OF fmt_d_plain(1), of n "[]"] by simp
  then have "sscanf [ScanS MAX_BUFFER, WS, ScanD None 32] (take 256 f @ '' '' @ fmt_d n) = Inr [VS (take 256 f), VI n]"
    using sscanf_plain_word [OF F(2), of "'' '' @ fmt_d n"] F(5) by simp
  then show ?thesis
    using scan_arrived [OF nul, of 22]
    by (simp add: handle_message_def on_file_message_def on_started_def del: sscanf.simps)
qed

lemma complete_handled:
  assumes f: "file_name_ok f" and u: "name_or_none u"
  shows "\<exists>k'. delivered (''FILE_TRANSFER_COMPLETE '' @ take 256 f @ '' '' @ u) k = Inr k'"
proof -
  note F = file_name_plain [OF f]
  let ?m = "''FILE_TRANSFER_COMPLETE '' @ take 256 f @ '' '' @ u"
  have nul: "NUL \<notin> set ?m" using F u valid_username_plain(3) by (auto simp: NUL_def name_or_none_def)
  have "\<exists>vs. sscanf [WS, ScanS MAX_USERNAME] ('' '' @ u) = Inr vs"
    using u sscanf_one_word [OF valid_username_plain(1), of u MAX_USERNAME] valid_username_plain(2) [of u]
    by (cases "u = []") (auto simp: name_or_none_def skip_ws_def)
  then have "\<exists>vs. sscanf [ScanS MAX_BUFFER, WS, ScanS MAX_USERNAME] (take 256 f @ '' '' @ u) = Inr vs"
    using sscanf_plain_word [OF F(2), of "'' '' @ u"] F(5) by auto
  then show ?thesis
    using scan_arrived [OF nul, of 23]
    by (auto simp: handle_message_def on_file_message_def on_complete_def split_def Let_def simp del: sscanf.simps)
qed

text \<open>
  The message about a received file. A sender that has left the server has no name any more, and
  the client then reads the name of the file into the array of the sender's name.
\<close>

lemma received_handled:
  assumes f: "file_name_ok f" and u: "name_or_none u"
  shows "if u = [] \<and> MAX_USERNAME \<le> length (take 256 f)
    then delivered (''FILE_RECEIVED '' @ u @ '' '' @ take 256 f) k = Inl BufferOverflow
    else \<exists>k'. delivered (''FILE_RECEIVED '' @ u @ '' '' @ take 256 f) k = Inr k'"
proof -
  note F = file_name_plain [OF f]
  let ?m = "''FILE_RECEIVED '' @ u @ '' '' @ take 256 f"
  have nul: "NUL \<notin> set ?m" using F u valid_username_plain(3) by (auto simp: NUL_def name_or_none_def)
  have at: "scan_at fmt 14 (arrived ?m k) = sscanf fmt (u @ '' '' @ take 256 f)" for fmt
    using scan_arrived [OF nul, of 14] by simp
  have H: "delivered ?m k = on_received (arrived ?m k)"
    by (simp add: handle_message_def on_file_message_def)
  consider "u = []" | "is_valid_username u" using u by (auto simp: name_or_none_def)
  then show ?thesis
  proof cases
    case 1
    have "sscanf [ScanS MAX_USERNAME, WS, ScanS MAX_BUFFER] (take 256 f @ []) =
      (if MAX_USERNAME \<le> length (take 256 f) then Inl BufferOverflow else Inr [VS (take 256 f)])"
      by (subst sscanf_plain_word) (use F in \<open>auto simp: skip_ws_def\<close>)
    moreover have "sscanf (ScanS c # ds) ('' '' @ s) = sscanf (ScanS c # ds) s" for c ds s by simp
    ultimately have "sscanf [ScanS MAX_USERNAME, WS, ScanS MAX_BUFFER] ('' '' @ take 256 f) =
      (if MAX_USERNAME \<le> length (take 256 f) then Inl BufferOverflow else Inr [VS (take 256 f)])"
      by (metis append_Nil2)
    then show ?thesis
      unfolding H using at [of "[ScanS MAX_USERNAME, WS, ScanS MAX_BUFFER]"] 1
      by (auto simp: on_received_def Let_def split_def simp del: sscanf.simps)
  next
    case 2
    note U = valid_username_plain [OF 2]
    have "u \<noteq> []" using 2 by auto
    have "sscanf [ScanS MAX_USERNAME, WS, ScanS MAX_BUFFER] (u @ '' '' @ take 256 f) = Inr [VS u, VS (take 256 f)]"
      using sscanf_two_words [OF U(1) F(2)] U(2) F(5) by simp
    then show ?thesis
      unfolding H using at [of "[ScanS MAX_USERNAME, WS, ScanS MAX_BUFFER]"] \<open>u \<noteq> []\<close>
      by (auto simp: on_received_def Let_def split_def simp del: sscanf.simps)
  qed
qed

section \<open>Every message\<close>

lemma overlong_prefix:
  "overlong (''JOIN_ROOM '' @ x) = False" "overlong (''USER_JOINED '' @ x) = False"
  "overlong (''USER_REJOINED '' @ x) = False" "overlong (''USER_LEFT '' @ x) = False"
  "overlong (''WHISPER_SENT '' @ x) = False" "overlong (''FILE_IS_LARGE '' @ x) = False"
  "overlong (''FILE_QUEUED '' @ x) = False" "overlong (''FILE_TRANSFER_STARTED '' @ x) = False"
  "overlong (''FILE_TRANSFER_COMPLETE '' @ x) = False"
  "overlong (''CHAT_MESSAGE '' @ x) \<longleftrightarrow> MAX_MESSAGE_SIZE \<le> length x"
  by (auto simp: overlong_def)

lemmas overlong_prefixes = overlong_prefix [simplified append.simps]

lemma overlong_fixed: "m \<in> set fixed_messages \<Longrightarrow> \<not> overlong m"
proof -
  have "list_all (\<lambda>m. \<not> overlong m) fixed_messages" by (simp add: fixed_messages_def overlong_def)
  then show "m \<in> set fixed_messages \<Longrightarrow> \<not> overlong m" by (simp add: list_all_iff)
qed

lemma space_split:
  "CHR '' '' \<notin> set u \<Longrightarrow> CHR '' '' \<notin> set v \<Longrightarrow> u @ '' '' @ s = v @ '' '' @ t \<Longrightarrow> u = v \<and> s = t"
proof (induction u arbitrary: v)
  case Nil
  then show ?case by (cases v) auto
next
  case (Cons c u)
  then show ?case by (cases v) auto
qed

lemma overlong_whisper:
  assumes "is_valid_username u"
  shows "overlong (''WHISPER_MESSAGE '' @ u @ '' '' @ t) \<longleftrightarrow> MAX_MESSAGE_SIZE \<le> length (skip_ws t)"
proof -
  have sp: "CHR '' '' \<notin> set v" if "is_valid_username v" for v
    using valid_username_plain(1) [OF that] by (auto simp: plain_word_def)
  have "v = u \<and> s = t" if "u @ '' '' @ t = v @ '' '' @ s" "is_valid_username v" for v s
    using space_split [OF sp [OF assms] sp [OF that(2)] that(1)] by simp
  then show ?thesis using assms by (auto simp: overlong_def)
qed

lemma overlong_received:
  assumes "name_or_none u" "plain_word f"
  shows "overlong (''FILE_RECEIVED '' @ u @ '' '' @ f) \<longleftrightarrow> u = [] \<and> MAX_USERNAME \<le> length f"
proof -
  have "u = [] \<or> (\<exists>c cs. u = c # cs \<and> c \<noteq> CHR '' '')"
    using assms(1) valid_username_plain(1) [of u] by (cases u) (auto simp: name_or_none_def plain_word_def)
  then show ?thesis by (auto simp: overlong_def)
qed

lemma message_handled:
  assumes m: "server_message m"
    and n: "\<forall>f n. file_name_ok f \<and> m = snprintf BUFFER_SIZE (''FILE_TRANSFER_STARTED '' @ take 256 f @ '' '' @ fmt_d n)
      \<longrightarrow> in_signed 32 n"
  shows "if overlong m then delivered m k = Inl BufferOverflow else \<exists>k'. delivered m k = Inr k'"
  using m
proof cases
  case fixed
  then show ?thesis using fixed_handled overlong_fixed by simp
next
  case (in_room r)
  then show ?thesis using joined_handled by (simp add: overlong_prefixes)
next
  case (member what u r)
  then show ?thesis using member_handled by (auto simp: overlong_prefixes)
next
  case (chat r u t)
  then show ?thesis using chat_handled [OF chat_text [OF chat(2-4)]] by (simp add: overlong_prefixes)
next
  case (whisper u t)
  note U = valid_username_plain [OF whisper(2)]
  let ?t = "take (4078 - length u) t"
  have eq: "m = ''WHISPER_MESSAGE '' @ u @ '' '' @ ?t"
    using U(6) unfolding whisper(1) by (simp add: snprintf_def c_limits take_Cons')
  have "NUL \<notin> set ?t" "LF \<notin> set ?t" using whisper(3) by (auto simp: one_line_def dest: in_set_takeD)
  then show ?thesis
    unfolding eq using whisper_handled [OF U(1-3), of ?t k] overlong_whisper [OF whisper(2), of ?t] by simp
next
  case (whisper_sent u)
  then show ?thesis using whisper_sent_handled by (simp add: overlong_prefixes)
next
  case (large n)
  then show ?thesis using numbers_handled(1) by (simp add: overlong_prefixes)
next
  case (queued n)
  then show ?thesis using numbers_handled(2) by (simp add: overlong_prefixes)
next
  case (started f x)
  have x: "in_signed 32 x" using n started by blast
  then have "length (fmt_d x) \<le> 20" using length_fmt_d_64 [of x] by (auto simp: in_signed_32 in_signed_64)
  then have eq: "m = ''FILE_TRANSFER_STARTED '' @ take 256 f @ '' '' @ fmt_d x"
    unfolding started(1) by (intro snprintf_short) (simp add: c_limits min_def)
  show ?thesis
    unfolding eq using started_handled [OF started(2) x, of k] by (simp add: overlong_prefixes)
next
  case (received u f)
  show ?thesis
    unfolding received(1) overlong_received [OF received(2) file_name_plain(2) [OF received(3)]]
    by (rule received_handled [OF received(3,2)])
next
  case (complete u f)
  then show ?thesis using complete_handled by (simp add: overlong_prefixes)
qed

lemma server_message_no_NUL:
  assumes "server_message m"
  shows "NUL \<notin> set m"
  using assms
proof cases
  case fixed
  moreover have "list_all (\<lambda>m. NUL \<notin> set m) fixed_messages" by (simp add: fixed_messages_def NUL_def)
  ultimately show ?thesis by (simp add: list_all_iff)
next
  case (member what u r)
  then show ?thesis using valid_username_plain(3) [of u] valid_room_plain(3) [of r] by (auto simp: NUL_def)
next
  case (chat r u t)
  then show ?thesis using chat_text(1) by (simp add: NUL_def)
next
  case (whisper u t)
  then have "NUL \<notin> set (''WHISPER_MESSAGE '' @ u @ '' '' @ t)"
    using valid_username_plain(3) [of u] by (auto simp: one_line_def NUL_def)
  then show ?thesis unfolding whisper(1) snprintf_def using in_set_takeD by metis
next
  case (started f n)
  then have "NUL \<notin> set (''FILE_TRANSFER_STARTED '' @ take 256 f @ '' '' @ fmt_d n)"
    using file_name_plain(4) fmt_d_plain(2) by (simp add: NUL_def)
  then show ?thesis unfolding started(1) snprintf_def using in_set_takeD by metis
next
  case (in_room r)
  then show ?thesis using valid_room_plain(3) [of r] by (simp add: NUL_def)
next
  case (received u f)
  then show ?thesis using file_name_plain(4) [of f] valid_username_plain(3) [of u] by (auto simp: NUL_def name_or_none_def)
next
  case (complete u f)
  then show ?thesis using file_name_plain(4) [of f] valid_username_plain(3) [of u] by (auto simp: NUL_def name_or_none_def)
next
  case (whisper_sent u)
  then show ?thesis using valid_username_plain(3) [of u] by (auto simp: NUL_def name_or_none_def)
qed (use fmt_d_plain(2) in \<open>simp_all add: NUL_def\<close>)

text \<open>
  C8. Whatever the server has sent to a client in a reachable state, a client that receives it as
  one message handles it without undefined behaviour, unless it is a chat message or a whisper of
  1024 characters or more, or a file of 17 characters or more from a sender that has left: then it
  writes past the end of an array. The hypothesis on the times says that no request has waited for
  more seconds than an int holds.
\<close>

theorem client_handles_server:
  assumes s: "reachable s" "Send j m \<in> set (out s)"
    and k: "client_enabled (Received m) k"
    and n: "\<forall>f n. file_name_ok f \<and> m = snprintf BUFFER_SIZE (''FILE_TRANSFER_STARTED '' @ take 256 f @ '' '' @ fmt_d n)
      \<longrightarrow> in_signed 32 n"
  shows "if overlong m then client_step sizes (Received m) k = Inl BufferOverflow
    else \<exists>k'. client_step sizes (Received m) k = Inr k'"
proof -
  have m: "server_message m" using reachable_messages [OF s(1)] s(2) by (auto simp: sends_ok_def)
  show ?thesis
    using message_handled [OF m n, of k] receive_message [OF server_message_no_NUL [OF m], of k] by auto
qed

end
