(* ===== verification/Chat_Requests.thy ===== *)
theory Chat_Requests
  imports Chat_System
begin

text \<open>
  The chat client and the server, from the keyboard on: the line that the client sends for a line
  typed is handled by the server, the two agree on the login, and a whisper typed by one user is
  shown to the other.
\<close>

section \<open>Lines of the client at the server\<close>

text \<open>A line of the keyboard: short, and no white space other than spaces.\<close>

definition typeable :: "string \<Rightarrow> bool" where
  "typeable s \<longleftrightarrow> length s \<le> 4000 \<and> (\<forall>c \<in> set s. c \<noteq> NUL \<and> (isspace c \<longrightarrow> c = CHR '' ''))"

lemma typeable_one_line: "typeable s \<Longrightarrow> LF \<notin> set s" "typeable s \<Longrightarrow> NUL \<notin> set s" "typeable s \<Longrightarrow> one_line s"
proof -
  have "isspace LF" "isspace CR" "LF \<noteq> CHR '' ''" "CR \<noteq> CHR '' ''" by (simp_all add: isspace_def LF_def CR_def)
  then show "typeable s \<Longrightarrow> LF \<notin> set s" "typeable s \<Longrightarrow> NUL \<notin> set s" "typeable s \<Longrightarrow> one_line s"
    by (auto simp: typeable_def one_line_def)
qed

lemma recv_one_line: "one_line m \<Longrightarrow> recv_line m = m"
  by (auto simp: one_line_def recv_line_def takeWhile_eq_all_conv)

text \<open>A part of the line, and the length of parts next to each other.\<close>

lemma next_token_parts:
  assumes "next_token is_blank s = (Some w, r)"
  shows "set w \<subseteq> set s" "set r \<subseteq> set s" "w \<noteq> []" "\<forall>c \<in> set w. c \<noteq> CHR '' ''" "length w + length r \<le> length s"
    "r \<noteq> [] \<Longrightarrow> length w + length r < length s"
proof -
  let ?t = "dropWhile is_blank s"
  have t: "?t \<noteq> []" "w = takeWhile (\<lambda>c. \<not> is_blank c) ?t" "r = tl (dropWhile (\<lambda>c. \<not> is_blank c) ?t)"
    using assms by (auto simp: next_token_def Let_def simp del: dropWhile_eq_Nil_conv split: if_splits)
  have tl: "set (tl xs) \<subseteq> set xs" for xs :: string by (cases xs) auto
  have dr: "set (dropWhile P xs) \<subseteq> set xs" for P and xs :: string by (auto dest: set_dropWhileD)
  show "set w \<subseteq> set s" using t(2) dr by (auto dest!: set_takeWhileD dest: set_dropWhileD)
  show "set r \<subseteq> set s" using t(3) tl dr by (meson order_trans)
  show "w \<noteq> []" using t(1,2) hd_dropWhile [OF t(1)] by (cases ?t) auto
  show "\<forall>c \<in> set w. c \<noteq> CHR '' ''" using t(2) by (auto dest!: set_takeWhileD simp: is_blank_def)
  have "length ?t = length w + length (dropWhile (\<lambda>c. \<not> is_blank c) ?t)"
    unfolding t(2) length_append [symmetric] by simp
  moreover have "length ?t \<le> length s" by (rule length_dropWhile_le)
  ultimately show "length w + length r \<le> length s" "r \<noteq> [] \<Longrightarrow> length w + length r < length s"
    by (cases "dropWhile (\<lambda>c. \<not> is_blank c) ?t"; simp add: t(3))+
qed

lemma typeable_sub: "typeable s \<Longrightarrow> set r \<subseteq> set s \<Longrightarrow> length r \<le> length s \<Longrightarrow> typeable r"
  by (auto simp: typeable_def)

lemma typeable_word: "typeable w \<Longrightarrow> w \<noteq> [] \<Longrightarrow> \<forall>c \<in> set w. c \<noteq> CHR '' '' \<Longrightarrow> plain_word w"
  by (auto simp: typeable_def plain_word_def)

lemma one_line_const: "one_line ''/whisper ''" "one_line ''/sendfile ''" "one_line ''/join ''" "one_line ''/broadcast ''"
  "one_line '' ''" "one_line ''/exit''" "one_line ''/leave''"
  by (simp_all add: one_line_def NUL_def CR_def LF_def)

lemma one_line_append: "one_line (s @ t) \<longleftrightarrow> one_line s \<and> one_line t"
  by (auto simp: one_line_def)

lemma one_line_fmt_d: "one_line (fmt_d n)"
proof -
  have "c \<noteq> CR \<and> c \<noteq> LF" if "\<not> isspace c" for c using that by (auto simp: isspace_def CR_def LF_def)
  then show ?thesis using fmt_d_plain [of n] by (auto simp: one_line_def plain_word_def)
qed

lemma sendfile_args_line:
  assumes f: "plain_word f" "length f < BUFFER_SIZE" and t: "plain_word t" "length t \<le> MAX_USERNAME_LEN"
    and n: "in_signed 64 n"
  shows "sendfile_args (f @ '' '' @ t @ '' '' @ fmt_d n) = Inr (f, t, n)"
proof -
  have 1: "sscanf [WS, ScanD None 64] ('' '' @ fmt_d n) = Inr [VI n]"
    using sscanf_fmt_d [OF n] skip_ws_plain_word [OF fmt_d_plain(1), of n "[]"] by simp
  have "sscanf [ScanS (MAX_USERNAME_LEN + 1), WS, ScanD None 64] (t @ '' '' @ fmt_d n) = Inr [VS t, VI n]"
    by (subst sscanf_plain_word [OF t(1)]) (use 1 t(2) in simp_all)
  then have 2: "sscanf [WS, ScanS (MAX_USERNAME_LEN + 1), WS, ScanD None 64] ('' '' @ t @ '' '' @ fmt_d n) = Inr [VS t, VI n]"
    using skip_ws_plain_word [OF t(1)] by (simp del: sscanf.simps(5,6) add: skip_ws_def)
  have "sscanf [ScanS BUFFER_SIZE, WS, ScanS (MAX_USERNAME_LEN + 1), WS, ScanD None 64] (f @ '' '' @ t @ '' '' @ fmt_d n)
      = Inr [VS f, VS t, VI n]"
    by (subst sscanf_plain_word [OF f(1)]) (use 2 f(2) in simp_all)
  then show ?thesis by (simp add: sendfile_args_def del: sscanf.simps)
qed

lemma snprintf_take_id: "length s < MAX_BUFFER \<Longrightarrow> snprintf MAX_BUFFER s = s"
  by (simp add: snprintf_def)

text \<open>What is sent for a line of the keyboard can be received, and is not malformed.\<close>

lemma request_well_formed:
  assumes s: "typeable s" and m: "request_of sizes s = Some m"
    and sizes: "\<forall>f n. sizes f = Some n \<longrightarrow> in_signed 64 n"
  shows "m \<noteq> []" "length m < BUFFER_SIZE" "\<not> malformed (recv_line m)"
proof -
  obtain cmd r where nt: "next_token is_blank s = (Some cmd, r)" "starts_with ''/'' s"
    using m by (auto simp: request_of_def split: if_splits prod.splits option.splits)
  note N = next_token_parts [OF nt(1)]
  have r: "typeable r" "length r \<le> 4000" using typeable_sub [OF s N(2)] N(5) s by (auto simp: typeable_def)
  have "(m \<noteq> [] \<and> length m < BUFFER_SIZE \<and> \<not> malformed (recv_line m))"
  proof -
    consider "cmd = ''/exit'' \<or> cmd = ''/leave''" | "cmd = ''/join''" | "cmd = ''/broadcast''" | "cmd = ''/whisper''" | "cmd = ''/sendfile''"
      using m nt by (auto simp: request_of_def split: if_splits)
    then show ?thesis
    proof cases
      case 1
      then have "m = cmd" using m nt by (simp add: request_of_def)
      with 1 show ?thesis
        using recv_one_line one_line_const(6,7) by (auto simp: malformed_def c_limits)
    next
      case 2
      let ?n = "dropWhile isspace r"
      have n: "one_line ?n" "length ?n \<le> 4000"
        using one_line_sub [OF typeable_one_line(3) [OF r(1)], of ?n] length_dropWhile_le [of isspace r] r(2)
        by (auto dest: set_dropWhileD)
      have "m = snprintf MAX_BUFFER (''/join '' @ ?n)"
        using m nt 2 by (simp add: request_of_def Let_def split: if_splits)
      then have "m = ''/join '' @ ?n" using n(2) by (simp add: snprintf_def c_limits)
      with n obtain name where name: "m = ''/join '' @ name" "one_line name" "length name \<le> 4000" by blast
      then have "recv_line m = m" using recv_one_line one_line_const(3) by (simp only: one_line_append)
      with name show ?thesis by (simp add: malformed_def c_limits)
    next
      case 3
      then have name: "m = ''/broadcast '' @ r"
        using m nt r by (auto simp: request_of_def snprintf_def c_limits split: if_splits)
      then have "recv_line m = m"
        using recv_one_line one_line_const(4) typeable_one_line(3) [OF r(1)] by (simp only: one_line_append)
      with name r show ?thesis by (simp add: malformed_def c_limits)
    next
      case 4
      then obtain tgt msg where T: "next_token is_blank r = (Some tgt, msg)" "msg \<noteq> []"
        "m = snprintf MAX_BUFFER (''/whisper '' @ tgt @ '' '' @ msg)"
        using m nt by (auto simp: request_of_def split: if_splits prod.splits option.splits)
      note P = next_token_parts [OF T(1)]
      have len: "length tgt + length msg < 4000" using P(6) T(2) r(2) by simp
      then have eq: "m = ''/whisper '' @ tgt @ '' '' @ msg" using T(3) by (simp add: snprintf_def c_limits)
      have "one_line tgt" "one_line msg"
        using typeable_one_line(3) [OF r(1)] one_line_sub P(1,2) by blast+
      then have "recv_line m = m"
        unfolding eq using recv_one_line one_line_const(1,5) by (simp only: one_line_append)
      with eq len show ?thesis by (simp add: malformed_def c_limits)
    next
      case 5
      then obtain f r1 tgt n where T: "next_token is_blank r = (Some f, r1)" "fst (next_token is_blank r1) = Some tgt"
        "sizes f = Some n" "m = snprintf MAX_BUFFER (''/sendfile '' @ f @ '' '' @ fmt_prec 16 tgt @ '' '' @ fmt_d n)"
        using m nt by (auto simp: request_of_def split: if_splits prod.splits option.splits)
      obtain r2 where "next_token is_blank r1 = (Some tgt, r2)" using T(2) by (cases "next_token is_blank r1") auto
      note P = next_token_parts [OF T(1)] and Q = next_token_parts [OF this]
      have n: "in_signed 64 n" using sizes T(3) by blast
      let ?t = "fmt_prec 16 tgt"
      have f: "plain_word f" "length f \<le> 4000"
        using typeable_word [OF typeable_sub [OF r(1) P(1)]] P r(2) by auto
      have "plain_word tgt"
        using typeable_word [OF typeable_sub [OF r(1)]] Q P(2,5) by (meson add_leE order_trans)
      then have t: "plain_word ?t" "length ?t \<le> 16"
        by (auto simp: plain_word_def fmt_prec_def dest: in_set_takeD)
      have eq: "m = ''/sendfile '' @ f @ '' '' @ ?t @ '' '' @ fmt_d n"
        unfolding T(4) using f(2) t(2) length_fmt_d_64 [OF n] by (intro snprintf_take_id) (simp add: c_limits)
      have "one_line f" "one_line tgt"
        using typeable_one_line(3) [OF r(1)] one_line_sub P(1,2) Q(1) by (meson order_trans)+
      then have "one_line ?t" by (auto simp: one_line_def fmt_prec_def dest: in_set_takeD)
      with \<open>one_line f\<close> have "recv_line m = m"
        unfolding eq using recv_one_line one_line_const(2,5) one_line_fmt_d by (simp only: one_line_append)
      moreover have "sendfile_args (drop 10 m) = Inr (f, ?t, n)"
        unfolding eq using sendfile_args_line [OF f(1) _ t(1) _ n] f(2) t(2) by (simp add: c_limits)
      ultimately show ?thesis
        using eq f(2) t(2) length_fmt_d_64 [OF n] by (simp add: malformed_def c_limits)
    qed
  qed
  then show "m \<noteq> []" "length m < BUFFER_SIZE" "\<not> malformed (recv_line m)" by auto
qed

text \<open>
  A turn of the command loop for a line of the keyboard is defined, and whatever it sends, the
  server, in any reachable state in which it waits for a command of that client, handles without
  undefined behaviour: the client never sends one of the malformed lines.
\<close>

theorem typed_line_served:
  assumes s: "typeable line" and k: "k_main k = InSelect"
    and sizes: "\<forall>f n. sizes f = Some n \<longrightarrow> in_signed 64 n"
    and r: "reachable srv" and c: "c < MAX_CLIENTS" "threads srv ! c = Commands"
  shows "client_enabled (Typed (line @ nl) True) k \<and>
    (\<exists>k' es. client_step sizes (Typed (line @ nl) True) k = Inr k' \<and> k_out k' = k_out k @ es \<and>
      (\<forall>m \<in> set (requests_in es). enabled (Recv c m now) srv \<and> (\<exists>t. server_step (Recv c m now) srv = Inr t)))"
proof
  have "some_bytes (line @ nl)" using s by (simp add: some_bytes_def nl_def typeable_def c_limits)
  then show "client_enabled (Typed (line @ nl) True) k" using k by simp
  obtain k' es where K: "client_step sizes (Typed (line @ nl) True) k = Inr k'" "k_out k' = k_out k @ es"
    "requests_in es = (case request_of sizes line of None \<Rightarrow> [] | Some m \<Rightarrow> [m])"
    using typed_makes [OF typeable_one_line(1,2) [OF s], of sizes k] by (auto simp: makes_def)
  have "enabled (Recv c m now) srv \<and> (\<exists>t. server_step (Recv c m now) srv = Inr t)" if "m \<in> set (requests_in es)" for m
  proof -
    have m: "request_of sizes line = Some m" using that K(3) by (auto split: option.splits)
    note W = request_well_formed [OF s m sizes]
    have e: "enabled (Recv c m now) srv" using c W(1,2) by simp
    moreover have "\<not> bad_line (Recv c m now) srv" using W(3) by simp
    ultimately show ?thesis using server_step_ok [OF reachable_ok [OF r] e] by blast
  qed
  with K show "\<exists>k' es. client_step sizes (Typed (line @ nl) True) k = Inr k' \<and> k_out k' = k_out k @ es \<and>
      (\<forall>m \<in> set (requests_in es). enabled (Recv c m now) srv \<and> (\<exists>t. server_step (Recv c m now) srv = Inr t))"
    by blast
qed

section \<open>Login\<close>

lemma name_typed_spec:
  assumes s: "LF \<notin> set s" "NUL \<notin> set s"
  shows "\<exists>k1. name_typed (s @ nl) k = Inr k1 \<and> k_out k1 = k_out k @ [ToServer s] \<and> k_main k1 = AwaitReply \<and>
    string_at (k_name k1) 0 = Inr s"
  using string_at_start [OF s(2)]
  by (auto simp: name_typed_def chop_fill_newline [OF s] Let_def show_all_def)

text \<open>
  C5. The two programs agree on the login: a name that is typed is sent, the server answers it with
  one message, and the client enters its command loop exactly when the server has logged it in
  under that name, which is when the name is valid and free; otherwise both are back where they
  were.
\<close>

theorem login_agreement:
  assumes s: "typeable name" "name \<noteq> []" and k: "k_main k = AskName"
    and r: "reachable srv" "server_running srv" and c: "c < MAX_CLIENTS" "threads srv ! c = Login"
  shows "\<exists>k1 t m k2 es.
    client_step sizes (NameTyped (name @ nl)) k = Inr k1 \<and> k_out k1 = k_out k @ [ToServer name] \<and>
    enabled (Recv c name now) srv \<and> server_step (Recv c name now) srv = Inr t \<and> out t = out srv @ es \<and>
    sent_to (c_socket (clients srv ! c)) es = [m] \<and>
    client_enabled (LoginReply m True) k1 \<and> client_step sizes (LoginReply m True) k1 = Inr k2 \<and>
    (if is_valid_username name \<and> (\<forall>d < MAX_CLIENTS. c_active (clients srv ! d) \<longrightarrow> username (clients srv ! d) \<noteq> name)
     then k_main k2 = LoopTop \<and> threads t ! c = Commands \<and> username (clients t ! c) = name
     else k_main k2 = AskName \<and> threads t ! c = Login)"
proof -
  have line: "recv_line name = name" using recv_one_line typeable_one_line(3) [OF s(1)] by blast
  obtain k1 where K: "name_typed (name @ nl) k = Inr k1" "k_out k1 = k_out k @ [ToServer name]"
    "k_main k1 = AwaitReply" "string_at (k_name k1) 0 = Inr name"
    using name_typed_spec [OF typeable_one_line(1,2) [OF s(1)]] by blast
  have en: "enabled (Recv c name now) srv" using s c by (simp add: typeable_def c_limits)
  let ?good = "is_valid_username name \<and> (\<forall>d < MAX_CLIENTS. c_active (clients srv ! d) \<longrightarrow> username (clients srv ! d) \<noteq> name)"
  obtain t es where T: "login_step c name srv = Inr t" "out t = out srv @ es"
    "if ?good then clients t = (clients srv)[c := (clients srv ! c)\<lparr>username := name\<rparr>] \<and>
        threads t = (threads srv)[c := Commands] \<and> sent_to (c_socket (clients srv ! c)) es = [''WELCOME'']
     else clients t = clients srv \<and> threads t = threads srv \<and>
       sent_to (c_socket (clients srv ! c)) es = [if is_valid_username name then ''USERNAME_TAKEN'' else ''INVALID_USERNAME'']"
    using login_decision [OF r(1) c r(2), of name] unfolding line by blast
  have step: "server_step (Recv c name now) srv = Inr t" using T(1) c(2) by simp
  have len: "c < length (threads srv)" "c < length (clients srv)"
    using sessions_okD(1,2) [OF reachableD(2) [OF r(1)]] c(1) by simp_all
  show ?thesis
  proof (cases ?good)
    case True
    let ?k2 = "show_all [prompt] ((show_all (say GREEN (''Login successful! Welcome '' @ name) # display_command_menu) k1)
      \<lparr>k_main := LoopTop, k_receiver := AtLoop\<rparr>)"
    have "client_step sizes (LoginReply ''WELCOME'' True) k1 = Inr ?k2"
      using K(4) by (simp add: login_reply_def cstr_def NUL_def Let_def)
    moreover have "client_enabled (LoginReply ''WELCOME'' True) k1"
      using K(3) by (simp add: some_bytes_def c_limits)
    moreover have "k_main ?k2 = LoopTop" by (simp add: show_all_def)
    ultimately show ?thesis
      using K(1,2) en step T(2,3) True len unfolding if_P [OF True]
      by (intro exI [of _ k1] exI [of _ t] exI [of _ "''WELCOME''"] exI [of _ ?k2] exI [of _ es]) simp
  next
    case False
    let ?m = "if is_valid_username name then ''USERNAME_TAKEN'' else ''INVALID_USERNAME''"
    obtain k2 where k2: "client_step sizes (LoginReply ?m True) k1 = Inr k2" "k_main k2 = AskName"
      by (cases "is_valid_username name") (auto simp: login_reply_def cstr_def NUL_def Let_def show_all_def)
    moreover have "client_enabled (LoginReply ?m True) k1" using K(3) by (simp add: some_bytes_def c_limits)
    ultimately show ?thesis
      using K(1,2) en step T(2,3) c(2) unfolding if_not_P [OF False]
      by (intro exI [of _ k1] exI [of _ t] exI [of _ ?m] exI [of _ k2] exI [of _ es]) simp
  qed
qed

text \<open>
  An empty name is sent as no bytes at all, so no message reaches the server, and the client waits
  for an answer that does not come.
\<close>

lemma empty_name_sends_nothing:
  "\<exists>k1. client_step sizes (NameTyped nl) k = Inr k1 \<and> k_out k1 = k_out k @ [ToServer []] \<and> k_main k1 = AwaitReply
    \<and> \<not> enabled (Recv c [] now) srv"
  using name_typed_spec [of "[]" k] by auto

section \<open>A whisper from the keyboard to the screen\<close>

lemma next_token_word:
  assumes "w \<noteq> []" "CHR '' '' \<notin> set w"
  shows "next_token is_blank (w @ '' '' @ r) = (Some w, r)"
proof -
  have w: "\<forall>c \<in> set w. \<not> is_blank c" using assms(2) by (auto simp: is_blank_def)
  have "dropWhile is_blank (w @ '' '' @ r) = w @ '' '' @ r" using assms(1) w by (cases w) auto
  moreover have "takeWhile (\<lambda>c. \<not> is_blank c) (w @ '' '' @ r) = w" "dropWhile (\<lambda>c. \<not> is_blank c) (w @ '' '' @ r) = '' '' @ r"
    using w by (auto simp: is_blank_def takeWhile_append dropWhile_append)
  ultimately show ?thesis using assms(1) by (simp add: next_token_def Let_def)
qed

lemma request_whisper:
  assumes v: "v \<noteq> []" "CHR '' '' \<notin> set v" and msg: "msg \<noteq> []" and len: "length v + length msg \<le> 4000"
  shows "request_of sizes (''/whisper '' @ v @ '' '' @ msg) = Some (''/whisper '' @ v @ '' '' @ msg)"
proof -
  have 1: "next_token is_blank (''/whisper '' @ v @ '' '' @ msg) = (Some ''/whisper'', v @ '' '' @ msg)"
    using next_token_word [of "''/whisper''" "v @ '' '' @ msg"] by simp
  have 2: "next_token is_blank (v @ '' '' @ msg) = (Some v, msg)" by (rule next_token_word [OF v])
  have 3: "snprintf MAX_BUFFER (''/whisper '' @ v @ '' '' @ msg) = ''/whisper '' @ v @ '' '' @ msg"
    by (rule snprintf_take_id) (use len in \<open>simp add: c_limits\<close>)
  have 4: "starts_with ''/'' (''/whisper '' @ v @ '' '' @ msg)" by simp
  show ?thesis unfolding request_of_def 1 using 2 3 4 msg by simp
qed

text \<open>The server's step for a whisper to another user that is logged in.\<close>

lemma whisper_step:
  assumes r: "reachable srv" "server_running srv" and c: "c < MAX_CLIENTS" "threads srv ! c = Commands"
    and d: "d < MAX_CLIENTS" "c_active (clients srv ! d)" "username (clients srv ! d) = v" "d \<noteq> c"
    and v: "is_valid_username v" and l: "one_line (''/whisper '' @ v @ '' '' @ msg)"
  shows "\<exists>es. server_step (Recv c (''/whisper '' @ v @ '' '' @ msg) now) srv = Inr (emit es srv) \<and>
    sent_to (c_socket (clients srv ! d)) es =
      [snprintf BUFFER_SIZE (''WHISPER_MESSAGE '' @ username (clients srv ! c) @ '' '' @ msg)]"
proof -
  note U = valid_username_plain [OF v]
  have sp: "CHR '' '' \<notin> set v" "v \<noteq> []" using U(1) by (auto simp: plain_word_def)
  have own: "username (clients srv ! c) \<noteq> v"
    using reachable_ok [OF r(1)] d c sessions_okD(1,4) [OF reachableD(2) [OF r(1)]] sp(2)
    by (auto simp: usernames_ok_def)
  have to: "take MAX_USERNAME_LEN v = v" using U(6) by (simp add: c_limits)
  from whisper_delivery [OF r(1) c sp(2,1), of msg] obtain es where
    es: "cmd_whisper c (v @ '' '' @ msg) srv = Inr (emit es srv)"
    and sent: "\<forall>e < MAX_CLIENTS. c_active (clients srv ! e) \<longrightarrow> sent_to (c_socket (clients srv ! e)) es =
       (if v = username (clients srv ! c) then (if e = c then [''CANNOT_WHISPER_SELF''] else [])
        else if \<forall>e < MAX_CLIENTS. c_active (clients srv ! e) \<longrightarrow> username (clients srv ! e) \<noteq> v
          then (if e = c then [''USER_NOT_FOUND''] else [])
        else if e = c then [snprintf BUFFER_SIZE (''WHISPER_SENT '' @ v)]
        else if username (clients srv ! e) = v
          then [snprintf BUFFER_SIZE (''WHISPER_MESSAGE '' @ username (clients srv ! c) @ '' '' @ msg)] else [])"
    unfolding to by blast
  have "resume c (emit es srv) = Inr (emit es srv)"
    using r(2) thread_active [OF r(1) c(1)] c(2) by (simp add: resume_def)
  then have "server_step (Recv c (''/whisper '' @ v @ '' '' @ msg) now) srv = Inr (emit es srv)"
    using c(2) es recv_one_line [OF l] by (simp add: command_step_def Let_def)
  moreover have "sent_to (c_socket (clients srv ! d)) es =
      [snprintf BUFFER_SIZE (''WHISPER_MESSAGE '' @ username (clients srv ! c) @ '' '' @ msg)]"
    using sent d own by auto
  ultimately show ?thesis by blast
qed

text \<open>
  C7. A user types a whisper to another one who is logged in: the client sends the line, the server
  sends one message to that user, and a client of that user that receives it shows the text and
  who sent it; but when the text has 1024 characters or more it writes past the end of an array.
  The text does not begin with white space.
\<close>

theorem whisper_end_to_end:
  fixes v msg :: string
  defines "line \<equiv> ''/whisper '' @ v @ '' '' @ msg"
  assumes s: "typeable line" "msg \<noteq> []" "\<not> isspace (hd msg)"
    and k: "k_main k = InSelect"
    and r: "reachable srv" "server_running srv" and c: "c < MAX_CLIENTS" "threads srv ! c = Commands"
    and d: "d < MAX_CLIENTS" "c_active (clients srv ! d)" "username (clients srv ! d) = v" "d \<noteq> c" "is_valid_username v"
    and k2: "k_receiver k2 = InRecv" "k_running k2"
  shows "\<exists>k' es t es' m.
    client_step sizes (Typed (line @ nl) True) k = Inr k' \<and> k_out k' = k_out k @ es \<and> requests_in es = [line] \<and>
    server_step (Recv c line now) srv = Inr t \<and> out t = out srv @ es' \<and>
    sent_to (c_socket (clients srv ! d)) es' = [m] \<and>
    client_enabled (Received m) k2 \<and>
    (if length msg < 1024
     then \<exists>k2'. client_step sizes (Received m) k2 = Inr k2' \<and>
       k_out k2' = k_out k2 @
         [say GREEN (''[Server]: You received a whisper from '' @ in_quotes (username (clients srv ! c))),
          say MAGENTA (''['' @ username (clients srv ! c) @ '']: '' @ msg), prompt]
     else client_step sizes (Received m) k2 = Inl BufferOverflow)"
proof -
  let ?u = "username (clients srv ! c)"
  note U = valid_username_plain [OF name_of_user [OF reachable_ok [OF r(1)] c(1) disjI1 [OF c(2)]]]
  note V = valid_username_plain [OF d(5)]
  have sp: "CHR '' '' \<notin> set v" "v \<noteq> []" using V(1) by (auto simp: plain_word_def)
  have len: "length v + length msg \<le> 4000" using s(1) by (simp add: line_def typeable_def)
  obtain k' es where K: "client_step sizes (Typed (line @ nl) True) k = Inr k'" "k_out k' = k_out k @ es" "requests_in es = [line]"
    using typed_makes [OF typeable_one_line(1,2) [OF s(1)], of sizes k] request_whisper [OF sp(2,1) s(2) len, of sizes]
    by (auto simp: makes_def line_def)
  obtain es' where S: "server_step (Recv c line now) srv = Inr (emit es' srv)"
    "sent_to (c_socket (clients srv ! d)) es' = [snprintf BUFFER_SIZE (''WHISPER_MESSAGE '' @ ?u @ '' '' @ msg)]"
    using whisper_step [OF r c d(1-5) typeable_one_line(3) [OF s(1), unfolded line_def]] unfolding line_def by blast
  let ?t = "take (4078 - length ?u) msg"
  let ?m = "''WHISPER_MESSAGE '' @ ?u @ '' '' @ ?t"
  have eq: "snprintf BUFFER_SIZE (''WHISPER_MESSAGE '' @ ?u @ '' '' @ msg) = ?m"
    using U(6) by (simp add: snprintf_def c_limits take_Cons')
  have "one_line msg" using one_line_sub [OF typeable_one_line(3) [OF s(1)], of msg] by (auto simp: line_def)
  then have T: "NUL \<notin> set ?t" "LF \<notin> set ?t" by (auto simp: one_line_def dest: in_set_takeD)
  have "?t \<noteq> []" "hd ?t = hd msg" using s(2) U(6) by (cases msg; simp add: take_Cons')+
  then have sk: "skip_ws ?t = ?t" using s(3) by (intro skip_ws_id) auto
  have n: "NUL \<notin> set ?m" using U(3) T(1) by (simp add: NUL_def)
  have long: "MAX_MESSAGE_SIZE \<le> length ?t \<longleftrightarrow> \<not> length msg < 1024" using U(6) by (auto simp: c_limits)
  have short: "?t = msg" if "length msg < 1024" using that U(6) by simp
  have H: "handle_message ?m (arrived ?m k2) =
    (if \<not> length msg < 1024 then Inl BufferOverflow
     else Inr (show_all [say GREEN (''[Server]: You received a whisper from '' @ in_quotes ?u),
                         say MAGENTA (''['' @ ?u @ '']: '' @ ?t)]
       ((arrived ?m k2)\<lparr>k_message := Some ?t\<rparr>)))"
    unfolding whisper_handled [OF U(1,2,3) T] sk long using \<open>?t \<noteq> []\<close> by simp
  have e: "client_enabled (Received ?m) k2"
    using k2(1) U(6) by (simp add: some_bytes_def c_limits)
  have R: "client_step sizes (Received ?m) k2 = rbind (handle_message ?m (arrived ?m k2)) (\<lambda>k2.
    Inr (if ends_session ?m then k2\<lparr>k_receiver := Finished\<rparr>
         else (if k_running k2 then show_all [prompt] k2 else k2)\<lparr>k_receiver := AtLoop\<rparr>))"
    by (simp only: client_step.simps receive_message [OF n])
  have "if length msg < 1024
     then \<exists>k2'. client_step sizes (Received ?m) k2 = Inr k2' \<and>
       k_out k2' = k_out k2 @ [say GREEN (''[Server]: You received a whisper from '' @ in_quotes ?u),
          say MAGENTA (''['' @ ?u @ '']: '' @ msg), prompt]
     else client_step sizes (Received ?m) k2 = Inl BufferOverflow"
  proof (cases "length msg < 1024")
    case True
    then show ?thesis
      unfolding R H using k2(2) short [OF True] by (simp add: ends_session_def show_all_def)
  next
    case False
    then show ?thesis unfolding R H by simp
  qed
  with K S e show ?thesis unfolding eq
    by (intro exI [of _ k'] exI [of _ es] exI [of _ "emit es' srv"] exI [of _ es'] exI [of _ ?m]) simp
qed

end
