(* ===== verification/Chat_Client_Witnesses.thy ===== *)
theory Chat_Client_Witnesses
  imports Chat_Requests Chat_Witnesses
begin

text \<open>
  Concrete runs of the chat server and client: witnesses of what holds for the two together, and
  the messages that make the client write past the end of an array.
\<close>

section \<open>Messages that do not fit\<close>

text \<open>A client in its session, waiting in both threads.\<close>

definition listening :: chat_client where
  "listening = fresh_client\<lparr>k_main := InSelect, k_receiver := InRecv\<rparr>"

text \<open>bob asks to send ann a file, and leaves the server while it is in transfer.\<close>

definition departed :: "event list" where
  "departed =
     [Accept 7 ''10.0.0.1'' True, Recv 0 ''bob'' 0, Accept 8 ''10.0.0.2'' True, Recv 1 ''ann'' 0,
      Recv 0 ''/sendfile holiday-photos.jpg ann 5'' 0, ProcessorTake 0, Recv 0 ''/exit'' 0, ProcessorFinish]"

definition unnamed_file :: string where
  "unnamed_file = ''FILE_RECEIVED  holiday-photos.jpg''"

lemma departed_message: "unnamed_file \<in> set (sent_to 8 (out (after departed)))"
  by code_simp

lemma sent_to_Send: "m \<in> set (sent_to j es) \<longleftrightarrow> Send j m \<in> set es"
  by (induction es) (auto simp: sent_to_def split: effect.splits if_splits)

lemma departed_sent: "Send 8 unnamed_file \<in> set (out (after departed))"
  using departed_message by (simp add: sent_to_Send)

lemma listening_enabled: "client_enabled (Received unnamed_file) listening"
  by (simp add: listening_def some_bytes_def unnamed_file_def c_limits)

text \<open>
  When the sender of a file leaves the server before the transfer ends, the message about the file
  has no sender, and the client of the receiver reads the name of the file into the array of 17
  characters that is meant for the sender's name: a name of 17 characters or more is written past
  its end.
\<close>

theorem departed_sender_overflows:
  "reachable (after departed) \<and> Send 8 unnamed_file \<in> set (out (after departed)) \<and>
   client_enabled (Received unnamed_file) listening \<and>
   client_step sizes (Received unnamed_file) listening = Inl BufferOverflow"
proof -
  have "file_name_ok ''holiday-photos.jpg''" by (simp add: file_name_ok_def c_limits NUL_def isspace_def)
  from received_handled [OF this, of "[]" listening] have "delivered unnamed_file listening = Inl BufferOverflow"
    by (simp add: name_or_none_def unnamed_file_def c_limits)
  moreover have "NUL \<notin> set unnamed_file" by (simp add: unnamed_file_def NUL_def)
  ultimately show ?thesis
    using reachable_after departed_sent listening_enabled by (simp add: receive_message)
qed

section \<open>Witnesses\<close>

lemma unnamed_overlong: "overlong unnamed_file"
  by (simp add: overlong_def unnamed_file_def c_limits)

theorem client_handles_server_witness:
  "client_step (\<lambda>f. None) (Received unnamed_file) listening = Inl BufferOverflow"
proof -
  have "\<forall>f n. file_name_ok f \<and> unnamed_file = snprintf BUFFER_SIZE (''FILE_TRANSFER_STARTED '' @ take 256 f @ '' '' @ fmt_d n)
      \<longrightarrow> in_signed 32 n"
    by (simp add: unnamed_file_def snprintf_def c_limits)
  from client_handles_server [OF reachable_after departed_sent listening_enabled this, of "\<lambda>f. None"]
  show ?thesis using unnamed_overlong by simp
qed

text \<open>bob and eve are in room a of the server \<open>party\<close>; a third connection has not logged in.\<close>

definition waiting_room :: server where
  "waiting_room = after (party_events @ [Accept 10 ''10.0.0.4'' True])"

lemma waiting_room_view: "client_view waiting_room 3 = (Login, True, 10, [], [], [])" "server_running waiting_room"
  by code_simp+

theorem typed_line_served_witness:
  "\<exists>k'. client_step (\<lambda>f. None) (Typed (''/whisper eve hi'' @ nl) True) listening = Inr k'"
proof -
  have "threads party ! 0 = Commands" "0 < MAX_CLIENTS" using party_views by (simp_all add: views_def client_view_def Let_def c_limits)
  with typed_line_served [of "''/whisper eve hi''" listening "\<lambda>f. None" party 0 0] party_reachable show ?thesis
    by (auto simp: typeable_def isspace_def NUL_def listening_def)
qed

theorem login_agreement_witness:
  "\<exists>k1. client_step (\<lambda>f. None) (NameTyped (''dave'' @ nl)) fresh_client = Inr k1 \<and>
    k_out k1 = [ToServer ''dave'']"
proof -
  have "threads waiting_room ! 3 = Login" "3 < MAX_CLIENTS" "reachable waiting_room"
    using waiting_room_view(1) by (simp_all add: client_view_def Let_def c_limits waiting_room_def reachable_after)
  with login_agreement [of "''dave''" fresh_client waiting_room 3 "\<lambda>f. None" 0] waiting_room_view(2) show ?thesis
    by (auto simp: typeable_def isspace_def NUL_def fresh_client_def)
qed

theorem whisper_end_to_end_witness:
  "\<exists>k'. client_step (\<lambda>f. None) (Typed (''/whisper eve hi'' @ nl) True) listening = Inr k'"
proof -
  have "threads party ! 0 = Commands" "c_active (clients party ! 1)" "username (clients party ! 1) = ''eve''"
    "server_running party" "0 < MAX_CLIENTS" "1 < MAX_CLIENTS" "is_valid_username ''eve''"
    using party_views by (simp_all add: views_def client_view_def server_view_def Let_def c_limits is_valid_username_def isalnum_def)
  with whisper_end_to_end [of "''eve''" "''hi''" listening party 0 1 listening "\<lambda>f. None" 0] party_reachable show ?thesis
    by (auto simp: typeable_def isspace_def NUL_def listening_def fresh_client_def)
qed

end
