(* ===== verification/Bank_State.thy ===== *)
theory Bank_State
  imports C_Format
begin

text \<open>
  The bank server (System Programming/Midterm/Midterm Project/server.c): the request a client
  sends, as the raw bytes of its character arrays, the segment of shared memory, and the
  operations of a teller: checking a request, assigning the account, and the transaction.
  A C string in an array that holds no NUL would be read past the end of the array. The
  replies to the clients and the lines printed are recorded in order.
\<close>

section \<open>Data\<close>

definition MAX_CLI :: nat where "MAX_CLI = 1000"
definition MAX_REQ :: nat where "MAX_REQ = 1000"

declare MAX_CLI_def [c_limits] MAX_REQ_def [c_limits]

record request =
  q_id :: "char list"
  q_op :: "char list"
  q_credit :: "char list"
  q_fifo :: "char list"

text \<open>\<open>accounts [id] [0..3]\<close>: identity, deposits, withdrawals, balance.\<close>

record account =
  a_id :: int
  a_dep :: int
  a_wdr :: int
  a_bal :: int

record shared =
  response :: "string list"
  requests :: "request list"
  accounts :: "account list"
  accts_active :: int
  b_id :: int

datatype bank_effect =
    Reply string string
  | Show string

record bank =
  shm :: shared
  client_count :: nat
  effects :: "bank_effect list"

definition zero_slot :: request where
  "zero_slot = \<lparr>q_id = replicate 32 NUL, q_op = replicate 32 NUL, q_credit = replicate 32 NUL,
     q_fifo = replicate 64 NUL\<rparr>"

definition zero_account :: account where
  "zero_account = \<lparr>a_id = 0, a_dep = 0, a_wdr = 0, a_bal = 0\<rparr>"

text \<open>A segment just created by \<open>shmget\<close> holds zeros.\<close>

definition zero_shared :: shared where
  "zero_shared = \<lparr>response = replicate MAX_REQ [], requests = replicate MAX_REQ zero_slot,
     accounts = replicate MAX_CLI zero_account, accts_active = 0, b_id = 0\<rparr>"

definition init_bank :: "shared \<Rightarrow> bank" where
  "init_bank sh = \<lparr>shm = sh, client_count = 0, effects = []\<rparr>"

section \<open>Arrays of characters and indices\<close>

text \<open>The string in an array, from a position on.\<close>

definition c_string :: "char list \<Rightarrow> string res" where
  "c_string bs = (if NUL \<in> set bs then Inr (cstr bs) else Inl OutOfBounds)"

definition rdi :: "'a list \<Rightarrow> int \<Rightarrow> 'a res" where
  "rdi xs i = (if 0 \<le> i then rd xs (nat i) else Inl OutOfBounds)"

definition wri :: "'a list \<Rightarrow> int \<Rightarrow> 'a \<Rightarrow> 'a list res" where
  "wri xs i x = (if 0 \<le> i then wr xs (nat i) x else Inl OutOfBounds)"

definition client_tag :: "nat \<Rightarrow> string" where
  "client_tag idx = ''Client'' @ fmt_02d (int idx + 1)"

text \<open>\<open>snprintf\<close> into \<open>msg_buffer [256]\<close>, and \<open>reply_client\<close>, which sends it.\<close>

definition reply_client :: "string \<Rightarrow> string \<Rightarrow> bank \<Rightarrow> bank" where
  "reply_client path msg b = b\<lparr>effects := effects b @ [Reply path (snprintf 256 msg)]\<rparr>"

section \<open>Checking a request\<close>

definition is_numeric :: "string \<Rightarrow> bool" where
  "is_numeric s = list_all isdigit s"

definition verify :: "request \<Rightarrow> int res" where
  "verify r =
     rbind (c_string (q_op r)) (\<lambda>op. rbind (c_string (q_credit r)) (\<lambda>credit.
     rbind (c_string (q_id r)) (\<lambda>ident. rbind (c_string (q_fifo r)) (\<lambda>fifo.
       if length op = 0 \<or> length credit = 0 \<or> length ident = 0 \<or> length fifo = 0 then Inr (- 2)
       else if op \<noteq> ''deposit'' \<and> op \<noteq> ''withdraw'' then Inr (- 3)
       else if \<not> is_numeric credit then Inr (- 3)
       else rbind (atoi credit) (\<lambda>n.
         if n < 0 then Inr (- 4)
         else rbind (c_string (drop 7 (q_id r))) (\<lambda>rest.
           if rest = ''None'' then Inr (- 5) else Inr 0))))))"

section \<open>Assigning the account\<close>

text \<open>The result says whether the teller goes on; it ends when the identity is refused.\<close>

definition assign_bankid :: "nat \<Rightarrow> bank \<Rightarrow> (bank \<times> bool) res" where
  "assign_bankid idx b =
     rbind (rd (requests (shm b)) idx) (\<lambda>r. rbind (c_string (q_id r)) (\<lambda>idstr.
       if idstr = ''N'' then
         rbind (add_int (accts_active (shm b)) 1) (\<lambda>aid.
         rbind (rdi (accounts (shm b)) aid) (\<lambda>a.
         rbind (wri (accounts (shm b)) aid (a\<lparr>a_id := aid, a_bal := 0\<rparr>)) (\<lambda>accs.
           Inr (b\<lparr>shm := (shm b)\<lparr>accounts := accs, accts_active := aid, b_id := aid\<rparr>\<rparr>, True))))
       else
         rbind (c_string (drop 7 (q_id r))) (\<lambda>num. rbind (atoi num) (\<lambda>aid.
           if aid < 0 \<or> accts_active (shm b) < aid then
             rbind (c_string (q_fifo r)) (\<lambda>path.
               Inr (reply_client path (client_tag idx @ '' invalid bank ID, '' @ fmt_d aid) b, False))
           else Inr (b\<lparr>shm := (shm b)\<lparr>b_id := aid\<rparr>\<rparr>, True)))))"

section \<open>The transaction\<close>

definition set_response :: "nat \<Rightarrow> string \<Rightarrow> bank \<Rightarrow> bank res" where
  "set_response idx msg b =
     rbind (wr (response (shm b)) idx (snprintf 256 msg)) (\<lambda>rs. Inr (b\<lparr>shm := (shm b)\<lparr>response := rs\<rparr>\<rparr>))"

definition put_account :: "int \<Rightarrow> account \<Rightarrow> bank \<Rightarrow> bank res" where
  "put_account aid a b =
     rbind (wri (accounts (shm b)) aid a) (\<lambda>accs. Inr (b\<lparr>shm := (shm b)\<lparr>accounts := accs\<rparr>\<rparr>))"

text \<open>The two branches; the result says whether the teller exits with success.\<close>

definition deposit_branch :: "nat \<Rightarrow> int \<Rightarrow> string \<Rightarrow> int \<Rightarrow> account \<Rightarrow> bank \<Rightarrow> (bank \<times> bool) res" where
  "deposit_branch idx amount path aid a b =
     rbind (add_int (a_bal a) amount) (\<lambda>bal. rbind (add_int (a_dep a) amount) (\<lambda>dep.
     rbind (put_account aid (a\<lparr>a_bal := bal, a_dep := dep\<rparr>) b) (\<lambda>b1.
     rbind (set_response idx (client_tag idx @ '' deposited '' @ fmt_d amount @ '' credits.. updating log'')
         (reply_client path (client_tag idx @ '' served.. BankID_'' @ fmt_02d aid) b1)) (\<lambda>b2.
       Inr (b2, True)))))"

definition withdraw_branch :: "nat \<Rightarrow> int \<Rightarrow> string \<Rightarrow> int \<Rightarrow> account \<Rightarrow> bank \<Rightarrow> (bank \<times> bool) res" where
  "withdraw_branch idx amount path aid a b =
     (if amount \<le> a_bal a then
        rbind (sub_int (a_bal a) amount) (\<lambda>bal. rbind (add_int (a_wdr a) amount) (\<lambda>wdr.
        rbind (put_account aid (a\<lparr>a_bal := bal, a_wdr := wdr\<rparr>) b) (\<lambda>b1.
        rbind (set_response idx
            (if bal = 0
             then client_tag idx @ '' withdraws '' @ fmt_d amount @ '' credits.. updating log Bye '' @ client_tag idx
             else client_tag idx @ '' withdraws '' @ fmt_d amount @ '' credits.. updating log'') b1) (\<lambda>b2.
          Inr (reply_client path
            (if bal = 0 then client_tag idx @ '' served.. BankID_'' @ fmt_02d aid @ ''... account closed''
             else client_tag idx @ '' served.. BankID_'' @ fmt_02d aid) b2, True)))))
      else
        rbind (set_response idx (client_tag idx @ '' withdraws '' @ fmt_d amount @ '' credits.. operation not permitted'')
            (reply_client path (client_tag idx @ '' something went WRONG..'') b)) (\<lambda>b1.
          Inr (b1, False)))"

definition process_transaction :: "nat \<Rightarrow> bool \<Rightarrow> bank \<Rightarrow> (bank \<times> bool) res" where
  "process_transaction idx is_deposit b =
     rbind (rd (requests (shm b)) idx) (\<lambda>r. rbind (c_string (q_credit r)) (\<lambda>credit.
     rbind (atoi credit) (\<lambda>amount. rbind (c_string (q_fifo r)) (\<lambda>path.
     rbind (rdi (accounts (shm b)) (b_id (shm b))) (\<lambda>a.
       (if is_deposit then deposit_branch else withdraw_branch) idx amount path (b_id (shm b)) a b)))))"

text \<open>What a teller does with a request that fails the check.\<close>

definition refuse :: "nat \<Rightarrow> bank \<Rightarrow> bank res" where
  "refuse idx b =
     rbind (rd (requests (shm b)) idx) (\<lambda>r. rbind (c_string (q_op r)) (\<lambda>op.
     rbind (c_string (q_credit r)) (\<lambda>credit. rbind (atoi credit) (\<lambda>n. rbind (c_string (q_fifo r)) (\<lambda>path.
     rbind (set_response idx (client_tag idx @ '' '' @ op @ '' '' @ fmt_d n @ '' credits.. something went WRONG'') b)
       (\<lambda>b1. Inr (reply_client path (client_tag idx @ '' served.. something went WRONG'') b1)))))))"

section \<open>Lemmas\<close>

lemma rdi_in [simp]: "0 \<le> i \<Longrightarrow> nat i < length xs \<Longrightarrow> rdi xs i = Inr (xs ! nat i)"
  by (simp add: rdi_def)

lemma wri_in [simp]: "0 \<le> i \<Longrightarrow> nat i < length xs \<Longrightarrow> wri xs i x = Inr (xs[nat i := x])"
  by (simp add: wri_def)

lemma rdi_Inr: "rdi xs i = Inr x \<longleftrightarrow> 0 \<le> i \<and> nat i < length xs \<and> x = xs ! nat i"
  by (auto simp: rdi_def rd_def)

lemma wri_Inr: "wri xs i x = Inr ys \<longleftrightarrow> 0 \<le> i \<and> nat i < length xs \<and> ys = xs[nat i := x]"
  by (auto simp: wri_def wr_def)

lemma reply_client_simps [simp]:
  "shm (reply_client p m b) = shm b" "client_count (reply_client p m b) = client_count b"
  "effects (reply_client p m b) = effects b @ [Reply p (snprintf 256 m)]"
  by (simp_all add: reply_client_def)

lemma set_response_Inr:
  "set_response idx m b = Inr c \<longleftrightarrow> idx < length (response (shm b)) \<and>
     c = b\<lparr>shm := (shm b)\<lparr>response := (response (shm b))[idx := snprintf 256 m]\<rparr>\<rparr>"
  by (auto simp: set_response_def wr_def)

lemma put_account_Inr:
  "put_account aid a b = Inr c \<longleftrightarrow> 0 \<le> aid \<and> nat aid < length (accounts (shm b)) \<and>
     c = b\<lparr>shm := (shm b)\<lparr>accounts := (accounts (shm b))[nat aid := a]\<rparr>\<rparr>"
  by (auto simp: put_account_def rbind_eq_Inr wri_Inr)

lemma atoi_numeric:
  assumes "is_numeric s" "s \<noteq> []" "atoi s = Inr n"
  shows "n = int (dec_val 0 s)"
proof -
  obtain c cs where s: "s = c # cs" using assms(2) by (cases s) auto
  with assms(1) have d: "isdigit c" "list_all isdigit cs" by (auto simp: is_numeric_def)
  then have "\<not> isspace c" "c \<noteq> CHR ''-''" "c \<noteq> CHR ''+''"
    using isdigit_not_space isdigit_not_sign by auto
  moreover have tw: "takeWhile isdigit cs = cs" using d(2) by (auto simp: takeWhile_eq_all_conv list_all_iff)
  ultimately show ?thesis
    using assms(3) s d(1) by (auto simp: tw atoi_def skip_ws_def scan_int_def limit_def Let_def split: if_splits)
qed

lemma verify_Inr_0:
  assumes "verify r = Inr 0"
  shows "\<exists>op credit n. c_string (q_op r) = Inr op \<and> op \<in> {''deposit'', ''withdraw''} \<and>
    c_string (q_credit r) = Inr credit \<and> is_numeric credit \<and> credit \<noteq> [] \<and> atoi credit = Inr n \<and> 0 \<le> n"
  using assms unfolding verify_def by (auto simp: rbind_eq_Inr split: if_splits)

end
