(* ===== verification/Bank_Tellers.thy ===== *)
theory Bank_Tellers
  imports Bank_State
begin

text \<open>
  One turn of the loop of the bank server: the requests of a client program are stored, one
  teller process per request runs the sections \<open>verify\<close>, \<open>assign_bankid\<close> and
  \<open>process_transaction\<close>, and the tellers interleave. Here a section between \<open>sem_wait\<close> and
  \<open>sem_post\<close> is one step, as the code intends; \<open>Bank_Semaphores\<close> is about whether it is.
\<close>

section \<open>Tellers\<close>

datatype teller_pc = AtVerify | AtRefuse | AtAssign | AtTransact | Exited bool

record turn =
  bnk :: bank
  tellers :: "(nat \<times> bool \<times> teller_pc) list"

definition set_teller :: "nat \<Rightarrow> teller_pc \<Rightarrow> bank \<Rightarrow> turn \<Rightarrow> turn" where
  "set_teller k pc b t =
     (case tellers t ! k of (idx, dep, old) \<Rightarrow> t\<lparr>bnk := b, tellers := (tellers t)[k := (idx, dep, pc)]\<rparr>)"

definition Teller :: "nat \<Rightarrow> turn \<Rightarrow> turn res" where
  "Teller k t =
     (case tellers t ! k of (idx, dep, pc) \<Rightarrow>
       (case pc of
          AtVerify \<Rightarrow>
            rbind (rd (requests (shm (bnk t))) idx) (\<lambda>r. rbind (verify r) (\<lambda>check.
              Inr (set_teller k (if check \<noteq> 0 then AtRefuse else AtAssign) (bnk t) t)))
        | AtRefuse \<Rightarrow> rbind (refuse idx (bnk t)) (\<lambda>b. Inr (set_teller k (Exited False) b t))
        | AtAssign \<Rightarrow>
            rbind (assign_bankid idx (bnk t)) (\<lambda>(b, go). Inr (set_teller k (if go then AtTransact else Exited False) b t))
        | AtTransact \<Rightarrow>
            rbind (process_transaction idx dep (bnk t)) (\<lambda>(b, success). Inr (set_teller k (Exited success) b t))
        | Exited success \<Rightarrow> Inr t))"

text \<open>A schedule says which teller takes the next step.\<close>

fun run_tellers :: "nat list \<Rightarrow> turn \<Rightarrow> turn res" where
  "run_tellers [] t = Inr t"
| "run_tellers (k # ks) t =
     (if k < length (tellers t) then rbind (Teller k t) (run_tellers ks) else run_tellers ks t)"

section \<open>The requests of a turn\<close>

text \<open>One request read from the fifo of the server; None when the read fails.\<close>

definition receive_request :: "nat \<Rightarrow> nat \<Rightarrow> request option \<Rightarrow> bank \<Rightarrow> bank res" where
  "receive_request base i rq b =
     (case rq of
        None \<Rightarrow> Inr b
      | Some r \<Rightarrow>
          rbind (c_string (q_op r)) (\<lambda>op. rbind (c_string (q_credit r)) (\<lambda>credit. rbind (atoi credit) (\<lambda>n.
          rbind (wr (requests (shm b)) (i + base) r) (\<lambda>rqs. rbind (c_string (q_fifo r)) (\<lambda>path.
            Inr (reply_client path
                (client_tag (i + base) @ '' connected.. '' @ op @ ''ing '' @ fmt_d n @ '' credits'')
                (b\<lparr>client_count := client_count b + 1, shm := (shm b)\<lparr>requests := rqs\<rparr>\<rparr>))))))))"

fun receive_all :: "nat \<Rightarrow> nat \<Rightarrow> request option list \<Rightarrow> bank \<Rightarrow> bank res" where
  "receive_all base i [] b = Inr b"
| "receive_all base i (rq # rqs) b = rbind (receive_request base i rq b) (receive_all base (i + 1) rqs)"

text \<open>The task is chosen from the local copy of the request, zeros if the read failed.\<close>

definition start_tellers :: "nat \<Rightarrow> request option list \<Rightarrow> (nat \<times> bool \<times> teller_pc) list" where
  "start_tellers base rqs =
     map (\<lambda>(i, rq). (i + base,
        (case rq of Some r \<Rightarrow> cstr (q_op r) = ''deposit'' | None \<Rightarrow> False), AtVerify))
       (zip [0..<length rqs] rqs)"

definition begin_turn :: "request option list \<Rightarrow> bank \<Rightarrow> turn res" where
  "begin_turn rqs b =
     rbind (receive_all (client_count b) 0 rqs b) (\<lambda>b1.
       Inr \<lparr>bnk = b1, tellers = start_tellers (client_count b) rqs\<rparr>)"

section \<open>The invariant\<close>

definition account_ok :: "account \<Rightarrow> bool" where
  "account_ok a \<longleftrightarrow> a_bal a = a_dep a - a_wdr a \<and> 0 \<le> a_wdr a \<and> a_wdr a \<le> a_dep a \<and> in_signed 32 (a_dep a)"

definition shared_ok :: "shared \<Rightarrow> bool" where
  "shared_ok sh \<longleftrightarrow>
     length (accounts sh) = MAX_CLI \<and> length (requests sh) = MAX_REQ \<and> length (response sh) = MAX_REQ \<and>
     0 \<le> accts_active sh \<and> accts_active sh < int MAX_CLI \<and>
     0 \<le> b_id sh \<and> b_id sh \<le> accts_active sh \<and>
     list_all account_ok (accounts sh) \<and>
     (\<forall>i < MAX_CLI. accts_active sh < int i \<longrightarrow> a_dep (accounts sh ! i) = 0 \<and> a_wdr (accounts sh ! i) = 0)"

definition turn_ok :: "turn \<Rightarrow> bool" where
  "turn_ok t \<longleftrightarrow> shared_ok (shm (bnk t)) \<and>
     (\<forall>k < length (tellers t). case tellers t ! k of (idx, dep, pc) \<Rightarrow>
        pc \<in> {AtAssign, AtTransact} \<longrightarrow> verify (requests (shm (bnk t)) ! idx) = Inr 0)"

definition total_balance :: "bank \<Rightarrow> int" where
  "total_balance b = sum_list (map a_bal (accounts (shm b)))"

text \<open>What a teller that has succeeded has moved.\<close>

definition moved :: "request list \<Rightarrow> nat \<times> bool \<times> teller_pc \<Rightarrow> int" where
  "moved rqs t = (case t of (idx, dep, pc) \<Rightarrow>
     if pc = Exited True
     then (case atoi (cstr (q_credit (rqs ! idx))) of Inr n \<Rightarrow> if dep then n else - n | Inl e \<Rightarrow> 0)
     else 0)"

lemma account_ok_zero: "account_ok zero_account"
  by (simp add: account_ok_def zero_account_def in_signed_def)

lemma shared_ok_zero: "shared_ok zero_shared"
  by (simp add: shared_ok_def zero_shared_def account_ok_zero c_limits list_all_length)
    (simp add: zero_account_def)

lemma c_string_cstr: "c_string bs = Inr s \<Longrightarrow> s = cstr bs"
  by (simp add: c_string_def split: if_splits)

lemma sum_list_update_int:
  fixes xs :: "'a list" and f :: "'a \<Rightarrow> int"
  assumes "k < length xs"
  shows "sum_list (map f (xs[k := x])) = sum_list (map f xs) + f x - f (xs ! k)"
  using assms
proof (induction xs arbitrary: k)
  case Nil
  then show ?case by simp
next
  case (Cons y ys)
  then show ?case by (cases k) auto
qed

text \<open>Replacing one account.\<close>

lemma shared_ok_put:
  assumes ok: "shared_ok sh" and i: "0 \<le> i" "i \<le> accts_active sh" and a: "account_ok a"
  shows "shared_ok (sh\<lparr>accounts := (accounts sh)[nat i := a]\<rparr>)"
  using assms by (auto simp: shared_ok_def list_all_length nth_list_update)

lemma sum_list_put:
  "0 \<le> i \<Longrightarrow> nat i < length accs \<Longrightarrow>
    sum_list (map a_bal (accs[nat i := a])) = sum_list (map a_bal accs) + a_bal a - a_bal (accs ! nat i)"
  by (rule sum_list_update_int)

lemma assign_bankid_ok:
  assumes ok: "shared_ok (shm b)" and a: "assign_bankid idx b = Inr (b', go)"
  shows "shared_ok (shm b') \<and> requests (shm b') = requests (shm b) \<and> total_balance b' = total_balance b"
proof -
  from a obtain r s where r: "idx < length (requests (shm b))" "r = requests (shm b) ! idx" "c_string (q_id r) = Inr s"
    by (auto simp: assign_bankid_def rbind_eq_Inr rd_def split: if_splits)
  show ?thesis
  proof (cases "s = ''N''")
    case True
    let ?i = "accts_active (shm b) + 1"
    have i: "0 \<le> ?i" "nat ?i < length (accounts (shm b))" and
      b': "b' = b\<lparr>shm := (shm b)\<lparr>accounts := (accounts (shm b))[nat ?i := (accounts (shm b) ! nat ?i)\<lparr>a_id := ?i, a_bal := 0\<rparr>],
        accts_active := ?i, b_id := ?i\<rparr>\<rparr>"
      using a r True by (auto simp: assign_bankid_def rbind_eq_Inr rdi_Inr wri_Inr add_int_Inr)
    have z: "a_dep (accounts (shm b) ! nat ?i) = 0" "a_wdr (accounts (shm b) ! nat ?i) = 0"
      using ok i by (auto simp: shared_ok_def)
    moreover have "account_ok (accounts (shm b) ! nat ?i)"
      using ok i by (simp add: shared_ok_def list_all_length)
    ultimately have "a_bal (accounts (shm b) ! nat ?i) = 0" by (simp add: account_ok_def)
    then show ?thesis
      using ok i z by (auto simp: b' total_balance_def sum_list_put shared_ok_def list_all_length nth_list_update
          account_ok_def in_signed_def)
  next
    case False
    with a r ok have "accounts (shm b') = accounts (shm b)" "requests (shm b') = requests (shm b)"
      "response (shm b') = response (shm b)" "accts_active (shm b') = accts_active (shm b)"
      "0 \<le> b_id (shm b') \<and> b_id (shm b') \<le> accts_active (shm b)"
      by (auto simp: assign_bankid_def rbind_eq_Inr shared_ok_def split: if_splits)
    then show ?thesis using ok by (auto simp: total_balance_def shared_ok_def)
  qed
qed

lemma account_ok_deposit:
  "account_ok a \<Longrightarrow> 0 \<le> n \<Longrightarrow> in_signed 32 (a_dep a + n) \<Longrightarrow>
    account_ok (a\<lparr>a_bal := a_bal a + n, a_dep := a_dep a + n\<rparr>)"
  by (simp add: account_ok_def)

lemma account_ok_withdraw:
  "account_ok a \<Longrightarrow> 0 \<le> n \<Longrightarrow> n \<le> a_bal a \<Longrightarrow>
    account_ok (a\<lparr>a_bal := a_bal a - n, a_wdr := a_wdr a + n\<rparr>)"
  by (simp add: account_ok_def)

lemma deposit_branch_Inr:
  assumes "deposit_branch idx n path i a b = Inr (b', success)"
  shows "success \<and> accounts (shm b') = (accounts (shm b))[nat i := a\<lparr>a_bal := a_bal a + n, a_dep := a_dep a + n\<rparr>]
    \<and> in_signed 32 (a_dep a + n)
    \<and> requests (shm b') = requests (shm b) \<and> accts_active (shm b') = accts_active (shm b)
    \<and> b_id (shm b') = b_id (shm b) \<and> length (response (shm b')) = length (response (shm b))"
  using assms by (auto simp: deposit_branch_def rbind_eq_Inr add_int_Inr put_account_Inr set_response_Inr)

lemma withdraw_branch_Inr:
  assumes "withdraw_branch idx n path i a b = Inr (b', success)"
  shows "success = (n \<le> a_bal a) \<and> accounts (shm b') =
      (if n \<le> a_bal a then (accounts (shm b))[nat i := a\<lparr>a_bal := a_bal a - n, a_wdr := a_wdr a + n\<rparr>]
       else accounts (shm b))
    \<and> requests (shm b') = requests (shm b) \<and> accts_active (shm b') = accts_active (shm b)
    \<and> b_id (shm b') = b_id (shm b) \<and> length (response (shm b')) = length (response (shm b))"
  using assms unfolding withdraw_branch_def
  by (cases "n \<le> a_bal a") (auto simp: rbind_eq_Inr add_int_Inr sub_int_Inr put_account_Inr set_response_Inr)

lemma process_transaction_ok:
  assumes ok: "shared_ok (shm b)" and v: "verify (requests (shm b) ! idx) = Inr 0"
    and p: "process_transaction idx dep b = Inr (b', success)"
  shows "shared_ok (shm b') \<and> requests (shm b') = requests (shm b) \<and>
    total_balance b' = total_balance b + moved (requests (shm b)) (idx, dep, Exited success)"
proof -
  let ?i = "b_id (shm b)"
  let ?a = "accounts (shm b) ! nat ?i"
  from p obtain credit n path where q: "c_string (q_credit (requests (shm b) ! idx)) = Inr credit" "atoi credit = Inr n"
    and i: "0 \<le> ?i" "nat ?i < length (accounts (shm b))"
    and P: "(if dep then deposit_branch else withdraw_branch) idx n path ?i ?a b = Inr (b', success)"
    by (auto simp: process_transaction_def rbind_eq_Inr rd_def rdi_Inr simp del: if_split split: if_split_asm)
  have n: "0 \<le> n" using verify_Inr_0 [OF v] q by auto
  have aok: "account_ok ?a" using ok i by (simp add: shared_ok_def list_all_length)
  have mv: "moved (requests (shm b)) (idx, dep, Exited success) = (if success then if dep then n else - n else 0)"
    using q c_string_cstr [OF q(1)] by (simp add: moved_def)
  have le: "?i \<le> accts_active (shm b)" using ok by (simp add: shared_ok_def)
  have put: "shared_ok (shm b')"
    if "accounts (shm b') = (accounts (shm b))[nat ?i := x]" "account_ok x" "accts_active (shm b') = accts_active (shm b)"
      "requests (shm b') = requests (shm b)" "b_id (shm b') = ?i" "length (response (shm b')) = length (response (shm b))" for x
    using shared_ok_put [OF ok i(1) le that(2)] that by (simp add: shared_ok_def)
  show ?thesis
  proof (cases dep)
    case True
    with deposit_branch_Inr [of idx n path ?i ?a b b' success] P have D: "success"
      "accounts (shm b') = (accounts (shm b))[nat ?i := ?a\<lparr>a_bal := a_bal ?a + n, a_dep := a_dep ?a + n\<rparr>]"
      "in_signed 32 (a_dep ?a + n)" "requests (shm b') = requests (shm b)" "accts_active (shm b') = accts_active (shm b)"
      "b_id (shm b') = ?i" "length (response (shm b')) = length (response (shm b))" by auto
    have "shared_ok (shm b')"
      by (rule put [OF D(2) account_ok_deposit [OF aok n D(3)]]) (simp_all add: D)
    moreover have "total_balance b' = total_balance b + n"
      using i by (simp add: total_balance_def D(2) sum_list_put)
    ultimately show ?thesis unfolding mv using True D by simp
  next
    case False
    with withdraw_branch_Inr [of idx n path ?i ?a b b' success] P have D: "success = (n \<le> a_bal ?a)"
      "accounts (shm b') = (if n \<le> a_bal ?a then (accounts (shm b))[nat ?i := ?a\<lparr>a_bal := a_bal ?a - n, a_wdr := a_wdr ?a + n\<rparr>]
       else accounts (shm b))" "requests (shm b') = requests (shm b)" "accts_active (shm b') = accts_active (shm b)"
      "b_id (shm b') = ?i" "length (response (shm b')) = length (response (shm b))" by auto
    show ?thesis
    proof (cases "n \<le> a_bal ?a")
      case le: True
      have "shared_ok (shm b')"
        by (rule put [of "?a\<lparr>a_bal := a_bal ?a - n, a_wdr := a_wdr ?a + n\<rparr>", OF _ account_ok_withdraw [OF aok n le]])
          (simp_all add: D le)
      moreover have "total_balance b' = total_balance b - n"
        using i le by (simp add: total_balance_def D(2) sum_list_put)
      ultimately show ?thesis unfolding mv using False D le by simp
    next
      case gt: False
      with D ok have "shared_ok (shm b')" by (simp add: shared_ok_def)
      moreover have "total_balance b' = total_balance b" using gt by (simp add: total_balance_def D(2))
      ultimately show ?thesis unfolding mv using False D gt by simp
    qed
  qed
qed

lemma refuse_ok:
  assumes "shared_ok (shm b)" "refuse idx b = Inr b'"
  shows "shared_ok (shm b') \<and> requests (shm b') = requests (shm b) \<and> total_balance b' = total_balance b"
  using assms by (auto simp: refuse_def rbind_eq_Inr set_response_Inr shared_ok_def total_balance_def)

section \<open>Every interleaving\<close>

definition conserved :: "turn \<Rightarrow> int" where
  "conserved t = total_balance (bnk t) - sum_list (map (moved (requests (shm (bnk t)))) (tellers t))"

lemma set_teller_simps:
  "tellers t ! k = (idx, dep, old) \<Longrightarrow> bnk (set_teller k pc b t) = b"
  "tellers t ! k = (idx, dep, old) \<Longrightarrow> tellers (set_teller k pc b t) = (tellers t)[k := (idx, dep, pc)]"
  by (simp_all add: set_teller_def)

lemma set_teller_ok:
  assumes ok: "turn_ok t" and k: "k < length (tellers t)" "tellers t ! k = (idx, dep, old)"
    and b: "shared_ok (shm b)" "requests (shm b) = requests (shm (bnk t))"
    and pc: "pc \<in> {AtAssign, AtTransact} \<Longrightarrow> verify (requests (shm b) ! idx) = Inr 0"
    and m: "total_balance b - total_balance (bnk t) =
      moved (requests (shm b)) (idx, dep, pc) - moved (requests (shm b)) (idx, dep, old)"
  shows "turn_ok (set_teller k pc b t) \<and> conserved (set_teller k pc b t) = conserved t"
proof -
  let ?t = "set_teller k pc b t"
  note S = set_teller_simps [OF k(2)]
  have "case tellers ?t ! j of (idx, dep, pc) \<Rightarrow>
      pc \<in> {AtAssign, AtTransact} \<longrightarrow> verify (requests (shm (bnk ?t)) ! idx) = Inr 0" if "j < length (tellers ?t)" for j
    using ok that k b(2) pc by (cases "j = k") (auto simp: S turn_ok_def split: prod.splits)
  moreover have "conserved ?t = conserved t"
    using m k b(2) by (simp add: conserved_def S sum_list_update_int)
  ultimately show ?thesis using b(1) by (simp add: turn_ok_def S)
qed

lemma Teller_ok:
  assumes ok: "turn_ok t" and k: "k < length (tellers t)" and s: "Teller k t = Inr t'"
  shows "turn_ok t' \<and> conserved t' = conserved t"
proof -
  obtain idx dep pc where p: "tellers t ! k = (idx, dep, pc)" by (cases "tellers t ! k") auto
  note T = set_teller_ok [OF ok k p]
  have sh: "shared_ok (shm (bnk t))" using ok by (simp add: turn_ok_def)
  have v: "verify (requests (shm (bnk t)) ! idx) = Inr 0" if "pc \<in> {AtAssign, AtTransact}"
    using ok k p that by (auto simp: turn_ok_def)
  show ?thesis
  proof (cases pc)
    case AtVerify
    with s p obtain check where check: "verify (requests (shm (bnk t)) ! idx) = Inr check"
      "t' = set_teller k (if check \<noteq> 0 then AtRefuse else AtAssign) (bnk t) t"
      by (auto simp: Teller_def rbind_eq_Inr rd_def split: if_splits)
    show ?thesis
      unfolding check(2) using check(1) AtVerify by (intro T [OF sh]) (auto simp: moved_def split: if_splits)
  next
    case AtRefuse
    with s p obtain b where b: "refuse idx (bnk t) = Inr b" "t' = set_teller k (Exited False) b t"
      by (auto simp: Teller_def rbind_eq_Inr)
    show ?thesis
      unfolding b(2) using refuse_ok [OF sh b(1)] AtRefuse by (intro T) (auto simp: moved_def)
  next
    case AtAssign
    with s p obtain b go where b: "assign_bankid idx (bnk t) = Inr (b, go)"
      "t' = set_teller k (if go then AtTransact else Exited False) b t"
      by (auto simp: Teller_def rbind_eq_Inr)
    show ?thesis
      unfolding b(2) using assign_bankid_ok [OF sh b(1)] AtAssign v by (intro T) (auto simp: moved_def)
  next
    case AtTransact
    with s p obtain b success where b: "process_transaction idx dep (bnk t) = Inr (b, success)"
      "t' = set_teller k (Exited success) b t"
      by (auto simp: Teller_def rbind_eq_Inr)
    have "verify (requests (shm (bnk t)) ! idx) = Inr 0" using v AtTransact by simp
    from process_transaction_ok [OF sh this b(1)] AtTransact show ?thesis
      unfolding b(2) by (intro T) (auto simp: moved_def)
  next
    case (Exited x)
    with s p ok show ?thesis by (simp add: Teller_def)
  qed
qed

lemma run_tellers_ok:
  assumes "turn_ok t" "run_tellers ks t = Inr t'"
  shows "turn_ok t' \<and> conserved t' = conserved t"
  using assms
proof (induction ks arbitrary: t)
  case Nil
  then show ?case by simp
next
  case (Cons k ks)
  show ?case
  proof (cases "k < length (tellers t)")
    case True
    with Cons.prems(2) obtain u where "Teller k t = Inr u" "run_tellers ks u = Inr t'"
      by (auto simp: rbind_eq_Inr)
    with Cons Teller_ok [OF Cons.prems(1) True] show ?thesis by metis
  next
    case False
    with Cons show ?thesis by simp
  qed
qed

end
