(* ===== verification/Bank_Log.thy ===== *)
theory Bank_Log
  imports Bank_Tellers
begin

text \<open>
  The log file of the bank server, which is its database between runs: \<open>write_log\<close> at the end
  of each turn, \<open>load_db\<close> at the start. A file is the list of its characters.
\<close>

section \<open>Writing\<close>

definition log_line :: "int \<Rightarrow> account \<Rightarrow> string" where
  "log_line i a = ''BankID_'' @ fmt_02d i @ '' D '' @ fmt_d (a_dep a) @ '' W '' @ fmt_d (a_wdr a)
     @ '' '' @ fmt_d (a_bal a) @ nl"

function write_loop :: "account list \<Rightarrow> int \<Rightarrow> int \<Rightarrow> string res" where
  "write_loop accs i n =
     (if i \<le> n then
        rbind (rdi accs i) (\<lambda>a. rbind (write_loop accs (i + 1) n) (\<lambda>rest. Inr (log_line i a @ rest)))
      else Inr [])"
  by pat_completeness auto
termination
  by (relation "measure (\<lambda>(accs, i, n). nat (n + 1 - i))") auto

declare write_loop.simps [simp del]

definition end_of_log :: string where
  "end_of_log = ''## end of log.'' @ nl"

definition write_log :: "shared \<Rightarrow> string res" where
  "write_log sh = rbind (write_loop (accounts sh) 1 (accts_active sh)) (\<lambda>s. Inr (s @ end_of_log))"

section \<open>Loading\<close>

text \<open>\<open>strtok\<close> with the newline as the only delimiter, until it returns NULL.\<close>

function strtok_all :: "string \<Rightarrow> string list" where
  "strtok_all s =
     (let t = dropWhile (\<lambda>c. c = LF) s in
      if t = [] then [] else takeWhile (\<lambda>c. c \<noteq> LF) t # strtok_all (dropWhile (\<lambda>c. c \<noteq> LF) t))"
  by pat_completeness auto
termination
proof (relation "measure length")
  fix s t :: string
  assume t: "t = dropWhile (\<lambda>c. c = LF) s" "t \<noteq> []"
  then have "hd t \<noteq> LF" using hd_dropWhile [of "\<lambda>c. c = LF" s] by simp
  with t(2) have "length (dropWhile (\<lambda>c. c \<noteq> LF) t) < length t"
    using length_dropWhile_le [of "\<lambda>c. c \<noteq> LF" "tl t"] by (cases t) (simp_all add: le_imp_less_Suc)
  also have "length t \<le> length s" unfolding t(1) by (rule length_dropWhile_le)
  finally show "(dropWhile (\<lambda>c. c \<noteq> LF) t, s) \<in> measure length" by simp
qed simp

declare strtok_all.simps [simp del]

definition bank_format :: "directive list" where
  "bank_format = map Lit ''BankID_'' @
     [ScanD (Some 2) 32, WS, Lit (CHR ''D''), WS, ScanD None 32, WS, Lit (CHR ''W''), WS, ScanD None 32,
      WS, ScanD None 32]"

definition load_line :: "string \<Rightarrow> shared \<Rightarrow> shared res" where
  "load_line line sh =
     (if line \<noteq> [] \<and> hd line = CHR ''#'' then Inr sh
      else rbind (sscanf bank_format line) (\<lambda>vs.
        case vs of
          [VI i, VI d, VI w, VI b] \<Rightarrow>
            rbind (wri (accounts sh) i \<lparr>a_id = i, a_dep = d, a_wdr = w, a_bal = b\<rparr>) (\<lambda>accs.
              Inr (sh\<lparr>accounts := accs, accts_active := (if accts_active sh < i then i else accts_active sh)\<rparr>))
        | _ \<Rightarrow> Inr sh))"

fun load_lines :: "string list \<Rightarrow> shared \<Rightarrow> shared res" where
  "load_lines [] sh = Inr sh"
| "load_lines (l # ls) sh = rbind (load_line l sh) (load_lines ls)"

text \<open>At most 4095 characters of the file are read, by one \<open>read\<close>; None is no file.\<close>

definition load_db :: "string option \<Rightarrow> shared \<Rightarrow> shared res" where
  "load_db file sh =
     (case file of
        None \<Rightarrow> Inr sh
      | Some content \<Rightarrow> if content = [] then Inr sh else load_lines (strtok_all (cstr (take 4095 content))) sh)"

section \<open>Lines\<close>

lemma strtok_all_Nil [simp]: "strtok_all [] = []"
  by (simp add: strtok_all.simps)

lemma strtok_all_line:
  assumes "l \<noteq> []" "LF \<notin> set l"
  shows "strtok_all (l @ LF # rest) = l # strtok_all rest"
proof -
  have d: "dropWhile (\<lambda>c. c = LF) (l @ LF # rest) = l @ LF # rest"
    using assms by (cases l) auto
  have t: "takeWhile (\<lambda>c. c \<noteq> LF) (l @ LF # rest) = l" "dropWhile (\<lambda>c. c \<noteq> LF) (l @ LF # rest) = LF # rest"
    using assms(2) by (auto simp: takeWhile_append dropWhile_append)
  have "strtok_all (LF # rest) = strtok_all rest"
    by (simp add: strtok_all.simps [of "LF # rest"] strtok_all.simps [of rest])
  then show ?thesis
    by (subst strtok_all.simps) (simp add: d t Let_def)
qed

lemma digit_chars: "c \<in> set (dec n) \<Longrightarrow> c \<noteq> LF \<and> c \<noteq> NUL"
  using dec_digits [of c n] by auto

lemma fmt_d_chars: "c \<in> set (fmt_d n) \<Longrightarrow> c \<noteq> LF \<and> c \<noteq> NUL"
  by (auto simp: fmt_d_def LF_def NUL_def split: if_splits dest: digit_chars [unfolded LF_def NUL_def])

lemma fmt_02d_chars: "c \<in> set (fmt_02d n) \<Longrightarrow> c \<noteq> LF \<and> c \<noteq> NUL"
  using fmt_d_chars [of c n] by (auto simp: fmt_02d_def LF_def NUL_def split: if_splits)

definition line_body :: "int \<Rightarrow> account \<Rightarrow> string" where
  "line_body i a = ''BankID_'' @ fmt_02d i @ '' D '' @ fmt_d (a_dep a) @ '' W '' @ fmt_d (a_wdr a)
     @ '' '' @ fmt_d (a_bal a)"

lemma log_line_body: "log_line i a = line_body i a @ [LF]"
  by (simp add: log_line_def line_body_def nl_def)

lemma line_body_chars: "c \<in> set (line_body i a) \<Longrightarrow> c \<noteq> LF \<and> c \<noteq> NUL"
  using fmt_d_chars fmt_02d_chars by (auto simp: line_body_def LF_def NUL_def)

lemma line_body_ne: "line_body i a \<noteq> []"
  by (simp add: line_body_def)

text \<open>A line is read back as it was written, if its identity has at most two digits.\<close>

lemma scan_line:
  assumes i: "0 \<le> i" "i < 100"
    and n: "in_signed 32 (a_dep a)" "in_signed 32 (a_wdr a)" "in_signed 32 (a_bal a)"
  shows "sscanf bank_format (line_body i a) = Inr [VI i, VI (a_dep a), VI (a_wdr a), VI (a_bal a)]"
proof -
  have 1: "scan_int (Some 2) (skip_ws (fmt_02d i @ r)) = Some (i, r)" for r
    by (simp add: skip_ws_fmt_02d [OF i] scan_int_fmt_02d [OF i])
  have 2: "scan_int None (fmt_d m @ CHR '' '' # r) = Some (m, CHR '' '' # r)" for m r
    by (rule scan_int_fmt_d) (simp add: isdigit_def)
  have 3: "scan_int None (fmt_d m) = Some (m, [])" for m
    using scan_int_fmt_d [of "[]" m] by simp
  have 4: "skip_ws (fmt_d m) = fmt_d m" for m using skip_ws_fmt_d [of m "[]"] by simp
  have w: "skip_ws (CHR ''D'' # r) = CHR ''D'' # r" "skip_ws (CHR ''W'' # r) = CHR ''W'' # r" for r
    by (simp_all add: skip_ws_def isspace_def)
  have b: "in_signed 32 i" using i by (simp add: in_signed_def)
  show ?thesis
    unfolding bank_format_def line_body_def sscanf_lits
    using n b by (simp add: 1 2 3 4 w)
qed

text \<open>A line for an account with three digits is not understood by the format that reads two.\<close>

lemma load_line_three_digits:
  assumes "100 \<le> i"
  shows "load_line (line_body i a) sh = Inr sh"
proof -
  have "\<not> nat i < 100" using assms by simp
  then obtain x y z cs where d: "x < 10" "y < 10" "z < 10" "dec (nat i) = digit x # digit y # digit z # cs"
    using dec_cases_100 [of "nat i"] by auto
  have f: "fmt_02d i = digit x # digit y # digit z # cs"
    using assms d by (simp add: fmt_02d_def fmt_d_def)
  let ?r = "digit z # cs @ '' D '' @ fmt_d (a_dep a) @ '' W '' @ fmt_d (a_wdr a) @ '' '' @ fmt_d (a_bal a)"
  have sk: "skip_ws (digit x # digit y # ?r) = digit x # digit y # ?r" "skip_ws ?r = ?r"
    using d by (simp_all add: skip_ws_def)
  have b: "in_signed 32 (int (x * 10 + y))" using d by (simp add: in_signed_def)
  have "\<not> isdigit (CHR ''D'')" by (simp add: isdigit_def)
  then have nd: "digit z \<noteq> CHR ''D''" using digit_in_range(1) [OF d(3)] by metis
  have "sscanf bank_format (''BankID_'' @ digit x # digit y # ?r) = Inr [VI (int (x * 10 + y))]"
    unfolding bank_format_def sscanf_lits
    using b nd by (simp add: sk scan_int_2 [OF d(1,2)] del: append.simps)
  moreover have "line_body i a = ''BankID_'' @ digit x # digit y # ?r"
    by (simp add: line_body_def f)
  moreover have "hd (line_body i a) \<noteq> CHR ''#''" by (simp add: line_body_def)
  ultimately show ?thesis by (simp add: load_line_def)
qed

section \<open>The round trip\<close>

definition entry :: "int \<Rightarrow> account \<Rightarrow> account" where
  "entry i a = \<lparr>a_id = i, a_dep = a_dep a, a_wdr = a_wdr a, a_bal = a_bal a\<rparr>"

lemma load_line_body:
  assumes i: "1 \<le> i" "i < 100" "nat i < length (accounts sh)"
    and n: "in_signed 32 (a_dep a)" "in_signed 32 (a_wdr a)" "in_signed 32 (a_bal a)"
  shows "load_line (line_body i a) sh =
    Inr (sh\<lparr>accounts := (accounts sh)[nat i := entry i a],
        accts_active := (if accts_active sh < i then i else accts_active sh)\<rparr>)"
proof -
  have "hd (line_body i a) \<noteq> CHR ''#''" by (simp add: line_body_def)
  then show ?thesis
    using i n scan_line [of i a] by (simp add: load_line_def entry_def)
qed

lemma account_ok_signed:
  assumes "account_ok a"
  shows "in_signed 32 (a_dep a)" "in_signed 32 (a_wdr a)" "in_signed 32 (a_bal a)"
  using assms by (auto simp: account_ok_def in_signed_def)

text \<open>Loading what is written for the accounts from \<open>i\<close> to \<open>n\<close>.\<close>

lemma load_written:
  assumes "1 \<le> i" "n < int (length accs)" "list_all account_ok accs"
    and "length (accounts sh) = length accs" "accts_active sh = min (i - 1) 99" "i \<le> n + 1"
  shows "\<exists>s sh'. write_loop accs i n = Inr s \<and> NUL \<notin> set s \<and>
    load_lines (strtok_all (s @ end_of_log)) sh = Inr sh' \<and> accts_active sh' = min n 99 \<and>
    length (accounts sh') = length accs \<and> requests sh' = requests sh \<and> response sh' = response sh \<and> b_id sh' = b_id sh \<and>
    (\<forall>k < length accs. accounts sh' ! k =
      (if i \<le> int k \<and> int k \<le> min n 99 then entry (int k) (accs ! k) else accounts sh ! k))"
  using assms
proof (induction accs i n arbitrary: sh rule: write_loop.induct)
  case (1 accs i n)
  show ?case
  proof (cases "i \<le> n")
    case False
    have e: "strtok_all end_of_log = [''## end of log.'']"
      using strtok_all_line [of "''## end of log.''" "[]"] by (simp add: end_of_log_def nl_def LF_def)
    show ?thesis
      using False "1.prems" by (auto simp: write_loop.simps [of accs i] e load_line_def)
  next
    case True
    let ?a = "accs ! nat i"
    have i: "nat i < length accs" "0 \<le> i" using True "1.prems" by auto
    have aok: "account_ok ?a" using "1.prems"(3) i by (simp add: list_all_length)
    let ?sh = "if i < 100 then sh\<lparr>accounts := (accounts sh)[nat i := entry i ?a], accts_active := i\<rparr> else sh"
    have pre: "1 \<le> i + 1" "n < int (length accs)" "list_all account_ok accs"
      "length (accounts ?sh) = length accs" "accts_active ?sh = min (i + 1 - 1) 99" "i + 1 \<le> n + 1"
      using True "1.prems" by auto
    obtain s sh' where s: "write_loop accs (i + 1) n = Inr s" "NUL \<notin> set s"
      "load_lines (strtok_all (s @ end_of_log)) ?sh = Inr sh'" "accts_active sh' = min n 99"
      "length (accounts sh') = length accs" "requests sh' = requests sh" "response sh' = response sh" "b_id sh' = b_id sh"
      "\<forall>k < length accs. accounts sh' ! k =
        (if i + 1 \<le> int k \<and> int k \<le> min n 99 then entry (int k) (accs ! k) else accounts ?sh ! k)"
      using "1.IH" [OF True pre] by auto
    have w: "write_loop accs i n = Inr (log_line i ?a @ s)"
      using True i s(1) by (simp add: write_loop.simps [of accs i])
    have "strtok_all ((log_line i ?a @ s) @ end_of_log) = line_body i ?a # strtok_all (s @ end_of_log)"
      using strtok_all_line [of "line_body i ?a"] line_body_chars [of LF i ?a] line_body_ne
      by (auto simp: log_line_body)
    moreover have "load_line (line_body i ?a) sh = Inr ?sh"
      using load_line_body [of i sh ?a] load_line_three_digits [of i ?a sh] account_ok_signed [OF aok] True "1.prems" i
      by (cases "i < 100") auto
    ultimately have l: "load_lines (strtok_all ((log_line i ?a @ s) @ end_of_log)) sh = Inr sh'"
      using s(3) by simp
    have "NUL \<notin> set (log_line i ?a @ s)"
      using s(2) line_body_chars [of NUL i ?a] by (auto simp: log_line_body LF_def NUL_def)
    moreover have "\<forall>k < length accs. accounts sh' ! k =
        (if i \<le> int k \<and> int k \<le> min n 99 then entry (int k) (accs ! k) else accounts sh ! k)"
      using s(9) i True "1.prems"(4) by (auto simp: nth_list_update)
    ultimately show ?thesis using w l s by blast
  qed
qed

lemma load_of_write:
  assumes ok: "shared_ok sh" and f: "write_log sh = Inr content" "length content \<le> 4095"
  shows "\<exists>sh'. load_db (Some content) zero_shared = Inr sh' \<and> accts_active sh' = min (accts_active sh) 99
    \<and> (\<forall>i < MAX_CLI. accounts sh' ! i =
        (if 1 \<le> i \<and> int i \<le> min (accts_active sh) 99 then entry (int i) (accounts sh ! i) else zero_account))"
proof -
  have pre: "(1::int) \<le> 1" "accts_active sh < int (length (accounts sh))"
    "list_all account_ok (accounts sh)" "length (accounts zero_shared) = length (accounts sh)"
    "accts_active zero_shared = min (1 - 1) 99" "1 \<le> accts_active sh + 1"
    using ok by (auto simp: shared_ok_def zero_shared_def)
  from load_written [OF pre] obtain s sh' where
    s: "write_loop (accounts sh) 1 (accts_active sh) = Inr s" "NUL \<notin> set s"
    "load_lines (strtok_all (s @ end_of_log)) zero_shared = Inr sh'" "accts_active sh' = min (accts_active sh) 99"
    "\<forall>k < length (accounts sh). accounts sh' ! k =
      (if 1 \<le> int k \<and> int k \<le> min (accts_active sh) 99 then entry (int k) (accounts sh ! k) else accounts zero_shared ! k)"
    by blast
  have content: "content = s @ end_of_log" using f(1) s(1) by (simp add: write_log_def)
  have "NUL \<notin> set content"
    using s(2) by (auto simp: content end_of_log_def nl_def LF_def NUL_def)
  then have "cstr (take 4095 content) = content"
    using f(2) by (auto simp: cstr_def takeWhile_eq_all_conv)
  moreover have "content \<noteq> []" by (simp add: content end_of_log_def nl_def)
  ultimately have "load_db (Some content) zero_shared = Inr sh'"
    using s(3) by (simp add: load_db_def content [symmetric])
  moreover have "length (accounts sh) = MAX_CLI" using ok by (simp add: shared_ok_def)
  ultimately show ?thesis
    using s(4,5) by (auto simp: zero_shared_def)
qed

end
