(* ===== verification/Bank_Properties.thy ===== *)
theory Bank_Properties
  imports Bank_Log
begin

text \<open>
  What holds for the bank server: no money is created or lost whatever the order of the
  tellers, no account is overdrawn, the log restores the accounts; and where it fails: the
  identity that two tellers share, the accounts that the log does not restore.
\<close>

section \<open>A turn\<close>

lemma receive_request_ok:
  assumes "shared_ok (shm b)" "receive_request base i rq b = Inr b'"
  shows "shared_ok (shm b') \<and> total_balance b' = total_balance b"
  using assms by (auto simp: receive_request_def rbind_eq_Inr wr_def shared_ok_def total_balance_def
      split: option.splits if_splits)

lemma receive_all_ok:
  assumes "shared_ok (shm b)" "receive_all base i rqs b = Inr b'"
  shows "shared_ok (shm b') \<and> total_balance b' = total_balance b"
  using assms
proof (induction rqs arbitrary: i b)
  case Nil
  then show ?case by simp
next
  case (Cons rq rqs)
  then obtain c where "receive_request base i rq b = Inr c" "receive_all base (i + 1) rqs c = Inr b'"
    by (auto simp: rbind_eq_Inr)
  with Cons.IH receive_request_ok [OF Cons.prems(1)] show ?case by metis
qed

lemma start_tellers_moved: "sum_list (map (moved rqs') (start_tellers base rqs)) = 0"
proof -
  have "map (moved rqs') (start_tellers base rqs) = map (\<lambda>_. 0) (start_tellers base rqs)"
    by (auto simp: start_tellers_def moved_def)
  then show ?thesis by (simp only: sum_list_0)
qed

lemma begin_turn_ok:
  assumes "shared_ok (shm b)" "begin_turn rqs b = Inr t"
  shows "turn_ok t \<and> conserved t = total_balance b"
proof -
  obtain b1 where b1: "receive_all (client_count b) 0 rqs b = Inr b1"
    "t = \<lparr>bnk = b1, tellers = start_tellers (client_count b) rqs\<rparr>"
    using assms(2) by (auto simp: begin_turn_def rbind_eq_Inr)
  note R = receive_all_ok [OF assms(1) b1(1)]
  have "snd (snd (start_tellers (client_count b) rqs ! k)) = AtVerify" if "k < length rqs" for k
    using that by (simp add: start_tellers_def)
  then have "turn_ok t"
    using R by (auto simp: turn_ok_def b1(2) start_tellers_def split: prod.splits)
  then show ?thesis using R by (simp add: conserved_def b1(2) start_tellers_moved)
qed


section \<open>The check of a request\<close>

text \<open>
  The check accepts exactly a complete request to deposit or withdraw a number of digits
  whose identity does not end in None after its seventh character; the code for a negative
  amount is never returned, because a number with a sign is refused before.
\<close>

theorem verify_spec:
  assumes "c_string (q_op r) = Inr op" "c_string (q_credit r) = Inr credit" "c_string (q_id r) = Inr ident"
    "c_string (q_fifo r) = Inr fifo" "c_string (drop 7 (q_id r)) = Inr rest" "atoi credit = Inr n"
  shows "\<exists>v. verify r = Inr v \<and> v \<noteq> - 4 \<and>
    (v = 0 \<longleftrightarrow> op \<in> {''deposit'', ''withdraw''} \<and> credit \<noteq> [] \<and> list_all isdigit credit \<and> ident \<noteq> [] \<and> fifo \<noteq> []
      \<and> rest \<noteq> ''None'')"
proof -
  have "0 \<le> n" if "is_numeric credit" "credit \<noteq> []"
    using atoi_numeric [OF that assms(6)] by simp
  then show ?thesis
    using assms by (auto simp: verify_def is_numeric_def)
qed

section \<open>The identity that the tellers share\<close>

definition bytes :: "nat \<Rightarrow> string \<Rightarrow> char list" where
  "bytes n s = s @ replicate (n - length s) NUL"

definition make_request :: "string \<Rightarrow> string \<Rightarrow> string \<Rightarrow> string \<Rightarrow> request" where
  "make_request ident op credit fifo =
     \<lparr>q_id = bytes 32 ident, q_op = bytes 32 op, q_credit = bytes 32 credit, q_fifo = bytes 64 fifo\<rparr>"

text \<open>The balances of the accounts 1 and 2 after a turn.\<close>

definition balances_after :: "request option list \<Rightarrow> nat list \<Rightarrow> shared \<Rightarrow> (int \<times> int \<times> int) res" where
  "balances_after rqs ks sh =
     rbind (begin_turn rqs (init_bank sh)) (\<lambda>t. rbind (run_tellers ks t) (\<lambda>u.
       let accs = accounts (shm (bnk u))
       in Inr (a_bal (accs ! 0), a_bal (accs ! 1), a_bal (accs ! 2))))"

definition first_client :: request where
  "first_client = make_request ''N'' ''deposit'' ''30'' ''c0''"

definition second_client :: request where
  "second_client = make_request ''N'' ''deposit'' ''50'' ''c1''"

lemma first_client_facts:
  "c_string (q_id first_client) = Inr ''N''" "c_string (q_op first_client) = Inr ''deposit''"
  "c_string (q_credit first_client) = Inr ''30''" "c_string (q_fifo first_client) = Inr ''c0''"
  "cstr (q_op first_client) = ''deposit''" "verify first_client = Inr 0" "atoi ''30'' = Inr 30"
  by code_simp+

lemma second_client_facts:
  "c_string (q_id second_client) = Inr ''N''" "c_string (q_op second_client) = Inr ''deposit''"
  "c_string (q_credit second_client) = Inr ''50''" "c_string (q_fifo second_client) = Inr ''c1''"
  "cstr (q_op second_client) = ''deposit''" "verify second_client = Inr 0" "atoi ''50'' = Inr 50"
  by code_simp+

lemmas bank_evaluation = begin_turn_def receive_request_def start_tellers_def init_bank_def zero_shared_def
  Teller_def set_teller_def assign_bankid_def process_transaction_def deposit_branch_def withdraw_branch_def
  put_account_def set_response_def add_int_def sub_int_def in_signed_def zero_account_def Let_def

text \<open>
  The identity assigned to a client is kept in one variable for all tellers, between two
  critical sections: when the second of two new clients is assigned its account before the
  first has made its deposit, both deposits go to the second account; one after the other
  each goes to its own.
\<close>

theorem shared_identity_race:
  "balances_after [Some first_client, Some second_client] [0, 0, 0, 1, 1, 1] zero_shared = Inr (0, 30, 50)
   \<and> balances_after [Some first_client, Some second_client] [0, 1, 0, 1, 0, 1] zero_shared = Inr (0, 0, 80)"
  by (simp add: balances_after_def bank_evaluation c_limits first_client_facts second_client_facts)

section \<open>The end of a turn\<close>

text \<open>The parent has waited for all tellers: it prints their responses and writes the log.\<close>

fun print_responses :: "nat \<Rightarrow> nat \<Rightarrow> bank \<Rightarrow> bank res" where
  "print_responses idx 0 b = Inr b"
| "print_responses idx (Suc n) b =
     rbind (rd (response (shm b)) idx) (\<lambda>r.
       print_responses (idx + 1) n (b\<lparr>effects := effects b @ [Show (r @ nl)]\<rparr>))"

definition end_turn :: "nat \<Rightarrow> nat \<Rightarrow> bank \<Rightarrow> (bank \<times> string) res" where
  "end_turn base n b =
     rbind (print_responses base n b) (\<lambda>b1. rbind (write_log (shm b1)) (\<lambda>content. Inr (b1, content)))"

text \<open>One round of \<open>bank_loop\<close>: the state after it and the log file.\<close>

definition bank_round :: "request option list \<Rightarrow> nat list \<Rightarrow> bank \<Rightarrow> (bank \<times> string) res" where
  "bank_round rqs ks b =
     rbind (begin_turn rqs b) (\<lambda>t. rbind (run_tellers ks t) (\<lambda>u.
       end_turn (client_count b) (length rqs) (bnk u)))"

definition careless_client :: request where
  "careless_client = make_request ''BankID_new'' ''deposit'' ''50'' ''c0''"

lemma careless_client_facts:
  "c_string (q_id careless_client) = Inr ''BankID_new''" "c_string (q_op careless_client) = Inr ''deposit''"
  "c_string (q_credit careless_client) = Inr ''50''" "c_string (q_fifo careless_client) = Inr ''c0''"
  "cstr (q_op careless_client) = ''deposit''" "verify careless_client = Inr 0"
  "c_string (drop 7 (q_id careless_client)) = Inr ''new''" "atoi ''new'' = Inr 0"
  by code_simp+

text \<open>
  A client whose identity has no number after its seventh character is served on the account
  0, which no new client is ever given and which the log leaves out: the deposit is
  acknowledged, is in the balance of account 0, and is not in the file that is loaded at the
  next start.
\<close>

theorem account_zero_not_logged:
  "\<exists>b. bank_round [Some careless_client] [0, 0, 0] (init_bank zero_shared) = Inr (b, end_of_log)
    \<and> a_bal (accounts (shm b) ! 0) = 50
    \<and> Reply ''c0'' ''Client01 served.. BankID_00'' \<in> set (effects b)"
proof -
  have m: "snprintf 256 (client_tag 0 @ '' served.. BankID_'' @ fmt_02d 0) = ''Client01 served.. BankID_00''"
    by code_simp
  show ?thesis
    by (simp add: bank_round_def end_turn_def bank_evaluation c_limits careless_client_facts
        second_client_facts(7) write_log_def write_loop.simps m [simplified])
qed

section \<open>The log\<close>

text \<open>
  C12. What \<open>write_log\<close> writes for at most 99 accounts, if it fits into the 4095 characters that
  are read, \<open>load_db\<close> loads back into a fresh segment: the same number of accounts with the
  same deposits, withdrawals and balances.
\<close>

theorem log_round_trip:
  assumes ok: "shared_ok sh" and n: "accts_active sh < 100"
    and f: "write_log sh = Inr content" "length content \<le> 4095"
  shows "\<exists>sh'. load_db (Some content) zero_shared = Inr sh' \<and> accts_active sh' = accts_active sh
    \<and> (\<forall>i < MAX_CLI. accounts sh' ! i =
        (if 1 \<le> i \<and> int i \<le> accts_active sh
         then \<lparr>a_id = int i, a_dep = a_dep (accounts sh ! i), a_wdr = a_wdr (accounts sh ! i), a_bal = a_bal (accounts sh ! i)\<rparr>
         else zero_account))"
  using load_of_write [OF ok f] n by (auto simp: entry_def)

text \<open>
  Of a log of a hundred accounts or more only the first 99 are loaded back: \<open>load_db\<close> reads
  two digits of an identity and does not understand the lines of the others, whose money is
  gone after a restart.
\<close>

theorem log_loses_accounts:
  assumes ok: "shared_ok sh" and n: "100 \<le> accts_active sh"
    and f: "write_log sh = Inr content" "length content \<le> 4095"
  shows "\<exists>sh'. load_db (Some content) zero_shared = Inr sh' \<and> accts_active sh' = 99
    \<and> (\<forall>i < MAX_CLI. 100 \<le> i \<longrightarrow> accounts sh' ! i = zero_account)"
  using load_of_write [OF ok f] n by auto

end
