(* ===== verification/Bank_Semaphores.thy ===== *)
theory Bank_Semaphores
  imports Bank_Tellers
begin

text \<open>
  The critical section of a deposit, one memory access per step. The semaphore \<open>sh_lock\<close> is a
  global variable of the server and not part of the shared segment, so that each teller gets
  a copy of its own from \<open>fork\<close>. The model has both: one semaphore for all processes, as the
  code intends, and one per process, as the code has it. The update \<open>x += amount\<close> is a load
  and a store.
\<close>

datatype section_pc = Wait | LoadBal | StoreBal | LoadDep | StoreDep | Post | Done

record process =
  pc :: section_pc
  reg :: int
  amount :: int

record memory =
  m_bal :: int
  m_dep :: int
  sems :: "nat list"
  procs :: "process list"

text \<open>The index of the semaphore that process \<open>i\<close> uses.\<close>

definition sem_of :: "bool \<Rightarrow> nat \<Rightarrow> nat" where
  "sem_of one i = (if one then 0 else i)"

definition set_proc :: "nat \<Rightarrow> process \<Rightarrow> memory \<Rightarrow> memory" where
  "set_proc i p m = m\<lparr>procs := (procs m)[i := p]\<rparr>"

fun deposit_step :: "bool \<Rightarrow> nat \<Rightarrow> memory \<Rightarrow> memory option" where
  "deposit_step one i m =
     (let p = procs m ! i; k = sem_of one i in
      case pc p of
        Wait \<Rightarrow>
          if sems m ! k = 0 then None
          else Some (set_proc i (p\<lparr>pc := LoadBal\<rparr>) (m\<lparr>sems := (sems m)[k := sems m ! k - 1]\<rparr>))
      | LoadBal \<Rightarrow> Some (set_proc i (p\<lparr>reg := m_bal m, pc := StoreBal\<rparr>) m)
      | StoreBal \<Rightarrow> Some (set_proc i (p\<lparr>pc := LoadDep\<rparr>) (m\<lparr>m_bal := reg p + amount p\<rparr>))
      | LoadDep \<Rightarrow> Some (set_proc i (p\<lparr>reg := m_dep m, pc := StoreDep\<rparr>) m)
      | StoreDep \<Rightarrow> Some (set_proc i (p\<lparr>pc := Post\<rparr>) (m\<lparr>m_dep := reg p + amount p\<rparr>))
      | Post \<Rightarrow> Some (set_proc i (p\<lparr>pc := Done\<rparr>) (m\<lparr>sems := (sems m)[k := sems m ! k + 1]\<rparr>))
      | Done \<Rightarrow> None)"

declare deposit_step.simps [simp del]

inductive deposits_reach :: "bool \<Rightarrow> memory \<Rightarrow> memory \<Rightarrow> bool" for one :: bool where
  none: "deposits_reach one m m"
| step: "deposits_reach one m n \<Longrightarrow> i < length (procs n) \<Longrightarrow> deposit_step one i n = Some n' \<Longrightarrow>
    deposits_reach one m n'"

fun run_deposits :: "bool \<Rightarrow> nat list \<Rightarrow> memory \<Rightarrow> memory option" where
  "run_deposits one [] m = Some m"
| "run_deposits one (i # is) m =
     (if i < length (procs m) then (case deposit_step one i m of None \<Rightarrow> None | Some n \<Rightarrow> run_deposits one is n)
      else None)"

definition start_deposits :: "int \<Rightarrow> int \<Rightarrow> int list \<Rightarrow> memory" where
  "start_deposits b d xs = \<lparr>m_bal = b, m_dep = d, sems = replicate (length xs) 1,
     procs = map (\<lambda>x. \<lparr>pc = Wait, reg = 0, amount = x\<rparr>) xs\<rparr>"

definition all_done :: "memory \<Rightarrow> bool" where
  "all_done m \<longleftrightarrow> (\<forall>p \<in> set (procs m). pc p = Done)"

section \<open>One semaphore\<close>

definition inside :: "process \<Rightarrow> bool" where
  "inside p \<longleftrightarrow> pc p \<in> {LoadBal, StoreBal, LoadDep, StoreDep, Post}"

definition bal_added :: "process \<Rightarrow> int" where
  "bal_added p = (if pc p \<in> {LoadDep, StoreDep, Post, Done} then amount p else 0)"

definition dep_added :: "process \<Rightarrow> int" where
  "dep_added p = (if pc p \<in> {Post, Done} then amount p else 0)"

definition exclusive :: "memory \<Rightarrow> bool" where
  "exclusive m \<longleftrightarrow> sems m \<noteq> [] \<and> sems m ! 0 \<le> 1 \<and>
     (\<forall>i < length (procs m). inside (procs m ! i) \<longrightarrow> sems m ! 0 = 0 \<and>
        (\<forall>j < length (procs m). inside (procs m ! j) \<longrightarrow> i = j))"

definition deposits_inv :: "int \<Rightarrow> int \<Rightarrow> int list \<Rightarrow> memory \<Rightarrow> bool" where
  "deposits_inv b d xs m \<longleftrightarrow> exclusive m \<and> map amount (procs m) = xs \<and>
     m_bal m = b + sum_list (map bal_added (procs m)) \<and>
     m_dep m = d + sum_list (map dep_added (procs m)) \<and>
     (\<forall>p \<in> set (procs m). (pc p = StoreBal \<longrightarrow> reg p = m_bal m) \<and> (pc p = StoreDep \<longrightarrow> reg p = m_dep m))"

lemma deposit_step_effect:
  assumes "deposit_step True i m = Some n"
  shows "\<exists>p. procs n = (procs m)[i := p] \<and> inside p = (pc (procs m ! i) \<noteq> Post) \<and>
    inside (procs m ! i) = (pc (procs m ! i) \<noteq> Wait) \<and>
    (pc (procs m ! i) = Wait \<longrightarrow> sems m ! 0 \<noteq> 0) \<and>
    sems n = (if pc (procs m ! i) = Wait then (sems m)[0 := sems m ! 0 - 1]
      else if pc (procs m ! i) = Post then (sems m)[0 := sems m ! 0 + 1] else sems m)"
  using assms
  by (cases "pc (procs m ! i)")
    (auto simp: deposit_step.simps Let_def set_proc_def sem_of_def inside_def split: if_splits)

lemma exclusive_step:
  assumes ex: "exclusive m" and i: "i < length (procs m)" and s: "deposit_step True i m = Some n"
  shows "exclusive n"
proof -
  let ?p = "procs m ! i"
  obtain p where p: "procs n = (procs m)[i := p]" "inside p = (pc ?p \<noteq> Post)" "inside ?p = (pc ?p \<noteq> Wait)"
    "pc ?p = Wait \<longrightarrow> sems m ! 0 \<noteq> 0"
    and sm: "sems n = (if pc ?p = Wait then (sems m)[0 := sems m ! 0 - 1]
      else if pc ?p = Post then (sems m)[0 := sems m ! 0 + 1] else sems m)"
    using deposit_step_effect [OF s] by blast
  have ne: "sems m \<noteq> []" "sems m ! 0 \<le> 1" using ex by (simp_all add: exclusive_def)
  have E: "inside (procs m ! j) \<longrightarrow> sems m ! 0 = 0 \<and> (\<forall>k < length (procs m). inside (procs m ! k) \<longrightarrow> j = k)"
    if "j < length (procs m)" for j
    using ex that by (simp add: exclusive_def)
  have others: "\<not> inside (procs n ! j)" if j: "j < length (procs m)" "j \<noteq> i" for j
  proof (cases "pc ?p = Wait")
    case True
    then have "\<not> inside (procs m ! j)" using E [OF j(1)] p(4) by blast
    then show ?thesis using j by (simp add: p(1))
  next
    case False
    then have "\<not> inside (procs m ! j)" using E [OF i] p(3) j by blast
    then show ?thesis using j by (simp add: p(1))
  qed
  have own: "procs n ! i = p" "length (procs n) = length (procs m)" using p(1) i by simp_all
  have Ei: "pc ?p \<noteq> Wait \<longrightarrow> sems m ! 0 = 0" using E [OF i] p(3) by blast
  have len: "0 < length (sems m)" using ne by simp
  have sem: "sems n \<noteq> [] \<and> sems n ! 0 \<le> 1 \<and> (inside p \<longrightarrow> sems n ! 0 = 0)"
  proof (cases "pc ?p = Wait")
    case True
    then show ?thesis using sm ne len by auto
  next
    case False
    with Ei have "sems m ! 0 = 0" by simp
    then show ?thesis using False sm ne len p(2) by (cases "pc ?p = Post") simp_all
  qed
  have "inside (procs n ! j) \<longrightarrow> j = i" if "j < length (procs m)" for j using others that by blast
  with sem own show ?thesis unfolding exclusive_def by (metis (full_types))
qed

lemma other_not_inside:
  "exclusive m \<Longrightarrow> i < length (procs m) \<Longrightarrow> inside (procs m ! i) \<Longrightarrow> j < length (procs m) \<Longrightarrow> j \<noteq> i \<Longrightarrow>
    \<not> inside (procs m ! j)"
  by (auto simp: exclusive_def)

lemma deposits_inv_step:
  assumes inv: "deposits_inv b d xs m" and i: "i < length (procs m)" and s: "deposit_step True i m = Some n"
  shows "deposits_inv b d xs n"
proof -
  let ?p = "procs m ! i"
  have ex: "exclusive m" using inv by (simp add: deposits_inv_def)
  have ex': "exclusive n" by (rule exclusive_step [OF ex i s])
  have self: "(map amount (procs m))[i := amount (procs m ! i)] = map amount (procs m)"
    using i by (metis list_update_id nth_map)
  have am: "map amount (procs n) = map amount (procs m)"
    using s i by (auto simp: deposit_step.simps Let_def set_proc_def map_update self
        split: section_pc.splits if_splits)
  have p: "?p \<in> set (procs m)" using i by simp
  have regs: "(pc ?p = StoreBal \<longrightarrow> reg ?p = m_bal m) \<and> (pc ?p = StoreDep \<longrightarrow> reg ?p = m_dep m)"
    using inv p by (simp add: deposits_inv_def)
  have sums: "m_bal n = b + sum_list (map bal_added (procs n))" "m_dep n = d + sum_list (map dep_added (procs n))"
    using s i inv regs
    by (auto simp: deposit_step.simps Let_def set_proc_def deposits_inv_def sum_list_update_int bal_added_def
        dep_added_def split: section_pc.splits if_splits)
  have "(pc (procs n ! j) = StoreBal \<longrightarrow> reg (procs n ! j) = m_bal n) \<and>
      (pc (procs n ! j) = StoreDep \<longrightarrow> reg (procs n ! j) = m_dep n)" if j: "j < length (procs m)" for j
  proof (cases "j = i")
    case True
    then show ?thesis
      using s i by (auto simp: deposit_step.simps Let_def set_proc_def split: section_pc.splits if_splits)
  next
    case False
    then have same: "procs n ! j = procs m ! j"
      using s by (auto simp: deposit_step.simps Let_def set_proc_def split: section_pc.splits if_splits)
    have old: "(pc (procs m ! j) = StoreBal \<longrightarrow> reg (procs m ! j) = m_bal m) \<and>
        (pc (procs m ! j) = StoreDep \<longrightarrow> reg (procs m ! j) = m_dep m)"
      using inv j by (simp add: deposits_inv_def)
    show ?thesis
    proof (cases "pc ?p = StoreBal \<or> pc ?p = StoreDep")
      case True
      then have "inside ?p" by (auto simp: inside_def)
      from other_not_inside [OF ex i this j False] show ?thesis by (auto simp: same inside_def)
    next
      case False
      then have "m_bal n = m_bal m" "m_dep n = m_dep m"
        using s by (auto simp: deposit_step.simps Let_def set_proc_def split: section_pc.splits if_splits)
      with old show ?thesis by (simp add: same)
    qed
  qed
  moreover have "length (procs n) = length (procs m)" using am by (metis length_map)
  ultimately have "\<forall>p \<in> set (procs n). (pc p = StoreBal \<longrightarrow> reg p = m_bal n) \<and> (pc p = StoreDep \<longrightarrow> reg p = m_dep n)"
    by (simp add: all_set_conv_all_nth)
  with ex' am sums inv show ?thesis by (simp add: deposits_inv_def)
qed

lemma deposits_inv_start:
  assumes "xs \<noteq> []"
  shows "deposits_inv b d xs (start_deposits b d xs)"
  using assms
  by (auto simp: deposits_inv_def start_deposits_def exclusive_def inside_def bal_added_def dep_added_def comp_def)

lemma deposits_reach_inv:
  "deposits_reach True m n \<Longrightarrow> deposits_inv b d xs m \<Longrightarrow> deposits_inv b d xs n"
  by (induction rule: deposits_reach.induct) (auto dest: deposits_inv_step)


section \<open>A semaphore for each process\<close>

lemma run_deposits_reach:
  "run_deposits one is m = Some n \<Longrightarrow> deposits_reach one k m \<Longrightarrow> deposits_reach one k n"
  by (induction "is" arbitrary: m) (auto split: if_splits option.splits intro: deposits_reach.step)

text \<open>
  With the semaphores as the code has them, a copy in each process, two tellers that deposit
  to the same account can be in the critical section together, and then a deposit can be
  lost: the balance grows by one of the two amounts only, while the sum of deposits grows by
  both.
\<close>

theorem private_semaphores_lose_deposit:
  "\<exists>m. deposits_reach False (start_deposits b d [x, y]) m \<and> all_done m
    \<and> m_bal m = b + x \<and> m_dep m = d + x + y"
proof -
  let ?s = "[0, 0, 1, 1, 1, 1, 1, 1, 0, 0, 0, 0]"
  obtain m where m: "run_deposits False ?s (start_deposits b d [x, y]) = Some m" "all_done m"
    "m_bal m = b + x" "m_dep m = d + x + y"
    by (simp add: start_deposits_def deposit_step.simps Let_def set_proc_def sem_of_def all_done_def)
  from run_deposits_reach [OF m(1) deposits_reach.none] m show ?thesis by blast
qed

end
