(* ===== verification/Bank_Witnesses.thy ===== *)
theory Bank_Witnesses
  imports Bank_Properties Bank_Semaphores
begin

text \<open>Concrete banks, requests and schedules on which the properties of the bank are applied.\<close>

definition one_account :: shared where
  "one_account = zero_shared\<lparr>accounts := (accounts zero_shared)[1 := \<lparr>a_id = 1, a_dep = 30, a_wdr = 10, a_bal = 20\<rparr>],
     accts_active := 1\<rparr>"

lemma one_account_ok: "shared_ok one_account"
  by (auto simp: shared_ok_def one_account_def zero_shared_def c_limits list_all_length nth_list_update account_ok_def
      zero_account_def in_signed_def)

definition hundred_accounts :: shared where
  "hundred_accounts = zero_shared\<lparr>accts_active := 100\<rparr>"

lemma hundred_accounts_ok: "shared_ok hundred_accounts"
  by (simp add: shared_ok_def hundred_accounts_def zero_shared_def c_limits account_ok_zero list_all_length)
    (simp add: zero_account_def)

lemma write_loop_length:
  assumes "1 \<le> i" "n < int (length accs)" "\<And>k. i \<le> k \<Longrightarrow> k \<le> n \<Longrightarrow> length (log_line k (accs ! nat k)) \<le> L"
  shows "\<exists>s. write_loop accs i n = Inr s \<and> length s \<le> L * nat (n + 1 - i)"
  using assms
proof (induction accs i n rule: write_loop.induct)
  case (1 accs i n)
  show ?case
  proof (cases "i \<le> n")
    case False
    then show ?thesis by (simp add: write_loop.simps [of accs i])
  next
    case True
    have pre: "1 \<le> i + 1" "n < int (length accs)" using "1.prems" by auto
    obtain s where s: "write_loop accs (i + 1) n = Inr s" "length s \<le> L * nat (n + 1 - (i + 1))"
      using "1.IH" [OF True pre] "1.prems"(3) by auto
    have k: "nat (n + 1 - i) = Suc (nat (n + 1 - (i + 1)))" using True by simp
    have "length (log_line i (accs ! nat i)) \<le> L" using "1.prems"(3) True by simp
    with s(2) have "length (log_line i (accs ! nat i) @ s) \<le> L * nat (n + 1 - i)"
      unfolding k by simp
    then show ?thesis
      using s(1) True "1.prems" by (simp add: write_loop.simps [of accs i])
  qed
qed

lemma short_lines: "list_all (\<lambda>k. length (log_line (int k) zero_account) \<le> 40) [1..<101]"
  by code_simp

lemma hundred_accounts_log: "\<exists>content. write_log hundred_accounts = Inr content \<and> length content \<le> 4095"
proof -
  have "length (log_line k (accounts hundred_accounts ! nat k)) \<le> 40" if "1 \<le> k" "k \<le> 100" for k
  proof -
    have "accounts hundred_accounts ! nat k = zero_account"
      using that by (simp add: hundred_accounts_def zero_shared_def c_limits)
    moreover have "nat k \<in> set [1..<101]" using that by auto
    then have "length (log_line (int (nat k)) zero_account) \<le> 40"
      using short_lines unfolding list_all_iff by blast
    ultimately show ?thesis using that by simp
  qed
  with write_loop_length [of 1 100 "accounts hundred_accounts" 40]
  obtain s where s: "write_loop (accounts hundred_accounts) 1 100 = Inr s" "length s \<le> 4000"
    by (auto simp: hundred_accounts_def zero_shared_def c_limits)
  have "length end_of_log = 15" by code_simp
  then show ?thesis
    using s by (simp add: write_log_def hundred_accounts_def)
qed

section \<open>Witnesses\<close>


theorem verify_spec_witness: "\<exists>v. verify first_client = Inr v \<and> v = 0"
proof -
  have "c_string (drop 7 (q_id first_client)) = Inr []" by code_simp
  from verify_spec [OF first_client_facts(2,3,1,4) this first_client_facts(7)]
  show ?thesis by (auto simp: isdigit_def)
qed

theorem log_round_trip_witness:
  "\<exists>content sh'. write_log one_account = Inr content \<and> load_db (Some content) zero_shared = Inr sh' \<and>
    accounts sh' ! 1 = \<lparr>a_id = 1, a_dep = 30, a_wdr = 10, a_bal = 20\<rparr>"
proof -
  let ?c = "log_line 1 \<lparr>a_id = 1, a_dep = 30, a_wdr = 10, a_bal = 20\<rparr> @ end_of_log"
  have w: "write_log one_account = Inr ?c"
    by (simp add: write_log_def write_loop.simps one_account_def zero_shared_def c_limits)
  have "length ?c = 38" by code_simp
  then have l: "length ?c \<le> 4095" by simp
  have a: "accts_active one_account < 100" "accts_active one_account = 1" by (simp_all add: one_account_def)
  have i: "(1::nat) < MAX_CLI" by (simp add: c_limits)
  have "accounts one_account ! 1 = \<lparr>a_id = 1, a_dep = 30, a_wdr = 10, a_bal = 20\<rparr>"
    by (simp add: one_account_def zero_shared_def c_limits)
  with log_round_trip [OF one_account_ok a(1) w l] a(2) i w show ?thesis by fastforce
qed

theorem log_loses_accounts_witness:
  "\<exists>content sh'. write_log hundred_accounts = Inr content \<and> load_db (Some content) zero_shared = Inr sh' \<and>
    accts_active hundred_accounts = 100 \<and> accts_active sh' = 99"
proof -
  have a: "100 \<le> accts_active hundred_accounts" "accts_active hundred_accounts = 100"
    by (simp_all add: hundred_accounts_def)
  obtain content where c: "write_log hundred_accounts = Inr content" "length content \<le> 4095"
    using hundred_accounts_log by blast
  from log_loses_accounts [OF hundred_accounts_ok a(1) c] a(2) c show ?thesis by blast
qed


end
