(* ===== verification/Log_Buffer.thy ===== *)
theory Log_Buffer
  imports Container_Contracts
begin

text \<open>
  The bounded buffer of the log searcher (System Programming/HW4/HW4/buffer.c): a ring of
  lines between one manager and several workers. A call that would wait on a condition
  variable is None; the condition variables themselves are in \<open>Log_Search\<close>. The buffer is the
  second provider of the queue contract, after the queue of file requests of the chat server.
\<close>

record buffer =
  lines :: "string list"
  capacity :: nat
  fill :: nat
  head :: nat
  tail :: nat
  eof :: bool

text \<open>\<open>malloc\<close> leaves the slots with arbitrary contents, the first argument.\<close>

definition buffer_init :: "string list \<Rightarrow> nat \<Rightarrow> buffer" where
  "buffer_init junk cap = \<lparr>lines = take cap (junk @ replicate cap []), capacity = cap, fill = 0, head = 0, tail = 0,
     eof = False\<rparr>"

text \<open>What a put and a get do to the ring once they may.\<close>

definition ring_store :: "string \<Rightarrow> buffer \<Rightarrow> buffer" where
  "ring_store line b = b\<lparr>lines := (lines b)[tail b := line], tail := (tail b + 1) mod capacity b, fill := fill b + 1\<rparr>"

definition ring_fetch :: "buffer \<Rightarrow> string \<times> buffer" where
  "ring_fetch b = (lines b ! head b, b\<lparr>head := (head b + 1) mod capacity b, fill := fill b - 1\<rparr>)"

text \<open>None: the caller waits. The flag says whether a line was stored and not_empty signalled.\<close>

definition buffer_put :: "string \<Rightarrow> buffer \<Rightarrow> (bool \<times> buffer) option" where
  "buffer_put line b =
     (if fill b = capacity b \<and> \<not> eof b then None
      else if eof b then Some (False, b)
      else Some (True, ring_store line b))"

definition buffer_get :: "buffer \<Rightarrow> (string option \<times> buffer) option" where
  "buffer_get b =
     (if fill b = 0 \<and> \<not> eof b then None
      else if fill b = 0 \<and> eof b then Some (None, b)
      else (let (line, b') = ring_fetch b in Some (Some line, b')))"

definition buffer_set_eof :: "buffer \<Rightarrow> buffer" where
  "buffer_set_eof b = b\<lparr>eof := True\<rparr>"

text \<open>The lines that \<open>buffer_destroy\<close> frees.\<close>

definition buffer_destroy :: "buffer \<Rightarrow> string list" where
  "buffer_destroy b = map (\<lambda>i. lines b ! ((head b + i) mod capacity b)) [0..<fill b]"

section \<open>The contract\<close>

definition held :: "buffer \<Rightarrow> string list" where
  "held b = ring_contents (lines b) (head b) (fill b) (capacity b)"

definition buffer_ok :: "buffer \<Rightarrow> bool" where
  "buffer_ok b \<longleftrightarrow> ring_ok (lines b) (head b) (tail b) (fill b) (capacity b)"

lemma ring_store_spec:
  assumes "buffer_ok b" "fill b \<noteq> capacity b"
  shows "held (ring_store line b) = held b @ [line]" "buffer_ok (ring_store line b)"
proof -
  have "fill b < capacity b" using assms by (auto simp: buffer_ok_def ring_ok_def)
  with assms(1) show "held (ring_store line b) = held b @ [line]" "buffer_ok (ring_store line b)"
    using ring_put [of "lines b" "head b" "tail b" "fill b" "capacity b" line]
    by (simp_all add: buffer_ok_def held_def ring_store_def)
qed

lemma ring_fetch_spec:
  assumes "buffer_ok b" "fill b \<noteq> 0"
  shows "held b = fst (ring_fetch b) # held (snd (ring_fetch b))" "buffer_ok (snd (ring_fetch b))"
  using ring_get [of "lines b" "head b" "tail b" "fill b" "capacity b"] assms
  by (simp_all add: buffer_ok_def held_def ring_fetch_def)

lemma length_held: "length (held b) = fill b"
  by (simp add: held_def ring_contents_def)

interpretation line_queue: bounded_fifo ring_store ring_fetch "\<lambda>b. fill b = capacity b" "\<lambda>b. fill b = 0"
    held capacity buffer_ok
proof unfold_locales
  fix b :: buffer
  assume "buffer_ok b"
  then show "(fill b = capacity b) = (length (held b) = capacity b)" "(fill b = 0) = (held b = [])"
    "length (held b) \<le> capacity b"
    by (auto simp: length_held buffer_ok_def ring_ok_def simp flip: length_0_conv)
qed (simp_all add: ring_store_spec ring_fetch_spec)

lemma buffer_init_ok:
  assumes "0 < cap"
  shows "buffer_ok (buffer_init junk cap)" "held (buffer_init junk cap) = []"
    "\<not> eof (buffer_init junk cap)" "capacity (buffer_init junk cap) = cap"
  using assms by (simp_all add: buffer_ok_def ring_ok_def buffer_init_def held_def ring_contents_def)

lemma ring_frames [simp]:
  "capacity (ring_store line b) = capacity b" "eof (ring_store line b) = eof b"
  "capacity (snd (ring_fetch b)) = capacity b" "eof (snd (ring_fetch b)) = eof b"
  by (simp_all add: ring_store_def ring_fetch_def)

text \<open>
  The ring of the buffer, freshly allocated with any contents, is a first-in first-out queue
  under every sequence of its two operations, holds at most its capacity, and what
  \<open>buffer_destroy\<close> frees is exactly what was put and not got.
\<close>

theorem buffer_fifo:
  assumes "0 < cap"
    and "fifo_run ring_store ring_fetch (\<lambda>b. fill b = capacity b) (\<lambda>b. fill b = 0) ops (buffer_init junk cap)
      = (got, put, b)"
  shows "got @ buffer_destroy b = put \<and> length (buffer_destroy b) \<le> capacity b"
proof -
  have "buffer_destroy b = held b" by (simp add: buffer_destroy_def held_def ring_contents_def)
  then show ?thesis
    using line_queue.run_fifo [OF buffer_init_ok(1) [OF assms(1)] assms(2)]
      line_queue.run_bounded [OF buffer_init_ok(1) [OF assms(1)] assms(2)] buffer_init_ok(2) [OF assms(1)]
    by simp
qed

theorem buffer_fifo_witness:
  "\<exists>b. fifo_run ring_store ring_fetch (\<lambda>b. fill b = capacity b) (\<lambda>b. fill b = 0)
      [PutOp ''a'', PutOp ''b'', PutOp ''c'', GetOp, PutOp ''d''] (buffer_init [''x''] 2) = ([''a''], [''a'', ''b'', ''d''], b)
    \<and> buffer_destroy b = [''b'', ''d'']"
proof -
  obtain b where b: "fifo_run ring_store ring_fetch (\<lambda>b. fill b = capacity b) (\<lambda>b. fill b = 0)
      [PutOp ''a'', PutOp ''b'', PutOp ''c'', GetOp, PutOp ''d''] (buffer_init [''x''] 2) = ([''a''], [''a'', ''b'', ''d''], b)"
    by (simp add: buffer_init_def ring_store_def ring_fetch_def numeral_2_eq_2)
  have "(0::nat) < 2" by simp
  from buffer_fifo [OF this b] b show ?thesis by simp
qed

end
