(* ===== verification/Log_Search.thy ===== *)
theory Log_Search
  imports Log_Buffer C_Text
begin

text \<open>
  The log searcher (System Programming/HW4/HW4/main.c): the manager reads the lines of a file
  into the buffer, the workers take them out and count the matches of the search term. The
  threads interleave; a thread that waits on a condition variable stays there until another
  signals or broadcasts it (or it wakes up spuriously, which POSIX allows).
\<close>

section \<open>Matches in a line\<close>

fun strstr :: "string \<Rightarrow> string \<Rightarrow> string option" where
  "strstr [] t = (if t = [] then Some [] else None)"
| "strstr (x # xs) t = (if starts_with t (x # xs) then Some (x # xs) else strstr xs t)"

lemma strstr_length: "strstr s t = Some r \<Longrightarrow> length r \<le> length s"
  by (induction s) (auto split: if_splits)

text \<open>
  The loop \<open>found = strstr (found + 1, pat)\<close>. With an empty term the last match is at the
  terminator, and \<open>found + 1\<close> is past the end of the string.
\<close>

function count_matches :: "string \<Rightarrow> string \<Rightarrow> nat res" where
  "count_matches s t =
     (case strstr s t of
        None \<Rightarrow> Inr 0
      | Some [] \<Rightarrow> Inl OutOfBounds
      | Some (x # xs) \<Rightarrow> rbind (count_matches xs t) (\<lambda>n. Inr (n + 1)))"
  by pat_completeness auto
termination
  by (relation "measure (\<lambda>(s, t). length s)") (auto dest: strstr_length)

declare count_matches.simps [simp del]

section \<open>Lines of the file\<close>

definition MAX_LINE_LENGTH :: nat where "MAX_LINE_LENGTH = 1024"

declare MAX_LINE_LENGTH_def [c_limits]

text \<open>The string that is put into the buffer: up to a NUL, without the newline at its end.\<close>

definition strip_newline :: "string \<Rightarrow> string" where
  "strip_newline l = (let s = cstr l in if 0 < length s \<and> last s = LF then butlast s else s)"

function file_lines :: "string \<Rightarrow> string list" where
  "file_lines s =
     (if s = [] then []
      else strip_newline (fst (read_line (MAX_LINE_LENGTH - 1) s)) # file_lines (snd (read_line (MAX_LINE_LENGTH - 1) s)))"
  by pat_completeness auto
termination
  by (relation "measure length") (auto simp: MAX_LINE_LENGTH_def intro!: read_line_length)

declare file_lines.simps [simp del]

section \<open>Threads\<close>

datatype worker_pc = WCheck | WGet | WWait | WLine string | WDone

record worker =
  w_pc :: worker_pc
  matches :: nat

datatype manager_pc = MCheck | MPut string | MWait string | MEof | MDone

record search =
  sbuf :: buffer
  input :: "string list"
  mgr :: manager_pc
  wks :: "worker list"
  running :: bool

text \<open>\<open>pthread_cond_signal\<close> wakes one of the waiting threads, any one, if there is one.\<close>

definition signal_not_empty :: "nat option \<Rightarrow> worker list \<Rightarrow> worker list option" where
  "signal_not_empty j ws =
     (case j of
        None \<Rightarrow> if list_ex (\<lambda>w. w_pc w = WWait) ws then None else Some ws
      | Some i \<Rightarrow> if i < length ws \<and> w_pc (ws ! i) = WWait then Some (ws[i := (ws ! i)\<lparr>w_pc := WGet\<rparr>]) else None)"

definition broadcast_not_empty :: "worker list \<Rightarrow> worker list" where
  "broadcast_not_empty ws = map (\<lambda>w. if w_pc w = WWait then w\<lparr>w_pc := WGet\<rparr> else w) ws"

definition signal_not_full :: "manager_pc \<Rightarrow> manager_pc" where
  "signal_not_full m = (case m of MWait l \<Rightarrow> MPut l | _ \<Rightarrow> m)"

definition manager_step :: "nat option \<Rightarrow> search \<Rightarrow> search option" where
  "manager_step j s =
     (case mgr s of
        MCheck \<Rightarrow>
          if \<not> running s then Some (s\<lparr>mgr := MEof\<rparr>)
          else (case input s of
              [] \<Rightarrow> Some (s\<lparr>mgr := MEof\<rparr>)
            | l # ls \<Rightarrow> Some (s\<lparr>input := ls, mgr := MPut l\<rparr>))
      | MPut l \<Rightarrow>
          (case buffer_put l (sbuf s) of
             None \<Rightarrow> Some (s\<lparr>mgr := MWait l\<rparr>)
           | Some (stored, b) \<Rightarrow>
               if stored
               then map_option (\<lambda>ws. s\<lparr>sbuf := b, wks := ws, mgr := MCheck\<rparr>) (signal_not_empty j (wks s))
               else Some (s\<lparr>mgr := MCheck\<rparr>))
      | MWait l \<Rightarrow> None
      | MEof \<Rightarrow> Some (s\<lparr>sbuf := buffer_set_eof (sbuf s), wks := broadcast_not_empty (wks s), mgr := MDone\<rparr>)
      | MDone \<Rightarrow> None)"

definition set_worker :: "nat \<Rightarrow> worker_pc \<Rightarrow> search \<Rightarrow> search" where
  "set_worker i pc s = s\<lparr>wks := (wks s)[i := (wks s ! i)\<lparr>w_pc := pc\<rparr>]\<rparr>"

definition worker_step :: "string \<Rightarrow> nat \<Rightarrow> search \<Rightarrow> search res option" where
  "worker_step pat i s =
     (case w_pc (wks s ! i) of
        WCheck \<Rightarrow> Some (Inr (set_worker i (if running s then WGet else WDone) s))
      | WGet \<Rightarrow>
          (case buffer_get (sbuf s) of
             None \<Rightarrow> Some (Inr (set_worker i WWait s))
           | Some (None, b) \<Rightarrow> Some (Inr (set_worker i WDone s))
           | Some (Some line, b) \<Rightarrow>
               Some (Inr (set_worker i (WLine line) (s\<lparr>sbuf := b, mgr := signal_not_full (mgr s)\<rparr>))))
      | WWait \<Rightarrow> None
      | WLine line \<Rightarrow>
          Some (rbind (count_matches line pat) (\<lambda>n.
            Inr (s\<lparr>wks := (wks s)[i := \<lparr>w_pc = WCheck, matches = matches (wks s ! i) + n\<rparr>]\<rparr>)))
      | WDone \<Rightarrow> None)"

datatype search_event =
    Manager "nat option"
  | Worker nat
  | Interrupt
  | WakeManager
  | WakeWorker nat

fun search_step :: "string \<Rightarrow> search_event \<Rightarrow> search \<Rightarrow> search res option" where
  "search_step pat (Manager j) s = map_option Inr (manager_step j s)"
| "search_step pat (Worker i) s = (if i < length (wks s) then worker_step pat i s else None)"
| "search_step pat Interrupt s = Some (Inr (s\<lparr>running := False\<rparr>))"
| "search_step pat WakeManager s =
     (case mgr s of MWait l \<Rightarrow> Some (Inr (s\<lparr>mgr := MPut l\<rparr>)) | _ \<Rightarrow> None)"
| "search_step pat (WakeWorker i) s =
     (if i < length (wks s) \<and> w_pc (wks s ! i) = WWait then Some (Inr (set_worker i WGet s)) else None)"

text \<open>
  The threads are all there from the start. When the file cannot be opened, the manager only
  sets the end-of-file flag.
\<close>

definition start_search :: "string list \<Rightarrow> nat \<Rightarrow> nat \<Rightarrow> string option \<Rightarrow> search" where
  "start_search junk cap n content =
     \<lparr>sbuf = buffer_init junk cap, input = (case content of None \<Rightarrow> [] | Some text \<Rightarrow> file_lines text),
      mgr = (case content of None \<Rightarrow> MEof | Some text \<Rightarrow> MCheck),
      wks = replicate n \<lparr>w_pc = WCheck, matches = 0\<rparr>, running = True\<rparr>"

definition search_main :: "string list \<Rightarrow> int \<Rightarrow> int \<Rightarrow> string option \<Rightarrow> search option" where
  "search_main junk buffer_size worker_num content =
     (if buffer_size \<le> 0 \<or> worker_num \<le> 0 then None
      else Some (start_search junk (nat buffer_size) (nat worker_num) content))"

text \<open>Runs; \<open>intr\<close> says whether the interrupt signal may come.\<close>

inductive search_reach :: "string \<Rightarrow> bool \<Rightarrow> search \<Rightarrow> search \<Rightarrow> bool" for pat :: string and intr :: bool where
  none: "search_reach pat intr s s"
| step: "search_reach pat intr s t \<Longrightarrow> (e = Interrupt \<Longrightarrow> intr) \<Longrightarrow> search_step pat e t = Some (Inr u) \<Longrightarrow>
    search_reach pat intr s u"

definition search_done :: "search \<Rightarrow> bool" where
  "search_done s \<longleftrightarrow> mgr s = MDone \<and> (\<forall>w \<in> set (wks s). w_pc w = WDone)"

text \<open>What the last thread at the barrier prints.\<close>

definition total_matches :: "search \<Rightarrow> nat" where
  "total_matches s = sum_list (map matches (wks s))"

text \<open>No thread can go on by itself.\<close>

definition search_stuck :: "string \<Rightarrow> search \<Rightarrow> bool" where
  "search_stuck pat s \<longleftrightarrow> (\<forall>j. search_step pat (Manager j) s = None) \<and> (\<forall>i. search_step pat (Worker i) s = None)"

section \<open>The loop counts the occurrences\<close>

definition occurrences :: "string \<Rightarrow> string \<Rightarrow> nat" where
  "occurrences t s = length (filter (\<lambda>i. starts_with t (drop i s)) [0..<length s])"

lemma occurrences_Nil [simp]: "occurrences t [] = 0"
  by (simp add: occurrences_def)

lemma occurrences_Cons:
  "occurrences t (x # xs) = (if starts_with t (x # xs) then 1 else 0) + occurrences t xs"
proof -
  have "[0..<length (x # xs)] = 0 # map Suc [0..<length xs]"
    by (simp add: upt_conv_Cons map_Suc_upt del: upt_Suc)
  then show ?thesis
    unfolding occurrences_def by (simp add: filter_map comp_def)
qed

lemma strstr_None_occurrences: "t \<noteq> [] \<Longrightarrow> strstr s t = None \<Longrightarrow> occurrences t s = 0"
  by (induction s) (auto simp: occurrences_Cons split: if_splits)

lemma strstr_Some_occurrences:
  "t \<noteq> [] \<Longrightarrow> strstr s t = Some r \<Longrightarrow> \<exists>x xs. r = x # xs \<and> occurrences t s = Suc (occurrences t xs)"
  by (induction s) (auto simp: occurrences_Cons split: if_splits)

lemma count_matches_occurrences:
  assumes "t \<noteq> []"
  shows "count_matches s t = Inr (occurrences t s)"
  using assms
proof (induction s t rule: count_matches.induct)
  case (1 s t)
  show ?case
  proof (cases "strstr s t")
    case None
    then show ?thesis using strstr_None_occurrences [OF "1.prems"] by (simp add: count_matches.simps [of s])
  next
    case (Some r)
    then obtain x xs where r: "r = x # xs" "occurrences t s = Suc (occurrences t xs)"
      using strstr_Some_occurrences [OF "1.prems"] by blast
    with "1.IH" [OF Some r(1) "1.prems"] Some show ?thesis by (simp add: count_matches.simps [of s])
  qed
qed

end
