(* ===== verification/Log_Properties.thy ===== *)
theory Log_Properties
  imports Log_Search
begin

text \<open>
  What the log searcher guarantees: while no interrupt comes, the number that is printed is the
  number of matches in the lines of the file, however the threads interleave, and the threads
  never get stuck. An interrupt can leave the manager waiting for ever.
\<close>

section \<open>What is still to be counted\<close>

definition contrib :: "string \<Rightarrow> worker \<Rightarrow> nat" where
  "contrib t w = matches w + (case w_pc w of WLine l \<Rightarrow> occurrences t l | _ \<Rightarrow> 0)"

definition pending :: "string \<Rightarrow> manager_pc \<Rightarrow> nat" where
  "pending t m = (case m of MPut l \<Rightarrow> occurrences t l | MWait l \<Rightarrow> occurrences t l | _ \<Rightarrow> 0)"

definition count_in :: "string \<Rightarrow> string list \<Rightarrow> nat" where
  "count_in t ls = sum_list (map (occurrences t) ls)"

definition potential :: "string \<Rightarrow> search \<Rightarrow> nat" where
  "potential t s = sum_list (map (contrib t) (wks s)) + count_in t (held (sbuf s)) + pending t (mgr s) + count_in t (input s)"

lemma count_in_simps [simp]:
  "count_in t [] = 0" "count_in t (l # ls) = occurrences t l + count_in t ls" "count_in t (ls @ ms) = count_in t ls + count_in t ms"
  by (simp_all add: count_in_def)

lemma pending_simps [simp]:
  "pending t MCheck = 0" "pending t (MPut l) = occurrences t l" "pending t (MWait l) = occurrences t l"
  "pending t MEof = 0" "pending t MDone = 0" "pending t (signal_not_full m) = pending t m"
  by (simp_all add: pending_def signal_not_full_def split: manager_pc.splits)

lemma sum_list_contrib_update:
  assumes "i < length ws"
  shows "sum_list (map f (ws[i := w])) + f (ws ! i) = sum_list (map f ws) + (f w :: nat)"
  using assms
proof (induction ws arbitrary: i)
  case (Cons x ws)
  then show ?case by (cases i) (auto simp: algebra_simps)
qed simp

lemma ex_in_update:
  assumes "i < length ws" "\<not> P w" "\<not> P (ws ! i)"
  shows "(\<exists>v \<in> set (ws[i := w]). P v) \<longleftrightarrow> (\<exists>v \<in> set ws. P v)"
proof -
  have "set ws = insert (ws ! i) (set (take i ws) \<union> set (drop (Suc i) ws))"
    by (subst id_take_nth_drop [OF assms(1)]) auto
  moreover have "set (ws[i := w]) = insert w (set (take i ws) \<union> set (drop (Suc i) ws))"
    by (subst upd_conv_take_nth_drop [OF assms(1)]) auto
  ultimately show ?thesis using assms by auto
qed

section \<open>The workers\<close>

abbreviation waiting :: "worker \<Rightarrow> bool" where
  "waiting w \<equiv> w_pc w = WWait"

definition active :: "worker \<Rightarrow> bool" where
  "active w \<longleftrightarrow> w_pc w \<noteq> WWait \<and> w_pc w \<noteq> WDone"

definition actives :: "worker list \<Rightarrow> nat" where
  "actives ws = length (filter active ws)"

lemma actives_update:
  assumes "i < length ws"
  shows "actives (ws[i := w]) + (if active (ws ! i) then 1 else 0) = actives ws + (if active w then 1 else 0)"
  unfolding actives_def by (rule length_filter_update [OF assms])

lemma actives_pos: "i < length ws \<Longrightarrow> active (ws ! i) \<Longrightarrow> 0 < actives ws"
  unfolding actives_def by (auto simp: filter_empty_conv intro: nth_mem)

text \<open>
  The state is well formed: the flag of the buffer says that the manager is done, who waits has a
  reason to, and who is done leaves nothing behind.
\<close>

definition search_inv :: "search \<Rightarrow> bool" where
  "search_inv s \<longleftrightarrow> buffer_ok (sbuf s) \<and> 0 < capacity (sbuf s) \<and> running s
    \<and> (eof (sbuf s) \<longleftrightarrow> mgr s = MDone)
    \<and> (mgr s = MEof \<or> mgr s = MDone \<longrightarrow> input s = [])
    \<and> (\<forall>l. mgr s = MWait l \<longrightarrow> fill (sbuf s) = capacity (sbuf s))
    \<and> ((\<exists>w \<in> set (wks s). w_pc w = WDone) \<longrightarrow> eof (sbuf s) \<and> fill (sbuf s) = 0)
    \<and> ((\<exists>w \<in> set (wks s). waiting w) \<longrightarrow> \<not> eof (sbuf s) \<and> fill (sbuf s) \<le> actives (wks s))"

lemma search_invD:
  assumes "search_inv s"
  shows "buffer_ok (sbuf s)" "0 < capacity (sbuf s)" "running s"
    "eof (sbuf s) \<longleftrightarrow> mgr s = MDone"
    "mgr s = MEof \<or> mgr s = MDone \<Longrightarrow> input s = []"
    "mgr s = MWait l \<Longrightarrow> fill (sbuf s) = capacity (sbuf s)"
    "w \<in> set (wks s) \<Longrightarrow> w_pc w = WDone \<Longrightarrow> eof (sbuf s) \<and> fill (sbuf s) = 0"
    "w \<in> set (wks s) \<Longrightarrow> waiting w \<Longrightarrow> \<not> eof (sbuf s) \<and> fill (sbuf s) \<le> actives (wks s)"
  using assms by (auto simp: search_inv_def)

lemma start_search_inv:
  assumes "0 < cap"
  shows "search_inv (start_search junk cap n content)"
proof -
  have "capacity (buffer_init junk cap) = cap" "\<not> eof (buffer_init junk cap)" "buffer_ok (buffer_init junk cap)"
    using buffer_init_ok [OF assms] by auto
  with assms show ?thesis
    by (auto simp: search_inv_def start_search_def split: option.splits)
qed

lemma fill_frames [simp]:
  "fill (ring_store l b) = fill b + 1" "fill (snd (ring_fetch b)) = fill b - 1"
  by (simp_all add: ring_store_def ring_fetch_def)

lemma search_fill_le: "search_inv s \<Longrightarrow> fill (sbuf s) \<le> capacity (sbuf s)"
  by (auto simp: search_inv_def buffer_ok_def ring_ok_def)

section \<open>A step of a worker\<close>

lemma worker_update_inv:
  assumes inv: "search_inv s" and i: "i < length (wks s)"
    and b: "buffer_ok b" "capacity b = capacity (sbuf s)" "eof b = eof (sbuf s)" "fill b \<le> fill (sbuf s)"
    and m: "m = mgr s \<or> (\<exists>l. mgr s = MWait l \<and> m = MPut l)" "\<And>l. m = MWait l \<Longrightarrow> fill b = fill (sbuf s)"
    and w: "active w \<or> waiting w \<and> fill b = 0 \<and> \<not> eof b \<or> w_pc w = WDone \<and> eof b \<and> fill b = 0"
  shows "search_inv (s\<lparr>sbuf := b, mgr := m, wks := (wks s)[i := w]\<rparr>)"
proof -
  have acts: "actives (wks s) \<le> actives ((wks s)[i := w])" if "active w"
    using actives_update [OF i, of w] that by (auto split: if_splits)
  have fin: "eof b \<and> fill b = 0" if "v \<in> set ((wks s)[i := w])" "w_pc v = WDone" for v
  proof (cases "v = w")
    case True
    with that(2) w show ?thesis by (auto simp: active_def)
  next
    case False
    with that(1) have "v \<in> set (wks s)" using set_update_subset_insert [of "wks s" i w] by auto
    with search_invD(7) [OF inv _ that(2)] b show ?thesis by simp
  qed
  have wait: "\<not> eof b \<and> fill b \<le> actives ((wks s)[i := w])" if "v \<in> set ((wks s)[i := w])" "waiting v" for v
  proof (cases "v = w")
    case True
    with that(2) w show ?thesis by (auto simp: active_def)
  next
    case False
    with that(1) have "v \<in> set (wks s)" using set_update_subset_insert [of "wks s" i w] by auto
    from search_invD(8) [OF inv this that(2)] have "\<not> eof b" "fill b \<le> actives (wks s)" using b by auto
    with w acts show ?thesis by (auto intro: order_trans)
  qed
  have "mgr s = MWait l \<Longrightarrow> fill (sbuf s) = capacity (sbuf s)" for l by (rule search_invD(6) [OF inv])
  then have full: "m = MWait l \<Longrightarrow> fill b = capacity b" for l
  proof -
    assume l: "m = MWait l"
    with m(1) have "mgr s = MWait l" by auto
    with search_invD(6) [OF inv this] m(2) [OF l] b(2) show ?thesis by simp
  qed
  have "eof b \<longleftrightarrow> m = MDone" "m = MEof \<or> m = MDone \<longrightarrow> input s = []"
    using m(1) b search_invD(4,5) [OF inv] by auto
  with fin wait full b search_invD(2,3) [OF inv] show ?thesis
    unfolding search_inv_def by auto
qed

lemma worker_update_potential:
  assumes "i < length (wks s)"
    and "contrib t w + count_in t (held b) + pending t m
      = contrib t (wks s ! i) + count_in t (held (sbuf s)) + pending t (mgr s)"
  shows "potential t (s\<lparr>sbuf := b, mgr := m, wks := (wks s)[i := w]\<rparr>) = potential t s"
  using sum_list_contrib_update [OF assms(1), of "contrib t" w] assms(2) by (simp add: potential_def)

definition keeps :: "string \<Rightarrow> search \<Rightarrow> search \<Rightarrow> bool" where
  "keeps t s u \<longleftrightarrow> search_inv u \<and> potential t u = potential t s \<and> length (wks u) = length (wks s)"

lemma worker_update_keeps:
  assumes "search_inv s" "i < length (wks s)"
    and "buffer_ok b" "capacity b = capacity (sbuf s)" "eof b = eof (sbuf s)" "fill b \<le> fill (sbuf s)"
    and "m = mgr s \<or> (\<exists>l. mgr s = MWait l \<and> m = MPut l)" "\<And>l. m = MWait l \<Longrightarrow> fill b = fill (sbuf s)"
    and "active w \<or> waiting w \<and> fill b = 0 \<and> \<not> eof b \<or> w_pc w = WDone \<and> eof b \<and> fill b = 0"
    and "contrib t w + count_in t (held b) + pending t m
      = contrib t (wks s ! i) + count_in t (held (sbuf s)) + pending t (mgr s)"
  shows "keeps t s (s\<lparr>sbuf := b, mgr := m, wks := (wks s)[i := w]\<rparr>)"
  using worker_update_inv [OF assms(1-9)] worker_update_potential [OF assms(2,10)] by (simp add: keeps_def)

text \<open>A worker that changes nothing but itself.\<close>

lemma worker_only_keeps:
  assumes "search_inv s" "i < length (wks s)"
    and "active w \<or> waiting w \<and> fill (sbuf s) = 0 \<and> \<not> eof (sbuf s) \<or> w_pc w = WDone \<and> eof (sbuf s) \<and> fill (sbuf s) = 0"
    and "contrib t w = contrib t (wks s ! i)"
  shows "keeps t s (s\<lparr>wks := (wks s)[i := w]\<rparr>)"
  using worker_update_keeps [OF assms(1,2), of "sbuf s" "mgr s" w t] search_invD(1) [OF assms(1)] assms(3,4) by simp

lemma contrib_set:
  "pc \<in> {WCheck, WGet, WWait, WDone} \<Longrightarrow> contrib t (w\<lparr>w_pc := pc\<rparr>) = matches w"
  "contrib t (w\<lparr>w_pc := WLine l\<rparr>) = matches w + occurrences t l"
  by (auto simp: contrib_def)

lemma worker_step_keeps:
  assumes t: "t \<noteq> []" and inv: "search_inv s" and i: "i < length (wks s)"
    and step: "worker_step t i s = Some r"
  shows "\<exists>u. r = Inr u \<and> keeps t s u"
proof (cases "w_pc (wks s ! i)")
  case WCheck
  then have "r = Inr (set_worker i WGet s)" using step search_invD(3) [OF inv] by (simp add: worker_step_def)
  moreover have "keeps t s (set_worker i WGet s)" unfolding set_worker_def
    by (rule worker_only_keeps [OF inv i]) (simp_all add: active_def contrib_set, simp add: contrib_def WCheck)
  ultimately show ?thesis by blast
next
  case WGet
  show ?thesis
  proof (cases "fill (sbuf s) = 0")
    case True
    define pc where "pc = (if eof (sbuf s) then WDone else WWait)"
    have "r = Inr (set_worker i pc s)" using step True WGet
      by (auto simp: worker_step_def buffer_get_def pc_def)
    moreover have "keeps t s (set_worker i pc s)" unfolding set_worker_def
      by (rule worker_only_keeps [OF inv i]) (simp_all add: pc_def contrib_set True, simp add: contrib_def WGet)
    ultimately show ?thesis by blast
  next
    case False
    define b where "b = snd (ring_fetch (sbuf s))"
    define l where "l = fst (ring_fetch (sbuf s))"
    define w where "w = (wks s ! i)\<lparr>w_pc := WLine l\<rparr>"
    have r: "r = Inr (s\<lparr>sbuf := b, mgr := signal_not_full (mgr s), wks := (wks s)[i := w]\<rparr>)"
      using step False WGet
      by (simp add: worker_step_def buffer_get_def set_worker_def split_def Let_def b_def l_def w_def)
    have held: "held (sbuf s) = l # held b" "buffer_ok b"
      unfolding b_def l_def using ring_fetch_spec [OF search_invD(1) [OF inv] False] by auto
    have old: "contrib t (wks s ! i) = matches (wks s ! i)" by (simp add: contrib_def WGet)
    have "keeps t s (s\<lparr>sbuf := b, mgr := signal_not_full (mgr s), wks := (wks s)[i := w]\<rparr>)"
    proof (rule worker_update_keeps [OF inv i held(2)])
      show "signal_not_full (mgr s) = mgr s \<or> (\<exists>l. mgr s = MWait l \<and> signal_not_full (mgr s) = MPut l)"
        by (simp add: signal_not_full_def split: manager_pc.splits)
      show "signal_not_full (mgr s) = MWait l' \<Longrightarrow> fill b = fill (sbuf s)" for l'
        by (simp add: signal_not_full_def split: manager_pc.splits)
    qed (simp_all add: b_def w_def active_def contrib_set old held [unfolded b_def])
    with r show ?thesis by blast
  qed
next
  case (WLine l)
  define w where "w = \<lparr>w_pc = WCheck, matches = matches (wks s ! i) + occurrences t l\<rparr>"
  have "r = Inr (s\<lparr>wks := (wks s)[i := w]\<rparr>)" using step WLine count_matches_occurrences [OF t, of l]
    by (simp add: worker_step_def w_def)
  moreover have "keeps t s (s\<lparr>wks := (wks s)[i := w]\<rparr>)"
    by (rule worker_only_keeps [OF inv i]) (simp_all add: w_def active_def contrib_def WLine)
  ultimately show ?thesis by blast
qed (use step in \<open>simp_all add: worker_step_def\<close>)

section \<open>A step of the manager\<close>

lemma signal_not_empty_keeps:
  assumes "signal_not_empty j ws = Some vs"
  shows "(\<exists>w \<in> set vs. w_pc w = WDone) \<longleftrightarrow> (\<exists>w \<in> set ws. w_pc w = WDone)"
    "sum_list (map (contrib t) vs) = sum_list (map (contrib t) ws)"
    "(\<exists>w \<in> set vs. waiting w) \<Longrightarrow> (\<exists>w \<in> set ws. waiting w) \<and> actives vs = actives ws + 1"
    "length vs = length ws"
proof -
  have "((\<exists>w \<in> set vs. w_pc w = WDone) \<longleftrightarrow> (\<exists>w \<in> set ws. w_pc w = WDone))
    \<and> sum_list (map (contrib t) vs) = sum_list (map (contrib t) ws)
    \<and> ((\<exists>w \<in> set vs. waiting w) \<longrightarrow> (\<exists>w \<in> set ws. waiting w) \<and> actives vs = actives ws + 1)
    \<and> length vs = length ws"
  proof (cases j)
    case None
    with assms show ?thesis
      by (auto simp: signal_not_empty_def list_ex_iff split: if_splits)
  next
    case (Some i)
    then have i: "i < length ws" "waiting (ws ! i)" and vs: "vs = ws[i := (ws ! i)\<lparr>w_pc := WGet\<rparr>]"
      using assms by (auto simp: signal_not_empty_def split: if_splits)
    have "actives vs = actives ws + 1"
      using actives_update [OF i(1), of "(ws ! i)\<lparr>w_pc := WGet\<rparr>"] i(2) by (simp add: vs active_def)
    moreover have "contrib t ((ws ! i)\<lparr>w_pc := WGet\<rparr>) = contrib t (ws ! i)"
      using i(2) by (simp add: contrib_def)
    then have "sum_list (map (contrib t) vs) = sum_list (map (contrib t) ws)"
      using sum_list_contrib_update [OF i(1), of "contrib t" "(ws ! i)\<lparr>w_pc := WGet\<rparr>"] by (simp add: vs)
    moreover have "(\<exists>w \<in> set vs. w_pc w = WDone) \<longleftrightarrow> (\<exists>w \<in> set ws. w_pc w = WDone)"
      unfolding vs by (rule ex_in_update) (simp_all add: i)
    ultimately show ?thesis using i by (auto simp: vs intro: nth_mem)
  qed
  then show "(\<exists>w \<in> set vs. w_pc w = WDone) \<longleftrightarrow> (\<exists>w \<in> set ws. w_pc w = WDone)"
    "sum_list (map (contrib t) vs) = sum_list (map (contrib t) ws)"
    "(\<exists>w \<in> set vs. waiting w) \<Longrightarrow> (\<exists>w \<in> set ws. waiting w) \<and> actives vs = actives ws + 1"
    "length vs = length ws" by blast+
qed

lemma broadcast_not_empty_keeps:
  "w \<in> set (broadcast_not_empty ws) \<Longrightarrow> w_pc w = WDone \<Longrightarrow> \<exists>v \<in> set ws. w_pc v = WDone"
  "w \<in> set (broadcast_not_empty ws) \<Longrightarrow> w_pc w \<noteq> WWait"
  "sum_list (map (contrib t) (broadcast_not_empty ws)) = sum_list (map (contrib t) ws)"
proof -
  show "sum_list (map (contrib t) (broadcast_not_empty ws)) = sum_list (map (contrib t) ws)"
    unfolding broadcast_not_empty_def by (induction ws) (auto simp: contrib_def)
qed (auto simp: broadcast_not_empty_def split: if_splits)

lemma manager_step_keeps:
  assumes inv: "search_inv s" and step: "manager_step j s = Some u"
  shows "keeps t s u"
proof (cases "mgr s")
  case MCheck
  then show ?thesis using step inv
    by (auto simp: manager_step_def keeps_def potential_def search_inv_def split: list.splits)
next
  case (MPut l)
  note I = search_invD [OF inv]
  have e: "\<not> eof (sbuf s)" using I(4) MPut by simp
  show ?thesis
  proof (cases "fill (sbuf s) = capacity (sbuf s)")
    case True
    then show ?thesis using step MPut e inv
      by (auto simp: manager_step_def buffer_put_def keeps_def potential_def search_inv_def)
  next
    case False
    then obtain ws where ws: "signal_not_empty j (wks s) = Some ws"
        and u: "u = s\<lparr>sbuf := ring_store l (sbuf s), wks := ws, mgr := MCheck\<rparr>"
      using step MPut e by (auto simp: manager_step_def buffer_put_def)
    note S = signal_not_empty_keeps [OF ws]
    have "\<not> (\<exists>w \<in> set ws. w_pc w = WDone)" using S(1) I(7) e by blast
    moreover have "fill (sbuf s) + 1 \<le> actives ws" if "\<exists>w \<in> set ws. waiting w"
      using S(3) [OF that] I(8) by auto
    ultimately have "search_inv u"
      using I(2,3) e ring_store_spec(2) [OF I(1) False] by (auto simp: u search_inv_def)
    moreover have "potential t u = potential t s"
      using ring_store_spec(1) [OF I(1) False, of l] S(2) [of t] by (simp add: u potential_def MPut)
    ultimately show ?thesis using S(4) by (simp add: keeps_def u)
  qed
next
  case MEof
  note I = search_invD [OF inv] and B = broadcast_not_empty_keeps [where ws = "wks s"]
  have u: "u = s\<lparr>sbuf := buffer_set_eof (sbuf s), wks := broadcast_not_empty (wks s), mgr := MDone\<rparr>"
    using step MEof by (simp add: manager_step_def)
  have b: "buffer_ok (buffer_set_eof (sbuf s))" "held (buffer_set_eof (sbuf s)) = held (sbuf s)"
    "capacity (buffer_set_eof (sbuf s)) = capacity (sbuf s)" "eof (buffer_set_eof (sbuf s))"
    using I(1) by (simp_all add: buffer_set_eof_def buffer_ok_def held_def)
  have "\<not> (\<exists>w \<in> set (wks s). w_pc w = WDone)" using I(4) I(7) MEof by auto
  then have "search_inv u" using b I(2,3,5) MEof B(1,2) by (auto simp: u search_inv_def)
  moreover have "potential t u = potential t s" using b B(3) [of t] by (simp add: u potential_def MEof)
  ultimately show ?thesis by (simp add: keeps_def u broadcast_not_empty_def)
qed (use step in \<open>simp_all add: manager_step_def\<close>)

section \<open>Runs\<close>

lemma search_step_keeps:
  assumes t: "t \<noteq> []" and inv: "search_inv s" and e: "e \<noteq> Interrupt" and step: "search_step t e s = Some r"
  shows "\<exists>u. r = Inr u \<and> keeps t s u"
proof (cases e)
  case (Manager j)
  then show ?thesis using step manager_step_keeps [OF inv] by auto
next
  case (Worker i)
  then show ?thesis using step worker_step_keeps [OF t inv] by (auto split: if_splits)
next
  case WakeManager
  then obtain l where l: "mgr s = MWait l" "r = Inr (s\<lparr>mgr := MPut l\<rparr>)"
    using step by (auto split: manager_pc.splits)
  have "keeps t s (s\<lparr>mgr := MPut l\<rparr>)"
    using inv l by (auto simp: keeps_def potential_def search_inv_def)
  with l show ?thesis by blast
next
  case (WakeWorker i)
  then have i: "i < length (wks s)" "waiting (wks s ! i)" "r = Inr (set_worker i WGet s)"
    using step by (auto split: if_splits)
  have "keeps t s (set_worker i WGet s)" unfolding set_worker_def
    by (rule worker_only_keeps [OF inv i(1)]) (simp_all add: active_def contrib_set, simp add: contrib_def i(2))
  with i show ?thesis by blast
qed (use e in simp)

lemma search_reach_keeps:
  assumes "search_reach t intr s u" "\<not> intr" "t \<noteq> []" "search_inv s"
  shows "keeps t s u"
  using assms
proof (induction rule: search_reach.induct)
  case (none s)
  then show ?case by (simp add: keeps_def)
next
  case (step s u e v)
  then have "keeps t s u" "e \<noteq> Interrupt" by auto
  with search_step_keeps [OF step.prems(2) _ this(2) step.hyps(3)] show ?case by (auto simp: keeps_def)
qed

section \<open>The number that is printed\<close>

definition matches_in_file :: "string \<Rightarrow> string option \<Rightarrow> nat" where
  "matches_in_file t content = (case content of None \<Rightarrow> 0 | Some text \<Rightarrow> count_in t (file_lines text))"

lemma potential_start:
  "0 < cap \<Longrightarrow> potential t (start_search junk cap n content) = matches_in_file t content"
  using buffer_init_ok(2) [of cap junk]
  by (simp add: potential_def start_search_def matches_in_file_def contrib_def sum_list_replicate split: option.splits)

lemma potential_done:
  assumes "search_inv s" "search_done s" "wks s \<noteq> []"
  shows "potential t s = total_matches s"
proof -
  have d: "mgr s = MDone" "\<forall>w \<in> set (wks s). w_pc w = WDone" using assms(2) by (auto simp: search_done_def)
  obtain w where "w \<in> set (wks s)" using assms(3) by (cases "wks s") auto
  then have "fill (sbuf s) = 0" using search_invD(7) [OF assms(1)] d(2) by blast
  then have "held (sbuf s) = []" by (simp flip: length_0_conv add: length_held)
  moreover have "input s = []" using search_invD(5) [OF assms(1)] d(1) by simp
  moreover have "map (contrib t) (wks s) = map matches (wks s)" using d(2) by (simp add: contrib_def)
  ultimately show ?thesis using d(1)
    by (simp add: potential_def total_matches_def del: map_eq_conv)
qed

lemma search_main_start:
  assumes "search_main junk bs wn content = Some s"
  shows "\<exists>cap n. 0 < cap \<and> 0 < n \<and> cap = nat bs \<and> n = nat wn \<and> s = start_search junk cap n content"
  using assms by (auto simp: search_main_def split: if_splits)

lemma search_main_reach:
  assumes "search_main junk bs wn content = Some s0" "t \<noteq> []" "search_reach t False s0 s"
  shows "search_inv s" "potential t s = matches_in_file t content" "length (wks s) = nat wn" "0 < nat wn"
proof -
  obtain cap n where m: "0 < cap" "0 < n" "n = nat wn" "s0 = start_search junk cap n content"
    using search_main_start [OF assms(1)] by blast
  have "keeps t s0 s" using search_reach_keeps [OF assms(3) _ assms(2)] start_search_inv [OF m(1)] m(4) by simp
  then show "search_inv s" "potential t s = matches_in_file t content" "length (wks s) = nat wn" "0 < nat wn"
    using m potential_start [OF m(1)] by (simp_all add: keeps_def start_search_def)
qed


lemma manager_stuck:
  assumes inv: "search_inv s" and none: "\<And>j. manager_step j s = None"
  shows "mgr s = MDone \<or> (\<exists>l. mgr s = MWait l \<and> 0 < fill (sbuf s))"
proof (cases "mgr s")
  case MCheck
  with none [of None] show ?thesis by (auto simp: manager_step_def split: if_splits list.splits)
next
  case (MPut l)
  have e: "\<not> eof (sbuf s)" using search_invD(4) [OF inv] MPut by simp
  have full: "fill (sbuf s) \<noteq> capacity (sbuf s)"
    using none [of None] MPut e by (auto simp: manager_step_def buffer_put_def)
  show ?thesis
  proof (cases "list_ex waiting (wks s)")
    case True
    then obtain i where "i < length (wks s)" "waiting (wks s ! i)" by (auto simp: list_ex_length)
    with none [of "Some i"] MPut e full show ?thesis by (simp add: manager_step_def buffer_put_def signal_not_empty_def)
  next
    case False
    with none [of None] MPut e full show ?thesis by (simp add: manager_step_def buffer_put_def signal_not_empty_def)
  qed
next
  case (MWait l)
  with search_invD(2,6) [OF inv] show ?thesis by auto
next
  case MEof
  with none [of None] show ?thesis by (simp add: manager_step_def)
qed simp

lemma worker_stuck:
  assumes "worker_step t i s = None"
  shows "\<not> active (wks s ! i)"
  using assms by (cases "w_pc (wks s ! i)")
    (auto simp: worker_step_def active_def split: option.splits prod.splits)

lemma search_stuck_done:
  assumes inv: "search_inv s" and ws: "wks s \<noteq> []" and stuck: "search_stuck t s"
  shows "search_done s"
proof -
  have idle: "w_pc w = WWait \<or> w_pc w = WDone" if w: "w \<in> set (wks s)" for w
  proof -
    obtain i where i: "i < length (wks s)" "w = wks s ! i" using w by (auto simp: in_set_conv_nth)
    have "search_step t (Worker i) s = None" using stuck by (simp only: search_stuck_def)
    with i worker_stuck [of t i s] show ?thesis by (auto simp: active_def)
  qed
  then have "actives (wks s) = 0" by (auto simp: actives_def filter_empty_conv active_def)
  then have wait: "\<not> eof (sbuf s) \<and> fill (sbuf s) = 0" if "w \<in> set (wks s)" "waiting w" for w
    using search_invD(8) [OF inv that] by simp
  have m: "mgr s = MDone \<or> (\<exists>l. mgr s = MWait l \<and> 0 < fill (sbuf s))"
    using manager_stuck [OF inv] stuck by (simp add: search_stuck_def)
  have "\<not> waiting w" if "w \<in> set (wks s)" for w
    using wait [OF that] m search_invD(4) [OF inv] by auto
  with idle have d: "\<forall>w \<in> set (wks s). w_pc w = WDone" by blast
  with ws obtain w where "w \<in> set (wks s)" "w_pc w = WDone" by (cases "wks s") auto
  with search_invD(7) [OF inv] have "eof (sbuf s)" by blast
  with d search_invD(4) [OF inv] show ?thesis by (simp add: search_done_def)
qed

text \<open>
  While no interrupt comes, the threads of the log searcher cannot block each other: in a
  state in which no thread can go on by itself (without a spurious wake-up), all have finished;
  and no step of a thread is undefined.
\<close>

theorem search_no_deadlock:
  assumes "search_main junk buffer_size worker_num content = Some s0" "t \<noteq> []"
    and "search_reach t False s0 s"
  shows "(search_stuck t s \<longrightarrow> search_done s)
    \<and> (\<forall>e r. e \<noteq> Interrupt \<and> search_step t e s = Some r \<longrightarrow> defined r)"
proof -
  note M = search_main_reach [OF assms]
  from M(3,4) have "wks s \<noteq> []" by auto
  with search_stuck_done [OF M(1)] search_step_keeps [OF assms(2) M(1)] show ?thesis
    by (metis defined_simps(2))
qed

section \<open>The threads finish\<close>

text \<open>Steps of the threads themselves, none of them a spurious wake-up.\<close>

inductive own_steps :: "string \<Rightarrow> nat \<Rightarrow> search \<Rightarrow> search \<Rightarrow> bool" for t :: string where
  own_none: "own_steps t 0 s s"
| own_manager: "own_steps t k s u \<Longrightarrow> search_step t (Manager j) u = Some (Inr v) \<Longrightarrow> own_steps t (Suc k) s v"
| own_worker: "own_steps t k s u \<Longrightarrow> search_step t (Worker i) u = Some (Inr v) \<Longrightarrow> own_steps t (Suc k) s v"

lemma own_steps_reach: "own_steps t k s u \<Longrightarrow> search_reach t False s u"
proof (induction rule: own_steps.induct)
  case (own_none s)
  show ?case by (rule search_reach.none)
next
  case (own_manager k s u j v)
  from own_manager(3) _ own_manager(2) show ?case by (rule search_reach.step) simp
next
  case (own_worker k s u i v)
  from own_worker(3) _ own_worker(2) show ?case by (rule search_reach.step) simp
qed

definition worker_cost :: "worker \<Rightarrow> nat" where
  "worker_cost w = (case w_pc w of WDone \<Rightarrow> 0 | WWait \<Rightarrow> 1 | WGet \<Rightarrow> 2 | WCheck \<Rightarrow> 3 | WLine l \<Rightarrow> 4)"

definition manager_cost :: "nat \<Rightarrow> manager_pc \<Rightarrow> nat" where
  "manager_cost n m = (case m of MDone \<Rightarrow> 0 | MEof \<Rightarrow> n + 1 | MCheck \<Rightarrow> n + 2 | MWait l \<Rightarrow> n + 8 | MPut l \<Rightarrow> n + 9)"

definition cost :: "search \<Rightarrow> nat" where
  "cost s = sum_list (map worker_cost (wks s)) + manager_cost (length (wks s)) (mgr s) + 4 * fill (sbuf s)
     + 8 * length (input s)"

lemma worker_step_cost:
  assumes i: "i < length (wks s)" and step: "worker_step t i s = Some (Inr u)" and inv: "search_inv s"
  shows "cost u < cost s"
proof -
  have upd: "sum_list (map worker_cost ((wks s)[i := w])) + worker_cost (wks s ! i)
      = sum_list (map worker_cost (wks s)) + worker_cost w" for w
    by (rule sum_list_contrib_update [OF i])
  have sig: "manager_cost n (signal_not_full m) \<le> manager_cost n m + 1" for n m
    by (simp add: signal_not_full_def manager_cost_def split: manager_pc.splits)
  show ?thesis
  proof (cases "w_pc (wks s ! i)")
    case WCheck
    then have "u = set_worker i WGet s" using step search_invD(3) [OF inv] by (simp add: worker_step_def)
    with upd [of "(wks s ! i)\<lparr>w_pc := WGet\<rparr>"] WCheck show ?thesis by (simp add: cost_def set_worker_def worker_cost_def)
  next
    case WGet
    show ?thesis
    proof (cases "fill (sbuf s) = 0")
      case True
      then have "u = set_worker i (if eof (sbuf s) then WDone else WWait) s"
        using step WGet by (auto simp: worker_step_def buffer_get_def)
      with upd [of "(wks s ! i)\<lparr>w_pc := if eof (sbuf s) then WDone else WWait\<rparr>"] WGet show ?thesis
        by (auto simp: cost_def set_worker_def worker_cost_def split: if_splits)
    next
      case False
      define l where "l = fst (ring_fetch (sbuf s))"
      have "u = set_worker i (WLine l) (s\<lparr>sbuf := snd (ring_fetch (sbuf s)), mgr := signal_not_full (mgr s)\<rparr>)"
        using step False WGet by (simp add: worker_step_def buffer_get_def split_def Let_def l_def)
      with upd [of "(wks s ! i)\<lparr>w_pc := WLine l\<rparr>"] WGet False sig [of "length (wks s)" "mgr s"] show ?thesis
        by (simp add: cost_def set_worker_def worker_cost_def)
    qed
  next
    case (WLine l)
    then obtain w where "u = s\<lparr>wks := (wks s)[i := w]\<rparr>" "w_pc w = WCheck"
      using step by (auto simp: worker_step_def rbind_eq_Inr)
    with upd [of w] WLine show ?thesis by (simp add: cost_def worker_cost_def)
  qed (use step in \<open>simp_all add: worker_step_def\<close>)
qed

lemma manager_step_cost:
  assumes step: "manager_step j s = Some u"
  shows "cost u < cost s"
proof (cases "mgr s")
  case MCheck
  with step show ?thesis
    by (auto simp: manager_step_def cost_def manager_cost_def split: if_splits list.splits)
next
  case (MPut l)
  have sig: "sum_list (map worker_cost vs) \<le> sum_list (map worker_cost (wks s)) + 1 \<and> length vs = length (wks s)"
    if vs: "signal_not_empty j (wks s) = Some vs" for vs
  proof (cases j)
    case None
    with vs show ?thesis by (auto simp: signal_not_empty_def split: if_splits)
  next
    case (Some i)
    with vs have i: "i < length (wks s)" "waiting (wks s ! i)" "vs = (wks s)[i := (wks s ! i)\<lparr>w_pc := WGet\<rparr>]"
      by (auto simp: signal_not_empty_def split: if_splits)
    with sum_list_contrib_update [OF i(1), of worker_cost "(wks s ! i)\<lparr>w_pc := WGet\<rparr>"] show ?thesis
      by (simp add: worker_cost_def)
  qed
  with step MPut show ?thesis
    by (force simp: manager_step_def cost_def manager_cost_def buffer_put_def split: if_splits option.splits)
next
  case MEof
  have "sum_list (map worker_cost (broadcast_not_empty ws)) \<le> sum_list (map worker_cost ws) + length ws" for ws
    unfolding broadcast_not_empty_def by (induction ws) (auto simp: worker_cost_def)
  from this [of "wks s"] MEof step show ?thesis
    by (auto simp: manager_step_def cost_def manager_cost_def buffer_set_eof_def broadcast_not_empty_def)
qed (use step in \<open>simp_all add: manager_step_def\<close>)

lemma own_steps_cost:
  assumes "own_steps t k s u" "t \<noteq> []" "search_inv s"
  shows "k + cost u \<le> cost s"
  using assms
proof (induction rule: own_steps.induct)
  case (own_manager k s u j v)
  with manager_step_cost [of j u v] show ?case by auto
next
  case (own_worker k s u i v)
  have "search_inv u" using search_reach_keeps [OF own_steps_reach [OF own_worker(1)]] own_worker(4,5) by (simp add: keeps_def)
  with own_worker worker_step_cost [of i u t v] show ?case by (auto split: if_splits)
qed simp

definition lines_of :: "string option \<Rightarrow> string list" where
  "lines_of content = (case content of None \<Rightarrow> [] | Some text \<Rightarrow> file_lines text)"

lemma cost_start: "cost (start_search junk cap n content) \<le> 8 * length (lines_of content) + 4 * n + 2"
  by (auto simp: cost_def start_search_def lines_of_def worker_cost_def manager_cost_def buffer_init_def sum_list_replicate
      split: option.splits)


section \<open>An interrupt\<close>

lemma reach_step:
  "search_reach t True s u \<Longrightarrow> search_step t e u = Some (Inr v) \<Longrightarrow> search_reach t True s v"
  by (rule search_reach.step) simp_all

lemma search_reach_trans:
  assumes "search_reach t intr u v" "search_reach t intr s u"
  shows "search_reach t intr s v"
  using assms
proof (induction rule: search_reach.induct)
  case (step s u e v)
  from step.IH [OF step.prems] step.hyps(2,3) show ?case by (rule search_reach.step)
qed

text \<open>The manager alone fills the buffer, and then waits.\<close>

lemma manager_fills:
  fixes n :: nat and junk :: "string list"
  assumes "k \<le> cap" "k \<le> length (file_lines text)"
  defines "s0 \<equiv> start_search junk cap n (Some text)"
  shows "\<exists>b. search_reach t True s0 (s0\<lparr>sbuf := b, input := drop k (file_lines text)\<rparr>)
    \<and> capacity b = cap \<and> fill b = k \<and> \<not> eof b"
  using assms(1,2)
proof (induction k)
  case 0
  have "search_reach t True s0 (s0\<lparr>sbuf := buffer_init junk cap, input := file_lines text\<rparr>)"
    using search_reach.none [of t True s0] by (simp add: s0_def start_search_def)
  then show ?case by (intro exI [of _ "buffer_init junk cap"]) (simp add: buffer_init_def)
next
  case (Suc k)
  then obtain b where b: "search_reach t True s0 (s0\<lparr>sbuf := b, input := drop k (file_lines text)\<rparr>)"
    "capacity b = cap" "fill b = k" "\<not> eof b" by auto
  obtain l where l: "drop k (file_lines text) = l # drop (Suc k) (file_lines text)"
    using Suc.prems(2) by (metis Cons_nth_drop_Suc Suc_le_lessD)
  have m: "mgr s0 = MCheck" "running s0" "\<not> list_ex waiting (wks s0)"
    by (simp_all add: s0_def start_search_def list_ex_iff)
  from b(1) have "search_reach t True s0 (s0\<lparr>sbuf := b, input := drop (Suc k) (file_lines text), mgr := MPut l\<rparr>)"
    by (rule reach_step [of _ _ _ "Manager None"]) (simp add: manager_step_def m l)
  then have "search_reach t True s0 (s0\<lparr>sbuf := ring_store l b, input := drop (Suc k) (file_lines text)\<rparr>)"
    by (rule reach_step [of _ _ _ "Manager None"])
      (use b Suc.prems(1) m in \<open>simp add: manager_step_def buffer_put_def signal_not_empty_def\<close>)
  with b show ?case by (intro exI [of _ "ring_store l b"]) simp
qed

lemma workers_leave:
  assumes "\<not> running s" "wks s = replicate n \<lparr>w_pc = WCheck, matches = 0\<rparr>" "k \<le> n"
  shows "search_reach t True s
    (s\<lparr>wks := replicate k \<lparr>w_pc = WDone, matches = 0\<rparr> @ replicate (n - k) \<lparr>w_pc = WCheck, matches = 0\<rparr>\<rparr>)"
  using assms(3)
proof (induction k)
  case 0
  have "s\<lparr>wks := replicate n \<lparr>w_pc = WCheck, matches = 0\<rparr>\<rparr> = s" using assms(2) by (cases s) simp
  with search_reach.none [of t True s] show ?case by simp
next
  case (Suc k)
  then have k: "n - k = Suc (n - Suc k)" by simp
  let ?u = "\<lambda>k. s\<lparr>wks := replicate k \<lparr>w_pc = WDone, matches = 0\<rparr> @ replicate (n - k) \<lparr>w_pc = WCheck, matches = 0\<rparr>\<rparr>"
  have "search_step t (Worker k) (?u k) = Some (Inr (?u (Suc k)))"
    using assms(1) by (simp add: k worker_step_def set_worker_def nth_append list_update_append replicate_app_Cons_same)
  moreover have "search_reach t True s (?u k)" using Suc by simp
  ultimately show ?case by (rule reach_step [rotated])
qed

text \<open>
  An interrupt can leave the log searcher hanging: when the file has more lines than the
  buffer, the manager can be waiting for a place in the full buffer while every worker sees the
  flag and leaves; then no thread can go on, and the manager has not finished.
\<close>

theorem interrupt_hangs:
  assumes "0 < cap" "cap < length (file_lines text)"
  shows "\<exists>s. search_reach t True (start_search junk cap n (Some text)) s \<and> search_stuck t s \<and> \<not> search_done s
    \<and> (\<forall>w \<in> set (wks s). w_pc w = WDone)"
proof -
  let ?start = "start_search junk cap n (Some text)"
  obtain b where b: "search_reach t True ?start (?start\<lparr>sbuf := b, input := drop cap (file_lines text)\<rparr>)"
    "capacity b = cap" "fill b = cap" "\<not> eof b"
    using manager_fills [of cap cap "text" t junk n] assms by auto
  obtain l ls where l: "drop cap (file_lines text) = l # ls"
    using assms(2) by (metis Cons_nth_drop_Suc)
  have m: "mgr ?start = MCheck" "running ?start" by (simp_all add: start_search_def)
  from b(1) have "search_reach t True ?start (?start\<lparr>sbuf := b, input := ls, mgr := MPut l\<rparr>)"
    by (rule reach_step [of _ _ _ "Manager None"]) (simp add: manager_step_def m l)
  then have "search_reach t True ?start (?start\<lparr>sbuf := b, input := ls, mgr := MWait l\<rparr>)"
    by (rule reach_step [of _ _ _ "Manager None"]) (simp add: manager_step_def buffer_put_def b)
  then have r: "search_reach t True ?start (?start\<lparr>sbuf := b, input := ls, mgr := MWait l, running := False\<rparr>)"
    by (rule reach_step [of _ _ _ Interrupt]) simp
  let ?last = "?start\<lparr>sbuf := b, input := ls, mgr := MWait l, running := False, wks := replicate n \<lparr>w_pc = WDone, matches = 0\<rparr>\<rparr>"
  have "search_reach t True (?start\<lparr>sbuf := b, input := ls, mgr := MWait l, running := False\<rparr>) ?last"
    using workers_leave [of "?start\<lparr>sbuf := b, input := ls, mgr := MWait l, running := False\<rparr>" n n t]
    by (simp add: start_search_def)
  from search_reach_trans [OF this r] have "search_reach t True ?start ?last" .
  then show ?thesis
    by (intro exI [of _ ?last]) (simp add: search_stuck_def search_done_def manager_step_def worker_step_def)
qed

section \<open>Matches and lines\<close>

lemma count_matches_empty: "count_matches s [] = Inl OutOfBounds"
proof (induction s)
  case Nil
  show ?case by (simp add: count_matches.simps [of "[]"])
next
  case (Cons x xs)
  then show ?case by (simp add: count_matches.simps [of "x # xs"] starts_with_def)
qed

text \<open>
  The loop over \<open>strstr\<close> counts every position of the line at which the term occurs,
  overlapping occurrences included; with an empty term it leaves the line.
\<close>

theorem count_matches_spec:
  "count_matches s t = (if t = [] then Inl OutOfBounds else Inr (occurrences t s))"
  using count_matches_empty count_matches_occurrences by simp

lemma cstr_id: "NUL \<notin> set l \<Longrightarrow> cstr l = l"
  unfolding cstr_def by (induction l) auto

lemma strip_newline_exact:
  assumes "LF \<notin> set l" "NUL \<notin> set l"
  shows "strip_newline (l @ nl) = l" "strip_newline l = l"
proof -
  have "NUL \<notin> set (l @ nl)" using assms by (simp add: nl_def NUL_def LF_def)
  then show "strip_newline (l @ nl) = l" by (simp add: strip_newline_def cstr_id) (simp add: nl_def)
  have "l \<noteq> [] \<Longrightarrow> last l \<noteq> LF" using assms(1) last_in_set by metis
  then show "strip_newline l = l" using assms(2) by (auto simp: strip_newline_def cstr_id)
qed

definition plain_line :: "string \<Rightarrow> bool" where
  "plain_line l \<longleftrightarrow> LF \<notin> set l \<and> NUL \<notin> set l \<and> length l < MAX_LINE_LENGTH - 1"

text \<open>
  Reading a text file gives back its lines, with or without a newline at its end, when every
  line is shorter than 1023 characters and has no NUL.
\<close>

theorem file_lines_roundtrip:
  assumes "\<forall>l \<in> set ls. plain_line l" "plain_line last_line"
  shows "file_lines (concat (map (\<lambda>l. l @ nl) ls) @ last_line) = ls @ (if last_line = [] then [] else [last_line])"
  using assms(1)
proof (induction ls)
  case Nil
  have r: "read_line (MAX_LINE_LENGTH - 1) last_line = (last_line, [])"
    using assms(2) by (intro read_line_last) (auto simp: plain_line_def)
  have "strip_newline last_line = last_line" using assms(2) by (auto simp: plain_line_def intro: strip_newline_exact)
  with r show ?case by (simp add: file_lines.simps [of last_line] file_lines.simps [of "[]"])
next
  case (Cons l ls)
  let ?rest = "concat (map (\<lambda>l. l @ nl) ls) @ last_line"
  have r: "read_line (MAX_LINE_LENGTH - 1) (l @ LF # ?rest) = (l @ nl, ?rest)"
    using Cons.prems by (intro read_line_exact) (auto simp: plain_line_def)
  have "strip_newline (l @ nl) = l" using Cons.prems by (auto simp: plain_line_def intro: strip_newline_exact)
  with r have "file_lines (l @ LF # ?rest) = l # file_lines ?rest" by (simp add: file_lines.simps [of "l @ LF # ?rest"])
  moreover have "file_lines ?rest = ls @ (if last_line = [] then [] else [last_line])" using Cons by simp
  moreover have "concat (map (\<lambda>l. l @ nl) (l # ls)) @ last_line = l @ LF # ?rest" by (simp add: nl_def)
  ultimately show ?case by (simp only: append_Cons)
qed

section \<open>Witnesses\<close>

text \<open>Two workers, a buffer of one place, and a file with three lines.\<close>

definition demo_text :: string where
  "demo_text = ''ab'' @ nl @ ''xaba'' @ nl @ ''b''"

fun run_search :: "string \<Rightarrow> search_event list \<Rightarrow> search \<Rightarrow> search option" where
  "run_search t [] s = Some s"
| "run_search t (e # es) s = (case search_step t e s of Some (Inr u) \<Rightarrow> run_search t es u | _ \<Rightarrow> None)"

fun own_event :: "search_event \<Rightarrow> bool" where
  "own_event (Manager j) = True"
| "own_event (Worker i) = True"
| "own_event e = False"

lemma own_steps_run:
  assumes "own_steps t k s0 s" "run_search t es s = Some u" "list_all own_event es"
  shows "own_steps t (k + length es) s0 u"
  using assms
proof (induction es arbitrary: k s)
  case (Cons e es)
  from Cons.prems(2) obtain v where v: "search_step t e s = Some (Inr v)" "run_search t es v = Some u"
    by (auto split: option.splits sum.splits)
  have "own_steps t (Suc k) s0 v"
    using Cons.prems(1,3) v(1) by (cases e) (auto intro: own_steps.intros)
  from Cons.IH [OF this v(2)] Cons.prems(3) show ?case by simp
qed simp

definition demo_events :: "search_event list" where
  "demo_events = [Worker 0, Worker 0, Manager None, Manager (Some 0), Worker 1, Manager None, Manager None, Worker 0,
     Worker 0, Manager None, Manager None, Worker 1, Worker 1, Worker 0, Worker 0, Manager (Some 0), Manager None,
     Worker 0, Worker 0, Worker 1, Worker 1, Manager None, Worker 1, Worker 0, Worker 0]"

definition demo_start :: search where
  "demo_start = start_search [] 1 2 (Some demo_text)"

lemma demo_main: "search_main [] 1 2 (Some demo_text) = Some demo_start"
  by (simp add: search_main_def demo_start_def)

lemma demo_run:
  "map_option (\<lambda>s. (mgr s, wks s, total_matches s)) (run_search ''ab'' demo_events demo_start)
     = Some (MDone, [\<lparr>w_pc = WDone, matches = 1\<rparr>, \<lparr>w_pc = WDone, matches = 1\<rparr>], 2)"
  by code_simp

lemma demo_lines: "file_lines demo_text = [''ab'', ''xaba'', ''b'']"
  by code_simp

lemma demo_end:
  obtains s where "own_steps ''ab'' 25 demo_start s" "search_done s" "total_matches s = 2"
proof -
  obtain s where s: "run_search ''ab'' demo_events demo_start = Some s" "mgr s = MDone"
    "wks s = [\<lparr>w_pc = WDone, matches = 1\<rparr>, \<lparr>w_pc = WDone, matches = 1\<rparr>]" "total_matches s = 2"
    using demo_run by auto
  have "own_steps ''ab'' (0 + length demo_events) demo_start s"
    by (rule own_steps_run [OF own_steps.own_none s(1)]) (simp add: demo_events_def)
  moreover have "0 + length demo_events = 25" unfolding demo_events_def by simp
  ultimately have "own_steps ''ab'' 25 demo_start s" by (simp only:)
  with s that show thesis by (simp add: search_done_def)
qed

lemma demo_stuck: "search_done s \<Longrightarrow> search_stuck t s"
  by (auto simp: search_done_def search_stuck_def manager_step_def worker_step_def)


theorem search_no_deadlock_witness:
  "\<exists>s. search_reach ''ab'' False demo_start s \<and> search_stuck ''ab'' s \<and> search_done s"
proof -
  obtain s where s: "own_steps ''ab'' 25 demo_start s" "search_done s" "total_matches s = 2" by (rule demo_end)
  have "''ab'' \<noteq> []" by simp
  with search_no_deadlock [OF demo_main _ own_steps_reach [OF s(1)]] s own_steps_reach [OF s(1)] demo_stuck show ?thesis by blast
qed


theorem interrupt_hangs_witness:
  "\<exists>s. search_reach ''ab'' True (start_search [] 1 2 (Some demo_text)) s \<and> search_stuck ''ab'' s \<and> \<not> search_done s"
  using interrupt_hangs [of 1 demo_text "''ab''" "[]" 2] by (auto simp: demo_lines)

theorem file_lines_roundtrip_witness:
  "file_lines (concat (map (\<lambda>l. l @ nl) [''ab'', []]) @ ''b'') = [''ab'', [], ''b'']"
proof -
  have "\<forall>l \<in> set [''ab'', []]. plain_line l" "plain_line ''b''"
    by (simp_all add: plain_line_def LF_def NUL_def MAX_LINE_LENGTH_def)
  from file_lines_roundtrip [OF this] show ?thesis by simp
qed

end
