(* ===== verification/Cxx_Exception.thy ===== *)
theory Cxx_Exception
  imports C_Base
begin

text \<open>
  Code that updates a state and may throw, as in the C++ programs. A run ends normally with a
  value, by an exception, or in undefined behaviour; the state at the time of an exception is
  kept, because a handler goes on from there.
\<close>

datatype ('s, 'a) outcome = Undef ub | Thrown 's | Done 'a 's

type_synonym ('s, 'a) code = "'s \<Rightarrow> ('s, 'a) outcome"

named_theorems code_simps \<open>how the combinators of code run\<close>

definition ret :: "'a \<Rightarrow> ('s, 'a) code" where
  "ret a s = Done a s"

definition seq :: "('s, 'a) code \<Rightarrow> ('a \<Rightarrow> ('s, 'b) code) \<Rightarrow> ('s, 'b) code" where
  "seq m f s = (case m s of Undef e \<Rightarrow> Undef e | Thrown t \<Rightarrow> Thrown t | Done a t \<Rightarrow> f a t)"

definition throw :: "('s, 'a) code" where
  "throw s = Thrown s"

definition change :: "('s \<Rightarrow> 's) \<Rightarrow> ('s, unit) code" where
  "change f s = Done () (f s)"

definition asks :: "('s \<Rightarrow> 'a) \<Rightarrow> ('s, 'a) code" where
  "asks f s = Done (f s) s"

definition check :: "'a res \<Rightarrow> ('s, 'a) code" where
  "check r s = (case r of Inl e \<Rightarrow> Undef e | Inr a \<Rightarrow> Done a s)"

text \<open>\<open>try { m } catch (const std::exception&) { h }\<close>.\<close>

definition catch :: "('s, 'a) code \<Rightarrow> ('s, 'a) code \<Rightarrow> ('s, 'a) code" where
  "catch m h s = (case m s of Undef e \<Rightarrow> Undef e | Thrown t \<Rightarrow> h t | Done a t \<Rightarrow> Done a t)"

lemma code_runs [simp]:
  "ret a s = Done a s" "throw s = Thrown s" "change f s = Done () (f s)" "asks g s = Done (g s) s"
  "check (Inl e) s = Undef e" "check (Inr a) s = Done a s"
  by (simp_all add: ret_def throw_def change_def asks_def check_def)

lemma seq_runs [code_simps]:
  "m s = Undef e \<Longrightarrow> seq m f s = Undef e" "m s = Thrown t \<Longrightarrow> seq m f s = Thrown t"
  "m s = Done a t \<Longrightarrow> seq m f s = f a t"
  by (simp_all add: seq_def)

lemma seq_ret [simp]: "seq (ret a) f s = f a s"
  by (simp add: seq_def)

lemma seq_throw [simp]: "seq throw f s = Thrown s"
  by (simp add: seq_def)

lemma seq_change [simp]: "seq (change g) f s = f () (g s)"
  by (simp add: seq_def)

lemma seq_asks [simp]: "seq (asks g) f s = f (g s) s"
  by (simp add: seq_def)

lemma seq_check [simp]: "seq (check (Inl e)) f s = Undef e" "seq (check (Inr a)) f s = f a s"
  by (simp_all add: seq_def)

lemma seq_Done: "seq m f s = Done b u \<longleftrightarrow> (\<exists>a t. m s = Done a t \<and> f a t = Done b u)"
  by (auto simp: seq_def split: outcome.splits)

lemma seq_Thrown: "seq m f s = Thrown u \<longleftrightarrow> m s = Thrown u \<or> (\<exists>a t. m s = Done a t \<and> f a t = Thrown u)"
  by (auto simp: seq_def split: outcome.splits)

lemma seq_Undef: "seq m f s = Undef e \<longleftrightarrow> m s = Undef e \<or> (\<exists>a t. m s = Done a t \<and> f a t = Undef e)"
  by (auto simp: seq_def split: outcome.splits)

section \<open>What code keeps\<close>

text \<open>
  A predicate P on the state that code keeps, however it ends, and a predicate Q on its result.
  The rules follow the structure of the code, so that a component proves an invariant of its
  operations from that of its accesses.
\<close>

definition keeps_inv :: "('s \<Rightarrow> bool) \<Rightarrow> ('s, 'a) code \<Rightarrow> ('a \<Rightarrow> bool) \<Rightarrow> bool" where
  "keeps_inv P m Q \<longleftrightarrow>
     (\<forall>s. P s \<longrightarrow> (case m s of Undef e \<Rightarrow> True | Thrown t \<Rightarrow> P t | Done a t \<Rightarrow> P t \<and> Q a))"

named_theorems keeps_intros \<open>rules for what code keeps\<close>

lemma keeps_inv_seq [keeps_intros]:
  assumes "keeps_inv P m Q" "\<And>a. Q a \<Longrightarrow> keeps_inv P (f a) R"
  shows "keeps_inv P (seq m f) R"
  unfolding keeps_inv_def
proof (intro allI impI)
  fix s assume "P s"
  with assms(1) have m: "case m s of Undef e \<Rightarrow> True | Thrown t \<Rightarrow> P t | Done a t \<Rightarrow> P t \<and> Q a"
    by (simp add: keeps_inv_def)
  show "case seq m f s of Undef e \<Rightarrow> True | Thrown t \<Rightarrow> P t | Done a t \<Rightarrow> P t \<and> R a"
  proof (cases "m s")
    case (Done a t)
    with m assms(2) [of a] show ?thesis by (simp add: keeps_inv_def seq_def)
  qed (use m in \<open>simp_all add: seq_def\<close>)
qed

lemma keeps_inv_ret [keeps_intros]: "Q a \<Longrightarrow> keeps_inv P (ret a) Q"
  by (simp add: keeps_inv_def)

lemma keeps_inv_throw [keeps_intros]: "keeps_inv P throw Q"
  by (simp add: keeps_inv_def)

lemma keeps_inv_asks: "(\<And>s. P s \<Longrightarrow> Q (g s)) \<Longrightarrow> keeps_inv P (asks g) Q"
  by (simp add: keeps_inv_def)

lemma keeps_inv_check [keeps_intros]: "keeps_inv P (check r) (\<lambda>a. r = Inr a)"
  by (simp add: keeps_inv_def check_def split: sum.splits)

lemma keeps_inv_undef [keeps_intros]: "keeps_inv P (check (Inl e)) Q"
  by (simp add: keeps_inv_def)

lemma keeps_inv_if [keeps_intros]:
  "(c \<Longrightarrow> keeps_inv P m Q) \<Longrightarrow> (\<not> c \<Longrightarrow> keeps_inv P n Q) \<Longrightarrow> keeps_inv P (if c then m else n) Q"
  by simp

lemma keeps_inv_change: "(\<And>s. P s \<Longrightarrow> P (f s)) \<Longrightarrow> Q () \<Longrightarrow> keeps_inv P (change f) Q"
  by (simp add: keeps_inv_def)

lemma keeps_inv_catch [keeps_intros]:
  assumes "keeps_inv P m Q" "keeps_inv P h Q"
  shows "keeps_inv P (catch m h) Q"
  unfolding keeps_inv_def
proof (intro allI impI)
  fix s assume "P s"
  with assms show "case catch m h s of Undef e \<Rightarrow> True | Thrown t \<Rightarrow> P t | Done a t \<Rightarrow> P t \<and> Q a"
    by (cases "m s") (auto simp: catch_def keeps_inv_def)
qed

lemma keeps_invD:
  "keeps_inv P m Q \<Longrightarrow> P s \<Longrightarrow> m s = Done a t \<Longrightarrow> P t \<and> Q a"
  "keeps_inv P m Q \<Longrightarrow> P s \<Longrightarrow> m s = Thrown t \<Longrightarrow> P t"
  by (force simp: keeps_inv_def)+

section \<open>What code does not see\<close>

text \<open>
  Code agrees on a relation between states when it ends in the same way from related states, with
  the same result and in related states: nothing that the relation leaves open has an influence.
\<close>

definition agrees :: "('s \<Rightarrow> 's \<Rightarrow> bool) \<Rightarrow> ('s, 'a) code \<Rightarrow> bool" where
  "agrees R m \<longleftrightarrow> (\<forall>s t. R s t \<longrightarrow>
     (case m s of
        Undef e \<Rightarrow> m t = Undef e
      | Thrown u \<Rightarrow> (\<exists>v. m t = Thrown v \<and> R u v)
      | Done a u \<Rightarrow> (\<exists>v. m t = Done a v \<and> R u v)))"

named_theorems agrees_intros \<open>rules for what code does not see\<close>

lemma agreesD:
  assumes "agrees R m" "R s t"
  shows "m s = Undef e \<Longrightarrow> m t = Undef e"
    "m s = Thrown u \<Longrightarrow> \<exists>v. m t = Thrown v \<and> R u v"
    "m s = Done a u \<Longrightarrow> \<exists>v. m t = Done a v \<and> R u v"
  using assms by (force simp: agrees_def)+

lemma agrees_seq [agrees_intros]:
  assumes "agrees R m" "\<And>a. agrees R (f a)"
  shows "agrees R (seq m f)"
  unfolding agrees_def
proof (intro allI impI)
  fix s t assume R: "R s t"
  show "case seq m f s of Undef e \<Rightarrow> seq m f t = Undef e | Thrown u \<Rightarrow> \<exists>v. seq m f t = Thrown v \<and> R u v
      | Done b u \<Rightarrow> \<exists>v. seq m f t = Done b v \<and> R u v"
  proof (cases "m s")
    case (Done a u)
    then obtain v where "m t = Done a v" "R u v" using agreesD(3) [OF assms(1) R] by blast
    then have eqs: "seq m f s = f a u" "seq m f t = f a v" "R u v" using Done by (simp_all add: seq_def)
    show ?thesis unfolding eqs(1,2) by (cases "f a u") (use agreesD [OF assms(2) eqs(3)] in auto)
  qed (use agreesD [OF assms(1) R] in \<open>auto simp: seq_def\<close>)
qed

lemma agrees_basic [agrees_intros]:
  "agrees R (ret a)" "agrees R throw" "agrees R (check r)"
  by (auto simp: agrees_def check_def split: sum.splits)

lemma agrees_if [agrees_intros]:
  "(c \<Longrightarrow> agrees R m) \<Longrightarrow> (\<not> c \<Longrightarrow> agrees R n) \<Longrightarrow> agrees R (if c then m else n)"
  by simp

lemma agrees_change: "(\<And>s t. R s t \<Longrightarrow> R (f s) (f t)) \<Longrightarrow> agrees R (change f)"
  by (simp add: agrees_def)

end
