(* ===== verification/Cpu_Memory.thy ===== *)
theory Cpu_Memory
  imports Cxx_Exception
begin

text \<open>
  The memory of the processor simulator (Operating Systems/Semester Project/Project/memory.cpp):
  a vector of \<open>long\<close> values, an access check that depends on the mode, and accesses that throw
  outside the vector.
\<close>

definition MEMORY_SIZE :: nat where "MEMORY_SIZE = 10000"
definition USER_SPACE_START :: nat where "USER_SPACE_START = 1000"

definition new_memory :: "int list" where
  "new_memory = replicate MEMORY_SIZE 0"

text \<open>None is the exception \<open>out_of_range\<close>.\<close>

definition mem_read :: "nat \<Rightarrow> int list \<Rightarrow> int option" where
  "mem_read address xs = (if address \<ge> length xs then None else Some (xs ! address))"

definition mem_write :: "nat \<Rightarrow> int \<Rightarrow> int list \<Rightarrow> int list option" where
  "mem_write address v xs = (if address \<ge> length xs then None else Some (xs[address := v]))"

definition isAddressValid :: "nat \<Rightarrow> bool \<Rightarrow> int list \<Rightarrow> bool" where
  "isAddressValid address kmode xs =
     (if kmode then address < length xs
      else (address \<le> 20 \<or> address \<ge> USER_SPACE_START) \<and> address < length xs)"

fun loadData :: "(nat \<times> int) list \<Rightarrow> int list \<Rightarrow> int list option" where
  "loadData [] xs = Some xs"
| "loadData ((address, v) # ps) xs = (case mem_write address v xs of None \<Rightarrow> None | Some ys \<Rightarrow> loadData ps ys)"

lemma mem_read_Some: "mem_read a xs = Some v \<longleftrightarrow> a < length xs \<and> v = xs ! a"
  by (auto simp: mem_read_def)

lemma mem_write_Some: "mem_write a v xs = Some ys \<longleftrightarrow> a < length xs \<and> ys = xs[a := v]"
  by (auto simp: mem_write_def)

lemma mem_in [simp]:
  "a < length xs \<Longrightarrow> mem_read a xs = Some (xs ! a)" "a < length xs \<Longrightarrow> mem_write a v xs = Some (xs[a := v])"
  by (simp_all add: mem_read_def mem_write_def)

lemma isAddressValid_in: "isAddressValid a k xs \<Longrightarrow> a < length xs"
  by (auto simp: isAddressValid_def split: if_splits)

text \<open>Kernel mode may access what user mode may.\<close>

lemma isAddressValid_kernel: "isAddressValid a k xs \<Longrightarrow> isAddressValid a True xs"
  by (auto simp: isAddressValid_def split: if_splits)

lemma loadData_length: "loadData ps xs = Some ys \<Longrightarrow> length ys = length xs"
  by (induction ps xs rule: loadData.induct) (auto simp: mem_write_Some split: option.splits)

text \<open>Loading succeeds exactly when every address is in the memory.\<close>

lemma loadData_defined: "(\<exists>ys. loadData ps xs = Some ys) \<longleftrightarrow> (\<forall>(a, v) \<in> set ps. a < length xs)"
  by (induction ps xs rule: loadData.induct) (auto simp: mem_write_def)

end
