(* ===== verification/Cpu_Machine.thy ===== *)
theory Cpu_Machine
  imports Cpu_Memory
begin

text \<open>
  The processor simulator (Operating Systems/Semester Project/Project: instruction.h, cpu.h,
  cpu.cpp). The registers are memory cells: 0 the program counter, 1 the stack pointer, 2 the
  result of system calls and 3 the number of executed instructions. Addresses are \<open>long\<close> values
  that are converted to \<open>size_t\<close>, so a negative one is far outside the memory.

  The callback of the debugger is not set by the program, so its calls have no effect. An
  instruction whose system call was never set is possible (\<open>Instruction (t, operands)\<close> leaves the
  member uninitialised): it is None, and reading it is undefined.
\<close>

datatype instruction_type =
    SET | CPY | CPYI | CPYI2 | ADD | ADDI | SUBI | JIF | PUSH | POP | CALL | RET | HLT | USER | SYSCALL

datatype syscall_type = PRN | SysHLT | YIELD

record instruction =
  itype :: instruction_type
  syscallType :: "syscall_type option"
  operands :: "int list"

text \<open>The constructors of an instruction.\<close>

definition mk_instr :: "instruction_type \<Rightarrow> syscall_type option \<Rightarrow> int list \<Rightarrow> instruction" where
  "mk_instr t y ops = \<lparr>itype = t, syscallType = y, operands = ops\<rparr>"

text \<open>A line printed by the PRN system call: thread, address and value.\<close>

datatype printed = Printed int int int

record cpu =
  data :: "int list"
  instructions :: "nat \<Rightarrow> instruction option"
  halted :: bool
  kernelMode :: bool
  out :: "printed list"

type_synonym 'a cpu_code = "(cpu, 'a) code"

definition PC :: int where "PC = 0"
definition SP :: int where "SP = 1"
definition SYSCALL_RESULT :: int where "SYSCALL_RESULT = 2"
definition INSTR_COUNT :: int where "INSTR_COUNT = 3"

lemmas registers = PC_def SP_def SYSCALL_RESULT_def INSTR_COUNT_def

section \<open>Accesses\<close>

definition rd_mem :: "int \<Rightarrow> int cpu_code" where
  "rd_mem a s = (case mem_read (size_of a) (data s) of None \<Rightarrow> Thrown s | Some v \<Rightarrow> Done v s)"

definition wr_mem :: "int \<Rightarrow> int \<Rightarrow> unit cpu_code" where
  "wr_mem a v s = (case mem_write (size_of a) v (data s) of None \<Rightarrow> Thrown s | Some xs \<Rightarrow> Done () (s\<lparr>data := xs\<rparr>))"

definition valid :: "int \<Rightarrow> cpu \<Rightarrow> bool" where
  "valid a s = isAddressValid (size_of a) (kernelMode s) (data s)"

definition halt :: "unit cpu_code" where
  "halt = change (\<lambda>s. s\<lparr>halted := True\<rparr>)"

definition set_mode :: "bool \<Rightarrow> unit cpu_code" where
  "set_mode k = change (\<lambda>s. s\<lparr>kernelMode := k\<rparr>)"

text \<open>The pattern of the handlers: check some addresses, halt with a message if one is not accessible.\<close>

definition guarded :: "int list \<Rightarrow> unit cpu_code \<Rightarrow> unit cpu_code" where
  "guarded as m s = (if list_all (\<lambda>a. valid a s) as then m s else halt s)"

section \<open>The instructions\<close>

definition executeSET :: "int list \<Rightarrow> unit cpu_code" where
  "executeSET ops = (case ops of [v, address] \<Rightarrow> guarded [address] (wr_mem address v) | _ \<Rightarrow> throw)"

definition executeCPY :: "int list \<Rightarrow> unit cpu_code" where
  "executeCPY ops = (case ops of
     [srcAddr, destAddr] \<Rightarrow> guarded [srcAddr, destAddr] (seq (rd_mem srcAddr) (\<lambda>v. wr_mem destAddr v))
   | _ \<Rightarrow> throw)"

definition executeCPYI :: "int list \<Rightarrow> unit cpu_code" where
  "executeCPYI ops = (case ops of
     [indirectAddr, destAddr] \<Rightarrow>
       guarded [indirectAddr, destAddr]
         (seq (rd_mem indirectAddr) (\<lambda>srcAddr.
          guarded [srcAddr] (seq (rd_mem srcAddr) (\<lambda>v. wr_mem destAddr v))))
   | _ \<Rightarrow> throw)"

definition executeCPYI2 :: "int list \<Rightarrow> unit cpu_code" where
  "executeCPYI2 ops = (case ops of
     [a1, a2] \<Rightarrow>
       guarded [a1, a2]
         (seq (rd_mem a1) (\<lambda>srcAddr. seq (rd_mem a2) (\<lambda>destAddr.
          guarded [srcAddr, destAddr] (seq (rd_mem srcAddr) (\<lambda>v. wr_mem destAddr v)))))
   | _ \<Rightarrow> throw)"

definition executeADD :: "int list \<Rightarrow> unit cpu_code" where
  "executeADD ops = (case ops of
     [address, v] \<Rightarrow>
       guarded [address]
         (seq (rd_mem address) (\<lambda>current. seq (check (fits 64 (current + v))) (\<lambda>r. wr_mem address r)))
   | _ \<Rightarrow> throw)"

definition executeADDI :: "int list \<Rightarrow> unit cpu_code" where
  "executeADDI ops = (case ops of
     [destAddr, srcAddr] \<Rightarrow>
       guarded [destAddr, srcAddr]
         (seq (rd_mem srcAddr) (\<lambda>v. seq (rd_mem destAddr) (\<lambda>current.
          seq (check (fits 64 (current + v))) (\<lambda>r. wr_mem destAddr r))))
   | _ \<Rightarrow> throw)"

definition executeSUBI :: "int list \<Rightarrow> unit cpu_code" where
  "executeSUBI ops = (case ops of
     [srcAddr, destAddr] \<Rightarrow>
       guarded [srcAddr, destAddr]
         (seq (rd_mem srcAddr) (\<lambda>srcValue. seq (rd_mem destAddr) (\<lambda>destValue.
          seq (check (fits 64 (srcValue - destValue))) (\<lambda>r. wr_mem destAddr r))))
   | _ \<Rightarrow> throw)"

definition executeJIF :: "int list \<Rightarrow> unit cpu_code" where
  "executeJIF ops = (case ops of
     [memAddr, jumpAddr] \<Rightarrow>
       guarded [memAddr]
         (seq (rd_mem memAddr) (\<lambda>v. if v \<le> 0 then wr_mem PC jumpAddr else ret ()))
   | _ \<Rightarrow> throw)"

definition executePUSH :: "int list \<Rightarrow> unit cpu_code" where
  "executePUSH ops = (case ops of
     [address] \<Rightarrow>
       guarded [address]
         (seq (rd_mem address) (\<lambda>v. seq (rd_mem SP) (\<lambda>sp0. seq (check (fits 64 (sp0 - 1))) (\<lambda>sp.
          guarded [sp] (seq (wr_mem sp v) (\<lambda>_. wr_mem SP sp))))))
   | _ \<Rightarrow> throw)"

definition executePOP :: "int list \<Rightarrow> unit cpu_code" where
  "executePOP ops = (case ops of
     [address] \<Rightarrow>
       guarded [address]
         (seq (rd_mem SP) (\<lambda>sp.
          guarded [sp]
            (seq (rd_mem sp) (\<lambda>v. seq (wr_mem address v) (\<lambda>_.
             seq (check (fits 64 (sp + 1))) (\<lambda>sp'. wr_mem SP sp'))))))
   | _ \<Rightarrow> throw)"

definition executeCALL :: "int list \<Rightarrow> unit cpu_code" where
  "executeCALL ops = (case ops of
     [jumpAddr] \<Rightarrow>
       seq (rd_mem PC) (\<lambda>pc. seq (check (fits 64 (pc + 1))) (\<lambda>returnAddr.
       seq (rd_mem SP) (\<lambda>sp0. seq (check (fits 64 (sp0 - 1))) (\<lambda>sp.
       guarded [sp]
         (seq (wr_mem sp returnAddr) (\<lambda>_. seq (wr_mem SP sp) (\<lambda>_. wr_mem PC jumpAddr)))))))
   | _ \<Rightarrow> throw)"

definition executeRET :: "int list \<Rightarrow> unit cpu_code" where
  "executeRET ops =
     seq (rd_mem SP) (\<lambda>sp.
     guarded [sp]
       (seq (rd_mem sp) (\<lambda>returnAddr. seq (wr_mem PC returnAddr) (\<lambda>_.
        seq (check (fits 64 (sp + 1))) (\<lambda>sp'. wr_mem SP sp')))))"

definition executeHLT :: "int list \<Rightarrow> unit cpu_code" where
  "executeHLT ops = halt"

text \<open>With one operand, the jump address is read with the rights of the kernel and checked with those of the user.\<close>

definition executeUSER :: "int list \<Rightarrow> unit cpu_code" where
  "executeUSER ops = (case ops of
     [a] \<Rightarrow>
       seq (set_mode False) (\<lambda>_. seq (asks data) (\<lambda>m.
         if \<not> isAddressValid (size_of a) True m then halt
         else seq (rd_mem a) (\<lambda>jumpAddr.
           if \<not> isAddressValid (size_of jumpAddr) False m then halt
           else wr_mem PC jumpAddr)))
   | _ \<Rightarrow> set_mode False)"

section \<open>System calls\<close>

text \<open>The current thread, the thread table and what the operating system keeps there.\<close>

definition CURRENT_THREAD :: int where "CURRENT_THREAD = 22"

text \<open>
  The line is printed after the value has been read; what a failing read leaves of the line on
  the output is not modelled.
\<close>

definition executePRN :: "int list \<Rightarrow> unit cpu_code" where
  "executePRN ops =
     seq (rd_mem CURRENT_THREAD) (\<lambda>thread.
     seq (check (rbind (fits 32 (int_of_long thread * 10)) (\<lambda>x. fits 32 (500 + x)))) (\<lambda>table.
     seq (check (fits 32 (table + 1))) (\<lambda>blockTime.
     seq (check (fits 32 (table + 3))) (\<lambda>state.
     seq (wr_mem state 2) (\<lambda>_.
     seq (rd_mem 3) (\<lambda>count.
     seq (wr_mem blockTime count) (\<lambda>_.
     seq (rd_mem PC) (\<lambda>pc.
     seq (check (fits 64 (pc + 1))) (\<lambda>pc'.
     seq (wr_mem 0 pc') (\<lambda>_.
     seq (check (rd ops 0)) (\<lambda>a.
     seq (rd_mem a) (\<lambda>v.
     seq (change (\<lambda>s. s\<lparr>out := out s @ [Printed (int_of_long thread) a v]\<rparr>)) (\<lambda>_.
     set_mode False)))))))))))))"

definition executeSYSCALL :: "syscall_type option \<Rightarrow> int list \<Rightarrow> unit cpu_code" where
  "executeSYSCALL t ops =
     seq (set_mode True) (\<lambda>_.
       case t of
         None \<Rightarrow> check (Inl UninitRead)
       | Some PRN \<Rightarrow> executePRN ops
       | Some SysHLT \<Rightarrow>
           seq (rd_mem PC) (\<lambda>pc. seq (check (fits 64 (pc + 1))) (\<lambda>pc'. seq (wr_mem 4 pc') (\<lambda>_. wr_mem 0 430)))
       | Some YIELD \<Rightarrow>
           seq (rd_mem PC) (\<lambda>pc. seq (check (fits 64 (pc + 1))) (\<lambda>pc'. seq (wr_mem 4 pc') (\<lambda>_. wr_mem 0 400))))"

section \<open>The execution of an instruction\<close>

definition handler :: "instruction \<Rightarrow> unit cpu_code" where
  "handler i = (case itype i of
       SET \<Rightarrow> executeSET (operands i) | CPY \<Rightarrow> executeCPY (operands i)
     | CPYI \<Rightarrow> executeCPYI (operands i) | CPYI2 \<Rightarrow> executeCPYI2 (operands i)
     | ADD \<Rightarrow> executeADD (operands i) | ADDI \<Rightarrow> executeADDI (operands i) | SUBI \<Rightarrow> executeSUBI (operands i)
     | JIF \<Rightarrow> executeJIF (operands i) | PUSH \<Rightarrow> executePUSH (operands i) | POP \<Rightarrow> executePOP (operands i)
     | CALL \<Rightarrow> executeCALL (operands i) | RET \<Rightarrow> executeRET (operands i) | HLT \<Rightarrow> executeHLT (operands i)
     | USER \<Rightarrow> executeUSER (operands i) | SYSCALL \<Rightarrow> executeSYSCALL (syscallType i) (operands i))"

text \<open>The instructions executed by a thread in its own program segment are counted in its row of the table.\<close>

definition count_thread :: "int \<Rightarrow> unit cpu_code" where
  "count_thread pc =
     seq (rd_mem CURRENT_THREAD) (\<lambda>thread.
     seq (check (fits 64 (thread * 1000))) (\<lambda>start.
     seq (check (rbind (fits 64 (thread + 1)) (\<lambda>x. rbind (fits 64 (x * 1000)) (\<lambda>y. fits 64 (y - 1))))) (\<lambda>last.
       if start \<le> pc \<and> pc \<le> last
       then seq (check (rbind (fits 64 (thread * 10)) (\<lambda>x. rbind (fits 64 (500 + x)) (\<lambda>y. fits 64 (y + 2))))) (\<lambda>countAddr.
            seq (rd_mem countAddr) (\<lambda>c. seq (check (fits 64 (c + 1))) (\<lambda>c'. wr_mem countAddr c')))
       else ret ())))"

text \<open>After an instruction: count it, and go to the next one unless it changed the program counter.\<close>

definition advance :: "int \<Rightarrow> unit cpu_code" where
  "advance pc =
     seq (rd_mem INSTR_COUNT) (\<lambda>count.
     seq (check (fits 64 (count + 1))) (\<lambda>count'.
     seq (wr_mem INSTR_COUNT count') (\<lambda>_.
     seq (rd_mem PC) (\<lambda>pc'.
       if pc = pc' then seq (check (fits 64 (pc + 1))) (\<lambda>next. wr_mem PC next) else ret ()))))"

text \<open>
  An exception thrown by an instruction is caught and halts the processor, without counting the
  instruction; one thrown outside the handler leaves \<open>execute\<close>. The flag of the inner code says
  whether the instruction ended normally.
\<close>

definition dispatch :: "int \<Rightarrow> unit cpu_code" where
  "dispatch pc =
     seq (asks halted) (\<lambda>h.
       if h then ret ()
       else seq (asks (\<lambda>s. instructions s (size_of pc))) (\<lambda>instr.
         case instr of
           None \<Rightarrow> halt
         | Some i \<Rightarrow>
             seq (catch (seq (handler i) (\<lambda>_. ret True)) (seq halt (\<lambda>_. ret False))) (\<lambda>ok.
               if ok then advance pc else ret ())))"

definition execute :: "unit cpu_code" where
  "execute = seq (rd_mem PC) (\<lambda>pc. seq (count_thread pc) (\<lambda>_. dispatch pc))"

section \<open>Loading and running\<close>

definition reset :: "unit cpu_code" where
  "reset =
     seq (change (\<lambda>s. s\<lparr>halted := False, kernelMode := True\<rparr>)) (\<lambda>_.
     seq (wr_mem SYSCALL_RESULT 0) (\<lambda>_. seq (wr_mem INSTR_COUNT 0) (\<lambda>_. wr_mem PC 0)))"

definition new_cpu :: cpu where
  "new_cpu = \<lparr>data = new_memory, instructions = (\<lambda>_. None), halted = False, kernelMode = True, out = []\<rparr>"

definition loadProgram :: "(nat \<Rightarrow> instruction option) \<Rightarrow> (nat \<times> int) list \<Rightarrow> unit cpu_code" where
  "loadProgram instructionMap dataSegment =
     seq (change (\<lambda>s. s\<lparr>instructions := instructionMap\<rparr>)) (\<lambda>_.
     seq (\<lambda>s. case loadData dataSegment (data s) of None \<Rightarrow> Thrown s | Some xs \<Rightarrow> Done () (s\<lparr>data := xs\<rparr>)) (\<lambda>_.
     reset))"

definition MAX_CYCLES :: nat where "MAX_CYCLES = 100000"

text \<open>The loop of \<open>main\<close>, with the number of cycles so far; its result is the final number of cycles.\<close>

function main_loop :: "nat \<Rightarrow> nat cpu_code" where
  "main_loop cycles s =
     (if halted s then Done cycles s
      else (case execute s of
          Undef e \<Rightarrow> Undef e
        | Thrown t \<Rightarrow> Thrown t
        | Done _ t \<Rightarrow>
            if halted t then Done cycles t
            else if cycles + 1 > MAX_CYCLES then Done (cycles + 1) t
            else main_loop (cycles + 1) t))"
  by pat_completeness auto
termination
  by (relation "measure (\<lambda>(c, s). MAX_CYCLES - c)") (auto simp: MAX_CYCLES_def)

declare main_loop.simps [simp del]

definition simulate :: "(nat \<Rightarrow> instruction option) \<Rightarrow> (nat \<times> int) list \<Rightarrow> (cpu, nat) outcome" where
  "simulate instructionMap dataSegment = seq (loadProgram instructionMap dataSegment) (\<lambda>_. main_loop 0) new_cpu"

end
