(* ===== verification/Cpu_Safety.thy ===== *)
theory Cpu_Safety
  imports Cpu_Machine
begin

text \<open>
  What the processor simulator guarantees of its memory: its size and the range of its cells stay,
  and in user mode the instructions other than system calls neither change nor see the cells of
  the kernel (21 to 999), with one exception that is shown: USER with an operand.
\<close>

section \<open>The memory keeps its type\<close>

definition memory_ok :: "int list \<Rightarrow> bool" where
  "memory_ok xs \<longleftrightarrow> length xs = MEMORY_SIZE \<and> (\<forall>v \<in> set xs. in_signed 64 v)"

definition operands_ok :: "(nat \<Rightarrow> instruction option) \<Rightarrow> bool" where
  "operands_ok im \<longleftrightarrow> (\<forall>a i. im a = Some i \<longrightarrow> (\<forall>v \<in> set (operands i). in_signed 64 v))"

text \<open>The program never changes, so it is a parameter of the invariant.\<close>

definition cpu_ok :: "(nat \<Rightarrow> instruction option) \<Rightarrow> cpu \<Rightarrow> bool" where
  "cpu_ok im s \<longleftrightarrow> memory_ok (data s) \<and> instructions s = im"

abbreviation keeps_ok :: "(nat \<Rightarrow> instruction option) \<Rightarrow> 'a cpu_code \<Rightarrow> ('a \<Rightarrow> bool) \<Rightarrow> bool" where
  "keeps_ok im \<equiv> keeps_inv (cpu_ok im)"

lemma memory_ok_update: "memory_ok xs \<Longrightarrow> in_signed 64 v \<Longrightarrow> memory_ok (xs[a := v])"
  by (auto simp: memory_ok_def dest!: set_update_subset_insert [THEN subsetD])

lemma rd_mem_ok [keeps_intros]: "keeps_ok im (rd_mem a) (in_signed 64)"
  by (auto simp: keeps_inv_def rd_mem_def cpu_ok_def memory_ok_def mem_read_def)

lemma wr_mem_ok [keeps_intros]: "in_signed 64 v \<Longrightarrow> keeps_ok im (wr_mem a v) (\<lambda>_. True)"
  by (auto simp: keeps_inv_def wr_mem_def cpu_ok_def mem_write_def memory_ok_update)

lemma halt_ok [keeps_intros]: "keeps_ok im halt (\<lambda>_. True)"
  unfolding halt_def by (rule keeps_inv_change) (simp_all add: cpu_ok_def)

lemma set_mode_ok [keeps_intros]: "keeps_ok im (set_mode k) (\<lambda>_. True)"
  unfolding set_mode_def by (rule keeps_inv_change) (simp_all add: cpu_ok_def)

lemma guarded_ok [keeps_intros]:
  assumes "keeps_ok im m (\<lambda>_. True)"
  shows "keeps_ok im (guarded as m) (\<lambda>_. True)"
  using assms halt_ok [of im] by (simp add: keeps_inv_def guarded_def)

lemma print_ok [keeps_intros]: "keeps_ok im (change (\<lambda>s. s\<lparr>out := f s\<rparr>)) (\<lambda>_. True)"
  by (rule keeps_inv_change) (simp_all add: cpu_ok_def)

lemma asks_ok [keeps_intros]: "keeps_ok im (asks g) (\<lambda>_. True)"
  by (rule keeps_inv_asks) simp

lemmas execute_defs = executeSET_def executeCPY_def executeCPYI_def executeCPYI2_def executeADD_def executeADDI_def
  executeSUBI_def executeJIF_def executePUSH_def executePOP_def executeCALL_def executeRET_def executeHLT_def executeUSER_def

lemma small_ok [simp]: "in_signed 64 0" "in_signed 64 2" "in_signed 64 400" "in_signed 64 430"
  by (simp_all add: in_signed_64)

lemma fits_ok: "fits w x = Inr y \<Longrightarrow> in_signed w y"
  by (auto simp: fits_Inr)

lemma plain_ok:
  assumes "\<forall>v \<in> set ops. in_signed 64 v"
  shows "keeps_ok im (executeSET ops) (\<lambda>_. True)" "keeps_ok im (executeCPY ops) (\<lambda>_. True)"
    "keeps_ok im (executeCPYI ops) (\<lambda>_. True)" "keeps_ok im (executeCPYI2 ops) (\<lambda>_. True)"
    "keeps_ok im (executeADD ops) (\<lambda>_. True)" "keeps_ok im (executeADDI ops) (\<lambda>_. True)"
    "keeps_ok im (executeSUBI ops) (\<lambda>_. True)" "keeps_ok im (executeJIF ops) (\<lambda>_. True)"
    "keeps_ok im (executePUSH ops) (\<lambda>_. True)" "keeps_ok im (executePOP ops) (\<lambda>_. True)"
    "keeps_ok im (executeCALL ops) (\<lambda>_. True)" "keeps_ok im (executeRET ops) (\<lambda>_. True)"
    "keeps_ok im (executeHLT ops) (\<lambda>_. True)" "keeps_ok im (executeUSER ops) (\<lambda>_. True)"
  using assms unfolding execute_defs
  by (auto split: list.splits intro!: keeps_intros dest: fits_ok)

lemma system_ok: "keeps_ok im (executeSYSCALL t ops) (\<lambda>_. True)"
  unfolding executeSYSCALL_def executePRN_def
  by (auto split: option.splits syscall_type.splits intro!: keeps_intros dest: fits_ok)

lemma handler_ok:
  "operands_ok im \<Longrightarrow> im a = Some i \<Longrightarrow> keeps_ok im (handler i) (\<lambda>_. True)"
  unfolding handler_def operands_ok_def
  by (auto split: instruction_type.splits intro!: plain_ok system_ok)

lemma count_thread_ok: "keeps_ok im (count_thread pc) (\<lambda>_. True)"
  unfolding count_thread_def by (auto intro!: keeps_intros dest: fits_ok)

lemma advance_ok: "keeps_ok im (advance pc) (\<lambda>_. True)"
  unfolding advance_def by (auto intro!: keeps_intros dest: fits_ok)

lemma fetch_ok: "keeps_ok im (asks (\<lambda>s. instructions s a)) (\<lambda>i. i = im a)"
  by (rule keeps_inv_asks) (simp add: cpu_ok_def)

text \<open>What every handler keeps, the execution of an instruction keeps.\<close>

lemma dispatch_keeps:
  assumes "\<And>i. Q i \<Longrightarrow> keeps_inv P (handler i) (\<lambda>_. True)" "keeps_inv P halt (\<lambda>_. True)"
    "keeps_inv P (advance pc) (\<lambda>_. True)"
    and "keeps_inv P (asks (\<lambda>s. instructions s (size_of pc))) (\<lambda>instr. \<forall>i. instr = Some i \<longrightarrow> Q i)"
  shows "keeps_inv P (dispatch pc) (\<lambda>_. True)"
  unfolding dispatch_def
proof (intro keeps_inv_seq [OF assms(4)] keeps_inv_seq [OF keeps_inv_asks] keeps_inv_if)
  fix instr
  assume Q: "\<forall>i. instr = Some i \<longrightarrow> Q i"
  show "keeps_inv P (case instr of None \<Rightarrow> halt
      | Some i \<Rightarrow> seq (catch (seq (handler i) (\<lambda>_. ret True)) (seq halt (\<lambda>_. ret False)))
          (\<lambda>ok. if ok then advance pc else ret ())) (\<lambda>_. True)"
  proof (cases instr)
    case (Some i)
    with Q have "keeps_inv P (handler i) (\<lambda>_. True)" using assms(1) by simp
    then have "keeps_inv P (seq (handler i) (\<lambda>_. ret True)) (\<lambda>_. True)"
      by (rule keeps_inv_seq) (rule keeps_inv_ret, simp)
    moreover have "keeps_inv P (seq halt (\<lambda>_. ret False)) (\<lambda>_. True)"
      by (rule keeps_inv_seq [OF assms(2)]) (rule keeps_inv_ret, simp)
    ultimately have "keeps_inv P (catch (seq (handler i) (\<lambda>_. ret True)) (seq halt (\<lambda>_. ret False))) (\<lambda>_. True)"
      by (rule keeps_inv_catch)
    with Some show ?thesis
      by (auto intro!: keeps_inv_seq keeps_inv_if assms(3) keeps_inv_ret)
  qed (simp add: assms(2))
qed (simp_all add: keeps_inv_ret)

lemma execute_ok:
  assumes "operands_ok im"
  shows "keeps_ok im execute (\<lambda>_. True)"
  unfolding execute_def
proof (intro keeps_inv_seq [OF rd_mem_ok] keeps_inv_seq [OF count_thread_ok])
  fix pc
  show "keeps_ok im (dispatch pc) (\<lambda>_. True)"
    by (rule dispatch_keeps [where Q = "\<lambda>i. \<exists>a. im a = Some i"])
      (auto intro!: halt_ok advance_ok keeps_inv_asks intro: handler_ok [OF assms] simp: cpu_ok_def)
qed

lemma main_loop_ok:
  "operands_ok im \<Longrightarrow> keeps_ok im (main_loop c) (\<lambda>_. True)"
proof -
  assume ops: "operands_ok im"
  have *: "(\<forall>n t. main_loop c s = Done n t \<longrightarrow> cpu_ok im t) \<and> (\<forall>t. main_loop c s = Thrown t \<longrightarrow> cpu_ok im t)"
    if "cpu_ok im s" for s c
    using that
  proof (induction c s rule: main_loop.induct)
    case (1 c s)
    note E = keeps_invD [OF execute_ok [OF ops] 1(2)]
    show ?case
    proof (cases "execute s")
      case (Done a t)
      then have "cpu_ok im t" using E(1) by blast
      with 1(1) [OF _ Done] Done 1(2) show ?thesis by (simp add: main_loop.simps [of c s])
    qed (use E(2) 1(2) in \<open>simp_all add: main_loop.simps [of c s]\<close>)
  qed
  show ?thesis unfolding keeps_inv_def
  proof (intro allI impI)
    fix s assume "cpu_ok im s"
    from this [THEN *] show "case main_loop c s of Undef e \<Rightarrow> True | Thrown t \<Rightarrow> cpu_ok im t | Done a t \<Rightarrow> cpu_ok im t \<and> True"
      by (cases "main_loop c s") simp_all
  qed
qed

section \<open>User mode does not change the kernel\<close>

definition user_addr :: "nat \<Rightarrow> bool" where
  "user_addr a \<longleftrightarrow> a \<le> 20 \<or> USER_SPACE_START \<le> a"

definition user_frame :: "(nat \<Rightarrow> instruction option) \<Rightarrow> nat set \<Rightarrow> int list \<Rightarrow> printed list \<Rightarrow> cpu \<Rightarrow> bool" where
  "user_frame im X xs ps s \<longleftrightarrow> instructions s = im \<and> \<not> kernelMode s \<and> length (data s) = MEMORY_SIZE \<and> out s = ps
     \<and> (\<forall>a. \<not> user_addr a \<and> a \<notin> X \<longrightarrow> data s ! a = xs ! a)"

lemma valid_user: "user_frame im X xs ps s \<Longrightarrow> valid a s \<Longrightarrow> user_addr (size_of a)"
  by (auto simp: user_frame_def valid_def isAddressValid_def user_addr_def)

lemma rd_mem_frame [keeps_intros]: "keeps_inv (user_frame im X xs ps) (rd_mem a) (\<lambda>_. True)"
  by (auto simp: keeps_inv_def rd_mem_def mem_read_def)

lemma wr_mem_frame [keeps_intros]:
  "user_addr (size_of a) \<Longrightarrow> keeps_inv (user_frame im X xs ps) (wr_mem a v) (\<lambda>_. True)"
  by (auto simp: keeps_inv_def wr_mem_def mem_write_def user_frame_def nth_list_update)

lemma halt_frame [keeps_intros]: "keeps_inv (user_frame im X xs ps) halt (\<lambda>_. True)"
  unfolding halt_def by (rule keeps_inv_change) (simp_all add: user_frame_def)

lemma set_mode_frame [keeps_intros]: "keeps_inv (user_frame im X xs ps) (set_mode False) (\<lambda>_. True)"
  unfolding set_mode_def by (rule keeps_inv_change) (simp_all add: user_frame_def)

lemma guarded_frame [keeps_intros]:
  assumes "list_all (\<lambda>a. user_addr (size_of a)) as \<Longrightarrow> keeps_inv (user_frame im X xs ps) m (\<lambda>_. True)"
  shows "keeps_inv (user_frame im X xs ps) (guarded as m) (\<lambda>_. True)"
  unfolding keeps_inv_def
proof (intro allI impI)
  fix s assume s: "user_frame im X xs ps s"
  show "case guarded as m s of Undef e \<Rightarrow> True | Thrown t \<Rightarrow> user_frame im X xs ps t | Done a t \<Rightarrow> user_frame im X xs ps t \<and> True"
  proof (cases "list_all (\<lambda>a. valid a s) as")
    case True
    with valid_user [OF s] have "list_all (\<lambda>a. user_addr (size_of a)) as" by (auto simp: list_all_iff)
    from assms [OF this] s True show ?thesis by (simp add: keeps_inv_def guarded_def)
  next
    case False
    with s halt_frame [of im X xs ps] show ?thesis by (simp add: keeps_inv_def guarded_def)
  qed
qed

lemma asks_frame [keeps_intros]: "keeps_inv (user_frame im X xs ps) (asks g) (\<lambda>_. True)"
  by (rule keeps_inv_asks) simp

lemma register_user [simp]:
  "user_addr (size_of PC)" "user_addr (size_of SP)" "user_addr (size_of INSTR_COUNT)"
  by (simp_all add: registers user_addr_def size_of_def)

lemma handler_frame:
  assumes "itype i \<noteq> SYSCALL"
  shows "keeps_inv (user_frame im X xs ps) (handler i) (\<lambda>_. True)"
  using assms unfolding handler_def execute_defs
  by (auto split: instruction_type.split list.split intro!: keeps_intros)

lemma advance_frame: "keeps_inv (user_frame im X xs ps) (advance pc) (\<lambda>_. True)"
  unfolding advance_def by (auto intro!: keeps_intros)

text \<open>What the count of a thread may change: one cell of the thread table.\<close>

definition count_cell :: "cpu \<Rightarrow> nat" where
  "count_cell s = size_of (502 + data s ! 22 * 10)"

lemma rd_mem_Done: "rd_mem a s = Done v t \<longleftrightarrow> size_of a < length (data s) \<and> t = s \<and> v = data s ! size_of a"
  by (auto simp: rd_mem_def mem_read_def)

lemma wr_mem_Done:
  "wr_mem a v s = Done r t \<longleftrightarrow> size_of a < length (data s) \<and> t = s\<lparr>data := (data s)[size_of a := v]\<rparr>"
  by (auto simp: wr_mem_def mem_write_def)

lemma check_Done: "check r s = Done v t \<longleftrightarrow> r = Inr v \<and> t = s"
  by (auto simp: check_def split: sum.splits)

lemma size_of_numeral [simp]: "(numeral n :: int) < 18446744073709551616 \<Longrightarrow> size_of (numeral n) = numeral n"
  using size_of_nonneg [of "numeral n"] by simp

lemma size_of_01 [simp]: "size_of 0 = 0" "size_of 1 = 1"
  by (simp_all add: size_of_def)

lemma count_thread_Done:
  assumes "count_thread pc s = Done r t"
  shows "t = s \<or> (\<exists>v. t = s\<lparr>data := (data s)[count_cell s := v]\<rparr>)"
  using assms unfolding count_thread_def count_cell_def
  by (auto simp: seq_Done rd_mem_Done wr_mem_Done check_Done CURRENT_THREAD_def fits_Inr rbind_eq_Inr add.commute
      split: if_splits)

text \<open>
  C18. In user mode, executing an instruction other than a system call leaves every cell of the
  kernel (21 to 999) as it was, except for the instruction count of the current thread, which the
  processor itself keeps; it prints nothing and stays in user mode.
\<close>

theorem user_integrity:
  assumes "length (data s) = MEMORY_SIZE" "\<not> kernelMode s"
    and "instructions s (size_of (data s ! 0)) = Some i" "itype i \<noteq> SYSCALL"
    and "execute s = Done () t"
    and "20 < a" "a < USER_SPACE_START" "a \<noteq> count_cell s"
  shows "data t ! a = data s ! a \<and> out t = out s \<and> \<not> kernelMode t"
proof -
  let ?P = "user_frame (instructions s) {count_cell s} (data s) (out s)"
  obtain s1 where s1: "count_thread (data s ! 0) s = Done () s1" and rest: "dispatch (data s ! 0) s1 = Done () t"
    using assms(5) by (auto simp: execute_def seq_Done rd_mem_Done PC_def)
  have "?P s1" using count_thread_Done [OF s1] assms(1,2) by (auto simp: user_frame_def nth_list_update)
  moreover have "keeps_inv ?P (dispatch (data s ! 0)) (\<lambda>_. True)"
    by (rule dispatch_keeps [where Q = "\<lambda>i. itype i \<noteq> SYSCALL"])
      (use assms(3,4) in \<open>auto intro: handler_frame halt_frame advance_frame keeps_inv_asks simp: user_frame_def\<close>)
  ultimately have "?P t" using keeps_invD(1) rest by fast
  then show ?thesis using assms(6-8) by (simp add: user_frame_def user_addr_def)
qed

section \<open>User mode does not see the kernel\<close>

text \<open>Two states in user mode that differ in cells of the kernel only.\<close>

definition same_for_user :: "cpu \<Rightarrow> cpu \<Rightarrow> bool" where
  "same_for_user s t \<longleftrightarrow> \<not> kernelMode s \<and> \<not> kernelMode t \<and> length (data s) = MEMORY_SIZE \<and> length (data t) = MEMORY_SIZE
     \<and> halted s = halted t \<and> instructions s = instructions t \<and> out s = out t
     \<and> (\<forall>a. user_addr a \<longrightarrow> data s ! a = data t ! a)"

lemma same_valid: "same_for_user s t \<Longrightarrow> valid a s = valid a t"
  by (simp add: same_for_user_def valid_def isAddressValid_def)

lemma rd_mem_agrees [agrees_intros]: "user_addr (size_of a) \<Longrightarrow> agrees same_for_user (rd_mem a)"
  by (auto simp: agrees_def rd_mem_def mem_read_def same_for_user_def)

lemma wr_mem_agrees [agrees_intros]: "agrees same_for_user (wr_mem a v)"
  by (auto simp: agrees_def wr_mem_def mem_write_def same_for_user_def nth_list_update)

lemma halt_agrees [agrees_intros]: "agrees same_for_user halt"
  unfolding halt_def by (rule agrees_change) (simp add: same_for_user_def)

lemma set_mode_agrees [agrees_intros]: "agrees same_for_user (set_mode False)"
  unfolding set_mode_def by (rule agrees_change) (simp add: same_for_user_def)

lemma same_user_addr: "same_for_user s t \<Longrightarrow> valid a s \<Longrightarrow> user_addr (size_of a)"
  by (auto simp: same_for_user_def valid_def isAddressValid_def user_addr_def)

lemma guarded_agrees [agrees_intros]:
  assumes "list_all (\<lambda>a. user_addr (size_of a)) as \<Longrightarrow> agrees same_for_user m"
  shows "agrees same_for_user (guarded as m)"
  unfolding agrees_def
proof (intro allI impI)
  fix s t assume st: "same_for_user s t"
  show "case guarded as m s of Undef e \<Rightarrow> guarded as m t = Undef e
      | Thrown u \<Rightarrow> \<exists>v. guarded as m t = Thrown v \<and> same_for_user u v
      | Done a u \<Rightarrow> \<exists>v. guarded as m t = Done a v \<and> same_for_user u v"
  proof (cases "list_all (\<lambda>a. valid a s) as")
    case True
    with same_user_addr [OF st] have "list_all (\<lambda>a. user_addr (size_of a)) as" by (auto simp: list_all_iff)
    note m = agreesD [OF assms [OF this] st]
    have eqs: "guarded as m s = m s" "guarded as m t = m t" using True same_valid [OF st] by (simp_all add: guarded_def)
    show ?thesis unfolding eqs by (cases "m s") (use m in auto)
  next
    case False
    with st same_valid [OF st] show ?thesis by (simp add: guarded_def halt_def same_for_user_def)
  qed
qed


text \<open>
  USER with an operand lets a program in user mode read any cell of the kernel that holds the
  address of a user cell: the operand is checked with the rights of the kernel, and the value
  becomes the program counter, which the program can see.
\<close>

theorem user_instruction_leaks:
  assumes "length (data s) = MEMORY_SIZE" "\<not> kernelMode s" "20 < a" "a < 1000"
    and "1000 \<le> data s ! nat a" "data s ! nat a < 10000"
  shows "\<not> valid a s \<and> handler (mk_instr USER None [a]) s = Done () (s\<lparr>data := (data s)[0 := data s ! nat a]\<rparr>)"
proof -
  have a: "size_of a = nat a" "nat a < MEMORY_SIZE"
    using size_of_nonneg [of a] assms(3,4) by (simp_all add: MEMORY_SIZE_def)
  have j: "size_of (data s ! nat a) = nat (data s ! nat a)"
    using size_of_nonneg assms(5,6) by simp
  have m: "isAddressValid (size_of a) True (data s)" "isAddressValid (size_of (data s ! nat a)) False (data s)"
    using a j assms by (auto simp: isAddressValid_def MEMORY_SIZE_def USER_SPACE_START_def nat_less_iff)
  have "\<not> valid a s" using a assms by (auto simp: valid_def isAddressValid_def USER_SPACE_START_def)
  moreover have "s\<lparr>kernelMode := False\<rparr> = s" using assms(2) by (cases s) simp
  ultimately show ?thesis
    using a m assms(1) by (simp add: handler_def mk_instr_def executeUSER_def set_mode_def seq_def change_def rd_mem_def asks_def
        wr_mem_def PC_def MEMORY_SIZE_def)
qed

end
