(* ===== verification/Cpu_Parser.thy ===== *)
theory Cpu_Parser
  imports Cpu_Machine C_Format C_Text
begin

text \<open>
  The program files of the processor simulator (parser.h, parser.cpp): a section of initial
  memory cells and a section of instructions, with comments. A line that cannot be read is
  reported and skipped.
\<close>

section \<open>Strings\<close>

fun contains :: "string \<Rightarrow> string \<Rightarrow> bool" where
  "contains p [] = (p = [])"
| "contains p (c # cs) = (starts_with p (c # cs) \<or> contains p cs)"

text \<open>\<open>std::getline\<close> in a loop: what follows the last newline is a line unless it is empty.\<close>

function getlines :: "string \<Rightarrow> string list" where
  "getlines s =
     (if s = [] then []
      else takeWhile (\<lambda>c. c \<noteq> LF) s # getlines (drop 1 (dropWhile (\<lambda>c. c \<noteq> LF) s)))"
  by pat_completeness auto
termination
proof (relation "measure length")
  fix s :: string
  assume s: "s \<noteq> []"
  have "length (dropWhile (\<lambda>c. c \<noteq> LF) s) \<le> length s" by (rule length_dropWhile_le)
  moreover have "0 < length s" using s by simp
  ultimately show "(drop 1 (dropWhile (\<lambda>c. c \<noteq> LF) s), s) \<in> measure length"
    unfolding in_measure length_drop by linarith
qed simp

declare getlines.simps [simp del]

definition removeComment :: "string \<Rightarrow> string" where
  "removeComment line = takeWhile (\<lambda>c. c \<noteq> CHR ''#'') line"

text \<open>None is an exception; characters after the number are ignored.\<close>

definition stol :: "string \<Rightarrow> int option" where
  "stol s = (case scan_int None (skip_ws s) of
      None \<Rightarrow> None
    | Some (n, r) \<Rightarrow> if in_signed 64 n then Some n else None)"

text \<open>A minus sign negates the value modulo the range.\<close>

definition stoul :: "string \<Rightarrow> nat option" where
  "stoul s = (case scan_int None (skip_ws s) of
      None \<Rightarrow> None
    | Some (n, r) \<Rightarrow> if \<bar>n\<bar> < 18446744073709551616 then Some (size_of n) else None)"

section \<open>Lines\<close>

record parser =
  parsingDataSection :: bool
  parsingInstructionSection :: bool
  dataSegment :: "(nat \<times> int) list"
  program :: "instruction list"
  instructionMap :: "nat \<Rightarrow> instruction option"

definition new_parser :: parser where
  "new_parser = \<lparr>parsingDataSection = False, parsingInstructionSection = False, dataSegment = [], program = [],
     instructionMap = (\<lambda>_. None)\<rparr>"

definition data_line :: "string list \<Rightarrow> (nat \<times> int) option" where
  "data_line tokens =
     (case tokens of
        t0 # t1 # _ \<Rightarrow> (case (stoul t0, stol t1) of (Some a, Some v) \<Rightarrow> Some (a, v) | _ \<Rightarrow> None)
      | _ \<Rightarrow> None)"

definition processDataLine :: "string \<Rightarrow> parser \<Rightarrow> parser" where
  "processDataLine line p =
     (case data_line (tokenize (removeComment line)) of
        None \<Rightarrow> p
      | Some d \<Rightarrow> p\<lparr>dataSegment := dataSegment p @ [d]\<rparr>)"

text \<open>The n operands that follow the mnemonic; none of them when there are too few.\<close>

definition read_operands :: "nat \<Rightarrow> string list \<Rightarrow> int list option" where
  "read_operands n tokens = (if length tokens \<ge> n + 2 then those (map stol (take n (drop 2 tokens))) else Some [])"

definition plain_type :: "string \<Rightarrow> (instruction_type \<times> nat) option" where
  "plain_type m =
     (if m = ''SET'' then Some (SET, 2) else if m = ''CPY'' then Some (CPY, 2)
      else if m = ''CPYI'' then Some (CPYI, 2) else if m = ''CPYI2'' then Some (CPYI2, 2)
      else if m = ''ADD'' then Some (ADD, 2) else if m = ''ADDI'' then Some (ADDI, 2)
      else if m = ''SUBI'' then Some (SUBI, 2) else if m = ''JIF'' then Some (JIF, 2)
      else if m = ''PUSH'' then Some (PUSH, 1) else if m = ''POP'' then Some (POP, 1)
      else if m = ''CALL'' then Some (CALL, 1) else if m = ''RET'' then Some (RET, 0)
      else if m = ''HLT'' then Some (HLT, 0) else if m = ''USER'' then Some (USER, 1)
      else None)"

definition syscall_line :: "string list \<Rightarrow> instruction option" where
  "syscall_line tokens =
     (if length tokens \<ge> 3 then
        (let m = tokens ! 2 in
         if m = ''PRN'' then
           (if length tokens \<ge> 4
            then map_option (\<lambda>a. mk_instr SYSCALL (Some PRN) [a]) (stol (tokens ! 3))
            else Some (mk_instr SYSCALL (Some PRN) []))
         else if m = ''HLT'' then Some (mk_instr SYSCALL (Some SysHLT) [])
         else if m = ''YIELD'' then Some (mk_instr SYSCALL (Some YIELD) [])
         else None)
      else Some (mk_instr SYSCALL None []))"

definition instruction_line :: "string list \<Rightarrow> (nat \<times> instruction) option" where
  "instruction_line tokens =
     (if length tokens < 2 then None
      else (case stoul (tokens ! 0) of
          None \<Rightarrow> None
        | Some addr \<Rightarrow>
            (case plain_type (tokens ! 1) of
               Some (t, n) \<Rightarrow> map_option (\<lambda>ops. (addr, mk_instr t None ops)) (read_operands n tokens)
             | None \<Rightarrow>
                 if tokens ! 1 = ''SYSCALL'' then map_option (\<lambda>i. (addr, i)) (syscall_line tokens)
                 else None)))"

definition processInstructionLine :: "string \<Rightarrow> parser \<Rightarrow> parser" where
  "processInstructionLine line p =
     (case instruction_line (tokenize (removeComment line)) of
        None \<Rightarrow> p
      | Some (addr, i) \<Rightarrow> p\<lparr>instructionMap := (instructionMap p)(addr \<mapsto> i), program := program p @ [i]\<rparr>)"

definition process_line :: "string \<Rightarrow> parser \<Rightarrow> parser" where
  "process_line line p =
     (if line = [] then p
      else if contains ''Begin Data Section'' line then p\<lparr>parsingDataSection := True, parsingInstructionSection := False\<rparr>
      else if contains ''End Data Section'' line then p\<lparr>parsingDataSection := False\<rparr>
      else if contains ''Begin Instruction Section'' line then
        p\<lparr>parsingDataSection := False, parsingInstructionSection := True\<rparr>
      else if contains ''End Instruction Section'' line then p\<lparr>parsingInstructionSection := False\<rparr>
      else if parsingDataSection p then processDataLine line p
      else if parsingInstructionSection p then processInstructionLine line p
      else p)"

definition parseFile :: "string \<Rightarrow> parser" where
  "parseFile content = fold process_line (getlines content) new_parser"

text \<open>\<open>main\<close>: parse the file, load the program and run it. None: the file cannot be opened.\<close>

definition run_file :: "string option \<Rightarrow> (cpu, nat) outcome option" where
  "run_file content =
     map_option (\<lambda>text. let p = parseFile text in simulate (instructionMap p) (dataSegment p)) content"

section \<open>The command line and the dumps\<close>

text \<open>
  The program file and the debug mode from the arguments after the program name; None: an error
  message, the usage, and exit with status 1.
\<close>

definition main_args :: "string list \<Rightarrow> (string \<times> int) option" where
  "main_args argv =
     (if argv = [] then None
      else (case (if length argv \<ge> 2
                  then (if length argv \<ge> 3 \<and> argv ! 1 = ''-D'' then stoi (argv ! 2) else stoi (argv ! 1))
                  else Some 1) of
          None \<Rightarrow> None
        | Some debugMode \<Rightarrow> if debugMode < 0 \<or> debugMode > 3 then None else Some (argv ! 0, debugMode)))"

text \<open>The cells that are printed by the memory dump.\<close>

definition dump_memory :: "int list \<Rightarrow> (nat \<times> int) list" where
  "dump_memory xs = filter (\<lambda>(i, v). v \<noteq> 0) (zip [0..<length xs] xs)"

text \<open>The dump tells the whole memory: a cell that is not printed is 0.\<close>

lemma dump_memory_complete:
  assumes "a < length xs"
  shows "(a, v) \<in> set (dump_memory xs) \<longleftrightarrow> v \<noteq> 0 \<and> xs ! a = v"
  using assms by (auto simp: dump_memory_def in_set_zip intro!: exI [of _ a])

lemma main_args_mode: "main_args argv = Some (f, d) \<Longrightarrow> 0 \<le> d \<and> d \<le> 3"
  by (auto simp: main_args_def split: option.splits if_splits)

end
