(* ===== verification/Cpu_Programs.thy ===== *)
theory Cpu_Programs
  imports Cpu_Safety Cpu_Parser
begin

text \<open>
  Whole programs on the processor simulator: what running any file keeps, the stack and the
  calls, a jump to itself, and the sum of the first numbers,
  which is the first test program of the repository.
\<close>

section \<open>Running any file\<close>

lemma stol_range: "stol s = Some n \<Longrightarrow> in_signed 64 n"
  by (auto simp: stol_def split: option.splits if_splits)

lemma those_range: "those (map stol ts) = Some ns \<Longrightarrow> \<forall>n \<in> set ns. in_signed 64 n"
  by (induction ts arbitrary: ns) (auto split: option.splits dest: stol_range)

lemma read_operands_range: "read_operands n tokens = Some ops \<Longrightarrow> \<forall>v \<in> set ops. in_signed 64 v"
  by (auto simp: read_operands_def split: if_splits dest: those_range)

lemma instruction_line_range:
  "instruction_line tokens = Some (a, i) \<Longrightarrow> \<forall>v \<in> set (operands i). in_signed 64 v"
  by (auto simp: instruction_line_def syscall_line_def mk_instr_def Let_def split: if_splits option.splits
      dest: read_operands_range stol_range)

definition parser_ok :: "parser \<Rightarrow> bool" where
  "parser_ok p \<longleftrightarrow> operands_ok (instructionMap p) \<and> (\<forall>(a, v) \<in> set (dataSegment p). in_signed 64 v)"

lemma process_line_ok: "parser_ok p \<Longrightarrow> parser_ok (process_line line p)"
  by (auto simp: parser_ok_def operands_ok_def process_line_def processDataLine_def processInstructionLine_def
      data_line_def split: option.splits list.splits if_splits dest: instruction_line_range stol_range)

lemma parseFile_ok: "parser_ok (parseFile text)"
proof -
  have "parser_ok p \<Longrightarrow> parser_ok (fold process_line ls p)" for ls p
    by (induction ls arbitrary: p) (auto intro: process_line_ok)
  moreover have "parser_ok new_parser" by (simp add: parser_ok_def operands_ok_def new_parser_def)
  ultimately show ?thesis by (simp add: parseFile_def)
qed

lemma loadData_ok: "loadData ps xs = Some ys \<Longrightarrow> \<forall>(a, v) \<in> set ps. in_signed 64 v \<Longrightarrow> memory_ok xs \<Longrightarrow> memory_ok ys"
  by (induction ps xs rule: loadData.induct) (auto simp: mem_write_Some memory_ok_update split: option.splits)

lemma new_memory_ok: "memory_ok new_memory"
  by (auto simp: memory_ok_def new_memory_def)

lemma loadProgram_Done:
  assumes "loadProgram im ds new_cpu = Done r s" "\<forall>(a, v) \<in> set ds. in_signed 64 v"
  shows "cpu_ok im s" "\<not> halted s"
  using assms loadData_ok [OF _ assms(2) new_memory_ok]
  by (auto simp: loadProgram_def reset_def seq_Done new_cpu_def wr_mem_Done cpu_ok_def change_def memory_ok_update
      split: option.splits)

lemma main_loop_bound:
  "main_loop c s = Done n t \<Longrightarrow> c \<le> MAX_CYCLES \<Longrightarrow> n \<le> MAX_CYCLES + 1 \<and> (halted t \<or> n = MAX_CYCLES + 1)"
proof (induction c s rule: main_loop.induct)
  case (1 c s)
  show ?case
  proof (cases "halted s")
    case True
    with 1 show ?thesis by (simp add: main_loop.simps [of c s])
  next
    case False
    then obtain u where u: "execute s = Done () u" using 1(2) by (auto simp: main_loop.simps [of c s] split: outcome.splits)
    show ?thesis
    proof (cases "halted u \<or> MAX_CYCLES < c + 1")
      case True
      with 1(2,3) False u show ?thesis by (auto simp: main_loop.simps [of c s] split: if_splits)
    next
      case False
      with 1(2) \<open>\<not> halted s\<close> u have "main_loop (c + 1) u = Done n t" by (simp add: main_loop.simps [of c s])
      with 1(1) [OF \<open>\<not> halted s\<close> u] False show ?thesis by auto
    qed
  qed
qed


section \<open>The stack\<close>

text \<open>What runs when the accesses succeed.\<close>

lemma rd_mem_run [code_simps]: "size_of a < length (data s) \<Longrightarrow> seq (rd_mem a) f s = f (data s ! size_of a) s"
  by (simp add: seq_def rd_mem_def)

lemma wr_mem_run [code_simps]:
  "size_of a < length (data s) \<Longrightarrow> seq (wr_mem a v) f s = f () (s\<lparr>data := (data s)[size_of a := v]\<rparr>)"
  by (simp add: seq_def wr_mem_def)

lemma wr_mem_last [code_simps]:
  "size_of a < length (data s) \<Longrightarrow> wr_mem a v s = Done () (s\<lparr>data := (data s)[size_of a := v]\<rparr>)"
  by (simp add: wr_mem_def)

lemma guarded_run [code_simps]: "list_all (\<lambda>a. valid a s) as \<Longrightarrow> guarded as m s = m s"
  by (simp add: guarded_def)

lemma check_run [code_simps]: "in_signed w x \<Longrightarrow> seq (check (fits w x)) f s = f x s"
  by (simp add: seq_def)

text \<open>
  PUSH followed by POP moves the value of the one cell to the other and leaves the stack
  pointer where it was; below it, the freed cell keeps the value.
\<close>

theorem push_pop:
  assumes "memory_ok (data s)" "sp = data s ! 1" "valid a s" "valid b s" "valid (sp - 1) s"
    and "in_signed 64 (sp - 1)" "size_of (sp - 1) \<noteq> 1" "size_of b \<noteq> 1"
  shows "seq (executePUSH [a]) (\<lambda>_. executePOP [b]) s =
    Done () (s\<lparr>data := (data s)[size_of (sp - 1) := data s ! size_of a, size_of b := data s ! size_of a]\<rparr>)"
proof -
  let ?v = "data s ! size_of a" and ?k = "size_of (sp - 1)"
  have len: "length (data s) = MEMORY_SIZE" "1 < length (data s)" "size_of a < length (data s)"
    "size_of b < length (data s)" "?k < length (data s)"
    using assms isAddressValid_in by (auto simp: memory_ok_def valid_def MEMORY_SIZE_def dest!: isAddressValid_in)
  have sp: "in_signed 64 sp" using assms(1,2) len(2) by (auto simp: memory_ok_def)
  have regs: "size_of SP = 1" by (simp add: SP_def)
  let ?s = "s\<lparr>data := (data s)[?k := ?v, 1 := sp - 1]\<rparr>"
  have "executePUSH [a] s = Done () ?s"
    using assms len by (simp add: executePUSH_def code_simps regs)
  moreover have "executePOP [b] ?s = Done () (s\<lparr>data := (data s)[?k := ?v, size_of b := ?v]\<rparr>)"
  proof -
    have v: "valid b ?s" "valid (sp - 1) ?s" using assms by (simp_all add: valid_def isAddressValid_def)
    have "(data s)[?k := ?v, 1 := sp - 1, size_of b := ?v, 1 := sp] = (data s)[?k := ?v, size_of b := ?v]"
      using assms(2,7,8) len by (auto simp: list_eq_iff_nth_eq nth_list_update)
    then show ?thesis
      using v assms(7,8) len sp by (simp add: executePOP_def code_simps regs nth_list_update)
  qed
  ultimately show ?thesis by (simp add: seq_def)
qed

text \<open>
  A subroutine returns to the instruction after its call: CALL, then any code that leaves the
  stack pointer and the cell of the return address as it found them, then RET, end with the
  program counter after the call and the stack pointer where it was.
\<close>

theorem call_ret:
  assumes "memory_ok (data s)" "sp = data s ! 1" "valid (sp - 1) s" "in_signed 64 (sp - 1)"
    and "size_of (sp - 1) \<noteq> 0" "size_of (sp - 1) \<noteq> 1" "in_signed 64 (data s ! 0 + 1)"
    and body: "\<And>u. data u = (data s)[size_of (sp - 1) := data s ! 0 + 1, 1 := sp - 1, 0 := j] \<Longrightarrow> kernelMode u = kernelMode s \<Longrightarrow>
      \<exists>v. m u = Done () v \<and> length (data v) = MEMORY_SIZE \<and> data v ! 1 = sp - 1
        \<and> data v ! size_of (sp - 1) = data s ! 0 + 1 \<and> kernelMode v = kernelMode u"
  shows "\<exists>t. seq (executeCALL [j]) (\<lambda>_. seq m (\<lambda>_. executeRET [])) s = Done () t \<and> data t ! 0 = data s ! 0 + 1 \<and> data t ! 1 = sp"
proof -
  let ?k = "size_of (sp - 1)" and ?r = "data s ! 0 + 1"
  have len: "length (data s) = MEMORY_SIZE" "1 < length (data s)" "0 < length (data s)" "?k < length (data s)"
    using assms by (auto simp: memory_ok_def valid_def MEMORY_SIZE_def dest!: isAddressValid_in)
  have sp: "in_signed 64 sp" using assms(1,2) len(2) by (auto simp: memory_ok_def)
  have regs: "size_of SP = 1" "size_of PC = 0" by (simp_all add: SP_def PC_def)
  let ?u = "s\<lparr>data := (data s)[?k := ?r, 1 := sp - 1, 0 := j]\<rparr>"
  have call: "executeCALL [j] s = Done () ?u"
    using assms(2-7) len by (simp add: executeCALL_def code_simps regs)
  obtain v where v: "m ?u = Done () v" "length (data v) = MEMORY_SIZE" "data v ! 1 = sp - 1" "data v ! ?k = ?r"
    "kernelMode v = kernelMode s"
    using body [of ?u] by auto
  have "valid (sp - 1) v" using assms(3) v(2,5) len by (simp add: valid_def isAddressValid_def)
  then have "executeRET [] v = Done () (v\<lparr>data := (data v)[0 := ?r, 1 := sp]\<rparr>)"
    using v len sp by (simp add: executeRET_def code_simps regs)
  with call v len show ?thesis by (simp add: seq_def)
qed

section \<open>A step of the first thread\<close>

text \<open>Counters that are far from their limit.\<close>

definition small :: "int \<Rightarrow> bool" where
  "small x \<longleftrightarrow> 0 \<le> x \<and> x \<le> 1000000000000"

lemma small_signed: "small x \<Longrightarrow> in_signed 64 (x + 1)" "small x \<Longrightarrow> in_signed 64 x"
  by (simp_all add: small_def in_signed_64)

lemma execute_first_thread:
  assumes s: "length (data s) = MEMORY_SIZE" "data s ! 22 = 0" "\<not> halted s" "small (data s ! 502)"
    and pc: "data s ! 0 = int pc" "pc < 1000" "instructions s pc = Some i"
    and h: "handler i (s\<lparr>data := (data s)[502 := data s ! 502 + 1]\<rparr>) = Done () u"
    and u: "length (data u) = MEMORY_SIZE" "small (data u ! 3)"
  shows "execute s = Done () (u\<lparr>data := (data u)[3 := data u ! 3 + 1,
      0 := (if data u ! 0 = int pc then int pc + 1 else data u ! 0)]\<rparr>)"
proof -
  let ?s = "s\<lparr>data := (data s)[502 := data s ! 502 + 1]\<rparr>"
  have num: "in_signed 64 1000" "in_signed 64 999" "in_signed 64 500" "in_signed 64 502" "in_signed 64 (int pc + 1)" "in_signed 64 1"
    using pc(2) by (auto simp: in_signed_64)
  have count: "count_thread (int pc) s = Done () ?s"
    using s pc small_signed(1) [OF s(4)] num
    by (simp add: count_thread_def code_simps CURRENT_THREAD_def MEMORY_SIZE_def)
  have id: "xs[3 := v, 0 := xs ! 0] = xs[3 := v]" for xs :: "int list" and v
    by (metis list_update_id list_update_swap zero_neq_numeral)
  have "advance (int pc) u = Done () (u\<lparr>data := (data u)[3 := data u ! 3 + 1,
      0 := (if data u ! 0 = int pc then int pc + 1 else data u ! 0)]\<rparr>)"
    using u small_signed(1) [OF u(2)] num(5)
    by (auto simp: advance_def code_simps registers MEMORY_SIZE_def id)
  moreover have "seq (catch (seq (handler i) (\<lambda>_. ret True)) (seq halt (\<lambda>_. ret False))) f ?s = f True u" for f :: "bool \<Rightarrow> unit cpu_code"
    using h by (simp add: seq_def catch_def)
  then have "dispatch (int pc) ?s = advance (int pc) u" using s(3) pc(2,3) by (simp add: dispatch_def)
  moreover have "seq (count_thread (int pc)) f s = f () ?s" for f :: "unit \<Rightarrow> unit cpu_code"
    by (simp add: seq_def count)
  then have "execute s = dispatch (int pc) ?s"
    using s(1) pc(1) by (simp add: execute_def rd_mem_run PC_def MEMORY_SIZE_def)
  ultimately show ?thesis by simp
qed

section \<open>The sum of the first numbers\<close>

text \<open>tests/sample_program.txt, whose first instruction sets the number to 10.\<close>

definition sum_program :: "int \<Rightarrow> nat \<Rightarrow> instruction option" where
  "sum_program n = map_of
     [(0, mk_instr SET None [n, 18]), (1, mk_instr SET None [0, 17]), (2, mk_instr ADDI None [17, 18]),
      (3, mk_instr ADD None [18, -1]), (4, mk_instr JIF None [18, 7]), (5, mk_instr SYSCALL (Some PRN) [17]),
      (6, mk_instr SET None [2, 0]), (7, mk_instr SYSCALL (Some PRN) [17]), (8, mk_instr HLT None [])]"

definition sum_at :: "int \<Rightarrow> nat \<Rightarrow> int \<Rightarrow> int \<Rightarrow> nat \<Rightarrow> cpu \<Rightarrow> bool" where
  "sum_at n pc i acc k s \<longleftrightarrow> length (data s) = MEMORY_SIZE \<and> instructions s = sum_program n \<and> \<not> halted s
     \<and> data s ! 0 = int pc \<and> data s ! 17 = acc \<and> data s ! 18 = i \<and> data s ! 22 = 0
     \<and> data s ! 3 = int k \<and> data s ! 502 = int k"

lemma valid_small: "length (data s) = MEMORY_SIZE \<Longrightarrow> a \<le> 20 \<Longrightarrow> 0 \<le> a \<Longrightarrow> valid a s"
  using size_of_nonneg [of a] by (auto simp: valid_def isAddressValid_def MEMORY_SIZE_def nat_le_iff)

lemma small_int: "k \<le> 200000 \<Longrightarrow> small (int k)"
  by (simp add: small_def)

lemma sum_execute:
  assumes s: "sum_at n pc i acc k s" "k \<le> 200000" "pc < 9" "sum_program n pc = Some ins"
    and h: "handler ins (s\<lparr>data := (data s)[502 := int k + 1]\<rparr>) = Done () u"
    and u: "length (data u) = MEMORY_SIZE" "data u ! 3 = int k"
  shows "execute s = Done () (u\<lparr>data := (data u)[3 := int k + 1, 0 := (if data u ! 0 = int pc then int pc + 1 else data u ! 0)]\<rparr>)"
  using execute_first_thread [of s pc ins u] s h u small_int [OF s(2)] by (simp add: sum_at_def)

lemma sum_set:
  assumes "sum_at n pc i acc k s" "k \<le> 200000" "pc < 9" "sum_program n pc = Some (mk_instr SET None [v, a])" "a \<in> {0, 17, 18}"
    and "a = 0 \<longrightarrow> v \<noteq> int pc \<and> v = 2" "k' = k + 1"
  shows "\<exists>t. execute s = Done () t \<and> out t = out s
    \<and> sum_at n (if a = 0 then 2 else pc + 1) (if a = 18 then v else i) (if a = 17 then v else acc) k' t"
proof -
  let ?u = "s\<lparr>data := (data s)[502 := int k + 1, nat a := v]\<rparr>"
  have h: "handler (mk_instr SET None [v, a]) (s\<lparr>data := (data s)[502 := int k + 1]\<rparr>) = Done () ?u"
    using assms(1,5) valid_small [of "s\<lparr>data := (data s)[502 := int k + 1]\<rparr>" a]
    by (auto simp: sum_at_def handler_def mk_instr_def executeSET_def code_simps MEMORY_SIZE_def)
  have "execute s = Done () (?u\<lparr>data := (data ?u)[3 := int k + 1, 0 := (if data ?u ! 0 = int pc then int pc + 1 else data ?u ! 0)]\<rparr>)"
    by (rule sum_execute [OF assms(1-4) h]) (use assms(1,5) in \<open>auto simp: sum_at_def\<close>)
  then show ?thesis using assms(1,5-7) by (auto simp: sum_at_def MEMORY_SIZE_def nth_list_update)
qed

lemma sum_addi:
  assumes "sum_at n 2 i acc k s" "k \<le> 200000" "in_signed 64 (acc + i)" "k' = k + 1"
  shows "\<exists>t. execute s = Done () t \<and> out t = out s \<and> sum_at n 3 i (acc + i) k' t"
proof -
  let ?s = "s\<lparr>data := (data s)[502 := int k + 1]\<rparr>"
  have h: "handler (mk_instr ADDI None [17, 18]) ?s = Done () (?s\<lparr>data := (data ?s)[17 := acc + i]\<rparr>)"
    using assms(1,3) valid_small [of ?s 17] valid_small [of ?s 18]
    by (simp add: sum_at_def handler_def mk_instr_def executeADDI_def code_simps MEMORY_SIZE_def)
  have "sum_program n 2 = Some (mk_instr ADDI None [17, 18])" by (simp add: sum_program_def)
  from sum_execute [OF assms(1,2) _ this h] assms show ?thesis
    by (auto simp: sum_at_def MEMORY_SIZE_def)
qed

lemma sum_add:
  assumes "sum_at n 3 i acc k s" "k \<le> 200000" "in_signed 64 (i - 1)" "k' = k + 1"
  shows "\<exists>t. execute s = Done () t \<and> out t = out s \<and> sum_at n 4 (i - 1) acc k' t"
proof -
  let ?s = "s\<lparr>data := (data s)[502 := int k + 1]\<rparr>"
  have h: "handler (mk_instr ADD None [18, -1]) ?s = Done () (?s\<lparr>data := (data ?s)[18 := i - 1]\<rparr>)"
    using assms(1,3) valid_small [of ?s 18]
    by (simp add: sum_at_def handler_def mk_instr_def executeADD_def code_simps MEMORY_SIZE_def)
  have "sum_program n 3 = Some (mk_instr ADD None [18, -1])" by (simp add: sum_program_def)
  from sum_execute [OF assms(1,2) _ this h] assms show ?thesis
    by (auto simp: sum_at_def MEMORY_SIZE_def)
qed

lemma sum_jif:
  assumes "sum_at n 4 i acc k s" "k \<le> 200000" "k' = k + 1"
  shows "\<exists>t. execute s = Done () t \<and> out t = out s \<and> sum_at n (if i \<le> 0 then 7 else 5) i acc k' t"
proof -
  let ?s = "s\<lparr>data := (data s)[502 := int k + 1]\<rparr>"
  let ?u = "if i \<le> 0 then ?s\<lparr>data := (data ?s)[0 := 7]\<rparr> else ?s"
  have h: "handler (mk_instr JIF None [18, 7]) ?s = Done () ?u"
    using assms(1) valid_small [of ?s 18]
    by (simp add: sum_at_def handler_def mk_instr_def executeJIF_def code_simps MEMORY_SIZE_def PC_def)
  have "sum_program n 4 = Some (mk_instr JIF None [18, 7])" by (simp add: sum_program_def)
  from sum_execute [OF assms(1,2) _ this h] assms show ?thesis
    by (auto simp: sum_at_def MEMORY_SIZE_def)
qed

lemma sum_print:
  assumes "sum_at n pc i acc k s" "k \<le> 200000" "pc \<in> {5, 7}" "pc' = pc + 1" "k' = k + 1"
  shows "\<exists>t. execute s = Done () t \<and> out t = out s @ [Printed 0 17 acc] \<and> sum_at n pc' i acc k' t"
proof -
  let ?s = "s\<lparr>data := (data s)[502 := int k + 1]\<rparr>"
  let ?u = "?s\<lparr>kernelMode := False, data := (data ?s)[503 := 2, 501 := int k, 0 := int pc + 1], out := out s @ [Printed 0 17 acc]\<rparr>"
  have ok: "in_signed 32 500" "in_signed 32 501" "in_signed 32 503" "in_signed 64 (int pc + 1)" "in_signed 32 0"
    using assms(3) by (auto simp: in_signed_def)
  have h: "handler (mk_instr SYSCALL (Some PRN) [17]) ?s = Done () ?u"
    using assms(1) ok
    by (simp add: sum_at_def handler_def mk_instr_def executeSYSCALL_def executePRN_def set_mode_def code_simps MEMORY_SIZE_def
        PC_def CURRENT_THREAD_def int_of_long_in)
  have "sum_program n pc = Some (mk_instr SYSCALL (Some PRN) [17])" using assms(3) by (auto simp: sum_program_def)
  from sum_execute [OF assms(1,2) _ this h] assms show ?thesis
    by (auto simp: sum_at_def MEMORY_SIZE_def)
qed

lemma sum_halt:
  assumes "sum_at n 8 i acc k s" "k \<le> 200000"
  shows "\<exists>t. execute s = Done () t \<and> out t = out s \<and> halted t \<and> data t ! 17 = acc"
proof -
  let ?s = "s\<lparr>data := (data s)[502 := int k + 1]\<rparr>"
  have h: "handler (mk_instr HLT None []) ?s = Done () (?s\<lparr>halted := True\<rparr>)"
    by (simp add: handler_def mk_instr_def executeHLT_def halt_def change_def)
  have "sum_program n 8 = Some (mk_instr HLT None [])" by (simp add: sum_program_def)
  from sum_execute [OF assms(1,2) _ this h] assms(1) show ?thesis
    by (auto simp: sum_at_def MEMORY_SIZE_def)
qed

section \<open>The whole run\<close>

lemma main_loop_step:
  assumes "sum_at n pc i acc k s" "execute s = Done () t" "sum_at n pc' i' acc' k' t" "c < MAX_CYCLES"
  shows "main_loop c s = main_loop (c + 1) t"
  using assms by (simp add: main_loop.simps [of c s] sum_at_def)

text \<open>The partial sums that are printed.\<close>

fun partial_sums :: "int \<Rightarrow> nat \<Rightarrow> int list" where
  "partial_sums acc 0 = []"
| "partial_sums acc (Suc k) = (acc + int (Suc k)) # partial_sums (acc + int (Suc k)) k"

definition tri :: "nat \<Rightarrow> int" where
  "tri k = int (k * (k + 1) div 2)"

lemma tri_Suc: "tri (Suc k) = int (Suc k) + tri k"
  by (simp add: tri_def)

lemma sum_loop:
  assumes "sum_at n 2 (int (Suc m)) acc k s" "k + 5 * Suc m \<le> MAX_CYCLES" "0 \<le> acc" "acc + tri (Suc m) \<le> 1000000000000"
    "c = k"
  shows "\<exists>t. main_loop c s = Done (k + 5 * m + 4) t \<and> halted t \<and> data t ! 17 = acc + tri (Suc m)
    \<and> out t = out s @ map (Printed 0 17) (partial_sums acc (Suc m))"
  using assms
proof (induction m arbitrary: acc k s c)
  case (0 acc k s c)
  have lim: "k + 5 \<le> 100000" using 0(2) by (simp add: MAX_CYCLES_def)
  obtain t1 where t1: "execute s = Done () t1" "out t1 = out s" "sum_at n 3 (int (Suc 0)) (acc + 1) (k + 1) t1"
    using sum_addi [OF 0(1), of "k + 1"] 0(2-4) lim by (auto simp: in_signed_64 tri_def)
  obtain t2 where t2: "execute t1 = Done () t2" "out t2 = out s" "sum_at n 4 0 (acc + 1) (k + 2) t2"
    using sum_add [OF t1(3), of "k + 2"] t1(2) lim by (auto simp: in_signed_64)
  obtain t3 where t3: "execute t2 = Done () t3" "out t3 = out s" "sum_at n 7 0 (acc + 1) (k + 3) t3"
    using sum_jif [OF t2(3), of "k + 3"] t2(2) lim by auto
  obtain t4 where t4: "execute t3 = Done () t4" "out t4 = out s @ [Printed 0 17 (acc + 1)]" "sum_at n 8 0 (acc + 1) (k + 4) t4"
    using sum_print [OF t3(3), of 8 "k + 4"] t3(2) lim by auto
  obtain t5 where t5: "execute t4 = Done () t5" "out t5 = out t4" "halted t5" "data t5 ! 17 = acc + 1"
    using sum_halt [OF t4(3)] lim by auto
  have m: "k < MAX_CYCLES" "k + 1 < MAX_CYCLES" "k + 1 + 1 < MAX_CYCLES" "k + 1 + 1 + 1 < MAX_CYCLES"
    using lim by (simp_all add: MAX_CYCLES_def)
  have "main_loop k s = main_loop (k + 4) t4"
    using main_loop_step [OF 0(1) t1(1) t1(3) m(1)] main_loop_step [OF t1(3) t2(1) t2(3) m(2)]
      main_loop_step [OF t2(3) t3(1) t3(3) m(3)] main_loop_step [OF t3(3) t4(1) t4(3) m(4)] by (simp add: eval_nat_numeral)
  moreover have "main_loop (k + 4) t4 = Done (k + 4) t5"
    using t4(3) t5 by (simp add: main_loop.simps [of "k + 4"] sum_at_def)
  ultimately show ?case using t4(2) t5 0(5) by (auto simp: tri_def)
next
  case (Suc m acc k s c)
  let ?i = "int (Suc (Suc m))"
  have lim: "k + 10 \<le> 100000" using Suc.prems(2) by (simp add: MAX_CYCLES_def)
  have i: "in_signed 64 (?i - 1)" "in_signed 64 (acc + ?i)" "acc + ?i + tri (Suc m) = acc + tri (Suc (Suc m))" "0 \<le> tri (Suc m)"
    using Suc.prems(2-4) by (auto simp: in_signed_64 MAX_CYCLES_def tri_Suc tri_def [of 0] tri_def)
  obtain t1 where t1: "execute s = Done () t1" "out t1 = out s" "sum_at n 3 ?i (acc + ?i) (k + 1) t1"
    using sum_addi [OF Suc.prems(1) _ i(2), of "k + 1"] lim by auto
  obtain t2 where t2: "execute t1 = Done () t2" "out t2 = out s" "sum_at n 4 (?i - 1) (acc + ?i) (k + 2) t2"
    using sum_add [OF t1(3) _ i(1), of "k + 2"] t1(2) lim by auto
  obtain t3 where t3: "execute t2 = Done () t3" "out t3 = out s" "sum_at n 5 (?i - 1) (acc + ?i) (k + 3) t3"
    using sum_jif [OF t2(3), of "k + 3"] t2(2) lim by auto
  obtain t4 where t4: "execute t3 = Done () t4" "out t4 = out s @ [Printed 0 17 (acc + ?i)]"
      "sum_at n 6 (?i - 1) (acc + ?i) (k + 4) t4"
    using sum_print [OF t3(3), of 6 "k + 4"] t3(2) lim by auto
  obtain t5 where t5: "execute t4 = Done () t5" "out t5 = out t4" "sum_at n 2 (?i - 1) (acc + ?i) (k + 5) t5"
    using sum_set [OF t4(3), of 2 0 "k + 5"] lim by (auto simp: sum_program_def)
  have m: "k < MAX_CYCLES" "k + 1 < MAX_CYCLES" "k + 1 + 1 < MAX_CYCLES" "k + 1 + 1 + 1 < MAX_CYCLES" "k + 1 + 1 + 1 + 1 < MAX_CYCLES"
    using lim by (simp_all add: MAX_CYCLES_def)
  have "main_loop k s = main_loop (k + 5) t5"
    using main_loop_step [OF Suc.prems(1) t1(1) t1(3) m(1)] main_loop_step [OF t1(3) t2(1) t2(3) m(2)]
      main_loop_step [OF t2(3) t3(1) t3(3) m(3)] main_loop_step [OF t3(3) t4(1) t4(3) m(4)]
      main_loop_step [OF t4(3) t5(1) t5(3) m(5)] by (simp add: eval_nat_numeral)
  moreover have "sum_at n 2 (int (Suc m)) (acc + ?i) (k + 5) t5" using t5(3) by simp
  from Suc.IH [OF this _ _ _ refl] obtain t where "main_loop (k + 5) t5 = Done (k + 5 + 5 * m + 4) t" "halted t"
      "data t ! 17 = acc + ?i + tri (Suc m)" "out t = out t5 @ map (Printed 0 17) (partial_sums (acc + ?i) (Suc m))"
    using Suc.prems(2-4) i(3) by auto
  ultimately show ?case using t4(2) t5(2) i(3) Suc.prems(5) by auto
qed

text \<open>
  The first test program, with any number from 1 to 19999 in place of 10, halts with the sum
  of the numbers up to it in cell 17 after 5 n + 1 instructions, having printed the partial sums.
\<close>

theorem sum_program_correct:
  assumes "1 \<le> n" "n \<le> 19999"
  shows "\<exists>t. simulate (sum_program (int n)) [] = Done (5 * n + 1) t \<and> halted t \<and> data t ! 17 = int (n * (n + 1) div 2)
    \<and> out t = map (Printed 0 17) (partial_sums 0 n)"
proof -
  obtain m where n: "n = Suc m" using assms(1) by (cases n) auto
  obtain s0 where s0: "loadProgram (sum_program (int n)) [] new_cpu = Done () s0" "sum_at (int n) 0 0 0 0 s0" "out s0 = []"
    by (simp add: loadProgram_def reset_def code_simps registers new_cpu_def sum_at_def new_memory_def MEMORY_SIZE_def)
  obtain s1 where s1: "execute s0 = Done () s1" "out s1 = []" "sum_at (int n) 1 (int n) 0 1 s1"
    using sum_set [OF s0(2), of "int n" 18 1] s0(3) by (auto simp: sum_program_def)
  obtain s2 where s2: "execute s1 = Done () s2" "out s2 = []" "sum_at (int n) 2 (int n) 0 2 s2"
    using sum_set [OF s1(3), of 0 17 2] s1(2) by (auto simp: sum_program_def numeral_2_eq_2)
  have "n * (n + 1) \<le> 19999 * 20000" using assms(2) by (intro mult_mono) auto
  then have "tri (Suc m) \<le> 1000000000000" unfolding n [symmetric] tri_def by linarith
  then obtain t where t: "main_loop 2 s2 = Done (2 + 5 * m + 4) t" "halted t" "data t ! 17 = tri (Suc m)"
      "out t = map (Printed 0 17) (partial_sums 0 (Suc m))"
    using sum_loop [of "int n" m 0 2 s2 2] s2 assms(2) by (auto simp: n MAX_CYCLES_def)
  have m: "0 < MAX_CYCLES" "0 + 1 < MAX_CYCLES" by (simp_all add: MAX_CYCLES_def)
  have "main_loop 0 s0 = main_loop 2 s2"
    using main_loop_step [OF s0(2) s1(1) s1(3) m(1)] main_loop_step [OF s1(3) s2(1) s2(3) m(2)] by (simp add: eval_nat_numeral)
  with t s0(1) show ?thesis by (auto simp: simulate_def seq_def n tri_def)
qed

section \<open>A jump to itself\<close>

text \<open>
  The processor takes a program counter that an instruction did not move for one that it did
  not write: a JIF whose condition holds and whose target is its own address falls through to the
  next instruction, so a program cannot wait by jumping to itself.
\<close>

theorem self_jump_falls_through:
  assumes "length (data s) = MEMORY_SIZE" "data s ! 22 = 0" "\<not> halted s" "small (data s ! 502)" "small (data s ! 3)"
    and "data s ! 0 = int pc" "pc < 1000" "instructions s pc = Some (mk_instr JIF None [int m, int pc])"
    and "m \<le> 20" "data s ! m \<le> 0"
  shows "\<exists>t. execute s = Done () t \<and> data t ! 0 = int pc + 1"
proof -
  let ?s = "s\<lparr>data := (data s)[502 := data s ! 502 + 1]\<rparr>"
  have "handler (mk_instr JIF None [int m, int pc]) ?s = Done () (?s\<lparr>data := (data ?s)[0 := int pc]\<rparr>)"
    using assms valid_small [of ?s "int m"]
    by (simp add: handler_def mk_instr_def executeJIF_def code_simps MEMORY_SIZE_def PC_def)
  from execute_first_thread [OF assms(1-4,6-8) this] assms(1,5) show ?thesis by (simp add: MEMORY_SIZE_def)
qed

end
