(* ===== verification/Cpu_Syntax.thy ===== *)
theory Cpu_Syntax
  imports Cpu_Parser
begin

text \<open>
  Program files of the processor simulator that are printed from a list of cells and a list of
  instructions, and what the parser makes of them.
\<close>

section \<open>Reading back a printed program\<close>

definition type_name :: "instruction_type \<Rightarrow> string" where
  "type_name t = (case t of SET \<Rightarrow> ''SET'' | CPY \<Rightarrow> ''CPY'' | CPYI \<Rightarrow> ''CPYI'' | CPYI2 \<Rightarrow> ''CPYI2'' | ADD \<Rightarrow> ''ADD''
     | ADDI \<Rightarrow> ''ADDI'' | SUBI \<Rightarrow> ''SUBI'' | JIF \<Rightarrow> ''JIF'' | PUSH \<Rightarrow> ''PUSH'' | POP \<Rightarrow> ''POP'' | CALL \<Rightarrow> ''CALL''
     | RET \<Rightarrow> ''RET'' | HLT \<Rightarrow> ''HLT'' | USER \<Rightarrow> ''USER'' | SYSCALL \<Rightarrow> ''SYSCALL'')"

definition syscall_name :: "syscall_type \<Rightarrow> string" where
  "syscall_name y = (case y of PRN \<Rightarrow> ''PRN'' | SysHLT \<Rightarrow> ''HLT'' | YIELD \<Rightarrow> ''YIELD'')"

text \<open>An instruction as \<open>printCurrentState\<close> shows it, and the whole output of that function.\<close>

definition instruction_text :: "instruction \<Rightarrow> string res" where
  "instruction_text i =
     rbind (if itype i = SYSCALL
            then (case syscallType i of None \<Rightarrow> Inl UninitRead | Some y \<Rightarrow> Inr (type_name SYSCALL @ '' '' @ syscall_name y))
            else Inr (type_name (itype i)))
       (\<lambda>t. Inr (t @ concat (map (\<lambda>v. '' '' @ fmt_d v) (operands i))))"

definition printCurrentState :: "cpu \<Rightarrow> string res" where
  "printCurrentState s =
     (let pc = data s ! 0 in
      rbind (case instructions s (size_of pc) of
          Some i \<Rightarrow> rbind (instruction_text i) (\<lambda>t. Inr (''Instruction at: '' @ t @ nl))
        | None \<Rightarrow> Inr (''No instruction found at PC '' @ fmt_d pc @ nl))
        (\<lambda>t. Inr (''CPU STATE'' @ nl @ ''PC: '' @ fmt_d pc @ nl @ t @ nl)))"

text \<open>A program file: a line for every cell, and an address and the text of the instruction for every instruction.\<close>

definition print_cell :: "nat \<times> int \<Rightarrow> string" where
  "print_cell av = dec (fst av) @ '' '' @ fmt_d (snd av)"

definition print_instruction :: "nat \<times> instruction \<Rightarrow> string" where
  "print_instruction ai = dec (fst ai) @ '' '' @ (case instruction_text (snd ai) of Inl e \<Rightarrow> [] | Inr t \<Rightarrow> t)"

definition print_program :: "(nat \<times> int) list \<Rightarrow> (nat \<times> instruction) list \<Rightarrow> string" where
  "print_program ds is = concat (map (\<lambda>l. l @ nl)
     (''Begin Data Section'' # map print_cell ds @ ''End Data Section'' # ''Begin Instruction Section''
      # map print_instruction is @ [''End Instruction Section'']))"

text \<open>The operands that an instruction needs.\<close>

definition arity :: "instruction_type \<Rightarrow> syscall_type option \<Rightarrow> nat" where
  "arity t y = (if t \<in> {SET, CPY, CPYI, CPYI2, ADD, ADDI, SUBI, JIF} then 2
     else if t \<in> {PUSH, POP, CALL, USER} \<or> t = SYSCALL \<and> y = Some PRN then 1 else 0)"

definition printable :: "nat \<times> instruction \<Rightarrow> bool" where
  "printable ai \<longleftrightarrow> fst ai < 18446744073709551616 \<and> (\<forall>v \<in> set (operands (snd ai)). in_signed 64 v)
     \<and> length (operands (snd ai)) = arity (itype (snd ai)) (syscallType (snd ai))
     \<and> (syscallType (snd ai) \<noteq> None \<longleftrightarrow> itype (snd ai) = SYSCALL)"

section \<open>Words and lines\<close>

text \<open>The same lines as words that are separated by a space.\<close>

definition instruction_words :: "nat \<times> instruction \<Rightarrow> string list" where
  "instruction_words ai = dec (fst ai) # type_name (itype (snd ai))
     # (case syscallType (snd ai) of None \<Rightarrow> [] | Some y \<Rightarrow> [syscall_name y]) @ map fmt_d (operands (snd ai))"

definition data_words :: "nat \<times> int \<Rightarrow> string list" where
  "data_words av = [dec (fst av), fmt_d (snd av)]"

lemma print_cell_words: "print_cell = print_words \<circ> data_words"
  by (rule ext) (simp add: print_cell_def data_words_def print_words_def more_words_def)

lemma print_instruction_words: "printable ai \<Longrightarrow> print_instruction ai = (print_words \<circ> instruction_words) ai"
  by (auto simp: print_instruction_def instruction_text_def instruction_words_def print_words_def more_words_def printable_def
      comp_def split: option.split)

definition is_word :: "string \<Rightarrow> bool" where
  "is_word w \<longleftrightarrow> w \<noteq> [] \<and> (\<forall>c \<in> set w. \<not> isspace c \<and> c \<noteq> CHR ''#'' \<and> c \<noteq> CHR ''e'')"

lemma tokenize_print: "\<forall>w \<in> set ws. is_word w \<Longrightarrow> tokenize (print_words ws) = ws"
  by (rule tokenize_words) (auto simp: is_word_def plain_word_def)

lemma contains_set: "contains p s \<Longrightarrow> set p \<subseteq> set s"
proof (induction s)
  case (Cons c cs)
  show ?case
  proof (cases "contains p cs")
    case False
    with Cons.prems have "starts_with p (c # cs)" by simp
    then obtain r where "c # cs = p @ r" by (auto simp: starts_with_iff)
    then have "set (c # cs) = set p \<union> set r" by (metis set_append)
    then show ?thesis by blast
  qed (use Cons in auto)
qed simp

lemma set_print_words: "set (print_words ws) \<subseteq> (\<Union>w \<in> set ws. set w) \<union> {CHR '' ''}"
  by (cases ws) (auto simp: print_words_def more_words_def)

text \<open>A line of words is no section marker and has no comment.\<close>

lemma words_line:
  assumes "\<forall>w \<in> set ws. is_word w" "ws \<noteq> []"
  shows "print_words ws \<noteq> []" "removeComment (print_words ws) = print_words ws" "LF \<notin> set (print_words ws)"
    "CHR ''e'' \<in> set p \<Longrightarrow> \<not> contains p (print_words ws)"
proof -
  have c: "c \<noteq> CHR ''#'' \<and> c \<noteq> CHR ''e'' \<and> c \<noteq> LF" if c: "c \<in> set (print_words ws)" for c
  proof -
    have sp: "isspace LF" by (simp add: isspace_def LF_def)
    have "c = CHR '' '' \<or> (\<exists>w \<in> set ws. c \<in> set w)" using c set_print_words [of ws] by auto
    then show ?thesis
    proof
      assume "c = CHR '' ''"
      then show ?thesis by (simp add: LF_def)
    next
      assume "\<exists>w \<in> set ws. c \<in> set w"
      then show ?thesis using assms(1) sp by (metis is_word_def)
    qed
  qed
  show "print_words ws \<noteq> []" using assms by (cases ws) (auto simp: print_words_def is_word_def)
  show "removeComment (print_words ws) = print_words ws" unfolding removeComment_def using c by (auto simp: takeWhile_eq_all_conv)
  show "LF \<notin> set (print_words ws)" using c by blast
  show "CHR ''e'' \<in> set p \<Longrightarrow> \<not> contains p (print_words ws)" using c contains_set by blast
qed

lemma getlines_concat: "\<forall>l \<in> set ls. LF \<notin> set l \<Longrightarrow> getlines (concat (map (\<lambda>l. l @ nl) ls)) = ls"
proof (induction ls)
  case Nil
  show ?case by (simp add: getlines.simps [of "[]"])
next
  case (Cons l ls)
  let ?r = "concat (map (\<lambda>l. l @ nl) ls)"
  have l: "\<forall>c \<in> set l. c \<noteq> LF" using Cons.prems by auto
  have "takeWhile (\<lambda>c. c \<noteq> LF) (l @ LF # ?r) = l" "dropWhile (\<lambda>c. c \<noteq> LF) (l @ LF # ?r) = LF # ?r"
    using l by (simp_all add: takeWhile_append dropWhile_append)
  then have "getlines (l @ LF # ?r) = l # getlines ?r" by (subst getlines.simps) simp
  with Cons show ?case by (simp add: nl_def)
qed

section \<open>Numbers and names\<close>

lemma digit_char: "d < 10 \<Longrightarrow> digit d \<noteq> CHR ''#'' \<and> digit d \<noteq> CHR ''e''"
  using digit_in_range(1) [of d] by (auto simp: isdigit_def)

lemma dec_word: "is_word (dec n)"
  unfolding is_word_def using dec_digits [of _ n] digit_char digit_in_range(3) by (metis dec_not_Nil)

lemma fmt_d_word: "is_word (fmt_d n)"
  using dec_word [of "nat n"] dec_word [of "nat (- n)"] by (auto simp: fmt_d_def is_word_def isspace_def)

lemma stol_fmt_d: "in_signed 64 n \<Longrightarrow> stol (fmt_d n) = Some n"
  using scan_int_fmt_d [of "[]" n] skip_ws_fmt_d [of n "[]"] by (simp add: stol_def)

lemma stoul_dec: "n < 18446744073709551616 \<Longrightarrow> stoul (dec n) = Some n"
  using scan_int_fmt_d [of "[]" "int n"] skip_ws_fmt_d [of "int n" "[]"] by (simp add: stoul_def fmt_d_def)

lemma those_stol: "\<forall>v \<in> set vs. in_signed 64 v \<Longrightarrow> those (map stol (map fmt_d vs)) = Some vs"
  by (induction vs) (auto simp: stol_fmt_d)

lemma type_name_word: "is_word (type_name t)"
  by (cases t) (auto simp: type_name_def is_word_def isspace_def)

lemma syscall_name_word: "is_word (syscall_name y)"
  by (cases y) (auto simp: syscall_name_def is_word_def isspace_def)

lemma plain_type_name: "t \<noteq> SYSCALL \<Longrightarrow> plain_type (type_name t) = Some (t, arity t None)"
  by (cases t) (simp_all add: plain_type_def type_name_def arity_def)

lemma instruction_words_word: "\<forall>w \<in> set (instruction_words ai). is_word w"
  by (auto simp: instruction_words_def dec_word fmt_d_word type_name_word syscall_name_word split: option.splits)

lemma data_words_word: "\<forall>w \<in> set (data_words av). is_word w"
  by (auto simp: data_words_def dec_word fmt_d_word)

section \<open>Reading back\<close>

lemma instruction_line_words:
  assumes "printable ai"
  shows "instruction_line (instruction_words ai) = Some ai"
proof -
  obtain a i where ai: "ai = (a, i)" by (cases ai)
  obtain t y ops where i: "i = mk_instr t y ops" by (cases i) (auto simp: mk_instr_def)
  have p: "a < 18446744073709551616" "\<forall>v \<in> set ops. in_signed 64 v" "length ops = arity t y" "y \<noteq> None \<longleftrightarrow> t = SYSCALL"
    using assms by (auto simp: printable_def ai i mk_instr_def)
  show ?thesis
  proof (cases "t = SYSCALL")
    case False
    with p(4) have "y = None" by auto
    with False p show ?thesis
      by (simp add: ai i instruction_words_def mk_instr_def instruction_line_def stoul_dec plain_type_name read_operands_def
          those_stol del: map_map)
  next
    case True
    then obtain z where "y = Some z" using p(4) by auto
    moreover have "ops = [] \<or> (\<exists>v. ops = [v] \<and> z = PRN)" using p(3) True \<open>y = Some z\<close>
      by (cases ops) (auto simp: arity_def split: if_splits)
    ultimately show ?thesis using p True
      by (cases z) (auto simp: ai i instruction_words_def mk_instr_def instruction_line_def stoul_dec plain_type_def
          type_name_def syscall_line_def syscall_name_def stol_fmt_d arity_def)
  qed
qed

lemma data_line_words: "fst av < 18446744073709551616 \<Longrightarrow> in_signed 64 (snd av) \<Longrightarrow> data_line (data_words av) = Some av"
  by (simp add: data_line_def data_words_def stoul_dec stol_fmt_d)

lemma process_words:
  assumes "\<forall>w \<in> set ws. is_word w" "ws \<noteq> []"
  shows "process_line (print_words ws) p =
    (if parsingDataSection p then (case data_line ws of None \<Rightarrow> p | Some d \<Rightarrow> p\<lparr>dataSegment := dataSegment p @ [d]\<rparr>)
     else if parsingInstructionSection p then
       (case instruction_line ws of
          None \<Rightarrow> p
        | Some (addr, i) \<Rightarrow> p\<lparr>instructionMap := (instructionMap p)(addr \<mapsto> i), program := program p @ [i]\<rparr>)
     else p)"
  using words_line [OF assms] tokenize_print [OF assms(1)]
  by (simp add: process_line_def processDataLine_def processInstructionLine_def)

lemma fold_data:
  assumes "\<forall>av \<in> set ds. fst av < 18446744073709551616 \<and> in_signed 64 (snd av)" "parsingDataSection p"
  shows "fold process_line (map (print_words \<circ> data_words) ds) p = p\<lparr>dataSegment := dataSegment p @ ds\<rparr>"
  using assms
proof (induction ds arbitrary: p)
  case (Cons d ds)
  have "process_line (print_words (data_words d)) p = p\<lparr>dataSegment := dataSegment p @ [d]\<rparr>"
    using Cons.prems data_line_words [of d] by (subst process_words [OF data_words_word]) (auto simp: data_words_def)
  with Cons show ?case by simp
qed simp

lemma fold_instructions:
  assumes "\<forall>ai \<in> set is. printable ai" "\<not> parsingDataSection p" "parsingInstructionSection p"
  shows "fold process_line (map (print_words \<circ> instruction_words) is) p
    = p\<lparr>instructionMap := instructionMap p ++ map_of (rev is), program := program p @ map snd is\<rparr>"
  using assms
proof (induction "is" arbitrary: p)
  case (Cons ai "is")
  have "process_line (print_words (instruction_words ai)) p
      = p\<lparr>instructionMap := (instructionMap p)(fst ai \<mapsto> snd ai), program := program p @ [snd ai]\<rparr>"
    using Cons.prems instruction_line_words [of ai]
    by (subst process_words [OF instruction_words_word]) (auto simp: instruction_words_def split: prod.split)
  with Cons show ?case by (cases ai) (simp add: map_add_def fun_eq_iff split: option.split)
qed simp

lemma parse_printed:
  assumes "\<forall>(a, v) \<in> set ds. a < 18446744073709551616 \<and> in_signed 64 v" "\<forall>ai \<in> set is. printable ai"
  shows "dataSegment (parseFile (print_program ds is)) = ds
    \<and> instructionMap (parseFile (print_program ds is)) = map_of (rev is)
    \<and> program (parseFile (print_program ds is)) = map snd is"
proof -
  let ?ls = "''Begin Data Section'' # map (print_words \<circ> data_words) ds @ ''End Data Section'' # ''Begin Instruction Section''
      # map (print_words \<circ> instruction_words) is @ [''End Instruction Section'']"
  have "LF \<notin> set (print_words (data_words d))" "LF \<notin> set (print_words (instruction_words ai))" for d ai
    by (rule words_line, rule data_words_word instruction_words_word, simp add: data_words_def instruction_words_def)+
  then have "\<forall>l \<in> set ?ls. LF \<notin> set l" by (auto simp: LF_def)
  moreover have "map print_instruction is = map (print_words \<circ> instruction_words) is"
    using assms(2) by (intro map_cong) (simp_all add: print_instruction_words)
  ultimately have lines: "getlines (print_program ds is) = ?ls"
    unfolding print_program_def print_cell_words by (metis getlines_concat)
  let ?p = "new_parser\<lparr>parsingDataSection := True, parsingInstructionSection := False\<rparr>"
  have "process_line ''Begin Data Section'' new_parser = ?p" by (simp add: process_line_def starts_with_def)
  moreover have "process_line ''End Data Section'' p = p\<lparr>parsingDataSection := False\<rparr>" for p
    by (simp add: process_line_def starts_with_def)
  moreover have "process_line ''Begin Instruction Section'' p = p\<lparr>parsingDataSection := False, parsingInstructionSection := True\<rparr>" for p
    by (simp add: process_line_def starts_with_def)
  moreover have "process_line ''End Instruction Section'' p = p\<lparr>parsingInstructionSection := False\<rparr>" for p
    by (simp add: process_line_def starts_with_def)
  moreover have "\<forall>av \<in> set ds. fst av < 18446744073709551616 \<and> in_signed 64 (snd av)" using assms(1) by auto
  ultimately show ?thesis
    unfolding parseFile_def lines using fold_data [of ds ?p] fold_instructions [OF assms(2)]
    by (simp add: new_parser_def del: map_map)
qed

text \<open>
  C21. A program that is printed line by line, its initial cells, and its instructions as the
  processor shows them in its state, is read back by the parser as it was: the cells in order, and for every address the
  last instruction that was given for it.
\<close>

theorem program_roundtrip:
  assumes "\<forall>(a, v) \<in> set ds. a < 18446744073709551616 \<and> in_signed 64 v" "\<forall>ai \<in> set is. printable ai"
  shows "dataSegment (parseFile (print_program ds is)) = ds
    \<and> instructionMap (parseFile (print_program ds is)) = map_of (rev is)
    \<and> program (parseFile (print_program ds is)) = map snd is"
  by (rule parse_printed [OF assms])

end
