(* ===== verification/Cpu_Witnesses.thy ===== *)
theory Cpu_Witnesses
  imports Cpu_Programs Cpu_Syntax
begin

text \<open>Concrete inputs on which the hypotheses of the theorems about the processor simulator hold.\<close>

definition halt_text :: string where
  "halt_text = print_program [] [(0, mk_instr HLT None [])]"

lemma halt_map: "instructionMap (parseFile halt_text) = [0 \<mapsto> mk_instr HLT None []]" "dataSegment (parseFile halt_text) = []"
proof -
  have "\<forall>ai \<in> set [(0, mk_instr HLT None [])]. printable ai" by (simp add: printable_def mk_instr_def arity_def)
  from parse_printed [of "[]", OF _ this] show "instructionMap (parseFile halt_text) = [0 \<mapsto> mk_instr HLT None []]"
    "dataSegment (parseFile halt_text) = []" by (simp_all add: halt_text_def)
qed

lemmas start_simps = loadProgram_def reset_def code_simps registers new_cpu_def new_memory_def MEMORY_SIZE_def

definition halt_start :: cpu where
  "halt_start = new_cpu\<lparr>instructions := [0 \<mapsto> mk_instr HLT None []]\<rparr>"

lemma zero_updates: "(replicate n (0::int))[i := 0] = replicate n 0"
  by (metis length_replicate linorder_not_less list_update_beyond list_update_id nth_replicate)

lemma halt_load: "loadProgram [0 \<mapsto> mk_instr HLT None []] [] new_cpu = Done () halt_start"
  by (simp add: start_simps halt_start_def zero_updates)

lemma halt_execute: "\<exists>t. execute halt_start = Done () t \<and> halted t"
proof -
  let ?s = "halt_start\<lparr>data := (data halt_start)[502 := data halt_start ! 502 + 1]\<rparr>"
  have "handler (mk_instr HLT None []) ?s = Done () (?s\<lparr>halted := True\<rparr>)"
    by (simp add: handler_def mk_instr_def executeHLT_def halt_def change_def)
  from execute_first_thread [OF _ _ _ _ _ _ _ this, of 0] show ?thesis
    by (simp add: halt_start_def new_cpu_def new_memory_def MEMORY_SIZE_def small_def)
qed


text \<open>A state in user mode, with the program counter in user space and an instruction there.\<close>

definition user_state :: "int \<Rightarrow> instruction \<Rightarrow> cpu" where
  "user_state secret i = \<lparr>data = new_memory[0 := 1000, 1 := 1100, 100 := secret], instructions = [1000 \<mapsto> i],
     halted = False, kernelMode = False, out = []\<rparr>"

lemma user_memory:
  "length (data (user_state x i)) = MEMORY_SIZE" "data (user_state x i) ! 0 = 1000" "data (user_state x i) ! 1 = 1100"
  "data (user_state x i) ! 22 = 0" "data (user_state x i) ! 3 = 0" "data (user_state x i) ! 100 = x" "data (user_state x i) ! 5 = 0"
  "kernelMode (user_state x i) = False" "halted (user_state x i) = False" "instructions (user_state x i) 1000 = Some i"
  "out (user_state x i) = []"
  by (simp_all add: user_state_def new_memory_def MEMORY_SIZE_def)

lemma user_count: "count_thread 1000 (user_state x i) = Done () (user_state x i)"
  using user_memory [of x i] by (simp add: count_thread_def code_simps CURRENT_THREAD_def MEMORY_SIZE_def in_signed_64)

lemma user_count_seq: "seq (count_thread 1000) f (user_state x i) = f () (user_state x i)"
  by (simp add: seq_def user_count)

text \<open>An access to the kernel is refused and halts the processor.\<close>

lemma user_execute:
  "\<exists>t. execute (user_state x (mk_instr SET None [7, 100])) = Done () t"
proof -
  let ?s = "user_state x (mk_instr SET None [7, 100])"
  have "\<not> valid 100 ?s" using user_memory [of x] by (simp add: valid_def isAddressValid_def USER_SPACE_START_def)
  then have h: "handler (mk_instr SET None [7, 100]) ?s = Done () (?s\<lparr>halted := True\<rparr>)"
    by (simp add: handler_def mk_instr_def executeSET_def guarded_def halt_def change_def)
  have "execute ?s = dispatch 1000 ?s"
    using user_memory [of x "mk_instr SET None [7, 100]"] user_count_seq [of _ x "mk_instr SET None [7, 100]"]
    by (simp add: execute_def rd_mem_run PC_def MEMORY_SIZE_def)
  also have "\<dots> = advance 1000 (?s\<lparr>halted := True\<rparr>)"
  proof -
    have "seq (catch (seq (handler (mk_instr SET None [7, 100])) (\<lambda>_. ret True)) (seq halt (\<lambda>_. ret False))) f ?s
        = f True (?s\<lparr>halted := True\<rparr>)" for f :: "bool \<Rightarrow> unit cpu_code"
      using h by (simp add: seq_def catch_def)
    then show ?thesis using user_memory [of x "mk_instr SET None [7, 100]"] by (simp add: dispatch_def)
  qed
  also have "\<exists>t. \<dots> = Done () t"
    using user_memory [of x "mk_instr SET None [7, 100]"]
    by (simp add: advance_def code_simps registers MEMORY_SIZE_def in_signed_64)
  finally show ?thesis .
qed

theorem user_integrity_witness:
  "\<exists>t. execute (user_state 55 (mk_instr SET None [7, 100])) = Done () t \<and> data t ! 100 = 55"
proof -
  let ?i = "mk_instr SET None [7, 100]"
  obtain t where t: "execute (user_state 55 ?i) = Done () t" using user_execute by blast
  have "data t ! 100 = data (user_state 55 ?i) ! 100"
    using user_integrity [OF _ _ _ _ t, of ?i 100] user_memory [of 55 ?i]
    by (simp add: mk_instr_def USER_SPACE_START_def count_cell_def)
  with t user_memory [of 55 ?i] show ?thesis by auto
qed


theorem user_instruction_leaks_witness:
  "handler (mk_instr USER None [100]) (user_state 2000 (mk_instr USER None [100]))
     = Done () (user_state 2000 (mk_instr USER None [100])\<lparr>data := (data (user_state 2000 (mk_instr USER None [100])))[0 := 2000]\<rparr>)"
  using user_instruction_leaks [of "user_state 2000 (mk_instr USER None [100])" 100] user_memory [of 2000 "mk_instr USER None [100]"]
  by simp

text \<open>The second and third test programs: a stack that starts at 100, a call with the stack at 1500.\<close>

definition kernel_state :: cpu where
  "kernel_state = new_cpu\<lparr>data := new_memory[1 := 100, 4 := 42]\<rparr>"

lemma kernel_memory:
  "length (data kernel_state) = MEMORY_SIZE" "data kernel_state ! 1 = 100" "data kernel_state ! 4 = 42" "data kernel_state ! 0 = 0"
  "kernelMode kernel_state" "\<not> halted kernel_state" "memory_ok (data kernel_state)"
  "data kernel_state ! 22 = 0" "data kernel_state ! 502 = 0" "data kernel_state ! 3 = 0" "data kernel_state ! 5 = 0"
proof -
  show "memory_ok (data kernel_state)" using new_memory_ok
    by (simp add: kernel_state_def new_cpu_def memory_ok_update in_signed_64)
qed (simp_all add: kernel_state_def new_cpu_def new_memory_def MEMORY_SIZE_def)

lemma kernel_valid: "0 \<le> a \<Longrightarrow> a < 10000 \<Longrightarrow> valid a kernel_state"
  using size_of_nonneg [of a] kernel_memory(1,5) by (simp add: valid_def isAddressValid_def MEMORY_SIZE_def nat_less_iff)

theorem push_pop_witness:
  "\<exists>t. seq (executePUSH [4]) (\<lambda>_. executePOP [7]) kernel_state = Done () t \<and> data t ! 7 = 42 \<and> data t ! 1 = 100"
  using push_pop [OF kernel_memory(7) refl kernel_valid [of 4] kernel_valid [of 7]] kernel_memory kernel_valid [of 99]
  by (simp add: MEMORY_SIZE_def in_signed_64)

theorem call_ret_witness:
  "\<exists>t. seq (executeCALL [10]) (\<lambda>_. seq (executeSET [5, 6]) (\<lambda>_. executeRET [])) kernel_state = Done () t
     \<and> data t ! 0 = 1 \<and> data t ! 1 = 100"
proof -
  have body: "\<exists>v. executeSET [5, 6] u = Done () v \<and> length (data v) = MEMORY_SIZE \<and> data v ! 1 = 100 - 1
        \<and> data v ! size_of (100 - 1) = data kernel_state ! 0 + 1 \<and> kernelMode v = kernelMode u"
    if "data u = (data kernel_state)[size_of (100 - 1) := data kernel_state ! 0 + 1, 1 := 100 - 1, 0 := 10]"
      "kernelMode u = kernelMode kernel_state" for u
    using that kernel_memory valid_small [of u 6]
    by (simp add: executeSET_def code_simps MEMORY_SIZE_def)
  show ?thesis
    using call_ret [OF kernel_memory(7) kernel_memory(2) [symmetric], of 10 "executeSET [5, 6]"] body kernel_memory kernel_valid [of 99]
    by (simp add: in_signed_64)
qed

theorem sum_program_correct_witness:
  "\<exists>t. simulate (sum_program 10) [] = Done 51 t \<and> data t ! 17 = 55
     \<and> out t = map (Printed 0 17) [10, 19, 27, 34, 40, 45, 49, 52, 54, 55]"
proof -
  have "partial_sums 0 10 = [10, 19, 27, 34, 40, 45, 49, 52, 54, 55]" by code_simp
  then show ?thesis using sum_program_correct [of 10] by auto
qed

theorem self_jump_falls_through_witness:
  "\<exists>t. execute (kernel_state\<lparr>instructions := [0 \<mapsto> mk_instr JIF None [5, 0]]\<rparr>) = Done () t \<and> data t ! 0 = 1"
  using self_jump_falls_through [of "kernel_state\<lparr>instructions := [0 \<mapsto> mk_instr JIF None [5, 0]]\<rparr>" 0 5] kernel_memory
  by (simp add: small_def)

theorem program_roundtrip_witness:
  "instructionMap (parseFile (print_program [(1, 100)] [(0, mk_instr SET None [-7, 18]), (1, mk_instr SYSCALL (Some PRN) [18])]))
     = [0 \<mapsto> mk_instr SET None [-7, 18], 1 \<mapsto> mk_instr SYSCALL (Some PRN) [18]]"
proof -
  have "\<forall>(a, v) \<in> set [(1 :: nat, 100 :: int)]. a < 18446744073709551616 \<and> in_signed 64 v"
    "\<forall>ai \<in> set [(0, mk_instr SET None [-7, 18]), (1, mk_instr SYSCALL (Some PRN) [18])]. printable ai"
    by (simp_all add: printable_def mk_instr_def arity_def in_signed_64)
  from program_roundtrip [OF this] show ?thesis by (simp add: fun_upd_twist)
qed

end
