(* ===== verification/Satellite_Queue.thy ===== *)
theory Satellite_Queue
  imports C_Base
begin

text \<open>
  The queue of requests of the satellite simulation (System Programming/HW3/HW3/main.c): an array
  of pointers that is kept in the order of priority and arrival. A pointer is None when it is NULL
  and otherwise the id of the satellite whose request it points to; the requests are in a heap,
  where a freed one is gone.
\<close>

definition SATELLITES :: nat where "SATELLITES = 10"
definition ENGINEERS :: nat where "ENGINEERS = 3"

record sat_request =
  priority :: int
  arrival_time :: int
  being_served :: bool
  engineer_id :: int

type_synonym request_heap = "nat \<Rightarrow> sat_request option"

definition deref :: "request_heap \<Rightarrow> nat option list \<Rightarrow> nat \<Rightarrow> sat_request res" where
  "deref h q i = rbind (rd q i) (\<lambda>p. case p of
      None \<Rightarrow> Inl NullDeref
    | Some k \<Rightarrow> (case h k of None \<Rightarrow> Inl UseAfterFree | Some r \<Rightarrow> Inr r))"

text \<open>The two tests that end the loop: the request in the queue goes before the new one.\<close>

definition before :: "sat_request \<Rightarrow> sat_request \<Rightarrow> bool" where
  "before r x \<longleftrightarrow> priority r < priority x
     \<or> priority r = priority x \<and> int_of_long (arrival_time r) \<le> int_of_long (arrival_time x)"

text \<open>The loop of \<open>add_to_queue\<close>, with \<open>i + 1\<close> as the argument; its result is the free place.\<close>

fun insert_loop :: "request_heap \<Rightarrow> sat_request \<Rightarrow> nat \<Rightarrow> nat option list \<Rightarrow> (nat \<times> nat option list) res" where
  "insert_loop h x 0 q = Inr (0, q)"
| "insert_loop h x (Suc i) q = rbind (deref h q i) (\<lambda>r.
     if before r x then Inr (Suc i, q)
     else rbind (wr q (Suc i) (q ! i)) (\<lambda>q'. insert_loop h x i q'))"

definition add_to_queue :: "request_heap \<Rightarrow> nat \<Rightarrow> sat_request \<Rightarrow> nat option list \<Rightarrow> nat \<Rightarrow> (nat option list \<times> nat) res" where
  "add_to_queue h k x q n = rbind (insert_loop h x n q) (\<lambda>(i, q'). rbind (wr q' i (Some k)) (\<lambda>q''. Inr (q'', n + 1)))"

text \<open>NULL for an empty queue; otherwise the first pointer, and the others move up.\<close>

definition pop_from_queue :: "nat option list \<Rightarrow> nat \<Rightarrow> (nat option \<times> nat option list \<times> nat) res" where
  "pop_from_queue q n =
     (if n = 0 then Inr (None, q, n)
      else rbind (rd q 0) (\<lambda>p. rbind (shift_left q 0 n) (\<lambda>q'. Inr (p, q', n - 1))))"

text \<open>
  The loop of a satellite that gave up: free its request if it is still in the queue. A request
  has the id of its satellite, so the comparison of the ids is that of the pointers.
\<close>

function remove_request :: "request_heap \<Rightarrow> nat \<Rightarrow> nat \<Rightarrow> nat option list \<Rightarrow> nat \<Rightarrow> (request_heap \<times> nat option list \<times> nat) res" where
  "remove_request h k i q n =
     (if i < n then rbind (deref h q i) (\<lambda>r.
        if q ! i = Some k \<and> \<not> being_served r
        then rbind (wr q i None) (\<lambda>q1. rbind (shift_left q1 i n) (\<lambda>q2. Inr (h(k := None), q2, n - 1)))
        else remove_request h k (i + 1) q n)
      else Inr (h, q, n))"
  by pat_completeness auto
termination
  by (relation "measure (\<lambda>(h, k, i, q, n). n - i)") auto

declare remove_request.simps [simp del]

section \<open>The queue as a list\<close>

text \<open>The ids in the queue; every pointer points to a live request.\<close>

definition queue_of :: "request_heap \<Rightarrow> nat option list \<Rightarrow> nat \<Rightarrow> nat list \<Rightarrow> bool" where
  "queue_of h q n ks \<longleftrightarrow> length q = SATELLITES \<and> length ks = n \<and> n \<le> SATELLITES \<and> take n q = map Some ks
     \<and> (\<forall>k \<in> set ks. h k \<noteq> None)"

lemma queue_of_nth: "queue_of h q n ks \<Longrightarrow> i < n \<Longrightarrow> q ! i = Some (ks ! i) \<and> i < length q"
  unfolding queue_of_def by (metis length_take min.absorb2 nth_map nth_take order_less_le_trans)

lemma deref_queue: "queue_of h q n ks \<Longrightarrow> i < n \<Longrightarrow> deref h q i = Inr (the (h (ks ! i)))"
proof -
  assume q: "queue_of h q n ks" "i < n"
  then have "h (ks ! i) \<noteq> None" by (auto simp: queue_of_def)
  then obtain r where "h (ks ! i) = Some r" by blast
  with queue_of_nth [OF q] show ?thesis by (simp add: deref_def)
qed

text \<open>The loop finds the place after the last request that goes before the new one.\<close>

lemma insert_loop_spec:
  assumes "\<forall>k \<in> set ks. h k \<noteq> None"
  shows "\<exists>as bs p'. ks = as @ bs \<and> (\<forall>b \<in> set bs. \<not> before (the (h b)) x) \<and> (as = [] \<or> before (the (h (last as))) x)
    \<and> insert_loop h x (length ks) (map Some ks @ p # ms) = Inr (length as, map Some as @ p' # map Some bs @ ms)"
  using assms
proof (induction ks arbitrary: p ms rule: rev_induct)
  case Nil
  show ?case by simp
next
  case (snoc k ks)
  then obtain r where r: "h k = Some r" by auto
  have d: "deref h (map Some (ks @ [k]) @ p # ms) (length ks) = Inr r"
    by (simp add: deref_def r nth_append)
  show ?case
  proof (cases "before r x")
    case True
    then show ?thesis using d r by (intro exI [of _ "ks @ [k]"] exI [of _ "[]"] exI [of _ p]) simp
  next
    case False
    have "(map Some (ks @ [k]) @ p # ms)[Suc (length ks) := Some k] = map Some ks @ Some k # Some k # ms"
      by (simp add: list_update_append)
    with False d have "insert_loop h x (length (ks @ [k])) (map Some (ks @ [k]) @ p # ms)
        = insert_loop h x (length ks) (map Some ks @ Some k # Some k # ms)"
      by (simp add: nth_append)
    moreover obtain as bs p' where ab: "ks = as @ bs" "\<forall>b \<in> set bs. \<not> before (the (h b)) x"
        "as = [] \<or> before (the (h (last as))) x"
        "insert_loop h x (length ks) (map Some ks @ Some k # Some k # ms)
          = Inr (length as, map Some as @ p' # map Some bs @ Some k # ms)"
    proof -
      have "\<forall>k \<in> set ks. h k \<noteq> None" using snoc.prems by simp
      from snoc.IH [OF this, of "Some k" "Some k # ms"] show thesis using that by blast
    qed
    ultimately show ?thesis using False r
      by (intro exI [of _ as] exI [of _ "bs @ [k]"] exI [of _ p']) auto
  qed
qed

lemma add_to_queue_spec:
  assumes q: "queue_of h q n ks" and n: "n < SATELLITES" and k: "h k = Some x"
  shows "\<exists>as bs q'. ks = as @ bs \<and> (\<forall>b \<in> set bs. \<not> before (the (h b)) x) \<and> (as = [] \<or> before (the (h (last as))) x)
    \<and> add_to_queue h k x q n = Inr (q', n + 1) \<and> queue_of h q' (n + 1) (as @ k # bs)"
proof -
  have len: "length q = SATELLITES" "length ks = n" "take n q = map Some ks" "\<forall>k \<in> set ks. h k \<noteq> None"
    using q by (auto simp: queue_of_def)
  then obtain p ms where ms: "drop n q = p # ms" using n by (cases "drop n q") auto
  have eq: "q = map Some ks @ p # ms" using len(3) ms by (metis append_take_drop_id)
  obtain as bs p' where ab: "ks = as @ bs" "\<forall>b \<in> set bs. \<not> before (the (h b)) x" "as = [] \<or> before (the (h (last as))) x"
      "insert_loop h x n q = Inr (length as, map Some as @ p' # map Some bs @ ms)"
    using insert_loop_spec [OF len(4), of x p ms] unfolding len(2) eq [symmetric] by blast
  let ?q = "map Some as @ Some k # map Some bs @ ms"
  have "add_to_queue h k x q n = Inr (?q, n + 1)"
    using ab(4) by (simp add: add_to_queue_def list_update_append wr_def)
  moreover have "queue_of h ?q (n + 1) (as @ k # bs)"
    using len n k ab(1) eq by (auto simp: queue_of_def)
  ultimately show ?thesis using ab(1-3) by blast
qed

section \<open>The order of the queue\<close>

definition key :: "request_heap \<Rightarrow> nat \<Rightarrow> int \<times> int" where
  "key h k = (priority (the (h k)), int_of_long (arrival_time (the (h k))))"

definition key_le :: "int \<times> int \<Rightarrow> int \<times> int \<Rightarrow> bool" where
  "key_le a b \<longleftrightarrow> fst a < fst b \<or> fst a = fst b \<and> snd a \<le> snd b"

lemma before_key: "before (the (h b)) (the (h k)) \<longleftrightarrow> key_le (key h b) (key h k)"
  by (auto simp: before_def key_def key_le_def)

lemma key_le_trans: "key_le a b \<Longrightarrow> key_le b c \<Longrightarrow> key_le a c"
  by (auto simp: key_le_def)

lemma key_le_total: "key_le a b \<or> key_le b a"
  by (auto simp: key_le_def)

definition in_order :: "request_heap \<Rightarrow> nat list \<Rightarrow> bool" where
  "in_order h ks \<longleftrightarrow> sorted_wrt (\<lambda>a b. key_le (key h a) (key h b)) ks"

text \<open>
  Inserting keeps the order, and it is stable: the new request comes after all those with the
  same priority and time.
\<close>

lemma in_order_insert:
  assumes "in_order h (as @ bs)" "\<forall>b \<in> set bs. \<not> key_le (key h b) (key h k)"
    and "as = [] \<or> key_le (key h (last as)) (key h k)"
  shows "in_order h (as @ k # bs)" "\<forall>a \<in> set as. key_le (key h a) (key h k)"
proof -
  show as: "\<forall>a \<in> set as. key_le (key h a) (key h k)"
  proof
    fix a assume a: "a \<in> set as"
    then obtain as' z where z: "as = as' @ [z]" by (cases as rule: rev_cases) auto
    have "key_le (key h z) (key h k)" using assms(3) z by simp
    moreover have "a = z \<or> key_le (key h a) (key h z)"
      using assms(1) a z by (auto simp: in_order_def sorted_wrt_append)
    ultimately show "key_le (key h a) (key h k)" using key_le_trans by blast
  qed
  have "\<forall>b \<in> set bs. key_le (key h k) (key h b)" using assms(2) key_le_total by blast
  with as assms(1) show "in_order h (as @ k # bs)" by (auto simp: in_order_def sorted_wrt_append)
qed

lemma pop_from_queue_spec:
  assumes "queue_of h q n (k # ks)"
  shows "\<exists>q'. pop_from_queue q n = Inr (Some k, q', n - 1) \<and> queue_of h q' (n - 1) ks"
proof -
  have len: "length q = SATELLITES" "n = Suc (length ks)" "n \<le> SATELLITES" "take n q = Some k # map Some ks"
    using assms by (auto simp: queue_of_def)
  have q0: "0 < length q" "q ! 0 = Some k" using queue_of_nth [OF assms, of 0] len by auto
  have s: "shift_left q 0 n = Inr (map Some ks @ drop (n - 1) q)"
    using shift_left_spec [of n q 0] len by simp
  have "queue_of h (map Some ks @ drop (n - 1) q) (n - 1) ks"
    using assms len by (auto simp: queue_of_def)
  moreover have "pop_from_queue q n = Inr (Some k, map Some ks @ drop (n - 1) q, n - 1)"
    using q0 s len(2) by (simp add: pop_from_queue_def)
  ultimately show ?thesis by blast
qed

lemma pop_from_queue_empty: "pop_from_queue q 0 = Inr (None, q, 0)"
  by (simp add: pop_from_queue_def)

text \<open>Removing: the request is freed and taken out when it is in the queue and not served; else nothing changes.\<close>

lemma remove_request_spec:
  assumes "queue_of h q n ks" "distinct ks" "i \<le> n" "k \<notin> set (take i ks)"
    and "\<forall>j \<in> set ks. \<not> being_served (the (h j))"
  shows "if k \<in> set ks
    then (\<exists>q'. remove_request h k i q n = Inr (h(k := None), q', n - 1) \<and> queue_of (h(k := None)) q' (n - 1) (remove1 k ks))
    else remove_request h k i q n = Inr (h, q, n)"
  using assms
proof (induction h k i q n rule: remove_request.induct)
  case (1 h k i q n)
  note Q = "1.prems"(1)
  have len: "length q = SATELLITES" "length ks = n" "n \<le> SATELLITES" "take n q = map Some ks"
    using Q by (auto simp: queue_of_def)
  show ?case
  proof (cases "i < n")
    case False
    with "1.prems" len have "k \<notin> set ks" by simp
    with False show ?thesis by (simp add: remove_request.simps [of h k i])
  next
    case True
    let ?r = "the (h (ks ! i))"
    have d: "deref h q i = Inr ?r" "q ! i = Some (ks ! i)" "i < length q"
      using deref_queue [OF Q True] queue_of_nth [OF Q True] by auto
    have ns: "\<not> being_served ?r" using "1.prems"(5) True len(2) by auto
    show ?thesis
    proof (cases "ks ! i = k")
      case eq: True
      have k: "k \<in> set ks" using True eq len(2) by auto
      let ?q = "q[i := None]"
      let ?q' = "take i ?q @ drop (Suc i) (take n ?q) @ drop (n - 1) ?q"
      have s: "shift_left ?q i n = Inr ?q'" using True len(1,3) by (intro shift_left_spec) auto
      have rem: "remove1 k ks = take i ks @ drop (Suc i) ks"
      proof -
        have "ks = take i ks @ k # drop (Suc i) ks" using True eq len(2) id_take_nth_drop by metis
        then show ?thesis using "1.prems"(4) by (metis remove1.simps(2) remove1_append)
      qed
      have "take (n - 1) ?q' = take i ?q @ drop (Suc i) (take n ?q)"
        using True len by (intro take_shifted) auto
      also have "\<dots> = take i (take n q) @ drop (Suc i) (take n q)"
        using True by (simp add: take_update_swap list_update_beyond)
      also have "\<dots> = map Some (remove1 k ks)"
        unfolding len(4) rem by (simp add: take_map drop_map)
      finally have "queue_of (h(k := None)) ?q' (n - 1) (remove1 k ks)"
        using Q True k len "1.prems"(2) by (auto simp: queue_of_def length_remove1)
      moreover have "remove_request h k i q n = Inr (h(k := None), ?q', n - 1)"
        using d True eq ns s by (simp add: remove_request.simps [of h k i])
      ultimately show ?thesis using k by auto
    next
      case ne: False
      have "remove_request h k i q n = remove_request h k (i + 1) q n"
        using d True ne by (simp add: remove_request.simps [of h k i])
      moreover have "k \<notin> set (take (i + 1) ks)"
        using "1.prems"(4) ne True len(2) by (auto simp: take_Suc_conv_app_nth)
      ultimately show ?thesis using "1.IH" [OF True, of ?r] ne d(2) "1.prems" True by auto
    qed
  qed
qed

lemma in_order_remove1: "in_order h ks \<Longrightarrow> distinct ks \<Longrightarrow> in_order (h(k := None)) (remove1 k ks)"
proof -
  assume o: "in_order h ks" "distinct ks"
  then have "in_order h (remove1 k ks)"
    unfolding in_order_def by (induction ks) (auto dest: set_remove1_subset [THEN subsetD])
  moreover have "k \<notin> set (remove1 k ks)" using o(2) by simp
  then have "key (h(k := None)) a = key h a" if "a \<in> set (remove1 k ks)" for a using that by (auto simp: key_def)
  ultimately show ?thesis unfolding in_order_def by (auto intro: sorted_wrt_mono_rel [rotated])
qed

end
