(* ===== verification/Satellite.thy ===== *)
theory Satellite
  imports Satellite_Queue
begin

text \<open>
  The threads of the satellite simulation (System Programming/HW3/HW3/main.c). A section under
  the mutex is a step, and so is an access outside it: an engineer tests the size of the queue
  and pops from it without the mutex, in two steps. The satellites have the ids 0 to 9; the
  random priority, the clock and whether the time is over are chosen by the event.
\<close>

datatype sat_pc = SNew | SPost | SPoll | STimeout | SServed | SGone

datatype eng_pc = EWait | EPop | EGot "nat option" | EServe nat | EAfter | EDone

record simulation =
  heap :: request_heap
  requestQueue :: "nat option list"
  queue_size :: nat
  availableEngineers :: int
  newRequest :: nat
  requestHandled :: nat
  engs :: "eng_pc list"
  sats :: "sat_pc list"

definition start_simulation :: simulation where
  "start_simulation = \<lparr>heap = (\<lambda>_. None), requestQueue = replicate SATELLITES None, queue_size = 0,
     availableEngineers = int ENGINEERS, newRequest = 0, requestHandled = 0,
     engs = replicate ENGINEERS EWait, sats = replicate SATELLITES SNew\<rparr>"

datatype sat_event =
    Arrive nat int int
  | Post nat
  | Poll nat bool
  | GiveUp nat
  | Engineer nat

definition new_sat_request :: "int \<Rightarrow> int \<Rightarrow> sat_request" where
  "new_sat_request p t = \<lparr>priority = p, arrival_time = t, being_served = False, engineer_id = -1\<rparr>"

definition satellite_step :: "sat_event \<Rightarrow> simulation \<Rightarrow> simulation res option" where
  "satellite_step ev s = (case ev of
     Arrive k p t \<Rightarrow>
       (if k < length (sats s) \<and> sats s ! k = SNew \<and> 1 \<le> p \<and> p \<le> int SATELLITES then
          (let h = (heap s)(k \<mapsto> new_sat_request p t) in
           Some (rbind (add_to_queue h k (new_sat_request p t) (requestQueue s) (queue_size s)) (\<lambda>(q, n).
             Inr (s\<lparr>heap := h, requestQueue := q, queue_size := n, sats := (sats s)[k := SPost]\<rparr>))))
        else None)
   | Post k \<Rightarrow>
       (if k < length (sats s) \<and> sats s ! k = SPost
        then Some (Inr (s\<lparr>newRequest := newRequest s + 1, sats := (sats s)[k := SPoll]\<rparr>)) else None)
   | Poll k over \<Rightarrow>
       (if k < length (sats s) \<and> sats s ! k = SPoll then
          Some (case heap s k of
            None \<Rightarrow> Inl UseAfterFree
          | Some r \<Rightarrow> Inr (s\<lparr>sats := (sats s)[k := if being_served r then SServed else if over then STimeout else SPoll]\<rparr>))
        else None)
   | GiveUp k \<Rightarrow>
       (if k < length (sats s) \<and> sats s ! k = STimeout then
          Some (rbind (remove_request (heap s) k 0 (requestQueue s) (queue_size s)) (\<lambda>(h, q, n).
            Inr (s\<lparr>heap := h, requestQueue := q, queue_size := n, sats := (sats s)[k := SGone]\<rparr>)))
        else None)
   | Engineer e \<Rightarrow> None)"

definition set_engineer :: "nat \<Rightarrow> eng_pc \<Rightarrow> simulation \<Rightarrow> simulation" where
  "set_engineer e pc s = s\<lparr>engs := (engs s)[e := pc]\<rparr>"

definition engineer_step :: "nat \<Rightarrow> simulation \<Rightarrow> simulation res option" where
  "engineer_step e s = (case engs s ! e of
     EWait \<Rightarrow>
       (if newRequest s = 0 then None
        else Some (Inr (set_engineer e
          (if queue_size s > 0 \<and> availableEngineers s > 0 then EPop else if queue_size s = 0 then EDone else EWait)
          (s\<lparr>newRequest := newRequest s - 1\<rparr>))))
   | EPop \<Rightarrow>
       Some (rbind (pop_from_queue (requestQueue s) (queue_size s)) (\<lambda>(p, q, n).
         Inr (set_engineer e (EGot p) (s\<lparr>requestQueue := q, queue_size := n\<rparr>))))
   | EGot None \<Rightarrow> Some (Inl NullDeref)
   | EGot (Some k) \<Rightarrow>
       Some (case heap s k of
         None \<Rightarrow> Inl UseAfterFree
       | Some r \<Rightarrow> Inr (set_engineer e (EServe k)
           (s\<lparr>heap := (heap s)(k \<mapsto> r\<lparr>being_served := True, engineer_id := int e\<rparr>),
              availableEngineers := availableEngineers s - 1, requestHandled := requestHandled s + 1\<rparr>)))
   | EServe k \<Rightarrow>
       Some (case heap s k of
         None \<Rightarrow> Inl UseAfterFree
       | Some r \<Rightarrow> Inr (set_engineer e EAfter
           (s\<lparr>heap := (heap s)(k := None), availableEngineers := availableEngineers s + 1\<rparr>)))
   | EAfter \<Rightarrow>
       Some (Inr (if queue_size s = 0
         then set_engineer e EDone (s\<lparr>newRequest := newRequest s + (ENGINEERS - 1)\<rparr>)
         else set_engineer e EWait s))
   | EDone \<Rightarrow> None)"

definition sim_step :: "sat_event \<Rightarrow> simulation \<Rightarrow> simulation res option" where
  "sim_step ev s = (case ev of
     Engineer e \<Rightarrow> if e < length (engs s) then engineer_step e s else None
   | _ \<Rightarrow> satellite_step ev s)"

inductive sim_reachable :: "simulation \<Rightarrow> bool" where
  sim_start: "sim_reachable start_simulation"
| sim_next: "sim_reachable s \<Longrightarrow> sim_step ev s = Some (Inr t) \<Longrightarrow> sim_reachable t"

section \<open>The invariant\<close>

text \<open>The request that an engineer holds.\<close>

definition holds :: "eng_pc \<Rightarrow> nat option" where
  "holds pc = (case pc of EGot p \<Rightarrow> p | EServe k \<Rightarrow> Some k | _ \<Rightarrow> None)"

lemma holds_simps [simp]:
  "holds EWait = None" "holds EPop = None" "holds (EGot p) = p" "holds (EServe k) = Some k" "holds EAfter = None" "holds EDone = None"
  by (simp_all add: holds_def)

definition queue_inv :: "request_heap \<Rightarrow> nat option list \<Rightarrow> nat \<Rightarrow> nat list \<Rightarrow> bool" where
  "queue_inv h q n ks \<longleftrightarrow> queue_of h q n ks \<and> distinct ks \<and> in_order h ks \<and> (\<forall>k \<in> set ks. \<not> being_served (the (h k)))"

definition held_inv :: "request_heap \<Rightarrow> eng_pc list \<Rightarrow> nat list \<Rightarrow> bool" where
  "held_inv h es ks \<longleftrightarrow>
     (\<forall>e < length es. \<forall>k. holds (es ! e) = Some k \<longrightarrow> h k \<noteq> None \<and> k \<notin> set ks
       \<and> (\<forall>e' < length es. e' \<noteq> e \<longrightarrow> holds (es ! e') \<noteq> Some k))"

definition fresh_inv :: "request_heap \<Rightarrow> sat_pc list \<Rightarrow> bool" where
  "fresh_inv h ss \<longleftrightarrow> length ss = SATELLITES \<and> (\<forall>k. h k \<noteq> None \<longrightarrow> k < SATELLITES \<and> ss ! k \<noteq> SNew)"

definition sim_inv :: "simulation \<Rightarrow> nat list \<Rightarrow> bool" where
  "sim_inv s ks \<longleftrightarrow> queue_inv (heap s) (requestQueue s) (queue_size s) ks \<and> held_inv (heap s) (engs s) ks \<and> fresh_inv (heap s) (sats s)"

lemma start_inv: "sim_inv start_simulation []"
  by (auto simp: sim_inv_def start_simulation_def queue_inv_def held_inv_def fresh_inv_def queue_of_def in_order_def SATELLITES_def)

lemma queue_live: "queue_of h q n ks \<Longrightarrow> k \<in> set ks \<Longrightarrow> h k \<noteq> None"
  by (simp add: queue_of_def)

text \<open>A change of the heap at a request outside the queue leaves the queue as it is.\<close>

lemma queue_inv_heap:
  assumes "queue_inv h q n ks" "k \<notin> set ks"
  shows "queue_inv (h(k := v)) q n ks"
proof -
  have "key (h(k := v)) j = key h j" if "j \<in> set ks" for j using that assms(2) by (auto simp: key_def)
  then have "in_order (h(k := v)) ks \<longleftrightarrow> in_order h ks"
    unfolding in_order_def by (auto intro: sorted_wrt_mono_rel [rotated])
  with assms show ?thesis by (auto simp: queue_inv_def queue_of_def)
qed

lemma queue_inv_insert:
  assumes q: "queue_inv h q n ks" and k: "k \<notin> set ks" "n < SATELLITES" "h k = Some x" "\<not> being_served x"
  shows "\<exists>q' ks'. add_to_queue h k x q n = Inr (q', n + 1) \<and> queue_inv h q' (n + 1) ks' \<and> set ks' = insert k (set ks)"
proof -
  have Q: "queue_of h q n ks" "distinct ks" "in_order h ks" "\<forall>k \<in> set ks. \<not> being_served (the (h k))"
    using q by (auto simp: queue_inv_def)
  obtain as bs q' where ab: "ks = as @ bs" "\<forall>b \<in> set bs. \<not> before (the (h b)) x" "as = [] \<or> before (the (h (last as))) x"
      "add_to_queue h k x q n = Inr (q', n + 1)" "queue_of h q' (n + 1) (as @ k # bs)"
    using add_to_queue_spec [of h q n ks k x, OF Q(1) k(2,3)] by blast
  have x: "x = the (h k)" using k(3) by simp
  have "in_order h (as @ k # bs)"
    by (rule in_order_insert(1)) (use ab(1-3) Q(3) in \<open>simp_all add: x before_key\<close>)
  then have "queue_inv h q' (n + 1) (as @ k # bs)"
    using Q ab(1,5) k by (auto simp: queue_inv_def)
  with ab(1,4) show ?thesis by (intro exI [of _ q'] exI [of _ "as @ k # bs"]) auto
qed

lemma queue_inv_pop:
  assumes "queue_inv h q n (k # ks)"
  shows "\<exists>q'. pop_from_queue q n = Inr (Some k, q', n - 1) \<and> queue_inv h q' (n - 1) ks"
    "\<forall>j \<in> set ks. key_le (key h k) (key h j)"
proof -
  obtain q' where "pop_from_queue q n = Inr (Some k, q', n - 1)" "queue_of h q' (n - 1) ks"
    using pop_from_queue_spec assms by (metis queue_inv_def)
  with assms show "\<exists>q'. pop_from_queue q n = Inr (Some k, q', n - 1) \<and> queue_inv h q' (n - 1) ks"
    by (auto simp: queue_inv_def in_order_def)
  show "\<forall>j \<in> set ks. key_le (key h k) (key h j)" using assms by (simp add: queue_inv_def in_order_def)
qed

lemma queue_inv_remove:
  assumes "queue_inv h q n ks"
  shows "\<exists>h' q' n'. remove_request h k 0 q n = Inr (h', q', n') \<and> queue_inv h' q' n' (remove1 k ks)
    \<and> h' = (if k \<in> set ks then h(k := None) else h)"
proof -
  have Q: "queue_of h q n ks" "distinct ks" "in_order h ks" "\<forall>k \<in> set ks. \<not> being_served (the (h k))"
    using assms by (auto simp: queue_inv_def)
  show ?thesis
  proof (cases "k \<in> set ks")
    case False
    with remove_request_spec [OF Q(1,2) _ _ Q(4), of 0 k] assms show ?thesis by (simp add: remove1_idem)
  next
    case True
    with remove_request_spec [OF Q(1,2) _ _ Q(4), of 0 k]
    obtain q' where q': "remove_request h k 0 q n = Inr (h(k := None), q', n - 1)" "queue_of (h(k := None)) q' (n - 1) (remove1 k ks)"
      by auto
    have "queue_inv (h(k := None)) q' (n - 1) (remove1 k ks)"
      using q'(2) in_order_remove1 [OF Q(3,2)] Q(2,4) by (auto simp: queue_inv_def)
    with q'(1) True show ?thesis by simp
  qed
qed

lemma queue_size_bound:
  assumes "queue_inv h q n ks" "fresh_inv h ss" "k \<notin> set ks" "k < SATELLITES"
  shows "n < SATELLITES"
proof -
  have "set (k # ks) \<subseteq> {..<SATELLITES}"
    using assms queue_live [of h q n ks] by (auto simp: queue_inv_def fresh_inv_def)
  then have "card (set (k # ks)) \<le> SATELLITES" using card_mono [of "{..<SATELLITES}"] by fastforce
  moreover have "distinct (k # ks)" "length ks = n" using assms by (auto simp: queue_inv_def queue_of_def)
  ultimately show ?thesis using distinct_card by fastforce
qed

lemma held_inv_update:
  assumes "held_inv h es ks" "e < length es" "set ks' \<subseteq> set ks"
    and "\<And>k. holds pc = Some k \<Longrightarrow> h' k \<noteq> None \<and> k \<notin> set ks' \<and> (\<forall>e' < length es. e' \<noteq> e \<longrightarrow> holds (es ! e') \<noteq> Some k)"
    and "\<And>e' k. e' < length es \<Longrightarrow> e' \<noteq> e \<Longrightarrow> holds (es ! e') = Some k \<Longrightarrow> h' k \<noteq> None"
  shows "held_inv h' (es[e := pc]) ks'"
  unfolding held_inv_def
proof (intro allI impI)
  fix e1 k assume e1: "e1 < length (es[e := pc])" "holds (es[e := pc] ! e1) = Some k"
  show "h' k \<noteq> None \<and> k \<notin> set ks' \<and> (\<forall>e' < length (es[e := pc]). e' \<noteq> e1 \<longrightarrow> holds (es[e := pc] ! e') \<noteq> Some k)"
  proof (cases "e1 = e")
    case True
    then have "holds pc = Some k" using e1 assms(2) by simp
    with assms(4) True show ?thesis by auto
  next
    case False
    then have h: "holds (es ! e1) = Some k" "e1 < length es" using e1 by simp_all
    then have "k \<notin> set ks" "\<forall>e' < length es. e' \<noteq> e1 \<longrightarrow> holds (es ! e') \<noteq> Some k"
      using assms(1) by (auto simp: held_inv_def)
    moreover have "holds pc \<noteq> Some k" using assms(4) h False by blast
    ultimately show ?thesis using assms(2,3) assms(5) [OF h(2) False h(1)]
      by (auto simp: nth_list_update split: if_splits)
  qed
qed

lemma held_inv_mono:
  assumes "held_inv h es ks" "\<And>e k. e < length es \<Longrightarrow> holds (es ! e) = Some k \<Longrightarrow> h' k \<noteq> None \<and> k \<notin> set ks'"
  shows "held_inv h' es ks'"
  using assms unfolding held_inv_def by blast

lemma fresh_inv_update:
  "fresh_inv h ss \<Longrightarrow> pc \<noteq> SNew \<Longrightarrow> fresh_inv h (ss[k := pc])"
  by (cases "k < length ss") (auto simp: fresh_inv_def nth_list_update)

lemma fresh_inv_heap: "fresh_inv h ss \<Longrightarrow> h k \<noteq> None \<Longrightarrow> fresh_inv (h(k := v)) ss"
  by (auto simp: fresh_inv_def)

lemma fresh_inv_free: "fresh_inv h ss \<Longrightarrow> fresh_inv (h(k := None)) ss"
  by (auto simp: fresh_inv_def)

section \<open>The steps\<close>

text \<open>What a step may do: keep the invariant, or be one of the two faults.\<close>

definition fault :: "sat_event \<Rightarrow> simulation \<Rightarrow> ub \<Rightarrow> bool" where
  "fault ev s e \<longleftrightarrow> (\<exists>i. ev = Engineer i \<and> engs s ! i = EGot None \<and> e = NullDeref)
     \<or> (\<exists>k b. ev = Poll k b \<and> heap s k = None \<and> e = UseAfterFree)"

definition step_fine :: "sat_event \<Rightarrow> simulation \<Rightarrow> simulation res \<Rightarrow> bool" where
  "step_fine ev s r \<longleftrightarrow> (case r of Inl e \<Rightarrow> fault ev s e | Inr t \<Rightarrow> \<exists>ks. sim_inv t ks)"

lemma arrive_fine:
  assumes inv: "sim_inv s ks" and step: "satellite_step (Arrive k p a) s = Some r"
  shows "step_fine (Arrive k p a) s r"
proof -
  have k: "k < SATELLITES" "sats s ! k = SNew"
    using step inv by (auto simp: satellite_step_def sim_inv_def fresh_inv_def split: if_splits)
  then have none: "heap s k = None" using inv by (auto simp: sim_inv_def fresh_inv_def)
  then have nk: "k \<notin> set ks" using inv by (auto simp: sim_inv_def queue_inv_def queue_of_def)
  let ?x = "new_sat_request p a" and ?h = "(heap s)(k \<mapsto> new_sat_request p a)"
  have q: "queue_inv ?h (requestQueue s) (queue_size s) ks" "queue_size s < SATELLITES"
    using inv nk k queue_inv_heap queue_size_bound by (auto simp: sim_inv_def)
  obtain q' ks' where q': "add_to_queue ?h k ?x (requestQueue s) (queue_size s) = Inr (q', queue_size s + 1)"
      "queue_inv ?h q' (queue_size s + 1) ks'" "set ks' = insert k (set ks)"
    using queue_inv_insert [OF q(1) nk q(2), of ?x] by (auto simp: new_sat_request_def)
  have "r = Inr (s\<lparr>heap := ?h, requestQueue := q', queue_size := queue_size s + 1, sats := (sats s)[k := SPost]\<rparr>)"
    using step q'(1) by (auto simp: satellite_step_def Let_def split: if_splits)
  moreover have "held_inv ?h (engs s) ks'"
    by (rule held_inv_mono [where ks = ks and h = "heap s"]) (use inv none q'(3) in \<open>auto simp: sim_inv_def held_inv_def\<close>)
  moreover have "fresh_inv ?h ((sats s)[k := SPost])"
    using inv k by (auto simp: sim_inv_def fresh_inv_def nth_list_update)
  ultimately show ?thesis using q'(2) by (auto simp: step_fine_def sim_inv_def)
qed

lemma give_up_fine:
  assumes inv: "sim_inv s ks" and step: "satellite_step (GiveUp k) s = Some r"
  shows "step_fine (GiveUp k) s r"
proof -
  obtain h q n where rem: "remove_request (heap s) k 0 (requestQueue s) (queue_size s) = Inr (h, q, n)"
      "queue_inv h q n (remove1 k ks)" "h = (if k \<in> set ks then (heap s)(k := None) else heap s)"
    using queue_inv_remove inv by (metis sim_inv_def)
  have r: "r = Inr (s\<lparr>heap := h, requestQueue := q, queue_size := n, sats := (sats s)[k := SGone]\<rparr>)"
    using step rem(1) by (auto simp: satellite_step_def split: if_splits)
  have sub: "set (remove1 k ks) \<subseteq> set ks" by (rule set_remove1_subset)
  have "held_inv h (engs s) (remove1 k ks)"
    by (rule held_inv_mono [where ks = ks and h = "heap s"])
      (use inv rem(3) sub in \<open>auto simp: sim_inv_def held_inv_def\<close>)
  moreover have "fresh_inv h ((sats s)[k := SGone])"
    using inv rem(3) by (auto simp: sim_inv_def intro: fresh_inv_update fresh_inv_free)
  ultimately show ?thesis using rem(2) by (auto simp: r step_fine_def sim_inv_def)
qed

lemma satellite_fine:
  assumes inv: "sim_inv s ks" and step: "satellite_step ev s = Some r"
  shows "step_fine ev s r"
proof (cases ev)
  case (Arrive k p a)
  with assms arrive_fine show ?thesis by simp
next
  case (GiveUp k)
  with assms give_up_fine show ?thesis by simp
next
  case (Post k)
  with assms show ?thesis
    by (auto simp: satellite_step_def step_fine_def sim_inv_def intro!: exI [of _ ks] fresh_inv_update split: if_splits)
next
  case (Poll k over)
  with assms show ?thesis
    by (auto simp: satellite_step_def step_fine_def fault_def sim_inv_def intro!: exI [of _ ks] fresh_inv_update
        split: if_splits option.splits)
qed (use step in \<open>simp add: satellite_step_def\<close>)

lemma held_live: "held_inv h es ks \<Longrightarrow> e < length es \<Longrightarrow> holds (es ! e) = Some k \<Longrightarrow> h k \<noteq> None"
  unfolding held_inv_def by blast

lemma held_out: "held_inv h es ks \<Longrightarrow> e < length es \<Longrightarrow> holds (es ! e) = Some k \<Longrightarrow> k \<notin> set ks"
  unfolding held_inv_def by blast

lemma engineer_idle:
  assumes "sim_inv s ks" "e < length (engs s)" "holds pc = None"
  shows "sim_inv (set_engineer e pc s) ks"
proof -
  have held: "held_inv (heap s) (engs s) ks" using assms(1) by (simp add: sim_inv_def)
  have "held_inv (heap s) ((engs s)[e := pc]) ks"
    by (rule held_inv_update [OF held assms(2)]) (simp_all add: assms(3) held_live [OF held])
  with assms(1) show ?thesis by (simp add: sim_inv_def set_engineer_def)
qed

lemma pop_fine:
  assumes inv: "sim_inv s ks" and e: "e < length (engs s)" "engs s ! e = EPop" and step: "engineer_step e s = Some r"
  shows "step_fine (Engineer e) s r"
proof (cases ks)
  case Nil
  then have "queue_size s = 0" using inv by (auto simp: sim_inv_def queue_inv_def queue_of_def)
  then have "r = Inr (set_engineer e (EGot None) s)" using step e
    by (cases s) (simp add: engineer_step_def pop_from_queue_def set_engineer_def)
  with engineer_idle [OF inv e(1), of "EGot None"] show ?thesis by (auto simp: step_fine_def)
next
  case (Cons k ks')
  then obtain q' where q': "pop_from_queue (requestQueue s) (queue_size s) = Inr (Some k, q', queue_size s - 1)"
      "queue_inv (heap s) q' (queue_size s - 1) ks'"
    using queue_inv_pop(1) [of "heap s" "requestQueue s" "queue_size s" k ks'] inv by (auto simp: sim_inv_def)
  have r: "r = Inr (set_engineer e (EGot (Some k)) (s\<lparr>requestQueue := q', queue_size := queue_size s - 1\<rparr>))"
    using step e q'(1) by (simp add: engineer_step_def)
  have d: "k \<notin> set ks'" "heap s k \<noteq> None" using inv Cons queue_live by (auto simp: sim_inv_def queue_inv_def)
  have held: "held_inv (heap s) (engs s) ks" using inv by (simp add: sim_inv_def)
  have "held_inv (heap s) ((engs s)[e := EGot (Some k)]) ks'"
    by (rule held_inv_update [OF held e(1)]) (use Cons d held_live [OF held] held_out [OF held] in auto)
  with q'(2) inv have "sim_inv (set_engineer e (EGot (Some k)) (s\<lparr>requestQueue := q', queue_size := queue_size s - 1\<rparr>)) ks'"
    by (simp add: sim_inv_def set_engineer_def)
  then show ?thesis by (auto simp: r step_fine_def)
qed

lemma serve_fine:
  assumes inv: "sim_inv s ks" and e: "e < length (engs s)" "holds (engs s ! e) = Some k"
    and step: "engineer_step e s = Some r"
  shows "step_fine (Engineer e) s r"
proof -
  have h: "heap s k \<noteq> None" "k \<notin> set ks" "\<forall>e' < length (engs s). e' \<noteq> e \<longrightarrow> holds (engs s ! e') \<noteq> Some k"
    using inv e by (auto simp: sim_inv_def held_inv_def)
  then obtain x where x: "heap s k = Some x" by blast
  have upd: "held_inv ((heap s)(k := v)) ((engs s)[e := pc]) ks" if "holds pc = None \<or> holds pc = Some k \<and> v \<noteq> None" for v pc
    by (rule held_inv_update [where ks = ks and h = "heap s"])
      (use inv e h that in \<open>auto simp: sim_inv_def held_inv_def\<close>)
  consider "engs s ! e = EGot (Some k)" | "engs s ! e = EServe k" using e(2) by (cases "engs s ! e") auto
  then show ?thesis
  proof cases
    case 1
    let ?y = "x\<lparr>being_served := True, engineer_id := int e\<rparr>"
    have "r = Inr (set_engineer e (EServe k) (s\<lparr>heap := (heap s)(k \<mapsto> ?y), availableEngineers := availableEngineers s - 1,
        requestHandled := requestHandled s + 1\<rparr>))"
      using step 1 x by (simp add: engineer_step_def)
    moreover have "queue_inv ((heap s)(k \<mapsto> ?y)) (requestQueue s) (queue_size s) ks" "fresh_inv ((heap s)(k \<mapsto> ?y)) (sats s)"
      using inv h queue_inv_heap fresh_inv_heap by (auto simp: sim_inv_def)
    ultimately show ?thesis using upd [of "EServe k" "Some ?y"] by (auto simp: step_fine_def sim_inv_def set_engineer_def)
  next
    case 2
    have "r = Inr (set_engineer e EAfter (s\<lparr>heap := (heap s)(k := None), availableEngineers := availableEngineers s + 1\<rparr>))"
      using step 2 x by (simp add: engineer_step_def)
    moreover have "queue_inv ((heap s)(k := None)) (requestQueue s) (queue_size s) ks" "fresh_inv ((heap s)(k := None)) (sats s)"
      using inv h queue_inv_heap fresh_inv_free by (auto simp: sim_inv_def)
    ultimately show ?thesis using upd [of EAfter None] by (auto simp: step_fine_def sim_inv_def set_engineer_def)
  qed
qed

lemma engineer_fine:
  assumes inv: "sim_inv s ks" and e: "e < length (engs s)" and step: "engineer_step e s = Some r"
  shows "step_fine (Engineer e) s r"
proof (cases "engs s ! e")
  case EWait
  then obtain pc n where r: "r = Inr (set_engineer e pc (s\<lparr>newRequest := n\<rparr>))" "holds pc = None"
    using step by (auto simp: engineer_step_def split: if_splits)
  have "sim_inv (s\<lparr>newRequest := n\<rparr>) ks" "e < length (engs (s\<lparr>newRequest := n\<rparr>))" using inv e by (simp_all add: sim_inv_def)
  from engineer_idle [OF this r(2)] r(1) show ?thesis by (auto simp: step_fine_def)
next
  case EPop
  with pop_fine [OF inv e _ step] show ?thesis by simp
next
  case (EGot p)
  show ?thesis
  proof (cases p)
    case None
    with EGot step have "r = Inl NullDeref" by (simp add: engineer_step_def)
    with EGot None show ?thesis by (simp add: step_fine_def fault_def)
  next
    case (Some k)
    with EGot serve_fine [OF inv e _ step, of k] show ?thesis by simp
  qed
next
  case (EServe k)
  with serve_fine [OF inv e _ step, of k] show ?thesis by simp
next
  case EAfter
  then obtain pc n where r: "r = Inr (set_engineer e pc (s\<lparr>newRequest := n\<rparr>))" "holds pc = None"
    using step by (cases s) (auto simp: engineer_step_def set_engineer_def split: if_splits)
  have "sim_inv (s\<lparr>newRequest := n\<rparr>) ks" "e < length (engs (s\<lparr>newRequest := n\<rparr>))" using inv e by (simp_all add: sim_inv_def)
  from engineer_idle [OF this r(2)] r(1) show ?thesis by (auto simp: step_fine_def)
qed (use step in \<open>simp add: engineer_step_def\<close>)

lemma sim_step_fine:
  assumes "sim_inv s ks" "sim_step ev s = Some r"
  shows "step_fine ev s r"
  using assms satellite_fine engineer_fine by (cases ev) (auto simp: sim_step_def split: if_splits)

lemma sim_reachable_inv: "sim_reachable s \<Longrightarrow> \<exists>ks. sim_inv s ks"
proof (induction rule: sim_reachable.induct)
  case sim_start
  show ?case using start_inv by blast
next
  case (sim_next s ev t)
  then obtain ks where "sim_inv s ks" by blast
  from sim_step_fine [OF this sim_next(2)] show ?case by (simp add: step_fine_def)
qed

section \<open>Properties\<close>


text \<open>
  In every state that the simulation can reach, the array of the queue does not overflow, and
  the only undefined steps are these: an engineer that popped from a queue another engineer had
  emptied follows NULL, and a satellite that looks at its request after an engineer has freed it.
\<close>

theorem satellite_steps_defined:
  assumes "sim_reachable s"
  shows "queue_size s \<le> SATELLITES \<and>
    (\<forall>ev e. sim_step ev s = Some (Inl e) \<longrightarrow>
      (\<exists>i. ev = Engineer i \<and> engs s ! i = EGot None \<and> e = NullDeref)
      \<or> (\<exists>k b. ev = Poll k b \<and> heap s k = None \<and> e = UseAfterFree))"
proof -
  obtain ks where inv: "sim_inv s ks" using sim_reachable_inv [OF assms] by blast
  then have "queue_size s \<le> SATELLITES" by (simp add: sim_inv_def queue_inv_def queue_of_def)
  with sim_step_fine [OF inv] show ?thesis by (force simp: step_fine_def fault_def)
qed

fun run_sim :: "sat_event list \<Rightarrow> simulation \<Rightarrow> simulation option" where
  "run_sim [] s = Some s"
| "run_sim (ev # evs) s = (case sim_step ev s of Some (Inr t) \<Rightarrow> run_sim evs t | _ \<Rightarrow> None)"

lemma run_sim_reachable: "sim_reachable s \<Longrightarrow> run_sim evs s = Some t \<Longrightarrow> sim_reachable t"
  by (induction evs arbitrary: s) (auto split: option.splits sum.splits intro: sim_next)

definition step_error :: "sat_event \<Rightarrow> simulation \<Rightarrow> ub option" where
  "step_error ev s = (case sim_step ev s of Some (Inl e) \<Rightarrow> Some e | _ \<Rightarrow> None)"

definition race_events :: "sat_event list" where
  "race_events = [Arrive 0 5 100, Post 0, Poll 0 True, GiveUp 0, Arrive 1 3 101, Post 1, Engineer 0, Engineer 1, Engineer 0, Engineer 1]"

definition late_events :: "sat_event list" where
  "late_events = [Arrive 0 5 100, Post 0, Engineer 0, Engineer 0, Engineer 0, Engineer 0]"

lemma fault_views:
  "map_option (step_error (Engineer 1)) (run_sim race_events start_simulation) = Some (Some NullDeref)"
  "map_option (step_error (Poll 0 False)) (run_sim late_events start_simulation) = Some (Some UseAfterFree)"
  by code_simp+

text \<open>
  Both faults can happen: after a satellite gave up, the semaphore counts more than the queue
  holds, so two engineers can see the last request and one of them pops NULL; and an engineer
  can serve and free a request before its satellite looks at it again.
\<close>

theorem satellite_faults:
  "(\<exists>s. sim_reachable s \<and> sim_step (Engineer 1) s = Some (Inl NullDeref))
    \<and> (\<exists>s. sim_reachable s \<and> sim_step (Poll 0 False) s = Some (Inl UseAfterFree))"
proof
  obtain s where s: "run_sim race_events start_simulation = Some s" "step_error (Engineer 1) s = Some NullDeref"
    using fault_views(1) by auto
  with run_sim_reachable [OF sim_start s(1)] show "\<exists>s. sim_reachable s \<and> sim_step (Engineer 1) s = Some (Inl NullDeref)"
    by (auto simp: step_error_def split: option.splits sum.splits)
  obtain s where s: "run_sim late_events start_simulation = Some s" "step_error (Poll 0 False) s = Some UseAfterFree"
    using fault_views(2) by auto
  with run_sim_reachable [OF sim_start s(1)] show "\<exists>s. sim_reachable s \<and> sim_step (Poll 0 False) s = Some (Inl UseAfterFree)"
    by (auto simp: step_error_def split: option.splits sum.splits)
qed

section \<open>Witnesses\<close>

definition busy_events :: "sat_event list" where
  "busy_events = [Arrive 0 5 100, Post 0, Arrive 1 3 101, Post 1, Arrive 2 3 100, Post 2, Engineer 0]"

lemma busy_view:
  "map_option (\<lambda>s. (engs s ! 0, length (engs s), take 3 (requestQueue s), queue_size s,
      map_option (map_sum (\<lambda>e. e) (\<lambda>t. engs t ! 0)) (sim_step (Engineer 0) s))) (run_sim busy_events start_simulation)
     = Some (EPop, 3, [Some 2, Some 1, Some 0], 3, Some (Inr (EGot (Some 2))))"
  by code_simp


theorem satellite_steps_defined_witness:
  "queue_size start_simulation \<le> SATELLITES \<and> (\<forall>k b. sim_step (Poll k b) start_simulation \<noteq> Some (Inl NullDeref))"
  using satellite_steps_defined [OF sim_start] by (auto simp: start_simulation_def)

end
