(* ===== verification/File_System.thy ===== *)
theory File_System
  imports Cxx_Exception "HOL-Library.AList"
begin

text \<open>
  The part of POSIX that the file manager uses: files and directories by their path, and the
  calls with the errors they report. Paths are relative and taken literally (no ., .., doubled or trailing
  slashes); a path without a slash is in the working directory. A file can be read-only, and it
  can be locked by another process. The order in which a directory is listed is that of the list.
\<close>

datatype node = Directory | File (content: string) (readonly: bool) (locked: bool)

datatype errno = EEXIST | ENOENT | ENOTDIR | EISDIR | EACCES | ENOTEMPTY | ENAMETOOLONG

type_synonym fsys = "(string \<times> node) list"

definition lookup :: "fsys \<Rightarrow> string \<Rightarrow> node option" where
  "lookup fs p = map_of fs p"

definition put_node :: "string \<Rightarrow> node \<Rightarrow> fsys \<Rightarrow> fsys" where
  "put_node p v fs = AList.update p v fs"

definition drop_node :: "string \<Rightarrow> fsys \<Rightarrow> fsys" where
  "drop_node p fs = filter (\<lambda>(q, v). q \<noteq> p) fs"

text \<open>The directory part of a path and its last component.\<close>

definition parent :: "string \<Rightarrow> string option" where
  "parent p = (case strrchr p (CHR ''/'') of None \<Rightarrow> None | Some r \<Rightarrow> Some (take (length p - length r) p))"

definition base_name :: "string \<Rightarrow> string" where
  "base_name p = (case strrchr p (CHR ''/'') of None \<Rightarrow> p | Some r \<Rightarrow> tl r)"

text \<open>The directories on the way to a path, from the outermost one, and what is wrong with them.\<close>

definition way :: "string \<Rightarrow> string list" where
  "way p = map (\<lambda>i. take i p) (filter (\<lambda>i. p ! i = CHR ''/'') [0..<length p])"

fun walk_error :: "fsys \<Rightarrow> string list \<Rightarrow> errno option" where
  "walk_error fs [] = None"
| "walk_error fs (d # ds) = (case lookup fs d of
      None \<Rightarrow> Some ENOENT
    | Some (File c r l) \<Rightarrow> Some ENOTDIR
    | Some Directory \<Rightarrow> walk_error fs ds)"

text \<open>Whether an entry can be made at a path.\<close>

definition place_error :: "fsys \<Rightarrow> string \<Rightarrow> errno option" where
  "place_error fs p = (if p = [] then Some ENOENT
     else (case walk_error fs (way p) of
        Some e \<Rightarrow> Some e
      | None \<Rightarrow> if 255 < length (base_name p) then Some ENAMETOOLONG else None))"

definition entries :: "fsys \<Rightarrow> string \<Rightarrow> (string \<times> bool) list" where
  "entries fs d = (''.'', False) # (''..'', False)
     # map (\<lambda>(p, v). (base_name p, v \<noteq> Directory)) (filter (\<lambda>(p, v). parent p = Some d) fs)"

definition os_mkdir :: "string \<Rightarrow> fsys \<Rightarrow> errno + fsys" where
  "os_mkdir p fs = (if lookup fs p \<noteq> None then Inl EEXIST
     else (case place_error fs p of Some e \<Rightarrow> Inl e | None \<Rightarrow> Inr (put_node p Directory fs)))"

text \<open>\<open>open (p, O_CREAT | O_EXCL | O_RDWR)\<close>.\<close>

definition os_create :: "string \<Rightarrow> fsys \<Rightarrow> errno + fsys" where
  "os_create p fs = (if lookup fs p \<noteq> None then Inl EEXIST
     else (case place_error fs p of Some e \<Rightarrow> Inl e | None \<Rightarrow> Inr (put_node p (File [] False False) fs)))"

text \<open>\<open>open (p, O_RDWR)\<close>, with and without \<open>O_APPEND\<close>; the result is the content and the lock.\<close>

definition os_open :: "string \<Rightarrow> fsys \<Rightarrow> errno + string \<times> bool" where
  "os_open p fs = (case lookup fs p of
      None \<Rightarrow> (case place_error fs p of Some e \<Rightarrow> Inl e | None \<Rightarrow> Inl ENOENT)
    | Some Directory \<Rightarrow> Inl EISDIR
    | Some (File c r l) \<Rightarrow> if r then Inl EACCES else Inr (c, l))"

definition os_unlink :: "string \<Rightarrow> fsys \<Rightarrow> errno + fsys" where
  "os_unlink p fs = (case lookup fs p of
      None \<Rightarrow> (case place_error fs p of Some e \<Rightarrow> Inl e | None \<Rightarrow> Inl ENOENT)
    | Some Directory \<Rightarrow> Inl EISDIR
    | Some (File c r l) \<Rightarrow> Inr (drop_node p fs))"

definition os_rmdir :: "string \<Rightarrow> fsys \<Rightarrow> errno + fsys" where
  "os_rmdir p fs = (case lookup fs p of
      None \<Rightarrow> (case place_error fs p of Some e \<Rightarrow> Inl e | None \<Rightarrow> Inl ENOENT)
    | Some Directory \<Rightarrow> if list_ex (\<lambda>(q, v). parent q = Some p) fs then Inl ENOTEMPTY else Inr (drop_node p fs)
    | Some (File c r l) \<Rightarrow> Inl ENOTDIR)"

text \<open>\<open>opendir\<close>: None for anything that is not a directory.\<close>

definition os_opendir :: "string \<Rightarrow> fsys \<Rightarrow> (string \<times> bool) list option" where
  "os_opendir p fs = (case lookup fs p of Some Directory \<Rightarrow> Some (entries fs p) | _ \<Rightarrow> None)"

text \<open>Appending to a file that is open for writing.\<close>

definition os_append :: "string \<Rightarrow> string \<Rightarrow> fsys \<Rightarrow> fsys" where
  "os_append p s fs = (case lookup fs p of Some (File c r l) \<Rightarrow> put_node p (File (c @ s) r l) fs | _ \<Rightarrow> fs)"

section \<open>Laws\<close>

lemma lookup_put [simp]: "lookup (put_node p v fs) q = (if q = p then Some v else lookup fs q)"
  by (simp add: lookup_def put_node_def update_conv')

lemma lookup_drop [simp]: "lookup (drop_node p fs) q = (if q = p then None else lookup fs q)"
  unfolding lookup_def drop_node_def by (induction fs) auto

lemma lookup_append: "lookup (os_append p s fs) q = (if q = p
    then (case lookup fs p of Some (File c r l) \<Rightarrow> Some (File (c @ s) r l) | v \<Rightarrow> v) else lookup fs q)"
  by (auto simp: os_append_def split: option.splits node.splits)

lemma os_frame:
  "os_mkdir p fs = Inr fs' \<Longrightarrow> q \<noteq> p \<Longrightarrow> lookup fs' q = lookup fs q"
  "os_create p fs = Inr fs' \<Longrightarrow> q \<noteq> p \<Longrightarrow> lookup fs' q = lookup fs q"
  "os_unlink p fs = Inr fs' \<Longrightarrow> q \<noteq> p \<Longrightarrow> lookup fs' q = lookup fs q"
  "os_rmdir p fs = Inr fs' \<Longrightarrow> q \<noteq> p \<Longrightarrow> lookup fs' q = lookup fs q"
  "q \<noteq> p \<Longrightarrow> lookup (os_append p s fs) q = lookup fs q"
  by (auto simp: os_mkdir_def os_create_def os_unlink_def os_rmdir_def lookup_append split: if_splits option.splits node.splits)

end
