(* ===== verification/File_Manager.thy ===== *)
theory File_Manager
  imports File_System
begin

text \<open>
  The file manager (System Programming/HW1/HW1/main.c): one command per run, with messages on
  the standard streams and a line in log.txt. A run ends by \<open>exit\<close>, which is the exception of the
  code here; the state then holds the exit code, what was written, and the files. The commands
  that list and delete run in a child process, whose exit code the parent passes on.
\<close>

record fm_state =
  fsystem :: fsys
  stdout :: string
  stderr :: string
  status :: int

type_synonym prog = "(fm_state, unit) code"

definition dq :: string where "dq = [CHR 0x22]"
definition tabs :: "nat \<Rightarrow> string" where "tabs n = replicate n (CHR 0x09)"

section \<open>Output\<close>

definition put_out :: "string \<Rightarrow> prog" where
  "put_out s = change (\<lambda>p. p\<lparr>stdout := stdout p @ s\<rparr>)"

definition put_err :: "string \<Rightarrow> prog" where
  "put_err s = change (\<lambda>p. p\<lparr>stderr := stderr p @ s\<rparr>)"

text \<open>\<open>write (fd, literal, n)\<close>: the literal is cut, or read up to its NUL, or read past its end.\<close>

definition write_bytes :: "string \<Rightarrow> nat \<Rightarrow> string res" where
  "write_bytes s n = (if n \<le> length s + 1 then Inr (take n (s @ [NUL])) else Inl OutOfBounds)"

definition write_err :: "string \<Rightarrow> nat \<Rightarrow> prog" where
  "write_err s n = seq (check (write_bytes s n)) put_err"

definition exit_with :: "int \<Rightarrow> prog" where
  "exit_with n = seq (change (\<lambda>p. p\<lparr>status := n mod 256\<rparr>)) (\<lambda>_. throw)"

definition and_then :: "prog \<Rightarrow> prog \<Rightarrow> prog" where
  "and_then m n = seq m (\<lambda>_. n)"

definition update_fs :: "(fsys \<Rightarrow> fsys) \<Rightarrow> prog" where
  "update_fs f = change (\<lambda>p. p\<lparr>fsystem := f (fsystem p)\<rparr>)"

text \<open>The messages are built in arrays of 256 characters.\<close>

definition message :: "string list \<Rightarrow> string res" where
  "message parts = (if length (concat parts) < 256 then Inr (concat parts) else Inl BufferOverflow)"

definition log_name :: string where "log_name = ''log.txt''"

text \<open>\<open>operationLog\<close>; the time stamp is an argument.\<close>

definition operationLog :: "string \<Rightarrow> string \<Rightarrow> prog" where
  "operationLog now operation = seq (asks fsystem) (\<lambda>fs.
     let fs' = (case os_create log_name fs of Inr fs' \<Rightarrow> fs' | Inl e \<Rightarrow> fs) in
     case os_open log_name fs' of
       Inl e \<Rightarrow> and_then (write_err (''Error: Cannot open log file'' @ nl) 25) (exit_with 1)
     | Inr c \<Rightarrow> update_fs (\<lambda>_. os_append log_name (now @ '' '' @ operation @ nl) fs'))"

text \<open>A message on the standard error stream, with and without a line in the log, and the end.\<close>

definition report :: "string list \<Rightarrow> int \<Rightarrow> prog" where
  "report parts n = seq (check (message parts)) (\<lambda>m. and_then (put_err (m @ nl)) (exit_with n))"

definition report_logged :: "string \<Rightarrow> string list \<Rightarrow> int \<Rightarrow> prog" where
  "report_logged now parts n =
     seq (check (message parts)) (\<lambda>m. and_then (put_err (m @ nl)) (and_then (operationLog now m) (exit_with n)))"

text \<open>
  \<open>fork\<close>, the child, \<open>waitpid\<close>, and \<open>exit (status)\<close> with the status of the child as \<open>waitpid\<close> gives
  it: the exit code is in its second byte.
\<close>

definition in_child :: "prog \<Rightarrow> prog" where
  "in_child child p = (case child p of
      Undef e \<Rightarrow> Undef e
    | Thrown q \<Rightarrow> exit_with (status q * 256) q
    | Done _ q \<Rightarrow> exit_with 0 q)"

section \<open>The commands\<close>

definition createDir :: "string \<Rightarrow> string \<Rightarrow> prog" where
  "createDir now dirname = seq (asks (\<lambda>p. os_mkdir dirname (fsystem p))) (\<lambda>r. case r of
      Inl EEXIST \<Rightarrow> report_logged now [''Error: Directory '', sq, dirname, sq, '' already exists.''] 1
    | Inl e \<Rightarrow> report [''Error: Cannot create directory '', sq, dirname, sq] 1
    | Inr fs \<Rightarrow> and_then (update_fs (\<lambda>_. fs)) (report_logged now [''Directory '', sq, dirname, sq, '' created successfully.''] 0))"

definition createFile :: "string \<Rightarrow> string \<Rightarrow> prog" where
  "createFile now filename = seq (asks (\<lambda>p. os_create filename (fsystem p))) (\<lambda>r. case r of
      Inl EEXIST \<Rightarrow> report_logged now [''Error: File '', sq, filename, sq, '' already exists.''] 1
    | Inl e \<Rightarrow> report [''Error: Cannot create file '', sq, filename, sq] 1
    | Inr fs \<Rightarrow> and_then (update_fs (\<lambda>_. os_append filename (now @ nl) fs))
        (report_logged now [''File '', sq, filename, sq, '' created successfully.''] 0))"

definition listDir :: "string \<Rightarrow> string \<Rightarrow> prog" where
  "listDir now dirname = in_child (seq (asks (\<lambda>p. os_opendir dirname (fsystem p))) (\<lambda>r. case r of
      None \<Rightarrow> report_logged now [''Error: Directory '', sq, dirname, sq, '' not found.''] 1
    | Some es \<Rightarrow> and_then (put_out (concat (map (\<lambda>(n, reg). n @ nl) es)))
        (report_logged now [''Directory '', sq, dirname, sq, '' listed successfully.''] 0)))"

text \<open>\<open>strrchr (name, '.')\<close> is the extension.\<close>

definition has_extension :: "string \<Rightarrow> string \<times> bool \<Rightarrow> bool" where
  "has_extension extension e = (snd e \<and> strrchr (fst e) (CHR ''.'') = Some extension)"

definition listFilesByExtension :: "string \<Rightarrow> string \<Rightarrow> string \<Rightarrow> prog" where
  "listFilesByExtension now dirname extension = in_child (seq (asks (\<lambda>p. os_opendir dirname (fsystem p))) (\<lambda>r. case r of
      None \<Rightarrow> report_logged now [''Error: Directory '', sq, dirname, sq, '' not found.''] 1
    | Some es \<Rightarrow>
        (let found = filter (has_extension extension) es in
         and_then (put_out (concat (map (\<lambda>e. fst e @ nl) found)))
          (if found = []
           then report_logged now [''Error: No files with extension '', sq, extension, sq, '' found in directory '', sq, dirname,
                sq, ''.''] 1
           else report_logged now [''Files with extension '', sq, extension, sq, '' in directory '', sq, dirname, sq,
                '' listed successfully.''] 0))))"

definition readFile :: "string \<Rightarrow> string \<Rightarrow> prog" where
  "readFile now filename = seq (asks (\<lambda>p. os_open filename (fsystem p))) (\<lambda>r. case r of
      Inl ENOENT \<Rightarrow> report_logged now [''Error: File '', sq, filename, sq, '' not found.''] 1
    | Inl e \<Rightarrow> and_then (write_err (''Error: Cannot open file.'' @ nl) 25) (exit_with 1)
    | Inr (c, l) \<Rightarrow> and_then (put_out (c @ nl)) (report_logged now [''File '', sq, filename, sq, '' read successfully.''] 0))"

definition appendToFile :: "string \<Rightarrow> string \<Rightarrow> string \<Rightarrow> prog" where
  "appendToFile now filename text = seq (asks (\<lambda>p. os_open filename (fsystem p))) (\<lambda>r. case r of
      Inl ENOENT \<Rightarrow> report_logged now [''Error: File '', sq, filename, sq, '' not found.''] 1
    | Inl EACCES \<Rightarrow> report_logged now [''Error: Cannot write to '', dq, filename, dq, ''. File is locked or read-only.''] 1
    | Inl e \<Rightarrow> and_then (write_err (''Error: Cannot open file.'' @ nl) 25) (exit_with 1)
    | Inr (c, l) \<Rightarrow>
        if l then report_logged now [''Error: Cannot write to '', dq, filename, dq, ''. File is locked or read-only.''] 1
        else and_then (update_fs (os_append filename (text @ nl)))
          (report_logged now [sq, text, sq, '' appended to file '', sq, filename, sq, '' successfully.''] 0))"

definition deleteFile :: "string \<Rightarrow> string \<Rightarrow> prog" where
  "deleteFile now filename = in_child (seq (asks (\<lambda>p. os_unlink filename (fsystem p))) (\<lambda>r. case r of
      Inl ENOENT \<Rightarrow> report_logged now [''Error: File '', sq, filename, sq, '' not found.''] 1
    | Inl e \<Rightarrow> report_logged now [''Error: Cannot delete file '', sq, filename, sq, ''.''] 1
    | Inr fs \<Rightarrow> and_then (update_fs (\<lambda>_. fs)) (report_logged now [''File '', sq, filename, sq, '' deleted successfully.''] 0)))"

definition deleteDir :: "string \<Rightarrow> string \<Rightarrow> prog" where
  "deleteDir now dirname = in_child (seq (asks (\<lambda>p. os_rmdir dirname (fsystem p))) (\<lambda>r. case r of
      Inl ENOENT \<Rightarrow> report_logged now [''Error: Directory '', sq, dirname, sq, '' not found.''] 1
    | Inl ENOTEMPTY \<Rightarrow> report_logged now [''Error: Directory '', sq, dirname, sq, '' is not empty.''] 1
    | Inl e \<Rightarrow> report_logged now [''Error: Cannot delete directory '', sq, dirname, sq, ''.''] 1
    | Inr fs \<Rightarrow> and_then (update_fs (\<lambda>_. fs))
        (report_logged now [''Directory '', sq, dirname, sq, '' deleted successfully.''] 0)))"

text \<open>A directory with the name of the log can be opened, but reading it fails: the length is then \<open>(size_t) -1\<close>.\<close>

definition showLogs :: prog where
  "showLogs = seq (asks (\<lambda>p. lookup (fsystem p) log_name)) (\<lambda>r. case r of
      None \<Rightarrow> and_then (write_err (''Error: Cannot open log.txt.'' @ nl) 28) (exit_with 1)
    | Some Directory \<Rightarrow> check (Inl OutOfBounds)
    | Some (File c ro l) \<Rightarrow> and_then (put_out (c @ nl)) (exit_with 0))"

section \<open>The help text and the dispatch\<close>

definition write_out :: "string \<Rightarrow> nat \<Rightarrow> prog" where
  "write_out s n = seq (check (write_bytes s n)) put_out"

definition helpAndUsage :: prog where
  "helpAndUsage = foldr (\<lambda>(s, n). and_then (write_out s n))
    [(''Usage: ./fileManager <command> [arguments]'' @ nl, 41),
     (''Commands:'' @ nl, 10),
     (''createDir '' @ dq @ ''folderName'' @ dq @ tabs 4 @ ''-Create a new directory.'' @ nl, 52),
     (''createFile '' @ dq @ ''fileName'' @ dq @ tabs 4 @ ''-Create a new file.'' @ nl, 46),
     (''listDir '' @ dq @ ''folderName'' @ dq @ tabs 4 @ ''-List all files in a directory.'' @ nl, 57),
     (''listFilesByExtension '' @ dq @ ''folderName'' @ dq @ '' '' @ dq @ ''.extension'' @ dq @ tabs 1 @ ''-List files with specific extension.'' @ nl, 84),
     (''readFile '' @ dq @ ''fileName'' @ dq @ tabs 4 @ ''-Read a file'' @ sq @ ''s content.'' @ nl, 48),
     (''appendToFile '' @ dq @ ''fileName'' @ dq @ '' '' @ dq @ ''new content'' @ dq @ tabs 2 @ ''-Append content to a file.'' @ nl, 66),
     (''deleteFile '' @ dq @ ''fileName'' @ dq @ tabs 4 @ ''-Delete a file.'' @ nl, 42),
     (''deleteDir '' @ dq @ ''folderName'' @ dq @ tabs 4 @ ''-Delete an empty directory.'' @ nl, 54),
     (''showLogs'' @ tabs 5 @ ''-Display operation logs.'' @ nl, 39)]
    (exit_with 0)"

text \<open>A wrong number of arguments: the usage, and \<open>return 1\<close> from \<open>main\<close>.\<close>

definition usage :: "string \<Rightarrow> nat \<Rightarrow> prog" where
  "usage s n = and_then (write_err s n) (exit_with 1)"

text \<open>\<open>main\<close>, on argv; every branch ends by \<open>exit\<close> or \<open>return\<close>.\<close>

definition fm_main :: "string \<Rightarrow> string list \<Rightarrow> prog" where
  "fm_main now argv = (let argc = length argv in
     if argc < 2 then helpAndUsage
     else if argv ! 1 = ''createDir'' then
       (if argc \<noteq> 3 then usage (''Usage: createDir '' @ dq @ ''folderName'' @ dq @ nl) 31
        else createDir now (argv ! 2))
     else if argv ! 1 = ''createFile'' then
       (if argc \<noteq> 3 then usage (''Usage: createFile '' @ dq @ ''fileName'' @ dq @ nl) 30
        else createFile now (argv ! 2))
     else if argv ! 1 = ''listDir'' then
       (if argc \<noteq> 3 then usage (''Usage: listDir '' @ dq @ ''folderName'' @ dq @ nl) 29
        else listDir now (argv ! 2))
     else if argv ! 1 = ''listFilesByExtension'' then
       (if argc \<noteq> 4 then usage (''Usage: listFilesByExtension '' @ dq @ ''folder_name'' @ dq @ '' '' @ dq @ ''.extension'' @ dq @ nl) 56
        else listFilesByExtension now (argv ! 2) (argv ! 3))
     else if argv ! 1 = ''readFile'' then
       (if argc \<noteq> 3 then usage (''Usage: readFile '' @ dq @ ''fileName'' @ dq @ nl) 28
        else readFile now (argv ! 2))
     else if argv ! 1 = ''appendToFile'' then
       (if argc \<noteq> 4 then usage (''Usage: appendToFile '' @ dq @ ''fileName'' @ dq @ '' '' @ dq @ ''new content'' @ dq @ nl) 46
        else appendToFile now (argv ! 2) (argv ! 3))
     else if argv ! 1 = ''deleteFile'' then
       (if argc \<noteq> 3 then usage (''Usage: deleteFile '' @ dq @ ''fileName'' @ dq @ nl) 30
        else deleteFile now (argv ! 2))
     else if argv ! 1 = ''deleteDir'' then
       (if argc \<noteq> 3 then usage (''Usage: deleteDir '' @ dq @ ''folderName'' @ dq @ nl) 31
        else deleteDir now (argv ! 2))
     else if argv ! 1 = ''showLogs'' then
       (if argc \<noteq> 2 then usage (''Usage: showLogs'' @ nl) 16
        else showLogs)
     else exit_with 0)"

end
