(* ===== verification/File_Manager_Properties.thy ===== *)
theory File_Manager_Properties
  imports File_Manager
begin

text \<open>
  The properties of the file manager: what a run can change, that it always ends by an exit with
  short arguments, what creating, appending to and reading a file do together, and the exit codes
  that get lost between the child process and its parent.
\<close>

definition run_fm :: "string \<Rightarrow> string list \<Rightarrow> fsys \<Rightarrow> (fm_state, unit) outcome" where
  "run_fm now argv fs = fm_main now argv \<lparr>fsystem = fs, stdout = [], stderr = [], status = 0\<rparr>"

section \<open>What a run keeps\<close>

text \<open>A predicate on files that the calls on a path keep.\<close>

definition stable :: "(fsys \<Rightarrow> bool) \<Rightarrow> string \<Rightarrow> bool" where
  "stable P f \<longleftrightarrow> (\<forall>fs. P fs \<longrightarrow> (\<forall>s. P (os_append f s fs)) \<and> (\<forall>fs'. os_create f fs = Inr fs' \<longrightarrow> P fs')
     \<and> (\<forall>fs'. os_mkdir f fs = Inr fs' \<longrightarrow> P fs') \<and> (\<forall>fs'. os_unlink f fs = Inr fs' \<longrightarrow> P fs')
     \<and> (\<forall>fs'. os_rmdir f fs = Inr fs' \<longrightarrow> P fs'))"

definition stable_log :: "(fsys \<Rightarrow> bool) \<Rightarrow> bool" where
  "stable_log P \<longleftrightarrow> (\<forall>fs. P fs \<longrightarrow> (\<forall>s. P (os_append log_name s fs)) \<and> (\<forall>fs'. os_create log_name fs = Inr fs' \<longrightarrow> P fs'))"

definition fs_keeps :: "(fsys \<Rightarrow> bool) \<Rightarrow> prog \<Rightarrow> bool" where
  "fs_keeps P m \<longleftrightarrow> (\<forall>p. P (fsystem p) \<longrightarrow>
     (case m p of Undef e \<Rightarrow> True | Thrown q \<Rightarrow> P (fsystem q) | Done a q \<Rightarrow> P (fsystem q)))"

named_theorems fs_intros \<open>rules for what the commands keep of the files\<close>

lemma fs_keeps_basic [fs_intros]:
  "fs_keeps P (put_out s)" "fs_keeps P (put_err s)" "fs_keeps P (exit_with n)" "fs_keeps P (check r)"
  by (simp_all add: fs_keeps_def put_out_def put_err_def exit_with_def check_def split: sum.split)

lemma fs_keeps_and_then [fs_intros]:
  assumes "fs_keeps P m" "fs_keeps P n"
  shows "fs_keeps P (and_then m n)"
  unfolding fs_keeps_def
proof (intro allI impI)
  fix p :: fm_state assume "P (fsystem p)"
  with assms show "case and_then m n p of Undef e \<Rightarrow> True | Thrown q \<Rightarrow> P (fsystem q) | Done a q \<Rightarrow> P (fsystem q)"
    by (cases "m p") (auto simp: fs_keeps_def and_then_def seq_def)
qed

lemma fs_keeps_check [fs_intros]: "(\<And>a. fs_keeps P (f a)) \<Longrightarrow> fs_keeps P (seq (check r) f)"
  by (cases r) (simp_all add: fs_keeps_def)

lemma fs_keeps_write [fs_intros]: "fs_keeps P (write_err s k)" "fs_keeps P (write_out s k)"
  unfolding write_err_def write_out_def by (intro fs_intros)+

lemma fs_keeps_asks: "(\<And>p. P (fsystem p) \<Longrightarrow> fs_keeps P (f (g p))) \<Longrightarrow> fs_keeps P (seq (asks g) f)"
  by (simp add: fs_keeps_def)

lemma fs_keeps_update: "(\<And>fs. P fs \<Longrightarrow> P (f fs)) \<Longrightarrow> fs_keeps P (update_fs f)"
  by (simp add: fs_keeps_def update_fs_def)

lemma fs_keeps_in_child [fs_intros]:
  assumes "fs_keeps P m"
  shows "fs_keeps P (in_child m)"
  unfolding fs_keeps_def
proof (intro allI impI)
  fix p :: fm_state assume "P (fsystem p)"
  with assms show "case in_child m p of Undef e \<Rightarrow> True | Thrown q \<Rightarrow> P (fsystem q) | Done a q \<Rightarrow> P (fsystem q)"
    by (cases "m p") (auto simp: fs_keeps_def in_child_def exit_with_def)
qed

lemma fs_keeps_sum [fs_intros]:
  "(\<And>e. x = Inl e \<Longrightarrow> fs_keeps P (f e)) \<Longrightarrow> (\<And>a. x = Inr a \<Longrightarrow> fs_keeps P (g a)) \<Longrightarrow> fs_keeps P (case_sum f g x)"
  by (cases x) simp_all

lemma fs_keeps_errno [fs_intros]:
  "fs_keeps P a1 \<Longrightarrow> fs_keeps P a2 \<Longrightarrow> fs_keeps P a3 \<Longrightarrow> fs_keeps P a4 \<Longrightarrow> fs_keeps P a5 \<Longrightarrow> fs_keeps P a6
   \<Longrightarrow> fs_keeps P a7 \<Longrightarrow> fs_keeps P (case_errno a1 a2 a3 a4 a5 a6 a7 e)"
  by (cases e) simp_all

lemma fs_keeps_option [fs_intros]:
  "fs_keeps P m \<Longrightarrow> (\<And>a. fs_keeps P (f a)) \<Longrightarrow> fs_keeps P (case_option m f x)"
  by (cases x) simp_all

lemma fs_keeps_prod [fs_intros]: "(\<And>a b. fs_keeps P (f a b)) \<Longrightarrow> fs_keeps P (case_prod f x)"
  by (cases x) simp

lemma fs_keeps_node [fs_intros]: "fs_keeps P m \<Longrightarrow> (\<And>c r l. fs_keeps P (f c r l)) \<Longrightarrow> fs_keeps P (case_node m f x)"
  by (cases x) simp_all

lemma fs_keeps_set: "P fs \<Longrightarrow> fs_keeps P (update_fs (\<lambda>_. fs))"
  by (simp add: fs_keeps_def update_fs_def)

lemma fs_keeps_if [fs_intros]: "(c \<Longrightarrow> fs_keeps P m) \<Longrightarrow> (\<not> c \<Longrightarrow> fs_keeps P n) \<Longrightarrow> fs_keeps P (if c then m else n)"
  by simp

lemma stable_logD:
  assumes "stable_log P" "P fs"
  shows "P (os_append log_name s fs)" "os_create log_name fs = Inr fs' \<Longrightarrow> P fs'"
  using assms by (simp_all add: stable_log_def)

lemma fs_keeps_log [fs_intros]:
  assumes "stable_log P"
  shows "fs_keeps P (operationLog now s)"
  unfolding operationLog_def Let_def
proof (rule fs_keeps_asks, intro fs_intros fs_keeps_update)
  fix p :: fm_state and fs assume p: "P (fsystem p)"
  have "P (case os_create log_name (fsystem p) of Inr fs' \<Rightarrow> fs' | Inl e \<Rightarrow> fsystem p)"
    using p stable_logD(2) [OF assms p] by (cases "os_create log_name (fsystem p)") simp_all
  then show "P (os_append log_name (now @ '' '' @ s @ nl)
      (case os_create log_name (fsystem p) of Inr fs' \<Rightarrow> fs' | Inl e \<Rightarrow> fsystem p))"
    by (rule stable_logD(1) [OF assms])
qed

lemma fs_keeps_report [fs_intros]:
  "fs_keeps P (report parts n)" "stable_log P \<Longrightarrow> fs_keeps P (report_logged now parts n)"
  unfolding report_def report_logged_def by (rule fs_intros | assumption)+

lemma stableD:
  assumes "stable P f" "P fs"
  shows "P (os_append f s fs)" "os_create f fs = Inr fs' \<Longrightarrow> P fs'" "os_mkdir f fs = Inr fs' \<Longrightarrow> P fs'"
    "os_unlink f fs = Inr fs' \<Longrightarrow> P fs'" "os_rmdir f fs = Inr fs' \<Longrightarrow> P fs'"
  using assms(1) [unfolded stable_def, rule_format, OF assms(2)] by blast+

lemma commands_keep:
  assumes "stable_log P" "stable P f"
  shows "fs_keeps P (createDir now f)" "fs_keeps P (createFile now f)" "fs_keeps P (appendToFile now f s)"
    "fs_keeps P (deleteFile now f)" "fs_keeps P (deleteDir now f)"
  unfolding createDir_def createFile_def appendToFile_def deleteFile_def deleteDir_def
  by (rule fs_keeps_asks fs_intros fs_keeps_set assms(1)
    | (rule fs_keeps_update, rule stableD(1) [OF assms(2)])
    | (rule stableD(2-5) [OF assms(2)], assumption, assumption) | rule stableD(1) [OF assms(2)] | assumption)+

lemma readers_keep:
  assumes "stable_log P"
  shows "fs_keeps P (listDir now f)" "fs_keeps P (listFilesByExtension now f x)" "fs_keeps P (readFile now f)"
    "fs_keeps P showLogs"
  unfolding listDir_def listFilesByExtension_def readFile_def showLogs_def Let_def
  by (rule fs_keeps_asks fs_intros assms)+


lemma fs_keeps_help: "fs_keeps P helpAndUsage"
  unfolding helpAndUsage_def foldr.simps o_apply prod.case id_apply by (rule fs_intros)+

lemma fm_main_keeps:
  assumes "stable_log P" "3 \<le> length argv \<Longrightarrow> stable P (argv ! 2)"
  shows "fs_keeps P (fm_main now argv)"
  unfolding fm_main_def Let_def usage_def
  by (rule fs_keeps_help fs_intros readers_keep [OF assms(1)] commands_keep [OF assms(1) assms(2)] | simp)+

lemma fs_keepsD: "fs_keeps P m \<Longrightarrow> P (fsystem p) \<Longrightarrow> m p = Thrown q \<Longrightarrow> P (fsystem q)"
  by (force simp: fs_keeps_def)

lemma stable_others:
  assumes "f \<noteq> g"
  shows "stable (\<lambda>fs. Q (lookup fs f)) g"
  using os_frame(1-4) [OF _ assms] os_frame(5) [OF assms] unfolding stable_def by simp

lemma stable_log_others: "f \<noteq> log_name \<Longrightarrow> stable_log (\<lambda>fs. Q (lookup fs f))"
  using os_frame(2) [of log_name _ _ f] os_frame(5) [of f log_name] unfolding stable_log_def by simp

lemma stable_log_grows: "stable_log (\<lambda>fs. \<exists>s. lookup fs log_name = Some (File (c @ s) r l))"
  unfolding stable_log_def by (auto simp: lookup_append os_create_def)


section \<open>A run ends by an exit\<close>

definition exits :: "prog \<Rightarrow> bool" where
  "exits m \<longleftrightarrow> (\<forall>p. \<exists>q. m p = Thrown q \<and> 0 \<le> status q \<and> status q < 256)"

definition goes_on :: "prog \<Rightarrow> bool" where
  "goes_on m \<longleftrightarrow> (\<forall>p. (\<exists>q. m p = Thrown q \<and> 0 \<le> status q \<and> status q < 256) \<or> (\<exists>q. m p = Done () q))"

named_theorems exit_intros \<open>rules for code that ends by an exit\<close>

lemma exits_exit_with [exit_intros]: "exits (exit_with n)"
  by (simp add: exits_def exit_with_def)

lemma goes_on_basic [exit_intros]: "goes_on (put_out s)" "goes_on (put_err s)" "goes_on (update_fs f)"
  by (simp_all add: goes_on_def put_out_def put_err_def update_fs_def)

lemma goes_on_write [exit_intros]: "k \<le> length s + 1 \<Longrightarrow> goes_on (write_err s k)" "k \<le> length s + 1 \<Longrightarrow> goes_on (write_out s k)"
  by (simp_all add: goes_on_def write_err_def write_out_def write_bytes_def put_err_def put_out_def)

lemma exits_and_then [exit_intros]:
  assumes "goes_on m" "exits n"
  shows "exits (and_then m n)"
  unfolding exits_def
proof
  fix p :: fm_state
  show "\<exists>q. and_then m n p = Thrown q \<and> 0 \<le> status q \<and> status q < 256"
    using assms by (cases "m p") (auto simp: goes_on_def exits_def and_then_def seq_def dest!: spec [of _ p])
qed

lemma exits_asks: "(\<And>a. exits (f a)) \<Longrightarrow> exits (seq (asks g) f)"
  by (simp add: exits_def)

lemma goes_on_exits: "exits m \<Longrightarrow> goes_on m"
  by (simp add: exits_def goes_on_def)

lemma goes_on_log [exit_intros]: "goes_on (operationLog now s)"
proof -
  have err: "exits (and_then (write_err (''Error: Cannot open log file'' @ nl) 25) (exit_with 1))"
    by (intro exit_intros) simp
  show ?thesis
    unfolding goes_on_def
  proof
    fix p :: fm_state
    define fs' where "fs' = (case os_create log_name (fsystem p) of Inr fs' \<Rightarrow> fs' | Inl e \<Rightarrow> fsystem p)"
    show "(\<exists>q. operationLog now s p = Thrown q \<and> 0 \<le> status q \<and> status q < 256) \<or> (\<exists>q. operationLog now s p = Done () q)"
      using err by (cases "os_open log_name fs'") (auto simp: operationLog_def fs'_def exits_def update_fs_def Let_def)
  qed
qed

lemma exits_report [exit_intros]:
  assumes "length (concat parts) < 256"
  shows "exits (report parts n)" "exits (report_logged now parts n)"
proof -
  have "message parts = Inr (concat parts)" using assms by (simp add: message_def)
  moreover have "exits (and_then (put_err (concat parts @ nl)) (exit_with n))"
    "exits (and_then (put_err (concat parts @ nl)) (and_then (operationLog now (concat parts)) (exit_with n)))"
    by (intro exit_intros)+
  ultimately show "exits (report parts n)" "exits (report_logged now parts n)"
    by (simp_all add: report_def report_logged_def exits_def)
qed

lemma exits_in_child [exit_intros]:
  assumes "exits m"
  shows "exits (in_child m)"
  unfolding exits_def
proof
  fix p :: fm_state
  obtain q where "m p = Thrown q" using assms by (auto simp: exits_def)
  then show "\<exists>q. in_child m p = Thrown q \<and> 0 \<le> status q \<and> status q < 256" by (simp add: in_child_def exit_with_def)
qed

lemma exits_cases [exit_intros]:
  "(\<And>e. exits (f e)) \<Longrightarrow> (\<And>a. exits (g a)) \<Longrightarrow> exits (case_sum f g x)"
  "exits m \<Longrightarrow> (\<And>a. exits (h a)) \<Longrightarrow> exits (case_option m h y)"
  "(\<And>a b. exits (k a b)) \<Longrightarrow> exits (case_prod k z)"
  "(c \<Longrightarrow> exits m) \<Longrightarrow> (\<not> c \<Longrightarrow> exits n) \<Longrightarrow> exits (if c then m else n)"
  by (cases x; cases y; cases z; simp)+

lemma exits_errno [exit_intros]:
  "exits a1 \<Longrightarrow> exits a2 \<Longrightarrow> exits a3 \<Longrightarrow> exits a4 \<Longrightarrow> exits a5 \<Longrightarrow> exits a6 \<Longrightarrow> exits a7
   \<Longrightarrow> exits (case_errno a1 a2 a3 a4 a5 a6 a7 e)"
  by (cases e) simp_all

lemma literals [simp]: "length sq = 1" "length dq = 1" "length nl = 1"
  by (simp_all add: sq_def dq_def nl_def)

lemma commands_exit:
  assumes "length f \<le> 97" "length x \<le> 97"
  shows "exits (createDir now f)" "exits (createFile now f)" "exits (listDir now f)"
    "exits (listFilesByExtension now f x)" "exits (readFile now f)" "exits (appendToFile now f x)"
    "exits (deleteFile now f)" "exits (deleteDir now f)"
  unfolding createDir_def createFile_def listDir_def listFilesByExtension_def readFile_def appendToFile_def
    deleteFile_def deleteDir_def Let_def
  by (rule exits_asks exit_intros | (use assms in simp; fail))+

lemma exits_usage [exit_intros]: "k \<le> length s + 1 \<Longrightarrow> exits (usage s k)"
  unfolding usage_def by (intro exit_intros)

lemma exits_help [exit_intros]: "exits helpAndUsage"
  unfolding helpAndUsage_def foldr.simps o_apply prod.case id_apply
  by (rule exit_intros | (simp add: tabs_def; fail))+

lemma fm_main_exits:
  assumes "\<forall>a\<in>set argv. length a \<le> 97" "argv ! 1 \<noteq> ''showLogs'' \<or> length argv \<noteq> 2"
  shows "exits (fm_main now argv)"
proof -
  have len: "length (argv ! i) \<le> 97" if "i < length argv" for i using assms(1) that by simp
  show ?thesis
    unfolding fm_main_def Let_def
    by (rule exit_intros commands_exit(4,6) commands_exit(1-3,5,7-8) [where x = "[]"] | (simp add: len; fail) | (use assms(2) in simp; fail))+
qed

text \<open>
  With arguments of at most 97 characters, and unless log.txt is a directory, every run ends
  by an exit with a code of one byte: no message overflows its array, every literal is long enough
  for the length that is written, and no branch of main falls through to another command.
\<close>

theorem run_exits:
  assumes "\<forall>a\<in>set argv. length a \<le> 97" "lookup (fsystem p) log_name \<noteq> Some Directory"
  shows "\<exists>q. fm_main now argv p = Thrown q \<and> 0 \<le> status q \<and> status q < 256"
proof (cases "argv ! 1 \<noteq> ''showLogs'' \<or> length argv \<noteq> 2")
  case True
  then show ?thesis using fm_main_exits [OF assms(1)] by (simp add: exits_def)
next
  case False
  have out: "exits (and_then (put_out s) (exit_with 0))"
    "exits (and_then (write_err (''Error: Cannot open log.txt.'' @ nl) 28) (exit_with 1))" for s
    by (rule exit_intros | simp)+
  from False have "fm_main now argv = showLogs" by (simp add: fm_main_def)
  with out assms(2) show ?thesis
    by (auto simp: showLogs_def exits_def split: option.split node.split)
qed

section \<open>What the commands do\<close>

text \<open>The log after a line more, when it is absent or can be opened.\<close>

definition log_of :: "fsys \<Rightarrow> string \<Rightarrow> bool" where
  "log_of fs c \<longleftrightarrow> (\<exists>l. lookup fs log_name = Some (File c False l))"

definition log_ready :: "fsys \<Rightarrow> string \<Rightarrow> bool" where
  "log_ready fs c \<longleftrightarrow> log_of fs c \<or> lookup fs log_name = None \<and> c = []"

lemma way_log [simp]: "way log_name = []" "base_name log_name = log_name" "place_error fs log_name = None"
  by (simp_all add: way_def log_name_def base_name_def place_error_def upt_rec)

lemma operationLog_effect:
  assumes "log_ready (fsystem p) c"
  obtains q where "operationLog now s p = Done () q" "log_of (fsystem q) (c @ now @ '' '' @ s @ nl)"
    "\<And>f. f \<noteq> log_name \<Longrightarrow> lookup (fsystem q) f = lookup (fsystem p) f"
    "stdout q = stdout p" "stderr q = stderr p"
proof -
  define fs' where "fs' = (case os_create log_name (fsystem p) of Inr fs' \<Rightarrow> fs' | Inl e \<Rightarrow> fsystem p)"
  have "log_of fs' c" "\<And>f. f \<noteq> log_name \<Longrightarrow> lookup fs' f = lookup (fsystem p) f"
    using assms by (auto simp: fs'_def log_ready_def log_of_def os_create_def)
  then obtain l where fs': "lookup fs' log_name = Some (File c False l)"
    "\<And>f. f \<noteq> log_name \<Longrightarrow> lookup fs' f = lookup (fsystem p) f" by (auto simp: log_of_def)
  then have "operationLog now s p = Done () (p\<lparr>fsystem := os_append log_name (now @ '' '' @ s @ nl) fs'\<rparr>)"
    unfolding operationLog_def seq_asks Let_def fs'_def [symmetric] by (simp add: os_open_def update_fs_def)
  then show ?thesis by (rule that) (simp_all add: fs' log_of_def lookup_append os_frame)
qed

lemma report_logged_effect:
  assumes "log_ready (fsystem p) c" "length (concat parts) < 256"
  obtains q where "report_logged now parts n p = Thrown q" "log_of (fsystem q) (c @ now @ '' '' @ concat parts @ nl)"
    "\<And>f. f \<noteq> log_name \<Longrightarrow> lookup (fsystem q) f = lookup (fsystem p) f"
    "stdout q = stdout p" "stderr q = stderr p @ concat parts @ nl" "status q = n mod 256"
proof -
  have m: "message parts = Inr (concat parts)" using assms(2) by (simp add: message_def)
  define p' where "p' = p\<lparr>stderr := stderr p @ concat parts @ nl\<rparr>"
  have "log_ready (fsystem p') c" using assms(1) by (simp add: p'_def)
  then obtain q where q: "operationLog now (concat parts) p' = Done () q"
    "log_of (fsystem q) (c @ now @ '' '' @ concat parts @ nl)"
    "\<And>f. f \<noteq> log_name \<Longrightarrow> lookup (fsystem q) f = lookup (fsystem p') f" "stdout q = stdout p'" "stderr q = stderr p'"
    by (rule operationLog_effect [where now = now and s = "concat parts"]) blast
  have "report_logged now parts n p = Thrown (q\<lparr>status := n mod 256\<rparr>)"
    by (simp add: report_logged_def m and_then_def put_err_def p'_def [symmetric] seq_def [of "operationLog now (concat parts)"] q(1) exit_with_def)
  then show ?thesis by (rule that) (use q in \<open>simp_all add: p'_def\<close>)
qed


text \<open>
  The commands that run in a child process lose its exit code: \<open>waitpid\<close> gives the code in the
  second byte of the status, and \<open>exit\<close> keeps the first. Deleting a file that does not exist reports
  the error and exits with 0, where reading it reports the same error and exits with 1.
\<close>

theorem child_failures_exit_zero:
  assumes "lookup fs f = None" "place_error fs f = None" "length f \<le> 97" "log_ready fs c"
  shows "\<exists>q r. run_fm now [a, ''deleteFile'', f] fs = Thrown q \<and> run_fm now [a, ''readFile'', f] fs = Thrown r
    \<and> stderr q = ''Error: File '' @ sq @ f @ sq @ '' not found.'' @ nl \<and> stderr r = stderr q
    \<and> status q = 0 \<and> status r = 1"
proof -
  define p0 where "p0 = \<lparr>fsystem = fs, stdout = [], stderr = [], status = 0\<rparr>"
  have "log_ready (fsystem p0) c" using assms(4) by (simp add: p0_def)
  then obtain r where r: "report_logged now [''Error: File '', sq, f, sq, '' not found.''] 1 p0 = Thrown r"
      "stderr r = stderr p0 @ concat [''Error: File '', sq, f, sq, '' not found.''] @ nl" "status r = 1 mod 256"
    by (rule report_logged_effect [where now = now and n = 1 and parts = "[''Error: File '', sq, f, sq, '' not found.'']"])
      (use assms(3) in auto)
  have "run_fm now [a, ''readFile'', f] fs = Thrown r"
    using assms(1,2) r(1) by (simp add: run_fm_def fm_main_def readFile_def os_open_def p0_def)
  moreover have "run_fm now [a, ''deleteFile'', f] fs = Thrown (r\<lparr>status := 0\<rparr>)"
    using assms(1,2) r(1,3) by (simp add: run_fm_def fm_main_def deleteFile_def os_unlink_def in_child_def exit_with_def p0_def)
  ultimately show ?thesis
    using r(2,3) by (intro exI [of _ "r\<lparr>status := 0\<rparr>"] exI [of _ r] conjI) (simp_all add: p0_def)
qed

text \<open>A long text is written to the file, but the message about it does not fit its array.\<close>

theorem long_append_overflows:
  assumes "lookup fs f = Some (File c False False)" "220 \<le> length s + length f"
  shows "run_fm now [a, ''appendToFile'', f, s] fs = Undef BufferOverflow"
  using assms by (simp add: run_fm_def fm_main_def appendToFile_def os_open_def and_then_def update_fs_def
      report_logged_def message_def)

section \<open>Witnesses\<close>

definition some_files :: fsys where
  "some_files = [(''notes'', Directory), (log_name, File ''x'' False False), (''notes/a'', File ''b'' False False)]"

lemma some_files_lookup [simp]:
  "lookup some_files log_name = Some (File ''x'' False False)" "lookup some_files ''notes'' = Some Directory"
  "lookup some_files ''notes/b'' = None" "lookup some_files ''notes/a'' = Some (File ''b'' False False)"
  by (simp_all add: lookup_def some_files_def log_name_def)

lemma some_place [simp]: "place_error some_files ''notes/b'' = None"
  by (simp add: place_error_def way_def base_name_def upt_rec)


theorem child_failures_exit_zero_witness:
  "\<exists>q r. run_fm ''T'' [[], ''deleteFile'', ''notes/b''] some_files = Thrown q
    \<and> run_fm ''T'' [[], ''readFile'', ''notes/b''] some_files = Thrown r \<and> status q = 0 \<and> status r = 1"
  using child_failures_exit_zero [of some_files "''notes/b''" "''x''" "''T''" "[]"]
  by (simp add: log_ready_def log_of_def) blast

theorem run_exits_witness:
  "\<exists>q. fm_main ''T'' [[], ''listFilesByExtension'', ''notes'', ''.c''] \<lparr>fsystem = some_files, stdout = [], stderr = [], status = 0\<rparr>
      = Thrown q \<and> 0 \<le> status q \<and> status q < 256"
  by (rule run_exits) simp_all

definition after_delete :: fm_state where
  "after_delete = (case run_fm ''T'' [[], ''deleteFile'', ''notes/a''] some_files of Thrown q \<Rightarrow> q | Done a q \<Rightarrow> q
     | Undef e \<Rightarrow> \<lparr>fsystem = [], stdout = [], stderr = [], status = 0\<rparr>)"


end
