(* ===== verification/Circuit.thy ===== *)
theory Circuit
  imports C_Text
begin

text \<open>
  The logic circuit simulator (Computer Programming Fall/PA7/PA7.c): a netlist is read into an
  array of gates that point to one another, and evaluated for every line of an input file. A
  pointer to a gate is its place in the array; a field that is not assigned yet is None. The
  functions that follow the pointers need not end, so they have fuel: None is running out of it.
\<close>

datatype gate_type = INPUT | OUTPUT | AND | OR | NOT | FLIPFLOP

record gate =
  gtype :: "gate_type option"
  gname :: string
  inp1 :: "nat option"
  inp2 :: "nat option"
  goutput :: "int option"
  former_out :: "int option"
  flag :: "int option"

type_synonym gates = "gate option list"

section \<open>Building the circuit\<close>

definition malloc_gate :: "string \<Rightarrow> gate" where
  "malloc_gate nm = \<lparr>gtype = None, gname = nm, inp1 = None, inp2 = None, goutput = None, former_out = None, flag = None\<rparr>"

definition set_type :: "string \<Rightarrow> gate \<Rightarrow> gate" where
  "set_type gate_type g0 =
     (let g = g0\<lparr>inp1 := None, inp2 := None\<rparr> in
      if gate_type = ''INPUT'' then g\<lparr>gtype := Some INPUT\<rparr>
      else if gate_type = ''OUTPUT'' then g\<lparr>gtype := Some OUTPUT\<rparr>
      else if gate_type = ''AND'' then g\<lparr>gtype := Some AND, flag := Some (- 1)\<rparr>
      else if gate_type = ''OR'' then g\<lparr>gtype := Some OR, flag := Some (- 1)\<rparr>
      else if gate_type = ''NOT'' then g\<lparr>gtype := Some NOT\<rparr>
      else if gate_type = ''FLIPFLOP'' then g\<lparr>gtype := Some FLIPFLOP, former_out := Some 0, flag := Some (- 1)\<rparr>
      else g)"

definition init :: "'a option \<Rightarrow> 'a res" where
  "init v = (case v of None \<Rightarrow> Inl UninitRead | Some a \<Rightarrow> Inr a)"

text \<open>\<open>*gate_arr [i]\<close>.\<close>

definition gate_at :: "gates \<Rightarrow> nat \<Rightarrow> gate res" where
  "gate_at gs i = rbind (rd gs i) init"

text \<open>The search of \<open>connection\<close>: the last gate of each name; a gate called as the first is not tried for the second.\<close>

fun find_ends :: "string \<Rightarrow> string \<Rightarrow> gates \<Rightarrow> nat list \<Rightarrow> nat option \<times> nat option \<Rightarrow> (nat option \<times> nat option) res" where
  "find_ends from_gate to_gate gs [] found = Inr found"
| "find_ends from_gate to_gate gs (i # is) found =
     rbind (gate_at gs i) (\<lambda>g.
       find_ends from_gate to_gate gs is
         (if gname g = from_gate then (Some i, snd found)
          else if gname g = to_gate then (fst found, Some i) else found))"

definition link :: "nat \<Rightarrow> nat \<Rightarrow> gates \<Rightarrow> gates res" where
  "link f t gs =
     rbind (gate_at gs t) (\<lambda>g.
     rbind (init (gtype g)) (\<lambda>ty.
       if ty = AND \<or> ty = OR
       then rbind (init (flag g)) (\<lambda>fl.
         if fl = - 1 then wr gs t (Some (g\<lparr>inp1 := Some f, flag := Some 0\<rparr>))
         else wr gs t (Some (g\<lparr>inp2 := Some f\<rparr>)))
       else wr gs t (Some (g\<lparr>inp1 := Some f\<rparr>))))"

definition connection :: "string \<Rightarrow> string \<Rightarrow> gates \<Rightarrow> gates res" where
  "connection from_gate to_gate gs =
     rbind (find_ends from_gate to_gate gs [0..<length gs] (None, None)) (\<lambda>found.
       case found of
         (Some f, Some t) \<Rightarrow> link f t gs
       | _ \<Rightarrow> Inr gs)"

text \<open>\<open>sscanf (line, "%s %s %s", ...)\<close> into arrays of the given sizes.\<close>

definition scan_words :: "nat list \<Rightarrow> string \<Rightarrow> string list res" where
  "scan_words sizes line =
     (let ws = take (length sizes) (tokenize line) in
      if list_all2 (\<lambda>n w. length w < n) (take (length ws) sizes) ws then Inr ws else Inl BufferOverflow)"

fun read_gates :: "string list \<Rightarrow> nat \<Rightarrow> gates \<Rightarrow> gates res" where
  "read_gates [] pos gs = Inr gs"
| "read_gates (l # ls) pos gs =
     rbind (scan_words [15, 15, 20] l) (\<lambda>ws.
       case ws of
         [keyword, gate_type, nm] \<Rightarrow>
           (if keyword = ''GATE''
            then rbind (wr gs pos (Some (set_type gate_type (malloc_gate nm)))) (read_gates ls (pos + 1))
            else read_gates ls pos gs)
       | _ \<Rightarrow> read_gates ls pos gs)"

fun read_connections :: "string list \<Rightarrow> gates \<Rightarrow> gates res" where
  "read_connections [] gs = Inr gs"
| "read_connections (l # ls) gs =
     rbind (scan_words [15, 15, 15] l) (\<lambda>ws.
       case ws of
         [keyword, from_gate, to_gate] \<Rightarrow>
           (if keyword = ''CONNECTION'' then rbind (connection from_gate to_gate gs) (read_connections ls)
            else read_connections ls gs)
       | _ \<Rightarrow> read_connections ls gs)"

text \<open>The file is there: \<open>main\<close> has closed NULL otherwise.\<close>

definition create_circuit :: "string \<Rightarrow> gates \<Rightarrow> gates res" where
  "create_circuit txt gs =
     rbind (read_gates (fgets_lines 100 txt) 0 gs) (read_connections (fgets_lines 100 txt))"

section \<open>Evaluation\<close>

type_synonym 'a run = "'a res option"

definition obind :: "'a run \<Rightarrow> ('a \<Rightarrow> 'b run) \<Rightarrow> 'b run" where
  "obind m f = (case m of None \<Rightarrow> None | Some (Inl e) \<Rightarrow> Some (Inl e) | Some (Inr a) \<Rightarrow> f a)"

definition set_former :: "nat \<Rightarrow> int \<Rightarrow> gates \<Rightarrow> gates" where
  "set_former i v gs = gs[i := map_option (\<lambda>g. g\<lparr>former_out := Some v\<rparr>) (gs ! i)]"

text \<open>The operators of C: an int that is not 0 is true, and the right operand may not be evaluated.\<close>

fun evaluate :: "nat \<Rightarrow> nat option \<Rightarrow> gates \<Rightarrow> (int \<times> gates) run" where
  "evaluate 0 p gs = None"
| "evaluate (Suc n) None gs = Some (Inl NullDeref)"
| "evaluate (Suc n) (Some i) gs =
     obind (Some (gate_at gs i)) (\<lambda>g.
     obind (Some (init (gtype g))) (\<lambda>ty.
       case ty of
         INPUT \<Rightarrow> obind (Some (init (goutput g))) (\<lambda>v. Some (Inr (v, gs)))
       | AND \<Rightarrow> obind (evaluate n (inp1 g) gs) (\<lambda>(a, gs1).
           if a = 0 then Some (Inr (0, gs1))
           else obind (evaluate n (inp2 g) gs1) (\<lambda>(b, gs2). Some (Inr (if b = 0 then 0 else 1, gs2))))
       | OR \<Rightarrow> obind (evaluate n (inp1 g) gs) (\<lambda>(a, gs1).
           if a \<noteq> 0 then Some (Inr (1, gs1))
           else obind (evaluate n (inp2 g) gs1) (\<lambda>(b, gs2). Some (Inr (if b = 0 then 0 else 1, gs2))))
       | NOT \<Rightarrow> obind (evaluate n (inp1 g) gs) (\<lambda>(a, gs1). Some (Inr (if a = 0 then 1 else 0, gs1)))
       | FLIPFLOP \<Rightarrow> obind (Some (init (flag g))) (\<lambda>fl.
           obind (Some (init (former_out g))) (\<lambda>former.
             if fl = - 1
             then obind (evaluate n (inp1 g) gs) (\<lambda>(a, gs1).
               let v = (if former = 0 then a else if a = 0 then 1 else 0) in Some (Inr (v, set_former i v gs1)))
             else Some (Inr (former, gs))))
       | OUTPUT \<Rightarrow> obind (Some (init (former_out g))) (\<lambda>v. Some (Inr (v, gs)))))"

section \<open>The input file\<close>

fun find_output :: "gates \<Rightarrow> nat list \<Rightarrow> nat option res" where
  "find_output gs [] = Inr None"
| "find_output gs (i # is) =
     rbind (gate_at gs i) (\<lambda>g. rbind (init (gtype g)) (\<lambda>ty.
       if ty = OUTPUT then Inr (Some i) else find_output gs is))"

text \<open>The digits of a line; only those that were assigned may be read.\<close>

definition line_digits :: "string \<Rightarrow> int list" where
  "line_digits line = map (\<lambda>c. if c = CHR ''1'' then 1 else 0) (filter (\<lambda>c. c = CHR ''0'' \<or> c = CHR ''1'') line)"

fun set_inputs :: "int list \<Rightarrow> nat list \<Rightarrow> gates \<Rightarrow> gates res" where
  "set_inputs ds [] gs = Inr gs"
| "set_inputs ds (i # is) gs =
     rbind (gate_at gs i) (\<lambda>g. rbind (init (gtype g)) (\<lambda>ty.
       if ty = INPUT
       then (case ds of [] \<Rightarrow> Inl UninitRead | d # ds' \<Rightarrow> set_inputs ds' is (gs[i := Some (g\<lparr>goutput := Some d\<rparr>)]))
       else set_inputs ds is gs))"

text \<open>One round of the loop of \<open>operations\<close>, and the loop: the results that are printed.\<close>

definition simulate_line :: "nat \<Rightarrow> nat option \<Rightarrow> string \<Rightarrow> gates \<Rightarrow> (int \<times> gates) run" where
  "simulate_line n outputptr line gs =
     obind (Some (set_inputs (line_digits line) [0..<length gs] gs)) (\<lambda>gs1.
       case outputptr of
         None \<Rightarrow> Some (Inl NullDeref)
       | Some t \<Rightarrow> obind (Some (gate_at gs1 t)) (\<lambda>g. evaluate n (inp1 g) gs1))"

fun simulate_lines :: "nat \<Rightarrow> nat option \<Rightarrow> string list \<Rightarrow> gates \<Rightarrow> (int list \<times> gates) run" where
  "simulate_lines n outputptr [] gs = Some (Inr ([], gs))"
| "simulate_lines n outputptr (l # ls) gs =
     obind (simulate_line n outputptr l gs) (\<lambda>(v, gs1).
     obind (simulate_lines n outputptr ls gs1) (\<lambda>(vs, gs2). Some (Inr (v # vs, gs2))))"

text \<open>A file that cannot be opened is closed nevertheless.\<close>

definition operations :: "nat \<Rightarrow> string option \<Rightarrow> gates \<Rightarrow> (int list \<times> gates) run" where
  "operations n input_txt gs = (case input_txt of
      None \<Rightarrow> Some (Inl NullDeref)
    | Some txt \<Rightarrow> obind (Some (find_output gs [0..<length gs])) (\<lambda>out. simulate_lines n out (fgets_lines 100 txt) gs))"

section \<open>Deallocation and main\<close>

text \<open>\<open>free_circuit2\<close> frees nothing, but it reads every gate it comes to; dead are the gates that are freed.\<close>

fun free_circuit2 :: "nat \<Rightarrow> nat set \<Rightarrow> nat option \<Rightarrow> gates \<Rightarrow> unit run" where
  "free_circuit2 0 dead p gs = None"
| "free_circuit2 (Suc n) dead None gs = Some (Inr ())"
| "free_circuit2 (Suc n) dead (Some i) gs =
     (if i \<in> dead then Some (Inl UseAfterFree)
      else obind (Some (gate_at gs i)) (\<lambda>g.
        obind (free_circuit2 n dead (inp1 g) gs) (\<lambda>_. free_circuit2 n dead (inp2 g) gs)))"

fun free_loop :: "nat \<Rightarrow> nat list \<Rightarrow> nat set \<Rightarrow> gates \<Rightarrow> unit run" where
  "free_loop n [] dead gs = Some (Inr ())"
| "free_loop n (i # is) dead gs =
     obind (Some (gate_at gs i)) (\<lambda>g.
     obind (free_circuit2 n dead (Some i) gs) (\<lambda>_. free_loop n is (insert i dead) gs))"

definition free_circuit :: "nat \<Rightarrow> gates \<Rightarrow> unit run" where
  "free_circuit n gs = free_loop n [0..<length gs] {} gs"

text \<open>
  The count of the gates: the lines that start with G, where an empty line takes the next line
  with it, and where the character 255 is EOF in a char.
\<close>

function count_gates :: "string \<Rightarrow> nat" where
  "count_gates [] = 0"
| "count_gates (ch # cs) =
     (if ch = CHR 0xFF then 0
      else (if ch = CHR ''G'' then 1 else 0) + count_gates (drop 1 (dropWhile (\<lambda>c. c \<noteq> LF \<and> c \<noteq> CHR 0xFF) cs)))"
  by pat_completeness auto
termination
  by (relation "measure length") (auto simp: less_Suc_eq_le intro: le_trans [OF diff_le_self] length_dropWhile_le)

definition circuit_main :: "nat \<Rightarrow> string option \<Rightarrow> string option \<Rightarrow> int list run" where
  "circuit_main n circuit_txt input_txt = (case circuit_txt of
      None \<Rightarrow> Some (Inl NullDeref)
    | Some txt \<Rightarrow>
        obind (Some (create_circuit txt (replicate (count_gates txt) None))) (\<lambda>gs.
        obind (operations n input_txt gs) (\<lambda>(vs, gs1).
        obind (free_circuit n gs1) (\<lambda>_. Some (Inr vs)))))"

end
