(* ===== verification/Circuit_Semantics.thy ===== *)
theory Circuit_Semantics
  imports Circuit
begin

text \<open>
  What a circuit computes: the formula that the gates below a pointer stand for, its value as the
  code finds it, with the state of the flip-flops, and the clocked value it should have.
\<close>

section \<open>Formulas\<close>

datatype formula = Input nat | And formula formula | Or formula formula | Not formula | Flip nat formula

fun depth :: "formula \<Rightarrow> nat" where
  "depth (Input i) = 1"
| "depth (And a b) = Suc (max (depth a) (depth b))"
| "depth (Or a b) = Suc (max (depth a) (depth b))"
| "depth (Not a) = Suc (depth a)"
| "depth (Flip i a) = Suc (depth a)"

text \<open>The value for given inputs, with the flip-flops before and after.\<close>

fun run_formula :: "(nat \<Rightarrow> bool) \<Rightarrow> formula \<Rightarrow> (nat \<Rightarrow> bool) \<Rightarrow> bool \<times> (nat \<Rightarrow> bool)" where
  "run_formula inp (Input i) m = (inp i, m)"
| "run_formula inp (And a b) m = (let (x, m1) = run_formula inp a m in if x then run_formula inp b m1 else (False, m1))"
| "run_formula inp (Or a b) m = (let (x, m1) = run_formula inp a m in if x then (True, m1) else run_formula inp b m1)"
| "run_formula inp (Not a) m = (let (x, m1) = run_formula inp a m in (\<not> x, m1))"
| "run_formula inp (Flip i a) m = (let (x, m1) = run_formula inp a m in (m i \<noteq> x, m1(i := (m i \<noteq> x))))"

inductive represents :: "gates \<Rightarrow> nat \<Rightarrow> formula \<Rightarrow> bool" for gs where
  rep_input: "gate_at gs i = Inr g \<Longrightarrow> gtype g = Some INPUT \<Longrightarrow> represents gs i (Input i)"
| rep_and: "gate_at gs i = Inr g \<Longrightarrow> gtype g = Some AND \<Longrightarrow> inp1 g = Some j \<Longrightarrow> inp2 g = Some k
    \<Longrightarrow> represents gs j a \<Longrightarrow> represents gs k b \<Longrightarrow> represents gs i (And a b)"
| rep_or: "gate_at gs i = Inr g \<Longrightarrow> gtype g = Some OR \<Longrightarrow> inp1 g = Some j \<Longrightarrow> inp2 g = Some k
    \<Longrightarrow> represents gs j a \<Longrightarrow> represents gs k b \<Longrightarrow> represents gs i (Or a b)"
| rep_not: "gate_at gs i = Inr g \<Longrightarrow> gtype g = Some NOT \<Longrightarrow> inp1 g = Some j \<Longrightarrow> represents gs j a \<Longrightarrow> represents gs i (Not a)"
| rep_flip: "gate_at gs i = Inr g \<Longrightarrow> gtype g = Some FLIPFLOP \<Longrightarrow> inp1 g = Some j \<Longrightarrow> represents gs j a
    \<Longrightarrow> represents gs i (Flip i a)"

text \<open>The values in the gates, and the part of the gates that stays as it is.\<close>

definition holds_values :: "gates \<Rightarrow> (nat \<Rightarrow> bool) \<Rightarrow> (nat \<Rightarrow> bool) \<Rightarrow> bool" where
  "holds_values gs inp m \<longleftrightarrow> (\<forall>i g. gate_at gs i = Inr g \<longrightarrow>
     (gtype g = Some INPUT \<longrightarrow> goutput g = Some (of_bool (inp i)))
     \<and> (gtype g = Some FLIPFLOP \<longrightarrow> flag g = Some (- 1) \<and> former_out g = Some (of_bool (m i))))"

definition wiring :: "gates \<Rightarrow> gates" where
  "wiring gs = map (map_option (\<lambda>g. g\<lparr>goutput := None, former_out := None\<rparr>)) gs"

lemma gate_at_Inr: "gate_at gs i = Inr g \<longleftrightarrow> i < length gs \<and> gs ! i = Some g"
  by (auto simp: gate_at_def rd_def init_def split: option.splits)

lemma wiring_length: "wiring gs = wiring gs' \<Longrightarrow> length gs = length gs'"
  by (metis length_map wiring_def)

lemma wiring_gate:
  assumes "wiring gs = wiring gs'" "gate_at gs i = Inr g"
  obtains g' where "gate_at gs' i = Inr g'" "gtype g' = gtype g" "inp1 g' = inp1 g" "inp2 g' = inp2 g" "flag g' = flag g"
proof -
  have i: "i < length gs" "i < length gs'" "gs ! i = Some g" using assms(2) wiring_length [OF assms(1)] by (simp_all add: gate_at_Inr)
  have "wiring gs ! i = wiring gs' ! i" using assms(1) by simp
  then have "map_option (\<lambda>g. g\<lparr>goutput := None, former_out := None\<rparr>) (gs' ! i) = Some (g\<lparr>goutput := None, former_out := None\<rparr>)"
    using i by (simp add: wiring_def)
  then obtain g' where g': "gs' ! i = Some g'" "g'\<lparr>goutput := None, former_out := None\<rparr> = g\<lparr>goutput := None, former_out := None\<rparr>"
    by auto
  then have "gtype g' = gtype g" "inp1 g' = inp1 g" "inp2 g' = inp2 g" "flag g' = flag g"
    by (cases g; cases g'; simp)+
  with g'(1) i(2) show ?thesis by (intro that [of g']) (simp_all add: gate_at_Inr)
qed

lemma represents_wiring:
  assumes "represents gs i e" "wiring gs = wiring gs'"
  shows "represents gs' i e"
  using assms(1)
proof (induction rule: represents.induct)
  case (rep_input i g)
  with wiring_gate [OF assms(2) rep_input(1)] show ?case by (metis represents.rep_input)
next
  case (rep_and i g j k a b)
  with wiring_gate [OF assms(2) rep_and(1)] show ?case by (metis represents.rep_and)
next
  case (rep_or i g j k a b)
  with wiring_gate [OF assms(2) rep_or(1)] show ?case by (metis represents.rep_or)
next
  case (rep_not i g j a)
  with wiring_gate [OF assms(2) rep_not(1)] show ?case by (metis represents.rep_not)
next
  case (rep_flip i g j a)
  with wiring_gate [OF assms(2) rep_flip(1)] show ?case by (metis represents.rep_flip)
qed

lemma gate_at_set_former:
  "gate_at (set_former i v gs) j = (if j = i then map_sum id (\<lambda>g. g\<lparr>former_out := Some v\<rparr>) (gate_at gs j) else gate_at gs j)"
  by (auto simp: gate_at_def set_former_def rd_def init_def split: option.splits)

lemma wiring_set_former [simp]: "wiring (set_former i v gs) = wiring gs"
proof (rule nth_equalityI)
  fix j assume "j < length (wiring (set_former i v gs))"
  then show "wiring (set_former i v gs) ! j = wiring gs ! j"
    by (cases "j = i"; cases "gs ! j") (simp_all add: wiring_def set_former_def)
qed (simp add: wiring_def set_former_def)

lemma holds_values_former:
  assumes "holds_values gs inp m" "gate_at gs i = Inr g" "gtype g = Some FLIPFLOP"
  shows "holds_values (set_former i (of_bool b) gs) inp (m(i := b))"
  using assms unfolding holds_values_def by (auto simp: gate_at_set_former)

lemma obind_simps [simp]: "obind None f = None" "obind (Some (Inl e)) f = Some (Inl e)" "obind (Some (Inr a)) f = f a"
  by (simp_all add: obind_def)

lemma init_simps [simp]: "init (Some a) = Inr a" "init None = Inl UninitRead"
  by (simp_all add: init_def)

section \<open>Evaluation computes the value\<close>

definition computes :: "gates \<Rightarrow> (nat \<Rightarrow> bool) \<Rightarrow> formula \<Rightarrow> (nat \<Rightarrow> bool) \<Rightarrow> (int \<times> gates) run \<Rightarrow> bool" where
  "computes gs inp e m r \<longleftrightarrow> (\<exists>gs'. r = Some (Inr (of_bool (fst (run_formula inp e m)), gs'))
     \<and> holds_values gs' inp (snd (run_formula inp e m)) \<and> wiring gs' = wiring gs)"

lemma evaluate_computes:
  "represents gs0 i e \<Longrightarrow> wiring gs = wiring gs0 \<Longrightarrow> holds_values gs inp m \<Longrightarrow> depth e \<le> n
   \<Longrightarrow> computes gs inp e m (evaluate n (Some i) gs)"
proof (induction arbitrary: gs m n rule: represents.induct)
  case (rep_input i g)
  obtain g' where g': "gate_at gs i = Inr g'" "gtype g' = Some INPUT"
    using wiring_gate [OF rep_input.prems(1) [symmetric] rep_input.hyps(1)] rep_input.hyps by metis
  moreover obtain k where "n = Suc k" using rep_input.prems(3) by (cases n) auto
  moreover have "goutput g' = Some (of_bool (inp i))" using rep_input.prems(2) g' by (auto simp: holds_values_def)
  ultimately show ?case using rep_input.prems by (simp add: computes_def)
next
  case (rep_and i g j k a b)
  obtain g' where g': "gate_at gs i = Inr g'" "gtype g' = Some AND" "inp1 g' = Some j" "inp2 g' = Some k"
    using wiring_gate [OF rep_and.prems(1) [symmetric] rep_and.hyps(1)] rep_and.hyps by metis
  obtain n' where n': "n = Suc n'" "depth a \<le> n'" "depth b \<le> n'" using rep_and.prems(3) by (cases n) auto
  from rep_and.IH(1) [OF rep_and.prems(1,2) n'(2)]
  obtain gs1 where a: "evaluate n' (Some j) gs = Some (Inr (of_bool (fst (run_formula inp a m)), gs1))"
    "holds_values gs1 inp (snd (run_formula inp a m))" "wiring gs1 = wiring gs" by (auto simp: computes_def)
  from rep_and.IH(2) [OF _ a(2) n'(3)] a(3) rep_and.prems(1)
  have b: "computes gs1 inp b (snd (run_formula inp a m)) (evaluate n' (Some k) gs1)" by simp
  show ?case
    using a b g' n'(1) by (cases "fst (run_formula inp a m)") (auto simp: computes_def split_def Let_def)
next
  case (rep_or i g j k a b)
  obtain g' where g': "gate_at gs i = Inr g'" "gtype g' = Some OR" "inp1 g' = Some j" "inp2 g' = Some k"
    using wiring_gate [OF rep_or.prems(1) [symmetric] rep_or.hyps(1)] rep_or.hyps by metis
  obtain n' where n': "n = Suc n'" "depth a \<le> n'" "depth b \<le> n'" using rep_or.prems(3) by (cases n) auto
  from rep_or.IH(1) [OF rep_or.prems(1,2) n'(2)]
  obtain gs1 where a: "evaluate n' (Some j) gs = Some (Inr (of_bool (fst (run_formula inp a m)), gs1))"
    "holds_values gs1 inp (snd (run_formula inp a m))" "wiring gs1 = wiring gs" by (auto simp: computes_def)
  from rep_or.IH(2) [OF _ a(2) n'(3)] a(3) rep_or.prems(1)
  have b: "computes gs1 inp b (snd (run_formula inp a m)) (evaluate n' (Some k) gs1)" by simp
  show ?case
    using a b g' n'(1) by (cases "fst (run_formula inp a m)") (auto simp: computes_def split_def Let_def)
next
  case (rep_not i g j a)
  obtain g' where g': "gate_at gs i = Inr g'" "gtype g' = Some NOT" "inp1 g' = Some j"
    using wiring_gate [OF rep_not.prems(1) [symmetric] rep_not.hyps(1)] rep_not.hyps by metis
  obtain n' where n': "n = Suc n'" "depth a \<le> n'" using rep_not.prems(3) by (cases n) auto
  from rep_not.IH [OF rep_not.prems(1,2) n'(2)] g' n'(1) show ?case by (auto simp: computes_def split_def Let_def)
next
  case (rep_flip i g j a)
  obtain g' where g': "gate_at gs i = Inr g'" "gtype g' = Some FLIPFLOP" "inp1 g' = Some j"
    using wiring_gate [OF rep_flip.prems(1) [symmetric] rep_flip.hyps(1)] rep_flip.hyps by metis
  have f: "flag g' = Some (- 1)" "former_out g' = Some (of_bool (m i))"
    using rep_flip.prems(2) g' by (auto simp: holds_values_def)
  obtain n' where n': "n = Suc n'" "depth a \<le> n'" using rep_flip.prems(3) by (cases n) auto
  from rep_flip.IH [OF rep_flip.prems(1,2) n'(2)]
  obtain gs1 where a: "evaluate n' (Some j) gs = Some (Inr (of_bool (fst (run_formula inp a m)), gs1))"
    "holds_values gs1 inp (snd (run_formula inp a m))" "wiring gs1 = wiring gs" by (auto simp: computes_def)
  define b where "b = (m i \<noteq> fst (run_formula inp a m))"
  obtain g1 where g1: "gate_at gs1 i = Inr g1" "gtype g1 = Some FLIPFLOP" using wiring_gate [OF a(3) [symmetric] g'(1)] g'(2) by metis
  have "evaluate n (Some i) gs = Some (Inr (of_bool b, set_former i (of_bool b) gs1))"
    using g' f n'(1) a(1) by (auto simp: b_def Let_def)
  moreover have "holds_values (set_former i (of_bool b) gs1) inp ((snd (run_formula inp a m))(i := b))"
    by (rule holds_values_former [OF a(2) g1])
  ultimately show ?case using a(3) by (simp add: computes_def split_def Let_def b_def)
qed

section \<open>The lines of the input file\<close>

definition gate_of :: "gates \<Rightarrow> gate_type \<Rightarrow> nat \<Rightarrow> bool" where
  "gate_of gs ty i = (case gate_at gs i of Inl e \<Rightarrow> False | Inr g \<Rightarrow> gtype g = Some ty)"

text \<open>Every gate is allocated and has a type.\<close>

definition typed :: "gates \<Rightarrow> bool" where
  "typed gs \<longleftrightarrow> (\<forall>i < length gs. \<exists>g. gate_at gs i = Inr g \<and> gtype g \<noteq> None)"

definition line_bits :: "string \<Rightarrow> bool list" where
  "line_bits line = map (\<lambda>c. c = CHR ''1'') (filter (\<lambda>c. c = CHR ''0'' \<or> c = CHR ''1'') line)"

text \<open>The bits of a line go to the input gates in their order in the file.\<close>

definition input_gates :: "gates \<Rightarrow> nat list" where
  "input_gates gs = filter (gate_of gs INPUT) [0..<length gs]"

definition line_inputs :: "gates \<Rightarrow> string \<Rightarrow> nat \<Rightarrow> bool" where
  "line_inputs gs line i = (map_of (zip (input_gates gs) (line_bits line)) i = Some True)"

lemma line_digits_bits: "line_digits line = map of_bool (line_bits line)"
  by (simp add: line_digits_def line_bits_def)

lemma gate_of_wiring: "wiring gs = wiring gs' \<Longrightarrow> gate_of gs = gate_of gs'"
proof (intro ext)
  fix ty i assume w: "wiring gs = wiring gs'"
  show "gate_of gs ty i = gate_of gs' ty i"
  proof (cases "gate_at gs i")
    case (Inr g)
    then obtain g' where "gate_at gs' i = Inr g'" "gtype g' = gtype g" by (rule wiring_gate [OF w])
    then show ?thesis using Inr by (simp add: gate_of_def)
  next
    case (Inl e)
    have "\<not> gate_of gs' ty i"
    proof
      assume "gate_of gs' ty i"
      then obtain g where "gate_at gs' i = Inr g" by (auto simp: gate_of_def split: sum.splits)
      then obtain g' where "gate_at gs i = Inr g'" by (rule wiring_gate [OF w [symmetric]])
      then show False using Inl by simp
    qed
    then show ?thesis using Inl by (simp add: gate_of_def)
  qed
qed

lemma typed_wiring:
  assumes "wiring gs = wiring gs'" "typed gs"
  shows "typed gs'"
  unfolding typed_def
proof (intro allI impI)
  fix i assume "i < length gs'"
  then obtain g where g: "gate_at gs i = Inr g" "gtype g \<noteq> None"
    using assms(2) wiring_length [OF assms(1)] by (auto simp: typed_def)
  show "\<exists>g. gate_at gs' i = Inr g \<and> gtype g \<noteq> None"
    using wiring_gate [OF assms(1) g(1)] g(2) by metis
qed

lemma input_gates_wiring: "wiring gs = wiring gs' \<Longrightarrow> input_gates gs = input_gates gs'"
  by (simp add: input_gates_def gate_of_wiring [of gs gs'] wiring_length [of gs gs'])

lemma gate_at_update: "i < length gs \<Longrightarrow> gate_at (gs[i := Some g]) j = (if j = i then Inr g else gate_at gs j)"
  by (cases "j < length gs") (auto simp: gate_at_def rd_out)

lemma wiring_output:
  assumes "gate_at gs i = Inr g"
  shows "wiring (gs[i := Some (g\<lparr>goutput := v\<rparr>)]) = wiring gs"
proof (rule nth_equalityI)
  fix j assume "j < length (wiring (gs[i := Some (g\<lparr>goutput := v\<rparr>)]))"
  then show "wiring (gs[i := Some (g\<lparr>goutput := v\<rparr>)]) ! j = wiring gs ! j"
    using assms by (cases "j = i") (auto simp: wiring_def gate_at_Inr)
qed (simp add: wiring_def)

text \<open>What \<open>set_inputs\<close> leaves: the values in the input gates, everything else as it was.\<close>

definition inputs_set :: "gates \<Rightarrow> nat list \<Rightarrow> (nat \<times> bool) list \<Rightarrow> gates \<Rightarrow> bool" where
  "inputs_set gs is vs gs' \<longleftrightarrow> wiring gs' = wiring gs \<and> (\<forall>j g'. gate_at gs' j = Inr g' \<longrightarrow>
     (if j \<in> set is \<and> gtype g' = Some INPUT then goutput g' = map_option of_bool (map_of vs j)
      else gate_at gs j = Inr g'))"

lemma inputs_setD:
  assumes "inputs_set gs is vs gs'" "gate_at gs' j = Inr g'"
  shows "j \<in> set is \<Longrightarrow> gtype g' = Some INPUT \<Longrightarrow> goutput g' = map_option of_bool (map_of vs j)"
    "j \<notin> set is \<or> gtype g' \<noteq> Some INPUT \<Longrightarrow> gate_at gs j = Inr g'"
proof -
  have "if j \<in> set is \<and> gtype g' = Some INPUT then goutput g' = map_option of_bool (map_of vs j) else gate_at gs j = Inr g'"
    using assms unfolding inputs_set_def by blast
  then show "j \<in> set is \<Longrightarrow> gtype g' = Some INPUT \<Longrightarrow> goutput g' = map_option of_bool (map_of vs j)"
    "j \<notin> set is \<or> gtype g' \<noteq> Some INPUT \<Longrightarrow> gate_at gs j = Inr g'" by auto
qed

lemma set_inputs_sets:
  assumes "typed gs" "distinct is" "set is \<subseteq> {..<length gs}" "length (filter (gate_of gs INPUT) is) \<le> length bits"
  shows "\<exists>gs'. set_inputs (map of_bool bits) is gs = Inr gs' \<and> inputs_set gs is (zip (filter (gate_of gs INPUT) is) bits) gs'"
  using assms
proof (induction "is" arbitrary: gs bits)
  case Nil
  then show ?case by (simp add: inputs_set_def)
next
  case (Cons i js)
  from Cons.prems(1,3) obtain g ty where g: "gate_at gs i = Inr g" "gtype g = Some ty"
    by (fastforce simp: typed_def)
  show ?case
  proof (cases "ty = INPUT")
    case False
    then have ni: "\<not> gate_of gs INPUT i" using g by (simp add: gate_of_def)
    then obtain gs' where gs': "set_inputs (map of_bool bits) js gs = Inr gs'"
      "inputs_set gs js (zip (filter (gate_of gs INPUT) js) bits) gs'"
      using Cons.IH [of gs bits] Cons.prems by auto
    have "\<not> gate_of gs' INPUT i" using ni gate_of_wiring gs'(2) by (metis inputs_set_def)
    then have "gtype g' \<noteq> Some INPUT" if "gate_at gs' i = Inr g'" for g' using that by (simp add: gate_of_def)
    then show ?thesis using gs' g False ni by (fastforce simp: inputs_set_def)
  next
    case True
    then have inp: "gate_of gs INPUT i" using g by (simp add: gate_of_def)
    then obtain b bs where bits: "bits = b # bs" using Cons.prems(4) by (cases bits) auto
    define gs1 where "gs1 = gs[i := Some (g\<lparr>goutput := Some (of_bool b)\<rparr>)]"
    have w: "wiring gs1 = wiring gs" unfolding gs1_def by (rule wiring_output [OF g(1)])
    have go: "gate_of gs1 = gate_of gs" by (rule gate_of_wiring [OF w])
    have at: "gate_at gs1 j = (if j = i then Inr (g\<lparr>goutput := Some (of_bool b)\<rparr>) else gate_at gs j)" for j
      unfolding gs1_def using Cons.prems(3) by (simp add: gate_at_update)
    obtain gs' where gs': "set_inputs (map of_bool bs) js gs1 = Inr gs'"
      "inputs_set gs1 js (zip (filter (gate_of gs INPUT) js) bs) gs'"
      using Cons.IH [of gs1 bs] Cons.prems typed_wiring [OF w [symmetric]] inp bits wiring_length [OF w] by (auto simp: go)
    have at': "gate_at gs' i = gate_at gs1 i \<or> (\<nexists>g'. gate_at gs' i = Inr g')"
      using gs'(2) Cons.prems(2) by (cases "gate_at gs' i") (auto simp: inputs_set_def)
    have "inputs_set gs (i # js) (zip (filter (gate_of gs INPUT) (i # js)) bits) gs'"
      unfolding inputs_set_def
    proof (intro conjI allI impI)
      show "wiring gs' = wiring gs" using gs'(2) w by (simp add: inputs_set_def)
    next
      fix j g' assume j: "gate_at gs' j = Inr g'"
      show "if j \<in> set (i # js) \<and> gtype g' = Some INPUT
          then goutput g' = map_option of_bool (map_of (zip (filter (gate_of gs INPUT) (i # js)) bits) j)
          else gate_at gs j = Inr g'"
      proof (cases "j = i")
        case True
        then have "g' = g\<lparr>goutput := Some (of_bool b)\<rparr>" using at' at j by auto
        then show ?thesis using True g \<open>ty = INPUT\<close> inp bits by simp
      next
        case False
        then show ?thesis using gs'(2) j inp bits at [of j] by (auto simp: inputs_set_def)
      qed
    qed
    then show ?thesis using gs'(1) g True bits by (auto simp: gs1_def)
  qed
qed

lemma map_of_zip_dom: "length xs \<le> length ys \<Longrightarrow> j \<in> set xs \<Longrightarrow> map_of (zip xs ys) j \<noteq> None"
proof (induction xs arbitrary: ys)
  case (Cons x xs)
  then show ?case by (cases ys) auto
qed simp

text \<open>The values in the flip-flops.\<close>

definition holds_state :: "gates \<Rightarrow> (nat \<Rightarrow> bool) \<Rightarrow> bool" where
  "holds_state gs m \<longleftrightarrow> (\<forall>i g. gate_at gs i = Inr g \<longrightarrow> gtype g = Some FLIPFLOP
     \<longrightarrow> flag g = Some (- 1) \<and> former_out g = Some (of_bool (m i)))"

lemma holds_values_state: "holds_values gs inp m \<Longrightarrow> holds_state gs m"
  by (simp add: holds_values_def holds_state_def)

lemma set_inputs_values:
  assumes "typed gs" "holds_state gs m"
    and "length (input_gates gs) \<le> length (line_bits line)"
  obtains gs' where "set_inputs (line_digits line) [0..<length gs] gs = Inr gs'" "wiring gs' = wiring gs"
    "holds_values gs' (line_inputs gs line) m"
proof -
  obtain gs' where gs': "set_inputs (map of_bool (line_bits line)) [0..<length gs] gs = Inr gs'"
    "inputs_set gs [0..<length gs] (zip (input_gates gs) (line_bits line)) gs'"
    using set_inputs_sets [OF assms(1), of "[0..<length gs]" "line_bits line"] assms(3)
    by (auto simp: input_gates_def atLeast0LessThan)
  have w: "wiring gs' = wiring gs" using gs'(2) by (simp add: inputs_set_def)
  have "holds_values gs' (line_inputs gs line) m"
    unfolding holds_values_def
  proof (intro allI impI conjI)
    fix i g assume g: "gate_at gs' i = Inr g" "gtype g = Some INPUT"
    then have i: "i < length gs" using wiring_length [OF w] by (auto simp: gate_at_Inr)
    have "gate_of gs' INPUT i" using g by (simp add: gate_of_def)
    then have "gate_of gs INPUT i" unfolding gate_of_wiring [OF w] .
    then have "i \<in> set (input_gates gs)" using i by (simp add: input_gates_def)
    then obtain b where "map_of (zip (input_gates gs) (line_bits line)) i = Some b"
      using map_of_zip_dom [OF assms(3)] by fastforce
    moreover have "goutput g = map_option of_bool (map_of (zip (input_gates gs) (line_bits line)) i)"
      by (rule inputs_setD(1) [OF gs'(2) g(1) _ g(2)]) (simp add: i)
    ultimately show "goutput g = Some (of_bool (line_inputs gs line i))"
      by (cases b) (simp_all add: line_inputs_def)
  next
    fix i g assume g: "gate_at gs' i = Inr g" "gtype g = Some FLIPFLOP"
    have "gate_at gs i = Inr g" by (rule inputs_setD(2) [OF gs'(2) g(1)]) (simp add: g(2))
    with assms(2) g(2) have "flag g = Some (- 1) \<and> former_out g = Some (of_bool (m i))"
      by (simp add: holds_state_def)
    then show "flag g = Some (- 1)" "former_out g = Some (of_bool (m i))" by simp_all
  qed
  with gs'(1) w show ?thesis by (intro that) (simp_all add: line_digits_bits)
qed

text \<open>The circuit as a sequential machine, one line after the other.\<close>

fun run_machine :: "formula \<Rightarrow> (nat \<Rightarrow> bool) \<Rightarrow> (nat \<Rightarrow> bool) list \<Rightarrow> bool list" where
  "run_machine e m [] = []"
| "run_machine e m (inp # inps) = (let (x, m1) = run_formula inp e m in x # run_machine e m1 inps)"

definition is_circuit :: "gates \<Rightarrow> nat \<Rightarrow> formula \<Rightarrow> bool" where
  "is_circuit gs t e \<longleftrightarrow> typed gs \<and> find_output gs [0..<length gs] = Inr (Some t)
     \<and> (\<exists>g j. gate_at gs t = Inr g \<and> inp1 g = Some j \<and> represents gs j e)"

lemma simulate_lines_machine:
  assumes "typed gs" "gate_at gs t = Inr g" "inp1 g = Some j" "represents gs j e" "holds_state gs m" "depth e \<le> n"
    and "\<forall>l \<in> set ls. length (input_gates gs) \<le> length (line_bits l)"
  shows "\<exists>gs'. simulate_lines n (Some t) ls gs = Some (Inr (map of_bool (run_machine e m (map (line_inputs gs) ls)), gs'))"
  using assms
proof (induction ls arbitrary: gs g m)
  case (Cons l ls)
  have "length (input_gates gs) \<le> length (line_bits l)" using Cons.prems(7) by simp
  with Cons.prems(1,5) obtain gs1 where gs1: "set_inputs (line_digits l) [0..<length gs] gs = Inr gs1" "wiring gs1 = wiring gs"
    "holds_values gs1 (line_inputs gs l) m" by (rule set_inputs_values)
  obtain g1 where g1: "gate_at gs1 t = Inr g1" "inp1 g1 = Some j"
    using wiring_gate [OF gs1(2) [symmetric] Cons.prems(2)] Cons.prems(3) by metis
  have "represents gs1 j e" by (rule represents_wiring [OF Cons.prems(4) gs1(2) [symmetric]])
  from evaluate_computes [OF this refl gs1(3) Cons.prems(6)]
  obtain gs2 where gs2: "evaluate n (Some j) gs1 = Some (Inr (of_bool (fst (run_formula (line_inputs gs l) e m)), gs2))"
    "holds_values gs2 (line_inputs gs l) (snd (run_formula (line_inputs gs l) e m))" "wiring gs2 = wiring gs1"
    by (auto simp: computes_def)
  have w: "wiring gs = wiring gs2" using gs1(2) gs2(3) by simp
  obtain g2 where g2: "gate_at gs2 t = Inr g2" "inp1 g2 = Some j"
    using wiring_gate [OF w Cons.prems(2)] Cons.prems(3) by metis
  have li: "line_inputs gs2 = line_inputs gs"
    by (intro ext) (simp add: line_inputs_def input_gates_wiring [OF w])
  have bits: "\<forall>l \<in> set ls. length (input_gates gs2) \<le> length (line_bits l)"
    using Cons.prems(7) by (simp add: input_gates_wiring [OF w])
  from Cons.IH [OF typed_wiring [OF w Cons.prems(1)] g2 represents_wiring [OF Cons.prems(4) w] holds_values_state [OF gs2(2)]
      Cons.prems(6) bits]
  show ?case using gs1(1) g1 gs2(1) by (auto simp: simulate_line_def li split_def Let_def)
qed simp

end
