(* ===== verification/Circuit_Properties.thy ===== *)
theory Circuit_Properties
  imports Circuit_Semantics
begin

text \<open>
  The properties of the circuit simulator: the outputs of a circuit are those of a sequential
  machine, and of a clocked one when no flip-flop can be skipped or come twice; a circuit with a
  cycle never returns; and when the deallocation reads freed memory.
\<close>

section \<open>Outputs\<close>


section \<open>Clocked circuits\<close>

text \<open>
  The value of a formula when all flip-flops change together, once per line, to the exclusive or
  of what they hold and their input.
\<close>

fun clocked :: "(nat \<Rightarrow> bool) \<Rightarrow> (nat \<Rightarrow> bool) \<Rightarrow> formula \<Rightarrow> bool" where
  "clocked inp m (Input i) = inp i"
| "clocked inp m (And a b) = (clocked inp m a \<and> clocked inp m b)"
| "clocked inp m (Or a b) = (clocked inp m a \<or> clocked inp m b)"
| "clocked inp m (Not a) = (\<not> clocked inp m a)"
| "clocked inp m (Flip i a) = (m i \<noteq> clocked inp m a)"

fun flips :: "formula \<Rightarrow> (nat \<times> formula) list" where
  "flips (Input i) = []"
| "flips (And a b) = flips a @ flips b"
| "flips (Or a b) = flips a @ flips b"
| "flips (Not a) = flips a"
| "flips (Flip i a) = (i, a) # flips a"

definition tick :: "(nat \<Rightarrow> bool) \<Rightarrow> formula \<Rightarrow> (nat \<Rightarrow> bool) \<Rightarrow> nat \<Rightarrow> bool" where
  "tick inp e m i = (case map_of (flips e) i of None \<Rightarrow> m i | Some a \<Rightarrow> (m i \<noteq> clocked inp m a))"

fun clocked_machine :: "formula \<Rightarrow> (nat \<Rightarrow> bool) \<Rightarrow> (nat \<Rightarrow> bool) list \<Rightarrow> bool list" where
  "clocked_machine e m [] = []"
| "clocked_machine e m (inp # inps) = clocked inp m e # clocked_machine e (tick inp e m) inps"

text \<open>No flip-flop in a right operand, which may be skipped, and none that comes twice.\<close>

fun regular :: "formula \<Rightarrow> bool" where
  "regular (Input i) = True"
| "regular (And a b) = (regular a \<and> flips b = [])"
| "regular (Or a b) = (regular a \<and> flips b = [])"
| "regular (Not a) = regular a"
| "regular (Flip i a) = (regular a \<and> i \<notin> fst ` set (flips a))"

lemma no_flips: "flips e = [] \<Longrightarrow> run_formula inp e m = (clocked inp m' e, m)"
  by (induction e arbitrary: m) (auto simp: Let_def)

lemma tick_simps:
  "tick inp (Input i) m = m" "flips b = [] \<Longrightarrow> tick inp (And a b) m = tick inp a m"
  "flips b = [] \<Longrightarrow> tick inp (Or a b) m = tick inp a m" "tick inp (Not a) m = tick inp a m"
  "tick inp (Flip i a) m = (tick inp a m)(i := (m i \<noteq> clocked inp m a))"
  by (rule ext, simp add: tick_def)+

lemma regular_clocked: "regular e \<Longrightarrow> run_formula inp e m = (clocked inp m e, tick inp e m)"
proof (induction e)
  case (And a b)
  then show ?case using no_flips [of b inp "tick inp a m" m] by (auto simp: tick_simps Let_def)
next
  case (Or a b)
  then show ?case using no_flips [of b inp "tick inp a m" m] by (auto simp: tick_simps Let_def)
qed (auto simp: tick_simps Let_def)

lemma regular_machine: "regular e \<Longrightarrow> run_machine e m inps = clocked_machine e m inps"
  by (induction inps arbitrary: m) (simp_all add: regular_clocked)

text \<open>
  C33. A circuit in which no flip-flop is reached twice from the output or through the right input
  of an AND or OR gate prints what the clocked circuit does.
\<close>

theorem regular_circuit_clocked:
  assumes "is_circuit gs t e" "regular e" "holds_state gs m" "depth e \<le> n"
    and "\<forall>l \<in> set (fgets_lines 100 txt). length (input_gates gs) \<le> length (line_bits l)"
  shows "\<exists>gs'. operations n (Some txt) gs
    = Some (Inr (map of_bool (clocked_machine e m (map (line_inputs gs) (fgets_lines 100 txt))), gs'))"
proof -
  obtain g j where g: "gate_at gs t = Inr g" "inp1 g = Some j" "represents gs j e"
    using assms(1) by (auto simp: is_circuit_def)
  have "typed gs" "find_output gs [0..<length gs] = Inr (Some t)" using assms(1) by (auto simp: is_circuit_def)
  with simulate_lines_machine [OF this(1) g assms(3,4,5)] show ?thesis
    by (simp add: operations_def regular_machine [OF assms(2)])
qed

section \<open>Cycles\<close>

text \<open>
  When the first inputs lead from gate to gate without end, the evaluation does not return,
  whatever its fuel.
\<close>

theorem cycle_never_returns:
  assumes "i \<in> C" "\<forall>j \<in> C. \<exists>g. gate_at gs j = Inr g \<and> gtype g \<in> {Some AND, Some OR, Some NOT} \<and> (\<exists>k \<in> C. inp1 g = Some k)"
  shows "evaluate n (Some i) gs = None"
  using assms(1)
proof (induction n arbitrary: i)
  case (Suc n)
  then obtain g k where g: "gate_at gs i = Inr g" "gtype g \<in> {Some AND, Some OR, Some NOT}" "k \<in> C" "inp1 g = Some k"
    using assms(2) by blast
  then have "evaluate n (inp1 g) gs = None" using Suc.IH by simp
  then show ?case using g(1,2) by auto
qed simp

section \<open>Deallocation\<close>

text \<open>The inputs of a gate, and a measure that decreases along them.\<close>

definition feeds :: "gates \<Rightarrow> nat \<Rightarrow> nat \<Rightarrow> bool" where
  "feeds gs j i \<longleftrightarrow> (\<exists>g. gate_at gs i = Inr g \<and> (inp1 g = Some j \<or> inp2 g = Some j))"

definition ranked :: "gates \<Rightarrow> (nat \<Rightarrow> nat) \<Rightarrow> bool" where
  "ranked gs r \<longleftrightarrow> typed gs \<and> (\<forall>i j. feeds gs j i \<longrightarrow> j < length gs \<and> r j < r i)"

text \<open>Which gates \<open>free_circuit2\<close> reads.\<close>

inductive reads :: "gates \<Rightarrow> nat \<Rightarrow> nat \<Rightarrow> bool" for gs where
  "reads gs i i"
| "feeds gs j i \<Longrightarrow> reads gs j k \<Longrightarrow> reads gs i k"

lemma free_circuit2_result:
  assumes "ranked gs r"
  shows "i < length gs \<Longrightarrow> r i + 2 \<le> n \<Longrightarrow>
    free_circuit2 n dead (Some i) gs = (if \<exists>k. reads gs i k \<and> k \<in> dead then Some (Inl UseAfterFree) else Some (Inr ()))"
proof (induction n arbitrary: i)
  case (Suc n)
  then obtain g where g: "gate_at gs i = Inr g" using assms by (fastforce simp: ranked_def typed_def)
  have child: "free_circuit2 n dead p gs = (if \<exists>j k. p = Some j \<and> reads gs j k \<and> k \<in> dead then Some (Inl UseAfterFree) else Some (Inr ()))"
    if p: "p = inp1 g \<or> p = inp2 g" for p
  proof (cases p)
    case None
    then show ?thesis using Suc.prems(2) by (cases n) simp_all
  next
    case (Some j)
    then have f: "feeds gs j i" using g p by (auto simp: feeds_def)
    then have "j < length gs" "r j < r i" using assms by (auto simp: ranked_def)
    then show ?thesis using Suc.IH [of j] Suc.prems(2) Some by simp
  qed
  have "(\<exists>k. reads gs i k \<and> k \<in> dead) \<longleftrightarrow> i \<in> dead \<or> (\<exists>j k. inp1 g = Some j \<and> reads gs j k \<and> k \<in> dead)
      \<or> (\<exists>j k. inp2 g = Some j \<and> reads gs j k \<and> k \<in> dead)"
    using g by (subst reads.simps) (auto simp: feeds_def)
  then show ?case using g child [of "inp1 g"] child [of "inp2 g"] by auto
qed simp

lemma free_loop_result:
  assumes "ranked gs r" "\<forall>i < length gs. r i + 2 \<le> n"
  shows "set is \<subseteq> {..<length gs} \<Longrightarrow> sorted_wrt (<) is \<Longrightarrow> \<forall>k \<in> dead. \<forall>i \<in> set is. k < i \<Longrightarrow>
    free_loop n is dead gs = (if \<exists>i \<in> set is. \<exists>k. reads gs i k \<and> (k \<in> dead \<or> k \<in> set is \<and> k < i)
      then Some (Inl UseAfterFree) else Some (Inr ()))"
proof (induction "is" arbitrary: dead)
  case (Cons i js)
  then obtain g where g: "gate_at gs i = Inr g" using assms by (fastforce simp: ranked_def typed_def)
  have f2: "free_circuit2 n dead (Some i) gs = (if \<exists>k. reads gs i k \<and> k \<in> dead then Some (Inl UseAfterFree) else Some (Inr ()))"
    using Cons.prems(1) assms(2) by (intro free_circuit2_result [OF assms(1)]) auto
  have "free_loop n js (insert i dead) gs = (if \<exists>j \<in> set js. \<exists>k. reads gs j k \<and> (k \<in> insert i dead \<or> k \<in> set js \<and> k < j)
      then Some (Inl UseAfterFree) else Some (Inr ()))"
    using Cons.prems by (intro Cons.IH) auto
  moreover have "(\<exists>l \<in> set (i # js). \<exists>k. reads gs l k \<and> (k \<in> dead \<or> k \<in> set (i # js) \<and> k < l))
      \<longleftrightarrow> (\<exists>k. reads gs i k \<and> k \<in> dead) \<or> (\<exists>j \<in> set js. \<exists>k. reads gs j k \<and> (k \<in> insert i dead \<or> k \<in> set js \<and> k < j))"
    using Cons.prems(2) by fastforce
  ultimately show ?case using g f2 by auto
qed simp

lemma reads_below: "reads gs i k \<Longrightarrow> \<forall>i j. feeds gs j i \<longrightarrow> i < j \<Longrightarrow> i \<le> k"
proof (induction rule: reads.induct)
  case (2 j i k)
  then show ?case by (meson less_imp_le order_trans)
qed simp

text \<open>
  The deallocation of a circuit without cycles goes well exactly when every gate comes before
  its inputs in the netlist; otherwise it reads a gate that is freed already.
\<close>

theorem free_circuit_fine_iff:
  assumes "ranked gs r" "\<forall>i < length gs. r i + 2 \<le> n"
  shows "free_circuit n gs = (if \<forall>i j. feeds gs j i \<longrightarrow> i < j then Some (Inr ()) else Some (Inl UseAfterFree))"
proof -
  have res: "free_circuit n gs = (if \<exists>i < length gs. \<exists>k < i. reads gs i k then Some (Inl UseAfterFree) else Some (Inr ()))"
  proof -
    have "(\<exists>i \<in> set [0..<length gs]. \<exists>k. reads gs i k \<and> (k \<in> {} \<or> k \<in> set [0..<length gs] \<and> k < i))
        \<longleftrightarrow> (\<exists>i < length gs. \<exists>k < i. reads gs i k)"
      by (auto intro: less_trans) (metis atLeastLessThan_iff less_trans zero_le)
    then show ?thesis
      unfolding free_circuit_def
      using free_loop_result [OF assms, of "[0..<length gs]" "{}"] by (simp add: atLeast0LessThan)
  qed
  show ?thesis
  proof (cases "\<forall>i j. feeds gs j i \<longrightarrow> i < j")
    case True
    then have "\<not> (\<exists>i < length gs. \<exists>k < i. reads gs i k)" using reads_below by fastforce
    with True res show ?thesis by simp
  next
    case False
    then obtain i j where f: "feeds gs j i" "j \<le> i" by force
    have "j < i" using f assms(1) by (cases "j = i") (auto simp: ranked_def)
    moreover have "reads gs i j" by (rule reads.intros(2) [OF f(1) reads.intros(1)])
    moreover have "i < length gs" using f(1) by (auto simp: feeds_def gate_at_Inr)
    ultimately have "\<exists>i < length gs. \<exists>k < i. reads gs i k" by blast
    with False res show ?thesis by simp
  qed
qed

end
