(* ===== verification/Circuit_Netlist.thy ===== *)
theory Circuit_Netlist
  imports Circuit_Semantics
begin

text \<open>
  Netlists that are printed from a list of gates and a list of connections, and what the reader
  of the circuit simulator makes of them.
\<close>

section \<open>Lines of a printed file\<close>

lemma tokenize_more_nl: "\<forall>w \<in> set ws. plain_word w \<Longrightarrow> tokenize (more_words ws @ nl) = ws"
proof (induction ws)
  case Nil
  have "tokenize [LF] = []" by (subst tokenize.simps) (simp add: isspace_def LF_def)
  then show ?case by (simp add: more_words_def nl_def)
next
  case (Cons w ws)
  then have w: "w \<noteq> []" "\<forall>c \<in> set w. \<not> isspace c" by (auto simp: plain_word_def)
  have sp: "isspace (CHR '' '')" "isspace LF" by (simp_all add: isspace_def LF_def)
  have "\<exists>c r. more_words ws @ nl = c # r \<and> isspace c" using sp by (cases ws) (auto simp: more_words_def nl_def)
  then obtain c r where r: "more_words ws @ nl = c # r" "isspace c" by blast
  have "tokenize (CHR '' '' # w @ c # r) = w # tokenize (c # r)"
    using w sp r(2) by (subst tokenize.simps) (simp add: dropWhile_none takeWhile_append2)
  moreover have "tokenize (c # r) = ws" using Cons by (simp flip: r(1))
  moreover have "more_words (w # ws) @ nl = CHR '' '' # w @ c # r" by (simp add: more_words_def flip: r(1))
  ultimately show ?case by simp
qed

lemma tokenize_line: "\<forall>w \<in> set ws. plain_word w \<Longrightarrow> ws \<noteq> [] \<Longrightarrow> tokenize (print_words ws @ nl) = ws"
proof (cases ws)
  case (Cons w vs)
  assume "\<forall>w \<in> set ws. plain_word w"
  then have "tokenize (more_words ws @ nl) = ws" by (rule tokenize_more_nl)
  moreover have "more_words ws @ nl = CHR '' '' # print_words ws @ nl" by (simp add: Cons more_words_def print_words_def)
  ultimately show ?thesis by (simp add: tokenize_skip isspace_def)
qed simp

lemma fgets_lines_concat:
  assumes "\<forall>l \<in> set ls. LF \<notin> set l \<and> NUL \<notin> set l \<and> length l < n - 1" "2 \<le> n"
  shows "fgets_lines n (concat (map (\<lambda>l. l @ nl) ls)) = map (\<lambda>l. l @ nl) ls"
  using assms(1)
proof (induction ls)
  case Nil
  show ?case by (simp add: fgets_lines.simps [of n "[]"])
next
  case (Cons l ls)
  have r: "read_line (n - 1) (l @ LF # concat (map (\<lambda>l. l @ nl) ls)) = (l @ nl, concat (map (\<lambda>l. l @ nl) ls))"
    using Cons.prems by (intro read_line_exact) auto
  have "cstr (l @ nl) = l @ nl"
    unfolding cstr_def takeWhile_eq_all_conv using Cons.prems by (auto simp: nl_def LF_def NUL_def)
  with r Cons assms(2) show ?case
    by (subst fgets_lines.simps) (simp add: nl_def)
qed

section \<open>The netlist\<close>

definition type_text :: "gate_type \<Rightarrow> string" where
  "type_text ty = (case ty of INPUT \<Rightarrow> ''INPUT'' | OUTPUT \<Rightarrow> ''OUTPUT'' | AND \<Rightarrow> ''AND'' | OR \<Rightarrow> ''OR'' | NOT \<Rightarrow> ''NOT''
     | FLIPFLOP \<Rightarrow> ''FLIPFLOP'')"

definition gate_words :: "gate_type \<times> string \<Rightarrow> string list" where
  "gate_words d = [''GATE'', type_text (fst d), snd d]"

definition connection_words :: "(gate_type \<times> string) list \<Rightarrow> nat \<times> nat \<Rightarrow> string list" where
  "connection_words ds c = [''CONNECTION'', snd (ds ! fst c), snd (ds ! snd c)]"

definition netlist :: "(gate_type \<times> string) list \<Rightarrow> (nat \<times> nat) list \<Rightarrow> string" where
  "netlist ds cs = concat (map (\<lambda>l. l @ nl) (map print_words (map gate_words ds @ map (connection_words ds) cs)))"

text \<open>A name that fits the arrays, and connections between different gates.\<close>

definition gate_name :: "string \<Rightarrow> bool" where
  "gate_name nm \<longleftrightarrow> plain_word nm \<and> length nm < 15 \<and> NUL \<notin> set nm \<and> CHR 0xFF \<notin> set nm"

definition proper :: "(gate_type \<times> string) list \<Rightarrow> (nat \<times> nat) list \<Rightarrow> bool" where
  "proper ds cs \<longleftrightarrow> distinct (map snd ds) \<and> (\<forall>d \<in> set ds. gate_name (snd d))
     \<and> (\<forall>c \<in> set cs. fst c < length ds \<and> snd c < length ds \<and> fst c \<noteq> snd c)"

text \<open>The circuit it describes: the gates as they are when declared, and their inputs set one after the other.\<close>

definition declared :: "(gate_type \<times> string) list \<Rightarrow> gate list" where
  "declared ds = map (\<lambda>d. set_type (type_text (fst d)) (malloc_gate (snd d))) ds"

definition plug :: "nat \<Rightarrow> gate \<Rightarrow> gate" where
  "plug f g = (if gtype g \<in> {Some AND, Some OR}
     then if flag g = Some (- 1) then g\<lparr>inp1 := Some f, flag := Some 0\<rparr> else g\<lparr>inp2 := Some f\<rparr>
     else g\<lparr>inp1 := Some f\<rparr>)"

definition wired :: "(nat \<times> nat) list \<Rightarrow> gate list \<Rightarrow> gate list" where
  "wired cs gs = foldl (\<lambda>gs c. gs[snd c := plug (fst c) (gs ! snd c)]) gs cs"

section \<open>Reading it back\<close>

lemma type_text_word [simp]: "plain_word (type_text ty)" "length (type_text ty) < 15" "length (type_text ty) \<noteq> 0"
  "NUL \<notin> set (type_text ty)" "CHR 0xFF \<notin> set (type_text ty)"
  by (cases ty; simp add: type_text_def plain_word_def isspace_def NUL_def)+

lemma malloc_name [simp]: "gname (malloc_gate nm) = nm"
  by (simp add: malloc_gate_def)

lemma set_type_text [simp]: "gtype (set_type (type_text ty) g) = Some ty" "gname (set_type s g) = gname g"
  "flag (set_type (type_text ty) (malloc_gate nm)) = (if ty \<in> {AND, OR, FLIPFLOP} then Some (- 1) else None)"
  by (cases ty; simp add: type_text_def set_type_def Let_def malloc_gate_def)+

lemma scan_three: "\<forall>w \<in> {a, b, c}. plain_word w \<Longrightarrow> length a < n1 \<Longrightarrow> length b < n2 \<Longrightarrow> length c < n3
    \<Longrightarrow> scan_words [n1, n2, n3] (print_words [a, b, c] @ nl) = Inr [a, b, c]"
  by (simp add: scan_words_def tokenize_line)

lemma keyword_words [simp]: "plain_word ''GATE''" "plain_word ''CONNECTION''" "NUL \<notin> set ''GATE''" "NUL \<notin> set ''CONNECTION''"
  by (simp_all add: plain_word_def isspace_def NUL_def)

lemma scan_gate: "gate_name (snd d) \<Longrightarrow> scan_words [15, 15, 20] (print_words (gate_words d) @ nl) = Inr (gate_words d)"
  unfolding gate_words_def by (rule scan_three) (auto simp: gate_name_def)

lemma scan_connection:
  assumes "gate_name (snd (ds ! fst c))" "gate_name (snd (ds ! snd c))" "15 \<le> k"
  shows "scan_words [15, 15, k] (print_words (connection_words ds c) @ nl) = Inr (connection_words ds c)"
  unfolding connection_words_def using assms by (intro scan_three) (auto simp: gate_name_def)

lemma read_gates_only_connections:
  assumes "\<forall>c \<in> set cs. gate_name (snd (ds ! fst c)) \<and> gate_name (snd (ds ! snd c))"
  shows "read_gates (map (\<lambda>c. print_words (connection_words ds c) @ nl) cs) k gs = Inr gs"
  using assms by (induction cs) (simp_all add: scan_connection, simp add: connection_words_def)

lemma read_gates_declared:
  assumes "\<forall>d \<in> set ds. gate_name (snd d)" "length done_gs = k"
  shows "read_gates (map (\<lambda>d. print_words (gate_words d) @ nl) ds @ ls) k (done_gs @ replicate (length ds) None)
    = read_gates ls (k + length ds) (done_gs @ map Some (declared ds))"
  using assms
proof (induction ds arbitrary: done_gs k)
  case (Cons d ds)
  let ?g = "set_type (type_text (fst d)) (malloc_gate (snd d))"
  have "read_gates (map (\<lambda>d. print_words (gate_words d) @ nl) (d # ds) @ ls) k (done_gs @ replicate (length (d # ds)) None)
      = read_gates (map (\<lambda>d. print_words (gate_words d) @ nl) ds @ ls) (k + 1) ((done_gs @ [Some ?g]) @ replicate (length ds) None)"
    using Cons.prems by (simp add: scan_gate) (simp add: gate_words_def list_update_append)
  also have "\<dots> = read_gates ls (k + 1 + length ds) ((done_gs @ [Some ?g]) @ map Some (declared ds))"
    using Cons.prems by (intro Cons.IH) auto
  finally show ?case by (simp add: declared_def)
qed (simp add: declared_def)

lemma find_ends_result:
  assumes "\<forall>k \<in> set is. k < length xs" "\<forall>k < length xs. (gname (xs ! k) = a \<longleftrightarrow> k = i) \<and> (gname (xs ! k) = b \<longleftrightarrow> k = j)"
  shows "find_ends a b (map Some xs) is found
    = Inr (if i \<in> set is then Some i else fst found, if j \<in> set is \<and> i \<noteq> j then Some j else snd found)"
  using assms
proof (induction "is" arbitrary: found)
  case (Cons k ks)
  then show ?case by (auto simp: gate_at_def)
qed (simp add: prod_eq_iff)

lemma link_plug:
  assumes "t < length xs" "gtype (xs ! t) \<noteq> None" "gtype (xs ! t) \<in> {Some AND, Some OR} \<longrightarrow> flag (xs ! t) \<noteq> None"
  shows "link f t (map Some xs) = Inr (map Some (xs[t := plug f (xs ! t)]))"
  using assms by (auto simp: link_def gate_at_def plug_def map_update)

lemma plug_kept [simp]: "gname (plug f g) = gname g" "gtype (plug f g) = gtype g" "flag (plug f g) = None \<longleftrightarrow> flag g = None"
  by (auto simp: plug_def)

definition gates_of :: "(gate_type \<times> string) list \<Rightarrow> gate list \<Rightarrow> bool" where
  "gates_of ds xs \<longleftrightarrow> length xs = length ds \<and> (\<forall>k < length ds. gname (xs ! k) = snd (ds ! k) \<and> gtype (xs ! k) = Some (fst (ds ! k))
     \<and> (fst (ds ! k) \<in> {AND, OR} \<longrightarrow> flag (xs ! k) \<noteq> None))"

lemma gates_of_declared: "gates_of ds (declared ds)"
  by (auto simp: gates_of_def declared_def)

lemma gates_of_plug:
  assumes "gates_of ds xs"
  shows "gates_of ds (xs[t := plug f (xs ! t)])" (is "gates_of ds ?ys")
proof -
  have "gname (?ys ! k) = gname (xs ! k) \<and> gtype (?ys ! k) = gtype (xs ! k) \<and> (flag (?ys ! k) = None \<longleftrightarrow> flag (xs ! k) = None)"
    if "k < length xs" for k using that by (cases "k = t") simp_all
  then show ?thesis using assms unfolding gates_of_def by (simp add: Ball_def)
qed

lemma connection_plug:
  assumes "gates_of ds xs" "distinct (map snd ds)" "i < length ds" "j < length ds" "i \<noteq> j"
  shows "connection (snd (ds ! i)) (snd (ds ! j)) (map Some xs) = Inr (map Some (xs[j := plug i (xs ! j)]))"
proof -
  have len: "length xs = length ds" using assms(1) by (simp add: gates_of_def)
  have nth: "snd (ds ! k) = snd (ds ! l) \<longleftrightarrow> k = l" if "k < length ds" "l < length ds" for k l
    using nth_eq_iff_index_eq [OF assms(2), of k l] that by simp
  have "find_ends (snd (ds ! i)) (snd (ds ! j)) (map Some xs) [0..<length xs] (None, None) = Inr (Some i, Some j)"
    using assms nth by (subst find_ends_result) (auto simp: gates_of_def)
  moreover have "link i j (map Some xs) = Inr (map Some (xs[j := plug i (xs ! j)]))"
    using assms by (intro link_plug) (auto simp: gates_of_def)
  ultimately show ?thesis by (simp add: connection_def)
qed

lemma read_connections_skip:
  "\<forall>d \<in> set ds. gate_name (snd d) \<Longrightarrow> read_connections (map (\<lambda>d. print_words (gate_words d) @ nl) ds @ ls) gs = read_connections ls gs"
proof (induction ds)
  case (Cons d ds)
  have "scan_words [15, 15, 15] (print_words (gate_words d) @ nl) = Inr (gate_words d)"
    unfolding gate_words_def using Cons.prems by (intro scan_three) (auto simp: gate_name_def)
  with Cons show ?case by (simp add: gate_words_def)
qed simp

lemma read_connections_wired:
  assumes "gates_of ds xs" "distinct (map snd ds)" "\<forall>d \<in> set ds. gate_name (snd d)"
    "\<forall>c \<in> set cs. fst c < length ds \<and> snd c < length ds \<and> fst c \<noteq> snd c"
  shows "read_connections (map (\<lambda>c. print_words (connection_words ds c) @ nl) cs) (map Some xs) = Inr (map Some (wired cs xs))"
  using assms
proof (induction cs arbitrary: xs)
  case (Cons c cs)
  let ?xs = "xs[snd c := plug (fst c) (xs ! snd c)]"
  have "read_connections (map (\<lambda>c. print_words (connection_words ds c) @ nl) (c # cs)) (map Some xs)
      = read_connections (map (\<lambda>c. print_words (connection_words ds c) @ nl) cs) (map Some ?xs)"
    using Cons.prems connection_plug [OF Cons.prems(1,2), of "fst c" "snd c"]
    by (simp add: scan_connection) (simp add: connection_words_def)
  also have "\<dots> = Inr (map Some (wired cs ?xs))" using Cons.prems by (intro Cons.IH gates_of_plug) auto
  finally show ?case by (simp add: wired_def)
qed (simp add: wired_def)

section \<open>The count of the gates\<close>

lemma count_gates_line:
  assumes "l \<noteq> []" "LF \<notin> set l" "CHR 0xFF \<notin> set l"
  shows "count_gates (l @ LF # s) = (if hd l = CHR ''G'' then 1 else 0) + count_gates s"
proof -
  obtain c cs where l: "l = c # cs" using assms(1) by (cases l) auto
  have "dropWhile (\<lambda>c. c \<noteq> LF \<and> c \<noteq> CHR 0xFF) (cs @ LF # s) = LF # s"
    using assms(2,3) by (subst dropWhile_append2) (auto simp: l)
  then show ?thesis using assms(3) by (auto simp: l)
qed

lemma count_gates_lines:
  "\<forall>l \<in> set ls. l \<noteq> [] \<and> LF \<notin> set l \<and> CHR 0xFF \<notin> set l
   \<Longrightarrow> count_gates (concat (map (\<lambda>l. l @ nl) ls)) = length (filter (\<lambda>l. hd l = CHR ''G'') ls)"
  by (induction ls) (simp_all add: nl_def count_gates_line)

lemma word_lines:
  assumes "\<forall>w \<in> set ws. gate_name w" "length ws = 3"
  shows "print_words ws \<noteq> [] \<and> LF \<notin> set (print_words ws) \<and> NUL \<notin> set (print_words ws) \<and> CHR 0xFF \<notin> set (print_words ws)
    \<and> length (print_words ws) < 100 - 1 \<and> hd (print_words ws) = hd (hd ws)"
proof -
  obtain a b c where ws: "ws = [a, b, c]" using assms(2) by (auto simp: length_Suc_conv numeral_3_eq_3)
  have "LF \<notin> set w" if "plain_word w" for w using that by (auto simp: plain_word_def isspace_def LF_def)
  then have lf: "LF \<notin> set a" "LF \<notin> set b" "LF \<notin> set c" using assms(1) by (simp_all add: ws gate_name_def)
  have sp: "LF \<noteq> CHR '' ''" "NUL \<noteq> CHR '' ''" by (simp_all add: LF_def NUL_def)
  have "a \<noteq> []" using assms(1) by (simp add: ws gate_name_def plain_word_def)
  then have ne: "print_words ws \<noteq> []" "hd (print_words ws) = hd (hd ws)" by (simp_all add: ws print_words_def)
  have "length a < 15" "length b < 15" "length c < 15" using assms(1) by (simp_all add: ws gate_name_def)
  then have len: "length (print_words ws) < 100 - 1" by (simp add: ws print_words_def more_words_def)
  have "set (print_words ws) = set a \<union> set b \<union> set c \<union> {CHR '' ''}" by (auto simp: ws print_words_def more_words_def)
  then have "LF \<notin> set (print_words ws)" "NUL \<notin> set (print_words ws)" "CHR 0xFF \<notin> set (print_words ws)"
    using lf sp assms(1) by (simp_all add: ws gate_name_def)
  with ne len show ?thesis by blast
qed

lemma keyword_names [simp]: "gate_name ''GATE''" "gate_name ''CONNECTION''" "gate_name (type_text ty)"
  by (simp_all add: gate_name_def) (simp_all add: NUL_def)

lemma words_short:
  "gate_name (snd d) \<Longrightarrow> \<forall>w \<in> set (gate_words d). gate_name w"
  "gate_name (snd (ds ! fst c)) \<Longrightarrow> gate_name (snd (ds ! snd c)) \<Longrightarrow> \<forall>w \<in> set (connection_words ds c). gate_name w"
  "length (gate_words d) = 3" "length (connection_words ds c) = 3"
  by (simp_all add: gate_words_def connection_words_def)

lemma read_netlist:
  assumes "proper ds cs"
  shows "count_gates (netlist ds cs) = length ds"
    "create_circuit (netlist ds cs) (replicate (length ds) None) = Inr (map Some (wired cs (declared ds)))"
proof -
  let ?ls = "map print_words (map gate_words ds @ map (connection_words ds) cs)"
  have ds: "distinct (map snd ds)" "\<forall>d \<in> set ds. gate_name (snd d)"
    "\<forall>c \<in> set cs. fst c < length ds \<and> snd c < length ds \<and> fst c \<noteq> snd c" using assms by (auto simp: proper_def)
  have cn: "\<forall>c \<in> set cs. gate_name (snd (ds ! fst c)) \<and> gate_name (snd (ds ! snd c))" using ds(2,3) by auto
  have ok: "\<forall>l \<in> set ?ls. l \<noteq> [] \<and> LF \<notin> set l \<and> NUL \<notin> set l \<and> CHR 0xFF \<notin> set l \<and> length l < 100 - 1"
  proof
    fix l assume "l \<in> set ?ls"
    then obtain ws where ws: "l = print_words ws" "ws \<in> gate_words ` set ds \<union> connection_words ds ` set cs" by auto
    then consider d where "d \<in> set ds" "ws = gate_words d" | c where "c \<in> set cs" "ws = connection_words ds c" by auto
    then have "length ws = 3 \<and> (\<forall>w \<in> set ws. gate_name w)"
    proof cases
      case 1
      then show ?thesis using words_short(1) [of d] words_short(3) ds(2) by simp
    next
      case 2
      then show ?thesis using words_short(2) [of ds c] words_short(4) cn by simp
    qed
    then have "length ws = 3" "\<forall>w \<in> set ws. gate_name w" by simp_all
    from word_lines [OF this(2,1)] ws(1) show "l \<noteq> [] \<and> LF \<notin> set l \<and> NUL \<notin> set l \<and> CHR 0xFF \<notin> set l \<and> length l < 100 - 1"
      by simp
  qed
  have hd: "hd (print_words (gate_words d)) = CHR ''G''" "hd (print_words (connection_words ds c)) = CHR ''C''" for d c
    by (simp_all add: gate_words_def connection_words_def print_words_def)
  show "count_gates (netlist ds cs) = length ds"
    unfolding netlist_def using ok by (subst count_gates_lines) (auto simp: hd comp_def)
  have lines: "fgets_lines 100 (netlist ds cs) = map (\<lambda>d. print_words (gate_words d) @ nl) ds
      @ map (\<lambda>c. print_words (connection_words ds c) @ nl) cs"
    unfolding netlist_def using ok by (subst fgets_lines_concat) (auto simp: comp_def)
  have "read_gates (fgets_lines 100 (netlist ds cs)) 0 (replicate (length ds) None) = Inr (map Some (declared ds))"
    unfolding lines using read_gates_declared [OF ds(2), of "[]" 0] read_gates_only_connections [OF cn] by simp
  moreover have "read_connections (fgets_lines 100 (netlist ds cs)) (map Some (declared ds)) = Inr (map Some (wired cs (declared ds)))"
    unfolding lines read_connections_skip [OF ds(2)] by (rule read_connections_wired [OF gates_of_declared ds])
  ultimately show "create_circuit (netlist ds cs) (replicate (length ds) None) = Inr (map Some (wired cs (declared ds)))"
    by (simp add: create_circuit_def)
qed


end
