(* ===== verification/Circuit_Witnesses.thy ===== *)
theory Circuit_Witnesses
  imports Circuit_Properties Circuit_Netlist
begin

text \<open>Concrete circuits: the witnesses of the properties, and two circuits that are not clocked as they should be.\<close>

section \<open>A regular circuit\<close>

definition demo_decls :: "(gate_type \<times> string) list" where
  "demo_decls = [(INPUT, ''A''), (INPUT, ''B''), (FLIPFLOP, ''F''), (AND, ''G''), (OUTPUT, ''Q'')]"

definition demo_gates :: gates where
  "demo_gates = map Some (wired [(0, 2), (2, 3), (1, 3), (3, 4)] (declared demo_decls))"

definition demo_formula :: formula where
  "demo_formula = And (Flip 2 (Input 0)) (Input 1)"

lemmas build_defs = wired_def declared_def set_type_def type_text_def malloc_gate_def plug_def

definition g_field :: "gates \<Rightarrow> nat \<Rightarrow> gate" where
  "g_field gs i = the (gs ! i)"

lemma gate_at_some: "i < length gs \<Longrightarrow> gs ! i \<noteq> None \<Longrightarrow> gate_at gs i = Inr (g_field gs i)"
  by (auto simp: gate_at_Inr g_field_def)

text \<open>A check that a formula is represented, by computation.\<close>

fun rep_check :: "gates \<Rightarrow> nat \<Rightarrow> formula \<Rightarrow> bool" where
  "rep_check gs i (Input k) = (k = i \<and> i < length gs \<and> gs ! i \<noteq> None \<and> gtype (g_field gs i) = Some INPUT)"
| "rep_check gs i (And a b) = (i < length gs \<and> gs ! i \<noteq> None \<and> gtype (g_field gs i) = Some AND
     \<and> inp1 (g_field gs i) \<noteq> None \<and> inp2 (g_field gs i) \<noteq> None
     \<and> rep_check gs (the (inp1 (g_field gs i))) a \<and> rep_check gs (the (inp2 (g_field gs i))) b)"
| "rep_check gs i (Or a b) = (i < length gs \<and> gs ! i \<noteq> None \<and> gtype (g_field gs i) = Some OR
     \<and> inp1 (g_field gs i) \<noteq> None \<and> inp2 (g_field gs i) \<noteq> None
     \<and> rep_check gs (the (inp1 (g_field gs i))) a \<and> rep_check gs (the (inp2 (g_field gs i))) b)"
| "rep_check gs i (Not a) = (i < length gs \<and> gs ! i \<noteq> None \<and> gtype (g_field gs i) = Some NOT
     \<and> inp1 (g_field gs i) \<noteq> None \<and> rep_check gs (the (inp1 (g_field gs i))) a)"
| "rep_check gs i (Flip k a) = (k = i \<and> i < length gs \<and> gs ! i \<noteq> None \<and> gtype (g_field gs i) = Some FLIPFLOP
     \<and> inp1 (g_field gs i) \<noteq> None \<and> rep_check gs (the (inp1 (g_field gs i))) a)"

lemma rep_check: "rep_check gs i e \<Longrightarrow> represents gs i e"
proof (induction e arbitrary: i)
  case (Input k)
  then show ?case using gate_at_some rep_input by auto
next
  case (And a b)
  then show ?case using gate_at_some by (auto intro!: rep_and)
next
  case (Or a b)
  then show ?case using gate_at_some by (auto intro!: rep_or)
next
  case (Not a)
  then show ?case using gate_at_some by (auto intro!: rep_not)
next
  case (Flip k a)
  then show ?case using gate_at_some by (auto intro!: rep_flip)
qed

definition circuit_check :: "gates \<Rightarrow> nat \<Rightarrow> formula \<Rightarrow> bool" where
  "circuit_check gs t e \<longleftrightarrow> list_all (\<lambda>g. g \<noteq> None \<and> gtype (the g) \<noteq> None) gs
     \<and> find_output gs [0..<length gs] = Inr (Some t) \<and> t < length gs \<and> inp1 (g_field gs t) \<noteq> None
     \<and> rep_check gs (the (inp1 (g_field gs t))) e"

lemma circuit_check: "circuit_check gs t e \<Longrightarrow> is_circuit gs t e"
  using gate_at_some rep_check unfolding circuit_check_def is_circuit_def typed_def g_field_def list_all_length
  by fastforce

definition state_check :: "gates \<Rightarrow> bool" where
  "state_check gs \<longleftrightarrow> list_all (\<lambda>g. case g of None \<Rightarrow> True | Some x \<Rightarrow> gtype x = Some FLIPFLOP
     \<longrightarrow> flag x = Some (- 1) \<and> former_out x = Some 0) gs"

lemma state_check: "state_check gs \<Longrightarrow> holds_state gs (\<lambda>_. False)"
  by (fastforce simp: state_check_def holds_state_def gate_at_Inr list_all_length)

definition two_lines :: string where
  "two_lines = ''10'' @ nl @ ''11'' @ nl"

lemma demo_ok: "circuit_check demo_gates 4 demo_formula" "state_check demo_gates" "regular demo_formula"
  "\<forall>l \<in> set (fgets_lines 100 two_lines). length (input_gates demo_gates) \<le> length (line_bits l)"
  by code_simp+

lemma demo_machine:
  "run_machine demo_formula (\<lambda>_. False) (map (line_inputs demo_gates) (fgets_lines 100 two_lines)) = [False, False]"
  by code_simp


theorem regular_circuit_clocked_witness:
  "\<exists>gs'. operations 3 (Some two_lines) demo_gates = Some (Inr (map of_bool (clocked_machine demo_formula (\<lambda>_. False)
     (map (line_inputs demo_gates) (fgets_lines 100 two_lines))), gs'))"
  using regular_circuit_clocked [OF circuit_check [OF demo_ok(1)] demo_ok(3) state_check [OF demo_ok(2)] _ demo_ok(4), of 3]
  by (simp add: demo_formula_def)


section \<open>Two NOT gates in a ring\<close>

definition ring_gates :: gates where
  "ring_gates = map Some (wired [(0, 1), (1, 0)] (declared [(NOT, ''A''), (NOT, ''B'')]))"

theorem cycle_never_returns_witness: "evaluate 100 (Some 0) ring_gates = None"
proof -
  have "gate_at ring_gates 0 = Inr (g_field ring_gates 0)" "gate_at ring_gates 1 = Inr (g_field ring_gates 1)"
    "gtype (g_field ring_gates 0) = Some NOT" "gtype (g_field ring_gates 1) = Some NOT"
    "inp1 (g_field ring_gates 0) = Some 1" "inp1 (g_field ring_gates 1) = Some 0"
    by (code_simp+)
  then show ?thesis by (intro cycle_never_returns [of 0 "{0, 1}"]) auto
qed

section \<open>Deallocation\<close>

text \<open>The circuit of a NOT gate, with its input declared before it and after it.\<close>

definition input_first :: gates where
  "input_first = map Some (wired [(0, 1)] (declared [(INPUT, ''A''), (NOT, ''B'')]))"

definition input_last :: gates where
  "input_last = map Some (wired [(1, 0)] (declared [(NOT, ''B''), (INPUT, ''A'')]))"

lemma not_circuits:
  "feeds input_first j i \<longleftrightarrow> i = 1 \<and> j = 0" "feeds input_last j i \<longleftrightarrow> i = 0 \<and> j = 1"
  "typed input_first" "typed input_last" "length input_first = 2" "length input_last = 2"
  by (auto simp: feeds_def typed_def input_first_def input_last_def build_defs gate_at_Inr less_Suc_eq numeral_2_eq_2)

theorem free_circuit_fine_iff_witness:
  "free_circuit 3 input_first = Some (Inl UseAfterFree) \<and> free_circuit 3 input_last = Some (Inr ())"
proof -
  have r: "ranked input_first (\<lambda>i. i)" "ranked input_last (\<lambda>i. 1 - i)"
    by (auto simp: ranked_def not_circuits)
  have "free_circuit 3 input_first = (if \<forall>i j. feeds input_first j i \<longrightarrow> i < j then Some (Inr ()) else Some (Inl UseAfterFree))"
    by (rule free_circuit_fine_iff [OF r(1)]) (auto simp: not_circuits)
  moreover have "free_circuit 3 input_last = (if \<forall>i j. feeds input_last j i \<longrightarrow> i < j then Some (Inr ()) else Some (Inl UseAfterFree))"
    by (rule free_circuit_fine_iff [OF r(2)]) (auto simp: not_circuits)
  ultimately show ?thesis by (simp add: not_circuits)
qed

section \<open>Flip-flops that are not clocked as they should be\<close>

text \<open>The flip-flop at the right input of the AND gate, and a flip-flop at both of its inputs.\<close>

definition skip_connections :: "(nat \<times> nat) list" where
  "skip_connections = [(0, 2), (1, 3), (2, 3), (3, 4)]"

definition twice_decls :: "(gate_type \<times> string) list" where
  "twice_decls = [(INPUT, ''A''), (FLIPFLOP, ''F''), (AND, ''G''), (OUTPUT, ''Q'')]"

definition twice_connections :: "(nat \<times> nat) list" where
  "twice_connections = [(0, 1), (1, 2), (1, 2), (2, 3)]"

definition load :: "string \<Rightarrow> gates" where
  "load txt = (case create_circuit txt (replicate (count_gates txt) None) of Inl e \<Rightarrow> [] | Inr gs \<Rightarrow> gs)"

definition printed_by :: "gates \<Rightarrow> string \<Rightarrow> int list run" where
  "printed_by gs txt = obind (operations 10 (Some txt) gs) (\<lambda>(vs, gs'). Some (Inr vs))"

lemma load_netlist: "proper ds cs \<Longrightarrow> load (netlist ds cs) = map Some (wired cs (declared ds))"
  by (simp add: load_def read_netlist)

lemma proper_circuits: "proper demo_decls skip_connections" "proper twice_decls twice_connections"
  by code_simp+

lemma skip_ok:
  "circuit_check (map Some (wired skip_connections (declared demo_decls))) 4 (And (Input 1) (Flip 2 (Input 0)))"
  "clocked_machine (And (Input 1) (Flip 2 (Input 0))) (\<lambda>_. False)
     (map (line_inputs (map Some (wired skip_connections (declared demo_decls)))) (fgets_lines 100 two_lines)) = [False, False]"
  by code_simp+

lemma skip_printed:
  "printed_by (map Some (wired skip_connections (declared demo_decls))) two_lines = Some (Inr [0, 1])"
  by code_simp

lemma twice_ok:
  "circuit_check (map Some (wired twice_connections (declared twice_decls))) 3 (And (Flip 1 (Input 0)) (Flip 1 (Input 0)))"
  "clocked_machine (And (Flip 1 (Input 0)) (Flip 1 (Input 0))) (\<lambda>_. False)
     (map (line_inputs (map Some (wired twice_connections (declared twice_decls)))) (fgets_lines 100 (''1'' @ nl))) = [True]"
  by code_simp+

lemma twice_printed:
  "printed_by (map Some (wired twice_connections (declared twice_decls))) (''1'' @ nl) = Some (Inr [0])"
  by code_simp

text \<open>
  A flip-flop behind the right input of an AND gate misses a line when the left input is 0,
  and one that is reached twice changes twice in a line: both circuits print what the clocked
  circuit does not.
\<close>

theorem flipflops_misclocked:
  "is_circuit (load (netlist demo_decls skip_connections)) 4 (And (Input 1) (Flip 2 (Input 0)))
    \<and> printed_by (load (netlist demo_decls skip_connections)) two_lines = Some (Inr [0, 1])
    \<and> clocked_machine (And (Input 1) (Flip 2 (Input 0))) (\<lambda>_. False)
        (map (line_inputs (load (netlist demo_decls skip_connections))) (fgets_lines 100 two_lines)) = [False, False]
    \<and> is_circuit (load (netlist twice_decls twice_connections)) 3 (And (Flip 1 (Input 0)) (Flip 1 (Input 0)))
    \<and> printed_by (load (netlist twice_decls twice_connections)) (''1'' @ nl) = Some (Inr [0])
    \<and> clocked_machine (And (Flip 1 (Input 0)) (Flip 1 (Input 0))) (\<lambda>_. False)
        (map (line_inputs (load (netlist twice_decls twice_connections))) (fgets_lines 100 (''1'' @ nl))) = [True]"
  unfolding load_netlist [OF proper_circuits(1)] load_netlist [OF proper_circuits(2)]
  using skip_ok skip_printed twice_ok twice_printed circuit_check by blast

end
