(* ===== verification/Sparse.thy ===== *)
theory Sparse
  imports C_Format
begin

text \<open>
  Sparse vectors and matrices (Object Oriented Programming Spring/PA2: SparseVector.h,
  SparseVector.cpp, SparseMatrix.h, SparseMatrix.cpp), as lists of entries. The numbers are those
  of any type with the operations the code uses of double; the theorems are about a commutative
  ring, that is, about doubles as long as their sums and products are exact.
\<close>

record 'a vec =
  vindex :: int
  vdata :: 'a

record 'a mat =
  mindex :: int
  row_index :: int
  mdata :: 'a

section \<open>Sorting\<close>

text \<open>
  The two loops that swap entries, with the condition as an argument. For an empty vector,
  \<open>size () - 1\<close> is the largest unsigned number, and the counter of the outer loop overflows.
\<close>

function swap_inner :: "('b \<Rightarrow> 'b \<Rightarrow> bool) \<Rightarrow> nat \<Rightarrow> nat \<Rightarrow> 'b list \<Rightarrow> 'b list" where
  "swap_inner c i j xs =
     (if j < length xs
      then swap_inner c i (j + 1) (if c (xs ! i) (xs ! j) then xs[i := xs ! j, j := xs ! i] else xs)
      else xs)"
  by pat_completeness auto
termination
  by (relation "measure (\<lambda>(c, i, j, xs). length xs - j)") auto

declare swap_inner.simps [simp del]

lemma length_swap_inner [simp]: "length (swap_inner c i j xs) = length xs"
  by (induction c i j xs rule: swap_inner.induct) (subst swap_inner.simps, simp)

function swap_outer :: "('b \<Rightarrow> 'b \<Rightarrow> bool) \<Rightarrow> nat \<Rightarrow> 'b list \<Rightarrow> 'b list" where
  "swap_outer c i xs = (if i + 1 < length xs then swap_outer c (i + 1) (swap_inner c i (i + 1) xs) else xs)"
  by pat_completeness auto
termination
  by (relation "measure (\<lambda>(c, i, xs). length xs - i)") auto

declare swap_outer.simps [simp del]

definition swap_sort :: "('b \<Rightarrow> 'b \<Rightarrow> bool) \<Rightarrow> 'b list \<Rightarrow> 'b list res" where
  "swap_sort c xs = (if xs = [] then Inl SignedOverflow else Inr (swap_outer c 0 xs))"

definition vec_sort :: "'a vec list \<Rightarrow> 'a vec list res" where
  "vec_sort = swap_sort (\<lambda>a b. vindex a > vindex b)"

definition sort_1 :: "'a mat list \<Rightarrow> 'a mat list res" where
  "sort_1 = swap_sort (\<lambda>a b. row_index a > row_index b)"

definition sort_2 :: "'a mat list \<Rightarrow> 'a mat list res" where
  "sort_2 = swap_sort (\<lambda>a b. row_index a = row_index b \<and> row_index a > row_index b)"

section \<open>Merging entries\<close>

text \<open>Once the vector is empty, the guard of the loop does not hold it back from reading the first entry.\<close>

function vec_add :: "nat \<Rightarrow> 'a::{plus, zero} vec list \<Rightarrow> 'a vec list res" where
  "vec_add i xs =
     (if xs = [] then Inl OutOfBounds
      else if i + 1 < length xs
      then (if vindex (xs ! i) = vindex (xs ! (i + 1))
            then (let s = vdata (xs ! i) + vdata (xs ! (i + 1));
                      ys = remove_nth (i + 1) (xs[i := (xs ! i)\<lparr>vdata := s\<rparr>]) in
                  if s = 0 then vec_add i (remove_nth i ys) else vec_add (i + 1) ys)
            else vec_add (i + 1) xs)
      else Inr xs)"
  by pat_completeness auto
termination
  by (relation "measure (\<lambda>(i, xs). 2 * length xs - i)") auto

declare vec_add.simps [simp del]

definition same_place :: "'a mat \<Rightarrow> 'a mat \<Rightarrow> bool" where
  "same_place a b \<longleftrightarrow> row_index a = row_index b \<and> mindex a = mindex b"

function mat_add :: "nat \<Rightarrow> 'a::{plus, zero} mat list \<Rightarrow> 'a mat list" where
  "mat_add i xs =
     (if i < length xs
      then (case first_index (same_place (xs ! i)) (drop (i + 1) xs) of
          None \<Rightarrow> mat_add (i + 1) xs
        | Some k \<Rightarrow>
            (let j = i + 1 + k; s = mdata (xs ! i) + mdata (xs ! j);
                 ys = remove_nth j (xs[i := (xs ! i)\<lparr>mdata := s\<rparr>]) in
             if s = 0 then mat_add i (remove_nth i ys) else mat_add (i + 1) ys))
      else xs)"
  by pat_completeness auto
termination
  by (relation "measure (\<lambda>(i, xs). 2 * length xs - i)") (auto dest: first_index_SomeD)

declare mat_add.simps [simp del]

section \<open>Operations\<close>

definition vec_plus :: "'a::{plus, zero} vec list \<Rightarrow> 'a vec list \<Rightarrow> 'a vec list res" where
  "vec_plus xs ys = rbind (vec_sort (xs @ ys)) (vec_add 0)"

text \<open>The loop that appends an entry of the second operand and negates the entry with its number.\<close>

definition flip_vec :: "'a::{times, uminus, one} vec \<Rightarrow> 'a vec" where
  "flip_vec v = v\<lparr>vdata := vdata v * - 1\<rparr>"

definition flip_mat :: "'a::{times, uminus, one} mat \<Rightarrow> 'a mat" where
  "flip_mat m = m\<lparr>mdata := mdata m * - 1\<rparr>"

fun append_flip :: "('b \<Rightarrow> 'b) \<Rightarrow> nat \<Rightarrow> 'b list \<Rightarrow> 'b list \<Rightarrow> 'b list res" where
  "append_flip f i [] zs = Inr zs"
| "append_flip f i (y # ys) zs =
     rbind (rd (zs @ [y]) i) (\<lambda>v. append_flip f (i + 1) ys ((zs @ [y])[i := f v]))"

definition vec_minus :: "'a::{plus, zero, times, uminus, one} vec list \<Rightarrow> 'a vec list \<Rightarrow> 'a vec list res" where
  "vec_minus xs ys = rbind (append_flip flip_vec 0 ys xs) (\<lambda>zs. rbind (vec_sort zs) (vec_add 0))"

definition vec_negate :: "'a::{times, uminus, one} vec list \<Rightarrow> 'a vec list" where
  "vec_negate xs = map flip_vec xs"

definition dot :: "'a::{plus, zero, times} vec list \<Rightarrow> 'a vec list \<Rightarrow> 'a" where
  "dot xs ys = foldl (\<lambda>d x. foldl (\<lambda>d y. if vindex x = vindex y then d + vdata x * vdata y else d) d ys) 0 xs"

definition mat_finish :: "'a::{plus, zero} mat list \<Rightarrow> 'a mat list res" where
  "mat_finish zs = rbind (sort_1 (mat_add 0 zs)) sort_2"

definition mat_plus :: "'a::{plus, zero} mat list \<Rightarrow> 'a mat list \<Rightarrow> 'a mat list res" where
  "mat_plus xs ys = mat_finish (xs @ ys)"

definition mat_minus :: "'a::{plus, zero, times, uminus, one} mat list \<Rightarrow> 'a mat list \<Rightarrow> 'a mat list res" where
  "mat_minus xs ys = rbind (append_flip flip_mat 0 ys xs) mat_finish"

definition mat_negate :: "'a::{times, uminus, one} mat list \<Rightarrow> 'a mat list" where
  "mat_negate xs = map flip_mat xs"

text \<open>\<open>transpose\<close> exchanges the indices in the matrix itself, and returns a sorted copy; both are results here.\<close>

definition flip_place :: "'a mat \<Rightarrow> 'a mat" where
  "flip_place m = m\<lparr>row_index := mindex m, mindex := row_index m\<rparr>"

definition transpose_mat :: "'a mat list \<Rightarrow> ('a mat list \<times> 'a mat list) res" where
  "transpose_mat xs = (let ys = map flip_place xs in
     rbind (sort_1 ys) (\<lambda>zs. rbind (sort_2 zs) (\<lambda>r. Inr (ys, r))))"

section \<open>Input and output\<close>

text \<open>
  The operators \<open>>>\<close> and \<open><<\<close> of double are arguments. A line is read as long as it goes on with an
  index, a character and a number; the fuel is the length of the line.
\<close>

definition scan_index :: "string \<Rightarrow> (int \<times> string) option" where
  "scan_index s = (case scan_int None (skip_ws s) of
      None \<Rightarrow> None
    | Some (n, r) \<Rightarrow> if in_signed 32 n then Some (n, r) else None)"

fun scan_entries :: "(string \<Rightarrow> ('a \<times> string) option) \<Rightarrow> nat \<Rightarrow> string \<Rightarrow> (int \<times> 'a) list" where
  "scan_entries scan 0 s = []"
| "scan_entries scan (Suc n) s = (case scan_index s of
      None \<Rightarrow> []
    | Some (i, r) \<Rightarrow> (case skip_ws r of
        [] \<Rightarrow> []
      | colon # r1 \<Rightarrow> (case scan r1 of
          None \<Rightarrow> []
        | Some (d, r2) \<Rightarrow> (i, d) # scan_entries scan n r2)))"

definition read_vector :: "(string \<Rightarrow> ('a \<times> string) option) \<Rightarrow> string list \<Rightarrow> 'a vec list" where
  "read_vector scan lines = concat (map (\<lambda>l. map (\<lambda>(i, d). \<lparr>vindex = i, vdata = d\<rparr>) (scan_entries scan (length l) l)) lines)"

definition read_matrix :: "(string \<Rightarrow> ('a \<times> string) option) \<Rightarrow> string list \<Rightarrow> 'a mat list" where
  "read_matrix scan lines = concat (map (\<lambda>l. case scan_index l of
      None \<Rightarrow> []
    | Some (r, s) \<Rightarrow> map (\<lambda>(i, d). \<lparr>mindex = i, row_index = r, mdata = d\<rparr>) (scan_entries scan (length s) s)) lines)"

definition show_vector :: "('a \<Rightarrow> string) \<Rightarrow> 'a vec list \<Rightarrow> string" where
  "show_vector fmt xs = concat (map (\<lambda>v. fmt_d (vindex v) @ '':'' @ fmt (vdata v) @ '' '') xs)"

fun show_rows :: "('a \<Rightarrow> string) \<Rightarrow> int option \<Rightarrow> 'a mat list \<Rightarrow> string" where
  "show_rows fmt ex_row [] = []"
| "show_rows fmt ex_row (m # ms) =
     (if ex_row = Some (row_index m) then [] else nl @ fmt_d (row_index m) @ '' '')
     @ fmt_d (mindex m) @ '':'' @ fmt (mdata m) @ '' '' @ show_rows fmt (Some (row_index m)) ms"

definition show_matrix :: "('a \<Rightarrow> string) \<Rightarrow> 'a mat list \<Rightarrow> string" where
  "show_matrix fmt xs = show_rows fmt None xs"

end
