(* ===== verification/Sparse_Properties.thy ===== *)
theory Sparse_Properties
  imports Sparse
begin

text \<open>
  The properties of the sparse vectors and matrices: the sort sorts, addition adds the
  coefficients, subtraction of vectors of the same length subtracts in the wrong direction, and
  what becomes of a matrix that is transposed.
\<close>

section \<open>The sort\<close>

lemma mset_swap_list: "i < length xs \<Longrightarrow> j < length xs \<Longrightarrow> mset (xs[i := xs ! j, j := xs ! i]) = mset xs"
  by (rule mset_swap)

lemma mset_swap_inner: "i < length xs \<Longrightarrow> mset (swap_inner c i j xs) = mset xs"
proof (induction c i j xs rule: swap_inner.induct)
  case (1 c i j xs)
  then show ?case by (subst swap_inner.simps) (auto simp: mset_swap)
qed

text \<open>The inner loop keeps what is before the place it fills.\<close>

lemma swap_inner_before: "i < j \<Longrightarrow> k < i \<Longrightarrow> swap_inner c i j xs ! k = xs ! k"
proof (induction c i j xs rule: swap_inner.induct)
  case (1 c i j xs)
  then show ?case by (subst swap_inner.simps) simp
qed

lemma swap_inner_least:
  fixes key :: "'b \<Rightarrow> 'k::linorder"
  shows "i < j \<Longrightarrow> i < length xs \<Longrightarrow> \<forall>k. i < k \<and> k < j \<and> k < length xs \<longrightarrow> key (xs ! i) \<le> key (xs ! k)
    \<Longrightarrow> \<forall>k. i < k \<and> k < length xs \<longrightarrow> key (swap_inner (\<lambda>a b. key a > key b) i j xs ! i) \<le> key (swap_inner (\<lambda>a b. key a > key b) i j xs ! k)"
proof (induction "\<lambda>a b. key a > key b" i j xs rule: swap_inner.induct)
  case (1 i j xs)
  show ?case
  proof (cases "j < length xs")
    case True
    let ?ys = "if key (xs ! i) > key (xs ! j) then xs[i := xs ! j, j := xs ! i] else xs"
    have "\<forall>k. i < k \<and> k < j + 1 \<and> k < length ?ys \<longrightarrow> key (?ys ! i) \<le> key (?ys ! k)"
    proof (intro allI impI)
      fix k assume k: "i < k \<and> k < j + 1 \<and> k < length ?ys"
      then have kj: "k < length xs" "k < j \<or> k = j" by (auto split: if_splits)
      show "key (?ys ! i) \<le> key (?ys ! k)"
      proof (cases "k = j")
        case True
        then show ?thesis using 1(2,3) kj by auto
      next
        case False
        then have "key (xs ! i) \<le> key (xs ! k)" "?ys ! k = xs ! k" using 1(4) k kj by auto
        then show ?thesis using 1(2,3) \<open>j < length xs\<close> by auto
      qed
    qed
    from 1(1) [OF True _ _ this] 1(2,3) True show ?thesis by (subst (1 2) swap_inner.simps) auto
  next
    case False
    with 1(4) show ?thesis by (subst (1 2) swap_inner.simps) auto
  qed
qed

definition sorted_to :: "('b \<Rightarrow> 'k::linorder) \<Rightarrow> nat \<Rightarrow> 'b list \<Rightarrow> bool" where
  "sorted_to key i xs \<longleftrightarrow> (\<forall>a b. a < i \<and> a < b \<and> b < length xs \<longrightarrow> key (xs ! a) \<le> key (xs ! b))"

lemma swap_inner_suffix: "i < length xs \<Longrightarrow> i < j \<Longrightarrow> set (drop i (swap_inner c i j xs)) = set (drop i xs)"
proof -
  assume i: "i < length xs" "i < j"
  have tk: "take i (swap_inner c i j xs) = take i xs"
    using i swap_inner_before [OF i(2)] by (intro nth_equalityI) simp_all
  have "mset (take i xs) + mset (drop i (swap_inner c i j xs)) = mset (take i xs) + mset (drop i xs)"
    using mset_swap_inner [OF i(1), of c j] by (metis append_take_drop_id mset_append tk)
  then show ?thesis by (metis add_left_cancel mset_eq_setD)
qed

lemma sorted_to_inner:
  fixes key :: "'b \<Rightarrow> 'k::linorder"
  assumes "sorted_to key i xs" "i < length xs"
  shows "sorted_to key (i + 1) (swap_inner (\<lambda>a b. key a > key b) i (i + 1) xs)"
  unfolding sorted_to_def
proof (intro allI impI)
  fix a b
  let ?ys = "swap_inner (\<lambda>a b. key a > key b) i (i + 1) xs"
  assume ab: "a < i + 1 \<and> a < b \<and> b < length ?ys"
  show "key (?ys ! a) \<le> key (?ys ! b)"
  proof (cases "a = i")
    case True
    have "\<forall>k. i < k \<and> k < i + 1 \<and> k < length xs \<longrightarrow> key (xs ! i) \<le> key (xs ! k)" by auto
    from swap_inner_least [OF _ assms(2) this] show ?thesis using ab True by simp
  next
    case False
    then have a: "a < i" "?ys ! a = xs ! a" using ab swap_inner_before [of i "i + 1" a] by simp_all
    show ?thesis
    proof (cases "b < i")
      case True
      then show ?thesis using assms a ab by (simp add: swap_inner_before sorted_to_def)
    next
      case False
      have "?ys ! b = drop i ?ys ! (b - i)" using False ab by simp
      then have "?ys ! b \<in> set (drop i ?ys)" using False ab by (metis diff_less_mono leI length_drop nth_mem)
      then have "?ys ! b \<in> set (drop i xs)" using swap_inner_suffix [OF assms(2), of "i + 1"] by simp
      then obtain k where "i \<le> k" "k < length xs" "?ys ! b = xs ! k"
        by (auto simp: in_set_conv_nth) (metis add.commute le_add1 less_diff_conv nth_drop)
      then show ?thesis using assms(1) a by (simp add: sorted_to_def)
    qed
  qed
qed

lemma swap_outer_sorted:
  fixes key :: "'b \<Rightarrow> 'k::linorder"
  shows "sorted_to key i xs \<Longrightarrow> i \<le> length xs \<Longrightarrow>
    sorted_to key (length xs) (swap_outer (\<lambda>a b. key a > key b) i xs) \<and> mset (swap_outer (\<lambda>a b. key a > key b) i xs) = mset xs"
proof (induction "\<lambda>a b. key a > key b" i xs rule: swap_outer.induct)
  case (1 i xs)
  show ?case
  proof (cases "i + 1 < length xs")
    case True
    let ?ys = "swap_inner (\<lambda>a b. key a > key b) i (i + 1) xs"
    have "sorted_to key (i + 1) ?ys" using 1(2) True by (intro sorted_to_inner) auto
    from 1(1) [OF True this] True have "sorted_to key (length xs) (swap_outer (\<lambda>a b. key a > key b) (i + 1) ?ys)"
      "mset (swap_outer (\<lambda>a b. key a > key b) (i + 1) ?ys) = mset xs" by (simp_all add: mset_swap_inner)
    then show ?thesis using True by (simp add: swap_outer.simps [of _ i xs])
  next
    case False
    have "sorted_to key (length xs) xs"
      unfolding sorted_to_def
    proof (intro allI impI)
      fix a b assume "a < length xs \<and> a < b \<and> b < length xs"
      with False 1(2) show "key (xs ! a) \<le> key (xs ! b)" by (auto simp: sorted_to_def)
    qed
    then show ?thesis using False by (simp add: swap_outer.simps [of _ i xs])
  qed
qed

lemma swap_sort_sorts:
  fixes key :: "'b \<Rightarrow> 'k::linorder"
  assumes "xs \<noteq> []"
  shows "\<exists>ys. swap_sort (\<lambda>a b. key a > key b) xs = Inr ys \<and> mset ys = mset xs \<and> sorted (map key ys)"
proof -
  let ?ys = "swap_outer (\<lambda>a b. key a > key b) 0 xs"
  have s: "sorted_to key (length xs) ?ys" "mset ?ys = mset xs"
    using swap_outer_sorted [of key 0 xs] by (simp_all add: sorted_to_def)
  have "length ?ys = length xs" using s(2) by (metis size_mset)
  then have "sorted (map key ?ys)" using s(1) by (auto simp: sorted_iff_nth_mono_less sorted_to_def)
  with s(2) assms show ?thesis by (simp add: swap_sort_def)
qed

text \<open>
  The contract of a sort, as the sums of vectors and matrices rely on it: entries that are not
  none are put into the order of their keys, and every sum over them stays.
\<close>

locale sorter =
  fixes sort_of :: "'b list \<Rightarrow> 'b list res" and key :: "'b \<Rightarrow> 'k::linorder"
  assumes sorts: "xs \<noteq> [] \<Longrightarrow> \<exists>ys. sort_of xs = Inr ys \<and> mset ys = mset xs \<and> sorted (map key ys)"
begin

lemma result:
  assumes "xs \<noteq> []"
  obtains ys where "sort_of xs = Inr ys" "mset ys = mset xs" "sorted (map key ys)" "ys \<noteq> []"
  using sorts [OF assms] assms by (metis mset_zero_iff)

lemma sum_kept:
  fixes w :: "'b \<Rightarrow> 'm::comm_monoid_add"
  assumes "sort_of xs = Inr ys" "xs \<noteq> []"
  shows "sum_list (map w ys) = sum_list (map w xs)"
  using sorts [OF assms(2)] assms(1) by (auto simp flip: sum_mset_sum_list)

end

interpretation vector_sort: sorter vec_sort vindex
  by unfold_locales (simp add: vec_sort_def swap_sort_sorts)

interpretation row_sort: sorter sort_1 row_index
  by unfold_locales (simp add: sort_1_def swap_sort_sorts)

section \<open>Addition of vectors\<close>

text \<open>The coefficient at an index: the sum of its entries.\<close>

definition coeff :: "'a::comm_monoid_add vec list \<Rightarrow> int \<Rightarrow> 'a" where
  "coeff xs k = sum_list (map (\<lambda>v. if vindex v = k then vdata v else 0) xs)"

lemma coeff_simps [simp]: "coeff [] k = 0" "coeff (v # vs) k = (if vindex v = k then vdata v else 0) + coeff vs k"
  "coeff (xs @ ys) k = coeff xs k + coeff ys k"
  by (simp_all add: coeff_def)

lemma coeff_sorted: "vec_sort xs = Inr ys \<Longrightarrow> xs \<noteq> [] \<Longrightarrow> coeff ys k = coeff xs k"
  unfolding coeff_def by (rule vector_sort.sum_kept)

definition increasing :: "'a vec list \<Rightarrow> bool" where
  "increasing xs \<longleftrightarrow> sorted_wrt (<) (map vindex xs)"

text \<open>Sorted, with no index more than twice.\<close>

definition paired :: "'a vec list \<Rightarrow> bool" where
  "paired xs \<longleftrightarrow> sorted (map vindex xs) \<and> (\<forall>k. count_list (map vindex xs) k \<le> 2)"

lemma vec_add_step:
  fixes a b :: "'a::{plus, zero} vec"
  shows "vec_add (length us) (us @ a # b # ws) =
    (if vindex a = vindex b
     then (if vdata a + vdata b = 0 then vec_add (length us) (us @ ws)
           else vec_add (length us + 1) ((us @ [a\<lparr>vdata := vdata a + vdata b\<rparr>]) @ ws))
     else vec_add (length us + 1) ((us @ [a]) @ b # ws))"
proof -
  let ?xs = "us @ a # b # ws" and ?a = "a\<lparr>vdata := vdata a + vdata b\<rparr>"
  have at: "?xs ! length us = a" "?xs ! (length us + 1) = b" "?xs[length us := ?a] = us @ ?a # b # ws"
    by (simp_all add: nth_append)
  have del: "remove_nth (length us + 1) (us @ ?a # b # ws) = us @ ?a # ws" "remove_nth (length us) (us @ ?a # ws) = us @ ws"
    by (simp_all add: remove_nth_def)
  show ?thesis
    unfolding vec_add.simps [of "length us" ?xs] at Let_def del by simp
qed

lemma vec_add_end: "length rest \<le> 1 \<Longrightarrow> us @ rest \<noteq> [] \<Longrightarrow> vec_add (length us) (us @ rest) = Inr (us @ rest)"
  by (subst vec_add.simps) simp

lemma paired_Cons:
  assumes "paired (a # ws)"
  shows "paired ws" "\<forall>w \<in> set ws. vindex a \<le> vindex w"
proof -
  have "count_list (map vindex ws) k \<le> 2" for k
    using assms by (auto simp: paired_def dest!: spec [of _ k] split: if_splits)
  then show "paired ws" using assms by (simp add: paired_def)
  show "\<forall>w \<in> set ws. vindex a \<le> vindex w" using assms by (simp add: paired_def)
qed

lemma paired_double:
  assumes "paired (a # b # ws)" "vindex a = vindex b" "w \<in> set ws"
  shows "vindex a < vindex w"
proof -
  have "count_list (map vindex ws) (vindex a) = 0"
    using assms(1,2) by (auto simp: paired_def dest!: spec [of _ "vindex a"])
  then have "vindex a \<noteq> vindex w" using assms(3) by (auto simp: count_list_0_iff)
  moreover have "vindex a \<le> vindex w" using paired_Cons(2) [OF assms(1)] assms(3) by simp
  ultimately show ?thesis by simp
qed

lemma increasing_snoc: "increasing (us @ [a]) \<longleftrightarrow> increasing us \<and> (\<forall>u \<in> set us. vindex u < vindex a)"
  by (auto simp: increasing_def sorted_wrt_append)

lemma increasing_append:
  "increasing (us @ ws) \<longleftrightarrow> increasing us \<and> increasing ws \<and> (\<forall>u \<in> set us. \<forall>w \<in> set ws. vindex u < vindex w)"
  by (auto simp: increasing_def sorted_wrt_append)

lemma increasing_single [simp]: "increasing [a]"
  by (simp add: increasing_def)

lemma vec_add_correct:
  fixes us rest :: "'a::comm_monoid_add vec list"
  assumes "increasing us" "paired rest" "\<forall>u \<in> set us. \<forall>r \<in> set rest. vindex u < vindex r" "\<exists>k. coeff (us @ rest) k \<noteq> 0"
  shows "\<exists>zs. vec_add (length us) (us @ rest) = Inr zs \<and> increasing zs \<and> (\<forall>k. coeff zs k = coeff (us @ rest) k)"
  using assms
proof (induction "length rest" arbitrary: us rest rule: less_induct)
  case less
  consider "length rest \<le> 1" | a b ws where "rest = a # b # ws" by (cases rest rule: remdups_adj.cases) auto
  then show ?case
  proof cases
    case 1
    have "us @ rest \<noteq> []" using less.prems(4) by auto
    moreover have "increasing (us @ rest)"
      using 1 less.prems(1,3) by (cases rest) (auto simp: increasing_append)
    ultimately show ?thesis using vec_add_end [OF 1] by auto
  next
    case 2
    have p: "paired (b # ws)" "paired ws" using paired_Cons less.prems(2) 2 by blast+
    have lt: "\<forall>u \<in> set us. vindex u < vindex a" "\<forall>u \<in> set us. \<forall>w \<in> set ws. vindex u < vindex w"
      using less.prems(3) 2 by simp_all
    show ?thesis
    proof (cases "vindex a = vindex b")
      case eq: True
      show ?thesis
      proof (cases "vdata a + vdata b = 0")
        case True
        then have c: "coeff (us @ rest) k = coeff (us @ ws) k" for k using 2 eq by (simp flip: add.assoc) (simp add: add.assoc)
        have "\<exists>zs. vec_add (length us) (us @ ws) = Inr zs \<and> increasing zs \<and> (\<forall>k. coeff zs k = coeff (us @ ws) k)"
          using less.prems p lt c 2 by (intro less.hyps) auto
        then show ?thesis using eq True 2 c by (simp add: vec_add_step)
      next
        case False
        let ?us = "us @ [a\<lparr>vdata := vdata a + vdata b\<rparr>]"
        have c: "coeff (us @ rest) k = coeff (?us @ ws) k" for k using 2 eq by (simp add: add.assoc)
        have "\<exists>zs. vec_add (length ?us) (?us @ ws) = Inr zs \<and> increasing zs \<and> (\<forall>k. coeff zs k = coeff (?us @ ws) k)"
        proof (rule less.hyps)
          show "\<exists>k. coeff (?us @ ws) k \<noteq> 0" using less.prems(4) c by metis
          show "\<forall>u \<in> set ?us. \<forall>r \<in> set ws. vindex u < vindex r"
            using lt paired_double [of a b ws] less.prems(2) 2 eq by simp
        qed (use less.prems(1) lt p 2 in \<open>auto simp: increasing_snoc\<close>)
        then show ?thesis using eq False 2 c by (simp add: vec_add_step)
      qed
    next
      case False
      let ?us = "us @ [a]"
      have c: "coeff (us @ rest) k = coeff (?us @ b # ws) k" for k using 2 by simp
      have "\<exists>zs. vec_add (length ?us) (?us @ b # ws) = Inr zs \<and> increasing zs \<and> (\<forall>k. coeff zs k = coeff (?us @ b # ws) k)"
      proof (rule less.hyps)
        show "\<exists>k. coeff (?us @ b # ws) k \<noteq> 0" using less.prems(4) c by metis
        have "vindex a < vindex r" if "r \<in> set (b # ws)" for r
          using paired_Cons(2) [OF p(1)] paired_Cons(2) [of a "b # ws"] less.prems(2) 2 False that by fastforce
        then show "\<forall>u \<in> set ?us. \<forall>r \<in> set (b # ws). vindex u < vindex r"
          using less.prems(3) 2 by auto
      qed (use less.prems(1) lt p 2 in \<open>auto simp: increasing_snoc\<close>)
      then show ?thesis using False 2 by (simp add: vec_add_step)
    qed
  qed
qed

lemma count_distinct: "distinct xs \<Longrightarrow> count_list xs k \<le> 1"
  by (induction xs) (auto simp: count_list_0_iff)

lemma vec_plus_sum:
  fixes xs ys :: "'a::comm_monoid_add vec list"
  assumes "distinct (map vindex xs)" "distinct (map vindex ys)" "coeff xs j + coeff ys j \<noteq> 0"
  shows "\<exists>zs. vec_plus xs ys = Inr zs \<and> increasing zs \<and> (\<forall>k. coeff zs k = coeff xs k + coeff ys k)"
proof -
  have "xs @ ys \<noteq> []" using assms(3) by auto
  then obtain ws where ws: "vec_sort (xs @ ys) = Inr ws" "mset ws = mset (xs @ ys)" "sorted (map vindex ws)"
    by (rule vector_sort.result)
  have "count_list (map vindex ws) k = count_list (map vindex (xs @ ys)) k" for k
    using ws(2) by (metis count_mset mset_map)
  moreover have "count_list (map vindex (xs @ ys)) k \<le> 2" for k
    using count_distinct [OF assms(1), of k] count_distinct [OF assms(2), of k] by simp
  ultimately have "paired ws" using ws(3) by (simp add: paired_def)
  moreover have c: "coeff ws k = coeff xs k + coeff ys k" for k using coeff_sorted [OF ws(1) \<open>xs @ ys \<noteq> []\<close>] by simp
  ultimately show ?thesis
    using vec_add_correct [of "[]" ws] assms(3) ws(1) by (auto simp: vec_plus_def increasing_def)
qed


section \<open>Subtraction of vectors\<close>

lemma append_flip_prefix:
  "length us + length ys \<le> length us + length zs \<Longrightarrow>
   append_flip f (length us) ys (us @ zs) = Inr (us @ map f (take (length ys) zs) @ drop (length ys) zs @ ys)"
proof (induction ys arbitrary: us zs)
  case (Cons y ys)
  then obtain w ws where zs: "zs = w # ws" by (cases zs) auto
  have "append_flip f (length us) (y # ys) (us @ zs) = append_flip f (length (us @ [f w])) ys ((us @ [f w]) @ ws @ [y])"
    by (simp add: zs nth_append)
  also have "\<dots> = Inr ((us @ [f w]) @ map f (take (length ys) (ws @ [y])) @ drop (length ys) (ws @ [y]) @ ys)"
    using Cons.prems zs by (intro Cons.IH) simp
  finally show ?case using Cons.prems zs by simp
qed simp

lemma vec_minus_same_length: "length xs = length ys \<Longrightarrow> vec_minus xs ys = vec_plus (vec_negate xs) ys"
  using append_flip_prefix [of "[]" ys xs flip_vec] by (simp add: vec_minus_def vec_plus_def vec_negate_def)

lemma coeff_negate: "coeff (vec_negate xs) k = - coeff (xs :: 'a::comm_ring_1 vec list) k"
  by (induction xs) (simp_all add: vec_negate_def flip_vec_def)

text \<open>
  The difference of two vectors of the same length has the wrong sign: the loop of
  \<open>operator-\<close> negates the entry of the first operand instead of the one it has just appended.
\<close>

theorem vec_minus_reversed:
  fixes xs ys :: "'a::comm_ring_1 vec list"
  assumes "distinct (map vindex xs)" "distinct (map vindex ys)" "length xs = length ys" "coeff xs j \<noteq> coeff ys j"
  shows "\<exists>zs. vec_minus xs ys = Inr zs \<and> increasing zs \<and> (\<forall>k. coeff zs k = coeff ys k - coeff xs k)"
proof -
  have "map vindex (vec_negate xs) = map vindex xs" by (simp add: vec_negate_def flip_vec_def)
  then show ?thesis
    using vec_plus_sum [of "vec_negate xs" ys j] assms by (simp add: vec_minus_same_length coeff_negate)
qed

text \<open>
  The sum of two empty vectors, and of a vector with one entry and its negation, is undefined:
  the loops compare with \<open>size () - 1\<close>, which is not negative.
\<close>

theorem vanishing_sum_undefined:
  fixes v :: "'a::comm_ring_1 vec"
  shows "vec_plus ([] :: 'a vec list) [] = Inl SignedOverflow \<and> vec_plus [v] (vec_negate [v]) = Inl OutOfBounds"
proof -
  have "swap_outer c 0 [v, flip_vec v] = [v, flip_vec v]" if "\<not> c v (flip_vec v)" for c
    using that by (simp add: swap_outer.simps [of c] swap_inner.simps [of c])
  then have "vec_sort [v, flip_vec v] = Inr [v, flip_vec v]"
    by (simp add: vec_sort_def swap_sort_def flip_vec_def)
  moreover have "vec_add 0 [v, flip_vec v] = vec_add 0 []"
    using vec_add_step [of "[]" v "flip_vec v" "[]"] by (simp add: flip_vec_def)
  moreover have "vec_add 0 ([] :: 'a vec list) = Inl OutOfBounds" by (simp add: vec_add.simps)
  ultimately show ?thesis by (simp add: vec_plus_def vec_negate_def vec_sort_def swap_sort_def)
qed

section \<open>Matrices\<close>

definition mcoeff :: "'a::comm_monoid_add mat list \<Rightarrow> int \<Rightarrow> int \<Rightarrow> 'a" where
  "mcoeff xs r c = sum_list (map (\<lambda>m. if row_index m = r \<and> mindex m = c then mdata m else 0) xs)"

lemma mcoeff_simps [simp]: "mcoeff [] r c = 0"
  "mcoeff (m # ms) r c = (if row_index m = r \<and> mindex m = c then mdata m else 0) + mcoeff ms r c"
  "mcoeff (xs @ ys) r c = mcoeff xs r c + mcoeff ys r c"
  by (simp_all add: mcoeff_def)

lemma mcoeff_sorted: "sort_1 xs = Inr ys \<Longrightarrow> xs \<noteq> [] \<Longrightarrow> mcoeff ys r c = mcoeff xs r c"
  unfolding mcoeff_def by (rule row_sort.sum_kept)

lemma mat_add_coeff: "mcoeff (mat_add i xs) r c = mcoeff (xs :: 'a::comm_monoid_add mat list) r c"
proof (induction i xs rule: mat_add.induct)
  case (1 i xs)
  show ?case
  proof (cases "i < length xs")
    case i: True
    show ?thesis
    proof (cases "first_index (same_place (xs ! i)) (drop (i + 1) xs)")
      case None
      then show ?thesis using 1(1) [OF i None] i by (simp add: mat_add.simps [of i xs])
    next
      case (Some k)
      define s where "s = mdata (xs ! i) + mdata (xs ! (i + 1 + k))"
      define ys where "ys = remove_nth (i + 1 + k) (xs[i := (xs ! i)\<lparr>mdata := s\<rparr>])"
      obtain us vs ws a b where xs: "xs = us @ a # vs @ b # ws" "length us = i" "length vs = k"
      proof
        from Some have k: "i + 1 + k < length xs" by (auto dest: first_index_SomeD)
        show "xs = take i xs @ xs ! i # take k (drop (i + 1) xs) @ xs ! (i + 1 + k) # drop (i + 2 + k) xs"
          using k i id_take_nth_drop [of i xs] id_take_nth_drop [of k "drop (i + 1) xs"] by (simp add: add.commute)
        show "length (take i xs) = i" "length (take k (drop (i + 1) xs)) = k" using k by simp_all
      qed
      have at: "xs ! i = a" "xs ! (i + 1 + k) = b" using xs(2,3) by (auto simp: xs(1) nth_append)
      have same: "same_place a b" using first_index_SomeD [OF Some] at i by (simp add: add.assoc)
      have ys: "ys = us @ a\<lparr>mdata := s\<rparr> # vs @ ws"
        using xs(2,3) by (simp add: ys_def at) (simp add: xs(1) remove_nth_def list_update_append)
      have c: "mcoeff ys r c = mcoeff xs r c"
        using same by (simp add: ys xs(1) s_def [unfolded at] same_place_def ac_simps)
      have step: "mat_add i xs = (if s = 0 then mat_add i (remove_nth i ys) else mat_add (i + 1) ys)"
        by (subst mat_add.simps) (simp only: i Some if_True option.case Let_def s_def ys_def)
      show ?thesis
      proof (cases "s = 0")
        case True
        have "mcoeff (remove_nth i ys) r c = mcoeff ys r c"
          using xs(2) True by (simp add: ys remove_nth_def)
        then show ?thesis
          using 1(2) [OF i Some refl s_def ys_def True] True c by (simp add: step)
      next
        case False
        then show ?thesis
          using 1(3) [OF i Some refl s_def ys_def False] False c by (simp add: step)
      qed
    qed
  qed (simp add: mat_add.simps [of i xs])
qed

text \<open>The second sort never exchanges anything.\<close>

lemma swap_inner_never: "swap_inner (\<lambda>a b. False) i j (xs :: 'b list) = xs"
proof (induction "\<lambda>(a :: 'b) (b :: 'b). False" i j xs rule: swap_inner.induct)
  case (1 i j xs)
  then show ?case by (subst swap_inner.simps) auto
qed

lemma swap_outer_never: "swap_outer (\<lambda>a b. False) i (xs :: 'b list) = xs"
proof (induction "\<lambda>(a :: 'b) (b :: 'b). False" i xs rule: swap_outer.induct)
  case (1 i xs)
  then show ?case by (subst swap_outer.simps) (auto simp: swap_inner_never)
qed

lemma sort_2_nothing: "(xs :: 'a mat list) \<noteq> [] \<Longrightarrow> sort_2 xs = Inr xs"
proof -
  have never: "(\<lambda>a b :: 'a mat. row_index a = row_index b \<and> row_index a > row_index b) = (\<lambda>a b. False)" by (intro ext) simp
  show "xs \<noteq> [] \<Longrightarrow> sort_2 xs = Inr xs" unfolding sort_2_def never by (simp add: swap_sort_def swap_outer_never)
qed

lemma sort_both:
  assumes "xs \<noteq> []"
  obtains zs where "sort_1 xs = Inr zs" "sort_2 zs = Inr zs" "sorted (map row_index zs)" "\<And>r c. mcoeff zs r c = mcoeff xs r c"
proof -
  obtain zs where zs: "sort_1 xs = Inr zs" "sorted (map row_index zs)" "zs \<noteq> []"
    using row_sort.result [OF assms] by metis
  then show ?thesis by (intro that [of zs]) (simp_all add: sort_2_nothing mcoeff_sorted [OF zs(1) assms])
qed

text \<open>
  The sum of two matrices that does not vanish is sorted by row, and its coefficients are the
  sums of theirs.
\<close>

theorem mat_plus_correct:
  fixes xs ys :: "'a::comm_monoid_add mat list"
  assumes "mcoeff xs i j + mcoeff ys i j \<noteq> 0"
  shows "\<exists>zs. mat_plus xs ys = Inr zs \<and> sorted (map row_index zs) \<and> (\<forall>r c. mcoeff zs r c = mcoeff xs r c + mcoeff ys r c)"
proof -
  have c: "mcoeff (mat_add 0 (xs @ ys)) r c = mcoeff xs r c + mcoeff ys r c" for r c by (simp add: mat_add_coeff)
  then have "mat_add 0 (xs @ ys) \<noteq> []" using assms by (metis mcoeff_simps(1))
  then obtain zs where "sort_1 (mat_add 0 (xs @ ys)) = Inr zs" "sort_2 zs = Inr zs" "sorted (map row_index zs)"
    "\<And>r c. mcoeff zs r c = mcoeff (mat_add 0 (xs @ ys)) r c" by (rule sort_both) blast
  then show ?thesis by (simp add: c mat_plus_def mat_finish_def)
qed

text \<open>
  The transpose of a matrix with entries has its coefficients with the indices exchanged and is
  sorted by row; but the matrix it is made from is changed, and has become transposed itself.
\<close>

theorem transpose_correct:
  fixes xs :: "'a::comm_monoid_add mat list"
  assumes "xs \<noteq> []"
  shows "\<exists>ys zs. transpose_mat xs = Inr (ys, zs) \<and> sorted (map row_index zs)
    \<and> (\<forall>r c. mcoeff zs r c = mcoeff xs c r) \<and> (\<forall>r c. mcoeff ys r c = mcoeff xs c r)"
proof -
  have c: "mcoeff (map flip_place xs) r c = mcoeff xs c r" for r c
    by (simp add: mcoeff_def comp_def flip_place_def conj_commute cong: if_cong)
  obtain zs where "sort_1 (map flip_place xs) = Inr zs" "sort_2 zs = Inr zs" "sorted (map row_index zs)"
    "\<And>r c. mcoeff zs r c = mcoeff (map flip_place xs) r c"
    using sort_both [of "map flip_place xs"] assms by (metis map_is_Nil_conv)
  then show ?thesis by (simp add: c transpose_mat_def)
qed

section \<open>Witnesses\<close>

definition vec_a :: "int vec list" where
  "vec_a = [\<lparr>vindex = 3, vdata = 2\<rparr>, \<lparr>vindex = 1, vdata = 5\<rparr>]"

definition vec_b :: "int vec list" where
  "vec_b = [\<lparr>vindex = 1, vdata = - 5\<rparr>, \<lparr>vindex = 2, vdata = 1\<rparr>]"


theorem vec_minus_reversed_witness: "\<exists>zs. vec_minus vec_a vec_b = Inr zs \<and> coeff zs 1 = - 10 \<and> coeff zs 3 = - 2"
proof -
  have "\<exists>zs. vec_minus vec_a vec_b = Inr zs \<and> increasing zs \<and> (\<forall>k. coeff zs k = coeff vec_b k - coeff vec_a k)"
    by (rule vec_minus_reversed [where j = 3]) (simp_all add: vec_a_def vec_b_def)
  then show ?thesis by (auto simp: vec_a_def vec_b_def)
qed

definition mat_a :: "int mat list" where
  "mat_a = [\<lparr>mindex = 1, row_index = 2, mdata = 4\<rparr>, \<lparr>mindex = 2, row_index = 1, mdata = 7\<rparr>]"

theorem mat_plus_correct_witness: "\<exists>zs. mat_plus mat_a mat_a = Inr zs \<and> mcoeff zs 2 1 = 8 \<and> mcoeff zs 1 2 = 14"
proof -
  have "\<exists>zs. mat_plus mat_a mat_a = Inr zs \<and> sorted (map row_index zs) \<and> (\<forall>r c. mcoeff zs r c = mcoeff mat_a r c + mcoeff mat_a r c)"
    by (rule mat_plus_correct [where i = 2 and j = 1]) (simp add: mat_a_def)
  then show ?thesis by (auto simp: mat_a_def)
qed

theorem transpose_correct_witness: "\<exists>ys zs. transpose_mat mat_a = Inr (ys, zs) \<and> mcoeff zs 1 2 = 4 \<and> mcoeff ys 1 2 = 4"
proof -
  have "mat_a \<noteq> []" by (simp add: mat_a_def)
  from transpose_correct [OF this] show ?thesis by (auto simp: mat_a_def)
qed

end
