(* ===== verification/Cxx_Console.thy ===== *)
theory Cxx_Console
  imports C_Format
begin

text \<open>
  The console of the C++ programs: what is still to be read on \<open>cin\<close> with its state bits, and
  what has been written to \<open>cout\<close>. A read that finds \<open>cin\<close> no longer good fails, and as the
  programs never clear the bits, what is left of the input after a failure is never read.
\<close>

record console =
  c_input :: string
  c_eof :: bool
  c_fail :: bool
  c_shown :: "string list"

definition new_console :: "string \<Rightarrow> console" where
  "new_console input = \<lparr>c_input = input, c_eof = False, c_fail = False, c_shown = []\<rparr>"

definition good :: "console \<Rightarrow> bool" where
  "good c \<longleftrightarrow> \<not> c_eof c \<and> \<not> c_fail c"

definition shows_on :: "string list \<Rightarrow> console \<Rightarrow> console" where
  "shows_on ls c = c\<lparr>c_shown := c_shown c @ ls\<rparr>"

text \<open>
  \<open>cin >> n\<close> for an int: the variable keeps its value when nothing can be read, gets 0 when there
  is no number and the nearest limit when the number is not an int.
\<close>

definition int_limit :: "int \<Rightarrow> int" where
  "int_limit n = max (- 2147483648) (min 2147483647 n)"

definition extract_int :: "int option \<Rightarrow> console \<Rightarrow> int option \<times> console" where
  "extract_int old c =
     (if \<not> good c then (old, c\<lparr>c_fail := True\<rparr>)
      else let s = skip_ws (c_input c) in
        if s = [] then (old, c\<lparr>c_input := [], c_eof := True, c_fail := True\<rparr>)
        else case scan_int None s of
            None \<Rightarrow> (Some 0, c\<lparr>c_input := s, c_fail := True\<rparr>)
          | Some (n, r) \<Rightarrow>
              (Some (int_limit n), c\<lparr>c_input := r, c_eof := (r = []), c_fail := \<not> in_signed 32 n\<rparr>))"

text \<open>\<open>cin.ignore ()\<close>.\<close>

definition ignore_char :: "console \<Rightarrow> console" where
  "ignore_char c =
     (if \<not> good c then c\<lparr>c_fail := True\<rparr>
      else if c_input c = [] then c\<lparr>c_eof := True\<rparr>
      else c\<lparr>c_input := tl (c_input c)\<rparr>)"

text \<open>\<open>getline (cin, line)\<close> into an empty string.\<close>

definition get_line :: "console \<Rightarrow> string \<times> console" where
  "get_line c =
     (if \<not> good c then ([], c\<lparr>c_fail := True\<rparr>)
      else let line = takeWhile (\<lambda>x. x \<noteq> LF) (c_input c); rest = dropWhile (\<lambda>x. x \<noteq> LF) (c_input c) in
        (line, if rest = [] then c\<lparr>c_input := [], c_eof := True, c_fail := (line = [])\<rparr>
               else c\<lparr>c_input := tl rest\<rparr>))"

lemma int_limit_in: "in_signed 32 (int_limit n)"
  by (auto simp: int_limit_def in_signed_32)

lemma int_limit_same: "in_signed 32 n \<Longrightarrow> int_limit n = n"
  by (auto simp: int_limit_def in_signed_32)

text \<open>Once \<open>cin\<close> has failed, nothing changes a variable any more.\<close>

lemma failed_reads:
  assumes "c_fail c"
  shows "extract_int old c = (old, c)" "ignore_char c = c" "get_line c = ([], c)"
  using assms by (simp_all add: extract_int_def ignore_char_def get_line_def good_def)

end
