(* ===== verification/School.thy ===== *)
theory School
  imports C_Text Cxx_Exception Cxx_Console
begin

text \<open>
  School management (Object Oriented Programming Spring/PA3): students and courses as objects on
  a heap, which hold growing arrays of pointers. A student that takes a course gets a copy of the
  course object into its array, and the course a copy of the student, so there are no shared
  objects; but the arrays are read through pointers that the operations have kept, and objects are
  read that have been deleted. Both are visible in the model: a pointer is an address, and a freed
  address holds nothing.
\<close>

section \<open>Growing arrays of pointers\<close>

text \<open>A cell that has not been written, a null pointer, or the address of an object.\<close>

datatype slot = Unset | Null | Ref nat

text \<open>The array (none before the first element), the number of its elements, and its size.\<close>

record dyn =
  d_cells :: "slot list option"
  d_num :: nat
  d_size :: nat

definition new_dyn :: dyn where
  "new_dyn = \<lparr>d_cells = None, d_num = 0, d_size = 10\<rparr>"

function copy_cells :: "slot list \<Rightarrow> slot list \<Rightarrow> nat \<Rightarrow> nat \<Rightarrow> slot list res" where
  "copy_cells from temp i n =
     (if i < n then rbind (rd from i) (\<lambda>x. rbind (wr temp i x) (\<lambda>temp. copy_cells from temp (i + 1) n))
      else Inr temp)"
  by pat_completeness auto
termination
  by (relation "measure (\<lambda>(from, temp, i, n). n - i)") auto

declare copy_cells.simps [simp del]

definition push :: "nat \<Rightarrow> dyn \<Rightarrow> dyn res" where
  "push a d =
     (case d_cells d of
        None \<Rightarrow>
          rbind (wr (replicate (d_size d) Unset) 0 (Ref a)) (\<lambda>cs.
            Inr (d\<lparr>d_cells := Some cs, d_num := d_num d + 1\<rparr>))
      | Some cs \<Rightarrow>
          if d_size d \<le> d_num d then
            rbind (copy_cells cs (replicate (d_size d * 2) Unset) 0 (d_num d)) (\<lambda>temp.
            rbind (wr temp (d_num d) (Ref a)) (\<lambda>temp.
              Inr (d\<lparr>d_cells := Some temp, d_size := d_size d * 2, d_num := d_num d + 1\<rparr>)))
          else rbind (wr cs (d_num d) (Ref a)) (\<lambda>cs. Inr (d\<lparr>d_cells := Some cs, d_num := d_num d + 1\<rparr>)))"

definition cell :: "dyn \<Rightarrow> int \<Rightarrow> slot res" where
  "cell d i = (case d_cells d of None \<Rightarrow> Inl NullDeref
     | Some cs \<Rightarrow> if 0 \<le> i then rd cs (nat i) else Inl OutOfBounds)"

definition target :: "slot \<Rightarrow> nat res" where
  "target s = (case s of Unset \<Rightarrow> Inl UninitRead | Null \<Rightarrow> Inl NullDeref | Ref a \<Rightarrow> Inr a)"

definition element :: "dyn \<Rightarrow> int \<Rightarrow> nat res" where
  "element d i = rbind (cell d i) target"

text \<open>The search loops: the first index whose object has a property.\<close>

function find_index :: "(nat \<Rightarrow> bool res) \<Rightarrow> dyn \<Rightarrow> nat \<Rightarrow> nat option res" where
  "find_index p d i =
     (if i < d_num d then
        rbind (element d (int i)) (\<lambda>a. rbind (p a) (\<lambda>b. if b then Inr (Some i) else find_index p d (i + 1)))
      else Inr None)"
  by pat_completeness auto
termination
  by (relation "measure (\<lambda>(p, d, i). d_num d - i)") auto

declare find_index.simps [simp del]

text \<open>Taking an element out: the later ones move down, and the last place becomes null.\<close>

definition take_out :: "nat \<Rightarrow> dyn \<Rightarrow> dyn res" where
  "take_out i d =
     (case d_cells d of
        None \<Rightarrow> Inl NullDeref
      | Some cs \<Rightarrow>
          rbind (shift_left cs i (d_num d)) (\<lambda>cs.
          rbind (wr cs (d_num d - 1) Null) (\<lambda>cs.
            Inr (d\<lparr>d_cells := Some cs, d_num := d_num d - 1\<rparr>))))"

section \<open>Objects\<close>

record course_obj =
  co_name :: string
  co_code :: string
  co_students :: dyn

record student_obj =
  st_name :: string
  st_ID :: int
  st_courses :: dyn

text \<open>Which loop of \<open>main\<close> the program is in, with the object that has been selected.\<close>

datatype menu = MainMenu | StudentMenu | ChosenStudent nat | CourseMenu | ChosenCourse nat | Ended

record school =
  student_heap :: "student_obj option list"
  course_heap :: "course_obj option list"
  all_students :: dyn
  all_courses :: dyn
  s_choice :: "int option"
  s_menu :: menu
  s_console :: console

definition new_school :: "string \<Rightarrow> school" where
  "new_school input = \<lparr>student_heap = [], course_heap = [], all_students = new_dyn, all_courses = new_dyn,
     s_choice = None, s_menu = MainMenu, s_console = shows_on [''Main_menu'' @ nl] (new_console input)\<rparr>"

definition load_object :: "'a option list \<Rightarrow> nat \<Rightarrow> 'a res" where
  "load_object h a = rbind (rd h a) (\<lambda>x. case x of None \<Rightarrow> Inl UseAfterFree | Some obj \<Rightarrow> Inr obj)"

definition get_student :: "school \<Rightarrow> nat \<Rightarrow> student_obj res" where
  "get_student s a = load_object (student_heap s) a"

definition get_course :: "school \<Rightarrow> nat \<Rightarrow> course_obj res" where
  "get_course s a = load_object (course_heap s) a"

definition put_student :: "nat \<Rightarrow> student_obj \<Rightarrow> school \<Rightarrow> school" where
  "put_student a x s = s\<lparr>student_heap := (student_heap s)[a := Some x]\<rparr>"

definition put_course :: "nat \<Rightarrow> course_obj \<Rightarrow> school \<Rightarrow> school" where
  "put_course a x s = s\<lparr>course_heap := (course_heap s)[a := Some x]\<rparr>"

text \<open>\<open>new Student ()\<close> with \<open>set_name\<close> and \<open>set_ID\<close>, and the same for a course.\<close>

definition new_student :: "string \<Rightarrow> int \<Rightarrow> school \<Rightarrow> nat \<times> school" where
  "new_student name ID s = (length (student_heap s),
     s\<lparr>student_heap := student_heap s @ [Some \<lparr>st_name = name, st_ID = ID, st_courses = new_dyn\<rparr>]\<rparr>)"

definition new_course :: "string \<Rightarrow> string \<Rightarrow> school \<Rightarrow> nat \<times> school" where
  "new_course name code s = (length (course_heap s),
     s\<lparr>course_heap := course_heap s @ [Some \<lparr>co_name = name, co_code = code, co_students = new_dyn\<rparr>]\<rparr>)"

definition show_text :: "string list \<Rightarrow> school \<Rightarrow> school" where
  "show_text ls s = s\<lparr>s_console := shows_on ls (s_console s)\<rparr>"

text \<open>The two comparisons of the search loops.\<close>

definition same_code :: "school \<Rightarrow> nat \<Rightarrow> nat \<Rightarrow> bool res" where
  "same_code s a b = rbind (get_course s a) (\<lambda>x. rbind (get_course s b) (\<lambda>y. Inr (co_code x = co_code y)))"

definition same_ID :: "school \<Rightarrow> nat \<Rightarrow> nat \<Rightarrow> bool res" where
  "same_ID s a b = rbind (get_student s a) (\<lambda>x. rbind (get_student s b) (\<lambda>y. Inr (st_ID x = st_ID y)))"

section \<open>Students and courses\<close>

text \<open>\<open>student -> add_course (course)\<close> and \<open>course -> add_student (student)\<close> store a copy.\<close>

definition add_course_to :: "nat \<Rightarrow> nat \<Rightarrow> school \<Rightarrow> school res" where
  "add_course_to student course s =
     rbind (get_course s course) (\<lambda>c.
       let (copy, s1) = new_course (co_name c) (co_code c) s in
       rbind (get_student s1 student) (\<lambda>st.
       rbind (push copy (st_courses st)) (\<lambda>d. Inr (put_student student (st\<lparr>st_courses := d\<rparr>) s1))))"

definition add_student_to :: "nat \<Rightarrow> nat \<Rightarrow> school \<Rightarrow> school res" where
  "add_student_to course student s =
     rbind (get_student s student) (\<lambda>st.
       let (copy, s1) = new_student (st_name st) (st_ID st) s in
       rbind (get_course s1 course) (\<lambda>c.
       rbind (push copy (co_students c)) (\<lambda>d. Inr (put_course course (c\<lparr>co_students := d\<rparr>) s1))))"

text \<open>The argument is a pointer that is followed only when there is an element to compare with.\<close>

definition remove_course :: "nat \<Rightarrow> slot \<Rightarrow> school \<Rightarrow> school res" where
  "remove_course student course s =
     rbind (get_student s student) (\<lambda>st.
     rbind (find_index (\<lambda>a. rbind (target course) (same_code s a)) (st_courses st) 0) (\<lambda>found.
       case found of
         None \<Rightarrow> Inr s
       | Some i \<Rightarrow> rbind (take_out i (st_courses st)) (\<lambda>d. Inr (put_student student (st\<lparr>st_courses := d\<rparr>) s))))"

definition remove_student :: "nat \<Rightarrow> slot \<Rightarrow> school \<Rightarrow> school res" where
  "remove_student course student s =
     rbind (get_course s course) (\<lambda>c.
     rbind (find_index (\<lambda>a. rbind (target student) (same_ID s a)) (co_students c) 0) (\<lambda>found.
       case found of
         None \<Rightarrow> Inr s
       | Some i \<Rightarrow> rbind (take_out i (co_students c)) (\<lambda>d. Inr (put_course course (c\<lparr>co_students := d\<rparr>) s))))"

section \<open>Deleting objects\<close>

text \<open>
  \<open>delete\<close> with the destructors: the objects still to be deleted are a list of pointers. An object
  is marked as freed before its elements are deleted rather than after, which makes no difference
  as long as no object can be reached from its own elements.
\<close>

datatype doomed = Student_at slot | Course_at slot

definition elements_of :: "dyn \<Rightarrow> slot list res" where
  "elements_of d = (if d_num d = 0 then Inr [] else case d_cells d of
       None \<Rightarrow> Inl NullDeref
     | Some cs \<Rightarrow> if d_num d \<le> length cs then Inr (take (d_num d) cs) else Inl OutOfBounds)"

text \<open>The destructor of a student or course does nothing without an array.\<close>

definition owned :: "dyn \<Rightarrow> slot list res" where
  "owned d = (if d_cells d = None then Inr [] else elements_of d)"

definition live_objects :: "school \<Rightarrow> nat" where
  "live_objects s = length (filter (\<lambda>x. x \<noteq> None) (student_heap s)) + length (filter (\<lambda>x. x \<noteq> None) (course_heap s))"

lemma rbind_cong [fundef_cong]:
  "m = n \<Longrightarrow> (\<And>a. n = Inr a \<Longrightarrow> f a = g a) \<Longrightarrow> rbind m f = rbind n g"
  by (cases n) auto

lemma load_object_Inr: "load_object h a = Inr x \<longleftrightarrow> a < length h \<and> h ! a = Some x"
  by (auto simp: load_object_def rbind_eq_Inr rd_def split: option.splits if_splits)

lemma free_fewer: "load_object h a = Inr x \<Longrightarrow>
  length (filter (\<lambda>x. x \<noteq> None) (h[a := None])) < length (filter (\<lambda>x. x \<noteq> None) h)"
  using length_filter_update [of a h "\<lambda>x. x \<noteq> None" None] by (simp add: load_object_Inr)

function destroy :: "doomed list \<Rightarrow> school \<Rightarrow> school res" where
  "destroy [] s = Inr s"
| "destroy (Student_at Unset # ds) s = Inl UninitRead"
| "destroy (Student_at Null # ds) s = destroy ds s"
| "destroy (Student_at (Ref a) # ds) s =
     rbind (get_student s a) (\<lambda>st. rbind (owned (st_courses st)) (\<lambda>cs.
       destroy (map Course_at cs @ ds) (s\<lparr>student_heap := (student_heap s)[a := None]\<rparr>)))"
| "destroy (Course_at Unset # ds) s = Inl UninitRead"
| "destroy (Course_at Null # ds) s = destroy ds s"
| "destroy (Course_at (Ref a) # ds) s =
     rbind (get_course s a) (\<lambda>c. rbind (owned (co_students c)) (\<lambda>ss.
       destroy (map Student_at ss @ ds) (s\<lparr>course_heap := (course_heap s)[a := None]\<rparr>)))"
  by pat_completeness auto
termination
  by (relation "measures [\<lambda>(ds, s). live_objects s, \<lambda>(ds, s). length ds]")
    (auto simp: live_objects_def get_student_def get_course_def dest: free_fewer)

text \<open>The destructor of the system.\<close>

definition destroy_system :: "school \<Rightarrow> school res" where
  "destroy_system s =
     rbind (elements_of (all_courses s)) (\<lambda>cs. rbind (destroy (map Course_at cs) s) (\<lambda>s.
     rbind (elements_of (all_students s)) (\<lambda>ss. destroy (map Student_at ss) s)))"

end
