(* ===== verification/School_Menu.thy ===== *)
theory School_Menu
  imports School
begin

text \<open>
  The functions of \<open>SchoolManagementSystem\<close> and the menus of \<open>main\<close>. A step is one turn of the
  innermost loop that is running: a menu, the choice that is read, and what it selects.
\<close>

section \<open>Operations that may throw\<close>

definition reads_from :: "(school \<Rightarrow> 'a res) \<Rightarrow> (school, 'a) code" where
  "reads_from f s = check (f s) s"

definition does :: "(school \<Rightarrow> school res) \<Rightarrow> (school, unit) code" where
  "does f s = (case f s of Inl e \<Rightarrow> Undef e | Inr t \<Rightarrow> Done () t)"

definition ask_line :: "(school, string) code" where
  "ask_line s = (let (line, c) = get_line (shows_on [''>> ''] (s_console s)) in Done line (s\<lparr>s_console := c\<rparr>))"

text \<open>\<open>cout << ">> "; cin >> choice; cin.ignore ();\<close> and the use of the choice.\<close>

definition ask_choice :: "(school, int) code" where
  "ask_choice s =
     (let (n, c) = extract_int (s_choice s) (shows_on [''>> ''] (s_console s)) in
      case n of
        None \<Rightarrow> Undef UninitRead
      | Some k \<Rightarrow> Done k (s\<lparr>s_choice := n, s_console := ignore_char c\<rparr>))"

section \<open>Adding and selecting\<close>

text \<open>
  The words of a line, with a blank between them; the last word is the ID when nothing follows it,
  and then the name keeps the blank before it.
\<close>

fun split_person :: "bool \<Rightarrow> string list \<Rightarrow> string \<Rightarrow> string \<times> string" where
  "split_person at_end [] name = (name, [])"
| "split_person at_end (w # ws) name =
     (let name = (if name \<noteq> [] then name @ '' '' else name) in
      if ws = [] \<and> at_end then (name, w) else split_person at_end ws (name @ w))"

definition parse_person :: "string \<Rightarrow> (string \<times> int) option" where
  "parse_person line =
     (let (name, ID_str) = split_person (line \<noteq> [] \<and> \<not> isspace (last line)) (tokenize line) [] in
      if ID_str = [] then Some (name, 0) else map_option (Pair name) (stoi ID_str))"

text \<open>The first word is the code; what follows it, less one blank, is the name of the course.\<close>

definition parse_course :: "string \<Rightarrow> string \<times> string" where
  "parse_course line =
     (let s = skip_ws line; code = takeWhile (\<lambda>c. \<not> isspace c) s; rest = dropWhile (\<lambda>c. \<not> isspace c) s;
          name = takeWhile (\<lambda>c. c \<noteq> LF) rest in
      (code, if name \<noteq> [] \<and> hd name = CHR '' '' then tl name else name))"

definition add_student :: "(school, unit) code" where
  "add_student = seq ask_line (\<lambda>line. case parse_person line of
       None \<Rightarrow> throw
     | Some (name, ID) \<Rightarrow> does (\<lambda>s. let (a, s1) = new_student name ID s in
         rbind (push a (all_students s1)) (\<lambda>d. Inr (s1\<lparr>all_students := d\<rparr>))))"

definition select_student :: "(school, nat) code" where
  "select_student = seq ask_line (\<lambda>line. case parse_person line of
       None \<Rightarrow> throw
     | Some (name, ID) \<Rightarrow> reads_from (\<lambda>s.
         rbind (find_index (\<lambda>a. rbind (get_student s a) (\<lambda>st. Inr (st_ID st = ID))) (all_students s) 0) (\<lambda>found.
           case found of None \<Rightarrow> Inl MissingReturn | Some i \<Rightarrow> element (all_students s) (int i))))"

definition add_course :: "(school, unit) code" where
  "add_course = seq ask_line (\<lambda>line. let (code, name) = parse_course line in
     does (\<lambda>s. let (a, s1) = new_course name code s in
       rbind (push a (all_courses s1)) (\<lambda>d. Inr (s1\<lparr>all_courses := d\<rparr>))))"

definition select_course :: "(school, nat) code" where
  "select_course = seq ask_line (\<lambda>line. let (code, name) = parse_course line in
     reads_from (\<lambda>s.
       rbind (find_index (\<lambda>a. rbind (get_course s a) (\<lambda>c. Inr (co_code c = code))) (all_courses s) 0) (\<lambda>found.
         case found of None \<Rightarrow> Inl MissingReturn | Some i \<Rightarrow> element (all_courses s) (int i))))"

section \<open>Deleting\<close>

text \<open>
  A student is taken off the list of each of its courses, looked up by code. The array of its
  courses, which the loop keeps a pointer to, is not changed by this.
\<close>

definition leave_course :: "nat \<Rightarrow> nat \<Rightarrow> school \<Rightarrow> school res" where
  "leave_course student c s =
     rbind (find_index (\<lambda>k. same_code s k c) (all_courses s) 0) (\<lambda>found.
       case found of None \<Rightarrow> Inr s
       | Some k \<Rightarrow> rbind (element (all_courses s) (int k)) (\<lambda>course. remove_student course (Ref student) s))"

function leave_courses :: "nat \<Rightarrow> dyn \<Rightarrow> nat \<Rightarrow> school \<Rightarrow> school res" where
  "leave_courses student d j s =
     (if j < d_num d then
        rbind (element d (int j)) (\<lambda>c. rbind (leave_course student c s) (leave_courses student d (j + 1)))
      else Inr s)"
  by pat_completeness auto
termination
  by (relation "measure (\<lambda>(student, d, j, s). d_num d - j)") auto

definition leave_student :: "nat \<Rightarrow> nat \<Rightarrow> school \<Rightarrow> school res" where
  "leave_student course st s =
     rbind (find_index (\<lambda>k. same_ID s k st) (all_students s) 0) (\<lambda>found.
       case found of None \<Rightarrow> Inr s
       | Some k \<Rightarrow> rbind (element (all_students s) (int k)) (\<lambda>student. remove_course student (Ref course) s))"

function leave_students :: "nat \<Rightarrow> dyn \<Rightarrow> nat \<Rightarrow> school \<Rightarrow> school res" where
  "leave_students course d j s =
     (if j < d_num d then
        rbind (element d (int j)) (\<lambda>st. rbind (leave_student course st s) (leave_students course d (j + 1)))
      else Inr s)"
  by pat_completeness auto
termination
  by (relation "measure (\<lambda>(course, d, j, s). d_num d - j)") auto

declare leave_courses.simps [simp del] leave_students.simps [simp del]

text \<open>Nothing of this changes the two tables.\<close>

definition tables :: "school \<Rightarrow> dyn \<times> dyn" where
  "tables s = (all_students s, all_courses s)"

lemma tables_put [simp]: "tables (put_student a x s) = tables s" "tables (put_course b y s) = tables s"
  by (simp_all add: tables_def put_student_def put_course_def)

lemma tables_leave: "leave_course student c s = Inr t \<Longrightarrow> tables t = tables s"
  "leave_student course st s = Inr t \<Longrightarrow> tables t = tables s"
  by (auto simp: leave_course_def leave_student_def remove_student_def remove_course_def rbind_eq_Inr split: option.splits)

lemma tables_leave_courses: "leave_courses student d j s = Inr t \<Longrightarrow> tables t = tables s"
proof (induction student d j s rule: leave_courses.induct)
  case (1 student d j s)
  show ?case using "1.prems" "1.IH"
    by (subst (asm) leave_courses.simps) (fastforce simp: rbind_eq_Inr split: if_splits dest: tables_leave)
qed

lemma tables_leave_students: "leave_students course d j s = Inr t \<Longrightarrow> tables t = tables s"
proof (induction course d j s rule: leave_students.induct)
  case (1 course d j s)
  show ?case using "1.prems" "1.IH"
    by (subst (asm) leave_students.simps) (fastforce simp: rbind_eq_Inr split: if_splits dest: tables_leave)
qed

lemma tables_destroy: "destroy ds s = Inr t \<Longrightarrow> tables t = tables s"
  by (induction ds s rule: destroy.induct) (auto simp: rbind_eq_Inr tables_def)

lemma d_num_take_out: "take_out i d = Inr e \<Longrightarrow> d_num e = d_num d - 1"
  by (auto simp: take_out_def rbind_eq_Inr split: option.splits)

text \<open>The loop goes on after it has found the object, which it has then deleted.\<close>

function delete_student_from :: "nat \<Rightarrow> nat \<Rightarrow> school \<Rightarrow> school res" where
  "delete_student_from student i s =
     (if i < d_num (all_students s) then
        rbind (element (all_students s) (int i)) (\<lambda>a.
        rbind (same_ID s a student) (\<lambda>same.
          if same then
            rbind (get_student s a) (\<lambda>st.
            rbind (leave_courses student (st_courses st) 0 s) (\<lambda>s.
            rbind (destroy [Student_at (Ref student)] s) (\<lambda>s.
            rbind (take_out i (all_students s)) (\<lambda>d.
              delete_student_from student (i + 1) (s\<lparr>all_students := d\<rparr>)))))
          else delete_student_from student (i + 1) s))
      else Inr s)"
  by pat_completeness auto

termination
  by (relation "measure (\<lambda>(student, i, s). d_num (all_students s) - i)")
    (auto dest!: d_num_take_out tables_leave_courses tables_destroy simp: tables_def simp del: destroy.simps)

function delete_course_from :: "nat \<Rightarrow> nat \<Rightarrow> school \<Rightarrow> school res" where
  "delete_course_from course i s =
     (if i < d_num (all_courses s) then
        rbind (element (all_courses s) (int i)) (\<lambda>a.
        rbind (same_code s a course) (\<lambda>same.
          if same then
            rbind (get_course s a) (\<lambda>c.
            rbind (leave_students course (co_students c) 0 s) (\<lambda>s.
            rbind (destroy [Course_at (Ref course)] s) (\<lambda>s.
            rbind (take_out i (all_courses s)) (\<lambda>d.
              delete_course_from course (i + 1) (s\<lparr>all_courses := d\<rparr>)))))
          else delete_course_from course (i + 1) s))
      else Inr s)"
  by pat_completeness auto
termination
  by (relation "measure (\<lambda>(course, i, s). d_num (all_courses s) - i)")
    (auto dest!: d_num_take_out tables_leave_students tables_destroy simp: tables_def simp del: destroy.simps)

declare delete_student_from.simps [simp del] delete_course_from.simps [simp del]

definition delete_student :: "nat \<Rightarrow> (school, unit) code" where
  "delete_student student = does (delete_student_from student 0)"

definition delete_course :: "nat \<Rightarrow> (school, unit) code" where
  "delete_course course = does (delete_course_from course 0)"

section \<open>Listing\<close>

text \<open>A line for each of the first elements of an array.\<close>

function list_loop :: "(nat \<Rightarrow> nat \<Rightarrow> string res) \<Rightarrow> dyn \<Rightarrow> nat \<Rightarrow> string list res" where
  "list_loop f d i =
     (if i < d_num d then
        rbind (element d (int i)) (\<lambda>a. rbind (f i a) (\<lambda>l. rbind (list_loop f d (i + 1)) (\<lambda>ls. Inr (l # ls))))
      else Inr [])"
  by pat_completeness auto
termination
  by (relation "measure (\<lambda>(f, d, i). d_num d - i)") auto

declare list_loop.simps [simp del]

definition student_line :: "school \<Rightarrow> nat \<Rightarrow> string res" where
  "student_line s a = rbind (get_student s a) (\<lambda>st. Inr (st_name st @ fmt_d (st_ID st) @ nl))"

definition course_line :: "school \<Rightarrow> nat \<Rightarrow> string res" where
  "course_line s a = rbind (get_course s a) (\<lambda>c. Inr (co_code c @ '' '' @ co_name c @ nl))"

definition numbered_line :: "school \<Rightarrow> nat \<Rightarrow> nat \<Rightarrow> string res" where
  "numbered_line s i a = rbind (course_line s a) (\<lambda>l. Inr (fmt_d (int i + 1) @ '' '' @ l))"

definition prints :: "(school \<Rightarrow> string list res) \<Rightarrow> (school, unit) code" where
  "prints f = does (\<lambda>s. rbind (f s) (\<lambda>ls. Inr (show_text ls s)))"

definition list_students :: "nat \<Rightarrow> (school, unit) code" where
  "list_students course = prints (\<lambda>s. rbind (get_course s course) (\<lambda>c. list_loop (\<lambda>i. student_line s) (co_students c) 0))"

definition list_all_students :: "(school, unit) code" where
  "list_all_students = prints (\<lambda>s. list_loop (\<lambda>i. student_line s) (all_students s) 0)"

definition list_all_courses :: "(school, unit) code" where
  "list_all_courses = prints (\<lambda>s. list_loop (\<lambda>i. course_line s) (all_courses s) 0)"

definition list_courses_taken :: "nat \<Rightarrow> (school, unit) code" where
  "list_courses_taken student = prints (\<lambda>s. rbind (get_student s student) (\<lambda>st. list_loop (numbered_line s) (st_courses st) 0))"

text \<open>The courses that the student has not taken are collected in an array of their own.\<close>

function available_courses :: "school \<Rightarrow> dyn \<Rightarrow> nat \<Rightarrow> slot list \<Rightarrow> nat \<Rightarrow> (slot list \<times> nat) res" where
  "available_courses s taken i av k =
     (if i < d_num (all_courses s) then
        rbind (element (all_courses s) (int i)) (\<lambda>c.
        rbind (find_index (\<lambda>t. same_code s c t) taken 0) (\<lambda>found.
          if found = None then
            rbind (wr av k (Ref c)) (\<lambda>av. available_courses s taken (i + 1) av (k + 1))
          else available_courses s taken (i + 1) av k))
      else Inr (av, k))"
  by pat_completeness auto
termination
  by (relation "measure (\<lambda>(s, taken, i, av, k). d_num (all_courses s) - i)") auto

declare available_courses.simps [simp del]

text \<open>\<open>new Course* [n]\<close> throws when n is negative.\<close>

definition list_courses :: "nat \<Rightarrow> (school, slot list) code" where
  "list_courses student =
     seq (reads_from (\<lambda>s. get_student s student)) (\<lambda>st.
     seq (asks (\<lambda>s. d_num (all_courses s))) (\<lambda>n.
       if n < d_num (st_courses st) then throw
       else seq (reads_from (\<lambda>s. available_courses s (st_courses st) 0 (replicate (n - d_num (st_courses st)) Unset) 0)) (\<lambda>(av, k).
         seq (prints (\<lambda>s. list_loop (numbered_line s) \<lparr>d_cells = Some av, d_num = k, d_size = length av\<rparr> 0)) (\<lambda>u.
           ret av))))"

section \<open>The menus\<close>

definition main_menu :: "string list" where
  "main_menu = [''0 exit'' @ nl, ''1 student'' @ nl, ''2 course'' @ nl, ''3 list_all_students'' @ nl, ''4 list_all_courses'' @ nl]"

definition student_menu :: "string list" where
  "student_menu = [''0 up'' @ nl, ''1 add_student'' @ nl, ''2 select_student'' @ nl]"

definition select_student_menu :: "string list" where
  "select_student_menu = [''0 up'' @ nl, ''1 delete_student'' @ nl, ''3 add_selected_student_to_a_course'' @ nl,
     ''4 drop_selected_student_from_a_course'' @ nl]"

definition course_menu :: "string list" where
  "course_menu = [''0 up'' @ nl, ''1 add_course'' @ nl, ''2 select_course'' @ nl]"

definition select_course_menu :: "string list" where
  "select_course_menu = [''0 up'' @ nl, ''1 delete_course (after delete, print course menu)'' @ nl,
     ''2 list_students_registered_to_the_selected_course'' @ nl]"

definition goes :: "menu \<Rightarrow> (school, unit) code" where
  "goes m = change (\<lambda>s. s\<lparr>s_menu := m\<rparr>)"

definition menu_turn :: "string list \<Rightarrow> (int \<Rightarrow> (school, unit) code) \<Rightarrow> (school, unit) code" where
  "menu_turn ls f = seq (change (show_text ls)) (\<lambda>u. seq ask_choice f)"

text \<open>An element of an array that has been written; a pointer that has not is not even to be copied.\<close>

definition slot_of :: "slot res \<Rightarrow> slot res" where
  "slot_of r = rbind r (\<lambda>x. if x = Unset then Inl UninitRead else Inr x)"

definition enrol :: "nat \<Rightarrow> (school, unit) code" where
  "enrol student =
     seq (list_courses student) (\<lambda>av. seq ask_choice (\<lambda>n.
       if n = 0 then ret ()
       else seq (check (rbind (sub_int n 1) (element \<lparr>d_cells = Some av, d_num = length av, d_size = length av\<rparr>))) (\<lambda>course.
         seq (does (add_course_to student course)) (\<lambda>u. does (add_student_to course student)))))"

text \<open>The pointer to the array of the student's courses is used again after it has changed.\<close>

definition drop_course :: "nat \<Rightarrow> (school, unit) code" where
  "drop_course student =
     seq (list_courses_taken student) (\<lambda>u. seq ask_choice (\<lambda>n.
       if n = 0 then ret ()
       else seq (check (sub_int n 1)) (\<lambda>j.
         seq (reads_from (\<lambda>s. rbind (get_student s student) (\<lambda>st. slot_of (cell (st_courses st) j)))) (\<lambda>course.
         seq (does (remove_course student course)) (\<lambda>u.
         seq (reads_from (\<lambda>s. rbind (get_student s student) (\<lambda>st. element (st_courses st) j))) (\<lambda>course.
           does (remove_student course (Ref student))))))))"

definition school_step :: "(school, unit) code" where
  "school_step s = (case s_menu s of
       MainMenu \<Rightarrow> menu_turn main_menu (\<lambda>n.
         if n = 0 then seq (goes Ended) (\<lambda>u. does destroy_system)
         else if n = 1 then goes StudentMenu
         else if n = 2 then goes CourseMenu
         else if n = 3 then list_all_students
         else if n = 4 then list_all_courses
         else ret ()) s
     | StudentMenu \<Rightarrow> menu_turn student_menu (\<lambda>n.
         if n = 0 then goes MainMenu
         else if n = 1 then add_student
         else if n = 2 then seq select_student (\<lambda>a. goes (ChosenStudent a))
         else ret ()) s
     | ChosenStudent a \<Rightarrow> menu_turn select_student_menu (\<lambda>n.
         if n = 0 then goes StudentMenu
         else if n = 1 then seq (delete_student a) (\<lambda>u. goes StudentMenu)
         else if n = 3 then enrol a
         else if n = 4 then drop_course a
         else ret ()) s
     | CourseMenu \<Rightarrow> menu_turn course_menu (\<lambda>n.
         if n = 0 then goes MainMenu
         else if n = 1 then add_course
         else if n = 2 then seq select_course (\<lambda>a. goes (ChosenCourse a))
         else ret ()) s
     | ChosenCourse a \<Rightarrow> menu_turn select_course_menu (\<lambda>n.
         if n = 0 then goes CourseMenu
         else if n = 1 then seq (delete_course a) (\<lambda>u. goes CourseMenu)
         else if n = 2 then list_students a
         else ret ()) s
     | Ended \<Rightarrow> Done () s)"

text \<open>A run of at most so many turns; None when the program is still running then.\<close>

fun run_school :: "nat \<Rightarrow> school \<Rightarrow> (school, unit) outcome option" where
  "run_school 0 s = (if s_menu s = Ended then Some (Done () s) else None)"
| "run_school (Suc n) s = (if s_menu s = Ended then Some (Done () s) else
     (case school_step s of Done u t \<Rightarrow> run_school n t | r \<Rightarrow> Some r))"

end
