(* ===== verification/School_Arrays.thy ===== *)
theory School_Arrays
  imports School_Menu
begin

text \<open>
  The growing arrays hold lists of addresses, and the loops over them are functions of these lists.
\<close>

section \<open>The list that an array holds\<close>

definition array_holds :: "dyn \<Rightarrow> nat list \<Rightarrow> bool" where
  "array_holds d as \<longleftrightarrow> d_num d = length as \<and> 0 < d_size d \<and>
     (case d_cells d of
        None \<Rightarrow> as = []
      | Some cs \<Rightarrow> \<exists>rest. cs = map Ref as @ rest \<and> length cs = d_size d \<and> set rest \<subseteq> {Null, Unset})"

fun addresses :: "slot list \<Rightarrow> nat list" where
  "addresses (Ref a # xs) = a # addresses xs"
| "addresses (x # xs) = addresses xs"
| "addresses [] = []"

definition refs :: "dyn \<Rightarrow> nat list" where
  "refs d = (case d_cells d of None \<Rightarrow> [] | Some cs \<Rightarrow> addresses cs)"

definition dyn_ok :: "dyn \<Rightarrow> bool" where
  "dyn_ok d \<longleftrightarrow> array_holds d (refs d)"

lemma addresses_append [simp]: "addresses (map Ref as @ rest) = as @ addresses rest"
  by (induction as) auto

lemma addresses_none: "set rest \<subseteq> {Null, Unset} \<Longrightarrow> addresses rest = []"
  by (induction rest) auto

lemma holds_refs: "array_holds d as \<Longrightarrow> refs d = as"
  by (auto simp: array_holds_def refs_def addresses_none split: option.splits)

lemma dyn_okI: "array_holds d as \<Longrightarrow> dyn_ok d \<and> refs d = as"
  by (simp add: dyn_ok_def holds_refs)

lemma holds_num: "array_holds d as \<Longrightarrow> d_num d = length as"
  by (simp add: array_holds_def)

lemma holds_new: "array_holds new_dyn []"
  by (simp add: array_holds_def new_dyn_def)

lemma refs_new [simp]: "refs new_dyn = []" "dyn_ok new_dyn"
  using dyn_okI [OF holds_new] by auto

lemma holds_cells:
  assumes "array_holds d as" "as \<noteq> []"
  obtains cs rest where "d_cells d = Some cs" "cs = map Ref as @ rest" "length cs = d_size d" "set rest \<subseteq> {Null, Unset}"
  using assms by (auto simp: array_holds_def split: option.splits)

section \<open>The operations of an array\<close>

lemma copy_cells_spec:
  assumes "n \<le> length from" "n \<le> length temp" "i \<le> n"
  shows "copy_cells from temp i n = Inr (take i temp @ drop i (take n from) @ drop n temp)"
  using assms
proof (induction "from" temp i n rule: copy_cells.induct)
  case (1 "from" temp i n)
  show ?case
  proof (cases "i < n")
    case True
    let ?t = "temp[i := from ! i]"
    have "copy_cells from temp i n = copy_cells from ?t (i + 1) n"
      using True "1.prems" by (simp add: copy_cells.simps [of "from" temp i])
    also have "\<dots> = Inr (take (i + 1) ?t @ drop (i + 1) (take n from) @ drop n ?t)"
      using "1.IH" True "1.prems" by simp
    also have "take (i + 1) ?t = take i temp @ [from ! i]"
      using True "1.prems" by (simp add: take_Suc_conv_app_nth)
    finally show ?thesis
      using True "1.prems" by (simp add: Cons_nth_drop_Suc [of i "take n from", symmetric])
  next
    case False
    with "1.prems" have "i = n" by simp
    with "1.prems" show ?thesis by (simp add: copy_cells.simps [of "from" temp n])
  qed
qed

lemma holds_push:
  assumes "array_holds d as"
  shows "\<exists>e. push a d = Inr e \<and> array_holds e (as @ [a])"
proof (cases "d_cells d")
  case None
  then obtain k where "d_size d = Suc k" "as = []" using assms by (cases "d_size d") (auto simp: array_holds_def)
  with None assms show ?thesis
    by (auto simp: push_def array_holds_def intro!: exI [of _ "replicate k Unset"])
next
  case (Some cs)
  with assms obtain rest where cs: "cs = map Ref as @ rest" "length cs = d_size d" "set rest \<subseteq> {Null, Unset}" "d_num d = length as" "0 < d_size d"
    by (auto simp: array_holds_def)
  show ?thesis
  proof (cases "d_size d \<le> d_num d")
    case True
    moreover have "length as + length rest = d_size d" using cs by simp
    ultimately have "length rest = 0" using cs(4) by linarith
    then have [simp]: "rest = []" by simp
    have n: "d_num d = d_size d" using cs by simp
    have "copy_cells cs (replicate (d_size d * 2) Unset) 0 (d_num d) = Inr (cs @ replicate (d_size d) Unset)"
      using cs n by (subst copy_cells_spec) auto
    moreover obtain k where k: "d_size d = Suc k" using cs(5) by (cases "d_size d") auto
    then have "replicate (d_size d) Unset = Unset # replicate k Unset" by simp
    then have "wr (cs @ replicate (d_size d) Unset) (d_num d) (Ref a) = Inr (map Ref (as @ [a]) @ replicate k Unset)"
      using cs n by (simp add: wr_def list_update_append)
    ultimately have "push a d = Inr (d\<lparr>d_cells := Some (map Ref (as @ [a]) @ replicate k Unset), d_size := d_size d * 2, d_num := d_num d + 1\<rparr>)"
      using True Some by (simp add: push_def del: replicate.simps)
    then show ?thesis using cs n k by (auto simp: array_holds_def)
  next
    case False
    then obtain x r where r: "rest = x # r" using cs by (cases rest) auto
    with cs False Some show ?thesis
      by (auto simp: push_def array_holds_def list_update_append intro!: exI [of _ r])
  qed
qed

lemma holds_element: "array_holds d as \<Longrightarrow> i < length as \<Longrightarrow> element d (int i) = Inr (as ! i)"
  by (erule holds_cells) (auto simp: element_def cell_def target_def nth_append)

lemma holds_cell_after:
  assumes "array_holds d as" "\<not> (0 \<le> j \<and> nat j < length as)"
  shows "cell d j \<in> {Inl NullDeref, Inl OutOfBounds, Inr Null, Inr Unset}"
proof (cases "d_cells d")
  case (Some cs)
  with assms obtain rest where cs: "cs = map Ref as @ rest" "set rest \<subseteq> {Null, Unset}" by (auto simp: array_holds_def)
  show ?thesis
  proof (cases "0 \<le> j \<and> nat j < length cs")
    case True
    then have "cs ! nat j = rest ! (nat j - length as)" "nat j - length as < length rest"
      using cs assms(2) by (auto simp: nth_append)
    then have "cs ! nat j \<in> set rest" by simp
    then show ?thesis using True Some cs(2) by (auto simp: cell_def)
  qed (use Some in \<open>auto simp: cell_def rd_def\<close>)
qed (simp add: cell_def)

lemma holds_cell: "array_holds d as \<Longrightarrow> i < length as \<Longrightarrow> cell d (int i) = Inr (Ref (as ! i))"
  by (erule holds_cells) (auto simp: cell_def nth_append)

lemma holds_search_from:
  assumes "array_holds d as" "\<forall>a \<in> set as. p a = Inr (q a)" "i \<le> length as"
  shows "find_index p d i = Inr (map_option ((+) i) (first_index q (drop i as)))"
  using assms
proof (induction p d i rule: find_index.induct)
  case (1 p d i)
  show ?case
  proof (cases "i < length as")
    case True
    then have "drop i as = as ! i # drop (i + 1) as" by (simp add: Cons_nth_drop_Suc)
    moreover have "p (as ! i) = Inr (q (as ! i))" using "1.prems"(2) True by auto
    moreover have "find_index p d i = (if q (as ! i) then Inr (Some i) else find_index p d (i + 1))"
      using True calculation(2) holds_element [OF "1.prems"(1) True] holds_num [OF "1.prems"(1)]
      by (simp add: find_index.simps [of p d i])
    moreover have "find_index p d (i + 1) = Inr (map_option ((+) (i + 1)) (first_index q (drop (i + 1) as)))" if "\<not> q (as ! i)"
      using "1.IH" True calculation(2) that holds_element [OF "1.prems"(1) True]
        holds_num [OF "1.prems"(1)] "1.prems" by (cases "first_index q (drop (i + 1) as)") auto
    ultimately show ?thesis by (cases "first_index q (drop (i + 1) as)") auto
  next
    case False
    with "1.prems" show ?thesis using holds_num [OF "1.prems"(1)] by (simp add: find_index.simps [of p d "length as"])
  qed
qed

lemma holds_search:
  assumes "array_holds d as" "\<forall>a \<in> set as. p a = Inr (q a)"
  shows "find_index p d 0 = Inr (first_index q as)"
  using holds_search_from [OF assms, of 0] by (cases "first_index q as") auto

lemma holds_take_out:
  assumes "array_holds d as" "i < length as"
  shows "\<exists>e. take_out i d = Inr e \<and> array_holds e (remove_nth i as)"
proof -
  obtain cs rest where cs: "d_cells d = Some cs" "cs = map Ref as @ rest" "length cs = d_size d" "set rest \<subseteq> {Null, Unset}"
    using holds_cells [OF assms(1)] assms(2) by (metis less_zeroE list.size(3))
  have n: "d_num d = length as" using assms(1) by (simp add: array_holds_def)
  have "take i cs @ drop (Suc i) (take (length as) cs) = map Ref (remove_nth i as)"
    using assms(2) cs(2) by (simp add: remove_nth_def take_map drop_map)
  moreover have "drop (length as - 1) cs = Ref (last as) # rest"
    using assms(2) cs(2) by (cases as rule: rev_cases) auto
  ultimately have "shift_left cs i (length as) = Inr (map Ref (remove_nth i as) @ Ref (last as) # rest)"
    using shift_left_spec [of "length as" cs i] assms(2) cs(2) by (simp flip: append_assoc)
  moreover have "length as - 1 = length (map Ref (remove_nth i as))" using assms(2) by simp
  then have "wr (map Ref (remove_nth i as) @ Ref (last as) # rest) (length as - 1) Null = Inr (map Ref (remove_nth i as) @ Null # rest)"
    by (simp add: list_update_append)
  moreover have "length (map Ref (remove_nth i as) @ Null # rest) = d_size d"
    using cs(2,3) assms(2) by simp
  ultimately show ?thesis
    using cs assms n by (auto simp: take_out_def array_holds_def intro!: exI [of _ "Null # rest"])
qed

lemma holds_elements: "array_holds d as \<Longrightarrow> elements_of d = Inr (map Ref as)" "array_holds d as \<Longrightarrow> owned d = Inr (map Ref as)"
  by (auto simp: array_holds_def elements_of_def owned_def split: option.splits)

lemma owned_new [simp]: "owned new_dyn = Inr []"
  by (simp add: owned_def new_dyn_def)

lemma holds_list_from:
  assumes "array_holds d as" "\<forall>i < length as. f i (as ! i) = Inr (g i (as ! i))"
  shows "list_loop f d i = Inr (map (\<lambda>i. g i (as ! i)) [i..<length as])"
  using assms
proof (induction f d i rule: list_loop.induct)
  case (1 f d i)
  show ?case
  proof (cases "i < length as")
    case True
    then have "list_loop f d (i + 1) = Inr (map (\<lambda>i. g i (as ! i)) [i + 1..<length as])"
      using "1.IH" "1.prems" holds_element [OF "1.prems"(1) True] holds_num [OF "1.prems"(1)] by simp
    then show ?thesis
      using True "1.prems" holds_element [OF "1.prems"(1) True] holds_num [OF "1.prems"(1)]
      by (simp add: list_loop.simps [of f d i] upt_conv_Cons)
  qed (use holds_num [OF "1.prems"(1)] in \<open>simp add: list_loop.simps [of f d i]\<close>)
qed

lemma holds_list:
  assumes "array_holds d as" "\<forall>i < length as. f i (as ! i) = Inr (g i (as ! i))"
  shows "list_loop f d 0 = Inr (map (\<lambda>i. g i (as ! i)) [0..<length as])"
  by (rule holds_list_from) (use assms in auto)

end
