(* ===== verification/School_Spec.thy ===== *)
theory School_Spec
  imports School_Menu
begin

text \<open>
  What the school management does, without pointers: the register is a list of pupils, each with
  the courses it has taken, and a list of subjects, each with its members. The places at which the
  program has undefined behaviour are conditions on these lists.
\<close>

record pupil =
  p_name :: string
  p_ID :: int
  p_taken :: "(string \<times> string) list"

record subject =
  su_name :: string
  su_code :: string
  su_members :: "(string \<times> int) list"

text \<open>The menu holds the position of the selected pupil or subject.\<close>

record register =
  pupils :: "pupil list"
  subjects :: "subject list"
  r_choice :: "int option"
  r_menu :: menu
  r_console :: console

definition subject_key :: "subject \<Rightarrow> string \<times> string" where
  "subject_key c = (su_code c, su_name c)"

definition person :: "pupil \<Rightarrow> string \<times> int" where
  "person p = (p_name p, p_ID p)"

definition remove_first :: "('a \<Rightarrow> bool) \<Rightarrow> 'a list \<Rightarrow> 'a list" where
  "remove_first q xs = (case first_index q xs of None \<Rightarrow> xs | Some i \<Rightarrow> remove_nth i xs)"

definition update_first :: "('a \<Rightarrow> bool) \<Rightarrow> ('a \<Rightarrow> 'a) \<Rightarrow> 'a list \<Rightarrow> 'a list" where
  "update_first q f xs = (case first_index q xs of None \<Rightarrow> xs | Some i \<Rightarrow> xs[i := f (xs ! i)])"

section \<open>Changes of the register\<close>

text \<open>A pupil leaves the first subject with a code, a subject is taken off the first pupil with an ID.\<close>

definition unlist :: "int \<Rightarrow> string \<Rightarrow> subject list \<Rightarrow> subject list" where
  "unlist ID code = update_first (\<lambda>c. su_code c = code)
     (\<lambda>c. c\<lparr>su_members := remove_first (\<lambda>m. snd m = ID) (su_members c)\<rparr>)"

definition withdraw :: "string \<Rightarrow> int \<Rightarrow> pupil list \<Rightarrow> pupil list" where
  "withdraw code ID = update_first (\<lambda>p. p_ID p = ID)
     (\<lambda>p. p\<lparr>p_taken := remove_first (\<lambda>c. fst c = code) (p_taken p)\<rparr>)"

definition delete_pupil :: "nat \<Rightarrow> register \<Rightarrow> register" where
  "delete_pupil i r = (let p = pupils r ! i in
     r\<lparr>pupils := remove_nth i (pupils r), subjects := fold (unlist (p_ID p)) (map fst (p_taken p)) (subjects r)\<rparr>)"

definition delete_subject :: "nat \<Rightarrow> register \<Rightarrow> register" where
  "delete_subject i r = (let c = subjects r ! i in
     r\<lparr>subjects := remove_nth i (subjects r), pupils := fold (withdraw (su_code c)) (map snd (su_members c)) (pupils r)\<rparr>)"

definition take_subject :: "nat \<Rightarrow> nat \<Rightarrow> register \<Rightarrow> register" where
  "take_subject i k r = (let p = pupils r ! i; c = subjects r ! k in
     r\<lparr>pupils := (pupils r)[i := p\<lparr>p_taken := p_taken p @ [subject_key c]\<rparr>],
       subjects := (subjects r)[k := c\<lparr>su_members := su_members c @ [person p]\<rparr>]\<rparr>)"

text \<open>A dropped course leaves the pupil's list, but not the members of the course.\<close>

definition drop_subject :: "nat \<Rightarrow> nat \<Rightarrow> register \<Rightarrow> register" where
  "drop_subject i j r = (let p = pupils r ! i; code = fst (p_taken p ! j) in
     r\<lparr>pupils := (pupils r)[i := p\<lparr>p_taken := remove_first (\<lambda>c. fst c = code) (p_taken p)\<rparr>]\<rparr>)"

text \<open>The positions of the subjects that a pupil has not taken.\<close>

definition available :: "pupil \<Rightarrow> subject list \<Rightarrow> nat list" where
  "available p cs = filter (\<lambda>k. su_code (cs ! k) \<notin> fst ` set (p_taken p)) [0..<length cs]"

section \<open>The steps\<close>

definition print_out :: "string list \<Rightarrow> (register, unit) code" where
  "print_out ls = change (\<lambda>r. r\<lparr>r_console := shows_on ls (r_console r)\<rparr>)"

definition hear_line :: "(register, string) code" where
  "hear_line r = (let (line, c) = get_line (shows_on [''>> ''] (r_console r)) in Done line (r\<lparr>r_console := c\<rparr>))"

definition hear_choice :: "(register, int) code" where
  "hear_choice r =
     (let (n, c) = extract_int (r_choice r) (shows_on [''>> ''] (r_console r)) in
      case n of
        None \<Rightarrow> Undef UninitRead
      | Some k \<Rightarrow> Done k (r\<lparr>r_choice := n, r_console := ignore_char c\<rparr>))"

definition moves :: "menu \<Rightarrow> (register, unit) code" where
  "moves m = change (\<lambda>r. r\<lparr>r_menu := m\<rparr>)"

definition person_line :: "string \<times> int \<Rightarrow> string" where
  "person_line m = fst m @ fmt_d (snd m) @ nl"

definition key_line :: "string \<times> string \<Rightarrow> string" where
  "key_line c = fst c @ '' '' @ snd c @ nl"

definition numbered :: "(string \<times> string) list \<Rightarrow> string list" where
  "numbered cs = map (\<lambda>i. fmt_d (int i + 1) @ '' '' @ key_line (cs ! i)) [0..<length cs]"

definition spec_add_student :: "(register, unit) code" where
  "spec_add_student = seq hear_line (\<lambda>line. case parse_person line of
       None \<Rightarrow> throw
     | Some (name, ID) \<Rightarrow> change (\<lambda>r. r\<lparr>pupils := pupils r @ [\<lparr>p_name = name, p_ID = ID, p_taken = []\<rparr>]\<rparr>))"

definition spec_add_course :: "(register, unit) code" where
  "spec_add_course = seq hear_line (\<lambda>line. let (code, name) = parse_course line in
     change (\<lambda>r. r\<lparr>subjects := subjects r @ [\<lparr>su_name = name, su_code = code, su_members = []\<rparr>]\<rparr>))"

definition spec_select_student :: "(register, unit) code" where
  "spec_select_student = seq hear_line (\<lambda>line. case parse_person line of
       None \<Rightarrow> throw
     | Some (name, ID) \<Rightarrow> seq (asks (\<lambda>r. first_index (\<lambda>p. p_ID p = ID) (pupils r))) (\<lambda>found.
         case found of None \<Rightarrow> check (Inl MissingReturn) | Some i \<Rightarrow> moves (ChosenStudent i)))"

definition spec_select_course :: "(register, unit) code" where
  "spec_select_course = seq hear_line (\<lambda>line. let (code, name) = parse_course line in
     seq (asks (\<lambda>r. first_index (\<lambda>c. su_code c = code) (subjects r))) (\<lambda>found.
       case found of None \<Rightarrow> check (Inl MissingReturn) | Some i \<Rightarrow> moves (ChosenCourse i)))"

text \<open>A deletion before the last two positions reads the object that it has deleted.\<close>

definition spec_delete_student :: "nat \<Rightarrow> (register, unit) code" where
  "spec_delete_student i = seq (asks (\<lambda>r. length (pupils r))) (\<lambda>n.
     if i + 2 < n then check (Inl UseAfterFree) else change (delete_pupil i))"

definition spec_delete_course :: "nat \<Rightarrow> (register, unit) code" where
  "spec_delete_course i = seq (asks (\<lambda>r. length (subjects r))) (\<lambda>n.
     if i + 2 < n then check (Inl UseAfterFree) else change (delete_subject i))"

definition spec_enrol :: "nat \<Rightarrow> (register, unit) code" where
  "spec_enrol i =
     seq (asks (\<lambda>r. (length (subjects r), pupils r ! i, subjects r))) (\<lambda>(n, p, cs).
       if n < length (p_taken p) then throw
       else if n - length (p_taken p) < length (available p cs) then check (Inl OutOfBounds)
       else seq (print_out (numbered (map (\<lambda>k. subject_key (cs ! k)) (available p cs)))) (\<lambda>u.
       seq hear_choice (\<lambda>m.
         if m = 0 then ret ()
         else if 1 \<le> m \<and> nat m \<le> length (available p cs) then change (take_subject i (available p cs ! (nat m - 1)))
         else check (Inl OutOfBounds))))"

text \<open>Dropping the last of the taken courses follows the null pointer that is left in its place.\<close>

definition spec_drop :: "nat \<Rightarrow> (register, unit) code" where
  "spec_drop i =
     seq (asks (\<lambda>r. pupils r ! i)) (\<lambda>p.
     seq (print_out (numbered (p_taken p))) (\<lambda>u.
     seq hear_choice (\<lambda>m.
       if m = 0 then ret ()
       else if 1 \<le> m \<and> nat m < length (p_taken p) then change (drop_subject i (nat m - 1))
       else check (Inl NullDeref))))"

definition spec_turn :: "string list \<Rightarrow> (int \<Rightarrow> (register, unit) code) \<Rightarrow> (register, unit) code" where
  "spec_turn ls f = seq (print_out ls) (\<lambda>u. seq hear_choice f)"

definition spec_step :: "(register, unit) code" where
  "spec_step r = (case r_menu r of
       MainMenu \<Rightarrow> spec_turn main_menu (\<lambda>n.
         if n = 0 then moves Ended
         else if n = 1 then moves StudentMenu
         else if n = 2 then moves CourseMenu
         else if n = 3 then seq (asks pupils) (\<lambda>ps. print_out (map (person_line \<circ> person) ps))
         else if n = 4 then seq (asks subjects) (\<lambda>cs. print_out (map (key_line \<circ> subject_key) cs))
         else ret ()) r
     | StudentMenu \<Rightarrow> spec_turn student_menu (\<lambda>n.
         if n = 0 then moves MainMenu
         else if n = 1 then spec_add_student
         else if n = 2 then spec_select_student
         else ret ()) r
     | ChosenStudent i \<Rightarrow> spec_turn select_student_menu (\<lambda>n.
         if n = 0 then moves StudentMenu
         else if n = 1 then seq (spec_delete_student i) (\<lambda>u. moves StudentMenu)
         else if n = 3 then spec_enrol i
         else if n = 4 then spec_drop i
         else ret ()) r
     | CourseMenu \<Rightarrow> spec_turn course_menu (\<lambda>n.
         if n = 0 then moves MainMenu
         else if n = 1 then spec_add_course
         else if n = 2 then spec_select_course
         else ret ()) r
     | ChosenCourse i \<Rightarrow> spec_turn select_course_menu (\<lambda>n.
         if n = 0 then moves CourseMenu
         else if n = 1 then seq (spec_delete_course i) (\<lambda>u. moves CourseMenu)
         else if n = 2 then seq (asks (\<lambda>r. su_members (subjects r ! i))) (\<lambda>ms. print_out (map person_line ms))
         else ret ()) r
     | Ended \<Rightarrow> Done () r)"

end
