(* ===== verification/School_Objects.thy ===== *)
theory School_Objects
  imports School_Arrays School_Spec
begin

text \<open>
  The objects that the two tables reach, as a register: who owns which object, and what the
  operations on single objects make of it.
\<close>

section \<open>Objects by address\<close>

definition stu :: "school \<Rightarrow> nat \<Rightarrow> student_obj option" where
  "stu s a = (if a < length (student_heap s) then student_heap s ! a else None)"

definition cou :: "school \<Rightarrow> nat \<Rightarrow> course_obj option" where
  "cou s a = (if a < length (course_heap s) then course_heap s ! a else None)"

lemma get_iff: "get_student s a = Inr x \<longleftrightarrow> stu s a = Some x" "get_course s b = Inr y \<longleftrightarrow> cou s b = Some y"
  by (auto simp: get_student_def get_course_def stu_def cou_def load_object_Inr)

lemma get_live [simp]: "stu s a = Some x \<Longrightarrow> get_student s a = Inr x" "cou s b = Some y \<Longrightarrow> get_course s b = Inr y"
  by (simp_all add: get_iff)

lemma get_freed:
  "stu s a = None \<Longrightarrow> a < length (student_heap s) \<Longrightarrow> get_student s a = Inl UseAfterFree"
  "cou s b = None \<Longrightarrow> b < length (course_heap s) \<Longrightarrow> get_course s b = Inl UseAfterFree"
  by (simp_all add: get_student_def get_course_def load_object_def stu_def cou_def)

lemma stu_put [simp]:
  "stu s a = Some x \<Longrightarrow> stu (put_student a y s) = (stu s)(a \<mapsto> y)" "stu (put_course b z s) = stu s"
  by (auto simp: stu_def put_student_def put_course_def fun_eq_iff nth_list_update split: if_splits)

lemma cou_put [simp]:
  "cou s b = Some x \<Longrightarrow> cou (put_course b y s) = (cou s)(b \<mapsto> y)" "cou (put_student a z s) = cou s"
  by (auto simp: cou_def put_student_def put_course_def fun_eq_iff nth_list_update split: if_splits)

lemma heap_frame [simp]:
  "stu (s\<lparr>all_students := d\<rparr>) = stu s" "cou (s\<lparr>all_students := d\<rparr>) = cou s"
  "stu (s\<lparr>all_courses := d\<rparr>) = stu s" "cou (s\<lparr>all_courses := d\<rparr>) = cou s"
  "stu (s\<lparr>s_choice := n\<rparr>) = stu s" "cou (s\<lparr>s_choice := n\<rparr>) = cou s"
  "stu (s\<lparr>s_menu := m\<rparr>) = stu s" "cou (s\<lparr>s_menu := m\<rparr>) = cou s"
  "stu (s\<lparr>s_console := k\<rparr>) = stu s" "cou (s\<lparr>s_console := k\<rparr>) = cou s"
  by (simp_all add: stu_def cou_def fun_eq_iff)

abbreviation students_at :: "school \<Rightarrow> nat list" where
  "students_at s \<equiv> refs (all_students s)"

abbreviation courses_at :: "school \<Rightarrow> nat list" where
  "courses_at s \<equiv> refs (all_courses s)"

definition courses_of :: "school \<Rightarrow> nat \<Rightarrow> nat list" where
  "courses_of s a = refs (st_courses (the (stu s a)))"

definition students_of :: "school \<Rightarrow> nat \<Rightarrow> nat list" where
  "students_of s c = refs (co_students (the (cou s c)))"

section \<open>Ownership\<close>

text \<open>
  No address is in two places: neither twice in a table, nor in the table and an array, nor in
  two arrays.
\<close>

definition separate :: "nat list \<Rightarrow> nat list \<Rightarrow> (nat \<Rightarrow> nat list) \<Rightarrow> bool" where
  "separate xs os f \<longleftrightarrow> distinct xs \<and> (\<forall>c \<in> set os. distinct (f c) \<and> set (f c) \<inter> set xs = {}) \<and>
     (\<forall>c \<in> set os. \<forall>d \<in> set os. c \<noteq> d \<longrightarrow> set (f c) \<inter> set (f d) = {})"

definition student_ok :: "school \<Rightarrow> nat \<Rightarrow> bool" where
  "student_ok s a \<longleftrightarrow> stu s a \<noteq> None \<and> dyn_ok (st_courses (the (stu s a))) \<and>
     (\<forall>c \<in> set (courses_of s a). \<exists>x. cou s c = Some x \<and> co_students x = new_dyn)"

definition course_ok :: "school \<Rightarrow> nat \<Rightarrow> bool" where
  "course_ok s c \<longleftrightarrow> cou s c \<noteq> None \<and> dyn_ok (co_students (the (cou s c))) \<and>
     (\<forall>a \<in> set (students_of s c). \<exists>x. stu s a = Some x \<and> st_courses x = new_dyn)"

definition objects_ok :: "school \<Rightarrow> bool" where
  "objects_ok s \<longleftrightarrow> dyn_ok (all_students s) \<and> dyn_ok (all_courses s) \<and>
     (\<forall>a \<in> set (students_at s). student_ok s a) \<and> (\<forall>c \<in> set (courses_at s). course_ok s c) \<and>
     separate (students_at s) (courses_at s) (students_of s) \<and> separate (courses_at s) (students_at s) (courses_of s)"

section \<open>The register\<close>

definition person_of :: "school \<Rightarrow> nat \<Rightarrow> string \<times> int" where
  "person_of s a = (st_name (the (stu s a)), st_ID (the (stu s a)))"

definition key_of :: "school \<Rightarrow> nat \<Rightarrow> string \<times> string" where
  "key_of s c = (co_code (the (cou s c)), co_name (the (cou s c)))"

definition pupil_of :: "school \<Rightarrow> nat \<Rightarrow> pupil" where
  "pupil_of s a = \<lparr>p_name = fst (person_of s a), p_ID = snd (person_of s a), p_taken = map (key_of s) (courses_of s a)\<rparr>"

definition subject_of :: "school \<Rightarrow> nat \<Rightarrow> subject" where
  "subject_of s c = \<lparr>su_name = snd (key_of s c), su_code = fst (key_of s c), su_members = map (person_of s) (students_of s c)\<rparr>"

definition pupils_of :: "school \<Rightarrow> pupil list" where
  "pupils_of s = map (pupil_of s) (students_at s)"

definition subjects_of :: "school \<Rightarrow> subject list" where
  "subjects_of s = map (subject_of s) (courses_at s)"

text \<open>The position of a selected object in its table.\<close>

definition position :: "nat \<Rightarrow> nat list \<Rightarrow> nat" where
  "position a as = the (first_index ((=) a) as)"

definition menu_of :: "school \<Rightarrow> menu" where
  "menu_of s = (case s_menu s of ChosenStudent a \<Rightarrow> ChosenStudent (position a (students_at s))
     | ChosenCourse c \<Rightarrow> ChosenCourse (position c (courses_at s)) | m \<Rightarrow> m)"

definition view :: "school \<Rightarrow> register" where
  "view s = \<lparr>pupils = pupils_of s, subjects = subjects_of s, r_choice = s_choice s, r_menu = menu_of s, r_console = s_console s\<rparr>"

text \<open>A selected student or course is the first one in its table with its ID or code.\<close>

definition menu_ok :: "school \<Rightarrow> bool" where
  "menu_ok s \<longleftrightarrow> (case s_menu s of
       ChosenStudent a \<Rightarrow> \<exists>i < length (students_at s). students_at s ! i = a \<and>
         (\<forall>j < i. p_ID (pupils_of s ! j) \<noteq> p_ID (pupils_of s ! i))
     | ChosenCourse c \<Rightarrow> \<exists>i < length (courses_at s). courses_at s ! i = c \<and>
         (\<forall>j < i. su_code (subjects_of s ! j) \<noteq> su_code (subjects_of s ! i))
     | m \<Rightarrow> True)"

definition choice_ok :: "int option \<Rightarrow> bool" where
  "choice_ok n \<longleftrightarrow> (case n of None \<Rightarrow> True | Some k \<Rightarrow> in_signed 32 k)"

lemma choice_ok_simps [simp]: "choice_ok None" "choice_ok (Some k) \<longleftrightarrow> in_signed 32 k"
  by (simp_all add: choice_ok_def)

definition school_ok :: "school \<Rightarrow> bool" where
  "school_ok s \<longleftrightarrow> objects_ok s \<and> menu_ok s \<and> choice_ok (s_choice s)"

lemma pupils_of_length [simp]: "length (pupils_of s) = length (students_at s)" "length (subjects_of s) = length (courses_at s)"
  by (simp_all add: pupils_of_def subjects_of_def)

section \<open>Facts of the invariant\<close>

lemma objects_okD:
  assumes "objects_ok s"
  shows "array_holds (all_students s) (students_at s)" "array_holds (all_courses s) (courses_at s)"
    "a \<in> set (students_at s) \<Longrightarrow> student_ok s a" "c \<in> set (courses_at s) \<Longrightarrow> course_ok s c"
    "separate (students_at s) (courses_at s) (students_of s)" "separate (courses_at s) (students_at s) (courses_of s)"
  using assms by (simp_all add: objects_ok_def dyn_ok_def)

lemma student_okD:
  assumes "student_ok s a"
  obtains st where "stu s a = Some st" "array_holds (st_courses st) (courses_of s a)"
  using assms by (auto simp: student_ok_def dyn_ok_def courses_of_def)

lemma course_okD:
  assumes "course_ok s c"
  obtains co where "cou s c = Some co" "array_holds (co_students co) (students_of s c)"
  using assms by (auto simp: course_ok_def dyn_ok_def students_of_def)

lemma student_ok_copy:
  "student_ok s a \<Longrightarrow> c \<in> set (courses_of s a) \<Longrightarrow> \<exists>x. cou s c = Some x \<and> co_students x = new_dyn"
  by (simp add: student_ok_def)

lemma course_ok_copy:
  "course_ok s c \<Longrightarrow> a \<in> set (students_of s c) \<Longrightarrow> \<exists>x. stu s a = Some x \<and> st_courses x = new_dyn"
  by (simp add: course_ok_def)

lemma live_below: "stu s a = Some x \<Longrightarrow> a < length (student_heap s)" "cou s c = Some y \<Longrightarrow> c < length (course_heap s)"
  by (auto simp: stu_def cou_def split: if_splits)

lemma same_live:
  "cou s a = Some x \<Longrightarrow> cou s b = Some y \<Longrightarrow> same_code s a b = Inr (fst (key_of s a) = fst (key_of s b))"
  "stu s c = Some u \<Longrightarrow> stu s d = Some v \<Longrightarrow> same_ID s c d = Inr (snd (person_of s c) = snd (person_of s d))"
  by (simp_all add: same_code_def same_ID_def key_of_def person_of_def)

lemma first_index_map: "first_index q (map f xs) = first_index (q \<circ> f) xs"
  by (induction xs) auto

lemma first_index_cong: "(\<And>x. x \<in> set xs \<Longrightarrow> q x = p x) \<Longrightarrow> first_index q xs = first_index p xs"
  by (induction xs) auto

lemma separate_update:
  assumes "separate xs os f" "c \<in> set os" "distinct as" "set as \<subseteq> set (f c) \<union> F"
    "F \<inter> set xs = {}" "\<And>d. d \<in> set os \<Longrightarrow> F \<inter> set (f d) = {}"
  shows "separate xs os (f(c := as))"
proof -
  have fc: "set (f c) \<inter> set xs = {}" using assms(1,2) by (simp add: separate_def)
  have fd: "set as \<inter> set (f d) = {}" if "d \<in> set os" "d \<noteq> c" for d
  proof -
    have "set (f c) \<inter> set (f d) = {}" using assms(1,2) that unfolding separate_def by metis
    with assms(4,6) that show ?thesis by blast
  qed
  have "set as \<inter> set xs = {}" using fc assms(4,5) by blast
  moreover have "set ((f(c := as)) e) \<inter> set ((f(c := as)) d) = {}" if "e \<in> set os" "d \<in> set os" "e \<noteq> d" for e d
  proof (cases "e = c \<or> d = c")
    case True
    then show ?thesis using fd [of d] fd [of e] that by (auto simp: Int_commute)
  next
    case False
    have "set (f e) \<inter> set (f d) = {}" using assms(1) that unfolding separate_def by metis
    with False show ?thesis by simp
  qed
  moreover have "distinct ((f(c := as)) e) \<and> set ((f(c := as)) e) \<inter> set xs = {}" if "e \<in> set os" for e
    using that assms(1,3) calculation(1) by (simp add: separate_def)
  ultimately show ?thesis using assms(1) by (simp add: separate_def)
qed

lemma separate_root:
  assumes "separate xs os f" "separate os xs g" "a \<notin> set xs" "\<And>c. c \<in> set os \<Longrightarrow> a \<notin> set (f c)"
  shows "separate (xs @ [a]) os f" "separate os (xs @ [a]) (g(a := []))"
proof -
  show "separate (xs @ [a]) os f"
    using assms(1,3,4) unfolding separate_def by simp
  have "set ((g(a := [])) e) \<inter> set ((g(a := [])) d) = {}" if "e \<in> set (xs @ [a])" "d \<in> set (xs @ [a])" "e \<noteq> d" for e d
  proof (cases "e = a \<or> d = a")
    case False
    then have "e \<in> set xs" "d \<in> set xs" using that by auto
    then have "set (g e) \<inter> set (g d) = {}" using assms(2) that(3) unfolding separate_def by metis
    with False show ?thesis by simp
  qed auto
  then show "separate os (xs @ [a]) (g(a := []))"
    using assms(2,3) unfolding separate_def by simp
qed

lemma separate_cong:
  "(\<And>c. c \<in> set os \<Longrightarrow> f c = g c) \<Longrightarrow> separate xs os f \<longleftrightarrow> separate xs os g"
  unfolding separate_def by simp

end
