(* ===== verification/School_Effects.thy ===== *)
theory School_Effects
  imports School_Objects
begin

text \<open>
  What the operations on students and courses make of the register. The lemmas come in pairs, one
  with the roles of students and courses exchanged.
\<close>

definition rest :: "school \<Rightarrow> int option \<times> menu \<times> console" where
  "rest s = (s_choice s, s_menu s, s_console s)"

section \<open>A new array in an object\<close>

lemma put_student_effect:
  assumes ok: "objects_ok s" and a: "a \<in> set (students_at s)" "stu s a = Some st"
    and s1: "stu s1 = stu s" "\<And>c x. cou s c = Some x \<Longrightarrow> cou s1 c = Some x" "tables s1 = tables s"
    and d: "array_holds d cs" "distinct cs" "set cs \<subseteq> set (courses_of s a) \<union> F" "\<forall>c \<in> F. cou s c = None"
      "\<forall>c \<in> set cs. \<exists>x. cou s1 c = Some x \<and> co_students x = new_dyn"
  defines "t \<equiv> put_student a (st\<lparr>st_courses := d\<rparr>) s1"
  shows "objects_ok t" "subjects_of t = subjects_of s" "tables t = tables s"
    "stu t = (stu s)(a \<mapsto> st\<lparr>st_courses := d\<rparr>)" "cou t = cou s1"
    "i < length (students_at s) \<Longrightarrow> students_at s ! i = a \<Longrightarrow>
       pupils_of t = (pupils_of s)[i := (pupils_of s ! i)\<lparr>p_taken := map (key_of s1) cs\<rparr>]"
proof -
  show tab: "tables t = tables s" using s1(3) by (simp add: t_def)
  then have tabs [simp]: "all_students t = all_students s" "all_courses t = all_courses s" by (simp_all add: tables_def)
  show stu: "stu t = (stu s)(a \<mapsto> st\<lparr>st_courses := d\<rparr>)" using a(2) s1(1) by (simp add: t_def)
  show cou: "cou t = cou s1" by (simp add: t_def)
  have sep: "separate (students_at s) (courses_at s) (students_of s)" "separate (courses_at s) (students_at s) (courses_of s)"
    using objects_okD(5,6) [OF ok] by auto
  have live: "\<exists>y. cou s c = Some y \<and> cou s1 c = Some y" if "c \<in> set (courses_at s)" for c
    using objects_okD(4) [OF ok that] s1(2) by (auto elim: course_okD)
  have copies: "\<exists>y. cou s c = Some y \<and> cou s1 c = Some y \<and> co_students y = new_dyn" if "b \<in> set (students_at s)" "c \<in> set (courses_of s b)" for b c
    using student_ok_copy [OF objects_okD(3) [OF ok that(1)] that(2)] s1(2) by blast
  have sof: "students_of t c = students_of s c" if "c \<in> set (courses_at s)" for c
    using live [OF that] by (auto simp: students_of_def cou)
  have cof: "courses_of t = (courses_of s)(a := cs)"
    using holds_refs [OF d(1)] by (auto simp: courses_of_def stu fun_eq_iff)
  have per: "person_of t = person_of s" using a(2) by (auto simp: person_of_def stu fun_eq_iff)
  have F: "F \<inter> set (courses_of s b) = {}" if "b \<in> set (students_at s)" for b using copies [OF that] d(4) by fastforce
  have "F \<inter> set (courses_at s) = {}" using live d(4) by fastforce
  from separate_update [OF sep(2) a(1) d(2,3) this F]
  have sep2: "separate (courses_at s) (students_at s) (courses_of t)" by (simp add: cof)
  have sep1: "separate (students_at s) (courses_at s) (students_of t)"
    using sep(1) separate_cong [of "courses_at s" "students_of t" "students_of s"] sof by simp
  have "student_ok t b" if b: "b \<in> set (students_at s)" for b
  proof (cases "b = a")
    case True
    with d(1,5) dyn_okI [OF d(1)] show ?thesis by (simp add: student_ok_def stu cou cof)
  next
    case False
    obtain st' where st': "stu s b = Some st'" "array_holds (st_courses st') (courses_of s b)" using student_okD objects_okD(3) [OF ok b] by metis
    have "\<forall>c \<in> set (courses_of s b). \<exists>x. cou s1 c = Some x \<and> co_students x = new_dyn" using copies [OF b] by blast
    with False dyn_okI [OF st'(2)] st'(1) show ?thesis by (simp add: student_ok_def stu cou cof)
  qed
  moreover have "course_ok t c" if c: "c \<in> set (courses_at s)" for c
  proof -
    obtain co where co: "cou s c = Some co" "array_holds (co_students co) (students_of s c)" using course_okD objects_okD(4) [OF ok c] by metis
    have "set (students_of s c) \<inter> set (students_at s) = {}" using sep(1) c by (simp add: separate_def)
    then have "m \<noteq> a" if "m \<in> set (students_of s c)" for m using that a(1) by blast
    then show ?thesis
      using co live [OF c] course_ok_copy [OF objects_okD(4) [OF ok c]] dyn_okI [OF co(2)]
      by (auto simp: course_ok_def stu cou sof [OF c])
  qed
  ultimately show "objects_ok t" using sep1 sep2 ok by (simp add: objects_ok_def)
  have subject_key: "key_of t c = key_of s c" if "c \<in> set (courses_at s) \<or> (\<exists>b \<in> set (students_at s). c \<in> set (courses_of s b))" for c
  proof -
    from that have "\<exists>y. cou s c = Some y \<and> cou s1 c = Some y" using live copies by blast
    then show ?thesis by (auto simp: key_of_def cou)
  qed
  show "subjects_of t = subjects_of s" by (auto simp: subjects_of_def subject_of_def sof per subject_key)
  show "pupils_of t = (pupils_of s)[i := (pupils_of s ! i)\<lparr>p_taken := map (key_of s1) cs\<rparr>]"
    if i: "i < length (students_at s)" "students_at s ! i = a"
  proof (rule nth_equalityI)
    fix j assume "j < length (pupils_of t)"
    then have j: "j < length (students_at s)" by simp
    have "students_at s ! j = a \<longleftrightarrow> j = i" using sep(1) i j by (auto simp: separate_def nth_eq_iff_index_eq)
    moreover have k1: "key_of t = key_of s1" by (simp add: key_of_def cou fun_eq_iff)
    moreover have "map (key_of s1) (courses_of s (students_at s ! j)) = map (key_of s) (courses_of s (students_at s ! j))"
    proof (intro map_cong refl)
      fix c assume "c \<in> set (courses_of s (students_at s ! j))"
      with j have "\<exists>b \<in> set (students_at s). c \<in> set (courses_of s b)" by (intro bexI [of _ "students_at s ! j"]) auto
      with subject_key [of c] show "key_of s1 c = key_of s c" by (simp add: k1)
    qed
    ultimately show "pupils_of t ! j = (pupils_of s)[i := (pupils_of s ! i)\<lparr>p_taken := map (key_of s1) cs\<rparr>] ! j"
      using i j by (auto simp: pupils_of_def pupil_of_def nth_list_update cof per subject_key)
  qed simp
qed

lemma put_course_effect:
  assumes ok: "objects_ok s" and a: "a \<in> set (courses_at s)" "cou s a = Some st"
    and s1: "cou s1 = cou s" "\<And>c x. stu s c = Some x \<Longrightarrow> stu s1 c = Some x" "tables s1 = tables s"
    and d: "array_holds d cs" "distinct cs" "set cs \<subseteq> set (students_of s a) \<union> F" "\<forall>c \<in> F. stu s c = None"
      "\<forall>c \<in> set cs. \<exists>x. stu s1 c = Some x \<and> st_courses x = new_dyn"
  defines "t \<equiv> put_course a (st\<lparr>co_students := d\<rparr>) s1"
  shows "objects_ok t" "pupils_of t = pupils_of s" "tables t = tables s"
    "cou t = (cou s)(a \<mapsto> st\<lparr>co_students := d\<rparr>)" "stu t = stu s1"
    "i < length (courses_at s) \<Longrightarrow> courses_at s ! i = a \<Longrightarrow>
       subjects_of t = (subjects_of s)[i := (subjects_of s ! i)\<lparr>su_members := map (person_of s1) cs\<rparr>]"
proof -
  show tab: "tables t = tables s" using s1(3) by (simp add: t_def)
  then have tabs [simp]: "all_courses t = all_courses s" "all_students t = all_students s" by (simp_all add: tables_def)
  show cou: "cou t = (cou s)(a \<mapsto> st\<lparr>co_students := d\<rparr>)" using a(2) s1(1) by (simp add: t_def)
  show stu: "stu t = stu s1" by (simp add: t_def)
  have sep: "separate (courses_at s) (students_at s) (courses_of s)" "separate (students_at s) (courses_at s) (students_of s)"
    using objects_okD(6,5) [OF ok] by auto
  have live: "\<exists>y. stu s c = Some y \<and> stu s1 c = Some y" if "c \<in> set (students_at s)" for c
    using objects_okD(3) [OF ok that] s1(2) by (auto elim: student_okD)
  have copies: "\<exists>y. stu s c = Some y \<and> stu s1 c = Some y \<and> st_courses y = new_dyn" if "b \<in> set (courses_at s)" "c \<in> set (students_of s b)" for b c
    using course_ok_copy [OF objects_okD(4) [OF ok that(1)] that(2)] s1(2) by blast
  have sof: "courses_of t c = courses_of s c" if "c \<in> set (students_at s)" for c
    using live [OF that] by (auto simp: courses_of_def stu)
  have cof: "students_of t = (students_of s)(a := cs)"
    using holds_refs [OF d(1)] by (auto simp: students_of_def cou fun_eq_iff)
  have per: "key_of t = key_of s" using a(2) by (auto simp: key_of_def cou fun_eq_iff)
  have F: "F \<inter> set (students_of s b) = {}" if "b \<in> set (courses_at s)" for b using copies [OF that] d(4) by fastforce
  have "F \<inter> set (students_at s) = {}" using live d(4) by fastforce
  from separate_update [OF sep(2) a(1) d(2,3) this F]
  have sep2: "separate (students_at s) (courses_at s) (students_of t)" by (simp add: cof)
  have sep1: "separate (courses_at s) (students_at s) (courses_of t)"
    using sep(1) separate_cong [of "students_at s" "courses_of t" "courses_of s"] sof by simp
  have "course_ok t b" if b: "b \<in> set (courses_at s)" for b
  proof (cases "b = a")
    case True
    with d(1,5) dyn_okI [OF d(1)] show ?thesis by (simp add: course_ok_def cou stu cof)
  next
    case False
    obtain st' where st': "cou s b = Some st'" "array_holds (co_students st') (students_of s b)" using course_okD objects_okD(4) [OF ok b] by metis
    have "\<forall>c \<in> set (students_of s b). \<exists>x. stu s1 c = Some x \<and> st_courses x = new_dyn" using copies [OF b] by blast
    with False dyn_okI [OF st'(2)] st'(1) show ?thesis by (simp add: course_ok_def cou stu cof)
  qed
  moreover have "student_ok t c" if c: "c \<in> set (students_at s)" for c
  proof -
    obtain co where co: "stu s c = Some co" "array_holds (st_courses co) (courses_of s c)" using student_okD objects_okD(3) [OF ok c] by metis
    have "set (courses_of s c) \<inter> set (courses_at s) = {}" using sep(1) c by (simp add: separate_def)
    then have "m \<noteq> a" if "m \<in> set (courses_of s c)" for m using that a(1) by blast
    then show ?thesis
      using co live [OF c] student_ok_copy [OF objects_okD(3) [OF ok c]] dyn_okI [OF co(2)]
      by (auto simp: student_ok_def cou stu sof [OF c])
  qed
  ultimately show "objects_ok t" using sep1 sep2 ok by (simp add: objects_ok_def)
  have person: "person_of t c = person_of s c" if "c \<in> set (students_at s) \<or> (\<exists>b \<in> set (courses_at s). c \<in> set (students_of s b))" for c
  proof -
    from that have "\<exists>y. stu s c = Some y \<and> stu s1 c = Some y" using live copies by blast
    then show ?thesis by (auto simp: person_of_def stu)
  qed
  show "pupils_of t = pupils_of s" by (auto simp: pupils_of_def pupil_of_def sof per person)
  show "subjects_of t = (subjects_of s)[i := (subjects_of s ! i)\<lparr>su_members := map (person_of s1) cs\<rparr>]"
    if i: "i < length (courses_at s)" "courses_at s ! i = a"
  proof (rule nth_equalityI)
    fix j assume "j < length (subjects_of t)"
    then have j: "j < length (courses_at s)" by simp
    have "courses_at s ! j = a \<longleftrightarrow> j = i" using sep(1) i j by (auto simp: separate_def nth_eq_iff_index_eq)
    moreover have k1: "person_of t = person_of s1" by (simp add: person_of_def stu fun_eq_iff)
    moreover have "map (person_of s1) (students_of s (courses_at s ! j)) = map (person_of s) (students_of s (courses_at s ! j))"
    proof (intro map_cong refl)
      fix c assume "c \<in> set (students_of s (courses_at s ! j))"
      with j have "\<exists>b \<in> set (courses_at s). c \<in> set (students_of s b)" by (intro bexI [of _ "courses_at s ! j"]) auto
      with person [of c] show "person_of s1 c = person_of s c" by (simp add: k1)
    qed
    ultimately show "subjects_of t ! j = (subjects_of s)[i := (subjects_of s ! i)\<lparr>su_members := map (person_of s1) cs\<rparr>] ! j"
      using i j by (auto simp: subjects_of_def subject_of_def nth_list_update cof per person)
  qed simp
qed

section \<open>Adding\<close>

lemma add_course_effect:
  assumes ok: "objects_ok s" and i: "i < length (students_at s)" and k: "k < length (courses_at s)"
  shows "\<exists>t. add_course_to (students_at s ! i) (courses_at s ! k) s = Inr t \<and> objects_ok t \<and> subjects_of t = subjects_of s \<and>
    tables t = tables s \<and> rest t = rest s \<and>
    pupils_of t = (pupils_of s)[i := (pupils_of s ! i)\<lparr>p_taken := p_taken (pupils_of s ! i) @ [subject_key (subjects_of s ! k)]\<rparr>]"
proof -
  let ?a = "students_at s ! i" and ?c = "courses_at s ! k"
  have a: "?a \<in> set (students_at s)" and c: "?c \<in> set (courses_at s)" using i k by auto
  obtain st where st: "stu s ?a = Some st" "array_holds (st_courses st) (courses_of s ?a)" using student_okD objects_okD(3) [OF ok a] by metis
  obtain co where co: "cou s ?c = Some co" using course_okD objects_okD(4) [OF ok c] by metis
  define f where "f = length (course_heap s)"
  define s1 where "s1 = snd (new_course (co_name co) (co_code co) s)"
  define x where "x = \<lparr>co_name = co_name co, co_code = co_code co, co_students = new_dyn\<rparr>"
  have s1: "stu s1 = stu s" "cou s1 = (cou s)(f \<mapsto> x)" "tables s1 = tables s" "rest s1 = rest s"
    by (auto simp: s1_def new_course_def cou_def stu_def fun_eq_iff f_def x_def nth_append tables_def rest_def)
  have f: "cou s f = None" by (simp add: f_def cou_def)
  obtain d where d: "push f (st_courses st) = Inr d" "array_holds d (courses_of s ?a @ [f])" using holds_push [OF st(2)] by blast
  have "separate (courses_at s) (students_at s) (courses_of s)" by (rule objects_okD(6) [OF ok])
  then have dist: "distinct (courses_of s ?a)" using a by (simp add: separate_def)
  have cs: "\<exists>y. cou s c = Some y \<and> co_students y = new_dyn" if "c \<in> set (courses_of s ?a)" for c
    using student_ok_copy [OF objects_okD(3) [OF ok a] that] .
  with f have new: "f \<notin> set (courses_of s ?a)" by fastforce
  have ext: "\<And>c y. cou s c = Some y \<Longrightarrow> cou s1 c = Some y" using f by (auto simp: s1(2))
  have "\<forall>c \<in> set (courses_of s ?a @ [f]). \<exists>y. cou s1 c = Some y \<and> co_students y = new_dyn"
    using cs ext by (auto simp: s1(2) x_def)
  note E = put_student_effect [OF ok a st(1) s1(1) ext s1(3) d(2), of "{f}"]
  let ?t = "put_student ?a (st\<lparr>st_courses := d\<rparr>) s1"
  have "add_course_to ?a ?c s = Inr ?t"
    using co st d s1(1) by (simp add: add_course_to_def new_course_def s1_def f_def)
  moreover have "map (key_of s1) (courses_of s ?a @ [f]) = p_taken (pupils_of s ! i) @ [subject_key (subjects_of s ! k)]"
  proof -
    have "key_of s1 c = key_of s c" if "c \<in> set (courses_of s ?a)" for c using cs [OF that] ext by (auto simp: key_of_def)
    moreover have "key_of s1 f = key_of s ?c" using co by (simp add: key_of_def s1(2) x_def)
    ultimately show ?thesis using i k by (simp add: pupils_of_def pupil_of_def subjects_of_def subject_of_def subject_key_def)
  qed
  moreover have "rest ?t = rest s" using s1(4) by (simp add: rest_def put_student_def)
  ultimately show ?thesis
    using E dist new f i \<open>\<forall>c \<in> set (courses_of s ?a @ [f]). _\<close> by auto
qed

lemma add_student_effect:
  assumes ok: "objects_ok s" and i: "i < length (courses_at s)" and k: "k < length (students_at s)"
  shows "\<exists>t. add_student_to (courses_at s ! i) (students_at s ! k) s = Inr t \<and> objects_ok t \<and> pupils_of t = pupils_of s \<and>
    tables t = tables s \<and> rest t = rest s \<and>
    subjects_of t = (subjects_of s)[i := (subjects_of s ! i)\<lparr>su_members := su_members (subjects_of s ! i) @ [person (pupils_of s ! k)]\<rparr>]"
proof -
  let ?a = "courses_at s ! i" and ?c = "students_at s ! k"
  have a: "?a \<in> set (courses_at s)" and c: "?c \<in> set (students_at s)" using i k by auto
  obtain st where st: "cou s ?a = Some st" "array_holds (co_students st) (students_of s ?a)" using course_okD objects_okD(4) [OF ok a] by metis
  obtain co where co: "stu s ?c = Some co" using student_okD objects_okD(3) [OF ok c] by metis
  define f where "f = length (student_heap s)"
  define s1 where "s1 = snd (new_student (st_name co) (st_ID co) s)"
  define x where "x = \<lparr>st_name = st_name co, st_ID = st_ID co, st_courses = new_dyn\<rparr>"
  have s1: "cou s1 = cou s" "stu s1 = (stu s)(f \<mapsto> x)" "tables s1 = tables s" "rest s1 = rest s"
    by (auto simp: s1_def new_student_def stu_def cou_def fun_eq_iff f_def x_def nth_append tables_def rest_def)
  have f: "stu s f = None" by (simp add: f_def stu_def)
  obtain d where d: "push f (co_students st) = Inr d" "array_holds d (students_of s ?a @ [f])" using holds_push [OF st(2)] by blast
  have "separate (students_at s) (courses_at s) (students_of s)" by (rule objects_okD(5) [OF ok])
  then have dist: "distinct (students_of s ?a)" using a by (simp add: separate_def)
  have cs: "\<exists>y. stu s c = Some y \<and> st_courses y = new_dyn" if "c \<in> set (students_of s ?a)" for c
    using course_ok_copy [OF objects_okD(4) [OF ok a] that] .
  with f have new: "f \<notin> set (students_of s ?a)" by fastforce
  have ext: "\<And>c y. stu s c = Some y \<Longrightarrow> stu s1 c = Some y" using f by (auto simp: s1(2))
  have "\<forall>c \<in> set (students_of s ?a @ [f]). \<exists>y. stu s1 c = Some y \<and> st_courses y = new_dyn"
    using cs ext by (auto simp: s1(2) x_def)
  note E = put_course_effect [OF ok a st(1) s1(1) ext s1(3) d(2), of "{f}"]
  let ?t = "put_course ?a (st\<lparr>co_students := d\<rparr>) s1"
  have "add_student_to ?a ?c s = Inr ?t"
    using co st d s1(1) by (simp add: add_student_to_def new_student_def s1_def f_def)
  moreover have "map (person_of s1) (students_of s ?a @ [f]) = su_members (subjects_of s ! i) @ [person (pupils_of s ! k)]"
  proof -
    have "person_of s1 c = person_of s c" if "c \<in> set (students_of s ?a)" for c using cs [OF that] ext by (auto simp: person_of_def)
    moreover have "person_of s1 f = person_of s ?c" using co by (simp add: person_of_def s1(2) x_def)
    ultimately show ?thesis using i k by (simp add: subjects_of_def subject_of_def pupils_of_def pupil_of_def person_def)
  qed
  moreover have "rest ?t = rest s" using s1(4) by (simp add: rest_def put_course_def)
  ultimately show ?thesis
    using E dist new f i \<open>\<forall>c \<in> set (students_of s ?a @ [f]). _\<close> by auto
qed

section \<open>Removing\<close>

lemma remove_course_effect:
  assumes ok: "objects_ok s" and i: "i < length (students_at s)" "a = students_at s ! i"
    and c: "target x = Inr c" "cou s c = Some y"
  shows "\<exists>t. remove_course a x s = Inr t \<and> objects_ok t \<and> subjects_of t = subjects_of s \<and> tables t = tables s \<and> rest t = rest s \<and>
    pupils_of t = (pupils_of s)[i := (pupils_of s ! i)\<lparr>p_taken := remove_first (\<lambda>z. fst z = co_code y) (p_taken (pupils_of s ! i))\<rparr>] \<and>
    cou t = cou s \<and> (\<forall>b. b \<noteq> a \<longrightarrow> stu t b = stu s b) \<and> person_of t = person_of s \<and>
    courses_of t = (courses_of s)(a := remove_first (\<lambda>z. fst (key_of s z) = co_code y) (courses_of s a))"
proof -
  have a: "a \<in> set (students_at s)" using i by simp
  obtain st where st: "stu s a = Some st" "array_holds (st_courses st) (courses_of s a)" using student_okD objects_okD(3) [OF ok a] by metis
  have cs: "\<exists>y. cou s c = Some y \<and> co_students y = new_dyn" if "c \<in> set (courses_of s a)" for c
    using student_ok_copy [OF objects_okD(3) [OF ok a] that] .
  have sep: "separate (courses_at s) (students_at s) (courses_of s)" by (rule objects_okD(6) [OF ok])
  let ?q = "\<lambda>z. fst (key_of s z) = co_code y"
  have "\<forall>b \<in> set (courses_of s a). rbind (target x) (same_code s b) = Inr (?q b)"
  proof
    fix b assume "b \<in> set (courses_of s a)"
    then obtain z where "cou s b = Some z" using cs by blast
    then show "rbind (target x) (same_code s b) = Inr (?q b)" using c by (simp add: same_code_def key_of_def)
  qed
  then have find_index: "find_index (\<lambda>b. rbind (target x) (same_code s b)) (st_courses st) 0 = Inr (first_index ?q (courses_of s a))"
    by (rule holds_search [OF st(2)])
  have pt: "p_taken (pupils_of s ! i) = map (key_of s) (courses_of s a)" using i by (simp add: pupils_of_def pupil_of_def)
  have fi: "first_index (\<lambda>z. fst z = co_code y) (map (key_of s) (courses_of s a)) = first_index ?q (courses_of s a)"
    by (simp add: first_index_map comp_def)
  show ?thesis
  proof (cases "first_index ?q (courses_of s a)")
    case None
    then show ?thesis
      using st find_index ok fi i(1) by (simp add: remove_course_def remove_first_def fun_upd_idem pt flip: pt)
  next
    case (Some j)
    then have j: "j < length (courses_of s a)" by (simp add: first_index_Some)
    obtain d where d: "take_out j (st_courses st) = Inr d" "array_holds d (remove_nth j (courses_of s a))" using holds_take_out [OF st(2) j] by blast
    have dist: "distinct (courses_of s a)" using sep a by (simp add: separate_def)
    let ?t = "put_student a (st\<lparr>st_courses := d\<rparr>) s"
    have "\<forall>c \<in> set (remove_nth j (courses_of s a)). \<exists>x. cou s c = Some x \<and> co_students x = new_dyn"
      using cs set_remove_nth_subset by fastforce
    moreover have "set (remove_nth j (courses_of s a)) \<subseteq> set (courses_of s a) \<union> {}"
      using set_remove_nth_subset [of j "courses_of s a"] by simp
    ultimately have E: "objects_ok ?t" "subjects_of ?t = subjects_of s" "tables ?t = tables s" "stu ?t = (stu s)(a \<mapsto> st\<lparr>st_courses := d\<rparr>)" "cou ?t = cou s"
      "pupils_of ?t = (pupils_of s)[i := (pupils_of s ! i)\<lparr>p_taken := map (key_of s) (remove_nth j (courses_of s a))\<rparr>]"
      using put_student_effect [OF ok a st(1) refl _ refl d(2) distinct_remove_nth(1) [OF dist j], where F = "{}"] i by simp_all
    have "remove_course a x s = Inr ?t" using st find_index d Some by (simp add: remove_course_def)
    moreover have "rest ?t = rest s" by (simp add: rest_def put_student_def)
    moreover have "map (key_of s) (remove_nth j (courses_of s a)) = remove_first (\<lambda>z. fst z = co_code y) (p_taken (pupils_of s ! i))"
      using Some by (simp add: pt fi remove_first_def remove_nth_def take_map drop_map)
    moreover have "person_of ?t = person_of s" using st(1) by (auto simp: person_of_def E(4) fun_eq_iff)
    moreover have "courses_of ?t = (courses_of s)(a := remove_first ?q (courses_of s a))"
      using Some holds_refs [OF d(2)] by (auto simp: courses_of_def [of ?t] E(4) fun_eq_iff remove_first_def) (simp add: courses_of_def)
    ultimately show ?thesis using E st(1) holds_refs [OF d(2)] by auto
  qed
qed

lemma remove_student_effect:
  assumes ok: "objects_ok s" and i: "i < length (courses_at s)" "a = courses_at s ! i"
    and c: "target x = Inr c" "stu s c = Some y"
  shows "\<exists>t. remove_student a x s = Inr t \<and> objects_ok t \<and> pupils_of t = pupils_of s \<and> tables t = tables s \<and> rest t = rest s \<and>
    subjects_of t = (subjects_of s)[i := (subjects_of s ! i)\<lparr>su_members := remove_first (\<lambda>z. snd z = st_ID y) (su_members (subjects_of s ! i))\<rparr>] \<and>
    stu t = stu s \<and> (\<forall>b. b \<noteq> a \<longrightarrow> cou t b = cou s b) \<and> key_of t = key_of s \<and>
    students_of t = (students_of s)(a := remove_first (\<lambda>z. snd (person_of s z) = st_ID y) (students_of s a))"
proof -
  have a: "a \<in> set (courses_at s)" using i by simp
  obtain st where st: "cou s a = Some st" "array_holds (co_students st) (students_of s a)" using course_okD objects_okD(4) [OF ok a] by metis
  have cs: "\<exists>y. stu s c = Some y \<and> st_courses y = new_dyn" if "c \<in> set (students_of s a)" for c
    using course_ok_copy [OF objects_okD(4) [OF ok a] that] .
  have sep: "separate (students_at s) (courses_at s) (students_of s)" by (rule objects_okD(5) [OF ok])
  let ?q = "\<lambda>z. snd (person_of s z) = st_ID y"
  have "\<forall>b \<in> set (students_of s a). rbind (target x) (same_ID s b) = Inr (?q b)"
  proof
    fix b assume "b \<in> set (students_of s a)"
    then obtain z where "stu s b = Some z" using cs by blast
    then show "rbind (target x) (same_ID s b) = Inr (?q b)" using c by (simp add: same_ID_def person_of_def)
  qed
  then have find_index: "find_index (\<lambda>b. rbind (target x) (same_ID s b)) (co_students st) 0 = Inr (first_index ?q (students_of s a))"
    by (rule holds_search [OF st(2)])
  have pt: "su_members (subjects_of s ! i) = map (person_of s) (students_of s a)" using i by (simp add: subjects_of_def subject_of_def)
  have fi: "first_index (\<lambda>z. snd z = st_ID y) (map (person_of s) (students_of s a)) = first_index ?q (students_of s a)"
    by (simp add: first_index_map comp_def)
  show ?thesis
  proof (cases "first_index ?q (students_of s a)")
    case None
    then show ?thesis
      using st find_index ok fi i(1) by (simp add: remove_student_def remove_first_def fun_upd_idem pt flip: pt)
  next
    case (Some j)
    then have j: "j < length (students_of s a)" by (simp add: first_index_Some)
    obtain d where d: "take_out j (co_students st) = Inr d" "array_holds d (remove_nth j (students_of s a))" using holds_take_out [OF st(2) j] by blast
    have dist: "distinct (students_of s a)" using sep a by (simp add: separate_def)
    let ?t = "put_course a (st\<lparr>co_students := d\<rparr>) s"
    have "\<forall>c \<in> set (remove_nth j (students_of s a)). \<exists>x. stu s c = Some x \<and> st_courses x = new_dyn"
      using cs set_remove_nth_subset by fastforce
    moreover have "set (remove_nth j (students_of s a)) \<subseteq> set (students_of s a) \<union> {}"
      using set_remove_nth_subset [of j "students_of s a"] by simp
    ultimately have E: "objects_ok ?t" "pupils_of ?t = pupils_of s" "tables ?t = tables s" "cou ?t = (cou s)(a \<mapsto> st\<lparr>co_students := d\<rparr>)" "stu ?t = stu s"
      "subjects_of ?t = (subjects_of s)[i := (subjects_of s ! i)\<lparr>su_members := map (person_of s) (remove_nth j (students_of s a))\<rparr>]"
      using put_course_effect [OF ok a st(1) refl _ refl d(2) distinct_remove_nth(1) [OF dist j], where F = "{}"] i by simp_all
    have "remove_student a x s = Inr ?t" using st find_index d Some by (simp add: remove_student_def)
    moreover have "rest ?t = rest s" by (simp add: rest_def put_course_def)
    moreover have "map (person_of s) (remove_nth j (students_of s a)) = remove_first (\<lambda>z. snd z = st_ID y) (su_members (subjects_of s ! i))"
      using Some by (simp add: pt fi remove_first_def remove_nth_def take_map drop_map)
    moreover have "key_of ?t = key_of s" using st(1) by (auto simp: key_of_def E(4) fun_eq_iff)
    moreover have "students_of ?t = (students_of s)(a := remove_first ?q (students_of s a))"
      using Some holds_refs [OF d(2)] by (auto simp: students_of_def [of ?t] E(4) fun_eq_iff remove_first_def) (simp add: students_of_def)
    ultimately show ?thesis using E st(1) holds_refs [OF d(2)] by auto
  qed
qed

section \<open>New objects\<close>

lemma student_added:
  assumes ok: "objects_ok s"
  shows "\<exists>t. (let (a, s1) = new_student name ID s in rbind (push a (all_students s1)) (\<lambda>d. Inr (s1\<lparr>all_students := d\<rparr>))) = Inr t \<and>
    objects_ok t \<and> rest t = rest s \<and> subjects_of t = subjects_of s \<and>
    pupils_of t = pupils_of s @ [\<lparr>p_name = name, p_ID = ID, p_taken = []\<rparr>]"
proof -
  define f where "f = length (student_heap s)"
  obtain d where d: "push f (all_students s) = Inr d" "array_holds d (students_at s @ [f])" using holds_push [OF objects_okD(1) [OF ok]] by blast
  define t where "t = s\<lparr>student_heap := student_heap s @ [Some \<lparr>st_name = name, st_ID = ID, st_courses = new_dyn\<rparr>], all_students := d\<rparr>"
  have t: "stu t = (stu s)(f \<mapsto> \<lparr>st_name = name, st_ID = ID, st_courses = new_dyn\<rparr>)" "cou t = cou s" "all_courses t = all_courses s"
    "students_at t = students_at s @ [f]" "rest t = rest s"
    using holds_refs [OF d(2)] by (auto simp: t_def stu_def cou_def fun_eq_iff f_def nth_append rest_def)
  have f: "stu s f = None" by (simp add: f_def stu_def)
  have T: "f \<noteq> a" if a: "a \<in> set (students_at s)" for a
  proof -
    obtain st where "stu s a = Some st" using student_okD objects_okD(3) [OF ok a] by metis
    with f show ?thesis by auto
  qed
  have M: "f \<noteq> m" if m: "c \<in> set (courses_at s)" "m \<in> set (students_of s c)" for c m
  proof -
    obtain st where "stu s m = Some st" using course_ok_copy objects_okD(4) [OF ok m(1)] m(2) by blast
    with f show ?thesis by auto
  qed
  have sof: "students_of t = students_of s" by (simp add: students_of_def t(2) fun_eq_iff)
  have cof: "courses_of t = (courses_of s)(f := [])" by (auto simp: courses_of_def t(1) fun_eq_iff)
  have "student_ok t a" if "a \<in> set (students_at t)" for a
  proof (cases "a = f")
    case False
    with that objects_okD(3) [OF ok, of a] show ?thesis by (auto simp: t(4) student_ok_def t(1,2) cof)
  qed (simp add: student_ok_def t(1) cof)
  moreover have "course_ok t c" if c: "c \<in> set (courses_at s)" for c
  proof -
    have "stu t m = stu s m" if "m \<in> set (students_of s c)" for m using M [OF c that] by (simp add: t(1))
    then show ?thesis using objects_okD(4) [OF ok c] by (simp add: course_ok_def sof t(2))
  qed
  moreover have "separate (students_at t) (courses_at s) (students_of t)" "separate (courses_at s) (students_at t) (courses_of t)"
    unfolding sof cof t(4) using objects_okD(5,6) [OF ok] T M by (auto intro!: separate_root)
  moreover have "dyn_ok (all_students t)" using dyn_okI [OF d(2)] by (simp add: t_def)
  ultimately have "objects_ok t" using ok by (simp add: objects_ok_def t(3))
  moreover have "pupil_of t a = pupil_of s a" if "a \<in> set (students_at s)" for a
    using T [OF that] by (simp add: pupil_of_def person_of_def t(1) cof key_of_def t(2))
  then have "pupils_of t = pupils_of s @ [\<lparr>p_name = name, p_ID = ID, p_taken = []\<rparr>]"
    by (simp add: pupils_of_def t(4) pupil_of_def [of t f] person_of_def t(1) cof)
  moreover have "subject_of t c = subject_of s c" if c: "c \<in> set (courses_at s)" for c
  proof -
    have "person_of t m = person_of s m" if "m \<in> set (students_of s c)" for m using M [OF c that] by (simp add: person_of_def t(1))
    then show ?thesis by (simp add: subject_of_def key_of_def t(2) sof)
  qed
  then have "subjects_of t = subjects_of s" by (simp add: subjects_of_def t(3))
  ultimately show ?thesis using d(1) t(5) by (simp add: new_student_def f_def t_def)
qed

lemma course_added:
  assumes ok: "objects_ok s"
  shows "\<exists>t. (let (a, s1) = new_course name code s in rbind (push a (all_courses s1)) (\<lambda>d. Inr (s1\<lparr>all_courses := d\<rparr>))) = Inr t \<and>
    objects_ok t \<and> rest t = rest s \<and> pupils_of t = pupils_of s \<and>
    subjects_of t = subjects_of s @ [\<lparr>su_name = name, su_code = code, su_members = []\<rparr>]"
proof -
  define f where "f = length (course_heap s)"
  obtain d where d: "push f (all_courses s) = Inr d" "array_holds d (courses_at s @ [f])" using holds_push [OF objects_okD(2) [OF ok]] by blast
  define t where "t = s\<lparr>course_heap := course_heap s @ [Some \<lparr>co_name = name, co_code = code, co_students = new_dyn\<rparr>], all_courses := d\<rparr>"
  have t: "cou t = (cou s)(f \<mapsto> \<lparr>co_name = name, co_code = code, co_students = new_dyn\<rparr>)" "stu t = stu s" "all_students t = all_students s"
    "courses_at t = courses_at s @ [f]" "rest t = rest s"
    using holds_refs [OF d(2)] by (auto simp: t_def cou_def stu_def fun_eq_iff f_def nth_append rest_def)
  have f: "cou s f = None" by (simp add: f_def cou_def)
  have T: "f \<noteq> a" if a: "a \<in> set (courses_at s)" for a
  proof -
    obtain st where "cou s a = Some st" using course_okD objects_okD(4) [OF ok a] by metis
    with f show ?thesis by auto
  qed
  have M: "f \<noteq> m" if m: "c \<in> set (students_at s)" "m \<in> set (courses_of s c)" for c m
  proof -
    obtain st where "cou s m = Some st" using student_ok_copy objects_okD(3) [OF ok m(1)] m(2) by blast
    with f show ?thesis by auto
  qed
  have sof: "courses_of t = courses_of s" by (simp add: courses_of_def t(2) fun_eq_iff)
  have cof: "students_of t = (students_of s)(f := [])" by (auto simp: students_of_def t(1) fun_eq_iff)
  have "course_ok t a" if "a \<in> set (courses_at t)" for a
  proof (cases "a = f")
    case False
    with that objects_okD(4) [OF ok, of a] show ?thesis by (auto simp: t(4) course_ok_def t(1,2) cof)
  qed (simp add: course_ok_def t(1) cof)
  moreover have "student_ok t c" if c: "c \<in> set (students_at s)" for c
  proof -
    have "cou t m = cou s m" if "m \<in> set (courses_of s c)" for m using M [OF c that] by (simp add: t(1))
    then show ?thesis using objects_okD(3) [OF ok c] by (simp add: student_ok_def sof t(2))
  qed
  moreover have "separate (courses_at t) (students_at s) (courses_of t)" "separate (students_at s) (courses_at t) (students_of t)"
    unfolding sof cof t(4) using objects_okD(6,5) [OF ok] T M by (auto intro!: separate_root)
  moreover have "dyn_ok (all_courses t)" using dyn_okI [OF d(2)] by (simp add: t_def)
  ultimately have "objects_ok t" using ok by (simp add: objects_ok_def t(3))
  moreover have "subject_of t a = subject_of s a" if "a \<in> set (courses_at s)" for a
    using T [OF that] by (simp add: subject_of_def key_of_def t(1) cof person_of_def t(2))
  then have "subjects_of t = subjects_of s @ [\<lparr>su_name = name, su_code = code, su_members = []\<rparr>]"
    by (simp add: subjects_of_def t(4) subject_of_def [of t f] key_of_def t(1) cof)
  moreover have "pupil_of t c = pupil_of s c" if c: "c \<in> set (students_at s)" for c
  proof -
    have "key_of t m = key_of s m" if "m \<in> set (courses_of s c)" for m using M [OF c that] by (simp add: key_of_def t(1))
    then show ?thesis by (simp add: pupil_of_def person_of_def t(2) sof)
  qed
  then have "pupils_of t = pupils_of s" by (simp add: pupils_of_def t(3))
  ultimately show ?thesis using d(1) t(5) by (simp add: new_course_def f_def t_def)
qed

end
