(* ===== verification/School_Deletion.thy ===== *)
theory School_Deletion
  imports School_Effects
begin

text \<open>Deleting a student or a course: the loops over its courses or students, and what is freed.\<close>

section \<open>Leaving the lists of the others\<close>

lemma leave_course_effect:
  assumes ok: "objects_ok s" and a: "a \<in> set (students_at s)" and c: "cou s c \<noteq> None"
  shows "\<exists>t. leave_course a c s = Inr t \<and> objects_ok t \<and> pupils_of t = pupils_of s \<and> tables t = tables s \<and> rest t = rest s \<and>
    subjects_of t = unlist (snd (person_of s a)) (fst (key_of s c)) (subjects_of s) \<and> stu t = stu s \<and>
    (\<forall>b. b \<notin> set (courses_at s) \<longrightarrow> cou t b = cou s b) \<and> key_of t = key_of s"
proof -
  obtain y where y: "cou s c = Some y" using c by blast
  obtain st where st: "stu s a = Some st" using student_okD objects_okD(3) [OF ok a] by metis
  let ?q = "\<lambda>k. fst (key_of s k) = fst (key_of s c)"
  have "\<forall>k \<in> set (courses_at s). same_code s k c = Inr (?q k)"
  proof
    fix k assume "k \<in> set (courses_at s)"
    then obtain z where "cou s k = Some z" using course_okD objects_okD(4) [OF ok] by metis
    with y show "same_code s k c = Inr (?q k)" by (simp add: same_live)
  qed
  then have find_index: "find_index (\<lambda>k. same_code s k c) (all_courses s) 0 = Inr (first_index ?q (courses_at s))"
    by (rule holds_search [OF objects_okD(2) [OF ok]])
  have fi: "first_index (\<lambda>x. su_code x = fst (key_of s c)) (subjects_of s) = first_index ?q (courses_at s)"
    by (simp add: subjects_of_def first_index_map comp_def subject_of_def)
  show ?thesis
  proof (cases "first_index ?q (courses_at s)")
    case None
    then show ?thesis using find_index ok fi by (simp add: leave_course_def unlist_def update_first_def)
  next
    case (Some k)
    then have k: "k < length (courses_at s)" by (simp add: first_index_Some)
    have ID: "st_ID st = snd (person_of s a)" using st by (simp add: person_of_def)
    have "leave_course a c s = remove_student (courses_at s ! k) (Ref a) s"
      using find_index Some holds_element [OF objects_okD(2) [OF ok] k] by (simp add: leave_course_def)
    moreover have "\<forall>b. b \<notin> set (courses_at s) \<longrightarrow> b \<noteq> courses_at s ! k" using k by auto
    ultimately show ?thesis using remove_student_effect [OF ok k refl, of "Ref a" a st] st k Some fi
      by (auto simp: target_def ID unlist_def update_first_def)
  qed
qed

lemma leave_courses_effect:
  assumes "objects_ok s" "a \<in> set (students_at s)" "array_holds d cs" "\<forall>c \<in> set cs. cou s c \<noteq> None \<and> c \<notin> set (courses_at s)"
  shows "\<exists>t. leave_courses a d j s = Inr t \<and> objects_ok t \<and> pupils_of t = pupils_of s \<and> tables t = tables s \<and> rest t = rest s \<and>
    subjects_of t = fold (unlist (snd (person_of s a))) (map (\<lambda>z. fst (key_of s z)) (drop j cs)) (subjects_of s) \<and> stu t = stu s \<and>
    (\<forall>b. b \<notin> set (courses_at s) \<longrightarrow> cou t b = cou s b)"
  using assms
proof (induction a d j s rule: leave_courses.induct)
  case (1 a d j s)
  show ?case
  proof (cases "j < length cs")
    case True
    let ?c = "cs ! j"
    have el: "element d (int j) = Inr ?c" "d_num d = length cs" using holds_element [OF "1.prems"(3) True] holds_num [OF "1.prems"(3)] by auto
    have dr: "drop j cs = ?c # drop (j + 1) cs" using True by (simp add: Cons_nth_drop_Suc)
    have "cou s ?c \<noteq> None" using True "1.prems"(4) by simp
    from leave_course_effect [OF "1.prems"(1,2) this] obtain u where u: "leave_course a ?c s = Inr u" "objects_ok u" "pupils_of u = pupils_of s"
      "tables u = tables s" "rest u = rest s" "subjects_of u = unlist (snd (person_of s a)) (fst (key_of s ?c)) (subjects_of s)" "stu u = stu s"
      "\<forall>b. b \<notin> set (courses_at s) \<longrightarrow> cou u b = cou s b" "key_of u = key_of s" by blast
    have tab: "all_students u = all_students s" "all_courses u = all_courses s" using u(4) by (simp_all add: tables_def)
    have pers: "person_of u = person_of s" using u(7) by (simp add: person_of_def fun_eq_iff)
    have "\<forall>c \<in> set cs. cou u c \<noteq> None \<and> c \<notin> set (courses_at u)" using "1.prems"(4) u(8) tab by simp
    then obtain t where "leave_courses a d (j + 1) u = Inr t" "objects_ok t" "pupils_of t = pupils_of u" "tables t = tables u" "rest t = rest u"
      "subjects_of t = fold (unlist (snd (person_of u a))) (map (\<lambda>z. fst (key_of u z)) (drop (j + 1) cs)) (subjects_of u)" "stu t = stu u"
      "\<forall>b. b \<notin> set (courses_at u) \<longrightarrow> cou t b = cou u b"
      using "1.IH" [of ?c u] True el u(1,2) "1.prems"(2,3) tab by auto
    then show ?thesis
      using True el u dr pers tab by (auto simp: leave_courses.simps [of a d j s] comp_def)
  next
    case False
    then show ?thesis using holds_num [OF "1.prems"(3)] "1.prems"(1) by (simp add: leave_courses.simps [of a d j s])
  qed
qed

lemma leave_student_effect:
  assumes ok: "objects_ok s" and a: "a \<in> set (courses_at s)" and c: "stu s c \<noteq> None"
  shows "\<exists>t. leave_student a c s = Inr t \<and> objects_ok t \<and> subjects_of t = subjects_of s \<and> tables t = tables s \<and> rest t = rest s \<and>
    pupils_of t = withdraw (fst (key_of s a)) (snd (person_of s c)) (pupils_of s) \<and> cou t = cou s \<and>
    (\<forall>b. b \<notin> set (students_at s) \<longrightarrow> stu t b = stu s b) \<and> person_of t = person_of s"
proof -
  obtain y where y: "stu s c = Some y" using c by blast
  obtain st where st: "cou s a = Some st" using course_okD objects_okD(4) [OF ok a] by metis
  let ?q = "\<lambda>k. snd (person_of s k) = snd (person_of s c)"
  have "\<forall>k \<in> set (students_at s). same_ID s k c = Inr (?q k)"
  proof
    fix k assume "k \<in> set (students_at s)"
    then obtain z where "stu s k = Some z" using student_okD objects_okD(3) [OF ok] by metis
    with y show "same_ID s k c = Inr (?q k)" by (simp add: same_live)
  qed
  then have find_index: "find_index (\<lambda>k. same_ID s k c) (all_students s) 0 = Inr (first_index ?q (students_at s))"
    by (rule holds_search [OF objects_okD(1) [OF ok]])
  have fi: "first_index (\<lambda>x. p_ID x = snd (person_of s c)) (pupils_of s) = first_index ?q (students_at s)"
    by (simp add: pupils_of_def first_index_map comp_def pupil_of_def)
  show ?thesis
  proof (cases "first_index ?q (students_at s)")
    case None
    then show ?thesis using find_index ok fi by (simp add: leave_student_def withdraw_def update_first_def)
  next
    case (Some k)
    then have k: "k < length (students_at s)" by (simp add: first_index_Some)
    have code: "co_code st = fst (key_of s a)" using st by (simp add: key_of_def)
    have "leave_student a c s = remove_course (students_at s ! k) (Ref a) s"
      using find_index Some holds_element [OF objects_okD(1) [OF ok] k] by (simp add: leave_student_def)
    moreover have "\<forall>b. b \<notin> set (students_at s) \<longrightarrow> b \<noteq> students_at s ! k" using k by auto
    ultimately show ?thesis using remove_course_effect [OF ok k refl, of "Ref a" a st] st k Some fi
      by (auto simp: target_def code withdraw_def update_first_def)
  qed
qed

lemma leave_students_effect:
  assumes "objects_ok s" "a \<in> set (courses_at s)" "array_holds d cs" "\<forall>c \<in> set cs. stu s c \<noteq> None \<and> c \<notin> set (students_at s)"
  shows "\<exists>t. leave_students a d j s = Inr t \<and> objects_ok t \<and> subjects_of t = subjects_of s \<and> tables t = tables s \<and> rest t = rest s \<and>
    pupils_of t = fold (withdraw (fst (key_of s a))) (map (\<lambda>z. snd (person_of s z)) (drop j cs)) (pupils_of s) \<and> cou t = cou s \<and>
    (\<forall>b. b \<notin> set (students_at s) \<longrightarrow> stu t b = stu s b)"
  using assms
proof (induction a d j s rule: leave_students.induct)
  case (1 a d j s)
  show ?case
  proof (cases "j < length cs")
    case True
    let ?c = "cs ! j"
    have el: "element d (int j) = Inr ?c" "d_num d = length cs" using holds_element [OF "1.prems"(3) True] holds_num [OF "1.prems"(3)] by auto
    have dr: "drop j cs = ?c # drop (j + 1) cs" using True by (simp add: Cons_nth_drop_Suc)
    have "stu s ?c \<noteq> None" using True "1.prems"(4) by simp
    from leave_student_effect [OF "1.prems"(1,2) this] obtain u where u: "leave_student a ?c s = Inr u" "objects_ok u" "subjects_of u = subjects_of s"
      "tables u = tables s" "rest u = rest s" "pupils_of u = withdraw (fst (key_of s a)) (snd (person_of s ?c)) (pupils_of s)" "cou u = cou s"
      "\<forall>b. b \<notin> set (students_at s) \<longrightarrow> stu u b = stu s b" "person_of u = person_of s" by blast
    have tab: "all_courses u = all_courses s" "all_students u = all_students s" using u(4) by (simp_all add: tables_def)
    have pers: "key_of u = key_of s" using u(7) by (simp add: key_of_def fun_eq_iff)
    have "\<forall>c \<in> set cs. stu u c \<noteq> None \<and> c \<notin> set (students_at u)" using "1.prems"(4) u(8) tab by simp
    then obtain t where "leave_students a d (j + 1) u = Inr t" "objects_ok t" "subjects_of t = subjects_of u" "tables t = tables u" "rest t = rest u"
      "pupils_of t = fold (withdraw (fst (key_of u a))) (map (\<lambda>z. snd (person_of u z)) (drop (j + 1) cs)) (pupils_of u)" "cou t = cou u"
      "\<forall>b. b \<notin> set (students_at u) \<longrightarrow> stu t b = stu u b"
      using "1.IH" [of ?c u] True el u(1,2) "1.prems"(2,3) tab by auto
    then show ?thesis
      using True el u dr pers tab by (auto simp: leave_students.simps [of a d j s] comp_def)
  next
    case False
    then show ?thesis using holds_num [OF "1.prems"(3)] "1.prems"(1) by (simp add: leave_students.simps [of a d j s])
  qed
qed

section \<open>Freeing\<close>

definition free_course :: "nat \<Rightarrow> school \<Rightarrow> school" where
  "free_course c s = s\<lparr>course_heap := (course_heap s)[c := None]\<rparr>"

lemma free_course_simps [simp]:
  "cou (free_course c s) = (cou s)(c := None)" "stu (free_course c s) = stu s" "tables (free_course c s) = tables s"
  "rest (free_course c s) = rest s" "length (course_heap (free_course c s)) = length (course_heap s)"
  "length (student_heap (free_course c s)) = length (student_heap s)"
  by (auto simp: free_course_def cou_def stu_def fun_eq_iff tables_def rest_def nth_list_update)

lemma free_courses_simps [simp]:
  "cou (fold free_course cs s) c = (if c \<in> set cs then None else cou s c)" "stu (fold free_course cs s) = stu s"
  "tables (fold free_course cs s) = tables s" "rest (fold free_course cs s) = rest s"
  "length (course_heap (fold free_course cs s)) = length (course_heap s)"
  "length (student_heap (fold free_course cs s)) = length (student_heap s)"
  by (induction cs arbitrary: s) auto

lemma destroy_course_copies:
  assumes "distinct cs" "\<forall>c \<in> set cs. \<exists>x. cou s c = Some x \<and> co_students x = new_dyn"
  shows "destroy (map Course_at (map Ref cs) @ ds) s = destroy ds (fold free_course cs s)"
  using assms
proof (induction cs arbitrary: s)
  case (Cons c cs)
  then obtain x where x: "cou s c = Some x" "co_students x = new_dyn" by auto
  have "destroy (map Course_at (map Ref (c # cs)) @ ds) s = destroy (map Course_at (map Ref cs) @ ds) (free_course c s)"
    using x by (simp add: free_course_def)
  also have "\<dots> = destroy ds (fold free_course cs (free_course c s))"
    using Cons.prems by (intro Cons.IH) auto
  finally show ?case by simp
qed simp

definition free_student :: "nat \<Rightarrow> school \<Rightarrow> school" where
  "free_student c s = s\<lparr>student_heap := (student_heap s)[c := None]\<rparr>"

lemma free_student_simps [simp]:
  "stu (free_student c s) = (stu s)(c := None)" "cou (free_student c s) = cou s" "tables (free_student c s) = tables s"
  "rest (free_student c s) = rest s" "length (student_heap (free_student c s)) = length (student_heap s)"
  "length (course_heap (free_student c s)) = length (course_heap s)"
  by (auto simp: free_student_def stu_def cou_def fun_eq_iff tables_def rest_def nth_list_update)

lemma free_students_simps [simp]:
  "stu (fold free_student cs s) c = (if c \<in> set cs then None else stu s c)" "cou (fold free_student cs s) = cou s"
  "tables (fold free_student cs s) = tables s" "rest (fold free_student cs s) = rest s"
  "length (student_heap (fold free_student cs s)) = length (student_heap s)"
  "length (course_heap (fold free_student cs s)) = length (course_heap s)"
  by (induction cs arbitrary: s) auto

lemma destroy_student_copies:
  assumes "distinct cs" "\<forall>c \<in> set cs. \<exists>x. stu s c = Some x \<and> st_courses x = new_dyn"
  shows "destroy (map Student_at (map Ref cs) @ ds) s = destroy ds (fold free_student cs s)"
  using assms
proof (induction cs arbitrary: s)
  case (Cons c cs)
  then obtain x where x: "stu s c = Some x" "st_courses x = new_dyn" by auto
  have "destroy (map Student_at (map Ref (c # cs)) @ ds) s = destroy (map Student_at (map Ref cs) @ ds) (free_student c s)"
    using x by (simp add: free_student_def)
  also have "\<dots> = destroy ds (fold free_student cs (free_student c s))"
    using Cons.prems by (intro Cons.IH) auto
  finally show ?case by simp
qed simp

lemma destroy_student:
  assumes "stu s a = Some st" "array_holds (st_courses st) cs" "distinct cs"
    "\<forall>c \<in> set cs. \<exists>x. cou s c = Some x \<and> co_students x = new_dyn"
  shows "destroy (Student_at (Ref a) # ds) s = destroy ds (fold free_course cs (free_student a s))"
proof -
  have "destroy (Student_at (Ref a) # ds) s = destroy (map Course_at (map Ref cs) @ ds) (free_student a s)"
    using assms(1) holds_elements(2) [OF assms(2)] by (simp add: free_student_def)
  also have "\<dots> = destroy ds (fold free_course cs (free_student a s))"
    using assms(3,4) by (intro destroy_course_copies) auto
  finally show ?thesis .
qed

lemma student_removed:
  assumes ok: "objects_ok s" and i: "i < length (students_at s)" "a = students_at s ! i"
    and t: "stu t = (stu s)(a := None)" "\<And>c. cou t c = (if c \<in> set (courses_of s a) then None else cou s c)"
      "all_courses t = all_courses s" "array_holds (all_students t) (remove_nth i (students_at s))"
  shows "objects_ok t" "pupils_of t = remove_nth i (pupils_of s)" "subjects_of t = subjects_of s"
    "students_at t = remove_nth i (students_at s)"
proof -
  have sep: "separate (students_at s) (courses_at s) (students_of s)" "separate (courses_at s) (students_at s) (courses_of s)"
    using objects_okD(5,6) [OF ok] by auto
  show T: "students_at t = remove_nth i (students_at s)" by (rule holds_refs [OF t(4)])
  have a: "a \<in> set (students_at s)" using i by simp
  have dist: "distinct (students_at s)" using sep(1) by (simp add: separate_def)
  have sub: "b \<in> set (students_at s) \<and> b \<noteq> a" if "b \<in> set (students_at t)" for b
    using that distinct_remove_nth(2) [OF dist i(1)] set_remove_nth_subset [of i "students_at s"] i(2) by (auto simp: T)
  have K: "cou t c = cou s c" if "c \<in> set (courses_at s)" for c
  proof -
    have "set (courses_of s a) \<inter> set (courses_at s) = {}" using sep(2) a by (simp add: separate_def)
    with that t(2) show ?thesis by auto
  qed
  have copies: "cou t c = cou s c" if "b \<in> set (students_at t)" "c \<in> set (courses_of s b)" for b c
  proof -
    have "set (courses_of s b) \<inter> set (courses_of s a) = {}" using sep(2) a sub [OF that(1)] unfolding separate_def by metis
    with that t(2) show ?thesis by auto
  qed
  have mem: "stu t m = stu s m" if "c \<in> set (courses_at s)" "m \<in> set (students_of s c)" for c m
  proof -
    have "set (students_of s c) \<inter> set (students_at s) = {}" using sep(1) that by (simp add: separate_def)
    with that(2) a t(1) show ?thesis by auto
  qed
  have sof: "students_of t c = students_of s c" if "c \<in> set (courses_at s)" for c
    using K [OF that] by (simp add: students_of_def)
  have cof: "courses_of t b = courses_of s b" if "b \<in> set (students_at t)" for b
    using sub [OF that] by (simp add: courses_of_def t(1))
  have "student_ok t b" if b: "b \<in> set (students_at t)" for b
  proof -
    have "student_ok s b" using objects_okD(3) [OF ok] sub [OF b] by blast
    then show ?thesis using sub [OF b] copies [OF b] cof [OF b] by (simp add: student_ok_def t(1))
  qed
  moreover have "course_ok t c" if c: "c \<in> set (courses_at s)" for c
    using objects_okD(4) [OF ok c] K [OF c] sof [OF c] mem [OF c] by (simp add: course_ok_def)
  moreover have "separate (students_at t) (courses_at s) (students_of t)"
  proof -
    have "separate (students_at t) (courses_at s) (students_of s)"
      using sep(1) distinct_remove_nth(1) [OF dist i(1)] sub unfolding separate_def T [symmetric] by blast
    then show ?thesis using separate_cong [of "courses_at s" "students_of t" "students_of s"] sof by simp
  qed
  moreover have "separate (courses_at s) (students_at t) (courses_of t)"
  proof -
    have "separate (courses_at s) (students_at t) (courses_of s)"
      using sep(2) sub unfolding separate_def by meson
    then show ?thesis using separate_cong [of "students_at t" "courses_of t" "courses_of s"] cof by simp
  qed
  moreover have "dyn_ok (all_students t)" using dyn_okI [OF t(4)] by simp
  ultimately show "objects_ok t" using ok t(3) by (simp add: objects_ok_def)
  have "pupil_of t b = pupil_of s b" if b: "b \<in> set (students_at t)" for b
    using sub [OF b] cof [OF b] copies [OF b] by (simp add: pupil_of_def person_of_def t(1) key_of_def)
  then show "pupils_of t = remove_nth i (pupils_of s)"
    by (simp add: pupils_of_def T) (simp add: remove_nth_def take_map drop_map)
  have "subject_of t c = subject_of s c" if c: "c \<in> set (courses_at s)" for c
    using K [OF c] sof [OF c] mem [OF c] by (simp add: subject_of_def person_of_def key_of_def)
  then show "subjects_of t = subjects_of s" by (simp add: subjects_of_def t(3))
qed

lemma destroy_course:
  assumes "cou s a = Some st" "array_holds (co_students st) cs" "distinct cs"
    "\<forall>c \<in> set cs. \<exists>x. stu s c = Some x \<and> st_courses x = new_dyn"
  shows "destroy (Course_at (Ref a) # ds) s = destroy ds (fold free_student cs (free_course a s))"
proof -
  have "destroy (Course_at (Ref a) # ds) s = destroy (map Student_at (map Ref cs) @ ds) (free_course a s)"
    using assms(1) holds_elements(2) [OF assms(2)] by (simp add: free_course_def)
  also have "\<dots> = destroy ds (fold free_student cs (free_course a s))"
    using assms(3,4) by (intro destroy_student_copies) auto
  finally show ?thesis .
qed

lemma course_removed:
  assumes ok: "objects_ok s" and i: "i < length (courses_at s)" "a = courses_at s ! i"
    and t: "cou t = (cou s)(a := None)" "\<And>c. stu t c = (if c \<in> set (students_of s a) then None else stu s c)"
      "all_students t = all_students s" "array_holds (all_courses t) (remove_nth i (courses_at s))"
  shows "objects_ok t" "subjects_of t = remove_nth i (subjects_of s)" "pupils_of t = pupils_of s"
    "courses_at t = remove_nth i (courses_at s)"
proof -
  have sep: "separate (courses_at s) (students_at s) (courses_of s)" "separate (students_at s) (courses_at s) (students_of s)"
    using objects_okD(6,5) [OF ok] by auto
  show T: "courses_at t = remove_nth i (courses_at s)" by (rule holds_refs [OF t(4)])
  have a: "a \<in> set (courses_at s)" using i by simp
  have dist: "distinct (courses_at s)" using sep(1) by (simp add: separate_def)
  have sub: "b \<in> set (courses_at s) \<and> b \<noteq> a" if "b \<in> set (courses_at t)" for b
    using that distinct_remove_nth(2) [OF dist i(1)] set_remove_nth_subset [of i "courses_at s"] i(2) by (auto simp: T)
  have K: "stu t c = stu s c" if "c \<in> set (students_at s)" for c
  proof -
    have "set (students_of s a) \<inter> set (students_at s) = {}" using sep(2) a by (simp add: separate_def)
    with that t(2) show ?thesis by auto
  qed
  have copies: "stu t c = stu s c" if "b \<in> set (courses_at t)" "c \<in> set (students_of s b)" for b c
  proof -
    have "set (students_of s b) \<inter> set (students_of s a) = {}" using sep(2) a sub [OF that(1)] unfolding separate_def by metis
    with that t(2) show ?thesis by auto
  qed
  have mem: "cou t m = cou s m" if "c \<in> set (students_at s)" "m \<in> set (courses_of s c)" for c m
  proof -
    have "set (courses_of s c) \<inter> set (courses_at s) = {}" using sep(1) that by (simp add: separate_def)
    with that(2) a t(1) show ?thesis by auto
  qed
  have sof: "courses_of t c = courses_of s c" if "c \<in> set (students_at s)" for c
    using K [OF that] by (simp add: courses_of_def)
  have cof: "students_of t b = students_of s b" if "b \<in> set (courses_at t)" for b
    using sub [OF that] by (simp add: students_of_def t(1))
  have "course_ok t b" if b: "b \<in> set (courses_at t)" for b
  proof -
    have "course_ok s b" using objects_okD(4) [OF ok] sub [OF b] by blast
    then show ?thesis using sub [OF b] copies [OF b] cof [OF b] by (simp add: course_ok_def t(1))
  qed
  moreover have "student_ok t c" if c: "c \<in> set (students_at s)" for c
    using objects_okD(3) [OF ok c] K [OF c] sof [OF c] mem [OF c] by (simp add: student_ok_def)
  moreover have "separate (courses_at t) (students_at s) (courses_of t)"
  proof -
    have "separate (courses_at t) (students_at s) (courses_of s)"
      using sep(1) distinct_remove_nth(1) [OF dist i(1)] sub unfolding separate_def T [symmetric] by blast
    then show ?thesis using separate_cong [of "students_at s" "courses_of t" "courses_of s"] sof by simp
  qed
  moreover have "separate (students_at s) (courses_at t) (students_of t)"
  proof -
    have "separate (students_at s) (courses_at t) (students_of s)"
      using sep(2) sub unfolding separate_def by meson
    then show ?thesis using separate_cong [of "courses_at t" "students_of t" "students_of s"] cof by simp
  qed
  moreover have "dyn_ok (all_courses t)" using dyn_okI [OF t(4)] by simp
  ultimately show "objects_ok t" using ok t(3) by (simp add: objects_ok_def)
  have "subject_of t b = subject_of s b" if b: "b \<in> set (courses_at t)" for b
    using sub [OF b] cof [OF b] copies [OF b] by (simp add: subject_of_def key_of_def t(1) person_of_def)
  then show "subjects_of t = remove_nth i (subjects_of s)"
    by (simp add: subjects_of_def T) (simp add: remove_nth_def take_map drop_map)
  have "pupil_of t c = pupil_of s c" if c: "c \<in> set (students_at s)" for c
    using K [OF c] sof [OF c] mem [OF c] by (simp add: pupil_of_def key_of_def person_of_def)
  then show "pupils_of t = pupils_of s" by (simp add: pupils_of_def t(3))
qed

section \<open>The loop of the deletion\<close>

lemma delete_student_skip:
  assumes ok: "objects_ok s" and a: "stu s a \<noteq> None"
    and before: "\<forall>j < i. snd (person_of s (students_at s ! j)) \<noteq> snd (person_of s a)" and i: "i \<le> length (students_at s)" and j: "j \<le> i"
  shows "delete_student_from a j s = delete_student_from a i s"
  using j
proof (induction rule: inc_induct)
  case (step j)
  then have j: "j < length (students_at s)" "snd (person_of s (students_at s ! j)) \<noteq> snd (person_of s a)" using i before by auto
  then obtain z where z: "stu s (students_at s ! j) = Some z" using student_okD objects_okD(3) [OF ok nth_mem] by metis
  obtain y where y: "stu s a = Some y" using a by blast
  have "delete_student_from a j s = delete_student_from a (Suc j) s"
    using j holds_element [OF objects_okD(1) [OF ok] j(1)] holds_num [OF objects_okD(1) [OF ok]] same_live(2) [OF z y]
    by (simp add: delete_student_from.simps [of a j s])
  with step.IH show ?case by simp
qed simp

lemma delete_student_effect:
  assumes ok: "objects_ok s" and first: "first_index (\<lambda>p. p_ID p = snd (person_of s a)) (pupils_of s) = Some i"
    and a: "students_at s ! i = a"
  shows "i + 2 < length (students_at s) \<Longrightarrow> delete_student_from a 0 s = Inl UseAfterFree"
    "\<not> i + 2 < length (students_at s) \<Longrightarrow> \<exists>t. delete_student_from a 0 s = Inr t \<and> objects_ok t \<and> rest t = rest s \<and>
       pupils_of t = remove_nth i (pupils_of s) \<and>
       subjects_of t = fold (unlist (snd (person_of s a))) (map fst (p_taken (pupils_of s ! i))) (subjects_of s)"
proof -
  have i: "i < length (students_at s)" using first_index_SomeD(1) [OF first] by simp
  have before: "\<forall>j < i. snd (person_of s (students_at s ! j)) \<noteq> snd (person_of s a)"
    using first i by (auto simp: first_index_Some pupils_of_def pupil_of_def)
  have mem: "a \<in> set (students_at s)" using i a by auto
  obtain st where st: "stu s a = Some st" "array_holds (st_courses st) (courses_of s a)" using student_okD objects_okD(3) [OF ok mem] by metis
  let ?cs = "courses_of s a"
  have sep: "separate (courses_at s) (students_at s) (courses_of s)" by (rule objects_okD(6) [OF ok])
  have dist: "distinct ?cs" and out: "\<forall>c \<in> set ?cs. c \<notin> set (courses_at s)" using sep mem unfolding separate_def by auto
  have copies: "\<forall>c \<in> set ?cs. \<exists>x. cou s c = Some x \<and> co_students x = new_dyn" using student_ok_copy [OF objects_okD(3) [OF ok mem]] by blast
  with out have "\<forall>c \<in> set ?cs. cou s c \<noteq> None \<and> c \<notin> set (courses_at s)" by auto
  from leave_courses_effect [OF ok mem st(2) this, of 0] obtain u where u: "leave_courses a (st_courses st) 0 s = Inr u" "objects_ok u"
    "pupils_of u = pupils_of s" "tables u = tables s" "rest u = rest s"
    "subjects_of u = fold (unlist (snd (person_of s a))) (map (\<lambda>z. fst (key_of s z)) ?cs) (subjects_of s)" "stu u = stu s"
    "\<forall>b. b \<notin> set (courses_at s) \<longrightarrow> cou u b = cou s b" by auto
  have tab: "all_students u = all_students s" "all_courses u = all_courses s" using u(4) by (simp_all add: tables_def)
  let ?v = "fold free_course ?cs (free_student a u)"
  have v: "all_students ?v = all_students s" "all_courses ?v = all_courses s" 
  proof -
    have "tables ?v = tables s" using u(4) by simp
    then show "all_students ?v = all_students s" "all_courses ?v = all_courses s" by (simp_all add: tables_def)
  qed
  have "\<forall>c \<in> set ?cs. \<exists>x. cou u c = Some x \<and> co_students x = new_dyn" using copies u(8) out by simp
  then have free: "destroy [Student_at (Ref a)] u = Inr ?v" using destroy_student [OF _ st(2) dist, of u a "[]"] st(1) u(7) by simp
  obtain d where d: "take_out i (all_students s) = Inr d" "array_holds d (remove_nth i (students_at s))"
    using holds_take_out [OF objects_okD(1) [OF ok] i] by blast
  let ?t = "?v\<lparr>all_students := d\<rparr>"
  have t: "stu ?t = (stu u)(a := None)" "\<And>c. cou ?t c = (if c \<in> set (courses_of u a) then None else cou u c)" "all_courses ?t = all_courses u"
    "array_holds (all_students ?t) (remove_nth i (students_at u))"
  proof -
    have eq: "stu ?t = stu ?v" "cou ?t = cou ?v" by (rule heap_frame)+
    have "courses_of u a = ?cs" by (simp add: courses_of_def u(7))
    then show "stu ?t = (stu u)(a := None)" "\<And>c. cou ?t c = (if c \<in> set (courses_of u a) then None else cou u c)" unfolding eq by auto
    show "all_courses ?t = all_courses u" "array_holds (all_students ?t) (remove_nth i (students_at u))" using v d(2) tab by simp_all
  qed
  have ui: "i < length (students_at u)" "a = students_at u ! i" using i a tab by simp_all
  note R = student_removed [OF u(2) ui t]
  have "delete_student_from a 0 s = delete_student_from a i s"
    using st(1) before i by (intro delete_student_skip [OF ok]) auto
  also have "\<dots> = delete_student_from a (i + 1) ?t"
    using i a st(1) u(1) free d(1) v holds_element [OF objects_okD(1) [OF ok] i] holds_num [OF objects_okD(1) [OF ok]] same_live(2) [OF st(1) st(1)]
    by (simp add: delete_student_from.simps [of a i s] del: destroy.simps)
  finally have loop: "delete_student_from a 0 s = delete_student_from a (i + 1) ?t" .
  have T: "array_holds (all_students ?t) (students_at ?t)" "length (students_at ?t) = length (students_at s) - 1"
    using objects_okD(1) [OF R(1)] R(4) i tab by simp_all
  have "rest ?v = rest s" using u(5) by simp
  then have "rest ?t = rest s" unfolding rest_def by simp
  moreover have "map (\<lambda>z. fst (key_of s z)) ?cs = map fst (p_taken (pupils_of s ! i))" using i a by (simp add: pupils_of_def pupil_of_def)
  moreover have "\<not> i + 1 < d_num d" if "\<not> i + 2 < length (students_at s)" using that holds_num [OF d(2)] i by simp
  ultimately show "\<exists>t. delete_student_from a 0 s = Inr t \<and> objects_ok t \<and> rest t = rest s \<and>
       pupils_of t = remove_nth i (pupils_of s) \<and>
       subjects_of t = fold (unlist (snd (person_of s a))) (map fst (p_taken (pupils_of s ! i))) (subjects_of s)"
    if "\<not> i + 2 < length (students_at s)"
    using that R u(3,6) loop by (intro exI [of _ ?t]) (simp add: delete_student_from.simps [of a "Suc i" ?t])
  show "delete_student_from a 0 s = Inl UseAfterFree" if n: "i + 2 < length (students_at s)"
  proof -
    have n': "i + 1 < length (students_at ?t)" using n T(2) by simp
    then obtain z where z: "stu ?t (students_at ?t ! (i + 1)) = Some z" using student_okD objects_okD(3) [OF R(1) nth_mem [OF n']] by metis
    have "a < length (student_heap ?t)" using live_below(1) [OF st(1)] u(7) st(1) live_below(1) [of u a st] by simp
    moreover have "stu ?t a = None" using t(1) by simp
    ultimately have "get_student ?t a = Inl UseAfterFree" by (intro get_freed(1))
    then have "same_ID ?t (students_at ?t ! (i + 1)) a = Inl UseAfterFree" using get_live(1) [OF z] by (simp add: same_ID_def)
    then show ?thesis
      using loop n' holds_element [OF T(1) n'] holds_num [OF T(1)] by (simp add: delete_student_from.simps [of a "Suc i" ?t])
  qed
qed

lemma delete_course_skip:
  assumes ok: "objects_ok s" and a: "cou s a \<noteq> None"
    and before: "\<forall>j < i. fst (key_of s (courses_at s ! j)) \<noteq> fst (key_of s a)" and i: "i \<le> length (courses_at s)" and j: "j \<le> i"
  shows "delete_course_from a j s = delete_course_from a i s"
  using j
proof (induction rule: inc_induct)
  case (step j)
  then have j: "j < length (courses_at s)" "fst (key_of s (courses_at s ! j)) \<noteq> fst (key_of s a)" using i before by auto
  then obtain z where z: "cou s (courses_at s ! j) = Some z" using course_okD objects_okD(4) [OF ok nth_mem] by metis
  obtain y where y: "cou s a = Some y" using a by blast
  have "delete_course_from a j s = delete_course_from a (Suc j) s"
    using j holds_element [OF objects_okD(2) [OF ok] j(1)] holds_num [OF objects_okD(2) [OF ok]] same_live(1) [OF z y]
    by (simp add: delete_course_from.simps [of a j s])
  with step.IH show ?case by simp
qed simp

lemma delete_course_effect:
  assumes ok: "objects_ok s" and first: "first_index (\<lambda>p. su_code p = fst (key_of s a)) (subjects_of s) = Some i"
    and a: "courses_at s ! i = a"
  shows "i + 2 < length (courses_at s) \<Longrightarrow> delete_course_from a 0 s = Inl UseAfterFree"
    "\<not> i + 2 < length (courses_at s) \<Longrightarrow> \<exists>t. delete_course_from a 0 s = Inr t \<and> objects_ok t \<and> rest t = rest s \<and>
       subjects_of t = remove_nth i (subjects_of s) \<and>
       pupils_of t = fold (withdraw (fst (key_of s a))) (map snd (su_members (subjects_of s ! i))) (pupils_of s)"
proof -
  have i: "i < length (courses_at s)" using first_index_SomeD(1) [OF first] by simp
  have before: "\<forall>j < i. fst (key_of s (courses_at s ! j)) \<noteq> fst (key_of s a)"
    using first i by (auto simp: first_index_Some subjects_of_def subject_of_def)
  have mem: "a \<in> set (courses_at s)" using i a by auto
  obtain st where st: "cou s a = Some st" "array_holds (co_students st) (students_of s a)" using course_okD objects_okD(4) [OF ok mem] by metis
  let ?cs = "students_of s a"
  have sep: "separate (students_at s) (courses_at s) (students_of s)" by (rule objects_okD(5) [OF ok])
  have dist: "distinct ?cs" and out: "\<forall>c \<in> set ?cs. c \<notin> set (students_at s)" using sep mem unfolding separate_def by auto
  have copies: "\<forall>c \<in> set ?cs. \<exists>x. stu s c = Some x \<and> st_courses x = new_dyn" using course_ok_copy [OF objects_okD(4) [OF ok mem]] by blast
  with out have "\<forall>c \<in> set ?cs. stu s c \<noteq> None \<and> c \<notin> set (students_at s)" by auto
  from leave_students_effect [OF ok mem st(2) this, of 0] obtain u where u: "leave_students a (co_students st) 0 s = Inr u" "objects_ok u"
    "subjects_of u = subjects_of s" "tables u = tables s" "rest u = rest s"
    "pupils_of u = fold (withdraw (fst (key_of s a))) (map (\<lambda>z. snd (person_of s z)) ?cs) (pupils_of s)" "cou u = cou s"
    "\<forall>b. b \<notin> set (students_at s) \<longrightarrow> stu u b = stu s b" by auto
  have tab: "all_courses u = all_courses s" "all_students u = all_students s" using u(4) by (simp_all add: tables_def)
  let ?v = "fold free_student ?cs (free_course a u)"
  have v: "all_courses ?v = all_courses s" "all_students ?v = all_students s" 
  proof -
    have "tables ?v = tables s" using u(4) by simp
    then show "all_courses ?v = all_courses s" "all_students ?v = all_students s" by (simp_all add: tables_def)
  qed
  have "\<forall>c \<in> set ?cs. \<exists>x. stu u c = Some x \<and> st_courses x = new_dyn" using copies u(8) out by simp
  then have free: "destroy [Course_at (Ref a)] u = Inr ?v" using destroy_course [OF _ st(2) dist, of u a "[]"] st(1) u(7) by simp
  obtain d where d: "take_out i (all_courses s) = Inr d" "array_holds d (remove_nth i (courses_at s))"
    using holds_take_out [OF objects_okD(2) [OF ok] i] by blast
  let ?t = "?v\<lparr>all_courses := d\<rparr>"
  have t: "cou ?t = (cou u)(a := None)" "\<And>c. stu ?t c = (if c \<in> set (students_of u a) then None else stu u c)" "all_students ?t = all_students u"
    "array_holds (all_courses ?t) (remove_nth i (courses_at u))"
  proof -
    have eq: "cou ?t = cou ?v" "stu ?t = stu ?v" by (rule heap_frame)+
    have "students_of u a = ?cs" by (simp add: students_of_def u(7))
    then show "cou ?t = (cou u)(a := None)" "\<And>c. stu ?t c = (if c \<in> set (students_of u a) then None else stu u c)" unfolding eq by auto
    show "all_students ?t = all_students u" "array_holds (all_courses ?t) (remove_nth i (courses_at u))" using v d(2) tab by simp_all
  qed
  have ui: "i < length (courses_at u)" "a = courses_at u ! i" using i a tab by simp_all
  note R = course_removed [OF u(2) ui t]
  have "delete_course_from a 0 s = delete_course_from a i s"
    using st(1) before i by (intro delete_course_skip [OF ok]) auto
  also have "\<dots> = delete_course_from a (i + 1) ?t"
    using i a st(1) u(1) free d(1) v holds_element [OF objects_okD(2) [OF ok] i] holds_num [OF objects_okD(2) [OF ok]] same_live(1) [OF st(1) st(1)]
    by (simp add: delete_course_from.simps [of a i s] del: destroy.simps)
  finally have loop: "delete_course_from a 0 s = delete_course_from a (i + 1) ?t" .
  have T: "array_holds (all_courses ?t) (courses_at ?t)" "length (courses_at ?t) = length (courses_at s) - 1"
    using objects_okD(2) [OF R(1)] R(4) i tab by simp_all
  have "rest ?v = rest s" using u(5) by simp
  then have "rest ?t = rest s" unfolding rest_def by simp
  moreover have "map (\<lambda>z. snd (person_of s z)) ?cs = map snd (su_members (subjects_of s ! i))" using i a by (simp add: subjects_of_def subject_of_def)
  moreover have "\<not> i + 1 < d_num d" if "\<not> i + 2 < length (courses_at s)" using that holds_num [OF d(2)] i by simp
  ultimately show "\<exists>t. delete_course_from a 0 s = Inr t \<and> objects_ok t \<and> rest t = rest s \<and>
       subjects_of t = remove_nth i (subjects_of s) \<and>
       pupils_of t = fold (withdraw (fst (key_of s a))) (map snd (su_members (subjects_of s ! i))) (pupils_of s)"
    if "\<not> i + 2 < length (courses_at s)"
    using that R u(3,6) loop by (intro exI [of _ ?t]) (simp add: delete_course_from.simps [of a "Suc i" ?t])
  show "delete_course_from a 0 s = Inl UseAfterFree" if n: "i + 2 < length (courses_at s)"
  proof -
    have n': "i + 1 < length (courses_at ?t)" using n T(2) by simp
    then obtain z where z: "cou ?t (courses_at ?t ! (i + 1)) = Some z" using course_okD objects_okD(4) [OF R(1) nth_mem [OF n']] by metis
    have "a < length (course_heap ?t)" using live_below(2) [OF st(1)] u(7) st(1) live_below(2) [of u a st] by simp
    moreover have "cou ?t a = None" using t(1) by simp
    ultimately have "get_course ?t a = Inl UseAfterFree" by (intro get_freed(2))
    then have "same_code ?t (courses_at ?t ! (i + 1)) a = Inl UseAfterFree" using get_live(2) [OF z] by (simp add: same_code_def)
    then show ?thesis
      using loop n' holds_element [OF T(1) n'] holds_num [OF T(1)] by (simp add: delete_course_from.simps [of a "Suc i" ?t])
  qed
qed

section \<open>The end of the program\<close>

lemma destroy_students:
  assumes "distinct as" "\<forall>a \<in> set as. student_ok s a \<and> distinct (courses_of s a)"
    "\<forall>a \<in> set as. \<forall>b \<in> set as. a \<noteq> b \<longrightarrow> set (courses_of s a) \<inter> set (courses_of s b) = {}"
  shows "\<exists>t. destroy (map Student_at (map Ref as)) s = Inr t \<and> tables t = tables s \<and> rest t = rest s \<and>
    (\<forall>b. b \<notin> set as \<longrightarrow> stu t b = stu s b) \<and> (\<forall>c. (\<forall>a \<in> set as. c \<notin> set (courses_of s a)) \<longrightarrow> cou t c = cou s c)"
  using assms
proof (induction as arbitrary: s)
  case (Cons a as)
  obtain st where st: "stu s a = Some st" "array_holds (st_courses st) (courses_of s a)" using student_okD Cons.prems(2) by (metis list.set_intros(1))
  let ?u = "fold free_course (courses_of s a) (free_student a s)"
  have "\<forall>c \<in> set (courses_of s a). \<exists>x. cou s c = Some x \<and> co_students x = new_dyn" using Cons.prems(2) student_ok_copy [of s a] by auto
  then have one: "destroy (map Student_at (map Ref (a # as))) s = destroy (map Student_at (map Ref as)) ?u"
    using Cons.prems(2) st destroy_student [OF st] by (simp del: destroy.simps)
  have cof: "courses_of ?u b = courses_of s b" if "b \<in> set as" for b using that Cons.prems(1) by (auto simp: courses_of_def)
  have "student_ok ?u b" if b: "b \<in> set as" for b
  proof -
    have "b \<noteq> a" using b Cons.prems(1) by auto
    then have "set (courses_of s b) \<inter> set (courses_of s a) = {}" using Cons.prems(3) b by simp
    then have "c \<notin> set (courses_of s a)" if "c \<in> set (courses_of s b)" for c using that by blast
    then show ?thesis using Cons.prems(2) b \<open>b \<noteq> a\<close> by (simp add: student_ok_def cof)
  qed
  then obtain t where t: "destroy (map Student_at (map Ref as)) ?u = Inr t" "tables t = tables ?u" "rest t = rest ?u"
    "\<forall>b. b \<notin> set as \<longrightarrow> stu t b = stu ?u b" "\<forall>c. (\<forall>a \<in> set as. c \<notin> set (courses_of ?u a)) \<longrightarrow> cou t c = cou ?u c"
    using Cons.IH [of ?u] Cons.prems cof by auto
  have "\<forall>b. b \<notin> set (a # as) \<longrightarrow> stu t b = stu s b" using t(4) by simp
  moreover have "\<forall>c. (\<forall>a \<in> set (a # as). c \<notin> set (courses_of s a)) \<longrightarrow> cou t c = cou s c" using t(5) cof by simp
  ultimately show ?case using one t(1-3) by simp
qed simp

lemma destroy_courses:
  assumes "distinct as" "\<forall>a \<in> set as. course_ok s a \<and> distinct (students_of s a)"
    "\<forall>a \<in> set as. \<forall>b \<in> set as. a \<noteq> b \<longrightarrow> set (students_of s a) \<inter> set (students_of s b) = {}"
  shows "\<exists>t. destroy (map Course_at (map Ref as)) s = Inr t \<and> tables t = tables s \<and> rest t = rest s \<and>
    (\<forall>b. b \<notin> set as \<longrightarrow> cou t b = cou s b) \<and> (\<forall>c. (\<forall>a \<in> set as. c \<notin> set (students_of s a)) \<longrightarrow> stu t c = stu s c)"
  using assms
proof (induction as arbitrary: s)
  case (Cons a as)
  obtain st where st: "cou s a = Some st" "array_holds (co_students st) (students_of s a)" using course_okD Cons.prems(2) by (metis list.set_intros(1))
  let ?u = "fold free_student (students_of s a) (free_course a s)"
  have "\<forall>c \<in> set (students_of s a). \<exists>x. stu s c = Some x \<and> st_courses x = new_dyn" using Cons.prems(2) course_ok_copy [of s a] by auto
  then have one: "destroy (map Course_at (map Ref (a # as))) s = destroy (map Course_at (map Ref as)) ?u"
    using Cons.prems(2) st destroy_course [OF st] by (simp del: destroy.simps)
  have cof: "students_of ?u b = students_of s b" if "b \<in> set as" for b using that Cons.prems(1) by (auto simp: students_of_def)
  have "course_ok ?u b" if b: "b \<in> set as" for b
  proof -
    have "b \<noteq> a" using b Cons.prems(1) by auto
    then have "set (students_of s b) \<inter> set (students_of s a) = {}" using Cons.prems(3) b by simp
    then have "c \<notin> set (students_of s a)" if "c \<in> set (students_of s b)" for c using that by blast
    then show ?thesis using Cons.prems(2) b \<open>b \<noteq> a\<close> by (simp add: course_ok_def cof)
  qed
  then obtain t where t: "destroy (map Course_at (map Ref as)) ?u = Inr t" "tables t = tables ?u" "rest t = rest ?u"
    "\<forall>b. b \<notin> set as \<longrightarrow> cou t b = cou ?u b" "\<forall>c. (\<forall>a \<in> set as. c \<notin> set (students_of ?u a)) \<longrightarrow> stu t c = stu ?u c"
    using Cons.IH [of ?u] Cons.prems cof by auto
  have "\<forall>b. b \<notin> set (a # as) \<longrightarrow> cou t b = cou s b" using t(4) by simp
  moreover have "\<forall>c. (\<forall>a \<in> set (a # as). c \<notin> set (students_of s a)) \<longrightarrow> stu t c = stu s c" using t(5) cof by simp
  ultimately show ?case using one t(1-3) by simp
qed simp

lemma destroy_system_effect:
  assumes ok: "objects_ok s"
  shows "\<exists>t. destroy_system s = Inr t \<and> rest t = rest s"
proof -
  have sep: "separate (students_at s) (courses_at s) (students_of s)" "separate (courses_at s) (students_at s) (courses_of s)"
    using objects_okD(5,6) [OF ok] by auto
  have "\<exists>u. destroy (map Course_at (map Ref (courses_at s))) s = Inr u \<and> tables u = tables s \<and> rest u = rest s \<and>
    (\<forall>b. b \<notin> set (courses_at s) \<longrightarrow> cou u b = cou s b) \<and> (\<forall>c. (\<forall>a \<in> set (courses_at s). c \<notin> set (students_of s a)) \<longrightarrow> stu u c = stu s c)"
    using sep objects_okD(4) [OF ok] by (intro destroy_courses) (auto simp: separate_def)
  then obtain u where u: "destroy (map Course_at (map Ref (courses_at s))) s = Inr u" "tables u = tables s" "rest u = rest s"
    "\<forall>b. b \<notin> set (courses_at s) \<longrightarrow> cou u b = cou s b" "\<forall>c. (\<forall>a \<in> set (courses_at s). c \<notin> set (students_of s a)) \<longrightarrow> stu u c = stu s c" by blast
  have T: "stu u a = stu s a" if "a \<in> set (students_at s)" for a
  proof -
    have "a \<notin> set (students_of s c)" if "c \<in> set (courses_at s)" for c
      using sep(1) that \<open>a \<in> set (students_at s)\<close> unfolding separate_def by auto
    then show ?thesis using u(5) by blast
  qed
  have cof: "courses_of u a = courses_of s a" if "a \<in> set (students_at s)" for a using T [OF that] by (simp add: courses_of_def)
  have "student_ok u a" if a: "a \<in> set (students_at s)" for a
  proof -
    have "cou u c = cou s c" if "c \<in> set (courses_of s a)" for c
      using sep(2) that a u(4) unfolding separate_def by auto
    then show ?thesis using objects_okD(3) [OF ok a] T [OF a] cof [OF a] by (simp add: student_ok_def)
  qed
  then have "\<exists>t. destroy (map Student_at (map Ref (students_at s))) u = Inr t \<and> tables t = tables u \<and> rest t = rest u \<and>
    (\<forall>b. b \<notin> set (students_at s) \<longrightarrow> stu t b = stu u b) \<and> (\<forall>c. (\<forall>a \<in> set (students_at s). c \<notin> set (courses_of u a)) \<longrightarrow> cou t c = cou u c)"
    using sep cof by (intro destroy_students) (auto simp: separate_def)
  then obtain t where "destroy (map Student_at (map Ref (students_at s))) u = Inr t" "rest t = rest u" by blast
  moreover have "all_students u = all_students s" "all_courses u = all_courses s" using u(2) by (simp_all add: tables_def)
  ultimately show ?thesis
    using u(1,3) holds_elements(1) [OF objects_okD(1) [OF ok]] holds_elements(1) [OF objects_okD(2) [OF ok]]
    by (simp add: destroy_system_def)
qed

end
