(* ===== verification/School_Refinement.thy ===== *)
theory School_Refinement
  imports School_Deletion
begin

text \<open>
  Every step of the program on its objects is a step of the register: the two run the same way
  from an object graph and from what it stands for.
\<close>

section \<open>When the two agree\<close>

definition agreed :: "(school, unit) outcome \<Rightarrow> (register, unit) outcome \<Rightarrow> bool" where
  "agreed x y \<longleftrightarrow> (case x of
       Undef e \<Rightarrow> \<exists>f. y = Undef f
     | Thrown t \<Rightarrow> y = Thrown (view t)
     | Done u t \<Rightarrow> \<exists>r. y = Done () r \<and> r_console r = s_console t \<and>
         (if s_menu t = Ended then r_menu r = Ended else school_ok t \<and> r = view t))"

lemma agreed_simps [simp]:
  "agreed (Undef e) (Undef f)" "agreed (Thrown t) (Thrown r) \<longleftrightarrow> r = view t"
  "school_ok t \<Longrightarrow> agreed (Done u t) (Done () (view t))"
  by (auto simp: agreed_def view_def menu_of_def)

lemma agreed_Done: "school_ok t \<Longrightarrow> r = view t \<Longrightarrow> agreed (Done u t) (Done () r)"
  by simp

lemma extract_int_ok: "choice_ok n \<Longrightarrow> choice_ok (fst (extract_int n c))"
proof -
  have "in_signed 32 0" by (simp add: in_signed_32)
  then show "choice_ok n \<Longrightarrow> ?thesis" by (simp add: extract_int_def Let_def int_limit_in split: option.splits)
qed

text \<open>The console and the choice have no part in the objects.\<close>

definition io :: "int option \<Rightarrow> console \<Rightarrow> school \<Rightarrow> school" where
  "io n k s = s\<lparr>s_choice := n, s_console := k\<rparr>"

lemma io_objects [simp]:
  "stu (io n k s) = stu s" "cou (io n k s) = cou s" "all_students (io n k s) = all_students s" "all_courses (io n k s) = all_courses s"
  "s_menu (io n k s) = s_menu s" "s_choice (io n k s) = n" "s_console (io n k s) = k"
  "get_student (io n k s) = get_student s" "get_course (io n k s) = get_course s"
  by (simp_all add: io_def get_student_def get_course_def fun_eq_iff)

lemma io_views [simp]:
  "courses_of (io n k s) = courses_of s" "students_of (io n k s) = students_of s" "person_of (io n k s) = person_of s" "key_of (io n k s) = key_of s"
  "pupils_of (io n k s) = pupils_of s" "subjects_of (io n k s) = subjects_of s" "objects_ok (io n k s) = objects_ok s"
  "menu_ok (io n k s) = menu_ok s" "menu_of (io n k s) = menu_of s"
  "school_ok (io n k s) \<longleftrightarrow> objects_ok s \<and> menu_ok s \<and> choice_ok n"
proof -
  show eqs: "courses_of (io n k s) = courses_of s" "students_of (io n k s) = students_of s" "person_of (io n k s) = person_of s" "key_of (io n k s) = key_of s"
    by (simp_all add: courses_of_def students_of_def person_of_def key_of_def fun_eq_iff)
  then have "pupil_of (io n k s) = pupil_of s" "subject_of (io n k s) = subject_of s" "student_ok (io n k s) = student_ok s" "course_ok (io n k s) = course_ok s"
    by (simp_all add: pupil_of_def subject_of_def student_ok_def course_ok_def fun_eq_iff)
  with eqs show v: "pupils_of (io n k s) = pupils_of s" "subjects_of (io n k s) = subjects_of s" "objects_ok (io n k s) = objects_ok s"
    by (simp_all add: pupils_of_def subjects_of_def objects_ok_def)
  show m: "menu_ok (io n k s) = menu_ok s" "menu_of (io n k s) = menu_of s"
    by (cases "s_menu s"; simp add: menu_ok_def menu_of_def v)+
  show "school_ok (io n k s) \<longleftrightarrow> objects_ok s \<and> menu_ok s \<and> choice_ok n" by (simp add: school_ok_def v m)
qed

lemma view_io: "view (io n k s) = (view s)\<lparr>r_choice := n, r_console := k\<rparr>"
  by (simp add: view_def)

lemma view_simps [simp]:
  "pupils (view s) = pupils_of s" "subjects (view s) = subjects_of s" "r_choice (view s) = s_choice s" "r_menu (view s) = menu_of s" "r_console (view s) = s_console s"
  by (simp_all add: view_def)

lemma io_ops:
  "show_text ls s = io (s_choice s) (shows_on ls (s_console s)) s"
  "s\<lparr>s_console := k\<rparr> = io (s_choice s) k s" "s\<lparr>s_choice := n, s_console := k\<rparr> = io n k s"
  by (simp_all add: show_text_def io_def)

lemma say_view: "print_out ls (view s) = Done () (view (show_text ls s))"
  by (simp add: print_out_def io_ops view_io)

lemma ask_line_view:
  "\<exists>line t. ask_line s = Done line t \<and> hear_line (view s) = Done line (view t) \<and> t = io (s_choice s) (snd (get_line (shows_on [''>> ''] (s_console s)))) s"
proof -
  obtain line c where g: "get_line (shows_on [''>> ''] (s_console s)) = (line, c)" by fastforce
  have "ask_line s = Done line (io (s_choice s) c s)" by (simp add: ask_line_def io_ops g)
  moreover have "hear_line (view s) = Done line (view (io (s_choice s) c s))" by (simp add: hear_line_def g view_io)
  ultimately show ?thesis by (simp add: g)
qed

lemma ask_choice_view:
  assumes "choice_ok (s_choice s)"
  shows "(\<exists>e. ask_choice s = Undef e \<and> hear_choice (view s) = Undef e) \<or>
   (\<exists>n k. in_signed 32 n \<and> ask_choice s = Done n (io (Some n) k s) \<and> hear_choice (view s) = Done n (view (io (Some n) k s)))"
proof -
  obtain v c where g: "extract_int (s_choice s) (shows_on [''>> ''] (s_console s)) = (v, c)" by fastforce
  show ?thesis
  proof (cases v)
    case None
    then show ?thesis by (simp add: ask_choice_def hear_choice_def g)
  next
    case (Some x)
    have "choice_ok v" using extract_int_ok [of "s_choice s" "shows_on [''>> ''] (s_console s)"] assms g by simp
    moreover have "ask_choice s = Done x (io (Some x) (ignore_char c) s)" using Some by (simp add: ask_choice_def g io_def)
    moreover have "hear_choice (view s) = Done x (view (io (Some x) (ignore_char c) s))" using Some by (simp add: hear_choice_def g view_io)
    ultimately show ?thesis using Some by auto
  qed
qed

lemma io_io: "io n k (show_text ls s) = io n k s"
  by (simp add: io_ops) (simp add: io_def)

lemma turn_agreed:
  assumes "school_ok s" "\<And>n k. in_signed 32 n \<Longrightarrow> agreed (f n (io (Some n) k s)) (g n (view (io (Some n) k s)))"
  shows "agreed (menu_turn ls f s) (spec_turn ls g (view s))"
proof -
  have "menu_turn ls f s = seq ask_choice f (show_text ls s)" "spec_turn ls g (view s) = seq hear_choice g (view (show_text ls s))"
    using say_view [of ls s] by (simp_all add: menu_turn_def spec_turn_def seq_def)
  moreover have "choice_ok (s_choice (show_text ls s))" using assms(1) by (simp add: show_text_def school_ok_def)
  from ask_choice_view [OF this] have "agreed (seq ask_choice f (show_text ls s)) (seq hear_choice g (view (show_text ls s)))"
    using assms(2) by (auto simp: seq_def io_io)
  ultimately show ?thesis by simp
qed

section \<open>Changing the menu\<close>

lemma menu_frame [simp]:
  "objects_ok (s\<lparr>s_menu := m\<rparr>) = objects_ok s" "pupils_of (s\<lparr>s_menu := m\<rparr>) = pupils_of s" "subjects_of (s\<lparr>s_menu := m\<rparr>) = subjects_of s"
proof -
  have eqs: "courses_of (s\<lparr>s_menu := m\<rparr>) = courses_of s" "students_of (s\<lparr>s_menu := m\<rparr>) = students_of s" "person_of (s\<lparr>s_menu := m\<rparr>) = person_of s" "key_of (s\<lparr>s_menu := m\<rparr>) = key_of s"
    by (simp_all add: courses_of_def students_of_def person_of_def key_of_def fun_eq_iff)
  then have "pupil_of (s\<lparr>s_menu := m\<rparr>) = pupil_of s" "subject_of (s\<lparr>s_menu := m\<rparr>) = subject_of s" "student_ok (s\<lparr>s_menu := m\<rparr>) = student_ok s" "course_ok (s\<lparr>s_menu := m\<rparr>) = course_ok s"
    by (simp_all add: pupil_of_def subject_of_def student_ok_def course_ok_def fun_eq_iff)
  with eqs show "pupils_of (s\<lparr>s_menu := m\<rparr>) = pupils_of s" "subjects_of (s\<lparr>s_menu := m\<rparr>) = subjects_of s" "objects_ok (s\<lparr>s_menu := m\<rparr>) = objects_ok s"
    by (simp_all add: pupils_of_def subjects_of_def objects_ok_def)
qed

definition plain_menu :: "menu \<Rightarrow> bool" where
  "plain_menu m \<longleftrightarrow> m \<in> {MainMenu, StudentMenu, CourseMenu, Ended}"

lemma goes_plain:
  assumes "school_ok s" "plain_menu m"
  shows "agreed (goes m s) (moves m (view s))"
  using assms unfolding goes_def moves_def code_runs
  by (intro agreed_Done) (auto simp: plain_menu_def school_ok_def menu_ok_def view_def menu_of_def)

text \<open>What an operation makes of the register, when it changes neither console nor menu.\<close>

lemma does_agreed:
  assumes "f s = Inr t" "objects_ok t" "rest t = rest s" "plain_menu (s_menu s)" "school_ok s" "r = (view s)\<lparr>pupils := pupils_of t, subjects := subjects_of t\<rparr>"
  shows "agreed (does f s) (Done () r)"
proof -
  have "does f s = Done () t" using assms(1) by (simp add: does_def)
  moreover have "school_ok t" "r = view t"
    using assms by (auto simp: school_ok_def view_def rest_def menu_ok_def menu_of_def plain_menu_def)
  ultimately show ?thesis by simp
qed

section \<open>Adding and selecting\<close>

lemma position_nth: "distinct as \<Longrightarrow> i < length as \<Longrightarrow> position (as ! i) as = i"
proof -
  assume as: "distinct as" "i < length as"
  then have "first_index ((=) (as ! i)) as = Some i" by (auto simp: first_index_Some nth_eq_iff_index_eq)
  then show ?thesis by (simp add: position_def)
qed

lemma add_student_agreed:
  assumes "school_ok s" "plain_menu (s_menu s)"
  shows "agreed (add_student s) (spec_add_student (view s))"
proof -
  obtain line t where t: "ask_line s = Done line t" "hear_line (view s) = Done line (view t)" "t = io (s_choice s) (snd (get_line (shows_on [''>> ''] (s_console s)))) s"
    using ask_line_view by blast
  have ok: "school_ok t" "objects_ok t" "plain_menu (s_menu t)" using assms by (simp_all add: t(3) school_ok_def)
  show ?thesis
  proof (cases "parse_person line")
    case None
    then show ?thesis using t(1,2) by (simp add: add_student_def spec_add_student_def seq_def)
  next
    case (Some x)
    obtain name ID where x: "x = (name, ID)" by fastforce
    obtain u where u: "(let (a, s1) = new_student name ID t in rbind (push a (all_students s1)) (\<lambda>d. Inr (s1\<lparr>all_students := d\<rparr>))) = Inr u"
      "objects_ok u" "rest u = rest t" "subjects_of u = subjects_of t" "pupils_of u = pupils_of t @ [\<lparr>p_name = name, p_ID = ID, p_taken = []\<rparr>]"
      using student_added [OF ok(2)] by metis
    let ?op = "\<lambda>s. let (a, s1) = new_student name ID s in rbind (push a (all_students s1)) (\<lambda>d. Inr (s1\<lparr>all_students := d\<rparr>))"
    have "agreed (does ?op t) (Done () ((view t)\<lparr>pupils := pupils_of u\<rparr>))"
      using u(1-4) ok(1,3) by (intro does_agreed [where t = u]) (auto simp: view_def)
    then show ?thesis
      using Some x t(1,2) u(4,5) by (simp add: add_student_def spec_add_student_def seq_def)
  qed
qed

lemma first_student:
  assumes "objects_ok s"
  shows "find_index (\<lambda>a. rbind (get_student s a) (\<lambda>st. Inr (st_ID st = ID))) (all_students s) 0 = Inr (first_index (\<lambda>p. p_ID p = ID) (pupils_of s))"
proof -
  let ?q = "\<lambda>a. snd (person_of s a) = ID"
  have "\<forall>a \<in> set (students_at s). rbind (get_student s a) (\<lambda>st. Inr (st_ID st = ID)) = Inr (?q a)"
  proof
    fix a assume "a \<in> set (students_at s)"
    then obtain st where "stu s a = Some st" using student_okD objects_okD(3) [OF assms] by metis
    then show "rbind (get_student s a) (\<lambda>st. Inr (st_ID st = ID)) = Inr (?q a)" by (simp add: person_of_def)
  qed
  from holds_search [OF objects_okD(1) [OF assms] this] show ?thesis
    by (simp add: pupils_of_def first_index_map comp_def pupil_of_def)
qed

lemma select_student_agreed:
  assumes "school_ok s"
  shows "agreed (seq select_student (\<lambda>a. goes (ChosenStudent a)) s) (spec_select_student (view s))"
proof -
  obtain line t where t: "ask_line s = Done line t" "hear_line (view s) = Done line (view t)" "t = io (s_choice s) (snd (get_line (shows_on [''>> ''] (s_console s)))) s"
    using ask_line_view by blast
  have ok: "objects_ok t" and sok: "school_ok t" using assms by (simp_all add: t(3) school_ok_def)
  show ?thesis
  proof (cases "parse_person line")
    case None
    then show ?thesis using t(1,2) by (simp add: select_student_def spec_select_student_def seq_def)
  next
    case (Some x)
    obtain name ID where x: "x = (name, ID)" by fastforce
    show ?thesis
    proof (cases "first_index (\<lambda>p. p_ID p = ID) (pupils_of t)")
      case None
      then show ?thesis using t(1,2) Some x first_student [OF ok, of ID]
        by (simp add: select_student_def spec_select_student_def seq_def reads_from_def)
    next
      case (Some i)
      then have i: "i < length (students_at t)" "p_ID (pupils_of t ! i) = ID" "\<forall>j < i. p_ID (pupils_of t ! j) \<noteq> ID" by (auto simp: first_index_Some)
      have "separate (students_at t) (courses_at t) (students_of t)" by (rule objects_okD(5) [OF ok])
      then have pos: "position (students_at t ! i) (students_at t) = i" using i(1) by (intro position_nth) (auto simp: separate_def)
      have "seq select_student (\<lambda>a. goes (ChosenStudent a)) s = goes (ChosenStudent (students_at t ! i)) t"
        using t(1) \<open>parse_person line = _\<close> x Some first_student [OF ok, of ID] holds_element [OF objects_okD(1) [OF ok] i(1)]
        by (simp add: select_student_def seq_def reads_from_def)
      moreover have "spec_select_student (view s) = moves (ChosenStudent i) (view t)"
        using t(2) \<open>parse_person line = _\<close> x Some by (simp add: spec_select_student_def seq_def)
      moreover have "agreed (goes (ChosenStudent (students_at t ! i)) t) (moves (ChosenStudent i) (view t))"
        using ok sok i pos unfolding goes_def moves_def code_runs
        by (intro agreed_Done) (auto simp: school_ok_def menu_ok_def view_def menu_of_def)
      ultimately show ?thesis by simp
    qed
  qed
qed

lemma add_course_agreed:
  assumes "school_ok s" "plain_menu (s_menu s)"
  shows "agreed (add_course s) (spec_add_course (view s))"
proof -
  obtain line t where t: "ask_line s = Done line t" "hear_line (view s) = Done line (view t)" "t = io (s_choice s) (snd (get_line (shows_on [''>> ''] (s_console s)))) s"
    using ask_line_view by blast
  have ok: "objects_ok t" "plain_menu (s_menu t)" "school_ok t" using assms by (simp_all add: t(3) school_ok_def)
  obtain code name where x: "parse_course line = (code, name)" by fastforce
  obtain u where u: "(let (a, s1) = new_course name code t in rbind (push a (all_courses s1)) (\<lambda>d. Inr (s1\<lparr>all_courses := d\<rparr>))) = Inr u"
    "objects_ok u" "rest u = rest t" "pupils_of u = pupils_of t" "subjects_of u = subjects_of t @ [\<lparr>su_name = name, su_code = code, su_members = []\<rparr>]"
    using course_added [OF ok(1)] by metis
  let ?op = "\<lambda>s. let (a, s1) = new_course name code s in rbind (push a (all_courses s1)) (\<lambda>d. Inr (s1\<lparr>all_courses := d\<rparr>))"
  have "agreed (does ?op t) (Done () ((view t)\<lparr>subjects := subjects_of u\<rparr>))"
    using u(1-4) ok(2,3) by (intro does_agreed [where t = u]) (auto simp: view_def)
  then show ?thesis
    using x t(1,2) u(4,5) by (simp add: add_course_def spec_add_course_def seq_def)
qed

lemma first_course:
  assumes "objects_ok s"
  shows "find_index (\<lambda>a. rbind (get_course s a) (\<lambda>c. Inr (co_code c = code))) (all_courses s) 0 = Inr (first_index (\<lambda>c. su_code c = code) (subjects_of s))"
proof -
  let ?q = "\<lambda>a. fst (key_of s a) = code"
  have "\<forall>a \<in> set (courses_at s). rbind (get_course s a) (\<lambda>c. Inr (co_code c = code)) = Inr (?q a)"
  proof
    fix a assume "a \<in> set (courses_at s)"
    then obtain co where "cou s a = Some co" using course_okD objects_okD(4) [OF assms] by metis
    then show "rbind (get_course s a) (\<lambda>c. Inr (co_code c = code)) = Inr (?q a)" by (simp add: key_of_def)
  qed
  from holds_search [OF objects_okD(2) [OF assms] this] show ?thesis
    by (simp add: subjects_of_def first_index_map comp_def subject_of_def)
qed

lemma select_course_agreed:
  assumes "school_ok s"
  shows "agreed (seq select_course (\<lambda>a. goes (ChosenCourse a)) s) (spec_select_course (view s))"
proof -
  obtain line t where t: "ask_line s = Done line t" "hear_line (view s) = Done line (view t)" "t = io (s_choice s) (snd (get_line (shows_on [''>> ''] (s_console s)))) s"
    using ask_line_view by blast
  have ok: "objects_ok t" and sok: "school_ok t" using assms by (simp_all add: t(3) school_ok_def)
  obtain code name where x: "parse_course line = (code, name)" by fastforce
  show ?thesis
  proof (cases "first_index (\<lambda>c. su_code c = code) (subjects_of t)")
    case None
    then show ?thesis using t(1,2) x first_course [OF ok, of code]
      by (simp add: select_course_def spec_select_course_def seq_def reads_from_def)
  next
    case (Some i)
    then have i: "i < length (courses_at t)" "su_code (subjects_of t ! i) = code" "\<forall>j < i. su_code (subjects_of t ! j) \<noteq> code" by (auto simp: first_index_Some)
    have "separate (courses_at t) (students_at t) (courses_of t)" by (rule objects_okD(6) [OF ok])
    then have pos: "position (courses_at t ! i) (courses_at t) = i" using i(1) by (intro position_nth) (auto simp: separate_def)
    have "seq select_course (\<lambda>a. goes (ChosenCourse a)) s = goes (ChosenCourse (courses_at t ! i)) t"
      using t(1) x Some first_course [OF ok, of code] holds_element [OF objects_okD(2) [OF ok] i(1)]
      by (simp add: select_course_def seq_def reads_from_def)
    moreover have "spec_select_course (view s) = moves (ChosenCourse i) (view t)"
      using t(2) x Some by (simp add: spec_select_course_def seq_def)
    moreover have "agreed (goes (ChosenCourse (courses_at t ! i)) t) (moves (ChosenCourse i) (view t))"
      using ok sok i pos unfolding goes_def moves_def code_runs
        by (intro agreed_Done) (auto simp: school_ok_def menu_ok_def view_def menu_of_def)
    ultimately show ?thesis by simp
  qed
qed

section \<open>Deleting\<close>

lemma chosen_student:
  assumes "school_ok s" "s_menu s = ChosenStudent a"
  obtains i where "menu_of s = ChosenStudent i" "i < length (students_at s)" "students_at s ! i = a"
    "first_index (\<lambda>p. p_ID p = snd (person_of s a)) (pupils_of s) = Some i" "snd (person_of s a) = p_ID (pupils_of s ! i)"
proof -
  have ok: "objects_ok s" using assms by (simp add: school_ok_def)
  obtain i where i: "i < length (students_at s)" "students_at s ! i = a" "\<forall>j < i. p_ID (pupils_of s ! j) \<noteq> p_ID (pupils_of s ! i)"
    using assms by (auto simp: school_ok_def menu_ok_def)
  have "separate (students_at s) (courses_at s) (students_of s)" by (rule objects_okD(5) [OF ok])
  then have "position a (students_at s) = i" using i(1,2) position_nth by (auto simp: separate_def)
  moreover have "snd (person_of s a) = p_ID (pupils_of s ! i)" using i(1,2) by (simp add: pupils_of_def pupil_of_def)
  moreover have "first_index (\<lambda>p. p_ID p = p_ID (pupils_of s ! i)) (pupils_of s) = Some i" using i(1,3) by (simp add: first_index_Some)
  ultimately show ?thesis using that i assms(2) by (simp add: menu_of_def)
qed

lemma delete_student_agreed:
  assumes "school_ok s" "s_menu s = ChosenStudent a" "menu_of s = ChosenStudent i"
  shows "agreed (seq (delete_student a) (\<lambda>u. goes StudentMenu) s) (seq (spec_delete_student i) (\<lambda>u. moves StudentMenu) (view s))"
proof -
  have ok: "objects_ok s" using assms by (simp add: school_ok_def)
  obtain k where "menu_of s = ChosenStudent k" and i: "k < length (students_at s)" "students_at s ! k = a"
    "first_index (\<lambda>p. p_ID p = snd (person_of s a)) (pupils_of s) = Some k" "snd (person_of s a) = p_ID (pupils_of s ! k)"
    by (rule chosen_student [OF assms(1,2)])
  with assms(3) have k: "k = i" by simp
  note D = delete_student_effect [OF ok i(3,2)]
  show ?thesis
  proof (cases "i + 2 < length (students_at s)")
    case True
    then show ?thesis using D(1) k by (simp add: delete_student_def does_def spec_delete_student_def seq_def)
  next
    case False
    then obtain t where t: "delete_student_from a 0 s = Inr t" "objects_ok t" "rest t = rest s" "pupils_of t = remove_nth i (pupils_of s)"
      "subjects_of t = fold (unlist (snd (person_of s a))) (map fst (p_taken (pupils_of s ! i))) (subjects_of s)" using D(2) k by auto
    have "seq (delete_student a) (\<lambda>u. goes StudentMenu) s = goes StudentMenu t" using t(1) by (simp add: delete_student_def does_def seq_def)
    moreover have "seq (spec_delete_student i) (\<lambda>u. moves StudentMenu) (view s) = Done () ((view s)\<lparr>pupils := pupils_of t, subjects := subjects_of t, r_menu := StudentMenu\<rparr>)"
      using False t(4,5) i(4) k by (simp add: spec_delete_student_def seq_def moves_def delete_pupil_def Let_def)
    moreover have "agreed (goes StudentMenu t) (Done () ((view s)\<lparr>pupils := pupils_of t, subjects := subjects_of t, r_menu := StudentMenu\<rparr>))"
      using t(2,3) assms(1) unfolding goes_def code_runs
      by (intro agreed_Done) (auto simp: school_ok_def menu_ok_def view_def menu_of_def rest_def)
    ultimately show ?thesis by simp
  qed
qed

lemma chosen_course:
  assumes "school_ok s" "s_menu s = ChosenCourse a"
  obtains i where "menu_of s = ChosenCourse i" "i < length (courses_at s)" "courses_at s ! i = a"
    "first_index (\<lambda>p. su_code p = fst (key_of s a)) (subjects_of s) = Some i" "fst (key_of s a) = su_code (subjects_of s ! i)"
proof -
  have ok: "objects_ok s" using assms by (simp add: school_ok_def)
  obtain i where i: "i < length (courses_at s)" "courses_at s ! i = a" "\<forall>j < i. su_code (subjects_of s ! j) \<noteq> su_code (subjects_of s ! i)"
    using assms by (auto simp: school_ok_def menu_ok_def)
  have "separate (courses_at s) (students_at s) (courses_of s)" by (rule objects_okD(6) [OF ok])
  then have "position a (courses_at s) = i" using i(1,2) position_nth by (auto simp: separate_def)
  moreover have "fst (key_of s a) = su_code (subjects_of s ! i)" using i(1,2) by (simp add: subjects_of_def subject_of_def)
  moreover have "first_index (\<lambda>p. su_code p = su_code (subjects_of s ! i)) (subjects_of s) = Some i" using i(1,3) by (simp add: first_index_Some)
  ultimately show ?thesis using that i assms(2) by (simp add: menu_of_def)
qed

lemma delete_course_agreed:
  assumes "school_ok s" "s_menu s = ChosenCourse a" "menu_of s = ChosenCourse i"
  shows "agreed (seq (delete_course a) (\<lambda>u. goes CourseMenu) s) (seq (spec_delete_course i) (\<lambda>u. moves CourseMenu) (view s))"
proof -
  have ok: "objects_ok s" using assms by (simp add: school_ok_def)
  obtain k where "menu_of s = ChosenCourse k" and i: "k < length (courses_at s)" "courses_at s ! k = a"
    "first_index (\<lambda>p. su_code p = fst (key_of s a)) (subjects_of s) = Some k" "fst (key_of s a) = su_code (subjects_of s ! k)"
    by (rule chosen_course [OF assms(1,2)])
  with assms(3) have k: "k = i" by simp
  note D = delete_course_effect [OF ok i(3,2)]
  show ?thesis
  proof (cases "i + 2 < length (courses_at s)")
    case True
    then show ?thesis using D(1) k by (simp add: delete_course_def does_def spec_delete_course_def seq_def)
  next
    case False
    then obtain t where t: "delete_course_from a 0 s = Inr t" "objects_ok t" "rest t = rest s" "subjects_of t = remove_nth i (subjects_of s)"
      "pupils_of t = fold (withdraw (fst (key_of s a))) (map snd (su_members (subjects_of s ! i))) (pupils_of s)" using D(2) k by auto
    have "seq (delete_course a) (\<lambda>u. goes CourseMenu) s = goes CourseMenu t" using t(1) by (simp add: delete_course_def does_def seq_def)
    moreover have "seq (spec_delete_course i) (\<lambda>u. moves CourseMenu) (view s) = Done () ((view s)\<lparr>subjects := subjects_of t, pupils := pupils_of t, r_menu := CourseMenu\<rparr>)"
      using False t(4,5) i(4) k by (simp add: spec_delete_course_def seq_def moves_def delete_subject_def Let_def)
    moreover have "agreed (goes CourseMenu t) (Done () ((view s)\<lparr>subjects := subjects_of t, pupils := pupils_of t, r_menu := CourseMenu\<rparr>))"
      using t(2,3) assms(1) unfolding goes_def code_runs
      by (intro agreed_Done) (auto simp: school_ok_def menu_ok_def view_def menu_of_def rest_def)
    ultimately show ?thesis by simp
  qed
qed

section \<open>Listing\<close>

lemma student_line_live: "stu s a \<noteq> None \<Longrightarrow> student_line s a = Inr (person_line (person_of s a))"
  by (auto simp: student_line_def person_line_def person_of_def)

lemma course_line_live: "cou s c \<noteq> None \<Longrightarrow> course_line s c = Inr (key_line (key_of s c))"
  by (auto simp: course_line_def key_line_def key_of_def)

lemma list_students_live:
  "array_holds d as \<Longrightarrow> \<forall>a \<in> set as. stu s a \<noteq> None \<Longrightarrow> list_loop (\<lambda>i. student_line s) d 0 = Inr (map (\<lambda>a. person_line (person_of s a)) as)"
  by (subst holds_list [where g = "\<lambda>i a. person_line (person_of s a)"]) (auto simp: student_line_live intro: nth_equalityI)

lemma list_courses_live:
  "array_holds d as \<Longrightarrow> \<forall>a \<in> set as. cou s a \<noteq> None \<Longrightarrow> list_loop (\<lambda>i. course_line s) d 0 = Inr (map (\<lambda>a. key_line (key_of s a)) as)"
  by (subst holds_list [where g = "\<lambda>i a. key_line (key_of s a)"]) (auto simp: course_line_live intro: nth_equalityI)

lemma list_numbered_live:
  "array_holds d as \<Longrightarrow> \<forall>a \<in> set as. cou s a \<noteq> None \<Longrightarrow> list_loop (numbered_line s) d 0 = Inr (numbered (map (key_of s) as))"
  by (subst holds_list [where g = "\<lambda>i a. fmt_d (int i + 1) @ '' '' @ key_line (key_of s a)"])
    (auto simp: course_line_live numbered_line_def numbered_def)

lemma live_tables:
  assumes "objects_ok s"
  shows "\<forall>a \<in> set (students_at s). stu s a \<noteq> None" "\<forall>c \<in> set (courses_at s). cou s c \<noteq> None"
    "a \<in> set (students_at s) \<Longrightarrow> \<forall>c \<in> set (courses_of s a). cou s c \<noteq> None"
    "c \<in> set (courses_at s) \<Longrightarrow> \<forall>b \<in> set (students_of s c). stu s b \<noteq> None"
proof -
  show "\<forall>a \<in> set (students_at s). stu s a \<noteq> None" using objects_okD(3) [OF assms] by (simp add: student_ok_def)
  show "\<forall>c \<in> set (courses_at s). cou s c \<noteq> None" using objects_okD(4) [OF assms] by (simp add: course_ok_def)
  show "\<forall>c \<in> set (courses_of s a). cou s c \<noteq> None" if "a \<in> set (students_at s)"
    using student_ok_copy [OF objects_okD(3) [OF assms that]] by blast
  show "\<forall>b \<in> set (students_of s c). stu s b \<noteq> None" if "c \<in> set (courses_at s)"
    using course_ok_copy [OF objects_okD(4) [OF assms that]] by blast
qed

lemma prints_agreed:
  assumes "school_ok s" "f s = Inr ls"
  shows "agreed (prints f s) (print_out ls (view s))"
proof -
  have "prints f s = Done () (show_text ls s)" using assms(2) by (simp add: prints_def does_def)
  then show ?thesis using assms(1) by (simp add: say_view) (simp add: io_ops school_ok_def)
qed

lemma list_all_agreed:
  assumes "school_ok s"
  shows "agreed (list_all_students s) (print_out (map (person_line \<circ> person) (pupils_of s)) (view s))"
    "agreed (list_all_courses s) (print_out (map (key_line \<circ> subject_key) (subjects_of s)) (view s))"
proof -
  have ok: "objects_ok s" using assms by (simp add: school_ok_def)
  have "map (person_line \<circ> person) (pupils_of s) = map (\<lambda>a. person_line (person_of s a)) (students_at s)"
    by (simp add: pupils_of_def person_def pupil_of_def)
  then show "agreed (list_all_students s) (print_out (map (person_line \<circ> person) (pupils_of s)) (view s))"
    using list_students_live [OF objects_okD(1) [OF ok] live_tables(1) [OF ok]] assms unfolding list_all_students_def by (intro prints_agreed) auto
  have "map (key_line \<circ> subject_key) (subjects_of s) = map (\<lambda>a. key_line (key_of s a)) (courses_at s)"
    by (simp add: subjects_of_def subject_key_def subject_of_def)
  then show "agreed (list_all_courses s) (print_out (map (key_line \<circ> subject_key) (subjects_of s)) (view s))"
    using list_courses_live [OF objects_okD(2) [OF ok] live_tables(2) [OF ok]] assms unfolding list_all_courses_def by (intro prints_agreed) auto
qed

lemma list_students_agreed:
  assumes "school_ok s" "s_menu s = ChosenCourse c" "menu_of s = ChosenCourse i"
  shows "agreed (list_students c s) (print_out (map person_line (su_members (subjects_of s ! i))) (view s))"
proof -
  have ok: "objects_ok s" using assms by (simp add: school_ok_def)
  obtain k where k: "menu_of s = ChosenCourse k" "k < length (courses_at s)" "courses_at s ! k = c" by (rule chosen_course [OF assms(1,2)])
  then have c: "c \<in> set (courses_at s)" by auto
  obtain co where co: "cou s c = Some co" "array_holds (co_students co) (students_of s c)" using course_okD objects_okD(4) [OF ok c] by metis
  have "map person_line (su_members (subjects_of s ! i)) = map (\<lambda>a. person_line (person_of s a)) (students_of s c)"
    using k assms(3) by (simp add: subjects_of_def subject_of_def)
  then show ?thesis
    using list_students_live [OF co(2) live_tables(4) [OF ok c]] co(1) assms(1) unfolding list_students_def by (intro prints_agreed) auto
qed

lemma list_courses_taken_done:
  assumes "school_ok s" "a \<in> set (students_at s)"
  shows "list_courses_taken a s = Done () (show_text (numbered (map (key_of s) (courses_of s a))) s)"
proof -
  have ok: "objects_ok s" using assms by (simp add: school_ok_def)
  obtain st where st: "stu s a = Some st" "array_holds (st_courses st) (courses_of s a)" using student_okD objects_okD(3) [OF ok assms(2)] by metis
  from list_numbered_live [OF st(2) live_tables(3) [OF ok assms(2)]] st(1) show ?thesis
    by (simp add: list_courses_taken_def prints_def does_def)
qed

section \<open>Taking and dropping a course\<close>

lemma available_spec:
  assumes ok: "objects_ok s" and d: "array_holds d cs" "\<forall>c \<in> set cs. cou s c \<noteq> None" and k: "k \<le> length av"
  defines "P \<equiv> \<lambda>j. fst (key_of s (courses_at s ! j)) \<notin> (\<lambda>c. fst (key_of s c)) ` set cs"
  shows "available_courses s d i av k = (let A = map (\<lambda>j. courses_at s ! j) (filter P [i..<length (courses_at s)]) in
    if k + length A \<le> length av then Inr (take k av @ map Ref A @ drop (k + length A) av, k + length A) else Inl OutOfBounds)"
  using k
proof (induction "length (courses_at s) - i" arbitrary: i av k)
  case 0
  then have "\<not> i < d_num (all_courses s)" using holds_num [OF objects_okD(2) [OF ok]] by simp
  with 0 show ?case by (simp add: available_courses.simps [of s d i])
next
  case (Suc m)
  let ?c = "courses_at s ! i"
  have i: "i < length (courses_at s)" using Suc.hyps(2) by simp
  have el: "element (all_courses s) (int i) = Inr ?c" "i < d_num (all_courses s)"
    using holds_element [OF objects_okD(2) [OF ok] i] holds_num [OF objects_okD(2) [OF ok]] i by auto
  have up: "[i..<length (courses_at s)] = i # [i + 1..<length (courses_at s)]" using i by (simp add: upt_conv_Cons)
  let ?q = "\<lambda>c. fst (key_of s ?c) = fst (key_of s c)"
  have "\<forall>c \<in> set cs. same_code s ?c c = Inr (?q c)"
  proof
    fix c assume "c \<in> set cs"
    then obtain y where "cou s c = Some y" using d(2) by blast
    moreover obtain x where "cou s ?c = Some x" using live_tables(2) [OF ok] i nth_mem by blast
    ultimately show "same_code s ?c c = Inr (?q c)" by (simp add: same_live)
  qed
  then have find_index: "find_index (same_code s ?c) d 0 = Inr (first_index ?q cs)" by (rule holds_search [OF d(1)])
  have none: "first_index ?q cs = None \<longleftrightarrow> P i" by (auto simp: first_index_None P_def)
  let ?A = "map (\<lambda>j. courses_at s ! j) (filter P [i + 1..<length (courses_at s)])"
  show ?case
  proof (cases "P i")
    case False
    with none have "first_index ?q cs \<noteq> None" by simp
    then have "available_courses s d i av k = available_courses s d (i + 1) av k"
      using el find_index by (auto simp: available_courses.simps [of s d i])
    then show ?thesis using Suc.hyps(1) [of "i + 1" k av] Suc.hyps(2) Suc.prems up False by simp
  next
    case True
    with none have free: "first_index ?q cs = None" by simp
    show ?thesis
    proof (cases "k < length av")
      case False
      then have "available_courses s d i av k = Inl OutOfBounds"
        using el find_index free by (simp add: available_courses.simps [of s d i] wr_def)
      with False Suc.prems up True show ?thesis by simp
    next
      case inside: True
      let ?av = "av[k := Ref ?c]"
      have "available_courses s d i av k = available_courses s d (i + 1) ?av (k + 1)"
        using el find_index free inside by (simp add: available_courses.simps [of s d i])
      also have "\<dots> = (if k + 1 + length ?A \<le> length ?av then Inr (take (k + 1) ?av @ map Ref ?A @ drop (k + 1 + length ?A) ?av, k + 1 + length ?A)
          else Inl OutOfBounds)"
        using Suc.hyps(1) [of "i + 1" "k + 1" ?av] Suc.hyps(2) inside by (simp add: Let_def)
      also have "take (k + 1) ?av = take k av @ [Ref ?c]" using inside by (simp add: take_Suc_conv_app_nth)
      finally show ?thesis using up True by (simp add: Let_def)
    qed
  qed
qed

lemma list_courses_spec:
  assumes "school_ok s" "a \<in> set (students_at s)" "i < length (students_at s)" "students_at s ! i = a"
  defines "p \<equiv> pupils_of s ! i" and "A \<equiv> map (\<lambda>k. courses_at s ! k) (available (pupils_of s ! i) (subjects_of s))"
    and "n \<equiv> length (courses_at s) - length (p_taken (pupils_of s ! i))"
  shows "length (courses_at s) < length (p_taken p) \<Longrightarrow> list_courses a s = Thrown s"
    "\<not> length (courses_at s) < length (p_taken p) \<Longrightarrow> n < length A \<Longrightarrow> list_courses a s = Undef OutOfBounds"
    "\<not> length (courses_at s) < length (p_taken p) \<Longrightarrow> \<not> n < length A \<Longrightarrow>
       list_courses a s = Done (map Ref A @ replicate (n - length A) Unset) (show_text (numbered (map (key_of s) A)) s)"
proof -
  have ok: "objects_ok s" using assms by (simp add: school_ok_def)
  obtain st where st: "stu s a = Some st" "array_holds (st_courses st) (courses_of s a)" using student_okD objects_okD(3) [OF ok assms(2)] by metis
  have taken: "p_taken p = map (key_of s) (courses_of s a)" using assms(3,4) by (simp add: p_def pupils_of_def pupil_of_def)
  then have num: "d_num (st_courses st) = length (p_taken p)" "d_num (all_courses s) = length (courses_at s)"
    using holds_num [OF st(2)] holds_num [OF objects_okD(2) [OF ok]] by auto
  show "list_courses a s = Thrown s" if "length (courses_at s) < length (p_taken p)"
    using that num st(1) by (simp add: list_courses_def reads_from_def seq_def)
  have av: "available p (subjects_of s) = filter (\<lambda>j. fst (key_of s (courses_at s ! j)) \<notin> (\<lambda>c. fst (key_of s c)) ` set (courses_of s a)) [0..<length (courses_at s)]"
    unfolding available_def by (auto intro!: filter_cong simp: taken subjects_of_def subject_of_def image_image)
  have A: "available_courses s (st_courses st) 0 (replicate n Unset) 0 =
      (if length A \<le> n then Inr (map Ref A @ replicate (n - length A) Unset, length A) else Inl OutOfBounds)"
    using available_spec [OF ok st(2) live_tables(3) [OF ok assms(2)], of 0 "replicate n Unset" 0] av
    by (simp add: A_def p_def Let_def)
  have n: "n = length (courses_at s) - d_num (st_courses st)" using num by (simp add: n_def p_def)
  show "list_courses a s = Undef OutOfBounds" if "\<not> length (courses_at s) < length (p_taken p)" "n < length A"
    using that num st(1) A n by (simp add: list_courses_def reads_from_def seq_def)
  show "list_courses a s = Done (map Ref A @ replicate (n - length A) Unset) (show_text (numbered (map (key_of s) A)) s)"
    if h: "\<not> length (courses_at s) < length (p_taken p)" "\<not> n < length A"
  proof -
    let ?d = "\<lparr>d_cells = Some (map Ref A @ replicate (n - length A) Unset), d_num = length A, d_size = n\<rparr>"
    have sub: "\<forall>c \<in> set A. cou s c \<noteq> None" using live_tables(2) [OF ok] by (auto simp: A_def available_def)
    have "list_loop (numbered_line s) ?d 0 = Inr (numbered (map (key_of s) A))"
    proof (cases "A = []")
      case True
      then show ?thesis by (simp add: list_loop.simps [of _ _ 0] numbered_def)
    next
      case False
      then have "0 < length A" by simp
      then have "0 < n" using h(2) by linarith
      then have "array_holds ?d A" using h(2) by (auto simp: array_holds_def)
      then show ?thesis by (rule list_numbered_live [OF _ sub])
    qed
    then show ?thesis using h num st(1) A n by (simp add: list_courses_def reads_from_def seq_def prints_def does_def)
  qed
qed

lemma menu_ok_cong:
  assumes "s_menu t = s_menu s" "tables t = tables s" "map p_ID (pupils_of t) = map p_ID (pupils_of s)"
    "map su_code (subjects_of t) = map su_code (subjects_of s)"
  shows "menu_ok t = menu_ok s" "menu_of t = menu_of s"
proof -
  have tab: "students_at t = students_at s" "courses_at t = courses_at s" using assms(2) by (simp_all add: tables_def)
  have ID: "p_ID (pupils_of t ! j) = p_ID (pupils_of s ! j)" if "j < length (students_at s)" for j
    using arg_cong [OF assms(3), of "\<lambda>l. l ! j"] that by (simp add: tab)
  have code: "su_code (subjects_of t ! j) = su_code (subjects_of s ! j)" if "j < length (courses_at s)" for j
    using arg_cong [OF assms(4), of "\<lambda>l. l ! j"] that by (simp add: tab)
  have "(\<forall>j < i. p_ID (pupils_of t ! j) \<noteq> p_ID (pupils_of t ! i)) = (\<forall>j < i. p_ID (pupils_of s ! j) \<noteq> p_ID (pupils_of s ! i))"
    if "i < length (students_at s)" for i using that by (auto simp: ID)
  moreover have "(\<forall>j < i. su_code (subjects_of t ! j) \<noteq> su_code (subjects_of t ! i)) = (\<forall>j < i. su_code (subjects_of s ! j) \<noteq> su_code (subjects_of s ! i))"
    if "i < length (courses_at s)" for i using that by (auto simp: code)
  ultimately show "menu_ok t = menu_ok s" by (cases "s_menu s") (simp_all add: menu_ok_def assms(1) tab cong: conj_cong)
  show "menu_of t = menu_of s" by (cases "s_menu s") (simp_all add: menu_of_def assms(1) tab)
qed

lemma map_update_same: "f x = f (xs ! i) \<Longrightarrow> map f (xs[i := x]) = map f xs"
  by (metis list_update_id map_update)

lemma changed_agreed:
  assumes "school_ok s" "objects_ok t" "rest t = rest s" "tables t = tables s" "map p_ID (pupils_of t) = map p_ID (pupils_of s)"
    "map su_code (subjects_of t) = map su_code (subjects_of s)"
  shows "agreed (Done () t) (Done () ((view s)\<lparr>pupils := pupils_of t, subjects := subjects_of t\<rparr>))"
proof -
  have "s_menu t = s_menu s" "s_choice t = s_choice s" "s_console t = s_console s" using assms(3) by (simp_all add: rest_def)
  with menu_ok_cong [OF this(1) assms(4-6)] assms(1,2) show ?thesis by (intro agreed_Done) (simp_all add: school_ok_def view_def)
qed

lemma enrol_agreed:
  assumes "school_ok s" "s_menu s = ChosenStudent a" "menu_of s = ChosenStudent i"
  shows "agreed (enrol a s) (spec_enrol i (view s))"
proof -
  obtain k where "menu_of s = ChosenStudent k" and k: "k < length (students_at s)" "students_at s ! k = a" by (rule chosen_student [OF assms(1,2)])
  with assms(3) have i: "i < length (students_at s)" "students_at s ! i = a" by auto
  then have mem: "a \<in> set (students_at s)" by auto
  have ok: "objects_ok s" using assms by (simp add: school_ok_def)
  let ?p = "pupils_of s ! i" and ?av = "available (pupils_of s ! i) (subjects_of s)"
  define A where "A = map (\<lambda>k. courses_at s ! k) ?av"
  define n where "n = length (courses_at s) - length (p_taken ?p)"
  note L = list_courses_spec [OF assms(1) mem i, folded A_def n_def]
  have len: "length A = length ?av" by (simp add: A_def)
  show ?thesis
  proof (cases "length (courses_at s) < length (p_taken ?p) \<or> n < length A")
    case True
    then show ?thesis using L(1,2) by (auto simp: enrol_def spec_enrol_def seq_def len n_def)
  next
    case False
    let ?ls = "numbered (map (key_of s) A)"
    define av where "av = map Ref A @ replicate (n - length A) Unset"
    define dd where "dd = \<lparr>d_cells = Some av, d_num = length av, d_size = length av\<rparr>"
    have keys: "map (\<lambda>k. subject_key (subjects_of s ! k)) ?av = map (key_of s) A"
      by (auto simp: A_def subjects_of_def subject_of_def subject_key_def available_def)
    define F where "F = (\<lambda>m. if m = 0 then ret () else seq (check (rbind (sub_int m 1) (element dd))) (\<lambda>course.
         seq (does (add_course_to a course)) (\<lambda>u. does (add_student_to course a))))"
    define G where "G = (\<lambda>m::int. if m = 0 then ret () else if 1 \<le> m \<and> nat m \<le> length ?av then change (take_subject i (?av ! (nat m - 1))) else check (Inl OutOfBounds))"
    have e: "enrol a s = seq ask_choice F (show_text ?ls s)"
      using L(3) [folded av_def] False unfolding enrol_def F_def dd_def seq_def by simp
    have "spec_enrol i (view s) = seq (print_out ?ls) (\<lambda>u. seq hear_choice G) (view s)"
      using False by (simp add: spec_enrol_def keys len n_def G_def)
    also have "\<dots> = seq hear_choice G (view (show_text ?ls s))" using say_view [of ?ls s] by (simp add: seq_def)
    finally have g: "spec_enrol i (view s) = seq hear_choice G (view (show_text ?ls s))" .
    have step: "agreed (F m (io (Some m) k s)) (G m (view (io (Some m) k s)))" if m: "in_signed 32 m" for m k
    proof -
      let ?t = "io (Some m) k s"
      have tok: "school_ok ?t" "objects_ok ?t" using assms(1) m by (auto simp: school_ok_def)
      consider "m = 0" | "m \<noteq> 0" "1 \<le> m \<and> nat m \<le> length ?av" | "m \<noteq> 0" "\<not> (1 \<le> m \<and> nat m \<le> length ?av)" by blast
      then show ?thesis
      proof cases
        case 1
        then show ?thesis using tok by (simp add: F_def G_def)
      next
        case 2
        let ?k = "?av ! (nat m - 1)"
        have j: "nat m - 1 < length ?av" "in_signed 32 (m - 1)" "nat (m - 1) = nat m - 1" using 2 m by (auto simp: in_signed_32)
        then have k: "?k < length (courses_at s)" using nth_mem [OF j(1)] by (simp add: available_def)
        have "element dd (m - 1) = Inr (courses_at s ! ?k)"
          using j 2 by (simp add: element_def cell_def target_def dd_def av_def len nth_append A_def)
        then have el: "rbind (sub_int m 1) (element dd) = Inr (courses_at s ! ?k)" using j(2) by (simp add: sub_int_def)
        obtain u where u: "add_course_to a (courses_at s ! ?k) ?t = Inr u" "objects_ok u" "subjects_of u = subjects_of s" "tables u = tables ?t" "rest u = rest ?t"
          "pupils_of u = (pupils_of s)[i := ?p\<lparr>p_taken := p_taken ?p @ [subject_key (subjects_of s ! ?k)]\<rparr>]"
          using add_course_effect [OF tok(2), of i ?k] i k by auto
        have tab: "students_at u = students_at s" "courses_at u = courses_at s" using u(4) by (simp_all add: tables_def)
        obtain v where v: "add_student_to (courses_at s ! ?k) a u = Inr v" "objects_ok v" "pupils_of v = pupils_of u" "tables v = tables u" "rest v = rest u"
          "subjects_of v = (subjects_of s)[?k := (subjects_of s ! ?k)\<lparr>su_members := su_members (subjects_of s ! ?k) @ [person (pupils_of u ! i)]\<rparr>]"
          using add_student_effect [OF u(2), of ?k i] i k tab u(3) by auto
        have "F m ?t = Done () v" using 2(1) el u(1) v(1) by (simp add: F_def does_def seq_def)
        moreover have "person (pupils_of u ! i) = person ?p" using i(1) by (simp add: u(6) person_def)
        then have "G m (view ?t) = Done () ((view ?t)\<lparr>pupils := pupils_of v, subjects := subjects_of v\<rparr>)"
          using 2 u(6) v(3,6) by (simp add: G_def take_subject_def Let_def)
        moreover have "agreed (Done () v) (Done () ((view ?t)\<lparr>pupils := pupils_of v, subjects := subjects_of v\<rparr>))"
          using v u by (intro changed_agreed [OF tok(1)]) (simp_all add: map_update_same)
        ultimately show ?thesis by simp
      next
        case 3
        have "\<exists>e. rbind (sub_int m 1) (element dd) = Inl e"
        proof (cases "in_signed 32 (m - 1)")
          case True
          have "\<not> (0 \<le> m - 1 \<and> nat (m - 1) < length A)" using 3 by (auto simp: len)
          then have "element dd (m - 1) = Inl OutOfBounds \<or> element dd (m - 1) = Inl UninitRead"
            by (auto simp: element_def cell_def target_def dd_def av_def nth_append rd_def)
          with True show ?thesis by (auto simp: sub_int_def)
        qed (simp add: sub_int_def)
        with 3 show ?thesis by (auto simp: F_def G_def)
      qed
    qed
    have "choice_ok (s_choice (show_text ?ls s))" using assms(1) by (simp add: show_text_def school_ok_def)
    from ask_choice_view [OF this] step show ?thesis unfolding e g by (auto simp: seq_def io_io)
  qed
qed

lemma remove_student_copy: "cou s c = Some x \<Longrightarrow> co_students x = new_dyn \<Longrightarrow> remove_student c y s = Inr s"
  by (simp add: remove_student_def find_index.simps [of _ _ 0] new_dyn_def)

lemma element_after:
  assumes "array_holds d as" "\<not> (0 \<le> j \<and> nat j < length as)"
  shows "\<exists>e. element d j = Inl e"
  using holds_cell_after [OF assms] by (auto simp: element_def target_def)

text \<open>The course that is dropped, and the pointer that is followed afterwards.\<close>

lemma drop_inside:
  assumes ok: "objects_ok s" and i: "i < length (students_at s)" "students_at s ! i = a"
    and st: "stu s a = Some st" and j: "j < length (courses_of s a)"
  shows "\<exists>t. remove_course a (Ref (courses_of s a ! j)) s = Inr t \<and> objects_ok t \<and> rest t = rest s \<and> tables t = tables s \<and>
    subjects_of t = subjects_of s \<and>
    pupils_of t = (pupils_of s)[i := (pupils_of s ! i)\<lparr>p_taken := remove_first (\<lambda>z. fst z = fst (p_taken (pupils_of s ! i) ! j)) (p_taken (pupils_of s ! i))\<rparr>] \<and>
    (\<exists>st'. stu t a = Some st' \<and> array_holds (st_courses st') (courses_of t a)) \<and> length (courses_of t a) = length (courses_of s a) - 1"
proof -
  let ?c = "courses_of s a ! j"
  have mem: "a \<in> set (students_at s)" using i by auto
  obtain y where y: "cou s ?c = Some y" using live_tables(3) [OF ok mem] j nth_mem by blast
  have code: "co_code y = fst (key_of s ?c)" using y by (simp add: key_of_def)
  obtain t where t: "remove_course a (Ref ?c) s = Inr t" "objects_ok t" "subjects_of t = subjects_of s" "tables t = tables s" "rest t = rest s"
    "pupils_of t = (pupils_of s)[i := (pupils_of s ! i)\<lparr>p_taken := remove_first (\<lambda>z. fst z = co_code y) (p_taken (pupils_of s ! i))\<rparr>]"
    "courses_of t = (courses_of s)(a := remove_first (\<lambda>z. fst (key_of s z) = co_code y) (courses_of s a))"
    using remove_course_effect [OF ok i(1) i(2) [symmetric], of "Ref ?c" ?c y] y by (auto simp: target_def)
  have "first_index (\<lambda>z. fst (key_of s z) = co_code y) (courses_of s a) \<noteq> None" using j code by (auto simp: first_index_None)
  then obtain k where k: "first_index (\<lambda>z. fst (key_of s z) = co_code y) (courses_of s a) = Some k" by blast
  then have "k < length (courses_of s a)" by (simp add: first_index_Some)
  then have "length (courses_of t a) = length (courses_of s a) - 1" using k by (simp add: t(7) remove_first_def)
  moreover have "a \<in> set (students_at t)" using mem t(4) by (simp add: tables_def)
  then have "student_ok t a" by (rule objects_okD(3) [OF t(2)])
  then have "\<exists>st'. stu t a = Some st' \<and> array_holds (st_courses st') (courses_of t a)" by (auto elim: student_okD)
  moreover have "fst (p_taken (pupils_of s ! i) ! j) = co_code y" using i j code by (simp add: pupils_of_def pupil_of_def)
  ultimately show ?thesis using t by auto
qed

lemma remove_null:
  assumes "stu s a = Some st" "array_holds (st_courses st) cs"
  shows "remove_course a Null s = Inr s \<or> (\<exists>e. remove_course a Null s = Inl e)"
proof (cases "cs = []")
  case True
  then have "d_num (st_courses st) = 0" using holds_num [OF assms(2)] by simp
  then show ?thesis using assms(1) by (simp add: remove_course_def find_index.simps [of _ _ 0])
next
  case False
  then have "0 < length cs" by simp
  with holds_element [OF assms(2) this] holds_num [OF assms(2)] assms(1) show ?thesis
    by (simp add: remove_course_def find_index.simps [of _ _ 0] target_def)
qed

lemma drop_agreed:
  assumes "school_ok s" "s_menu s = ChosenStudent a" "menu_of s = ChosenStudent i"
  shows "agreed (drop_course a s) (spec_drop i (view s))"
proof -
  obtain k where "menu_of s = ChosenStudent k" and k: "k < length (students_at s)" "students_at s ! k = a" by (rule chosen_student [OF assms(1,2)])
  with assms(3) have i: "i < length (students_at s)" "students_at s ! i = a" by auto
  then have mem: "a \<in> set (students_at s)" by auto
  have ok: "objects_ok s" using assms by (simp add: school_ok_def)
  obtain st where st: "stu s a = Some st" "array_holds (st_courses st) (courses_of s a)" using student_okD objects_okD(3) [OF ok mem] by metis
  let ?p = "pupils_of s ! i" and ?cs = "courses_of s a"
  have taken: "p_taken ?p = map (key_of s) ?cs" using i by (simp add: pupils_of_def pupil_of_def)
  let ?ls = "numbered (p_taken ?p)"
  define F where "F = (\<lambda>m. if m = 0 then ret () else seq (check (sub_int m 1)) (\<lambda>j.
         seq (reads_from (\<lambda>s. rbind (get_student s a) (\<lambda>st. slot_of (cell (st_courses st) j)))) (\<lambda>course.
         seq (does (remove_course a course)) (\<lambda>u.
         seq (reads_from (\<lambda>s. rbind (get_student s a) (\<lambda>st. element (st_courses st) j))) (\<lambda>course.
           does (remove_student course (Ref a)))))))"
  define G where "G = (\<lambda>m::int. if m = 0 then ret () else if 1 \<le> m \<and> nat m < length (p_taken ?p) then change (drop_subject i (nat m - 1)) else check (Inl NullDeref))"
  have e: "drop_course a s = seq ask_choice F (show_text ?ls s)"
    using list_courses_taken_done [OF assms(1) mem, folded taken] unfolding drop_course_def F_def seq_def by simp
  have "spec_drop i (view s) = seq (print_out ?ls) (\<lambda>u. seq hear_choice G) (view s)"
    unfolding spec_drop_def G_def by (simp only: seq_asks view_simps)
  also have "\<dots> = seq hear_choice G (view (show_text ?ls s))" using say_view [of ?ls s] by (simp add: seq_def)
  finally have g: "spec_drop i (view s) = seq hear_choice G (view (show_text ?ls s))" .
  have step: "agreed (F m (io (Some m) k s)) (G m (view (io (Some m) k s)))" if m: "in_signed 32 m" for m k
  proof -
    let ?t = "io (Some m) k s"
    have tok: "school_ok ?t" "objects_ok ?t" using assms(1) m by (auto simp: school_ok_def)
    consider "m = 0" | "m \<noteq> 0" "\<not> in_signed 32 (m - 1)" | "in_signed 32 (m - 1)" "1 \<le> m" "nat (m - 1) < length ?cs"
      | "m \<noteq> 0" "in_signed 32 (m - 1)" "\<not> (0 \<le> m - 1 \<and> nat (m - 1) < length ?cs)" by force
    then show ?thesis
    proof cases
      case 1
      then show ?thesis using tok by (simp add: F_def G_def)
    next
      case 2
      then have "\<not> 1 \<le> m" using m by (auto simp: in_signed_32)
      with 2 show ?thesis by (simp add: F_def G_def sub_int_def)
    next
      case 3
      let ?j = "nat (m - 1)"
      have cell: "cell (st_courses st) (m - 1) = Inr (Ref (?cs ! ?j))" using holds_cell [OF st(2) 3(3)] 3(2) by simp
      obtain t where t: "remove_course a (Ref (?cs ! ?j)) ?t = Inr t" "objects_ok t" "rest t = rest ?t" "tables t = tables ?t" "subjects_of t = subjects_of s"
        "pupils_of t = (pupils_of s)[i := ?p\<lparr>p_taken := remove_first (\<lambda>z. fst z = fst (p_taken ?p ! ?j)) (p_taken ?p)\<rparr>]"
        "\<exists>st'. stu t a = Some st' \<and> array_holds (st_courses st') (courses_of t a)" "length (courses_of t a) = length ?cs - 1"
        using drop_inside [OF tok(2), of i a st ?j] i st(1) 3(3) by auto
      then obtain st' where st': "stu t a = Some st'" "array_holds (st_courses st') (courses_of t a)" by blast
      have first: "F m ?t = seq (reads_from (\<lambda>s. rbind (get_student s a) (\<lambda>st. element (st_courses st) (m - 1)))) (\<lambda>course. does (remove_student course (Ref a))) t"
        using 3 st(1) cell t(1) unfolding F_def seq_def by (simp add: sub_int_def reads_from_def does_def slot_of_def)
      show ?thesis
      proof (cases "?j + 1 < length ?cs")
        case True
        then have j: "?j < length (courses_of t a)" using t(8) by simp
        have el: "element (st_courses st') (m - 1) = Inr (courses_of t a ! ?j)" using holds_element [OF st'(2) j] 3(2) by simp
        have "a \<in> set (students_at t)" using mem t(4) by (simp add: tables_def)
        then obtain x where "cou t (courses_of t a ! ?j) = Some x" "co_students x = new_dyn"
          using student_ok_copy [OF objects_okD(3) [OF t(2)] nth_mem [OF j]] by blast
        then have "F m ?t = Done () t" using first st'(1) el remove_student_copy by (simp add: seq_def reads_from_def does_def)
        moreover have "nat m - 1 = ?j" "nat m < length (p_taken ?p)" "m \<noteq> 0" using True 3 by (auto simp: taken)
        then have "G m (view ?t) = Done () ((view ?t)\<lparr>pupils := pupils_of t, subjects := subjects_of t\<rparr>)"
          using 3(2) t(5,6) by (simp add: G_def drop_subject_def Let_def)
        moreover have "agreed (Done () t) (Done () ((view ?t)\<lparr>pupils := pupils_of t, subjects := subjects_of t\<rparr>))"
          using t by (intro changed_agreed [OF tok(1)]) (simp_all add: map_update_same)
        ultimately show ?thesis by simp
      next
        case False
        then have "\<not> (0 \<le> m - 1 \<and> nat (m - 1) < length (courses_of t a))" using t(8) 3(2,3) by simp
        from element_after [OF st'(2) this] obtain e where "element (st_courses st') (m - 1) = Inl e" by blast
        then have "F m ?t = Undef e" using first st'(1) by (simp add: seq_def reads_from_def)
        moreover have "\<not> nat m < length (p_taken ?p)" "m \<noteq> 0" using False 3 by (auto simp: taken)
        ultimately show ?thesis by (simp add: G_def)
      qed
    next
      case 4
      have bad: "G m (view ?t) = Undef NullDeref" using 4 by (auto simp: G_def taken)
      have "\<exists>e. F m ?t = Undef e"
      proof (cases "cell (st_courses st) (m - 1) = Inr Null")
        case False
        then obtain e where "slot_of (cell (st_courses st) (m - 1)) = Inl e"
          using holds_cell_after [OF st(2) 4(3)] by (auto simp: slot_of_def)
        then show ?thesis using 4(1,2) st(1) unfolding F_def seq_def by (simp add: sub_int_def reads_from_def)
      next
        case True
        have "stu ?t a = Some st" using st(1) by simp
        from remove_null [OF this st(2)] consider "remove_course a Null ?t = Inr ?t" | e where "remove_course a Null ?t = Inl e" by blast
        then show ?thesis
        proof cases
          case 1
          then show ?thesis using 4(1,2) st(1) True unfolding F_def seq_def by (simp add: sub_int_def reads_from_def does_def slot_of_def element_def target_def)
        next
          case 2
          then show ?thesis using 4(1,2) st(1) True unfolding F_def seq_def by (simp add: sub_int_def reads_from_def does_def slot_of_def)
        qed
      qed
      with bad show ?thesis by auto
    qed
  qed
  have "choice_ok (s_choice (show_text ?ls s))" using assms(1) by (simp add: show_text_def school_ok_def)
  from ask_choice_view [OF this] step show ?thesis unfolding e g by (auto simp: seq_def io_io)
qed

section \<open>The steps\<close>

lemma destroy_system_ends:
  assumes "school_ok s"
  shows "agreed (seq (goes Ended) (\<lambda>u. does destroy_system) s) (moves Ended (view s))"
proof -
  let ?s = "s\<lparr>s_menu := Ended\<rparr>"
  have "objects_ok ?s" using assms by (simp add: school_ok_def)
  then obtain t where t: "destroy_system ?s = Inr t" "rest t = rest ?s" using destroy_system_effect by blast
  then have "seq (goes Ended) (\<lambda>u. does destroy_system) s = Done () t" by (simp add: goes_def does_def)
  with t(2) show ?thesis by (simp add: agreed_def moves_def rest_def)
qed

lemma show_agreed: "school_ok s \<Longrightarrow> agreed (ret () s) (ret () (view s))"
  by simp

theorem school_refines:
  assumes ok: "school_ok s" and running: "s_menu s \<noteq> Ended"
  shows "agreed (school_step s) (spec_step (view s))"
proof -
  have objs: "objects_ok s" "menu_ok s" using ok by (simp_all add: school_ok_def)
  have io_ok: "school_ok (io (Some n) k s)" if "in_signed 32 n" for n k using objs that by simp
  show ?thesis
  proof (cases "s_menu s")
    case MainMenu
    then have "menu_of s = MainMenu" by (simp add: menu_of_def)
    with MainMenu show ?thesis unfolding school_step_def spec_step_def
      apply (simp only: menu.case view_simps)
      apply (rule turn_agreed [OF ok])
      subgoal for n k
        using destroy_system_ends [OF io_ok] list_all_agreed [OF io_ok] goes_plain [OF io_ok] show_agreed [OF io_ok]
        by (auto simp: plain_menu_def)
      done
  next
    case StudentMenu
    then have "menu_of s = StudentMenu" by (simp add: menu_of_def)
    with StudentMenu show ?thesis unfolding school_step_def spec_step_def
      apply (simp only: menu.case view_simps)
      apply (rule turn_agreed [OF ok])
      subgoal for n k
        using add_student_agreed [OF io_ok] select_student_agreed [OF io_ok] goes_plain [OF io_ok] show_agreed [OF io_ok]
        by (auto simp: plain_menu_def)
      done
  next
    case CourseMenu
    then have "menu_of s = CourseMenu" by (simp add: menu_of_def)
    with CourseMenu show ?thesis unfolding school_step_def spec_step_def
      apply (simp only: menu.case view_simps)
      apply (rule turn_agreed [OF ok])
      subgoal for n k
        using add_course_agreed [OF io_ok] select_course_agreed [OF io_ok] goes_plain [OF io_ok] show_agreed [OF io_ok]
        by (auto simp: plain_menu_def)
      done
  next
    case (ChosenStudent a)
    then obtain i where i: "menu_of s = ChosenStudent i" by (simp add: menu_of_def)
    with ChosenStudent show ?thesis unfolding school_step_def spec_step_def
      apply (simp only: menu.case view_simps)
      apply (rule turn_agreed [OF ok])
      subgoal for n k
        using delete_student_agreed [OF io_ok, of n k a i] enrol_agreed [OF io_ok, of n k a i] drop_agreed [OF io_ok, of n k a i]
          goes_plain [OF io_ok] show_agreed [OF io_ok]
        by (auto simp: plain_menu_def)
      done
  next
    case (ChosenCourse c)
    then obtain i where i: "menu_of s = ChosenCourse i" by (simp add: menu_of_def)
    with ChosenCourse show ?thesis unfolding school_step_def spec_step_def
      apply (simp only: menu.case view_simps)
      apply (rule turn_agreed [OF ok])
      subgoal for n k
        using delete_course_agreed [OF io_ok, of n k c i] list_students_agreed [OF io_ok, of n k c i]
          goes_plain [OF io_ok] show_agreed [OF io_ok]
        by (auto simp: plain_menu_def)
      done
  qed (use running in simp)
qed

end
