(* ===== verification/School_Register.thy ===== *)
theory School_Register
  imports School_Spec
begin

text \<open>
  An invariant of the register: whatever a pupil has taken is a subject that lists the pupil. It
  is why the array for the available courses is never too small, although deletions look for
  students and courses by ID and code, which need not be unique.
\<close>

definition taken_listed :: "pupil \<Rightarrow> subject list \<Rightarrow> bool" where
  "taken_listed p cs \<longleftrightarrow> (\<forall>x \<in> set (p_taken p). \<exists>c \<in> set cs. su_code c = fst x \<and> p_ID p \<in> snd ` set (su_members c))"

definition first_with_ID :: "pupil list \<Rightarrow> nat \<Rightarrow> bool" where
  "first_with_ID ps i \<longleftrightarrow> (\<forall>j < i. p_ID (ps ! j) \<noteq> p_ID (ps ! i))"

definition pupils_ok :: "pupil list \<Rightarrow> bool" where
  "pupils_ok ps \<longleftrightarrow> (\<forall>i < length ps. distinct (map fst (p_taken (ps ! i))) \<and> (\<not> first_with_ID ps i \<longrightarrow> p_taken (ps ! i) = []))"

definition register_ok :: "register \<Rightarrow> bool" where
  "register_ok r \<longleftrightarrow> pupils_ok (pupils r) \<and> (\<forall>p \<in> set (pupils r). taken_listed p (subjects r))"

text \<open>The selected pupil is the first one with its ID.\<close>

definition selection_ok :: "register \<Rightarrow> bool" where
  "selection_ok r \<longleftrightarrow> (case r_menu r of
       ChosenStudent i \<Rightarrow> i < length (pupils r) \<and> first_with_ID (pupils r) i
     | ChosenCourse k \<Rightarrow> k < length (subjects r)
     | m \<Rightarrow> True)"

section \<open>Removing and updating the first match\<close>

lemma set_remove_first: "set (remove_first q xs) \<subseteq> set xs"
  by (cases "first_index q xs") (simp_all add: remove_first_def set_remove_nth_subset)

lemma distinct_remove_first: "distinct (map f xs) \<Longrightarrow> distinct (map f (remove_first q xs))"
proof (cases "first_index q xs")
  case (Some i)
  assume "distinct (map f xs)"
  then have "distinct (remove_nth i (map f xs))" using Some by (intro distinct_remove_nth) (auto simp: first_index_Some)
  then show ?thesis using Some by (simp add: remove_first_def remove_nth_def take_map drop_map)
qed (simp add: remove_first_def)

lemma remove_first_other: "x \<in> set xs \<Longrightarrow> \<not> q x \<Longrightarrow> x \<in> set (remove_first q xs)"
proof (cases "first_index q xs")
  case (Some i)
  assume x: "x \<in> set xs" "\<not> q x"
  from Some have i: "i < length xs" "q (xs ! i)" by (simp_all add: first_index_Some)
  have "set xs = set (take i xs @ xs ! i # drop (Suc i) xs)" using id_take_nth_drop [OF i(1)] by simp
  with x i Some show ?thesis by (auto simp: remove_first_def remove_nth_def)
qed (simp add: remove_first_def)

lemma remove_first_gone:
  assumes "distinct (map f xs)"
  shows "y \<notin> f ` set (remove_first (\<lambda>x. f x = y) xs)"
proof (cases "first_index (\<lambda>x. f x = y) xs")
  case None
  then have "remove_first (\<lambda>x. f x = y) xs = xs" by (simp add: remove_first_def)
  moreover have "\<forall>x \<in> set xs. f x \<noteq> y" using None by (simp add: first_index_None)
  ultimately show ?thesis by auto
next
  case (Some i)
  then have i: "i < length (map f xs)" "map f xs ! i = y" by (auto simp: first_index_Some)
  have "f ` set (remove_nth i xs) = set (remove_nth i (map f xs))" by (simp add: remove_nth_def take_map drop_map image_Un)
  with distinct_remove_nth(2) [OF assms i(1)] i(2) Some show ?thesis by (simp add: remove_first_def)
qed

lemma length_update_first [simp]: "length (update_first q f xs) = length xs"
  by (simp add: update_first_def split: option.splits)

lemma nth_update_first: "i < length xs \<Longrightarrow> update_first q f xs ! i = (if first_index q xs = Some i then f (xs ! i) else xs ! i)"
  by (auto simp: update_first_def nth_list_update split: option.splits)

lemma in_update_first: "x \<in> set xs \<Longrightarrow> x \<in> set (update_first q f xs) \<or> f x \<in> set (update_first q f xs)"
  by (metis in_set_conv_nth length_update_first nth_update_first)

section \<open>Subjects that lose members\<close>

definition lists :: "string \<Rightarrow> int \<Rightarrow> subject list \<Rightarrow> bool" where
  "lists code ID cs \<longleftrightarrow> (\<exists>c \<in> set cs. su_code c = code \<and> ID \<in> snd ` set (su_members c))"

lemma taken_listed_iff: "taken_listed p cs \<longleftrightarrow> (\<forall>x \<in> set (p_taken p). lists (fst x) (p_ID p) cs)"
  by (simp add: taken_listed_def lists_def)

lemma lists_unlist:
  assumes "lists code ID cs" "ID \<noteq> other"
  shows "lists code ID (unlist other c cs)"
proof -
  obtain x m where x: "x \<in> set cs" "su_code x = code" "m \<in> set (su_members x)" "snd m = ID" using assms(1) by (auto simp: lists_def)
  let ?f = "\<lambda>c. c\<lparr>su_members := remove_first (\<lambda>m. snd m = other) (su_members c)\<rparr>"
  have "m \<in> set (su_members (?f x))" using remove_first_other [OF x(3)] x(4) assms(2) by simp
  with x(4) have "ID \<in> snd ` set (su_members (?f x))" by blast
  moreover have "ID \<in> snd ` set (su_members x)" using x(3,4) by blast
  moreover have "su_code (?f x) = code" using x(2) by simp
  moreover have "x \<in> set (unlist other c cs) \<or> ?f x \<in> set (unlist other c cs)"
    using in_update_first [OF x(1)] by (simp add: unlist_def)
  ultimately show ?thesis using x(2) unfolding lists_def by blast
qed

lemma lists_unlist_all: "lists code ID cs \<Longrightarrow> ID \<noteq> other \<Longrightarrow> lists code ID (fold (unlist other) codes cs)"
  by (induction codes arbitrary: cs) (auto intro: lists_unlist)

section \<open>Pupils that lose subjects\<close>

lemma withdraw_nth:
  assumes "i < length ps"
  shows "p_ID (withdraw code ID ps ! i) = p_ID (ps ! i)" "set (p_taken (withdraw code ID ps ! i)) \<subseteq> set (p_taken (ps ! i))"
    "distinct (map fst (p_taken (ps ! i))) \<Longrightarrow> distinct (map fst (p_taken (withdraw code ID ps ! i)))"
    "p_ID (ps ! i) = ID \<Longrightarrow> first_with_ID ps i \<Longrightarrow> distinct (map fst (p_taken (ps ! i))) \<Longrightarrow> code \<notin> fst ` set (p_taken (withdraw code ID ps ! i))"
proof -
  let ?f = "\<lambda>p. p\<lparr>p_taken := remove_first (\<lambda>c. fst c = code) (p_taken p)\<rparr>"
  have eq: "withdraw code ID ps ! i = (if first_index (\<lambda>p. p_ID p = ID) ps = Some i then ?f (ps ! i) else ps ! i)"
    using assms by (simp add: withdraw_def nth_update_first)
  show "p_ID (withdraw code ID ps ! i) = p_ID (ps ! i)" by (simp add: eq)
  show "set (p_taken (withdraw code ID ps ! i)) \<subseteq> set (p_taken (ps ! i))" by (simp add: eq set_remove_first)
  show "distinct (map fst (p_taken (ps ! i))) \<Longrightarrow> distinct (map fst (p_taken (withdraw code ID ps ! i)))"
    by (simp add: eq distinct_remove_first)
  show "code \<notin> fst ` set (p_taken (withdraw code ID ps ! i))"
    if "p_ID (ps ! i) = ID" "first_with_ID ps i" "distinct (map fst (p_taken (ps ! i)))"
  proof -
    have "first_index (\<lambda>p. p_ID p = ID) ps = Some i" using assms that(1,2) by (auto simp: first_index_Some first_with_ID_def)
    then show ?thesis using remove_first_gone [OF that(3)] by (simp add: eq)
  qed
qed

lemma withdraw_length [simp]: "length (withdraw code ID ps) = length ps"
  by (simp add: withdraw_def)

lemma withdraw_all:
  "length (fold (withdraw code) IDs ps) = length ps"
  "i < length ps \<Longrightarrow> p_ID (fold (withdraw code) IDs ps ! i) = p_ID (ps ! i)"
  "i < length ps \<Longrightarrow> set (p_taken (fold (withdraw code) IDs ps ! i)) \<subseteq> set (p_taken (ps ! i))"
  "i < length ps \<Longrightarrow> distinct (map fst (p_taken (ps ! i))) \<Longrightarrow> distinct (map fst (p_taken (fold (withdraw code) IDs ps ! i)))"
proof (induction IDs arbitrary: ps)
  case (Cons ID IDs)
  { case 1 then show ?case using Cons.IH(1) by simp
  next case 2 then show ?case using Cons.IH(2) withdraw_nth(1) by simp
  next case 3 then show ?case using Cons.IH(3) [of "withdraw code ID ps"] withdraw_nth(2) [OF 3, of code ID] by simp
  next case 4 then show ?case using Cons.IH(4) withdraw_nth(3) by simp }
qed simp_all

lemma withdraw_first: "i < length ps \<Longrightarrow> first_with_ID (withdraw code ID ps) i = first_with_ID ps i"
  unfolding first_with_ID_def using withdraw_nth(1) by (metis order_less_trans)

lemma withdraw_all_gone:
  assumes "i < length ps" "first_with_ID ps i" "distinct (map fst (p_taken (ps ! i)))" "p_ID (ps ! i) \<in> set IDs"
  shows "code \<notin> fst ` set (p_taken (fold (withdraw code) IDs ps ! i))"
  using assms
proof (induction IDs arbitrary: ps)
  case (Cons ID IDs)
  let ?ps = "withdraw code ID ps"
  show ?case
  proof (cases "p_ID (ps ! i) = ID")
    case True
    then have "code \<notin> fst ` set (p_taken (?ps ! i))" using withdraw_nth(4) Cons.prems by blast
    moreover have "set (p_taken (fold (withdraw code) IDs ?ps ! i)) \<subseteq> set (p_taken (?ps ! i))" using Cons.prems(1) by (intro withdraw_all) simp
    ultimately show ?thesis by auto
  next
    case False
    then show ?thesis using Cons.prems Cons.IH [of ?ps] withdraw_first withdraw_nth by simp
  qed
qed simp

section \<open>The changes keep the invariant\<close>

lemma register_okD:
  assumes "register_ok r" "i < length (pupils r)"
  shows "distinct (map fst (p_taken (pupils r ! i)))" "\<not> first_with_ID (pupils r) i \<Longrightarrow> p_taken (pupils r ! i) = []"
    "x \<in> set (p_taken (pupils r ! i)) \<Longrightarrow> lists (fst x) (p_ID (pupils r ! i)) (subjects r)"
    "x \<in> set (p_taken (pupils r ! i)) \<Longrightarrow> first_with_ID (pupils r) i"
  using assms by (auto simp: register_ok_def pupils_ok_def taken_listed_iff)

lemma register_okI:
  assumes "\<And>i. i < length ps \<Longrightarrow> distinct (map fst (p_taken (ps ! i)))"
    "\<And>i x. i < length ps \<Longrightarrow> x \<in> set (p_taken (ps ! i)) \<Longrightarrow> first_with_ID ps i \<and> lists (fst x) (p_ID (ps ! i)) cs"
  shows "register_ok (r\<lparr>pupils := ps, subjects := cs\<rparr>)"
proof -
  have "p_taken (ps ! i) = []" if "i < length ps" "\<not> first_with_ID ps i" for i
  proof (cases "p_taken (ps ! i)")
    case (Cons y ys)
    with that show ?thesis using assms(2) [OF that(1), of y] by simp
  qed
  then show ?thesis using assms by (auto simp: register_ok_def pupils_ok_def taken_listed_iff in_set_conv_nth [of _ ps])
qed

lemma nth_remove_nth: "i < length xs \<Longrightarrow> k < length xs - 1 \<Longrightarrow> remove_nth i xs ! k = xs ! (if k < i then k else k + 1)"
  by (auto simp: remove_nth_def nth_append min_def)

lemma add_pupil_ok:
  assumes ok: "register_ok r"
  shows "register_ok (r\<lparr>pupils := pupils r @ [\<lparr>p_name = n, p_ID = ID, p_taken = []\<rparr>]\<rparr>)"
proof -
  let ?ps = "pupils r @ [\<lparr>p_name = n, p_ID = ID, p_taken = []\<rparr>]"
  have "register_ok (r\<lparr>pupils := ?ps, subjects := subjects r\<rparr>)"
  proof (rule register_okI)
    fix i assume "i < length ?ps"
    then show "distinct (map fst (p_taken (?ps ! i)))"
      using register_okD(1) [OF ok] by (cases "i < length (pupils r)") (auto simp: nth_append)
  next
    fix i x assume h: "i < length ?ps" "x \<in> set (p_taken (?ps ! i))"
    then have i: "i < length (pupils r)" by (auto simp: nth_append split: if_splits)
    then have x: "x \<in> set (p_taken (pupils r ! i))" using h(2) by (simp add: nth_append)
    have "first_with_ID ?ps i" using register_okD(4) [OF ok i x] i by (simp add: first_with_ID_def nth_append)
    then show "first_with_ID ?ps i \<and> lists (fst x) (p_ID (?ps ! i)) (subjects r)"
      using register_okD(3) [OF ok i x] i by (simp add: nth_append)
  qed
  then show ?thesis by simp
qed

lemma add_subject_ok: "register_ok r \<Longrightarrow> register_ok (r\<lparr>subjects := subjects r @ [c]\<rparr>)"
  by (auto simp: register_ok_def taken_listed_iff lists_def)

lemma delete_pupil_ok:
  assumes ok: "register_ok r" and i: "i < length (pupils r)" "first_with_ID (pupils r) i"
  shows "register_ok (delete_pupil i r)"
proof -
  let ?ps = "pupils r" and ?p = "pupils r ! i"
  let ?cs = "fold (unlist (p_ID ?p)) (map fst (p_taken ?p)) (subjects r)" and ?qs = "remove_nth i (pupils r)"
  have "register_ok (r\<lparr>pupils := ?qs, subjects := ?cs\<rparr>)"
  proof (rule register_okI)
    fix k assume k: "k < length ?qs"
    define l where "l = (if k < i then k else k + 1)"
    have l: "l < length ?ps" "?qs ! k = ?ps ! l" "l \<noteq> i" using k i nth_remove_nth [OF i(1), of k] by (auto simp: l_def)
    show "distinct (map fst (p_taken (?qs ! k)))" using register_okD(1) [OF ok l(1)] l(2) by simp
    fix x assume "x \<in> set (p_taken (?qs ! k))"
    with l(2) have x: "x \<in> set (p_taken (?ps ! l))" by simp
    note first = register_okD(4) [OF ok l(1) x]
    have "first_with_ID ?qs k"
      unfolding first_with_ID_def
    proof (intro allI impI)
      fix j assume j: "j < k"
      have "?qs ! j = ?ps ! (if j < i then j else j + 1)" using j k i nth_remove_nth [OF i(1), of j] by simp
      moreover have "(if j < i then j else j + 1) < l" using j by (auto simp: l_def)
      ultimately show "p_ID (?qs ! j) \<noteq> p_ID (?qs ! k)" using first l(2) by (simp add: first_with_ID_def)
    qed
    moreover have "p_ID (?ps ! l) \<noteq> p_ID ?p"
      using first i(2) l(3) by (metis first_with_ID_def linorder_neqE_nat)
    then have "lists (fst x) (p_ID (?ps ! l)) ?cs" using register_okD(3) [OF ok l(1) x] by (intro lists_unlist_all)
    ultimately show "first_with_ID ?qs k \<and> lists (fst x) (p_ID (?qs ! k)) ?cs" using l(2) by simp
  qed
  then show ?thesis by (simp add: delete_pupil_def Let_def)
qed

lemma delete_subject_ok:
  assumes ok: "register_ok r" and k: "k < length (subjects r)"
  shows "register_ok (delete_subject k r)"
proof -
  let ?ps = "pupils r" and ?c = "subjects r ! k"
  let ?IDs = "map snd (su_members ?c)"
  let ?qs = "fold (withdraw (su_code ?c)) ?IDs ?ps" and ?cs = "remove_nth k (subjects r)"
  have "register_ok (r\<lparr>pupils := ?qs, subjects := ?cs\<rparr>)"
  proof (rule register_okI)
    fix i assume "i < length ?qs"
    then have i: "i < length ?ps" by (simp add: withdraw_all(1))
    show "distinct (map fst (p_taken (?qs ! i)))" using register_okD(1) [OF ok i] by (intro withdraw_all(4) i)
    fix x assume x: "x \<in> set (p_taken (?qs ! i))"
    then have x': "x \<in> set (p_taken (?ps ! i))" using withdraw_all(3) [OF i] by blast
    have IDs: "p_ID (?qs ! j) = p_ID (?ps ! j)" if "j < length ?ps" for j using withdraw_all(2) [OF that] by simp
    have first: "first_with_ID ?ps i" by (rule register_okD(4) [OF ok i x'])
    then have "first_with_ID ?qs i" using IDs i by (simp add: first_with_ID_def)
    moreover have "lists (fst x) (p_ID (?ps ! i)) ?cs"
    proof -
      obtain c where c: "c \<in> set (subjects r)" "su_code c = fst x" "p_ID (?ps ! i) \<in> snd ` set (su_members c)"
        using register_okD(3) [OF ok i x'] by (auto simp: lists_def)
      have "c \<in> set ?cs"
      proof (rule ccontr)
        assume "c \<notin> set ?cs"
        moreover have "set (subjects r) = set (take k (subjects r) @ ?c # drop (Suc k) (subjects r))" using id_take_nth_drop [OF k] by simp
        ultimately have "c = ?c" using c(1) by (auto simp: remove_nth_def)
        then have "p_ID (?ps ! i) \<in> set ?IDs" "fst x = su_code ?c" using c by auto
        moreover have "fst x \<in> fst ` set (p_taken (?qs ! i))" using x by (rule imageI)
        ultimately show False using withdraw_all_gone [OF i first register_okD(1) [OF ok i], of ?IDs "su_code ?c"] by simp
      qed
      with c show ?thesis by (auto simp: lists_def)
    qed
    ultimately show "first_with_ID ?qs i \<and> lists (fst x) (p_ID (?qs ! i)) ?cs" using IDs [OF i] by simp
  qed
  then show ?thesis by (simp add: delete_subject_def Let_def register_ok_def)
qed

lemma take_subject_ok:
  assumes ok: "register_ok r" and i: "i < length (pupils r)" "first_with_ID (pupils r) i"
    and k: "k \<in> set (available (pupils r ! i) (subjects r))"
  shows "register_ok (take_subject i k r)"
proof -
  let ?ps = "pupils r" and ?p = "pupils r ! i" and ?c = "subjects r ! k"
  let ?p' = "?p\<lparr>p_taken := p_taken ?p @ [subject_key ?c]\<rparr>" and ?c' = "?c\<lparr>su_members := su_members ?c @ [person ?p]\<rparr>"
  let ?qs = "?ps[i := ?p']" and ?cs = "(subjects r)[k := ?c']"
  have k': "k < length (subjects r)" "su_code ?c \<notin> fst ` set (p_taken ?p)" using k by (auto simp: available_def)
  have keep: "lists code ID ?cs" if h: "lists code ID (subjects r)" for code ID
  proof -
    obtain c where c: "c \<in> set (subjects r)" "su_code c = code" "ID \<in> snd ` set (su_members c)" using h unfolding lists_def by blast
    then obtain l where l: "l < length (subjects r)" "subjects r ! l = c" by (metis in_set_conv_nth)
    have "?cs ! l \<in> set ?cs" using l(1) by (intro nth_mem) simp
    moreover have "su_code (?cs ! l) = code \<and> ID \<in> snd ` set (su_members (?cs ! l))" using l c k'(1) by (cases "l = k") auto
    ultimately show ?thesis unfolding lists_def by blast
  qed
  have IDs: "p_ID (?qs ! j) = p_ID (?ps ! j)" for j by (cases "j = i") (use i(1) in auto)
  then have first: "first_with_ID ?qs j = first_with_ID ?ps j" for j by (simp add: first_with_ID_def)
  have "register_ok (r\<lparr>pupils := ?qs, subjects := ?cs\<rparr>)"
  proof (rule register_okI)
    fix j assume "j < length ?qs"
    then have j: "j < length ?ps" by simp
    show "distinct (map fst (p_taken (?qs ! j)))"
      using register_okD(1) [OF ok j] k'(2) i(1) by (cases "j = i") (auto simp: subject_key_def)
    fix x assume x: "x \<in> set (p_taken (?qs ! j))"
    show "first_with_ID ?qs j \<and> lists (fst x) (p_ID (?qs ! j)) ?cs"
    proof (cases "j = i \<and> x = subject_key ?c")
      case True
      have "?c' \<in> set ?cs" using k'(1) by (rule set_update_memI)
      then have "lists (su_code ?c) (p_ID ?p) ?cs" by (auto simp: lists_def person_def intro!: bexI [of _ ?c'])
      moreover have "fst (subject_key ?c) = su_code ?c" by (simp add: subject_key_def)
      ultimately have "first_with_ID ?ps j \<and> lists (fst x) (p_ID (?ps ! j)) ?cs" using True i(2) by simp
      then show ?thesis by (simp only: first IDs)
    next
      case False
      then have "x \<in> set (p_taken (?ps ! j))" using x i(1) by (cases "j = i") auto
      with register_okD(3,4) [OF ok j] keep show ?thesis by (simp add: first IDs)
    qed
  qed
  then show ?thesis by (simp add: take_subject_def Let_def)
qed

lemma drop_subject_ok:
  assumes ok: "register_ok r" and i: "i < length (pupils r)"
  shows "register_ok (drop_subject i m r)"
proof -
  let ?ps = "pupils r" and ?p = "pupils r ! i"
  let ?q = "\<lambda>c. fst c = fst (p_taken ?p ! m)"
  let ?qs = "?ps[i := ?p\<lparr>p_taken := remove_first ?q (p_taken ?p)\<rparr>]"
  have IDs: "p_ID (?qs ! j) = p_ID (?ps ! j)" for j by (cases "j = i") (use i in auto)
  then have first: "first_with_ID ?qs j = first_with_ID ?ps j" for j by (simp add: first_with_ID_def)
  have "register_ok (r\<lparr>pupils := ?qs, subjects := subjects r\<rparr>)"
  proof (rule register_okI)
    fix j assume "j < length ?qs"
    then have j: "j < length ?ps" by simp
    show "distinct (map fst (p_taken (?qs ! j)))"
      using register_okD(1) [OF ok j] i by (cases "j = i") (auto simp: distinct_remove_first)
    fix x assume "x \<in> set (p_taken (?qs ! j))"
    then have "x \<in> set (p_taken (?ps ! j))" using i by (cases "j = i") (auto dest: subsetD [OF set_remove_first])
    with register_okD(3,4) [OF ok j] show "first_with_ID ?qs j \<and> lists (fst x) (p_ID (?qs ! j)) (subjects r)" by (simp add: first IDs)
  qed
  then show ?thesis by (simp add: drop_subject_def Let_def)
qed

section \<open>Room for the available courses\<close>

lemma available_fits:
  assumes ok: "register_ok r" and i: "i < length (pupils r)"
  shows "length (p_taken (pupils r ! i)) \<le> length (subjects r)"
    "length (available (pupils r ! i) (subjects r)) \<le> length (subjects r) - length (p_taken (pupils r ! i))"
proof -
  let ?p = "pupils r ! i" and ?cs = "subjects r"
  let ?C = "fst ` set (p_taken ?p)"
  let ?B = "filter (\<lambda>k. su_code (?cs ! k) \<in> ?C) [0..<length ?cs]"
  have "?C \<subseteq> (\<lambda>k. su_code (?cs ! k)) ` set ?B"
  proof
    fix code assume code: "code \<in> ?C"
    then obtain c where "c \<in> set ?cs" "su_code c = code" using register_okD(3) [OF ok i] by (fastforce simp: lists_def)
    then obtain k where "k < length ?cs" "su_code (?cs ! k) = code" by (metis in_set_conv_nth)
    with code show "code \<in> (\<lambda>k. su_code (?cs ! k)) ` set ?B" by force
  qed
  then have "card ?C \<le> card (set ?B)" by (meson List.finite_set card_mono card_image_le finite_imageI le_trans)
  also have "\<dots> = length ?B" by (intro distinct_card) simp
  finally have "length (p_taken ?p) \<le> length ?B"
    using distinct_card [OF register_okD(1) [OF ok i]] by simp
  moreover have "length ?B + length (available ?p ?cs) = length ?cs"
    unfolding available_def using sum_length_filter_compl [of "\<lambda>k. su_code (?cs ! k) \<in> ?C" "[0..<length ?cs]"] by simp
  ultimately show "length (p_taken ?p) \<le> length ?cs" "length (available ?p ?cs) \<le> length ?cs - length (p_taken ?p)" by auto
qed

section \<open>Every step keeps the invariant\<close>

lemma register_ok_frame [simp]:
  "register_ok (r\<lparr>r_console := c\<rparr>) = register_ok r" "register_ok (r\<lparr>r_choice := n\<rparr>) = register_ok r" "register_ok (r\<lparr>r_menu := m\<rparr>) = register_ok r"
  by (simp_all add: register_ok_def)

lemma hear_Done:
  "hear_choice r = Done n t \<Longrightarrow> pupils t = pupils r \<and> subjects t = subjects r \<and> r_menu t = r_menu r"
  "hear_line r = Done l t \<Longrightarrow> pupils t = pupils r \<and> subjects t = subjects r \<and> r_menu t = r_menu r"
  by (auto simp: hear_choice_def hear_line_def split: prod.splits option.splits)

lemma say_Done: "print_out ls r = Done u t \<Longrightarrow> pupils t = pupils r \<and> subjects t = subjects r \<and> r_menu t = r_menu r"
  by (auto simp: print_out_def)

lemma same_ok: "register_ok r \<Longrightarrow> pupils t = pupils r \<Longrightarrow> subjects t = subjects r \<Longrightarrow> register_ok t"
  by (simp add: register_ok_def)

lemma hear_ok: "register_ok r \<Longrightarrow> hear_line r = Done l t \<Longrightarrow> register_ok t" "register_ok r \<Longrightarrow> hear_choice r = Done n t \<Longrightarrow> register_ok t"
  using same_ok hear_Done by metis+

lemma spec_turn_ok:
  assumes "register_ok r" "spec_turn ls f r = Done u t"
    "\<And>n q. register_ok q \<Longrightarrow> pupils q = pupils r \<Longrightarrow> subjects q = subjects r \<Longrightarrow> f n q = Done u t \<Longrightarrow> register_ok t"
  shows "register_ok t"
proof -
  obtain p n q where q: "print_out ls r = Done () p" "hear_choice p = Done n q" "f n q = Done u t"
    using assms(2) by (auto simp: spec_turn_def seq_Done)
  have "pupils q = pupils r" "subjects q = subjects r" using say_Done [OF q(1)] hear_Done(1) [OF q(2)] by simp_all
  with assms(3) [OF same_ok [OF assms(1)]] q(3) show ?thesis by blast
qed

lemma moves_Done: "moves m r = Done u t \<Longrightarrow> pupils t = pupils r \<and> subjects t = subjects r"
  by (auto simp: moves_def)

lemma spec_add_ok:
  assumes ok: "register_ok r"
  shows "spec_add_student r = Done u t \<Longrightarrow> register_ok t" "spec_add_course r = Done u t \<Longrightarrow> register_ok t"
proof -
  assume "spec_add_student r = Done u t"
  then obtain l q where q: "hear_line r = Done l q"
    "(case parse_person l of None \<Rightarrow> throw | Some (name, ID) \<Rightarrow> change (\<lambda>r. r\<lparr>pupils := pupils r @ [\<lparr>p_name = name, p_ID = ID, p_taken = []\<rparr>]\<rparr>)) q = Done u t"
    unfolding spec_add_student_def seq_Done by blast
  from add_pupil_ok [OF hear_ok(1) [OF ok q(1)]] q(2) show "register_ok t" by (cases "parse_person l") (auto split: prod.splits)
next
  assume "spec_add_course r = Done u t"
  then obtain l q where q: "hear_line r = Done l q"
    "(let (code, name) = parse_course l in change (\<lambda>r. r\<lparr>subjects := subjects r @ [\<lparr>su_name = name, su_code = code, su_members = []\<rparr>]\<rparr>)) q = Done u t"
    unfolding spec_add_course_def seq_Done by blast
  from add_subject_ok [OF hear_ok(1) [OF ok q(1)]] q(2) show "register_ok t" by (cases "parse_course l") auto
qed

lemma spec_select_ok:
  assumes ok: "register_ok r"
  shows "spec_select_student r = Done u t \<Longrightarrow> register_ok t" "spec_select_course r = Done u t \<Longrightarrow> register_ok t"
proof -
  assume "spec_select_student r = Done u t"
  then obtain l q where q: "hear_line r = Done l q"
    "(case parse_person l of None \<Rightarrow> throw | Some (name, ID) \<Rightarrow> seq (asks (\<lambda>r. first_index (\<lambda>p. p_ID p = ID) (pupils r))) (\<lambda>found.
         case found of None \<Rightarrow> check (Inl MissingReturn) | Some i \<Rightarrow> moves (ChosenStudent i))) q = Done u t"
    unfolding spec_select_student_def seq_Done by blast
  from hear_ok(1) [OF ok q(1)] q(2) show "register_ok t"
    by (cases "parse_person l") (auto simp: moves_def split: option.splits)
next
  assume "spec_select_course r = Done u t"
  then obtain l q where q: "hear_line r = Done l q"
    "(let (code, name) = parse_course l in seq (asks (\<lambda>r. first_index (\<lambda>c. su_code c = code) (subjects r))) (\<lambda>found.
       case found of None \<Rightarrow> check (Inl MissingReturn) | Some i \<Rightarrow> moves (ChosenCourse i))) q = Done u t"
    unfolding spec_select_course_def seq_Done by blast
  from hear_ok(1) [OF ok q(1)] q(2) show "register_ok t"
    by (cases "parse_course l") (auto simp: moves_def split: option.splits)
qed

lemma spec_delete_ok:
  assumes "register_ok r" "seq (spec_delete_student i) (\<lambda>u. moves m) r = Done u t" "i < length (pupils r)" "first_with_ID (pupils r) i"
  shows "register_ok t"
  using assms delete_pupil_ok [OF assms(1,3,4)]
  by (auto simp: spec_delete_student_def seq_Done moves_def split: if_splits)

lemma spec_delete_course_ok:
  assumes "register_ok r" "seq (spec_delete_course i) (\<lambda>u. moves m) r = Done u t" "i < length (subjects r)"
  shows "register_ok t"
  using assms delete_subject_ok [OF assms(1,3)]
  by (auto simp: spec_delete_course_def seq_Done moves_def split: if_splits)

lemma spec_enrol_ok:
  assumes ok: "register_ok r" and e: "spec_enrol i r = Done u t" and i: "i < length (pupils r)" "first_with_ID (pupils r) i"
  shows "register_ok t"
proof -
  let ?av = "available (pupils r ! i) (subjects r)"
  let ?G = "\<lambda>n. if n = 0 then ret () else if 1 \<le> n \<and> nat n \<le> length ?av then change (take_subject i (?av ! (nat n - 1))) else check (Inl OutOfBounds)"
  obtain ls where "seq (print_out ls) (\<lambda>u. seq hear_choice ?G) r = Done u t" using e by (simp add: spec_enrol_def split: if_splits)
  then obtain q0 n q where q0: "print_out ls r = Done () q0" "hear_choice q0 = Done n q" "?G n q = Done u t" by (auto simp: seq_Done)
  have n: "pupils q = pupils r" "subjects q = subjects r" using say_Done [OF q0(1)] hear_Done(1) [OF q0(2)] by simp_all
  have q: "register_ok q" by (rule same_ok [OF ok n])
  show ?thesis
  proof (cases "n = 0")
    case False
    then have h: "1 \<le> n" "nat n \<le> length ?av" "t = take_subject i (?av ! (nat n - 1)) q" using q0(3) by (auto split: if_splits)
    then have "?av ! (nat n - 1) \<in> set ?av" by (intro nth_mem) auto
    with take_subject_ok [OF q, of i] i n(1,2) h(3) show ?thesis by simp
  qed (use q0(3) q in simp)
qed

lemma spec_drop_ok:
  assumes ok: "register_ok r" and e: "spec_drop i r = Done u t" and i: "i < length (pupils r)"
  shows "register_ok t"
proof -
  let ?G = "\<lambda>n. if n = 0 then ret () else if 1 \<le> n \<and> nat n < length (p_taken (pupils r ! i)) then change (drop_subject i (nat n - 1)) else check (Inl NullDeref)"
  obtain ls where "seq (print_out ls) (\<lambda>u. seq hear_choice ?G) r = Done u t" using e by (simp add: spec_drop_def)
  then obtain q0 n q where q0: "print_out ls r = Done () q0" "hear_choice q0 = Done n q" "?G n q = Done u t" by (auto simp: seq_Done)
  have n: "pupils q = pupils r" "subjects q = subjects r" using say_Done [OF q0(1)] hear_Done(1) [OF q0(2)] by simp_all
  have "register_ok q" by (rule same_ok [OF ok n])
  then show ?thesis using q0(3) i n drop_subject_ok [of q i] by (auto split: if_splits)
qed

lemma simple_ok:
  "register_ok q \<Longrightarrow> moves m q = Done u t \<Longrightarrow> register_ok t" "register_ok q \<Longrightarrow> print_out ls q = Done u t \<Longrightarrow> register_ok t"
  "register_ok q \<Longrightarrow> ret () q = Done u t \<Longrightarrow> register_ok t"
  by (auto simp: moves_def print_out_def)

lemma spec_step_ok:
  assumes ok: "register_ok r" and sel: "selection_ok r" and e: "spec_step r = Done u t"
  shows "register_ok t"
proof (cases "r_menu r")
  case MainMenu
  show ?thesis
    by (rule spec_turn_ok [OF ok e [unfolded spec_step_def MainMenu menu.case]])
      (simp del: code_runs split: if_splits; blast dest: simple_ok)
next
  case StudentMenu
  show ?thesis
    by (rule spec_turn_ok [OF ok e [unfolded spec_step_def StudentMenu menu.case]])
      (simp del: code_runs split: if_splits; blast dest: simple_ok spec_add_ok spec_select_ok)
next
  case CourseMenu
  show ?thesis
    by (rule spec_turn_ok [OF ok e [unfolded spec_step_def CourseMenu menu.case]])
      (simp del: code_runs split: if_splits; blast dest: simple_ok spec_add_ok spec_select_ok)
next
  case (ChosenStudent i)
  show ?thesis
  proof (rule spec_turn_ok [OF ok e [unfolded spec_step_def ChosenStudent menu.case]], goal_cases)
    case (1 n q)
    then have i: "i < length (pupils q)" "first_with_ID (pupils q) i" using sel ChosenStudent by (simp_all add: selection_ok_def)
    note q = spec_delete_ok [OF 1(1) _ i] spec_enrol_ok [OF 1(1) _ i] spec_drop_ok [OF 1(1) _ i(1)] simple_ok [OF 1(1)]
    from 1(4) show ?case by (simp del: code_runs split: if_splits) (blast dest: q)+
  qed
next
  case (ChosenCourse k)
  show ?thesis
  proof (rule spec_turn_ok [OF ok e [unfolded spec_step_def ChosenCourse menu.case]], goal_cases)
    case (1 n q)
    then have k: "k < length (subjects q)" using sel ChosenCourse by (simp add: selection_ok_def)
    note q = spec_delete_course_ok [OF 1(1) _ k] simple_ok [OF 1(1)]
    from 1(4) show ?case by (simp del: code_runs split: if_splits) (blast dest: q)+
  qed
next
  case Ended
  with e ok show ?thesis by (auto simp: spec_step_def)
qed

end
