(* ===== verification/School_Properties.thy ===== *)
theory School_Properties
  imports School_Refinement School_Register
begin

text \<open>
  What the school management does in every run: the refinement of the register, the room for the
  available courses, and the inputs on which it goes wrong.
\<close>

section \<open>Reachable states\<close>

inductive school_reachable :: "string \<Rightarrow> school \<Rightarrow> bool" for input where
  start: "school_reachable input (new_school input)"
| menu_turn: "school_reachable input s \<Longrightarrow> s_menu s \<noteq> Ended \<Longrightarrow> school_step s = Done u t \<Longrightarrow> school_reachable input t"

definition new_register :: "string \<Rightarrow> register" where
  "new_register input = \<lparr>pupils = [], subjects = [], r_choice = None, r_menu = MainMenu,
     r_console = shows_on [''Main_menu'' @ nl] (new_console input)\<rparr>"

lemma start_ok: "school_ok (new_school input)" "view (new_school input) = new_register input"
  by (simp_all add: school_ok_def objects_ok_def new_school_def menu_ok_def separate_def view_def pupils_of_def subjects_of_def
      menu_of_def new_register_def)

lemma selection_view: "school_ok s \<Longrightarrow> selection_ok (view s)"
proof (cases "s_menu s")
  case (ChosenStudent a)
  assume ok: "school_ok s"
  obtain i where i: "menu_of s = ChosenStudent i" "i < length (students_at s)"
    "first_index (\<lambda>p. p_ID p = snd (person_of s a)) (pupils_of s) = Some i" "snd (person_of s a) = p_ID (pupils_of s ! i)"
    by (rule chosen_student [OF ok ChosenStudent])
  then show ?thesis by (auto simp: selection_ok_def first_with_ID_def first_index_Some)
next
  case (ChosenCourse c)
  assume ok: "school_ok s"
  obtain i where "menu_of s = ChosenCourse i" "i < length (courses_at s)" by (rule chosen_course [OF ok ChosenCourse])
  then show ?thesis by (simp add: selection_ok_def)
qed (simp_all add: selection_ok_def menu_of_def)

lemma school_reachable_ok: "school_reachable input s \<Longrightarrow> s_menu s \<noteq> Ended \<Longrightarrow> school_ok s \<and> register_ok (view s)"
proof (induction rule: school_reachable.induct)
  case start
  show ?case by (simp add: start_ok) (simp add: register_ok_def pupils_ok_def new_register_def)
next
  case (menu_turn s u t)
  then have ok: "school_ok s" "register_ok (view s)" by auto
  have "agreed (Done u t) (spec_step (view s))" using school_refines [OF ok(1) menu_turn.hyps(2)] menu_turn.hyps(3) by simp
  then have t: "school_ok t" "spec_step (view s) = Done () (view t)" using menu_turn.prems by (auto simp: agreed_def)
  with spec_step_ok [OF ok(2) selection_view [OF ok(1)] t(2)] show ?case by simp
qed

section \<open>Runs\<close>

fun run_spec :: "nat \<Rightarrow> register \<Rightarrow> (register, unit) outcome option" where
  "run_spec 0 r = (if r_menu r = Ended then Some (Done () r) else None)"
| "run_spec (Suc n) r = (if r_menu r = Ended then Some (Done () r) else
     (case spec_step r of Done u q \<Rightarrow> run_spec n q | x \<Rightarrow> Some x))"

lemma menu_of_Ended: "menu_of s = Ended \<longleftrightarrow> s_menu s = Ended"
  by (cases "s_menu s") (simp_all add: menu_of_def)

lemma ended_agreed: "s_menu s = Ended \<Longrightarrow> r_menu r = Ended \<Longrightarrow> r_console r = s_console s \<Longrightarrow> agreed (Done u s) (Done () r)"
  by (simp add: agreed_def)

lemma run_refines:
  assumes "if s_menu s = Ended then r_menu r = Ended \<and> r_console r = s_console s else school_ok s \<and> r = view s"
  shows "case run_school n s of None \<Rightarrow> run_spec n r = None | Some x \<Rightarrow> \<exists>y. run_spec n r = Some y \<and> agreed x y"
  using assms
proof (induction n arbitrary: s r)
  case 0
  then show ?case by (auto simp: menu_of_Ended ended_agreed split: if_splits)
next
  case (Suc n)
  show ?case
  proof (cases "s_menu s = Ended")
    case True
    with Suc.prems show ?thesis by (simp add: ended_agreed)
  next
    case False
    with Suc.prems have ok: "school_ok s" "r = view s" by simp_all
    have A: "agreed (school_step s) (spec_step r)" using school_refines [OF ok(1) False] ok(2) by simp
    have r: "r_menu r \<noteq> Ended" using False ok(2) by (simp add: menu_of_Ended)
    show ?thesis
    proof (cases "school_step s")
      case (Done u t)
      with A obtain q where q: "spec_step r = Done () q" "r_console q = s_console t"
        "if s_menu t = Ended then r_menu q = Ended else school_ok t \<and> q = view t" by (auto simp: agreed_def)
      then have "if s_menu t = Ended then r_menu q = Ended \<and> r_console q = s_console t else school_ok t \<and> q = view t" by (auto split: if_splits)
      from Suc.IH [OF this] show ?thesis using False r Done q(1) by (cases "run_school n t") auto
    next
      case (Undef e)
      with A obtain f where "spec_step r = Undef f" by (auto simp: agreed_def)
      with False r Undef show ?thesis by simp
    next
      case (Thrown t)
      with A have "spec_step r = Thrown (view t)" by (simp add: agreed_def)
      with False r Thrown show ?thesis by simp
    qed
  qed
qed

text \<open>
  C22. Every run of the program, with its heap of objects and growing arrays of pointers, is a run of
  the register, which has none: after any number of turns either both are still running, or both
  end normally with the same output, or both throw, or both are undefined.
\<close>

theorem school_run_refines:
  "case run_school n (new_school input) of
     None \<Rightarrow> run_spec n (new_register input) = None
   | Some x \<Rightarrow> \<exists>y. run_spec n (new_register input) = Some y \<and> agreed x y"
  using start_ok by (intro run_refines) (simp add: new_school_def)

section \<open>The available courses\<close>

lemma map_filter_nth: "map (\<lambda>k. xs ! k) (filter (\<lambda>k. P (xs ! k)) [0..<length xs]) = filter P xs"
proof -
  have "filter P (map (\<lambda>k. xs ! k) [0..<length xs]) = map (\<lambda>k. xs ! k) (filter (P \<circ> (\<lambda>k. xs ! k)) [0..<length xs])"
    by (rule filter_map)
  then show ?thesis by (simp add: map_nth comp_def)
qed

text \<open>
  In every reachable state with a selected student the array for the available courses has room
  for them: \<open>list_courses\<close> neither throws nor writes outside it, prints exactly the courses whose
  code the student has not taken, in their order, and returns them in that order. This although
  the code subtracts the number of taken courses from that of all courses, and IDs and codes may
  be shared.
\<close>

theorem list_courses_fits:
  assumes "school_reachable input s" "s_menu s = ChosenStudent a"
  defines "A \<equiv> filter (\<lambda>c. fst (key_of s c) \<notin> (\<lambda>d. fst (key_of s d)) ` set (courses_of s a)) (courses_at s)"
  shows "\<exists>m. list_courses a s = Done (map Ref A @ replicate m Unset) (show_text (numbered (map (key_of s) A)) s)"
proof -
  have ok: "school_ok s" "register_ok (view s)" using school_reachable_ok [OF assms(1)] assms(2) by auto
  obtain i where i: "i < length (students_at s)" "students_at s ! i = a" by (rule chosen_student [OF ok(1) assms(2)])
  then have mem: "a \<in> set (students_at s)" by auto
  let ?p = "pupils_of s ! i"
  have taken: "p_taken ?p = map (key_of s) (courses_of s a)" using i by (simp add: pupils_of_def pupil_of_def)
  have "available ?p (subjects_of s) = filter (\<lambda>k. fst (key_of s (courses_at s ! k)) \<notin> (\<lambda>d. fst (key_of s d)) ` set (courses_of s a)) [0..<length (courses_at s)]"
    unfolding available_def by (auto intro!: filter_cong simp: taken subjects_of_def subject_of_def image_image)
  then have A: "map (\<lambda>k. courses_at s ! k) (available ?p (subjects_of s)) = A"
    unfolding A_def using map_filter_nth [of "courses_at s" "\<lambda>c. fst (key_of s c) \<notin> (\<lambda>d. fst (key_of s d)) ` set (courses_of s a)"] by simp
  have "length (p_taken ?p) \<le> length (subjects_of s)" "length (available ?p (subjects_of s)) \<le> length (subjects_of s) - length (p_taken ?p)"
    using available_fits [OF ok(2), of i] i(1) by simp_all
  moreover have "length A = length (available ?p (subjects_of s))" using A by (metis length_map)
  ultimately show ?thesis using list_courses_spec(3) [OF ok(1) mem i, unfolded A] by auto
qed

section \<open>Where it goes wrong\<close>

text \<open>
  Deleting a selected student is defined exactly when the student is one of the last two: the
  loop goes on after the deletion, and compares the next student with the deleted one. The
  student is taken off the courses that its courses name, and out of the table.
\<close>

theorem delete_student_defined:
  assumes "school_reachable input s" "s_menu s = ChosenStudent a"
  shows "\<exists>i < length (students_at s). students_at s ! i = a \<and>
    (if i + 2 < length (students_at s) then delete_student a s = Undef UseAfterFree
     else \<exists>t. delete_student a s = Done () t \<and> pupils_of t = remove_nth i (pupils_of s) \<and>
       subjects_of t = fold (unlist (p_ID (pupils_of s ! i))) (map fst (p_taken (pupils_of s ! i))) (subjects_of s))"
proof -
  have ok: "school_ok s" using school_reachable_ok [OF assms(1)] assms(2) by auto
  obtain i where i: "i < length (students_at s)" "students_at s ! i = a"
    "first_index (\<lambda>p. p_ID p = snd (person_of s a)) (pupils_of s) = Some i" "snd (person_of s a) = p_ID (pupils_of s ! i)"
    by (rule chosen_student [OF ok assms(2)])
  have "objects_ok s" using ok by (simp add: school_ok_def)
  note D = delete_student_effect [OF this i(3,2)]
  show ?thesis using D i by (intro exI [of _ i]) (auto simp: delete_student_def does_def)
qed

lemma failed_turn:
  assumes "school_ok s" "s_menu s = MainMenu" "s_choice s = Some 3" "c_fail (s_console s)"
  shows "\<exists>t. school_step s = Done () t \<and> school_ok t \<and> s_menu t = MainMenu \<and> s_choice t = Some 3 \<and> c_fail (s_console t)"
proof -
  let ?k = "shows_on [''>> ''] (shows_on main_menu (s_console s))"
  let ?s = "io (Some 3) ?k s"
  have fail: "c_fail ?k" using assms(4) by (simp add: shows_on_def)
  have "ask_choice (show_text main_menu s) = Done 3 ?s"
    using failed_reads [OF fail] assms(3) by (simp add: ask_choice_def show_text_def io_def)
  then have step: "school_step s = list_all_students ?s" using assms(2) by (simp add: school_step_def menu_turn_def seq_def)
  have "school_ok ?s" using assms(1) by (simp add: school_ok_def in_signed_32)
  moreover have objs: "objects_ok ?s" using assms(1) by (simp add: school_ok_def)
  obtain ls where "list_loop (\<lambda>i. student_line ?s) (all_students ?s) 0 = Inr ls"
    using list_students_live [OF objects_okD(1) [OF objs] live_tables(1) [OF objs]] by blast
  then have ls: "list_all_students ?s = Done () (show_text ls ?s)" by (simp add: list_all_students_def prints_def does_def)
  ultimately show ?thesis
    using step fail assms(2) by (intro exI [of _ "show_text ls ?s"]) (simp add: io_ops shows_on_def school_ok_def)
qed

lemma failed_runs: "school_ok s \<Longrightarrow> s_menu s = MainMenu \<Longrightarrow> s_choice s = Some 3 \<Longrightarrow> c_fail (s_console s) \<Longrightarrow> run_school n s = None"
proof (induction n arbitrary: s)
  case (Suc n)
  from failed_turn [OF Suc.prems] Suc show ?case by auto
qed simp

text \<open>
  The program does not notice the end of its input: a failed read leaves the last choice in the
  variable, and the main menu lists the students for ever.
\<close>

theorem end_of_input_never_ends: "run_school n (new_school ''3'') = None"
proof (cases n)
  case (Suc m)
  let ?s = "new_school ''3''"
  obtain t where t: "school_step ?s = Done () t" "s_menu t = MainMenu" "s_choice t = Some 3" "c_fail (s_console t)"
    by (simp add: school_step_def new_school_def menu_turn_def seq_def ask_choice_def show_text_def shows_on_def new_console_def extract_int_def good_def
        skip_ws_def isspace_def scan_int_def limit_def isdigit_def digit_val_def int_limit_def in_signed_32 ignore_char_def list_all_students_def prints_def does_def
        list_loop.simps [of _ _ 0] new_dyn_def Let_def)
  have "school_ok t" using school_refines [OF start_ok(1), of "''3''"] t(1,2) by (simp add: new_school_def agreed_def)
  from failed_runs [OF this t(2-4)] Suc t(1) show ?thesis by (simp add: new_school_def)
qed (simp add: new_school_def)

text \<open>The lines of a session, separated by slashes.\<close>

definition session_input :: "string \<Rightarrow> string" where
  "session_input t = map (\<lambda>c. if c = CHR ''/'' then LF else c) t"

text \<open>
  Sessions that end in undefined behaviour: deleting the first of three students, dropping the only
  course a student has, selecting a student that does not exist, and no input at all.
\<close>

theorem school_faults:
  "run_school 6 (new_school (session_input ''1/1/a 1/1/b 2/1/c 3/2/a 1/1/'')) = Some (Undef UseAfterFree) \<and>
   run_school 8 (new_school (session_input ''2/1/M x/0/1/1/a 1/2/a 1/3/1/4/1/'')) = Some (Undef NullDeref) \<and>
   run_school 3 (new_school (session_input ''1/2/a 1/'')) = Some (Undef MissingReturn) \<and>
   run_school 1 (new_school []) = Some (Undef UninitRead)"
  by (intro conjI; code_simp)

section \<open>Witnesses\<close>

fun after_turns :: "nat \<Rightarrow> school \<Rightarrow> school" where
  "after_turns 0 s = s"
| "after_turns (Suc n) s = (if s_menu s = Ended then s else case school_step s of Done u t \<Rightarrow> after_turns n t | r \<Rightarrow> s)"

lemma reachable_after_turns: "school_reachable input s \<Longrightarrow> school_reachable input (after_turns n s)"
  by (induction n arbitrary: s) (auto intro: school_reachable.menu_turn split: outcome.splits)

definition enrolling :: school where
  "enrolling = after_turns 6 (new_school (session_input ''2/1/M x/0/1/1/a 1/2/a 1/''))"

lemma enrolling_reachable: "school_reachable (session_input ''2/1/M x/0/1/1/a 1/2/a 1/'') enrolling"
  unfolding enrolling_def by (intro reachable_after_turns school_reachable.start)

lemma enrolling_menu: "s_menu enrolling = ChosenStudent 0"
  by code_simp

theorem list_courses_fits_witness: "\<exists>av t. list_courses 0 enrolling = Done av t"
  using list_courses_fits [OF enrolling_reachable enrolling_menu] by blast

theorem delete_student_defined_witness: "\<exists>i < length (students_at enrolling). students_at enrolling ! i = 0"
  using delete_student_defined [OF enrolling_reachable enrolling_menu] by blast

end
