(* ===== verification/Robots.thy ===== *)
theory Robots
  imports C_Format
begin

text \<open>
  The robot game (Object Oriented Programming Spring/PA4/PA4.cpp). Robots are placed at random on
  a grid of 10 by 10 pointers, walk at random, fight when they meet, and the last one wins.

  An object is its number in the list \<open>robots\<close> (in the order of allocation; none is ever
  deleted), with the class it was made as, which selects the virtual \<open>getType\<close> and \<open>getDamage\<close>;
  its member \<open>grid\<close> always points to the one grid of main and is left out. What \<open>rand ()\<close> returns
  is taken from the list \<open>draws\<close>. A run that has used up the draws it was given \<open>Waits\<close> for more,
  so a statement about all lists of draws covers every prefix of every run.
\<close>

datatype robot_class = Optimusprime | Robocop | Roomba | Bulldozer | Kamikaze

record robot =
  class_of :: robot_class
  r_name :: string
  r_x :: int
  r_y :: int
  moved :: bool
  r_type :: int
  strength :: int
  hitpoints :: int

record game =
  cells :: "nat \<Rightarrow> nat \<Rightarrow> nat option"
  robots :: "robot list"
  alive :: int
  draws :: "nat list"
  said :: "string list"

definition GSIZE :: nat where "GSIZE = 10"
definition ROBOTS :: nat where "ROBOTS = 5"

section \<open>Running code on the game\<close>

datatype 'a outcome = Waits | Fails ub | Gives 'a game

type_synonym 'a act = "game \<Rightarrow> 'a outcome"

definition give :: "'a \<Rightarrow> 'a act" where
  "give a g = Gives a g"

definition andthen :: "'a act \<Rightarrow> ('a \<Rightarrow> 'b act) \<Rightarrow> 'b act" where
  "andthen m f g = (case m g of Waits \<Rightarrow> Waits | Fails e \<Rightarrow> Fails e | Gives a h \<Rightarrow> f a h)"

definition checked :: "'a res \<Rightarrow> 'a act" where
  "checked r g = (case r of Inl e \<Rightarrow> Fails e | Inr a \<Rightarrow> Gives a g)"

definition modify :: "(game \<Rightarrow> game) \<Rightarrow> unit act" where
  "modify f g = Gives () (f g)"

definition inspect :: "(game \<Rightarrow> 'a) \<Rightarrow> 'a act" where
  "inspect f g = Gives (f g) g"

definition announce :: "string \<Rightarrow> unit act" where
  "announce line = modify (\<lambda>g. g\<lparr>said := said g @ [line]\<rparr>)"

text \<open>\<open>rand ()\<close>, which is not negative, and \<open>rand () % n\<close>.\<close>

definition rand :: "nat act" where
  "rand g = (case draws g of [] \<Rightarrow> Waits | d # ds \<Rightarrow> Gives d (g\<lparr>draws := ds\<rparr>))"

definition rand_mod :: "int \<Rightarrow> int act" where
  "rand_mod n = andthen rand (\<lambda>d. checked (if n = 0 then Inl DivisionByZero else Inr (int d mod \<bar>n\<bar>)))"

section \<open>The grid and the objects\<close>

definition on_grid :: "int \<Rightarrow> int \<Rightarrow> bool" where
  "on_grid x y \<longleftrightarrow> 0 \<le> x \<and> x < int GSIZE \<and> 0 \<le> y \<and> y < int GSIZE"

definition cell :: "int \<Rightarrow> int \<Rightarrow> nat option act" where
  "cell x y g = (if on_grid x y then Gives (cells g (nat x) (nat y)) g else Fails OutOfBounds)"

definition put_cell :: "int \<Rightarrow> int \<Rightarrow> nat option \<Rightarrow> (nat \<Rightarrow> nat \<Rightarrow> nat option) \<Rightarrow> nat \<Rightarrow> nat \<Rightarrow> nat option" where
  "put_cell x y r c = c(nat x := (c (nat x))(nat y := r))"

lemma put_cell_at: "put_cell x y r c i j = (if i = nat x \<and> j = nat y then r else c i j)"
  by (simp add: put_cell_def)

definition setAt :: "int \<Rightarrow> int \<Rightarrow> nat option \<Rightarrow> unit act" where
  "setAt x y r g =
     (if on_grid x y then Gives () (g\<lparr>cells := put_cell x y r (cells g)\<rparr>) else Fails OutOfBounds)"

definition getAt :: "int \<Rightarrow> int \<Rightarrow> nat option act" where
  "getAt x y = (if on_grid x y then cell x y else give None)"

text \<open>A cell whose pointer is followed.\<close>

definition robot_at :: "int \<Rightarrow> int \<Rightarrow> nat act" where
  "robot_at x y = andthen (cell x y) (\<lambda>c. checked (case c of None \<Rightarrow> Inl NullDeref | Some r \<Rightarrow> Inr r))"

definition object :: "nat \<Rightarrow> robot act" where
  "object r g = checked (rd (robots g) r) g"

definition change_object :: "nat \<Rightarrow> (robot \<Rightarrow> robot) \<Rightarrow> unit act" where
  "change_object r f g =
     (if r < length (robots g) then Gives () (g\<lparr>robots := (robots g)[r := f (robots g ! r)]\<rparr>)
      else Fails OutOfBounds)"

text \<open>The constructors with coordinates: the new object enters itself in the grid.\<close>

definition new_robot :: "robot_class \<Rightarrow> int \<Rightarrow> int \<Rightarrow> nat act" where
  "new_robot k x y = andthen (inspect (\<lambda>g. length (robots g))) (\<lambda>r.
     andthen (modify (\<lambda>g. g\<lparr>robots := robots g @ [\<lparr>class_of = k, r_name = '' '', r_x = x, r_y = y,
       moved = False, r_type = -1, strength = 0, hitpoints = 0\<rparr>]\<rparr>)) (\<lambda>_.
     andthen (setAt x y (Some r)) (\<lambda>_. give r)))"

definition setStrength :: "nat \<Rightarrow> int \<Rightarrow> unit act" where
  "setStrength r n = change_object r (\<lambda>o'. o'\<lparr>strength := n\<rparr>)"

definition setHitpoints :: "nat \<Rightarrow> int \<Rightarrow> unit act" where
  "setHitpoints r n = change_object r (\<lambda>o'. o'\<lparr>hitpoints := n\<rparr>)"

definition setType :: "nat \<Rightarrow> int \<Rightarrow> unit act" where
  "setType r n = change_object r (\<lambda>o'. o'\<lparr>r_type := n\<rparr>)"

definition setName :: "nat \<Rightarrow> string \<Rightarrow> unit act" where
  "setName r s = change_object r (\<lambda>o'. o'\<lparr>r_name := s\<rparr>)"

text \<open>The constants of the types, the \<open>getType\<close> of each class, and the virtual call.\<close>

definition O_type :: int where "O_type = 0"
definition RP_type :: int where "RP_type = 1"
definition RA_type :: int where "RA_type = 2"
definition B_type :: int where "B_type = 3"
definition K_type :: int where "K_type = 4"

definition Optimusprime_getType :: int where "Optimusprime_getType = O_type"
definition Robocop_getType :: int where "Robocop_getType = RP_type"
definition Roomba_getType :: int where "Roomba_getType = RA_type"
definition Bulldozer_getType :: int where "Bulldozer_getType = B_type"
definition Kamikaze_getType :: int where "Kamikaze_getType = K_type"

lemmas type_defs = O_type_def RP_type_def RA_type_def B_type_def K_type_def Optimusprime_getType_def
  Robocop_getType_def Roomba_getType_def Bulldozer_getType_def Kamikaze_getType_def

fun getType :: "robot_class \<Rightarrow> int" where
  "getType Optimusprime = Optimusprime_getType"
| "getType Robocop = Robocop_getType"
| "getType Roomba = Roomba_getType"
| "getType Bulldozer = Bulldozer_getType"
| "getType Kamikaze = Kamikaze_getType"

lemma K_iff: "getType k = K_type \<longleftrightarrow> k = Kamikaze"
  by (cases k) (simp_all add: type_defs)

definition type_of :: "nat \<Rightarrow> int act" where
  "type_of r = andthen (object r) (\<lambda>o'. give (getType (class_of o')))"

section \<open>Damage and hits\<close>

definition random_damage :: "int \<Rightarrow> int act" where
  "random_damage n = andthen (rand_mod n) (\<lambda>d. checked (add_int d 1))"

definition Humanic_getDamage :: "int \<Rightarrow> int act" where
  "Humanic_getDamage n = andthen (random_damage n) (\<lambda>damage.
     andthen (rand_mod 10) (\<lambda>d. if d = 0 then checked (add_int damage 50) else give damage))"

definition Optimusprime_getDamage :: "int \<Rightarrow> int act" where
  "Optimusprime_getDamage n = andthen (random_damage n) (\<lambda>damage.
     andthen (rand_mod 10) (\<lambda>d.
     andthen (if d = 0 then checked (add_int damage 50) else give damage) (\<lambda>damage'.
     andthen (rand_mod 100) (\<lambda>e. if e < 15 then checked (fits 32 (damage' * 2)) else give damage'))))"

definition Roomba_getDamage :: "int \<Rightarrow> int act" where
  "Roomba_getDamage n = andthen (random_damage n) (\<lambda>damage.
     andthen (random_damage n) (\<lambda>d. checked (add_int damage d)))"

definition Bulldozer_getDamage :: "int \<Rightarrow> int act" where
  "Bulldozer_getDamage n = random_damage n"

definition Kamikaze_getDamage :: "int \<Rightarrow> int act" where
  "Kamikaze_getDamage p = give p"

declare Bulldozer_getDamage_def [simp] Kamikaze_getDamage_def [simp]

text \<open>The virtual \<open>getDamage\<close>.\<close>

definition getDamage :: "robot \<Rightarrow> int act" where
  "getDamage o' = (case class_of o' of
     Optimusprime \<Rightarrow> Optimusprime_getDamage (strength o')
   | Robocop \<Rightarrow> Humanic_getDamage (strength o')
   | Roomba \<Rightarrow> Roomba_getDamage (strength o')
   | Bulldozer \<Rightarrow> Bulldozer_getDamage (strength o')
   | Kamikaze \<Rightarrow> Kamikaze_getDamage (hitpoints o'))"

definition hits_line :: "robot \<Rightarrow> robot \<Rightarrow> int \<Rightarrow> string" where
  "hits_line a v d = r_name a @ ''('' @ fmt_d (hitpoints a) @ '') hits '' @ r_name v @ ''('' @
     fmt_d (hitpoints v) @ '') with '' @ fmt_d d"

definition died_line :: "string \<Rightarrow> string" where
  "died_line n = ''The '' @ n @ '' is died''"

definition hitMessage :: "nat \<Rightarrow> nat \<Rightarrow> bool \<Rightarrow> bool act" where
  "hitMessage a v isDead = andthen (object a) (\<lambda>attacker.
     andthen (getDamage attacker) (\<lambda>damage.
     andthen (object v) (\<lambda>victim.
     andthen (announce (hits_line attacker victim damage)) (\<lambda>_.
     andthen (checked (sub_int (hitpoints victim) damage)) (\<lambda>new_hitpoints.
     andthen (setHitpoints v new_hitpoints) (\<lambda>_.
       if 0 < new_hitpoints
       then andthen (announce (''The new hitpoints of '' @ r_name victim @ '' is '' @ fmt_d new_hitpoints))
              (\<lambda>_. give isDead)
       else andthen (announce (died_line (r_name victim))) (\<lambda>_. give True)))))))"

section \<open>How many draws code needs\<close>

text \<open>
  The loops of the game go on only after a draw. Draws are only ever taken from the front
  (\<open>consumes 0\<close>), and \<open>consumes 1\<close> says that at least one is taken.
\<close>

definition consumes :: "nat \<Rightarrow> 'a act \<Rightarrow> bool" where
  "consumes n m \<longleftrightarrow> (\<forall>g a h. m g = Gives a h \<longrightarrow> length (draws h) + n \<le> length (draws g))"

lemma andthen_cong [fundef_cong]:
  "m g = m' g' \<Longrightarrow> (\<And>a h. m' g' = Gives a h \<Longrightarrow> f a h = f' a h) \<Longrightarrow> andthen m f g = andthen m' f' g'"
  by (simp add: andthen_def split: outcome.split)

lemma andthen_Gives:
  "andthen m f g = Gives b k \<longleftrightarrow> (\<exists>a h. m g = Gives a h \<and> f a h = Gives b k)"
  by (simp add: andthen_def split: outcome.split)

lemma basic_Gives:
  "give a g = Gives b h \<longleftrightarrow> b = a \<and> h = g"
  "checked e g = Gives b h \<longleftrightarrow> e = Inr b \<and> h = g"
  "inspect p g = Gives b h \<longleftrightarrow> b = p g \<and> h = g"
  "modify t g = Gives u h \<longleftrightarrow> h = t g"
  "announce l g = Gives u h \<longleftrightarrow> h = g\<lparr>said := said g @ [l]\<rparr>"
  "rand g = Gives d h \<longleftrightarrow> (\<exists>ds. draws g = d # ds \<and> h = g\<lparr>draws := ds\<rparr>)"
  "cell x y g = Gives c h \<longleftrightarrow> on_grid x y \<and> c = cells g (nat x) (nat y) \<and> h = g"
  "setAt x y c g = Gives u h \<longleftrightarrow> on_grid x y \<and> h = g\<lparr>cells := put_cell x y c (cells g)\<rparr>"
  "object r g = Gives ob h \<longleftrightarrow> r < length (robots g) \<and> ob = robots g ! r \<and> h = g"
  "change_object r upd g = Gives u h \<longleftrightarrow>
     r < length (robots g) \<and> h = g\<lparr>robots := (robots g)[r := upd (robots g ! r)]\<rparr>"
  by (auto simp: give_def checked_def inspect_def modify_def announce_def rand_def cell_def setAt_def
      object_def change_object_def rd_def split: sum.split list.split)

lemma robot_at_Gives:
  "robot_at x y g = Gives r h \<longleftrightarrow> on_grid x y \<and> cells g (nat x) (nat y) = Some r \<and> h = g"
  by (auto simp: robot_at_def andthen_Gives basic_Gives split: option.split_asm)

lemma type_of_Gives:
  "type_of r g = Gives t h \<longleftrightarrow> r < length (robots g) \<and> t = getType (class_of (robots g ! r)) \<and> h = g"
  by (auto simp: type_of_def andthen_Gives basic_Gives)

lemmas act_Gives = andthen_Gives basic_Gives robot_at_Gives type_of_Gives

lemma consumesD: "consumes n m \<Longrightarrow> m g = Gives a h \<Longrightarrow> length (draws h) + n \<le> length (draws g)"
  by (simp add: consumes_def)

lemma consumes_weaken: "consumes n m \<Longrightarrow> k \<le> n \<Longrightarrow> consumes k m"
  by (fastforce simp: consumes_def)

lemma consumes_andthen: "consumes n m \<Longrightarrow> (\<And>a. consumes 0 (f a)) \<Longrightarrow> consumes n (andthen m f)"
  unfolding consumes_def andthen_Gives by fastforce

lemma consumes_andthen_0: "consumes 0 m \<Longrightarrow> (\<And>a. consumes n (f a)) \<Longrightarrow> consumes n (andthen m f)"
  unfolding consumes_def andthen_Gives by fastforce

lemma consumes_if: "consumes n m \<Longrightarrow> consumes n m' \<Longrightarrow> consumes n (if b then m else m')"
  by simp

lemma consumes_basic:
  "consumes 0 (give a)" "consumes 0 (checked e)" "consumes 0 (inspect p)" "consumes 0 (cell x y)"
  "consumes 0 (setAt x y c)" "consumes 0 (object r)" "consumes 0 (change_object r u)"
  "consumes (Suc 0) rand" "consumes 0 (announce l)" "consumes 0 (robot_at x y)" "consumes 0 (type_of r)"
  by (auto simp: consumes_def act_Gives)

lemma consumes_rand_mod: "consumes (Suc 0) (rand_mod n)"
  unfolding rand_mod_def by (intro consumes_andthen consumes_basic)

lemma consumes_random_damage: "consumes (Suc 0) (random_damage n)"
  unfolding random_damage_def by (intro consumes_andthen consumes_basic consumes_rand_mod)

lemmas consumes_draws = consumes_weaken [OF consumes_rand_mod le0] consumes_weaken [OF consumes_random_damage le0]

lemma consumes_getDamage: "class_of a \<noteq> Kamikaze \<Longrightarrow> consumes 1 (getDamage a)"
  by (cases "class_of a")
     (auto simp: getDamage_def Optimusprime_getDamage_def Humanic_getDamage_def Roomba_getDamage_def
       intro!: consumes_andthen consumes_basic consumes_random_damage consumes_draws)

lemma consumes_getDamage_0: "consumes 0 (getDamage a)"
proof (cases "class_of a = Kamikaze")
  case True
  then show ?thesis by (simp add: getDamage_def consumes_basic)
next
  case False
  then show ?thesis by (blast intro: consumes_weaken [OF consumes_getDamage])
qed

lemma consumes_hitMessage: "consumes 0 (hitMessage a v b)"
  unfolding hitMessage_def setHitpoints_def
  by (intro consumes_andthen consumes_if consumes_basic consumes_getDamage_0)

section \<open>A fight\<close>

definition decrement :: "unit act" where
  "decrement = andthen (inspect alive) (\<lambda>n. andthen (checked (sub_int n 1)) (\<lambda>k. modify (\<lambda>g. g\<lparr>alive := k\<rparr>)))"

text \<open>
  The body of the loop of \<open>fight\<close>, in two halves: the attacker hits the victim, then the victim
  the attacker. None is a break; otherwise the loop goes on with the two flags.
\<close>

definition fight_back :: "int \<Rightarrow> int \<Rightarrow> int \<Rightarrow> int \<Rightarrow> bool \<Rightarrow> bool \<Rightarrow> (bool \<times> bool) option act" where
  "fight_back fromX fromY toX toY isDeadAt isDeadVic =
     andthen (robot_at toX toY) (\<lambda>v. andthen (robot_at fromX fromY) (\<lambda>a.
     andthen (hitMessage v a isDeadAt) (\<lambda>isDeadAt'.
     andthen (robot_at toX toY) (\<lambda>v'. andthen (type_of v') (\<lambda>t.
       if t = K_type
       then andthen (object v') (\<lambda>o'. andthen (announce (died_line (r_name o'))) (\<lambda>_.
            andthen (cell fromX fromY) (\<lambda>c. andthen (setAt toX toY c) (\<lambda>_.
            andthen (setAt fromX fromY None) (\<lambda>_. andthen decrement (\<lambda>_. give None))))))
       else if isDeadAt'
       then andthen (cell fromX fromY) (\<lambda>c.
            andthen (if c \<noteq> None then setAt fromX fromY None else give ()) (\<lambda>_.
            andthen decrement (\<lambda>_. give None)))
       else give (Some (isDeadAt', isDeadVic)))))))"

definition fight_round :: "int \<Rightarrow> int \<Rightarrow> int \<Rightarrow> int \<Rightarrow> bool \<Rightarrow> bool \<Rightarrow> (bool \<times> bool) option act" where
  "fight_round fromX fromY toX toY isDeadAt isDeadVic =
     andthen (robot_at fromX fromY) (\<lambda>a. andthen (robot_at toX toY) (\<lambda>v.
     andthen (hitMessage a v isDeadVic) (\<lambda>isDeadVic'.
     andthen (robot_at fromX fromY) (\<lambda>a'. andthen (type_of a') (\<lambda>t.
       if t = K_type
       then andthen (object a') (\<lambda>o'. andthen (announce (died_line (r_name o'))) (\<lambda>_.
            andthen (setAt fromX fromY None) (\<lambda>_. andthen decrement (\<lambda>_. give None))))
       else if isDeadVic'
       then andthen (cell fromX fromY) (\<lambda>c.
            andthen (if c \<noteq> None then andthen (setAt toX toY c) (\<lambda>_. setAt fromX fromY None) else give ()) (\<lambda>_.
            andthen decrement (\<lambda>_. give None)))
       else fight_back fromX fromY toX toY isDeadAt isDeadVic')))))"

text \<open>A round after which the loop goes on has taken a draw: its attacker is no kamikaze.\<close>

definition same_classes :: "game \<Rightarrow> game \<Rightarrow> bool" where
  "same_classes g h \<longleftrightarrow> cells h = cells g \<and> map class_of (robots h) = map class_of (robots g)"

lemma rand_mod_frame: "rand_mod n g = Gives a h \<Longrightarrow> \<exists>ds. h = g\<lparr>draws := ds\<rparr>"
  by (auto simp: rand_mod_def act_Gives)

lemma random_damage_frame: "random_damage n g = Gives a h \<Longrightarrow> \<exists>ds. h = g\<lparr>draws := ds\<rparr>"
  by (auto simp: random_damage_def act_Gives dest!: rand_mod_frame)

lemma draws_same: "\<exists>ds. g = g\<lparr>draws := ds\<rparr>"
  by (rule exI [of _ "draws g"]) simp

lemma getDamage_frame: "getDamage a g = Gives d h \<Longrightarrow> \<exists>ds. h = g\<lparr>draws := ds\<rparr>"
  by (cases "class_of a")
     (auto simp: getDamage_def Optimusprime_getDamage_def Humanic_getDamage_def Roomba_getDamage_def
        act_Gives draws_same split: if_splits dest!: rand_mod_frame random_damage_frame)

lemma map_same: "r < length xs \<Longrightarrow> f y = f (xs ! r) \<Longrightarrow> map f (xs[r := y]) = map f xs"
  by (metis list_update_id map_update)

lemma same_hitMessage: "hitMessage a v b g = Gives c h \<Longrightarrow> same_classes g h"
  by (auto simp: hitMessage_def act_Gives setHitpoints_def same_classes_def map_same
      split: if_splits dest!: getDamage_frame)

lemma same_class_of:
  "same_classes g h \<Longrightarrow> r < length (robots h) \<Longrightarrow> class_of (robots h ! r) = class_of (robots g ! r)"
  unfolding same_classes_def by (metis length_map nth_map)

lemma hitMessage_draws:
  assumes "hitMessage a v b g = Gives c h" and "a < length (robots g) \<Longrightarrow> class_of (robots g ! a) \<noteq> Kamikaze"
  shows "length (draws h) < length (draws g)"
proof -
  from assms(1) obtain d k where a: "a < length (robots g)" and d: "getDamage (robots g ! a) g = Gives d k"
    and h: "draws h = draws k"
    by (auto simp: hitMessage_def act_Gives setHitpoints_def split: if_splits)
  show ?thesis
    using consumesD [OF consumes_getDamage d] assms(2) a h by simp
qed

lemma consumes_decrement: "consumes 0 decrement"
  by (auto simp: decrement_def consumes_def act_Gives)

lemma consumes_fight_back: "consumes 0 (fight_back fx fy tx ty bA bV)"
  unfolding fight_back_def
  by (intro consumes_andthen consumes_if consumes_basic consumes_hitMessage consumes_decrement)

lemma consumes_fight_round: "consumes 0 (fight_round fx fy tx ty bA bV)"
  unfolding fight_round_def
  by (intro consumes_andthen consumes_if consumes_basic consumes_hitMessage consumes_decrement consumes_fight_back)

lemma fight_round_draws:
  assumes "fight_round fx fy tx ty bA bV g = Gives (Some p) h"
  shows "length (draws h) < length (draws g)"
proof -
  from assms obtain a v c g1 b where a: "cells g (nat fx) (nat fy) = Some a"
    and hit: "hitMessage a v bV g = Gives c g1"
    and b: "cells g1 (nat fx) (nat fy) = Some b"
    and t: "b < length (robots g1)" "getType (class_of (robots g1 ! b)) \<noteq> K_type"
    and second: "fight_back fx fy tx ty bA c g1 = Gives (Some p) h"
    unfolding fight_round_def act_Gives by (auto simp: act_Gives split: if_splits)
  have same: "same_classes g g1" by (rule same_hitMessage [OF hit])
  then have "b = a" using a b by (simp add: same_classes_def)
  with t same_class_of [OF same t(1)] have "class_of (robots g ! a) \<noteq> Kamikaze"
    by (auto simp: K_iff)
  then have "length (draws g1) < length (draws g)" by (intro hitMessage_draws [OF hit])
  with consumesD [OF consumes_fight_back second] show ?thesis by simp
qed

function fight_loop :: "int \<Rightarrow> int \<Rightarrow> int \<Rightarrow> int \<Rightarrow> bool \<Rightarrow> bool \<Rightarrow> game \<Rightarrow> unit outcome" where
  "fight_loop fromX fromY toX toY isDeadAt isDeadVic g =
     andthen (fight_round fromX fromY toX toY isDeadAt isDeadVic) (\<lambda>again h.
       case again of None \<Rightarrow> Gives () h | Some (a, v) \<Rightarrow> fight_loop fromX fromY toX toY a v h) g"
  by pat_completeness auto
termination
  by (relation "measure (\<lambda>(fx, fy, tx, ty, a, v, g). length (draws g))") (auto dest: fight_round_draws)

declare fight_loop.simps [simp del]

definition fight :: "int \<Rightarrow> int \<Rightarrow> int \<Rightarrow> int \<Rightarrow> unit act" where
  "fight fromX fromY toX toY = andthen (robot_at fromX fromY) (\<lambda>r.
     andthen (change_object r (\<lambda>o'. o'\<lparr>moved := True\<rparr>)) (\<lambda>_. fight_loop fromX fromY toX toY False False))"

section \<open>Moving\<close>

definition moveRobot :: "int \<Rightarrow> int \<Rightarrow> int \<Rightarrow> int \<Rightarrow> unit act" where
  "moveRobot fromX fromY toX toY =
     (if on_grid fromX fromY \<and> on_grid toX toY
      then andthen (cell toX toY) (\<lambda>t.
        if t = None
        then andthen (cell fromX fromY) (\<lambda>c. andthen (setAt toX toY c) (\<lambda>_. setAt fromX fromY None))
        else fight fromX fromY toX toY)
      else give ())"

text \<open>The new coordinates for a direction: 0 is down, 1 right, 2 up and 3 left.\<close>

definition towards :: "int \<Rightarrow> int \<Rightarrow> int \<Rightarrow> (int \<times> int) res" where
  "towards dir x y =
     (if dir = 0 then rbind (sub_int y 1) (\<lambda>y'. Inr (x, y'))
      else if dir = 1 then rbind (add_int x 1) (\<lambda>x'. Inr (x', y))
      else if dir = 2 then rbind (add_int y 1) (\<lambda>y'. Inr (x, y'))
      else if dir = 3 then rbind (sub_int x 1) (\<lambda>x'. Inr (x', y))
      else Inr (x, y))"

definition move :: "nat \<Rightarrow> unit act" where
  "move r = andthen (rand_mod 4) (\<lambda>dir.
     andthen (object r) (\<lambda>o'.
     andthen (checked (towards dir (r_x o') (r_y o'))) (\<lambda>p.
       let newX = fst p; newY = snd p in
       if on_grid newX newY
       then andthen (moveRobot (r_x o') (r_y o') newX newY) (\<lambda>_.
            change_object r (\<lambda>ob. ob\<lparr>r_x := newX, r_y := newY\<rparr>))
       else give ())))"

lemma consumes_fight_loop: "fight_loop fx fy tx ty a v g = Gives u h \<Longrightarrow> length (draws h) \<le> length (draws g)"
proof (induction fx fy tx ty a v g rule: fight_loop.induct)
  case (1 fx fy tx ty a v g)
  from "1.prems" obtain again k where round': "fight_round fx fy tx ty a v g = Gives again k"
    and rest: "(case again of None \<Rightarrow> Gives () k | Some (a, v) \<Rightarrow> fight_loop fx fy tx ty a v k) = Gives u h"
    by (subst (asm) fight_loop.simps) (auto simp: andthen_Gives)
  show ?case
  proof (cases again)
    case None
    have "length (draws k) \<le> length (draws g)"
      using consumesD [OF consumes_fight_round round'] by simp
    with rest None show ?thesis by simp
  next
    case (Some p)
    obtain a' v' where p: "p = (a', v')" by fastforce
    have "length (draws h) \<le> length (draws k)"
      using "1.IH" [OF round' Some p [symmetric]] rest Some p by simp
    with fight_round_draws [OF round' [unfolded Some]] show ?thesis by simp
  qed
qed

lemma consumes_moveRobot: "consumes 0 (moveRobot fx fy tx ty)"
  by (auto simp: moveRobot_def fight_def consumes_def act_Gives split: if_splits dest!: consumes_fight_loop)

lemma consumes_move: "consumes (Suc 0) (move r)"
  unfolding move_def Let_def
  by (intro consumes_andthen consumes_rand_mod consumes_if consumes_basic consumes_moveRobot)

function moveLoop :: "nat \<Rightarrow> game \<Rightarrow> unit outcome" where
  "moveLoop r g = andthen (object r) (\<lambda>o' h.
     if moved o' then Gives () h
     else if alive h = 1 then Gives () h
     else andthen (move r) (\<lambda>_. moveLoop r) h) g"
  by pat_completeness auto
termination
  by (relation "measure (\<lambda>(r, g). length (draws g))") (auto simp: act_Gives dest: consumesD [OF consumes_move])

declare moveLoop.simps [simp del]

section \<open>The simulation\<close>

text \<open>The cells in the order of the two nested loops.\<close>

definition positions :: "(int \<times> int) list" where
  "positions = List.product (map int [0..<GSIZE]) (map int [0..<GSIZE])"

fun reset_flags :: "(int \<times> int) list \<Rightarrow> unit act" where
  "reset_flags [] = give ()"
| "reset_flags ((i, j) # ps) = andthen (cell i j) (\<lambda>c.
     andthen (case c of None \<Rightarrow> give () | Some r \<Rightarrow> change_object r (\<lambda>o'. o'\<lparr>moved := False\<rparr>)) (\<lambda>_.
     reset_flags ps))"

fun move_all :: "(int \<times> int) list \<Rightarrow> unit act" where
  "move_all [] = give ()"
| "move_all ((i, j) # ps) = andthen (cell i j) (\<lambda>c.
     case c of None \<Rightarrow> move_all ps
     | Some r \<Rightarrow> andthen (moveLoop r) (\<lambda>_. andthen (inspect alive) (\<lambda>n.
         if n = 1 then give () else move_all ps)))"

fun find_winner :: "(int \<times> int) list \<Rightarrow> unit act" where
  "find_winner [] = give ()"
| "find_winner ((i, j) # ps) = andthen (cell i j) (\<lambda>c.
     case c of None \<Rightarrow> find_winner ps
     | Some r \<Rightarrow> andthen (object r) (\<lambda>o'.
         andthen (announce (''The '' @ r_name o' @ '' wins'')) (\<lambda>_.
         andthen (announce ''Game over!'') (\<lambda>_. setAt i j None))))"

definition simulation_round :: "unit act" where
  "simulation_round = andthen (reset_flags positions) (\<lambda>_.
     andthen (move_all positions) (\<lambda>_.
     andthen (inspect alive) (\<lambda>n. if n = 1 then find_winner positions else give ())))"

section \<open>The program\<close>

text \<open>The five placement loops of main differ in the constants.\<close>

definition place_robot :: "robot_class \<Rightarrow> int \<Rightarrow> int \<Rightarrow> string \<Rightarrow> int \<Rightarrow> int \<Rightarrow> unit act" where
  "place_robot k s p name x y =
     andthen (new_robot k x y) (\<lambda>r. andthen (setStrength r s) (\<lambda>_. andthen (setHitpoints r p) (\<lambda>_.
     andthen (setType r (getType k)) (\<lambda>_. setName r name))))"

lemma consumes_place_robot: "consumes 0 (place_robot k s p name x y)"
  unfolding place_robot_def new_robot_def setStrength_def setHitpoints_def setType_def setName_def
  by (auto simp: consumes_def act_Gives)

function place :: "robot_class \<Rightarrow> int \<Rightarrow> int \<Rightarrow> string \<Rightarrow> nat \<Rightarrow> game \<Rightarrow> unit outcome" where
  "place k s p name i g =
     (if i < ROBOTS
      then andthen (rand_mod (int GSIZE)) (\<lambda>x. andthen (rand_mod (int GSIZE)) (\<lambda>y. andthen (getAt x y) (\<lambda>c h.
        if c = None
        then andthen (place_robot k s p (name @ fmt_d (int i)) x y) (\<lambda>_. place k s p name (i + 1)) h
        else place k s p name i h))) g
      else Gives () g)"
  by pat_completeness auto
termination
  by (relation "measure (\<lambda>(k, s, p, name, i, g). length (draws g))")
     (auto simp: act_Gives getAt_def split: if_splits
        dest!: consumesD [OF consumes_rand_mod] consumesD [OF consumes_place_robot])

declare place.simps [simp del]

definition place_all :: "unit act" where
  "place_all = andthen (place Optimusprime 100 100 ''optimusprime_'' 0) (\<lambda>_.
     andthen (place Robocop 30 40 ''robocop_'' 0) (\<lambda>_.
     andthen (place Roomba 3 10 ''roomba_'' 0) (\<lambda>_.
     andthen (place Bulldozer 50 200 ''bulldozer_'' 0) (\<lambda>_.
     place Kamikaze 10 10 ''kamikaze_'' 0))))"

text \<open>The loop of main has no bound of its own: not returning is None.\<close>

partial_function (option) main_rounds :: "game \<Rightarrow> unit outcome option" where
  "main_rounds g = (case simulation_round g of
     Waits \<Rightarrow> Some Waits
   | Fails e \<Rightarrow> Some (Fails e)
   | Gives u h \<Rightarrow> if alive h = 1 then Some (Gives () h) else main_rounds h)"

text \<open>
  The destructor of the grid, at the end of main. Robots have no virtual destructor, and theirs
  would delete the grid itself: a robot that is still there would be deleted in vain.
\<close>

fun destroy_cells :: "(int \<times> int) list \<Rightarrow> unit act" where
  "destroy_cells [] = give ()"
| "destroy_cells ((i, j) # ps) = andthen (cell i j) (\<lambda>c.
     if c = None then destroy_cells ps else checked (Inl BadDelete))"

definition new_game :: "nat list \<Rightarrow> game" where
  "new_game ds = \<lparr>cells = (\<lambda>_ _. None), robots = [], alive = int ROBOTS * 5, draws = ds, said = []\<rparr>"

definition play :: "nat list \<Rightarrow> unit outcome option" where
  "play ds = (case place_all (new_game ds) of
     Waits \<Rightarrow> Some Waits
   | Fails e \<Rightarrow> Some (Fails e)
   | Gives u g \<Rightarrow> (case main_rounds g of
       None \<Rightarrow> None
     | Some (Gives w h) \<Rightarrow> Some (destroy_cells positions h)
     | Some r \<Rightarrow> Some r))"

end
