(* ===== verification/Robots_Fight.thy ===== *)
theory Robots_Fight
  imports Robots
begin

text \<open>
  What code of the robot game does to the game, as weakest preconditions: \<open>wp m Q g\<close> is that \<open>m\<close>
  has no undefined behaviour from \<open>g\<close> and that \<open>Q\<close> holds when it returns (it may wait for
  draws). The damage a robot can do, and the outcome of a fight.
\<close>

named_theorems wps \<open>weakest preconditions of the basic actions\<close>

definition wp :: "'a act \<Rightarrow> ('a \<Rightarrow> game \<Rightarrow> bool) \<Rightarrow> game \<Rightarrow> bool" where
  "wp m Q g = (case m g of Waits \<Rightarrow> True | Fails e \<Rightarrow> False | Gives a h \<Rightarrow> Q a h)"

lemma wp_andthen [wps]: "wp (andthen m f) Q g \<longleftrightarrow> wp m (\<lambda>a. wp (f a) Q) g"
  by (simp add: wp_def andthen_def split: outcome.split)

lemma wp_mono: "wp m Q g \<Longrightarrow> (\<And>a h. Q a h \<Longrightarrow> R a h) \<Longrightarrow> wp m R g"
  by (auto simp: wp_def split: outcome.splits)

lemma wp_if [wps]: "wp (if b then m else m') Q g \<longleftrightarrow> (if b then wp m Q g else wp m' Q g)"
  by simp

lemma wp_basic [wps]:
  "wp (give a) Q g \<longleftrightarrow> Q a g"
  "wp (checked e) Q g \<longleftrightarrow> (case e of Inl u \<Rightarrow> False | Inr a \<Rightarrow> Q a g)"
  "wp (inspect p) Q g \<longleftrightarrow> Q (p g) g"
  "wp (modify t) Q' g \<longleftrightarrow> Q' () (t g)"
  "wp (announce l) Q' g \<longleftrightarrow> Q' () (g\<lparr>said := said g @ [l]\<rparr>)"
  "wp (cell x y) Qc g \<longleftrightarrow> on_grid x y \<and> Qc (cells g (nat x) (nat y)) g"
  "wp (setAt x y c) Q' g \<longleftrightarrow> on_grid x y \<and> Q' () (g\<lparr>cells := put_cell x y c (cells g)\<rparr>)"
  "wp (object r) Qo g \<longleftrightarrow> r < length (robots g) \<and> Qo (robots g ! r) g"
  "wp (change_object r upd) Q' g \<longleftrightarrow>
     r < length (robots g) \<and> Q' () (g\<lparr>robots := (robots g)[r := upd (robots g ! r)]\<rparr>)"
  by (auto simp: wp_def give_def checked_def inspect_def modify_def announce_def cell_def setAt_def
      object_def change_object_def rd_def split: sum.split)

lemma wp_robot_at [wps]:
  "wp (robot_at x y) Q g \<longleftrightarrow> on_grid x y \<and> (\<exists>r. cells g (nat x) (nat y) = Some r \<and> Q r g)"
  by (auto simp: robot_at_def wps split: option.splits)

lemma wp_type_of [wps]:
  "wp (type_of r) Q g \<longleftrightarrow> r < length (robots g) \<and> Q (getType (class_of (robots g ! r))) g"
  by (simp add: type_of_def wps)

lemma wp_rand [wps]: "wp rand Q g \<longleftrightarrow> (\<forall>d ds. draws g = d # ds \<longrightarrow> Q d (g\<lparr>draws := ds\<rparr>))"
  by (auto simp: wp_def rand_def split: list.splits)

lemma wp_rand_mod [wps]:
  "0 < n \<Longrightarrow> wp (rand_mod n) Q g \<longleftrightarrow> (\<forall>d ds. draws g = d # ds \<longrightarrow> Q (int d mod n) (g\<lparr>draws := ds\<rparr>))"
  by (simp add: rand_mod_def wps)

lemma wp_fails: "wp m Q g \<Longrightarrow> m g \<noteq> Fails e"
  by (auto simp: wp_def)

lemma wp_Gives: "wp m Q g \<Longrightarrow> m g = Gives a h \<Longrightarrow> Q a h"
  by (simp add: wp_def)

section \<open>Damage\<close>

text \<open>The greatest damage an object of a class other than Kamikaze can do.\<close>

fun most_damage :: "robot_class \<Rightarrow> int \<Rightarrow> int" where
  "most_damage Optimusprime n = (n + 50) * 2"
| "most_damage Robocop n = n + 50"
| "most_damage Roomba n = 2 * n"
| "most_damage Bulldozer n = n"
| "most_damage Kamikaze n = 0"

definition damage_of :: "robot \<Rightarrow> int \<Rightarrow> bool" where
  "damage_of a d \<longleftrightarrow> (if class_of a = Kamikaze then d = hitpoints a
     else 1 \<le> d \<and> d \<le> most_damage (class_of a) (strength a))"

lemma wp_random_damage:
  assumes "0 < n" "n \<le> 1000" and "\<And>d ds. 1 \<le> d \<Longrightarrow> d \<le> n \<Longrightarrow> Q d (g\<lparr>draws := ds\<rparr>)"
  shows "wp (random_damage n) Q g"
proof -
  have "0 \<le> int d mod n" "int d mod n < n" for d using assms(1) by simp_all
  then have "add_int (int d mod n) 1 = Inr (int d mod n + 1)" for d
    using assms(2) by (simp add: add_int_def in_signed_32) (smt (verit) \<open>\<And>d. 0 \<le> int d mod n\<close>)
  then show ?thesis
    using assms(1) by (auto simp: random_damage_def wps intro!: assms(3)) (smt (verit) pos_mod_bound)
qed

lemma wp_getDamage:
  assumes "0 < strength a" "strength a \<le> 1000"
    and "\<And>d ds. damage_of a d \<Longrightarrow> Q d (g\<lparr>draws := ds\<rparr>)"
  shows "wp (getDamage a) Q g"
proof (cases "class_of a")
  case Kamikaze
  then show ?thesis using assms(3) [of "hitpoints a" "draws g"] by (simp add: getDamage_def damage_of_def wps)
next
  case Bulldozer
  then show ?thesis using assms by (simp add: getDamage_def damage_of_def wp_random_damage)
next
  case Roomba
  then show ?thesis
    using assms
    by (simp add: getDamage_def damage_of_def Roomba_getDamage_def wps add_int_def in_signed_32 wp_random_damage)
next
  case Robocop
  then show ?thesis
    using assms
    by (auto simp: getDamage_def damage_of_def Humanic_getDamage_def wps add_int_def in_signed_32 intro!: wp_random_damage)
next
  case Optimusprime
  then show ?thesis
    using assms
    by (auto simp: getDamage_def damage_of_def Optimusprime_getDamage_def wps add_int_def fits_def in_signed_32
        intro!: wp_random_damage)
qed

section \<open>Hits\<close>

definition fit_to_fight :: "robot \<Rightarrow> bool" where
  "fit_to_fight o' \<longleftrightarrow> 0 < strength o' \<and> strength o' \<le> 1000 \<and> \<bar>hitpoints o'\<bar> \<le> 1000000000"

lemma damage_bounded: "fit_to_fight a \<Longrightarrow> damage_of a d \<Longrightarrow> \<bar>d\<bar> \<le> 1000000000"
  by (cases "class_of a") (auto simp: fit_to_fight_def damage_of_def)

lemma wp_hitMessage:
  assumes "a < length (robots g)" "v < length (robots g)"
    and "fit_to_fight (robots g ! a)" "fit_to_fight (robots g ! v)"
    and Q: "\<And>d ds ls. damage_of (robots g ! a) d \<Longrightarrow>
      Q (b \<or> hitpoints (robots g ! v) \<le> d)
        (g\<lparr>draws := ds, robots := (robots g)[v := (robots g ! v)\<lparr>hitpoints := hitpoints (robots g ! v) - d\<rparr>],
          said := ls\<rparr>)"
  shows "wp (hitMessage a v b) Q g"
proof -
  have "sub_int (hitpoints (robots g ! v)) d = Inr (hitpoints (robots g ! v) - d)"
    if "damage_of (robots g ! a) d" for d
    using damage_bounded [OF assms(3) that] assms(4) by (auto simp: sub_int_def in_signed_32 fit_to_fight_def abs_le_iff)
  moreover have
    "damage_of (robots g ! a) d \<Longrightarrow> d < hitpoints (robots g ! v) \<Longrightarrow> Q b
      (g\<lparr>draws := ds, robots := (robots g)[v := (robots g ! v)\<lparr>hitpoints := hitpoints (robots g ! v) - d\<rparr>],
        said := ls\<rparr>)"
    "damage_of (robots g ! a) d \<Longrightarrow> \<not> d < hitpoints (robots g ! v) \<Longrightarrow> Q True
      (g\<lparr>draws := ds, robots := (robots g)[v := (robots g ! v)\<lparr>hitpoints := hitpoints (robots g ! v) - d\<rparr>],
        said := ls\<rparr>)" for d ds ls
    using Q [of d ls ds] by (auto simp: not_less)
  ultimately show ?thesis
    using assms(1,2,3)
    by (auto simp: hitMessage_def setHitpoints_def wps fit_to_fight_def intro!: wp_getDamage)
qed

section \<open>The outcome of a fight\<close>

text \<open>
  A kamikaze that attacks hits once and is gone, whatever has become of its victim. Otherwise a
  victim that has died is replaced by the attacker; so is a kamikaze that is attacked and lives to
  hit back; else it is the attacker that has died.
\<close>

abbreviation hp :: "game \<Rightarrow> nat \<Rightarrow> int" where
  "hp g r \<equiv> hitpoints (robots g ! r)"

definition hp_changed :: "nat \<Rightarrow> game \<Rightarrow> robot list \<Rightarrow> robot list" where
  "hp_changed r h rs = rs[r := (rs ! r)\<lparr>hitpoints := hp h r\<rparr>]"

definition hp_of_one :: "nat \<Rightarrow> game \<Rightarrow> game \<Rightarrow> bool" where
  "hp_of_one a g h \<longleftrightarrow> robots h = hp_changed a h (robots g)"

definition hp_of_two :: "nat \<Rightarrow> nat \<Rightarrow> game \<Rightarrow> game \<Rightarrow> bool" where
  "hp_of_two a v g h \<longleftrightarrow> robots h = hp_changed v h (hp_changed a h (robots g))"

definition fought :: "nat \<Rightarrow> nat \<Rightarrow> int \<Rightarrow> int \<Rightarrow> int \<Rightarrow> int \<Rightarrow> game \<Rightarrow> game \<Rightarrow> bool" where
  "fought a v fx fy tx ty g h \<longleftrightarrow> alive h = alive g - 1 \<and>
     hp_of_two a v g h \<and>
     (if class_of (robots g ! a) = Kamikaze
      then hp h a = hp g a \<and> hp h v = hp g v - hp g a \<and> cells h = put_cell fx fy None (cells g)
      else if hp h v \<le> 0
      then (hp h a = hp g a \<or> 0 < hp h a \<and> hp h a \<le> hp g a) \<and>
        cells h = put_cell fx fy None (put_cell tx ty (Some a) (cells g))
      else hp h v < hp g v \<and>
        (if class_of (robots g ! v) = Kamikaze
         then hp h a = hp g a - hp h v \<and> cells h = put_cell fx fy None (put_cell tx ty (Some a) (cells g))
         else hp h a \<le> 0 \<and> cells h = put_cell fx fy None (cells g)))"

text \<open>What a fight starts from: two robots in different cells.\<close>

definition facing :: "nat \<Rightarrow> nat \<Rightarrow> int \<Rightarrow> int \<Rightarrow> int \<Rightarrow> int \<Rightarrow> game \<Rightarrow> bool" where
  "facing a v fx fy tx ty g \<longleftrightarrow> on_grid fx fy \<and> on_grid tx ty \<and> \<not> (nat fx = nat tx \<and> nat fy = nat ty) \<and>
     cells g (nat fx) (nat fy) = Some a \<and> cells g (nat tx) (nat ty) = Some v \<and> a \<noteq> v \<and>
     a < length (robots g) \<and> v < length (robots g) \<and>
     fit_to_fight (robots g ! a) \<and> fit_to_fight (robots g ! v) \<and> 0 < alive g \<and> alive g \<le> 1000"

lemma wp_decrement: "0 < alive g \<and> alive g \<le> 1000 \<Longrightarrow> wp decrement Q g \<longleftrightarrow> Q () (g\<lparr>alive := alive g - 1\<rparr>)"
  by (simp add: decrement_def wps sub_int_def in_signed_32)

lemma fight_back_spec:
  assumes f: "facing a v fx fy tx ty g" and alive_v: "0 < hp g v"
  shows "wp (fight_back fx fy tx ty False b) (\<lambda>again h.
    hp_of_one a g h \<and>
    (case again of
      None \<Rightarrow> alive h = alive g - 1 \<and>
        (if class_of (robots g ! v) = Kamikaze
         then hp h a = hp g a - hp g v \<and> cells h = put_cell fx fy None (put_cell tx ty (Some a) (cells g))
         else hp h a \<le> 0 \<and> cells h = put_cell fx fy None (cells g))
    | Some p \<Rightarrow> p = (False, b) \<and> cells h = cells g \<and> alive h = alive g \<and>
        class_of (robots g ! v) \<noteq> Kamikaze \<and> 0 < hp h a \<and> hp h a < hp g a)) g"
proof -
  have f': "on_grid fx fy" "on_grid tx ty" "cells g (nat fx) (nat fy) = Some a"
    "cells g (nat tx) (nat ty) = Some v" "a \<noteq> v" "v \<noteq> a"
    "a < length (robots g)" "v < length (robots g)" "fit_to_fight (robots g ! a)"
    "fit_to_fight (robots g ! v)" "0 < alive g \<and> alive g \<le> 1000"
    "\<not> (nat fx = nat tx \<and> nat fy = nat ty)"
    using f by (auto simp: facing_def)
  show ?thesis
    unfolding fight_back_def wp_andthen wp_robot_at
    using f'(1-4)
    apply simp
    apply (rule wp_hitMessage [OF f'(8,7,10,9)])
    using f' alive_v
    by (auto simp: wps K_iff wp_decrement put_cell_at hp_of_one_def hp_changed_def damage_of_def split: if_splits)
qed

lemma both_changed:
  assumes "a \<noteq> v" "v < length (robots g)"
    and "hp_of_one a (g\<lparr>draws := ds, robots := (robots g)[v := (robots g ! v)\<lparr>hitpoints := x\<rparr>], said := ls\<rparr>) h"
  shows "hp h v = x" "hp_of_two a v g h"
proof -
  have h: "robots h = hp_changed a h ((robots g)[v := (robots g ! v)\<lparr>hitpoints := x\<rparr>])"
    using assms(3) by (simp add: hp_of_one_def)
  show v: "hp h v = x"
    using assms(1,2) by (subst h) (simp add: hp_changed_def)
  show "hp_of_two a v g h"
    using assms(1,2) unfolding hp_of_two_def by (subst h) (simp add: hp_changed_def v list_update_swap)
qed

lemma fight_round_spec:
  assumes f: "facing a v fx fy tx ty g"
  shows "wp (fight_round fx fy tx ty False False) (\<lambda>again h. case again of
      None \<Rightarrow> fought a v fx fy tx ty g h
    | Some p \<Rightarrow> p = (False, False) \<and> cells h = cells g \<and> alive h = alive g \<and>
        class_of (robots g ! a) \<noteq> Kamikaze \<and> class_of (robots g ! v) \<noteq> Kamikaze \<and>
        hp_of_two a v g h \<and>
        0 < hp h a \<and> hp h a < hp g a \<and> 0 < hp h v \<and> hp h v < hp g v) g"
proof -
  have f': "on_grid fx fy" "on_grid tx ty" "cells g (nat fx) (nat fy) = Some a"
    "cells g (nat tx) (nat ty) = Some v" "a \<noteq> v" "v \<noteq> a"
    "a < length (robots g)" "v < length (robots g)" "fit_to_fight (robots g ! a)"
    "fit_to_fight (robots g ! v)" "0 < alive g \<and> alive g \<le> 1000"
    "\<not> (nat fx = nat tx \<and> nat fy = nat ty)"
    using f by (auto simp: facing_def)
  have second: "wp (fight_back fx fy tx ty False False) (\<lambda>again h. case again of
      None \<Rightarrow> fought a v fx fy tx ty g h
    | Some p \<Rightarrow> p = (False, False) \<and> cells h = cells g \<and> alive h = alive g \<and>
        class_of (robots g ! a) \<noteq> Kamikaze \<and> class_of (robots g ! v) \<noteq> Kamikaze \<and>
        hp_of_two a v g h \<and>
        0 < hp h a \<and> hp h a < hp g a \<and> 0 < hp h v \<and> hp h v < hp g v)
      (g\<lparr>draws := ds, robots := (robots g)[v := (robots g ! v)\<lparr>hitpoints := hp g v - d\<rparr>], said := ls\<rparr>)"
    (is "wp _ ?Q ?g")
    if "class_of (robots g ! a) \<noteq> Kamikaze" "1 \<le> d" "\<not> hp g v \<le> d" for d ds ls
  proof -
    have "facing a v fx fy tx ty ?g" "0 < hp ?g v"
      using f f' that by (auto simp: facing_def fit_to_fight_def abs_le_iff)
    from fight_back_spec [OF this, of False] show ?thesis
    proof (rule wp_mono)
      fix again h
      assume "hp_of_one a ?g h \<and> (case again of
          None \<Rightarrow> alive h = alive ?g - 1 \<and>
            (if class_of (robots ?g ! v) = Kamikaze
             then hp h a = hp ?g a - hp ?g v \<and>
               cells h = put_cell fx fy None (put_cell tx ty (Some a) (cells ?g))
             else hp h a \<le> 0 \<and> cells h = put_cell fx fy None (cells ?g))
        | Some p \<Rightarrow> p = (False, False) \<and> cells h = cells ?g \<and> alive h = alive ?g \<and>
            class_of (robots ?g ! v) \<noteq> Kamikaze \<and> 0 < hp h a \<and> hp h a < hp ?g a)"
      with both_changed [OF f'(5,8), of ls "hp g v - d" ds h] show "?Q again h"
        using f' that by (cases again) (simp_all add: fought_def split: if_splits)
    qed
  qed
  show ?thesis
    unfolding fight_round_def wp_andthen wp_robot_at
    using f'(1-4)
    apply simp
    apply (rule wp_hitMessage [OF f'(7,8,9,10)])
    using f'
    by (auto simp: wps K_iff wp_decrement put_cell_at hp_of_two_def hp_changed_def damage_of_def fought_def
        intro!: second split: if_splits)
qed

lemma facing_again:
  assumes "facing a v fx fy tx ty g" and "cells h = cells g" "alive h = alive g"
    and "hp_of_two a v g h"
    and "0 < hp h a" "hp h a < hp g a" "0 < hp h v" "hp h v < hp g v"
  shows "facing a v fx fy tx ty h"
proof -
  have "length (robots h) = length (robots g)" "strength (robots h ! a) = strength (robots g ! a)"
    "strength (robots h ! v) = strength (robots g ! v)"
    using assms(1) by (subst assms(4) [unfolded hp_of_two_def], auto simp: hp_changed_def facing_def)+
  then show ?thesis
    using assms by (auto simp: facing_def fit_to_fight_def)
qed

lemma fought_trans:
  assumes "facing a v fx fy tx ty g" "fought a v fx fy tx ty k h"
    and "cells k = cells g" "alive k = alive g" "class_of (robots g ! a) \<noteq> Kamikaze" "class_of (robots g ! v) \<noteq> Kamikaze"
    and k: "hp_of_two a v g k"
    and "0 < hp k a" "hp k a < hp g a" "0 < hp k v" "hp k v < hp g v"
  shows "fought a v fx fy tx ty g h"
proof -
  have "a < length (robots g)" "v < length (robots g)" "a \<noteq> v"
    using assms(1) by (auto simp: facing_def)
  then have same: "class_of (robots k ! a) = class_of (robots g ! a)" "class_of (robots k ! v) = class_of (robots g ! v)"
    "hp_of_two a v k h = hp_of_two a v g h"
    unfolding hp_of_two_def by (subst k [unfolded hp_of_two_def], simp add: hp_changed_def list_update_swap)+
  show ?thesis
    using assms(2-6,8-) unfolding fought_def same by (auto split: if_splits)
qed

lemma fight_loop_spec: "facing a v fx fy tx ty g \<Longrightarrow> wp (fight_loop fx fy tx ty False False) (\<lambda>_. fought a v fx fy tx ty g) g"
proof (induction "length (draws g)" arbitrary: g rule: less_induct)
  case less
  show ?case
  proof (cases "fight_round fx fy tx ty False False g")
    case Waits
    then show ?thesis by (simp add: wp_def andthen_def fight_loop.simps [where g = g])
  next
    case (Fails e)
    with wp_fails [OF fight_round_spec [OF less.prems]] show ?thesis by blast
  next
    case (Gives again h)
    note spec = wp_Gives [OF fight_round_spec [OF less.prems] Gives]
    have step: "fight_loop fx fy tx ty False False g =
        (case again of None \<Rightarrow> Gives () h | Some (bA, bV) \<Rightarrow> fight_loop fx fy tx ty bA bV h)"
      by (subst fight_loop.simps) (simp add: andthen_def Gives)
    show ?thesis
    proof (cases again)
      case None
      then show ?thesis using spec step by (simp add: wp_def)
    next
      case (Some p)
      from spec [unfolded Some option.case] have *: "p = (False, False)" "cells h = cells g" "alive h = alive g"
        "class_of (robots g ! a) \<noteq> Kamikaze" "class_of (robots g ! v) \<noteq> Kamikaze"
        "hp_of_two a v g h"
        "0 < hp h a" "hp h a < hp g a" "0 < hp h v" "hp h v < hp g v" by blast+
      have "facing a v fx fy tx ty h" by (rule facing_again [OF less.prems *(2,3,6-)])
      with less.hyps fight_round_draws [OF Gives [unfolded Some]]
      have "wp (fight_loop fx fy tx ty False False) (\<lambda>_. fought a v fx fy tx ty h) h" by blast
      then have "wp (fight_loop fx fy tx ty False False) (\<lambda>_. fought a v fx fy tx ty g) h"
        by (rule wp_mono) (rule fought_trans [OF less.prems _ *(2-)])
      then show ?thesis
        unfolding wp_def step by (simp add: Some *)
    qed
  qed
qed

text \<open>The whole of \<open>fight\<close>: besides, the flag of the attacker is set.\<close>

definition flagged :: "nat \<Rightarrow> game \<Rightarrow> game" where
  "flagged r g = g\<lparr>robots := (robots g)[r := (robots g ! r)\<lparr>moved := True\<rparr>]\<rparr>"

lemma facing_flagged: "facing a v fx fy tx ty g \<Longrightarrow> facing a v fx fy tx ty (flagged a g)"
  by (auto simp: facing_def flagged_def fit_to_fight_def)

lemma fight_spec:
  "facing a v fx fy tx ty g \<Longrightarrow> wp (fight fx fy tx ty) (\<lambda>_. fought a v fx fy tx ty (flagged a g)) g"
  using fight_loop_spec [OF facing_flagged]
  by (auto simp: fight_def wps facing_def flagged_def)

end
