(* ===== verification/Robots_Game.thy ===== *)
theory Robots_Game
  imports Robots_Fight
begin

text \<open>
  The invariant of the robot game, kept by every function of the program: an object knows the
  cell it is in, the count is the number of occupied cells, and hitpoints stay far from the
  limits of int. With it no run has undefined behaviour, and a run that ends has one winner.
\<close>

section \<open>The invariant\<close>

definition standing :: "game \<Rightarrow> (nat \<times> nat) set" where
  "standing g = {(i, j). cells g i j \<noteq> None}"

text \<open>
  A kamikaze that hits another passes on at most its own hitpoints, so their bound doubles with
  every robot that is gone.
\<close>

definition hp_bound :: "int \<Rightarrow> int" where
  "hp_bound n = 10 * 2 ^ nat (25 - n)"

definition robot_ok :: "int \<Rightarrow> robot \<Rightarrow> bool" where
  "robot_ok n o' \<longleftrightarrow> 0 < strength o' \<and> strength o' \<le> 100 \<and>
     \<bar>hitpoints o'\<bar> \<le> (if class_of o' = Kamikaze then hp_bound n else 200 + hp_bound n)"

definition grid_ok :: "game \<Rightarrow> bool" where
  "grid_ok g \<longleftrightarrow> (\<forall>i j r. cells g i j = Some r \<longrightarrow> i < GSIZE \<and> j < GSIZE \<and> r < length (robots g) \<and>
     r_x (robots g ! r) = int i \<and> r_y (robots g ! r) = int j \<and> robot_ok (alive g) (robots g ! r))"

definition game_ok :: "game \<Rightarrow> bool" where
  "game_ok g \<longleftrightarrow> grid_ok g \<and> alive g = int (card (standing g)) \<and> 1 \<le> alive g \<and> alive g \<le> 25"

lemma hp_bound_mono: "m \<le> n \<Longrightarrow> hp_bound n \<le> hp_bound m"
  by (simp add: hp_bound_def)

lemma hp_bound_double: "m < n \<Longrightarrow> n \<le> 25 \<Longrightarrow> 2 * hp_bound n \<le> hp_bound m"
proof -
  assume "m < n" "n \<le> 25"
  then have "(2::int) ^ Suc (nat (25 - n)) \<le> 2 ^ nat (25 - m)"
    by (intro power_increasing) auto
  then show ?thesis by (simp add: hp_bound_def)
qed

lemma hp_bound_least: "10 \<le> hp_bound n"
  by (simp add: hp_bound_def)

lemma hp_bound_most: "1 \<le> n \<Longrightarrow> hp_bound n \<le> 167772160"
  using hp_bound_mono [of 1 n] by (simp add: hp_bound_def)

lemma robot_ok_fit: "robot_ok n o' \<Longrightarrow> 1 \<le> n \<Longrightarrow> fit_to_fight o'"
  using hp_bound_most [of n] by (auto simp: robot_ok_def fit_to_fight_def split: if_splits)

lemma robot_ok_mono: "robot_ok n o' \<Longrightarrow> m \<le> n \<Longrightarrow> robot_ok m o'"
  using hp_bound_mono [of m n] by (auto simp: robot_ok_def)

lemma finite_standing: "grid_ok g \<Longrightarrow> finite (standing g)"
  by (rule finite_subset [of _ "{..<GSIZE} \<times> {..<GSIZE}"]) (auto simp: grid_ok_def standing_def)

lemma grid_okD:
  assumes "grid_ok g" "cells g i j = Some r"
  shows "i < GSIZE" "j < GSIZE" "r < length (robots g)" "r_x (robots g ! r) = int i"
    "r_y (robots g ! r) = int j" "robot_ok (alive g) (robots g ! r)"
  using assms by (auto simp: grid_ok_def)

lemma one_cell: "grid_ok g \<Longrightarrow> cells g i j = Some r \<Longrightarrow> cells g k l = Some r \<Longrightarrow> i = k \<and> j = l"
  by (metis grid_okD(4,5) of_nat_eq_iff)

lemma grid_okI:
  "(\<And>i j r. cells g i j = Some r \<Longrightarrow> i < GSIZE \<and> j < GSIZE \<and> r < length (robots g) \<and>
     r_x (robots g ! r) = int i \<and> r_y (robots g ! r) = int j \<and> robot_ok (alive g) (robots g ! r)) \<Longrightarrow> grid_ok g"
  by (simp add: grid_ok_def)

text \<open>An object that is where it believes to be.\<close>

definition at_home :: "game \<Rightarrow> nat \<Rightarrow> bool" where
  "at_home g r \<longleftrightarrow> r < length (robots g) \<and> on_grid (r_x (robots g ! r)) (r_y (robots g ! r)) \<and>
     cells g (nat (r_x (robots g ! r))) (nat (r_y (robots g ! r))) = Some r"

lemma at_homeI: "grid_ok g \<Longrightarrow> cells g i j = Some r \<Longrightarrow> at_home g r"
  using grid_okD [of g i j r] by (simp add: at_home_def on_grid_def)

lemma at_homeD:
  assumes "grid_ok g" "at_home g r"
  shows "r < length (robots g)" "cells g (nat (r_x (robots g ! r))) (nat (r_y (robots g ! r))) = Some r"
    "on_grid (r_x (robots g ! r)) (r_y (robots g ! r))" "robot_ok (alive g) (robots g ! r)"
  using assms(2) grid_okD(6) [OF assms(1)] unfolding at_home_def by blast+

lemma on_grid_nat: "on_grid x y \<Longrightarrow> on_grid x' y' \<Longrightarrow> nat x = nat x' \<longleftrightarrow> x = x'"
  "on_grid x y \<Longrightarrow> on_grid x' y' \<Longrightarrow> nat y = nat y' \<longleftrightarrow> y = y'"
  by (auto simp: on_grid_def)

section \<open>A move\<close>

text \<open>Two robots on the grid are two occupied cells.\<close>

lemma two_standing:
  assumes "game_ok g" "cells g i j = Some a" "cells g k l = Some v" "(i, j) \<noteq> (k, l)"
  shows "2 \<le> alive g"
proof -
  have "{(i, j), (k, l)} \<subseteq> standing g"
    using assms(2,3) by (auto simp: standing_def)
  then have "card {(i, j), (k, l)} \<le> card (standing g)"
    using assms(1) by (intro card_mono finite_standing) (auto simp: game_ok_def)
  then show ?thesis
    using assms(1,4) by (simp add: game_ok_def)
qed

text \<open>The object of the attacker is updated after the fight.\<close>

definition relocated :: "nat \<Rightarrow> int \<Rightarrow> int \<Rightarrow> game \<Rightarrow> game" where
  "relocated r x y g = g\<lparr>robots := (robots g)[r := (robots g ! r)\<lparr>r_x := x, r_y := y\<rparr>]\<rparr>"

lemma robot_ok_hp:
  "robot_ok m (o'\<lparr>hitpoints := n\<rparr>) \<longleftrightarrow> 0 < strength o' \<and> strength o' \<le> 100 \<and>
     \<bar>n\<bar> \<le> (if class_of o' = Kamikaze then hp_bound m else 200 + hp_bound m)"
  by (simp add: robot_ok_def)

lemma fought_fit:
  assumes "fought a v fx fy tx ty (flagged a g) h" and "a \<noteq> v" "a < length (robots g)" "v < length (robots g)"
    and "robot_ok n (robots g ! a)" "robot_ok n (robots g ! v)" and "m < n" "n \<le> 25"
  shows "cells h = put_cell fx fy None (cells g) \<and> robot_ok m ((robots g ! v)\<lparr>hitpoints := hp h v\<rparr>) \<or>
    cells h = put_cell fx fy None (put_cell tx ty (Some a) (cells g)) \<and>
      robot_ok m ((robots g ! a)\<lparr>hitpoints := hp h a\<rparr>)"
proof -
  have b: "2 * hp_bound n \<le> hp_bound m" "0 \<le> hp_bound n"
    using hp_bound_double [OF assms(7,8)] hp_bound_least [of n] by simp_all
  have same: "hp (flagged a g) a = hp g a" "hp (flagged a g) v = hp g v" "cells (flagged a g) = cells g"
    "class_of (robots (flagged a g) ! a) = class_of (robots g ! a)"
    "class_of (robots (flagged a g) ! v) = class_of (robots g ! v)"
    using assms(2-4) by (simp_all add: flagged_def)
  show ?thesis
    using assms(1,5,6) b unfolding fought_def same robot_ok_def by (auto split: if_splits simp: abs_le_iff)
qed

lemma relocated_robots:
  assumes "fought a v fx fy tx ty (flagged a g) h" and "a \<noteq> v" "a < length (robots g)" "v < length (robots g)"
  shows "robots (relocated a x y h) = (robots g)
    [a := (robots g ! a)\<lparr>moved := True, hitpoints := hp h a, r_x := x, r_y := y\<rparr>,
     v := (robots g ! v)\<lparr>hitpoints := hp h v\<rparr>]"
proof -
  obtain ha hv where hps: "hp h a = ha" "hp h v = hv" by blast
  have h: "robots h = (robots g)[a := (robots g ! a)\<lparr>moved := True, hitpoints := ha\<rparr>,
      v := (robots g ! v)\<lparr>hitpoints := hv\<rparr>]"
    using assms hps by (auto simp: fought_def hp_of_two_def hp_changed_def flagged_def)
  show ?thesis
    unfolding relocated_def hps using assms(2-4) by (simp add: h list_update_swap)
qed

text \<open>In the cells after a fight the attacker is gone, or it has replaced its victim.\<close>

lemma fight_ok:
  assumes g: "game_ok g" and r: "at_home g r" and xy: "x = r_x (robots g ! r)" "y = r_y (robots g ! r)"
    and to: "on_grid nx ny" "(x, y) \<noteq> (nx, ny)" "cells g (nat nx) (nat ny) = Some v"
    and f: "fought r v x y nx ny (flagged r g) h"
  shows "game_ok (relocated r nx ny h)" "length (robots (relocated r nx ny h)) = length (robots g)"
    "moved (robots (relocated r nx ny h) ! r)"
proof -
  have ok: "grid_ok g" using g by (simp add: game_ok_def)
  note home = at_homeD [OF ok r, folded xy]
  note vic = grid_okD [OF ok to(3)]
  have far: "(nat x, nat y) \<noteq> (nat nx, nat ny)"
    using on_grid_nat [OF home(3) to(1)] to(2) by simp
  have rv: "r \<noteq> v" using one_cell [OF ok home(2)] to(3) far by auto
  have two: "2 \<le> alive g" by (rule two_standing [OF g home(2) to(3) far])
  have fewer: "alive h = alive g - 1" using f by (simp add: fought_def flagged_def)
  define k where "k = relocated r nx ny h"
  have k: "robots k = (robots g)[r := (robots g ! r)\<lparr>moved := True, hitpoints := hp h r, r_x := nx, r_y := ny\<rparr>,
     v := (robots g ! v)\<lparr>hitpoints := hp h v\<rparr>]" "cells k = cells h" "alive k = alive h"
    unfolding k_def by (rule relocated_robots [OF f rv home(1) vic(3)]) (simp_all add: relocated_def)
  show "length (robots (relocated r nx ny h)) = length (robots g)" "moved (robots (relocated r nx ny h) ! r)"
    using rv home(1) unfolding k_def [symmetric] k by simp_all
  have fit: "cells h = put_cell x y None (cells g) \<and> robot_ok (alive h) ((robots g ! v)\<lparr>hitpoints := hp h v\<rparr>) \<or>
    cells h = put_cell x y None (put_cell nx ny (Some r) (cells g)) \<and>
      robot_ok (alive h) ((robots g ! r)\<lparr>hitpoints := hp h r\<rparr>)"
    using g fewer by (intro fought_fit [OF f rv home(1) vic(3) home(4) vic(6)]) (auto simp: game_ok_def)
  have other: "robot_ok (alive h) (robots g ! q)" if "cells g i j = Some q" for i j q
    using robot_ok_mono [OF grid_okD(6) [OF ok that]] fewer by simp
  have "grid_ok k"
  proof (rule grid_okI)
    fix i j q
    assume "cells k i j = Some q"
    then have q: "cells h i j = Some q" by (simp add: k)
    show "i < GSIZE \<and> j < GSIZE \<and> q < length (robots k) \<and> r_x (robots k ! q) = int i \<and>
      r_y (robots k ! q) = int j \<and> robot_ok (alive k) (robots k ! q)"
    proof (cases "(i, j) = (nat nx, nat ny) \<and> q = r")
      case True
      then have "cells h \<noteq> put_cell x y None (cells g)"
        using q to(3) far rv by (auto simp: put_cell_at)
      with fit have "robot_ok (alive h) ((robots g ! r)\<lparr>hitpoints := hp h r\<rparr>)" by blast
      then show ?thesis
        using True rv home(1) to(1) unfolding k
        by (auto simp: on_grid_def robot_ok_def)
    next
      case False
      then have at: "cells g i j = Some q" "(i, j) \<noteq> (nat x, nat y)"
        using fit q by (auto simp: put_cell_at split: if_splits)
      then have "q \<noteq> r" using one_cell [OF ok home(2)] by auto
      moreover have "robot_ok (alive h) ((robots g ! v)\<lparr>hitpoints := hp h v\<rparr>)" if "q = v"
      proof -
        have "(i, j) = (nat nx, nat ny)" using one_cell [OF ok to(3)] at(1) that by auto
        then have "cells h \<noteq> put_cell x y None (put_cell nx ny (Some r) (cells g))"
          using q that rv far by (auto simp: put_cell_at)
        with fit show ?thesis by blast
      qed
      ultimately show ?thesis
        using grid_okD [OF ok at(1)] other [OF at(1)] home(1) unfolding k by (cases "q = v") auto
    qed
  qed
  moreover have "standing k = standing g - {(nat x, nat y)}"
    using fit to(3) far by (auto simp: standing_def k put_cell_at split: if_splits)
  then have "card (standing k) = card (standing g) - 1"
    using home(2) finite_standing [OF ok] by (simp add: standing_def)
  ultimately show "game_ok (relocated r nx ny h)"
    using g two fewer unfolding k_def [symmetric] by (simp add: game_ok_def k)
qed

text \<open>A step to a free cell.\<close>

definition stepped :: "nat \<Rightarrow> int \<Rightarrow> int \<Rightarrow> game \<Rightarrow> game" where
  "stepped r x y g = relocated r x y
     (g\<lparr>cells := put_cell (r_x (robots g ! r)) (r_y (robots g ! r)) None (put_cell x y (Some r) (cells g))\<rparr>)"

lemma stepped_simps [simp]:
  "alive (stepped r x y g) = alive g" "draws (stepped r x y g) = draws g"
  "robots (stepped r x y g) = (robots g)[r := (robots g ! r)\<lparr>r_x := x, r_y := y\<rparr>]"
  "cells (stepped r x y g) = put_cell (r_x (robots g ! r)) (r_y (robots g ! r)) None (put_cell x y (Some r) (cells g))"
  by (simp_all add: stepped_def relocated_def)

lemma step_ok:
  assumes g: "game_ok g" and r: "at_home g r"
    and to: "on_grid nx ny" "cells g (nat nx) (nat ny) = None"
  shows "game_ok (stepped r nx ny g)" "at_home (stepped r nx ny g) r"
proof -
  have ok: "grid_ok g" using g by (simp add: game_ok_def)
  note home = at_homeD [OF ok r]
  define x y where xy: "x = nat (r_x (robots g ! r))" "y = nat (r_y (robots g ! r))"
  have far: "(x, y) \<noteq> (nat nx, nat ny)" using home(2) to(2) by (auto simp: xy)
  have standing: "standing (stepped r nx ny g) = insert (nat nx, nat ny) (standing g - {(x, y)})"
    using far by (auto simp: standing_def put_cell_at xy)
  have "card (standing (stepped r nx ny g)) = card (standing g)"
  proof -
    have "(x, y) \<in> standing g" "(nat nx, nat ny) \<notin> standing g"
      using home(2) to(2) by (auto simp: standing_def xy)
    then show ?thesis
      unfolding standing using finite_standing [OF ok] card_Suc_Diff1 [of "standing g" "(x, y)"] by simp
  qed
  moreover have "grid_ok (stepped r nx ny g)"
  proof (rule grid_okI)
    fix i j q
    assume q: "cells (stepped r nx ny g) i j = Some q"
    show "i < GSIZE \<and> j < GSIZE \<and> q < length (robots (stepped r nx ny g)) \<and>
      r_x (robots (stepped r nx ny g) ! q) = int i \<and> r_y (robots (stepped r nx ny g) ! q) = int j \<and>
      robot_ok (alive (stepped r nx ny g)) (robots (stepped r nx ny g) ! q)"
    proof (cases "(i, j) = (nat nx, nat ny)")
      case True
      then have "q = r" using q far by (auto simp: put_cell_at xy)
      then show ?thesis using True home to(1) by (auto simp: on_grid_def robot_ok_def)
    next
      case False
      then have at: "cells g i j = Some q" "(i, j) \<noteq> (x, y)"
        using q by (auto simp: put_cell_at xy split: if_splits)
      then have "q \<noteq> r" using one_cell [OF ok home(2)] by (auto simp: xy)
      then show ?thesis using grid_okD [OF ok at(1)] by simp
    qed
  qed
  ultimately show "game_ok (stepped r nx ny g)" using g by (simp add: game_ok_def)
  show "at_home (stepped r nx ny g) r" using home to(1) far by (auto simp: at_home_def put_cell_at xy)
qed

text \<open>The direction drawn: the new coordinates are next to the old ones.\<close>

definition next_to :: "int \<Rightarrow> int \<Rightarrow> int \<Rightarrow> int \<times> int" where
  "next_to dir x y = (if dir = 0 then (x, y - 1) else if dir = 1 then (x + 1, y)
     else if dir = 2 then (x, y + 1) else (x - 1, y))"

lemma towards_next:
  "on_grid x y \<Longrightarrow> 0 \<le> dir \<Longrightarrow> dir < 4 \<Longrightarrow> towards dir x y = Inr (next_to dir x y)"
  by (auto simp: towards_def next_to_def add_int_def sub_int_def in_signed_32 on_grid_def GSIZE_def)

lemma next_to_other: "next_to dir x y \<noteq> (x, y)"
  by (simp add: next_to_def)

text \<open>A move leaves the robot where it is, takes it to a free cell, or is a fight.\<close>

definition moves_on :: "nat \<Rightarrow> game \<Rightarrow> game \<Rightarrow> bool" where
  "moves_on r g h \<longleftrightarrow> game_ok h \<and> length (robots h) = length (robots g) \<and>
     (alive h = alive g \<and> at_home h r \<and> moved (robots h ! r) = moved (robots g ! r) \<or>
      alive h < alive g \<and> moved (robots h ! r))"

lemma game_ok_draws [simp]: "game_ok (g\<lparr>draws := ds\<rparr>) = game_ok g"
  by (simp add: game_ok_def grid_ok_def standing_def)

lemma at_home_draws [simp]: "at_home (g\<lparr>draws := ds\<rparr>) r = at_home g r"
  by (simp add: at_home_def)

lemma moveRobot_spec:
  assumes g: "game_ok g" and r: "at_home g r" and xy: "x = r_x (robots g ! r)" "y = r_y (robots g ! r)"
    and to: "on_grid nx ny" "(x, y) \<noteq> (nx, ny)"
  shows "wp (moveRobot x y nx ny) (\<lambda>_ h. r < length (robots h) \<and> moves_on r g (relocated r nx ny h)) g"
proof (cases "cells g (nat nx) (nat ny)")
  case None
  have ok: "grid_ok g" using g by (simp add: game_ok_def)
  note home = at_homeD [OF ok r, folded xy]
  from step_ok [OF g r to(1) None] home(1) have
    "moves_on r g (relocated r nx ny (g\<lparr>cells := put_cell x y None (put_cell nx ny (Some r) (cells g))\<rparr>))"
    unfolding moves_on_def xy stepped_def [symmetric] by simp
  then show ?thesis using home None to(1) by (simp add: moveRobot_def wps)
next
  case (Some v)
  have ok: "grid_ok g" using g by (simp add: game_ok_def)
  note home = at_homeD [OF ok r, folded xy]
  note vic = grid_okD [OF ok Some]
  have far: "(nat x, nat y) \<noteq> (nat nx, nat ny)"
    using on_grid_nat [OF home(3) to(1)] to(2) by simp
  have rv: "r \<noteq> v" using one_cell [OF ok home(2)] Some far by auto
  have "1 \<le> alive g" "alive g \<le> 25" using g by (simp_all add: game_ok_def)
  then have "facing r v x y nx ny g"
    using home vic Some far rv to(1) robot_ok_fit [OF home(4)] robot_ok_fit [OF vic(6)]
    by (auto simp: facing_def)
  from fight_spec [OF this]
  have "wp (fight x y nx ny) (\<lambda>_ h. r < length (robots h) \<and> moves_on r g (relocated r nx ny h)) g"
  proof (rule wp_mono)
    fix u h
    assume f: "fought r v x y nx ny (flagged r g) h"
    show "r < length (robots h) \<and> moves_on r g (relocated r nx ny h)"
      using fight_ok [OF g r xy to Some f] f home(1)
      by (auto simp: moves_on_def fought_def relocated_def flagged_def)
  qed
  then show ?thesis using home Some to(1) by (simp add: moveRobot_def wps)
qed

lemma move_spec:
  assumes g: "game_ok g" and r: "at_home g r"
  shows "wp (move r) (\<lambda>_. moves_on r g) g"
proof -
  have ok: "grid_ok g" using g by (simp add: game_ok_def)
  note home = at_homeD [OF ok r]
  define x y where xy: "x = r_x (robots g ! r)" "y = r_y (robots g ! r)"
  have walk: "wp (moveRobot x y (fst p) (snd p))
      (\<lambda>_. wp (change_object r (\<lambda>ob. ob\<lparr>r_x := fst p, r_y := snd p\<rparr>)) (\<lambda>_. moves_on r g)) (g\<lparr>draws := ds\<rparr>)"
    if "p = next_to dir x y" "on_grid (fst p) (snd p)" for dir p ds
  proof -
    have "(x, y) \<noteq> (fst p, snd p)" using next_to_other [of dir x y] unfolding that(1) by auto
    with moveRobot_spec [of "g\<lparr>draws := ds\<rparr>" r x y "fst p" "snd p"] g r that(2)
    have "wp (moveRobot x y (fst p) (snd p))
        (\<lambda>_ h. r < length (robots h) \<and> moves_on r g (relocated r (fst p) (snd p) h)) (g\<lparr>draws := ds\<rparr>)"
      by (simp add: moves_on_def xy)
    then show ?thesis by (rule wp_mono) (simp add: wps relocated_def)
  qed
  have stay: "moves_on r g (g\<lparr>draws := ds\<rparr>)" for ds
    using g r by (simp add: moves_on_def)
  have dirs: "towards (int d mod 4) x y = Inr (next_to (int d mod 4) x y)" for d
    using home(3) by (intro towards_next) (simp_all add: xy)
  show ?thesis
    unfolding move_def Let_def wp_andthen
    using home(1) walk stay
    by (simp add: wps xy [symmetric] dirs)
qed

section \<open>Rounds of the simulation\<close>

text \<open>The loop of a robot ends with a fight, unless it has nothing to do.\<close>

lemma moveLoop_spec:
  "game_ok g \<Longrightarrow> at_home g r \<Longrightarrow> wp (moveLoop r) (\<lambda>_ h. game_ok h \<and>
     (alive h < alive g \<or> h = g \<and> (moved (robots g ! r) \<or> alive g = 1))) g"
proof (induction "length (draws g)" arbitrary: g rule: less_induct)
  case less
  have len: "r < length (robots g)" using less.prems(2) by (simp add: at_home_def)
  have step: "moveLoop r g = (if moved (robots g ! r) \<or> alive g = 1 then Gives () g
      else andthen (move r) (\<lambda>_. moveLoop r) g)"
    by (subst moveLoop.simps) (simp add: andthen_def object_def checked_def len)
  have "wp (move r) (\<lambda>_ h. wp (moveLoop r) (\<lambda>_ k. game_ok k \<and> alive k < alive g) h) g"
    if "\<not> (moved (robots g ! r) \<or> alive g = 1)"
  proof (cases "move r g")
    case Waits
    then show ?thesis by (simp add: wp_def)
  next
    case (Fails e)
    with wp_fails [OF move_spec [OF less.prems]] show ?thesis by blast
  next
    case (Gives u h)
    have on: "moves_on r g h" by (rule wp_Gives [OF move_spec [OF less.prems] Gives])
    have fewer: "length (draws h) < length (draws g)" using consumesD [OF consumes_move Gives] by simp
    have "wp (moveLoop r) (\<lambda>_ k. game_ok k \<and> alive k < alive g) h"
    proof (cases "alive h < alive g")
      case True
      with on len have "moved (robots h ! r)" "game_ok h" "r < length (robots h)"
        by (auto simp: moves_on_def)
      then show ?thesis
        using True by (simp add: wp_def moveLoop.simps [of r h] andthen_def object_def checked_def)
    next
      case False
      with on have h: "game_ok h" "at_home h r" "alive h = alive g" "moved (robots h ! r) = moved (robots g ! r)"
        by (auto simp: moves_on_def)
      from less.hyps [OF fewer h(1,2)] show ?thesis
        by (rule wp_mono) (use that h in auto)
    qed
    then show ?thesis by (simp add: wp_def Gives)
  qed
  then have "wp (andthen (move r) (\<lambda>_. moveLoop r)) (\<lambda>_ k. game_ok k \<and> alive k < alive g) g"
    if "\<not> (moved (robots g ! r) \<or> alive g = 1)" using that by (simp add: wp_andthen)
  then show ?case
    using less.prems(1) unfolding wp_def step
    by (cases "moved (robots g ! r) \<or> alive g = 1") (auto split: outcome.splits)
qed

definition in_cells :: "(int \<times> int) list \<Rightarrow> bool" where
  "in_cells ps \<longleftrightarrow> (\<forall>(i, j) \<in> set ps. on_grid i j)"

lemma in_cells_simps: "in_cells []" "in_cells ((i, j) # ps) \<longleftrightarrow> on_grid i j \<and> in_cells ps"
  by (simp_all add: in_cells_def)

lemma image_int: "k \<in> int ` {0..<n} \<longleftrightarrow> 0 \<le> k \<and> k < int n"
  by (simp add: image_int_atLeastLessThan)

lemma positions_set: "(i, j) \<in> set positions \<longleftrightarrow> on_grid i j"
  unfolding positions_def on_grid_def set_product set_map set_upt mem_Times_iff fst_conv snd_conv image_int by blast

lemma positions_in: "in_cells positions"
  by (auto simp: in_cells_def positions_set)

lemma kept_by_update:
  assumes "f y = f (xs ! r)"
  shows "f (xs[r := y] ! q) = f (xs ! q)"
proof (cases "r < length xs")
  case True
  with assms show ?thesis by (cases "q = r") simp_all
next
  case False
  then show ?thesis by (simp add: list_update_beyond)
qed

lemma flag_ok: "game_ok (g\<lparr>robots := (robots g)[r := (robots g ! r)\<lparr>moved := b\<rparr>]\<rparr>) = game_ok g"
proof -
  have kept: "r_x ((robots g)[r := (robots g ! r)\<lparr>moved := b\<rparr>] ! q) = r_x (robots g ! q)"
    "r_y ((robots g)[r := (robots g ! r)\<lparr>moved := b\<rparr>] ! q) = r_y (robots g ! q)"
    "robot_ok n ((robots g)[r := (robots g ! r)\<lparr>moved := b\<rparr>] ! q) = robot_ok n (robots g ! q)" for q n
    by (rule kept_by_update, simp add: robot_ok_def)+
  show ?thesis
    by (simp add: game_ok_def grid_ok_def standing_def kept)
qed

lemma reset_flags_spec:
  "game_ok g \<Longrightarrow> in_cells ps \<Longrightarrow> wp (reset_flags ps) (\<lambda>_ h. game_ok h \<and> cells h = cells g \<and> alive h = alive g \<and>
     (\<forall>q. moved (robots h ! q) \<longrightarrow> moved (robots g ! q)) \<and>
     (\<forall>(i, j) \<in> set ps. \<forall>r. cells g (nat i) (nat j) = Some r \<longrightarrow> \<not> moved (robots h ! r))) g"
proof (induction ps arbitrary: g)
  case Nil
  then show ?case by (simp add: wps)
next
  case (Cons p ps)
  obtain i j where p: "p = (i, j)" by fastforce
  have at: "on_grid i j" "in_cells ps" using Cons.prems(2) by (simp_all add: p in_cells_simps)
  show ?case
  proof (cases "cells g (nat i) (nat j)")
    case None
    with Cons.IH [OF Cons.prems(1) at(2)] show ?thesis
      by (simp add: p wps at)
  next
    case (Some r)
    define k where "k = g\<lparr>robots := (robots g)[r := (robots g ! r)\<lparr>moved := False\<rparr>]\<rparr>"
    have k: "game_ok k" "cells k = cells g" "alive k = alive g"
      using Cons.prems(1) by (simp_all add: k_def flag_ok)
    have r: "r < length (robots g)"
      using grid_okD(3) [OF _ Some] Cons.prems(1) by (simp add: game_ok_def)
    have flags: "\<not> moved (robots k ! r)" "moved (robots k ! q) \<Longrightarrow> moved (robots g ! q)" for q
      using r by (auto simp: k_def nth_list_update split: if_splits)
    have "wp (reset_flags ps) (\<lambda>_ h. game_ok h \<and> cells h = cells g \<and> alive h = alive g \<and>
       (\<forall>q. moved (robots h ! q) \<longrightarrow> moved (robots g ! q)) \<and>
       (\<forall>(i, j) \<in> set ((i, j) # ps). \<forall>r. cells g (nat i) (nat j) = Some r \<longrightarrow> \<not> moved (robots h ! r))) k"
      using Cons.IH [OF k(1) at(2)] by (rule wp_mono) (use k flags Some in auto)
    then show ?thesis by (simp add: p wps at Some r k_def)
  qed
qed

lemma move_all_spec:
  "game_ok g \<Longrightarrow> in_cells ps \<Longrightarrow> wp (move_all ps) (\<lambda>_ h. game_ok h \<and>
     (alive h < alive g \<or> h = g \<and> (alive g = 1 \<or>
       (\<forall>(i, j) \<in> set ps. \<forall>r. cells g (nat i) (nat j) = Some r \<longrightarrow> moved (robots g ! r))))) g"
proof (induction ps arbitrary: g)
  case Nil
  then show ?case by (simp add: wps)
next
  case (Cons p ps)
  obtain i j where p: "p = (i, j)" by fastforce
  have at: "on_grid i j" "in_cells ps" using Cons.prems(2) by (simp_all add: p in_cells_simps)
  show ?case
  proof (cases "cells g (nat i) (nat j)")
    case None
    with Cons.IH [OF Cons.prems(1) at(2)] show ?thesis by (simp add: p wps at)
  next
    case (Some r)
    have "at_home g r" using at_homeI [OF _ Some] Cons.prems(1) by (simp add: game_ok_def)
    from moveLoop_spec [OF Cons.prems(1) this]
    have "wp (moveLoop r) (\<lambda>_ h. wp (if alive h = 1 then give () else move_all ps) (\<lambda>_ k. game_ok k \<and>
      (alive k < alive g \<or> k = g \<and> (alive g = 1 \<or>
       (\<forall>(i, j) \<in> set (p # ps). \<forall>r. cells g (nat i) (nat j) = Some r \<longrightarrow> moved (robots g ! r))))) h) g"
    proof (rule wp_mono)
      fix u h
      assume h: "game_ok h \<and> (alive h < alive g \<or> h = g \<and> (moved (robots g ! r) \<or> alive g = 1))"
      have "wp (move_all ps) (\<lambda>_ k. game_ok k \<and> (alive k < alive g \<or> k = g \<and> (alive g = 1 \<or>
         (\<forall>(i, j) \<in> set (p # ps). \<forall>r. cells g (nat i) (nat j) = Some r \<longrightarrow> moved (robots g ! r))))) h"
        using Cons.IH [of h] h at(2) by (auto elim!: wp_mono simp: p Some)
      then show "wp (if alive h = 1 then give () else move_all ps) (\<lambda>_ k. game_ok k \<and>
        (alive k < alive g \<or> k = g \<and> (alive g = 1 \<or>
         (\<forall>(i, j) \<in> set (p # ps). \<forall>r. cells g (nat i) (nat j) = Some r \<longrightarrow> moved (robots g ! r))))) h"
        using h by (auto simp: wps)
    qed
    then show ?thesis
      unfolding p move_all.simps wp_andthen wp_basic Some option.case using at(1)
      by (auto elim!: wp_mono simp: wps)
  qed
qed

text \<open>The last robot is announced as the winner and taken from the grid.\<close>

definition won :: "game \<Rightarrow> bool" where
  "won g \<longleftrightarrow> alive g = 1 \<and> standing g = {} \<and>
     (\<exists>ls n. said g = ls @ [''The '' @ n @ '' wins'', ''Game over!''] \<and> n \<in> r_name ` set (robots g))"

lemma standing_iff: "(i, j) \<in> standing g \<longleftrightarrow> (\<exists>r. cells g i j = Some r)"
  by (auto simp: standing_def)

lemma find_winner_spec:
  assumes "grid_ok g" "alive g = 1" "standing g = {(a, b)}"
  shows "in_cells ps \<Longrightarrow> (int a, int b) \<in> set ps \<Longrightarrow> wp (find_winner ps) (\<lambda>_. won) g"
proof (induction ps)
  case Nil
  then show ?case by simp
next
  case (Cons p ps)
  obtain i j where p: "p = (i, j)" by fastforce
  have at: "on_grid i j" "in_cells ps" using Cons.prems(1) by (simp_all add: p in_cells_simps)
  show ?case
  proof (cases "cells g (nat i) (nat j)")
    case None
    obtain q where "cells g a b = Some q" using assms(3) standing_iff [of a b g] by auto
    then have "p \<noteq> (int a, int b)" using None by (auto simp: p)
    then have "(int a, int b) \<in> set ps" using Cons.prems(2) by auto
    with Cons.IH at show ?thesis by (simp add: p wps None)
  next
    case (Some r)
    have r: "r < length (robots g)" by (rule grid_okD(3) [OF assms(1) Some])
    have "(nat i, nat j) = (a, b)" using assms(3) standing_iff [of "nat i" "nat j" g] Some by auto
    moreover have "(k, l) = (a, b)" if "cells g k l = Some q" for k l q
      using assms(3) standing_iff [of k l g] that by auto
    ultimately have "put_cell i j None (cells g) k l = None" for k l
      by (cases "cells g k l") (auto simp: put_cell_at)
    then show ?thesis
      using r assms(2) by (auto simp: p wps at Some won_def standing_def)
  qed
qed

lemma find_winner_wins: "game_ok g \<Longrightarrow> alive g = 1 \<Longrightarrow> wp (find_winner positions) (\<lambda>_. won) g"
proof -
  assume g: "game_ok g" "alive g = 1"
  then obtain a b where ab: "standing g = {(a, b)}"
    by (auto simp: game_ok_def card_1_singleton_iff)
  then obtain r where "cells g a b = Some r" using standing_iff [of a b g] by auto
  then have "on_grid (int a) (int b)"
    using g grid_okD(1,2) [of g a b r] by (simp add: game_ok_def on_grid_def)
  then show ?thesis
    using find_winner_spec [OF _ g(2) ab positions_in] g(1) by (simp add: positions_set game_ok_def)
qed

text \<open>Each round of the simulation ends the game or takes at least one robot off the grid.\<close>

lemma simulation_round_spec:
  assumes g: "game_ok g" "alive g \<noteq> 1"
  shows "wp simulation_round (\<lambda>_ h. if alive h = 1 then won h else game_ok h \<and> alive h < alive g) g"
proof -
  have "wp (reset_flags positions) (\<lambda>_. wp (move_all positions) (\<lambda>_ h. game_ok h \<and> alive h < alive g)) g"
  proof (rule wp_mono [OF reset_flags_spec [OF g(1) positions_in]])
    fix u h
    assume h: "game_ok h \<and> cells h = cells g \<and> alive h = alive g \<and>
      (\<forall>q. moved (robots h ! q) \<longrightarrow> moved (robots g ! q)) \<and>
      (\<forall>(i, j) \<in> set positions. \<forall>r. cells g (nat i) (nat j) = Some r \<longrightarrow> \<not> moved (robots h ! r))"
    have "standing g \<noteq> {}" using g by (auto simp: game_ok_def)
    then obtain a b r where r: "cells h a b = Some r" using h by (auto simp: standing_def)
    then have ab: "(int a, int b) \<in> set positions"
      using h grid_okD(1,2) [of h a b r] by (simp add: positions_set on_grid_def game_ok_def)
    with h r have "\<not> moved (robots h ! r)" by fastforce
    from h have "game_ok h" by simp
    from move_all_spec [OF this positions_in]
    show "wp (move_all positions) (\<lambda>_ k. game_ok k \<and> alive k < alive g) h"
    proof (rule wp_mono)
      fix u k
      assume k: "game_ok k \<and> (alive k < alive h \<or> k = h \<and> (alive h = 1 \<or>
        (\<forall>(i, j) \<in> set positions. \<forall>r. cells h (nat i) (nat j) = Some r \<longrightarrow> moved (robots h ! r))))"
      have "\<not> (\<forall>(i, j) \<in> set positions. \<forall>r. cells h (nat i) (nat j) = Some r \<longrightarrow> moved (robots h ! r))"
        using ab r \<open>\<not> moved (robots h ! r)\<close> by force
      moreover have "alive h \<noteq> 1" using h g(2) by simp
      ultimately have "alive k < alive h" using k by blast
      then show "game_ok k \<and> alive k < alive g" using k h by simp
    qed
  qed
  then have "wp (reset_flags positions) (\<lambda>_. wp (move_all positions)
    (\<lambda>_ h. wp (if alive h = 1 then find_winner positions else give ())
      (\<lambda>_ k. if alive k = 1 then won k else game_ok k \<and> alive k < alive g) h)) g"
  proof (elim wp_mono)
    fix h
    assume h: "game_ok h \<and> alive h < alive g"
    show "wp (if alive h = 1 then find_winner positions else give ())
      (\<lambda>_ k. if alive k = 1 then won k else game_ok k \<and> alive k < alive g) h"
    proof (cases "alive h = 1")
      case True
      then show ?thesis using h find_winner_wins [of h] by (auto elim!: wp_mono simp: won_def)
    next
      case False
      then show ?thesis using h by (simp add: wps)
    qed
  qed
  then show ?thesis
    unfolding simulation_round_def wp_andthen by (elim wp_mono) (simp add: wps)
qed

lemma main_rounds_spec:
  "game_ok g \<Longrightarrow> alive g \<noteq> 1 \<Longrightarrow> main_rounds g = Some Waits \<or> (\<exists>h. main_rounds g = Some (Gives () h) \<and> won h)"
proof (induction "nat (alive g)" arbitrary: g rule: less_induct)
  case less
  note spec = simulation_round_spec [OF less.prems]
  show ?case
  proof (cases "simulation_round g")
    case Waits
    then show ?thesis by (simp add: main_rounds.simps [of g])
  next
    case (Fails e)
    with wp_fails [OF spec] show ?thesis by blast
  next
    case (Gives u h)
    note after = wp_Gives [OF spec Gives]
    show ?thesis
    proof (cases "alive h = 1")
      case True
      with after show ?thesis by (simp add: main_rounds.simps [of g] Gives)
    next
      case False
      with after have "game_ok h" "alive h < alive g" by simp_all
      moreover from this have "nat (alive h) < nat (alive g)" by (simp add: game_ok_def)
      ultimately show ?thesis
        using less.hyps [of h] False by (simp add: main_rounds.simps [of g] Gives)
    qed
  qed
qed

section \<open>Placing the robots\<close>

text \<open>While the robots are placed, the count is already 25.\<close>

definition placing :: "nat \<Rightarrow> game \<Rightarrow> bool" where
  "placing n g \<longleftrightarrow> grid_ok g \<and> card (standing g) = n \<and> alive g = 25"

lemma placing_draws: "placing n (g\<lparr>draws := ds\<rparr>) = placing n g"
  by (simp add: placing_def grid_ok_def standing_def)

lemma place_one:
  assumes g: "placing n g" and at: "on_grid x y" "cells g (nat x) (nat y) = None"
    and o': "r_x o' = x" "r_y o' = y" "robot_ok 25 o'"
  shows "placing (Suc n) (g\<lparr>cells := put_cell x y (Some (length (robots g))) (cells g), robots := robots g @ [o']\<rparr>)"
    (is "placing _ ?h")
proof -
  have ok: "grid_ok g" using g by (simp add: placing_def)
  have "standing ?h = insert (nat x, nat y) (standing g)"
    by (auto simp: standing_def put_cell_at)
  moreover have "(nat x, nat y) \<notin> standing g" using at(2) by (simp add: standing_iff)
  ultimately have "card (standing ?h) = Suc n"
    using g finite_standing [OF ok] by (simp add: placing_def)
  moreover have "grid_ok ?h"
  proof (rule grid_okI)
    fix i j q
    assume q: "cells ?h i j = Some q"
    show "i < GSIZE \<and> j < GSIZE \<and> q < length (robots ?h) \<and> r_x (robots ?h ! q) = int i \<and>
      r_y (robots ?h ! q) = int j \<and> robot_ok (alive ?h) (robots ?h ! q)"
    proof (cases "(i, j) = (nat x, nat y)")
      case True
      then have "q = length (robots g)" using q by (simp add: put_cell_at)
      then show ?thesis using True at(1) o' g by (auto simp: on_grid_def placing_def)
    next
      case False
      then have "cells g i j = Some q" using q by (auto simp: put_cell_at split: if_splits)
      from grid_okD [OF ok this] show ?thesis by (simp add: nth_append)
    qed
  qed
  ultimately show ?thesis using g by (simp add: placing_def)
qed

lemma wp_if_app:
  "wp (\<lambda>h. if b then m h else m' h) Q g = (if b then wp m Q g else wp m' Q g)"
  by (simp add: wp_def)

lemma place_robot_spec:
  assumes "0 < s" "s \<le> 100" "\<bar>p\<bar> \<le> (if k = Kamikaze then 10 else 210)"
    and "placing n g" "on_grid x y" "cells g (nat x) (nat y) = None"
  shows "wp (place_robot k s p name x y) (\<lambda>_ h. placing (Suc n) h \<and> draws h = draws g) g"
proof -
  define ob where "ob = \<lparr>class_of = k, r_name = name, r_x = x, r_y = y, moved = False,
    r_type = getType k, strength = s, hitpoints = p\<rparr>"
  have "robot_ok 25 ob" using assms(1-3) by (auto simp: ob_def robot_ok_def hp_bound_def split: if_splits)
  then have "placing (Suc n) (g\<lparr>cells := put_cell x y (Some (length (robots g))) (cells g), robots := robots g @ [ob]\<rparr>)"
    using place_one [OF assms(4-6)] by (simp add: ob_def)
  then show ?thesis
    using assms(5) by (simp add: place_robot_def new_robot_def setStrength_def setHitpoints_def setType_def
      setName_def wps ob_def)
qed

lemma place_spec:
  assumes "0 < s" "s \<le> 100" "\<bar>p\<bar> \<le> (if k = Kamikaze then 10 else 210)"
  shows "placing n g \<Longrightarrow> i \<le> ROBOTS \<Longrightarrow> wp (place k s p name i) (\<lambda>_. placing (n + (ROBOTS - i))) g"
proof (induction "length (draws g)" arbitrary: g n i rule: less_induct)
  case less
  show ?case
  proof (cases "i < ROBOTS")
    case False
    then show ?thesis using less.prems by (simp add: wp_def place.simps)
  next
    case True
    have G: "0 < int GSIZE" by (simp add: GSIZE_def)
    have pos: "on_grid (int d mod int GSIZE) (int e mod int GSIZE)" for d e
      using G by (simp add: on_grid_def)
    have again: "wp (place k s p name j) (\<lambda>_. placing (n + (ROBOTS - i))) h"
      if "length (draws h) < length (draws g)" "placing m h" "j \<le> ROBOTS" "m + (ROBOTS - j) = n + (ROBOTS - i)" for j m h
      using less.hyps [OF that(1-3)] that(4) by simp
    have step: "place k s p name i = andthen (rand_mod (int GSIZE)) (\<lambda>x. andthen (rand_mod (int GSIZE)) (\<lambda>y.
       andthen (getAt x y) (\<lambda>c h.
        if c = None
        then andthen (place_robot k s p (name @ fmt_d (int i)) x y) (\<lambda>_. place k s p name (i + 1)) h
        else place k s p name i h)))"
      by (rule ext) (use True in \<open>simp add: place.simps [of k s p name i]\<close>)
    have "wp (getAt x y) (\<lambda>c. wp (\<lambda>h. if c = None
        then andthen (place_robot k s p (name @ fmt_d (int i)) x y) (\<lambda>_. place k s p name (i + 1)) h
        else place k s p name i h) (\<lambda>_. placing (n + (ROBOTS - i)))) (g\<lparr>draws := ds\<rparr>)"
      if xy: "on_grid x y" and ds: "length ds < length (draws g)" for x y ds
    proof (cases "cells g (nat x) (nat y)")
      case None
      have "wp (place_robot k s p (name @ fmt_d (int i)) x y)
          (\<lambda>_. wp (place k s p name (i + 1)) (\<lambda>_. placing (n + (ROBOTS - i)))) (g\<lparr>draws := ds\<rparr>)"
      proof (rule wp_mono)
        show "wp (place_robot k s p (name @ fmt_d (int i)) x y)
            (\<lambda>_ h. placing (Suc n) h \<and> draws h = draws (g\<lparr>draws := ds\<rparr>)) (g\<lparr>draws := ds\<rparr>)"
          using less.prems(1) xy None by (intro place_robot_spec assms) (simp_all add: placing_draws)
      next
        fix u h
        assume "placing (Suc n) h \<and> draws h = draws (g\<lparr>draws := ds\<rparr>)"
        then show "wp (place k s p name (i + 1)) (\<lambda>_. placing (n + (ROBOTS - i))) h"
          using ds True by (intro again [of _ "Suc n"]) simp_all
      qed
      then show ?thesis using xy None by (simp add: getAt_def wps wp_if_app wp_andthen)
    next
      case (Some q)
      then show ?thesis
        using xy again [of "g\<lparr>draws := ds\<rparr>" n i] less.prems ds by (simp add: getAt_def wps placing_draws wp_if_app)
    qed
    then show ?thesis
      by (subst step, unfold wp_andthen) (use G pos in \<open>auto simp: wps\<close>)
  qed
qed

lemma wp_chain: "wp m (\<lambda>_. P) g \<Longrightarrow> (\<And>h. P h \<Longrightarrow> wp n Q h) \<Longrightarrow> wp (andthen m (\<lambda>_. n)) Q g"
  unfolding wp_andthen by (rule wp_mono)

lemma place_five:
  assumes "0 < s" "s \<le> 100" "\<bar>p\<bar> \<le> (if k = Kamikaze then 10 else 210)" "placing n g" "m = n + 5"
  shows "wp (place k s p name 0) (\<lambda>_. placing m) g"
  using place_spec [OF assms(1-4), of 0 name] assms(5) by (simp add: ROBOTS_def)

lemma place_all_spec: "wp place_all (\<lambda>_ g. game_ok g \<and> alive g = 25) (new_game ds)"
proof -
  have start: "placing 0 (new_game ds)"
    by (simp add: placing_def grid_ok_def standing_def new_game_def ROBOTS_def)
  have "wp place_all (\<lambda>_. placing 25) (new_game ds)"
    unfolding place_all_def
    by (rule wp_chain [of _ "placing 5"], (rule place_five [OF _ _ _ start]; simp),
        rule wp_chain [of _ "placing 10"], (rule place_five [where n = 5]; simp),
        rule wp_chain [of _ "placing 15"], (rule place_five [where n = 10]; simp),
        rule wp_chain [of _ "placing 20"], (rule place_five [where n = 15]; simp),
        (rule place_five [where n = 20]; simp))
  then show ?thesis
    by (rule wp_mono) (simp add: placing_def game_ok_def)
qed

section \<open>Every run\<close>

lemma destroy_empty: "standing g = {} \<Longrightarrow> in_cells ps \<Longrightarrow> destroy_cells ps g = Gives () g"
proof (induction ps)
  case Nil
  then show ?case by (simp add: give_def)
next
  case (Cons p ps)
  obtain i j where p: "p = (i, j)" by fastforce
  have "cells g (nat i) (nat j) = None"
    using Cons.prems(1) standing_iff [of "nat i" "nat j" g] by (cases "cells g (nat i) (nat j)") auto
  with Cons show ?case by (simp add: p in_cells_simps andthen_def cell_def)
qed

text \<open>
  C23. A run of the robot game, whatever \<open>rand ()\<close> returns, has no undefined behaviour: it is still
  drawing random numbers, or it has ended with one robot announced as the winner, the count at 1
  and no robot left on the grid, so that the destructor of the grid deletes nothing.
\<close>

theorem game_defined: "play ds = Some Waits \<or> (\<exists>g. play ds = Some (Gives () g) \<and> won g)"
proof (cases "place_all (new_game ds)")
  case Waits
  then show ?thesis by (simp add: play_def)
next
  case (Fails e)
  with wp_fails [OF place_all_spec] show ?thesis by blast
next
  case (Gives u g)
  have g: "game_ok g \<and> alive g = 25" by (rule wp_Gives [OF place_all_spec Gives])
  then show ?thesis
    using main_rounds_spec [of g] destroy_empty [OF _ positions_in] Gives
    by (auto simp: play_def won_def)
qed

end
