(* ===== verification/Robots_Liveness.thy ===== *)
theory Robots_Liveness
  imports Robots_Game
begin

text \<open>
  The robot game can always come to its end. A fight ends after a number of draws that the
  hitpoints of the victim bound; a walk need not meet anyone, but whatever has been drawn, there
  are draws that lead to another robot.
\<close>

section \<open>How long a fight takes\<close>

text \<open>With \<open>n\<close> draws at hand, code \<open>within n\<close> does not wait, and takes at most \<open>n\<close> of them.\<close>

definition within :: "nat \<Rightarrow> 'a act \<Rightarrow> bool" where
  "within n m \<longleftrightarrow> (\<forall>g. n \<le> length (draws g) \<longrightarrow> (case m g of
     Waits \<Rightarrow> False | Fails e \<Rightarrow> True | Gives a h \<Rightarrow> length (draws g) \<le> length (draws h) + n))"

lemma withinD:
  "within n m \<Longrightarrow> n \<le> length (draws g) \<Longrightarrow> m g \<noteq> Waits"
  "within n m \<Longrightarrow> n \<le> length (draws g) \<Longrightarrow> m g = Gives a h \<Longrightarrow> length (draws g) \<le> length (draws h) + n"
  unfolding within_def by (force, force)

lemma withinI:
  "(\<And>g. n \<le> length (draws g) \<Longrightarrow> m g \<noteq> Waits \<and> (\<forall>a h. m g = Gives a h \<longrightarrow> length (draws g) \<le> length (draws h) + n))
    \<Longrightarrow> within n m"
  unfolding within_def by (auto split: outcome.split)

lemma within_andthen:
  assumes "within n m" "\<And>a. within k (f a)"
  shows "within (n + k) (andthen m f)"
proof (rule withinI)
  fix g :: game
  assume g: "n + k \<le> length (draws g)"
  show "andthen m f g \<noteq> Waits \<and>
      (\<forall>a h. andthen m f g = Gives a h \<longrightarrow> length (draws g) \<le> length (draws h) + (n + k))"
  proof (cases "m g")
    case Waits
    with withinD(1) [OF assms(1), of g] g show ?thesis by simp
  next
    case (Fails e)
    then show ?thesis by (simp add: andthen_def)
  next
    case (Gives a h)
    have "length (draws g) \<le> length (draws h) + n" using withinD(2) [OF assms(1) _ Gives] g by simp
    with withinD [OF assms(2), of h a] g show ?thesis by (fastforce simp: andthen_def Gives)
  qed
qed

lemma within_weaken: "within n m \<Longrightarrow> n \<le> k \<Longrightarrow> within k m"
  by (rule withinI) (meson add_le_mono dual_order.trans le_refl withinD)

lemma within_if: "within n m \<Longrightarrow> within n m' \<Longrightarrow> within n (if b then m else m')"
  by simp

lemma within_basic:
  "within 0 (give a)" "within 0 (checked e)" "within 0 (inspect p)" "within 0 (cell x y)"
  "within 0 (setAt x y c)" "within 0 (object r)" "within 0 (change_object r u)"
  "within 0 (announce l)" "within 0 (robot_at x y)" "within 0 (type_of r)" "within 0 decrement"
  "within 1 rand"
  by (auto simp: within_def give_def checked_def inspect_def cell_def setAt_def object_def rd_def
      change_object_def announce_def modify_def robot_at_def type_of_def decrement_def andthen_def rand_def
      split: sum.splits option.splits list.splits)

lemmas within_seq = within_andthen [where n = 0, simplified]
lemmas within_last = within_andthen [where k = 0, simplified]

lemma within_rand_mod: "within 1 (rand_mod n)"
  unfolding rand_mod_def by (intro within_last within_basic)

lemma within_random_damage: "within 1 (random_damage n)"
  unfolding random_damage_def by (intro within_last within_rand_mod within_basic)

lemma within_Humanic: "within (1 + 1) (Humanic_getDamage n)"
  unfolding Humanic_getDamage_def
  by (intro within_andthen [of 1 _ 1] within_random_damage within_last within_rand_mod within_if within_basic)

lemma within_Optimusprime: "within (1 + (1 + (0 + 1))) (Optimusprime_getDamage n)"
  unfolding Optimusprime_getDamage_def
  by (intro within_andthen [of 1 _ "1 + (0 + 1)"] within_andthen [of 1 _ "0 + 1"] within_andthen [of 0 _ 1]
      within_random_damage within_last within_rand_mod within_if within_basic)

lemma within_Roomba: "within (1 + 1) (Roomba_getDamage n)"
  unfolding Roomba_getDamage_def
  by (intro within_andthen [of 1 _ 1] within_random_damage within_last within_basic)

lemma within_getDamage: "within 3 (getDamage a)"
  by (cases "class_of a")
     (auto simp: getDamage_def intro: within_weaken [OF within_Humanic] within_weaken [OF within_Optimusprime]
        within_weaken [OF within_Roomba] within_weaken [OF within_random_damage] within_weaken [OF within_basic(1)])

lemma within_hitMessage: "within 3 (hitMessage a v b)"
  unfolding hitMessage_def setHitpoints_def
  by (intro within_seq [OF within_basic(6)] within_last [OF within_getDamage] within_last [OF within_basic(6)]
      within_last [OF within_basic(8)] within_last [OF within_basic(2)] within_last [OF within_basic(7)]
      within_if within_basic)

lemma within_fight_back: "within 3 (fight_back fx fy tx ty bA bV)"
  unfolding fight_back_def
  by (intro within_seq [OF within_basic(9)] within_last [OF within_hitMessage] within_last [OF within_basic(9)]
      within_last [OF within_basic(10)] within_last [OF within_basic(6)] within_last [OF within_basic(8)]
      within_last [OF within_basic(4)] within_last [OF within_basic(5)] within_last [OF within_basic(11)] within_if within_last within_basic)

lemma within_fight_round: "within (3 + 3) (fight_round fx fy tx ty bA bV)"
  unfolding fight_round_def
  apply (intro within_seq [OF within_basic(9)] within_andthen [OF within_hitMessage] within_seq [OF within_basic(10)] within_if)
  apply (rule within_weaken [of 0], intro within_last within_if within_basic, simp)+
  apply (rule within_fight_back)
  done

text \<open>Every round that does not end the fight takes at least one hitpoint from the victim.\<close>

lemma fight_loop_returns:
  assumes "facing a v fx fy tx ty g" "6 * (nat (hp g v) + 1) \<le> length (draws g)"
  shows "fight_loop fx fy tx ty False False g \<noteq> Waits"
  using assms
proof (induction "nat (hp g v)" arbitrary: g rule: less_induct)
  case less
  show ?case
  proof (cases "fight_round fx fy tx ty False False g")
    case Waits
    with withinD(1) [OF within_fight_round, of g] less.prems(2) show ?thesis by simp
  next
    case (Fails e)
    with wp_fails [OF fight_round_spec [OF less.prems(1)]] show ?thesis by blast
  next
    case (Gives again h)
    note spec = wp_Gives [OF fight_round_spec [OF less.prems(1)] Gives]
    have step: "fight_loop fx fy tx ty False False g =
        (case again of None \<Rightarrow> Gives () h | Some (bA, bV) \<Rightarrow> fight_loop fx fy tx ty bA bV h)"
      by (subst fight_loop.simps) (simp add: andthen_def Gives)
    show ?thesis
    proof (cases again)
      case None
      then show ?thesis by (simp add: step)
    next
      case (Some p)
      from spec [unfolded Some option.case] have *: "p = (False, False)" "cells h = cells g" "alive h = alive g"
        "hp_of_two a v g h" "0 < hp h a" "hp h a < hp g a" "0 < hp h v" "hp h v < hp g v" by blast+
      have "facing a v fx fy tx ty h" by (rule facing_again [OF less.prems(1) *(2-)])
      moreover have "length (draws g) \<le> length (draws h) + 6"
        using withinD(2) [OF within_fight_round _ Gives] less.prems(2) by simp
      then have "6 * (nat (hp h v) + 1) \<le> length (draws h)"
        using less.prems(2) *(7,8) by simp
      ultimately show ?thesis using less.hyps [of h] *(7,8) by (simp add: step Some *(1))
    qed
  qed
qed

lemma fight_returns:
  assumes f: "facing a v fx fy tx ty g" and d: "6 * (nat (hp g v) + 1) \<le> length (draws g)"
  shows "\<exists>h. fight fx fy tx ty g = Gives () h \<and> fought a v fx fy tx ty (flagged a g) h"
proof -
  have "hp (flagged a g) v = hp g v" using f by (simp add: flagged_def facing_def)
  then have loop: "fight_loop fx fy tx ty False False (flagged a g) \<noteq> Waits"
    using fight_loop_returns [OF facing_flagged [OF f]] d by (simp add: flagged_def)
  have "fight fx fy tx ty g = fight_loop fx fy tx ty False False (flagged a g)"
    using f by (simp add: fight_def andthen_def robot_at_def cell_def checked_def change_object_def facing_def flagged_def)
  with loop fight_spec [OF f] show ?thesis by (auto simp: wp_def split: outcome.splits)
qed

section \<open>More draws\<close>

text \<open>Code that has returned does the same when there are more draws at the end.\<close>

definition further :: "nat list \<Rightarrow> game \<Rightarrow> game" where
  "further es g = g\<lparr>draws := draws g @ es\<rparr>"

lemma further_simps [simp]:
  "cells (further es g) = cells g" "robots (further es g) = robots g" "alive (further es g) = alive g"
  "draws (further es g) = draws g @ es" "said (further es g) = said g" "further [] g = g" "further ds (further es g) = further (es @ ds) g"
  by (simp_all add: further_def)

definition extends :: "'a act \<Rightarrow> bool" where
  "extends m \<longleftrightarrow> (\<forall>g a h es. m g = Gives a h \<longrightarrow> m (further es g) = Gives a (further es h))"

lemma extendsD: "extends m \<Longrightarrow> m g = Gives a h \<Longrightarrow> m (further es g) = Gives a (further es h)"
  by (simp add: extends_def)

lemma extends_andthen: "extends m \<Longrightarrow> (\<And>a. extends (f a)) \<Longrightarrow> extends (andthen m f)"
  unfolding extends_def andthen_def by (fastforce split: outcome.splits)

lemma extends_if: "extends m \<Longrightarrow> extends m' \<Longrightarrow> extends (if b then m else m')"
  by simp

lemma extends_inspect: "(\<And>g es. p (further es g) = p g) \<Longrightarrow> extends (inspect p)"
  by (simp add: extends_def inspect_def)

lemma extends_basic:
  "extends (give a)" "extends (checked e)" "extends (inspect alive)" "extends (cell x y)"
  "extends (setAt x y c)" "extends (object r)" "extends (change_object r u)" "extends rand"
  "extends (announce l)" "extends (inspect (\<lambda>g. length (robots g)))"
  by (auto simp: extends_def basic_Gives further_def)

lemma extends_rand_mod: "extends (rand_mod n)"
  unfolding rand_mod_def by (intro extends_andthen extends_basic)

lemma extends_random_damage: "extends (random_damage n)"
  unfolding random_damage_def by (intro extends_andthen extends_basic extends_rand_mod)

lemma extends_getDamage: "extends (getDamage a)"
  by (cases "class_of a")
     (auto simp: getDamage_def Optimusprime_getDamage_def Humanic_getDamage_def Roomba_getDamage_def
       intro!: extends_andthen extends_if extends_basic extends_rand_mod extends_random_damage)

lemma extends_robot_at: "extends (robot_at x y)" "extends (type_of r)" "extends decrement"
  unfolding robot_at_def type_of_def decrement_def
  by (intro extends_andthen extends_basic; auto simp: extends_def modify_def further_def)+

lemma extends_hitMessage: "extends (hitMessage a v b)"
  unfolding hitMessage_def setHitpoints_def
  by (intro extends_andthen extends_if extends_basic extends_getDamage)

lemma extends_fight_round: "extends (fight_round fx fy tx ty bA bV)"
  unfolding fight_round_def fight_back_def
  by (intro extends_andthen extends_if extends_basic extends_hitMessage extends_robot_at)

lemma extends_fight_loop: "extends (fight_loop fx fy tx ty bA bV)"
proof -
  have "fight_loop fx fy tx ty bA bV g = Gives u h \<Longrightarrow> fight_loop fx fy tx ty bA bV (further es g) = Gives u (further es h)" for g u h es
  proof (induction fx fy tx ty bA bV g rule: fight_loop.induct)
    case (1 fx fy tx ty bA bV g)
    from "1.prems" obtain again k where k: "fight_round fx fy tx ty bA bV g = Gives again k"
      and rest: "(case again of None \<Rightarrow> Gives () k | Some (a, v) \<Rightarrow> fight_loop fx fy tx ty a v k) = Gives u h"
      by (subst (asm) fight_loop.simps) (auto simp: andthen_Gives)
    show ?case
      using "1.IH" [OF k] rest extendsD [OF extends_fight_round k, of es]
      by (subst fight_loop.simps) (auto simp: andthen_Gives split: option.splits)
  qed
  then show ?thesis by (simp add: extends_def)
qed

lemma extends_move: "extends (move r)"
  unfolding move_def Let_def moveRobot_def fight_def
  by (intro extends_andthen extends_if extends_basic extends_rand_mod extends_robot_at extends_fight_loop)

lemma extends_moveLoop: "extends (moveLoop r)"
proof -
  have "moveLoop r g = Gives u h \<Longrightarrow> moveLoop r (further es g) = Gives u (further es h)" for g u h es
  proof (induction r g rule: moveLoop.induct)
    case (1 r g)
    show ?case
    proof (cases "r < length (robots g) \<and> \<not> moved (robots g ! r) \<and> alive g \<noteq> 1")
      case True
      have step: "moveLoop r g' = andthen (move r) (\<lambda>_. moveLoop r) g'"
        if "robots g' = robots g" "alive g' = alive g" for g'
        by (subst moveLoop.simps) (use True that in \<open>simp add: andthen_def object_def checked_def\<close>)
      obtain w k where k: "move r g = Gives w k" "moveLoop r k = Gives u h"
        using "1.prems" unfolding step [OF refl refl] andthen_Gives by blast
      have "moveLoop r (further es k) = Gives u (further es h)"
        using "1.IH" [of "robots g ! r" g w k] True k by (simp add: basic_Gives)
      then show ?thesis
        using extendsD [OF extends_move k(1), of es] by (simp add: step andthen_Gives)
    next
      case False
      then show ?thesis using "1.prems"
        by (subst (asm) moveLoop.simps, subst moveLoop.simps)
           (auto simp: andthen_Gives basic_Gives split: if_splits)
    qed
  qed
  then show ?thesis by (simp add: extends_def)
qed

section \<open>What can still happen\<close>

text \<open>Code \<open>can\<close> return: there are further draws with which it does.\<close>

definition can :: "'a act \<Rightarrow> ('a \<Rightarrow> game \<Rightarrow> bool) \<Rightarrow> game \<Rightarrow> bool" where
  "can m P g \<longleftrightarrow> (\<exists>es a h. m (further es g) = Gives a h \<and> P a h)"

lemma canI: "m (further es g) = Gives a h \<Longrightarrow> P a h \<Longrightarrow> can m P g"
  unfolding can_def by blast

lemma can_here: "m g = Gives a h \<Longrightarrow> P a h \<Longrightarrow> can m P g"
  by (rule canI [where es = "[]"]) simp_all

lemma can_further: "can m P (further es g) \<Longrightarrow> can m P g"
  unfolding can_def by (metis further_simps(7))

lemma can_andthen:
  assumes "extends m" "can m (\<lambda>a. can (f a) P) g"
  shows "can (andthen m f) P g"
proof -
  obtain es a h where m: "m (further es g) = Gives a h" and f: "can (f a) P h"
    using assms(2) unfolding can_def by blast
  obtain ds b k where k: "f a (further ds h) = Gives b k" "P b k"
    using f unfolding can_def by blast
  have "m (further (es @ ds) g) = Gives a (further ds h)"
    using extendsD [OF assms(1) m, of ds] by simp
  with k show ?thesis by (intro canI [where es = "es @ ds"]) (auto simp: andthen_def)
qed

text \<open>What holds whenever code returns holds when it can return.\<close>

lemma can_wp: "can m (\<lambda>_ _. True) g \<Longrightarrow> (\<And>es. wp m P (further es g)) \<Longrightarrow> can m P g"
  unfolding can_def by (meson wp_Gives)

lemma can_mono: "can m P g \<Longrightarrow> (\<And>a h. P a h \<Longrightarrow> Q a h) \<Longrightarrow> can m Q g"
  unfolding can_def by blast

lemma can_now: "m g \<noteq> Waits \<Longrightarrow> wp m P g \<Longrightarrow> can m P g"
  by (cases "m g") (auto simp: wp_def intro: canI [where es = "[]"])

lemma further_ok [simp]: "game_ok (further es g) = game_ok g" "at_home (further es g) r = at_home g r"
  by (simp_all add: further_def)

section \<open>A walk to another robot\<close>

definition distance :: "int \<Rightarrow> int \<Rightarrow> robot \<Rightarrow> nat" where
  "distance k l o' = nat (\<bar>r_x o' - k\<bar> + \<bar>r_y o' - l\<bar>)"

text \<open>One move: nothing happens, a step to a free cell, or a fight.\<close>

lemma move_walk:
  assumes g: "game_ok g" and r: "at_home g r" and d: "draws g = d # ds"
    and p: "next_to (int d mod 4) (r_x (robots g ! r)) (r_y (robots g ! r)) = (nx, ny)"
  shows "\<not> on_grid nx ny \<Longrightarrow> move r g = Gives () (g\<lparr>draws := ds\<rparr>)"
    and "on_grid nx ny \<Longrightarrow> cells g (nat nx) (nat ny) = None \<Longrightarrow> move r g = Gives () (stepped r nx ny (g\<lparr>draws := ds\<rparr>))"
    and "on_grid nx ny \<Longrightarrow> cells g (nat nx) (nat ny) = Some v \<Longrightarrow> 6 * (nat (hp g v) + 1) \<le> length ds \<Longrightarrow>
      \<exists>h. move r g = Gives () h \<and> game_ok h \<and> r < length (robots h) \<and> moved (robots h ! r)"
proof -
  have ok: "grid_ok g" using g by (simp add: game_ok_def)
  note home = at_homeD [OF ok r]
  define x y where xy: "x = r_x (robots g ! r)" "y = r_y (robots g ! r)"
  have dirs: "towards (int d mod 4) x y = Inr (nx, ny)"
    using towards_next [of x y "int d mod 4"] home(3) p by (simp add: xy)
  have go: "move r g = (if on_grid nx ny
     then andthen (moveRobot x y nx ny) (\<lambda>_. change_object r (\<lambda>ob. ob\<lparr>r_x := nx, r_y := ny\<rparr>)) (g\<lparr>draws := ds\<rparr>)
     else Gives () (g\<lparr>draws := ds\<rparr>))"
    using home(1) d dirs
    by (simp add: move_def rand_mod_def andthen_def rand_def checked_def object_def give_def xy)
  show "move r g = Gives () (g\<lparr>draws := ds\<rparr>)" if "\<not> on_grid nx ny"
    using go that by simp
  show "move r g = Gives () (stepped r nx ny (g\<lparr>draws := ds\<rparr>))"
    if "on_grid nx ny" "cells g (nat nx) (nat ny) = None"
    using go that home
    by (simp add: xy moveRobot_def andthen_def cell_def setAt_def change_object_def stepped_def relocated_def)
  assume to: "on_grid nx ny" "cells g (nat nx) (nat ny) = Some v" "6 * (nat (hp g v) + 1) \<le> length ds"
  define g' where "g' = g\<lparr>draws := ds\<rparr>"
  have g': "game_ok g'" "at_home g' r" "x = r_x (robots g' ! r)" "y = r_y (robots g' ! r)"
    "cells g' (nat nx) (nat ny) = Some v" "robots g' = robots g" "cells g' = cells g"
    using g r to(2) by (simp_all add: g'_def xy)
  have other: "(x, y) \<noteq> (nx, ny)" using next_to_other [of "int d mod 4" x y] p by (auto simp: xy)
  note vic = grid_okD [OF ok to(2)]
  have far: "(nat x, nat y) \<noteq> (nat nx, nat ny)"
    using on_grid_nat [OF home(3) to(1)] other by (simp add: xy)
  have rv: "r \<noteq> v" using one_cell [OF ok home(2)] to(2) far by (auto simp: xy)
  have "1 \<le> alive g" "alive g \<le> 25" using g by (simp_all add: game_ok_def)
  then have "facing r v x y nx ny g'"
    using home vic to far rv robot_ok_fit [OF home(4)] robot_ok_fit [OF vic(6)]
    by (auto simp: facing_def xy g'_def)
  from fight_returns [OF this] to(3) obtain h where h: "fight x y nx ny g' = Gives () h"
    "fought r v x y nx ny (flagged r g') h" by (auto simp: g'_def)
  note after = fight_ok [OF g'(1-4) to(1) other g'(5) h(2)]
  have "r < length (robots h)" using after(2) home(1) by (simp add: relocated_def g')
  then have "move r g = Gives () (relocated r nx ny h)"
    using go to(1,2) home h(1) by (simp add: xy moveRobot_def andthen_def cell_def change_object_def g'_def relocated_def)
  with after home(1) show "\<exists>h. move r g = Gives () h \<and> game_ok h \<and> r < length (robots h) \<and> moved (robots h ! r)"
    by (simp add: g')
qed

text \<open>A direction that leads nearer to a cell, and the draw for it.\<close>

lemma nearer:
  assumes "on_grid x y" "on_grid k l" "(x, y) \<noteq> (k, l)"
  shows "\<exists>d nx ny. next_to (int d mod 4) x y = (nx, ny) \<and> on_grid nx ny \<and>
    nat (\<bar>nx - k\<bar> + \<bar>ny - l\<bar>) < nat (\<bar>x - k\<bar> + \<bar>y - l\<bar>)"
proof -
  consider "x < k" | "k < x" | "x = k" "y < l" | "x = k" "l < y" using assms(3) by force
  then show ?thesis
  proof cases
    case 1
    then show ?thesis using assms(1,2)
      by (intro exI [of _ 1] exI [of _ "x + 1"] exI [of _ y]) (auto simp: next_to_def on_grid_def)
  next
    case 2
    then show ?thesis using assms(1,2)
      by (intro exI [of _ 3] exI [of _ "x - 1"] exI [of _ y]) (auto simp: next_to_def on_grid_def)
  next
    case 3
    then show ?thesis using assms(1,2)
      by (intro exI [of _ 2] exI [of _ x] exI [of _ "y + 1"]) (auto simp: next_to_def on_grid_def)
  next
    case 4
    then show ?thesis using assms(1,2)
      by (intro exI [of _ 0] exI [of _ x] exI [of _ "y - 1"]) (auto simp: next_to_def on_grid_def)
  qed
qed

lemma moveLoop_moves:
  assumes "r < length (robots g)" "\<not> moved (robots g ! r)" "alive g \<noteq> 1"
  shows "moveLoop r g = andthen (move r) (\<lambda>_. moveLoop r) g"
  using assms by (subst moveLoop.simps) (simp add: andthen_def object_def checked_def)

lemma moveLoop_stops:
  assumes "r < length (robots g)" "moved (robots g ! r) \<or> alive g = 1"
  shows "moveLoop r g = Gives () g"
  using assms by (subst moveLoop.simps) (auto simp: andthen_def object_def checked_def)

text \<open>Whatever the next draw is, the loop can return if it can from where the move leads.\<close>

lemma can_walk:
  assumes g: "game_ok g" and r: "at_home g r" and flag: "\<not> moved (robots g ! r)" "alive g \<noteq> 1"
    and d: "draws g = d # ds" and p: "next_to (int d mod 4) (r_x (robots g ! r)) (r_y (robots g ! r)) = (nx, ny)"
    and stay: "\<not> on_grid nx ny \<Longrightarrow> can (moveLoop r) (\<lambda>_ _. True) (g\<lparr>draws := ds\<rparr>)"
    and walk: "on_grid nx ny \<Longrightarrow> cells g (nat nx) (nat ny) = None \<Longrightarrow>
      can (moveLoop r) (\<lambda>_ _. True) (stepped r nx ny (g\<lparr>draws := ds\<rparr>))"
  shows "can (moveLoop r) (\<lambda>_ _. True) g"
proof -
  have len: "r < length (robots g)" using r by (simp add: at_home_def)
  have loop: "can (moveLoop r) (\<lambda>_ _. True) g" if "can (move r) (\<lambda>_. can (moveLoop r) (\<lambda>_ _. True)) g"
  proof -
    have "can (andthen (move r) (\<lambda>_. moveLoop r)) (\<lambda>_ _. True) g"
      using that by (rule can_andthen [OF extends_move])
    then show ?thesis
      using moveLoop_moves [of r "further es g" for es] len flag by (simp add: can_def)
  qed
  show ?thesis
  proof (cases "on_grid nx ny")
    case False
    show ?thesis by (rule loop [OF can_here, OF move_walk(1) [OF g r d p False] stay [OF False]])
  next
    case True
    show ?thesis
    proof (cases "cells g (nat nx) (nat ny)")
      case None
      show ?thesis by (rule loop [OF can_here, OF move_walk(2) [OF g r d p True None] walk [OF True None]])
    next
      case (Some v)
      define es where "es = replicate (6 * (nat (hp g v) + 1)) (0 :: nat)"
      have "\<exists>h. move r (further es g) = Gives () h \<and> game_ok h \<and> r < length (robots h) \<and> moved (robots h ! r)"
        by (rule move_walk(3) [where d = d and ds = "ds @ es" and nx = nx and ny = ny and v = v])
           (use g r d p True Some in \<open>simp_all add: es_def\<close>)
      then obtain h where h: "move r (further es g) = Gives () h" "r < length (robots h)" "moved (robots h ! r)" by blast
      have "can (moveLoop r) (\<lambda>_ _. True) h"
        by (rule can_here, rule moveLoop_stops [OF h(2)]) (use h(3) in simp_all)
      then show ?thesis by (rule loop [OF canI, OF h(1)])
    qed
  qed
qed

lemma moveLoop_can:
  assumes "game_ok g" "at_home g r" "\<not> moved (robots g ! r)" "alive g \<noteq> 1"
    and "cells g k l = Some v" "v \<noteq> r"
  shows "can (moveLoop r) (\<lambda>_ _. True) g"
  using assms
proof (induction "(length (draws g), distance (int k) (int l) (robots g ! r))" arbitrary: g
    rule: wf_induct_rule [OF wf_lex_prod [OF wf_measure [of id] wf_measure [of id]]])
  case (1 g)
  note ok = "1.prems"(1-4)
  have IH: "can (moveLoop r) (\<lambda>_ _. True) h"
    if "game_ok h" "at_home h r" "\<not> moved (robots h ! r)" "alive h \<noteq> 1" "cells h k l = Some v"
      "length (draws h) < length (draws g) \<or> length (draws h) = length (draws g) \<and>
        distance (int k) (int l) (robots h ! r) < distance (int k) (int l) (robots g ! r)" for h
    by (rule "1.hyps" [OF _ that(1-5) "1.prems"(6)]) (use that(6) in simp)
  have grid: "grid_ok g" using ok(1) by (simp add: game_ok_def)
  note home = at_homeD [OF grid ok(2)]
  have target: "cells (stepped r nx ny (g\<lparr>draws := ds\<rparr>)) k l = Some v"
    if "on_grid nx ny" "cells g (nat nx) (nat ny) = None" for nx ny ds
  proof -
    have "(k, l) \<noteq> (nat nx, nat ny)" using that(2) "1.prems"(5) by auto
    moreover have "(k, l) \<noteq> (nat (r_x (robots g ! r)), nat (r_y (robots g ! r)))"
      using home(2) "1.prems"(5,6) by auto
    ultimately show ?thesis using "1.prems"(5) by (auto simp: put_cell_at)
  qed
  have stepped: "game_ok (stepped r nx ny (g\<lparr>draws := ds\<rparr>))" "at_home (stepped r nx ny (g\<lparr>draws := ds\<rparr>)) r"
    "\<not> moved (robots (stepped r nx ny (g\<lparr>draws := ds\<rparr>)) ! r)" "alive (stepped r nx ny (g\<lparr>draws := ds\<rparr>)) \<noteq> 1"
    if "on_grid nx ny" "cells g (nat nx) (nat ny) = None" for nx ny ds
    using step_ok [of "g\<lparr>draws := ds\<rparr>" r nx ny] ok that home(1) by simp_all
  show ?case
  proof (cases "draws g")
    case (Cons d ds)
    obtain nx ny where p: "next_to (int d mod 4) (r_x (robots g ! r)) (r_y (robots g ! r)) = (nx, ny)" by fastforce
    show ?thesis
    proof (rule can_walk [OF ok Cons p])
      show "can (moveLoop r) (\<lambda>_ _. True) (g\<lparr>draws := ds\<rparr>)"
        by (rule IH) (use ok "1.prems"(5) Cons in simp_all)
    next
      assume to: "on_grid nx ny" "cells g (nat nx) (nat ny) = None"
      show "can (moveLoop r) (\<lambda>_ _. True) (stepped r nx ny (g\<lparr>draws := ds\<rparr>))"
        by (rule IH [OF stepped [OF to] target [OF to]]) (simp add: Cons)
    qed
  next
    case Nil
    have kl: "on_grid (int k) (int l)" using grid_okD(1,2) [OF grid "1.prems"(5)] by (simp add: on_grid_def)
    have "(r_x (robots g ! r), r_y (robots g ! r)) \<noteq> (int k, int l)"
      using home(2) "1.prems"(5,6) by auto
    from nearer [OF home(3) kl this] obtain d nx ny where
      p: "next_to (int d mod 4) (r_x (robots g ! r)) (r_y (robots g ! r)) = (nx, ny)" and to: "on_grid nx ny"
      and near: "nat (\<bar>nx - int k\<bar> + \<bar>ny - int l\<bar>) < distance (int k) (int l) (robots g ! r)"
      unfolding distance_def by blast
    have "can (moveLoop r) (\<lambda>_ _. True) (further [d] g)"
    proof (rule can_walk)
      show "draws (further [d] g) = d # []" using Nil by simp
      show "can (moveLoop r) (\<lambda>_ _. True) (stepped r nx ny ((further [d] g)\<lparr>draws := []\<rparr>))"
        if "cells (further [d] g) (nat nx) (nat ny) = None"
      proof -
        have free: "cells g (nat nx) (nat ny) = None" using that by simp
        have "can (moveLoop r) (\<lambda>_ _. True) (stepped r nx ny (g\<lparr>draws := []\<rparr>))"
          by (rule IH [OF stepped [OF to free] target [OF to free]])
             (use Nil near home(1) in \<open>simp add: distance_def\<close>)
        then show ?thesis by (simp add: further_def)
      qed
    qed (use ok p to in simp_all)
    then show ?thesis by (rule can_further)
  qed
qed

section \<open>The whole game\<close>

text \<open>As long as two robots are left, the loop of any robot has someone to meet.\<close>

lemma someone_else:
  assumes "game_ok g" "alive g \<noteq> 1"
  shows "\<exists>k l v. cells g k l = Some v \<and> v \<noteq> r"
proof (rule ccontr)
  assume "\<not> ?thesis"
  then have only: "v = r" if "cells g k l = Some v" for k l v using that by blast
  have ok: "grid_ok g" using assms(1) by (simp add: game_ok_def)
  have "p = q" if p: "p \<in> standing g" "q \<in> standing g" for p q
  proof -
    obtain i j k l where ij: "p = (i, j)" "q = (k, l)" by (cases p, cases q) blast
    then have "cells g i j = Some r" "cells g k l = Some r"
      using p only unfolding ij standing_iff by blast+
    then show ?thesis using one_cell [OF ok] ij by blast
  qed
  then have "card (standing g) \<le> Suc 0"
    using card_le_Suc0_iff_eq [OF finite_standing [OF ok]] by blast
  then show False using assms by (simp add: game_ok_def)
qed

lemma moveLoop_can_return:
  assumes "game_ok g" "at_home g r"
  shows "can (moveLoop r) (\<lambda>_. game_ok) g"
proof -
  have len: "r < length (robots g)" using assms(2) by (simp add: at_home_def)
  have "can (moveLoop r) (\<lambda>_ _. True) g"
  proof (cases "moved (robots g ! r) \<or> alive g = 1")
    case True
    show ?thesis by (rule can_here, rule moveLoop_stops [OF len True]) simp
  next
    case False
    with someone_else [OF assms(1), of r] moveLoop_can [OF assms] show ?thesis by blast
  qed
  then show ?thesis
    by (rule can_wp) (rule wp_mono [OF moveLoop_spec], use assms in simp_all)
qed

lemma extends_move_all: "extends (move_all ps)"
proof (induction ps)
  case Nil
  then show ?case by (simp add: extends_basic)
next
  case (Cons p ps)
  obtain i j where p: "p = (i, j)" by fastforce
  have "extends (case c of None \<Rightarrow> move_all ps
     | Some r \<Rightarrow> andthen (moveLoop r) (\<lambda>_. andthen (inspect alive) (\<lambda>n. if n = 1 then give () else move_all ps)))" for c
    using Cons by (cases c) (auto intro!: extends_andthen extends_moveLoop extends_basic extends_if)
  then show ?case by (simp add: p extends_andthen extends_basic)
qed

lemma move_all_can: "game_ok g \<Longrightarrow> in_cells ps \<Longrightarrow> can (move_all ps) (\<lambda>_ _. True) g"
proof (induction ps arbitrary: g)
  case Nil
  then show ?case by (auto intro: can_here simp: give_def)
next
  case (Cons p ps)
  obtain i j where p: "p = (i, j)" by fastforce
  have at: "on_grid i j" "in_cells ps" using Cons.prems(2) by (simp_all add: p in_cells_simps)
  show ?case
  proof (cases "cells g (nat i) (nat j)")
    case None
    then show ?thesis
      using Cons.IH [OF Cons.prems(1) at(2)] at(1) by (simp add: p can_def andthen_def cell_def)
  next
    case (Some r)
    have home: "at_home g r" using at_homeI [OF _ Some] Cons.prems(1) by (simp add: game_ok_def)
    have "can (moveLoop r) (\<lambda>_. can (andthen (inspect alive) (\<lambda>n. if n = 1 then give () else move_all ps)) (\<lambda>_ _. True)) g"
    proof (rule can_mono [OF moveLoop_can_return [OF Cons.prems(1) home]])
      fix u h
      assume "game_ok h"
      with Cons.IH [OF this at(2)]
      show "can (andthen (inspect alive) (\<lambda>n. if n = 1 then give () else move_all ps)) (\<lambda>_ _. True) h"
        by (cases "alive h = 1") (auto simp: can_def andthen_def inspect_def give_def)
    qed
    then have "can (andthen (moveLoop r) (\<lambda>_. andthen (inspect alive) (\<lambda>n. if n = 1 then give () else move_all ps))) (\<lambda>_ _. True) g"
      by (rule can_andthen [OF extends_moveLoop])
    then show ?thesis using at(1) Some by (simp add: p can_def andthen_def cell_def)
  qed
qed

text \<open>The other loops of a round draw nothing.\<close>

lemma within_scan: "within 0 (reset_flags ps)" "within 0 (find_winner ps)"
proof (induction ps)
  case Nil
  case 1
  show ?case by (simp add: within_basic)
  case 2
  show ?case by (simp add: within_basic)
next
  case (Cons p ps)
  obtain i j where p: "p = (i, j)" by fastforce
  case 1
  have "within 0 (case c of None \<Rightarrow> give () | Some r \<Rightarrow> change_object r (\<lambda>o'. o'\<lparr>moved := False\<rparr>))" for c
    by (cases c) (simp_all add: within_basic)
  then show ?case using Cons(1) unfolding p reset_flags.simps by (intro within_seq within_basic)
  case 2
  have "within 0 (case c of None \<Rightarrow> find_winner ps
     | Some r \<Rightarrow> andthen (object r) (\<lambda>o'. andthen (announce (''The '' @ r_name o' @ '' wins'')) (\<lambda>_.
         andthen (announce ''Game over!'') (\<lambda>_. setAt i j None))))" for c
    using Cons(2) by (cases c) (auto intro!: within_seq within_basic)
  then show ?case unfolding p find_winner.simps by (intro within_seq within_basic)
qed

lemma extends_scan: "extends (reset_flags ps)" "extends (find_winner ps)"
proof (induction ps)
  case Nil
  case 1
  show ?case by (simp add: extends_basic)
  case 2
  show ?case by (simp add: extends_basic)
next
  case (Cons p ps)
  obtain i j where p: "p = (i, j)" by fastforce
  case 1
  have "extends (case c of None \<Rightarrow> give () | Some r \<Rightarrow> change_object r (\<lambda>o'. o'\<lparr>moved := False\<rparr>))" for c
    by (cases c) (simp_all add: extends_basic)
  then show ?case using Cons(1) unfolding p reset_flags.simps by (intro extends_andthen extends_basic)
  case 2
  have "extends (case c of None \<Rightarrow> find_winner ps
     | Some r \<Rightarrow> andthen (object r) (\<lambda>o'. andthen (announce (''The '' @ r_name o' @ '' wins'')) (\<lambda>_.
         andthen (announce ''Game over!'') (\<lambda>_. setAt i j None))))" for c
    using Cons(2) by (cases c) (auto intro!: extends_andthen extends_basic)
  then show ?case unfolding p find_winner.simps by (intro extends_andthen extends_basic)
qed

lemma extends_simulation: "extends simulation_round"
  unfolding simulation_round_def by (intro extends_andthen extends_if extends_scan extends_move_all extends_basic)

lemma simulation_round_can:
  assumes g: "game_ok g" "alive g \<noteq> 1"
  shows "can simulation_round (\<lambda>_ h. if alive h = 1 then won h else game_ok h \<and> alive h < alive g) g"
proof -
  have "can (reset_flags positions) (\<lambda>_. game_ok) g"
    using withinD(1) [OF within_scan(1), of g] wp_mono [OF reset_flags_spec [OF g(1) positions_in]]
    by (intro can_now) auto
  moreover have "can (andthen (move_all positions) (\<lambda>_.
     andthen (inspect alive) (\<lambda>n. if n = 1 then find_winner positions else give ()))) (\<lambda>_ _. True) h"
    if "game_ok h" for h
  proof (rule can_andthen [OF extends_move_all])
    show "can (move_all positions) (\<lambda>_. can (andthen (inspect alive)
      (\<lambda>n. if n = 1 then find_winner positions else give ())) (\<lambda>_ _. True)) h"
    proof (rule can_mono)
      show "can (move_all positions) (\<lambda>_. game_ok) h"
        by (rule can_wp [OF move_all_can [OF that positions_in]])
           (rule wp_mono [OF move_all_spec], use that positions_in in simp_all)
      fix u k
      assume k: "game_ok k"
      show "can (andthen (inspect alive) (\<lambda>n. if n = 1 then find_winner positions else give ())) (\<lambda>_ _. True) k"
      proof (cases "alive k = 1")
        case True
        have "can (find_winner positions) (\<lambda>_ _. True) k"
          using withinD(1) [OF within_scan(2), of k] wp_mono [OF find_winner_wins [OF k True]]
          by (intro can_now) auto
        then show ?thesis using True by (simp add: can_def andthen_def inspect_def)
      next
        case False
        then show ?thesis by (intro can_here [of _ _ "()" k]) (simp_all add: andthen_def inspect_def give_def)
      qed
    qed
  qed
  ultimately have "can simulation_round (\<lambda>_ _. True) g"
    unfolding simulation_round_def by (intro can_andthen [OF extends_scan(1)]) (auto elim: can_mono)
  then show ?thesis
    by (rule can_wp, intro wp_mono [OF simulation_round_spec]) (use g in \<open>simp_all split: if_splits\<close>)
qed

lemma main_rounds_can:
  "game_ok g \<Longrightarrow> alive g \<noteq> 1 \<Longrightarrow> \<exists>es h. main_rounds (further es g) = Some (Gives () h) \<and> won h"
proof (induction "nat (alive g)" arbitrary: g rule: less_induct)
  case less
  from simulation_round_can [OF less.prems] obtain es h where h: "simulation_round (further es g) = Gives () h"
    "if alive h = 1 then won h else game_ok h \<and> alive h < alive g"
    unfolding can_def by auto
  show ?case
  proof (cases "alive h = 1")
    case True
    with h show ?thesis by (intro exI [of _ es] exI [of _ h]) (simp add: main_rounds.simps [of "further es g"])
  next
    case False
    with h(2) have k: "game_ok h" "nat (alive h) < nat (alive g)" by (auto simp: game_ok_def)
    from less.hyps [OF k(2,1) False] obtain ds k where "main_rounds (further ds h) = Some (Gives () k)" "won k" by blast
    moreover have "simulation_round (further (es @ ds) g) = Gives () (further ds h)"
      using extendsD [OF extends_simulation h(1), of ds] by simp
    ultimately show ?thesis
      using False by (intro exI [of _ "es @ ds"] exI [of _ k]) (simp add: main_rounds.simps [of "further (es @ ds) g"])
  qed
qed

section \<open>Placing can end\<close>

lemma free_cell:
  assumes "placing n g" "n < 100"
  shows "\<exists>d e. on_grid (int d mod int GSIZE) (int e mod int GSIZE) \<and>
    cells g (nat (int d mod int GSIZE)) (nat (int e mod int GSIZE)) = None"
proof -
  have "\<not> {..<GSIZE} \<times> {..<GSIZE} \<subseteq> standing g"
  proof
    assume "{..<GSIZE} \<times> {..<GSIZE} \<subseteq> standing g"
    then have "card ({..<GSIZE} \<times> {..<GSIZE}) \<le> card (standing g)"
      using assms(1) by (intro card_mono finite_standing) (simp add: placing_def)
    then show False using assms by (simp add: placing_def GSIZE_def)
  qed
  then obtain i j where ij: "i < GSIZE" "j < GSIZE" "(i, j) \<notin> standing g" by blast
  then have "int i mod int GSIZE = int i" "int j mod int GSIZE = int j" by simp_all
  with ij show ?thesis
    by (intro exI [of _ i] exI [of _ j]) (auto simp: on_grid_def standing_def)
qed

lemma within_place_robot: "within 0 (place_robot k s p name x y)"
  unfolding place_robot_def new_robot_def setStrength_def setHitpoints_def setType_def setName_def
  by (auto simp: within_def andthen_def inspect_def modify_def setAt_def change_object_def give_def)

lemma extends_place_robot: "extends (place_robot k s p name x y)"
  unfolding place_robot_def new_robot_def setStrength_def setHitpoints_def setType_def setName_def
  by (intro extends_andthen extends_basic) (auto simp: extends_def modify_def further_def)

text \<open>One round of a placement loop: another attempt, or the next robot.\<close>

lemma place_round:
  assumes "0 < s" "s \<le> 100" "\<bar>p\<bar> \<le> (if k = Kamikaze then 10 else 210)"
    and g: "placing n g" and i: "i < ROBOTS" and d: "draws g = d # e # ds"
  shows "cells g (nat (int d mod int GSIZE)) (nat (int e mod int GSIZE)) \<noteq> None \<Longrightarrow>
      place k s p name i (further es g) = place k s p name i (further es (g\<lparr>draws := ds\<rparr>))"
    and "cells g (nat (int d mod int GSIZE)) (nat (int e mod int GSIZE)) = None \<Longrightarrow>
      \<exists>h. placing (Suc n) h \<and> (\<forall>es. place k s p name i (further es g) = place k s p name (i + 1) (further es h))"
proof -
  define x y where xy: "x = int d mod int GSIZE" "y = int e mod int GSIZE"
  have on: "on_grid x y" by (simp add: xy on_grid_def GSIZE_def)
  have G: "int GSIZE \<noteq> 0" "\<bar>int GSIZE\<bar> = int GSIZE" by (simp_all add: GSIZE_def)
  let ?g = "g\<lparr>draws := ds\<rparr>" and ?m = "place_robot k s p (name @ fmt_d (int i)) x y"
  have step: "place k s p name i (further es g) = (if cells g (nat x) (nat y) = None
    then andthen ?m (\<lambda>_. place k s p name (i + 1)) (further es ?g)
    else place k s p name i (further es ?g))" for es
    by (subst place.simps) (use i d on G in \<open>simp add: andthen_def rand_mod_def rand_def checked_def
        getAt_def cell_def xy further_def\<close>)
  show "place k s p name i (further es g) = place k s p name i (further es ?g)"
    if "cells g (nat (int d mod int GSIZE)) (nat (int e mod int GSIZE)) \<noteq> None"
    using step that by (simp add: xy)
  assume free: "cells g (nat (int d mod int GSIZE)) (nat (int e mod int GSIZE)) = None"
  have spec: "wp ?m (\<lambda>_ h. placing (Suc n) h \<and> draws h = draws ?g) ?g"
    using g free on by (intro place_robot_spec assms(1-3)) (simp_all add: placing_draws xy)
  obtain h where h: "?m ?g = Gives () h"
    using wp_fails [OF spec] withinD(1) [OF within_place_robot, of ?g] by (cases "?m ?g") auto
  have "placing (Suc n) h" using wp_Gives [OF spec h] by simp
  moreover have "place k s p name i (further es g) = place k s p name (i + 1) (further es h)" for es
    using step free extendsD [OF extends_place_robot h, of es] by (simp add: xy andthen_def)
  ultimately show "\<exists>h. placing (Suc n) h \<and>
      (\<forall>es. place k s p name i (further es g) = place k s p name (i + 1) (further es h))" by blast
qed

lemma place_can:
  assumes k: "0 < s" "s \<le> 100" "\<bar>p\<bar> \<le> (if k = Kamikaze then 10 else 210)"
  shows "placing n g \<Longrightarrow> n + (ROBOTS - i) \<le> 25 \<Longrightarrow> can (place k s p name i) (\<lambda>_ _. True) g"
proof (induction "(ROBOTS - i, length (draws g))" arbitrary: g i n
    rule: wf_induct_rule [OF wf_lex_prod [OF wf_measure [of id] wf_measure [of id]]])
  case (1 g i n)
  show ?case
  proof (cases "i < ROBOTS")
    case False
    then have "place k s p name i g = Gives () g" by (subst place.simps) simp
    then show ?thesis by (rule can_here) simp
  next
    case i: True
    have again: "can (place k s p name i) (\<lambda>_ _. True) h"
      if "placing n h" "length (draws h) < length (draws g)" for h
      by (rule "1.hyps" [OF _ that(1) "1.prems"(2)]) (use that(2) in simp)
    have next': "can (place k s p name (i + 1)) (\<lambda>_ _. True) h" if "placing (Suc n) h" for h
      by (rule "1.hyps" [OF _ that]) (use i "1.prems"(2) in auto)
    have here: "can (place k s p name i) (\<lambda>_ _. True) g'"
      if g': "placing n g'" "draws g' = d # e # ds"
        and short: "cells g' (nat (int d mod int GSIZE)) (nat (int e mod int GSIZE)) \<noteq> None \<Longrightarrow> length ds < length (draws g)"
      for g' d e ds
    proof (cases "cells g' (nat (int d mod int GSIZE)) (nat (int e mod int GSIZE))")
      case None
      from place_round(2) [OF k g'(1) i g'(2) None] obtain h where h: "placing (Suc n) h"
        "\<forall>es. place k s p name i (further es g') = place k s p name (i + 1) (further es h)" by blast
      from next' [OF h(1)] h(2) show ?thesis by (simp add: can_def)
    next
      case (Some q)
      then have taken: "cells g' (nat (int d mod int GSIZE)) (nat (int e mod int GSIZE)) \<noteq> None" by simp
      have "can (place k s p name i) (\<lambda>_ _. True) (g'\<lparr>draws := ds\<rparr>)"
        using g' short [OF taken] by (intro again) (simp_all add: placing_draws)
      then show ?thesis using place_round(1) [OF k g'(1) i g'(2) taken] by (simp add: can_def)
    qed
    consider (nil) "draws g = []" | (one) d where "draws g = [d]" | (two) d e ds where "draws g = d # e # ds"
      by (metis list.exhaust)
    then show ?thesis
    proof cases
      case nil
      obtain d e where "cells g (nat (int d mod int GSIZE)) (nat (int e mod int GSIZE)) = None"
        using free_cell [OF "1.prems"(1)] "1.prems"(2) by auto
      then have "can (place k s p name i) (\<lambda>_ _. True) (further [d, e] g)"
        using nil "1.prems"(1) by (intro here [of _ d e "[]"]) (simp_all add: further_def placing_draws)
      then show ?thesis by (rule can_further)
    next
      case one
      then have "can (place k s p name i) (\<lambda>_ _. True) (further [0] g)"
        using "1.prems"(1) by (intro here [of _ d 0 "[]"]) (simp_all add: further_def placing_draws)
      then show ?thesis by (rule can_further)
    next
      case two
      then show ?thesis using "1.prems"(1) by (intro here [of _ d e ds]) simp_all
    qed
  qed
qed

lemma extends_place: "extends (place k s p name i)"
proof -
  have "place k s p name i g = Gives u h \<Longrightarrow> place k s p name i (further es g) = Gives u (further es h)" for g u h es
  proof (induction k s p name i g rule: place.induct)
    case (1 k s p name i g)
    show ?case
    proof (cases "i < ROBOTS")
      case True
      from "1.prems" True obtain x g1 y g2 c g3 where r: "rand_mod (int GSIZE) g = Gives x g1"
        "rand_mod (int GSIZE) g1 = Gives y g2" "getAt x y g2 = Gives c g3"
        and rest: "(if c = None
          then andthen (place_robot k s p (name @ fmt_d (int i)) x y) (\<lambda>_. place k s p name (i + 1)) g3
          else place k s p name i g3) = Gives u h"
        unfolding place.simps [of k s p name i g] if_P [OF True] andthen_Gives by blast
      have e: "rand_mod (int GSIZE) (further es g) = Gives x (further es g1)"
        "rand_mod (int GSIZE) (further es g1) = Gives y (further es g2)"
        "getAt x y (further es g2) = Gives c (further es g3)"
        using extendsD [OF extends_rand_mod r(1)] extendsD [OF extends_rand_mod r(2)] r(3)
        by (auto simp: getAt_def basic_Gives split: if_splits)
      show ?thesis
      proof (cases "c = None")
        case None: True
        obtain w g4 where m: "place_robot k s p (name @ fmt_d (int i)) x y g3 = Gives w g4"
          "place k s p name (i + 1) g4 = Gives u h" using rest None by (auto simp: andthen_Gives)
        have "place k s p name (i + 1) (further es g4) = Gives u (further es h)"
          by (rule "1.IH"(1) [OF True r None m])
        then show ?thesis
          using True None e extendsD [OF extends_place_robot m(1), of es]
          by (simp add: place.simps [of k s p name i "further es g"] andthen_def)
      next
        case False
        have "place k s p name i (further es g3) = Gives u (further es h)"
          using "1.IH"(2) [OF True r False] rest False by simp
        then show ?thesis using True False e by (auto simp: place.simps [of k s p name i "further es g"] andthen_def)
      qed
    next
      case False
      then show ?thesis using "1.prems" by (simp add: place.simps)
    qed
  qed
  then show ?thesis by (simp add: extends_def)
qed

lemma extends_place_all: "extends place_all"
  unfolding place_all_def by (intro extends_andthen extends_place)

lemma place_five_can:
  assumes "0 < s" "s \<le> 100" "\<bar>p\<bar> \<le> (if k = Kamikaze then 10 else 210)" "placing n g" "n \<le> 20" "m = n + 5"
  shows "can (place k s p name 0) (\<lambda>_. placing m) g"
proof (rule can_wp)
  show "can (place k s p name 0) (\<lambda>_ _. True) g"
    using place_can [OF assms(1-4), of 0 name] assms(5) by (simp add: ROBOTS_def)
  show "wp (place k s p name 0) (\<lambda>_. placing m) (further es g)" for es
    using assms by (intro place_five [where n = n]) (simp_all add: further_def placing_draws)
qed

lemma can_chain:
  "extends m \<Longrightarrow> can m (\<lambda>_. P) g \<Longrightarrow> (\<And>h. P h \<Longrightarrow> can m' Q h) \<Longrightarrow> can (andthen m (\<lambda>_. m')) Q g"
  by (rule can_andthen) (auto elim: can_mono)

lemma place_all_can: "can place_all (\<lambda>_ g. game_ok g \<and> alive g = 25) (new_game ds)"
proof -
  have start: "placing 0 (new_game ds)"
    by (simp add: placing_def grid_ok_def standing_def new_game_def ROBOTS_def)
  have "can place_all (\<lambda>_. placing 25) (new_game ds)"
    unfolding place_all_def
    by (rule can_chain [OF extends_place, of _ _ _ _ _ "placing 5"], (rule place_five_can [OF _ _ _ start]; simp),
        rule can_chain [OF extends_place, of _ _ _ _ _ "placing 10"], (rule place_five_can [where n = 5]; simp),
        rule can_chain [OF extends_place, of _ _ _ _ _ "placing 15"], (rule place_five_can [where n = 10]; simp),
        rule can_chain [OF extends_place, of _ _ _ _ _ "placing 20"], (rule place_five_can [where n = 15]; simp),
        (rule place_five_can [where n = 20]; simp))
  then show ?thesis
    by (rule can_mono) (simp add: placing_def game_ok_def)
qed

text \<open>
  C24. However the game has gone so far, it can still end: every list of draws can be continued
  so that the run ends with a winner.
\<close>

theorem game_can_end: "\<exists>es g. play (ds @ es) = Some (Gives () g) \<and> won g"
proof -
  from place_all_can [of ds] obtain es g where g: "place_all (further es (new_game ds)) = Gives () g"
    "game_ok g" "alive g = 25" unfolding can_def by auto
  from main_rounds_can [OF g(2)] g(3) obtain fs h where h: "main_rounds (further fs g) = Some (Gives () h)" "won h" by auto
  have "place_all (new_game (ds @ es @ fs)) = Gives () (further fs g)"
    using extendsD [OF extends_place_all g(1), of fs] by (simp add: further_def new_game_def)
  moreover have "destroy_cells positions h = Gives () h"
    using h(2) by (intro destroy_empty positions_in) (simp add: won_def)
  ultimately show ?thesis
    using h by (intro exI [of _ "es @ fs"] exI [of _ h]) (simp add: play_def)
qed

end
