(* ===== verification/Robots_Properties.thy ===== *)
theory Robots_Properties
  imports Robots_Liveness
begin

text \<open>
  The properties of a fight in the robot game, on the states of running games: how it ends, and
  the robots that it announces as dead but leaves on the grid.
\<close>

section \<open>Every fight ends\<close>


section \<open>Dead robots\<close>

text \<open>
  When a kamikaze attacks a robot that has no more hitpoints than itself, the victim is
  announced as dead but stays in its cell, with no hitpoints left; only the kamikaze is gone.
\<close>

theorem kamikaze_leaves_dead:
  assumes g: "game_ok g" and a: "cells g i j = Some a" and v: "cells g k l = Some v" and ne: "(i, j) \<noteq> (k, l)"
    and K: "class_of (robots g ! a) = Kamikaze" and hp: "hp g v \<le> hp g a"
  shows "\<exists>h. fight (int i) (int j) (int k) (int l) g = Gives () h \<and>
    died_line (r_name (robots g ! v)) \<in> set (said h) \<and> cells h k l = Some v \<and> hp h v \<le> 0 \<and>
    standing h = standing g - {(i, j)} \<and> alive h = alive g - 1"
proof -
  have ok: "grid_ok g" "1 \<le> alive g" "alive g \<le> 25" using g by (simp_all add: game_ok_def)
  note at = grid_okD [OF ok(1) a] and vt = grid_okD [OF ok(1) v]
  have av: "a \<noteq> v" using one_cell [OF ok(1) a] v ne by auto
  have "fit_to_fight (robots g ! a)" "fit_to_fight (robots g ! v)"
    using robot_ok_fit [OF at(6) ok(2)] robot_ok_fit [OF vt(6) ok(2)] by simp_all
  then have sub: "sub_int (hp g v) (hp g a) = Inr (hp g v - hp g a)"
    by (auto simp: fit_to_fight_def sub_int_def in_signed_32 abs_le_iff)
  have on: "on_grid (int i) (int j)" "on_grid (int k) (int l)"
    using at vt by (simp_all add: on_grid_def)
  have dec: "sub_int (alive g) 1 = Inr (alive g - 1)"
    using ok by (simp add: sub_int_def in_signed_32)
  let ?rs = "(robots g)[a := (robots g ! a)\<lparr>moved := True\<rparr>, v := (robots g ! v)\<lparr>hitpoints := hp g v - hp g a\<rparr>]"
  let ?ls = "said g @ [hits_line ((robots g ! a)\<lparr>moved := True\<rparr>) (robots g ! v) (hp g a),
    died_line (r_name (robots g ! v)), died_line (r_name (robots g ! a))]"
  define h where "h = g\<lparr>robots := ?rs, said := ?ls, cells := put_cell (int i) (int j) None (cells g), alive := alive g - 1\<rparr>"
  have "fight_round (int i) (int j) (int k) (int l) False False (flagged a g) = Gives None h"
    using at(3) vt(3) av a v on ne K hp sub dec
    by (simp add: fight_round_def hitMessage_def getDamage_def setHitpoints_def robot_at_def type_of_def
        andthen_def cell_def checked_def object_def announce_def modify_def change_object_def give_def setAt_def
        decrement_def inspect_def type_defs flagged_def h_def)
  then have "fight_loop (int i) (int j) (int k) (int l) False False (flagged a g) = Gives () h"
    by (subst fight_loop.simps) (simp add: andthen_def)
  then have "fight (int i) (int j) (int k) (int l) g = Gives () h"
    using a on at(3) by (simp add: fight_def andthen_def robot_at_def cell_def checked_def change_object_def flagged_def)
  moreover have "cells h k l = Some v" "standing h = standing g - {(i, j)}"
    using v ne by (auto simp: h_def put_cell_at standing_def)
  moreover have "hp h v \<le> 0" using vt(3) hp by (simp add: h_def)
  ultimately show ?thesis by (intro exI [of _ h]) (simp add: h_def)
qed

section \<open>Witnesses\<close>

text \<open>A kamikaze and a roomba are left, side by side.\<close>

definition duel :: game where
  "duel = \<lparr>cells = (\<lambda>i j. if i = 0 \<and> j = 0 then Some 0 else if i = 0 \<and> j = 1 then Some 1 else None),
     robots = [\<lparr>class_of = Kamikaze, r_name = ''kamikaze_0'', r_x = 0, r_y = 0, moved = False,
         r_type = 4, strength = 10, hitpoints = 10\<rparr>,
       \<lparr>class_of = Roomba, r_name = ''roomba_0'', r_x = 0, r_y = 1, moved = False,
         r_type = 2, strength = 3, hitpoints = 10\<rparr>],
     alive = 2, draws = replicate 66 1, said = []\<rparr>"

lemma duel_ok: "game_ok duel"
proof -
  have "standing duel = {(0, 0), (0, 1)}" by (auto simp: standing_def duel_def split: if_splits)
  moreover have "grid_ok duel"
    by (rule grid_okI) (auto simp: duel_def GSIZE_def robot_ok_def hp_bound_def split: if_splits)
  ultimately show ?thesis by (simp add: game_ok_def duel_def)
qed


theorem kamikaze_leaves_dead_witness:
  "\<exists>h. fight 0 0 0 1 duel = Gives () h \<and> died_line ''roomba_0'' \<in> set (said h) \<and> cells h 0 1 = Some 1 \<and> hp h 1 \<le> 0 \<and>
    standing h = standing duel - {(0, 0)} \<and> alive h = 1"
  using kamikaze_leaves_dead [OF duel_ok, of 0 0 0 0 1 1] by (simp add: duel_def)

end
