(* ===== verification/Catalog.thy ===== *)
theory Catalog
  imports Cxx_Console "HOL-Library.List_Lexorder" "HOL-Library.Char_ord"
begin

text \<open>
  The catalog of records with typed fields (Object Oriented Programming Spring/PA5/PA5.cpp). The
  first line of data.txt gives the names and types of the fields, every other line is an entry;
  commands.txt searches and sorts, and output.txt is written.

  Two kinds of exceptions matter: a \<open>runtime_error\<close>, which the program throws itself and catches,
  and those of \<open>stoi\<close> and \<open>stod\<close>, which are no runtime errors and end the program. Numbers of type
  double stay abstract: the model takes the four library functions on them as an argument. So it
  does the order in which \<open>std::sort\<close> leaves entries with equal keys.
\<close>

section \<open>Attempts\<close>

datatype 'a attempt = Wrong ub | Uncaught | Throws string | Fine 'a

definition try_then :: "'a attempt \<Rightarrow> ('a \<Rightarrow> 'b attempt) \<Rightarrow> 'b attempt" where
  "try_then m f = (case m of Wrong e \<Rightarrow> Wrong e | Uncaught \<Rightarrow> Uncaught | Throws w \<Rightarrow> Throws w | Fine a \<Rightarrow> f a)"

lemma try_then_simps [simp]:
  "try_then (Wrong e) f = Wrong e" "try_then Uncaught f = Uncaught" "try_then (Throws w) f = Throws w"
  "try_then (Fine a) f = f a"
  by (simp_all add: try_then_def)

lemma try_then_Fine: "try_then m f = Fine b \<longleftrightarrow> (\<exists>a. m = Fine a \<and> f a = Fine b)"
  by (cases m) auto

lemma try_then_Throws: "try_then m f = Throws w \<longleftrightarrow> m = Throws w \<or> (\<exists>a. m = Fine a \<and> f a = Throws w)"
  by (cases m) auto

fun each :: "('a \<Rightarrow> 'b attempt) \<Rightarrow> 'a list \<Rightarrow> 'b list attempt" where
  "each f [] = Fine []"
| "each f (x # xs) = try_then (f x) (\<lambda>y. try_then (each f xs) (\<lambda>ys. Fine (y # ys)))"

section \<open>Text\<close>

text \<open>\<open>while (getline (ss, piece, c))\<close>: a last empty piece is not read.\<close>

function pieces :: "char \<Rightarrow> string \<Rightarrow> string list" where
  "pieces c s = (if s = [] then []
     else takeWhile (\<lambda>x. x \<noteq> c) s # pieces c (drop 1 (dropWhile (\<lambda>x. x \<noteq> c) s)))"
  by pat_completeness auto
termination
proof (relation "measure (\<lambda>(c, s). length s)")
  fix c :: char and s :: string
  assume "s \<noteq> []"
  then show "((c, drop 1 (dropWhile (\<lambda>x. x \<noteq> c) s)), c, s) \<in> measure (\<lambda>(c, s). length s)"
    using length_dropWhile_le [of "\<lambda>x. x \<noteq> c" s] by (cases s) (auto simp: less_Suc_eq_le intro: le_SucI le_diff_conv [THEN iffD2])
qed simp

declare pieces.simps [simp del]

text \<open>Elements with a separator between them, as the printing loops write them.\<close>

fun join_with :: "string \<Rightarrow> string list \<Rightarrow> string" where
  "join_with sep [] = []"
| "join_with sep [x] = x"
| "join_with sep (x # y # xs) = x @ sep @ join_with sep (y # xs)"

text \<open>\<open>s.find (k) != string::npos\<close>.\<close>

fun holds_text :: "string \<Rightarrow> string \<Rightarrow> bool" where
  "holds_text k [] \<longleftrightarrow> k = []"
| "holds_text k (c # s) \<longleftrightarrow> starts_with k (c # s) \<or> holds_text k s"

section \<open>Formats and fields\<close>

record field_format =
  ff_name :: string
  ff_type :: string
  is_arr :: bool

datatype 'd field =
    FStr string
  | FStrArr "string list"
  | FChar char
  | FCharArr "char list"
  | FInt int
  | FIntArr "int list"
  | FDouble 'd
  | FDoubleArr "'d list"

text \<open>\<open>stod\<close>, \<open>stream >> value\<close> on a text that is not blank, \<open>to_string\<close> and \<open>stream << value\<close>.\<close>

record 'd doubles =
  d_stod :: "string \<Rightarrow> 'd option"
  d_read :: "string \<Rightarrow> 'd"
  d_to_string :: "'d \<Rightarrow> string"
  d_put :: "'d \<Rightarrow> string"

definition field_str_arr :: "string \<Rightarrow> string list" where
  "field_str_arr input = pieces (CHR '':'') input"

definition field_str_arr_get_data :: "string list \<Rightarrow> string" where
  "field_str_arr_get_data data = join_with '':'' data"

definition field_char :: "string \<Rightarrow> char" where
  "field_char input = (if input = [] then NUL else hd input)"

definition field_char_arr :: "string \<Rightarrow> char list" where
  "field_char_arr input = filter (\<lambda>c. c \<noteq> CHR '':'') (filter (\<lambda>c. \<not> isspace c) input)"

definition field_char_arr_get_data :: "char list \<Rightarrow> string" where
  "field_char_arr_get_data data = join_with '':'' (map (\<lambda>c. [c]) data)"

definition field_int :: "string \<Rightarrow> int attempt" where
  "field_int input = (case stoi input of None \<Rightarrow> Uncaught | Some n \<Rightarrow> Fine n)"

text \<open>The variable that is read into is not initialised, and stays so when there is nothing to read.\<close>

definition read_int :: "string \<Rightarrow> int attempt" where
  "read_int token = (case fst (extract_int None (new_console token)) of None \<Rightarrow> Wrong UninitRead | Some n \<Rightarrow> Fine n)"

definition field_int_arr :: "string \<Rightarrow> int list attempt" where
  "field_int_arr input = each read_int (pieces (CHR '':'') input)"

definition field_int_arr_get_data :: "int list \<Rightarrow> string" where
  "field_int_arr_get_data data = join_with '':'' (map fmt_d data)"

definition field_double :: "'d doubles \<Rightarrow> string \<Rightarrow> 'd attempt" where
  "field_double D input = (case d_stod D input of None \<Rightarrow> Uncaught | Some d \<Rightarrow> Fine d)"

definition field_double_arr :: "'d doubles \<Rightarrow> string \<Rightarrow> 'd list attempt" where
  "field_double_arr D input =
     each (\<lambda>t. if skip_ws t = [] then Wrong UninitRead else Fine (d_read D t)) (pieces (CHR '':'') input)"

definition field_double_arr_get_data :: "'d doubles \<Rightarrow> 'd list \<Rightarrow> string" where
  "field_double_arr_get_data D data = join_with '':'' (map (d_put D) data)"

text \<open>The virtual \<open>get_data\<close>.\<close>

fun get_data :: "'d doubles \<Rightarrow> 'd field \<Rightarrow> string" where
  "get_data D (FStr s) = s"
| "get_data D (FStrArr v) = field_str_arr_get_data v"
| "get_data D (FChar c) = [c]"
| "get_data D (FCharArr v) = field_char_arr_get_data v"
| "get_data D (FInt n) = fmt_d n"
| "get_data D (FIntArr v) = field_int_arr_get_data v"
| "get_data D (FDouble d) = d_to_string D d"
| "get_data D (FDoubleArr v) = field_double_arr_get_data D v"

text \<open>\<open>create_field\<close> ends without a value when the type is unknown.\<close>

definition create_field :: "'d doubles \<Rightarrow> field_format \<Rightarrow> string \<Rightarrow> 'd field attempt" where
  "create_field D f v =
     (if ff_type f = ''string'' \<and> \<not> is_arr f then Fine (FStr v)
      else if ff_type f = ''string'' \<and> is_arr f then Fine (FStrArr (field_str_arr v))
      else if ff_type f = ''char'' \<and> \<not> is_arr f then Fine (FChar (field_char v))
      else if ff_type f = ''char'' \<and> is_arr f then Fine (FCharArr (field_char_arr v))
      else if ff_type f = ''integer'' \<and> \<not> is_arr f then try_then (field_int v) (\<lambda>n. Fine (FInt n))
      else if ff_type f = ''integer'' \<and> is_arr f then try_then (field_int_arr v) (\<lambda>ns. Fine (FIntArr ns))
      else if ff_type f = ''double'' \<and> \<not> is_arr f then try_then (field_double D v) (\<lambda>d. Fine (FDouble d))
      else if ff_type f = ''double'' \<and> is_arr f then try_then (field_double_arr D v) (\<lambda>ds. Fine (FDoubleArr ds))
      else Wrong MissingReturn)"

section \<open>The data file\<close>

text \<open>The three calls of \<open>getline\<close> on a field of the first line.\<close>

definition field_descriptor :: "string \<Rightarrow> field_format" where
  "field_descriptor field =
     (let ps = pieces (CHR '':'') field;
          part = (\<lambda>i. if i < length ps then ps ! i else []) in
      \<lparr>ff_name = part 0, ff_type = part 1, is_arr = (part 2 = ''multi'')\<rparr>)"

definition parse_format :: "string \<Rightarrow> field_format list" where
  "parse_format format_line = map field_descriptor (pieces (CHR ''|'') format_line)"

text \<open>The loop of \<open>parse_entry\<close> over the fields of a line.\<close>

fun read_fields :: "'d doubles \<Rightarrow> field_format list \<Rightarrow> string list \<Rightarrow> string \<Rightarrow> 'd field list \<Rightarrow> (string \<times> 'd field list) attempt" where
  "read_fields D fmt [] entry_str entry = Fine (entry_str, entry)"
| "read_fields D fmt (v # vs) entry_str entry =
     (if length entry < length fmt
      then try_then (create_field D (fmt ! length entry) v)
             (\<lambda>x. read_fields D fmt vs (entry_str @ v @ ''|'') (entry @ [x]))
      else Wrong OutOfBounds)"

text \<open>
  \<open>parse_entry\<close>, with the set of the lines seen, which it keeps between its calls. An exception
  is reported in the output and gives an empty entry.
\<close>

definition parse_entry :: "'d doubles \<Rightarrow> field_format list \<Rightarrow> string \<Rightarrow> string set \<Rightarrow> string list \<Rightarrow>
    ('d field list \<times> string set \<times> string list) attempt" where
  "parse_entry D fmt entry_line seen out' =
     (let report = (\<lambda>w seen'. Fine ([], seen', out' @ [''Exception: '' @ w, entry_line])) in
      case read_fields D fmt (pieces (CHR ''|'') entry_line) [] [] of
        Wrong e \<Rightarrow> Wrong e
      | Uncaught \<Rightarrow> Uncaught
      | Throws w \<Rightarrow> report w seen
      | Fine (entry_str, entry) \<Rightarrow>
          if entry_str \<in> seen then report ''duplicate entry'' seen
          else if length entry < length fmt then report ''missing field'' (insert entry_str seen)
          else Fine (entry, insert entry_str seen, out'))"

definition add_entry :: "'d field list \<Rightarrow> 'd field list list \<Rightarrow> 'd field list list" where
  "add_entry entry data = (if entry = [] then data else data @ [entry])"

fun load_entries :: "'d doubles \<Rightarrow> field_format list \<Rightarrow> string list \<Rightarrow> 'd field list list \<Rightarrow> string set \<Rightarrow> string list \<Rightarrow>
    ('d field list list \<times> string list) attempt" where
  "load_entries D fmt [] data seen out' = Fine (data, out')"
| "load_entries D fmt (l # ls) data seen out' =
     try_then (parse_entry D fmt l seen out') (\<lambda>(entry, seen', out''). load_entries D fmt ls (add_entry entry data) seen' out'')"

section \<open>The catalog\<close>

definition print_entry :: "'d doubles \<Rightarrow> 'd field list \<Rightarrow> string" where
  "print_entry D entry = join_with ''|'' (map (get_data D) entry)"

definition catalog_print :: "'d doubles \<Rightarrow> 'd field list list \<Rightarrow> string list" where
  "catalog_print D data = map (print_entry D) data"

text \<open>The loop of \<open>search\<close>, on the field with the index that was found.\<close>

fun search_loop :: "'d doubles \<Rightarrow> nat \<Rightarrow> string \<Rightarrow> 'd field list list \<Rightarrow> string list attempt" where
  "search_loop D i keyword [] = Fine []"
| "search_loop D i keyword (entry # es) =
     (if i < length entry
      then try_then (search_loop D i keyword es) (\<lambda>ls.
        Fine (if holds_text keyword (get_data D (entry ! i)) then print_entry D entry # ls else ls))
      else Wrong OutOfBounds)"

definition catalog_search :: "'d doubles \<Rightarrow> field_format list \<Rightarrow> 'd field list list \<Rightarrow> string \<Rightarrow> string \<Rightarrow> string \<Rightarrow>
    string list attempt" where
  "catalog_search D fmt data command_line keyword field_name =
     (case first_index (\<lambda>f. ff_name f = field_name) fmt of
       None \<Rightarrow> Throws ''command is wrong''
     | Some i \<Rightarrow> try_then (search_loop D i keyword data) (\<lambda>ls. Fine (command_line # ls)))"

text \<open>\<open>std::sort\<close> with a key: the order of entries with equal keys is not specified.\<close>

type_synonym 'd entry_sort = "('d field list \<Rightarrow> string) \<Rightarrow> 'd field list list \<Rightarrow> 'd field list list"

definition catalog_sort :: "'d doubles \<Rightarrow> 'd entry_sort \<Rightarrow> field_format list \<Rightarrow> string \<Rightarrow> 'd field list list \<Rightarrow>
    'd field list list attempt" where
  "catalog_sort D srt fmt field_name data =
     (case first_index (\<lambda>f. ff_name f = field_name) fmt of
       None \<Rightarrow> Throws ''command is wrong''
     | Some i \<Rightarrow> if length data \<le> 1 \<or> (\<forall>entry \<in> set data. i < length entry)
         then Fine (srt (\<lambda>entry. get_data D (entry ! i)) data) else Wrong OutOfBounds)"

definition get_entry :: "'d doubles \<Rightarrow> 'd field list list \<Rightarrow> string list list" where
  "get_entry D data = map (map (get_data D)) data"

section \<open>Commands\<close>

definition find_from :: "char \<Rightarrow> string \<Rightarrow> nat \<Rightarrow> nat option" where
  "find_from c s start = map_option (\<lambda>i. i + start) (first_index (\<lambda>x. x = c) (drop start s))"

text \<open>The position after one that was found; \<open>npos + 1\<close> is 0.\<close>

definition after :: "nat option \<Rightarrow> nat" where
  "after p = (case p of None \<Rightarrow> 0 | Some i \<Rightarrow> i + 1)"

text \<open>The text between two quotes, the first of which is searched from a given position, and where the second is.\<close>

definition quoted_part :: "string \<Rightarrow> nat \<Rightarrow> (string \<times> nat) attempt" where
  "quoted_part s start =
     (let first = find_from (CHR 0x22) s start; second = find_from (CHR 0x22) s (after first) in
      case (first, second) of
        (Some p, Some q) \<Rightarrow> Fine (take (q - p - 1) (drop (p + 1) s), q)
      | _ \<Rightarrow> Throws ''command is wrong'')"

datatype command = Search_for string string | Sort_by string

definition parse_command :: "string \<Rightarrow> command attempt" where
  "parse_command command_line =
     (let word = takeWhile (\<lambda>c. \<not> isspace c) (skip_ws command_line) in
      if word = ''search''
      then try_then (quoted_part command_line 0) (\<lambda>(keyword, second).
           try_then (quoted_part command_line (second + 1)) (\<lambda>(field_name, fourth). Fine (Search_for keyword field_name)))
      else if word = ''sort''
      then try_then (quoted_part command_line 0) (\<lambda>(field_name, second). Fine (Sort_by field_name))
      else Throws ''command is wrong'')"

text \<open>A command changes the order of the entries and writes lines.\<close>

definition run_command :: "'d doubles \<Rightarrow> 'd entry_sort \<Rightarrow> field_format list \<Rightarrow> string \<Rightarrow> 'd field list list \<times> string list \<Rightarrow>
    ('d field list list \<times> string list) attempt" where
  "run_command D srt fmt line s =
     (case try_then (parse_command line) (\<lambda>c. case c of
          Search_for keyword field_name \<Rightarrow>
            try_then (catalog_search D fmt (fst s) line keyword field_name) (\<lambda>ls. Fine (fst s, snd s @ ls))
        | Sort_by field_name \<Rightarrow>
            try_then (catalog_sort D srt fmt field_name (fst s)) (\<lambda>data. Fine (data, snd s @ line # catalog_print D data)))
      of Throws w \<Rightarrow> Fine (fst s, snd s @ [''Exception: '' @ w, line])
       | r \<Rightarrow> r)"

fun run_commands :: "'d doubles \<Rightarrow> 'd entry_sort \<Rightarrow> field_format list \<Rightarrow> string list \<Rightarrow> 'd field list list \<times> string list \<Rightarrow>
    ('d field list list \<times> string list) attempt" where
  "run_commands D srt fmt [] s = Fine s"
| "run_commands D srt fmt (l # ls) s = try_then (run_command D srt fmt l s) (run_commands D srt fmt ls)"

text \<open>main, from the contents of data.txt and commands.txt to the lines of output.txt.\<close>

definition catalog_main :: "'d doubles \<Rightarrow> 'd entry_sort \<Rightarrow> string \<Rightarrow> string \<Rightarrow> string list attempt" where
  "catalog_main D srt data_txt commands_txt =
     (let ls = pieces LF data_txt;
          fmt = parse_format (if ls = [] then [] else hd ls);
          out' = [join_with ''|'' (map ff_name fmt)] in
      try_then (load_entries D fmt (tl ls) [] {} out') (\<lambda>(data, out'').
      try_then (run_commands D srt fmt (pieces LF commands_txt)
          (data, out'' @ [fmt_d (int (length (get_entry D data))) @ '' unique entries''])) (\<lambda>s. Fine (snd s))))"

end
