(* ===== verification/Catalog_Properties.thy ===== *)
theory Catalog_Properties
  imports Catalog
begin

text \<open>
  The properties of the catalog: which entries are loaded and which lines are reported, that no
  command fails on what was loaded, which lines are printed back as they were read, and the data
  files on which the program fails.
\<close>

section \<open>Pieces and joined text\<close>

lemma pieces_Nil [simp]: "pieces c [] = []"
  by (subst pieces.simps) simp

lemma pieces_one: "s \<noteq> [] \<Longrightarrow> c \<notin> set s \<Longrightarrow> pieces c s = [s]"
proof -
  assume s: "s \<noteq> []" "c \<notin> set s"
  then have "takeWhile (\<lambda>x. x \<noteq> c) s = s" "dropWhile (\<lambda>x. x \<noteq> c) s = []"
    by (auto simp: takeWhile_eq_all_conv dropWhile_eq_Nil_conv)
  then show ?thesis using s(1) by (subst pieces.simps) (simp only: if_False drop_Nil pieces_Nil)
qed

lemma pieces_more: "c \<notin> set s \<Longrightarrow> pieces c (s @ c # t) = s # pieces c t"
proof -
  assume s: "c \<notin> set s"
  have "takeWhile (\<lambda>x. x \<noteq> c) (s @ c # t) = s" "dropWhile (\<lambda>x. x \<noteq> c) (s @ c # t) = c # t"
    using s by (induction s) auto
  then show ?thesis by (subst pieces.simps) simp
qed

lemma pieces_free: "p \<in> set (pieces c s) \<Longrightarrow> c \<notin> set p"
proof (induction c s rule: pieces.induct)
  case (1 c s)
  show ?case
  proof (cases "s = []")
    case True
    with 1 show ?thesis by simp
  next
    case False
    with "1.prems" have "p = takeWhile (\<lambda>x. x \<noteq> c) s \<or> p \<in> set (pieces c (drop 1 (dropWhile (\<lambda>x. x \<noteq> c) s)))"
      by (subst (asm) pieces.simps) auto
    with "1.IH" [OF False] show ?thesis by (auto dest: set_takeWhileD)
  qed
qed

lemma join_with_Cons: "join_with sep (x # xs) = (if xs = [] then x else x @ sep @ join_with sep xs)"
  by (cases xs) simp_all

text \<open>A text is read back from its pieces unless the last one is empty, and the other way round.\<close>

lemma pieces_join_with:
  "\<forall>v \<in> set vs. c \<notin> set v \<Longrightarrow> vs \<noteq> [] \<longrightarrow> last vs \<noteq> [] \<Longrightarrow> pieces c (join_with [c] vs) = vs"
proof (induction vs)
  case Nil
  then show ?case by simp
next
  case (Cons v vs)
  then show ?case
    by (cases vs) (auto simp: join_with_Cons pieces_one pieces_more)
qed

lemma join_with_pieces: "s \<noteq> [] \<longrightarrow> last s \<noteq> c \<Longrightarrow> join_with [c] (pieces c s) = s"
proof (induction c s rule: pieces.induct)
  case (1 c s)
  show ?case
  proof (cases "s = []")
    case True
    then show ?thesis by simp
  next
    case ne: False
    show ?thesis
    proof (cases "c \<in> set s")
      case False
      then show ?thesis using ne by (simp add: pieces_one)
    next
      case True
      then obtain p t where p: "s = p @ c # t" "c \<notin> set p" using split_list_first by fastforce
      then have t: "t \<noteq> []" using "1.prems" by auto
      have "drop 1 (dropWhile (\<lambda>x. x \<noteq> c) s) = t" using p by (induction p arbitrary: s) auto
      then have "join_with [c] (pieces c t) = t"
        using "1.IH" [OF ne] "1.prems" p t by auto
      moreover have "pieces c t \<noteq> []" using t by (subst pieces.simps) simp
      ultimately show ?thesis using p by (simp add: pieces_more join_with_Cons)
    qed
  qed
qed

text \<open>The text by which duplicates are recognised determines the pieces.\<close>

definition entry_key :: "string list \<Rightarrow> string" where
  "entry_key vs = concat (map (\<lambda>v. v @ ''|'') vs)"

lemma entry_key_pieces: "\<forall>v \<in> set vs. CHR ''|'' \<notin> set v \<Longrightarrow> pieces (CHR ''|'') (entry_key vs) = vs"
  by (induction vs) (simp_all add: entry_key_def pieces_more)

lemma entry_key_eq:
  "entry_key (pieces (CHR ''|'') s) = entry_key (pieces (CHR ''|'') t) \<longleftrightarrow> pieces (CHR ''|'') s = pieces (CHR ''|'') t"
  using entry_key_pieces pieces_free by metis

section \<open>Loading\<close>

abbreviation cut :: "string \<Rightarrow> string list" where
  "cut \<equiv> pieces (CHR ''|'')"

definition make_fields :: "'d doubles \<Rightarrow> field_format list \<Rightarrow> string list \<Rightarrow> 'd field list attempt" where
  "make_fields D fmt vs = each (\<lambda>(f, v). create_field D f v) (zip fmt vs)"

lemma each_length: "each f xs = Fine ys \<Longrightarrow> length ys = length xs"
  by (induction xs arbitrary: ys) (auto simp: try_then_Fine)

lemma read_fields_gen:
  "length entry + length vs \<le> length fmt \<Longrightarrow>
   read_fields D fmt vs str entry = try_then (each (\<lambda>(f, v). create_field D f v) (zip (drop (length entry) fmt) vs))
     (\<lambda>fs. Fine (str @ entry_key vs, entry @ fs))"
proof (induction vs arbitrary: str entry)
  case Nil
  then show ?case by (simp add: entry_key_def)
next
  case (Cons v vs)
  then have "drop (length entry) fmt = fmt ! length entry # drop (Suc (length entry)) fmt"
    by (simp add: Cons_nth_drop_Suc)
  with Cons show ?case
    by (cases "create_field D (fmt ! length entry) v") (auto simp: entry_key_def try_then_def split: attempt.split)
qed

lemma read_fields_make:
  "length vs \<le> length fmt \<Longrightarrow>
   read_fields D fmt vs [] [] = try_then (make_fields D fmt vs) (\<lambda>fs. Fine (entry_key vs, fs))"
  using read_fields_gen [of "[]" vs fmt D "[]"] by (simp add: make_fields_def)

lemma read_fields_Fine:
  "read_fields D fmt vs str entry = Fine r \<Longrightarrow> vs \<noteq> [] \<longrightarrow> length entry + length vs \<le> length fmt"
  by (induction vs arbitrary: str entry) (fastforce simp: try_then_Fine split: if_splits)+

text \<open>What the loading reports for the i-th line.\<close>

definition complaint :: "field_format list \<Rightarrow> string list \<Rightarrow> nat \<Rightarrow> string list" where
  "complaint fmt ls i =
     (if cut (ls ! i) \<in> set (map cut (take i ls)) then [''Exception: duplicate entry'', ls ! i]
      else if length (cut (ls ! i)) < length fmt then [''Exception: missing field'', ls ! i]
      else [])"

text \<open>The first of several equal elements is kept.\<close>

definition firsts :: "'a list \<Rightarrow> 'a list" where
  "firsts xs = rev (remdups (rev xs))"

lemma firsts_snoc: "firsts (xs @ [x]) = (if x \<in> set xs then firsts xs else firsts xs @ [x])"
  by (simp add: firsts_def)

definition complete :: "field_format list \<Rightarrow> string list \<Rightarrow> bool" where
  "complete fmt vs \<longleftrightarrow> vs \<noteq> [] \<and> length vs = length fmt"

lemma create_field_Throws: "create_field D f v \<noteq> Throws w"
proof -
  have e: "each g xs \<noteq> Throws w" if "\<And>x. g x \<noteq> Throws w" for g :: "'b \<Rightarrow> 'c attempt" and xs
    using that by (induction xs) (auto simp: try_then_Throws)
  have "read_int t \<noteq> Throws w" for t
    by (simp add: read_int_def split: option.split)
  then have "field_int_arr v \<noteq> Throws w" "field_double_arr D v \<noteq> Throws w"
    unfolding field_int_arr_def field_double_arr_def by (intro e; simp)+
  then show ?thesis
    by (simp add: create_field_def field_int_def field_double_def try_then_Throws split: option.split)
qed

lemma read_fields_Throws: "read_fields D fmt vs str entry \<noteq> Throws w"
proof (induction vs arbitrary: str entry)
  case Nil
  then show ?case by simp
next
  case (Cons v vs)
  then show ?case
    using create_field_Throws [of D "fmt ! length entry" v w] by (auto simp: try_then_Throws)
qed

lemma parse_entry_Fine:
  assumes "parse_entry D fmt l (entry_key ` cut ` set xs) out' = Fine (entry, seen', out'')"
  shows "seen' = entry_key ` cut ` set (xs @ [l]) \<and> out'' = out' @ complaint fmt (xs @ [l]) (length xs) \<and>
    (if cut l \<notin> cut ` set xs \<and> complete fmt (cut l) then make_fields D fmt (cut l) = Fine entry else entry = [])"
proof -
  obtain r where r: "read_fields D fmt (cut l) [] [] = Fine r"
    using assms read_fields_Throws [of D fmt "cut l" "[]" "[]"]
    by (cases "read_fields D fmt (cut l) [] []") (auto simp: parse_entry_def)
  have len: "length (cut l) \<le> length fmt" using read_fields_Fine [OF r] by (cases "cut l") auto
  obtain fs where fs: "make_fields D fmt (cut l) = Fine fs" "r = (entry_key (cut l), fs)"
    using r unfolding read_fields_make [OF len] by (auto simp: try_then_Fine)
  have n: "length fs = length (cut l)"
    using each_length fs(1) len unfolding make_fields_def by fastforce
  have key: "entry_key (cut l) \<in> entry_key ` cut ` set xs \<longleftrightarrow> cut l \<in> cut ` set xs"
    by (auto simp: image_iff entry_key_eq) 
  show ?thesis
  proof (cases "cut l \<in> cut ` set xs")
    case True
    with assms r fs(2) key show ?thesis by (auto simp: parse_entry_def complaint_def insert_absorb)
  next
    case False
    with assms r fs key n len show ?thesis
      by (auto simp: parse_entry_def complaint_def complete_def split: if_splits)
  qed
qed

lemma load_entries_gen:
  assumes "load_entries D fmt ls data (entry_key ` cut ` set xs) out' = Fine (data', out'')"
    and "list_all2 (\<lambda>vs entry. make_fields D fmt vs = Fine entry) (filter (complete fmt) (firsts (map cut xs))) data"
  shows "list_all2 (\<lambda>vs entry. make_fields D fmt vs = Fine entry)
      (filter (complete fmt) (firsts (map cut (xs @ ls)))) data' \<and>
    out'' = out' @ concat (map (complaint fmt (xs @ ls)) [length xs..<length (xs @ ls)])"
  using assms
proof (induction ls arbitrary: xs data out')
  case Nil
  then show ?case by simp
next
  case (Cons l ls)
  from Cons.prems(1) obtain entry seen' out1 where
    p: "parse_entry D fmt l (entry_key ` cut ` set xs) out' = Fine (entry, seen', out1)"
    and rest: "load_entries D fmt ls (add_entry entry data) seen' out1 = Fine (data', out'')"
    by (auto simp: try_then_Fine)
  note q = parse_entry_Fine [OF p]
  have so_far: "list_all2 (\<lambda>vs entry. make_fields D fmt vs = Fine entry)
      (filter (complete fmt) (firsts (map cut (xs @ [l])))) (add_entry entry data)"
  proof (cases "cut l \<notin> cut ` set xs \<and> complete fmt (cut l)")
    case True
    with q have m: "make_fields D fmt (cut l) = Fine entry" by simp
    then have "length entry = length (zip fmt (cut l))" unfolding make_fields_def by (rule each_length)
    with True have "entry \<noteq> []" by (auto simp: complete_def)
    with True m Cons.prems(2) show ?thesis by (simp add: firsts_snoc add_entry_def list_all2_appendI)
  next
    case False
    with q have "entry = []" by simp
    with False Cons.prems(2) show ?thesis by (auto simp: firsts_snoc add_entry_def)
  qed
  from q have seen: "seen' = entry_key ` cut ` set (xs @ [l])" by blast
  from Cons.IH [OF rest [unfolded seen] so_far] have
    "list_all2 (\<lambda>vs entry. make_fields D fmt vs = Fine entry)
      (filter (complete fmt) (firsts (map cut (xs @ l # ls)))) data'"
    "out'' = out1 @ concat (map (complaint fmt (xs @ l # ls)) [Suc (length xs)..<length (xs @ l # ls)])"
    by (simp_all del: upt_Suc)
  moreover have "complaint fmt (xs @ [l]) (length xs) = complaint fmt (xs @ l # ls) (length xs)"
    by (simp add: complaint_def)
  moreover have "[length xs..<length (xs @ l # ls)] = length xs # [Suc (length xs)..<length (xs @ l # ls)]"
    by (rule upt_conv_Cons) simp
  ultimately show ?case using q by (simp del: upt_Suc)
qed

text \<open>
  C26. The entries that are loaded are exactly those of the first occurrences (up to a trailing
  separator) of the lines that have a value for every field, in the order of the file; and for
  every other line there is a report, in order, that it is a duplicate or lacks a field.
\<close>

theorem load_entries_correct:
  assumes "load_entries D fmt ls [] {} out' = Fine (data, out'')"
  shows "list_all2 (\<lambda>vs entry. make_fields D fmt vs = Fine entry)
      (filter (complete fmt) (firsts (map cut ls))) data \<and>
    out'' = out' @ concat (map (complaint fmt ls) [0..<length ls])"
  using load_entries_gen [of D fmt ls "[]" "[]"] assms by (simp add: firsts_def)

section \<open>Commands\<close>

text \<open>Entries that were loaded have a field for every name of the format.\<close>

lemma list_all2_source: "list_all2 P xs ys \<Longrightarrow> y \<in> set ys \<Longrightarrow> \<exists>x \<in> set xs. P x y"
  by (induction rule: list_all2_induct) auto

lemma loaded_lengths:
  assumes "load_entries D fmt ls [] {} out' = Fine (data, out'')"
  shows "\<forall>entry \<in> set data. length entry = length fmt"
proof
  fix entry
  assume "entry \<in> set data"
  moreover have "list_all2 (\<lambda>vs entry. make_fields D fmt vs = Fine entry)
      (filter (complete fmt) (firsts (map cut ls))) data"
    using load_entries_gen [of D fmt ls "[]" "[]"] assms by (simp add: firsts_def)
  ultimately obtain vs where "complete fmt vs" "make_fields D fmt vs = Fine entry"
    using list_all2_source [of "\<lambda>vs entry. make_fields D fmt vs = Fine entry" _ data entry] by fastforce
  then show "length entry = length fmt"
    using each_length unfolding make_fields_def complete_def by fastforce
qed

definition sorts :: "'d entry_sort \<Rightarrow> bool" where
  "sorts srt \<longleftrightarrow> (\<forall>k xs. mset (srt k xs) = mset xs \<and> sorted (map k (srt k xs)))"

lemma sorts_set: "sorts srt \<Longrightarrow> set (srt k xs) = set xs"
  unfolding sorts_def by (metis mset_eq_setD)

lemma search_loop_defined:
  "\<forall>entry \<in> set data. i < length entry \<Longrightarrow>
    search_loop D i k data = Fine (map (print_entry D) (filter (\<lambda>entry. holds_text k (get_data D (entry ! i))) data))"
  by (induction data) auto

lemma catalog_search_defined:
  assumes "\<forall>entry \<in> set data. length entry = length fmt"
  shows "catalog_search D fmt data line k f = (case first_index (\<lambda>x. ff_name x = f) fmt of
      None \<Rightarrow> Throws ''command is wrong''
    | Some i \<Rightarrow> Fine (line # map (print_entry D) (filter (\<lambda>entry. holds_text k (get_data D (entry ! i))) data)))"
  using assms by (auto simp: catalog_search_def search_loop_defined dest: first_index_SomeD split: option.split)

lemma catalog_sort_defined:
  assumes "\<forall>entry \<in> set data. length entry = length fmt"
  shows "catalog_sort D srt fmt f data = (case first_index (\<lambda>x. ff_name x = f) fmt of
      None \<Rightarrow> Throws ''command is wrong''
    | Some i \<Rightarrow> Fine (srt (\<lambda>entry. get_data D (entry ! i)) data))"
  using assms by (auto simp: catalog_sort_def dest: first_index_SomeD split: option.split)

lemma parse_command_total: "(\<exists>c. parse_command line = Fine c) \<or> parse_command line = Throws ''command is wrong''"
proof -
  have q: "(\<exists>x n. quoted_part line m = Fine (x, n)) \<or> quoted_part line m = Throws ''command is wrong''" for m
    by (auto simp: quoted_part_def Let_def split: option.split)
  from q [of 0] show ?thesis
  proof
    assume "\<exists>x n. quoted_part line 0 = Fine (x, n)"
    then obtain x n where "quoted_part line 0 = Fine (x, n)" by blast
    then show ?thesis using q [of "n + 1"] by (auto simp: parse_command_def Let_def)
  qed (simp add: parse_command_def Let_def)
qed

text \<open>What a command does to the entries and the output, when the entries fit the format.\<close>

definition command_effect :: "'d doubles \<Rightarrow> 'd entry_sort \<Rightarrow> field_format list \<Rightarrow> string \<Rightarrow> 'd field list list \<Rightarrow>
    'd field list list \<times> string list" where
  "command_effect D srt fmt line data =
     (case parse_command line of
        Fine (Search_for k f) \<Rightarrow> (case first_index (\<lambda>x. ff_name x = f) fmt of
            Some i \<Rightarrow> (data, line # map (print_entry D) (filter (\<lambda>entry. holds_text k (get_data D (entry ! i))) data))
          | None \<Rightarrow> (data, [''Exception: command is wrong'', line]))
      | Fine (Sort_by f) \<Rightarrow> (case first_index (\<lambda>x. ff_name x = f) fmt of
            Some i \<Rightarrow> let sorted_data = srt (\<lambda>entry. get_data D (entry ! i)) data in
              (sorted_data, line # map (print_entry D) sorted_data)
          | None \<Rightarrow> (data, [''Exception: command is wrong'', line]))
      | _ \<Rightarrow> (data, [''Exception: command is wrong'', line]))"

lemma run_command_effect:
  assumes "\<forall>entry \<in> set data. length entry = length fmt"
  shows "run_command D srt fmt line (data, out') =
    Fine (fst (command_effect D srt fmt line data), out' @ snd (command_effect D srt fmt line data))"
  using parse_command_total [of line] assms
  by (auto simp: run_command_def command_effect_def catalog_search_defined catalog_sort_defined catalog_print_def
      Let_def split: command.split option.split)

lemma command_effect_mset: "sorts srt \<Longrightarrow> mset (fst (command_effect D srt fmt line data)) = mset data"
  by (auto simp: command_effect_def sorts_def Let_def split: attempt.split command.split option.split)

lemma run_commands_defined:
  "sorts srt \<Longrightarrow> \<forall>entry \<in> set (fst s). length entry = length fmt \<Longrightarrow>
    \<exists>data' out'. run_commands D srt fmt ls s = Fine (data', snd s @ out') \<and> mset data' = mset (fst s)"
proof (induction ls arbitrary: s)
  case Nil
  then show ?case by (cases s) auto
next
  case (Cons l ls)
  obtain data out' where s: "s = (data, out')" by fastforce
  let ?e = "command_effect D srt fmt l data"
  have m: "mset (fst ?e) = mset data" by (rule command_effect_mset [OF Cons.prems(1)])
  then have "\<forall>entry \<in> set (fst ?e). length entry = length fmt"
    using Cons.prems(2) s by (metis fst_conv mset_eq_setD)
  with Cons.IH [OF Cons.prems(1), of "(fst ?e, out' @ snd ?e)"] obtain data' out'' where
    "run_commands D srt fmt ls (fst ?e, out' @ snd ?e) = Fine (data', (out' @ snd ?e) @ out'')" "mset data' = mset (fst ?e)"
    by auto
  moreover have "run_command D srt fmt l s = Fine (fst ?e, out' @ snd ?e)"
    unfolding s by (rule run_command_effect) (use Cons.prems(2) s in simp)
  ultimately show ?case using m s by auto
qed

text \<open>
  C27. Once the data file has been loaded no command fails, whatever is in commands.txt: the
  program ends normally with output, and searching and sorting neither lose nor change entries.
\<close>

theorem commands_defined:
  assumes "load_entries D fmt ls [] {} out' = Fine (data, out'')" and "sorts srt"
  shows "\<exists>data' more. run_commands D srt fmt cs (data, out'') = Fine (data', out'' @ more) \<and> mset data' = mset data"
  using run_commands_defined [OF assms(2), of "(data, out'')" fmt D cs] loaded_lengths [OF assms(1)] by simp

section \<open>Lines that are printed as they were read\<close>

definition canonical :: "'d doubles \<Rightarrow> field_format \<Rightarrow> string \<Rightarrow> bool" where
  "canonical D f v \<longleftrightarrow>
     ff_type f = ''string'' \<and> (is_arr f \<and> v \<noteq> [] \<longrightarrow> last v \<noteq> CHR '':'')
   \<or> ff_type f = ''char'' \<and> \<not> is_arr f \<and> length v = 1
   \<or> ff_type f = ''char'' \<and> is_arr f \<and>
       (\<exists>cs. v = join_with '':'' (map (\<lambda>c. [c]) cs) \<and> (\<forall>c \<in> set cs. c \<noteq> CHR '':'' \<and> \<not> isspace c))
   \<or> ff_type f = ''integer'' \<and> \<not> is_arr f \<and> (\<exists>n. v = fmt_d n \<and> in_signed 32 n)
   \<or> ff_type f = ''integer'' \<and> is_arr f \<and> (\<exists>ns. v = join_with '':'' (map fmt_d ns) \<and> (\<forall>n \<in> set ns. in_signed 32 n))
   \<or> ff_type f = ''double'' \<and> \<not> is_arr f \<and> (\<exists>d. d_stod D v = Some d \<and> d_to_string D d = v)"

lemma scan_fmt_d: "skip_ws (fmt_d n) = fmt_d n" "fmt_d n \<noteq> []" "CHR '':'' \<notin> set (fmt_d n)" "scan_int None (fmt_d n) = Some (n, [])"
proof -
  show "skip_ws (fmt_d n) = fmt_d n" using skip_ws_fmt_d [of n "[]"] by simp
  show "fmt_d n \<noteq> []" by (simp add: fmt_d_def)
  show "CHR '':'' \<notin> set (fmt_d n)" by (auto simp: fmt_d_def isdigit_def dest!: dec_isdigit)
  show "scan_int None (fmt_d n) = Some (n, [])" using scan_int_fmt_d [of "[]" n] by simp
qed

lemma read_int_fmt_d: "in_signed 32 n \<Longrightarrow> read_int (fmt_d n) = Fine n"
  by (simp add: read_int_def extract_int_def new_console_def good_def scan_fmt_d int_limit_same)

lemma stoi_fmt_d: "in_signed 32 n \<Longrightarrow> stoi (fmt_d n) = Some n"
  by (simp add: stoi_def scan_fmt_d)

lemma each_map: "\<forall>x \<in> set xs. f (g x) = Fine x \<Longrightarrow> each f (map g xs) = Fine xs"
  by (induction xs) auto

lemma char_arr_join_with:
  "\<forall>c \<in> set cs. c \<noteq> CHR '':'' \<and> \<not> isspace c \<Longrightarrow> field_char_arr (join_with '':'' (map (\<lambda>c. [c]) cs)) = cs"
  by (induction cs) (auto simp: field_char_arr_def join_with_Cons isspace_def)

lemma create_canonical:
  assumes "canonical D f v"
  shows "\<exists>x. create_field D f v = Fine x \<and> get_data D x = v"
proof -
  from assms consider
      (str) "ff_type f = ''string''" "\<not> is_arr f"
    | (strs) "ff_type f = ''string''" "is_arr f" "v \<noteq> [] \<longrightarrow> last v \<noteq> CHR '':''"
    | (chr) "ff_type f = ''char''" "\<not> is_arr f" "length v = 1"
    | (chrs) cs where "ff_type f = ''char''" "is_arr f" "v = join_with '':'' (map (\<lambda>c. [c]) cs)"
        "\<forall>c \<in> set cs. c \<noteq> CHR '':'' \<and> \<not> isspace c"
    | (int) n where "ff_type f = ''integer''" "\<not> is_arr f" "v = fmt_d n" "in_signed 32 n"
    | (ints) ns where "ff_type f = ''integer''" "is_arr f" "v = join_with '':'' (map fmt_d ns)" "\<forall>n \<in> set ns. in_signed 32 n"
    | (dbl) d where "ff_type f = ''double''" "\<not> is_arr f" "d_stod D v = Some d" "d_to_string D d = v"
    unfolding canonical_def by blast
  then show ?thesis
  proof cases
    case str
    then show ?thesis by (simp add: create_field_def)
  next
    case strs
    then show ?thesis
      by (simp add: create_field_def field_str_arr_def field_str_arr_get_data_def join_with_pieces)
  next
    case chr
    then show ?thesis by (cases v) (simp_all add: create_field_def field_char_def)
  next
    case chrs
    then show ?thesis by (simp add: create_field_def char_arr_join_with field_char_arr_get_data_def)
  next
    case int
    then show ?thesis by (simp add: create_field_def field_int_def stoi_fmt_d)
  next
    case ints
    have "pieces (CHR '':'') (join_with '':'' (map fmt_d ns)) = map fmt_d ns"
      by (rule pieces_join_with) (auto simp: scan_fmt_d last_map)
    with ints have "field_int_arr v = Fine ns" by (simp add: field_int_arr_def each_map read_int_fmt_d)
    with ints show ?thesis by (simp add: create_field_def field_int_arr_get_data_def)
  next
    case dbl
    then show ?thesis by (simp add: create_field_def field_double_def)
  qed
qed

lemma make_canonical:
  "list_all2 (canonical D) fmt vs \<Longrightarrow> \<exists>fs. make_fields D fmt vs = Fine fs \<and> map (get_data D) fs = vs"
proof (induction rule: list_all2_induct)
  case Nil
  then show ?case by (simp add: make_fields_def)
next
  case (Cons f fmt v vs)
  then obtain fs x where "make_fields D fmt vs = Fine fs" "map (get_data D) fs = vs"
    "create_field D f v = Fine x" "get_data D x = v" using create_canonical by blast
  then show ?case by (simp add: make_fields_def)
qed

text \<open>
  C28. A line with canonical values for all fields (text, single characters, decimal numbers, lists
  of them without an empty last element) that was not seen before is loaded without a report, and
  the entry prints as that line.
\<close>

theorem entry_roundtrip:
  assumes "list_all2 (canonical D) fmt vs" and "\<forall>v \<in> set vs. CHR ''|'' \<notin> set v" and "vs \<noteq> []" "last vs \<noteq> []"
    and "entry_key vs \<notin> seen"
  shows "\<exists>entry. parse_entry D fmt (join_with ''|'' vs) seen out' = Fine (entry, insert (entry_key vs) seen, out') \<and>
    print_entry D entry = join_with ''|'' vs"
proof -
  obtain fs where fs: "make_fields D fmt vs = Fine fs" "map (get_data D) fs = vs"
    using make_canonical [OF assms(1)] by blast
  have len: "length vs = length fmt" using assms(1) by (simp add: list_all2_lengthD)
  have "cut (join_with ''|'' vs) = vs" using assms(2-4) by (intro pieces_join_with) simp_all
  moreover have "read_fields D fmt vs [] [] = Fine (entry_key vs, fs)"
    using read_fields_make [of vs fmt D] len fs(1) by simp
  moreover have "length fs = length fmt" using fs(2) len by (metis length_map)
  ultimately show ?thesis
    using assms(5) fs(2) by (intro exI [of _ fs]) (simp add: parse_entry_def print_entry_def)
qed

section \<open>Data files on which the program fails\<close>

text \<open>
  A value too many in a line reads past the format; a type that is not one of the four leaves
  \<open>create_field\<close> without a value; an empty element in a list of integers stores an uninitialised
  variable; a word in an integer field ends the program by an exception that is not caught; and
  numbers are sorted as text, 10 before 9.
\<close>

theorem catalog_faults:
  "catalog_main D srt (''t:string:single'' @ nl @ ''a|b'' @ nl) [] = Wrong OutOfBounds \<and>
   catalog_main D srt (''t:text:single'' @ nl @ ''a'' @ nl) [] = Wrong MissingReturn \<and>
   catalog_main D srt (''n:integer:multi'' @ nl @ ''1::2'' @ nl) [] = Wrong UninitRead \<and>
   catalog_main D srt (''n:integer:single'' @ nl @ ''one'' @ nl) [] = Uncaught \<and>
   catalog_main D (\<lambda>k. sort_key k) (''n:integer:single'' @ nl @ ''9'' @ nl @ ''10'' @ nl) (''sort '' @ [CHR 0x22] @ ''n'' @ [CHR 0x22]) =
     Fine [''n'', ''2 unique entries'', ''sort '' @ [CHR 0x22] @ ''n'' @ [CHR 0x22], ''10'', ''9'']"
  by (intro conjI; code_simp)

section \<open>Witnesses\<close>

text \<open>A catalog of books, and functions on numbers that are written with digits only.\<close>

definition plain_doubles :: "int doubles" where
  "plain_doubles = \<lparr>d_stod = stoi, d_read = (\<lambda>t. 0), d_to_string = fmt_d, d_put = fmt_d\<rparr>"

definition books :: "field_format list" where
  "books = parse_format ''title:string:single|author:string:multi|year:integer:single''"

definition book_lines :: "string list" where
  "book_lines = [''Graphics Gems V|Alan W. Paeth|1995'', ''Flask|M. Copperwaite:C. Leifer|2015'', ''Flask|M. Copperwaite:C. Leifer|2015'', ''Short|Nobody'']"

lemma books_loaded: "\<exists>data out'. load_entries plain_doubles books book_lines [] {} [] = Fine (data, out') \<and>
    data = [[FStr ''Graphics Gems V'', FStrArr [''Alan W. Paeth''], FInt 1995],
            [FStr ''Flask'', FStrArr [''M. Copperwaite'', ''C. Leifer''], FInt 2015]] \<and>
    out' = [''Exception: duplicate entry'', ''Flask|M. Copperwaite:C. Leifer|2015'', ''Exception: missing field'', ''Short|Nobody'']"
proof -
  have "load_entries plain_doubles books book_lines [] {} [] =
    Fine ([[FStr ''Graphics Gems V'', FStrArr [''Alan W. Paeth''], FInt 1995],
            [FStr ''Flask'', FStrArr [''M. Copperwaite'', ''C. Leifer''], FInt 2015]],
     [''Exception: duplicate entry'', ''Flask|M. Copperwaite:C. Leifer|2015'', ''Exception: missing field'', ''Short|Nobody''])"
    by code_simp
  then show ?thesis by blast
qed

lemma sort_key_sorts: "sorts (\<lambda>k. sort_key k)"
  by (simp add: sorts_def)

theorem load_entries_correct_witness:
  "\<exists>data out'. length data = 2 \<and> list_all2 (\<lambda>vs entry. make_fields plain_doubles books vs = Fine entry)
      (filter (complete books) (firsts (map (pieces (CHR ''|'')) book_lines))) data \<and>
    out' = concat (map (complaint books book_lines) [0..<4])"
proof -
  obtain data out' where l: "load_entries plain_doubles books book_lines [] {} [] = Fine (data, out')" "length data = 2"
    using books_loaded by auto
  moreover have "length book_lines = 4" by (simp add: book_lines_def)
  ultimately show ?thesis
    using load_entries_correct [OF l(1)] by (intro exI [of _ data] exI [of _ out']) simp
qed

theorem commands_defined_witness:
  "\<exists>data out' data' more. load_entries plain_doubles books book_lines [] {} [] = Fine (data, out') \<and>
    run_commands plain_doubles (\<lambda>k. sort_key k) books [''sort year'', ''search'', []] (data, out') = Fine (data', out' @ more) \<and>
    mset data' = mset data"
  using books_loaded commands_defined [OF _ sort_key_sorts, of plain_doubles books book_lines "[]" _ _ "[''sort year'', ''search'', []]"]
  by blast

theorem entry_roundtrip_witness:
  "\<exists>entry. parse_entry plain_doubles books ''Flask|M. Copperwaite:C. Leifer|2015'' {} [] =
      Fine (entry, {entry_key [''Flask'', ''M. Copperwaite:C. Leifer'', ''2015'']}, []) \<and>
    print_entry plain_doubles entry = ''Flask|M. Copperwaite:C. Leifer|2015''"
proof -
  let ?vs = "[''Flask'', ''M. Copperwaite:C. Leifer'', ''2015'']"
  have f: "books = [\<lparr>ff_name = ''title'', ff_type = ''string'', is_arr = False\<rparr>,
      \<lparr>ff_name = ''author'', ff_type = ''string'', is_arr = True\<rparr>,
      \<lparr>ff_name = ''year'', ff_type = ''integer'', is_arr = False\<rparr>]"
    by code_simp
  have y: "''2015'' = fmt_d 2015" by code_simp
  have "list_all2 (canonical plain_doubles) books ?vs"
    unfolding f by (simp add: canonical_def) (rule exI [of _ 2015], simp add: y in_signed_32)
  moreover have "join_with ''|'' ?vs = ''Flask|M. Copperwaite:C. Leifer|2015''" by simp
  ultimately show ?thesis
    using entry_roundtrip [of plain_doubles books ?vs "{}" "[]"] by simp
qed

end
