(* ===== verification/Bank_Client.thy ===== *)
theory Bank_Client
  imports Bank_Tellers C_Text C_Format
begin

text \<open>
  The client of the bank (System Programming/Midterm/Midterm Project/client.c): it reads the
  requests from a file, writes them into the FIFO of the server, and reads two replies to each
  from a FIFO per request. Which calls of the operating system succeed, and the bytes that are
  read, are arguments; a run ends with the status it exits with. The array of requests on the
  stack starts with what was there before. The server's side of its FIFO is \<open>read_turn\<close>.
\<close>

section \<open>State\<close>

definition MAX_BANK_CLIENTS :: nat where "MAX_BANK_CLIENTS = 1000"

record bank_client =
  bc_reqs :: "request list"
  bc_count :: nat
  bc_sent :: "char list"
  bc_fifos :: "string set"
  bc_said :: "string list"
  bc_status :: "int option"

text \<open>
  The answers of the operating system: the file, whether the FIFO of the server opens, the
  \<open>mkfifo\<close> of each request (when the name is free), each \<open>write\<close> in order, and for the two
  replies to each request whether its FIFO opens and what is read, nothing at its end.
\<close>

record client_os =
  os_file :: "string option"
  os_server :: bool
  os_mkfifo :: "nat \<Rightarrow> bool"
  os_write :: "nat \<Rightarrow> bool"
  os_pid :: int
  os_opens :: "nat \<Rightarrow> nat \<Rightarrow> bool"
  os_read :: "nat \<Rightarrow> nat \<Rightarrow> char list"

definition new_bank_client :: "request list \<Rightarrow> string set \<Rightarrow> bank_client" where
  "new_bank_client stack dir =
     \<lparr>bc_reqs = stack, bc_count = 0, bc_sent = [], bc_fifos = dir, bc_said = [], bc_status = None\<rparr>"

definition client_says :: "string \<Rightarrow> bank_client \<Rightarrow> bank_client" where
  "client_says s c = c\<lparr>bc_said := bc_said c @ [s]\<rparr>"

definition client_fails :: "string \<Rightarrow> bank_client \<Rightarrow> bank_client" where
  "client_fails s c = (client_says s c)\<lparr>bc_status := Some 1\<rparr>"

text \<open>What follows a call that may have ended the program.\<close>

definition go_on :: "(bank_client \<Rightarrow> bank_client res) \<Rightarrow> bank_client \<Rightarrow> bank_client res" where
  "go_on f c = (if bc_status c = None then f c else Inr c)"

section \<open>The bytes of a request\<close>

definition request_bytes :: "request \<Rightarrow> char list" where
  "request_bytes r = q_id r @ q_op r @ q_credit r @ q_fifo r"

definition bytes_request :: "char list \<Rightarrow> request" where
  "bytes_request bs = \<lparr>q_id = take 32 bs, q_op = take 32 (drop 32 bs), q_credit = take 32 (drop 64 bs),
     q_fifo = take 64 (drop 96 bs)\<rparr>"

section \<open>Reading the requests\<close>

fun store_words :: "sval list \<Rightarrow> request \<Rightarrow> request" where
  "store_words [VS a] r = r\<lparr>q_id := put_string a (q_id r)\<rparr>"
| "store_words [VS a, VS b] r = r\<lparr>q_id := put_string a (q_id r), q_op := put_string b (q_op r)\<rparr>"
| "store_words [VS a, VS b, VS d] r = r\<lparr>q_id := put_string a (q_id r), q_op := put_string b (q_op r),
     q_credit := put_string d (q_credit r)\<rparr>"
| "store_words vs r = r"

definition request_format :: "directive list" where
  "request_format = [ScanS 32, WS, ScanS 32, WS, ScanS 32]"

definition fifo_name :: "nat \<Rightarrow> string" where
  "fifo_name i = ''client_fifo_'' @ fmt_d (int i)"

definition read_request :: "string \<Rightarrow> bank_client \<Rightarrow> bank_client res" where
  "read_request line c =
     rbind (sscanf request_format line) (\<lambda>vs. rbind (rd (bc_reqs c) (bc_count c)) (\<lambda>r.
       let r1 = store_words vs r;
           r2 = (if length vs = 3 then r1\<lparr>q_fifo := put_string (snprintf 64 (fifo_name (bc_count c))) (q_fifo r1)\<rparr> else r1)
       in Inr (c\<lparr>bc_reqs := (bc_reqs c)[bc_count c := r2],
                 bc_count := (if length vs = 3 then bc_count c + 1 else bc_count c)\<rparr>)))"

text \<open>The line is read before the count is compared.\<close>

fun read_requests :: "string list \<Rightarrow> bank_client \<Rightarrow> bank_client res" where
  "read_requests [] c = Inr c"
| "read_requests (line # ls) c =
     (if bc_count c < MAX_BANK_CLIENTS then rbind (read_request line c) (read_requests ls) else Inr c)"

definition read_file :: "client_os \<Rightarrow> string \<Rightarrow> bank_client \<Rightarrow> bank_client res" where
  "read_file os name c =
     (case os_file os of
        None \<Rightarrow> Inr (client_fails ''Cannot open file'' c)
      | Some content \<Rightarrow>
          rbind (read_requests (fgets_lines 256 content) (client_says (''Reading '' @ name) c)) (\<lambda>c1.
            Inr (client_says (fmt_d (int (bc_count c1)) @ '' clients to connect...creating clients...'') c1)))"

section \<open>Sending them\<close>

definition server_fifo_open :: "client_os \<Rightarrow> string \<Rightarrow> bank_client \<Rightarrow> bank_client res" where
  "server_fifo_open os name c =
     (if os_server os then Inr c
      else Inr (client_fails ''exiting...'' (client_says (''Cannot connect '' @ name) c)))"

text \<open>Write number \<open>k\<close> of the program.\<close>

definition write_server :: "client_os \<Rightarrow> nat \<Rightarrow> char list \<Rightarrow> string \<Rightarrow> bank_client \<Rightarrow> bank_client" where
  "write_server os k bs msg c =
     (if os_write os k then c\<lparr>bc_sent := bc_sent c @ bs\<rparr> else client_fails msg c)"

definition send_one :: "client_os \<Rightarrow> nat \<Rightarrow> bank_client \<Rightarrow> bank_client res" where
  "send_one os i c =
     rbind (rd (bc_reqs c) i) (\<lambda>r. rbind (c_string (q_fifo r)) (\<lambda>path.
       if path \<notin> bc_fifos c \<and> \<not> os_mkfifo os i then Inr (client_fails ''Cannot create client FIFO'' c)
       else Inr (write_server os (i + 2) (request_bytes r) ''Cannot write client request to server FIFO''
         (c\<lparr>bc_fifos := insert path (bc_fifos c)\<rparr>))))"

fun send_loop :: "client_os \<Rightarrow> nat \<Rightarrow> nat \<Rightarrow> bank_client \<Rightarrow> bank_client res" where
  "send_loop os i 0 c = Inr c"
| "send_loop os i (Suc n) c = rbind (send_one os i c) (go_on (send_loop os (i + 1) n))"

definition send_request :: "client_os \<Rightarrow> bank_client \<Rightarrow> bank_client res" where
  "send_request os c =
     go_on (\<lambda>c1. go_on (\<lambda>c2. send_loop os 0 (bc_count c2) c2)
         (write_server os 1 (int_bytes (os_pid os)) ''Cannot write client PID to server FIFO'' c1))
       (write_server os 0 (int_bytes (int (bc_count c))) ''Cannot write request count to server FIFO'' c)"

section \<open>The replies\<close>

definition receive_one :: "client_os \<Rightarrow> nat \<Rightarrow> nat \<Rightarrow> bank_client \<Rightarrow> bank_client" where
  "receive_one os k i c =
     (if \<not> os_opens os k i then client_says ''Cannot open client FIFO for reading'' c
      else let response_message = take 256 (os_read os k i); n = length response_message in
        if 0 < n then client_says (cstr (response_message[n - 1 := NUL])) c
        else client_says ''Cannot read response'' c)"

text \<open>Two loops over the requests, one reply each.\<close>

definition receive_response :: "client_os \<Rightarrow> bank_client \<Rightarrow> bank_client" where
  "receive_response os c =
     fold (receive_one os 1) [0..<bc_count c] (fold (receive_one os 0) [0..<bc_count c] c)"

section \<open>The end\<close>

fun rm_loop :: "request list \<Rightarrow> string set \<Rightarrow> string set res" where
  "rm_loop [] dir = Inr dir"
| "rm_loop (r # rs) dir = rbind (c_string (q_fifo r)) (\<lambda>path. rm_loop rs (dir - {path}))"

definition client_fifo_rm :: "bank_client \<Rightarrow> bank_client res" where
  "client_fifo_rm c = rbind (rm_loop (take (bc_count c) (bc_reqs c)) (bc_fifos c)) (\<lambda>dir. Inr (c\<lparr>bc_fifos := dir\<rparr>))"

text \<open>The handler of the signals, wherever the program is interrupted.\<close>

definition cleanup :: "int \<Rightarrow> bank_client \<Rightarrow> bank_client res" where
  "cleanup signum c =
     (let c1 = client_says (''Signal '' @ fmt_d signum @ '' received, cleaning up...'') c in
      rbind (if 0 < bc_count c1 then client_fifo_rm c1 else Inr c1) (\<lambda>c2. Inr (c2\<lparr>bc_status := Some 1\<rparr>)))"

definition client_main :: "client_os \<Rightarrow> string list \<Rightarrow> bank_client \<Rightarrow> bank_client res" where
  "client_main os args c =
     (case args of
        [name, server] \<Rightarrow>
          rbind (read_file os name c) (go_on (\<lambda>c1. rbind (server_fifo_open os server c1) (go_on (\<lambda>c2.
          rbind (send_request os c2) (go_on (\<lambda>c3. rbind (client_fifo_rm (receive_response os c3)) (\<lambda>c4.
            Inr (c4\<lparr>bc_status := Some 0\<rparr>))))))))
      | _ \<Rightarrow> Inr (client_fails ''Usage: <ClientFile> <ServerFifoName>'' c))"

section \<open>The server's end of its FIFO\<close>

text \<open>
  The bytes in the FIFO as the loop of the server reads them, None when it waits for more; a
  request of which there is only a part keeps the zeros of \<open>bzero\<close> in the rest. The count is the
  size of an array, which is to be positive.
\<close>

fun read_entries :: "nat \<Rightarrow> char list \<Rightarrow> (request option list \<times> char list) option" where
  "read_entries 0 bs = Some ([], bs)"
| "read_entries (Suc n) bs =
     (if bs = [] then None
      else case read_entries n (drop 160 bs) of
        None \<Rightarrow> None
      | Some (rqs, rest) \<Rightarrow>
          Some (Some (bytes_request (take 160 bs @ replicate (160 - length (take 160 bs)) NUL)) # rqs, rest))"

definition read_turn :: "char list \<Rightarrow> (int \<times> int \<times> request option list \<times> char list) res option" where
  "read_turn bs =
     (if length bs < 8 then None
      else let n = bytes_int (take 4 bs); ppid = bytes_int (take 4 (drop 4 bs)) in
        if n \<le> 0 then Some (Inl OutOfBounds)
        else case read_entries (nat n) (drop 8 bs) of
          None \<Rightarrow> None
        | Some (rqs, rest) \<Rightarrow> Some (Inr (n, ppid, rqs, rest)))"

end
