(* ===== verification/Bank_Client_Properties.thy ===== *)
theory Bank_Client_Properties
  imports Bank_Client
begin

text \<open>
  What the client of the bank makes of its file: which words go into which request, when they fit,
  that the server reads back exactly these requests and answers each, and how a run ends.
\<close>

section \<open>Words of a line\<close>

lemma skip_ws_twice [simp]: "skip_ws (skip_ws s) = skip_ws s"
  by (simp add: skip_ws_def)

lemma tokenize_skip_ws: "tokenize (skip_ws s) = tokenize s"
  by (subst (1 2) tokenize.simps) (simp add: skip_ws_def)

lemma tokenize_step:
  "tokenize s = (if skip_ws s = [] then []
     else takeWhile (\<lambda>c. \<not> isspace c) (skip_ws s) # tokenize (dropWhile (\<lambda>c. \<not> isspace c) (skip_ws s)))"
  by (subst tokenize.simps) (simp add: skip_ws_def Let_def)

lemma skip_ws_word: "skip_ws s \<noteq> [] \<Longrightarrow> takeWhile (\<lambda>c. \<not> isspace c) (skip_ws s) \<noteq> []"
  using hd_dropWhile [of isspace s] by (cases "dropWhile isspace s") (auto simp: skip_ws_def)

lemma sscanf_next_word:
  "sscanf (ScanS cap # ds) s =
     (case tokenize s of
        [] \<Rightarrow> Inr []
      | w # ws \<Rightarrow> if cap \<le> length w then Inl BufferOverflow
          else rbind (sscanf ds (dropWhile (\<lambda>c. \<not> isspace c) (skip_ws s))) (\<lambda>vs. Inr (VS w # vs)))"
  using skip_ws_word [of s] by (subst tokenize_step) (auto simp: Let_def dropWhile_eq_drop)

definition short_words :: "string \<Rightarrow> bool" where
  "short_words line \<longleftrightarrow> (\<forall>w \<in> set (take 3 (tokenize line)). length w < 32)"

lemma tokenize_rest: "tokenize s = w # ws \<Longrightarrow> tokenize (dropWhile (\<lambda>c. \<not> isspace c) (skip_ws s)) = ws"
  by (subst (asm) tokenize_step) (auto split: if_splits)

lemma sscanf_request:
  "sscanf request_format line = (if short_words line then Inr (map VS (take 3 (tokenize line))) else Inl BufferOverflow)"
proof -
  let ?next = "\<lambda>s. dropWhile (\<lambda>c. \<not> isspace c) (skip_ws s)"
  have one: "sscanf [ScanS 32] s = (case tokenize s of [] \<Rightarrow> Inr [] | w # ws \<Rightarrow>
      if 32 \<le> length w then Inl BufferOverflow else Inr [VS w])" for s
    unfolding sscanf_next_word by (simp split: list.split)
  show ?thesis
    unfolding request_format_def sscanf_next_word [of 32 _ line] sscanf.simps(2) sscanf_next_word [of 32 _ "skip_ws (?next line)"] one
    using tokenize_rest [of line] tokenize_rest [of "?next line"]
    by (auto simp: short_words_def tokenize_skip_ws take_Cons' split: list.split)
qed

lemma word_set: "w \<in> set (tokenize s) \<Longrightarrow> set w \<subseteq> set s"
proof (induction s rule: tokenize.induct)
  case (1 s)
  let ?t = "dropWhile isspace s"
  have t: "set ?t \<subseteq> set s" by (auto dest: set_dropWhileD)
  from "1.prems" have ne: "?t \<noteq> []"
    and w: "w = takeWhile (\<lambda>c. \<not> isspace c) ?t \<or> w \<in> set (tokenize (dropWhile (\<lambda>c. \<not> isspace c) ?t))"
    by (subst (asm) tokenize.simps, auto simp: Let_def split: if_splits)+
  have "set w \<subseteq> set ?t"
    using w "1.IH" [OF refl ne] by (auto dest: set_takeWhileD set_dropWhileD)
  with t show ?case by blast
qed

lemma NUL_cstr: "NUL \<notin> set (cstr s)"
  by (auto simp: cstr_def dest: set_takeWhileD)

lemma fgets_no_NUL: "l \<in> set (fgets_lines n s) \<Longrightarrow> NUL \<notin> set l"
  by (induction n s rule: fgets_lines.induct) (subst (asm) fgets_lines.simps, auto simp: NUL_cstr split: if_splits)

section \<open>Reading the file\<close>

definition layout_ok :: "request \<Rightarrow> bool" where
  "layout_ok r \<longleftrightarrow> length (q_id r) = 32 \<and> length (q_op r) = 32 \<and> length (q_credit r) = 32 \<and> length (q_fifo r) = 64"

text \<open>The three words of a request, and the name of its FIFO.\<close>

definition holds_words :: "request \<Rightarrow> string list \<Rightarrow> nat \<Rightarrow> bool" where
  "holds_words r ws i \<longleftrightarrow> layout_ok r \<and>
     (\<exists>a b d. ws = [a, b, d] \<and> c_string (q_id r) = Inr a \<and> c_string (q_op r) = Inr b \<and> c_string (q_credit r) = Inr d) \<and>
     c_string (q_fifo r) = Inr (fifo_name i)"

definition client_holds :: "string list list \<Rightarrow> bank_client \<Rightarrow> bool" where
  "client_holds wss c \<longleftrightarrow> length (bc_reqs c) = MAX_BANK_CLIENTS \<and> (\<forall>r \<in> set (bc_reqs c). layout_ok r) \<and>
     bc_count c = length wss \<and> length wss \<le> MAX_BANK_CLIENTS \<and> (\<forall>i < length wss. holds_words (bc_reqs c ! i) (wss ! i) i)"

definition same_rest :: "bank_client \<Rightarrow> bank_client \<Rightarrow> bool" where
  "same_rest c d \<longleftrightarrow> bc_sent d = bc_sent c \<and> bc_fifos d = bc_fifos c \<and> bc_said d = bc_said c \<and> bc_status d = bc_status c"

text \<open>The words of the lines that have three or more.\<close>

definition request_words :: "string list \<Rightarrow> string list list" where
  "request_words ls = map (\<lambda>l. take 3 (tokenize l)) (filter (\<lambda>l. 3 \<le> length (tokenize l)) ls)"

lemma c_string_put [simp]: "NUL \<notin> set s \<Longrightarrow> c_string (put_string s bs) = Inr s"
  by (auto simp: c_string_def put_string_def cstr_def takeWhile_append)

lemma fifo_name_short: "i < MAX_BANK_CLIENTS \<Longrightarrow> length (fifo_name i) < 64 \<and> NUL \<notin> set (fifo_name i)"
proof -
  assume i: "i < MAX_BANK_CLIENTS"
  have "length (dec n) \<le> 3" if "n < 1000" for n
  proof -
    have "length (dec (n div 10)) \<le> 2" using that by (intro length_dec_less_100) auto
    then show ?thesis by (subst dec.simps) simp
  qed
  then have "length (dec i) \<le> 3" using i by (simp add: MAX_BANK_CLIENTS_def)
  moreover have "NUL \<notin> set (dec i)" using dec_isdigit [of NUL i] by (auto simp: isdigit_def NUL_def)
  ultimately show ?thesis by (simp add: fifo_name_def fmt_d_def NUL_def)
qed

lemma store_words_ok:
  assumes "layout_ok r" "\<forall>w \<in> set ws. length w < 32"
  shows "layout_ok (store_words (map VS ws) r)"
  using assms by (cases "(map VS ws, r)" rule: store_words.cases) (auto simp: layout_ok_def)

lemma store_three: "length ws = 3 \<Longrightarrow> \<exists>a b d. ws = [a, b, d]"
  by (auto simp: numeral_3_eq_3 length_Suc_conv)

lemma read_request_spec:
  assumes c: "client_holds wss c" and less: "bc_count c < MAX_BANK_CLIENTS" and line: "short_words line" "NUL \<notin> set line"
  shows "\<exists>c'. read_request line c = Inr c' \<and> client_holds (wss @ request_words [line]) c' \<and>
    same_rest c c'"
proof -
  let ?n = "bc_count c" and ?ws = "take 3 (tokenize line)"
  let ?r1 = "store_words (map VS ?ws) (bc_reqs c ! ?n)"
  let ?name = "fifo_name ?n"
  from c less have n: "?n < length (bc_reqs c)" "?n = length wss" and r: "layout_ok (bc_reqs c ! ?n)"
    by (simp_all add: client_holds_def)
  have name: "snprintf 64 ?name = ?name" "length ?name < 64" "NUL \<notin> set ?name"
    using fifo_name_short [OF less] by (simp_all add: snprintf_def)
  have short: "\<forall>w \<in> set ?ws. length w < 32" using line(1) by (simp add: short_words_def)
  then have r1: "layout_ok ?r1" by (rule store_words_ok [OF r])
  have nonul: "NUL \<notin> set w" if "w \<in> set ?ws" for w
    using that word_set [of w line] line(2) by (auto dest: in_set_takeD)
  show ?thesis
  proof (cases "length (tokenize line) < 3")
    case True
    then show ?thesis
      using c r1 n line(1) by (auto simp: read_request_def sscanf_request client_holds_def request_words_def same_rest_def
        nth_list_update dest: subsetD [OF set_update_subset_insert])
  next
    case False
    then have "length ?ws = 3" by simp
    from store_three [OF this] obtain a b d where ws: "?ws = [a, b, d]" by blast
    let ?r2 = "?r1\<lparr>q_fifo := put_string ?name (q_fifo ?r1)\<rparr>"
    have "holds_words ?r2 [a, b, d] ?n"
      using r1 name nonul ws r by (auto simp: holds_words_def layout_ok_def)
    then show ?thesis
      using c n line(1) False ws name less
      by (auto simp: read_request_def sscanf_request client_holds_def request_words_def min_def holds_words_def
        same_rest_def nth_append nth_list_update less_Suc_eq dest: subsetD [OF set_update_subset_insert])
  qed
qed

lemma read_requests_spec:
  assumes "client_holds wss c" "\<forall>l \<in> set ls. short_words l \<and> NUL \<notin> set l"
  shows "\<exists>c'. read_requests ls c = Inr c' \<and> client_holds (take MAX_BANK_CLIENTS (wss @ request_words ls)) c' \<and>
    same_rest c c'"
  using assms
proof (induction ls arbitrary: wss c)
  case Nil
  then show ?case by (auto simp: client_holds_def request_words_def same_rest_def)
next
  case (Cons line ls)
  show ?case
  proof (cases "bc_count c < MAX_BANK_CLIENTS")
    case True
    from read_request_spec [OF Cons.prems(1) True, of line] Cons.prems(2) obtain c1 where
      c1: "read_request line c = Inr c1" "client_holds (wss @ request_words [line]) c1"
        "same_rest c c1" by auto
    from Cons.IH [OF c1(2)] Cons.prems(2) obtain c2 where
      c2: "read_requests ls c1 = Inr c2" "client_holds (take MAX_BANK_CLIENTS ((wss @ request_words [line]) @ request_words ls)) c2"
        "same_rest c1 c2" by auto
    have "(wss @ request_words [line]) @ request_words ls = wss @ request_words (line # ls)" by (simp add: request_words_def)
    with c1 c2 True show ?thesis by (intro exI [of _ c2]) (simp add: same_rest_def flip: append_assoc)
  next
    case False
    with Cons.prems(1) show ?thesis by (auto simp: client_holds_def same_rest_def)
  qed
qed

section \<open>Through the FIFO of the server\<close>

lemma length_request_bytes: "layout_ok r \<Longrightarrow> length (request_bytes r) = 160"
  by (simp add: layout_ok_def request_bytes_def)

lemma bytes_request_bytes: "layout_ok r \<Longrightarrow> bytes_request (request_bytes r) = r"
  by (cases r) (simp add: layout_ok_def request_bytes_def bytes_request_def)

lemma read_entries_back:
  "\<forall>r \<in> set rs. layout_ok r \<Longrightarrow> read_entries (length rs) (concat (map request_bytes rs) @ rest) = Some (map Some rs, rest)"
proof (induction rs)
  case (Cons r rs)
  then have r: "length (request_bytes r) = 160" "bytes_request (request_bytes r) = r"
    by (simp_all add: length_request_bytes bytes_request_bytes)
  then have "request_bytes r \<noteq> []" by auto
  with r Cons show ?case by simp
qed simp

definition all_writes :: "client_os \<Rightarrow> bool" where
  "all_writes os \<longleftrightarrow> (\<forall>k. os_write os k) \<and> (\<forall>i. os_mkfifo os i)"

lemma send_loop_spec:
  assumes "all_writes os" "bc_status c = None" "client_holds wss c" "i + n \<le> length wss"
  shows "send_loop os i n c = Inr (c\<lparr>bc_sent := bc_sent c @ concat (map request_bytes (take n (drop i (bc_reqs c)))),
    bc_fifos := bc_fifos c \<union> fifo_name ` {i..<i + n}\<rparr>)"
  using assms
proof (induction n arbitrary: i c)
  case (Suc n)
  let ?r = "bc_reqs c ! i"
  let ?c = "c\<lparr>bc_fifos := insert (fifo_name i) (bc_fifos c), bc_sent := bc_sent c @ request_bytes ?r\<rparr>"
  from Suc.prems have i: "i < length (bc_reqs c)" "c_string (q_fifo ?r) = Inr (fifo_name i)"
    by (auto simp: client_holds_def holds_words_def)
  then have one: "send_one os i c = Inr ?c"
    using Suc.prems(1) by (simp add: send_one_def all_writes_def write_server_def)
  have "client_holds wss ?c" "bc_status ?c = None" using Suc.prems(2,3) by (simp_all add: client_holds_def)
  note IH = Suc.IH [OF Suc.prems(1) this(2,1), of "i + 1"]
  have "insert (fifo_name i) (bc_fifos c) \<union> fifo_name ` {i + 1..<i + 1 + n} = bc_fifos c \<union> fifo_name ` {i..<i + Suc n}"
  proof -
    have "{i..<i + Suc n} = insert i {i + 1..<i + 1 + n}" by auto
    then show ?thesis by (simp only: image_insert) blast
  qed
  moreover have "take (Suc n) (drop i (bc_reqs c)) = ?r # take n (drop (i + 1) (bc_reqs c))"
    using i(1) by (simp add: Cons_nth_drop_Suc [symmetric])
  ultimately show ?case
    using one IH Suc.prems by (simp add: go_on_def)
qed simp

lemma read_file_spec:
  assumes "os_file os = Some content" "\<forall>l \<in> set (fgets_lines 256 content). short_words l"
    "length stack = MAX_BANK_CLIENTS" "\<forall>r \<in> set stack. layout_ok r"
    "wss = take MAX_BANK_CLIENTS (request_words (fgets_lines 256 content))"
  shows "\<exists>c. read_file os name (new_bank_client stack dir) = Inr c \<and> client_holds wss c \<and> bc_sent c = [] \<and>
    bc_fifos c = dir \<and> bc_status c = None \<and>
    bc_said c = [''Reading '' @ name, fmt_d (int (length wss)) @ '' clients to connect...creating clients...'']"
proof -
  let ?c = "client_says (''Reading '' @ name) (new_bank_client stack dir)"
  have "client_holds [] ?c" using assms(3,4) by (simp add: client_holds_def client_says_def new_bank_client_def)
  from read_requests_spec [OF this, of "fgets_lines 256 content"] assms(2) fgets_no_NUL obtain c where
    c: "read_requests (fgets_lines 256 content) ?c = Inr c" "client_holds wss c" "same_rest ?c c"
    unfolding assms(5) by auto
  then have "read_file os name (new_bank_client stack dir) =
      Inr (client_says (fmt_d (int (length wss)) @ '' clients to connect...creating clients...'') c)"
    using assms(1) by (simp add: read_file_def client_holds_def)
  then show ?thesis
    using c(2,3) by (auto simp: client_says_def same_rest_def client_holds_def new_bank_client_def)
qed

definition sent_bytes :: "client_os \<Rightarrow> bank_client \<Rightarrow> char list" where
  "sent_bytes os c = int_bytes (int (bc_count c)) @ int_bytes (os_pid os) @
     concat (map request_bytes (take (bc_count c) (bc_reqs c)))"

lemma send_request_spec:
  assumes "all_writes os" "bc_status c = None" "client_holds wss c"
  shows "send_request os c = Inr (c\<lparr>bc_sent := bc_sent c @ sent_bytes os c,
    bc_fifos := bc_fifos c \<union> fifo_name ` {..<length wss}\<rparr>)"
proof -
  let ?c = "c\<lparr>bc_sent := (bc_sent c @ int_bytes (int (bc_count c))) @ int_bytes (os_pid os)\<rparr>"
  have c: "client_holds wss ?c" "bc_status ?c = None" "bc_count c = length wss"
    using assms(2,3) by (simp_all add: client_holds_def)
  from assms(1) have "os_write os k" for k by (simp add: all_writes_def)
  then have "send_request os c = send_loop os 0 (length wss) ?c"
    using assms(2) c(3) by (simp add: send_request_def go_on_def write_server_def)
  also have "\<dots> = Inr (c\<lparr>bc_sent := bc_sent c @ sent_bytes os c, bc_fifos := bc_fifos c \<union> fifo_name ` {..<length wss}\<rparr>)"
    using send_loop_spec [OF assms(1) c(2,1), of 0 "length wss"] c(3) by (simp add: sent_bytes_def lessThan_atLeast0)
  finally show ?thesis .
qed

lemma read_turn_sent:
  assumes "client_holds wss c" "wss \<noteq> []" "in_signed 32 (os_pid os)"
  shows "read_turn (sent_bytes os c @ rest) =
    Some (Inr (int (length wss), os_pid os, map Some (take (length wss) (bc_reqs c)), rest))"
proof -
  let ?rs = "take (length wss) (bc_reqs c)"
  have len: "length ?rs = length wss" "bc_count c = length wss" "\<forall>r \<in> set ?rs. layout_ok r"
    using assms(1) by (auto simp: client_holds_def dest: in_set_takeD)
  have n: "in_signed 32 (int (length wss))"
    using assms(1) by (simp add: client_holds_def MAX_BANK_CLIENTS_def in_signed_32)
  show ?thesis
    using read_entries_back [OF len(3), of rest, unfolded len(1)] assms(2)
    by (simp add: read_turn_def sent_bytes_def len Let_def bytes_int_bytes n assms(3))
qed

section \<open>When the words fit\<close>

lemma read_requests_short:
  "read_requests ls c = Inr d \<Longrightarrow> bc_count c + length ls \<le> MAX_BANK_CLIENTS \<Longrightarrow> \<forall>l \<in> set ls. short_words l"
proof (induction ls arbitrary: c)
  case (Cons line ls)
  then have "bc_count c < MAX_BANK_CLIENTS" by simp
  with Cons.prems obtain c1 where c1: "read_request line c = Inr c1" "read_requests ls c1 = Inr d"
    by (auto simp: rbind_eq_Inr)
  then have "short_words line" "bc_count c1 \<le> bc_count c + 1"
    by (auto simp: read_request_def sscanf_request rbind_eq_Inr Let_def split: if_splits)
  with Cons c1 show ?case by force
qed simp


section \<open>The requests at the server\<close>

lemma receive_request_holds:
  assumes "holds_words r [a, op, d] i" "atoi d = Inr n" "i + base < length (requests (shm b))"
  shows "\<exists>b'. receive_request base i (Some r) b = Inr b' \<and> length (requests (shm b')) = length (requests (shm b)) \<and>
    effects b' = effects b @ [Reply (fifo_name i)
      (snprintf 256 (client_tag (i + base) @ '' connected.. '' @ op @ ''ing '' @ fmt_d n @ '' credits''))]"
  using assms by (simp add: receive_request_def holds_words_def)

definition connected :: "nat \<Rightarrow> string list list \<Rightarrow> int list \<Rightarrow> nat \<Rightarrow> bank_effect" where
  "connected base wss ns i = Reply (fifo_name i)
     (snprintf 256 (client_tag (i + base) @ '' connected.. '' @ (wss ! i ! 1) @ ''ing '' @ fmt_d (ns ! i) @ '' credits''))"

lemma receive_all_holds:
  assumes "\<forall>j < length rs. holds_words (rs ! j) (wss ! (i + j)) (i + j) \<and> atoi (wss ! (i + j) ! 2) = Inr (ns ! (i + j))"
    "i + base + length rs \<le> length (requests (shm b))"
  shows "\<exists>b'. receive_all base i (map Some rs) b = Inr b' \<and>
    effects b' = effects b @ map (connected base wss ns) [i..<i + length rs]"
  using assms
proof (induction rs arbitrary: i b)
  case (Cons r rs)
  have first: "holds_words r (wss ! i) i" "atoi (wss ! i ! 2) = Inr (ns ! i)" using Cons.prems(1) by force+
  then obtain a op d where w: "wss ! i = [a, op, d]" by (auto simp: holds_words_def)
  from receive_request_holds [of r a op d i "ns ! i" base b] first w Cons.prems(2) obtain b1 where
    b1: "receive_request base i (Some r) b = Inr b1" "length (requests (shm b1)) = length (requests (shm b))"
      "effects b1 = effects b @ [connected base wss ns i]" by (auto simp: connected_def)
  have "\<forall>j < length rs. holds_words (rs ! j) (wss ! (i + 1 + j)) (i + 1 + j) \<and> atoi (wss ! (i + 1 + j) ! 2) = Inr (ns ! (i + 1 + j))"
    using Cons.prems(1) by (auto dest: spec [of _ "Suc _"])
  from Cons.IH [OF this, of b1] b1(2) Cons.prems(2) obtain b2 where
    "receive_all base (i + 1) (map Some rs) b1 = Inr b2"
    "effects b2 = effects b1 @ map (connected base wss ns) [i + 1..<i + 1 + length rs]" by auto
  moreover have "[i..<i + length (r # rs)] = i # [i + 1..<i + 1 + length rs]" by (simp add: upt_conv_Cons del: upt_Suc)
  ultimately show ?case using b1 unfolding list.map(2) receive_all.simps(2) by (simp del: upt_Suc)
qed simp

text \<open>
  C13. When every call works and no word is too long, the server reads from its FIFO the number
  of the lines with three or more words (1000 at most), the process and, for each of these lines
  in order, a request that holds its first three words and the name of its FIFO; if the amounts
  are numbers for \<open>atoi\<close> and the table has room, the turn begins and each client is answered.
\<close>

theorem client_requests_served:
  assumes "os_file os = Some content" "\<forall>l \<in> set (fgets_lines 256 content). \<forall>w \<in> set (take 3 (tokenize l)). length w < 32"
    and "all_writes os" "in_signed 32 (os_pid os)"
    and "length stack = MAX_BANK_CLIENTS" "\<forall>r \<in> set stack. layout_ok r"
    and wss: "wss = take MAX_BANK_CLIENTS (request_words (fgets_lines 256 content))" "wss \<noteq> []"
    and ns: "\<forall>i < length wss. atoi (wss ! i ! 2) = Inr (ns ! i)"
    and room: "client_count b + length wss \<le> length (requests (shm b))"
  shows "\<exists>c1 c2 rqs t. read_file os name (new_bank_client stack dir) = Inr c1 \<and> send_request os c1 = Inr c2 \<and>
    read_turn (bc_sent c2 @ rest) = Some (Inr (int (length wss), os_pid os, map Some rqs, rest)) \<and>
    length rqs = length wss \<and> (\<forall>i < length wss. holds_words (rqs ! i) (wss ! i) i) \<and>
    begin_turn (map Some rqs) b = Inr t \<and>
    effects (bnk t) = effects b @ map (connected (client_count b) wss ns) [0..<length wss]"
proof -
  obtain c1 where c1: "read_file os name (new_bank_client stack dir) = Inr c1" "client_holds wss c1" "bc_sent c1 = []" "bc_status c1 = None"
    using read_file_spec [OF assms(1) _ assms(5,6) wss(1), of name dir] assms(2) unfolding short_words_def by blast
  let ?rqs = "take (length wss) (bc_reqs c1)"
  let ?c2 = "c1\<lparr>bc_sent := bc_sent c1 @ sent_bytes os c1, bc_fifos := bc_fifos c1 \<union> fifo_name ` {..<length wss}\<rparr>"
  have rqs: "length ?rqs = length wss" "\<forall>i < length wss. holds_words (?rqs ! i) (wss ! i) i"
    using c1(2) by (auto simp: client_holds_def)
  have "\<forall>j < length ?rqs. holds_words (?rqs ! j) (wss ! (0 + j)) (0 + j) \<and> atoi (wss ! (0 + j) ! 2) = Inr (ns ! (0 + j))"
    "0 + client_count b + length ?rqs \<le> length (requests (shm b))"
    using rqs ns room by simp_all
  from receive_all_holds [OF this] rqs(1) obtain b1 where
    b1: "receive_all (client_count b) 0 (map Some ?rqs) b = Inr b1"
      "effects b1 = effects b @ map (connected (client_count b) wss ns) [0..<length wss]" by auto
  have "send_request os c1 = Inr ?c2" by (rule send_request_spec [OF assms(3) c1(4,2)])
  moreover have "read_turn (bc_sent ?c2 @ rest) = Some (Inr (int (length wss), os_pid os, map Some ?rqs, rest))"
    using read_turn_sent [OF c1(2) wss(2) assms(4), of rest] c1(3) by simp
  moreover have "begin_turn (map Some ?rqs) b = Inr \<lparr>bnk = b1, tellers = start_tellers (client_count b) (map Some ?rqs)\<rparr>"
    using b1(1) by (simp add: begin_turn_def)
  ultimately show ?thesis using c1(1) rqs b1(2) by fastforce
qed

section \<open>A whole run\<close>

text \<open>What the client prints for one reply.\<close>

definition shown :: "client_os \<Rightarrow> nat \<Rightarrow> nat \<Rightarrow> string" where
  "shown os k i =
     (if \<not> os_opens os k i then ''Cannot open client FIFO for reading''
      else if os_read os k i = [] then ''Cannot read response''
      else cstr (butlast (take 256 (os_read os k i))))"

lemma receive_one_spec: "receive_one os k i c = client_says (shown os k i) c"
proof -
  have "cstr (xs[length xs - 1 := NUL]) = cstr (butlast xs)" if "xs \<noteq> []" for xs :: "char list"
    using that by (cases xs rule: rev_cases) (simp_all add: cstr_def takeWhile_append takeWhile_eq_all_conv [THEN iffD2])
  from this [of "take 256 (os_read os k i)"] show ?thesis by (simp add: receive_one_def shown_def Let_def)
qed

lemma receive_fold: "fold (receive_one os k) is c = c\<lparr>bc_said := bc_said c @ map (shown os k) is\<rparr>"
  by (induction "is" arbitrary: c) (simp_all add: receive_one_spec client_says_def)

lemma rm_loop_spec: "list_all2 (\<lambda>r p. c_string (q_fifo r) = Inr p) rs ps \<Longrightarrow> rm_loop rs dir = Inr (dir - set ps)"
  by (induction arbitrary: dir rule: list_all2_induct) auto

text \<open>
  Such a run ends with success, having printed, after the two lines on the file, the first
  replies to all requests and then the second ones, in their order (or that a FIFO could not be
  opened or read), and having removed the FIFOs of its requests and nothing else.
\<close>

theorem client_run:
  assumes "os_file os = Some content" "\<forall>l \<in> set (fgets_lines 256 content). \<forall>w \<in> set (take 3 (tokenize l)). length w < 32"
    and "all_writes os" "os_server os"
    and "length stack = MAX_BANK_CLIENTS" "\<forall>r \<in> set stack. layout_ok r"
    and n: "n = min MAX_BANK_CLIENTS (length (request_words (fgets_lines 256 content)))"
  shows "\<exists>c. client_main os [name, server] (new_bank_client stack dir) = Inr c \<and> bc_status c = Some 0 \<and>
    bc_fifos c = dir - fifo_name ` {..<n} \<and>
    bc_said c = [''Reading '' @ name, fmt_d (int n) @ '' clients to connect...creating clients...''] @
      map (shown os 0) [0..<n] @ map (shown os 1) [0..<n]"
proof -
  let ?wss = "take MAX_BANK_CLIENTS (request_words (fgets_lines 256 content))"
  have l: "length ?wss = n" by (simp add: n min.commute)
  obtain c1 where c1: "read_file os name (new_bank_client stack dir) = Inr c1" "client_holds ?wss c1" "bc_status c1 = None"
      "bc_fifos c1 = dir" "bc_said c1 = [''Reading '' @ name, fmt_d (int n) @ '' clients to connect...creating clients...'']"
    using read_file_spec [OF assms(1) _ assms(5,6) refl, of name dir] assms(2) unfolding short_words_def l by blast
  let ?c2 = "c1\<lparr>bc_sent := bc_sent c1 @ sent_bytes os c1, bc_fifos := bc_fifos c1 \<union> fifo_name ` {..<n}\<rparr>"
  have send: "send_request os c1 = Inr ?c2" using send_request_spec [OF assms(3) c1(3,2)] unfolding l .
  have cnt: "bc_count c1 = n" using c1(2) l by (simp add: client_holds_def)
  have "list_all2 (\<lambda>r p. c_string (q_fifo r) = Inr p) (take n (bc_reqs c1)) (map fifo_name [0..<n])"
    using c1(2) l by (auto simp: client_holds_def holds_words_def list_all2_conv_all_nth)
  from rm_loop_spec [OF this] have rm: "rm_loop (take n (bc_reqs c1)) d = Inr (d - fifo_name ` {..<n})" for d
    by (simp add: lessThan_atLeast0)
  have "client_main os [name, server] (new_bank_client stack dir) =
      rbind (client_fifo_rm (receive_response os ?c2)) (\<lambda>c4. Inr (c4\<lparr>bc_status := Some 0\<rparr>))"
    using c1(1,3) assms(4) send by (simp add: client_main_def go_on_def server_fifo_open_def)
  then show ?thesis
    using c1(4,5) cnt by (simp add: client_fifo_rm_def receive_response_def receive_fold rm Un_Diff)
qed

section \<open>Witnesses\<close>

text \<open>A file with two requests and a line that is too short, where everything works.\<close>

definition demo_file :: string where
  "demo_file = ''N deposit 300'' @ nl @ ''nobody'' @ nl @ ''BankID_01 withdraw 30 now'' @ nl"

definition demo_os :: client_os where
  "demo_os = \<lparr>os_file = Some demo_file, os_server = True, os_mkfifo = (\<lambda>_. True), os_write = (\<lambda>_. True),
     os_pid = 4711, os_opens = (\<lambda>_ _. True), os_read = (\<lambda>k i. (if k = 0 then ''connected'' else ''served'') @ [NUL])\<rparr>"

definition demo_words :: "string list list" where
  "demo_words = [[''N'', ''deposit'', ''300''], [''BankID_01'', ''withdraw'', ''30'']]"

definition demo_stack :: "request list" where
  "demo_stack = replicate MAX_BANK_CLIENTS zero_slot"

lemma demo_file_lines:
  "fgets_lines 256 demo_file = [''N deposit 300'' @ nl, ''nobody'' @ nl, ''BankID_01 withdraw 30 now'' @ nl]"
  "request_words (fgets_lines 256 demo_file) = demo_words"
  "\<forall>l \<in> set (fgets_lines 256 demo_file). \<forall>w \<in> set (take 3 (tokenize l)). length w < 32"
  by code_simp+

lemma demo_facts:
  "os_file demo_os = Some demo_file" "all_writes demo_os" "os_server demo_os" "in_signed 32 (os_pid demo_os)"
  "length demo_stack = MAX_BANK_CLIENTS" "\<forall>r \<in> set demo_stack. layout_ok r"
  by (simp_all add: demo_os_def all_writes_def in_signed_32 demo_stack_def layout_ok_def zero_slot_def)

lemma demo_take: "demo_words = take MAX_BANK_CLIENTS (request_words (fgets_lines 256 demo_file))"
  by (simp add: demo_file_lines(2)) (simp add: demo_words_def MAX_BANK_CLIENTS_def)


theorem client_requests_served_witness:
  "\<exists>c1 c2 rqs t. read_file demo_os ''in'' (new_bank_client demo_stack {}) = Inr c1 \<and> send_request demo_os c1 = Inr c2 \<and>
    read_turn (bc_sent c2 @ []) = Some (Inr (int (length demo_words), os_pid demo_os, map Some rqs, [])) \<and>
    length rqs = length demo_words \<and> (\<forall>i < length demo_words. holds_words (rqs ! i) (demo_words ! i) i) \<and>
    begin_turn (map Some rqs) (init_bank zero_shared) = Inr t \<and>
    effects (bnk t) = effects (init_bank zero_shared) @
      map (connected (client_count (init_bank zero_shared)) demo_words [300, 30]) [0..<length demo_words]"
proof (rule client_requests_served [OF demo_facts(1) demo_file_lines(3) demo_facts(2,4,5,6) demo_take])
  show "demo_words \<noteq> []" by (simp add: demo_words_def)
  have "atoi ''300'' = Inr 300" "atoi ''30'' = Inr 30" by code_simp+
  then show "\<forall>i < length demo_words. atoi (demo_words ! i ! 2) = Inr ([300, 30] ! i)"
    by (auto simp: demo_words_def less_Suc_eq)
  show "client_count (init_bank zero_shared) + length demo_words \<le> length (requests (shm (init_bank zero_shared)))"
    by (simp add: init_bank_def zero_shared_def demo_words_def c_limits)
qed

theorem client_run_witness:
  "\<exists>c. client_main demo_os [''in'', ''bank''] (new_bank_client demo_stack {''x''}) = Inr c \<and> bc_status c = Some 0 \<and>
    bc_fifos c = {''x''} - fifo_name ` {..<2} \<and>
    bc_said c = [''Reading in'', fmt_d (int 2) @ '' clients to connect...creating clients...''] @
      map (shown demo_os 0) [0..<2] @ map (shown demo_os 1) [0..<2]"
proof -
  have "2 = min MAX_BANK_CLIENTS (length (request_words (fgets_lines 256 demo_file)))"
    by (simp add: demo_file_lines(2)) (simp add: demo_words_def MAX_BANK_CLIENTS_def)
  from client_run [OF demo_facts(1) demo_file_lines(3) demo_facts(2,3,5,6) this, of "''in''" "''bank''" "{''x''}"]
  show ?thesis by simp
qed

end
