(* ===== verification/Bank_Replies.thy ===== *)
theory Bank_Replies
  imports C_Base
begin

text \<open>
  The FIFO on which a client of the bank gets its two replies (Midterm Project/client.c, the two
  loops of \<open>receive_response\<close>; server.c, \<open>reply_client\<close>), one call of the operating system per
  step. Both programs open and close it for each reply: opening waits for the other end, a read
  from an empty FIFO waits as long as it is open for writing and else finds the end, a write
  without a reader kills the writer, and what nobody holds open is lost. The first reply is
  written by the server, the second one by a teller that is started afterwards.
\<close>

section \<open>Steps\<close>

datatype reading = RdOpen nat | RdWait nat | RdRead nat | RdClose nat | RdUnlink | RdGone
datatype replying = WrOpen nat | WrWait nat | WrWrite nat | WrClose nat | WrDone | WrKilled

text \<open>
  The two programs, whether the open call of each has met the other end, whether the FIFO is open
  at each end, the replies in it, and what the client has read: a reply or the end.
\<close>

record reply_state =
  rd_pc :: reading
  wr_pc :: replying
  rd_met :: bool
  wr_met :: bool
  rd_end :: bool
  wr_end :: bool
  in_fifo :: "nat list"
  received :: "nat option list"

definition replies_begin :: reply_state where
  "replies_begin = \<lparr>rd_pc = RdOpen 0, wr_pc = WrOpen 0, rd_met = False, wr_met = False,
     rd_end = False, wr_end = False, in_fifo = [], received = []\<rparr>"

definition client_side :: "reply_state \<Rightarrow> reply_state option" where
  "client_side s = (case rd_pc s of
      RdOpen k \<Rightarrow> Some (s\<lparr>rd_pc := RdWait k, rd_end := True, rd_met := wr_end s, wr_met := True\<rparr>)
    | RdWait k \<Rightarrow> if rd_met s then Some (s\<lparr>rd_pc := RdRead k\<rparr>) else None
    | RdRead k \<Rightarrow> (case in_fifo s of
          m # ms \<Rightarrow> Some (s\<lparr>rd_pc := RdClose k, in_fifo := ms, received := received s @ [Some m]\<rparr>)
        | [] \<Rightarrow> if wr_end s then None else Some (s\<lparr>rd_pc := RdClose k, received := received s @ [None]\<rparr>))
    | RdClose k \<Rightarrow> Some (s\<lparr>rd_pc := (if k = 0 then RdOpen 1 else RdUnlink), rd_end := False,
        in_fifo := (if wr_end s then in_fifo s else [])\<rparr>)
    | RdUnlink \<Rightarrow> Some (s\<lparr>rd_pc := RdGone\<rparr>)
    | RdGone \<Rightarrow> None)"

definition next_reply :: "nat \<Rightarrow> replying" where
  "next_reply k = (if k = 0 then WrOpen 1 else WrDone)"

definition server_side :: "reply_state \<Rightarrow> reply_state option" where
  "server_side s = (case wr_pc s of
      WrOpen k \<Rightarrow>
        if rd_pc s = RdGone then Some (s\<lparr>wr_pc := next_reply k\<rparr>)
        else Some (s\<lparr>wr_pc := WrWait k, wr_end := True, wr_met := rd_end s, rd_met := True\<rparr>)
    | WrWait k \<Rightarrow> if wr_met s then Some (s\<lparr>wr_pc := WrWrite k\<rparr>) else None
    | WrWrite k \<Rightarrow>
        if rd_end s then Some (s\<lparr>wr_pc := WrClose k, in_fifo := in_fifo s @ [k]\<rparr>)
        else Some (s\<lparr>wr_pc := WrKilled, wr_end := False, in_fifo := []\<rparr>)
    | WrClose k \<Rightarrow> Some (s\<lparr>wr_pc := next_reply k, wr_end := False, in_fifo := (if rd_end s then in_fifo s else [])\<rparr>)
    | WrDone \<Rightarrow> None
    | WrKilled \<Rightarrow> None)"

inductive reply_step :: "reply_state \<Rightarrow> reply_state \<Rightarrow> bool" where
  client_moves: "client_side s = Some t \<Longrightarrow> reply_step s t"
| server_moves: "server_side s = Some t \<Longrightarrow> reply_step s t"

inductive_simps reply_step_iff: "reply_step s t"

section \<open>All runs\<close>

text \<open>The states after so many steps, and the states in which no step is possible.\<close>

definition reply_steps :: "reply_state \<Rightarrow> reply_state list" where
  "reply_steps s = (case client_side s of None \<Rightarrow> [] | Some t \<Rightarrow> [t]) @ (case server_side s of None \<Rightarrow> [] | Some t \<Rightarrow> [t])"

definition stuck :: "reply_state \<Rightarrow> bool" where
  "stuck s \<longleftrightarrow> (\<nexists>t. reply_step s t)"

definition next_layer :: "reply_state list \<Rightarrow> reply_state list" where
  "next_layer ss = remdups (concat (map reply_steps ss))"

lemma set_reply_steps: "set (reply_steps s) = {t. reply_step s t}"
  by (auto simp: reply_steps_def reply_step_iff split: option.splits)

lemma stuck_iff: "stuck s \<longleftrightarrow> reply_steps s = []"
  using set_reply_steps [of s] by (auto simp: stuck_def)

lemma layers: "set ((next_layer ^^ n) [s]) = {t. (reply_step ^^ n) s t}"
  by (induction n) (auto simp: next_layer_def set_reply_steps)

text \<open>The layers one after the other, and the ends that are in them.\<close>

fun ends_from :: "nat \<Rightarrow> reply_state list \<Rightarrow> (reading \<times> replying \<times> nat option list) list" where
  "ends_from 0 ss = []"
| "ends_from (Suc n) ss =
     map (\<lambda>s. (rd_pc s, wr_pc s, received s)) (filter (\<lambda>s. reply_steps s = []) ss) @ ends_from n (next_layer ss)"

lemma ends_from_set:
  "set (ends_from n ss) =
    {(rd_pc s, wr_pc s, received s) | s. \<exists>k < n. s \<in> set ((next_layer ^^ k) ss) \<and> stuck s}"
proof (induction n arbitrary: ss)
  case (Suc n)
  have "(\<exists>k < Suc n. s \<in> set ((next_layer ^^ k) ss) \<and> stuck s) \<longleftrightarrow>
      s \<in> set ss \<and> stuck s \<or> (\<exists>k < n. s \<in> set ((next_layer ^^ k) (next_layer ss)) \<and> stuck s)" for s
    by (auto simp: less_Suc_eq_0_disj funpow_swap1)
  then show ?case by (auto simp: Suc stuck_iff)
qed simp

lemma no_more_layers: "(next_layer ^^ 18) [replies_begin] = []"
  by code_simp

lemma run_length: "(reply_step ^^ n) replies_begin s \<Longrightarrow> n < 18"
proof (rule ccontr)
  assume run: "(reply_step ^^ n) replies_begin s" and "\<not> n < 18"
  then obtain k where "n = 18 + k" by (metis add.commute le_Suc_ex not_less)
  with run obtain t where "(reply_step ^^ 18) replies_begin t" by (auto simp: relpowp_add)
  then show False using layers [of 18 replies_begin] no_more_layers by auto
qed

lemma all_ends:
  "set (ends_from 18 [replies_begin]) =
     {(RdGone, WrDone, [Some 0, Some 1]), (RdWait 1, WrDone, [Some 0]), (RdWait 1, WrKilled, [Some 0]),
      (RdGone, WrDone, [Some 0, None]), (RdGone, WrKilled, [Some 0, None]), (RdGone, WrWait 1, [Some 0, None])}"
  by code_simp

text \<open>
  C15. Every exchange of the two replies ends after at most 17 steps, and it ends in one of six
  ways, all of which occur. The first reply always arrives. Then the client has also read the
  second one and removed the FIFO; or it waits for ever, because the second reply was lost when it
  closed the FIFO late or because the teller was killed as it wrote; or it has found the end of
  the FIFO, which the server had still open from the first reply, and has removed it: then the
  teller cannot reply, is killed, or waits for ever for a reader, and the server for the teller.
\<close>

theorem reply_outcomes:
  "{(rd_pc s, wr_pc s, received s) | s. reply_step\<^sup>*\<^sup>* replies_begin s \<and> stuck s} =
     {(RdGone, WrDone, [Some 0, Some 1]), (RdWait 1, WrDone, [Some 0]), (RdWait 1, WrKilled, [Some 0]),
      (RdGone, WrDone, [Some 0, None]), (RdGone, WrKilled, [Some 0, None]), (RdGone, WrWait 1, [Some 0, None])} \<and>
   (\<nexists>n s. 17 < n \<and> (reply_step ^^ n) replies_begin s)"
proof -
  have "reply_step\<^sup>*\<^sup>* replies_begin s \<longleftrightarrow> (\<exists>k < 18. s \<in> set ((next_layer ^^ k) [replies_begin]))" for s
    using run_length by (auto simp: rtranclp_power layers)
  then have "{(rd_pc s, wr_pc s, received s) | s. reply_step\<^sup>*\<^sup>* replies_begin s \<and> stuck s} = set (ends_from 18 [replies_begin])"
    by (auto simp: ends_from_set)
  moreover have "\<nexists>n s. 17 < n \<and> (reply_step ^^ n) replies_begin s" using run_length by (force dest: leD)
  ultimately show ?thesis by (simp only: all_ends simp_thms)
qed

end
