(* ===== verification/Daemon.thy ===== *)
theory Daemon
  imports C_Format
begin

text \<open>
  The daemon of System Programming/HW2 (main.c): it writes two numbers and a command into a FIFO
  and starts two children, of which the first reads them and writes the larger number into a
  second FIFO, and the other reads it from there. The start is a function; then the three
  processes, the handlers of the signals and the time limit are steps in any order. A call of the
  operating system that may fail does so as the arguments say. The log is the list of its lines;
  \<open>clock k\<close> is the text of the time at its line \<open>k\<close>.
\<close>

section \<open>State\<close>

datatype signal_number = SIGUSR1 | SIGHUP | SIGTERM

datatype parent_pc = Starting | ForkFirst | ForkSecond | Handlers nat | Looping | Sleeping | ParentEnded int | Terminated

datatype child1_pc =
    NotForked1 | Started1 | OpenFirst | ReadFirst | OpenSecond int | WriteSecond int | ReportWritten int | Close1
  | Exited1 int | Killed1

datatype child2_pc =
    NotForked2 | Started2 | Open2 | Opened2 | Read2 | ReportRead int | Close2 | Exited2 int | Killed2

text \<open>
  The FIFOs that exist, the bytes in them, and which child has the second one open; the descriptors
  of the parent and of its children; the children that have been waited for.
\<close>

type_synonym descriptors = "nat \<Rightarrow> string option"

record daemon =
  d_log :: "string list"
  d_names :: "string set"
  d_fifo1 :: "char list"
  d_fifo2 :: "char list"
  holds1 :: bool
  holds2 :: bool
  fds :: descriptors
  fds1 :: descriptors
  fds2 :: descriptors
  logfile :: nat
  parent_at :: parent_pc
  child1 :: child1_pc
  child2 :: child2_pc
  reaped1 :: bool
  reaped2 :: bool
  child_counter :: nat
  chld_pending :: bool

definition new_daemon :: "string set \<Rightarrow> descriptors \<Rightarrow> daemon" where
  "new_daemon names t = \<lparr>d_log = [], d_names = names, d_fifo1 = [], d_fifo2 = [], holds1 = False, holds2 = False,
     fds = t, fds1 = (\<lambda>_. None), fds2 = (\<lambda>_. None), logfile = 0, parent_at = Starting, child1 = NotForked1, child2 = NotForked2,
     reaped1 = False, reaped2 = False, child_counter = 0, chld_pending = False\<rparr>"

section \<open>The log\<close>

text \<open>None when the time does not fit: the array then holds no text.\<close>

definition get_time :: "nat \<Rightarrow> string \<Rightarrow> string option" where
  "get_time sz now = (if sz < 20 \<or> sz \<le> length now then None else Some now)"

definition write_msg_to_log :: "(nat \<Rightarrow> string) \<Rightarrow> descriptors \<Rightarrow> string \<Rightarrow> daemon \<Rightarrow> daemon res" where
  "write_msg_to_log clock t msg s =
     (case get_time 30 (clock (length (d_log s))) of
        None \<Rightarrow> Inl UninitRead
      | Some now \<Rightarrow>
          let line = now @ '' : '' @ msg @ nl in
          if 256 \<le> length line then Inl BufferOverflow
          else Inr (if t (logfile s) = Some ''logfile'' then s\<lparr>d_log := d_log s @ [line]\<rparr> else s))"

section \<open>The start\<close>

text \<open>A new descriptor is the lowest number that is free.\<close>

fun first_free :: "descriptors \<Rightarrow> nat \<Rightarrow> nat \<Rightarrow> nat" where
  "first_free t n 0 = n"
| "first_free t n (Suc k) = (if t n = None then n else first_free t (n + 1) k)"

definition fd_open :: "string \<Rightarrow> descriptors \<Rightarrow> nat \<times> descriptors" where
  "fd_open name t = (let n = first_free t 0 1024 in (n, if n < 1024 then t(n \<mapsto> name) else t))"

definition dup2 :: "nat \<Rightarrow> nat \<Rightarrow> descriptors \<Rightarrow> descriptors" where
  "dup2 old new t = (if t old = None then t else t(new := t old))"

definition ends :: "int \<Rightarrow> daemon \<Rightarrow> daemon res" where
  "ends n s = Inr (s\<lparr>parent_at := ParentEnded n\<rparr>)"

definition unlinked :: "daemon \<Rightarrow> daemon" where
  "unlinked s = s\<lparr>d_names := d_names s - {''fifo1'', ''fifo2''}\<rparr>"

definition starting :: "(daemon \<Rightarrow> daemon res) \<Rightarrow> daemon \<Rightarrow> daemon res" where
  "starting f s = (if parent_at s = Starting then f s else Inr s)"

text \<open>The process that goes on is the child of the child.\<close>

definition daemonize_the_process :: "(string \<Rightarrow> bool) \<Rightarrow> (nat \<Rightarrow> string) \<Rightarrow> daemon \<Rightarrow> daemon res" where
  "daemonize_the_process works clock s =
     (if \<not> works ''fork'' \<or> \<not> works ''setsid'' \<or> \<not> works ''second fork'' \<or> \<not> works ''open logfile'' then ends 1 s
      else let (l, t1) = fd_open ''logfile'' (\<lambda>_. None) in
        if \<not> works ''open /dev/null'' then ends 1 s
        else let (n, t2) = fd_open ''/dev/null'' t1;
                 t3 = (dup2 n 0 (dup2 l 2 (dup2 l 1 t2)))(n := None)
             in write_msg_to_log clock t3 ''[SUCCESS]: Daemon process created successfully.''
                  (s\<lparr>d_log := [], fds := t3, logfile := l\<rparr>))"

definition setup_the_fifos :: "(string \<Rightarrow> bool) \<Rightarrow> (nat \<Rightarrow> string) \<Rightarrow> daemon \<Rightarrow> daemon res" where
  "setup_the_fifos works clock s =
     (if ''fifo1'' \<in> d_names s \<or> \<not> works ''mkfifo fifo1'' then
        rbind (write_msg_to_log clock (fds s) ''[ERROR]: FIFO1 could not created successfully.'' s) (ends 1)
      else if ''fifo2'' \<in> d_names s \<or> \<not> works ''mkfifo fifo2'' then
        rbind (write_msg_to_log clock (fds s) ''[ERROR]: FIFO2 could not created successfully.'' s) (ends 1)
      else Inr (s\<lparr>d_names := {''fifo1'', ''fifo2''} \<union> d_names s\<rparr>))"

text \<open>One \<open>write\<close> of the parent into the first FIFO, what it logs if that fails.\<close>

definition parent_writes :: "(string \<Rightarrow> bool) \<Rightarrow> (nat \<Rightarrow> string) \<Rightarrow> string \<Rightarrow> char list \<Rightarrow> string \<Rightarrow> daemon \<Rightarrow> daemon res" where
  "parent_writes works clock what bs msg s =
     (if works what then Inr (s\<lparr>d_fifo1 := d_fifo1 s @ bs\<rparr>)
      else rbind (write_msg_to_log clock (fds s) msg s) (\<lambda>s1. ends 1 (unlinked s1)))"

definition send_numbers :: "(string \<Rightarrow> bool) \<Rightarrow> (nat \<Rightarrow> string) \<Rightarrow> int \<Rightarrow> int \<Rightarrow> daemon \<Rightarrow> daemon res" where
  "send_numbers works clock num1 num2 s =
     (if \<not> works ''open fifo1'' then
        rbind (write_msg_to_log clock (fds s) ''[ERROR]: Parent can not open FIFO1'' s) (\<lambda>s1. ends 1 (unlinked s1))
      else rbind (write_msg_to_log clock (snd (fd_open ''fifo1'' (fds s))) ''[SUCCESS]: Parent opened FIFO1''
          (s\<lparr>fds := snd (fd_open ''fifo1'' (fds s))\<rparr>)) (\<lambda>s1.
        rbind (parent_writes works clock ''write num1'' (int_bytes num1)
          ''[ERROR]: Parent can not write first number to FIFO1'' s1) (starting (\<lambda>s2.
        rbind (parent_writes works clock ''write num2'' (int_bytes num2)
          ''[ERROR]: Parent can not write second number to FIFO1'' s2) (starting (\<lambda>s3.
        rbind (parent_writes works clock ''write cmd'' (''larger'' @ [NUL])
          ''[ERROR]: Parent can not write command to FIFO1'' s3) (starting (\<lambda>s4.
        rbind (write_msg_to_log clock (fds s4) (snprintf 256 (''[SUCCESS]: Parent wrote numbers ('' @ fmt_d num1 @ '', '' @
            fmt_d num2 @ '') to FIFO1, and send command '' @ ''larger'')) s4) (\<lambda>s5.
          Inr (s5\<lparr>parent_at := ForkFirst\<rparr>))))))))))"

definition daemon_start :: "(string \<Rightarrow> bool) \<Rightarrow> (nat \<Rightarrow> string) \<Rightarrow> string list \<Rightarrow> daemon \<Rightarrow> daemon res" where
  "daemon_start works clock args s =
     (case args of
        [arg1, arg2] \<Rightarrow>
          rbind (daemonize_the_process works clock s) (starting (\<lambda>s1.
          rbind (setup_the_fifos works clock s1) (starting (\<lambda>s2.
          rbind (atoi arg1) (\<lambda>num1. rbind (atoi arg2) (\<lambda>num2. send_numbers works clock num1 num2 s2))))))
      | _ \<Rightarrow> ends 1 s)"

section \<open>The first child\<close>

text \<open>The end of a child makes a signal pending once the parent has its handler.\<close>

definition notify :: "daemon \<Rightarrow> daemon" where
  "notify s = (if parent_at s \<in> {Looping, Sleeping} then s\<lparr>chld_pending := True\<rparr> else s)"

definition exit1 :: "int \<Rightarrow> daemon \<Rightarrow> daemon" where
  "exit1 n s = notify (s\<lparr>child1 := Exited1 n, holds1 := False, d_fifo2 := (if holds2 s then d_fifo2 s else [])\<rparr>)"

definition fail1 :: "(nat \<Rightarrow> string) \<Rightarrow> string \<Rightarrow> daemon \<Rightarrow> daemon res" where
  "fail1 clock msg s = rbind (write_msg_to_log clock (fds1 s) msg s) (\<lambda>s1. Inr (exit1 1 s1))"

text \<open>
  The three reads without waiting: an empty FIFO makes \<open>read\<close> fail, and what a short read leaves of
  a number or a command is uninitialised. The result is the state with the numbers, or with None
  when the child has ended.
\<close>

definition read_command :: "(nat \<Rightarrow> string) \<Rightarrow> daemon \<Rightarrow> (daemon \<times> (int \<times> int) option) res" where
  "read_command clock s =
     (let bs1 = d_fifo1 s; bs2 = drop 4 bs1; bs3 = drop 4 bs2;
          failing = (\<lambda>msg rest. rbind (fail1 clock msg (s\<lparr>d_fifo1 := rest\<rparr>)) (\<lambda>s1. Inr (s1, None))) in
      if bs1 = [] then failing ''[ERROR]: Child 1 can not read first number from FIFO1'' []
      else if bs2 = [] then failing ''[ERROR]: Child 1 can not read second number from FIFO1'' []
      else if bs3 = [] then failing ''[ERROR]: Child 1 can not read command from FIFO1'' []
      else if NUL \<notin> set (take 20 bs3) then Inl UninitRead
      else if cstr (take 20 bs3) \<noteq> ''larger'' then failing ''[ERROR]: Child 1 received invalid command'' (drop 20 bs3)
      else Inr (s\<lparr>d_fifo1 := drop 20 bs3\<rparr>, Some (bytes_int (take 4 bs1), bytes_int (take 4 bs2))))"

definition child_process1 :: "(nat \<Rightarrow> string) \<Rightarrow> bool \<Rightarrow> daemon \<Rightarrow> daemon res" where
  "child_process1 clock works s = (case child1 s of
      Started1 \<Rightarrow> rbind (write_msg_to_log clock (fds1 s) ''[SUCCESS]: Child 1 has started'' s) (\<lambda>s1. Inr (s1\<lparr>child1 := OpenFirst\<rparr>))
    | OpenFirst \<Rightarrow>
        if works \<and> ''fifo1'' \<in> d_names s then Inr (s\<lparr>child1 := ReadFirst\<rparr>)
        else fail1 clock ''[ERROR]: Child 1 can not open FIFO1'' s
    | ReadFirst \<Rightarrow>
        rbind (read_command clock s) (\<lambda>(s1, r). case r of
            None \<Rightarrow> Inr s1
          | Some (num1, num2) \<Rightarrow>
              rbind (write_msg_to_log clock (fds1 s1) (snprintf 256 (''[SUCCESS]: Child 1 Read numbers ('' @ fmt_d num1 @ '', '' @
                  fmt_d num2 @ '') from FIFO1, and command ('' @ ''larger'' @ '')'')) s1) (\<lambda>s2.
                Inr (s2\<lparr>child1 := OpenSecond (if num1 > num2 then num1 else num2)\<rparr>)))
    | OpenSecond larger \<Rightarrow>
        if works \<and> ''fifo2'' \<in> d_names s then Inr (s\<lparr>child1 := WriteSecond larger, holds1 := True\<rparr>)
        else fail1 clock ''[ERROR]: Child 1 can not open FIFO2'' s
    | WriteSecond larger \<Rightarrow>
        if works then Inr (s\<lparr>child1 := ReportWritten larger, d_fifo2 := d_fifo2 s @ int_bytes larger\<rparr>)
        else fail1 clock ''[ERROR]: Child 1 can not write the larger number to FIFO2'' s
    | ReportWritten larger \<Rightarrow>
        rbind (write_msg_to_log clock (fds1 s) (snprintf 256 (''[SUCCESS]: Child 1 Wrote larger number ('' @ fmt_d larger @
            '') to FIFO2'')) s) (\<lambda>s1. Inr (s1\<lparr>child1 := Close1\<rparr>))
    | Close1 \<Rightarrow> Inr (exit1 0 s)
    | _ \<Rightarrow> Inr s)"

section \<open>The second child\<close>

definition exit2 :: "int \<Rightarrow> daemon \<Rightarrow> daemon" where
  "exit2 n s = notify (s\<lparr>child2 := Exited2 n, holds2 := False, d_fifo2 := (if holds1 s then d_fifo2 s else [])\<rparr>)"

definition fail2 :: "(nat \<Rightarrow> string) \<Rightarrow> string \<Rightarrow> daemon \<Rightarrow> daemon res" where
  "fail2 clock msg s = rbind (write_msg_to_log clock (fds2 s) msg s) (\<lambda>s1. Inr (exit2 1 s1))"

text \<open>Its read waits as long as the FIFO is empty.\<close>

definition child_process2 :: "(nat \<Rightarrow> string) \<Rightarrow> bool \<Rightarrow> daemon \<Rightarrow> daemon res" where
  "child_process2 clock works s = (case child2 s of
      Started2 \<Rightarrow> rbind (write_msg_to_log clock (fds2 s) ''[SUCCESS]: Child 2 has started'' s) (\<lambda>s1. Inr (s1\<lparr>child2 := Open2\<rparr>))
    | Open2 \<Rightarrow>
        if works \<and> ''fifo2'' \<in> d_names s then Inr (s\<lparr>child2 := Opened2, holds2 := True\<rparr>)
        else fail2 clock ''[ERROR]: Child 2 can not open FIFO2'' s
    | Opened2 \<Rightarrow> rbind (write_msg_to_log clock (fds2 s) ''[SUCCESS]: Child 2 opened FIFO2'' s) (\<lambda>s1. Inr (s1\<lparr>child2 := Read2\<rparr>))
    | Read2 \<Rightarrow>
        if d_fifo2 s = [] then Inr s
        else if length (d_fifo2 s) < 4
        then fail2 clock ''[ERROR]: Child 2 can not read larger number from FIFO2'' (s\<lparr>d_fifo2 := []\<rparr>)
        else Inr (s\<lparr>child2 := ReportRead (bytes_int (take 4 (d_fifo2 s))), d_fifo2 := drop 4 (d_fifo2 s)\<rparr>)
    | ReportRead larger \<Rightarrow>
        rbind (write_msg_to_log clock (fds2 s) (snprintf 256
            (''[SUCCESS]: Child 2 Read the larger number from FIFO2, larger number is: '' @ fmt_d larger)) s) (\<lambda>s1.
          Inr (s1\<lparr>child2 := Close2\<rparr>))
    | Close2 \<Rightarrow> Inr (exit2 0 s)
    | _ \<Rightarrow> Inr s)"

section \<open>The parent\<close>

definition kill1 :: "daemon \<Rightarrow> daemon" where
  "kill1 s = (case child1 s of
      NotForked1 \<Rightarrow> s
    | Exited1 n \<Rightarrow> s
    | _ \<Rightarrow> s\<lparr>child1 := Killed1, holds1 := False, d_fifo2 := (if holds2 s then d_fifo2 s else [])\<rparr>)"

definition kill2 :: "daemon \<Rightarrow> daemon" where
  "kill2 s = (case child2 s of
      NotForked2 \<Rightarrow> s
    | Exited2 n \<Rightarrow> s
    | _ \<Rightarrow> s\<lparr>child2 := Killed2, holds2 := False, d_fifo2 := (if holds1 s then d_fifo2 s else [])\<rparr>)"

text \<open>Terminating the children, as the handler and the time limit do.\<close>

definition shut_down :: "int \<Rightarrow> daemon \<Rightarrow> daemon" where
  "shut_down n s = (unlinked (kill2 (kill1 s)))\<lparr>fds := (fds s)(logfile s := None), parent_at := ParentEnded n\<rparr>"

definition signal_message :: "signal_number \<Rightarrow> string" where
  "signal_message sig = (case sig of
      SIGUSR1 \<Rightarrow> ''Received SIGUSR1 signal''
    | SIGHUP \<Rightarrow> ''Received SIGHUP signal - Reloading configuration''
    | SIGTERM \<Rightarrow> ''Received SIGTERM signal - Shutting down'')"

definition daemon_signal_handler :: "(nat \<Rightarrow> string) \<Rightarrow> signal_number \<Rightarrow> daemon \<Rightarrow> daemon res" where
  "daemon_signal_handler clock sig s =
     rbind (write_msg_to_log clock (fds s) (signal_message sig) s) (\<lambda>s1. Inr (shut_down 0 s1))"

text \<open>Handlers are installed in the order SIGHUP, SIGTERM, SIGUSR1, SIGCHLD.\<close>

definition handles :: "daemon \<Rightarrow> signal_number \<Rightarrow> bool" where
  "handles s sig = (case parent_at s of
      Handlers k \<Rightarrow> (case sig of SIGHUP \<Rightarrow> 1 | SIGTERM \<Rightarrow> 2 | SIGUSR1 \<Rightarrow> 3) \<le> k
    | Looping \<Rightarrow> True
    | Sleeping \<Rightarrow> True
    | _ \<Rightarrow> False)"

definition parent_alive :: "daemon \<Rightarrow> bool" where
  "parent_alive s = (case parent_at s of Terminated \<Rightarrow> False | ParentEnded n \<Rightarrow> False | _ \<Rightarrow> True)"

text \<open>A signal without a handler terminates the parent.\<close>

definition deliver :: "(nat \<Rightarrow> string) \<Rightarrow> signal_number \<Rightarrow> daemon \<Rightarrow> daemon res" where
  "deliver clock sig s =
     (if \<not> parent_alive s then Inr s
      else if handles s sig then daemon_signal_handler clock sig s
      else Inr (s\<lparr>parent_at := Terminated\<rparr>))"

text \<open>\<open>sigchld_handler\<close>: all children that have ended are waited for, whichever it was.\<close>

definition exit_message :: "int \<Rightarrow> int \<Rightarrow> string" where
  "exit_message pid status = snprintf 256 (''Child process '' @ fmt_d pid @ '' exited with status '' @ fmt_d status)"

definition reap1 :: "(nat \<Rightarrow> string) \<Rightarrow> int \<Rightarrow> daemon \<Rightarrow> daemon res" where
  "reap1 clock pid s = (case child1 s of
      Exited1 n \<Rightarrow>
        if reaped1 s then Inr s
        else rbind (write_msg_to_log clock (fds s) (exit_message pid n) s) (\<lambda>s1.
          Inr (s1\<lparr>reaped1 := True, child_counter := child_counter s1 + 1\<rparr>))
    | _ \<Rightarrow> Inr s)"

definition reap2 :: "(nat \<Rightarrow> string) \<Rightarrow> int \<Rightarrow> daemon \<Rightarrow> daemon res" where
  "reap2 clock pid s = (case child2 s of
      Exited2 n \<Rightarrow>
        if reaped2 s then Inr s
        else rbind (write_msg_to_log clock (fds s) (exit_message pid n) s) (\<lambda>s1.
          Inr (s1\<lparr>reaped2 := True, child_counter := child_counter s1 + 1\<rparr>))
    | _ \<Rightarrow> Inr s)"

definition sigchld_handler :: "(nat \<Rightarrow> string) \<Rightarrow> int \<times> int \<Rightarrow> daemon \<Rightarrow> daemon res" where
  "sigchld_handler clock pids s =
     (if chld_pending s \<and> parent_at s \<in> {Looping, Sleeping}
      then rbind (reap1 clock (fst pids) (s\<lparr>chld_pending := False\<rparr>)) (reap2 clock (snd pids))
      else Inr s)"

text \<open>
  A step of the parent: a fork, the installation of a handler, or half a round of its loop. The
  argument says whether the call works, and in the loop that the time limit is not over.
\<close>

definition main_step :: "(nat \<Rightarrow> string) \<Rightarrow> bool \<Rightarrow> daemon \<Rightarrow> daemon res" where
  "main_step clock works s = (case parent_at s of
      ForkFirst \<Rightarrow>
        if works then Inr (s\<lparr>child1 := Started1, fds1 := fds s, parent_at := ForkSecond\<rparr>)
        else rbind (write_msg_to_log clock (fds s) ''[ERROR]: Error creating child 1'' s) (\<lambda>s1. ends 1 (unlinked s1))
    | ForkSecond \<Rightarrow>
        if works then Inr (s\<lparr>child2 := Started2, fds2 := fds s, parent_at := Handlers 0\<rparr>)
        else rbind (write_msg_to_log clock (fds s) ''[ERROR]: creating child 2'' s) (\<lambda>s1. ends 1 (unlinked s1))
    | Handlers k \<Rightarrow>
        if works then Inr (s\<lparr>parent_at := (if k < 3 then Handlers (k + 1) else Looping)\<rparr>) else ends 1 s
    | Looping \<Rightarrow>
        if child_counter s < 2 then Inr (s\<lparr>parent_at := Sleeping\<rparr>)
        else rbind (write_msg_to_log clock (fds s) ''[SUCCESS]: The process has done successfully. Daemon shutting down'' s)
          (\<lambda>s1. ends 0 (unlinked (s1\<lparr>fds := (fds s1)(logfile s1 := None)\<rparr>)))
    | Sleeping \<Rightarrow>
        rbind (write_msg_to_log clock (fds s) ''Proceeding...'' s) (\<lambda>s1.
          if works then Inr (s1\<lparr>parent_at := Looping\<rparr>)
          else rbind (write_msg_to_log clock (fds s1) ''[TIMEOUT]: Timeout reached, terminating children'' s1) (\<lambda>s2.
            Inr (shut_down 1 s2)))
    | _ \<Rightarrow> Inr s)"

section \<open>Runs\<close>

datatype action = MainStep bool | FirstChild bool | SecondChild bool | ChildEnded | Sent signal_number

definition daemon_step :: "(nat \<Rightarrow> string) \<Rightarrow> int \<times> int \<Rightarrow> action \<Rightarrow> daemon \<Rightarrow> daemon res" where
  "daemon_step clock pids a s = (case a of
      MainStep works \<Rightarrow> main_step clock works s
    | FirstChild works \<Rightarrow> child_process1 clock works s
    | SecondChild works \<Rightarrow> child_process2 clock works s
    | ChildEnded \<Rightarrow> sigchld_handler clock pids s
    | Sent sig \<Rightarrow> deliver clock sig s)"

fun run_daemon :: "(nat \<Rightarrow> string) \<Rightarrow> int \<times> int \<Rightarrow> action list \<Rightarrow> daemon \<Rightarrow> daemon res" where
  "run_daemon clock pids [] s = Inr s"
| "run_daemon clock pids (a # as) s = rbind (daemon_step clock pids a s) (run_daemon clock pids as)"

end
