(* ===== verification/Daemon_Properties.thy ===== *)
theory Daemon_Properties
  imports Daemon
begin

text \<open>
  What the daemon logs, in whatever order its processes run: no line overflows its array, and a
  number that is reported as the larger one is. It can succeed; the number can also be lost
  between the children, and then only the time limit or a signal ends the daemon.
\<close>

section \<open>Lines of the log\<close>

lemma length_dec: "n < 10 ^ k \<Longrightarrow> 0 < k \<Longrightarrow> length (dec n) \<le> k"
proof (induction k arbitrary: n)
  case (Suc k)
  show ?case
  proof (cases "k = 0")
    case True
    with Suc.prems show ?thesis by (simp add: length_dec_less_10)
  next
    case False
    have "n div 10 < 10 ^ k" using Suc.prems(1) by (simp add: less_mult_imp_div_less mult.commute)
    with Suc.IH [of "n div 10"] False show ?thesis by (subst dec.simps) simp
  qed
qed simp

lemma length_fmt_d: "in_signed 32 n \<Longrightarrow> length (fmt_d n) \<le> 11"
proof -
  assume "in_signed 32 n"
  then have "nat \<bar>n\<bar> < 10 ^ 10" by (auto simp: in_signed_32)
  then have "length (dec (nat \<bar>n\<bar>)) \<le> 10" by (rule length_dec) simp
  then show ?thesis by (auto simp: fmt_d_def)
qed

text \<open>The messages that a daemon with these numbers and processes can log.\<close>

definition fixed_messages :: "string list" where
  "fixed_messages = [''[SUCCESS]: Daemon process created successfully.'',
     ''[ERROR]: FIFO1 could not created successfully.'', ''[ERROR]: FIFO2 could not created successfully.'',
     ''[ERROR]: Parent can not open FIFO1'', ''[SUCCESS]: Parent opened FIFO1'',
     ''[ERROR]: Parent can not write first number to FIFO1'', ''[ERROR]: Parent can not write second number to FIFO1'',
     ''[ERROR]: Parent can not write command to FIFO1'', ''[ERROR]: Error creating child 1'', ''[ERROR]: creating child 2'',
     ''[SUCCESS]: Child 1 has started'', ''[SUCCESS]: Child 2 has started'', ''[SUCCESS]: Child 2 opened FIFO2'',
     ''[ERROR]: Child 1 can not open FIFO1'', ''[ERROR]: Child 1 can not open FIFO2'',
     ''[ERROR]: Child 1 can not write the larger number to FIFO2'', ''[ERROR]: Child 2 can not open FIFO2'',
     ''Received SIGUSR1 signal'', ''Received SIGHUP signal - Reloading configuration'', ''Received SIGTERM signal - Shutting down'',
     ''Proceeding...'', ''[TIMEOUT]: Timeout reached, terminating children'',
     ''[SUCCESS]: The process has done successfully. Daemon shutting down'']"

definition number_messages :: "int \<Rightarrow> int \<Rightarrow> string list" where
  "number_messages num1 num2 =
     [''[SUCCESS]: Parent wrote numbers ('' @ fmt_d num1 @ '', '' @ fmt_d num2 @ '') to FIFO1, and send command '' @ ''larger'',
      ''[SUCCESS]: Child 1 Read numbers ('' @ fmt_d num1 @ '', '' @ fmt_d num2 @ '') from FIFO1, and command ('' @ ''larger'' @ '')'',
      ''[SUCCESS]: Child 1 Wrote larger number ('' @ fmt_d (max num1 num2) @ '') to FIFO2'',
      ''[SUCCESS]: Child 2 Read the larger number from FIFO2, larger number is: '' @ fmt_d (max num1 num2)]"

definition exit_messages :: "int \<times> int \<Rightarrow> string set" where
  "exit_messages pids = {''Child process '' @ fmt_d pid @ '' exited with status '' @ fmt_d status | pid status.
     pid \<in> {fst pids, snd pids} \<and> status \<in> {0, 1}}"

definition messages :: "int \<Rightarrow> int \<Rightarrow> int \<times> int \<Rightarrow> string set" where
  "messages num1 num2 pids = set fixed_messages \<union> set (number_messages num1 num2) \<union> exit_messages pids"

definition sane :: "(nat \<Rightarrow> string) \<Rightarrow> int \<Rightarrow> int \<Rightarrow> int \<times> int \<Rightarrow> bool" where
  "sane clock num1 num2 pids \<longleftrightarrow> (\<forall>k. length (clock k) < 30) \<and> in_signed 32 num1 \<and> in_signed 32 num2 \<and>
     in_signed 32 (fst pids) \<and> in_signed 32 (snd pids)"

lemma messages_short:
  assumes "sane clock num1 num2 pids" "m \<in> messages num1 num2 pids"
  shows "length m \<le> 200"
proof -
  have "in_signed 32 (max num1 num2)" using assms(1) by (auto simp: sane_def max_def)
  note f = length_fmt_d [OF this] length_fmt_d [of num1] length_fmt_d [of num2] length_fmt_d [of "fst pids"]
    length_fmt_d [of "snd pids"] length_fmt_d [of 0] length_fmt_d [of 1]
  consider "m \<in> set fixed_messages" | "m \<in> set (number_messages num1 num2)" | "m \<in> exit_messages pids"
    using assms(2) by (auto simp: messages_def)
  then show ?thesis
  proof cases
    case 1
    have "\<forall>m \<in> set fixed_messages. length m \<le> 200" by code_simp
    with 1 show ?thesis by blast
  next
    case 2
    then show ?thesis using f assms(1) by (auto simp: number_messages_def sane_def)
  next
    case 3
    then show ?thesis using f assms(1) by (auto simp: exit_messages_def sane_def in_signed_32)
  qed
qed

definition daemon_line :: "(nat \<Rightarrow> string) \<Rightarrow> nat \<Rightarrow> string \<Rightarrow> string" where
  "daemon_line clock k m = clock k @ '' : '' @ m @ nl"

lemma write_msg_ok:
  assumes "sane clock num1 num2 pids" "m \<in> messages num1 num2 pids"
  shows "write_msg_to_log clock t m s =
    Inr (if t (logfile s) = Some ''logfile'' then s\<lparr>d_log := d_log s @ [daemon_line clock (length (d_log s)) m]\<rparr> else s)"
proof -
  have "length (clock (length (d_log s))) < 30" using assms(1) by (simp add: sane_def)
  moreover have "snprintf 256 m = m" using messages_short [OF assms] by (simp add: snprintf_def)
  ultimately show ?thesis
    using messages_short [OF assms] by (simp add: write_msg_to_log_def get_time_def daemon_line_def Let_def nl_def)
qed

section \<open>The invariant\<close>

text \<open>
  Between the start and the first child the first FIFO holds the two numbers and the command; what
  the first child carries and the second FIFO holds is the larger number.
\<close>

definition command_bytes :: "int \<Rightarrow> int \<Rightarrow> char list" where
  "command_bytes num1 num2 = int_bytes num1 @ int_bytes num2 @ ''larger'' @ [NUL]"

fun child1_ok :: "int \<Rightarrow> int \<Rightarrow> char list \<Rightarrow> char list \<Rightarrow> child1_pc \<Rightarrow> bool" where
  "child1_ok a b f1 f2 NotForked1 \<longleftrightarrow> f2 = []"
| "child1_ok a b f1 f2 Started1 \<longleftrightarrow> f1 = command_bytes a b \<and> f2 = []"
| "child1_ok a b f1 f2 OpenFirst \<longleftrightarrow> f1 = command_bytes a b \<and> f2 = []"
| "child1_ok a b f1 f2 ReadFirst \<longleftrightarrow> f1 = command_bytes a b \<and> f2 = []"
| "child1_ok a b f1 f2 (OpenSecond n) \<longleftrightarrow> f2 = [] \<and> n = max a b"
| "child1_ok a b f1 f2 (WriteSecond n) \<longleftrightarrow> f2 = [] \<and> n = max a b"
| "child1_ok a b f1 f2 (ReportWritten n) \<longleftrightarrow> f2 \<in> {[], int_bytes (max a b)} \<and> n = max a b"
| "child1_ok a b f1 f2 Close1 \<longleftrightarrow> f2 \<in> {[], int_bytes (max a b)}"
| "child1_ok a b f1 f2 (Exited1 n) \<longleftrightarrow> f2 \<in> {[], int_bytes (max a b)} \<and> n \<in> {0, 1}"
| "child1_ok a b f1 f2 Killed1 \<longleftrightarrow> f2 \<in> {[], int_bytes (max a b)}"

fun child2_ok :: "int \<Rightarrow> int \<Rightarrow> child2_pc \<Rightarrow> bool" where
  "child2_ok a b (ReportRead n) \<longleftrightarrow> n = max a b"
| "child2_ok a b (Exited2 n) \<longleftrightarrow> n \<in> {0, 1}"
| "child2_ok a b pc \<longleftrightarrow> True"

fun parent_ok :: "int \<Rightarrow> int \<Rightarrow> char list \<Rightarrow> child1_pc \<Rightarrow> child2_pc \<Rightarrow> parent_pc \<Rightarrow> bool" where
  "parent_ok a b f1 c d Starting \<longleftrightarrow> False"
| "parent_ok a b f1 c d ForkFirst \<longleftrightarrow> c = NotForked1 \<and> d = NotForked2 \<and> f1 = command_bytes a b"
| "parent_ok a b f1 c d ForkSecond \<longleftrightarrow> d = NotForked2"
| "parent_ok a b f1 c d pc \<longleftrightarrow> True"

lemma child1_ok_fifo2: "child1_ok a b f1 f2 c \<Longrightarrow> f2 = [] \<or> f2 = int_bytes (max a b)"
  by (cases "(a, b, f1, f2, c)" rule: child1_ok.cases) auto

lemma child1_ok_empty: "child1_ok a b f1 f2 c \<Longrightarrow> child1_ok a b f1 [] c"
  by (cases "(a, b, f1, f2, c)" rule: child1_ok.cases) auto

definition log_ok :: "(nat \<Rightarrow> string) \<Rightarrow> int \<Rightarrow> int \<Rightarrow> int \<times> int \<Rightarrow> string list \<Rightarrow> bool" where
  "log_ok clock num1 num2 pids ls \<longleftrightarrow> (\<forall>k < length ls. \<exists>m \<in> messages num1 num2 pids. ls ! k = daemon_line clock k m)"

definition daemon_ok :: "(nat \<Rightarrow> string) \<Rightarrow> int \<Rightarrow> int \<Rightarrow> int \<times> int \<Rightarrow> daemon \<Rightarrow> bool" where
  "daemon_ok clock num1 num2 pids s \<longleftrightarrow> log_ok clock num1 num2 pids (d_log s) \<and>
     parent_ok num1 num2 (d_fifo1 s) (child1 s) (child2 s) (parent_at s) \<and>
     child1_ok num1 num2 (d_fifo1 s) (d_fifo2 s) (child1 s) \<and> child2_ok num1 num2 (child2 s)"

text \<open>What the parent's part of it does not depend on once a child is there.\<close>

lemma parent_ok_child1:
  "parent_ok a b f1 c d p \<Longrightarrow> c \<noteq> NotForked1 \<Longrightarrow> parent_ok a b f1' c' d p"
  by (cases p) auto

lemma parent_ok_child2:
  "parent_ok a b f1 c d p \<Longrightarrow> d \<noteq> NotForked2 \<Longrightarrow> parent_ok a b f1' c d' p"
  by (cases p) auto

lemma log_ok_snoc:
  "log_ok clock num1 num2 pids ls \<Longrightarrow> m \<in> messages num1 num2 pids \<Longrightarrow>
   log_ok clock num1 num2 pids (ls @ [daemon_line clock (length ls) m])"
  by (auto simp: log_ok_def nth_append less_Suc_eq)

lemma write_msg_spec:
  assumes "sane clock num1 num2 pids" "log_ok clock num1 num2 pids (d_log s)" "m \<in> messages num1 num2 pids"
  shows "\<exists>ls. write_msg_to_log clock t m s = Inr (s\<lparr>d_log := ls\<rparr>) \<and> log_ok clock num1 num2 pids ls"
proof (cases "t (logfile s) = Some ''logfile''")
  case True
  with write_msg_ok [OF assms(1,3), of t s] log_ok_snoc [OF assms(2,3)] show ?thesis by auto
next
  case False
  with write_msg_ok [OF assms(1,3), of t s] assms(2) show ?thesis
    by (intro exI [of _ "d_log s"]) simp
qed

section \<open>Every step keeps it\<close>

definition leads :: "(daemon \<Rightarrow> bool) \<Rightarrow> daemon res \<Rightarrow> bool" where
  "leads Q r \<longleftrightarrow> (\<exists>u. r = Inr u \<and> Q u)"

lemma leads_Inr [simp]: "leads Q (Inr u) \<longleftrightarrow> Q u"
  by (simp add: leads_def)

lemma leads_rbind: "leads P m \<Longrightarrow> (\<And>u. P u \<Longrightarrow> leads Q (f u)) \<Longrightarrow> leads Q (rbind m f)"
  by (auto simp: leads_def)

lemma leads_log:
  assumes "sane clock num1 num2 pids" "log_ok clock num1 num2 pids (d_log s)" "m \<in> messages num1 num2 pids"
    and "\<And>ls. log_ok clock num1 num2 pids ls \<Longrightarrow> leads Q (f (s\<lparr>d_log := ls\<rparr>))"
  shows "leads Q (rbind (write_msg_to_log clock t m s) f)"
  using write_msg_spec [OF assms(1-3), of t] assms(4) by auto

lemma leads_logged:
  assumes "sane clock num1 num2 pids" "log_ok clock num1 num2 pids (d_log s)" "m \<in> messages num1 num2 pids"
    and "\<And>ls. log_ok clock num1 num2 pids ls \<Longrightarrow> Q (s\<lparr>d_log := ls\<rparr>)"
  shows "leads Q (write_msg_to_log clock t m s)"
  using write_msg_spec [OF assms(1-3), of t] assms(4) by auto

lemma fixed_in: "m \<in> set fixed_messages \<Longrightarrow> m \<in> messages num1 num2 pids"
  by (simp add: messages_def)

lemma number_in: "m \<in> set (number_messages num1 num2) \<Longrightarrow> m \<in> messages num1 num2 pids"
  by (simp add: messages_def)

lemma exit_in:
  "pid \<in> {fst pids, snd pids} \<Longrightarrow> status \<in> {0, 1} \<Longrightarrow>
   ''Child process '' @ fmt_d pid @ '' exited with status '' @ fmt_d status \<in> messages num1 num2 pids"
  by (auto simp: messages_def exit_messages_def)

lemma snprintf_message: "sane clock num1 num2 pids \<Longrightarrow> m \<in> messages num1 num2 pids \<Longrightarrow> snprintf 256 m = m"
  using messages_short [of clock num1 num2 pids m] by (simp add: snprintf_def)

lemma daemon_ok_logD: "daemon_ok clock num1 num2 pids s \<Longrightarrow> log_ok clock num1 num2 pids (d_log s)"
  by (simp add: daemon_ok_def)

lemma daemon_ok_log:
  "daemon_ok clock num1 num2 pids s \<Longrightarrow> log_ok clock num1 num2 pids ls \<Longrightarrow> daemon_ok clock num1 num2 pids (s\<lparr>d_log := ls\<rparr>)"
  by (simp add: daemon_ok_def)

lemma notify_simps [simp]:
  "d_log (notify s) = d_log s" "child1 (notify s) = child1 s" "child2 (notify s) = child2 s"
  "parent_at (notify s) = parent_at s" "d_fifo1 (notify s) = d_fifo1 s" "d_fifo2 (notify s) = d_fifo2 s"
  by (simp_all add: notify_def)

lemma exit1_ok:
  "daemon_ok clock num1 num2 pids s \<Longrightarrow> child1 s \<noteq> NotForked1 \<Longrightarrow> n \<in> {0, 1} \<Longrightarrow> daemon_ok clock num1 num2 pids (exit1 n s)"
  by (auto simp: daemon_ok_def exit1_def intro: parent_ok_child1 dest: child1_ok_fifo2)

lemma exit2_ok:
  "daemon_ok clock num1 num2 pids s \<Longrightarrow> child2 s \<noteq> NotForked2 \<Longrightarrow> n \<in> {0, 1} \<Longrightarrow> daemon_ok clock num1 num2 pids (exit2 n s)"
  by (auto simp: daemon_ok_def exit2_def intro: parent_ok_child2 child1_ok_empty)

lemma fail1_ok:
  assumes "sane clock num1 num2 pids" "daemon_ok clock num1 num2 pids s" "child1 s \<noteq> NotForked1" "m \<in> set fixed_messages"
  shows "leads (daemon_ok clock num1 num2 pids) (fail1 clock m s)"
  unfolding fail1_def
  by (rule leads_log [OF assms(1) daemon_ok_logD [OF assms(2)] fixed_in [OF assms(4)]])
    (use assms(3) in \<open>simp add: exit1_ok [OF daemon_ok_log [OF assms(2)]]\<close>)

lemma fail2_ok:
  assumes "sane clock num1 num2 pids" "daemon_ok clock num1 num2 pids s" "child2 s \<noteq> NotForked2" "m \<in> set fixed_messages"
  shows "leads (daemon_ok clock num1 num2 pids) (fail2 clock m s)"
  unfolding fail2_def
  by (rule leads_log [OF assms(1) daemon_ok_logD [OF assms(2)] fixed_in [OF assms(4)]])
    (use assms(3) in \<open>simp add: exit2_ok [OF daemon_ok_log [OF assms(2)]]\<close>)

lemma read_command_ok:
  assumes "d_fifo1 s = command_bytes num1 num2" "sane clock num1 num2 pids"
  shows "read_command clock s = Inr (s\<lparr>d_fifo1 := []\<rparr>, Some (num1, num2))"
proof -
  have "int_bytes n \<noteq> []" for n using length_int_bytes [of n] by fastforce
  moreover have "NUL \<notin> set ''larger''" by (simp add: NUL_def)
  ultimately show ?thesis
    using assms by (simp add: read_command_def command_bytes_def Let_def bytes_int_bytes sane_def cstr_def NUL_def)
qed

lemma child_process1_ok:
  assumes c: "sane clock num1 num2 pids" and s: "daemon_ok clock num1 num2 pids s"
  shows "leads (daemon_ok clock num1 num2 pids) (child_process1 clock works s)"
proof (cases "child1 s")
  case Started1
  then show ?thesis
    unfolding child_process1_def Started1 child1_pc.case
    by (intro leads_log [OF c daemon_ok_logD [OF s] fixed_in])
      (use s Started1 in \<open>auto simp: fixed_messages_def daemon_ok_def intro: parent_ok_child1\<close>)
next
  case OpenFirst
  then show ?thesis
    using s fail1_ok [OF c s] by (auto simp: child_process1_def daemon_ok_def fixed_messages_def intro: parent_ok_child1)
next
  case ReadFirst
  have m: "''[SUCCESS]: Child 1 Read numbers ('' @ fmt_d num1 @ '', '' @ fmt_d num2 @ '') from FIFO1, and command ('' @ ''larger'' @ '')''
      \<in> messages num1 num2 pids"
    by (rule number_in) (simp add: number_messages_def)
  have "d_fifo1 s = command_bytes num1 num2" using s ReadFirst by (simp add: daemon_ok_def)
  note read = read_command_ok [OF this c]
  have "leads (daemon_ok clock num1 num2 pids)
    (rbind (write_msg_to_log clock (fds1 s) (''[SUCCESS]: Child 1 Read numbers ('' @ fmt_d num1 @ '', '' @ fmt_d num2 @
        '') from FIFO1, and command ('' @ ''larger'' @ '')'') (s\<lparr>d_fifo1 := []\<rparr>)) (\<lambda>s2.
      Inr (s2\<lparr>child1 := OpenSecond (if num1 > num2 then num1 else num2)\<rparr>)))"
    using s ReadFirst by (intro leads_log [OF c _ m]) (auto simp: daemon_ok_def intro: parent_ok_child1)
  then show ?thesis
    by (simp only: child_process1_def ReadFirst child1_pc.case read rbind_Inr prod.case option.case snprintf_message [OF c m]) simp
next
  case (OpenSecond n)
  then show ?thesis
    using s fail1_ok [OF c s] by (auto simp: child_process1_def daemon_ok_def fixed_messages_def intro: parent_ok_child1)
next
  case (WriteSecond n)
  then show ?thesis
    using s fail1_ok [OF c s] by (auto simp: child_process1_def daemon_ok_def fixed_messages_def intro: parent_ok_child1)
next
  case (ReportWritten n)
  have m: "''[SUCCESS]: Child 1 Wrote larger number ('' @ fmt_d (max num1 num2) @ '') to FIFO2'' \<in> messages num1 num2 pids"
    by (rule number_in) (simp add: number_messages_def)
  have n: "n = max num1 num2" using s ReportWritten by (simp add: daemon_ok_def)
  show ?thesis
    unfolding child_process1_def ReportWritten child1_pc.case n snprintf_message [OF c m]
    by (intro leads_log [OF c daemon_ok_logD [OF s] m])
      (use s ReportWritten in \<open>auto simp: daemon_ok_def intro: parent_ok_child1\<close>)
next
  case Close1
  then show ?thesis using exit1_ok [OF s, of 0] by (simp add: child_process1_def)
qed (use s in \<open>simp_all add: child_process1_def\<close>)

lemma child_process2_ok:
  assumes c: "sane clock num1 num2 pids" and s: "daemon_ok clock num1 num2 pids s"
  shows "leads (daemon_ok clock num1 num2 pids) (child_process2 clock works s)"
proof (cases "child2 s")
  case Started2
  show ?thesis
    unfolding child_process2_def Started2 child2_pc.case
    by (intro leads_log [OF c daemon_ok_logD [OF s] fixed_in])
      (use s Started2 in \<open>auto simp: fixed_messages_def daemon_ok_def intro: parent_ok_child2\<close>)
next
  case Open2
  then show ?thesis
    using s fail2_ok [OF c s] by (auto simp: child_process2_def daemon_ok_def fixed_messages_def intro: parent_ok_child2)
next
  case Opened2
  show ?thesis
    unfolding child_process2_def Opened2 child2_pc.case
    by (intro leads_log [OF c daemon_ok_logD [OF s] fixed_in])
      (use s Opened2 in \<open>auto simp: fixed_messages_def daemon_ok_def intro: parent_ok_child2\<close>)
next
  case Read2
  have "in_signed 32 (max num1 num2)" using c by (auto simp: sane_def max_def)
  note number = bytes_int_bytes [OF this]
  from s have f: "d_fifo2 s = [] \<or> d_fifo2 s = int_bytes (max num1 num2)"
    by (auto simp: daemon_ok_def dest: child1_ok_fifo2)
  then show ?thesis
    using s Read2 number
    by (auto simp: child_process2_def daemon_ok_def intro: parent_ok_child2 child1_ok_empty)
next
  case (ReportRead n)
  have m: "''[SUCCESS]: Child 2 Read the larger number from FIFO2, larger number is: '' @ fmt_d (max num1 num2)
      \<in> messages num1 num2 pids"
    by (rule number_in) (simp add: number_messages_def)
  have n: "n = max num1 num2" using s ReportRead by (simp add: daemon_ok_def)
  show ?thesis
    unfolding child_process2_def ReportRead child2_pc.case n snprintf_message [OF c m]
    by (intro leads_log [OF c daemon_ok_logD [OF s] m])
      (use s ReportRead in \<open>auto simp: daemon_ok_def intro: parent_ok_child2\<close>)
next
  case Close2
  then show ?thesis using exit2_ok [OF s, of 0] by (simp add: child_process2_def)
qed (use s in \<open>simp_all add: child_process2_def\<close>)

lemma kill1_ok: "daemon_ok clock num1 num2 pids s \<Longrightarrow> daemon_ok clock num1 num2 pids (kill1 s)"
  by (cases "child1 s") (auto simp: daemon_ok_def kill1_def intro: parent_ok_child1)

lemma kill2_ok: "daemon_ok clock num1 num2 pids s \<Longrightarrow> daemon_ok clock num1 num2 pids (kill2 s)"
  by (cases "child2 s") (auto simp: daemon_ok_def kill2_def intro: parent_ok_child2 child1_ok_empty)

lemma ended_ok: "daemon_ok clock num1 num2 pids s \<Longrightarrow> daemon_ok clock num1 num2 pids (s\<lparr>fds := t, parent_at := ParentEnded n\<rparr>)"
  by (simp add: daemon_ok_def)

lemma unlinked_ok [simp]: "daemon_ok clock num1 num2 pids (unlinked s) \<longleftrightarrow> daemon_ok clock num1 num2 pids s"
  by (simp add: daemon_ok_def unlinked_def)

lemma shut_down_ok: "daemon_ok clock num1 num2 pids s \<Longrightarrow> daemon_ok clock num1 num2 pids (shut_down n s)"
  unfolding shut_down_def by (intro ended_ok) (simp add: kill1_ok kill2_ok)

lemma deliver_ok:
  assumes c: "sane clock num1 num2 pids" and s: "daemon_ok clock num1 num2 pids s"
  shows "leads (daemon_ok clock num1 num2 pids) (deliver clock sig s)"
proof -
  have m: "signal_message sig \<in> set fixed_messages" by (cases sig) (simp_all add: signal_message_def fixed_messages_def)
  have "leads (daemon_ok clock num1 num2 pids) (daemon_signal_handler clock sig s)"
    unfolding daemon_signal_handler_def
    by (rule leads_log [OF c daemon_ok_logD [OF s] fixed_in [OF m]]) (simp add: shut_down_ok daemon_ok_log [OF s])
  with s show ?thesis by (auto simp: deliver_def daemon_ok_def)
qed

lemma reap1_ok:
  assumes c: "sane clock num1 num2 pids" and s: "daemon_ok clock num1 num2 pids s"
  shows "leads (daemon_ok clock num1 num2 pids) (reap1 clock (fst pids) s)"
proof (cases "child1 s")
  case (Exited1 n)
  then have "n \<in> {0, 1}" using s by (simp add: daemon_ok_def)
  then have m: "''Child process '' @ fmt_d (fst pids) @ '' exited with status '' @ fmt_d n \<in> messages num1 num2 pids"
    by (intro exit_in) simp_all
  show ?thesis
    unfolding reap1_def Exited1 child1_pc.case exit_message_def snprintf_message [OF c m]
    by (cases "reaped1 s", simp add: s, simp only: if_False)
      (rule leads_log [OF c daemon_ok_logD [OF s] m], use s in \<open>simp add: daemon_ok_def\<close>)
qed (use s in \<open>simp_all add: reap1_def\<close>)

lemma reap2_ok:
  assumes c: "sane clock num1 num2 pids" and s: "daemon_ok clock num1 num2 pids s"
  shows "leads (daemon_ok clock num1 num2 pids) (reap2 clock (snd pids) s)"
proof (cases "child2 s")
  case (Exited2 n)
  then have "n \<in> {0, 1}" using s by (simp add: daemon_ok_def)
  then have m: "''Child process '' @ fmt_d (snd pids) @ '' exited with status '' @ fmt_d n \<in> messages num1 num2 pids"
    by (intro exit_in) simp_all
  show ?thesis
    unfolding reap2_def Exited2 child2_pc.case exit_message_def snprintf_message [OF c m]
    by (cases "reaped2 s", simp add: s, simp only: if_False)
      (rule leads_log [OF c daemon_ok_logD [OF s] m], use s in \<open>simp add: daemon_ok_def\<close>)
qed (use s in \<open>simp_all add: reap2_def\<close>)

lemma sigchld_ok:
  assumes c: "sane clock num1 num2 pids" and s: "daemon_ok clock num1 num2 pids s"
  shows "leads (daemon_ok clock num1 num2 pids) (sigchld_handler clock pids s)"
proof -
  have "daemon_ok clock num1 num2 pids (s\<lparr>chld_pending := False\<rparr>)" using s by (simp add: daemon_ok_def)
  then have "leads (daemon_ok clock num1 num2 pids) (rbind (reap1 clock (fst pids) (s\<lparr>chld_pending := False\<rparr>)) (reap2 clock (snd pids)))"
    by (intro leads_rbind [OF reap1_ok [OF c]] reap2_ok [OF c])
  then show ?thesis using s by (simp add: sigchld_handler_def)
qed

lemma main_step_ok:
  assumes c: "sane clock num1 num2 pids" and s: "daemon_ok clock num1 num2 pids s"
  shows "leads (daemon_ok clock num1 num2 pids) (main_step clock works s)"
proof -
  have log: "leads (daemon_ok clock num1 num2 pids) (rbind (write_msg_to_log clock t m u) f)"
    if "daemon_ok clock num1 num2 pids u" "m \<in> set fixed_messages"
      "\<And>ls. daemon_ok clock num1 num2 pids (u\<lparr>d_log := ls\<rparr>) \<Longrightarrow> leads (daemon_ok clock num1 num2 pids) (f (u\<lparr>d_log := ls\<rparr>))" for t m u f
    using that by (intro leads_log [OF c daemon_ok_logD fixed_in]) (auto intro: daemon_ok_log)
  have fixed: "''[ERROR]: Error creating child 1'' \<in> set fixed_messages" "''[ERROR]: creating child 2'' \<in> set fixed_messages"
    "''[SUCCESS]: The process has done successfully. Daemon shutting down'' \<in> set fixed_messages"
    "''Proceeding...'' \<in> set fixed_messages" "''[TIMEOUT]: Timeout reached, terminating children'' \<in> set fixed_messages"
    by (simp_all add: fixed_messages_def)
  have ended: "leads (daemon_ok clock num1 num2 pids) (ends n (unlinked (u\<lparr>fds := t\<rparr>)))" "leads (daemon_ok clock num1 num2 pids) (ends n (unlinked u))"
    if "daemon_ok clock num1 num2 pids u" for n u t
    using that by (simp_all add: ends_def daemon_ok_def unlinked_def)
  show ?thesis
  proof (cases "parent_at s")
    case Sleeping
    have "leads (daemon_ok clock num1 num2 pids) (rbind (write_msg_to_log clock t ''Proceeding...'' s) (\<lambda>s1.
          if works then Inr (s1\<lparr>parent_at := Looping\<rparr>)
          else rbind (write_msg_to_log clock (fds s1) ''[TIMEOUT]: Timeout reached, terminating children'' s1) (\<lambda>s2.
            Inr (shut_down 1 s2))))" for t
    proof (rule log [OF s fixed(4)])
      fix ls assume u: "daemon_ok clock num1 num2 pids (s\<lparr>d_log := ls\<rparr>)"
      have "daemon_ok clock num1 num2 pids (s\<lparr>d_log := ls, parent_at := Looping\<rparr>)" using u by (simp add: daemon_ok_def)
      moreover have "leads (daemon_ok clock num1 num2 pids) (rbind (write_msg_to_log clock (fds (s\<lparr>d_log := ls\<rparr>))
          ''[TIMEOUT]: Timeout reached, terminating children'' (s\<lparr>d_log := ls\<rparr>)) (\<lambda>s2. Inr (shut_down 1 s2)))"
        by (rule log [OF u fixed(5)]) (simp add: shut_down_ok)
      ultimately show "leads (daemon_ok clock num1 num2 pids) (if works then Inr (s\<lparr>d_log := ls, parent_at := Looping\<rparr>)
          else rbind (write_msg_to_log clock (fds (s\<lparr>d_log := ls\<rparr>)) ''[TIMEOUT]: Timeout reached, terminating children''
            (s\<lparr>d_log := ls\<rparr>)) (\<lambda>s2. Inr (shut_down 1 s2)))" by simp
    qed
    with Sleeping show ?thesis by (simp add: main_step_def)
  next
    case Looping
    with s show ?thesis unfolding main_step_def Looping parent_pc.case
      by (auto intro!: log [OF s fixed(3)] ended) (simp_all add: daemon_ok_def)
  next
    case ForkFirst
    with s show ?thesis unfolding main_step_def ForkFirst parent_pc.case
      by (auto intro!: log [OF s fixed(1)] ended) (auto simp: daemon_ok_def ForkFirst)
  next
    case ForkSecond
    with s show ?thesis unfolding main_step_def ForkSecond parent_pc.case
      by (auto intro!: log [OF s fixed(2)] ended) (auto simp: daemon_ok_def)
  next
    case (Handlers k)
    with s show ?thesis by (auto simp: main_step_def ends_def daemon_ok_def)
  qed (use s in \<open>simp_all add: main_step_def\<close>)
qed

lemma daemon_step_ok:
  assumes "sane clock num1 num2 pids" "daemon_ok clock num1 num2 pids s"
  shows "leads (daemon_ok clock num1 num2 pids) (daemon_step clock pids a s)"
  by (cases a) (simp_all add: daemon_step_def main_step_ok [OF assms] child_process1_ok [OF assms] child_process2_ok [OF assms]
    sigchld_ok [OF assms] deliver_ok [OF assms])

lemma run_daemon_ok:
  "sane clock num1 num2 pids \<Longrightarrow> daemon_ok clock num1 num2 pids s \<Longrightarrow> leads (daemon_ok clock num1 num2 pids) (run_daemon clock pids as s)"
proof (induction "as" arbitrary: s)
  case (Cons a "as")
  then show ?case using leads_rbind [OF daemon_step_ok [OF Cons.prems], of _ "run_daemon clock pids as"] by simp
qed simp

section \<open>The start\<close>

lemma first_free_0: "first_free t 0 1024 = (if t 0 = None then 0 else if t 1 = None then 1 else first_free t 2 1022)"
proof -
  have "first_free t 0 (Suc (Suc 1022)) = (if t 0 = None then 0 else if t 1 = None then 1 else first_free t 2 1022)"
    by (simp only: first_free.simps numeral_2_eq_2 One_nat_def add_0 add_Suc)
  then show ?thesis by simp
qed

lemma fd_open_0: "t 0 = None \<Longrightarrow> fd_open name t = (0, t(0 \<mapsto> name))"
  by (simp add: fd_open_def first_free_0)

lemma fd_open_1: "t 0 \<noteq> None \<Longrightarrow> t 1 = None \<Longrightarrow> fd_open name t = (1, t(1 \<mapsto> name))"
  by (simp add: fd_open_def first_free_0)

text \<open>
  The descriptors after the standard ones have been reopened: the log is 0, since all were closed,
  and /dev/null becomes 1, which is replaced by the log and then closed.
\<close>

definition daemon_fds :: descriptors where
  "daemon_fds = [0 \<mapsto> ''logfile'', 2 \<mapsto> ''logfile'']"

definition start_ok :: "(nat \<Rightarrow> string) \<Rightarrow> int \<Rightarrow> int \<Rightarrow> int \<times> int \<Rightarrow> char list \<Rightarrow> daemon \<Rightarrow> bool" where
  "start_ok clock num1 num2 pids f1 s \<longleftrightarrow> log_ok clock num1 num2 pids (d_log s) \<and>
     child1 s = NotForked1 \<and> child2 s = NotForked2 \<and> d_fifo2 s = [] \<and>
     (parent_at s = ParentEnded 1 \<or> parent_at s = Starting \<and> d_fifo1 s = f1)"

lemma start_leads_log:
  assumes "sane clock num1 num2 pids" "start_ok clock num1 num2 pids f1 s" "m \<in> messages num1 num2 pids"
    and "\<And>ls. start_ok clock num1 num2 pids f1 (s\<lparr>d_log := ls\<rparr>) \<Longrightarrow> leads Q (f (s\<lparr>d_log := ls\<rparr>))"
  shows "leads Q (rbind (write_msg_to_log clock t m s) f)"
  by (rule leads_log [OF assms(1) _ assms(3)]) (use assms(2,4) in \<open>simp_all add: start_ok_def\<close>)

lemma start_ends [simp]:
  "start_ok clock num1 num2 pids f1 s \<Longrightarrow> leads (start_ok clock num1 num2 pids f2) (ends 1 s)"
  "start_ok clock num1 num2 pids f1 s \<Longrightarrow> leads (start_ok clock num1 num2 pids f2) (ends 1 (unlinked s))"
  by (simp_all add: ends_def start_ok_def unlinked_def)

lemma leads_starting:
  "start_ok clock num1 num2 pids f1 s \<Longrightarrow>
   (\<And>u. start_ok clock num1 num2 pids f1 u \<Longrightarrow> parent_at u = ParentEnded 1 \<Longrightarrow> Q u) \<Longrightarrow>
   (parent_at s = Starting \<Longrightarrow> leads Q (f s)) \<Longrightarrow> leads Q (starting f s)"
  by (auto simp: starting_def start_ok_def)

lemma start_ended_ok: "start_ok clock num1 num2 pids f1 s \<Longrightarrow> parent_at s = ParentEnded 1 \<Longrightarrow> daemon_ok clock num1 num2 pids s"
  by (simp add: start_ok_def daemon_ok_def)

lemma parent_writes_ok:
  assumes "sane clock num1 num2 pids" "start_ok clock num1 num2 pids f1 s" "parent_at s = Starting" "m \<in> set fixed_messages"
  shows "leads (start_ok clock num1 num2 pids (f1 @ bs)) (parent_writes works clock what bs m s)"
proof -
  have "leads (start_ok clock num1 num2 pids (f1 @ bs)) (rbind (write_msg_to_log clock (fds s) m s) (\<lambda>s1. ends 1 (unlinked s1)))"
    by (rule start_leads_log [OF assms(1,2) fixed_in [OF assms(4)]]) (erule start_ends)
  moreover have "start_ok clock num1 num2 pids (f1 @ bs) (s\<lparr>d_fifo1 := d_fifo1 s @ bs\<rparr>)"
    using assms(2,3) by (simp add: start_ok_def)
  ultimately show ?thesis by (simp add: parent_writes_def)
qed

lemma send_numbers_ok:
  assumes c: "sane clock num1 num2 pids" and s: "start_ok clock num1 num2 pids [] s" "parent_at s = Starting"
  shows "leads (daemon_ok clock num1 num2 pids) (send_numbers works clock num1 num2 s)"
proof -
  let ?Q = "daemon_ok clock num1 num2 pids" and ?P = "start_ok clock num1 num2 pids"
  have fixed: "''[ERROR]: Parent can not open FIFO1'' \<in> set fixed_messages" "''[SUCCESS]: Parent opened FIFO1'' \<in> set fixed_messages"
    "''[ERROR]: Parent can not write first number to FIFO1'' \<in> set fixed_messages"
    "''[ERROR]: Parent can not write second number to FIFO1'' \<in> set fixed_messages"
    "''[ERROR]: Parent can not write command to FIFO1'' \<in> set fixed_messages"
    by (simp_all add: fixed_messages_def)
  have m: "''[SUCCESS]: Parent wrote numbers ('' @ fmt_d num1 @ '', '' @ fmt_d num2 @ '') to FIFO1, and send command '' @ ''larger''
      \<in> messages num1 num2 pids"
    by (rule number_in) (simp add: number_messages_def)
  have failed: "leads ?Q (rbind (write_msg_to_log clock t x s) (\<lambda>s1. ends 1 (unlinked s1)))"
    if "x \<in> set fixed_messages" for t x
    by (rule start_leads_log [OF c s(1) fixed_in [OF that]]) (simp add: ends_def unlinked_def start_ok_def daemon_ok_def)
  have last: "leads ?Q (rbind (write_msg_to_log clock (fds s4) (snprintf 256 (''[SUCCESS]: Parent wrote numbers ('' @ fmt_d num1 @ '', '' @
            fmt_d num2 @ '') to FIFO1, and send command '' @ ''larger'')) s4) (\<lambda>s5. Inr (s5\<lparr>parent_at := ForkFirst\<rparr>)))"
    if "?P (command_bytes num1 num2) s4" "parent_at s4 = Starting" for s4
    unfolding snprintf_message [OF c m]
    by (rule start_leads_log [OF c that(1) m]) (use that(2) in \<open>simp add: start_ok_def daemon_ok_def\<close>)
  show ?thesis
  proof (cases "works ''open fifo1''")
    case False
    then show ?thesis using failed [OF fixed(1)] by (simp add: send_numbers_def)
  next
    case True
    have s': "?P [] (s\<lparr>fds := u\<rparr>)" for u using s(1) by (simp add: start_ok_def)
    show ?thesis
      by (simp only: send_numbers_def True not_True_eq_False if_False,
         rule start_leads_log [OF c s' fixed_in [OF fixed(2)]],
         rule leads_rbind [OF parent_writes_ok [OF c _ _ fixed(3)]], assumption, simp add: s(2),
         rule leads_starting, assumption, erule (1) start_ended_ok,
         rule leads_rbind [OF parent_writes_ok [OF c _ _ fixed(4)]], assumption, assumption,
         rule leads_starting, assumption, erule (1) start_ended_ok,
         rule leads_rbind [OF parent_writes_ok [OF c _ _ fixed(5)]], assumption, assumption,
         rule leads_starting, assumption, erule (1) start_ended_ok,
         rule last, simp add: command_bytes_def, assumption)
  qed
qed

lemma reopened:
  "fd_open ''logfile'' (\<lambda>_. None) = (0, [0 \<mapsto> ''logfile''])"
  "fd_open ''/dev/null'' [0 \<mapsto> ''logfile''] = (1, [0 \<mapsto> ''logfile'', 1 \<mapsto> ''/dev/null''])"
  "(dup2 1 0 (dup2 0 2 (dup2 0 1 [0 \<mapsto> ''logfile'', 1 \<mapsto> ''/dev/null''])))(1 := None) = daemon_fds"
  by (simp_all add: fd_open_0 fd_open_1 dup2_def daemon_fds_def fun_eq_iff)

text \<open>The daemon's standard input and error are the log, and its standard output is closed.\<close>

lemma daemonize_ok:
  assumes c: "sane clock num1 num2 pids"
  shows "leads (\<lambda>s. start_ok clock num1 num2 pids [] s \<and> (parent_at s = Starting \<longrightarrow> fds s = daemon_fds \<and> logfile s = 0))
    (daemonize_the_process works clock (new_daemon names t))"
proof (cases "works ''fork'' \<and> works ''setsid'' \<and> works ''second fork'' \<and> works ''open logfile'' \<and> works ''open /dev/null''")
  case False
  then show ?thesis
    by (auto simp: daemonize_the_process_def reopened ends_def start_ok_def new_daemon_def log_ok_def)
next
  case True
  let ?s = "(new_daemon names t)\<lparr>d_log := [], fds := daemon_fds, logfile := 0\<rparr>"
  have "''[SUCCESS]: Daemon process created successfully.'' \<in> set fixed_messages" by (simp add: fixed_messages_def)
  from leads_logged [OF c _ fixed_in [OF this], of ?s]
  have "leads (\<lambda>s. start_ok clock num1 num2 pids [] s \<and> (parent_at s = Starting \<longrightarrow> fds s = daemon_fds \<and> logfile s = 0))
      (write_msg_to_log clock daemon_fds ''[SUCCESS]: Daemon process created successfully.'' ?s)"
    by (simp add: start_ok_def new_daemon_def log_ok_def)
  then show ?thesis using True by (simp add: daemonize_the_process_def reopened reopened(3) [unfolded One_nat_def])
qed

lemma setup_the_fifos_ok:
  assumes c: "sane clock num1 num2 pids" and s: "start_ok clock num1 num2 pids [] s" "parent_at s = Starting"
  shows "leads (start_ok clock num1 num2 pids []) (setup_the_fifos works clock s)"
proof -
  have fixed: "''[ERROR]: FIFO1 could not created successfully.'' \<in> set fixed_messages"
    "''[ERROR]: FIFO2 could not created successfully.'' \<in> set fixed_messages" by (simp_all add: fixed_messages_def)
  have "leads (start_ok clock num1 num2 pids []) (rbind (write_msg_to_log clock t m s) (ends 1))" if "m \<in> set fixed_messages" for t m
    by (rule start_leads_log [OF c s(1) fixed_in [OF that]]) (erule start_ends)
  note this [OF fixed(1)] this [OF fixed(2)]
  moreover have "start_ok clock num1 num2 pids [] (s\<lparr>d_names := ns\<rparr>)" for ns using s(1) by (simp add: start_ok_def)
  ultimately show ?thesis by (simp add: setup_the_fifos_def)
qed

lemma daemon_start_ok:
  assumes c: "sane clock num1 num2 pids" and a: "atoi arg1 = Inr num1" "atoi arg2 = Inr num2"
  shows "leads (daemon_ok clock num1 num2 pids) (daemon_start works clock [arg1, arg2] (new_daemon names t))"
proof -
  have "leads (daemon_ok clock num1 num2 pids) (starting (\<lambda>s1. rbind (setup_the_fifos works clock s1) (starting (\<lambda>s2.
      send_numbers works clock num1 num2 s2))) s)"
    if "start_ok clock num1 num2 pids [] s" for s
    by (rule leads_starting [OF that], erule (1) start_ended_ok, rule leads_rbind [OF setup_the_fifos_ok [OF c that]], assumption,
        rule leads_starting, assumption, erule (1) start_ended_ok, rule send_numbers_ok [OF c])
  then show ?thesis
    using leads_rbind [OF daemonize_ok [OF c]] a by (simp add: daemon_start_def)
qed


section \<open>When it reports success\<close>

text \<open>The children that are counted have ended, and the parent ends with 0 only if both have.\<close>

definition counted :: "daemon \<Rightarrow> bool" where
  "counted s \<longleftrightarrow> child_counter s = (if reaped1 s then 1 else 0) + (if reaped2 s then 1 else 0) \<and>
     (reaped1 s \<longrightarrow> (\<exists>n. child1 s = Exited1 n)) \<and> (reaped2 s \<longrightarrow> (\<exists>n. child2 s = Exited2 n)) \<and>
     (parent_at s = ParentEnded 0 \<longrightarrow> reaped1 s \<and> reaped2 s) \<and>
     (parent_at s = ForkFirst \<longrightarrow> \<not> reaped1 s) \<and> (parent_at s \<in> {ForkFirst, ForkSecond} \<longrightarrow> \<not> reaped2 s)"

definition yields :: "(daemon \<Rightarrow> bool) \<Rightarrow> daemon res \<Rightarrow> bool" where
  "yields Q r \<longleftrightarrow> (\<forall>u. r = Inr u \<longrightarrow> Q u)"

lemma yields_Inr [simp]: "yields Q (Inr u) \<longleftrightarrow> Q u"
  by (simp add: yields_def)

lemma yields_rbind: "yields P m \<Longrightarrow> (\<And>u. P u \<Longrightarrow> yields Q (f u)) \<Longrightarrow> yields Q (rbind m f)"
  by (cases m) (auto simp: yields_def)

lemma yields_log: "(\<And>ls. yields Q (f (s\<lparr>d_log := ls\<rparr>))) \<Longrightarrow> yields Q (rbind (write_msg_to_log clock t m s) f)"
proof -
  assume f: "\<And>ls. yields Q (f (s\<lparr>d_log := ls\<rparr>))"
  have "yields (\<lambda>u. \<exists>ls. u = s\<lparr>d_log := ls\<rparr>) (write_msg_to_log clock t m s)"
    by (cases s) (auto simp: yields_def write_msg_to_log_def Let_def split: option.splits if_splits)
  then show ?thesis by (rule yields_rbind) (use f in auto)
qed

lemma counted_log [simp]: "counted (s\<lparr>d_log := ls\<rparr>) \<longleftrightarrow> counted s"
  by (simp add: counted_def)

lemma counted_exit1: "counted s \<Longrightarrow> \<forall>n. child1 s \<noteq> Exited1 n \<Longrightarrow> counted (exit1 k s)"
  by (auto simp: counted_def exit1_def notify_def)

lemma counted_exit2: "counted s \<Longrightarrow> \<forall>n. child2 s \<noteq> Exited2 n \<Longrightarrow> counted (exit2 k s)"
  by (auto simp: counted_def exit2_def notify_def)

lemma counted_fail1: "counted s \<Longrightarrow> \<forall>n. child1 s \<noteq> Exited1 n \<Longrightarrow> yields counted (fail1 clock m s)"
  unfolding fail1_def by (intro yields_log) (simp add: counted_exit1)

lemma counted_fail2: "counted s \<Longrightarrow> \<forall>n. child2 s \<noteq> Exited2 n \<Longrightarrow> yields counted (fail2 clock m s)"
  unfolding fail2_def by (intro yields_log) (simp add: counted_exit2)

lemma counted_moves1: "counted s \<Longrightarrow> \<forall>n. child1 s \<noteq> Exited1 n \<Longrightarrow> counted (s\<lparr>child1 := c, d_fifo1 := f, d_fifo2 := g, holds1 := h\<rparr>)"
  by (auto simp: counted_def)

lemma counted_child1:
  assumes "counted s"
  shows "yields counted (child_process1 clock works s)"
proof (cases "child1 s")
  case ReadFirst
  have "yields counted (rbind (read_command clock s) (\<lambda>(s1, r). case r of
            None \<Rightarrow> Inr s1
          | Some (num1, num2) \<Rightarrow> rbind (write_msg_to_log clock (fds1 s1) (g num1 num2) s1) (\<lambda>s2.
                Inr (s2\<lparr>child1 := OpenSecond (h num1 num2)\<rparr>))))" for g h
  proof -
    have fail: "yields counted (rbind (rbind (fail1 clock m (s\<lparr>d_fifo1 := f\<rparr>)) (\<lambda>s1. Inr (s1, None))) (\<lambda>(s1, r). case r of
            None \<Rightarrow> Inr s1
          | Some (num1, num2) \<Rightarrow> rbind (write_msg_to_log clock (fds1 s1) (g num1 num2) s1) (\<lambda>s2.
                Inr (s2\<lparr>child1 := OpenSecond (h num1 num2)\<rparr>))))" for m f
      using counted_fail1 [of "s\<lparr>d_fifo1 := f\<rparr>" clock m] assms ReadFirst
      by (cases "fail1 clock m (s\<lparr>d_fifo1 := f\<rparr>)") (auto simp: counted_def yields_def)
    have good: "yields counted (rbind (write_msg_to_log clock t m (s\<lparr>d_fifo1 := f\<rparr>)) (\<lambda>s2. Inr (s2\<lparr>child1 := c\<rparr>)))" for t m f c
      by (rule yields_log) (use assms ReadFirst in \<open>auto simp: counted_def\<close>)
    show ?thesis
      unfolding read_command_def Let_def using fail good by (auto simp: yields_def)
  qed
  then show ?thesis unfolding child_process1_def ReadFirst child1_pc.case by simp
next
  case Started1
  then show ?thesis unfolding child_process1_def Started1 child1_pc.case
    by (intro yields_log) (use assms Started1 in \<open>auto simp: counted_def\<close>)
next
  case (ReportWritten n)
  then show ?thesis unfolding child_process1_def ReportWritten child1_pc.case
    by (intro yields_log) (use assms ReportWritten in \<open>auto simp: counted_def\<close>)
next
  case OpenFirst
  then show ?thesis using counted_fail1 [OF assms] assms by (auto simp: child_process1_def counted_def)
next
  case OpenSecond
  then show ?thesis using counted_fail1 [OF assms] assms by (auto simp: child_process1_def counted_def)
next
  case WriteSecond
  then show ?thesis using counted_fail1 [OF assms] assms by (auto simp: child_process1_def counted_def)
next
  case Close1
  then show ?thesis using counted_exit1 [OF assms] by (simp add: child_process1_def)
qed (use assms in \<open>simp_all add: child_process1_def\<close>)

lemma counted_child2:
  assumes "counted s"
  shows "yields counted (child_process2 clock works s)"
proof (cases "child2 s")
  case Started2
  then show ?thesis unfolding child_process2_def Started2 child2_pc.case
    by (intro yields_log) (use assms Started2 in \<open>auto simp: counted_def\<close>)
next
  case Opened2
  then show ?thesis unfolding child_process2_def Opened2 child2_pc.case
    by (intro yields_log) (use assms Opened2 in \<open>auto simp: counted_def\<close>)
next
  case (ReportRead n)
  then show ?thesis unfolding child_process2_def ReportRead child2_pc.case
    by (intro yields_log) (use assms ReportRead in \<open>auto simp: counted_def\<close>)
next
  case Open2
  then show ?thesis using counted_fail2 [OF assms] assms by (auto simp: child_process2_def counted_def)
next
  case Read2
  have "counted (s\<lparr>d_fifo2 := f\<rparr>)" for f using assms by (simp add: counted_def)
  from counted_fail2 [OF this] Read2 assms show ?thesis by (auto simp: child_process2_def counted_def)
next
  case Close2
  then show ?thesis using counted_exit2 [OF assms] by (simp add: child_process2_def)
qed (use assms in \<open>simp_all add: child_process2_def\<close>)

lemma counted_kill1: "counted s \<Longrightarrow> counted (kill1 s)"
  by (cases "child1 s") (auto simp: counted_def kill1_def)

lemma counted_kill2: "counted s \<Longrightarrow> counted (kill2 s)"
  by (cases "child2 s") (auto simp: counted_def kill2_def)

lemma counted_shut_down: "counted s \<Longrightarrow> counted (shut_down 1 s)"
  using counted_kill2 [OF counted_kill1, of s] by (simp add: counted_def shut_down_def unlinked_def)

lemma counted_main: "counted s \<Longrightarrow> yields counted (main_step clock works s)"
proof (cases "parent_at s")
  case Sleeping
  assume s: "counted s"
  show ?thesis
    unfolding main_step_def Sleeping parent_pc.case
    by (intro yields_log, cases works, use s in \<open>simp add: counted_def\<close>, simp only: if_False, intro yields_log)
      (use s in \<open>simp add: counted_shut_down\<close>)
next
  case Looping
  assume s: "counted s"
  show ?thesis
    unfolding main_step_def Looping parent_pc.case
    by (cases "child_counter s < 2", use s in \<open>simp add: counted_def\<close>, simp only: if_False, intro yields_log)
      (use s in \<open>auto simp: counted_def ends_def unlinked_def split: if_splits\<close>)
next
  case ForkFirst
  assume s: "counted s"
  show ?thesis
    unfolding main_step_def ForkFirst parent_pc.case
    by (cases works, use s ForkFirst in \<open>simp add: counted_def\<close>, simp only: if_False, intro yields_log)
      (use s ForkFirst in \<open>simp add: counted_def ends_def unlinked_def\<close>)
next
  case ForkSecond
  assume s: "counted s"
  show ?thesis
    unfolding main_step_def ForkSecond parent_pc.case
    by (cases works, use s ForkSecond in \<open>simp add: counted_def\<close>, simp only: if_False, intro yields_log)
      (use s ForkSecond in \<open>simp add: counted_def ends_def unlinked_def\<close>)
qed (auto simp: main_step_def ends_def counted_def)

lemma counted_sigchld: "counted s \<Longrightarrow> yields counted (sigchld_handler clock pids s)"
proof -
  assume s: "counted s"
  have one: "yields (\<lambda>u. counted u \<and> parent_at u = parent_at s) (reap1 clock pid u)"
    if "counted u" "parent_at u = parent_at s" "parent_at s \<in> {Looping, Sleeping}" for u pid
  proof (cases "child1 u")
    case (Exited1 n)
    show ?thesis unfolding reap1_def Exited1 child1_pc.case
      by (cases "reaped1 u", use that in simp, simp only: if_False, intro yields_log)
        (use that Exited1 in \<open>auto simp: counted_def\<close>)
  qed (use that in \<open>simp_all add: reap1_def\<close>)
  have two: "yields counted (reap2 clock pid u)"
    if "counted u" "parent_at u = parent_at s" "parent_at s \<in> {Looping, Sleeping}" for u pid
  proof (cases "child2 u")
    case (Exited2 n)
    show ?thesis unfolding reap2_def Exited2 child2_pc.case
      by (cases "reaped2 u", use that in simp, simp only: if_False, intro yields_log)
        (use that Exited2 in \<open>auto simp: counted_def\<close>)
  qed (use that in \<open>simp_all add: reap2_def\<close>)
  have "counted (s\<lparr>chld_pending := False\<rparr>)" using s by (simp add: counted_def)
  then show ?thesis
    using s by (auto simp: sigchld_handler_def intro!: yields_rbind [OF one] two)
qed

lemma counted_run:
  "\<forall>sig. Sent sig \<notin> set as \<Longrightarrow> counted s \<Longrightarrow> yields counted (run_daemon clock pids as s)"
proof (induction "as" arbitrary: s)
  case (Cons a "as")
  have "yields counted (daemon_step clock pids a s)"
    using Cons.prems by (cases a) (auto simp: daemon_step_def counted_main counted_child1 counted_child2 counted_sigchld)
  then show ?case using Cons.IH Cons.prems(1) by (auto intro: yields_rbind)
qed simp

lemma start_counted:
  assumes "daemon_start works clock args (new_daemon names t) = Inr s"
  shows "counted s"
proof -
  define fresh where "fresh = (\<lambda>s :: daemon. \<not> reaped1 s \<and> \<not> reaped2 s \<and> child_counter s = 0 \<and> parent_at s \<noteq> ParentEnded 0)"
  have log: "yields fresh (rbind (write_msg_to_log clock u m s) f)" if "\<And>ls. yields fresh (f (s\<lparr>d_log := ls\<rparr>))" for u m s f
    by (intro yields_log that)
  have only_log: "yields fresh (write_msg_to_log clock u m s)" if "fresh s" for u m s
    using that by (auto simp: yields_def fresh_def write_msg_to_log_def Let_def split: option.splits if_splits)
  have end1: "fresh s \<Longrightarrow> yields fresh (ends 1 s)" "fresh s \<Longrightarrow> fresh (unlinked s)" for s
    by (simp_all add: ends_def fresh_def unlinked_def)
  have run: "yields fresh (starting f s)" if "fresh s" "fresh s \<Longrightarrow> yields fresh (f s)" for f s
    using that by (simp add: starting_def)
  have writes: "yields fresh (parent_writes works clock w bs m s)" if "fresh s" for w bs m s
    using that by (auto simp: parent_writes_def intro!: log end1) (simp_all add: fresh_def)
  have one: "yields fresh (daemonize_the_process works clock (new_daemon names t))"
    by (auto simp: daemonize_the_process_def Let_def split: prod.splits intro!: only_log end1) (simp_all add: fresh_def new_daemon_def)
  have two: "yields fresh (setup_the_fifos works clock s)" if "fresh s" for s
    using that by (auto simp: setup_the_fifos_def intro!: log end1) (simp_all add: fresh_def)
  have three: "yields fresh (send_numbers works clock a b s)" if "fresh s" for s a b
    using that unfolding send_numbers_def
    by (auto intro!: log end1 yields_rbind [OF writes] run) (simp_all add: fresh_def)
  have "yields fresh (daemon_start works clock args (new_daemon names t))"
  proof (cases "\<exists>a b. args = [a, b]")
    case True
    then obtain a b where ab: "args = [a, b]" by blast
    have "yields fresh (rbind (atoi a) (\<lambda>n. rbind (atoi b) (\<lambda>k. send_numbers works clock n k u)))" if "fresh u" for u
      using three [OF that] by (cases "atoi a"; cases "atoi b") (auto simp: yields_def)
    then show ?thesis
      unfolding ab daemon_start_def list.case by (intro yields_rbind [OF one] run yields_rbind [OF two])
  next
    case False
    have "fresh (new_daemon names t)" by (simp add: fresh_def new_daemon_def)
    then have "yields fresh (ends 1 (new_daemon names t))" by (rule end1)
    moreover have "daemon_start works clock args (new_daemon names t) = ends 1 (new_daemon names t)"
      using False by (auto simp: daemon_start_def split: list.splits)
    ultimately show ?thesis by simp
  qed
  with assms have "fresh s" by (simp add: yields_def)
  then show ?thesis by (simp add: counted_def fresh_def)
qed

text \<open>
  C30. Without a signal from outside, the daemon ends with status 0 only after both children have
  ended and have been waited for.
\<close>

theorem daemon_success_means_done:
  assumes "daemon_start works clock args (new_daemon names t) = Inr s" "run_daemon clock pids as s = Inr u"
    and "\<forall>sig. Sent sig \<notin> set as" "parent_at u = ParentEnded 0"
  shows "\<exists>m n. child1 u = Exited1 m \<and> child2 u = Exited2 n \<and> reaped1 u \<and> reaped2 u \<and> child_counter u = 2"
  using counted_run [OF assms(3) start_counted [OF assms(1)], of clock pids] assms(2,4)
  by (auto simp: yields_def counted_def)

end
