(* ===== verification/Daemon_Runs.thy ===== *)
theory Daemon_Runs
  imports Daemon_Properties
begin

text \<open>
  Runs of the daemon with two numbers: one that succeeds, with its log, and one in which the larger
  number is lost between the children.
\<close>

definition demo_clock :: "nat \<Rightarrow> string" where
  "demo_clock k = ''[2025-03-14 15:09:26]''"

definition demo_start :: "daemon res" where
  "demo_start = daemon_start (\<lambda>_. True) demo_clock [''3'', ''7''] (new_daemon {} (\<lambda>_. None))"

text \<open>The state after the start, and the lines that are logged.\<close>

definition demo_lines :: "string list \<Rightarrow> string list" where
  "demo_lines ms = map (\<lambda>m. ''[2025-03-14 15:09:26] : '' @ m @ nl) ms"

definition demo_started :: daemon where
  "demo_started = \<lparr>d_log = demo_lines [''[SUCCESS]: Daemon process created successfully.'', ''[SUCCESS]: Parent opened FIFO1'',
       ''[SUCCESS]: Parent wrote numbers (3, 7) to FIFO1, and send command larger''],
     d_names = {''fifo1'', ''fifo2''}, d_fifo1 = command_bytes 3 7, d_fifo2 = [], holds1 = False, holds2 = False,
     fds = daemon_fds(1 \<mapsto> ''fifo1''), fds1 = (\<lambda>_. None), fds2 = (\<lambda>_. None), logfile = 0, parent_at = ForkFirst,
     child1 = NotForked1, child2 = NotForked2, reaped1 = False, reaped2 = False, child_counter = 0, chld_pending = False\<rparr>"

lemma demo_start_eq: "demo_start = Inr demo_started"
proof -
  have a: "atoi ''3'' = Inr 3" "atoi ''7'' = Inr 7" "fmt_d 3 = ''3''" "fmt_d 7 = ''7''" by code_simp+
  show ?thesis
    by (simp add: demo_start_def daemon_start_def daemonize_the_process_def reopened reopened(3) [unfolded One_nat_def]
      write_msg_to_log_def get_time_def demo_clock_def new_daemon_def starting_def setup_the_fifos_def a send_numbers_def fd_open_1 daemon_fds_def fun_eq_iff
      parent_writes_def dup2_def demo_started_def demo_lines_def command_bytes_def snprintf_def nl_def)
qed

definition demo_run :: "action list \<Rightarrow> daemon res" where
  "demo_run as = run_daemon demo_clock (101, 102) as demo_started"

text \<open>The parent comes to its loop, then the second child opens its FIFO before the first one writes.\<close>

definition good_schedule :: "action list" where
  "good_schedule = replicate 6 (MainStep True) @ replicate 3 (SecondChild True) @ replicate 7 (FirstChild True) @
     [ChildEnded] @ replicate 3 (SecondChild True) @ [ChildEnded] @ [MainStep True]"

text \<open>The first child has written the number and closed the FIFO before the second one opens it.\<close>

definition losing_schedule :: "action list" where
  "losing_schedule = replicate 6 (MainStep True) @ replicate 7 (FirstChild True) @ replicate 3 (SecondChild True)"

lemma good_run:
  "case demo_run good_schedule of Inl e \<Rightarrow> False | Inr u \<Rightarrow>
     parent_at u = ParentEnded 0 \<and> child1 u = Exited1 0 \<and> child2 u = Exited2 0 \<and> d_names u = {} \<and>
     d_log u = d_log demo_started @ demo_lines [
        ''[SUCCESS]: Child 2 has started'', ''[SUCCESS]: Child 2 opened FIFO2'', ''[SUCCESS]: Child 1 has started'',
        ''[SUCCESS]: Child 1 Read numbers (3, 7) from FIFO1, and command (larger)'',
        ''[SUCCESS]: Child 1 Wrote larger number (7) to FIFO2'', ''Child process 101 exited with status 0'',
        ''[SUCCESS]: Child 2 Read the larger number from FIFO2, larger number is: 7'', ''Child process 102 exited with status 0'',
        ''[SUCCESS]: The process has done successfully. Daemon shutting down'']"
  by code_simp

lemma losing_run:
  "case demo_run losing_schedule of Inl e \<Rightarrow> False | Inr u \<Rightarrow>
     parent_at u = Looping \<and> child1 u = Exited1 0 \<and> child2 u = Read2 \<and> d_fifo2 u = [] \<and> \<not> reaped1 u \<and> \<not> reaped2 u \<and> child_counter u = 0"
  by code_simp

section \<open>The lost number\<close>

text \<open>The first child is gone, its number with it, and the second child waits for it.\<close>

definition lost :: "daemon \<Rightarrow> bool" where
  "lost s \<longleftrightarrow> (\<exists>n. child1 s = Exited1 n) \<and> d_fifo2 s = [] \<and> child2 s \<in> {Read2, Killed2} \<and>
     parent_at s \<notin> {ForkFirst, ForkSecond} \<and> \<not> reaped2 s \<and> child_counter s = (if reaped1 s then 1 else 0)"

definition still_waiting :: "daemon \<Rightarrow> bool" where
  "still_waiting s \<longleftrightarrow> child2 s \<in> {Read2, Killed2} \<and> child_counter s < 2"

lemma lost_waiting: "lost s \<Longrightarrow> still_waiting s"
  by (auto simp: lost_def still_waiting_def)

lemma lost_log [simp]: "lost (s\<lparr>d_log := ls\<rparr>) \<longleftrightarrow> lost s"
  by (simp add: lost_def)

lemma lost_shut_down: "lost s \<Longrightarrow> lost (shut_down n s)"
  by (auto simp: lost_def shut_down_def kill1_def kill2_def unlinked_def)

lemma lost_main: "lost s \<Longrightarrow> yields lost (main_step clock works s)"
proof (cases "parent_at s")
  case Sleeping
  assume s: "lost s"
  show ?thesis
    unfolding main_step_def Sleeping parent_pc.case
    by (intro yields_log, cases works, use s in \<open>simp add: lost_def\<close>, simp only: if_False, intro yields_log)
      (use s in \<open>simp add: lost_shut_down\<close>)
next
  case Looping
  assume s: "lost s"
  then have "child_counter s < 2" by (simp add: lost_def)
  then show ?thesis using s Looping by (simp add: main_step_def lost_def)
qed (auto simp: main_step_def lost_def ends_def)

lemma lost_sigchld: "lost s \<Longrightarrow> yields lost (sigchld_handler clock pids s)"
proof -
  assume s: "lost s"
  then obtain n where n: "child1 s = Exited1 n" and "child2 s \<in> {Read2, Killed2}" by (auto simp: lost_def)
  have one: "yields lost (reap1 clock pid (s\<lparr>chld_pending := False\<rparr>))" for pid
    unfolding reap1_def using n s
    by (auto simp: lost_def intro!: yields_log)
  have "yields lost (reap2 clock pid u)" if "lost u" for u pid
    using that by (auto simp: reap2_def lost_def)
  with s one show ?thesis by (auto simp: sigchld_handler_def intro!: yields_rbind [OF one])
qed

lemma lost_step: "lost s \<Longrightarrow> yields lost (daemon_step clock pids a s)"
proof (cases a)
  case (Sent sig)
  assume s: "lost s"
  have "yields lost (daemon_signal_handler clock sig s)"
    unfolding daemon_signal_handler_def by (intro yields_log) (use s in \<open>simp add: lost_shut_down\<close>)
  moreover have "lost (s\<lparr>parent_at := Terminated\<rparr>)" using s by (simp add: lost_def)
  ultimately show ?thesis using s Sent by (simp add: daemon_step_def deliver_def)
next
  case (FirstChild works)
  assume s: "lost s"
  then obtain n where "child1 s = Exited1 n" by (auto simp: lost_def)
  then show ?thesis using s FirstChild by (simp add: daemon_step_def child_process1_def)
next
  case (SecondChild works)
  assume s: "lost s"
  then have "child2 s = Read2 \<and> d_fifo2 s = [] \<or> child2 s = Killed2" by (auto simp: lost_def)
  then show ?thesis using s SecondChild by (auto simp: daemon_step_def child_process2_def)
qed (simp_all add: daemon_step_def lost_main lost_sigchld)

lemma lost_run: "lost s \<Longrightarrow> yields lost (run_daemon clock pids as s)"
  by (induction "as" arbitrary: s) (auto intro: yields_rbind lost_step)

text \<open>
  C31. The larger number can be lost: the first child writes it into the FIFO and closes it before
  the second child has opened it. The first child has then succeeded, but whatever happens after
  that the second child never reads a number, and the count of ended children stays below two, so
  that only the time limit or a signal ends the daemon.
\<close>

theorem number_can_be_lost:
  "\<exists>s. rbind demo_start (run_daemon demo_clock (101, 102) losing_schedule) = Inr s \<and> child1 s = Exited1 0 \<and>
     (\<nexists>as u. run_daemon demo_clock (101, 102) as s = Inr u \<and> \<not> still_waiting u)"
proof -
  obtain s where s: "demo_run losing_schedule = Inr s" "lost s" "child1 s = Exited1 0"
    using losing_run by (auto simp: lost_def split: sum.splits)
  have "\<nexists>as u. run_daemon demo_clock (101, 102) as s = Inr u \<and> \<not> still_waiting u"
    using lost_run [OF s(2), of demo_clock "(101, 102)"] lost_waiting by (auto simp: yields_def)
  with s show ?thesis by (auto simp: demo_start_eq demo_run_def)
qed

text \<open>
  The daemon can succeed: with the numbers 3 and 7 there is a run that ends with status 0, both
  children successful, the FIFOs removed, and this log.
\<close>

theorem daemon_can_succeed:
  "\<exists>u. rbind demo_start (run_daemon demo_clock (101, 102) good_schedule) = Inr u \<and>
     parent_at u = ParentEnded 0 \<and> child1 u = Exited1 0 \<and> child2 u = Exited2 0 \<and> d_names u = {} \<and>
     d_log u = demo_lines [''[SUCCESS]: Daemon process created successfully.'', ''[SUCCESS]: Parent opened FIFO1'',
        ''[SUCCESS]: Parent wrote numbers (3, 7) to FIFO1, and send command larger'',
        ''[SUCCESS]: Child 2 has started'', ''[SUCCESS]: Child 2 opened FIFO2'', ''[SUCCESS]: Child 1 has started'',
        ''[SUCCESS]: Child 1 Read numbers (3, 7) from FIFO1, and command (larger)'',
        ''[SUCCESS]: Child 1 Wrote larger number (7) to FIFO2'', ''Child process 101 exited with status 0'',
        ''[SUCCESS]: Child 2 Read the larger number from FIFO2, larger number is: 7'', ''Child process 102 exited with status 0'',
        ''[SUCCESS]: The process has done successfully. Daemon shutting down'']"
  using good_run by (auto simp: demo_start_eq demo_run_def demo_started_def demo_lines_def split: sum.splits)

section \<open>Witnesses\<close>

lemma demo_sane: "sane demo_clock 3 7 (101, 102)"
  by (simp add: sane_def demo_clock_def in_signed_32)


theorem daemon_success_means_done_witness:
  "\<exists>u m n. run_daemon demo_clock (101, 102) good_schedule demo_started = Inr u \<and> parent_at u = ParentEnded 0 \<and>
    child1 u = Exited1 m \<and> child2 u = Exited2 n \<and> child_counter u = 2"
proof -
  obtain u where u: "run_daemon demo_clock (101, 102) good_schedule demo_started = Inr u" "parent_at u = ParentEnded 0"
    using good_run by (auto simp: demo_run_def split: sum.splits)
  moreover have "\<forall>sig. Sent sig \<notin> set good_schedule" by (simp add: good_schedule_def)
  ultimately show ?thesis
    using daemon_success_means_done [OF demo_start_eq [unfolded demo_start_def] u(1) _ u(2)] by blast
qed

end
