(* ===== verification/Guessing.thy ===== *)
theory Guessing
  imports C_Format
begin

text \<open>
  The guessing game of Object Oriented Programming Spring/PA1 (PA1.cpp): a number of hexadecimal
  digits, all different, is drawn or given, and the player's guesses are answered by how many
  digits are right and how many are at another place. The lines of the input and the numbers that
  \<open>rand ()\<close> returns are arguments; a run ends by \<open>exit\<close>, which the state records.
\<close>

section \<open>State\<close>

definition DIGIT :: nat where "DIGIT = 17"

record guess_game =
  g_input :: "string list"
  g_printed :: "string list"
  user_num :: "nat list"
  g_over :: bool

definition new_guesses :: "string list \<Rightarrow> guess_game" where
  "new_guesses ls = \<lparr>g_input = ls, g_printed = [], user_num = replicate DIGIT 0, g_over = False\<rparr>"

definition tells :: "string \<Rightarrow> guess_game \<Rightarrow> guess_game" where
  "tells s g = g\<lparr>g_printed := g_printed g @ [s]\<rparr>"

definition leaves :: "string \<Rightarrow> guess_game \<Rightarrow> guess_game" where
  "leaves s g = (tells s g)\<lparr>g_over := True\<rparr>"

section \<open>The number\<close>

text \<open>
  A digit that is there already is drawn again. None stands for waiting for another number of
  \<open>rand ()\<close>, which has come to the end of the list.
\<close>

fun draw_loop :: "nat \<Rightarrow> nat \<Rightarrow> nat list \<Rightarrow> nat list \<Rightarrow> nat list option" where
  "draw_loop digit_num i arr [] = (if digit_num \<le> i then Some arr else None)"
| "draw_loop digit_num i arr (r # rs) =
     (if digit_num \<le> i then Some arr
      else let arr' = arr[i := r mod 16] in
        draw_loop digit_num (if arr' ! i \<in> set (take i arr') then i else i + 1) arr' rs)"

definition generate_random_number :: "nat \<Rightarrow> nat list \<Rightarrow> nat list option" where
  "generate_random_number digit_num rs = draw_loop digit_num 0 (replicate DIGIT 0) rs"

text \<open>The value of a digit: 0 to 9 and small a to f.\<close>

definition hex_value :: "char \<Rightarrow> nat option" where
  "hex_value c = (let n = of_char c in
     if 48 \<le> n \<and> n \<le> (57::nat) then Some (n - 48)
     else if 97 \<le> n \<and> n \<le> 102 then Some (n - 87) else None)"

text \<open>
  The loop that stores the digits of a text; its result also says whether all were digits.
\<close>

fun read_digits :: "string \<Rightarrow> nat \<Rightarrow> nat list \<Rightarrow> (nat list \<times> bool) res" where
  "read_digits [] i arr = Inr (arr, True)"
| "read_digits (c # cs) i arr = (case hex_value c of
      None \<Rightarrow> Inr (arr, False)
    | Some d \<Rightarrow> rbind (wr arr i d) (read_digits cs (i + 1)))"

text \<open>The two loops that compare every element with the later ones.\<close>

fun repeated :: "'a list \<Rightarrow> bool" where
  "repeated [] = False"
| "repeated (x # xs) = (x \<in> set xs \<or> repeated xs)"

section \<open>A guess\<close>

text \<open>At the end of the input \<open>getline\<close> leaves the line empty.\<close>

definition get_input :: "nat \<Rightarrow> guess_game \<Rightarrow> guess_game res" where
  "get_input digit_num g =
     (let input1 = (case g_input g of [] \<Rightarrow> [] | l # ls \<Rightarrow> l);
          input2 = filter (\<lambda>c. \<not> isspace c) input1 in
      rbind (read_digits input2 0 (user_num g)) (\<lambda>(arr, digits).
        let g1 = g\<lparr>g_input := tl (g_input g), user_num := arr\<rparr> in
        if \<not> digits then Inr (leaves ''E2'' g1)
        else rbind (rd arr 0) (\<lambda>first.
          if first = 0 then Inr (leaves ''E1'' g1)
          else if length input2 \<noteq> digit_num then Inr (leaves ''E1'' g1)
          else if repeated (take (length input2) arr) then Inr (leaves ''E1'' g1)
          else Inr g1)))"

text \<open>The digits at the right place are counted, the others of both numbers collected.\<close>

fun hint_loop :: "nat \<Rightarrow> nat \<Rightarrow> nat list \<Rightarrow> nat list \<Rightarrow> nat \<times> nat list \<Rightarrow> (nat \<times> nat list) res" where
  "hint_loop i 0 rs us (exact, arr) = Inr (exact, arr)"
| "hint_loop i (Suc n) rs us (exact, arr) =
     rbind (rd rs i) (\<lambda>r. rbind (rd us i) (\<lambda>u.
       if r = u then hint_loop (i + 1) n rs us (exact + 1, arr)
       else rbind (rd arr r) (\<lambda>a. rbind (wr arr r (a + 1)) (\<lambda>arr1.
         rbind (rd arr1 u) (\<lambda>b. rbind (wr arr1 u (b + 1)) (\<lambda>arr2.
           hint_loop (i + 1) n rs us (exact, arr2)))))))"

definition hints :: "nat \<Rightarrow> nat list \<Rightarrow> nat \<Rightarrow> guess_game \<Rightarrow> guess_game res" where
  "hints digit_num random_num tries g =
     rbind (hint_loop 0 digit_num random_num (user_num g) (0, replicate DIGIT 0)) (\<lambda>(exact, arr).
       if exact = digit_num then Inr (leaves (''FOUND '' @ fmt_d (int tries)) g)
       else let misplaced = length (filter (\<lambda>x. x = 2) arr) in
         Inr (tells (fmt_d (int exact) @ '' '' @ fmt_d (int misplaced)) g))"

section \<open>The game\<close>

text \<open>The loop counts the guesses; it does not go on after 100 of them.\<close>

function guesses :: "nat \<Rightarrow> nat list \<Rightarrow> nat \<Rightarrow> guess_game \<Rightarrow> guess_game res" where
  "guesses digit_num random_num tries g =
     rbind (get_input digit_num g) (\<lambda>g1.
       if g_over g1 then Inr g1
       else if 100 < tries + 1 then Inr (leaves ''FAILED'' g1)
       else rbind (hints digit_num random_num (tries + 1) g1) (\<lambda>g2.
         if g_over g2 then Inr g2 else guesses digit_num random_num (tries + 1) g2))"
  by pat_completeness auto
termination
  by (relation "measure (\<lambda>(n, r, tries, g). 101 - tries)") auto

declare guesses.simps [simp del]

text \<open>
  \<open>main\<close>: with -r the number of the digits, with -u the number itself. None while waiting for
  numbers of \<open>rand ()\<close>.
\<close>

definition guess_main :: "string list \<Rightarrow> nat list \<Rightarrow> guess_game \<Rightarrow> guess_game res option" where
  "guess_main args rs g = (case args of
      [mode, arg] \<Rightarrow>
        if mode = ''-r'' then
          (case atoi arg of
             Inl e \<Rightarrow> Some (Inl e)
           | Inr digit_num \<Rightarrow>
               if digit_num \<le> 0 \<or> 16 < digit_num then Some (Inr (leaves ''E0'' g))
               else (case generate_random_number (nat digit_num) rs of
                   None \<Rightarrow> None
                 | Some random_num \<Rightarrow> Some (guesses (nat digit_num) random_num 0 g)))
        else if mode = ''-u'' then
          if arg \<noteq> [] \<and> hd arg = CHR ''0'' then Some (Inr (leaves ''E0'' g))
          else if repeated arg then Some (Inr (leaves ''E0'' g))
          else Some (rbind (read_digits arg 0 (replicate DIGIT 0)) (\<lambda>(random_num, digits).
            if \<not> digits then Inr (leaves ''E0'' g) else guesses (length arg) random_num 0 g))
        else Some (Inr (leaves ''E0'' g))
    | _ \<Rightarrow> Some (Inr (leaves ''E0'' g)))"

end
