(* ===== verification/Guessing_Properties.thy ===== *)
theory Guessing_Properties
  imports Guessing
begin

text \<open>
  The guessing game against its rules: which number is drawn, what the two counts of an answer mean,
  the whole dialogue as a function of the lines, and the numbers that nobody can find.
\<close>

section \<open>The number that is drawn\<close>

text \<open>The elements of a list in the order in which they come first.\<close>

definition first_times :: "'a list \<Rightarrow> 'a list" where
  "first_times xs = rev (remdups (rev xs))"

fun extend :: "'a list \<Rightarrow> 'a list \<Rightarrow> 'a list" where
  "extend ys [] = ys"
| "extend ys (x # xs) = extend (if x \<in> set ys then ys else ys @ [x]) xs"

lemma remdups_drop: "x \<in> set ys \<Longrightarrow> remdups (xs @ x # ys) = remdups (xs @ ys)"
  by (induction xs) auto

lemma extend_first_times: "distinct ys \<Longrightarrow> extend ys xs = first_times (ys @ xs)"
proof (induction xs arbitrary: ys)
  case Nil
  then show ?case by (simp add: first_times_def distinct_remdups_id)
next
  case (Cons x xs)
  then show ?case by (auto simp: first_times_def remdups_drop)
qed

lemma extend_prefix: "\<exists>zs. extend ys xs = ys @ zs"
proof (induction xs arbitrary: ys)
  case (Cons x xs)
  from Cons [of "if x \<in> set ys then ys else ys @ [x]"] show ?case by auto
qed simp

lemma draw_loop_spec:
  "i \<le> n \<Longrightarrow> n < length arr \<Longrightarrow>
   draw_loop n i arr rs =
     (let ds = extend (take i arr) (map (\<lambda>r. r mod 16) rs)
      in if n \<le> length ds then Some (take n ds @ drop n arr) else None)"
proof (induction rs arbitrary: i arr)
  case Nil
  then show ?case by (auto simp: Let_def min_def)
next
  case (Cons r rs)
  obtain zs where zs: "extend (take i arr) (map (\<lambda>r. r mod 16) (r # rs)) = take i arr @ zs" using extend_prefix by blast
  show ?case
  proof (cases "n \<le> i")
    case True
    with Cons.prems have "i = n" by simp
    then show ?thesis using zs Cons.prems by (simp add: Let_def min_def)
  next
    case False
    let ?arr = "arr[i := r mod 16]"
    have "take i ?arr = take i arr" "?arr ! i = r mod 16" "drop n ?arr = drop n arr"
      "take (i + 1) ?arr = take i arr @ [r mod 16]"
      using False Cons.prems by (simp_all add: take_Suc_conv_app_nth)
    then show ?thesis using False Cons.prems Cons.IH [of i ?arr] Cons.IH [of "i + 1" ?arr] by (simp add: Let_def)
  qed
qed

text \<open>
  The number that is drawn consists of the first \<open>n\<close> different digits among the numbers of
  \<open>rand\<close> modulo 16, in the order in which they come first, and the drawing waits exactly as long
  as there are fewer.
\<close>

theorem generate_correct:
  assumes "n \<le> 16"
  shows "generate_random_number n rs =
    (let ds = first_times (map (\<lambda>r. r mod 16) rs)
     in if n \<le> length ds then Some (take n ds @ replicate (17 - n) 0) else None)"
  using assms draw_loop_spec [of 0 n "replicate DIGIT 0" rs]
  by (simp add: generate_random_number_def DIGIT_def extend_first_times Let_def)

section \<open>The answer to a guess\<close>

lemma hint_loop_spec:
  assumes "i + n \<le> length rs" "i + n \<le> length us" "\<forall>r \<in> set rs. r < length arr" "\<forall>u \<in> set us. u < length arr"
  shows "\<exists>arr'. hint_loop i n rs us (e, arr) =
      Inr (e + length (filter (\<lambda>(r, u). r = u) (zip (take n (drop i rs)) (take n (drop i us)))), arr') \<and>
    length arr' = length arr \<and>
    (\<forall>v < length arr. arr' ! v = arr ! v +
       count_list (map fst (filter (\<lambda>(r, u). r \<noteq> u) (zip (take n (drop i rs)) (take n (drop i us))))) v +
       count_list (map snd (filter (\<lambda>(r, u). r \<noteq> u) (zip (take n (drop i rs)) (take n (drop i us))))) v)"
  using assms
proof (induction n arbitrary: i e arr)
  case (Suc n)
  let ?r = "rs ! i" and ?u = "us ! i"
  have split: "take (Suc n) (drop i xs) = xs ! i # take n (drop (Suc i) xs)" if "i + Suc n \<le> length xs" for xs :: "nat list"
    using that by (simp add: Cons_nth_drop_Suc [symmetric])
  have i: "?r < length arr" "?u < length arr" "i < length rs" "i < length us" using Suc.prems by simp_all
  show ?case
  proof (cases "?r = ?u")
    case True
    from Suc.IH [of "Suc i" arr "e + 1"] Suc.prems True i show ?thesis by (auto simp: split)
  next
    case False
    let ?arr = "arr[?r := arr ! ?r + 1, ?u := arr ! ?u + 1]"
    have "hint_loop i (Suc n) rs us (e, arr) = hint_loop (Suc i) n rs us (e, ?arr)"
      using False i by simp
    moreover from Suc.IH [of "Suc i" ?arr e] Suc.prems obtain arr' where
      "hint_loop (Suc i) n rs us (e, ?arr) =
        Inr (e + length (filter (\<lambda>(r, u). r = u) (zip (take n (drop (Suc i) rs)) (take n (drop (Suc i) us)))), arr')"
      "length arr' = length arr"
      "\<forall>v < length arr. arr' ! v = ?arr ! v +
       count_list (map fst (filter (\<lambda>(r, u). r \<noteq> u) (zip (take n (drop (Suc i) rs)) (take n (drop (Suc i) us))))) v +
       count_list (map snd (filter (\<lambda>(r, u). r \<noteq> u) (zip (take n (drop (Suc i) rs)) (take n (drop (Suc i) us))))) v" by auto
    ultimately show ?thesis using False i Suc.prems by (auto simp: split nth_list_update_if)
  qed
qed simp

text \<open>The two counts of an answer to a guess: digits at their place, and digits at another place.\<close>

definition exact_digits :: "nat list \<Rightarrow> nat list \<Rightarrow> nat" where
  "exact_digits s gs = card {i. i < length s \<and> s ! i = gs ! i}"

definition misplaced_digits :: "nat list \<Rightarrow> nat list \<Rightarrow> nat" where
  "misplaced_digits s gs = card {i. i < length s \<and> s ! i \<noteq> gs ! i \<and> s ! i \<in> set gs}"

lemma exact_filter:
  assumes "length gs = length s"
  shows "length (filter (\<lambda>(r, u). r = u) (zip s gs)) = exact_digits s gs"
proof -
  have "{i. i < length (zip s gs) \<and> (\<lambda>(r, u). r = u) (zip s gs ! i)} = {i. i < length s \<and> s ! i = gs ! i}"
    using assms by auto
  then show ?thesis by (simp add: length_filter_conv_card exact_digits_def)
qed

lemma count_list_distinct: "distinct xs \<Longrightarrow> count_list xs v = (if v \<in> set xs then 1 else 0)"
  by (induction xs) auto

lemma misplaced_count:
  assumes "length gs = length s" "distinct s" "distinct gs" "\<forall>v \<in> set s. v < 17"
    and ps: "ps = filter (\<lambda>(r, u). r \<noteq> u) (zip s gs)"
  shows "card {v. v < 17 \<and> count_list (map fst ps) v + count_list (map snd ps) v = 2} = misplaced_digits s gs"
proof -
  have d: "distinct (map fst ps)" "distinct (map snd ps)"
    using assms(1-3) by (simp_all add: ps distinct_map_filter)
  have fst: "v \<in> set (map fst ps) \<longleftrightarrow> (\<exists>i < length s. v = s ! i \<and> s ! i \<noteq> gs ! i)" for v
    using assms(1) by (force simp: ps set_zip)
  have snd: "v \<in> set (map snd ps) \<longleftrightarrow> (\<exists>i < length s. v = gs ! i \<and> s ! i \<noteq> gs ! i)" for v
    using assms(1) by (force simp: ps set_zip)
  have "v < 17 \<and> count_list (map fst ps) v + count_list (map snd ps) v = 2 \<longleftrightarrow>
      v \<in> (\<lambda>i. s ! i) ` {i. i < length s \<and> s ! i \<noteq> gs ! i \<and> s ! i \<in> set gs}" for v
  proof
    assume "v < 17 \<and> count_list (map fst ps) v + count_list (map snd ps) v = 2"
    then have "v \<in> set (map fst ps)" "v \<in> set (map snd ps)"
      using d by (auto simp: count_list_distinct split: if_splits)
    then show "v \<in> (\<lambda>i. s ! i) ` {i. i < length s \<and> s ! i \<noteq> gs ! i \<and> s ! i \<in> set gs}"
      unfolding fst snd using assms(1) by auto
  next
    assume "v \<in> (\<lambda>i. s ! i) ` {i. i < length s \<and> s ! i \<noteq> gs ! i \<and> s ! i \<in> set gs}"
    then obtain i j where i: "i < length s" "v = s ! i" "s ! i \<noteq> gs ! i" and j: "j < length s" "v = gs ! j"
      using assms(1) by (auto simp: in_set_conv_nth)
    then have "s ! j \<noteq> gs ! j" using assms(2) by (auto simp: nth_eq_iff_index_eq)
    then have "v \<in> set (map fst ps)" "v \<in> set (map snd ps)" unfolding fst snd using i j by auto
    moreover have "v < 17" using assms(4) i by simp
    ultimately show "v < 17 \<and> count_list (map fst ps) v + count_list (map snd ps) v = 2"
      using d by (simp add: count_list_distinct)
  qed
  then have "{v. v < 17 \<and> count_list (map fst ps) v + count_list (map snd ps) v = 2} =
      (\<lambda>i. s ! i) ` {i. i < length s \<and> s ! i \<noteq> gs ! i \<and> s ! i \<in> set gs}" by blast
  moreover have "inj_on (\<lambda>i. s ! i) {i. i < length s \<and> s ! i \<noteq> gs ! i \<and> s ! i \<in> set gs}"
    using assms(2) by (auto simp: inj_on_def nth_eq_iff_index_eq)
  ultimately show ?thesis by (simp add: card_image misplaced_digits_def)
qed

text \<open>Numbers of \<open>n\<close> different digits.\<close>

definition hex_number :: "nat \<Rightarrow> nat list \<Rightarrow> bool" where
  "hex_number n s \<longleftrightarrow> length s = n \<and> distinct s \<and> (\<forall>d \<in> set s. d < 16)"

lemma exact_all: "length gs = length s \<Longrightarrow> exact_digits s gs = length s \<longleftrightarrow> gs = s"
proof
  assume l: "length gs = length s" and "exact_digits s gs = length s"
  then have "card {i. i < length s \<and> s ! i = gs ! i} = card {..<length s}" by (simp add: exact_digits_def)
  then have "{i. i < length s \<and> s ! i = gs ! i} = {..<length s}" by (intro card_subset_eq) auto
  then have "s ! i = gs ! i" if "i < length s" for i using that by blast
  with l show "gs = s" by (intro nth_equalityI) auto
qed (simp add: exact_digits_def)

definition answer :: "nat list \<Rightarrow> nat list \<Rightarrow> string" where
  "answer s gs = fmt_d (int (exact_digits s gs)) @ '' '' @ fmt_d (int (misplaced_digits s gs))"

lemma hints_answer:
  assumes "hex_number n s" "hex_number n gs" "take n rs = s" "take n (user_num g) = gs"
    "\<forall>r \<in> set rs. r < 17" "\<forall>u \<in> set (user_num g). u < 17"
  shows "hints n rs k g = Inr (if gs = s then leaves (''FOUND '' @ fmt_d (int k)) g else tells (answer s gs) g)"
proof -
  have len: "0 + n \<le> length rs" "0 + n \<le> length (user_num g)" "length gs = length s"
    using assms(1-4) by (auto simp: hex_number_def min_def split: if_splits)
  have lt: "\<forall>r \<in> set rs. r < length (replicate DIGIT (0::nat))" "\<forall>u \<in> set (user_num g). u < length (replicate DIGIT (0::nat))"
    using assms(5,6) by (simp_all add: DIGIT_def)
  let ?ps = "filter (\<lambda>(r, u). r \<noteq> u) (zip s gs)"
  obtain arr where arr: "hint_loop 0 n rs (user_num g) (0, replicate DIGIT 0) = Inr (exact_digits s gs, arr)"
      "length arr = 17" "\<forall>v < 17. arr ! v = count_list (map fst ?ps) v + count_list (map snd ?ps) v"
    using hint_loop_spec [OF len(1,2) lt, of 0] assms(3,4) exact_filter [OF len(3)] by (auto simp: DIGIT_def)
  have "length (filter (\<lambda>x. x = 2) arr) = card {v. v < 17 \<and> arr ! v = 2}" by (simp add: length_filter_conv_card arr(2))
  also have "{v. v < 17 \<and> arr ! v = 2} = {v. v < 17 \<and> count_list (map fst ?ps) v + count_list (map snd ?ps) v = 2}"
    using arr(3) by auto
  also have "card \<dots> = misplaced_digits s gs"
  proof (rule misplaced_count [OF len(3) _ _ _ refl])
    show "\<forall>v \<in> set s. v < 17" using assms(1) by (auto simp: hex_number_def intro: less_trans)
  qed (use assms(1,2) in \<open>simp_all add: hex_number_def\<close>)
  finally show ?thesis
    using arr(1) exact_all [OF len(3)] assms(1) by (simp add: hints_def answer_def hex_number_def)
qed

text \<open>
  A guess of different digits is answered by the number of the digits at their place and the
  number of those at another place, and is found exactly if it is the number.
\<close>

theorem hints_correct:
  assumes "hex_number n s" "hex_number n gs" "n \<le> 16"
    and "user_num g = gs @ replicate (17 - n) 0"
  shows "hints n (s @ replicate (17 - n) 0) k g =
    Inr (if gs = s then leaves (''FOUND '' @ fmt_d (int k)) g
         else tells (fmt_d (int (card {i. i < n \<and> s ! i = gs ! i})) @ '' '' @
           fmt_d (int (card {i. i < n \<and> s ! i \<noteq> gs ! i \<and> s ! i \<in> set gs}))) g)"
proof -
  have "\<forall>r \<in> set (s @ replicate (17 - n) 0). r < 17" "\<forall>u \<in> set (user_num g). u < 17"
    using assms by (auto simp: hex_number_def less_imp_le_nat dest: bspec intro: less_trans [of _ 16])
  moreover have "length s = n" "length gs = n" using assms(1,2) by (simp_all add: hex_number_def)
  ultimately show ?thesis
    using hints_answer [OF assms(1,2), of "s @ replicate (17 - n) 0" g k] assms(4)
    by (simp add: answer_def exact_digits_def misplaced_digits_def)
qed

section \<open>The dialogue\<close>

definition digits_of :: "string \<Rightarrow> nat list" where
  "digits_of s = map (\<lambda>c. the (hex_value c)) s"

definition all_hex :: "string \<Rightarrow> bool" where
  "all_hex s \<longleftrightarrow> (\<forall>c \<in> set s. hex_value c \<noteq> None)"

definition squeezed :: "string \<Rightarrow> string" where
  "squeezed line = filter (\<lambda>c. \<not> isspace c) line"

text \<open>The rules: what is printed for the lines, after \<open>k\<close> guesses. No line is left after the last one.\<close>

function dialogue :: "nat \<Rightarrow> nat list \<Rightarrow> nat \<Rightarrow> string list \<Rightarrow> string list" where
  "dialogue n s k ls =
     (let t = squeezed (case ls of [] \<Rightarrow> [] | l # _ \<Rightarrow> l); gs = digits_of t in
      if \<not> all_hex t then [''E2'']
      else if \<not> hex_number n gs \<or> hd gs = 0 then [''E1'']
      else if 100 \<le> k then [''FAILED'']
      else if gs = s then [''FOUND '' @ fmt_d (int (k + 1))]
      else answer s gs # dialogue n s (k + 1) (tl ls))"
  by pat_completeness auto
termination
  by (relation "measure (\<lambda>(n, s, k, ls). 100 - k)") auto

declare dialogue.simps [simp del]

lemma hex_value_less: "hex_value c = Some d \<Longrightarrow> d < 16"
  by (auto simp: hex_value_def Let_def split: if_splits)

lemma digits_less: "all_hex t \<Longrightarrow> \<forall>d \<in> set (digits_of t). d < 16"
  by (force simp: digits_of_def all_hex_def dest: hex_value_less)

lemma read_digits_spec:
  "i + length t \<le> length arr \<Longrightarrow> \<forall>x \<in> set arr. x < 16 \<Longrightarrow>
   \<exists>arr'. read_digits t i arr = Inr (arr', all_hex t) \<and> length arr' = length arr \<and> (\<forall>x \<in> set arr'. x < 16) \<and>
     (all_hex t \<longrightarrow> arr' = take i arr @ digits_of t @ drop (i + length t) arr)"
proof (induction t arbitrary: i arr)
  case Nil
  then show ?case by (simp add: all_hex_def digits_of_def)
next
  case (Cons c t)
  show ?case
  proof (cases "hex_value c")
    case None
    with Cons.prems show ?thesis by (auto simp: all_hex_def)
  next
    case (Some d)
    have i: "i < length arr" using Cons.prems(1) by simp
    have "\<forall>x \<in> set (arr[i := d]). x < 16"
      using Cons.prems(2) hex_value_less [OF Some] by (auto dest: subsetD [OF set_update_subset_insert])
    from Cons.IH [of "i + 1" "arr[i := d]", OF _ this] Cons.prems(1) obtain arr' where
      arr': "read_digits t (i + 1) (arr[i := d]) = Inr (arr', all_hex t)" "length arr' = length arr" "\<forall>x \<in> set arr'. x < 16"
        "all_hex t \<longrightarrow> arr' = take (i + 1) (arr[i := d]) @ digits_of t @ drop (i + 1 + length t) (arr[i := d])" by auto
    have "take (i + 1) (arr[i := d]) = take i arr @ [d]" using i by (simp add: take_Suc_conv_app_nth)
    then show ?thesis
      using arr' Some i by (auto simp: all_hex_def digits_of_def)
  qed
qed

lemma repeated_distinct: "repeated xs \<longleftrightarrow> \<not> distinct xs"
  by (induction xs) auto

text \<open>The array between two guesses: the digits of the last one, and zeros.\<close>

definition array_ok :: "nat \<Rightarrow> nat list \<Rightarrow> bool" where
  "array_ok n arr \<longleftrightarrow> length arr = 17 \<and> (\<forall>x \<in> set arr. x < 16)"

lemma get_input_spec:
  assumes "array_ok n (user_num g)" "0 < n" "n \<le> 16"
    and t: "t = squeezed (case g_input g of [] \<Rightarrow> [] | l # _ \<Rightarrow> l)" "length t \<le> 17"
  shows "\<exists>arr. array_ok n arr \<and> get_input n g = Inr
    (let g1 = g\<lparr>g_input := tl (g_input g), user_num := arr\<rparr> in
     if \<not> all_hex t then leaves ''E2'' g1
     else if \<not> hex_number n (digits_of t) \<or> hd (digits_of t) = 0 then leaves ''E1'' g1 else g1) \<and>
    (all_hex t \<longrightarrow> take (length t) arr = digits_of t)"
proof -
  from read_digits_spec [of 0 t "user_num g"] assms(1) t(2) obtain arr where
    arr: "read_digits t 0 (user_num g) = Inr (arr, all_hex t)" "array_ok n arr"
      "all_hex t \<longrightarrow> arr = digits_of t @ drop (length t) (user_num g)" by (auto simp: array_ok_def)
  have len: "length (digits_of t) = length t" by (simp add: digits_of_def)
  have prefix: "all_hex t \<longrightarrow> take (length t) arr = digits_of t" using arr(3) len by auto
  have input: "get_input n g = (let g1 = g\<lparr>g_input := tl (g_input g), user_num := arr\<rparr> in
        if \<not> all_hex t then Inr (leaves ''E2'' g1)
        else if arr ! 0 = 0 then Inr (leaves ''E1'' g1)
        else if length t \<noteq> n then Inr (leaves ''E1'' g1)
        else if repeated (take (length t) arr) then Inr (leaves ''E1'' g1) else Inr g1)"
    using arr(1,2) by (simp add: get_input_def t(1)[unfolded squeezed_def, symmetric] Let_def array_ok_def)
  have "all_hex t \<Longrightarrow> t \<noteq> [] \<Longrightarrow> arr ! 0 = hd (digits_of t)"
    using arr(3) len by (cases t) (auto simp: digits_of_def)
  then show ?thesis
    using arr(2) prefix digits_less [of t] len assms(2)
    by (intro exI [of _ arr]) (auto simp: input Let_def hex_number_def repeated_distinct)
qed

lemma guesses_dialogue:
  assumes "hex_number n s" "0 < n" "n \<le> 16" "\<forall>l \<in> set ls. length (filter (\<lambda>c. \<not> isspace c) l) \<le> 17"
  shows "\<exists>g. guesses n (s @ replicate (17 - n) 0) 0 (new_guesses ls) = Inr g \<and> g_over g \<and> g_printed g = dialogue n s 0 ls"
proof -
  have "\<exists>g'. guesses n (s @ replicate (17 - n) 0) k g = Inr g' \<and> g_over g' \<and> g_printed g' = g_printed g @ dialogue n s k (g_input g)"
    if "array_ok n (user_num g)" "\<forall>l \<in> set (g_input g). length (squeezed l) \<le> 17" "\<not> g_over g" for k g
    using that
  proof (induction k g rule: measure_induct_rule [where f = "\<lambda>(k, g). 101 - k", split_format (complete)])
    case (less k g)
    define t where "t = squeezed (case g_input g of [] \<Rightarrow> [] | l # _ \<Rightarrow> l)"
    have short: "length t \<le> 17" using less.prems(2) by (cases "g_input g") (auto simp: t_def squeezed_def)
    from get_input_spec [OF less.prems(1) assms(2,3) t_def short] obtain arr where
      arr: "array_ok n arr" "all_hex t \<longrightarrow> take (length t) arr = digits_of t"
      and input: "get_input n g = Inr (let g1 = g\<lparr>g_input := tl (g_input g), user_num := arr\<rparr> in
         if \<not> all_hex t then leaves ''E2'' g1
         else if \<not> hex_number n (digits_of t) \<or> hd (digits_of t) = 0 then leaves ''E1'' g1 else g1)" by blast
    let ?g = "g\<lparr>g_input := tl (g_input g), user_num := arr\<rparr>" and ?gs = "digits_of t"
    note unfold = guesses.simps [of n _ k g] dialogue.simps [of n s k "g_input g"]
    show ?case
    proof (cases "all_hex t \<and> hex_number n ?gs \<and> hd ?gs \<noteq> 0 \<and> k < 100")
      case False
      then show ?thesis
        using less.prems(3) by (auto simp: unfold input t_def [symmetric] Let_def leaves_def tells_def)
    next
      case True
      have "take n arr = ?gs" using True arr(2) by (auto simp: hex_number_def digits_of_def)
      moreover have "\<forall>r \<in> set (s @ replicate (17 - n) 0). r < 17" "\<forall>u \<in> set arr. u < 17"
        using assms(1) arr(1) by (auto simp: hex_number_def array_ok_def dest!: bspec intro: less_trans [of _ 16])
      ultimately have h: "hints n (s @ replicate (17 - n) 0) (k + 1) ?g =
          Inr (if ?gs = s then leaves (''FOUND '' @ fmt_d (int (k + 1))) ?g else tells (answer s ?gs) ?g)"
        using True assms(1) by (intro hints_answer) (auto simp: hex_number_def)
      show ?thesis
      proof (cases "?gs = s")
        case found: True
        then show ?thesis
          using True less.prems(3) h by (auto simp: unfold input t_def [symmetric] Let_def leaves_def tells_def)
      next
        case False
        let ?h = "tells (answer s ?gs) ?g"
        have "array_ok n (user_num ?h)" "\<forall>l \<in> set (g_input ?h). length (squeezed l) \<le> 17" "\<not> g_over ?h"
          using arr(1) less.prems(2,3) by (cases "g_input g"; simp add: tells_def)+
        moreover have "101 - (k + 1) < 101 - k" using True by arith
        ultimately obtain g' where
          "guesses n (s @ replicate (17 - n) 0) (k + 1) ?h = Inr g'" "g_over g'"
          "g_printed g' = g_printed ?h @ dialogue n s (k + 1) (g_input ?h)"
          using less.IH [of "k + 1" ?h] unfolding prod.case by blast
        then show ?thesis
          using True False less.prems(3) h by (auto simp: unfold input t_def [symmetric] Let_def tells_def)
      qed
    qed
  qed
  from this [of "new_guesses ls" 0] show ?thesis
    using assms(4) by (simp add: new_guesses_def array_ok_def DIGIT_def squeezed_def)
qed

text \<open>
  For a number of up to 16 different digits and lines of at most 17 characters besides
  blanks, the game has no undefined behaviour and ends, and it prints exactly what the rules say.
\<close>

theorem guesses_follow_rules:
  assumes "hex_number n s" "0 < n" "n \<le> 16" "\<forall>l \<in> set ls. length (filter (\<lambda>c. \<not> isspace c) l) \<le> 17"
  shows "\<exists>g. guesses n (s @ replicate (17 - n) 0) 0 (new_guesses ls) = Inr g \<and> g_over g \<and> g_printed g = dialogue n s 0 ls"
  by (rule guesses_dialogue [OF assms])

lemma dialogue_zero: "0 < n \<Longrightarrow> hex_number n s \<Longrightarrow> hd s = 0 \<Longrightarrow> dialogue n s k ls \<noteq> [] \<and> last (dialogue n s k ls) \<in> {''E1'', ''E2'', ''FAILED''}"
proof (induction n s k ls rule: dialogue.induct)
  case (1 n s k ls)
  let ?t = "squeezed (case ls of [] \<Rightarrow> [] | l # _ \<Rightarrow> l)"
  have "digits_of ?t \<noteq> s" if "hd (digits_of ?t) \<noteq> 0" using that "1.prems"(3) by auto
  then show ?case
    using "1.IH" [OF refl refl] "1.prems" by (subst (1 2) dialogue.simps) (auto simp: Let_def)
qed

text \<open>
  A number that begins with 0, which the drawing may give, is never found: a guess that begins
  with 0 is refused, so the game ends with an error or without success.
\<close>

theorem leading_zero_never_found:
  assumes "hex_number n s" "0 < n" "n \<le> 16" "hd s = 0" "\<forall>l \<in> set ls. length (filter (\<lambda>c. \<not> isspace c) l) \<le> 17"
  shows "\<exists>g. guesses n (s @ replicate (17 - n) 0) 0 (new_guesses ls) = Inr g \<and> g_printed g \<noteq> [] \<and>
    last (g_printed g) \<in> {''E1'', ''E2'', ''FAILED''}"
proof -
  obtain g where g: "guesses n (s @ replicate (17 - n) 0) 0 (new_guesses ls) = Inr g" "g_printed g = dialogue n s 0 ls"
    using guesses_dialogue [OF assms(1-3,5)] by blast
  then show ?thesis using dialogue_zero [OF assms(2,1,4), of 0 ls] by (intro exI [of _ g]) (simp only: g, simp)
qed

section \<open>All command lines\<close>

lemma read_digits_defined:
  "i \<le> length arr \<Longrightarrow> defined (read_digits t i arr) \<longleftrightarrow> i + length (takeWhile (\<lambda>c. hex_value c \<noteq> None) t) \<le> length arr"
proof (induction t arbitrary: i arr)
  case (Cons c t)
  show ?case
  proof (cases "hex_value c")
    case (Some d)
    then show ?thesis using Cons.IH [of "i + 1" "arr[i := d]"] Cons.prems by (auto simp: wr_def)
  qed (use Cons.prems in simp)
qed simp

lemma read_digits_flag: "read_digits t i arr = Inr (arr', ok) \<Longrightarrow> ok = all_hex t"
  by (induction t arbitrary: i arr) (auto simp: all_hex_def rbind_eq_Inr split: option.splits)

lemma hex_value_code: "hex_value c = Some d \<Longrightarrow> of_char c = (if d < 10 then d + 48 else d + 87 :: nat)"
  by (auto simp: hex_value_def Let_def split: if_splits)

lemma hex_value_inj: "hex_value c = Some d \<Longrightarrow> hex_value e = Some d \<Longrightarrow> c = e"
  by (metis hex_value_code char_of_char)

lemma digits_distinct: "all_hex t \<Longrightarrow> distinct (digits_of t) \<longleftrightarrow> distinct t"
proof -
  assume t: "all_hex t"
  have "inj_on (\<lambda>c. the (hex_value c)) (set t)"
  proof (rule inj_onI)
    fix c e assume "c \<in> set t" "e \<in> set t" "the (hex_value c) = the (hex_value e)"
    moreover from this t obtain x y where "hex_value c = Some x" "hex_value e = Some y" unfolding all_hex_def by blast
    ultimately show "c = e" using hex_value_inj [of c x e] by simp
  qed
  then show ?thesis by (simp add: digits_of_def distinct_map)
qed

lemma distinct_hex_short: "all_hex t \<Longrightarrow> distinct t \<Longrightarrow> length t \<le> 16"
proof -
  assume t: "all_hex t" "distinct t"
  have "length t = card (set (digits_of t))"
    using digits_distinct [OF t(1)] t(2) by (simp add: distinct_card) (simp add: digits_of_def)
  also have "\<dots> \<le> card {..<16::nat}" using digits_less [OF t(1)] by (intro card_mono) auto
  finally show ?thesis by simp
qed

text \<open>What the program prints for any command line; None while it waits for numbers of \<open>rand\<close>.\<close>

definition guess_program :: "string list \<Rightarrow> nat list \<Rightarrow> string list \<Rightarrow> string list option" where
  "guess_program args rs ls = (case args of
      [mode, arg] \<Rightarrow>
        if mode = ''-r'' then
          (case atoi arg of
             Inl e \<Rightarrow> None
           | Inr n \<Rightarrow>
               if n \<le> 0 \<or> 16 < n then Some [''E0'']
               else let ds = first_times (map (\<lambda>r. r mod 16) rs) in
                 if nat n \<le> length ds then Some (dialogue (nat n) (take (nat n) ds) 0 ls) else None)
        else if mode = ''-u'' \<and> all_hex arg \<and> distinct arg \<and> arg \<noteq> [] \<and> hd arg \<noteq> CHR ''0''
        then Some (dialogue (length arg) (digits_of arg) 0 ls)
        else Some [''E0'']
    | _ \<Rightarrow> Some [''E0''])"

lemma first_times_hex: "n \<le> length (first_times (map (\<lambda>r. r mod 16) rs)) \<Longrightarrow>
  hex_number n (take n (first_times (map (\<lambda>r. r mod 16) rs)))"
  by (auto simp: hex_number_def first_times_def dest!: in_set_takeD)


section \<open>A guess that is too long\<close>

text \<open>
  A guess with 18 or more digits is written past the end of the array, because its length is
  compared afterwards.
\<close>

theorem long_guess_overflows:
  assumes "array_ok n (user_num g)" "17 < length (takeWhile (\<lambda>c. hex_value c \<noteq> None) (filter (\<lambda>c. \<not> isspace c) l))"
    and "g_input g = l # ls"
  shows "\<not> defined (get_input n g)"
  using read_digits_defined [of 0 "user_num g" "filter (\<lambda>c. \<not> isspace c) l"] assms
  by (auto simp: get_input_def defined_ex array_ok_def Let_def rbind_eq_Inr)

section \<open>Witnesses\<close>

definition demo_guesses :: "string list" where
  "demo_guesses = [''1 2 3'', ''3 a 1'', ''1a3'']"

lemma demo_numbers: "hex_number 3 [1, 10, 3]" "hex_number 3 [3, 10, 1]" "hex_number 3 [0, 10, 3]"
  by (simp_all add: hex_number_def)

lemma demo_short: "\<forall>l \<in> set demo_guesses. length (filter (\<lambda>c. \<not> isspace c) l) \<le> 17"
  by code_simp

theorem generate_correct_witness:
  "generate_random_number 3 [17, 33, 26, 10, 5] = Some ([1, 10, 5] @ replicate 14 0)"
  using generate_correct [of 3 "[17, 33, 26, 10, 5]"] by (simp add: first_times_def)

theorem hints_correct_witness:
  "hints 3 ([1, 10, 3] @ replicate 14 0) 2 ((new_guesses [])\<lparr>user_num := [3, 10, 1] @ replicate 14 0\<rparr>) =
    Inr (tells ''1 2'' ((new_guesses [])\<lparr>user_num := [3, 10, 1] @ replicate 14 0\<rparr>))"
proof -
  have "{i. i < 3 \<and> [1, 10, 3] ! i = ([3, 10, 1] ! i :: nat)} = {1}"
    "{i. i < 3 \<and> [1, 10, 3] ! i \<noteq> ([3, 10, 1] ! i :: nat) \<and> [1, 10, 3] ! i \<in> set [3, 10, 1 :: nat]} = {0, 2}"
    by (auto simp: numeral_3_eq_3 less_Suc_eq)
  moreover have "fmt_d 1 = ''1''" "fmt_d 2 = ''2''" by code_simp+
  ultimately show ?thesis
    using hints_correct [OF demo_numbers(1,2), of "(new_guesses [])\<lparr>user_num := [3, 10, 1] @ replicate (17 - 3) 0\<rparr>" 2]
    by (simp del: list.set)
qed

theorem guesses_follow_rules_witness:
  "\<exists>g. guesses 3 ([1, 10, 3] @ replicate (17 - 3) 0) 0 (new_guesses demo_guesses) = Inr g \<and> g_over g \<and>
    g_printed g = dialogue 3 [1, 10, 3] 0 demo_guesses"
  using guesses_follow_rules [OF demo_numbers(1) _ _ demo_short] by simp

theorem leading_zero_never_found_witness:
  "\<exists>g. guesses 3 ([0, 10, 3] @ replicate (17 - 3) 0) 0 (new_guesses demo_guesses) = Inr g \<and> g_printed g \<noteq> [] \<and>
    last (g_printed g) \<in> {''E1'', ''E2'', ''FAILED''}"
  by (rule leading_zero_never_found [OF demo_numbers(3) _ _ _ demo_short]) simp_all


theorem long_guess_overflows_witness:
  "\<not> defined (get_input 3 (new_guesses [''111111111111111111'']))"
  by (rule long_guess_overflows [of 3 _ "''111111111111111111''" "[]"]) 
    (simp_all add: new_guesses_def array_ok_def DIGIT_def hex_value_def isspace_def)

end
