(* ===== verification/Word_Search.thy ===== *)
theory Word_Search
  imports C_Format C_Text
begin

text \<open>
  The word search of Computer Programming Fall/PA4 (PA4.c): the lines of one file are a grid of
  letters in a two-dimensional array, in which the words of another file are looked for to the
  right, downwards and diagonally. A file is the text it holds, and the output the list of its lines.
\<close>

section \<open>The grid\<close>

definition MAX_LINE :: nat where "MAX_LINE = 101"
definition MAX_CHAR :: nat where "MAX_CHAR = 251"
definition MAX_WORD_LENGTH :: nat where "MAX_WORD_LENGTH = 11"

record grid =
  g_lines :: "char list list"
  line_length :: "int list"
  rows :: nat
  max_length :: int

definition new_grid :: grid where
  "new_grid = \<lparr>g_lines = replicate MAX_LINE (replicate MAX_CHAR NUL), line_length = replicate MAX_LINE 0, rows = 0, max_length = 0\<rparr>"

text \<open>The array that \<open>fgets\<close> has filled with such a text, the length less one, and without the newline.\<close>

definition got_line :: "string \<Rightarrow> char list \<Rightarrow> char list \<times> int" where
  "got_line chunk arr =
     (let arr1 = put_string chunk arr; len = int (length (cstr arr1)) - 1 in
      (if 0 < len \<and> arr1 ! nat len = LF then arr1[nat len := NUL] else arr1, len))"

text \<open>\<open>fgets\<close> writes the line before the number of lines is compared.\<close>

function load_grid :: "string \<Rightarrow> grid \<Rightarrow> grid res" where
  "load_grid content g =
     (if content = [] then Inr g
      else let (chunk, rest) = read_line (MAX_CHAR - 1) content in
        rbind (rd (g_lines g) (rows g)) (\<lambda>row.
          let (row', len) = got_line chunk row in
          load_grid rest (g\<lparr>g_lines := (g_lines g)[rows g := row'], line_length := (line_length g)[rows g := len],
            rows := rows g + 1\<rparr>)))"
  by pat_completeness auto
termination
proof (relation "measure (\<lambda>(content, g). length content)")
  fix content chunk rest :: string and x :: "string \<times> string"
  assume "content \<noteq> []" "x = read_line (MAX_CHAR - 1) content" "(chunk, rest) = x"
  then show "((rest, g), content, h) \<in> measure (\<lambda>(content, g). length content)" for g h :: grid
    using read_line_length [of "MAX_CHAR - 1" content] by (cases x) (simp add: MAX_CHAR_def, metis snd_conv)
qed simp

declare load_grid.simps [simp del]

definition longest :: "grid \<Rightarrow> grid" where
  "longest g = g\<lparr>max_length := fold (\<lambda>l m. if m < l then l else m) (take (rows g) (line_length g)) (max_length g)\<rparr>"

definition cell_at :: "grid \<Rightarrow> nat \<Rightarrow> nat \<Rightarrow> char res" where
  "cell_at g r c = rbind (rd (g_lines g) r) (\<lambda>row. rd row c)"

section \<open>Looking for a word\<close>

text \<open>The loop over the letters from a position on; it ends early when one is different.\<close>

fun same_letters :: "(nat \<Rightarrow> char res) \<Rightarrow> char list \<Rightarrow> nat \<Rightarrow> nat \<Rightarrow> bool res" where
  "same_letters letter word i 0 = Inr True"
| "same_letters letter word i (Suc n) =
     rbind (letter i) (\<lambda>c. rbind (rd word i) (\<lambda>d.
       if c = d then same_letters letter word (i + 1) n else Inr False))"

text \<open>The letters from the second one on; a word of no length is not found.\<close>

definition rest_matches :: "(nat \<Rightarrow> char res) \<Rightarrow> char list \<Rightarrow> int \<Rightarrow> bool res" where
  "rest_matches letter word word_length =
     (if word_length < 1 then Inr False else same_letters letter word 1 (nat word_length - 1))"

definition is_horizontal :: "grid \<Rightarrow> char list \<Rightarrow> int \<Rightarrow> nat \<Rightarrow> nat \<Rightarrow> bool res" where
  "is_horizontal g word word_length row column =
     rbind (rd (line_length g) row) (\<lambda>len.
       if word_length \<le> len - int column
       then rest_matches (\<lambda>i. cell_at g row (column + i)) word word_length
       else Inr False)"

definition is_vertical :: "grid \<Rightarrow> char list \<Rightarrow> int \<Rightarrow> nat \<Rightarrow> nat \<Rightarrow> bool res" where
  "is_vertical g word word_length row column =
     (if word_length \<le> int (rows g) - int row
      then rest_matches (\<lambda>i. cell_at g (row + i) column) word word_length
      else Inr False)"

text \<open>Here a cell that holds no letter ends the loop, too.\<close>

fun same_diagonal :: "grid \<Rightarrow> char list \<Rightarrow> nat \<Rightarrow> nat \<Rightarrow> nat \<Rightarrow> nat \<Rightarrow> bool res" where
  "same_diagonal g word row column i 0 = Inr True"
| "same_diagonal g word row column i (Suc n) =
     rbind (cell_at g (row + i) (column + i)) (\<lambda>c.
       if c = NUL then Inr False
       else rbind (rd word i) (\<lambda>d. if c = d then same_diagonal g word row column (i + 1) n else Inr False))"

definition is_diagonal :: "grid \<Rightarrow> char list \<Rightarrow> int \<Rightarrow> nat \<Rightarrow> nat \<Rightarrow> bool res" where
  "is_diagonal g word word_length row column =
     (if word_length \<le> int (rows g) - int row \<and> word_length \<le> max_length g - int column
      then if word_length < 1 then Inr False else same_diagonal g word row column 1 (nat word_length - 1)
      else Inr False)"

definition found_line :: "char list \<Rightarrow> nat \<Rightarrow> nat \<Rightarrow> string \<Rightarrow> string" where
  "found_line word i j dir = cstr word @ '' ('' @ fmt_d (int i + 1) @ '','' @ fmt_d (int j + 1) @ '') '' @ dir @ nl"

text \<open>One cell: what is written for it.\<close>

definition look_at :: "grid \<Rightarrow> char list \<Rightarrow> int \<Rightarrow> nat \<Rightarrow> nat \<Rightarrow> string list res" where
  "look_at g word word_length i j =
     rbind (cell_at g i j) (\<lambda>c. rbind (rd word 0) (\<lambda>d.
       if c = d then
         rbind (is_horizontal g word word_length i j) (\<lambda>h.
           if h then Inr [found_line word i j ''Horizontal'']
           else rbind (is_vertical g word word_length i j) (\<lambda>v.
             if v then Inr [found_line word i j ''Vertical'']
             else rbind (is_diagonal g word word_length i j) (\<lambda>x.
               if x then Inr [found_line word i j ''Diagonal''] else Inr [])))
       else Inr []))"

fun gather :: "('a \<Rightarrow> 'b list res) \<Rightarrow> 'a list \<Rightarrow> 'b list res" where
  "gather f [] = Inr []"
| "gather f (x # xs) = rbind (f x) (\<lambda>ys. rbind (gather f xs) (\<lambda>zs. Inr (ys @ zs)))"

definition look_for :: "grid \<Rightarrow> char list \<Rightarrow> int \<Rightarrow> string list res" where
  "look_for g word word_length =
     gather (\<lambda>i. rbind (rd (line_length g) i) (\<lambda>len. gather (look_at g word word_length i) [0..<nat len])) [0..<rows g]"

text \<open>The words, read with \<open>fgets\<close> into the array of 11 characters.\<close>

function look_for_all :: "grid \<Rightarrow> string \<Rightarrow> char list \<Rightarrow> string list res" where
  "look_for_all g content word =
     (if content = [] then Inr []
      else let (chunk, rest) = read_line (MAX_WORD_LENGTH - 1) content; (word', len) = got_line chunk word in
        rbind (look_for g word' len) (\<lambda>found. rbind (look_for_all g rest word') (\<lambda>more. Inr (found @ more))))"
  by pat_completeness auto
termination
proof (relation "measure (\<lambda>(g, content, word). length content)")
  fix content chunk rest :: string and x :: "string \<times> string"
  assume "content \<noteq> []" "x = read_line (MAX_WORD_LENGTH - 1) content" "(chunk, rest) = x"
  then show "((g, rest, w), h, content, v) \<in> measure (\<lambda>(g, content, word). length content)" for g h :: grid and w v :: "char list"
    using read_line_length [of "MAX_WORD_LENGTH - 1" content] by (cases x) (simp add: MAX_WORD_LENGTH_def, metis snd_conv)
qed simp

declare look_for_all.simps [simp del]

text \<open>\<open>main\<close> with the two files: the words, and the lines.\<close>

definition search_words :: "string \<Rightarrow> string \<Rightarrow> string list res" where
  "search_words input1 input2 =
     rbind (load_grid input2 new_grid) (\<lambda>g. look_for_all (longest g) input1 (replicate MAX_WORD_LENGTH NUL))"

end
