(* ===== verification/Word_Search_Properties.thy ===== *)
theory Word_Search_Properties
  imports Word_Search
begin

text \<open>
  The word search finds what it should: for files of lines that fit the arrays, the output has, for
  each word and each cell of the grid, the first direction in which the word stands there.
\<close>

section \<open>What is to be found\<close>

text \<open>The letter of a cell, and that a word can be read from cells.\<close>

definition letter_of :: "string list \<Rightarrow> nat \<Rightarrow> nat \<Rightarrow> char option" where
  "letter_of ls i j = (if i < length ls \<and> j < length (ls ! i) then Some (ls ! i ! j) else None)"

definition stands :: "(nat \<Rightarrow> char option) \<Rightarrow> string \<Rightarrow> bool" where
  "stands f w \<longleftrightarrow> (\<forall>k < length w. f k = Some (w ! k))"

definition occurrence :: "string list \<Rightarrow> string \<Rightarrow> nat \<Rightarrow> nat \<Rightarrow> string list" where
  "occurrence ls w i j =
     (let line = (\<lambda>dir. w @ '' ('' @ fmt_d (int i + 1) @ '','' @ fmt_d (int j + 1) @ '') '' @ dir @ nl) in
      if stands (\<lambda>k. letter_of ls i (j + k)) w then [line ''Horizontal'']
      else if stands (\<lambda>k. letter_of ls (i + k) j) w then [line ''Vertical'']
      else if stands (\<lambda>k. letter_of ls (i + k) (j + k)) w then [line ''Diagonal'']
      else [])"

definition occurrences :: "string list \<Rightarrow> string \<Rightarrow> string list" where
  "occurrences ls w =
     concat (map (\<lambda>i. concat (map (occurrence ls w i) [0..<length (ls ! i)])) [0..<length ls])"

definition text_of :: "string list \<Rightarrow> string" where
  "text_of ls = concat (map (\<lambda>l. l @ nl) ls)"

definition proper :: "nat \<Rightarrow> string \<Rightarrow> bool" where
  "proper k l \<longleftrightarrow> l \<noteq> [] \<and> length l \<le> k \<and> NUL \<notin> set l \<and> LF \<notin> set l"

section \<open>Loading the grid\<close>

lemma LF_NUL [simp]: "LF \<noteq> NUL" "NUL \<noteq> LF"
  by (simp_all add: LF_def NUL_def)

lemma cstr_until: "NUL \<notin> set s \<Longrightarrow> cstr (s @ NUL # t) = s"
  by (simp add: cstr_def takeWhile_append2 takeWhile_eq_all_conv [THEN iffD2]) (auto simp: takeWhile_append takeWhile_eq_all_conv)

lemma got_line_proper:
  assumes "proper k l" "k + 2 \<le> length arr"
  shows "got_line (l @ nl) arr = (l @ NUL # NUL # drop (length l + 2) arr, int (length l))"
proof -
  have "NUL \<notin> set (l @ nl)" using assms(1) by (auto simp: proper_def nl_def)
  then have "cstr (put_string (l @ nl) arr) = l @ nl" unfolding put_string_def by (rule cstr_until)
  moreover have "put_string (l @ nl) arr = l @ LF # NUL # drop (length l + 2) arr"
    by (simp add: put_string_def nl_def)
  ultimately show ?thesis
    using assms(1) by (simp add: got_line_def Let_def nl_def proper_def list_update_append)
qed

lemma read_line_proper: "proper k l \<Longrightarrow> k < m \<Longrightarrow> read_line m ((l @ nl) @ s) = (l @ nl, s)"
  using read_line_exact [of l m s] by (simp add: proper_def nl_def)

definition blank_row :: "char list" where
  "blank_row = replicate MAX_CHAR NUL"

definition grid_row :: "string \<Rightarrow> char list" where
  "grid_row l = l @ replicate (MAX_CHAR - length l) NUL"

definition loaded :: "string list \<Rightarrow> grid \<Rightarrow> bool" where
  "loaded ls g \<longleftrightarrow> length ls \<le> MAX_LINE \<and> rows g = length ls \<and> length (line_length g) = MAX_LINE \<and>
     g_lines g = map grid_row ls @ replicate (MAX_LINE - length ls) blank_row \<and>
     (\<forall>i < length ls. line_length g ! i = int (length (ls ! i))) \<and> max_length g = 0"

lemma got_line_blank: "proper 249 l \<Longrightarrow> got_line (l @ nl) blank_row = (grid_row l, int (length l))"
proof -
  assume l: "proper 249 l"
  then have "drop (length l + 2) (replicate 251 NUL) = replicate (249 - length l) NUL" by simp
  moreover have "NUL # NUL # replicate (249 - length l) NUL = replicate (251 - length l) NUL"
  proof -
    have "251 - length l = Suc (Suc (249 - length l))" using l unfolding proper_def by linarith
    then show ?thesis by simp
  qed
  ultimately show ?thesis
    using got_line_proper [OF l, of blank_row] by (simp add: blank_row_def grid_row_def MAX_CHAR_def)
qed

lemma load_grid_line:
  assumes "proper 249 l" "loaded ks g"
  shows "load_grid ((l @ nl) @ s) g =
    (if length ks < MAX_LINE
     then load_grid s (g\<lparr>g_lines := (g_lines g)[length ks := grid_row l], line_length := (line_length g)[length ks := int (length l)],
       rows := length ks + 1\<rparr>)
     else Inl OutOfBounds)"
proof -
  have "length (g_lines g) = MAX_LINE" "rows g = length ks" "length ks \<le> MAX_LINE" using assms(2) by (auto simp: loaded_def)
  moreover have "g_lines g ! length ks = blank_row" if "length ks < MAX_LINE"
    using assms(2) that by (simp add: loaded_def nth_append)
  moreover have "l \<noteq> []" using assms(1) by (simp add: proper_def)
  moreover have "read_line (MAX_CHAR - 1) ((l @ nl) @ s) = (l @ nl, s)"
    using read_line_proper [OF assms(1), of 250 s] by (simp add: MAX_CHAR_def)
  ultimately show ?thesis
    using got_line_blank [OF assms(1)] by (subst load_grid.simps) (simp add: rd_def)
qed

lemma loaded_snoc:
  assumes "loaded ks g" "length ks < MAX_LINE"
  shows "loaded (ks @ [l]) (g\<lparr>g_lines := (g_lines g)[length ks := grid_row l],
    line_length := (line_length g)[length ks := int (length l)], rows := length ks + 1\<rparr>)"
proof -
  have "MAX_LINE - length ks = Suc (MAX_LINE - Suc (length ks))" using assms(2) by simp
  then show ?thesis
    using assms by (auto simp: loaded_def nth_append less_Suc_eq list_update_append)
qed

lemma load_grid_spec:
  "\<forall>l \<in> set ls. proper 249 l \<Longrightarrow> loaded ks g \<Longrightarrow>
   (if length ks + length ls \<le> MAX_LINE
    then \<exists>h. load_grid (text_of ls) g = Inr h \<and> loaded (ks @ ls) h else load_grid (text_of ls) g = Inl OutOfBounds)"
proof (induction ls arbitrary: ks g)
  case Nil
  then show ?case by (auto simp: text_of_def load_grid.simps [of "[]"] loaded_def)
next
  case (Cons l ls)
  have cons: "text_of (l # ls) = (l @ nl) @ text_of ls" by (simp add: text_of_def)
  have "proper 249 l" using Cons.prems(1) by simp
  note line = load_grid_line [OF this Cons.prems(2), of "text_of ls"]
  show ?case
  proof (cases "length ks < MAX_LINE")
    case True
    from Cons.IH [OF _ loaded_snoc [OF Cons.prems(2) True], of l] Cons.prems(1) True show ?thesis
      unfolding cons line by (simp split: if_splits)
  next
    case False
    then show ?thesis unfolding cons line by simp
  qed
qed

section \<open>The cells\<close>

lemma longest_bound:
  "m \<le> fold (\<lambda>l m. if m < l then l else m) ls m \<and> (\<forall>l \<in> set ls. l \<le> fold (\<lambda>l m. if m < l then l else m) ls (m :: int))"
  by (induction ls arbitrary: m) force+

lemma longest_in: "fold (\<lambda>l m. if m < l then l else m) ls (m :: int) \<in> insert m (set ls)"
  by (induction ls arbitrary: m) (force split: if_splits)+

definition ready :: "string list \<Rightarrow> grid \<Rightarrow> bool" where
  "ready ls g \<longleftrightarrow> length ls \<le> MAX_LINE \<and> (\<forall>l \<in> set ls. proper 249 l) \<and> rows g = length ls \<and> length (line_length g) = MAX_LINE \<and>
     g_lines g = map grid_row ls @ replicate (MAX_LINE - length ls) blank_row \<and>
     (\<forall>i < length ls. line_length g ! i = int (length (ls ! i)) \<and> int (length (ls ! i)) \<le> max_length g) \<and> max_length g \<le> 249"

lemma loaded_ready:
  assumes "loaded ls g" "\<forall>l \<in> set ls. proper 249 l"
  shows "ready ls (longest g)"
proof -
  let ?ns = "take (rows g) (line_length g)"
  have ns: "?ns = map (\<lambda>l. int (length l)) ls"
    using assms(1) by (intro nth_equalityI) (auto simp: loaded_def)
  have le: "int (length (ls ! i)) \<le> max_length (longest g)" if "i < length ls" for i
    using longest_bound [of "max_length g" ?ns] that unfolding longest_def by (simp add: ns)
  have "max_length (longest g) = fold (\<lambda>l m. if m < l then l else m) ?ns (max_length g)" by (simp add: longest_def)
  moreover have "max_length g = 0" using assms(1) by (simp add: loaded_def)
  ultimately have "max_length (longest g) \<in> insert 0 (set (map (\<lambda>l. int (length l)) ls))"
    using longest_in [of ?ns "max_length g"] unfolding ns by simp
  then have "max_length (longest g) \<le> 249" using assms(2) by (auto simp: proper_def)
  with le show ?thesis using assms by (simp add: ready_def loaded_def longest_def)
qed

lemma cell_at_ready:
  assumes "ready ls g" "i < MAX_LINE" "j < MAX_CHAR"
  shows "cell_at g i j = Inr (case letter_of ls i j of None \<Rightarrow> NUL | Some c \<Rightarrow> c)"
proof (cases "i < length ls")
  case True
  then have "proper 249 (ls ! i)" using assms(1) by (simp add: ready_def)
  then have "length (grid_row (ls ! i)) = MAX_CHAR" by (simp add: grid_row_def proper_def MAX_CHAR_def)
  then show ?thesis
    using True assms by (auto simp: cell_at_def ready_def nth_append grid_row_def letter_of_def)
next
  case False
  then show ?thesis
    using assms by (simp add: cell_at_def ready_def nth_append letter_of_def blank_row_def)
qed

lemma letter_not_NUL: "ready ls g \<Longrightarrow> letter_of ls i j = Some c \<Longrightarrow> c \<noteq> NUL"
  by (auto simp: letter_of_def ready_def proper_def split: if_splits) (metis nth_mem)

text \<open>A word in its array: the letters and something after them.\<close>

definition word_array :: "string \<Rightarrow> char list \<Rightarrow> bool" where
  "word_array w arr \<longleftrightarrow> proper 9 w \<and> length arr = MAX_WORD_LENGTH \<and> (\<exists>rest. arr = w @ NUL # rest)"

lemma word_letters: "word_array w arr \<Longrightarrow> k < length w \<Longrightarrow> rd arr k = Inr (w ! k) \<and> w ! k \<noteq> NUL"
  by (auto simp: word_array_def proper_def rd_def nth_append) (metis nth_mem)

lemma all_from: "(\<forall>k < i + Suc n. i \<le> k \<longrightarrow> P k) \<longleftrightarrow> P i \<and> (\<forall>k < i + 1 + n. i + 1 \<le> k \<longrightarrow> P k)"
  by (metis Suc_eq_plus1 add_Suc_right add_Suc_shift le_eq_less_or_eq less_add_Suc1 not_less_eq_eq Suc_le_eq)

lemma same_letters_spec:
  "word_array w arr \<Longrightarrow> i + n \<le> length w \<Longrightarrow> \<forall>k < i + n. i \<le> k \<longrightarrow> letter k = Inr (case f k of None \<Rightarrow> NUL | Some c \<Rightarrow> c) \<Longrightarrow>
   same_letters letter arr i n = Inr (\<forall>k < i + n. i \<le> k \<longrightarrow> f k = Some (w ! k))"
proof (induction n arbitrary: i)
  case (Suc n)
  have w: "rd arr i = Inr (w ! i)" "w ! i \<noteq> NUL" using word_letters [OF Suc.prems(1), of i] Suc.prems(2) by simp_all
  have l: "letter i = Inr (case f i of None \<Rightarrow> NUL | Some c \<Rightarrow> c)" using Suc.prems(3) by simp
  have "same_letters letter arr (i + 1) n = Inr (\<forall>k < i + 1 + n. i + 1 \<le> k \<longrightarrow> f k = Some (w ! k))"
    using Suc.prems by (intro Suc.IH) auto
  then show ?case
    unfolding all_from using w l by (auto split: option.splits)
qed simp

lemma same_diagonal_spec:
  assumes "ready ls g" "word_array w arr"
  shows "i + n \<le> length w \<Longrightarrow> row + i + n \<le> MAX_LINE \<Longrightarrow> column + i + n \<le> MAX_CHAR \<Longrightarrow>
   same_diagonal g arr row column i n = Inr (\<forall>k < i + n. i \<le> k \<longrightarrow> letter_of ls (row + k) (column + k) = Some (w ! k))"
proof (induction n arbitrary: i)
  case (Suc n)
  have w: "rd arr i = Inr (w ! i)" "w ! i \<noteq> NUL" using word_letters [OF assms(2), of i] Suc.prems(1) by simp_all
  have c: "cell_at g (row + i) (column + i) = Inr (case letter_of ls (row + i) (column + i) of None \<Rightarrow> NUL | Some c \<Rightarrow> c)"
    using Suc.prems by (intro cell_at_ready [OF assms(1)]) simp_all
  have "same_diagonal g arr row column (i + 1) n = Inr (\<forall>k < i + 1 + n. i + 1 \<le> k \<longrightarrow> letter_of ls (row + k) (column + k) = Some (w ! k))"
    using Suc.prems by (intro Suc.IH) auto
  then show ?case
    unfolding all_from using w c letter_not_NUL [OF assms(1)] by (auto split: option.splits)
qed simp

section \<open>The directions\<close>

lemma stands_first: "0 < length w \<Longrightarrow> f 0 = Some (w ! 0) \<Longrightarrow> stands f w \<longleftrightarrow> (\<forall>k < length w. 1 \<le> k \<longrightarrow> f k = Some (w ! k))"
  unfolding stands_def by (metis One_nat_def Suc_leI neq0_conv)

lemma rest_matches_spec:
  assumes "word_array w arr" "f 0 = Some (w ! 0)" "\<forall>k < length w. letter k = Inr (case f k of None \<Rightarrow> NUL | Some c \<Rightarrow> c)"
  shows "rest_matches letter arr (int (length w)) = Inr (stands f w)"
proof -
  have w: "0 < length w" using assms(1) by (auto simp: word_array_def proper_def)
  then have "1 + (nat (int (length w)) - 1) = length w" "\<not> int (length w) < 1" by auto
  then show ?thesis
    using same_letters_spec [OF assms(1), of 1 "nat (int (length w)) - 1" letter f] assms(3) stands_first [of w f, OF w assms(2)]
    by (simp add: rest_matches_def)
qed

definition at_cell :: "string list \<Rightarrow> grid \<Rightarrow> string \<Rightarrow> char list \<Rightarrow> nat \<Rightarrow> nat \<Rightarrow> bool" where
  "at_cell ls g w arr i j \<longleftrightarrow> ready ls g \<and> word_array w arr \<and> i < length ls \<and> j < length (ls ! i) \<and>
     letter_of ls i j = Some (w ! 0)"

lemma at_cellD:
  assumes "at_cell ls g w arr i j"
  shows "ready ls g" "word_array w arr" "0 < length w" "i < rows g" "rows g \<le> MAX_LINE" "rows g = length ls"
    "j < length (ls ! i)" "length (ls ! i) \<le> 249" "letter_of ls i j = Some (w ! 0)"
  using assms by (auto simp: at_cell_def ready_def word_array_def proper_def)

lemma stands_fails: "f (length w - 1) = None \<Longrightarrow> 0 < length w \<Longrightarrow> \<not> stands f w"
  unfolding stands_def by (metis diff_less option.distinct(1) zero_less_one)

lemma is_horizontal_spec:
  assumes c: "at_cell ls g w arr i j"
  shows "is_horizontal g arr (int (length w)) i j = Inr (stands (\<lambda>k. letter_of ls i (j + k)) w)"
proof -
  note d = at_cellD [OF c]
  have len: "rd (line_length g) i = Inr (int (length (ls ! i)))" using d by (simp add: ready_def)
  show ?thesis
  proof (cases "j + length w \<le> length (ls ! i)")
    case True
    have "rest_matches (\<lambda>k. cell_at g i (j + k)) arr (int (length w)) = Inr (stands (\<lambda>k. letter_of ls i (j + k)) w)"
      using True d by (intro rest_matches_spec [OF d(2)]) (auto simp: MAX_CHAR_def intro!: cell_at_ready [OF d(1)])
    then show ?thesis using True len by (simp add: is_horizontal_def)
  next
    case False
    have "letter_of ls i (j + (length w - 1)) = None" using False d(3,7) by (auto simp: letter_of_def)
    then have "\<not> stands (\<lambda>k. letter_of ls i (j + k)) w"
      by (rule stands_fails [of "\<lambda>k. letter_of ls i (j + k)", OF _ d(3)])
    then show ?thesis using False len by (simp add: is_horizontal_def)
  qed
qed

lemma is_vertical_spec:
  assumes c: "at_cell ls g w arr i j"
  shows "is_vertical g arr (int (length w)) i j = Inr (stands (\<lambda>k. letter_of ls (i + k) j) w)"
proof -
  note d = at_cellD [OF c]
  show ?thesis
  proof (cases "i + length w \<le> rows g")
    case True
    have "rest_matches (\<lambda>k. cell_at g (i + k) j) arr (int (length w)) = Inr (stands (\<lambda>k. letter_of ls (i + k) j) w)"
      using True d by (intro rest_matches_spec [OF d(2)]) (auto simp: MAX_CHAR_def intro!: cell_at_ready [OF d(1)])
    then show ?thesis using True by (simp add: is_vertical_def)
  next
    case False
    have "letter_of ls (i + (length w - 1)) j = None" using False d(3,4,6) by (auto simp: letter_of_def)
    then have "\<not> stands (\<lambda>k. letter_of ls (i + k) j) w"
      by (rule stands_fails [of "\<lambda>k. letter_of ls (i + k) j", OF _ d(3)])
    then show ?thesis using False by (simp add: is_vertical_def)
  qed
qed

lemma is_diagonal_spec:
  assumes c: "at_cell ls g w arr i j"
  shows "is_diagonal g arr (int (length w)) i j = Inr (stands (\<lambda>k. letter_of ls (i + k) (j + k)) w)"
proof -
  note d = at_cellD [OF c]
  have max: "max_length g \<le> 249" "length (ls ! k) \<le> nat (max_length g)" if "k < length ls" for k
    using d(1) that by (auto simp: ready_def)
  show ?thesis
  proof (cases "i + length w \<le> rows g \<and> int j + int (length w) \<le> max_length g")
    case True
    have "same_diagonal g arr i j 1 (length w - 1) =
        Inr (\<forall>k < 1 + (length w - 1). 1 \<le> k \<longrightarrow> letter_of ls (i + k) (j + k) = Some (w ! k))"
      using True d max(1) [of i] by (intro same_diagonal_spec [OF d(1,2)]) (auto simp: MAX_CHAR_def)
    then show ?thesis
      using True d(3,9) stands_first [OF d(3), of "\<lambda>k. letter_of ls (i + k) (j + k)"]
      by (simp add: is_diagonal_def)
  next
    case False
    have "letter_of ls (i + (length w - 1)) (j + (length w - 1)) = None"
    proof (cases "i + (length w - 1) < length ls")
      case True
      then have "length (ls ! (i + (length w - 1))) \<le> j + (length w - 1)"
        using False max(2) [OF True] d(3,6) by linarith
      then show ?thesis by (simp add: letter_of_def)
    qed (simp add: letter_of_def)
    then have "\<not> stands (\<lambda>k. letter_of ls (i + k) (j + k)) w"
      by (rule stands_fails [of "\<lambda>k. letter_of ls (i + k) (j + k)", OF _ d(3)])
    then show ?thesis using False by (auto simp: is_diagonal_def)
  qed
qed

section \<open>The output\<close>

lemma look_at_spec:
  assumes g: "ready ls g" and w: "word_array w arr" and i: "i < length ls" and j: "j < length (ls ! i)"
  shows "look_at g arr (int (length w)) i j = Inr (occurrence ls w i j)"
proof -
  have cell: "cell_at g i j = Inr (ls ! i ! j)"
  proof -
    have "i < MAX_LINE" "j < MAX_CHAR" using assms by (auto simp: ready_def proper_def MAX_CHAR_def dest: nth_mem)
    from cell_at_ready [OF g this] i j show ?thesis by (simp add: letter_of_def)
  qed
  have word: "rd arr 0 = Inr (w ! 0)" "0 < length w" "cstr arr = w"
    using word_letters [OF w, of 0] w by (auto simp: word_array_def proper_def intro: cstr_until)
  show ?thesis
  proof (cases "ls ! i ! j = w ! 0")
    case True
    then have c: "at_cell ls g w arr i j" using assms by (simp add: at_cell_def letter_of_def)
    show ?thesis
      using cell word True is_horizontal_spec [OF c] is_vertical_spec [OF c] is_diagonal_spec [OF c]
      by (simp add: look_at_def occurrence_def found_line_def)
  next
    case False
    then have "\<not> stands f w" if "f 0 = letter_of ls i j" for f
      using that word(2) i j by (auto simp: stands_def letter_of_def)
    then show ?thesis using cell word False by (simp add: look_at_def occurrence_def)
  qed
qed

lemma gather_spec: "\<forall>x \<in> set xs. f x = Inr (h x) \<Longrightarrow> gather f xs = Inr (concat (map h xs))"
  by (induction xs) auto

lemma look_for_spec:
  assumes "ready ls g" "word_array w arr"
  shows "look_for g arr (int (length w)) = Inr (occurrences ls w)"
proof -
  have "gather (look_at g arr (int (length w)) i) [0..<length (ls ! i)] = Inr (concat (map (occurrence ls w i) [0..<length (ls ! i)]))"
    if "i < length ls" for i
    using look_at_spec [OF assms that] by (intro gather_spec) simp
  moreover have "rd (line_length g) i = Inr (int (length (ls ! i)))" if "i < length ls" for i
    using assms(1) that by (simp add: ready_def)
  moreover have "rows g = length ls" using assms(1) by (simp add: ready_def)
  ultimately show ?thesis
    unfolding look_for_def occurrences_def by (intro gather_spec [THEN trans]) (simp_all add: gather_spec)
qed

lemma look_for_all_spec:
  assumes "ready ls g"
  shows "\<forall>w \<in> set ws. proper 9 w \<Longrightarrow> length arr = MAX_WORD_LENGTH \<Longrightarrow>
    look_for_all g (text_of ws) arr = Inr (concat (map (occurrences ls) ws))"
proof (induction ws arbitrary: arr)
  case Nil
  then show ?case by (simp add: text_of_def look_for_all.simps [of g "[]"])
next
  case (Cons w ws)
  define arr' where "arr' = w @ NUL # NUL # drop (length w + 2) arr"
  define content where "content = (w @ nl) @ text_of ws"
  have w: "proper 9 w" using Cons.prems(1) by simp
  have cons: "text_of (w # ws) = content" by (simp add: text_of_def content_def)
  have got: "got_line (w @ nl) arr = (arr', int (length w))"
    unfolding arr'_def using Cons.prems(2) by (intro got_line_proper [OF w]) (simp add: MAX_WORD_LENGTH_def)
  have line: "read_line (MAX_WORD_LENGTH - 1) content = (w @ nl, text_of ws)"
    using read_line_proper [OF w, of 10 "text_of ws"] by (simp add: MAX_WORD_LENGTH_def content_def)
  have len: "length arr' = MAX_WORD_LENGTH" using Cons.prems(2) w by (simp add: proper_def MAX_WORD_LENGTH_def arr'_def)
  have word: "word_array w arr'" using w len by (auto simp: word_array_def arr'_def)
  have "content \<noteq> []" using w by (simp add: proper_def content_def)
  then have "look_for_all g content arr =
      rbind (look_for g arr' (int (length w))) (\<lambda>found. rbind (look_for_all g (text_of ws) arr') (\<lambda>more. Inr (found @ more)))"
    using look_for_all.simps [of g content arr] unfolding line by (simp add: got)
  moreover have "look_for_all g (text_of ws) arr' = Inr (concat (map (occurrences ls) ws))"
    using Cons.prems(1) by (intro Cons.IH [OF _ len]) simp
  ultimately show ?case unfolding cons by (simp add: look_for_spec [OF assms word])
qed


text \<open>
  The number of lines is compared only after a line has been read: with more than 101 lines
  the next one is written past the end of the array.
\<close>

theorem too_many_lines_overflow:
  assumes "\<forall>l \<in> set ls. proper 249 l" "101 < length ls"
  shows "search_words words (text_of ls) = Inl OutOfBounds"
proof -
  have "loaded [] new_grid" by (simp add: loaded_def new_grid_def blank_row_def)
  from load_grid_spec [OF assms(1) this] assms(2) show ?thesis by (simp add: search_words_def MAX_LINE_def)
qed

section \<open>Witnesses\<close>

definition demo_grid :: "string list" where
  "demo_grid = [''catx'', ''oat'', ''dogt'']"


theorem too_many_lines_overflow_witness:
  "search_words [] (text_of (replicate 102 ''a'')) = Inl OutOfBounds"
  by (rule too_many_lines_overflow) (auto simp: proper_def NUL_def LF_def)

end
