(* ===== verification/Spec2Isabelle.thy ===== *)
theory Spec2Isabelle
  imports Chat_Crowd Chat_Locks Chat_Client_Witnesses Bank_Witnesses Log_Properties Cpu_Witnesses Satellite File_Manager_Properties
    Circuit_Witnesses Sparse_Properties School_Properties
    Robots_Properties Catalog_Properties Bank_Client_Properties Bank_Replies Daemon_Runs
    Guessing_Properties Word_Search_Properties
begin

text \<open>
  Verification of the C and C++ programs of a repository of course work: sixteen programs, each
  modelled from its source under src/ in theories of its own, over a common prelude. Only the chat
  server and the bank server work together with other programs, which are their clients.

  The prelude. \<open>C_Base\<close> has the result type in which undefined behaviour (an access outside an
  array, NULL, freed or uninitialised memory, a signed overflow, a copy past the end of its
  destination) is an error value, machine integers as int with their ranges written out, strings
  without their NUL, and lemmas on lists. \<open>C_Format\<close> is printf and scanf as far as used and
  integers as bytes, \<open>C_Text\<close> the reading by lines and words, \<open>Cxx_Exception\<close> the outcome of code
  that may throw or exit, with rules for what code keeps and what it does not see.
  \<open>Container_Contracts\<close> has two interfaces: the locale \<open>bounded_fifo\<close> is the contract of a bounded
  queue, which the ring of the log searcher and the file queue of the chat server both fulfil; the
  locale \<open>file_table\<close> is that of the table of received files, of the chat server and its client. A third locale, \<open>sorter\<close> in \<open>Sparse_Properties\<close>, is what vectors and matrices need of
  their sort. Every locale is interpreted on the model of the code.

  Chat server (System Programming/Final: server.c, server.h). \<open>Chat_State\<close> has the tables of
  clients and rooms and the file queue as one record; \<open>Chat_Rooms\<close>, \<open>Chat_Files\<close> and
  \<open>Chat_Commands\<close> have a definition per function and per branch of the command loop, each critical
  section a step of \<open>server_step\<close>; \<open>Chat_Membership\<close>, \<open>Chat_Server\<close> and \<open>Chat_Steps\<close> prove the
  invariant of every reachable state and that only two malformed command lines are undefined;
  \<open>Chat_Properties\<close> states what the commands deliver, \<open>Chat_Faults\<close> where it goes
  wrong (with \<open>Chat_Crowd\<close> for reachable full rooms), \<open>Chat_Locks\<close> the order of the mutexes and the
  deadlock it allows. \<open>Chat_Witnesses\<close> runs concrete schedules.

  Chat client (System Programming/Final: client.c, client.h). \<open>Chat_Client\<close> has the main thread and
  the receiving thread as steps (\<open>client_step\<close>), \<open>Chat_Client_Properties\<close> what a typed line sends and
  what a message shows. \<open>Chat_Messages\<close> proves which shapes the messages of the server have,
  \<open>Chat_System\<close> that the client handles them but for three kinds that overflow its arrays,
  \<open>Chat_Requests\<close> the two programs together: what is typed is served, the login on which they agree,
  and a whisper from one keyboard to another screen; \<open>Chat_Client_Witnesses\<close> the overflow by a file
  whose sender has left. Client and server exchange one message per recv.

  Bank server (System Programming/Midterm: server.c). \<open>Bank_State\<close> has the requests and accounts,
  \<open>Bank_Tellers\<close> the teller processes of one turn in any order, \<open>Bank_Log\<close> the log file and the
  database that is read from it, \<open>Bank_Semaphores\<close> the critical section of a deposit, one memory
  access per step, with one or with private semaphores, \<open>Bank_Properties\<close> the conservation of money,
  the round trip of the log and the identity that tellers share.

  Bank client (System Programming/Midterm: client.c). \<open>Bank_Client\<close> follows the program from its
  file to the removal of its FIFOs, with the bytes it sends and what the server reads of them;
  \<open>Bank_Client_Properties\<close> proves when the words of the file fit, that the server gets exactly these
  requests and answers them, and what a run prints. \<open>Bank_Replies\<close> is the FIFO of one client, the
  calls of both programs as steps: all runs are evaluated, and they end in six ways.

  Daemon (System Programming/HW2: main.c). \<open>Daemon\<close> has the start with the table of descriptors and
  the parent, the two children, the handlers and the time limit as steps; \<open>Daemon_Properties\<close>
  proves by an invariant what is logged in any order of them, and when success is reported;
  \<open>Daemon_Runs\<close> has a run that succeeds and one in which the number is lost for good.

  Log searcher (System Programming/HW4: buffer.c, buffer.h, main.c). \<open>Log_Buffer\<close> is the ring,
  \<open>Log_Search\<close> the manager and worker threads with their condition variables, \<open>Log_Properties\<close> the
  total that is printed, absence of deadlock, termination within 8 steps per line and 4 per worker
  and 2 more, and the interrupt after which the manager hangs.

  Processor simulator (Operating Systems/Semester Project: memory.cpp, cpu.cpp, instruction.h,
  parser.cpp, main.cpp). \<open>Cpu_Memory\<close>, \<open>Cpu_Machine\<close> (a definition per instruction, \<open>execute\<close> and
  the main loop), \<open>Cpu_Parser\<close>; \<open>Cpu_Safety\<close> proves that user code neither changes nor sees kernel
  memory, with the exception that is shown, \<open>Cpu_Syntax\<close> the round trip of program files,
  \<open>Cpu_Programs\<close> that every file runs to an end within MAX_CYCLES and what the first test program
  computes. The loop counts the executed instructions, so its termination needs no fuel.

  Satellite simulation (System Programming/HW3: main.c). \<open>Satellite_Queue\<close> is the array of pointers
  in the order of priority and arrival, \<open>Satellite\<close> the threads as steps, the invariant of the
  reachable states, and the two undefined accesses that are reachable.

  File manager (System Programming/HW1: main.c). \<open>File_System\<close> models the calls of POSIX it uses on
  files by path, \<open>File_Manager\<close> has every command and the dispatch, \<open>File_Manager_Properties\<close> what a
  run can change, that it ends by an exit when the arguments have at most 97 characters, the round
  trip of creating, appending and reading, and the exit codes lost between child and parent.

  Circuit simulator (Computer Programming Fall/PA7: PA7.c). \<open>Circuit\<close> follows the code from the
  netlist to the deallocation; the functions that follow pointers have fuel, and None is running
  out of it. \<open>Circuit_Semantics\<close> relates the gates to formulas (\<open>represents\<close>), for which the depth of
  the formula is enough fuel; \<open>Circuit_Netlist\<close> is the round trip of netlists,
  \<open>Circuit_Properties\<close> the outputs, the comparison with a clocked circuit, cycles, and when the
  deallocation is defined; \<open>Circuit_Witnesses\<close> has circuits on which flip-flops go wrong.

  Sparse vectors and matrices (Object Oriented Programming Spring/PA2). \<open>Sparse\<close> has the operations
  on lists of entries over any numbers, \<open>Sparse_Properties\<close> the sums, the difference with the wrong
  sign, the sums that are undefined, and the transpose.

  School management (Object Oriented Programming Spring/PA3). \<open>Cxx_Console\<close> is cin with its state
  bits and cout. \<open>School\<close> has the heaps of student and course objects, the growing arrays of
  pointers and the destructors, \<open>School_Menu\<close> the functions of the system and a step per turn of
  a menu. \<open>School_Spec\<close> is the register, the same steps on lists without pointers;
  \<open>School_Arrays\<close>, \<open>School_Objects\<close>, \<open>School_Effects\<close>, \<open>School_Deletion\<close> and \<open>School_Refinement\<close>
  prove the refinement: who owns which object, and what every operation makes of the lists.
  \<open>School_Register\<close> proves on the register what makes the array of available courses large
  enough, \<open>School_Properties\<close> has the runs, and the sessions that end in undefined behaviour.

  Robot game (Object Oriented Programming Spring/PA4). \<open>Robots\<close> has the grid of pointers, the heap of
  robots with the class that a virtual call is dispatched on, and every function as an action on
  the game; the numbers of rand are a list of draws, and a run that needs more is waiting for them.
  A round of a fight that goes on takes a draw, so the loops end and need no fuel but for the outer
  one. \<open>Robots_Fight\<close> has the rules for weakest preconditions and the outcome of a fight,
  \<open>Robots_Game\<close> the invariant of the grid and that a whole game is defined, \<open>Robots_Liveness\<close> that it
  can always still end, \<open>Robots_Properties\<close> who leaves the grid after a fight, and the dead robots
  that stay on it.

  Catalog of typed records (Object Oriented Programming Spring/PA5). \<open>Catalog\<close> has the format, the
  fields of the four types, alone or in lists, the entries with their exceptions, and the commands;
  \<open>Catalog_Properties\<close> which lines are loaded, that no command fails after that, the round trip of
  an entry, and the inputs that end in undefined behaviour or an exception that is not caught.

  Number guessing (Object Oriented Programming Spring/PA1). \<open>Guessing\<close> has the drawing of the
  number from a list of draws, the reading of a guess with its errors, the hints and the loop of at
  most 100 guesses, whose count makes it end; \<open>Guessing_Properties\<close> proves that the hints count the
  digits at their place and at another one, and that the program prints what the rules of the game
  say for every command line; a drawn number that begins with 0 is never found.

  Word search (Computer Programming Fall/PA4: PA4.c). \<open>Word_Search\<close> has the two-dimensional array,
  its loading by fgets and the three directions of the search; \<open>Word_Search_Properties\<close> proves that
  the output has exactly the places at which the words stand, and the overflow by a line too many.

  Interleaving and choice: threads and processes are steps in any order, a step being a section
  under a mutex or a single access without one. Time stamps, random numbers and what clients send
  are arguments or events. Creating threads, processes and sockets is taken to succeed.

  Not modelled: lines that are only printed for the operator (the chat and bank servers record the
  messages to clients), the command lines and socket set-up of the servers, the memory dumps and
  the thread table of the processor simulator, the clock and sleeping, paths with . or .. in the
  file manager, the rounding of double, the sleeping of the daemon
  (a step may come at any time). Not modelled at all are the five other short programs of the first
  course (PA1, PA2, PA3, PA5 and PA6), which are the smallest of the repository.
  Of the G++ lexer and interpreter lex.yy.c and y.tab.c are generated by flex and yacc from a lexer
  specification and a grammar; the Java, Lisp and Prolog programs are in other languages.
\<close>

end
